(* ===== verification/Prelude.thy ===== *)
theory Prelude
  imports Main "HOL-Library.Word"
begin

text \<open>
  Shared vocabulary of the development.

  \<^item> The outcome of a Rust call: \<open>Ok\<close> and \<open>Err\<close> are the two cases of \<open>Result\<close>; \<open>Panic\<close> is a
    call that does not return to its caller (a failed \<open>assert!\<close>, an index out of range, an
    arithmetic overflow under Rust's overflow checks, unbounded recursion).
  \<^item> An action on a state, which yields an outcome and the state left behind. The state is kept
    on the error branch too: Rust's \<open>?\<close> returns early without undoing earlier mutations.
  \<^item> Integer types: \<open>u32\<close> and \<open>u64\<close> values that identify things are machine words. A \<open>usize\<close>
    that counts elements held in memory is a natural number, and where the source multiplies,
    increments or casts it in a way that can leave 64 bits, the width is written out.
  \<^item> Generic lemmas on lists, prefixes and words that the component theories share.
\<close>

section \<open>Integers\<close>

type_synonym u8 = "8 word"
type_synonym u16 = "16 word"
type_synonym u32 = "32 word"
type_synonym u64 = "64 word"
type_synonym usize = nat
type_synonym token_id = u32

text \<open>The largest \<open>u64\<close> and (on the 64-bit targets of the program) \<open>usize\<close>.\<close>

definition max64 :: nat where
  "max64 = 2 ^ 64 - 1"

text \<open>\<open>saturating_add\<close> on a 64-bit quantity kept as a natural number.\<close>

definition sat_add64 :: "nat \<Rightarrow> nat \<Rightarrow> nat" where
  "sat_add64 a b = min (a + b) max64"

text \<open>\<open>usize::div_ceil\<close>.\<close>

definition div_ceil :: "nat \<Rightarrow> nat \<Rightarrow> nat" where
  "div_ceil a b = (if a mod b = 0 then a div b else a div b + 1)"

lemma sat_add64_ge: "a \<le> max64 \<Longrightarrow> a \<le> sat_add64 a b"
  by (simp add: sat_add64_def)

lemma sat_add64_le_max [simp]: "sat_add64 a b \<le> max64"
  by (simp add: sat_add64_def)

lemma sat_add64_one_less: "a < max64 \<Longrightarrow> a < sat_add64 a 1"
  by (simp add: sat_add64_def)

lemma div_ceil_bounds:
  assumes "0 < b"
  shows "a \<le> div_ceil a b * b" and "div_ceil a b * b < a + b"
proof -
  define q r where "q = a div b" and "r = a mod b"
  have a: "a = q * b + r" and r: "r < b"
    using assms by (simp_all add: q_def r_def)
  have d: "div_ceil a b = (if r = 0 then q else q + 1)"
    by (simp add: div_ceil_def q_def r_def)
  show "a \<le> div_ceil a b * b"
    unfolding d using r a by (cases "r = 0") (simp_all add: distrib_right)
  show "div_ceil a b * b < a + b"
    unfolding d using r a assms by (cases "r = 0") (simp_all add: distrib_right)
qed

lemma div_ceil_0 [simp]: "div_ceil 0 b = 0"
  by (simp add: div_ceil_def)

section \<open>Outcomes\<close>

datatype ('e, 'a) outcome = Ok 'a | Err 'e | Panic

fun is_Ok :: "('e, 'a) outcome \<Rightarrow> bool" where
  "is_Ok (Ok a) = True"
| "is_Ok (Err e) = False"
| "is_Ok Panic = False"

fun bind_outcome :: "('e, 'a) outcome \<Rightarrow> ('a \<Rightarrow> ('e, 'b) outcome) \<Rightarrow> ('e, 'b) outcome" where
  "bind_outcome (Ok a) f = f a"
| "bind_outcome (Err e) f = Err e"
| "bind_outcome Panic f = Panic"

lemma is_Ok_iff: "is_Ok r \<longleftrightarrow> (\<exists>a. r = Ok a)"
  by (cases r) auto

lemma bind_outcome_Ok_iff [simp]:
  "bind_outcome r f = Ok b \<longleftrightarrow> (\<exists>a. r = Ok a \<and> f a = Ok b)"
  by (cases r) auto

lemma bind_outcome_Err_iff:
  "bind_outcome r f = Err e \<longleftrightarrow> r = Err e \<or> (\<exists>a. r = Ok a \<and> f a = Err e)"
  by (cases r) auto

section \<open>Actions\<close>

type_synonym ('s, 'e, 'a) act = "'s \<Rightarrow> ('e, 'a) outcome \<times> 's"

definition ret :: "'a \<Rightarrow> ('s, 'e, 'a) act" where
  "ret a s = (Ok a, s)"

definition throw :: "'e \<Rightarrow> ('s, 'e, 'a) act" where
  "throw e s = (Err e, s)"

definition panic :: "('s, 'e, 'a) act" where
  "panic s = (Panic, s)"

definition modify :: "('s \<Rightarrow> 's) \<Rightarrow> ('s, 'e, unit) act" where
  "modify f s = (Ok (), f s)"

text \<open>Sequencing is Rust's \<open>?\<close>: the first error or panic is the result, and the state stays as
  the failing call left it.\<close>

definition and_then :: "('s, 'e, 'a) act \<Rightarrow> ('a \<Rightarrow> ('s, 'e, 'b) act) \<Rightarrow> ('s, 'e, 'b) act" where
  "and_then m f s =
     (case m s of
        (Ok a, s') \<Rightarrow> f a s'
      | (Err e, s') \<Rightarrow> (Err e, s')
      | (Panic, s') \<Rightarrow> (Panic, s'))"

text \<open>\<open>if let Err(error) = m { handler }\<close>, where the handler ends in a result of its own.\<close>

definition or_else :: "('s, 'e, 'a) act \<Rightarrow> ('e \<Rightarrow> ('s, 'e, 'a) act) \<Rightarrow> ('s, 'e, 'a) act" where
  "or_else m handler s =
     (case m s of
        (Ok a, s') \<Rightarrow> (Ok a, s')
      | (Err e, s') \<Rightarrow> handler e s'
      | (Panic, s') \<Rightarrow> (Panic, s'))"

text \<open>\<open>?\<close> with a \<open>From\<close> conversion of the error.\<close>

fun map_err :: "('e \<Rightarrow> 'f) \<Rightarrow> ('e, 'a) outcome \<Rightarrow> ('f, 'a) outcome" where
  "map_err f (Ok a) = Ok a"
| "map_err f (Err e) = Err (f e)"
| "map_err f Panic = Panic"

text \<open>An action on a component of a larger state.\<close>

definition zoom ::
  "('s \<Rightarrow> 'c) \<Rightarrow> ('c \<Rightarrow> 's \<Rightarrow> 's) \<Rightarrow> ('e \<Rightarrow> 'f) \<Rightarrow> ('c, 'e, 'a) act \<Rightarrow> ('s, 'f, 'a) act" where
  "zoom get put conv m s = (let (r, c) = m (get s) in (map_err conv r, put c s))"

lemma and_then_Ok_iff:
  "and_then m f s = (Ok b, s'') \<longleftrightarrow> (\<exists>a s'. m s = (Ok a, s') \<and> f a s' = (Ok b, s''))"
  by (auto simp: and_then_def split: prod.splits outcome.splits)

lemma and_then_Err_iff:
  "and_then m f s = (Err e, s'') \<longleftrightarrow>
     m s = (Err e, s'') \<or> (\<exists>a s'. m s = (Ok a, s') \<and> f a s' = (Err e, s''))"
  by (auto simp: and_then_def split: prod.splits outcome.splits)

lemma map_err_Ok_iff [simp]: "map_err f r = Ok a \<longleftrightarrow> r = Ok a"
  by (cases r) auto

lemma map_err_Err_iff: "map_err f r = Err e \<longleftrightarrow> (\<exists>d. r = Err d \<and> e = f d)"
  by (cases r) auto

lemma map_err_Panic_iff [simp]: "map_err f r = Panic \<longleftrightarrow> r = Panic"
  by (cases r) auto

section \<open>Lists\<close>

text \<open>The number of leading positions at which two lists agree
  (\<open>zip\<close>, \<open>take_while\<close>, \<open>count\<close>).\<close>

definition agree_len :: "'a list \<Rightarrow> 'a list \<Rightarrow> nat" where
  "agree_len xs ys = length (takeWhile (\<lambda>(x, y). x = y) (zip xs ys))"

lemma agree_len_Nil [simp]: "agree_len [] ys = 0" "agree_len xs [] = 0"
  by (simp_all add: agree_len_def)

lemma agree_len_Cons [simp]:
  "agree_len (x # xs) (y # ys) = (if x = y then Suc (agree_len xs ys) else 0)"
  by (simp add: agree_len_def)

lemma agree_len_le: "agree_len xs ys \<le> length xs" "agree_len xs ys \<le> length ys"
  by (induction xs ys rule: list_induct2') auto

lemma agree_len_take: "take (agree_len xs ys) xs = take (agree_len xs ys) ys"
  by (induction xs ys rule: list_induct2') auto

lemma agree_len_nth:
  assumes "agree_len xs ys < length xs" "agree_len xs ys < length ys"
  shows "xs ! agree_len xs ys \<noteq> ys ! agree_len xs ys"
  using assms by (induction xs ys rule: list_induct2') (auto split: if_splits)

lemma agree_len_full: "agree_len xs ys = length ys \<longleftrightarrow> take (length ys) xs = ys"
  by (induction xs ys rule: list_induct2') auto

lemma agree_len_pos: "0 < agree_len (x # xs) ys \<longleftrightarrow> (\<exists>zs. ys = x # zs)"
  by (cases ys) auto

lemma list_all2_in1: "list_all2 P xs ys \<Longrightarrow> x \<in> set xs \<Longrightarrow> \<exists>y \<in> set ys. P x y"
  by (induction rule: list_all2_induct) auto

lemma list_all2_in2: "list_all2 P xs ys \<Longrightarrow> y \<in> set ys \<Longrightarrow> \<exists>x \<in> set xs. P x y"
  by (induction rule: list_all2_induct) auto

lemma sum_list_nth_update:
  fixes f :: "'a \<Rightarrow> nat"
  assumes "i < length xs"
  shows "sum_list (map f (xs[i := y])) + f (xs ! i) = sum_list (map f xs) + f y"
  using assms by (induction xs arbitrary: i) (auto split: nat.splits)

section \<open>Words\<close>

lemma word_less_succ:
  fixes x n :: "'a::len word"
  assumes "x \<le> n" and "n \<noteq> - 1"
  shows "x < n + 1"
proof -
  have "1 + unat n \<noteq> 2 ^ LENGTH('a)"
  proof
    assume "1 + unat n = 2 ^ LENGTH('a)"
    then have "of_nat (1 + unat n) = (0 :: 'a word)" by simp
    then have "1 + n = 0" by simp
    with assms(2) show False by (simp add: add_eq_0_iff)
  qed
  moreover have "unat n < 2 ^ LENGTH('a)" by simp
  ultimately have "1 + unat n < 2 ^ LENGTH('a)" by linarith
  then have "unat (n + 1) = unat n + 1"
    by (simp add: unat_word_ariths)
  with assms(1) show ?thesis
    by (simp add: word_less_nat_alt word_le_nat_alt)
qed

lemma unat_of_nat_small: "n < 2 ^ LENGTH('a) \<Longrightarrow> unat (of_nat n :: 'a::len word) = n"
  by (simp add: unsigned_of_nat take_bit_nat_eq_self)

lemma word_less_succ_self: "n \<noteq> - 1 \<Longrightarrow> (n::'a::len word) < n + 1"
  by (rule word_less_succ) simp_all

end
