(* ===== verification/SlotManager.thy ===== *)
theory SlotManager
  imports Prelude "HOL-Library.Multiset"
begin

text \<open>
  The slot pool (\<open>src/src/slot_manager.rs\<close>): a FIFO of free slot numbers. The locale \<open>id_pool\<close> is the
  contract of anything that hands out and takes back identifiers, \<open>fifo_pool\<close> the stronger one of
  a first-in first-out free list; \<open>SlotPool\<close> is interpreted as a \<open>fifo_pool\<close>. The step relation
  \<open>slot_reach\<close> is a client that returns only slots it holds.
\<close>

section \<open>State and operations\<close>

type_synonym slot_id = u32

record slot_pool =
  free_slots :: "u32 list"
  max_slots :: usize

text \<open>\<open>for i in 0..max_slots { push_back(i as u32) }\<close>: the cast keeps the low 32 bits.\<close>

definition slot_pool_new :: "usize \<Rightarrow> slot_pool" where
  "slot_pool_new n = \<lparr>free_slots = map (\<lambda>i. of_nat i) [0..<n], max_slots = n\<rparr>"

definition slot_alloc :: "slot_pool \<Rightarrow> slot_id option \<times> slot_pool" where
  "slot_alloc p =
     (case free_slots p of
        [] \<Rightarrow> (None, p)
      | s # rest \<Rightarrow> (Some s, p\<lparr>free_slots := rest\<rparr>))"

definition slot_release :: "slot_id \<Rightarrow> (slot_pool, 'e, unit) act" where
  "slot_release s p =
     (if unat s < max_slots p then (Ok (), p\<lparr>free_slots := free_slots p @ [s]\<rparr>)
      else (Panic, p))"

definition available_slots :: "slot_pool \<Rightarrow> usize" where
  "available_slots p = length (free_slots p)"

definition slot_capacity :: "slot_pool \<Rightarrow> usize" where
  "slot_capacity p = max_slots p"

definition slot_is_empty :: "slot_pool \<Rightarrow> bool" where
  "slot_is_empty p = (free_slots p = [])"

text \<open>A client's view: the pool and the slots it currently holds.\<close>

inductive slot_reach :: "usize \<Rightarrow> slot_pool \<Rightarrow> slot_id list \<Rightarrow> bool" for n where
  start: "slot_reach n (slot_pool_new n) []"
| alloc: "slot_reach n p held \<Longrightarrow> slot_alloc p = (Some s, p') \<Longrightarrow> slot_reach n p' (s # held)"
| release: "slot_reach n p held \<Longrightarrow> s \<in> set held \<Longrightarrow>
    slot_release s p = (Ok () :: (unit, unit) outcome, p') \<Longrightarrow> slot_reach n p' (remove1 s held)"

inductive_cases slot_reach_holds: "slot_reach n p (s # held)"

section \<open>The contract of a pool of identifiers\<close>

locale id_pool =
  fixes free :: "'p \<Rightarrow> 'i list"
    and take :: "'p \<Rightarrow> 'i option \<times> 'p"
    and give :: "'i \<Rightarrow> 'p \<Rightarrow> 'p"
    and valid :: "'p \<Rightarrow> 'i \<Rightarrow> bool"
  assumes take_None: "take p = (None, p') \<Longrightarrow> free p = [] \<and> p' = p"
    and take_Some: "take p = (Some i, p') \<Longrightarrow> mset (free p) = add_mset i (mset (free p'))"
    and give_mset: "valid p i \<Longrightarrow> mset (free (give i p)) = add_mset i (mset (free p))"
begin

text \<open>\<open>accounts U p held\<close>: the identifiers of \<open>U\<close> are exactly the free ones and the held ones.\<close>

definition accounts :: "'i multiset \<Rightarrow> 'p \<Rightarrow> 'i list \<Rightarrow> bool" where
  "accounts U p held \<longleftrightarrow> mset (free p) + mset held = U"

lemma accounts_take: "accounts U p held \<Longrightarrow> take p = (Some i, p') \<Longrightarrow> accounts U p' (i # held)"
  using take_Some [of p i p'] by (simp add: accounts_def)

lemma accounts_give:
  "accounts U p held \<Longrightarrow> i \<in> set held \<Longrightarrow> valid p i \<Longrightarrow> accounts U (give i p) (remove1 i held)"
  by (auto simp: accounts_def give_mset)

lemma accounts_distinct:
  assumes "accounts (mset us) p held" "distinct us"
  shows "distinct (held @ free p)" and "set (held @ free p) = set us"
proof -
  have m: "mset (held @ free p) = mset us"
    using assms(1) by (simp add: accounts_def union_commute)
  show "distinct (held @ free p)"
    using assms(2) mset_eq_imp_distinct_iff [OF m] by simp
  show "set (held @ free p) = set us"
    using mset_eq_setD [OF m] by simp
qed

end

locale fifo_pool =
  fixes free :: "'p \<Rightarrow> 'i list"
    and take :: "'p \<Rightarrow> 'i option \<times> 'p"
    and give :: "'i \<Rightarrow> 'p \<Rightarrow> 'p"
    and valid :: "'p \<Rightarrow> 'i \<Rightarrow> bool"
  assumes take_Nil: "free p = [] \<Longrightarrow> take p = (None, p)"
    and take_Cons: "free p = i # is \<Longrightarrow> \<exists>p'. take p = (Some i, p') \<and> free p' = is"
    and give_back: "valid p i \<Longrightarrow> free (give i p) = free p @ [i]"
begin

text \<open>Taking \<open>n\<close> times from a pool that holds enough gives the first \<open>n\<close> free identifiers in order.\<close>

fun take_n :: "nat \<Rightarrow> 'p \<Rightarrow> 'i list \<times> 'p" where
  "take_n 0 p = ([], p)"
| "take_n (Suc n) p =
     (case take p of
        (None, p') \<Rightarrow> ([], p')
      | (Some i, p') \<Rightarrow> (let (is, q) = take_n n p' in (i # is, q)))"

lemma take_n_prefix:
  "take_n n p = (is, q) \<Longrightarrow> is = List.take n (free p) \<and> free q = drop n (free p)"
proof (induction n arbitrary: p "is" q)
  case 0
  then show ?case by simp
next
  case (Suc n)
  show ?case
  proof (cases "free p")
    case Nil
    with Suc.prems show ?thesis by (simp add: take_Nil)
  next
    case (Cons i fs)
    then obtain p' where p': "take p = (Some i, p')" "free p' = fs" using take_Cons by blast
    with Suc.prems Suc.IH [of p'] Cons show ?thesis by (auto split: prod.splits)
  qed
qed

text \<open>A returned identifier is handed out again after all that were free before it.\<close>

lemma give_then_last:
  assumes "valid p i"
  shows "fst (take_n (Suc (length (free p))) (give i p)) = free p @ [i]"
proof -
  obtain xs q where t: "take_n (Suc (length (free p))) (give i p) = (xs, q)" by fastforce
  then have "xs = List.take (Suc (length (free p))) (free (give i p))"
    using take_n_prefix by blast
  with t show ?thesis by (simp add: give_back [OF assms])
qed

end

sublocale fifo_pool \<subseteq> ids: id_pool free take give valid
proof
  fix p p' i
  show "take p = (None, p') \<Longrightarrow> free p = [] \<and> p' = p"
    by (cases "free p") (use take_Nil [of p] take_Cons [of p] in auto)
  show "take p = (Some i, p') \<Longrightarrow> mset (free p) = add_mset i (mset (free p'))"
    by (cases "free p") (use take_Nil [of p] take_Cons [of p] in auto)
  show "valid p i \<Longrightarrow> mset (free (give i p)) = add_mset i (mset (free p))"
    by (simp add: give_back)
qed

text \<open>The state change of a release that passes the assertion.\<close>

definition slot_give :: "slot_id \<Rightarrow> slot_pool \<Rightarrow> slot_pool" where
  "slot_give s p = p\<lparr>free_slots := free_slots p @ [s]\<rparr>"

lemma slot_release_give:
  "slot_release s p = (Ok (), p') \<longleftrightarrow> unat s < max_slots p \<and> p' = slot_give s p"
  by (auto simp: slot_release_def slot_give_def)

interpretation slots: fifo_pool free_slots slot_alloc slot_give "\<lambda>p s. unat s < max_slots p"
  by unfold_locales (auto simp: slot_alloc_def slot_give_def)

section \<open>Lemmas\<close>

lemma slot_alloc_frame [simp]: "slot_alloc p = (r, p') \<Longrightarrow> max_slots p' = max_slots p"
  by (auto simp: slot_alloc_def split: list.splits)

lemma slot_alloc_None_iff: "fst (slot_alloc p) = None \<longleftrightarrow> free_slots p = []"
  by (simp add: slot_alloc_def split: list.splits)

lemma slot_pool_new_distinct:
  assumes "n \<le> 2 ^ 32"
  shows "distinct (free_slots (slot_pool_new n))"
proof -
  have "inj_on (\<lambda>i. of_nat i :: u32) {0..<n}"
  proof (rule inj_onI)
    fix x y assume xy: "x \<in> {0..<n}" "y \<in> {0..<n}" "(of_nat x :: u32) = of_nat y"
    from xy(1,2) have "unat (of_nat x :: u32) = x" "unat (of_nat y :: u32) = y"
      using assms by (auto intro!: unat_of_nat_small)
    with xy(3) show "x = y" by metis
  qed
  then show ?thesis by (simp add: slot_pool_new_def distinct_map)
qed

lemma slot_pool_new_range:
  assumes "n \<le> 2 ^ 32"
  shows "set (free_slots (slot_pool_new n)) = {s. unat s < n}"
proof
  show "set (free_slots (slot_pool_new n)) \<subseteq> {s. unat s < n}"
    using assms by (auto simp: slot_pool_new_def unat_of_nat_small)
  show "{s. unat s < n} \<subseteq> set (free_slots (slot_pool_new n))"
  proof
    fix s :: u32 assume "s \<in> {s. unat s < n}"
    then have "unat s \<in> {0..<n}" by simp
    moreover have "s = of_nat (unat s)" by simp
    ultimately have "s \<in> of_nat ` {0..<n}" by blast
    then show "s \<in> set (free_slots (slot_pool_new n))"
      by (simp add: slot_pool_new_def)
  qed
qed

lemma slot_reach_accounts:
  "slot_reach n p held \<Longrightarrow>
     max_slots p = n \<and> slots.ids.accounts (mset (free_slots (slot_pool_new n))) p held"
proof (induction rule: slot_reach.induct)
  case start
  show ?case by (simp add: slots.ids.accounts_def slot_pool_new_def)
next
  case (alloc p held s p')
  then show ?case by (auto dest: slots.ids.accounts_take)
next
  case (release p held s p')
  then have p': "p' = slot_give s p" and v: "unat s < max_slots p"
    by (simp_all add: slot_release_give)
  from release.IH have "max_slots p' = n" by (simp add: p' slot_give_def)
  with release.IH v release.hyps(2) show ?case
    unfolding p' by (blast intro: slots.ids.accounts_give)
qed

section \<open>Properties\<close>

text \<open>C12. Slot isolation: whatever sequence of allocations and releases of held slots a client
  runs on a pool of at most \<open>2 ^ 32\<close> slots, the held and the free slots together are each slot
  number below the capacity exactly once. So two concurrent requests never share a slot, a held
  slot is never handed out again, and no slot is lost.\<close>

theorem slot_isolation:
  assumes "slot_reach n p held" and "n \<le> 2 ^ 32"
  shows "distinct (held @ free_slots p) \<and> set (held @ free_slots p) = {s. unat s < n}"
proof -
  have acc: "slots.ids.accounts (mset (free_slots (slot_pool_new n))) p held"
    using slot_reach_accounts [OF assms(1)] by simp
  from slots.ids.accounts_distinct [OF acc slot_pool_new_distinct [OF assms(2)]]
  show ?thesis by (simp add: slot_pool_new_range [OF assms(2)])
qed

theorem slot_isolation_witness:
  "slot_reach 2 \<lparr>free_slots = [1], max_slots = 2\<rparr> [0] \<and>
   distinct ([0] @ free_slots \<lparr>free_slots = [1], max_slots = 2\<rparr>)"
proof -
  have "slot_alloc (slot_pool_new 2) = (Some 0, \<lparr>free_slots = [1], max_slots = 2\<rparr>)"
    by (simp add: slot_alloc_def slot_pool_new_def upt_rec)
  then have r: "slot_reach 2 \<lparr>free_slots = [1], max_slots = 2\<rparr> [0]"
    by (rule slot_reach.alloc [OF slot_reach.start])
  from slot_isolation [OF r] r show ?thesis by simp
qed

end
