(* ===== verification/BTreeMap.thy ===== *)
theory BTreeMap
  imports Prelude "HOL-Library.Multiset"
begin

text \<open>
  Ordered maps. The program keeps its tables in \<open>std::collections::BTreeMap\<close>; the model is an
  association list with strictly increasing keys, so that lookups evaluate and the iteration
  order (increasing keys) is the source's. \<open>bt_get\<close>, \<open>bt_insert\<close>, \<open>bt_remove\<close>, \<open>bt_values\<close> are
  \<open>get\<close>, \<open>insert\<close>, \<open>remove\<close>, \<open>values\<close>. The locale \<open>finite_table\<close> states the contract a client
  relies on and what it derives from it; the model is interpreted as one.
\<close>

type_synonym ('k, 'v) btree_map = "('k \<times> 'v) list"

definition bt_get :: "('k, 'v) btree_map \<Rightarrow> 'k \<Rightarrow> 'v option" where
  "bt_get m k = map_of m k"

fun bt_insert :: "'k::linorder \<Rightarrow> 'v \<Rightarrow> ('k, 'v) btree_map \<Rightarrow> ('k, 'v) btree_map" where
  "bt_insert k v [] = [(k, v)]"
| "bt_insert k v ((k', v') # m) =
     (if k < k' then (k, v) # (k', v') # m
      else if k = k' then (k, v) # m
      else (k', v') # bt_insert k v m)"

definition bt_remove :: "'k \<Rightarrow> ('k, 'v) btree_map \<Rightarrow> ('k, 'v) btree_map" where
  "bt_remove k m = filter (\<lambda>(k', _). k' \<noteq> k) m"

definition bt_values :: "('k, 'v) btree_map \<Rightarrow> 'v list" where
  "bt_values m = map snd m"

definition bt_wf :: "('k::linorder, 'v) btree_map \<Rightarrow> bool" where
  "bt_wf m = (sorted (map fst m) \<and> distinct (map fst m))"

section \<open>Laws\<close>

lemma bt_get_Nil [simp]: "bt_get [] k = None"
  by (simp add: bt_get_def)

lemma bt_get_Cons [simp]: "bt_get ((k', v) # m) k = (if k = k' then Some v else bt_get m k)"
  by (simp add: bt_get_def)

lemma bt_get_insert [simp]: "bt_get (bt_insert k v m) = (bt_get m)(k \<mapsto> v)"
  by (induction k v m rule: bt_insert.induct) (auto simp: fun_eq_iff)

lemma bt_get_remove [simp]: "bt_get (bt_remove k m) = (bt_get m)(k := None)"
  by (induction m) (auto simp: bt_remove_def fun_eq_iff)

lemma bt_keys_insert: "fst ` set (bt_insert k v m) = insert k (fst ` set m)"
  by (induction k v m rule: bt_insert.induct) auto

lemma bt_wf_Nil [simp]: "bt_wf []"
  by (simp add: bt_wf_def)

lemma bt_wf_insert [simp, intro]: "bt_wf m \<Longrightarrow> bt_wf (bt_insert k v m)"
proof (induction k v m rule: bt_insert.induct)
  case (1 k v)
  show ?case by (simp add: bt_wf_def)
next
  case (2 k v k' v' m)
  then have m: "bt_wf m" and lo: "\<forall>x \<in> fst ` set m. k' < x"
    by (auto simp: bt_wf_def order.strict_iff_order)
  consider "k < k'" | "k = k'" | "k' < k" by fastforce
  then show ?case
  proof cases
    case 3
    then have "bt_wf (bt_insert k v m)" using "2.IH" m by simp
    moreover have "\<forall>x \<in> fst ` set (bt_insert k v m). k' < x"
      using lo 3 by (simp add: bt_keys_insert)
    ultimately show ?thesis
      using 3 by (auto simp: bt_wf_def order.strict_iff_order)
  qed (use "2.prems" lo in \<open>auto simp: bt_wf_def order.strict_iff_order\<close>)
qed

lemma bt_wf_remove [simp, intro]: "bt_wf m \<Longrightarrow> bt_wf (bt_remove k m)"
  by (induction m) (auto simp: bt_wf_def bt_remove_def)

lemma bt_get_None_iff: "bt_get m k = None \<longleftrightarrow> k \<notin> fst ` set m"
  by (simp add: bt_get_def map_of_eq_None_iff)

lemma bt_get_values: "bt_get m k = Some v \<Longrightarrow> v \<in> set (bt_values m)"
  by (auto simp: bt_get_def bt_values_def dest!: map_of_SomeD intro: rev_image_eqI)

lemma bt_values_get:
  "bt_wf m \<Longrightarrow> v \<in> set (bt_values m) \<longleftrightarrow> (\<exists>k. bt_get m k = Some v)"
  by (auto simp: bt_wf_def bt_get_def bt_values_def dest: map_of_SomeD intro: rev_image_eqI)

lemma bt_wf_distinct: "bt_wf m \<Longrightarrow> distinct (map fst m)" "bt_wf m \<Longrightarrow> distinct m"
  by (auto simp: bt_wf_def strict_sorted_iff distinct_map)

lemma bt_get_iff: "bt_wf m \<Longrightarrow> bt_get m k = Some v \<longleftrightarrow> (k, v) \<in> set m"
  by (simp add: bt_get_def bt_wf_distinct(1) map_of_eq_Some_iff)

text \<open>How the multiset of stored values changes.\<close>

lemma mset_values_insert_fresh:
  "bt_get m k = None \<Longrightarrow> mset (bt_values (bt_insert k v m)) = add_mset v (mset (bt_values m))"
  by (induction k v m rule: bt_insert.induct) (auto simp: bt_values_def split: if_splits)

lemma mset_values_remove:
  assumes "bt_wf m" "bt_get m k = Some v"
  shows "mset (bt_values m) = add_mset v (mset (bt_values (bt_remove k m)))"
  using assms
proof (induction m)
  case Nil
  then show ?case by simp
next
  case (Cons kv m)
  obtain k' v' where kv: "kv = (k', v')" by (cases kv)
  have wf: "bt_wf m" and notin: "k' \<notin> fst ` set m"
    using Cons.prems(1) kv by (auto simp: bt_wf_def)
  show ?case
  proof (cases "k = k'")
    case True
    have "filter (\<lambda>(x, _). x \<noteq> k') m = m"
      using notin by (intro filter_True) force
    with True Cons.prems kv show ?thesis by (simp add: bt_values_def bt_remove_def)
  next
    case False
    with Cons.prems kv Cons.IH [OF wf] show ?thesis
      by (simp add: bt_values_def bt_remove_def)
  qed
qed

lemma bt_remove_none: "bt_get m k = None \<Longrightarrow> bt_remove k m = m"
  by (force simp: bt_get_None_iff bt_remove_def intro: filter_True)

lemma bt_insert_remove:
  assumes "bt_wf m" "bt_get m k = Some v"
  shows "bt_insert k v (bt_remove k m) = m"
  using assms
proof (induction m)
  case Nil
  then show ?case by simp
next
  case (Cons kv m)
  obtain k' v' where kv: "kv = (k', v')" by (cases kv)
  have wf: "bt_wf m" and lo: "\<forall>x \<in> fst ` set m. k' < x"
    using Cons.prems(1) kv by (auto simp: bt_wf_def order.strict_iff_order)
  show ?case
  proof (cases "k = k'")
    case True
    then have "bt_get m k = None" using lo by (force simp: bt_get_None_iff)
    then have r: "bt_remove k (kv # m) = m"
      using True kv bt_remove_none [of m k] by (simp add: bt_remove_def)
    have "bt_insert k v m = (k, v) # m"
      using True lo by (cases m) auto
    with True Cons.prems kv r show ?thesis by simp
  next
    case False
    with Cons.prems kv have g: "bt_get m k = Some v" by simp
    then have "k \<in> fst ` set m" by (metis bt_get_None_iff option.distinct(1))
    with lo have "k' < k" by blast
    with False kv Cons.IH [OF wf g] show ?thesis by (simp add: bt_remove_def)
  qed
qed

lemma bt_insert_overwrite:
  assumes "bt_wf m"
  shows "bt_insert k v m = bt_insert k v (bt_remove k m)"
  using assms
proof (induction m)
  case Nil
  then show ?case by (simp add: bt_remove_def)
next
  case (Cons kv m)
  obtain k' v' where kv: "kv = (k', v')" by (cases kv)
  have wf: "bt_wf m" and lo: "\<forall>x \<in> fst ` set m. k' < x"
    using Cons.prems(1) kv by (auto simp: bt_wf_def order.strict_iff_order)
  have keep: "bt_remove k m = m" if "k \<le> k'"
    using lo that by (intro bt_remove_none) (force simp: bt_get_None_iff)
  consider "k < k'" | "k = k'" | "k' < k" by fastforce
  then show ?case
  proof cases
    case 1
    then have "k' \<noteq> k" by simp
    with 1 show ?thesis using keep kv by (simp add: bt_remove_def)
  next
    case 2
    have "bt_insert k v m = (k, v) # m" using 2 lo by (cases m) auto
    with 2 keep kv show ?thesis by (simp add: bt_remove_def)
  next
    case 3
    then have "k' \<noteq> k" by simp
    with 3 kv Cons.IH [OF wf] show ?thesis by (simp add: bt_remove_def)
  qed
qed

section \<open>The contract of a table\<close>

locale finite_table =
  fixes get :: "'m \<Rightarrow> 'k \<Rightarrow> 'v option"
    and ins :: "'k \<Rightarrow> 'v \<Rightarrow> 'm \<Rightarrow> 'm"
    and del :: "'k \<Rightarrow> 'm \<Rightarrow> 'm"
    and vals :: "'m \<Rightarrow> 'v list"
    and wf :: "'m \<Rightarrow> bool"
  assumes get_ins: "get (ins k v m) = (get m)(k \<mapsto> v)"
    and get_del: "get (del k m) = (get m)(k := None)"
    and wf_ins: "wf m \<Longrightarrow> wf (ins k v m)"
    and wf_del: "wf m \<Longrightarrow> wf (del k m)"
    and vals_ins: "get m k = None \<Longrightarrow> mset (vals (ins k v m)) = add_mset v (mset (vals m))"
    and vals_del: "wf m \<Longrightarrow> get m k = Some v \<Longrightarrow> mset (vals m) = add_mset v (mset (vals (del k m)))"
begin

text \<open>Sums over the stored values (byte counts, page lists) follow the multiset.\<close>

lemma sum_ins:
  fixes f :: "'v \<Rightarrow> 'n::comm_monoid_add"
  assumes "get m k = None"
  shows "sum_list (map f (vals (ins k v m))) = f v + sum_list (map f (vals m))"
proof -
  have "sum_mset (image_mset f (mset (vals (ins k v m)))) =
      f v + sum_mset (image_mset f (mset (vals m)))"
    using vals_ins [OF assms] by simp
  then show ?thesis by (simp flip: sum_mset_sum_list)
qed

lemma sum_del:
  fixes f :: "'v \<Rightarrow> 'n::comm_monoid_add"
  assumes "wf m" "get m k = Some v"
  shows "sum_list (map f (vals m)) = f v + sum_list (map f (vals (del k m)))"
proof -
  have "sum_mset (image_mset f (mset (vals m))) =
      f v + sum_mset (image_mset f (mset (vals (del k m))))"
    using vals_del [OF assms] by simp
  then show ?thesis by (simp flip: sum_mset_sum_list)
qed

lemma count_ins: "get m k = None \<Longrightarrow> length (vals (ins k v m)) = Suc (length (vals m))"
  using vals_ins [of m k v] by (metis size_add_mset size_mset)

lemma count_del: "wf m \<Longrightarrow> get m k = Some v \<Longrightarrow> length (vals m) = Suc (length (vals (del k m)))"
  using vals_del [of m k v] by (metis size_add_mset size_mset)

end

interpretation bt: finite_table bt_get bt_insert bt_remove bt_values bt_wf
  by unfold_locales (auto simp: mset_values_insert_fresh mset_values_remove)

end
