(* ===== verification/CacheTypes.thy ===== *)
theory CacheTypes
  imports BTreeMap
begin

text \<open>
  The values that the prefix cache exchanges with the rest of the engine
  (\<open>src/src/radix_cache.rs\<close>): the handle of a cached KV block, and the results of a lookup, of an
  insertion and of an eviction.
\<close>

record kv_handle =
  block_id :: u64
  token_len :: usize

record cache_lookup =
  matched_tokens :: usize
  lookup_handle :: "kv_handle option"

record cache_insert =
  inserted_tokens :: usize
  replaced :: "kv_handle option"
  insert_handle :: kv_handle

record cache_eviction =
  evicted :: "kv_handle list"

end
