(* ===== verification/KvStore.thy ===== *)
theory KvStore
  imports CacheTypes
begin

text \<open>
  The in-memory KV block store (\<open>src/src/kv_store.rs\<close>). The state is \<open>InMemoryKvStore\<close>; \<open>kv_allocate\<close>,
  \<open>kv_get\<close> and \<open>kv_release\<close> are the methods of the trait \<open>KvStore\<close>. The locale \<open>kv_block_store\<close> is the
  contract of the trait \<open>KvBlockStore\<close> (\<open>src/src/runtime.rs\<close>) that the engine relies on.
\<close>

section \<open>State and operations\<close>

record kv_block =
  kvb_handle :: kv_handle
  kvb_bytes :: usize

datatype kv_store_error = EmptyBlock | UnknownBlock kv_handle

record kv_store =
  next_block_id :: u64
  bytes_per_token :: usize
  blocks :: "(u64, kv_block) btree_map"

definition kv_new :: "usize \<Rightarrow> kv_store" where
  "kv_new bpt = \<lparr>next_block_id = 1, bytes_per_token = bpt, blocks = []\<rparr>"

definition kv_len :: "kv_store \<Rightarrow> usize" where
  "kv_len s = length (blocks s)"

definition kv_is_empty :: "kv_store \<Rightarrow> bool" where
  "kv_is_empty s = (blocks s = [])"

definition kv_allocated_bytes :: "kv_store \<Rightarrow> usize" where
  "kv_allocated_bytes s = sum_list (map kvb_bytes (bt_values (blocks s)))"

text \<open>\<open>next_block_id += 1\<close> and \<open>token_len * bytes_per_token\<close> are checked additions and products: they
  panic when the result does not fit in 64 bits.\<close>

definition kv_allocate :: "usize \<Rightarrow> (kv_store, kv_store_error, kv_handle) act" where
  "kv_allocate n s =
     (if n = 0 then (Err EmptyBlock, s)
      else
        let handle = \<lparr>block_id = next_block_id s, token_len = n\<rparr> in
        if next_block_id s = - 1 then (Panic, s)
        else
          let s1 = s\<lparr>next_block_id := next_block_id s + 1\<rparr> in
          if n * bytes_per_token s > max64 then (Panic, s1)
          else
            let block = \<lparr>kvb_handle = handle, kvb_bytes = n * bytes_per_token s\<rparr>
            in (Ok handle, s1\<lparr>blocks := bt_insert (block_id handle) block (blocks s1)\<rparr>))"

definition kv_get :: "kv_store \<Rightarrow> kv_handle \<Rightarrow> kv_block option" where
  "kv_get s h =
     (case bt_get (blocks s) (block_id h) of
        None \<Rightarrow> None
      | Some b \<Rightarrow> if kvb_handle b = h then Some b else None)"

text \<open>The block is removed first and put back when its handle is not the given one.\<close>

definition kv_release :: "kv_handle \<Rightarrow> (kv_store, kv_store_error, unit) act" where
  "kv_release h s =
     (case bt_get (blocks s) (block_id h) of
        None \<Rightarrow> (Err (UnknownBlock h), s)
      | Some b \<Rightarrow>
          let s1 = s\<lparr>blocks := bt_remove (block_id h) (blocks s)\<rparr> in
          if kvb_handle b \<noteq> h
          then (Err (UnknownBlock h), s1\<lparr>blocks := bt_insert (block_id (kvb_handle b)) b (blocks s1)\<rparr>)
          else (Ok (), s1))"

section \<open>Invariant\<close>

text \<open>Every block is stored under the id of its handle, ids are below the next one, block 0 is never
  used, and the recorded size is the handle's token count times the bytes per token.\<close>

definition kv_inv :: "kv_store \<Rightarrow> bool" where
  "kv_inv s \<longleftrightarrow>
     bt_wf (blocks s) \<and>
     (\<forall>k b. bt_get (blocks s) k = Some b \<longrightarrow>
        block_id (kvb_handle b) = k \<and> k < next_block_id s \<and>
        0 < token_len (kvb_handle b) \<and>
        kvb_bytes b = token_len (kvb_handle b) * bytes_per_token s)"

definition kv_live :: "kv_store \<Rightarrow> kv_handle set" where
  "kv_live s = {h. map_option kvb_handle (bt_get (blocks s) (block_id h)) = Some h}"

section \<open>The contract of a block store\<close>

locale kv_block_store =
  fixes allocate :: "usize \<Rightarrow> ('s, kv_store_error, kv_handle) act"
    and release :: "kv_handle \<Rightarrow> ('s, kv_store_error, unit) act"
    and live :: "'s \<Rightarrow> kv_handle set"
    and inv :: "'s \<Rightarrow> bool"
  assumes allocate_Ok:
      "inv s \<Longrightarrow> allocate n s = (Ok h, s') \<Longrightarrow>
         inv s' \<and> token_len h = n \<and> block_id h \<notin> block_id ` live s \<and> live s' = insert h (live s)"
    and allocate_Err: "inv s \<Longrightarrow> allocate n s = (Err e, s') \<Longrightarrow> inv s' \<and> live s' = live s"
    and release_live:
      "inv s \<Longrightarrow> h \<in> live s \<Longrightarrow>
         \<exists>s'. release h s = (Ok (), s') \<and> inv s' \<and> live s' = live s - {h}"
    and live_inj: "inv s \<Longrightarrow> inj_on block_id (live s)"
    and live_finite: "inv s \<Longrightarrow> finite (live s)"
begin

text \<open>A block allocated and released again leaves the live blocks as they were.\<close>

lemma allocate_release:
  assumes "inv s" "allocate n s = (Ok h, s')"
  shows "\<exists>s''. release h s' = (Ok (), s'') \<and> inv s'' \<and> live s'' = live s"
proof -
  from allocate_Ok [OF assms] have i: "inv s'" and l: "live s' = insert h (live s)"
    and f: "block_id h \<notin> block_id ` live s" by auto
  from f have "live s' - {h} = live s" unfolding l by blast
  with release_live [OF i, of h] l show ?thesis by auto
qed

text \<open>Releasing a block that is not the last one allocated keeps all others.\<close>

lemma release_other:
  assumes "inv s" "h \<in> live s" "g \<in> live s" "g \<noteq> h" "release h s = (r, s')"
  shows "r = Ok () \<and> g \<in> live s' \<and> inv s'"
  using release_live [OF assms(1,2)] assms(3-5) by auto

end

section \<open>The store meets the contract\<close>

lemma kv_inv_new [simp, intro]: "kv_inv (kv_new bpt)"
  by (simp add: kv_inv_def kv_new_def)

lemma kv_live_new [simp]: "kv_live (kv_new bpt) = {}"
  by (simp add: kv_live_def kv_new_def)

lemma kv_invD:
  assumes "kv_inv s" "bt_get (blocks s) k = Some b"
  shows "block_id (kvb_handle b) = k" "k < next_block_id s"
    "kvb_bytes b = token_len (kvb_handle b) * bytes_per_token s"
  using assms by (auto simp: kv_inv_def)

lemma kv_live_block_ids: "kv_inv s \<Longrightarrow> block_id ` kv_live s = fst ` set (blocks s)"
proof -
  assume inv: "kv_inv s"
  have "k \<in> block_id ` kv_live s \<longleftrightarrow> bt_get (blocks s) k \<noteq> None" for k
    using inv by (force simp: kv_live_def dest: kv_invD)
  then show ?thesis by (auto simp: bt_get_None_iff)
qed

lemma kv_allocate_Ok:
  assumes "kv_inv s" "kv_allocate n s = (Ok h, s')"
  shows "kv_inv s'" and "h = \<lparr>block_id = next_block_id s, token_len = n\<rparr>"
    and "bt_get (blocks s) (next_block_id s) = None"
    and "blocks s' = bt_insert (next_block_id s) \<lparr>kvb_handle = h, kvb_bytes = n * bytes_per_token s\<rparr> (blocks s)"
    and "next_block_id s < next_block_id s'" "bytes_per_token s' = bytes_per_token s" "0 < n"
proof -
  from assms(2) have n: "0 < n" and m: "next_block_id s \<noteq> - 1"
    and h: "h = \<lparr>block_id = next_block_id s, token_len = n\<rparr>"
    and s': "s' = s\<lparr>next_block_id := next_block_id s + 1,
        blocks := bt_insert (next_block_id s) \<lparr>kvb_handle = h, kvb_bytes = n * bytes_per_token s\<rparr> (blocks s)\<rparr>"
    by (auto simp: kv_allocate_def Let_def split: if_splits)
  show "h = \<lparr>block_id = next_block_id s, token_len = n\<rparr>" by (rule h)
  show "blocks s' = bt_insert (next_block_id s) \<lparr>kvb_handle = h, kvb_bytes = n * bytes_per_token s\<rparr> (blocks s)"
    and "bytes_per_token s' = bytes_per_token s" and "0 < n"
    using n by (simp_all add: s')
  have lt: "next_block_id s < next_block_id s + 1" using m by (rule word_less_succ_self)
  then show "next_block_id s < next_block_id s'" by (simp add: s')
  show "bt_get (blocks s) (next_block_id s) = None"
    using kv_invD(2) [OF assms(1), of "next_block_id s"] by (cases "bt_get (blocks s) (next_block_id s)") auto
  show "kv_inv s'"
    using assms(1) n lt unfolding kv_inv_def s' h by (auto simp: less_imp_le intro: less_trans)
qed

lemma kv_live_insert:
  assumes "kv_inv s" "kv_allocate n s = (Ok h, s')"
  shows "kv_live s' = insert h (kv_live s)"
proof -
  note k = kv_allocate_Ok [OF assms]
  have id: "block_id h = next_block_id s" by (simp add: k(2))
  show ?thesis
  proof (rule set_eqI)
    fix g
    show "g \<in> kv_live s' \<longleftrightarrow> g \<in> insert h (kv_live s)"
    proof (cases "block_id g = next_block_id s")
      case True
      then show ?thesis using k(3) by (simp add: kv_live_def k(4) eq_commute)
    next
      case False
      with id have "g \<noteq> h" by metis
      with False show ?thesis by (simp add: kv_live_def k(4))
    qed
  qed
qed

lemma kv_release_live:
  assumes "kv_inv s" "h \<in> kv_live s"
  shows "kv_release h s = (Ok (), s\<lparr>blocks := bt_remove (block_id h) (blocks s)\<rparr>)"
    and "kv_inv (s\<lparr>blocks := bt_remove (block_id h) (blocks s)\<rparr>)"
    and "kv_live (s\<lparr>blocks := bt_remove (block_id h) (blocks s)\<rparr>) = kv_live s - {h}"
proof -
  from assms(2) obtain b where b: "bt_get (blocks s) (block_id h) = Some b" "kvb_handle b = h"
    by (auto simp: kv_live_def)
  then show "kv_release h s = (Ok (), s\<lparr>blocks := bt_remove (block_id h) (blocks s)\<rparr>)"
    by (simp add: kv_release_def)
  show "kv_inv (s\<lparr>blocks := bt_remove (block_id h) (blocks s)\<rparr>)"
    using assms(1) by (simp add: kv_inv_def)
  have "g \<in> kv_live s \<Longrightarrow> block_id g = block_id h \<Longrightarrow> g = h" for g
    using b by (simp add: kv_live_def)
  then show "kv_live (s\<lparr>blocks := bt_remove (block_id h) (blocks s)\<rparr>) = kv_live s - {h}"
    by (force simp: kv_live_def)
qed

lemma kv_live_finite: "kv_inv s \<Longrightarrow> finite (kv_live s)"
proof -
  assume "kv_inv s"
  have "kv_live s \<subseteq> kvb_handle ` set (bt_values (blocks s))"
    by (auto simp: kv_live_def dest: bt_get_values)
  then show ?thesis by (rule finite_subset) simp
qed

lemma kv_live_inj: "inj_on block_id (kv_live s)"
proof (rule inj_onI)
  fix g h assume gh: "g \<in> kv_live s" "h \<in> kv_live s" "block_id g = block_id h"
  from gh(1,3) have "map_option kvb_handle (bt_get (blocks s) (block_id h)) = Some g"
    by (simp add: kv_live_def)
  moreover from gh(2) have "map_option kvb_handle (bt_get (blocks s) (block_id h)) = Some h"
    by (simp add: kv_live_def)
  ultimately show "g = h" by (metis option.inject)
qed

interpretation kv: kv_block_store kv_allocate kv_release kv_live kv_inv
proof
  fix s n h s' e
  assume inv: "kv_inv s"
  show "kv_allocate n s = (Ok h, s') \<Longrightarrow>
      kv_inv s' \<and> token_len h = n \<and> block_id h \<notin> block_id ` kv_live s \<and> kv_live s' = insert h (kv_live s)"
    using kv_allocate_Ok [OF inv, of n h s'] kv_live_insert [OF inv, of n h s'] kv_live_block_ids [OF inv]
    by (simp add: bt_get_None_iff)
  show "kv_allocate n s = (Err e, s') \<Longrightarrow> kv_inv s' \<and> kv_live s' = kv_live s"
    using inv by (auto simp: kv_allocate_def Let_def split: if_splits)
  show "h \<in> kv_live s \<Longrightarrow> \<exists>s'. kv_release h s = (Ok (), s') \<and> kv_inv s' \<and> kv_live s' = kv_live s - {h}"
    using kv_release_live [OF inv] by blast
  show "inj_on block_id (kv_live s)" by (rule kv_live_inj)
  show "finite (kv_live s)" using inv by (rule kv_live_finite)
qed

section \<open>Properties\<close>

lemma kv_get_iff: "kv_inv s \<Longrightarrow> (\<exists>b. kv_get s h = Some b) \<longleftrightarrow> h \<in> kv_live s"
  by (auto simp: kv_get_def kv_live_def split: option.splits)

lemma kv_bytes_insert:
  "kv_inv s \<Longrightarrow> kv_allocate n s = (Ok h, s') \<Longrightarrow>
     kv_allocated_bytes s' = kv_allocated_bytes s + n * bytes_per_token s"
  using kv_allocate_Ok(3,4) [of s n h s'] by (simp add: kv_allocated_bytes_def bt.sum_ins)

lemma kv_bytes_release:
  assumes "kv_inv s" "h \<in> kv_live s"
  shows "kv_allocated_bytes s =
    kv_allocated_bytes (s\<lparr>blocks := bt_remove (block_id h) (blocks s)\<rparr>) + token_len h * bytes_per_token s"
proof -
  from assms(2) obtain b where b: "bt_get (blocks s) (block_id h) = Some b" "kvb_handle b = h"
    by (auto simp: kv_live_def)
  have "bt_wf (blocks s)" using assms(1) by (simp add: kv_inv_def)
  from bt.sum_del [OF this b(1), of kvb_bytes] kv_invD(3) [OF assms(1) b(1)] b(2)
  show ?thesis by (simp add: kv_allocated_bytes_def)
qed

text \<open>Allocating a block: the returned handle resolves to a block of
  \<open>token_len * bytes_per_token\<close> bytes, no other handle (old, stale or made up) resolves differently
  than before, the byte total grows by exactly that block, and the invariant is kept.\<close>

theorem kv_allocate_correct:
  assumes "kv_inv s" and "kv_allocate n s = (Ok h, s')"
  shows "kv_inv s' \<and>
    kv_get s' = (kv_get s)(h \<mapsto> \<lparr>kvb_handle = h, kvb_bytes = n * bytes_per_token s\<rparr>) \<and>
    kv_get s h = None \<and> token_len h = n \<and>
    kv_allocated_bytes s' = kv_allocated_bytes s + n * bytes_per_token s"
proof -
  note k = kv_allocate_Ok [OF assms]
  have id: "block_id h = next_block_id s" "token_len h = n" by (simp_all add: k(2))
  have "kv_get s' g = ((kv_get s)(h \<mapsto> \<lparr>kvb_handle = h, kvb_bytes = n * bytes_per_token s\<rparr>)) g" for g
  proof (cases "block_id g = next_block_id s")
    case True
    then show ?thesis using k(3) by (simp add: kv_get_def k(4) eq_commute)
  next
    case False
    then have "g \<noteq> h" using id by metis
    with False show ?thesis by (simp add: kv_get_def k(4))
  qed
  moreover have "kv_get s h = None" using k(3) id by (simp add: kv_get_def)
  ultimately show ?thesis
    using k(1) id kv_bytes_insert [OF assms] by (simp add: fun_eq_iff)
qed

theorem kv_allocate_correct_witness:
  "\<exists>s'. kv_allocate 4 (kv_new 128) = (Ok \<lparr>block_id = 1, token_len = 4\<rparr>, s') \<and> kv_inv s' \<and>
     kv_allocated_bytes s' = 512"
proof -
  obtain s' where s': "kv_allocate 4 (kv_new 128) = (Ok \<lparr>block_id = 1, token_len = 4\<rparr>, s')"
    by (simp add: kv_allocate_def kv_new_def max64_def Let_def)
  from kv_allocate_correct [OF kv_inv_new s'] show ?thesis
    by (simp add: s') (simp add: kv_allocated_bytes_def kv_new_def bt_values_def)
qed

text \<open>Releasing: a live handle's block is gone and its bytes are given back, every other handle
  keeps its block; any other handle, in particular one with the right block id and a wrong length,
  is refused with \<open>UnknownBlock\<close> and the store (including the block that was taken out for the
  comparison) is exactly as before.\<close>

theorem kv_release_correct:
  assumes "kv_inv s" and "kv_release h s = (r, s')"
  shows "if h \<in> kv_live s
    then r = Ok () \<and> kv_inv s' \<and> kv_get s' = (kv_get s)(h := None) \<and>
      kv_allocated_bytes s = kv_allocated_bytes s' + token_len h * bytes_per_token s
    else r = Err (UnknownBlock h) \<and> s' = s"
proof (cases "h \<in> kv_live s")
  case True
  note k = kv_release_live [OF assms(1) True]
  from k(1) assms(2) have s': "r = Ok ()" "s' = s\<lparr>blocks := bt_remove (block_id h) (blocks s)\<rparr>"
    by simp_all
  have "kv_get s' g = ((kv_get s)(h := None)) g" for g
  proof (cases "block_id g = block_id h")
    case gh: True
    have "kv_get s g = None" if "g \<noteq> h"
      using True gh that by (auto simp: kv_live_def kv_get_def split: option.splits)
    then show ?thesis using gh by (auto simp: s' kv_get_def)
  next
    case False
    then have "g \<noteq> h" by metis
    with False show ?thesis by (simp add: s' kv_get_def)
  qed
  then have "kv_get s' = (kv_get s)(h := None)" by (rule ext)
  with k(2) True s' kv_bytes_release [OF assms(1) True] show ?thesis by simp
next
  case False
  show ?thesis
  proof (cases "bt_get (blocks s) (block_id h)")
    case None
    with False assms(2) show ?thesis by (simp add: kv_release_def)
  next
    case (Some b)
    with False have ne: "kvb_handle b \<noteq> h" by (simp add: kv_live_def)
    have wf: "bt_wf (blocks s)" using assms(1) by (simp add: kv_inv_def)
    have "bt_insert (block_id (kvb_handle b)) b (bt_remove (block_id h) (blocks s)) = blocks s"
      unfolding kv_invD(1) [OF assms(1) Some] by (rule bt_insert_remove [OF wf Some])
    with ne False Some assms(2) show ?thesis by (simp add: kv_release_def)
  qed
qed

theorem kv_release_correct_witness:
  "kv_release \<lparr>block_id = 1, token_len = 99\<rparr> (snd (kv_allocate 3 (kv_new 64))) =
     (Err (UnknownBlock \<lparr>block_id = 1, token_len = 99\<rparr>), snd (kv_allocate 3 (kv_new 64)))"
proof -
  let ?s = "snd (kv_allocate 3 (kv_new 64))" and ?h = "\<lparr>block_id = 1, token_len = 99\<rparr> :: kv_handle"
  have ok: "kv_allocate 3 (kv_new 64) = (Ok \<lparr>block_id = 1, token_len = 3\<rparr>, ?s)"
    by (simp add: kv_allocate_def kv_new_def max64_def Let_def)
  have inv: "kv_inv ?s" using kv_allocate_Ok(1) [OF kv_inv_new ok] .
  have "?h \<notin> kv_live ?s"
    by (simp add: kv_allocate_def kv_new_def max64_def kv_live_def Let_def)
  then show ?thesis
    using kv_release_correct [OF inv surjective_pairing, of ?h] by (metis prod.collapse)
qed

end
