(* ===== verification/PagedAttention.thy ===== *)
theory PagedAttention
  imports CacheTypes
begin

text \<open>
  The page manager (\<open>src/src/paged_attention.rs\<close>): a FIFO of free physical pages and a table from
  block ids to the pages that hold the block. \<open>page_allocate\<close>, \<open>page_release\<close> and \<open>materialize_span\<close>
  are \<open>PagedAttentionBlockManager\<close>'s methods. The locale \<open>paged_allocator\<close> is the contract of the
  trait \<open>PagedBlockAllocator\<close> (\<open>src/src/runtime.rs\<close>) that the engine relies on. Page numbers are natural
  numbers: they are the integers below \<open>total_pages\<close>.
\<close>

section \<open>State and operations\<close>

type_synonym page_id = nat

datatype kv_cache_type = Fp32 | Int8 | Fp8

record paged_config =
  block_size :: usize
  page_tokens :: usize
  total_pages :: usize
  unified_memory :: bool
  kv_type :: kv_cache_type

record page_span =
  span_pages :: "page_id list"

record block_mapping =
  bm_handle :: kv_handle
  bm_pages :: "page_id list"
  bm_token_len :: usize

datatype page_manager_error =
    InvalidBlockSize
  | OutOfPages usize usize
  | UnknownHandle kv_handle

record page_manager =
  pm_config :: paged_config
  free_pages :: "page_id list"
  mappings :: "(u64, block_mapping) btree_map"

definition paged_config_new :: "usize \<Rightarrow> usize \<Rightarrow> (page_manager_error, paged_config) outcome" where
  "paged_config_new bs tp =
     (if bs = 0 then Err InvalidBlockSize
      else Ok \<lparr>block_size = bs, page_tokens = bs, total_pages = tp, unified_memory = True, kv_type = Fp32\<rparr>)"

definition with_kv_type :: "kv_cache_type \<Rightarrow> paged_config \<Rightarrow> paged_config" where
  "with_kv_type t c = c\<lparr>kv_type := t\<rparr>"

definition page_manager_new :: "paged_config \<Rightarrow> page_manager" where
  "page_manager_new c = \<lparr>pm_config = c, free_pages = [0..<total_pages c], mappings = []\<rparr>"

definition mapped_pages :: "page_manager \<Rightarrow> kv_handle \<Rightarrow> page_id list option" where
  "mapped_pages m h = map_option bm_pages (bt_get (mappings m) (block_id h))"

text \<open>\<open>usize::div_ceil\<close> panics on a zero divisor; \<open>page_allocate\<close> writes that branch out.\<close>

definition pages_for_tokens :: "page_manager \<Rightarrow> usize \<Rightarrow> usize" where
  "pages_for_tokens m n = div_ceil n (block_size (pm_config m))"

text \<open>The loop that pops \<open>n\<close> pages; \<open>expect\<close> panics on an empty queue.\<close>

fun pop_pages :: "nat \<Rightarrow> page_id list \<Rightarrow> ('e, page_id list \<times> page_id list) outcome" where
  "pop_pages 0 free = Ok ([], free)"
| "pop_pages (Suc n) [] = Panic"
| "pop_pages (Suc n) (p # free) =
     (case pop_pages n free of
        Ok (ps, rest) \<Rightarrow> Ok (p # ps, rest)
      | Err e \<Rightarrow> Err e
      | Panic \<Rightarrow> Panic)"

definition page_allocate :: "kv_handle \<Rightarrow> usize \<Rightarrow> (page_manager, page_manager_error, block_mapping) act" where
  "page_allocate h n m =
     (if block_size (pm_config m) = 0 then (Panic, m)
      else
        let required = pages_for_tokens m n; available = length (free_pages m) in
        if required > available then (Err (OutOfPages required available), m)
        else
          case pop_pages required (free_pages m) of
            Ok (ps, rest) \<Rightarrow>
              let mapping = \<lparr>bm_handle = h, bm_pages = ps, bm_token_len = n\<rparr>
              in (Ok mapping, m\<lparr>free_pages := rest, mappings := bt_insert (block_id h) mapping (mappings m)\<rparr>)
          | Err e \<Rightarrow> (Err e, m)
          | Panic \<Rightarrow> (Panic, m))"

definition page_release :: "kv_handle \<Rightarrow> (page_manager, page_manager_error, unit) act" where
  "page_release h m =
     (case bt_get (mappings m) (block_id h) of
        None \<Rightarrow> (Err (UnknownHandle h), m)
      | Some mapping \<Rightarrow>
          (Ok (), m\<lparr>mappings := bt_remove (block_id h) (mappings m),
                    free_pages := free_pages m @ bm_pages mapping\<rparr>))"

definition free_page_count :: "page_manager \<Rightarrow> usize" where
  "free_page_count m = length (free_pages m)"

definition materialize_span :: "page_manager \<Rightarrow> kv_handle \<Rightarrow> page_span option" where
  "materialize_span m h =
     map_option (\<lambda>mapping. \<lparr>span_pages = bm_pages mapping\<rparr>) (bt_get (mappings m) (block_id h))"

section \<open>Invariant\<close>

text \<open>Pages that some mapping uses, with multiplicity.\<close>

definition used_pages :: "page_manager \<Rightarrow> page_id list" where
  "used_pages m = concat (map bm_pages (bt_values (mappings m)))"

text \<open>Every page is free or in exactly one mapping, exactly once; a mapping has exactly the pages its
  tokens need and is stored under its handle's id.\<close>

definition page_inv :: "page_manager \<Rightarrow> bool" where
  "page_inv m \<longleftrightarrow>
     0 < block_size (pm_config m) \<and> bt_wf (mappings m) \<and>
     mset (free_pages m) + mset (used_pages m) = mset [0..<total_pages (pm_config m)] \<and>
     (\<forall>k b. bt_get (mappings m) k = Some b \<longrightarrow>
        block_id (bm_handle b) = k \<and> length (bm_pages b) = div_ceil (bm_token_len b) (block_size (pm_config m)))"

definition mapped_ids :: "page_manager \<Rightarrow> u64 set" where
  "mapped_ids m = {k. bt_get (mappings m) k \<noteq> None}"

text \<open>The states any client reaches, with the pages that no longer belong to anyone: allocating under an id that is
  mapped already forgets the pages it was mapped to.\<close>

definition orphaned :: "page_manager \<Rightarrow> kv_handle \<Rightarrow> (page_manager_error, block_mapping) outcome \<Rightarrow> page_id list" where
  "orphaned m h r = (case r of Ok _ \<Rightarrow> (case mapped_pages m h of None \<Rightarrow> [] | Some ps \<Rightarrow> ps) | _ \<Rightarrow> [])"

inductive page_reach :: "paged_config \<Rightarrow> page_manager \<Rightarrow> page_id list \<Rightarrow> bool" for c where
  start: "page_reach c (page_manager_new c) []"
| alloc: "page_reach c m lost \<Longrightarrow> page_allocate h n m = (r, m') \<Longrightarrow> page_reach c m' (orphaned m h r @ lost)"
| release: "page_reach c m lost \<Longrightarrow> page_release h m = (r, m') \<Longrightarrow> page_reach c m' lost"

section \<open>The contract of a page allocator\<close>

locale paged_allocator =
  fixes allocate :: "kv_handle \<Rightarrow> usize \<Rightarrow> ('s, page_manager_error, block_mapping) act"
    and release :: "kv_handle \<Rightarrow> ('s, page_manager_error, unit) act"
    and materialize :: "'s \<Rightarrow> kv_handle \<Rightarrow> page_span option"
    and ids :: "'s \<Rightarrow> u64 set"
    and inv :: "'s \<Rightarrow> bool"
  assumes allocate_not_panic: "inv s \<Longrightarrow> fst (allocate h n s) \<noteq> Panic"
    and allocate_Ok:
      "inv s \<Longrightarrow> block_id h \<notin> ids s \<Longrightarrow> allocate h n s = (Ok b, s') \<Longrightarrow>
         inv s' \<and> ids s' = insert (block_id h) (ids s) \<and>
         materialize s' h = Some \<lparr>span_pages = bm_pages b\<rparr> \<and>
         (\<forall>g. block_id g \<noteq> block_id h \<longrightarrow> materialize s' g = materialize s g)"
    and allocate_Err: "allocate h n s = (Err e, s') \<Longrightarrow> s' = s"
    and release_mapped:
      "inv s \<Longrightarrow> block_id h \<in> ids s \<Longrightarrow>
         \<exists>s'. release h s = (Ok (), s') \<and> inv s' \<and> ids s' = ids s - {block_id h} \<and>
           (\<forall>g. block_id g \<noteq> block_id h \<longrightarrow> materialize s' g = materialize s g)"
    and materialize_mapped: "(\<exists>p. materialize s h = Some p) \<longleftrightarrow> block_id h \<in> ids s"
begin

text \<open>An allocation that is undone leaves every other block's pages in place.\<close>

lemma allocate_release:
  assumes "inv s" "block_id h \<notin> ids s" "allocate h n s = (Ok b, s')"
  shows "\<exists>s''. release h s' = (Ok (), s'') \<and> inv s'' \<and> ids s'' = ids s \<and>
    (\<forall>g. block_id g \<noteq> block_id h \<longrightarrow> materialize s'' g = materialize s g)"
proof -
  from allocate_Ok [OF assms] have i: "inv s'" and m: "block_id h \<in> ids s'"
    and d: "ids s' - {block_id h} = ids s"
    and o: "\<forall>g. block_id g \<noteq> block_id h \<longrightarrow> materialize s' g = materialize s g"
    using assms(2) by auto
  from release_mapped [OF i m] o d show ?thesis by auto
qed

end

section \<open>The page manager meets the contract\<close>

lemma pop_pages_enough: "n \<le> length free \<Longrightarrow> pop_pages n free = Ok (take n free, drop n free)"
  by (induction n free rule: pop_pages.induct) auto

lemma pop_pages_short: "length free < n \<Longrightarrow> pop_pages n free = Panic"
  by (induction n free rule: pop_pages.induct) auto

text \<open>The outcome of an allocation, by branch.\<close>

lemma page_allocate_eq:
  assumes "0 < block_size (pm_config m)"
  shows "page_allocate h n m =
    (let required = pages_for_tokens m n in
     if required > length (free_pages m) then (Err (OutOfPages required (length (free_pages m))), m)
     else
       let mapping = \<lparr>bm_handle = h, bm_pages = take required (free_pages m), bm_token_len = n\<rparr>
       in (Ok mapping, m\<lparr>free_pages := drop required (free_pages m),
             mappings := bt_insert (block_id h) mapping (mappings m)\<rparr>))"
  using assms by (simp add: page_allocate_def Let_def pop_pages_enough)

lemma page_inv_new: "0 < block_size c \<Longrightarrow> page_inv (page_manager_new c)"
  by (simp add: page_inv_def page_manager_new_def used_pages_def bt_values_def)

lemma mset_used_insert:
  assumes "bt_get (mappings m) k = None"
  shows "mset (concat (map bm_pages (bt_values (bt_insert k b (mappings m))))) =
    mset (bm_pages b) + mset (used_pages m)"
  using bt.sum_ins [OF assms, of "\<lambda>b. mset (bm_pages b)" b]
  by (simp add: used_pages_def mset_concat comp_def)

lemma mset_used_remove:
  assumes "bt_wf (mappings m)" "bt_get (mappings m) k = Some b"
  shows "mset (used_pages m) =
    mset (bm_pages b) + mset (concat (map bm_pages (bt_values (bt_remove k (mappings m)))))"
  using bt.sum_del [OF assms, of "\<lambda>b. mset (bm_pages b)"]
  by (simp add: used_pages_def mset_concat comp_def)

lemma page_allocate_inv:
  assumes inv: "page_inv m" and fresh: "block_id h \<notin> mapped_ids m"
    and ok: "page_allocate h n m = (Ok b, m')"
  shows "page_inv m'" and "bm_pages b = take (pages_for_tokens m n) (free_pages m)"
    and "free_pages m' = drop (pages_for_tokens m n) (free_pages m)"
    and "bm_handle b = h" "bm_token_len b = n" "pages_for_tokens m n \<le> length (free_pages m)"
    and "mappings m' = bt_insert (block_id h) b (mappings m)" and "pm_config m' = pm_config m"
proof -
  let ?r = "pages_for_tokens m n"
  have bs: "0 < block_size (pm_config m)" using inv by (simp add: page_inv_def)
  from ok have r: "?r \<le> length (free_pages m)"
    and b: "b = \<lparr>bm_handle = h, bm_pages = take ?r (free_pages m), bm_token_len = n\<rparr>"
    and m': "m' = m\<lparr>free_pages := drop ?r (free_pages m), mappings := bt_insert (block_id h) b (mappings m)\<rparr>"
    by (auto simp: page_allocate_eq [OF bs] Let_def split: if_splits)
  show "?r \<le> length (free_pages m)" by (rule r)
  show "bm_pages b = take ?r (free_pages m)" "bm_handle b = h" "bm_token_len b = n" by (simp_all add: b)
  show "free_pages m' = drop ?r (free_pages m)" "mappings m' = bt_insert (block_id h) b (mappings m)"
    "pm_config m' = pm_config m" by (simp_all add: m')
  have none: "bt_get (mappings m) (block_id h) = None" using fresh by (simp add: mapped_ids_def)
  have "mset (free_pages m) = mset (take ?r (free_pages m)) + mset (drop ?r (free_pages m))"
    by (metis append_take_drop_id mset_append)
  moreover have "mset (used_pages m') = mset (take ?r (free_pages m)) + mset (used_pages m)"
    using mset_used_insert [OF none, of b] by (simp add: used_pages_def m') (simp add: b)
  ultimately show "page_inv m'"
    using inv r by (auto simp: page_inv_def m' b pages_for_tokens_def ac_simps)
qed

lemma page_release_inv:
  assumes inv: "page_inv m" and mapped: "bt_get (mappings m) (block_id h) = Some b"
  shows "page_inv (m\<lparr>mappings := bt_remove (block_id h) (mappings m), free_pages := free_pages m @ bm_pages b\<rparr>)"
proof -
  have wf: "bt_wf (mappings m)" using inv by (simp add: page_inv_def)
  show ?thesis
    using inv mset_used_remove [OF wf mapped] by (simp add: page_inv_def used_pages_def ac_simps)
qed

interpretation pages: paged_allocator page_allocate page_release materialize_span mapped_ids page_inv
proof
  fix m h n b m' e
  show "page_inv m \<Longrightarrow> fst (page_allocate h n m) \<noteq> Panic"
    by (simp add: page_inv_def page_allocate_eq Let_def)
  show "page_allocate h n m = (Err e, m') \<Longrightarrow> m' = m"
    by (auto simp: page_allocate_def Let_def split: if_splits outcome.splits prod.splits)
  show "(\<exists>p. materialize_span m h = Some p) \<longleftrightarrow> block_id h \<in> mapped_ids m"
    by (auto simp: materialize_span_def mapped_ids_def)
  show "page_inv m \<Longrightarrow> block_id h \<in> mapped_ids m \<Longrightarrow>
      \<exists>m'. page_release h m = (Ok (), m') \<and> page_inv m' \<and> mapped_ids m' = mapped_ids m - {block_id h} \<and>
        (\<forall>g. block_id g \<noteq> block_id h \<longrightarrow> materialize_span m' g = materialize_span m g)"
    by (auto simp: mapped_ids_def page_release_def materialize_span_def intro!: page_release_inv)
  assume inv: "page_inv m" and fresh: "block_id h \<notin> mapped_ids m"
    and ok: "page_allocate h n m = (Ok b, m')"
  note k = page_allocate_inv [OF inv fresh ok]
  show "page_inv m' \<and> mapped_ids m' = insert (block_id h) (mapped_ids m) \<and>
      materialize_span m' h = Some \<lparr>span_pages = bm_pages b\<rparr> \<and>
      (\<forall>g. block_id g \<noteq> block_id h \<longrightarrow> materialize_span m' g = materialize_span m g)"
    using k(1) by (auto simp: mapped_ids_def materialize_span_def k(7))
qed

section \<open>Properties\<close>

lemma page_inv_disjoint:
  assumes "page_inv m"
  shows "distinct (free_pages m @ used_pages m)"
    and "set (free_pages m @ used_pages m) = {0..<total_pages (pm_config m)}"
proof -
  have e: "mset (free_pages m @ used_pages m) = mset [0..<total_pages (pm_config m)]"
    using assms by (simp add: page_inv_def)
  show "distinct (free_pages m @ used_pages m)"
    using mset_eq_imp_distinct_iff [OF e] by simp
  show "set (free_pages m @ used_pages m) = {0..<total_pages (pm_config m)}"
    using mset_eq_setD [OF e] by simp
qed

lemma page_release_cases:
  "page_release h m = (r, m') \<Longrightarrow>
     (\<exists>b. bt_get (mappings m) (block_id h) = Some b \<and> r = Ok () \<and>
        m' = m\<lparr>mappings := bt_remove (block_id h) (mappings m), free_pages := free_pages m @ bm_pages b\<rparr>) \<or>
     (bt_get (mappings m) (block_id h) = None \<and> r = Err (UnknownHandle h) \<and> m' = m)"
  by (auto simp: page_release_def split: option.splits)

lemma page_allocate_lost:
  assumes wf: "bt_wf (mappings m)" and a: "page_allocate h n m = (r, m')"
  shows "bt_wf (mappings m') \<and> pm_config m' = pm_config m \<and>
    mset (free_pages m') + mset (used_pages m') + mset (orphaned m h r) = mset (free_pages m) + mset (used_pages m)"
proof (cases "0 < block_size (pm_config m) \<and> pages_for_tokens m n \<le> length (free_pages m)")
  case True
  let ?k = "pages_for_tokens m n"
  let ?b = "\<lparr>bm_handle = h, bm_pages = take ?k (free_pages m), bm_token_len = n\<rparr>"
  have m': "r = Ok ?b" "m' = m\<lparr>free_pages := drop ?k (free_pages m), mappings := bt_insert (block_id h) ?b (mappings m)\<rparr>"
    using a True by (simp_all add: page_allocate_eq Let_def)
  have free: "mset (free_pages m) = mset (take ?k (free_pages m)) + mset (drop ?k (free_pages m))"
    by (metis append_take_drop_id mset_append)
  have w: "bt_wf (mappings m')" using wf by (simp add: m'(2))
  show ?thesis
  proof (cases "bt_get (mappings m) (block_id h)")
    case None
    then have "mset (used_pages m') = mset (take ?k (free_pages m)) + mset (used_pages m)"
      using mset_used_insert [OF None, of ?b] by (simp add: used_pages_def m'(2))
    with None free w show ?thesis by (simp add: orphaned_def mapped_pages_def m' ac_simps)
  next
    case (Some d)
    let ?rest = "m\<lparr>mappings := bt_remove (block_id h) (mappings m)\<rparr>"
    have over: "bt_insert (block_id h) ?b (mappings m) = bt_insert (block_id h) ?b (mappings ?rest)"
      using bt_insert_overwrite [OF wf] by simp
    have "bt_get (mappings ?rest) (block_id h) = None" by simp
    from mset_used_insert [OF this, of ?b] have "mset (used_pages m') = mset (take ?k (free_pages m)) + mset (used_pages ?rest)"
      by (simp only: used_pages_def m'(2) over) (simp add: used_pages_def)
    moreover have "mset (used_pages m) = mset (bm_pages d) + mset (used_pages ?rest)"
      using mset_used_remove [OF wf Some] by (simp add: used_pages_def)
    moreover have "orphaned m h r = bm_pages d" using Some by (simp add: orphaned_def mapped_pages_def m'(1))
    ultimately show ?thesis using free w by (simp add: m'(2) ac_simps)
  qed
next
  case False
  then have "m' = m" "orphaned m h r = []"
    using a by (auto simp: page_allocate_def Let_def orphaned_def split: if_splits outcome.splits prod.splits)
  with wf show ?thesis by simp
qed

lemma page_reach_pages:
  "page_reach c m lost \<Longrightarrow> bt_wf (mappings m) \<and> pm_config m = c \<and>
     mset (free_pages m) + mset (used_pages m) + mset lost = mset [0..<total_pages c]"
proof (induction rule: page_reach.induct)
  case start
  show ?case by (simp add: page_manager_new_def used_pages_def bt_values_def)
next
  case (alloc m lost h n r m')
  then have "bt_wf (mappings m)" by simp
  from page_allocate_lost [OF this alloc.hyps(2)] alloc.IH show ?case by (metis add.assoc mset_append)
next
  case (release m lost h r m')
  then have wf: "bt_wf (mappings m)" by simp
  from page_release_cases [OF release.hyps(2)] show ?case
  proof (elim disjE exE conjE)
    fix b assume b: "bt_get (mappings m) (block_id h) = Some b"
      "m' = m\<lparr>mappings := bt_remove (block_id h) (mappings m), free_pages := free_pages m @ bm_pages b\<rparr>"
    have "mset (free_pages m') + mset (used_pages m') = mset (free_pages m) + mset (used_pages m)"
      using mset_used_remove [OF wf b(1)] by (simp add: used_pages_def b(2))
    moreover have "bt_wf (mappings m')" "pm_config m' = pm_config m" using wf by (simp_all add: b(2))
    ultimately show ?thesis using release.IH by simp
  qed (use release.IH in simp)
qed

lemma mapped_pages_subset:
  "mapped_pages m h = Some ps \<Longrightarrow> set ps \<subseteq> set (used_pages m)"
  by (auto simp: mapped_pages_def used_pages_def dest: bt_get_values)

lemma mapped_pages_disjoint:
  assumes wf: "bt_wf (mappings m)" and used: "distinct (used_pages m)" and gh: "block_id g \<noteq> block_id h"
    and g: "mapped_pages m g = Some ps" and h: "mapped_pages m h = Some qs"
  shows "distinct ps" and "set ps \<inter> set qs = {}"
proof -
  from g obtain b where b: "bt_get (mappings m) (block_id g) = Some b" "ps = bm_pages b"
    by (auto simp: mapped_pages_def)
  from h obtain d where d: "bt_get (mappings m) (block_id h) = Some d" "qs = bm_pages d"
    by (auto simp: mapped_pages_def)
  let ?rest = "concat (map bm_pages (bt_values (bt_remove (block_id g) (mappings m))))"
  have "mset (used_pages m) = mset (ps @ ?rest)"
    using mset_used_remove [OF wf b(1)] b(2) by simp
  with used have dis: "distinct (ps @ ?rest)" by (metis mset_eq_imp_distinct_iff)
  then show "distinct ps" by simp
  have "bt_get (bt_remove (block_id g) (mappings m)) (block_id h) = Some d" using d gh by simp
  from bt_get_values [OF this] have "set qs \<subseteq> set ?rest" using d(2) by auto
  with dis show "set ps \<inter> set qs = {}" by auto
qed

text \<open>C13. Page exclusivity, whatever a client does: in every state that allocating (also under ids that are in use), failing to
  allocate and releasing lead to, every page below \<open>total_pages\<close> is in exactly one place, once: in the
  queue of free pages, in one mapping, or among the pages of blocks whose id was allocated again, which
  are lost for good. So blocks with different ids have different pages, no mapped page is free,
  and when no id was allocated twice no page is lost.\<close>

theorem page_exclusive:
  assumes "page_reach c m lost"
  shows "distinct (free_pages m @ used_pages m @ lost) \<and> set (free_pages m @ used_pages m @ lost) = {0..<total_pages c} \<and>
    free_page_count m + length (used_pages m) + length lost = total_pages c \<and>
    (\<forall>g ps. mapped_pages m g = Some ps \<longrightarrow> distinct ps \<and> set ps \<inter> set (free_pages m) = {} \<and> set ps \<inter> set lost = {} \<and>
       (\<forall>h qs. mapped_pages m h = Some qs \<longrightarrow> block_id g \<noteq> block_id h \<longrightarrow> set ps \<inter> set qs = {}))"
proof -
  from page_reach_pages [OF assms] have wf: "bt_wf (mappings m)"
    and e: "mset (free_pages m @ used_pages m @ lost) = mset [0..<total_pages c]" by (auto simp: ac_simps)
  have d: "distinct (free_pages m @ used_pages m @ lost)" using mset_eq_imp_distinct_iff [OF e] by simp
  then have used: "distinct (used_pages m)" by simp
  have "length (free_pages m @ used_pages m @ lost) = total_pages c" using mset_eq_length [OF e] by simp
  moreover have "set (free_pages m @ used_pages m @ lost) = {0..<total_pages c}" using mset_eq_setD [OF e] by simp
  moreover have "distinct ps" if "mapped_pages m g = Some ps" for g ps
  proof -
    from that obtain b where b: "bt_get (mappings m) (block_id g) = Some b" "ps = bm_pages b" by (auto simp: mapped_pages_def)
    have "mset (used_pages m) = mset (ps @ concat (map bm_pages (bt_values (bt_remove (block_id g) (mappings m)))))"
      using mset_used_remove [OF wf b(1)] b(2) by simp
    from mset_eq_imp_distinct_iff [OF this] used show ?thesis by simp
  qed
  ultimately show ?thesis
    using d mapped_pages_subset mapped_pages_disjoint(2) [OF wf used]
    by (fastforce simp: free_page_count_def)
qed

text \<open>Two blocks, then the first one's id again: its two pages are lost.\<close>

theorem page_exclusive_witness:
  "\<exists>m. page_reach \<lparr>block_size = 16, page_tokens = 16, total_pages = 5, unified_memory = True, kv_type = Fp32\<rparr> m [0, 1] \<and>
     mapped_pages m \<lparr>block_id = 1, token_len = 9\<rparr> = Some [3] \<and> mapped_pages m \<lparr>block_id = 2, token_len = 5\<rparr> = Some [2] \<and>
     set [3] \<inter> set [2 :: nat] = {} \<and> free_page_count m + length (used_pages m) + 2 = 5"
proof -
  let ?c = "\<lparr>block_size = 16, page_tokens = 16, total_pages = 5, unified_memory = True, kv_type = Fp32\<rparr>"
  let ?g = "\<lparr>block_id = 1, token_len = 24\<rparr> :: kv_handle" and ?h = "\<lparr>block_id = 2, token_len = 5\<rparr> :: kv_handle"
    and ?i = "\<lparr>block_id = 1, token_len = 9\<rparr> :: kv_handle"
  let ?m1 = "\<lparr>pm_config = ?c, free_pages = [2, 3, 4], mappings = [(1, \<lparr>bm_handle = ?g, bm_pages = [0, 1], bm_token_len = 24\<rparr>)]\<rparr>"
  let ?m2 = "?m1\<lparr>free_pages := [3, 4], mappings := [(1, \<lparr>bm_handle = ?g, bm_pages = [0, 1], bm_token_len = 24\<rparr>),
        (2, \<lparr>bm_handle = ?h, bm_pages = [2], bm_token_len = 5\<rparr>)]\<rparr>"
  let ?m3 = "?m1\<lparr>free_pages := [4], mappings := [(1, \<lparr>bm_handle = ?i, bm_pages = [3], bm_token_len = 9\<rparr>),
        (2, \<lparr>bm_handle = ?h, bm_pages = [2], bm_token_len = 5\<rparr>)]\<rparr>"
  have a: "page_allocate ?g 24 (page_manager_new ?c) = (Ok \<lparr>bm_handle = ?g, bm_pages = [0, 1], bm_token_len = 24\<rparr>, ?m1)"
    "page_allocate ?h 5 ?m1 = (Ok \<lparr>bm_handle = ?h, bm_pages = [2], bm_token_len = 5\<rparr>, ?m2)"
    "page_allocate ?i 9 ?m2 = (Ok \<lparr>bm_handle = ?i, bm_pages = [3], bm_token_len = 9\<rparr>, ?m3)"
    by (simp_all add: page_allocate_eq page_manager_new_def pages_for_tokens_def div_ceil_def Let_def upt_rec)
  from page_reach.alloc [OF page_reach.alloc [OF page_reach.alloc [OF page_reach.start a(1)] a(2)] a(3)]
  have r: "page_reach ?c ?m3 [0, 1]" by (simp add: orphaned_def mapped_pages_def page_manager_new_def)
  have "mapped_pages ?m3 ?i = Some [3]" "mapped_pages ?m3 ?h = Some [2]" by (simp_all add: mapped_pages_def)
  with page_exclusive [OF r] r show ?thesis by (intro exI [of _ ?m3]) fastforce
qed

text \<open>C14. Allocation, every branch: with a fresh id the manager hands out exactly
  \<open>ceil (n / block_size)\<close> pages from the front of the free queue, which hold all \<open>n\<close> tokens and waste
  less than one page, and the new block resolves to them; when fewer pages are free it reports the
  two counts and changes nothing. It never panics.\<close>

theorem page_allocate_correct:
  assumes "page_inv m" and "block_id h \<notin> mapped_ids m" and "page_allocate h n m = (r, m')"
  shows "let bs = block_size (pm_config m); k = pages_for_tokens m n in
    n \<le> k * bs \<and> k * bs < n + bs \<and>
    (if k \<le> free_page_count m
     then (\<exists>b. r = Ok b \<and> bm_pages b = take k (free_pages m)) \<and> page_inv m' \<and>
       mapped_pages m' h = Some (take k (free_pages m)) \<and>
       free_page_count m' + k = free_page_count m \<and>
       (\<forall>g. block_id g \<noteq> block_id h \<longrightarrow> mapped_pages m' g = mapped_pages m g)
     else r = Err (OutOfPages k (free_page_count m)) \<and> m' = m)"
proof -
  have bs: "0 < block_size (pm_config m)" using assms(1) by (simp add: page_inv_def)
  note bounds = div_ceil_bounds [OF bs, of n]
  show ?thesis
  proof (cases "pages_for_tokens m n \<le> free_page_count m")
    case True
    then have "page_allocate h n m = (Ok \<lparr>bm_handle = h, bm_pages = take (pages_for_tokens m n) (free_pages m), bm_token_len = n\<rparr>, m')"
      and "r = Ok \<lparr>bm_handle = h, bm_pages = take (pages_for_tokens m n) (free_pages m), bm_token_len = n\<rparr>"
      using assms(3) by (auto simp: page_allocate_eq [OF bs] Let_def free_page_count_def)
    note k = page_allocate_inv [OF assms(1,2) this(1)] this(2)
    show ?thesis
      using bounds True k by (simp add: Let_def pages_for_tokens_def free_page_count_def mapped_pages_def)
  next
    case False
    with assms(3) bounds show ?thesis
      by (auto simp: page_allocate_eq [OF bs] Let_def free_page_count_def pages_for_tokens_def)
  qed
qed

theorem page_allocate_correct_witness:
  "page_allocate \<lparr>block_id = 3, token_len = 64\<rparr> 64
     (page_manager_new \<lparr>block_size = 32, page_tokens = 32, total_pages = 1, unified_memory = True, kv_type = Fp32\<rparr>) =
   (Err (OutOfPages 2 1),
     page_manager_new \<lparr>block_size = 32, page_tokens = 32, total_pages = 1, unified_memory = True, kv_type = Fp32\<rparr>)"
proof -
  let ?c = "\<lparr>block_size = 32, page_tokens = 32, total_pages = 1, unified_memory = True, kv_type = Fp32\<rparr>"
  have inv: "page_inv (page_manager_new ?c)" by (simp add: page_inv_new)
  have fresh: "block_id \<lparr>block_id = 3, token_len = 64\<rparr> \<notin> mapped_ids (page_manager_new ?c)"
    by (simp add: mapped_ids_def page_manager_new_def)
  have "\<not> pages_for_tokens (page_manager_new ?c) 64 \<le> free_page_count (page_manager_new ?c)"
    and "pages_for_tokens (page_manager_new ?c) 64 = 2" and "free_page_count (page_manager_new ?c) = 1"
    by (simp_all add: pages_for_tokens_def page_manager_new_def div_ceil_def free_page_count_def)
  with page_allocate_correct [OF inv fresh surjective_pairing, of 64] show ?thesis
    by (metis prod.collapse)
qed

text \<open>Allocating under an id that is already mapped loses pages: the earlier block's pages are
  neither returned to the free queue nor reachable through any mapping, so the pool shrinks for
  good. (The engine only allocates under fresh ids; the manager does not check.)\<close>

theorem page_allocate_twice_leaks:
  assumes "page_inv m" and "mapped_pages m h = Some ps" and "page_allocate h n m = (Ok b, m')"
  shows "free_page_count m' + length (used_pages m') + length ps = total_pages (pm_config m)"
proof -
  let ?k = "pages_for_tokens m n"
  have bs: "0 < block_size (pm_config m)" and wf: "bt_wf (mappings m)"
    using assms(1) by (simp_all add: page_inv_def)
  from assms(2) obtain d where d: "bt_get (mappings m) (block_id h) = Some d" "ps = bm_pages d"
    by (auto simp: mapped_pages_def)
  let ?rest = "bt_remove (block_id h) (mappings m)"
  from assms(3) have k: "?k \<le> length (free_pages m)" "bm_pages b = take ?k (free_pages m)"
    "m' = m\<lparr>free_pages := drop ?k (free_pages m), mappings := bt_insert (block_id h) b (mappings m)\<rparr>"
    by (auto simp: page_allocate_eq [OF bs] Let_def split: if_splits)
  let ?f = "\<lambda>b. length (bm_pages b)"
  have len: "length (used_pages x) = sum_list (map ?f (bt_values (mappings x)))" for x
    by (simp add: used_pages_def length_concat comp_def)
  have total: "length (free_pages m) + length (used_pages m) = total_pages (pm_config m)"
    using distinct_card [OF page_inv_disjoint(1) [OF assms(1)]] page_inv_disjoint(2) [OF assms(1)] by simp
  have "bt_insert (block_id h) b (mappings m) = bt_insert (block_id h) b ?rest"
    by (rule bt_insert_overwrite [OF wf])
  moreover have "bt_get ?rest (block_id h) = None" by simp
  ultimately have "length (used_pages m') = length (bm_pages b) + sum_list (map ?f (bt_values ?rest))"
    by (simp add: len k(3) bt.sum_ins)
  moreover have "length (used_pages m) = length ps + sum_list (map ?f (bt_values ?rest))"
    using bt.sum_del [OF wf d(1), of ?f] d(2) by (simp add: len)
  ultimately show ?thesis using total k by (simp add: free_page_count_def)
qed

theorem page_allocate_twice_leaks_witness:
  "\<exists>m b m'. mapped_pages m \<lparr>block_id = 1, token_len = 8\<rparr> = Some [0] \<and>
     page_allocate \<lparr>block_id = 1, token_len = 8\<rparr> 8 m = (Ok b, m') \<and>
     total_pages (pm_config m) = 2 \<and> free_page_count m' + length (used_pages m') = 1"
proof -
  let ?c = "\<lparr>block_size = 8, page_tokens = 8, total_pages = 2, unified_memory = True, kv_type = Fp32\<rparr>"
  let ?h = "\<lparr>block_id = 1, token_len = 8\<rparr> :: kv_handle"
  define m where "m = snd (page_allocate ?h 8 (page_manager_new ?c))"
  have m: "m = \<lparr>pm_config = ?c, free_pages = [1],
      mappings = [(1, \<lparr>bm_handle = ?h, bm_pages = [0], bm_token_len = 8\<rparr>)]\<rparr>"
    by (simp add: m_def page_allocate_eq page_manager_new_def pages_for_tokens_def div_ceil_def Let_def upt_rec)
  have inv: "page_inv m"
    by (simp add: m page_inv_def used_pages_def bt_values_def bt_wf_def div_ceil_def upt_rec)
  have ps: "mapped_pages m ?h = Some [0]" by (simp add: m mapped_pages_def)
  obtain b m' where a: "page_allocate ?h 8 m = (Ok b, m')"
    by (simp add: m page_allocate_eq pages_for_tokens_def div_ceil_def Let_def)
  from page_allocate_twice_leaks [OF inv ps a] have "free_page_count m' + length (used_pages m') = 1"
    by (simp add: m)
  moreover have "total_pages (pm_config m) = 2" by (simp add: m)
  ultimately show ?thesis using ps a by blast
qed

end
