(* ===== verification/RadixCache.thy ===== *)
theory RadixCache
  imports CacheTypes
begin

text \<open>
  The prefix cache (\<open>src/src/radix_cache.rs\<close>): a radix tree whose nodes live in a vector and refer to
  each other by index. This theory holds the state and the operations; \<open>RadixTree\<close> has the lemmas on
  the tree in the vector and \<open>RadixProps\<close> the properties of the cache.

  Indexing a vector out of range, a failed assertion and a recursion or loop that makes no progress
  are \<open>Panic\<close>. The recursion of \<open>insert_from\<close> and the loop of \<open>lookup\<close> carry fuel: one unit more than
  the tokens left, which is enough because every step consumes a token (\<open>insert_from_correct\<close> and
  \<open>lookup_walk_correct\<close>). The logical clock and the hit counters saturate at the largest \<open>u64\<close>.
\<close>

section \<open>State\<close>

record radix_node =
  edge :: "token_id list"
  children :: "(token_id, nat) btree_map"
  node_handle :: "kv_handle option"
  last_access_tick :: nat
  hit_count :: usize

record radix_cache =
  nodes :: "radix_node list"
  capacity_tokens :: "usize option"
  resident_tokens :: usize
  clock :: nat

definition node_default :: radix_node where
  "node_default = \<lparr>edge = [], children = [], node_handle = None, last_access_tick = 0, hit_count = 0\<rparr>"

definition radix_new :: radix_cache where
  "radix_new = \<lparr>nodes = [node_default], capacity_tokens = None, resident_tokens = 0, clock = 1\<rparr>"

definition radix_with_capacity_tokens :: "usize \<Rightarrow> radix_cache" where
  "radix_with_capacity_tokens cap = radix_new\<lparr>capacity_tokens := Some cap\<rparr>"

definition common_prefix_len :: "token_id list \<Rightarrow> token_id list \<Rightarrow> usize" where
  "common_prefix_len left right = length (takeWhile (\<lambda>(l, r). l = r) (zip left right))"

text \<open>\<open>self.clock.saturating_add(1)\<close>.\<close>

definition next_tick :: "radix_cache \<Rightarrow> nat" where
  "next_tick c = sat_add64 (clock c) 1"

text \<open>\<open>last_access_tick = tick; hit_count = hit_count.saturating_add(1)\<close>.\<close>

definition touch :: "nat \<Rightarrow> radix_node \<Rightarrow> radix_node" where
  "touch tick n = n\<lparr>last_access_tick := tick, hit_count := sat_add64 (hit_count n) 1\<rparr>"

section \<open>Insertion\<close>

definition push_node :: "radix_node \<Rightarrow> radix_node list \<Rightarrow> nat \<times> radix_node list" where
  "push_node n ns = (length ns, ns @ [n])"

definition set_child :: "nat \<Rightarrow> token_id \<Rightarrow> nat \<Rightarrow> radix_node list \<Rightarrow> radix_node list" where
  "set_child p t c ns = ns[p := (ns ! p)\<lparr>children := bt_insert t c (children (ns ! p))\<rparr>]"

definition split_child ::
  "nat \<Rightarrow> nat \<Rightarrow> nat \<Rightarrow> nat \<Rightarrow> radix_node list \<Rightarrow> ('e, nat \<times> radix_node list) outcome" where
  "split_child clk p c split_at ns =
     (if \<not> (c < length ns \<and> p < length ns \<and> split_at > 0 \<and> split_at < length (edge (ns ! c))) then Panic
      else
        let old_first = edge (ns ! c) ! 0;
            suffix = drop split_at (edge (ns ! c));
            prefix = take split_at (edge (ns ! c));
            ns1 = ns[c := (ns ! c)\<lparr>edge := suffix\<rparr>];
            new_first = edge (ns1 ! c) ! 0;
            (split_id, ns2) =
              push_node \<lparr>edge = prefix, children = [(new_first, c)], node_handle = None,
                last_access_tick = clk, hit_count = hit_count (ns1 ! c)\<rparr> ns1
        in Ok (split_id, set_child p old_first split_id ns2))"

fun insert_from ::
  "nat \<Rightarrow> nat \<Rightarrow> nat \<Rightarrow> token_id list \<Rightarrow> radix_node list \<Rightarrow> ('e, nat \<times> radix_node list) outcome" where
  "insert_from 0 clk p ts ns = Panic"
| "insert_from (Suc fuel) clk p ts ns =
     (case ts of
        [] \<Rightarrow> Ok (p, ns)
      | first # _ \<Rightarrow>
          if p \<ge> length ns then Panic
          else
            case bt_get (children (ns ! p)) first of
              None \<Rightarrow>
                let (node_id, ns1) =
                  push_node \<lparr>edge = ts, children = [], node_handle = None,
                    last_access_tick = clk, hit_count = 0\<rparr> ns
                in Ok (node_id, set_child p first node_id ns1)
            | Some c \<Rightarrow>
                if c \<ge> length ns then Panic
                else
                  let common = common_prefix_len ts (edge (ns ! c)) in
                  if common = length (edge (ns ! c)) then insert_from fuel clk c (drop common ts) ns
                  else
                    bind_outcome (split_child clk p c common ns)
                      (\<lambda>(split_id, ns1).
                         if common = length ts then Ok (split_id, ns1)
                         else insert_from fuel clk split_id (drop common ts) ns1))"

section \<open>Eviction\<close>

text \<open>The entries with a handle, in node order, as \<open>(tick, index, handle)\<close>; \<open>sort_by_key\<close> is stable.\<close>

definition evict_candidates :: "radix_node list \<Rightarrow> (nat \<times> nat \<times> kv_handle) list" where
  "evict_candidates ns =
     concat (map (\<lambda>(i, n). case node_handle n of None \<Rightarrow> [] | Some h \<Rightarrow> [(last_access_tick n, i, h)])
       (enumerate 0 ns))"

fun evict_loop ::
  "(nat \<times> nat \<times> kv_handle) list \<Rightarrow> usize \<Rightarrow> usize \<Rightarrow> radix_cache \<Rightarrow> kv_handle list \<times> radix_cache" where
  "evict_loop [] target freed c = ([], c)"
| "evict_loop ((tick, i, h) # rest) target freed c =
     (if freed \<ge> target then ([], c)
      else if node_handle (nodes c ! i) = Some h
      then
        let c1 = c\<lparr>nodes := (nodes c)[i := (nodes c ! i)\<lparr>node_handle := None\<rparr>],
                   resident_tokens := resident_tokens c - token_len h\<rparr>;
            (es, c2) = evict_loop rest target (freed + token_len h) c1
        in (h # es, c2)
      else evict_loop rest target freed c)"

definition evict_coldest :: "usize \<Rightarrow> radix_cache \<Rightarrow> cache_eviction \<times> radix_cache" where
  "evict_coldest tokens_to_evict c =
     (let handles = sort_key fst (evict_candidates (nodes c));
          (es, c') = evict_loop handles tokens_to_evict 0 c
      in (\<lparr>evicted = es\<rparr>, c'))"

definition evict_to_capacity :: "radix_cache \<Rightarrow> radix_cache" where
  "evict_to_capacity c =
     (case capacity_tokens c of
        None \<Rightarrow> c
      | Some capacity \<Rightarrow>
          if resident_tokens c \<le> capacity then c
          else snd (evict_coldest (resident_tokens c - capacity) c))"

definition set_capacity_tokens :: "usize option \<Rightarrow> radix_cache \<Rightarrow> radix_cache" where
  "set_capacity_tokens cap c = evict_to_capacity (c\<lparr>capacity_tokens := cap\<rparr>)"

section \<open>The cache's entry points\<close>

definition radix_insert :: "token_id list \<Rightarrow> kv_handle \<Rightarrow> (radix_cache, 'e, cache_insert) act" where
  "radix_insert tokens handle c =
     (if length tokens \<noteq> token_len handle \<or> nodes c = [] then (Panic, c)
      else
        let clk = next_tick c;
            ns0 = (nodes c)[0 := touch clk (nodes c ! 0)]
        in
        case insert_from (Suc (length tokens)) clk 0 tokens ns0 of
          Ok (leaf, ns1) \<Rightarrow>
            let old = node_handle (ns1 ! leaf);
                ns2 = ns1[leaf := touch clk ((ns1 ! leaf)\<lparr>node_handle := Some handle\<rparr>)];
                res = (case old of None \<Rightarrow> resident_tokens c | Some o1 \<Rightarrow> resident_tokens c - token_len o1);
                c1 = c\<lparr>nodes := ns2, resident_tokens := res + token_len handle, clock := clk\<rparr>
            in (Ok \<lparr>inserted_tokens = length tokens, replaced = old, insert_handle = handle\<rparr>,
                evict_to_capacity c1)
        | Err e \<Rightarrow> (Err e, c)
        | Panic \<Rightarrow> (Panic, c))"

fun lookup_walk ::
  "nat \<Rightarrow> nat \<Rightarrow> token_id list \<Rightarrow> nat \<Rightarrow> usize \<Rightarrow> (usize \<times> kv_handle) option \<Rightarrow> radix_node list
     \<Rightarrow> ('e, (usize \<times> kv_handle) option \<times> radix_node list) outcome" where
  "lookup_walk 0 tick tokens node_id cursor best ns = Panic"
| "lookup_walk (Suc fuel) tick tokens node_id cursor best ns =
     (if cursor \<ge> length tokens then Ok (best, ns)
      else if node_id \<ge> length ns then Panic
      else
        case bt_get (children (ns ! node_id)) (tokens ! cursor) of
          None \<Rightarrow> Ok (best, ns)
        | Some child_id \<Rightarrow>
            if child_id \<ge> length ns then Panic
            else
              let matched = common_prefix_len (drop cursor tokens) (edge (ns ! child_id)) in
              if matched < length (edge (ns ! child_id)) then Ok (best, ns)
              else
                let cursor' = cursor + matched;
                    ns' = ns[child_id := touch tick (ns ! child_id)];
                    best' = (case node_handle (ns' ! child_id) of
                               Some h \<Rightarrow> Some (cursor', h)
                             | None \<Rightarrow> best)
                in lookup_walk fuel tick tokens child_id cursor' best' ns')"

definition radix_lookup :: "token_id list \<Rightarrow> (radix_cache, 'e, cache_lookup) act" where
  "radix_lookup tokens c =
     (if nodes c = [] then (Panic, c)
      else
        let tick = next_tick c;
            best = map_option (\<lambda>h. (0, h)) (node_handle (nodes c ! 0));
            ns0 = (nodes c)[0 := touch tick (nodes c ! 0)]
        in
        case lookup_walk (Suc (length tokens)) tick tokens 0 0 best ns0 of
          Ok (b, ns1) \<Rightarrow>
            (Ok (case b of
                   Some (n, h) \<Rightarrow> \<lparr>matched_tokens = n, lookup_handle = Some h\<rparr>
                 | None \<Rightarrow> \<lparr>matched_tokens = 0, lookup_handle = None\<rparr>),
             c\<lparr>nodes := ns1, clock := tick\<rparr>)
        | Err e \<Rightarrow> (Err e, c)
        | Panic \<Rightarrow> (Panic, c))"

definition radix_len :: "radix_cache \<Rightarrow> usize" where
  "radix_len c = length (filter (\<lambda>n. node_handle n \<noteq> None) (nodes c))"

definition radix_is_empty :: "radix_cache \<Rightarrow> bool" where
  "radix_is_empty c = (radix_len c = 0)"

end
