(* ===== verification/RadixTree.thy ===== *)
theory RadixTree
  imports RadixCache
begin

text \<open>
  The tree in the node vector. \<open>find_node ns i ks\<close> is the specification of a path: the node reached
  from node \<open>i\<close> by reading exactly \<open>ks\<close>. \<open>tree_wf\<close> is the shape of the vector (edges are not empty,
  children are keyed by the first token of their edge, a node has one parent, the root has none).
  \<open>tree_ext ns ns'\<close> says that \<open>ns'\<close> keeps every path and handle of \<open>ns\<close> and that the nodes it adds hold
  no handle; hanging a new leaf and splitting an edge are both such extensions, so \<open>insert_from\<close> is.
\<close>

section \<open>Paths\<close>

function find_node :: "radix_node list \<Rightarrow> nat \<Rightarrow> token_id list \<Rightarrow> nat option" where
  "find_node ns i [] = Some i"
| "find_node ns i (t # ts) =
     (case bt_get (children (ns ! i)) t of
        None \<Rightarrow> None
      | Some c \<Rightarrow>
          if edge (ns ! c) \<noteq> [] \<and> take (length (edge (ns ! c))) (t # ts) = edge (ns ! c)
          then find_node ns c (drop (length (edge (ns ! c))) (t # ts))
          else None)"
  by pat_completeness auto
termination
  by (relation "measure (\<lambda>(ns, i, ts). length ts)") auto

definition tree_wf :: "radix_node list \<Rightarrow> bool" where
  "tree_wf ns \<longleftrightarrow>
     ns \<noteq> [] \<and>
     (\<forall>i < length ns. \<forall>t c. bt_get (children (ns ! i)) t = Some c \<longrightarrow>
        c < length ns \<and> c \<noteq> 0 \<and> edge (ns ! c) \<noteq> [] \<and> hd (edge (ns ! c)) = t) \<and>
     (\<forall>i < length ns. \<forall>j < length ns. \<forall>t u c.
        bt_get (children (ns ! i)) t = Some c \<longrightarrow> bt_get (children (ns ! j)) u = Some c \<longrightarrow> i = j \<and> t = u)"

definition tree_ext :: "radix_node list \<Rightarrow> radix_node list \<Rightarrow> bool" where
  "tree_ext ns ns' \<longleftrightarrow>
     length ns \<le> length ns' \<and>
     (\<forall>i < length ns. \<forall>ks j. find_node ns i ks = Some j \<longrightarrow> find_node ns' i ks = Some j) \<and>
     (\<forall>i < length ns. \<forall>ks j. find_node ns' i ks = Some j \<longrightarrow> j < length ns \<longrightarrow> find_node ns i ks = Some j) \<and>
     (\<forall>j < length ns. node_handle (ns' ! j) = node_handle (ns ! j)) \<and>
     (\<forall>j < length ns. last_access_tick (ns' ! j) = last_access_tick (ns ! j)) \<and>
     (\<forall>j. length ns \<le> j \<longrightarrow> j < length ns' \<longrightarrow> node_handle (ns' ! j) = None)"

lemma tree_wf_child:
  assumes "tree_wf ns" "i < length ns" "bt_get (children (ns ! i)) t = Some c"
  shows "c < length ns" "c \<noteq> 0" "edge (ns ! c) \<noteq> []" "hd (edge (ns ! c)) = t"
  using assms unfolding tree_wf_def by blast+

lemma tree_wf_parent:
  assumes "tree_wf ns" "i < length ns" "bt_get (children (ns ! i)) t = Some c"
    "j < length ns" "bt_get (children (ns ! j)) u = Some c"
  shows "i = j" "t = u"
  using assms unfolding tree_wf_def by blast+

lemma find_node_append:
  "find_node ns i xs = Some j \<Longrightarrow> find_node ns i (xs @ ys) = find_node ns j ys"
proof (induction ns i xs rule: find_node.induct)
  case (1 ns i)
  then show ?case by simp
next
  case (2 ns i t ts)
  from "2.prems" obtain c where c: "bt_get (children (ns ! i)) t = Some c"
    and e: "edge (ns ! c) \<noteq> []" "take (length (edge (ns ! c))) (t # ts) = edge (ns ! c)"
    and r: "find_node ns c (drop (length (edge (ns ! c))) (t # ts)) = Some j"
    by (auto split: option.splits if_splits)
  let ?n = "length (edge (ns ! c))"
  have len: "?n \<le> length (t # ts)" using e(2) by (metis length_take min.absorb_iff2)
  have IH: "find_node ns c (drop ?n (t # ts) @ ys) = find_node ns j ys"
    using "2.IH" [OF c] e r by simp
  have t1: "take ?n ((t # ts) @ ys) = edge (ns ! c)" and d1: "drop ?n ((t # ts) @ ys) = drop ?n (t # ts) @ ys"
    using len e(2) by (simp_all del: append_Cons)
  show ?case using c e(1) t1 d1 IH by simp
qed

text \<open>One edge.\<close>

lemma find_node_edge:
  assumes "edge (ns ! c) \<noteq> []" "bt_get (children (ns ! i)) (hd (edge (ns ! c))) = Some c"
  shows "find_node ns i (edge (ns ! c) @ ys) = find_node ns c ys"
proof -
  obtain t e where te: "edge (ns ! c) = t # e" using assms(1) by (cases "edge (ns ! c)") auto
  have "find_node ns i (t # (e @ ys)) = find_node ns c ys"
    using assms(2) by (simp add: te)
  then show ?thesis by (simp add: te)
qed

lemma find_node_edge_self:
  "edge (ns ! c) \<noteq> [] \<Longrightarrow> bt_get (children (ns ! i)) (hd (edge (ns ! c))) = Some c \<Longrightarrow>
     find_node ns i (edge (ns ! c)) = Some c"
  using find_node_edge [of ns c i "[]"] by simp

lemma find_node_cases:
  assumes "find_node ns i ks = Some j" "tree_wf ns" "i < length ns"
  obtains (here) "ks = []" "j = i"
  | (down) c ys where "bt_get (children (ns ! i)) (hd (edge (ns ! c))) = Some c" "edge (ns ! c) \<noteq> []"
      "c < length ns" "ks = edge (ns ! c) @ ys" "find_node ns c ys = Some j" "length ys < length ks"
proof (cases ks)
  case Nil
  with assms(1) here show thesis by simp
next
  case (Cons t ts)
  from assms(1) obtain c where c: "bt_get (children (ns ! i)) t = Some c"
    and e: "edge (ns ! c) \<noteq> []" "take (length (edge (ns ! c))) ks = edge (ns ! c)"
    and r: "find_node ns c (drop (length (edge (ns ! c))) ks) = Some j"
    by (auto simp: Cons split: option.splits if_splits)
  have w: "c < length ns" "hd (edge (ns ! c)) = t" using tree_wf_child [OF assms(2,3) c] by auto
  have k: "ks = edge (ns ! c) @ drop (length (edge (ns ! c))) ks"
    using e(2) by (metis append_take_drop_id)
  show thesis
    by (rule down [of c "drop (length (edge (ns ! c))) ks"]) (use c e w k r Cons in auto)
qed

lemma find_node_range:
  assumes "tree_wf ns" "i < length ns" "find_node ns i ks = Some j"
  shows "j < length ns"
  using assms(2,3)
proof (induction ks arbitrary: i rule: length_induct)
  case (1 ks)
  from "1.prems"(2) assms(1) "1.prems"(1) show ?case
  proof (cases rule: find_node_cases)
    case here
    with "1.prems" show ?thesis by simp
  next
    case (down c ys)
    with "1.IH" show ?thesis by blast
  qed
qed

text \<open>The last edge of a path.\<close>

lemma find_node_last:
  assumes "tree_wf ns" "i < length ns" "find_node ns i ks = Some j" "ks \<noteq> []"
  shows "\<exists>p ys. p < length ns \<and> ks = ys @ edge (ns ! j) \<and> find_node ns i ys = Some p \<and>
    edge (ns ! j) \<noteq> [] \<and> bt_get (children (ns ! p)) (hd (edge (ns ! j))) = Some j"
  using assms(2-4)
proof (induction ks arbitrary: i rule: length_induct)
  case (1 ks)
  from "1.prems"(2) assms(1) "1.prems"(1) show ?case
  proof (cases rule: find_node_cases)
    case here
    with "1.prems" show ?thesis by simp
  next
    case (down c ys)
    show ?thesis
    proof (cases "ys = []")
      case True
      with down have "j = c" by simp
      with down True "1.prems"(1) show ?thesis by (intro exI [of _ i] exI [of _ "[]"]) auto
    next
      case False
      with "1.IH" down obtain p zs where z: "p < length ns" "ys = zs @ edge (ns ! j)"
          "find_node ns c zs = Some p" "edge (ns ! j) \<noteq> []"
          "bt_get (children (ns ! p)) (hd (edge (ns ! j))) = Some j"
        by blast
      have "find_node ns i (edge (ns ! c) @ zs) = Some p"
        using find_node_edge [of ns c i zs] down z by simp
      with down z show ?thesis
        by (intro exI [of _ p] exI [of _ "edge (ns ! c) @ zs"]) auto
    qed
  qed
qed

text \<open>Paths from the root are unique.\<close>

lemma find_node_unique:
  assumes "tree_wf ns" "find_node ns 0 ks = Some j" "find_node ns 0 ls = Some j"
  shows "ks = ls"
  using assms(2,3)
proof (induction ks arbitrary: ls j rule: length_induct)
  case (1 ks)
  have r: "0 < length ns" using assms(1) by (simp add: tree_wf_def)
  have root: "ms = []" if "find_node ns 0 ms = Some 0" for ms
  proof (rule ccontr)
    assume "ms \<noteq> []"
    from find_node_last [OF assms(1) r that this] tree_wf_child(2) [OF assms(1)] show False by blast
  qed
  show ?case
  proof (cases "ks = [] \<or> ls = []")
    case True
    with "1.prems" root show ?thesis by (metis find_node.simps(1) option.inject)
  next
    case False
    from find_node_last [OF assms(1) r "1.prems"(1)] False obtain p ys where
      p: "p < length ns" "ks = ys @ edge (ns ! j)" "find_node ns 0 ys = Some p" "edge (ns ! j) \<noteq> []"
        "bt_get (children (ns ! p)) (hd (edge (ns ! j))) = Some j" by blast
    from find_node_last [OF assms(1) r "1.prems"(2)] False obtain q zs where
      q: "q < length ns" "ls = zs @ edge (ns ! j)" "find_node ns 0 zs = Some q"
        "bt_get (children (ns ! q)) (hd (edge (ns ! j))) = Some j" by blast
    have "p = q" by (rule tree_wf_parent(1) [OF assms(1) p(1,5) q(1,4)])
    with "1.IH" p q have "ys = zs" by (metis add.commute length_append length_greater_0_conv less_add_same_cancel2)
    with p q show ?thesis by simp
  qed
qed

section \<open>Extensions\<close>

lemma tree_ext_refl: "tree_ext ns ns"
  by (simp add: tree_ext_def)

lemma tree_extI:
  assumes "length ns \<le> length ns'"
    and "\<And>i ks j. i < length ns \<Longrightarrow> find_node ns i ks = Some j \<Longrightarrow> find_node ns' i ks = Some j"
    and "\<And>i ks j. i < length ns \<Longrightarrow> find_node ns' i ks = Some j \<Longrightarrow> j < length ns \<Longrightarrow> find_node ns i ks = Some j"
    and "\<And>j. j < length ns \<Longrightarrow> node_handle (ns' ! j) = node_handle (ns ! j)"
    and "\<And>j. j < length ns \<Longrightarrow> last_access_tick (ns' ! j) = last_access_tick (ns ! j)"
    and "\<And>j. length ns \<le> j \<Longrightarrow> j < length ns' \<Longrightarrow> node_handle (ns' ! j) = None"
  shows "tree_ext ns ns'"
  unfolding tree_ext_def using assms by blast

lemma tree_extD:
  assumes "tree_ext ns ns'"
  shows "length ns \<le> length ns'"
    and "i < length ns \<Longrightarrow> find_node ns i ks = Some j \<Longrightarrow> find_node ns' i ks = Some j"
    and "i < length ns \<Longrightarrow> find_node ns' i ks = Some j \<Longrightarrow> j < length ns \<Longrightarrow> find_node ns i ks = Some j"
    and "j < length ns \<Longrightarrow> node_handle (ns' ! j) = node_handle (ns ! j)"
    and "j < length ns \<Longrightarrow> last_access_tick (ns' ! j) = last_access_tick (ns ! j)"
    and "length ns \<le> j \<Longrightarrow> j < length ns' \<Longrightarrow> node_handle (ns' ! j) = None"
  using assms unfolding tree_ext_def by blast+

lemma tree_ext_trans:
  assumes 1: "tree_ext ns ns1" and 2: "tree_ext ns1 ns2"
  shows "tree_ext ns ns2"
proof (rule tree_extI)
  have l: "length ns \<le> length ns1" by (rule tree_extD(1) [OF 1])
  show "length ns \<le> length ns2" using l tree_extD(1) [OF 2] by simp
  show "find_node ns2 i ks = Some j" if "i < length ns" "find_node ns i ks = Some j" for i ks j
    using that tree_extD(2) [OF 1] tree_extD(2) [OF 2] l by (meson less_le_trans)
  show "find_node ns i ks = Some j" if "i < length ns" "find_node ns2 i ks = Some j" "j < length ns" for i ks j
    using that tree_extD(3) [OF 1] tree_extD(3) [OF 2] l by (meson less_le_trans)
  show "node_handle (ns2 ! j) = node_handle (ns ! j)" if "j < length ns" for j
    using that l by (simp add: tree_extD(4) [OF 1] tree_extD(4) [OF 2])
  show "last_access_tick (ns2 ! j) = last_access_tick (ns ! j)" if "j < length ns" for j
    using that l by (simp add: tree_extD(5) [OF 1] tree_extD(5) [OF 2])
  show "node_handle (ns2 ! j) = None" if "length ns \<le> j" "j < length ns2" for j
    using that by (cases "j < length ns1") (simp_all add: tree_extD(4,6) [OF 2] tree_extD(6) [OF 1])
qed

text \<open>A new leaf under a node that has no child for its first token.\<close>

definition add_leaf :: "nat \<Rightarrow> radix_node \<Rightarrow> radix_node list \<Rightarrow> radix_node list" where
  "add_leaf p n ns = set_child p (hd (edge n)) (length ns) (ns @ [n])"

lemma add_leaf_shape:
  assumes "p < length ns"
  shows "length (add_leaf p n ns) = Suc (length ns)"
    and "i < length ns \<Longrightarrow> edge (add_leaf p n ns ! i) = edge (ns ! i)"
    and "i < length ns \<Longrightarrow> node_handle (add_leaf p n ns ! i) = node_handle (ns ! i)"
    and "i < length ns \<Longrightarrow> last_access_tick (add_leaf p n ns ! i) = last_access_tick (ns ! i)"
    and "i < length ns \<Longrightarrow> bt_get (children (add_leaf p n ns ! i)) t =
           (if i = p \<and> t = hd (edge n) then Some (length ns) else bt_get (children (ns ! i)) t)"
    and "add_leaf p n ns ! length ns = n"
  using assms by (auto simp: add_leaf_def set_child_def nth_list_update nth_append)

lemma add_leaf_wf:
  assumes wf: "tree_wf ns" and p: "p < length ns" and n: "edge n \<noteq> []" "children n = []"
  shows "tree_wf (add_leaf p n ns)"
  unfolding tree_wf_def
proof (intro conjI allI impI)
  show "add_leaf p n ns \<noteq> []" using add_leaf_shape(1) [OF p, of n] by auto
next
  fix i t c
  assume i: "i < length (add_leaf p n ns)" and c: "bt_get (children (add_leaf p n ns ! i)) t = Some c"
  have il: "i < length ns"
    using i c n add_leaf_shape(1,6) [OF p, of n] by (cases "i = length ns") auto
  have "c < Suc (length ns) \<and> c \<noteq> 0 \<and> edge (add_leaf p n ns ! c) \<noteq> [] \<and> hd (edge (add_leaf p n ns ! c)) = t"
  proof (cases "i = p \<and> t = hd (edge n)")
    case True
    with c il have "c = length ns" by (simp add: add_leaf_shape(5) [OF p])
    with True n p show ?thesis by (auto simp: add_leaf_shape(6) [OF p])
  next
    case False
    with c il have "bt_get (children (ns ! i)) t = Some c" by (simp add: add_leaf_shape(5) [OF p] split: if_splits)
    from tree_wf_child [OF wf il this] show ?thesis by (simp add: add_leaf_shape(2) [OF p])
  qed
  then show "c < length (add_leaf p n ns)" "c \<noteq> 0" "edge (add_leaf p n ns ! c) \<noteq> []"
    "hd (edge (add_leaf p n ns ! c)) = t"
    by (simp_all add: add_leaf_shape(1) [OF p])
next
  fix i j t u c
  assume i: "i < length (add_leaf p n ns)" and j: "j < length (add_leaf p n ns)"
    and c: "bt_get (children (add_leaf p n ns ! i)) t = Some c" "bt_get (children (add_leaf p n ns ! j)) u = Some c"
  have il: "i < length ns" "j < length ns"
    using i j c n add_leaf_shape(1,6) [OF p, of n] by (cases "i = length ns"; cases "j = length ns"; auto)+
  have "i = j \<and> t = u"
    using c il tree_wf_child(1) [OF wf il(1), of t c] tree_wf_child(1) [OF wf il(2), of u c]
      tree_wf_parent [OF wf il(1) _ il(2), of t c u]
    by (auto simp: add_leaf_shape(5) [OF p] split: if_splits)
  then show "i = j" "t = u" by simp_all
qed

lemma add_leaf_ext:
  assumes wf: "tree_wf ns" and p: "p < length ns" and n: "edge n \<noteq> []" "children n = []" "node_handle n = None"
    and free: "bt_get (children (ns ! p)) (hd (edge n)) = None"
  shows "tree_ext ns (add_leaf p n ns)"
proof -
  let ?ns = "add_leaf p n ns"
  note sh = add_leaf_shape [OF p, where n = n]
  have wf': "tree_wf ?ns" by (rule add_leaf_wf [OF wf p n(1,2)])
  have fwd: "find_node ?ns i ks = Some j" if "i < length ns" "find_node ns i ks = Some j" for i ks j
    using that
  proof (induction ks arbitrary: i rule: length_induct)
    case (1 ks)
    from "1.prems"(2) wf "1.prems"(1) show ?case
    proof (cases rule: find_node_cases)
      case (down c ys)
      have "bt_get (children (?ns ! i)) (hd (edge (?ns ! c))) = Some c"
        using down free "1.prems"(1) by (auto simp: sh)
      moreover have "find_node ?ns c ys = Some j" using "1.IH" down by blast
      ultimately show ?thesis using find_node_edge [of ?ns c i ys] down by (simp add: sh)
    qed simp
  qed
  have bwd: "find_node ns i ks = Some j" if "i < length ns" "find_node ?ns i ks = Some j" "j < length ns" for i ks j
    using that
  proof (induction ks arbitrary: i rule: length_induct)
    case (1 ks)
    have i: "i < length ?ns" using "1.prems"(1) by (simp add: sh)
    from "1.prems"(2) wf' i show ?case
    proof (cases rule: find_node_cases)
      case (down c ys)
      have c: "c < length ns"
      proof (rule ccontr)
        assume "\<not> c < length ns"
        with down have "c = length ns" by (simp add: sh)
        with down "1.prems"(3) n show False by (cases ys) (simp_all add: sh)
      qed
      then have "bt_get (children (ns ! i)) (hd (edge (ns ! c))) = Some c"
        using down "1.prems"(1) by (auto simp: sh split: if_splits)
      moreover have "find_node ns c ys = Some j" using "1.IH" down c "1.prems"(3) by blast
      ultimately show ?thesis using find_node_edge [of ns c i ys] down c by (simp add: sh)
    qed simp
  qed
  have new: "node_handle (?ns ! j) = None" if "length ns \<le> j" "j < length ?ns" for j
    using that n by (cases "j = length ns") (simp_all add: sh)
  show ?thesis
    by (rule tree_extI [OF _ fwd bwd _ _ new]) (simp_all add: sh)
qed

text \<open>Splitting the edge to a child.\<close>

definition split_edge :: "nat \<Rightarrow> nat \<Rightarrow> nat \<Rightarrow> nat \<Rightarrow> radix_node list \<Rightarrow> radix_node list" where
  "split_edge clk p c s ns =
     set_child p (hd (edge (ns ! c))) (length ns)
       (ns[c := (ns ! c)\<lparr>edge := drop s (edge (ns ! c))\<rparr>] @
        [\<lparr>edge = take s (edge (ns ! c)), children = [(edge (ns ! c) ! s, c)], node_handle = None,
           last_access_tick = clk, hit_count = hit_count (ns ! c)\<rparr>])"

lemma split_child_edge:
  assumes "c < length ns" "p < length ns" "0 < s" "s < length (edge (ns ! c))"
  shows "split_child clk p c s ns = Ok (length ns, split_edge clk p c s ns)"
  using assms hd_conv_nth [of "edge (ns ! c)"]
  by (cases "edge (ns ! c) = []") (simp_all add: split_child_def split_edge_def push_node_def Let_def nth_append)

definition splittable :: "nat \<Rightarrow> nat \<Rightarrow> nat \<Rightarrow> radix_node list \<Rightarrow> bool" where
  "splittable p c s ns \<longleftrightarrow>
     tree_wf ns \<and> p < length ns \<and> bt_get (children (ns ! p)) (hd (edge (ns ! c))) = Some c \<and>
     0 < s \<and> s < length (edge (ns ! c))"


lemma splittableD:
  assumes "splittable p c s ns"
  shows "tree_wf ns" "p < length ns" "bt_get (children (ns ! p)) (hd (edge (ns ! c))) = Some c"
    "0 < s" "s < length (edge (ns ! c))" "edge (ns ! c) \<noteq> []" "c < length ns" "c \<noteq> 0"
    "hd (drop s (edge (ns ! c))) = edge (ns ! c) ! s" "hd (take s (edge (ns ! c))) = hd (edge (ns ! c))"
  using assms tree_wf_child [of ns p "hd (edge (ns ! c))" c]
  by (auto simp: splittable_def hd_drop_conv_nth hd_take)

lemma split_shape:
  assumes "splittable p c s ns"
  shows "length (split_edge clk p c s ns) = Suc (length ns)"
    and "i < length ns \<Longrightarrow> edge (split_edge clk p c s ns ! i) = (if i = c then drop s (edge (ns ! c)) else edge (ns ! i))"
    and "i < length ns \<Longrightarrow> node_handle (split_edge clk p c s ns ! i) = node_handle (ns ! i)"
    and "i < length ns \<Longrightarrow> last_access_tick (split_edge clk p c s ns ! i) = last_access_tick (ns ! i)"
    and "i < length ns \<Longrightarrow> bt_get (children (split_edge clk p c s ns ! i)) t =
           (if i = p \<and> t = hd (edge (ns ! c)) then Some (length ns) else bt_get (children (ns ! i)) t)"
    and "edge (split_edge clk p c s ns ! length ns) = take s (edge (ns ! c))"
    and "children (split_edge clk p c s ns ! length ns) = [(edge (ns ! c) ! s, c)]"
    and "node_handle (split_edge clk p c s ns ! length ns) = None"
  using splittableD(2,7) [OF assms] by (auto simp: split_edge_def set_child_def nth_list_update nth_append)

lemma split_parent:
  assumes "splittable p c s ns" "i < length ns"
  shows "bt_get (children (ns ! i)) t = Some c \<longleftrightarrow> i = p \<and> t = hd (edge (ns ! c))"
  using tree_wf_parent [OF splittableD(1-3) [OF assms(1)] assms(2), of t] splittableD(3) [OF assms(1)] by auto

lemma split_child_cases:
  assumes S: "splittable p c s ns" and "i < length (split_edge clk p c s ns)" "bt_get (children (split_edge clk p c s ns ! i)) t = Some d"
  obtains "i = p" "t = hd (edge (ns ! c))" "d = length ns"
  | "i = length ns" "t = edge (ns ! c) ! s" "d = c"
  | "i < length ns" "d \<noteq> c" "bt_get (children (ns ! i)) t = Some d" "d < length ns" "\<not> (i = p \<and> t = hd (edge (ns ! c)))"
proof -
  note D = splittableD [OF S] and sh = split_shape [OF S, where clk = clk]
  consider "i = length ns" | "i < length ns" "i = p \<and> t = hd (edge (ns ! c))"
    | "i < length ns" "\<not> (i = p \<and> t = hd (edge (ns ! c)))"
    using assms(2) sh(1) by linarith
  then show thesis
  proof cases
    case 1
    with assms(3) that(2) show thesis by (auto simp: sh split: if_splits)
  next
    case 2
    with assms(3) that(1) show thesis by (auto simp: sh)
  next
    case 3
    with assms(3) have b: "bt_get (children (ns ! i)) t = Some d" by (auto simp: sh split: if_splits)
    show thesis
      by (rule that(3) [OF 3(1) _ b])
        (use 3 b split_parent [OF S 3(1)] tree_wf_child [OF D(1) 3(1) b] in auto)
  qed
qed

lemma split_wf:
  assumes S: "splittable p c s ns"
  shows "tree_wf (split_edge clk p c s ns)"
proof -
  note D = splittableD [OF S] and sh = split_shape [OF S, where clk = clk]
  show ?thesis unfolding tree_wf_def
  proof (intro conjI allI impI)
  show "split_edge clk p c s ns \<noteq> []" using sh(1) by auto
next
  fix i t d
  assume "i < length (split_edge clk p c s ns)" "bt_get (children (split_edge clk p c s ns ! i)) t = Some d"
  with S have "d < Suc (length ns) \<and> d \<noteq> 0 \<and> edge (split_edge clk p c s ns ! d) \<noteq> [] \<and> hd (edge (split_edge clk p c s ns ! d)) = t"
  proof (cases rule: split_child_cases)
    case 1
    with D(2,4,6) show ?thesis by (auto simp: sh D(10))
  next
    case 2
    with D(5,7,8) show ?thesis by (auto simp: sh D(9))
  next
    case 3
    with tree_wf_child [OF D(1) 3(1,3)] show ?thesis by (auto simp: sh)
  qed
  then show "d < length (split_edge clk p c s ns)" "d \<noteq> 0" "edge (split_edge clk p c s ns ! d) \<noteq> []"
    "hd (edge (split_edge clk p c s ns ! d)) = t"
    by (simp_all add: sh)
next
  fix i j t u d
  assume *: "i < length (split_edge clk p c s ns)" "j < length (split_edge clk p c s ns)"
    "bt_get (children (split_edge clk p c s ns ! i)) t = Some d" "bt_get (children (split_edge clk p c s ns ! j)) u = Some d"
  from S *(1,3) have "i = j \<and> t = u"
  proof (cases rule: split_child_cases)
    case 1
    from S *(2,4) show ?thesis by (cases rule: split_child_cases) (use 1 D in auto)
  next
    case 2
    from S *(2,4) show ?thesis by (cases rule: split_child_cases) (use 2 D in auto)
  next
    case 3
    from S *(2,4) show ?thesis
      by (cases rule: split_child_cases) (use 3 D tree_wf_parent [OF D(1) 3(1,3), of j u] in auto)
  qed
  then show "i = j" "t = u" by simp_all
  qed
qed

lemma to_split:
  assumes S: "splittable p c s ns"
  shows "find_node (split_edge clk p c s ns) p (take s (edge (ns ! c)) @ ys) = find_node (split_edge clk p c s ns) (length ns) ys"
  using find_node_edge [of "split_edge clk p c s ns" "length ns" p ys] splittableD [OF S]
  by (simp add: split_shape [OF S])

lemma from_split:
  assumes S: "splittable p c s ns"
  shows "find_node (split_edge clk p c s ns) (length ns) (drop s (edge (ns ! c)) @ ys) = find_node (split_edge clk p c s ns) c ys"
  using find_node_edge [of "split_edge clk p c s ns" c "length ns" ys] splittableD [OF S]
  by (simp add: split_shape [OF S])

lemma through_split:
  assumes S: "splittable p c s ns"
  shows "find_node (split_edge clk p c s ns) p (edge (ns ! c) @ ys) = find_node (split_edge clk p c s ns) c ys"
  using to_split [OF S, where ys = "drop s (edge (ns ! c)) @ ys"] from_split [OF S, where ys = ys]
  by (metis append.assoc append_take_drop_id)

lemma split_fwd:
  assumes S: "splittable p c s ns" and "i < length ns" "find_node ns i ks = Some j"
  shows "find_node (split_edge clk p c s ns) i ks = Some j"
  using assms(2,3)
proof (induction ks arbitrary: i rule: length_induct)
  case (1 ks)
  note D = splittableD [OF S] and sh = split_shape [OF S, where clk = clk]
  from "1.prems"(2) D(1) "1.prems"(1) show ?case
  proof (cases rule: find_node_cases)
    case (down d ys)
    have IH: "find_node (split_edge clk p c s ns) d ys = Some j" using "1.IH" down by blast
    show ?thesis
    proof (cases "d = c")
      case True
      with down split_parent [OF S "1.prems"(1)] IH through_split [OF S] show ?thesis by auto
    next
      case False
      have "\<not> (i = p \<and> hd (edge (ns ! d)) = hd (edge (ns ! c)))"
        using False down D(3) by auto
      then show ?thesis
        using find_node_edge [of "split_edge clk p c s ns" d i ys] down IH False "1.prems"(1) by (simp add: sh)
    qed
  qed simp
qed

lemma split_bwd:
  assumes S: "splittable p c s ns" and "i < length ns" "find_node (split_edge clk p c s ns) i ks = Some j" "j < length ns"
  shows "find_node ns i ks = Some j"
  using assms(2-4)
proof (induction ks arbitrary: i rule: length_induct)
  case (1 ks)
  note D = splittableD [OF S] and sh = split_shape [OF S, where clk = clk]
  have i: "i < length (split_edge clk p c s ns)" using "1.prems"(1) by (simp add: sh)
  from "1.prems"(2) split_wf [OF S] i show ?case
  proof (cases rule: find_node_cases)
    case (down d ys)
    note d = down
    from S i d(1) show ?thesis
    proof (cases rule: split_child_cases)
      case 1
      from d(5) 1(3) have f: "find_node (split_edge clk p c s ns) (length ns) ys = Some j" by simp
      have l: "length ns < length (split_edge clk p c s ns)" by (simp add: sh)
      from f split_wf [OF S] l show ?thesis
      proof (cases rule: find_node_cases)
        case here
        with "1.prems"(3) show ?thesis by simp
      next
        case (down e zs)
        then have "e = c" by (auto simp: sh split: if_splits)
        with down have y: "ys = drop s (edge (ns ! c)) @ zs" "find_node (split_edge clk p c s ns) c zs = Some j"
          using D by (simp_all add: sh)
        have "find_node ns c zs = Some j" using "1.IH" d y D "1.prems"(3) by auto
        moreover have "ks = edge (ns ! c) @ zs" using d 1 y
          by (simp add: sh)
        ultimately show ?thesis using find_node_edge [of ns c p zs] D 1 by auto
      qed
    next
      case 2
      with "1.prems"(1) show ?thesis by simp
    next
      case 3
      have "find_node ns d ys = Some j" using "1.IH" d 3 "1.prems"(3) by blast
      with 3 d show ?thesis using find_node_edge [of ns d i ys] by (simp add: sh)
    qed
  qed simp
qed

lemma split_ext:
  assumes S: "splittable p c s ns"
  shows "tree_ext ns (split_edge clk p c s ns)"
proof -
  note D = splittableD [OF S] and sh = split_shape [OF S, where clk = clk]
  have new: "node_handle (split_edge clk p c s ns ! j) = None" if "length ns \<le> j" "j < length (split_edge clk p c s ns)" for j
    using that by (cases "j = length ns") (simp_all add: sh)
  show ?thesis
    by (rule tree_extI [OF _ split_fwd [OF S] split_bwd [OF S] _ _ new]) (simp_all add: sh)
qed

section \<open>Insertion\<close>

lemma common_prefix_agree: "common_prefix_len xs ys = agree_len xs ys"
  by (simp add: common_prefix_len_def agree_len_def)

lemma common_prefix_child:
  assumes "edge n = t # e" and "m = common_prefix_len (t # ts) (edge n)"
  shows "0 < m" "m \<le> length (t # ts)" "m \<le> length (edge n)"
    "take m (t # ts) = take m (edge n)" "take m (edge n) @ drop m (t # ts) = t # ts"
proof -
  show "0 < m" using assms by (simp add: common_prefix_agree)
  show "m \<le> length (t # ts)" "m \<le> length (edge n)"
    unfolding assms(2) common_prefix_agree by (rule agree_len_le)+
  show tk: "take m (t # ts) = take m (edge n)"
    unfolding assms(2) common_prefix_agree by (rule agree_len_take)
  show "take m (edge n) @ drop m (t # ts) = t # ts" by (metis tk append_take_drop_id)
qed

text \<open>\<open>inserted\<close> is what a call of \<open>insert_from\<close> promises: it returns the node of the inserted tokens, in
  an extension of the tree.\<close>

definition inserted :: "nat \<Rightarrow> radix_node list \<Rightarrow> nat \<Rightarrow> token_id list \<Rightarrow> nat \<Rightarrow> radix_node list \<Rightarrow> bool" where
  "inserted clk ns p ts leaf ns' \<longleftrightarrow>
     tree_wf ns' \<and> tree_ext ns ns' \<and> find_node ns' p ts = Some leaf \<and>
     (\<forall>j. length ns \<le> j \<longrightarrow> j < length ns' \<longrightarrow> last_access_tick (ns' ! j) = clk)"

lemma inserted_leaf:
  assumes "tree_wf ns" "p < length ns" "edge n \<noteq> []" "children n = []" "node_handle n = None"
    "bt_get (children (ns ! p)) (hd (edge n)) = None"
    and tick: "last_access_tick n = clk"
  shows "inserted clk ns p (edge n) (length ns) (add_leaf p n ns)"
proof -
  have "find_node (add_leaf p n ns) p (edge n) = Some (length ns)"
    using find_node_edge_self [of "add_leaf p n ns" "length ns" p] assms
    by (simp add: add_leaf_shape [OF assms(2)])
  moreover have "last_access_tick (add_leaf p n ns ! j) = clk" if "length ns \<le> j" "j < length (add_leaf p n ns)" for j
    using that tick by (cases "j = length ns") (simp_all add: add_leaf_shape [OF assms(2)])
  ultimately show ?thesis using add_leaf_wf [OF assms(1-4)] add_leaf_ext [OF assms(1-6)] by (simp add: inserted_def)
qed

lemma inserted_down:
  assumes "inserted clk ns q ys leaf ns'" "p < length ns" "find_node ns p xs = Some q"
  shows "inserted clk ns p (xs @ ys) leaf ns'"
  using assms find_node_append [OF tree_extD(2) [of ns ns' p xs q], of ys]
  by (simp add: inserted_def)

lemma inserted_trans:
  assumes "inserted clk ns p xs q ns1" "inserted clk ns1 q ys leaf ns'" "p < length ns"
  shows "inserted clk ns p (xs @ ys) leaf ns'"
proof -
  have "p < length ns1" using assms tree_extD(1) [of ns ns1] by (simp add: inserted_def)
  moreover have "find_node ns1 p xs = Some q" using assms(1) by (simp add: inserted_def)
  ultimately have "inserted clk ns1 p (xs @ ys) leaf ns'" by (rule inserted_down [OF assms(2)])
  moreover have "last_access_tick (ns' ! j) = clk" if "length ns \<le> j" "j < length ns'" for j
    using that assms(1,2) tree_extD(5) [of ns1 ns' j] by (cases "j < length ns1") (simp_all add: inserted_def)
  ultimately show ?thesis using assms(1) tree_ext_trans [of ns ns1 ns'] by (simp add: inserted_def)
qed

lemma inserted_split:
  assumes "splittable p c s ns"
  shows "inserted clk ns p (take s (edge (ns ! c))) (length ns) (split_edge clk p c s ns)"
proof -
  have "last_access_tick (split_edge clk p c s ns ! j) = clk" if "length ns \<le> j" "j < length (split_edge clk p c s ns)" for j
    using that splittableD(2) [OF assms] by (cases "j = length ns")
      (auto simp: split_shape [OF assms] split_edge_def set_child_def nth_append)
  then show ?thesis
    using to_split [OF assms, of clk "[]"] split_wf [OF assms] split_ext [OF assms]
    by (simp add: inserted_def)
qed

text \<open>The fuel of one unit more than the tokens is enough.\<close>

lemma insert_from_correct:
  assumes "tree_wf ns" "p < length ns" "length ts < fuel"
  shows "\<exists>leaf ns'. insert_from fuel clk p ts ns = (Ok (leaf, ns') :: ('e, _) outcome) \<and> inserted clk ns p ts leaf ns'"
  using assms
proof (induction fuel arbitrary: p ts ns)
  case 0
  then show ?case by simp
next
  case (Suc fuel)
  note wf = Suc.prems(1) and p = Suc.prems(2)
  consider "ts = []" | t rest where "ts = t # rest" "bt_get (children (ns ! p)) t = None"
    | t rest c where "ts = t # rest" "bt_get (children (ns ! p)) t = Some c"
    by (cases ts; cases "bt_get (children (ns ! p)) (hd ts)") auto
  then show ?case
  proof cases
    case 1
    with wf show ?thesis by (simp add: tree_ext_refl inserted_def)
  next
    case 2
    with p inserted_leaf [OF wf p, of "\<lparr>edge = ts, children = [], node_handle = None, last_access_tick = clk, hit_count = 0\<rparr>"]
    show ?thesis by (simp add: push_node_def add_leaf_def)
  next
    case (3 t rest c)
    note C = tree_wf_child [OF wf p 3(2)]
    obtain e where e: "edge (ns ! c) = t # e" using C(3,4) by (cases "edge (ns ! c)") auto
    define m where "m = common_prefix_len ts (edge (ns ! c))"
    note M = common_prefix_child [OF e m_def [unfolded 3(1)], folded 3(1)]
    have fu: "length (drop m ts) < fuel" using Suc.prems(3) M(1,2) by simp
    show ?thesis
    proof (cases "m = length (edge (ns ! c))")
      case True
      from Suc.IH [OF wf C(1) fu] obtain leaf ns' where
        ih: "insert_from fuel clk c (drop m ts) ns = (Ok (leaf, ns') :: ('e, _) outcome)" "inserted clk ns c (drop m ts) leaf ns'" by blast
      have "inserted clk ns p ts leaf ns'"
        using inserted_down [OF ih(2) p find_node_edge_self] C 3(2) M(5) True by simp
      with True p C(1) 3 ih(1) show ?thesis by (simp add: m_def Let_def)
    next
      case False
      then have S: "splittable p c m ns" using wf p 3 C M(1,3) by (simp add: splittable_def)
      let ?ns = "split_edge clk p c m ns"
      have l: "length ns < length ?ns" by (simp add: split_shape(1) [OF S])
      from Suc.IH [OF split_wf [OF S] l fu] obtain leaf ns' where
        ih: "insert_from fuel clk (length ns) (drop m ts) ?ns = (Ok (leaf, ns') :: ('e, _) outcome)"
          "inserted clk ?ns (length ns) (drop m ts) leaf ns'" by blast
      have i: "inserted clk ns p ts leaf ns'"
        using inserted_trans [OF inserted_split [OF S] ih(2) p] M(5) by simp
      have i0: "inserted clk ns p ts (length ns) ?ns" if "m = length ts"
        using inserted_split [OF S, of clk] M(4) that by simp
      have sc: "split_child clk p c m ns = (Ok (length ns, ?ns) :: ('e, _) outcome)"
        by (rule split_child_edge [OF C(1) p M(1)]) (use False M(3) in simp)
      have "insert_from (Suc fuel) clk p ts ns =
          (if m = length ts then (Ok (length ns, ?ns) :: ('e, _) outcome) else insert_from fuel clk (length ns) (drop m ts) ?ns)"
        using False p C(1) 3 sc m_def [unfolded 3(1), symmetric] by (simp add: Let_def)
      with ih(1) i i0 show ?thesis by (cases "m = length ts") auto
    qed
  qed
qed

end
