(* ===== verification/RadixProps.thy ===== *)
theory RadixProps
  imports RadixTree "HOL-Library.Multiset"
begin

text \<open>
  What the prefix cache does. \<open>radix_map\<close> is the abstract cache: the finite map from token sequences to
  handles. \<open>lookup\<close> returns the longest cached prefix, \<open>insert\<close> updates the map, and eviction removes
  the least recently used entries until enough tokens are free. The abstract contract that the rest of
  the program relies on is the locale \<open>prefix_cache\<close>, interpreted on the operations of the code.
\<close>

section \<open>Abstraction and invariant\<close>

definition node_map :: "radix_node list \<Rightarrow> token_id list \<Rightarrow> kv_handle option" where
  "node_map ns ks = Option.bind (find_node ns 0 ks) (\<lambda>j. node_handle (ns ! j))"

definition node_tick :: "radix_node list \<Rightarrow> token_id list \<Rightarrow> nat option" where
  "node_tick ns ks = map_option (\<lambda>j. last_access_tick (ns ! j)) (find_node ns 0 ks)"

definition radix_map :: "radix_cache \<Rightarrow> token_id list \<Rightarrow> kv_handle option" where
  "radix_map c = node_map (nodes c)"

text \<open>When an entry was last used.\<close>

definition radix_tick :: "radix_cache \<Rightarrow> token_id list \<Rightarrow> nat option" where
  "radix_tick c = node_tick (nodes c)"

definition node_tokens :: "radix_node \<Rightarrow> nat" where
  "node_tokens n = (case node_handle n of None \<Rightarrow> 0 | Some h \<Rightarrow> token_len h)"

definition handles_placed :: "radix_node list \<Rightarrow> bool" where
  "handles_placed ns \<longleftrightarrow>
     (\<forall>j < length ns. \<forall>h. node_handle (ns ! j) = Some h \<longrightarrow>
        (\<exists>ks. find_node ns 0 ks = Some j \<and> length ks = token_len h))"

definition radix_inv :: "radix_cache \<Rightarrow> bool" where
  "radix_inv c \<longleftrightarrow>
     tree_wf (nodes c) \<and> handles_placed (nodes c) \<and>
     resident_tokens c = sum_list (map node_tokens (nodes c)) \<and>
     (\<forall>n \<in> set (nodes c). last_access_tick n \<le> clock c) \<and> clock c \<le> max64"

lemma radix_invD:
  assumes "radix_inv c"
  shows "tree_wf (nodes c)" "handles_placed (nodes c)"
    "resident_tokens c = sum_list (map node_tokens (nodes c))"
    "n \<in> set (nodes c) \<Longrightarrow> last_access_tick n \<le> clock c" "clock c \<le> max64"
    "nodes c \<noteq> []" "0 < length (nodes c)"
  using assms by (auto simp: radix_inv_def tree_wf_def)

text \<open>Paths depend on edges and children only.\<close>

definition same_shape :: "radix_node list \<Rightarrow> radix_node list \<Rightarrow> bool" where
  "same_shape ns ns' \<longleftrightarrow>
     length ns' = length ns \<and> (\<forall>j. edge (ns' ! j) = edge (ns ! j) \<and> children (ns' ! j) = children (ns ! j))"

lemma same_shape_refl: "same_shape ns ns"
  by (simp add: same_shape_def)

lemma same_shape_trans: "same_shape ns ns1 \<Longrightarrow> same_shape ns1 ns2 \<Longrightarrow> same_shape ns ns2"
  by (simp add: same_shape_def)

lemma same_shape_update:
  assumes "edge n = edge (ns ! k)" "children n = children (ns ! k)"
  shows "same_shape ns (ns[k := n])"
proof -
  have "edge (ns[k := n] ! j) = edge (ns ! j) \<and> children (ns[k := n] ! j) = children (ns ! j)" for j
    by (cases "k < length ns"; cases "j = k") (simp_all add: assms list_update_beyond)
  then show ?thesis by (simp add: same_shape_def)
qed

lemma same_shape_find:
  assumes "same_shape ns ns'"
  shows "find_node ns' i ks = find_node ns i ks"
  using assms
proof (induction ns i ks rule: find_node.induct)
  case (2 ns i t ts)
  have e: "edge (ns' ! j) = edge (ns ! j)" "children (ns' ! j) = children (ns ! j)" for j
    using "2.prems" by (simp_all add: same_shape_def)
  show ?case
    using "2.IH" [OF _ _ "2.prems"] by (simp add: e split: option.split)
qed simp

lemma same_shape_wf: "same_shape ns ns' \<Longrightarrow> tree_wf ns \<Longrightarrow> tree_wf ns'"
  unfolding same_shape_def tree_wf_def by (metis length_0_conv)

lemma touch_fields [simp]:
  "edge (touch t n) = edge n" "children (touch t n) = children n" "node_handle (touch t n) = node_handle n"
  "last_access_tick (touch t n) = t" "node_tokens (touch t n) = node_tokens n"
  by (simp_all add: touch_def node_tokens_def)

lemma node_tokens_handle [simp]:
  "node_tokens (n\<lparr>node_handle := None\<rparr>) = 0" "node_tokens (n\<lparr>node_handle := Some h\<rparr>) = token_len h"
  by (simp_all add: node_tokens_def)

lemma handles_placed_same:
  assumes "same_shape ns ns'" "handles_placed ns"
    "\<And>j. j < length ns \<Longrightarrow> node_handle (ns' ! j) = node_handle (ns ! j) \<or> node_handle (ns' ! j) = None"
  shows "handles_placed ns'"
  unfolding handles_placed_def same_shape_find [OF assms(1)]
proof (intro allI impI)
  fix j h assume "j < length ns'" "node_handle (ns' ! j) = Some h"
  with assms(1) assms(3) [of j] have "j < length ns" "node_handle (ns ! j) = Some h"
    by (auto simp: same_shape_def)
  with assms(2) show "\<exists>ks. find_node ns 0 ks = Some j \<and> length ks = token_len h"
    by (simp add: handles_placed_def)
qed

lemma radix_map_length:
  assumes "radix_inv c" "radix_map c ks = Some h"
  shows "length ks = token_len h"
proof -
  note I = radix_invD [OF assms(1)]
  from assms(2) obtain j where j: "find_node (nodes c) 0 ks = Some j" "node_handle (nodes c ! j) = Some h"
    by (auto simp: radix_map_def node_map_def bind_eq_Some_conv)
  have "j < length (nodes c)" by (rule find_node_range [OF I(1,7) j(1)])
  with I(2) j(2) obtain ls where "find_node (nodes c) 0 ls = Some j" "length ls = token_len h"
    by (auto simp: handles_placed_def)
  with find_node_unique [OF I(1) j(1)] show ?thesis by simp
qed

section \<open>Lookup\<close>

text \<open>\<open>best\<close> is the deepest entry among the prefixes of \<open>ts\<close> of at most \<open>n\<close> tokens.\<close>

definition best_upto ::
  "(token_id list \<Rightarrow> kv_handle option) \<Rightarrow> token_id list \<Rightarrow> nat \<Rightarrow> (nat \<times> kv_handle) option \<Rightarrow> bool" where
  "best_upto m ts n best \<longleftrightarrow>
     (case best of
        None \<Rightarrow> (\<forall>k \<le> n. m (take k ts) = None)
      | Some (k, h) \<Rightarrow> k \<le> n \<and> m (take k ts) = Some h \<and> (\<forall>j. k < j \<and> j \<le> n \<longrightarrow> m (take j ts) = None))"

lemma best_upto_extend:
  assumes "best_upto m ts n best" "n \<le> n'" "\<And>k. n < k \<Longrightarrow> k \<le> n' \<Longrightarrow> m (take k ts) = None"
  shows "best_upto m ts n' best"
  using assms unfolding best_upto_def
  by (cases best) (auto, metis not_le_imp_less, metis not_le_imp_less)

lemma best_upto_hit:
  "m (take n ts) = Some h \<Longrightarrow> best_upto m ts n (Some (n, h))"
  by (auto simp: best_upto_def)

lemma find_node_blocked:
  assumes "ks \<noteq> []" "bt_get (children (ns ! i)) (hd ks) = None \<or>
    (\<exists>c. bt_get (children (ns ! i)) (hd ks) = Some c \<and> take (length (edge (ns ! c))) ks \<noteq> edge (ns ! c))"
  shows "find_node ns i ks = None"
  using assms by (cases ks) auto

text \<open>A prefix that ends inside the edge to a child, or beyond a point where the walk is stuck.\<close>

lemma find_node_prefix_None:
  assumes at: "find_node ns 0 (take cur ts) = Some i" and k: "cur < k" "k \<le> length ts"
    and b: "bt_get (children (ns ! i)) (ts ! cur) = None \<or>
      (\<exists>c. bt_get (children (ns ! i)) (ts ! cur) = Some c \<and>
        (k < cur + length (edge (ns ! c)) \<or> agree_len (drop cur ts) (edge (ns ! c)) < length (edge (ns ! c))))"
  shows "find_node ns 0 (take k ts) = None"
proof -
  define ks where "ks = take (k - cur) (drop cur ts)"
  have tk: "take k ts = take cur ts @ ks"
    using k by (metis ks_def le_add_diff_inverse less_or_eq_imp_le take_add)
  have ks: "ks \<noteq> []" "hd ks = ts ! cur"
    using k by (simp_all add: ks_def hd_take hd_drop_conv_nth)
  have "take (length (edge (ns ! c))) ks \<noteq> edge (ns ! c)"
    if "k < cur + length (edge (ns ! c)) \<or> agree_len (drop cur ts) (edge (ns ! c)) < length (edge (ns ! c))" for c
  proof
    assume e: "take (length (edge (ns ! c))) ks = edge (ns ! c)"
    then have "length (edge (ns ! c)) \<le> k - cur"
      by (metis ks_def length_take min.bounded_iff order_refl)
    moreover from this e have "take (length (edge (ns ! c))) (drop cur ts) = edge (ns ! c)"
      by (simp add: ks_def min_absorb1)
    ultimately show False using that k(1) by (simp add: agree_len_full [symmetric])
  qed
  with b ks have "find_node ns i ks = None" by (intro find_node_blocked) auto
  with find_node_append [OF at] tk show ?thesis by simp
qed


text \<open>What a walk does to the nodes: it only touches some of them.\<close>

definition touched :: "nat \<Rightarrow> radix_node list \<Rightarrow> radix_node list \<Rightarrow> bool" where
  "touched tick ns ns' \<longleftrightarrow>
     same_shape ns ns' \<and>
     (\<forall>j < length ns. node_handle (ns' ! j) = node_handle (ns ! j) \<and>
        (last_access_tick (ns' ! j) = last_access_tick (ns ! j) \<or> last_access_tick (ns' ! j) = tick))"

lemma touched_refl: "touched tick ns ns"
  by (simp add: touched_def same_shape_refl)

lemma touched_trans: "touched tick ns ns1 \<Longrightarrow> touched tick ns1 ns2 \<Longrightarrow> touched tick ns ns2"
  unfolding touched_def by (metis same_shape_trans same_shape_def)

lemma touched_update: "touched tick ns (ns[k := touch tick (ns ! k)])"
  by (cases "k < length ns") (auto simp: touched_def same_shape_update same_shape_refl nth_list_update list_update_beyond)

lemma touched_same_shape: "touched tick ns ns' \<Longrightarrow> same_shape ns ns'"
  by (simp add: touched_def)

lemmas touched_find = same_shape_find [OF touched_same_shape]
lemmas touched_wf = same_shape_wf [OF touched_same_shape]

lemma touched_map:
  assumes "touched tick ns ns'" "tree_wf ns"
  shows "node_map ns' = node_map ns"
proof
  fix ks
  have "0 < length ns" using assms(2) by (simp add: tree_wf_def)
  with find_node_range [OF assms(2), of 0 ks] assms(1) show "node_map ns' ks = node_map ns ks"
    by (cases "find_node ns 0 ks") (auto simp: node_map_def touched_find [OF assms(1)] touched_def)
qed

lemma touched_tick:
  assumes "touched tick ns ns'" "tree_wf ns" "node_tick ns ks = Some tick"
  shows "node_tick ns' ks = Some tick"
proof -
  have "0 < length ns" using assms(2) by (simp add: tree_wf_def)
  with find_node_range [OF assms(2), of 0 ks] assms show ?thesis
    by (auto simp: node_tick_def touched_find [OF assms(1)] touched_def)
qed

lemma touched_tokens:
  assumes "touched tick ns ns'"
  shows "map node_tokens ns' = map node_tokens ns"
  using assms by (intro nth_equalityI) (auto simp: touched_def same_shape_def node_tokens_def)

lemma touched_ticks:
  assumes "touched tick ns ns'" "\<forall>n \<in> set ns. last_access_tick n \<le> b" "b \<le> tick"
  shows "\<forall>n \<in> set ns'. last_access_tick n \<le> tick"
proof
  fix n assume "n \<in> set ns'"
  then obtain j where j: "j < length ns'" "n = ns' ! j" by (auto simp: in_set_conv_nth)
  with assms(1) have "j < length ns" "last_access_tick n = last_access_tick (ns ! j) \<or> last_access_tick n = tick"
    by (auto simp: touched_def same_shape_def)
  with assms(2,3) show "last_access_tick n \<le> tick" by (metis nth_mem order_refl order_trans)
qed

text \<open>\<open>hot\<close>: the entry found so far carries the tick of this walk.\<close>

definition hot :: "nat \<Rightarrow> token_id list \<Rightarrow> (nat \<times> kv_handle) option \<Rightarrow> radix_node list \<Rightarrow> bool" where
  "hot tick ts best ns \<longleftrightarrow> (\<forall>k h. best = Some (k, h) \<longrightarrow> node_tick ns (take k ts) = Some tick)"

text \<open>One turn of the loop.\<close>

lemma walk_step:
  assumes wf: "tree_wf ns" and at: "find_node ns 0 (take cur ts) = Some i"
    and best: "best_upto (node_map ns) ts cur best" "hot tick ts best ns"
    and c: "bt_get (children (ns ! i)) (ts ! cur) = Some c" "c < length ns"
    and m: "agree_len (drop cur ts) (edge (ns ! c)) = length (edge (ns ! c))" "hd (edge (ns ! c)) = ts ! cur"
      "edge (ns ! c) \<noteq> []" "cur + length (edge (ns ! c)) \<le> length ts"
  defines "cur' \<equiv> cur + length (edge (ns ! c))"
    and "best' \<equiv> case node_handle (ns ! c) of Some h \<Rightarrow> Some (cur + length (edge (ns ! c)), h) | None \<Rightarrow> best"
  shows "find_node ns 0 (take cur' ts) = Some c" "best_upto (node_map ns) ts cur' best'"
    "hot tick ts best' (ns[c := touch tick (ns ! c)])"
proof -
  let ?ns = "ns[c := touch tick (ns ! c)]"
  have t: "touched tick ns ?ns" by (rule touched_update)
  have "take (length (edge (ns ! c))) (drop cur ts) = edge (ns ! c)"
    using m(1) agree_len_full [of "drop cur ts" "edge (ns ! c)"] by simp
  then show at': "find_node ns 0 (take cur' ts) = Some c"
    using find_node_append [OF at, of "edge (ns ! c)"] find_node_edge_self [of ns c i] c m
    by (simp add: take_add cur'_def)
  have miss: "best_upto (node_map ns) ts cur' best" if "node_handle (ns ! c) = None"
  proof (rule best_upto_extend [OF best(1)])
    fix k assume "cur < k" "k \<le> cur'"
    with find_node_prefix_None [OF at, of k] c m that at' show "node_map ns (take k ts) = None"
      by (cases "k = cur'") (auto simp: node_map_def cur'_def)
  qed (simp add: cur'_def)
  show "best_upto (node_map ns) ts cur' best'"
    using miss at' by (auto simp: best'_def cur'_def node_map_def intro: best_upto_hit split: option.split)
  have "node_tick ?ns (take cur' ts) = Some tick"
    using at' c by (simp add: node_tick_def touched_find [OF t])
  with best(2) touched_tick [OF t wf] show "hot tick ts best' ?ns"
    by (auto simp: hot_def best'_def cur'_def split: option.splits)
qed

text \<open>The walk returns, and its answer is the deepest entry on the path of \<open>ts\<close>.\<close>

lemma lookup_walk_correct:
  assumes "tree_wf ns" "find_node ns 0 (take cur ts) = Some i" "length ts < fuel + cur"
    "best_upto (node_map ns) ts cur best" "hot tick ts best ns" "cur \<le> length ts"
  shows "\<exists>b ns'. lookup_walk fuel tick ts i cur best ns = (Ok (b, ns') :: ('e, _) outcome) \<and>
    best_upto (node_map ns) ts (length ts) b \<and> hot tick ts b ns' \<and> touched tick ns ns'"
  using assms
proof (induction fuel arbitrary: i cur best ns)
  case 0
  then show ?case by simp
next
  case (Suc fuel)
  note wf = Suc.prems(1) and at = Suc.prems(2)
  have i: "i < length ns" using find_node_range [OF wf _ at] wf by (simp add: tree_wf_def)
  have stuck: "best_upto (node_map ns) ts (length ts) best"
    if "\<And>k. cur < k \<Longrightarrow> k \<le> length ts \<Longrightarrow> find_node ns 0 (take k ts) = None"
    by (rule best_upto_extend [OF Suc.prems(4,6)]) (simp add: node_map_def that)
  consider "cur = length ts" | "cur < length ts" "bt_get (children (ns ! i)) (ts ! cur) = None"
    | c where "cur < length ts" "bt_get (children (ns ! i)) (ts ! cur) = Some c"
    using Suc.prems(6) by fastforce
  then show ?case
  proof cases
    case 1
    with Suc.prems show ?thesis by (simp add: touched_refl)
  next
    case 2
    then have "best_upto (node_map ns) ts (length ts) best"
      by (intro stuck find_node_prefix_None [OF at]) auto
    with 2 i Suc.prems(5) show ?thesis by (simp add: touched_refl)
  next
    case (3 c)
    note C = tree_wf_child [OF wf i 3(2)]
    let ?m = "agree_len (drop cur ts) (edge (ns ! c))" and ?e = "length (edge (ns ! c))"
    have le: "?m \<le> length (drop cur ts)" "?m \<le> ?e" by (rule agree_len_le)+
    show ?thesis
    proof (cases "?m < ?e")
      case True
      then have "best_upto (node_map ns) ts (length ts) best"
        using 3 by (intro stuck find_node_prefix_None [OF at]) auto
      with 3 True C(1) i Suc.prems(5) show ?thesis by (simp add: touched_refl common_prefix_agree)
    next
      case False
      with le have m: "?m = ?e" "cur + ?e \<le> length ts" using 3(1) by auto
      let ?ns = "ns[c := touch tick (ns ! c)]"
      let ?best = "case node_handle (ns ! c) of Some h \<Rightarrow> Some (cur + ?e, h) | None \<Rightarrow> best"
      have t: "touched tick ns ?ns" by (rule touched_update)
      note W = walk_step [OF wf at Suc.prems(4,5) 3(2) C(1) m(1) C(4,3) m(2)]
      have r: "lookup_walk (Suc fuel) tick ts i cur best ns =
          (lookup_walk fuel tick ts c (cur + ?e) ?best ?ns :: ('e, _) outcome)"
        using 3 C(1) i m(1) by (simp add: common_prefix_agree Let_def)
      have fu: "length ts < fuel + (cur + ?e)" using Suc.prems(3) C(3) by (cases "edge (ns ! c)") auto
      from Suc.IH [OF touched_wf [OF t wf] _ fu _ W(3) m(2), unfolded touched_find [OF t] touched_map [OF t wf], OF W(1,2)]
      obtain b ns' where
        ih: "lookup_walk fuel tick ts c (cur + ?e) ?best ?ns = (Ok (b, ns') :: ('e, _) outcome)"
          "best_upto (node_map ns) ts (length ts) b" "hot tick ts b ns'" "touched tick ?ns ns'"
        by blast
      with r touched_trans [OF t ih(4)] show ?thesis by auto
    qed
  qed
qed

declare lookup_walk.simps(2) [simp del] and insert_from.simps(2) [simp del]

lemma node_map_range:
  assumes "tree_wf ns" "node_map ns ks = Some h"
  obtains j where "j < length ns" "find_node ns 0 ks = Some j" "node_handle (ns ! j) = Some h"
proof -
  from assms(2) obtain j where j: "find_node ns 0 ks = Some j" "node_handle (ns ! j) = Some h"
    by (auto simp: node_map_def bind_eq_Some_conv)
  with find_node_range [OF assms(1) _ j(1)] assms(1) that show thesis by (simp add: tree_wf_def)
qed

text \<open>The lookup as a whole: it never panics, keeps the invariant, the entries, the token count and the
  capacity, and answers with the deepest entry.\<close>

lemma radix_lookup_correct:
  assumes inv: "radix_inv c"
  shows "\<exists>b c'. radix_lookup ts c =
      (Ok (case b of Some (n, h) \<Rightarrow> \<lparr>matched_tokens = n, lookup_handle = Some h\<rparr>
           | None \<Rightarrow> \<lparr>matched_tokens = 0, lookup_handle = None\<rparr>) :: ('e, _) outcome, c') \<and>
    best_upto (radix_map c) ts (length ts) b \<and> radix_inv c' \<and> radix_map c' = radix_map c \<and>
    resident_tokens c' = resident_tokens c \<and> capacity_tokens c' = capacity_tokens c \<and>
    clock c' = next_tick c \<and>
    (\<forall>n h. b = Some (n, h) \<longrightarrow> radix_tick c' (take n ts) = Some (clock c'))"
proof -
  note I = radix_invD [OF inv]
  define tick where "tick = next_tick c"
  let ?ns = "(nodes c)[0 := touch tick (nodes c ! 0)]"
  have ge: "clock c \<le> tick" "tick \<le> max64" using I(5) by (simp_all add: tick_def next_tick_def sat_add64_ge)
  let ?best = "map_option (\<lambda>h. (0, h)) (node_handle (nodes c ! 0))"
  have t: "touched tick (nodes c) ?ns" by (rule touched_update)
  have b0: "best_upto (node_map ?ns) ts 0 ?best"
    unfolding touched_map [OF t I(1)] by (auto simp: best_upto_def node_map_def split: option.split)
  have h0: "hot tick ts ?best ?ns"
    using I(7) by (auto simp: hot_def node_tick_def)
  from lookup_walk_correct [OF touched_wf [OF t I(1)] _ _ b0 h0, of 0 "Suc (length ts)"]
  obtain b ns' where w: "lookup_walk (Suc (length ts)) tick ts 0 0 ?best ?ns = (Ok (b, ns') :: ('e, _) outcome)"
    "best_upto (node_map (nodes c)) ts (length ts) b" "hot tick ts b ns'" "touched tick ?ns ns'"
    by (auto simp: touched_map [OF t I(1)])
  let ?c = "c\<lparr>nodes := ns', clock := tick\<rparr>"
  have t': "touched tick (nodes c) ns'" by (rule touched_trans [OF t w(4)])
  have inv': "radix_inv ?c"
    unfolding radix_inv_def
    using touched_wf [OF t' I(1)] handles_placed_same [OF touched_same_shape [OF t'] I(2)] t'
      touched_tokens [OF t'] I(3) touched_ticks [OF t' _ ge(1)] I(4) ge(2)
    by (auto simp: touched_def)
  show ?thesis
    using w inv' touched_map [OF t' I(1)] I(6)
    by (intro exI [of _ b] exI [of _ ?c])
      (auto simp: radix_lookup_def Let_def tick_def [symmetric] radix_map_def radix_tick_def hot_def)
qed

section \<open>Insertion\<close>

lemma tree_ext_map:
  assumes wf: "tree_wf ns" "tree_wf ns'" and ext: "tree_ext ns ns'"
  shows "node_map ns' = node_map ns"
proof
  fix ks
  have r: "0 < length ns" "0 < length ns'" using wf by (simp_all add: tree_wf_def)
  show "node_map ns' ks = node_map ns ks"
  proof (cases "find_node ns' 0 ks")
    case None
    then have "find_node ns 0 ks = None" using tree_extD(2) [OF ext r(1), of ks] by (cases "find_node ns 0 ks") auto
    with None show ?thesis by (simp add: node_map_def)
  next
    case (Some j)
    show ?thesis
    proof (cases "j < length ns")
      case True
      with Some tree_extD(3) [OF ext r(1) Some] tree_extD(4) [OF ext] show ?thesis by (simp add: node_map_def)
    next
      case False
      have "find_node ns 0 ks = None"
        using Some False tree_extD(2) [OF ext r(1), of ks] find_node_range [OF wf(1) r(1), of ks]
        by (cases "find_node ns 0 ks") auto
      with Some False find_node_range [OF wf(2) r(2) Some] tree_extD(6) [OF ext, of j] show ?thesis
        by (simp add: node_map_def)
    qed
  qed
qed

lemma tree_ext_placed:
  assumes "tree_wf ns" "tree_ext ns ns'" "handles_placed ns"
  shows "handles_placed ns'"
  unfolding handles_placed_def
proof (intro allI impI)
  fix j h assume j: "j < length ns'" "node_handle (ns' ! j) = Some h"
  have l: "j < length ns" using j tree_extD(6) [OF assms(2), of j] by (cases "j < length ns") auto
  with j tree_extD(4) [OF assms(2) l] have "node_handle (ns ! j) = Some h" by simp
  with l assms(3) obtain ks where "find_node ns 0 ks = Some j" "length ks = token_len h"
    unfolding handles_placed_def by blast
  with tree_extD(2) [OF assms(2), of 0 ks j] assms(1) show "\<exists>ks. find_node ns' 0 ks = Some j \<and> length ks = token_len h"
    by (auto simp: tree_wf_def)
qed

lemma tree_ext_tokens:
  assumes "tree_ext ns ns'"
  shows "sum_list (map node_tokens ns') = sum_list (map node_tokens ns)"
proof -
  let ?n = "length ns"
  have "map node_tokens (take ?n ns') = map node_tokens ns"
    using tree_extD(1,4) [OF assms] by (intro nth_equalityI) (auto simp: node_tokens_def)
  moreover have "map node_tokens (drop ?n ns') = replicate (length ns' - ?n) 0"
    using tree_extD(6) [OF assms] by (intro nth_equalityI) (auto simp: node_tokens_def)
  moreover have "sum_list (map node_tokens ns') =
      sum_list (map node_tokens (take ?n ns')) + sum_list (map node_tokens (drop ?n ns'))"
    by (metis append_take_drop_id map_append sum_list_append)
  ultimately show ?thesis by (simp add: sum_list_replicate)
qed

text \<open>Storing a handle at the node of \<open>ts\<close>.\<close>

lemma store_handle:
  assumes wf: "tree_wf ns" and at: "find_node ns 0 ts = Some leaf"
    and n: "edge n = edge (ns ! leaf)" "children n = children (ns ! leaf)" "node_handle n = Some h"
  shows "leaf < length ns" "tree_wf (ns[leaf := n])" "node_map (ns[leaf := n]) = (node_map ns)(ts \<mapsto> h)"
    "handles_placed ns \<Longrightarrow> length ts = token_len h \<Longrightarrow> handles_placed (ns[leaf := n])"
    "ks \<noteq> ts \<Longrightarrow> node_tick (ns[leaf := n]) ks = node_tick ns ks"
    "node_tick (ns[leaf := n]) ts = Some (last_access_tick n)"
proof -
  have root: "0 < length ns" using wf by (simp add: tree_wf_def)
  show leaf: "leaf < length ns" by (rule find_node_range [OF wf root at])
  have ss: "same_shape ns (ns[leaf := n])" by (rule same_shape_update [OF n(1,2)])
  show "tree_wf (ns[leaf := n])" by (rule same_shape_wf [OF ss wf])
  have other: "j \<noteq> leaf" if "find_node ns 0 ks = Some j" "ks \<noteq> ts" for j ks
    using find_node_unique [OF wf that(1)] at that(2) by auto
  show "node_map (ns[leaf := n]) = (node_map ns)(ts \<mapsto> h)"
  proof
    fix ks show "node_map (ns[leaf := n]) ks = ((node_map ns)(ts \<mapsto> h)) ks"
      using other [of ks] at leaf n
      by (cases "find_node ns 0 ks") (auto simp: node_map_def same_shape_find [OF ss])
  qed
  show "node_tick (ns[leaf := n]) ks = node_tick ns ks" if "ks \<noteq> ts"
    using other [OF _ that] by (cases "find_node ns 0 ks") (auto simp: node_tick_def same_shape_find [OF ss])
  show "node_tick (ns[leaf := n]) ts = Some (last_access_tick n)"
    using at leaf by (simp add: node_tick_def same_shape_find [OF ss])
  show "handles_placed (ns[leaf := n])" if "handles_placed ns" "length ts = token_len h"
    unfolding handles_placed_def same_shape_find [OF ss]
  proof (intro allI impI)
    fix j h' assume "j < length (ns[leaf := n])" "node_handle (ns[leaf := n] ! j) = Some h'"
    with that at n leaf show "\<exists>ks. find_node ns 0 ks = Some j \<and> length ks = token_len h'"
      unfolding handles_placed_def by (cases "j = leaf") auto
  qed
qed

lemma inserted_ticks:
  assumes "inserted clk ns p ts leaf ns'" "\<forall>n \<in> set ns. last_access_tick n \<le> clk"
  shows "\<forall>n \<in> set ns'. last_access_tick n \<le> clk"
proof
  fix n assume "n \<in> set ns'"
  then obtain j where j: "j < length ns'" "n = ns' ! j" by (auto simp: in_set_conv_nth)
  with assms tree_extD(5) [of ns ns' j] show "last_access_tick n \<le> clk"
    by (cases "j < length ns") (auto simp: inserted_def)
qed

text \<open>The insertion up to the call of \<open>evict_to_capacity\<close>.\<close>

lemma radix_insert_raw:
  assumes inv: "radix_inv c" and len: "length ts = token_len h"
  shows "\<exists>c1. radix_insert ts h c =
      (Ok \<lparr>inserted_tokens = length ts, replaced = radix_map c ts, insert_handle = h\<rparr> :: ('e, _) outcome,
       evict_to_capacity c1) \<and>
    radix_inv c1 \<and> radix_map c1 = (radix_map c)(ts \<mapsto> h) \<and> capacity_tokens c1 = capacity_tokens c \<and>
    clock c1 = next_tick c \<and> radix_tick c1 ts = Some (clock c1) \<and>
    (\<forall>ks h. ks \<noteq> ts \<longrightarrow> ks \<noteq> [] \<longrightarrow> radix_map c ks = Some h \<longrightarrow> radix_tick c1 ks = radix_tick c ks)"
proof -
  note I = radix_invD [OF inv]
  define clk where "clk = next_tick c"
  define ns where "ns = (nodes c)[0 := touch clk (nodes c ! 0)]"
  have t: "touched clk (nodes c) ns" unfolding ns_def by (rule touched_update)
  have wf0: "tree_wf ns" by (rule touched_wf [OF t I(1)])
  then have root: "0 < length ns" by (simp add: tree_wf_def)
  from insert_from_correct [OF wf0 root, of ts "Suc (length ts)" clk] obtain leaf ns1 where
    r: "insert_from (Suc (length ts)) clk 0 ts ns = (Ok (leaf, ns1) :: ('e, _) outcome)"
    and i: "inserted clk ns 0 ts leaf ns1" by auto
  have wf1: "tree_wf ns1" and ext: "tree_ext ns ns1" and at: "find_node ns1 0 ts = Some leaf"
    using i by (simp_all add: inserted_def)
  have map1: "node_map ns1 = radix_map c"
    by (simp add: radix_map_def tree_ext_map [OF wf0 wf1 ext] touched_map [OF t I(1)])
  have old: "node_handle (ns1 ! leaf) = radix_map c ts" using at by (simp add: map1 [symmetric] node_map_def)
  define n2 where "n2 = touch clk ((ns1 ! leaf)\<lparr>node_handle := Some h\<rparr>)"
  have n2: "edge n2 = edge (ns1 ! leaf)" "children n2 = children (ns1 ! leaf)" "node_handle n2 = Some h"
    "last_access_tick n2 = clk" "node_tokens n2 = token_len h" by (simp_all add: n2_def)
  note S = store_handle [OF wf1 at n2(1-3)]
  let ?c1 = "c\<lparr>nodes := ns1[leaf := n2], resident_tokens :=
      (case radix_map c ts of None \<Rightarrow> resident_tokens c | Some o1 \<Rightarrow> resident_tokens c - token_len o1) + token_len h,
      clock := clk\<rparr>"
  have ins: "radix_insert ts h c =
      (Ok \<lparr>inserted_tokens = length ts, replaced = radix_map c ts, insert_handle = h\<rparr> :: ('e, _) outcome, evict_to_capacity ?c1)"
    using len I(6) r old by (simp add: radix_insert_def Let_def clk_def [symmetric] ns_def [symmetric] n2_def [symmetric])
  have ge: "clock c \<le> clk" "clk \<le> max64" using I(5) by (simp_all add: clk_def next_tick_def sat_add64_ge)
  have ticks1: "\<forall>n \<in> set ns1. last_access_tick n \<le> clk"
    using inserted_ticks [OF i touched_ticks [OF t _ ge(1)]] I(4) by blast
  have inv': "radix_inv ?c1"
    unfolding radix_inv_def
  proof (intro conjI)
    show "tree_wf (nodes ?c1)" "handles_placed (nodes ?c1)"
      using S(2) S(4) [OF tree_ext_placed [OF wf0 ext handles_placed_same [OF touched_same_shape [OF t] I(2)]] len] t
      by (auto simp: touched_def)
    have "sum_list (map node_tokens ns1) = resident_tokens c"
      by (simp add: tree_ext_tokens [OF ext] touched_tokens [OF t] I(3))
    moreover have "node_tokens (ns1 ! leaf) \<le> sum_list (map node_tokens ns1)"
      by (rule member_le_sum_list) (use S(1) in simp_all)
    ultimately show "resident_tokens ?c1 = sum_list (map node_tokens (nodes ?c1))"
      using sum_list_nth_update [OF S(1), of node_tokens n2] old
      by (auto simp: n2(5) node_tokens_def [of "ns1 ! leaf"] split: option.split)
    show "\<forall>n \<in> set (nodes ?c1). last_access_tick n \<le> clock ?c1"
      using ticks1 n2(4) set_update_subset_insert [of ns1 leaf n2] by auto
    show "clock ?c1 \<le> max64" using ge by simp
  qed
  have keep: "radix_tick ?c1 ks = radix_tick c ks" if k: "ks \<noteq> ts" "ks \<noteq> []" "radix_map c ks = Some h'" for ks h'
  proof -
    obtain j where j: "j < length (nodes c)" "find_node (nodes c) 0 ks = Some j"
      using node_map_range [OF I(1), of ks h'] k(3) by (auto simp: radix_map_def)
    have "j \<noteq> 0" using find_node_unique [OF I(1) j(2), of "[]"] k(2) by auto
    moreover have "find_node ns1 0 ks = Some j"
      by (rule tree_extD(2) [OF ext root]) (simp add: touched_find [OF t] j(2))
    moreover have "last_access_tick (ns1 ! j) = last_access_tick (ns ! j)"
      by (rule tree_extD(5) [OF ext]) (simp add: ns_def j(1))
    ultimately show ?thesis using S(5) [OF k(1)] j by (simp add: radix_tick_def node_tick_def ns_def)
  qed
  show ?thesis
    using ins inv' S(3,6) map1 keep n2(4)
    by (intro exI [of _ ?c1]) (auto simp: radix_map_def radix_tick_def clk_def)
qed

section \<open>Eviction\<close>

text \<open>Taking the handle of one node out.\<close>

definition drop_handle :: "nat \<Rightarrow> kv_handle \<Rightarrow> radix_cache \<Rightarrow> radix_cache" where
  "drop_handle i h c = c\<lparr>nodes := (nodes c)[i := (nodes c ! i)\<lparr>node_handle := None\<rparr>],
     resident_tokens := resident_tokens c - token_len h\<rparr>"

lemma drop_handle_fields [simp]:
  "clock (drop_handle i h c) = clock c" "capacity_tokens (drop_handle i h c) = capacity_tokens c"
  "length (nodes (drop_handle i h c)) = length (nodes c)"
  by (simp_all add: drop_handle_def)

lemma drop_handle_node:
  "j < length (nodes c) \<Longrightarrow> node_handle (nodes (drop_handle i h c) ! j) = (if j = i then None else node_handle (nodes c ! j))"
  "j < length (nodes c) \<Longrightarrow> last_access_tick (nodes (drop_handle i h c) ! j) = last_access_tick (nodes c ! j)"
  by (cases "j = i"; simp add: drop_handle_def)+

lemma drop_handle_correct:
  assumes inv: "radix_inv c" and i: "i < length (nodes c)" "node_handle (nodes c ! i) = Some h"
  shows "radix_inv (drop_handle i h c)"
    and "resident_tokens c = resident_tokens (drop_handle i h c) + token_len h"
    and "radix_tick (drop_handle i h c) = radix_tick c"
    and "\<exists>ks. radix_map c ks = Some h \<and> radix_tick c ks = Some (last_access_tick (nodes c ! i)) \<and>
           radix_map (drop_handle i h c) = (radix_map c)(ks := None)"
proof -
  note I = radix_invD [OF inv]
  let ?n = "(nodes c ! i)\<lparr>node_handle := None\<rparr>"
  let ?ns = "(nodes c)[i := ?n]"
  have ss: "same_shape (nodes c) ?ns" by (rule same_shape_update) simp_all
  have sum: "sum_list (map node_tokens ?ns) + token_len h = resident_tokens c"
    using sum_list_nth_update [OF i(1), of node_tokens ?n] i(2) I(3) by (simp add: node_tokens_def [of "nodes c ! i"])
  show "resident_tokens c = resident_tokens (drop_handle i h c) + token_len h"
    using sum by (simp add: drop_handle_def)
  show "radix_inv (drop_handle i h c)"
    unfolding radix_inv_def drop_handle_def
    using same_shape_wf [OF ss I(1)] handles_placed_same [OF ss I(2)] sum I(4,5) i(1)
      set_update_subset_insert [of "nodes c" i ?n]
    by (auto simp: nth_list_update)
  have tick: "last_access_tick (?ns ! j) = last_access_tick (nodes c ! j)" for j
    by (cases "j = i") (simp_all add: i)
  show "radix_tick (drop_handle i h c) = radix_tick c"
    by (rule ext) (simp add: radix_tick_def node_tick_def drop_handle_def same_shape_find [OF ss] tick)
  from I(2) i obtain ks where ks: "find_node (nodes c) 0 ks = Some i" unfolding handles_placed_def by blast
  have "radix_map (drop_handle i h c) ls = ((radix_map c)(ks := None)) ls" for ls
    using find_node_unique [OF I(1), of ls i ks] ks i(1)
    by (cases "find_node (nodes c) 0 ls")
      (auto simp: radix_map_def node_map_def drop_handle_def same_shape_find [OF ss] nth_list_update)
  then have "radix_map (drop_handle i h c) = (radix_map c)(ks := None)" by blast
  with ks i show "\<exists>ks. radix_map c ks = Some h \<and> radix_tick c ks = Some (last_access_tick (nodes c ! i)) \<and>
      radix_map (drop_handle i h c) = (radix_map c)(ks := None)"
    by (intro exI [of _ ks]) (simp add: radix_map_def node_map_def radix_tick_def node_tick_def)
qed

text \<open>The candidates are exactly the entries.\<close>

definition candidates_ok :: "(nat \<times> nat \<times> kv_handle) list \<Rightarrow> radix_cache \<Rightarrow> bool" where
  "candidates_ok cs c \<longleftrightarrow>
     distinct (map (fst \<circ> snd) cs) \<and>
     (\<forall>t i h. (t, i, h) \<in> set cs \<longleftrightarrow>
        i < length (nodes c) \<and> node_handle (nodes c ! i) = Some h \<and> last_access_tick (nodes c ! i) = t)"

lemma evict_candidates_index:
  "map (fst \<circ> snd) (evict_candidates ns) = filter (\<lambda>i. node_handle (ns ! i) \<noteq> None) [0..<length ns]"
proof (induction ns rule: rev_induct)
  case (snoc n ns)
  have "filter (\<lambda>i. node_handle ((ns @ [n]) ! i) \<noteq> None) [0..<length ns] =
      filter (\<lambda>i. node_handle (ns ! i) \<noteq> None) [0..<length ns]"
    by (rule filter_cong) (auto simp: nth_append)
  with snoc show ?case
    by (auto simp: evict_candidates_def enumerate_append_eq split: option.splits)
qed (simp add: evict_candidates_def)

lemma evict_candidates_set:
  "(t, i, h) \<in> set (evict_candidates ns) \<longleftrightarrow>
     i < length ns \<and> node_handle (ns ! i) = Some h \<and> last_access_tick (ns ! i) = t"
  by (force simp: evict_candidates_def in_set_enumerate_eq split: option.splits)

lemma evict_candidates_ok: "candidates_ok (sort_key fst (evict_candidates (nodes c))) c"
proof -
  have "distinct (map (fst \<circ> snd) (evict_candidates (nodes c)))"
    by (simp only: evict_candidates_index) simp
  then have "distinct (map (fst \<circ> snd) (sort_key fst (evict_candidates (nodes c))))"
    by (metis distinct_map mset_sort distinct_sort set_sort)
  then show ?thesis by (auto simp: candidates_ok_def evict_candidates_set)
qed

text \<open>\<open>evicts target freed c es c'\<close>: the entries \<open>es\<close> are taken out, coldest first, and no more of them
  than needed.\<close>

definition tokens_of :: "kv_handle list \<Rightarrow> nat" where
  "tokens_of hs = sum_list (map token_len hs)"

definition evicts :: "nat \<Rightarrow> nat \<Rightarrow> radix_cache \<Rightarrow> kv_handle list \<Rightarrow> radix_cache \<Rightarrow> bool" where
  "evicts target freed c es c' \<longleftrightarrow>
     radix_inv c' \<and> radix_tick c' = radix_tick c \<and> clock c' = clock c \<and> capacity_tokens c' = capacity_tokens c \<and>
     resident_tokens c = resident_tokens c' + tokens_of es \<and>
     radix_map c' \<subseteq>\<^sub>m radix_map c \<and>
     (\<exists>ks. distinct ks \<and> set ks = dom (radix_map c) - dom (radix_map c') \<and>
        es = map (the \<circ> radix_map c) ks \<and> sorted (map (the \<circ> radix_tick c) ks)) \<and>
     (target \<le> freed + tokens_of es \<or> radix_map c' = Map.empty) \<and>
     (es \<noteq> [] \<longrightarrow> freed + tokens_of (butlast es) < target) \<and>
     (\<forall>ks ls. ks \<in> dom (radix_map c') \<longrightarrow> ls \<in> dom (radix_map c) - dom (radix_map c') \<longrightarrow>
        the (radix_tick c ls) \<le> the (radix_tick c ks))"

lemma candidates_ok_step:
  assumes "candidates_ok ((t, i, h) # cs) c"
  shows "i < length (nodes c)" "node_handle (nodes c ! i) = Some h" "last_access_tick (nodes c ! i) = t"
    "candidates_ok cs (drop_handle i h c)"
proof -
  have d: "distinct (map (fst \<circ> snd) ((t, i, h) # cs))"
    and m: "(t', i', h') \<in> set ((t, i, h) # cs) \<longleftrightarrow>
      i' < length (nodes c) \<and> node_handle (nodes c ! i') = Some h' \<and> last_access_tick (nodes c ! i') = t'" for t' i' h'
    using assms unfolding candidates_ok_def by blast+
  show i: "i < length (nodes c)" "node_handle (nodes c ! i) = Some h" "last_access_tick (nodes c ! i) = t"
    using m [of t i h] by simp_all
  have "(t', i', h') \<in> set cs \<longleftrightarrow> (t', i', h') \<in> set ((t, i, h) # cs) \<and> i' \<noteq> i" for t' i' h'
    using d m [of t' i' h'] i by force
  then show "candidates_ok cs (drop_handle i h c)"
    unfolding candidates_ok_def using d m by (auto simp: drop_handle_node split: if_splits)
qed

lemma candidates_ok_tick:
  assumes "radix_inv c" "candidates_ok cs c" "sorted (map fst cs)" "radix_map c ks = Some h" "cs = (t, i, h') # cs'"
  shows "t \<le> the (radix_tick c ks)"
proof -
  obtain j where j: "j < length (nodes c)" "find_node (nodes c) 0 ks = Some j" "node_handle (nodes c ! j) = Some h"
    using node_map_range [OF radix_invD(1) [OF assms(1)]] assms(4) by (metis radix_map_def)
  then have "(last_access_tick (nodes c ! j), j, h) \<in> set cs" using assms(2) by (simp add: candidates_ok_def)
  with assms(3,5) j show ?thesis by (auto simp: radix_tick_def node_tick_def)
qed

lemma evicts_Cons:
  assumes ev: "evicts target (freed + token_len h) c1 es c'"
    and c1: "radix_tick c1 = radix_tick c" "clock c1 = clock c" "capacity_tokens c1 = capacity_tokens c"
      "resident_tokens c = resident_tokens c1 + token_len h" "radix_map c1 = (radix_map c)(k := None)"
    and k: "radix_map c k = Some h" "radix_tick c k = Some t"
    and cold: "\<And>ks h. radix_map c ks = Some h \<Longrightarrow> t \<le> the (radix_tick c ks)" and more: "freed < target"
  shows "evicts target freed c (h # es) c'"
  unfolding evicts_def
proof (intro conjI allI impI)
  note E = ev [unfolded evicts_def c1]
  show "radix_inv c'" "radix_tick c' = radix_tick c" "clock c' = clock c" "capacity_tokens c' = capacity_tokens c"
    using E by simp_all
  show "resident_tokens c = resident_tokens c' + tokens_of (h # es)"
    using E c1(4) by (simp add: tokens_of_def)
  have sub: "radix_map c' \<subseteq>\<^sub>m (radix_map c)(k := None)" using E by simp
  then have k': "radix_map c' k = None" by (metis fun_upd_same map_le_def domIff)
  show sub': "radix_map c' \<subseteq>\<^sub>m radix_map c" using sub k' by (auto simp: map_le_def split: if_splits)
  obtain ks where ks: "distinct ks" "set ks = dom ((radix_map c)(k := None)) - dom (radix_map c')"
    "es = map (the \<circ> (radix_map c)(k := None)) ks" "sorted (map (the \<circ> radix_tick c) ks)"
    using E by blast
  have "es = map (the \<circ> radix_map c) ks" using ks(2,3) by auto
  moreover have "set (k # ks) = dom (radix_map c) - dom (radix_map c')" using ks(2) k(1) k' by auto
  moreover have "distinct (k # ks)" "sorted (map (the \<circ> radix_tick c) (k # ks))" using ks k(2) cold by auto
  ultimately show "\<exists>ks. distinct ks \<and> set ks = dom (radix_map c) - dom (radix_map c') \<and>
      h # es = map (the \<circ> radix_map c) ks \<and> sorted (map (the \<circ> radix_tick c) ks)"
    using k(1) by (intro exI [of _ "k # ks"]) simp
  show "target \<le> freed + tokens_of (h # es) \<or> radix_map c' = Map.empty"
    using E by (auto simp: tokens_of_def)
  show "freed + tokens_of (butlast (h # es)) < target"
    using E more by (cases "es = []") (auto simp: tokens_of_def)
  fix ks ls assume a: "ks \<in> dom (radix_map c')" "ls \<in> dom (radix_map c) - dom (radix_map c')"
  show "the (radix_tick c ls) \<le> the (radix_tick c ks)"
  proof (cases "ls = k")
    case True
    from a(1) map_le_implies_dom_le [OF sub'] have "ks \<in> dom (radix_map c)" by blast
    with True k(2) cold show ?thesis by auto
  next
    case False
    with a have "ls \<in> dom ((radix_map c)(k := None)) - dom (radix_map c')" by simp
    with E a(1) show ?thesis by blast
  qed
qed

lemma evict_loop_correct:
  assumes "radix_inv c" "candidates_ok cs c" "sorted (map fst cs)" "evict_loop cs target freed c = (es, c')"
  shows "evicts target freed c es c'"
  using assms
proof (induction cs target freed c arbitrary: es c' rule: evict_loop.induct)
  case (1 target freed c)
  have "radix_map c ks = None" for ks
  proof (rule ccontr)
    assume "radix_map c ks \<noteq> None"
    then obtain j h where "j < length (nodes c)" "node_handle (nodes c ! j) = Some h"
      using node_map_range [OF radix_invD(1) [OF 1(1)]] by (metis not_None_eq radix_map_def)
    with 1(2) show False unfolding candidates_ok_def by auto
  qed
  with 1 show ?case by (auto simp: evicts_def tokens_of_def)
next
  case (2 t i h cs target freed c)
  note K = candidates_ok_step [OF "2.prems"(2)]
  note D = drop_handle_correct [OF "2.prems"(1) K(1,2)]
  show ?case
  proof (cases "freed \<ge> target")
    case True
    with "2.prems" show ?thesis by (auto simp: evicts_def tokens_of_def)
  next
    case False
    obtain es1 where e: "evict_loop cs target (freed + token_len h) (drop_handle i h c) = (es1, c')" "es = h # es1"
      using "2.prems"(4) False K(2) by (auto simp: drop_handle_def Let_def split: prod.splits)
    have "sorted (map fst cs)" using "2.prems"(3) by simp
    from "2.IH"(1) [OF False K(2) _ D(1) [unfolded drop_handle_def] K(4) [unfolded drop_handle_def] this e(1) [unfolded drop_handle_def]]
    have ev: "evicts target (freed + token_len h) (drop_handle i h c) es1 c'" by (simp add: drop_handle_def)
    obtain k where k: "radix_map c k = Some h" "radix_tick c k = Some t" "radix_map (drop_handle i h c) = (radix_map c)(k := None)"
      using D(4) K(3) by blast
    show ?thesis
      unfolding e(2)
      by (rule evicts_Cons [OF ev D(3) _ _ D(2) k(3,1,2)])
        (use False candidates_ok_tick [OF "2.prems"(1-3)] in auto)
  qed
qed


lemma evict_coldest_evicts:
  assumes "radix_inv c" "evict_coldest n c = (r, c')"
  shows "evicts n 0 c (evicted r) c'"
proof -
  obtain es where e: "evict_loop (sort_key fst (evict_candidates (nodes c))) n 0 c = (es, c')" "evicted r = es"
    using assms(2) by (auto simp: evict_coldest_def Let_def split: prod.splits)
  from evict_loop_correct [OF assms(1) evict_candidates_ok sorted_sort_key e(1)] e(2) show ?thesis by simp
qed

lemma radix_map_zero_resident:
  assumes "radix_inv c" "\<And>ks h. radix_map c ks = Some h \<Longrightarrow> token_len h = 0"
  shows "resident_tokens c = 0"
proof -
  note I = radix_invD [OF assms(1)]
  have "node_tokens (nodes c ! j) = 0" if j: "j < length (nodes c)" for j
  proof (cases "node_handle (nodes c ! j)")
    case (Some h)
    with I(2) j obtain ks where "find_node (nodes c) 0 ks = Some j" unfolding handles_placed_def by blast
    with Some have "radix_map c ks = Some h" by (simp add: radix_map_def node_map_def)
    with Some assms(2) show ?thesis by (simp add: node_tokens_def)
  qed (simp add: node_tokens_def)
  then have "map node_tokens (nodes c) = replicate (length (nodes c)) 0" by (intro nth_equalityI) auto
  with I(3) show ?thesis by (simp add: sum_list_replicate)
qed

lemma evict_to_capacity_correct:
  assumes "radix_inv c"
  shows "radix_inv (evict_to_capacity c)" "radix_map (evict_to_capacity c) \<subseteq>\<^sub>m radix_map c"
    "clock (evict_to_capacity c) = clock c" "capacity_tokens (evict_to_capacity c) = capacity_tokens c"
    "radix_tick (evict_to_capacity c) = radix_tick c"
    "\<And>cap. capacity_tokens c = Some cap \<Longrightarrow> resident_tokens (evict_to_capacity c) \<le> cap"
    "capacity_tokens c = None \<or> (\<exists>cap. capacity_tokens c = Some cap \<and> resident_tokens c \<le> cap) \<Longrightarrow>
       evict_to_capacity c = c"
proof -
  have "radix_inv (evict_to_capacity c) \<and> radix_map (evict_to_capacity c) \<subseteq>\<^sub>m radix_map c \<and>
    clock (evict_to_capacity c) = clock c \<and> capacity_tokens (evict_to_capacity c) = capacity_tokens c \<and>
    radix_tick (evict_to_capacity c) = radix_tick c \<and>
    (\<forall>cap. capacity_tokens c = Some cap \<longrightarrow> resident_tokens (evict_to_capacity c) \<le> cap)"
  proof (cases "\<exists>cap. capacity_tokens c = Some cap \<and> resident_tokens c > cap")
    case True
    then obtain cap where cap: "capacity_tokens c = Some cap" "resident_tokens c > cap" by blast
    obtain r c' where e: "evict_coldest (resident_tokens c - cap) c = (r, c')" by fastforce
    from evict_coldest_evicts [OF assms e] have E: "evicts (resident_tokens c - cap) 0 c (evicted r) c'" .
    have "resident_tokens c' \<le> cap"
    proof (cases "radix_map c' = Map.empty")
      case True
      have "resident_tokens c' = 0" by (rule radix_map_zero_resident) (use E True in \<open>auto simp: evicts_def\<close>)
      then show ?thesis by simp
    next
      case False
      with E have "resident_tokens c - cap \<le> tokens_of (evicted r)" "resident_tokens c = resident_tokens c' + tokens_of (evicted r)"
        by (auto simp: evicts_def)
      with cap show ?thesis by linarith
    qed
    with E cap e show ?thesis by (auto simp: evict_to_capacity_def evicts_def)
  next
    case False
    then have "evict_to_capacity c = c" by (auto simp: evict_to_capacity_def split: option.splits)
    with False assms show ?thesis by auto
  qed
  then show "radix_inv (evict_to_capacity c)" "radix_map (evict_to_capacity c) \<subseteq>\<^sub>m radix_map c"
    "clock (evict_to_capacity c) = clock c" "capacity_tokens (evict_to_capacity c) = capacity_tokens c"
    "radix_tick (evict_to_capacity c) = radix_tick c"
    "\<And>cap. capacity_tokens c = Some cap \<Longrightarrow> resident_tokens (evict_to_capacity c) \<le> cap"
    by blast+
  show "evict_to_capacity c = c" if "capacity_tokens c = None \<or> (\<exists>cap. capacity_tokens c = Some cap \<and> resident_tokens c \<le> cap)"
    using that by (auto simp: evict_to_capacity_def)
qed

section \<open>Reachable caches\<close>

inductive radix_reach :: "radix_cache \<Rightarrow> bool" where
  new: "radix_reach radix_new"
| with_capacity: "radix_reach (radix_with_capacity_tokens cap)"
| insert: "radix_reach c \<Longrightarrow> radix_insert ts h c = (Ok r :: (unit, _) outcome, c') \<Longrightarrow> radix_reach c'"
| lookup: "radix_reach c \<Longrightarrow> radix_lookup ts c = (Ok r :: (unit, _) outcome, c') \<Longrightarrow> radix_reach c'"
| evict: "radix_reach c \<Longrightarrow> evict_coldest n c = (r, c') \<Longrightarrow> radix_reach c'"
| set_capacity: "radix_reach c \<Longrightarrow> radix_reach (set_capacity_tokens cap c)"

lemma radix_inv_new: "radix_inv (radix_new\<lparr>capacity_tokens := cap\<rparr>)"
  by (auto simp: radix_inv_def radix_new_def node_default_def tree_wf_def handles_placed_def node_tokens_def max64_def)

lemma radix_reach_inv: "radix_reach c \<Longrightarrow> radix_inv c"
proof (induction rule: radix_reach.induct)
  case new
  have "radix_new\<lparr>capacity_tokens := None\<rparr> = radix_new" by (simp add: radix_new_def)
  with radix_inv_new [of None] show ?case by simp
next
  case (with_capacity cap)
  show ?case by (simp add: radix_with_capacity_tokens_def radix_inv_new)
next
  case (insert c ts h r c')
  have len: "length ts = token_len h" using insert.hyps(2) by (auto simp: radix_insert_def split: if_splits)
  from radix_insert_raw [OF insert.IH len, where 'e = unit] insert.hyps(2) evict_to_capacity_correct(1)
  show ?case by auto
next
  case (lookup c ts r c')
  from radix_lookup_correct [OF lookup.IH, of ts, where 'e = unit] lookup.hyps(2) show ?case by auto
next
  case (evict c n r c')
  from evict_coldest_evicts [OF evict.IH evict.hyps(2)] show ?case by (simp add: evicts_def)
next
  case (set_capacity c cap)
  have "radix_inv (c\<lparr>capacity_tokens := cap\<rparr>)" using set_capacity.IH by (simp add: radix_inv_def)
  then show ?case by (simp add: set_capacity_tokens_def evict_to_capacity_correct(1))
qed

end
