(* ===== verification/PrefixCache.thy ===== *)
theory PrefixCache
  imports RadixProps
begin

text \<open>
  The contract of the prefix cache and the properties of \<open>RadixCache\<close> over all reachable caches. The
  engine, the scheduler and the disaggregated workers rely on the cache through this contract.
\<close>

section \<open>The contract\<close>

text \<open>What a lookup promises: the longest prefix of \<open>ts\<close> that is an entry.\<close>

definition longest_prefix :: "(token_id list \<Rightarrow> kv_handle option) \<Rightarrow> token_id list \<Rightarrow> cache_lookup \<Rightarrow> bool" where
  "longest_prefix m ts r \<longleftrightarrow>
     (case lookup_handle r of
        Some h \<Rightarrow> matched_tokens r \<le> length ts \<and> m (take (matched_tokens r) ts) = Some h \<and>
          (\<forall>k. matched_tokens r < k \<and> k \<le> length ts \<longrightarrow> m (take k ts) = None)
      | None \<Rightarrow> matched_tokens r = 0 \<and> (\<forall>k \<le> length ts. m (take k ts) = None))"

locale prefix_cache =
  fixes entries :: "'c \<Rightarrow> token_id list \<Rightarrow> kv_handle option"
    and ok :: "'c \<Rightarrow> bool"
    and lookup :: "token_id list \<Rightarrow> ('c, 'e, cache_lookup) act"
    and ins :: "token_id list \<Rightarrow> kv_handle \<Rightarrow> ('c, 'e, cache_insert) act"
  assumes lookup_law: "ok c \<Longrightarrow>
      \<exists>r c'. lookup ts c = (Ok r, c') \<and> ok c' \<and> entries c' = entries c \<and> longest_prefix (entries c) ts r"
    and insert_law: "ok c \<Longrightarrow> length ts = token_len h \<Longrightarrow>
      \<exists>r c'. ins ts h c = (Ok r, c') \<and> ok c' \<and> entries c' \<subseteq>\<^sub>m (entries c)(ts \<mapsto> h) \<and> replaced r = entries c ts"
    and entries_length: "ok c \<Longrightarrow> entries c ks = Some h \<Longrightarrow> length ks = token_len h"
begin

lemma longest_prefix_unique:
  assumes "longest_prefix m ts r" "longest_prefix m ts r'"
  shows "r = r'"
proof (cases "lookup_handle r"; cases "lookup_handle r'")
  fix h h' assume h: "lookup_handle r = Some h" "lookup_handle r' = Some h'"
  let ?n = "matched_tokens r" and ?n' = "matched_tokens r'"
  have 1: "?n \<le> length ts" "m (take ?n ts) = Some h" "\<And>k. ?n < k \<Longrightarrow> k \<le> length ts \<Longrightarrow> m (take k ts) = None"
    using assms(1) h(1) by (simp_all add: longest_prefix_def)
  have 2: "?n' \<le> length ts" "m (take ?n' ts) = Some h'" "\<And>k. ?n' < k \<Longrightarrow> k \<le> length ts \<Longrightarrow> m (take k ts) = None"
    using assms(2) h(2) by (simp_all add: longest_prefix_def)
  have "?n = ?n'"
    using 1 2(1,2) 2(3) [of ?n] 1(3) [of ?n'] by (cases ?n ?n' rule: linorder_cases) auto
  with h assms show ?thesis by (auto simp: longest_prefix_def)
qed (use assms in \<open>auto simp: longest_prefix_def\<close>)

lemma lookup_matched_length:
  assumes "ok c" "lookup ts c = (Ok r, c')" "lookup_handle r = Some h"
  shows "matched_tokens r = token_len h" "matched_tokens r \<le> length ts" "entries c (take (matched_tokens r) ts) = Some h"
proof -
  have "longest_prefix (entries c) ts r" using lookup_law [OF assms(1), of ts] assms(2) by auto
  with assms(3) show l: "matched_tokens r \<le> length ts" and e: "entries c (take (matched_tokens r) ts) = Some h"
    by (auto simp: longest_prefix_def)
  from entries_length [OF assms(1) e] l show "matched_tokens r = token_len h" by simp
qed

text \<open>Looking up twice gives the same answer.\<close>

lemma lookup_again:
  assumes "ok c" "lookup ts c = (Ok r, c')" "lookup ts c' = (Ok r', c'')"
  shows "r' = r"
proof -
  from lookup_law [OF assms(1), of ts] assms(2) have c': "ok c'" "entries c' = entries c" "longest_prefix (entries c) ts r"
    by auto
  with lookup_law [OF c'(1), of ts] assms(3) have "longest_prefix (entries c) ts r'" by auto
  with c'(3) longest_prefix_unique show ?thesis by blast
qed

text \<open>An entry that is present is found by every request it is a prefix of, unless a longer one is.\<close>

lemma present_found:
  assumes "ok c" "entries c ts = Some h"
  shows "\<exists>r c'. lookup (ts @ ys) c = (Ok r, c') \<and> length ts \<le> matched_tokens r \<and>
    (matched_tokens r = length ts \<longrightarrow> lookup_handle r = Some h)"
proof -
  obtain r c' where r: "lookup (ts @ ys) c = (Ok r, c')" "longest_prefix (entries c) (ts @ ys) r"
    using lookup_law [OF assms(1)] by blast
  have e: "entries c (take (length ts) (ts @ ys)) = Some h" using assms(2) by simp
  have "length ts \<le> matched_tokens r \<and> (matched_tokens r = length ts \<longrightarrow> lookup_handle r = Some h)"
  proof (cases "lookup_handle r")
    case None
    with r(2) have "entries c (take k (ts @ ys)) = None" if "k \<le> length (ts @ ys)" for k
      using that by (simp add: longest_prefix_def)
    from this [of "length ts"] e show ?thesis by simp
  next
    case (Some h')
    with r(2) have *: "entries c (take (matched_tokens r) (ts @ ys)) = Some h'"
      "\<forall>k. matched_tokens r < k \<and> k \<le> length (ts @ ys) \<longrightarrow> entries c (take k (ts @ ys)) = None"
      by (simp_all add: longest_prefix_def)
    have "\<not> matched_tokens r < length ts" using *(2) e by auto
    with * e Some show ?thesis by auto
  qed
  with r(1) show ?thesis by blast
qed

end

text \<open>The code meets the contract.\<close>

lemma best_upto_longest:
  "best_upto m ts (length ts) b \<Longrightarrow>
     longest_prefix m ts (case b of Some (n, h) \<Rightarrow> \<lparr>matched_tokens = n, lookup_handle = Some h\<rparr>
       | None \<Rightarrow> \<lparr>matched_tokens = 0, lookup_handle = None\<rparr>)"
  by (auto simp: best_upto_def longest_prefix_def split: option.splits)

lemma radix_insert_full:
  assumes "radix_inv c" "length ts = token_len h"
  shows "\<exists>c'. radix_insert ts h c =
      (Ok \<lparr>inserted_tokens = length ts, replaced = radix_map c ts, insert_handle = h\<rparr> :: ('e, _) outcome, c') \<and>
    radix_inv c' \<and> radix_map c' \<subseteq>\<^sub>m (radix_map c)(ts \<mapsto> h) \<and> capacity_tokens c' = capacity_tokens c \<and>
    (capacity_tokens c = None \<longrightarrow> radix_map c' = (radix_map c)(ts \<mapsto> h)) \<and>
    (\<forall>cap. capacity_tokens c = Some cap \<longrightarrow> resident_tokens c' \<le> cap)"
proof -
  from radix_insert_raw [OF assms, where 'e = 'e] obtain c1 where c1:
    "radix_insert ts h c = (Ok \<lparr>inserted_tokens = length ts, replaced = radix_map c ts, insert_handle = h\<rparr> :: ('e, _) outcome,
       evict_to_capacity c1)" "radix_inv c1" "radix_map c1 = (radix_map c)(ts \<mapsto> h)" "capacity_tokens c1 = capacity_tokens c"
    by blast
  with evict_to_capacity_correct [OF c1(2)] show ?thesis by auto
qed

interpretation radix: prefix_cache radix_map radix_inv
  "radix_lookup :: token_id list \<Rightarrow> (radix_cache, 'e, cache_lookup) act"
  "radix_insert :: token_id list \<Rightarrow> kv_handle \<Rightarrow> (radix_cache, 'e, cache_insert) act"
proof
  fix c ts assume "radix_inv c"
  from radix_lookup_correct [OF this, of ts, where 'e = 'e]
  show "\<exists>r c'. (radix_lookup ts c :: ('e, _) outcome \<times> _) = (Ok r, c') \<and> radix_inv c' \<and> radix_map c' = radix_map c \<and>
      longest_prefix (radix_map c) ts r"
    using best_upto_longest by blast
next
  fix c :: radix_cache and ts :: "token_id list" and h :: kv_handle
  assume "radix_inv c" "length ts = token_len h"
  from radix_insert_full [OF this, where 'e = 'e]
  show "\<exists>r c'. (radix_insert ts h c :: ('e, _) outcome \<times> _) = (Ok r, c') \<and> radix_inv c' \<and>
      radix_map c' \<subseteq>\<^sub>m (radix_map c)(ts \<mapsto> h) \<and> replaced r = radix_map c ts"
    by auto
qed (rule radix_map_length)

section \<open>Properties\<close>

lemma radix_tick_le:
  assumes "radix_inv c" "radix_tick c ks = Some t"
  shows "t \<le> clock c"
proof -
  note I = radix_invD [OF assms(1)]
  from assms(2) obtain j where j: "find_node (nodes c) 0 ks = Some j" "t = last_access_tick (nodes c ! j)"
    by (auto simp: radix_tick_def node_tick_def)
  with find_node_range [OF I(1,7) j(1)] I(4) show ?thesis by simp
qed

text \<open>The entry just inserted is not the one evicted, if it fits and the clock still advances.\<close>

lemma newcomer_survives:
  assumes inv: "radix_inv c1" and h: "radix_map c1 ts = Some h" "radix_tick c1 ts = Some t"
    and older: "\<And>ks. ks \<in> dom (radix_map c1) \<Longrightarrow> ks \<noteq> ts \<Longrightarrow> ks \<noteq> [] \<Longrightarrow> the (radix_tick c1 ks) < t"
    and cap: "capacity_tokens c1 = Some cap" "token_len h \<le> cap"
  shows "radix_map (evict_to_capacity c1) ts = Some h"
proof (cases "resident_tokens c1 \<le> cap")
  case True
  with evict_to_capacity_correct(7) [OF inv] cap h show ?thesis by simp
next
  case False
  obtain r c' where e: "evict_coldest (resident_tokens c1 - cap) c1 = (r, c')" by fastforce
  have c': "evict_to_capacity c1 = c'" using False cap e by (simp add: evict_to_capacity_def)
  note E = evict_coldest_evicts [OF inv e, unfolded evicts_def]
  obtain ks where ks: "set ks = dom (radix_map c1) - dom (radix_map c')" "evicted r = map (the \<circ> radix_map c1) ks"
    "sorted (map (the \<circ> radix_tick c1) ks)" using E by blast
  have sub: "radix_map c' \<subseteq>\<^sub>m radix_map c1" using E by blast
  have "ts \<notin> set ks"
  proof
    assume ts: "ts \<in> set ks"
    then have ne: "ks \<noteq> []" by auto
    obtain i where i: "i < length ks" "ks ! i = ts" using ts by (auto simp: in_set_conv_nth)
    have lst: "last ks \<in> dom (radix_map c1)" using ks(1) ne last_in_set by blast
    have "the (radix_tick c1 ts) \<le> the (radix_tick c1 (last ks))"
      using sorted_nth_mono [OF ks(3), of i "length ks - 1"] i ne by (simp add: last_conv_nth)
    with older [OF lst] h(2) have "last ks = ts \<or> last ks = []" by force
    then have len: "token_len (the (radix_map c1 (last ks))) \<le> cap"
      using lst h(1) cap(2) radix_map_length [OF inv, of "[]"] by auto
    have none: "resident_tokens c' = 0"
    proof -
      have "ls = []" if "ls \<in> dom (radix_map c')" for ls
        using that ts ks(1) E older [of ls] map_le_implies_dom_le [OF sub] h(2) by fastforce
      moreover have "radix_inv c'" using E by blast
      ultimately show ?thesis
        using radix_map_length by (intro radix_map_zero_resident) fastforce+
    qed
    have "tokens_of (evicted r) = tokens_of (butlast (evicted r)) + token_len (last (evicted r))"
      using ne ks(2) by (cases ks rule: rev_cases) (auto simp: tokens_of_def)
    moreover have "last (evicted r) = the (radix_map c1 (last ks))" using ne ks(2) by (simp add: last_map)
    ultimately show False using E none len ne ks(2) False by auto
  qed
  then have "ts \<in> dom (radix_map c')" using ks(1) h(1) by blast
  with sub h(1) c' show ?thesis by (auto simp: map_le_def)
qed

lemma entry_node:
  assumes "radix_inv c" "radix_map c ks = Some h"
  shows "\<exists>j < length (nodes c). find_node (nodes c) 0 ks = Some j \<and> node_handle (nodes c ! j) = Some h"
  using node_map_range [OF radix_invD(1) [OF assms(1)], of ks h] assms(2) unfolding radix_map_def by blast

text \<open>Entries and the nodes that hold a handle correspond one to one.\<close>

lemma entry_nodes_bij:
  assumes "radix_inv c"
  shows "bij_betw (\<lambda>ks. the (find_node (nodes c) 0 ks)) (dom (radix_map c))
    {j. j < length (nodes c) \<and> node_handle (nodes c ! j) \<noteq> None}"
    (is "bij_betw ?f ?A ?B")
proof -
  note I = radix_invD [OF assms]
  have A: "find_node (nodes c) 0 ks = Some (?f ks) \<and> ?f ks \<in> ?B" if "ks \<in> ?A" for ks
  proof -
    from that obtain h where "radix_map c ks = Some h" by blast
    from entry_node [OF assms this] show ?thesis by auto
  qed
  have "inj_on ?f ?A"
    using A find_node_unique [OF I(1)] by (metis (no_types, lifting) inj_onI)
  moreover have "j \<in> ?f ` ?A" if "j \<in> ?B" for j
  proof -
    from that I(2) obtain ks where ks: "find_node (nodes c) 0 ks = Some j" unfolding handles_placed_def by blast
    with that show ?thesis by (intro image_eqI [of _ _ ks]) (auto simp: radix_map_def node_map_def)
  qed
  moreover have "?f ` ?A \<subseteq> ?B" using A by blast
  ultimately show ?thesis unfolding bij_betw_def by blast
qed

lemma radix_counts:
  assumes "radix_inv c"
  shows "finite (dom (radix_map c))" "radix_len c = card (dom (radix_map c))"
    "resident_tokens c = (\<Sum>ks \<in> dom (radix_map c). length ks)"
proof -
  note I = radix_invD [OF assms] and B = entry_nodes_bij [OF assms]
  let ?J = "{j. j < length (nodes c) \<and> node_handle (nodes c ! j) \<noteq> None}"
  show "finite (dom (radix_map c))" using bij_betw_finite [OF B] by simp
  have "radix_len c = card ?J" by (simp add: radix_len_def length_filter_conv_card)
  then show "radix_len c = card (dom (radix_map c))" using bij_betw_same_card [OF B] by simp
  have "resident_tokens c = (\<Sum>j \<in> {0..<length (nodes c)}. node_tokens (nodes c ! j))"
    unfolding I(3) by (simp add: sum_list_sum_nth)
  also have "\<dots> = (\<Sum>j \<in> ?J. node_tokens (nodes c ! j))"
    by (rule sum.mono_neutral_right) (auto simp: node_tokens_def)
  also have "\<dots> = (\<Sum>ks \<in> dom (radix_map c). node_tokens (nodes c ! the (find_node (nodes c) 0 ks)))"
    by (rule sum.reindex_bij_betw [OF B, symmetric])
  also have "\<dots> = (\<Sum>ks \<in> dom (radix_map c). length ks)"
  proof (rule sum.cong)
    fix ks assume "ks \<in> dom (radix_map c)"
    then obtain h where h: "radix_map c ks = Some h" by blast
    from entry_node [OF assms h] radix_map_length [OF assms h]
    show "node_tokens (nodes c ! the (find_node (nodes c) 0 ks)) = length ks"
      by (auto simp: node_tokens_def)
  qed simp
  finally show "resident_tokens c = (\<Sum>ks \<in> dom (radix_map c). length ks)" .
qed

text \<open>C8. On every reachable cache \<open>RadixCache::lookup\<close> returns: its answer is the longest prefix of the
  request that is an entry, with that entry's handle (or nothing when no prefix is cached), and the
  lookup changes neither the entries nor the resident token count. The entry found becomes the
  most recently used one.\<close>

theorem radix_lookup_longest:
  assumes "radix_reach c"
  shows "\<exists>r c'. (radix_lookup ts c :: ('e, _) outcome \<times> _) = (Ok r, c') \<and>
    longest_prefix (radix_map c) ts r \<and> radix_map c' = radix_map c \<and>
    resident_tokens c' = resident_tokens c \<and>
    (lookup_handle r \<noteq> None \<longrightarrow> radix_tick c' (take (matched_tokens r) ts) = Some (clock c'))"
proof -
  from radix_lookup_correct [OF radix_reach_inv [OF assms], of ts, where 'e = 'e] obtain b c' where
    b: "radix_lookup ts c = (Ok (case b of Some (n, h) \<Rightarrow> \<lparr>matched_tokens = n, lookup_handle = Some h\<rparr>
           | None \<Rightarrow> \<lparr>matched_tokens = 0, lookup_handle = None\<rparr>) :: ('e, _) outcome, c')"
      "best_upto (radix_map c) ts (length ts) b" "radix_map c' = radix_map c" "resident_tokens c' = resident_tokens c"
      "\<forall>n h. b = Some (n, h) \<longrightarrow> radix_tick c' (take n ts) = Some (clock c')" by blast
  show ?thesis
    using b best_upto_longest [OF b(2)]
    by (intro exI [of _ "case b of Some (n, h) \<Rightarrow> \<lparr>matched_tokens = n, lookup_handle = Some h\<rparr>
           | None \<Rightarrow> \<lparr>matched_tokens = 0, lookup_handle = None\<rparr>"] exI [of _ c'] conjI)
      (auto split: option.splits)
qed

theorem radix_lookup_longest_witness:
  "\<exists>r c'. (radix_lookup [1, 2] radix_new :: (unit, _) outcome \<times> _) = (Ok r, c') \<and>
    longest_prefix (radix_map radix_new) [1, 2] r \<and> radix_map c' = radix_map radix_new \<and>
    resident_tokens c' = resident_tokens radix_new \<and>
    (lookup_handle r \<noteq> None \<longrightarrow> radix_tick c' (take (matched_tokens r) [1, 2]) = Some (clock c'))"
  by (rule radix_lookup_longest [OF radix_reach.new])

text \<open>C7. On every reachable cache an insertion whose handle has the length of its tokens returns,
  reports the handle it replaced, and leaves the map updated at exactly that key when the cache is
  unbounded. Under a capacity the entries afterwards are among those, and at most \<open>cap\<close> tokens stay
  resident. A handle of another length is a panic that changes nothing.\<close>

theorem radix_insert_updates:
  assumes "radix_reach c"
  shows "if length ts = token_len h
    then \<exists>c'. (radix_insert ts h c :: ('e, _) outcome \<times> _) =
        (Ok \<lparr>inserted_tokens = length ts, replaced = radix_map c ts, insert_handle = h\<rparr>, c') \<and>
        radix_map c' \<subseteq>\<^sub>m (radix_map c)(ts \<mapsto> h) \<and>
        (capacity_tokens c = None \<longrightarrow> radix_map c' = (radix_map c)(ts \<mapsto> h)) \<and>
        (\<forall>cap. capacity_tokens c = Some cap \<longrightarrow> resident_tokens c' \<le> cap)
    else (radix_insert ts h c :: ('e, _) outcome \<times> _) = (Panic, c)"
proof (cases "length ts = token_len h")
  case True
  with radix_insert_full [OF radix_reach_inv [OF assms] True, where 'e = 'e] show ?thesis by auto
qed (simp add: radix_insert_def)

theorem radix_insert_updates_witness:
  "\<exists>c'. (radix_insert [7, 8] \<lparr>block_id = 1, token_len = 2\<rparr> radix_new :: (unit, _) outcome \<times> _) =
     (Ok \<lparr>inserted_tokens = 2, replaced = radix_map radix_new [7, 8], insert_handle = \<lparr>block_id = 1, token_len = 2\<rparr>\<rparr>, c') \<and>
     radix_map c' = (radix_map radix_new)([7, 8] \<mapsto> \<lparr>block_id = 1, token_len = 2\<rparr>)"
  using radix_insert_updates [OF radix_reach.new, of "[7, 8]" "\<lparr>block_id = 1, token_len = 2\<rparr>", where 'e = unit]
  by (auto simp: radix_new_def)

text \<open>C9. With a capacity, an insertion that fits on its own is never undone by its own eviction: as long
  as the logical clock has not saturated, a lookup of any extension of the inserted tokens then matches
  at least those tokens.\<close>

theorem radix_insert_then_lookup:
  assumes "radix_reach c" "length ts = token_len h" "clock c < max64"
    "\<And>cap. capacity_tokens c = Some cap \<Longrightarrow> token_len h \<le> cap"
    "radix_insert ts h c = (Ok r :: ('e, _) outcome, c')"
  shows "radix_map c' ts = Some h \<and>
    (\<exists>r' c''. (radix_lookup (ts @ ys) c' :: ('e, _) outcome \<times> _) = (Ok r', c'') \<and> length ts \<le> matched_tokens r' \<and>
      (matched_tokens r' = length ts \<longrightarrow> lookup_handle r' = Some h))"
proof -
  note inv = radix_reach_inv [OF assms(1)]
  from radix_insert_raw [OF inv assms(2), where 'e = 'e] assms(5) obtain c1 where
    c1: "c' = evict_to_capacity c1" "radix_inv c1" "radix_map c1 = (radix_map c)(ts \<mapsto> h)"
      "capacity_tokens c1 = capacity_tokens c" "clock c1 = next_tick c" "radix_tick c1 ts = Some (clock c1)"
      "\<forall>ks h. ks \<noteq> ts \<longrightarrow> ks \<noteq> [] \<longrightarrow> radix_map c ks = Some h \<longrightarrow> radix_tick c1 ks = radix_tick c ks"
    by auto
  have older: "the (radix_tick c1 ks) < clock c1" if ks: "ks \<in> dom (radix_map c1)" "ks \<noteq> ts" "ks \<noteq> []" for ks
  proof -
    from ks c1(3) obtain h' where h': "radix_map c ks = Some h'" by (auto split: if_splits)
    with c1(7) ks have "radix_tick c1 ks = radix_tick c ks" by blast
    moreover from entry_node [OF inv h'] obtain t where "radix_tick c ks = Some t"
      by (auto simp: radix_tick_def node_tick_def)
    ultimately show ?thesis
      using radix_tick_le [OF inv] sat_add64_one_less [OF assms(3)] c1(5) by (fastforce simp: next_tick_def)
  qed
  have m: "radix_map c' ts = Some h"
  proof (cases "capacity_tokens c")
    case None
    with evict_to_capacity_correct(7) [OF c1(2)] c1 show ?thesis by simp
  next
    case (Some cap)
    show ?thesis unfolding c1(1)
      by (rule newcomer_survives [OF c1(2) _ c1(6) older]) (use Some c1 assms(4) in auto)
  qed
  have "radix_inv c'" unfolding c1(1) by (rule evict_to_capacity_correct(1) [OF c1(2)])
  from m radix.present_found [OF this m] show ?thesis by blast
qed

text \<open>A cache of at most four tokens that holds one entry.\<close>

definition small_cache :: radix_cache where
  "small_cache = snd (radix_insert [7, 8] \<lparr>block_id = 1, token_len = 2\<rparr> (radix_with_capacity_tokens 4) ::
     (unit, _) outcome \<times> _)"

lemma small_cache_insert:
  "radix_insert [7, 8] \<lparr>block_id = 1, token_len = 2\<rparr> (radix_with_capacity_tokens 4) =
     (Ok \<lparr>inserted_tokens = 2, replaced = None, insert_handle = \<lparr>block_id = 1, token_len = 2\<rparr>\<rparr> :: (unit, _) outcome,
      small_cache)"
  unfolding small_cache_def
  by (simp add: radix_with_capacity_tokens_def radix_new_def node_default_def radix_insert_def insert_from.simps
      next_tick_def sat_add64_def max64_def touch_def push_node_def set_child_def evict_to_capacity_def Let_def)

lemma small_cache_reach: "radix_reach small_cache"
  by (rule radix_reach.insert [OF radix_reach.with_capacity small_cache_insert])

theorem radix_insert_then_lookup_witness:
  "radix_map small_cache [7, 8] = Some \<lparr>block_id = 1, token_len = 2\<rparr> \<and>
    (\<exists>r' c''. (radix_lookup ([7, 8] @ [9]) small_cache :: (unit, _) outcome \<times> _) = (Ok r', c'') \<and>
      length [7, 8 :: token_id] \<le> matched_tokens r' \<and>
      (matched_tokens r' = length [7, 8 :: token_id] \<longrightarrow> lookup_handle r' = Some \<lparr>block_id = 1, token_len = 2\<rparr>))"
  by (rule radix_insert_then_lookup [OF radix_reach.with_capacity _ _ _ small_cache_insert])
    (simp_all add: radix_with_capacity_tokens_def radix_new_def max64_def)

text \<open>C10. \<open>evict_coldest\<close> evicts whole entries in order of last use, the coldest first: nothing that stays was
  used before anything that goes. It stops as soon as the requested number of tokens is free (the
  entries before the last one do not suffice) and falls short only when it has emptied the cache. The
  token count drops by exactly the tokens of the reported handles.\<close>

theorem radix_evict_coldest_lru:
  assumes "radix_reach c" "evict_coldest n c = (r, c')"
  shows "\<exists>ks. distinct ks \<and> set ks = dom (radix_map c) - dom (radix_map c') \<and>
      evicted r = map (the \<circ> radix_map c) ks \<and> sorted (map (the \<circ> radix_tick c) ks) \<and>
      radix_map c' \<subseteq>\<^sub>m radix_map c \<and>
      (\<forall>k \<in> dom (radix_map c'). \<forall>l \<in> set ks. the (radix_tick c l) \<le> the (radix_tick c k)) \<and>
      resident_tokens c = resident_tokens c' + tokens_of (evicted r) \<and>
      (n \<le> tokens_of (evicted r) \<or> radix_map c' = Map.empty) \<and>
      (evicted r \<noteq> [] \<longrightarrow> tokens_of (butlast (evicted r)) < n)"
proof -
  note E = evict_coldest_evicts [OF radix_reach_inv [OF assms(1)] assms(2), unfolded evicts_def]
  then obtain ks where ks: "distinct ks" "set ks = dom (radix_map c) - dom (radix_map c')"
    "evicted r = map (the \<circ> radix_map c) ks" "sorted (map (the \<circ> radix_tick c) ks)" by blast
  with E show ?thesis by (intro exI [of _ ks] conjI) auto
qed

theorem radix_evict_coldest_lru_witness:
  "resident_tokens small_cache =
     resident_tokens (snd (evict_coldest 1 small_cache)) + tokens_of (evicted (fst (evict_coldest 1 small_cache)))"
  using radix_evict_coldest_lru [OF small_cache_reach, of 1 "fst (evict_coldest 1 small_cache)" "snd (evict_coldest 1 small_cache)"]
  by auto

text \<open>The counters of a reachable cache agree with its contents: \<open>len\<close> is the number of entries, and
  \<open>resident_tokens\<close> the sum of the lengths of the cached sequences; it never exceeds a capacity that
  the last insertion or \<open>set_capacity_tokens\<close> enforced.\<close>

theorem radix_counters:
  assumes "radix_reach c"
  shows "finite (dom (radix_map c)) \<and> radix_len c = card (dom (radix_map c)) \<and>
    radix_is_empty c = (radix_map c = Map.empty) \<and>
    resident_tokens c = (\<Sum>ks \<in> dom (radix_map c). length ks) \<and>
    (\<forall>cap. resident_tokens (set_capacity_tokens (Some cap) c) \<le> cap)"
proof -
  note inv = radix_reach_inv [OF assms]
  have "radix_inv (c\<lparr>capacity_tokens := Some cap\<rparr>)" for cap using inv by (simp add: radix_inv_def)
  from evict_to_capacity_correct(6) [OF this] have "resident_tokens (set_capacity_tokens (Some cap) c) \<le> cap" for cap
    by (simp add: set_capacity_tokens_def)
  with radix_counts [OF inv] show ?thesis by (simp add: radix_is_empty_def)
qed

theorem radix_counters_witness:
  "radix_len small_cache = card (dom (radix_map small_cache)) \<and>
   resident_tokens small_cache = (\<Sum>ks \<in> dom (radix_map small_cache). length ks)"
  using radix_counters [OF small_cache_reach] by blast

end
