(* ===== verification/Numbers.thy ===== *)
theory Numbers
  imports Prelude
begin

text \<open>
  What the program uses of Rust's primitive types beyond integer arithmetic: the little-endian
  byte forms of unsigned integers (\<open>to_le_bytes\<close>, \<open>from_le_bytes\<close>) and the order of \<open>f32\<close>. A float is
  its bit pattern (\<open>to_bits\<close>); \<open>f32_partial_cmp\<close> is \<open>f32::partial_cmp\<close> on patterns, undefined on a NaN and
  with both zeros equal. \<open>min_by_partial\<close> is \<open>Iterator::min_by\<close> with a comparison that unwraps
  \<open>partial_cmp\<close>: it panics when a NaN is compared and returns the first of several minima.
\<close>

section \<open>Decimal digits\<close>

text \<open>The decimal digits of \<open>format!\<close>.\<close>

fun decimal :: "nat \<Rightarrow> string" where
  "decimal n = (if n < 10 then [char_of (48 + n)] else decimal (n div 10) @ [char_of (48 + n mod 10)])"

declare decimal.simps [simp del]

section \<open>Little-endian integers\<close>

fun le_bytes :: "nat \<Rightarrow> nat \<Rightarrow> u8 list" where
  "le_bytes 0 n = []"
| "le_bytes (Suc k) n = of_nat (n mod 256) # le_bytes k (n div 256)"

fun le_value :: "u8 list \<Rightarrow> nat" where
  "le_value [] = 0"
| "le_value (b # bs) = unat b + 256 * le_value bs"

lemma u8_less: "unat (b :: u8) < 256"
proof -
  have "unat b < 2 ^ LENGTH(8)" by (rule unsigned_less)
  then show ?thesis by simp
qed

lemma length_le_bytes [simp]: "length (le_bytes k n) = k"
  by (induction k n rule: le_bytes.induct) simp_all

lemma le_value_bytes [simp]: "le_value (le_bytes k n) = n mod 256 ^ k"
proof (induction k n rule: le_bytes.induct)
  case (2 k n)
  have "unat (of_nat (n mod 256) :: u8) = n mod 256"
    by (rule unat_of_nat_small) simp
  then have "le_value (le_bytes (Suc k) n) = n mod 256 + 256 * (n div 256 mod 256 ^ k)"
    using 2 by simp
  also have "\<dots> = n mod 256 ^ Suc k"
    by (simp add: mod_mult2_eq)
  finally show ?case .
qed simp

lemma le_value_less: "le_value bs < 256 ^ length bs"
proof (induction bs)
  case (Cons b bs)
  have "unat b < 256"
    by (rule u8_less)
  with Cons show ?case by simp
qed simp

lemma le_bytes_value: "le_bytes (length bs) (le_value bs) = bs"
proof (induction bs)
  case (Cons b bs)
  have b: "unat b < 256"
    by (rule u8_less)
  then have "(unat b + 256 * le_value bs) mod 256 = unat b"
    and "(unat b + 256 * le_value bs) div 256 = le_value bs"
    by (simp_all add: mod_add_left_eq)
  with Cons show ?case by simp
qed simp

lemma le_bytes_value_eq: "length bs = k \<Longrightarrow> le_bytes k (le_value bs) = bs"
  using le_bytes_value by blast

lemma le_bytes_eq_iff: "le_bytes k m = le_bytes k n \<longleftrightarrow> m mod 256 ^ k = n mod 256 ^ k"
  by (metis le_bytes_value_eq le_value_bytes length_le_bytes le_value_less)

section \<open>Floating-point order\<close>

type_synonym f32 = u32

definition f32_sign :: "f32 \<Rightarrow> bool" where
  "f32_sign x = (2 ^ 31 \<le> unat x)"

definition f32_magnitude :: "f32 \<Rightarrow> nat" where
  "f32_magnitude x = unat x mod 2 ^ 31"

definition f32_is_nan :: "f32 \<Rightarrow> bool" where
  "f32_is_nan x = (0x7f800000 < f32_magnitude x)"

definition f32_key :: "f32 \<Rightarrow> int" where
  "f32_key x = (if f32_sign x then - int (f32_magnitude x) else int (f32_magnitude x))"

datatype ordering = Less | Equal | Greater

definition cmp_key :: "'a::linorder \<Rightarrow> 'a \<Rightarrow> ordering" where
  "cmp_key a b = (if a < b then Less else if a = b then Equal else Greater)"

definition f32_partial_cmp :: "f32 \<Rightarrow> f32 \<Rightarrow> ordering option" where
  "f32_partial_cmp x y =
     (if f32_is_nan x \<or> f32_is_nan y then None else Some (cmp_key (f32_key x) (f32_key y)))"

lemma zero_not_nan [simp]: "\<not> f32_is_nan 0"
  by (simp add: f32_is_nan_def f32_magnitude_def)

fun min_by_from :: "('a \<Rightarrow> f32) \<Rightarrow> 'a \<Rightarrow> 'a list \<Rightarrow> 'a option" where
  "min_by_from f acc [] = Some acc"
| "min_by_from f acc (x # xs) =
     (case f32_partial_cmp (f acc) (f x) of
        None \<Rightarrow> None
      | Some Greater \<Rightarrow> min_by_from f x xs
      | Some _ \<Rightarrow> min_by_from f acc xs)"

definition min_by_partial :: "('a \<Rightarrow> f32) \<Rightarrow> 'a list \<Rightarrow> ('e, 'a option) outcome" where
  "min_by_partial f xs =
     (case xs of
        [] \<Rightarrow> Ok None
      | x # rest \<Rightarrow> (case min_by_from f x rest of None \<Rightarrow> Panic | Some m \<Rightarrow> Ok (Some m)))"

lemma min_by_from_some:
  assumes "\<forall>x \<in> set (acc # xs). \<not> f32_is_nan (f x)"
  shows "\<exists>m. min_by_from f acc xs = Some m \<and> m \<in> set (acc # xs)
           \<and> (\<forall>x \<in> set (acc # xs). f32_key (f m) \<le> f32_key (f x))"
  using assms
proof (induction xs arbitrary: acc)
  case (Cons x xs)
  let ?next = "if f32_key (f x) < f32_key (f acc) then x else acc"
  have step: "min_by_from f acc (x # xs) = min_by_from f ?next xs"
    using Cons.prems by (auto simp: f32_partial_cmp_def cmp_key_def)
  have "\<forall>y \<in> set (?next # xs). \<not> f32_is_nan (f y)"
    using Cons.prems by auto
  from Cons.IH [OF this] obtain m where
    m: "min_by_from f ?next xs = Some m" "m \<in> set (?next # xs)"
       "\<forall>y \<in> set (?next # xs). f32_key (f m) \<le> f32_key (f y)"
    by blast
  from m(3) have "f32_key (f m) \<le> f32_key (f x)" "f32_key (f m) \<le> f32_key (f acc)"
    by (auto split: if_splits)
  with m show ?case
    unfolding step by (auto split: if_splits)
qed simp

lemma min_by_partial_ok:
  assumes "\<forall>x \<in> set xs. \<not> f32_is_nan (f x)" and "xs \<noteq> []"
  obtains m where "min_by_partial f xs = Ok (Some m)" and "m \<in> set xs"
    and "\<forall>x \<in> set xs. f32_key (f m) \<le> f32_key (f x)"
proof -
  from assms(2) obtain y ys where xs: "xs = y # ys" by (cases xs) auto
  from min_by_from_some [of y ys f] assms(1) xs that show thesis
    by (auto simp: min_by_partial_def)
qed

lemma min_by_partial_Nil [simp]: "min_by_partial f [] = Ok None"
  by (simp add: min_by_partial_def)

end
