(* ===== verification/Speculative.thy ===== *)
theory Speculative
  imports CacheTypes SlotManager Numbers
begin

text \<open>
  Speculative decoding (\<open>src/src/speculative.rs\<close>): the tree of drafts, the interfaces of the draft and
  the target model, the session that commits drafted tokens the target agrees with, and the
  decoder's loop.

  The two models are the traits \<open>DraftModel\<close> and \<open>TargetModel\<close>: a record of operations over the model's
  own state. A grammar matcher that a caller lends to a call comes back with the state it was left
  in. An \<open>f32\<close> is its bit pattern; nothing here computes with it. Counters are natural numbers.

  The decoder's loop carries fuel: one unit more than the tokens asked for is enough, because every
  turn that goes on adds a token (\<open>generate_loop_ok\<close>). The walk of \<open>get_path\<close> has one unit
  for each node: a walk that visits more nodes than there are would never end.
\<close>

section \<open>Data\<close>

record prediction =
  token :: token_id
  confidence :: f32

record verify_step =
  expected :: token_id

datatype spec_error =
    EmptyDraftWindow
  | DraftReturnedTooMany (requested: usize) (returned: usize)
  | TargetReturnedWrongLength (drafted: usize) (returned: usize)
  | Model string

record spec_stats =
  draft_calls :: usize
  target_calls :: usize
  drafted_tokens :: usize
  accepted_tokens :: usize
  rejected_tokens :: usize

definition spec_stats_default :: spec_stats where
  "spec_stats_default =
     \<lparr>draft_calls = 0, target_calls = 0, drafted_tokens = 0, accepted_tokens = 0, rejected_tokens = 0\<rparr>"

section \<open>The tree of drafts\<close>

record tree_node =
  node_token :: token_id
  node_parent :: "usize option"

type_synonym spec_tree = "tree_node list"

type_synonym tree_verify_result = "token_id list"

definition tree_new :: "token_id \<Rightarrow> spec_tree" where
  "tree_new t = [\<lparr>node_token = t, node_parent = None\<rparr>]"

definition add_child :: "usize \<Rightarrow> token_id \<Rightarrow> spec_tree \<Rightarrow> usize \<times> spec_tree" where
  "add_child parent_idx t tree = (length tree, tree @ [\<lparr>node_token = t, node_parent = Some parent_idx\<rparr>])"

fun path_up :: "nat \<Rightarrow> spec_tree \<Rightarrow> usize \<Rightarrow> (spec_error, token_id list) outcome" where
  "path_up 0 tree i = Panic"
| "path_up (Suc fuel) tree i =
     (if i \<ge> length tree then Panic
      else case node_parent (tree ! i) of
             None \<Rightarrow> Ok [node_token (tree ! i)]
           | Some p \<Rightarrow> bind_outcome (path_up fuel tree p) (\<lambda>path. Ok (node_token (tree ! i) # path)))"

definition get_path :: "spec_tree \<Rightarrow> usize \<Rightarrow> (spec_error, token_id list) outcome" where
  "get_path tree i = bind_outcome (path_up (length tree) tree i) (\<lambda>path. Ok (rev path))"

text \<open>The two loops of \<open>find_best_path\<close>: which nodes the target agrees with, and the longest path to one
  of them (the last of the longest).\<close>

fun mark_valid :: "spec_tree \<Rightarrow> tree_verify_result \<Rightarrow> usize list \<Rightarrow> bool list \<Rightarrow> (spec_error, bool list) outcome" where
  "mark_valid tree exps [] valid = Ok valid"
| "mark_valid tree exps (i # is) valid =
     (case node_parent (tree ! i) of
        None \<Rightarrow> mark_valid tree exps is valid
      | Some p \<Rightarrow>
          if p \<ge> length valid then Panic
          else if \<not> valid ! p then mark_valid tree exps is valid
          else if p \<ge> length exps then Panic
          else mark_valid tree exps is
            (if node_token (tree ! i) = exps ! p then valid[i := True] else valid))"

fun best_of :: "spec_tree \<Rightarrow> tree_verify_result \<Rightarrow> bool list \<Rightarrow> usize list \<Rightarrow> token_id list \<times> token_id option \<times> usize
    \<Rightarrow> (spec_error, token_id list \<times> token_id option) outcome" where
  "best_of tree exps valid [] (best, rejected, max_len) = Ok (best, rejected)"
| "best_of tree exps valid (i # is) (best, rejected, max_len) =
     (if \<not> valid ! i then best_of tree exps valid is (best, rejected, max_len)
      else bind_outcome (get_path tree i) (\<lambda>path.
        if length path \<ge> max_len
        then best_of tree exps valid is (path, if i < length exps then Some (exps ! i) else None, length path)
        else best_of tree exps valid is (best, rejected, max_len)))"

definition find_best_path ::
  "spec_tree \<Rightarrow> tree_verify_result \<Rightarrow> (spec_error, token_id list \<times> token_id option) outcome" where
  "find_best_path tree exps =
     (if tree = [] then Panic
      else bind_outcome (mark_valid tree exps [1..<length tree] ((replicate (length tree) False)[0 := True]))
        (\<lambda>valid. best_of tree exps valid [0..<length tree] ([], None, 0)))"

section \<open>The models\<close>

record ('d, 'm) draft_model =
  d_bind_prefix :: "cache_lookup \<Rightarrow> ('d, spec_error, unit) act"
  d_bind_slot :: "slot_id \<Rightarrow> ('d, spec_error, unit) act"
  d_draft :: "token_id list \<Rightarrow> usize \<Rightarrow> ('m option \<times> 'd, spec_error, prediction list) act"
  d_draft_batch :: "(token_id list \<times> usize) list \<Rightarrow> ('m option list \<times> 'd, spec_error, prediction list list) act"

record ('t, 'm) target_model =
  t_bind_prefix :: "cache_lookup \<Rightarrow> ('t, spec_error, unit) act"
  t_bind_slot :: "slot_id \<Rightarrow> ('t, spec_error, unit) act"
  t_verify :: "token_id list \<Rightarrow> token_id list \<Rightarrow> ('m option \<times> 't, spec_error, verify_step list) act"
  t_verify_batch :: "(token_id list \<times> token_id list) list \<Rightarrow> ('m option list \<times> 't, spec_error, verify_step list list) act"

text \<open>The default bodies of \<open>draft_tree\<close>, \<open>draft_batch\<close>, \<open>verify_tree\<close> and \<open>verify_batch\<close>.\<close>

fun chain_from :: "usize \<Rightarrow> prediction list \<Rightarrow> spec_tree \<Rightarrow> spec_tree" where
  "chain_from last_idx [] tree = tree"
| "chain_from last_idx (p # ps) tree =
     (let (idx, tree') = add_child last_idx (token p) tree in chain_from idx ps tree')"

definition draft_tree_default ::
  "('d, 'm) draft_model \<Rightarrow> token_id list \<Rightarrow> usize \<Rightarrow> usize \<Rightarrow> ('m option \<times> 'd, spec_error, spec_tree) act" where
  "draft_tree_default dm ctx max_tokens width =
     and_then (d_draft dm ctx max_tokens) (\<lambda>linear.
       case linear of
         [] \<Rightarrow> throw (Model ''Draft model returned no tokens'')
       | p # ps \<Rightarrow> ret (chain_from 0 ps (tree_new (token p))))"

fun draft_batch_default ::
  "(token_id list \<Rightarrow> usize \<Rightarrow> ('m option \<times> 'd, spec_error, prediction list) act)
   \<Rightarrow> (token_id list \<times> usize) list \<Rightarrow> ('m option list \<times> 'd, spec_error, prediction list list) act" where
  "draft_batch_default f [] (ms, d) = (Ok [], (ms, d))"
| "draft_batch_default f (r # rs) ([], d) = (Panic, ([], d))"
| "draft_batch_default f ((ctx, mx) # rs) (m # ms, d) =
     (case f ctx mx (m, d) of
        (Ok ps, (m', d')) \<Rightarrow>
          (case draft_batch_default f rs (ms, d') of
             (Ok pss, (ms', d'')) \<Rightarrow> (Ok (ps # pss), (m' # ms', d''))
           | (Err e, (ms', d'')) \<Rightarrow> (Err e, (m' # ms', d''))
           | (Panic, (ms', d'')) \<Rightarrow> (Panic, (m' # ms', d'')))
      | (Err e, (m', d')) \<Rightarrow> (Err e, (m' # ms, d'))
      | (Panic, (m', d')) \<Rightarrow> (Panic, (m' # ms, d')))"

text \<open>The leftmost branch: from each node on to the first node that names it as its parent.\<close>

fun leftmost :: "nat \<Rightarrow> spec_tree \<Rightarrow> usize \<Rightarrow> (spec_error, usize list) outcome" where
  "leftmost 0 tree cur = Panic"
| "leftmost (Suc fuel) tree cur =
     (case filter (\<lambda>j. node_parent (tree ! j) = Some cur) [0..<length tree] of
        [] \<Rightarrow> Ok [cur]
      | first_child # _ \<Rightarrow> bind_outcome (leftmost fuel tree first_child) (\<lambda>rest. Ok (cur # rest)))"

definition verify_tree_default ::
  "('t, 'm) target_model \<Rightarrow> token_id list \<Rightarrow> spec_tree \<Rightarrow> ('m option \<times> 't, spec_error, tree_verify_result) act" where
  "verify_tree_default tm ctx tree s =
     (case leftmost (Suc (length tree)) tree 0 of
        Ok path_indices \<Rightarrow>
          if \<exists>i \<in> set path_indices. i \<ge> length tree then (Panic, s)
          else and_then (t_verify tm ctx (map (\<lambda>i. node_token (tree ! i)) path_indices)) (\<lambda>verified.
            ret (foldl (\<lambda>exps (i, step). exps[i := expected step]) (replicate (length tree) 0)
              (zip path_indices verified))) s
      | Err e \<Rightarrow> (Err e, s)
      | Panic \<Rightarrow> (Panic, s))"

section \<open>The decoder and its sessions\<close>

record spec_decoder =
  dec_draft_window :: usize
  dec_max_window :: usize

record spec_session =
  draft_window :: usize
  max_window :: usize
  prompt :: "token_id list"
  sess_context :: "token_id list"
  stats :: spec_stats
  rejected_token :: "token_id option"

record spec_output =
  out_tokens :: "token_id list"
  out_stats :: spec_stats

definition decoder_new :: "usize \<Rightarrow> (spec_error, spec_decoder) outcome" where
  "decoder_new w =
     (if w = 0 then Err EmptyDraftWindow
      else if w * 2 > max64 then Panic
      else Ok \<lparr>dec_draft_window = w, dec_max_window = w * 2\<rparr>)"

definition with_max_window :: "usize \<Rightarrow> usize \<Rightarrow> (spec_error, spec_decoder) outcome" where
  "with_max_window w mx =
     (if w = 0 \<or> mx < w then Err EmptyDraftWindow else Ok \<lparr>dec_draft_window = w, dec_max_window = mx\<rparr>)"

definition decoder_begin :: "spec_decoder \<Rightarrow> token_id list \<Rightarrow> (spec_error, spec_session) outcome" where
  "decoder_begin dec p =
     Ok \<lparr>draft_window = dec_draft_window dec, max_window = dec_max_window dec, prompt = p, sess_context = p,
         stats = spec_stats_default, rejected_token = None\<rparr>"

definition has_pending_rejection :: "spec_session \<Rightarrow> bool" where
  "has_pending_rejection s = (rejected_token s \<noteq> None)"

definition take_rejected_token :: "spec_session \<Rightarrow> token_id option \<times> spec_session" where
  "take_rejected_token s = (rejected_token s, s\<lparr>rejected_token := None\<rparr>)"

definition adjust_window :: "usize \<Rightarrow> usize \<Rightarrow> spec_session \<Rightarrow> spec_session" where
  "adjust_window accepted_count drafted_count s =
     (if accepted_count = drafted_count
      then if draft_window s < max_window s then s\<lparr>draft_window := draft_window s + 1\<rparr> else s
      else s\<lparr>draft_window := max (accepted_count + 1) 1\<rparr>)"

text \<open>The loop that compares drafted and verified tokens: how many are accepted, and the first
  disagreement.\<close>

fun judge :: "usize \<Rightarrow> token_id list \<Rightarrow> verify_step list \<Rightarrow> usize \<times> (usize \<times> token_id) option" where
  "judge index (d # ds) (v # vs) =
     (if d = expected v
      then let (n, rejected) = judge (index + 1) ds vs in (n + 1, rejected)
      else (0, Some (index, expected v)))"
| "judge index _ _ = (0, None)"

text \<open>The part of \<open>draft\<close> and \<open>commit\<close> after the comparison of the lengths.\<close>

definition settle :: "token_id list \<Rightarrow> verify_step list \<Rightarrow> spec_session \<Rightarrow> token_id list \<times> spec_session" where
  "settle ds vs s =
     (let (n, rejected) = judge 0 ds vs;
          accepted = take n ds;
          s1 = (if n > 0
                then s\<lparr>sess_context := sess_context s @ accepted,
                       stats := (stats s)\<lparr>accepted_tokens := accepted_tokens (stats s) + n\<rparr>\<rparr>
                else s);
          s2 = (case rejected of
                  Some (i, t) \<Rightarrow>
                    s1\<lparr>sess_context := sess_context s1 @ [t], rejected_token := Some t,
                       stats := (stats s1)\<lparr>rejected_tokens := rejected_tokens (stats s1) + (length ds - i)\<rparr>\<rparr>
                | None \<Rightarrow> s1\<lparr>rejected_token := None\<rparr>)
      in (accepted, adjust_window n (length ds) s2))"

definition session_commit :: "prediction list \<Rightarrow> verify_step list \<Rightarrow> (spec_session, spec_error, token_id list) act" where
  "session_commit ds vs s =
     (if length vs \<noteq> length ds then (Err (TargetReturnedWrongLength (length ds) (length vs)), s)
      else
        let s1 = s\<lparr>stats := (stats s)\<lparr>drafted_tokens := drafted_tokens (stats s) + length ds\<rparr>\<rparr>;
            (accepted, s2) = settle (map token ds) vs s1
        in (Ok accepted, s2))"

definition record_draft_call :: "spec_session \<Rightarrow> spec_session" where
  "record_draft_call s = s\<lparr>stats := (stats s)\<lparr>draft_calls := draft_calls (stats s) + 1\<rparr>\<rparr>"

definition record_target_call :: "spec_session \<Rightarrow> spec_session" where
  "record_target_call s = s\<lparr>stats := (stats s)\<lparr>target_calls := target_calls (stats s) + 1\<rparr>\<rparr>"

definition session_draft ::
  "('d, 'm) draft_model \<Rightarrow> ('t, 'm) target_model \<Rightarrow> usize
   \<Rightarrow> (spec_session \<times> 'd \<times> 't, spec_error, token_id list) act" where
  "session_draft dm tm max_new_tokens = (\<lambda>(s, d, t).
     let requested = min max_new_tokens (draft_window s) in
     case d_draft dm (sess_context s) requested (None, d) of
       (Err e, (_, d1)) \<Rightarrow> (Err e, (s, d1, t))
     | (Panic, (_, d1)) \<Rightarrow> (Panic, (s, d1, t))
     | (Ok predictions, (_, d1)) \<Rightarrow>
         let s1 = record_draft_call s in
         if length predictions > requested
         then (Err (DraftReturnedTooMany requested (length predictions)), (s1, d1, t))
         else if predictions = [] then (Ok [], (s1, d1, t))
         else
           let ds = map token predictions;
               s2 = s1\<lparr>stats := (stats s1)\<lparr>drafted_tokens := drafted_tokens (stats s1) + length ds\<rparr>\<rparr>
           in
           case t_verify tm (sess_context s2) ds (None, t) of
             (Err e, (_, t1)) \<Rightarrow> (Err e, (s2, d1, t1))
           | (Panic, (_, t1)) \<Rightarrow> (Panic, (s2, d1, t1))
           | (Ok verified, (_, t1)) \<Rightarrow>
               let s3 = record_target_call s2 in
               if length verified \<noteq> length ds
               then (Err (TargetReturnedWrongLength (length ds) (length verified)), (s3, d1, t1))
               else let (accepted, s4) = settle ds verified s3 in (Ok accepted, (s4, d1, t1)))"

fun generate_loop ::
  "nat \<Rightarrow> ('d, 'm) draft_model \<Rightarrow> ('t, 'm) target_model \<Rightarrow> usize \<Rightarrow> token_id list
   \<Rightarrow> (spec_session \<times> 'd \<times> 't, spec_error, token_id list) act" where
  "generate_loop 0 dm tm mx generated st = (Panic, st)"
| "generate_loop (Suc fuel) dm tm mx generated st =
     (if length generated \<ge> mx then (Ok generated, st)
      else
        case session_draft dm tm (mx - length generated) st of
          (Err e, st1) \<Rightarrow> (Err e, st1)
        | (Panic, st1) \<Rightarrow> (Panic, st1)
        | (Ok ds, (s1, d1, t1)) \<Rightarrow>
            if ds = [] \<and> \<not> has_pending_rejection s1 then (Ok generated, (s1, d1, t1))
            else if \<not> has_pending_rejection s1 then generate_loop fuel dm tm mx (generated @ ds) (s1, d1, t1)
            else
              let (r, s2) = take_rejected_token s1;
                  generated' = (case r of Some tok \<Rightarrow> generated @ ds @ [tok] | None \<Rightarrow> generated @ ds)
              in generate_loop fuel dm tm mx generated' (s2, d1, t1))"

definition decoder_generate ::
  "spec_decoder \<Rightarrow> ('d, 'm) draft_model \<Rightarrow> ('t, 'm) target_model \<Rightarrow> token_id list \<Rightarrow> usize
   \<Rightarrow> ('d \<times> 't, spec_error, spec_output) act" where
  "decoder_generate dec dm tm p mx = (\<lambda>(d, t).
     case decoder_begin dec p of
       Err e \<Rightarrow> (Err e, (d, t))
     | Panic \<Rightarrow> (Panic, (d, t))
     | Ok s \<Rightarrow>
         case generate_loop (Suc mx) dm tm mx [] (s, d, t) of
           (Ok generated, (s1, d1, t1)) \<Rightarrow> (Ok \<lparr>out_tokens = generated, out_stats = stats s1\<rparr>, (d1, t1))
         | (Err e, (s1, d1, t1)) \<Rightarrow> (Err e, (d1, t1))
         | (Panic, (s1, d1, t1)) \<Rightarrow> (Panic, (d1, t1)))"

end
