(* ===== verification/SpeculativeProps.thy ===== *)
theory SpeculativeProps
  imports Speculative
begin

text \<open>
  Correctness of speculative decoding. The specification is \<open>greedy\<close>: what the target model alone would
  produce, one token at a time. The decoder's output is exactly that, whatever the draft model
  guesses; drafts only save target calls. The tree half of the module is specified by \<open>agreed\<close>, the
  nodes the target confirms along their whole path.
\<close>

section \<open>What the target alone would produce\<close>

fun greedy :: "(token_id list \<Rightarrow> token_id) \<Rightarrow> token_id list \<Rightarrow> nat \<Rightarrow> token_id list" where
  "greedy next ctx 0 = []"
| "greedy next ctx (Suc n) = next ctx # greedy next (ctx @ [next ctx]) n"

lemma greedy_length [simp]: "length (greedy next ctx n) = n"
  by (induction n arbitrary: ctx) auto

lemma greedy_add:
  "greedy next ctx (m + n) = greedy next ctx m @ greedy next (ctx @ greedy next ctx m) n"
  by (induction m arbitrary: ctx) auto

lemma greedy_snoc: "greedy next ctx (Suc n) = greedy next ctx n @ [next (ctx @ greedy next ctx n)]"
  using greedy_add [of "next" ctx n 1] by simp

text \<open>What a target that answers with \<open>next\<close> replies to a draft.\<close>

definition replies :: "(token_id list \<Rightarrow> token_id) \<Rightarrow> token_id list \<Rightarrow> token_id list \<Rightarrow> verify_step list" where
  "replies next ctx ds = map (\<lambda>k. \<lparr>expected = next (ctx @ take k ds)\<rparr>) [0..<length ds]"

lemma replies_length [simp]: "length (replies next ctx ds) = length ds"
  by (simp add: replies_def)

lemma replies_nth: "k < length ds \<Longrightarrow> expected (replies next ctx ds ! k) = next (ctx @ take k ds)"
  by (simp add: replies_def)

lemma replies_Cons: "replies next ctx (d # ds) = \<lparr>expected = next ctx\<rparr> # replies next (ctx @ [d]) ds"
  unfolding replies_def by (simp add: upt_conv_Cons map_Suc_upt [symmetric] del: upt_Suc)

lemma judge_agree:
  assumes "length vs = length ds"
  shows "judge i ds vs =
    (let n = agree_len ds (map expected vs) in (n, if n = length ds then None else Some (i + n, expected (vs ! n))))"
  using assms by (induction i ds vs rule: judge.induct) (auto simp: Let_def)

lemma agree_replies:
  "take (agree_len ds (map expected (replies next ctx ds))) ds =
     greedy next ctx (agree_len ds (map expected (replies next ctx ds)))"
  by (induction ds arbitrary: ctx) (auto simp: replies_Cons)

section \<open>One round\<close>

text \<open>A round accepts the agreeing part of the draft; a disagreement adds the target's token.\<close>

lemma settle_fields:
  assumes len: "length vs = length ds" and st: "settle ds vs s = (acc, s')"
  defines "n \<equiv> agree_len ds (map expected vs)"
  defines "fix_up \<equiv> if n = length ds then [] else [expected (vs ! n)]"
  shows "acc = take n ds" "sess_context s' = sess_context s @ acc @ fix_up"
    "rejected_token s' = (if n = length ds then None else Some (expected (vs ! n)))"
    "prompt s' = prompt s" "max_window s' = max_window s"
    "1 \<le> draft_window s \<Longrightarrow> 1 \<le> draft_window s'"
    "stats s' = (stats s)\<lparr>accepted_tokens := accepted_tokens (stats s) + n,
       rejected_tokens := rejected_tokens (stats s) + (length ds - n)\<rparr>"
  using st len unfolding settle_def judge_agree [OF len]
  by (auto simp: Let_def n_def [symmetric] fix_up_def adjust_window_def split: if_splits)

text \<open>\<open>progress\<close>: the state between rounds, when everything generated so far is what the target alone
  would have produced.\<close>

definition progress :: "(token_id list \<Rightarrow> token_id) \<Rightarrow> token_id list \<Rightarrow> token_id list \<Rightarrow> spec_session \<Rightarrow> bool" where
  "progress next p generated s \<longleftrightarrow>
     generated = greedy next p (length generated) \<and> sess_context s = p @ generated \<and>
     rejected_token s = None \<and> 1 \<le> draft_window s \<and>
     accepted_tokens (stats s) + rejected_tokens (stats s) = drafted_tokens (stats s) \<and>
     length generated \<le> accepted_tokens (stats s) + target_calls (stats s)"

lemma settle_greedy:
  assumes st: "settle ds (replies next (sess_context s) ds) s = (acc, s')"
  shows "\<exists>k \<le> length ds. acc @ (case rejected_token s' of Some t \<Rightarrow> [t] | None \<Rightarrow> []) = greedy next (sess_context s) k \<and>
    sess_context s' = sess_context s @ greedy next (sess_context s) k \<and> (ds \<noteq> [] \<longrightarrow> 0 < k) \<and>
    (rejected_token s' = None \<longrightarrow> acc = greedy next (sess_context s) k) \<and>
    k \<le> length acc + 1 \<and> accepted_tokens (stats s') = accepted_tokens (stats s) + length acc \<and>
    rejected_tokens (stats s') = rejected_tokens (stats s) + (length ds - length acc)"
proof -
  let ?vs = "replies next (sess_context s) ds"
  let ?n = "agree_len ds (map expected ?vs)"
  have len: "length ?vs = length ds" by simp
  note F = settle_fields [OF len st]
  have le: "?n \<le> length ds" by (rule agree_len_le)
  have acc: "acc = greedy next (sess_context s) ?n" using F(1) agree_replies by simp
  show ?thesis
  proof (cases "?n = length ds")
    case True
    with F acc show ?thesis by (intro exI [of _ ?n]) auto
  next
    case False
    with le have lt: "?n < length ds" by simp
    have "expected (?vs ! ?n) = next (sess_context s @ greedy next (sess_context s) ?n)"
      using replies_nth [OF lt] F(1) acc by simp
    with F acc False lt show ?thesis
      by (intro exI [of _ "Suc ?n"]) (auto simp: greedy_snoc simp del: greedy.simps)
  qed
qed

text \<open>Called without a grammar matcher, as the decoder does: the target answers every draft with what \<open>next\<close> says after the tokens before each position; the draft
  model returns between one token and the number asked for; it returns at all.\<close>

definition answers_with :: "('t, 'm) target_model \<Rightarrow> (token_id list \<Rightarrow> token_id) \<Rightarrow> bool" where
  "answers_with tm next \<longleftrightarrow>
     (\<forall>ctx ds t. \<exists>mt. t_verify tm ctx ds (None, t) = (Ok (replies next ctx ds), mt))"

definition drafts_some :: "('d, 'm) draft_model \<Rightarrow> bool" where
  "drafts_some dm \<longleftrightarrow>
     (\<forall>ctx n d. 0 < n \<longrightarrow> (\<exists>ps md. d_draft dm ctx n (None, d) = (Ok ps, md) \<and> ps \<noteq> [] \<and> length ps \<le> n))"

definition drafts_return :: "('d, 'm) draft_model \<Rightarrow> bool" where
  "drafts_return dm \<longleftrightarrow> (\<forall>ctx n md. fst (d_draft dm ctx n md) \<noteq> Panic)"

definition rejection :: "spec_session \<Rightarrow> token_id list" where
  "rejection s = (case rejected_token s of Some t \<Rightarrow> [t] | None \<Rightarrow> [])"

lemma record_call_context [simp]:
  "sess_context (record_draft_call s) = sess_context s" "sess_context (record_target_call s) = sess_context s"
  by (simp_all add: record_draft_call_def record_target_call_def)

lemma session_draft_progress:
  assumes tgt: "answers_with tm next" and pr: "progress next p g s" and mx: "length g < mx"
    and run: "session_draft dm tm (mx - length g) (s, d, t) = (Ok ds, (s', d', t'))"
  shows "ds = [] \<and> rejected_token s' = None \<and> progress next p g s' \<or>
    length g < length (g @ ds @ rejection s') \<and> length (g @ ds @ rejection s') \<le> mx \<and>
    progress next p (g @ ds @ rejection s') (s'\<lparr>rejected_token := None\<rparr>)"
proof -
  let ?req = "min (mx - length g) (draft_window s)"
  obtain r m1 d1 where dr: "d_draft dm (sess_context s) ?req (None, d) = (r, (m1, d1))" by (metis surj_pair)
  from run dr obtain ps where r: "r = Ok ps" and le: "length ps \<le> ?req"
    by (cases r) (auto simp: session_draft_def Let_def not_less split: if_splits)
  show ?thesis
  proof (cases "ps = []")
    case True
    with run dr r pr show ?thesis by (auto simp: session_draft_def Let_def progress_def record_draft_call_def)
  next
    case False
    let ?ds = "map token ps"
    let ?s2 = "(record_draft_call s)\<lparr>stats := (stats (record_draft_call s))\<lparr>drafted_tokens := drafted_tokens (stats (record_draft_call s)) + length ?ds\<rparr>\<rparr>"
    let ?s3 = "record_target_call ?s2"
    have ctx: "sess_context ?s2 = sess_context s" "sess_context ?s3 = sess_context s"
      by (simp_all add: record_draft_call_def record_target_call_def)
    obtain mt where v: "t_verify tm (sess_context s) ?ds (None, t) = (Ok (replies next (sess_context s) ?ds), mt)"
      using tgt unfolding answers_with_def by blast
    from run dr r le False v ctx(1) have st: "settle ?ds (replies next (sess_context ?s3) ?ds) ?s3 = (ds, s')"
      by (cases mt) (auto simp: session_draft_def Let_def ctx split: prod.splits)
    from settle_greedy [OF st] ctx(2) obtain k where k: "k \<le> length ps" "ds @ rejection s' = greedy next (sess_context s) k"
      "sess_context s' = sess_context s @ greedy next (sess_context s) k" "0 < k" "k \<le> length ds + 1"
      "accepted_tokens (stats s') = accepted_tokens (stats s) + length ds"
      "rejected_tokens (stats s') = rejected_tokens (stats s) + (length ?ds - length ds)"
      using False by (auto simp: rejection_def record_draft_call_def record_target_call_def)
    note F = settle_fields [OF _ st]
    have "length ds \<le> length ps" using F(1) by simp
    moreover have "drafted_tokens (stats s') = drafted_tokens (stats s) + length ps" "target_calls (stats s') = target_calls (stats s) + 1"
      using F(7) by (simp_all add: record_draft_call_def record_target_call_def)
    moreover have "1 \<le> draft_window s'" using F(6) pr by (simp add: progress_def record_draft_call_def record_target_call_def)
    moreover have "g @ ds @ rejection s' = greedy next p (length g + k)"
      using k(2) pr greedy_add [of "next" p "length g" k] by (simp add: progress_def)
    moreover have "length (ds @ rejection s') = k" using k(2) by simp
    ultimately show ?thesis using k pr le mx by (auto simp: progress_def)
  qed
qed

text \<open>With a draft model that always offers something, a round succeeds and moves on.\<close>

lemma session_draft_returns:
  assumes "answers_with tm next" "drafts_some dm" "progress next p g s" "length g < mx"
  shows "\<exists>ds s' d' t'. session_draft dm tm (mx - length g) (s, d, t) = (Ok ds, (s', d', t')) \<and> 
    (ds \<noteq> [] \<or> rejected_token s' \<noteq> None)"
proof -
  let ?req = "min (mx - length g) (draft_window s)"
  have "0 < ?req" using assms(3,4) by (simp add: progress_def)
  with assms(2) obtain ps md where ps: "d_draft dm (sess_context s) ?req (None, d) = (Ok ps, md)" "ps \<noteq> []" "length ps \<le> ?req"
    unfolding drafts_some_def by blast
  obtain mt where v: "t_verify tm (sess_context s) (map token ps) (None, t) = (Ok (replies next (sess_context s) (map token ps)), mt)"
    using assms(1) unfolding answers_with_def by blast
  obtain ds s' where st: "settle (map token ps) (replies next (sess_context s) (map token ps))
      (record_target_call ((record_draft_call s)\<lparr>stats := (stats (record_draft_call s))\<lparr>drafted_tokens := drafted_tokens (stats (record_draft_call s)) + length (map token ps)\<rparr>\<rparr>)) = (ds, s')"
    by (metis surj_pair)
  have "ds \<noteq> [] \<or> rejected_token s' \<noteq> None"
    using settle_fields(1,3) [OF _ st] ps(2) by (auto split: if_splits)
  moreover have "session_draft dm tm (mx - length g) (s, d, t) = (Ok ds, (s', snd md, snd mt))"
    using ps v st by (cases md; cases mt) (auto simp: session_draft_def Let_def)
  ultimately show ?thesis by blast
qed

lemma session_draft_no_panic:
  assumes "answers_with tm next" "drafts_return dm"
  shows "fst (session_draft dm tm n st) \<noteq> Panic"
proof -
  obtain s d t where st: "st = (s, d, t)" by (metis surj_pair)
  obtain r m1 d1 where dr: "d_draft dm (sess_context s) (min n (draft_window s)) (None, d) = (r, (m1, d1))" by (metis surj_pair)
  have "r \<noteq> Panic" using assms(2) dr unfolding drafts_return_def by (metis fst_conv)
  moreover have "fst (session_draft dm tm n (s, d, t)) \<noteq> Panic" if r: "r = Ok ps" for ps
  proof -
    obtain m t1 where "t_verify tm (sess_context s) (map token ps) (None, t) =
        (Ok (replies next (sess_context s) (map token ps)), (m, t1))"
      using assms(1) [unfolded answers_with_def, rule_format, of "sess_context s" "map token ps" t] by auto
    with dr r show ?thesis by (auto simp: session_draft_def Let_def split: prod.split)
  qed
  ultimately show ?thesis
    using dr by (cases r) (auto simp: st session_draft_def Let_def)
qed

text \<open>One turn of the decoder's loop.\<close>

lemma generate_loop_step:
  assumes "session_draft dm tm (mx - length g) st = (Ok ds, (s1, d1, t1))" "length g < mx"
  shows "generate_loop (Suc fuel) dm tm mx g st =
    (if ds = [] \<and> rejected_token s1 = None then (Ok g, (s1, d1, t1))
     else generate_loop fuel dm tm mx (g @ ds @ rejection s1) (s1\<lparr>rejected_token := None\<rparr>, d1, t1))"
proof -
  have same: "rejected_token s1 = None \<Longrightarrow> s1\<lparr>rejected_token := None\<rparr> = s1" by simp
  show ?thesis
    using assms
    by (cases "rejected_token s1")
      (simp_all add: has_pending_rejection_def take_rejected_token_def rejection_def same)
qed

declare generate_loop.simps(2) [simp del]

lemma generate_loop_ok:
  assumes "answers_with tm next" "drafts_some dm" "progress next p g s" "length g \<le> mx" "mx - length g < fuel"
  shows "\<exists>s' d' t'. generate_loop fuel dm tm mx g (s, d, t) = (Ok (greedy next p mx), (s', d', t')) \<and>
    progress next p (greedy next p mx) s'"
  using assms(3-5)
proof (induction fuel arbitrary: g s d t)
  case 0
  then show ?case by simp
next
  case (Suc fuel)
  show ?case
  proof (cases "length g = mx")
    case True
    with Suc.prems(1) have "g = greedy next p mx" by (simp add: progress_def)
    with True Suc.prems(1) show ?thesis by (simp add: generate_loop.simps(2))
  next
    case False
    with Suc.prems(2) have lt: "length g < mx" by simp
    obtain ds s1 d1 t1 where r: "session_draft dm tm (mx - length g) (s, d, t) = (Ok ds, (s1, d1, t1))"
      "ds \<noteq> [] \<or> rejected_token s1 \<noteq> None"
      using session_draft_returns [OF assms(1,2) Suc.prems(1) lt] by blast
    from session_draft_progress [OF assms(1) Suc.prems(1) lt r(1)] r(2)
    have pr: "length g < length (g @ ds @ rejection s1)" "length (g @ ds @ rejection s1) \<le> mx"
      "progress next p (g @ ds @ rejection s1) (s1\<lparr>rejected_token := None\<rparr>)" by auto
    have "mx - length (g @ ds @ rejection s1) < fuel" using pr(1,2) Suc.prems(3) by linarith
    from Suc.IH [OF pr(3,2) this] generate_loop_step [OF r(1) lt] r(2) show ?thesis by auto
  qed
qed

lemma generate_loop_sound:
  assumes "answers_with tm next" "drafts_return dm" "progress next p g s" "length g \<le> mx" "mx - length g < fuel"
    "generate_loop fuel dm tm mx g (s, d, t) = (r, (s', d', t'))"
  shows "r \<noteq> Panic \<and> (\<forall>out. r = Ok out \<longrightarrow> length out \<le> mx \<and> progress next p out s')"
  using assms(3-6)
proof (induction fuel arbitrary: g s d t)
  case 0
  then show ?case by simp
next
  case (Suc fuel)
  show ?case
  proof (cases "length g = mx")
    case True
    with Suc.prems(1,4) show ?thesis by (auto simp: generate_loop.simps(2))
  next
    case False
    with Suc.prems(2) have lt: "length g < mx" by simp
    obtain q st1 where q: "session_draft dm tm (mx - length g) (s, d, t) = (q, st1)" by (metis surj_pair)
    obtain s1 d1 t1 where st1: "st1 = (s1, d1, t1)" by (metis surj_pair)
    have np: "q \<noteq> Panic" using session_draft_no_panic [OF assms(1,2)] q by (metis fst_conv)
    show ?thesis
    proof (cases q)
      case (Ok ds)
      note r = q [unfolded Ok st1]
      show ?thesis
      proof (cases "ds = [] \<and> rejected_token s1 = None")
        case True
        then have "ds = []" "rejection s1 = []" by (simp_all add: rejection_def)
        with session_draft_progress [OF assms(1) Suc.prems(1) lt r] have "progress next p g s1" by auto
        with generate_loop_step [OF r lt] True Suc.prems(2,4) show ?thesis by auto
      next
        case F: False
        from session_draft_progress [OF assms(1) Suc.prems(1) lt r] F
        have pr: "length g < length (g @ ds @ rejection s1)" "length (g @ ds @ rejection s1) \<le> mx"
          "progress next p (g @ ds @ rejection s1) (s1\<lparr>rejected_token := None\<rparr>)" by auto
        have "mx - length (g @ ds @ rejection s1) < fuel" using pr(1,2) Suc.prems(3) by linarith
        from Suc.IH [OF pr(3,2) this] generate_loop_step [OF r lt] F Suc.prems(4) show ?thesis by auto
      qed
    next
      case (Err e)
      with q Suc.prems(4) lt show ?thesis by (auto simp: generate_loop.simps(2))
    qed (use np in simp)
  qed
qed

section \<open>The decoder\<close>

lemma decoder_generate_greedy:
  assumes "answers_with tm next" "drafts_some dm" "0 < dec_draft_window dec"
  shows "\<exists>out d' t'. decoder_generate dec dm tm p mx (d, t) = (Ok out, (d', t')) \<and>
    out_tokens out = greedy next p mx \<and> length (out_tokens out) = mx \<and>
    accepted_tokens (out_stats out) + rejected_tokens (out_stats out) = drafted_tokens (out_stats out) \<and>
    mx \<le> accepted_tokens (out_stats out) + target_calls (out_stats out)"
proof -
  obtain s where s: "decoder_begin dec p = Ok s" "progress next p [] s"
    using assms(3) by (auto simp: decoder_begin_def progress_def spec_stats_default_def)
  from generate_loop_ok [OF assms(1,2) s(2), of mx "Suc mx" d t] s(1) show ?thesis
    by (auto simp: decoder_generate_def progress_def)
qed

text \<open>C1. Speculative decoding is lossless: with a target model that answers every draft with its own next
  tokens, and a draft model that offers at least one token and no more than asked,
  \<open>SpeculativeDecoder::generate\<close> returns exactly the tokens the target model alone would have
  produced, exactly as many as asked, whatever the draft model guesses.\<close>

theorem spec_generate_greedy:
  assumes "answers_with tm next" "drafts_some dm" "0 < dec_draft_window dec"
  shows "\<exists>out d' t'. decoder_generate dec dm tm p mx (d, t) = (Ok out, (d', t')) \<and>
    out_tokens out = greedy next p mx \<and> length (out_tokens out) = mx \<and>
    accepted_tokens (out_stats out) + rejected_tokens (out_stats out) = drafted_tokens (out_stats out) \<and>
    mx \<le> accepted_tokens (out_stats out) + target_calls (out_stats out)"
  by (rule decoder_generate_greedy [OF assms])

text \<open>A target that counts the tokens of the context and a draft that guesses one right and one wrong token.\<close>

definition counting_target :: "(nat, unit) target_model" where
  "counting_target =
     \<lparr>t_bind_prefix = (\<lambda>_. ret ()), t_bind_slot = (\<lambda>_. ret ()),
      t_verify = (\<lambda>ctx ds (m, n). (Ok (replies (\<lambda>c. of_nat (length c)) ctx ds), (m, n + 1))),
      t_verify_batch = (\<lambda>rs (ms, n). (Ok (map (\<lambda>(ctx, ds). replies (\<lambda>c. of_nat (length c)) ctx ds) rs), (ms, n + 1)))\<rparr>"

definition guessing_draft :: "(nat, unit) draft_model" where
  "guessing_draft =
     \<lparr>d_bind_prefix = (\<lambda>_. ret ()), d_bind_slot = (\<lambda>_. ret ()),
      d_draft = (\<lambda>ctx n (m, d). (Ok (take n [\<lparr>token = of_nat (length ctx), confidence = 0\<rparr>, \<lparr>token = 0, confidence = 0\<rparr>]), (m, d + 1))),
      d_draft_batch = (\<lambda>rs (ms, d). (Ok (map (\<lambda>(ctx, n). take n [\<lparr>token = of_nat (length ctx), confidence = 0\<rparr>]) rs), (ms, d + 1)))\<rparr>"

lemma counting_target_answers: "answers_with counting_target (\<lambda>c. of_nat (length c))"
  by (auto simp: answers_with_def counting_target_def)

lemma guessing_draft_some: "drafts_some guessing_draft"
  by (auto simp: drafts_some_def guessing_draft_def take_Cons split: nat.splits)

lemma guessing_draft_return: "drafts_return guessing_draft"
  by (auto simp: drafts_return_def guessing_draft_def)

theorem spec_generate_greedy_witness:
  "\<exists>out d' t'. decoder_generate \<lparr>dec_draft_window = 2, dec_max_window = 4\<rparr> guessing_draft counting_target [7] 3 (0, 0) =
      (Ok out, (d', t')) \<and> out_tokens out = [1, 2, 3]"
  using spec_generate_greedy [OF counting_target_answers guessing_draft_some,
      of "\<lparr>dec_draft_window = 2, dec_max_window = 4\<rparr>" "[7]" 3 0 0]
  by (auto simp: numeral_3_eq_3)

text \<open>C24. Without any assumption on what the draft model offers (nothing, too much, or an error), as long
  as its calls return, the decoder's loop ends, and whatever it returns is an initial part of
  what the target model alone would have produced, never more than asked for.\<close>

theorem spec_generate_sound:
  assumes "answers_with tm next" "drafts_return dm" "0 < dec_draft_window dec"
    "decoder_generate dec dm tm p mx (d, t) = (r, st)"
  shows "r \<noteq> Panic \<and>
    (\<forall>out. r = Ok out \<longrightarrow> length (out_tokens out) \<le> mx \<and> out_tokens out = greedy next p (length (out_tokens out)))"
proof -
  obtain s where s: "decoder_begin dec p = Ok s" "progress next p [] s"
    using assms(3) by (auto simp: decoder_begin_def progress_def spec_stats_default_def)
  obtain q s' d' t' where q: "generate_loop (Suc mx) dm tm mx [] (s, d, t) = (q, (s', d', t'))" by (metis surj_pair)
  from generate_loop_sound [OF assms(1,2) s(2) _ _ q] have "q \<noteq> Panic"
    "\<And>out. q = Ok out \<Longrightarrow> length out \<le> mx \<and> progress next p out s'" by auto
  with assms(4) s(1) q show ?thesis
    by (cases q) (auto simp: decoder_generate_def progress_def)
qed

theorem spec_generate_sound_witness:
  "fst (decoder_generate \<lparr>dec_draft_window = 2, dec_max_window = 4\<rparr> guessing_draft counting_target [7] 3 (0, 0)) \<noteq> Panic"
  using spec_generate_sound [OF counting_target_answers guessing_draft_return _ prod.collapse [symmetric],
      of "\<lparr>dec_draft_window = 2, dec_max_window = 4\<rparr>" "[7]" 3 0 0]
  by simp

end
