(* ===== verification/SpecTreeProps.thy ===== *)
theory SpecTreeProps
  imports SpeculativeProps
begin

text \<open>
  The tree of drafts. \<open>agreed\<close> are the nodes whose whole path the target confirms; \<open>find_best_path\<close> returns
  the path of a deepest agreed node. The default \<open>verify_tree\<close> gives each node the token the target
  expects in its place, while \<open>find_best_path\<close> reads it as the token expected after the node.
\<close>

section \<open>Trees that the code builds\<close>

inductive tree_reach :: "spec_tree \<Rightarrow> bool" where
  new: "tree_reach (tree_new t)"
| child: "tree_reach tree \<Longrightarrow> p < length tree \<Longrightarrow> add_child p t tree = (i, tree') \<Longrightarrow> tree_reach tree'"

definition tree_ok :: "spec_tree \<Rightarrow> bool" where
  "tree_ok tree \<longleftrightarrow>
     tree \<noteq> [] \<and> node_parent (tree ! 0) = None \<and>
     (\<forall>i < length tree. 0 < i \<longrightarrow> (\<exists>p < i. node_parent (tree ! i) = Some p))"

lemma tree_reach_ok: "tree_reach tree \<Longrightarrow> tree_ok tree"
proof (induction rule: tree_reach.induct)
  case (new t)
  show ?case by (simp add: tree_ok_def tree_new_def)
next
  case (child tree p t i tree')
  then have "tree' = tree @ [\<lparr>node_token = t, node_parent = Some p\<rparr>]" by (simp add: add_child_def)
  with child show ?case by (auto simp: tree_ok_def nth_append less_Suc_eq)
qed

lemma path_up_mono: "path_up f tree i = Ok x \<Longrightarrow> f \<le> g \<Longrightarrow> path_up g tree i = Ok x"
proof (induction f arbitrary: g i x)
  case (Suc f)
  from Suc.prems(2) obtain h where h: "g = Suc h" "f \<le> h" by (cases g) auto
  show ?case
  proof (cases "node_parent (tree ! i)")
    case None
    with Suc.prems(1) h show ?thesis by (simp split: if_splits)
  next
    case (Some p)
    with Suc.prems(1) obtain y where y: "path_up f tree p = Ok y" "x = node_token (tree ! i) # y" "i < length tree"
      by (auto split: if_splits)
    from Suc.IH [OF y(1) h(2)] y Some h show ?thesis by simp
  qed
qed simp

lemma path_up_total:
  assumes "tree_ok tree"
  shows "i < length tree \<Longrightarrow> i < f \<Longrightarrow> \<exists>x. path_up f tree i = Ok x"
proof (induction i arbitrary: f rule: less_induct)
  case (less i)
  obtain g where f: "f = Suc g" using less.prems by (cases f) auto
  show ?case
  proof (cases "i = 0")
    case True
    with assms less.prems f show ?thesis by (simp add: tree_ok_def)
  next
    case False
    with assms less.prems obtain p where p: "p < i" "node_parent (tree ! i) = Some p" by (auto simp: tree_ok_def)
    with less.IH [of p g] less.prems f show ?thesis by auto
  qed
qed

definition tree_path :: "spec_tree \<Rightarrow> nat \<Rightarrow> token_id list" where
  "tree_path tree i = (case get_path tree i of Ok path \<Rightarrow> path | Err e \<Rightarrow> [] | Panic \<Rightarrow> [])"

lemma get_path_tree_path:
  assumes "tree_ok tree" "i < length tree"
  shows "get_path tree i = Ok (tree_path tree i)"
  using path_up_total [OF assms assms(2)] by (auto simp: tree_path_def get_path_def)

lemma tree_path_root: "tree_ok tree \<Longrightarrow> tree_path tree 0 = [node_token (tree ! 0)]"
  by (cases tree) (auto simp: tree_path_def get_path_def tree_ok_def)

lemma tree_path_child:
  assumes "tree_ok tree" "i < length tree" "node_parent (tree ! i) = Some p"
  shows "tree_path tree i = tree_path tree p @ [node_token (tree ! i)]"
proof -
  obtain n where n: "length tree = Suc n" using assms(2) by (cases "length tree") auto
  have "i \<noteq> 0" using assms(1,3) by (cases "i = 0") (auto simp: tree_ok_def)
  with assms have p: "p < i" "p < length tree" by (auto simp: tree_ok_def)
  have "p < n" using p assms(2) n by simp
  from path_up_total [OF assms(1) p(2) this] obtain x where x: "path_up n tree p = Ok x" by blast
  from path_up_mono [OF x, of "length tree"] n have "path_up (length tree) tree p = Ok x" by simp
  moreover have "path_up (length tree) tree i = Ok (node_token (tree ! i) # x)"
    using assms(2,3) x by (simp add: n)
  ultimately show ?thesis by (simp add: tree_path_def get_path_def)
qed

section \<open>The longest agreed path\<close>

inductive agreed :: "spec_tree \<Rightarrow> token_id list \<Rightarrow> nat \<Rightarrow> bool" for tree exps where
  root: "agreed tree exps 0"
| child: "agreed tree exps p \<Longrightarrow> node_parent (tree ! i) = Some p \<Longrightarrow> node_token (tree ! i) = exps ! p \<Longrightarrow> agreed tree exps i"

inductive_simps agreed_iff: "agreed tree exps i"

lemma mark_valid_agreed:
  assumes ok: "tree_ok tree" and exps: "length exps = length tree"
  shows "0 < k \<Longrightarrow> k \<le> length tree \<Longrightarrow> length valid = length tree \<Longrightarrow>
    (\<And>i. i < length tree \<Longrightarrow> valid ! i = (i < k \<and> agreed tree exps i)) \<Longrightarrow>
    \<exists>valid'. mark_valid tree exps [k..<length tree] valid = Ok valid' \<and> length valid' = length tree \<and>
      (\<forall>i < length tree. valid' ! i = agreed tree exps i)"
proof (induction "length tree - k" arbitrary: k valid)
  case 0
  then have "k = length tree" by simp
  with "0.prems" show ?case by simp
next
  case (Suc m)
  then have k: "k < length tree" by simp
  with ok Suc.prems(1) obtain p where p: "p < k" "node_parent (tree ! k) = Some p" by (auto simp: tree_ok_def)
  have vp: "valid ! p = agreed tree exps p" using Suc.prems(4) [of p] p k by simp
  have ag: "agreed tree exps k = (agreed tree exps p \<and> node_token (tree ! k) = exps ! p)"
    using p Suc.prems(1) by (subst agreed_iff) auto
  define valid1 where "valid1 = (if agreed tree exps k then valid[k := True] else valid)"
  have "valid1 ! i = (i < Suc k \<and> agreed tree exps i)" if "i < length tree" for i
    using Suc.prems(3) Suc.prems(4) [OF that] that by (cases "i = k") (auto simp: valid1_def less_Suc_eq)
  moreover have "length valid1 = length tree" using Suc.prems(3) by (simp add: valid1_def)
  moreover have "m = length tree - Suc k" using Suc.hyps(2) by simp
  ultimately have IH: "\<exists>valid'. mark_valid tree exps [Suc k..<length tree] valid1 = Ok valid' \<and> length valid' = length tree \<and>
      (\<forall>i < length tree. valid' ! i = agreed tree exps i)"
    using Suc.hyps(1) [of "Suc k" valid1] k by simp
  have "mark_valid tree exps [k..<length tree] valid = mark_valid tree exps [Suc k..<length tree] valid1"
    using p vp ag exps k Suc.prems(3) by (simp add: upt_conv_Cons valid1_def)
  with IH show ?case by simp
qed

definition best_so_far :: "spec_tree \<Rightarrow> token_id list \<Rightarrow> nat \<Rightarrow> token_id list \<times> token_id option \<times> usize \<Rightarrow> bool" where
  "best_so_far tree exps k = (\<lambda>(best, rejected, max_len).
     max_len = length best \<and> (\<forall>j < k. agreed tree exps j \<longrightarrow> length (tree_path tree j) \<le> max_len) \<and>
     (k = 0 \<or> (\<exists>i < k. agreed tree exps i \<and> best = tree_path tree i \<and> rejected = Some (exps ! i))))"

lemma best_of_best:
  assumes ok: "tree_ok tree" and exps: "length exps = length tree"
    and valid: "length valid = length tree" "\<And>i. i < length tree \<Longrightarrow> valid ! i = agreed tree exps i"
  shows "k \<le> length tree \<Longrightarrow> best_so_far tree exps k acc \<Longrightarrow> (k = 0 \<longrightarrow> acc = ([], None, 0)) \<Longrightarrow>
    \<exists>b r ml. best_of tree exps valid [k..<length tree] acc = Ok (b, r) \<and> best_so_far tree exps (length tree) (b, r, ml)"
proof (induction "length tree - k" arbitrary: k acc)
  case 0
  then show ?case by (cases acc) auto
next
  case (Suc m)
  obtain b r ml where acc: "acc = (b, r, ml)" by (metis surj_pair)
  have k: "k < length tree" using Suc.hyps(2) by simp
  have m: "m = length tree - Suc k" using Suc.hyps(2) by simp
  define acc1 where "acc1 = (if agreed tree exps k \<and> ml \<le> length (tree_path tree k)
    then (tree_path tree k, Some (exps ! k), length (tree_path tree k)) else (b, r, ml))"
  have "best_of tree exps valid [k..<length tree] acc = best_of tree exps valid [Suc k..<length tree] acc1"
    using k valid get_path_tree_path [OF ok k] exps by (simp add: acc acc1_def upt_conv_Cons)
  moreover have "best_so_far tree exps (Suc k) acc1"
    using Suc.prems(2,3) agreed.root [of tree exps]
    by (auto simp: best_so_far_def acc acc1_def less_Suc_eq split: if_splits)
  ultimately show ?case using Suc.hyps(1) [of "Suc k" acc1] m k by simp
qed

lemma find_best_path_agreed:
  assumes "tree_ok tree" "length exps = length tree"
  shows "\<exists>i < length tree. agreed tree exps i \<and> find_best_path tree exps = Ok (tree_path tree i, Some (exps ! i)) \<and>
    (\<forall>j < length tree. agreed tree exps j \<longrightarrow> length (tree_path tree j) \<le> length (tree_path tree i))"
proof -
  have ne: "tree \<noteq> []" using assms(1) by (simp add: tree_ok_def)
  let ?v = "(replicate (length tree) False)[0 := True]"
  have "?v ! i = (i < 1 \<and> agreed tree exps i)" if "i < length tree" for i
    using that agreed.root [of tree exps] by (cases i) auto
  then obtain valid where v: "mark_valid tree exps [1..<length tree] ?v = Ok valid" "length valid = length tree"
    "\<forall>i < length tree. valid ! i = agreed tree exps i"
    using mark_valid_agreed [OF assms, of 1 ?v] ne by (auto simp: Suc_le_eq)
  have "best_so_far tree exps 0 ([], None, 0)" by (simp add: best_so_far_def)
  with best_of_best [OF assms v(2), of 0 "([], None, 0)"] v(3) obtain b r ml where
    b: "best_of tree exps valid [0..<length tree] ([], None, 0) = Ok (b, r)" "best_so_far tree exps (length tree) (b, r, ml)"
    by auto
  then obtain i where "i < length tree" "agreed tree exps i" "b = tree_path tree i" "r = Some (exps ! i)"
    "\<forall>j < length tree. agreed tree exps j \<longrightarrow> length (tree_path tree j) \<le> length b"
    using ne by (auto simp: best_so_far_def)
  with v(1) b(1) ne show ?thesis by (intro exI [of _ i]) (simp add: find_best_path_def)
qed

text \<open>C36. On every tree built with \<open>new\<close> and \<open>add_child\<close> and a verification of every node,
  \<open>find_best_path\<close> returns the path of a node the target agrees with along its whole path, no agreed
  node is deeper, and the correction it reports is the target's token for that node.\<close>

theorem tree_best_path:
  assumes "tree_reach tree" "length exps = length tree"
  shows "\<exists>i < length tree. agreed tree exps i \<and> get_path tree i = Ok (tree_path tree i) \<and>
    find_best_path tree exps = Ok (tree_path tree i, Some (exps ! i)) \<and>
    (\<forall>j < length tree. agreed tree exps j \<longrightarrow> length (tree_path tree j) \<le> length (tree_path tree i))"
  using find_best_path_agreed [OF tree_reach_ok [OF assms(1)] assms(2)]
    get_path_tree_path [OF tree_reach_ok [OF assms(1)]] by blast

theorem tree_best_path_witness:
  "\<exists>i < length (tree_new 5). agreed (tree_new 5) [6] i \<and> get_path (tree_new 5) i = Ok (tree_path (tree_new 5) i) \<and>
    find_best_path (tree_new 5) [6] = Ok (tree_path (tree_new 5) i, Some ([6] ! i)) \<and>
    (\<forall>j < length (tree_new 5). agreed (tree_new 5) [6] j \<longrightarrow> length (tree_path (tree_new 5) j) \<le> length (tree_path (tree_new 5) i))"
  by (rule tree_best_path [OF tree_reach.new]) (simp add: tree_new_def)

section \<open>The default verification of a tree\<close>

text \<open>A draft of two tokens that is entirely right, checked with the default \<open>verify_tree\<close>: the tree pass
  keeps only the first token and proposes that same token again as the correction, because the
  verification holds for each node the token expected in its place and \<open>find_best_path\<close> takes it for
  the one expected after it.\<close>

theorem verify_tree_misaligned:
  assumes "answers_with tm next" "a = next ctx" "b = next (ctx @ [a])" "a \<noteq> b" "token pa = a" "token pb = b"
    "d_draft dm ctx 2 (None, d) = (Ok [pa, pb], md)"
  shows "\<exists>tree exps mt. draft_tree_default dm ctx 2 w (None, d) = (Ok tree, md) \<and>
    verify_tree_default tm ctx tree (None, t) = (Ok exps, mt) \<and>
    find_best_path tree exps = Ok ([a], Some a)"
proof -
  let ?tree = "[\<lparr>node_token = a, node_parent = None\<rparr>, \<lparr>node_token = b, node_parent = Some 0\<rparr>]"
  obtain mt where v: "t_verify tm ctx [a, b] (None, t) = (Ok (replies next ctx [a, b]), mt)"
    using assms(1) unfolding answers_with_def by blast
  have e: "replies next ctx [a, b] = [\<lparr>expected = a\<rparr>, \<lparr>expected = b\<rparr>]"
    using assms(2,3) by (simp add: replies_def)
  have "draft_tree_default dm ctx 2 w (None, d) = (Ok ?tree, md)"
    using assms(5-7) by (simp add: draft_tree_default_def and_then_def ret_def tree_new_def add_child_def)
  moreover have "leftmost 3 ?tree 0 = Ok [0, 1]" by (simp add: numeral_3_eq_3 upt_rec)
  then have "verify_tree_default tm ctx ?tree (None, t) = (Ok [a, b], mt)"
    using v e by (simp add: verify_tree_default_def and_then_def ret_def numeral_3_eq_3)
  moreover have "find_best_path ?tree [a, b] = Ok ([a], Some a)"
    using assms(4) by (auto simp: find_best_path_def get_path_def upt_rec)
  ultimately show ?thesis by blast
qed

theorem verify_tree_misaligned_witness:
  "\<exists>tree exps mt. draft_tree_default (guessing_draft\<lparr>d_draft := \<lambda>ctx n s. (Ok [\<lparr>token = 1, confidence = 0\<rparr>, \<lparr>token = 2, confidence = 0\<rparr>], s)\<rparr>)
      [7] 2 1 (None, 0) = (Ok tree, (None, 0)) \<and>
    verify_tree_default counting_target [7] tree (None, 0) = (Ok exps, mt) \<and>
    find_best_path tree exps = Ok ([1], Some 1)"
  by (rule verify_tree_misaligned [OF counting_target_answers, where b = 2
        and pa = "\<lparr>token = 1, confidence = 0\<rparr>" and pb = "\<lparr>token = 2, confidence = 0\<rparr>"]) simp_all

end
