(* ===== verification/Runtime.thy ===== *)
theory Runtime
  imports KvStore PagedAttention Speculative
begin

text \<open>
  The memory runtime (\<open>src/src/runtime.rs\<close>). The traits \<open>KvBlockStore\<close>, \<open>PagedBlockAllocator\<close> and
  \<open>MemoryRuntime\<close> are one record of operations over the runtime's state, \<open>CpuMemoryRuntime\<close> is the
  instance \<open>cpu_ops\<close>. The locale \<open>memory_runtime\<close> is what the engine relies on.
\<close>

section \<open>Operations\<close>

record 'r runtime_ops =
  store_allocate :: "usize \<Rightarrow> ('r, kv_store_error, kv_handle) act"
  store_release :: "kv_handle \<Rightarrow> ('r, kv_store_error, unit) act"
  store_allocated_bytes :: "'r \<Rightarrow> usize"
  pages_allocate :: "kv_handle \<Rightarrow> usize \<Rightarrow> ('r, page_manager_error, block_mapping) act"
  pages_release :: "kv_handle \<Rightarrow> ('r, page_manager_error, unit) act"
  pages_span :: "'r \<Rightarrow> kv_handle \<Rightarrow> page_span option"
  rt_bind_slot :: "slot_id \<Rightarrow> u32 list \<Rightarrow> ('r, spec_error, unit) act"

record runtime_config =
  rc_bytes_per_token :: usize
  rc_paged_block_size :: usize
  rc_paged_total_pages :: usize
  rc_n_layer :: usize
  rc_unified_memory :: bool
  rc_max_slots :: usize
  rc_kv_type :: kv_cache_type

definition runtime_config_new :: "usize \<Rightarrow> usize \<Rightarrow> usize \<Rightarrow> usize \<Rightarrow> usize \<Rightarrow> runtime_config" where
  "runtime_config_new bpt bs tp nl ms =
     \<lparr>rc_bytes_per_token = bpt, rc_paged_block_size = bs, rc_paged_total_pages = tp, rc_n_layer = nl,
      rc_unified_memory = True, rc_max_slots = ms, rc_kv_type = Fp32\<rparr>"

definition runtime_config_with_kv_type :: "kv_cache_type \<Rightarrow> runtime_config \<Rightarrow> runtime_config" where
  "runtime_config_with_kv_type t c = c\<lparr>rc_kv_type := t\<rparr>"

definition runtime_config_cpu :: "usize \<Rightarrow> usize \<Rightarrow> usize \<Rightarrow> usize \<Rightarrow> usize \<Rightarrow> runtime_config" where
  "runtime_config_cpu bpt bs tp nl ms = (runtime_config_new bpt bs tp nl ms)\<lparr>rc_unified_memory := False\<rparr>"

record cpu_runtime =
  rt_store :: kv_store
  rt_allocator :: page_manager

definition cpu_runtime_new :: "runtime_config \<Rightarrow> (page_manager_error, cpu_runtime) outcome" where
  "cpu_runtime_new c =
     bind_outcome (paged_config_new (rc_paged_block_size c) (rc_paged_total_pages c)) (\<lambda>pc.
       Ok \<lparr>rt_store = kv_new (rc_bytes_per_token c),
           rt_allocator = page_manager_new (with_kv_type (rc_kv_type c) pc)\<rparr>)"

definition on_store :: "(kv_store, 'e, 'a) act \<Rightarrow> (cpu_runtime, 'e, 'a) act" where
  "on_store m r = (let (x, s) = m (rt_store r) in (x, r\<lparr>rt_store := s\<rparr>))"

definition on_allocator :: "(page_manager, 'e, 'a) act \<Rightarrow> (cpu_runtime, 'e, 'a) act" where
  "on_allocator m r = (let (x, a) = m (rt_allocator r) in (x, r\<lparr>rt_allocator := a\<rparr>))"

definition cpu_ops :: "cpu_runtime runtime_ops" where
  "cpu_ops =
     \<lparr>store_allocate = (\<lambda>n. on_store (kv_allocate n)),
      store_release = (\<lambda>h. on_store (kv_release h)),
      store_allocated_bytes = (\<lambda>r. kv_allocated_bytes (rt_store r)),
      pages_allocate = (\<lambda>h n. on_allocator (page_allocate h n)),
      pages_release = (\<lambda>h. on_allocator (page_release h)),
      pages_span = (\<lambda>r. materialize_span (rt_allocator r)),
      rt_bind_slot = (\<lambda>slot pages. ret ())\<rparr>"

section \<open>The contract of a runtime\<close>

locale memory_runtime =
  fixes rt :: "'r runtime_ops"
    and live :: "'r \<Rightarrow> kv_handle set"
    and ids :: "'r \<Rightarrow> u64 set"
    and inv :: "'r \<Rightarrow> bool"
  assumes store_allocate_Ok:
      "inv r \<Longrightarrow> store_allocate rt n r = (Ok h, r') \<Longrightarrow>
         inv r' \<and> token_len h = n \<and> block_id h \<notin> block_id ` live r \<and> live r' = insert h (live r) \<and>
         ids r' = ids r \<and> pages_span rt r' = pages_span rt r"
    and store_allocate_Err:
      "inv r \<Longrightarrow> store_allocate rt n r = (Err e, r') \<Longrightarrow>
         inv r' \<and> live r' = live r \<and> ids r' = ids r \<and> pages_span rt r' = pages_span rt r"
    and store_release_live:
      "inv r \<Longrightarrow> h \<in> live r \<Longrightarrow>
         \<exists>r'. store_release rt h r = (Ok (), r') \<and> inv r' \<and> live r' = live r - {h} \<and>
           ids r' = ids r \<and> pages_span rt r' = pages_span rt r"
    and pages_allocate_Ok:
      "inv r \<Longrightarrow> block_id h \<notin> ids r \<Longrightarrow> pages_allocate rt h n r = (Ok b, r') \<Longrightarrow>
         inv r' \<and> live r' = live r \<and> ids r' = insert (block_id h) (ids r) \<and>
         pages_span rt r' h = Some \<lparr>span_pages = bm_pages b\<rparr> \<and>
         (\<forall>g. block_id g \<noteq> block_id h \<longrightarrow> pages_span rt r' g = pages_span rt r g)"
    and pages_allocate_Err: "pages_allocate rt h n r = (Err d, r') \<Longrightarrow> r' = r"
    and pages_allocate_no_panic: "inv r \<Longrightarrow> fst (pages_allocate rt h n r) \<noteq> Panic"
    and pages_release_mapped:
      "inv r \<Longrightarrow> block_id h \<in> ids r \<Longrightarrow>
         \<exists>r'. pages_release rt h r = (Ok (), r') \<and> inv r' \<and> live r' = live r \<and> ids r' = ids r - {block_id h} \<and>
           (\<forall>g. block_id g \<noteq> block_id h \<longrightarrow> pages_span rt r' g = pages_span rt r g)"
    and pages_span_mapped: "(\<exists>p. pages_span rt r h = Some p) \<longleftrightarrow> block_id h \<in> ids r"
    and bind_slot_frame:
      "inv r \<Longrightarrow> rt_bind_slot rt slot ps r = (x, r') \<Longrightarrow>
         inv r' \<and> live r' = live r \<and> ids r' = ids r \<and> pages_span rt r' = pages_span rt r"
    and live_inj: "inv r \<Longrightarrow> inj_on block_id (live r)"

definition cpu_inv :: "cpu_runtime \<Rightarrow> bool" where
  "cpu_inv r \<longleftrightarrow> kv_inv (rt_store r) \<and> page_inv (rt_allocator r)"

lemma on_store_eq: "on_store m r = (x, r') \<longleftrightarrow> (\<exists>s. m (rt_store r) = (x, s) \<and> r' = r\<lparr>rt_store := s\<rparr>)"
  by (auto simp: on_store_def split: prod.splits)

lemma on_allocator_eq: "on_allocator m r = (x, r') \<longleftrightarrow> (\<exists>s. m (rt_allocator r) = (x, s) \<and> r' = r\<lparr>rt_allocator := s\<rparr>)"
  by (auto simp: on_allocator_def split: prod.splits)

lemmas cpu_ops_simps = cpu_ops_def on_store_eq on_allocator_eq cpu_inv_def

interpretation cpu: memory_runtime cpu_ops "\<lambda>r. kv_live (rt_store r)" "\<lambda>r. mapped_ids (rt_allocator r)" cpu_inv
proof
  fix r r' :: cpu_runtime and n :: usize and h :: kv_handle and d e b slot ps x
  show "cpu_inv r \<Longrightarrow> store_allocate cpu_ops n r = (Ok h, r') \<Longrightarrow>
      cpu_inv r' \<and> token_len h = n \<and> block_id h \<notin> block_id ` kv_live (rt_store r) \<and>
      kv_live (rt_store r') = insert h (kv_live (rt_store r)) \<and>
      mapped_ids (rt_allocator r') = mapped_ids (rt_allocator r) \<and> pages_span cpu_ops r' = pages_span cpu_ops r"
    using kv.allocate_Ok [of "rt_store r" n h] by (auto simp: cpu_ops_simps)
  show "cpu_inv r \<Longrightarrow> store_allocate cpu_ops n r = (Err e, r') \<Longrightarrow>
      cpu_inv r' \<and> kv_live (rt_store r') = kv_live (rt_store r) \<and>
      mapped_ids (rt_allocator r') = mapped_ids (rt_allocator r) \<and> pages_span cpu_ops r' = pages_span cpu_ops r"
    using kv.allocate_Err [of "rt_store r" n e] by (auto simp: cpu_ops_simps)
  show "\<exists>r'. store_release cpu_ops h r = (Ok (), r') \<and> cpu_inv r' \<and> kv_live (rt_store r') = kv_live (rt_store r) - {h} \<and>
      mapped_ids (rt_allocator r') = mapped_ids (rt_allocator r) \<and> pages_span cpu_ops r' = pages_span cpu_ops r"
    if "cpu_inv r" "h \<in> kv_live (rt_store r)"
    using kv.release_live [of "rt_store r" h] that by (fastforce simp: cpu_ops_simps)
  show "cpu_inv r \<Longrightarrow> block_id h \<notin> mapped_ids (rt_allocator r) \<Longrightarrow> pages_allocate cpu_ops h n r = (Ok b, r') \<Longrightarrow>
      cpu_inv r' \<and> kv_live (rt_store r') = kv_live (rt_store r) \<and>
      mapped_ids (rt_allocator r') = insert (block_id h) (mapped_ids (rt_allocator r)) \<and>
      pages_span cpu_ops r' h = Some \<lparr>span_pages = bm_pages b\<rparr> \<and>
      (\<forall>g. block_id g \<noteq> block_id h \<longrightarrow> pages_span cpu_ops r' g = pages_span cpu_ops r g)"
    using pages.allocate_Ok [of "rt_allocator r" h n b] by (auto simp: cpu_ops_simps)
  show "pages_allocate cpu_ops h n r = (Err d, r') \<Longrightarrow> r' = r"
    using pages.allocate_Err [of h n "rt_allocator r" d] by (auto simp: cpu_ops_simps)
  show "cpu_inv r \<Longrightarrow> fst (pages_allocate cpu_ops h n r) \<noteq> Panic"
    using pages.allocate_not_panic [of "rt_allocator r" h n]
    by (auto simp: cpu_ops_def cpu_inv_def on_allocator_def split: prod.splits)
  show "\<exists>r'. pages_release cpu_ops h r = (Ok (), r') \<and> cpu_inv r' \<and> kv_live (rt_store r') = kv_live (rt_store r) \<and>
      mapped_ids (rt_allocator r') = mapped_ids (rt_allocator r) - {block_id h} \<and>
      (\<forall>g. block_id g \<noteq> block_id h \<longrightarrow> pages_span cpu_ops r' g = pages_span cpu_ops r g)"
    if "cpu_inv r" "block_id h \<in> mapped_ids (rt_allocator r)"
    using pages.release_mapped [of "rt_allocator r" h] that by (fastforce simp: cpu_ops_simps)
  show "(\<exists>p. pages_span cpu_ops r h = Some p) \<longleftrightarrow> block_id h \<in> mapped_ids (rt_allocator r)"
    using pages.materialize_mapped by (simp add: cpu_ops_def)
  show "cpu_inv r \<Longrightarrow> rt_bind_slot cpu_ops slot ps r = (x, r') \<Longrightarrow>
      cpu_inv r' \<and> kv_live (rt_store r') = kv_live (rt_store r) \<and>
      mapped_ids (rt_allocator r') = mapped_ids (rt_allocator r) \<and> pages_span cpu_ops r' = pages_span cpu_ops r"
    by (simp add: cpu_ops_def ret_def)
  show "cpu_inv r \<Longrightarrow> inj_on block_id (kv_live (rt_store r))"
    by (simp add: cpu_inv_def kv.live_inj)
qed

lemma cpu_runtime_new_inv:
  assumes "cpu_runtime_new c = Ok r"
  shows "cpu_inv r" "kv_live (rt_store r) = {}" "mapped_ids (rt_allocator r) = {}"
proof -
  from assms obtain pc where r: "r = \<lparr>rt_store = kv_new (rc_bytes_per_token c), rt_allocator = page_manager_new pc\<rparr>"
    and pc: "0 < block_size pc"
    by (auto simp: cpu_runtime_new_def paged_config_new_def with_kv_type_def split: if_splits)
  show "cpu_inv r" using page_inv_new [OF pc] by (simp add: cpu_inv_def r)
  show "kv_live (rt_store r) = {}" "mapped_ids (rt_allocator r) = {}"
    by (simp_all add: r mapped_ids_def page_manager_new_def)
qed

end
