(* ===== verification/Engine.thy ===== *)
theory Engine
  imports PrefixCache Runtime SpeculativeProps
begin

text \<open>
  The engine (\<open>src/src/engine.rs\<close>): prefix cache, memory runtime, slots and speculative decoding put
  together. This theory holds the state and the operations; the runtime is any \<open>runtime_ops\<close>, the
  models are any \<open>draft_model\<close> and \<open>target_model\<close>, and the grammar library behind \<open>parser_factory\<close>
  (llguidance) is the function that makes a matcher from a constraint. The generation loop of
  \<open>generate_batch\<close> has no bound of its own and carries fuel as an argument.
\<close>

section \<open>State\<close>

datatype 'j constraint = Regex string | JsonSchema 'j | Lark string

text \<open>\<open>ParserFactory\<close> together with \<open>LlguidanceMatcher::new\<close> (which may fail) and \<open>CfgMatcher::advance\<close>.\<close>

record ('j, 'm) parser_factory =
  create_matcher :: "'j constraint \<Rightarrow> 'm option"
  advance :: "token_id \<Rightarrow> 'm \<Rightarrow> 'm"

record ('r, 'j, 'm) engine =
  eng_decoder :: spec_decoder
  prefix_cache :: radix_cache
  eng_runtime :: 'r
  eng_slots :: slot_pool
  eng_factory :: "('j, 'm) parser_factory option"

record engine_config =
  ec_draft_window :: usize
  ec_memory :: runtime_config
  ec_kv_type :: kv_cache_type

definition engine_config_default :: engine_config where
  "engine_config_default =
     \<lparr>ec_draft_window = 8,
      ec_memory = \<lparr>rc_bytes_per_token = 0, rc_paged_block_size = 0, rc_paged_total_pages = 0, rc_n_layer = 0,
        rc_unified_memory = False, rc_max_slots = 0, rc_kv_type = Fp32\<rparr>,
      ec_kv_type = Fp32\<rparr>"

record engine_stats =
  cache_hit_tokens :: usize
  cache_miss_tokens :: usize
  es_speculative :: spec_stats

record engine_output =
  eo_tokens :: "token_id list"
  eo_cached_prefix :: cache_lookup
  eo_cached_pages :: "page_span option"
  eo_inserted_handle :: "kv_handle option"
  eo_inserted_pages :: "page_span option"
  eo_stats :: engine_stats

record 'j batch_request =
  br_prompt :: "token_id list"
  br_max_new_tokens :: usize
  br_constraint :: "'j constraint option"

record prefill_output =
  cached_prefix :: cache_lookup
  cached_pages :: "page_span option"
  inserted_handle :: "kv_handle option"
  inserted_pages :: "page_span option"
  pf_stats :: engine_stats

record 'm active_request =
  ar_session :: spec_session
  ar_slot :: slot_id
  ar_max_new_tokens :: usize
  ar_generated :: "token_id list"
  ar_prefill :: prefill_output
  ar_matcher :: "'m option"

datatype engine_error = KvStore kv_store_error | PagedAttention page_manager_error | Speculative spec_error

section \<open>Construction and slots\<close>

definition engine_with_runtime :: "engine_config \<Rightarrow> 'r \<Rightarrow> (engine_error, ('r, 'j, 'm) engine) outcome" where
  "engine_with_runtime c r =
     bind_outcome (map_err Speculative (decoder_new (ec_draft_window c))) (\<lambda>dec.
       Ok \<lparr>eng_decoder = dec, prefix_cache = radix_new, eng_runtime = r,
           eng_slots = slot_pool_new (rc_max_slots (ec_memory c)), eng_factory = None\<rparr>)"

definition engine_new :: "engine_config \<Rightarrow> (engine_error, (cpu_runtime, 'j, 'm) engine) outcome" where
  "engine_new c =
     bind_outcome (map_err PagedAttention (cpu_runtime_new (ec_memory c))) (\<lambda>r. engine_with_runtime c r)"

definition slot_pool_capacity :: "('r, 'j, 'm) engine \<Rightarrow> usize" where
  "slot_pool_capacity e = slot_capacity (eng_slots e)"

definition allocate_slot :: "('r, 'j, 'm) engine \<Rightarrow> slot_id option \<times> ('r, 'j, 'm) engine" where
  "allocate_slot e = (let (s, p) = slot_alloc (eng_slots e) in (s, e\<lparr>eng_slots := p\<rparr>))"

definition release_slot :: "slot_id \<Rightarrow> (('r, 'j, 'm) engine, engine_error, unit) act" where
  "release_slot s e = (let (x, p) = slot_release s (eng_slots e) in (x, e\<lparr>eng_slots := p\<rparr>))"

section \<open>Caching a sequence\<close>

definition on_runtime :: "('e \<Rightarrow> engine_error) \<Rightarrow> ('r, 'e, 'a) act \<Rightarrow> (('r, 'j, 'm) engine, engine_error, 'a) act" where
  "on_runtime conv m e = (let (x, r) = m (eng_runtime e) in (map_err conv x, e\<lparr>eng_runtime := r\<rparr>))"

definition on_cache :: "(radix_cache, engine_error, 'a) act \<Rightarrow> (('r, 'j, 'm) engine, engine_error, 'a) act" where
  "on_cache m e = (let (x, c) = m (prefix_cache e) in (x, e\<lparr>prefix_cache := c\<rparr>))"

definition cache_sequence ::
  "'r runtime_ops \<Rightarrow> token_id list \<Rightarrow> (('r, 'j, 'm) engine, engine_error, kv_handle) act" where
  "cache_sequence rt tokens =
     and_then (on_runtime KvStore (store_allocate rt (length tokens))) (\<lambda>handle.
     and_then
       (or_else (on_runtime PagedAttention (pages_allocate rt handle (length tokens)))
          (\<lambda>err. and_then (on_runtime KvStore (store_release rt handle)) (\<lambda>_. throw err)))
       (\<lambda>_.
     and_then (on_cache (radix_insert tokens handle)) (\<lambda>ins.
       case replaced ins of
         None \<Rightarrow> ret handle
       | Some old \<Rightarrow>
           and_then (on_runtime KvStore (store_release rt old)) (\<lambda>_.
             and_then (on_runtime PagedAttention (pages_release rt old)) (\<lambda>_. ret handle)))))"

definition prefill ::
  "'r runtime_ops \<Rightarrow> token_id list \<Rightarrow> (('r, 'j, 'm) engine, engine_error, prefill_output) act" where
  "prefill rt p =
     and_then (on_cache (radix_lookup p)) (\<lambda>found.
       and_then
         (if p \<noteq> [] \<and> matched_tokens found < length p
          then and_then (cache_sequence rt p) (\<lambda>h. ret (Some h))
          else ret None)
         (\<lambda>inserted e.
            ret \<lparr>cached_prefix = found,
                 cached_pages = Option.bind (lookup_handle found) (pages_span rt (eng_runtime e)),
                 inserted_handle = inserted,
                 inserted_pages = Option.bind inserted (pages_span rt (eng_runtime e)),
                 pf_stats = \<lparr>cache_hit_tokens = matched_tokens found,
                   cache_miss_tokens = length p - matched_tokens found,
                   es_speculative = spec_stats_default\<rparr>\<rparr> e))"

section \<open>Step A: preparing the requests\<close>

definition make_matcher :: "('j, 'm) parser_factory option \<Rightarrow> 'j constraint option \<Rightarrow> token_id list \<Rightarrow> 'm option" where
  "make_matcher factory constr p =
     (case constr of
        None \<Rightarrow> None
      | Some k \<Rightarrow>
          (case factory of
             None \<Rightarrow> None
           | Some f \<Rightarrow> map_option (\<lambda>m. foldl (\<lambda>m tok. advance f tok m) m p) (create_matcher f k)))"

definition take_slot :: "(('r, 'j, 'm) engine, engine_error, slot_id) act" where
  "take_slot e =
     (case allocate_slot e of
        (Some s, e1) \<Rightarrow> (Ok s, e1)
      | (None, e1) \<Rightarrow> (Err (Speculative (Model ''No free slots available'')), e1))"

definition prepare_one ::
  "'r runtime_ops \<Rightarrow> 'j batch_request \<Rightarrow> (('r, 'j, 'm) engine, engine_error, 'm active_request) act" where
  "prepare_one rt req =
     and_then take_slot (\<lambda>slot.
     and_then (prefill rt (br_prompt req)) (\<lambda>pf.
       case (case inserted_pages pf of Some s \<Rightarrow> Some s | None \<Rightarrow> cached_pages pf) of
         None \<Rightarrow> throw (Speculative (Model ''Failed to resolve pages for prefill''))
       | Some span \<Rightarrow>
           and_then (on_runtime Speculative (rt_bind_slot rt slot (map (\<lambda>p. of_nat p) (span_pages span)))) (\<lambda>_ e.
             case decoder_begin (eng_decoder e) (br_prompt req) of
               Ok session \<Rightarrow>
                 (Ok \<lparr>ar_session = session, ar_slot = slot, ar_max_new_tokens = br_max_new_tokens req,
                      ar_generated = [], ar_prefill = pf,
                      ar_matcher = make_matcher (eng_factory e) (br_constraint req) (br_prompt req)\<rparr>, e)
             | Err err \<Rightarrow> (Err (Speculative err), e)
             | Panic \<Rightarrow> (Panic, e))))"

fun prepare_all ::
  "'r runtime_ops \<Rightarrow> 'j batch_request list \<Rightarrow> (('r, 'j, 'm) engine, engine_error, 'm active_request list) act" where
  "prepare_all rt [] = ret []"
| "prepare_all rt (req # reqs) =
     and_then (prepare_one rt req) (\<lambda>a. and_then (prepare_all rt reqs) (\<lambda>as. ret (a # as)))"

text \<open>Binding every request's slot and cached prefix to the two models.\<close>

fun bind_models ::
  "('d, 'm) draft_model \<Rightarrow> ('t, 'm) target_model \<Rightarrow> 'm active_request list \<Rightarrow> ('d \<times> 't, spec_error, unit) act" where
  "bind_models dm tm [] = ret ()"
| "bind_models dm tm (a # as) =
     and_then (zoom fst (\<lambda>d (_, t). (d, t)) id (d_bind_slot dm (ar_slot a))) (\<lambda>_.
     and_then (zoom snd (\<lambda>t (d, _). (d, t)) id (t_bind_slot tm (ar_slot a))) (\<lambda>_.
     and_then (zoom fst (\<lambda>d (_, t). (d, t)) id (d_bind_prefix dm (cached_prefix (ar_prefill a)))) (\<lambda>_.
     and_then (zoom snd (\<lambda>t (d, _). (d, t)) id (t_bind_prefix tm (cached_prefix (ar_prefill a)))) (\<lambda>_.
     bind_models dm tm as))))"

section \<open>Step B: the generation loop\<close>

definition wants_more :: "'m active_request \<Rightarrow> bool" where
  "wants_more a \<longleftrightarrow> length (ar_generated a) < ar_max_new_tokens a"

text \<open>The commit of one request: accepted tokens, then the target's correction.\<close>

definition commit_one ::
  "prediction list \<Rightarrow> verify_step list \<Rightarrow> 'm active_request \<Rightarrow> (spec_error, 'm active_request) outcome" where
  "commit_one ds vs a =
     (case session_commit ds vs (ar_session a) of
        (Ok accepted, s1) \<Rightarrow>
          let (r, s2) = (if has_pending_rejection s1 then take_rejected_token s1 else (None, s1));
              generated = (case r of Some t \<Rightarrow> ar_generated a @ accepted @ [t] | None \<Rightarrow> ar_generated a @ accepted)
          in Ok (a\<lparr>ar_session := s2, ar_generated := generated\<rparr>)
      | (Err e, s1) \<Rightarrow> Err e
      | (Panic, s1) \<Rightarrow> Panic)"

text \<open>The commits in the order of the active indices: the requests that want more take the results one
  after the other; indexing past the results panics.\<close>

fun commit_all ::
  "prediction list list \<Rightarrow> verify_step list list \<Rightarrow> 'm active_request list
   \<Rightarrow> (spec_error, 'm active_request list) outcome" where
  "commit_all dss vss [] = Ok []"
| "commit_all dss vss (a # as) =
     (if \<not> wants_more a then bind_outcome (commit_all dss vss as) (\<lambda>bs. Ok (a # bs))
      else case (dss, vss) of
             (ds # dss', vs # vss') \<Rightarrow>
               bind_outcome (commit_one ds vs a) (\<lambda>b.
                 bind_outcome (commit_all dss' vss' as) (\<lambda>bs. Ok (b # bs)))
           | _ \<Rightarrow> Panic)"

text \<open>Giving the matchers back to the requests they were lent by.\<close>

fun return_matchers :: "'m option list \<Rightarrow> 'm active_request list \<Rightarrow> 'm active_request list" where
  "return_matchers (m # ms) (a # as) =
     (if wants_more a then a\<lparr>ar_matcher := m\<rparr> # return_matchers ms as else a # return_matchers (m # ms) as)"
| "return_matchers ms as = as"

definition record_calls :: "(spec_session \<Rightarrow> spec_session) \<Rightarrow> 'm active_request list \<Rightarrow> 'm active_request list" where
  "record_calls f = map (\<lambda>a. if wants_more a then a\<lparr>ar_session := f (ar_session a)\<rparr> else a)"

definition batch_round ::
  "('d, 'm) draft_model \<Rightarrow> ('t, 'm) target_model \<Rightarrow> usize
   \<Rightarrow> ('m active_request list \<times> 'd \<times> 't, spec_error, unit) act" where
  "batch_round dm tm window = (\<lambda>(active, d, t).
     let want = filter wants_more active;
         draft_reqs = map (\<lambda>a. (sess_context (ar_session a),
           min (ar_max_new_tokens a - length (ar_generated a)) window)) want
     in
     case d_draft_batch dm draft_reqs (map ar_matcher want, d) of
       (Err e, (_, d1)) \<Rightarrow> (Err e, (active, d1, t))
     | (Panic, (_, d1)) \<Rightarrow> (Panic, (active, d1, t))
     | (Ok dss, (_, d1)) \<Rightarrow>
         let active1 = record_calls record_draft_call active in
         if length dss < length want then (Panic, (active1, d1, t))
         else
           let verify_reqs = map (\<lambda>(a, ds). (sess_context (ar_session a), map token ds)) (zip want dss) in
           case t_verify_batch tm verify_reqs (map ar_matcher want, t) of
             (Err e, (ms, t1)) \<Rightarrow> (Err e, (return_matchers ms active1, d1, t1))
           | (Panic, (ms, t1)) \<Rightarrow> (Panic, (return_matchers ms active1, d1, t1))
           | (Ok vss, (ms, t1)) \<Rightarrow>
               let active2 = record_calls record_target_call (return_matchers ms active1) in
               case commit_all dss vss active2 of
                 Ok active3 \<Rightarrow> (Ok (), (active3, d1, t1))
               | Err e \<Rightarrow> (Err e, (active2, d1, t1))
               | Panic \<Rightarrow> (Panic, (active2, d1, t1)))"

fun batch_loop ::
  "nat \<Rightarrow> ('d, 'm) draft_model \<Rightarrow> ('t, 'm) target_model \<Rightarrow> usize
   \<Rightarrow> ('m active_request list \<times> 'd \<times> 't, spec_error, unit) act" where
  "batch_loop 0 dm tm window st = (Panic, st)"
| "batch_loop (Suc fuel) dm tm window st =
     (if \<not> list_ex wants_more (fst st) then (Ok (), st)
      else and_then (batch_round dm tm window) (\<lambda>_. batch_loop fuel dm tm window) st)"

section \<open>Step C: releasing slots and caching the results\<close>

definition finish_one ::
  "'r runtime_ops \<Rightarrow> 'm active_request \<Rightarrow> (('r, 'j, 'm) engine, engine_error, engine_output) act" where
  "finish_one rt a =
     and_then (release_slot (ar_slot a)) (\<lambda>_.
       let full_sequence = prompt (ar_session a) @ ar_generated a in
       and_then
         (if full_sequence \<noteq> [] then and_then (cache_sequence rt full_sequence) (\<lambda>h. ret (Some h)) else ret None)
         (\<lambda>inserted e.
            ret \<lparr>eo_tokens = ar_generated a, eo_cached_prefix = cached_prefix (ar_prefill a),
                 eo_cached_pages = cached_pages (ar_prefill a), eo_inserted_handle = inserted,
                 eo_inserted_pages = Option.bind inserted (pages_span rt (eng_runtime e)),
                 eo_stats = \<lparr>cache_hit_tokens = cache_hit_tokens (pf_stats (ar_prefill a)),
                   cache_miss_tokens = cache_miss_tokens (pf_stats (ar_prefill a)),
                   es_speculative = stats (ar_session a)\<rparr>\<rparr> e))"

fun finish_all ::
  "'r runtime_ops \<Rightarrow> 'm active_request list \<Rightarrow> (('r, 'j, 'm) engine, engine_error, engine_output list) act" where
  "finish_all rt [] = ret []"
| "finish_all rt (a # as) =
     and_then (finish_one rt a) (\<lambda>out. and_then (finish_all rt as) (\<lambda>outs. ret (out # outs)))"

definition generate_batch ::
  "nat \<Rightarrow> 'r runtime_ops \<Rightarrow> ('d, 'm) draft_model \<Rightarrow> ('t, 'm) target_model \<Rightarrow> 'j batch_request list
   \<Rightarrow> (('r, 'j, 'm) engine \<times> 'd \<times> 't, engine_error, engine_output list) act" where
  "generate_batch fuel rt dm tm reqs = (\<lambda>(e, d, t).
     case prepare_all rt reqs e of
       (Err err, e1) \<Rightarrow> (Err err, (e1, d, t))
     | (Panic, e1) \<Rightarrow> (Panic, (e1, d, t))
     | (Ok active, e1) \<Rightarrow>
         case bind_models dm tm active (d, t) of
           (Err err, (d1, t1)) \<Rightarrow> (Err (Speculative err), (e1, d1, t1))
         | (Panic, (d1, t1)) \<Rightarrow> (Panic, (e1, d1, t1))
         | (Ok _, (d1, t1)) \<Rightarrow>
             case batch_loop fuel dm tm (dec_draft_window (eng_decoder e1)) (active, d1, t1) of
               (Err err, (_, d2, t2)) \<Rightarrow> (Err (Speculative err), (e1, d2, t2))
             | (Panic, (_, d2, t2)) \<Rightarrow> (Panic, (e1, d2, t2))
             | (Ok _, (active2, d2, t2)) \<Rightarrow>
                 let (out, e2) = finish_all rt active2 e1 in (out, (e2, d2, t2)))"

definition generate ::
  "nat \<Rightarrow> 'r runtime_ops \<Rightarrow> ('d, 'm) draft_model \<Rightarrow> ('t, 'm) target_model \<Rightarrow> token_id list \<Rightarrow> usize
   \<Rightarrow> (('r, 'j, 'm) engine \<times> 'd \<times> 't, engine_error, engine_output) act" where
  "generate fuel rt dm tm p n =
     and_then (generate_batch fuel rt dm tm [\<lparr>br_prompt = p, br_max_new_tokens = n, br_constraint = None\<rparr>])
       (\<lambda>outs. case outs of out # _ \<Rightarrow> ret out | [] \<Rightarrow> panic)"

end
