(* ===== verification/EngineProps.thy ===== *)
theory EngineProps
  imports Engine
begin

text \<open>
  The engine's memory discipline. \<open>engine_ok\<close> ties the three tables together: every cached handle is a live
  block, the blocks with pages are exactly the live ones, no two cached sequences share a block.
  The lemmas hold for every runtime that meets the contract \<open>memory_runtime\<close>; the properties are
  stated for the CPU runtime.
\<close>

section \<open>Slots and frames\<close>

lemma on_runtime_frame:
  assumes "on_runtime conv m e = (x, e')"
  shows "prefix_cache e' = prefix_cache e" "eng_slots e' = eng_slots e" "eng_decoder e' = eng_decoder e"
    "eng_factory e' = eng_factory e"
  using assms by (auto simp: on_runtime_def split: prod.splits)

lemma on_cache_frame:
  assumes "on_cache m e = (x, e')"
  shows "eng_runtime e' = eng_runtime e" "eng_slots e' = eng_slots e" "eng_decoder e' = eng_decoder e"
    "eng_factory e' = eng_factory e"
  using assms by (auto simp: on_cache_def split: prod.splits)

text \<open>An action that leaves slots, decoder and grammar factory alone.\<close>

definition keeps :: "(('r, 'j, 'm) engine, engine_error, 'a) act \<Rightarrow> bool" where
  "keeps m \<longleftrightarrow> (\<forall>e x e'. m e = (x, e') \<longrightarrow>
     eng_slots e' = eng_slots e \<and> eng_decoder e' = eng_decoder e \<and> eng_factory e' = eng_factory e)"

lemma keepsD:
  "keeps m \<Longrightarrow> m e = (x, e') \<Longrightarrow> eng_slots e' = eng_slots e"
  "keeps m \<Longrightarrow> m e = (x, e') \<Longrightarrow> eng_decoder e' = eng_decoder e"
  "keeps m \<Longrightarrow> m e = (x, e') \<Longrightarrow> eng_factory e' = eng_factory e"
  by (auto simp: keeps_def)

named_theorems keeps_intros

lemma keeps_on_runtime [keeps_intros]: "keeps (on_runtime conv m)"
  by (auto simp: keeps_def on_runtime_frame)

lemma keeps_on_cache [keeps_intros]: "keeps (on_cache m)"
  by (auto simp: keeps_def on_cache_frame)

lemma keeps_ret [keeps_intros]: "keeps (ret a)"
  by (simp add: keeps_def ret_def)

lemma keeps_throw [keeps_intros]: "keeps (throw a)"
  by (simp add: keeps_def throw_def)

lemma keeps_and_then [keeps_intros]:
  assumes "keeps m" "\<And>a. keeps (f a)"
  shows "keeps (and_then m f)"
  unfolding keeps_def
proof (intro allI impI)
  fix e x e' assume r: "and_then m f e = (x, e')"
  obtain y e1 where m: "m e = (y, e1)" by fastforce
  from assms(1) m have 1: "eng_slots e1 = eng_slots e \<and> eng_decoder e1 = eng_decoder e \<and> eng_factory e1 = eng_factory e"
    by (simp add: keeps_def)
  show "eng_slots e' = eng_slots e \<and> eng_decoder e' = eng_decoder e \<and> eng_factory e' = eng_factory e"
    using r m 1 assms(2) unfolding keeps_def by (cases y) (auto simp: and_then_def)
qed

lemma keeps_or_else [keeps_intros]:
  assumes "keeps m" "\<And>a. keeps (f a)"
  shows "keeps (or_else m f)"
  unfolding keeps_def
proof (intro allI impI)
  fix e x e' assume r: "or_else m f e = (x, e')"
  obtain y e1 where m: "m e = (y, e1)" by fastforce
  from assms(1) m have 1: "eng_slots e1 = eng_slots e \<and> eng_decoder e1 = eng_decoder e \<and> eng_factory e1 = eng_factory e"
    by (simp add: keeps_def)
  show "eng_slots e' = eng_slots e \<and> eng_decoder e' = eng_decoder e \<and> eng_factory e' = eng_factory e"
    using r m 1 assms(2) unfolding keeps_def by (cases y) (auto simp: or_else_def)
qed

lemma keeps_option [keeps_intros]:
  "keeps f \<Longrightarrow> (\<And>a. keeps (g a)) \<Longrightarrow> keeps (case x of None \<Rightarrow> f | Some a \<Rightarrow> g a)"
  by (cases x) simp_all

lemma keeps_if [keeps_intros]: "keeps f \<Longrightarrow> keeps g \<Longrightarrow> keeps (if b then f else g)"
  by simp

lemma keeps_ret_env: "keeps (\<lambda>e. ret (f e) e)"
  by (simp add: keeps_def ret_def)

lemma keeps_cache_sequence [keeps_intros]: "keeps (cache_sequence rt ts)"
  unfolding cache_sequence_def by (intro keeps_intros)

lemma keeps_prefill: "keeps (prefill rt p)"
  unfolding prefill_def
  by (intro keeps_and_then keeps_on_cache keeps_if keeps_cache_sequence keeps_ret keeps_ret_env)

section \<open>Caching a sequence\<close>

definition engine_ok ::
  "('r \<Rightarrow> kv_handle set) \<Rightarrow> ('r \<Rightarrow> u64 set) \<Rightarrow> ('r \<Rightarrow> bool) \<Rightarrow> ('r, 'j, 'm) engine \<Rightarrow> bool" where
  "engine_ok live ids rok e \<longleftrightarrow>
     rok (eng_runtime e) \<and> radix_inv (prefix_cache e) \<and>
     ids (eng_runtime e) = block_id ` live (eng_runtime e) \<and>
     ran (radix_map (prefix_cache e)) \<subseteq> live (eng_runtime e) \<and>
     (\<forall>ks ls h. radix_map (prefix_cache e) ks = Some h \<longrightarrow> radix_map (prefix_cache e) ls = Some h \<longrightarrow> ks = ls)"

text \<open>No block is held that no cache entry refers to.\<close>

definition no_leak :: "('r \<Rightarrow> kv_handle set) \<Rightarrow> ('r, 'j, 'm) engine \<Rightarrow> bool" where
  "no_leak live e \<longleftrightarrow>
     capacity_tokens (prefix_cache e) = None \<and> live (eng_runtime e) = ran (radix_map (prefix_cache e))"

context memory_runtime
begin

text \<open>Reserving memory: both tables get the new block, or neither does.\<close>

lemma reserve_pages:
  assumes inv1: "inv r1" "h \<in> live r1" "block_id h \<notin> ids r1" and e1: "eng_runtime e1 = r1"
    and run: "or_else (on_runtime PagedAttention (pages_allocate rt h n))
        (\<lambda>err. and_then (on_runtime KvStore (store_release rt h)) (\<lambda>_. throw err)) e1 = (x, e2)"
  shows "(\<exists>b r2. x = Ok b \<and> e2 = e1\<lparr>eng_runtime := r2\<rparr> \<and> inv r2 \<and> live r2 = live r1 \<and> ids r2 = insert (block_id h) (ids r1) \<and>
        pages_span rt r2 h = Some \<lparr>span_pages = bm_pages b\<rparr> \<and>
        (\<forall>g. block_id g \<noteq> block_id h \<longrightarrow> pages_span rt r2 g = pages_span rt r1 g)) \<or>
     (\<exists>err r2. x = Err (PagedAttention err) \<and> e2 = e1\<lparr>eng_runtime := r2\<rparr> \<and> inv r2 \<and> live r2 = live r1 - {h} \<and> ids r2 = ids r1 \<and>
        pages_span rt r2 = pages_span rt r1)"
proof -
  obtain y r2 where y: "pages_allocate rt h n r1 = (y, r2)" by fastforce
  have "y \<noteq> Panic" using pages_allocate_no_panic [OF inv1(1), of h n] y by auto
  then consider (ok) b where "y = Ok b" | (err) err where "y = Err err" by (cases y) auto
  then show ?thesis
  proof cases
    case ok
    with run y e1 have "x = Ok b" "e2 = e1\<lparr>eng_runtime := r2\<rparr>" by (simp_all add: or_else_def on_runtime_def)
    with pages_allocate_Ok [OF inv1(1,3) y [unfolded ok]] show ?thesis by blast
  next
    case err
    have r2: "r2 = r1" by (rule pages_allocate_Err [OF y [unfolded err]])
    from store_release_live [OF inv1(1,2)] obtain r3 where
      r3: "store_release rt h r1 = (Ok (), r3)" "inv r3" "live r3 = live r1 - {h}" "ids r3 = ids r1" "pages_span rt r3 = pages_span rt r1"
      by blast
    with run y e1 err r2 have "x = Err (PagedAttention err)" "e2 = e1\<lparr>eng_runtime := r3\<rparr>"
      by (simp_all add: or_else_def on_runtime_def and_then_def throw_def)
    with r3 show ?thesis by blast
  qed
qed

text \<open>Releasing the block an insertion replaced.\<close>

lemma release_replaced:
  assumes "inv (eng_runtime e)" "ids (eng_runtime e) = block_id ` live (eng_runtime e)" "old \<in> live (eng_runtime e)"
  shows "\<exists>r. and_then (on_runtime KvStore (store_release rt old)) (\<lambda>_.
      and_then (on_runtime PagedAttention (pages_release rt old)) (\<lambda>_. ret h)) e = (Ok h, e\<lparr>eng_runtime := r\<rparr>) \<and>
    inv r \<and> live r = live (eng_runtime e) - {old} \<and> ids r = block_id ` live r \<and>
    (\<forall>g. block_id g \<noteq> block_id old \<longrightarrow> pages_span rt r g = pages_span rt (eng_runtime e) g)"
proof -
  let ?r = "eng_runtime e"
  obtain r1 where r1: "store_release rt old ?r = (Ok (), r1)" "inv r1" "live r1 = live ?r - {old}" "ids r1 = ids ?r"
    "pages_span rt r1 = pages_span rt ?r" using store_release_live [OF assms(1,3)] by blast
  have "block_id old \<in> ids r1" using assms(2,3) r1(4) by simp
  then obtain r2 where r2: "pages_release rt old r1 = (Ok (), r2)" "inv r2" "live r2 = live r1" "ids r2 = ids r1 - {block_id old}"
    "\<forall>g. block_id g \<noteq> block_id old \<longrightarrow> pages_span rt r2 g = pages_span rt r1 g"
    using pages_release_mapped [OF r1(2)] by blast
  have "block_id ` live ?r - {block_id old} = block_id ` (live ?r - {old})"
    using live_inj [OF assms(1)] assms(3) by (auto dest: inj_onD)
  with r1 r2 assms(2) show ?thesis
    by (intro exI [of _ r2]) (simp add: and_then_def on_runtime_def ret_def)
qed

text \<open>Entering the new block into the cache and giving the replaced one back.\<close>

lemma enter_block:
  assumes ok: "inv r2" "ids r2 = block_id ` live r2" and e2: "eng_runtime e2 = r2" "prefix_cache e2 = c"
    and c: "radix_inv c" "ran (radix_map c) \<subseteq> live r2 - {h}" "\<forall>ks ls g. radix_map c ks = Some g \<longrightarrow> radix_map c ls = Some g \<longrightarrow> ks = ls"
    and h: "h \<in> live r2" "token_len h = length ts"
    and run: "and_then (on_cache (radix_insert ts h)) (\<lambda>ins.
       case replaced ins of
         None \<Rightarrow> ret h
       | Some old \<Rightarrow> and_then (on_runtime KvStore (store_release rt old)) (\<lambda>_.
             and_then (on_runtime PagedAttention (pages_release rt old)) (\<lambda>_. ret h))) e2 = (x, e')"
  shows "x = Ok h \<and> engine_ok live ids inv e' \<and> radix_map (prefix_cache e') \<subseteq>\<^sub>m (radix_map c)(ts \<mapsto> h) \<and>
    live (eng_runtime e') = live r2 - set_option (radix_map c ts) \<and>
    capacity_tokens (prefix_cache e') = capacity_tokens c \<and>
    (\<forall>g. g \<in> live (eng_runtime e') \<longrightarrow> pages_span rt (eng_runtime e') g = pages_span rt r2 g) \<and>
    (capacity_tokens c = None \<longrightarrow> radix_map (prefix_cache e') = (radix_map c)(ts \<mapsto> h))"
proof -
  obtain c' where c': "radix_insert ts h c =
      (Ok \<lparr>inserted_tokens = length ts, replaced = radix_map c ts, insert_handle = h\<rparr> :: (engine_error, _) outcome, c')"
    "radix_inv c'" "radix_map c' \<subseteq>\<^sub>m (radix_map c)(ts \<mapsto> h)" "capacity_tokens c' = capacity_tokens c"
    "capacity_tokens c = None \<longrightarrow> radix_map c' = (radix_map c)(ts \<mapsto> h)"
    using radix_insert_full [OF c(1) h(2) [symmetric], where 'e = engine_error] by (elim exE conjE) (rule that)
  have entry: "g = h \<and> ks = ts \<or> radix_map c ks = Some g \<and> ks \<noteq> ts \<and> g \<noteq> h \<and> g \<in> live r2" if "radix_map c' ks = Some g" for ks g
  proof -
    have "((radix_map c)(ts \<mapsto> h)) ks = Some g" using c'(3) that by (metis domI map_le_def)
    with c(2) show ?thesis by (cases "ks = ts") (auto simp: ran_def)
  qed
  have "h \<notin> set_option (radix_map c ts)" using c(2) by (auto simp: ran_def)
  then have sub: "ran (radix_map c') \<subseteq> live r2 - set_option (radix_map c ts)"
    using entry c(3) h(1) by (fastforce simp: ran_def)
  have inj: "ks = ls" if "radix_map c' ks = Some g" "radix_map c' ls = Some g" for ks ls g
    using entry [OF that(1)] entry [OF that(2)] c(3) by blast
  show ?thesis
  proof (cases "radix_map c ts")
    case None
    with run c' e2 have "x = Ok h" "e' = e2\<lparr>prefix_cache := c'\<rparr>" by (simp_all add: and_then_def on_cache_def ret_def)
    with None c' ok sub inj e2 show ?thesis by (auto simp: engine_ok_def)
  next
    case (Some old)
    have old: "old \<in> live r2" using c(2) Some by (auto simp: ran_def)
    from release_replaced [of "e2\<lparr>prefix_cache := c'\<rparr>" old h] ok e2 old obtain r where
      r: "and_then (on_runtime KvStore (store_release rt old)) (\<lambda>_.
          and_then (on_runtime PagedAttention (pages_release rt old)) (\<lambda>_. ret h)) (e2\<lparr>prefix_cache := c'\<rparr>) =
          (Ok h, e2\<lparr>prefix_cache := c', eng_runtime := r\<rparr>)"
        "inv r" "live r = live r2 - {old}" "ids r = block_id ` live r"
        "\<forall>g. block_id g \<noteq> block_id old \<longrightarrow> pages_span rt r g = pages_span rt r2 g" by auto
    with run c' e2 Some have "x = Ok h" "e' = e2\<lparr>prefix_cache := c', eng_runtime := r\<rparr>"
      by (simp_all add: and_then_def on_cache_def)
    with Some c' r sub inj live_inj [OF ok(1)] old show ?thesis
      by (auto simp: engine_ok_def dest: inj_onD)
  qed
qed

lemma ran_upd_inj:
  assumes "\<forall>ks ls h. m ks = Some h \<longrightarrow> m ls = Some h \<longrightarrow> ks = ls"
  shows "ran (m(k \<mapsto> h)) = insert h (ran m - set_option (m k))"
proof -
  have "g \<in> ran (m(k \<mapsto> h)) \<longleftrightarrow> g \<in> insert h (ran m - set_option (m k))" for g
    using assms unfolding ran_def by (cases "g = h") (auto split: if_splits; metis option.set_intros)+
  then show ?thesis by blast
qed

text \<open>The whole of \<open>cache_sequence\<close>, on success and on failure.\<close>

lemma cache_sequence_cases:
  assumes ok: "engine_ok live ids inv e" and run: "cache_sequence rt ts e = (x, e')"
  shows "(\<exists>h. x = Ok h \<and> engine_ok live ids inv e' \<and> token_len h = length ts \<and> h \<in> live (eng_runtime e') \<and> h \<notin> live (eng_runtime e) \<and>
        radix_map (prefix_cache e') \<subseteq>\<^sub>m (radix_map (prefix_cache e))(ts \<mapsto> h) \<and>
        live (eng_runtime e') = insert h (live (eng_runtime e) - set_option (radix_map (prefix_cache e) ts)) \<and>
        (no_leak live e \<longrightarrow> no_leak live e' \<and> radix_map (prefix_cache e') = (radix_map (prefix_cache e))(ts \<mapsto> h))) \<or>
     (\<exists>err. x = Err err \<and> engine_ok live ids inv e' \<and> prefix_cache e' = prefix_cache e \<and>
        live (eng_runtime e') = live (eng_runtime e) \<and> pages_span rt (eng_runtime e') = pages_span rt (eng_runtime e)) \<or>
     x = Panic"
proof -
  let ?r = "eng_runtime e" and ?c = "prefix_cache e"
  have E: "inv ?r" "radix_inv ?c" "ids ?r = block_id ` live ?r" "ran (radix_map ?c) \<subseteq> live ?r"
    "\<forall>ks ls h. radix_map ?c ks = Some h \<longrightarrow> radix_map ?c ls = Some h \<longrightarrow> ks = ls"
    using ok unfolding engine_ok_def by blast+
  obtain y r1 where y: "store_allocate rt (length ts) ?r = (y, r1)" by fastforce
  show ?thesis
  proof (cases y)
    case Panic
    with run y show ?thesis by (simp add: cache_sequence_def and_then_def on_runtime_def)
  next
    case (Err err)
    with run y have "x = Err (KvStore err)" "e' = e\<lparr>eng_runtime := r1\<rparr>"
      by (simp_all add: cache_sequence_def and_then_def on_runtime_def)
    with store_allocate_Err [OF E(1) y [unfolded Err]] E show ?thesis by (auto simp: engine_ok_def)
  next
    case (Ok h)
    note A = store_allocate_Ok [OF E(1) y [unfolded Ok]]
    have h: "h \<notin> live ?r" "block_id h \<notin> ids r1" using A E(3) by auto
    let ?e1 = "e\<lparr>eng_runtime := r1\<rparr>"
    let ?pages = "or_else (on_runtime PagedAttention (pages_allocate rt h (length ts)))
        (\<lambda>err. and_then (on_runtime KvStore (store_release rt h)) (\<lambda>_. throw err))"
    obtain z e2 where z: "?pages ?e1 = (z, e2)" by fastforce
    from A have "inv r1" "h \<in> live r1" by auto
    from reserve_pages [OF this h(2) _ z] have "z \<noteq> Panic" by auto
    then consider (failed) err where "z = Err err" | (mapped) b where "z = Ok b" by (cases z) auto
    then show ?thesis
    proof cases
      case failed
      with run y Ok z have "x = Err err" "e' = e2" by (simp_all add: cache_sequence_def and_then_def on_runtime_def)
      with reserve_pages [OF \<open>inv r1\<close> \<open>h \<in> live r1\<close> h(2) _ z] failed A E h show ?thesis
        by (auto simp: engine_ok_def)
    next
      case mapped
      with reserve_pages [OF \<open>inv r1\<close> \<open>h \<in> live r1\<close> h(2) _ z] obtain r2 where
        r2: "e2 = ?e1\<lparr>eng_runtime := r2\<rparr>" "inv r2" "live r2 = insert h (live ?r)" "ids r2 = insert (block_id h) (ids ?r)"
        using A by auto
      have pre: "ids r2 = block_id ` live r2" "ran (radix_map ?c) \<subseteq> live r2 - {h}" "h \<in> live r2" "token_len h = length ts"
        using r2 E(3,4) h(1) A by auto
      have "and_then (on_cache (radix_insert ts h)) (\<lambda>ins. case replaced ins of
         None \<Rightarrow> ret h
       | Some old \<Rightarrow> and_then (on_runtime KvStore (store_release rt old)) (\<lambda>_.
             and_then (on_runtime PagedAttention (pages_release rt old)) (\<lambda>_. ret h))) e2 = (x, e')"
        using run y Ok z mapped by (simp add: cache_sequence_def and_then_def [of "on_runtime _ _"] and_then_def [of "or_else _ _"] on_runtime_def [of _ "store_allocate _ _"])
      from enter_block [OF r2(2) pre(1) _ _ E(2) pre(2) E(5) pre(3,4) this] r2(1)
      have B: "x = Ok h" "engine_ok live ids inv e'" "radix_map (prefix_cache e') \<subseteq>\<^sub>m (radix_map ?c)(ts \<mapsto> h)"
        "live (eng_runtime e') = live r2 - set_option (radix_map ?c ts)"
        "capacity_tokens (prefix_cache e') = capacity_tokens ?c"
        "capacity_tokens ?c = None \<Longrightarrow> radix_map (prefix_cache e') = (radix_map ?c)(ts \<mapsto> h)"
        by simp_all
      have nh: "h \<notin> set_option (radix_map ?c ts)" using pre(2) by (auto simp: ran_def)
      have l: "live (eng_runtime e') = insert h (live ?r - set_option (radix_map ?c ts))" using B(4) r2(3) nh by auto
      have "no_leak live e'" if "no_leak live e"
        using that B l E(5) nh by (simp add: no_leak_def ran_upd_inj)
      with B l pre(4) h(1) show ?thesis by (auto simp: no_leak_def)
    qed
  qed
qed

end

end
