(* ===== verification/EngineBatch.thy ===== *)
theory EngineBatch
  imports EngineProps
begin

text \<open>
  The generation loop of \<open>generate_batch\<close>: every request of a batch advances by at least one token in every
  round it still wants tokens, ends with exactly its own number of tokens, and these are the tokens
  the target model alone would have produced for it. Requests do not influence each other.
\<close>

section \<open>What the models promise for a batch\<close>

definition batch_answers_with :: "('t, 'm) target_model \<Rightarrow> (token_id list \<Rightarrow> token_id) \<Rightarrow> bool" where
  "batch_answers_with tm next \<longleftrightarrow>
     (\<forall>rs ms t. \<exists>st. t_verify_batch tm rs (ms, t) = (Ok (map (\<lambda>(ctx, ds). replies next ctx ds) rs), st))"

definition batch_drafts_some :: "('d, 'm) draft_model \<Rightarrow> bool" where
  "batch_drafts_some dm \<longleftrightarrow>
     (\<forall>rs ms d. length ms = length rs \<longrightarrow> (\<forall>(ctx, n) \<in> set rs. 0 < n) \<longrightarrow>
        (\<exists>dss st. d_draft_batch dm rs (ms, d) = (Ok dss, st) \<and>
           list_all2 (\<lambda>(ctx, n) ds. ds \<noteq> [] \<and> length ds \<le> n) rs dss))"

section \<open>One request\<close>

definition req_ok :: "(token_id list \<Rightarrow> token_id) \<Rightarrow> 'm active_request \<Rightarrow> bool" where
  "req_ok next a \<longleftrightarrow>
     progress next (prompt (ar_session a)) (ar_generated a) (ar_session a) \<and>
     length (ar_generated a) \<le> ar_max_new_tokens a"

definition same_req :: "'m active_request \<Rightarrow> 'm active_request \<Rightarrow> bool" where
  "same_req a b \<longleftrightarrow>
     prompt (ar_session b) = prompt (ar_session a) \<and> ar_slot b = ar_slot a \<and>
     ar_max_new_tokens b = ar_max_new_tokens a \<and> ar_prefill b = ar_prefill a"

lemma same_req_refl: "same_req a a"
  by (simp add: same_req_def)

lemma same_req_trans: "same_req a b \<Longrightarrow> same_req b c \<Longrightarrow> same_req a c"
  by (simp add: same_req_def)

text \<open>The calls counted and the matcher returned, before the commit.\<close>

definition booked :: "'m active_request \<Rightarrow> 'm active_request \<Rightarrow> bool" where
  "booked a b \<longleftrightarrow>
     (if wants_more a
      then \<exists>m. b = a\<lparr>ar_session := record_target_call (record_draft_call (ar_session a)), ar_matcher := m\<rparr>
      else b = a)"

definition advanced :: "(token_id list \<Rightarrow> token_id) \<Rightarrow> 'm active_request \<Rightarrow> 'm active_request \<Rightarrow> bool" where
  "advanced next a b \<longleftrightarrow>
     same_req a b \<and> req_ok next b \<and>
     (if wants_more a then length (ar_generated a) < length (ar_generated b) else b = a)"

lemma commit_one_ok:
  assumes ok: "req_ok next a" and b: "booked a b" "wants_more a"
    and ds: "ds \<noteq> []" "length ds \<le> ar_max_new_tokens a - length (ar_generated a)"
  shows "\<exists>c. commit_one ds (replies next (sess_context (ar_session a)) (map token ds)) b = Ok c \<and> advanced next a c"
proof -
  let ?vs = "replies next (sess_context (ar_session a)) (map token ds)"
  let ?s0 = "record_target_call (record_draft_call (ar_session a))"
  let ?s1 = "?s0\<lparr>stats := (stats ?s0)\<lparr>drafted_tokens := drafted_tokens (stats ?s0) + length ds\<rparr>\<rparr>"
  from b obtain m where bm: "b = a\<lparr>ar_session := ?s0, ar_matcher := m\<rparr>" by (auto simp: booked_def)
  obtain acc s2 where st: "settle (map token ds) ?vs ?s1 = (acc, s2)" by fastforce
  have ctx: "sess_context ?s1 = sess_context (ar_session a)" by simp
  from settle_greedy [of "map token ds" "next" ?s1 acc s2] st ctx obtain k where
    k: "k \<le> length ds" "acc @ rejection s2 = greedy next (sess_context (ar_session a)) k"
      "sess_context s2 = sess_context (ar_session a) @ greedy next (sess_context (ar_session a)) k" "0 < k" "k \<le> length acc + 1"
      "accepted_tokens (stats s2) = accepted_tokens (stats ?s1) + length acc"
      "rejected_tokens (stats s2) = rejected_tokens (stats ?s1) + (length ds - length acc)"
    using ds(1) by (auto simp: rejection_def)
  note F = settle_fields [OF _ st]
  define c where "c = b\<lparr>ar_session := s2\<lparr>rejected_token := None\<rparr>, ar_generated := ar_generated a @ acc @ rejection s2\<rparr>"
  have same: "rejected_token s2 = None \<Longrightarrow> s2\<lparr>rejected_token := None\<rparr> = s2" by simp
  have "commit_one ds ?vs b = Ok c"
    using st by (cases "rejected_token s2")
      (simp_all add: commit_one_def session_commit_def bm c_def rejection_def has_pending_rejection_def take_rejected_token_def same Let_def)
  moreover have "length acc \<le> length ds" using F(1) by simp
  moreover have "ar_generated a @ acc @ rejection s2 = greedy next (prompt (ar_session a)) (length (ar_generated a) + k)"
    using k(2) ok greedy_add [of "next" "prompt (ar_session a)" "length (ar_generated a)" k] by (simp add: req_ok_def progress_def)
  moreover have "length (acc @ rejection s2) = k" using k(2) by simp
  moreover have "prompt s2 = prompt (ar_session a)" "1 \<le> draft_window s2" "target_calls (stats s2) = target_calls (stats (ar_session a)) + 1"
    "drafted_tokens (stats s2) = drafted_tokens (stats (ar_session a)) + length ds"
    using F(4,6,7) ok by (simp_all add: record_draft_call_def record_target_call_def req_ok_def progress_def)
  ultimately show ?thesis
    using k ok ds(2) b(2)
    by (auto simp: advanced_def same_req_def req_ok_def progress_def c_def bm record_draft_call_def record_target_call_def wants_more_def)
qed

section \<open>One round\<close>

lemma commit_all_ok:
  assumes "list_all2 booked as bs" "\<forall>a \<in> set as. req_ok next a"
    "list_all2 (\<lambda>a ds. ds \<noteq> [] \<and> length ds \<le> ar_max_new_tokens a - length (ar_generated a)) (filter wants_more as) dss"
  shows "\<exists>cs. commit_all dss (map2 (\<lambda>a ds. replies next (sess_context (ar_session a)) (map token ds)) (filter wants_more as) dss) bs = Ok cs \<and>
    list_all2 (advanced next) as cs"
  using assms
proof (induction as bs arbitrary: dss rule: list_all2_induct)
  case Nil
  then show ?case by simp
next
  case (Cons a as b bs)
  have wb: "wants_more b = wants_more a" using Cons.hyps(1) by (auto simp: booked_def wants_more_def split: if_splits)
  show ?case
  proof (cases "wants_more a")
    case True
    with Cons.prems(2) obtain ds dss' where d: "dss = ds # dss'" "ds \<noteq> []" "length ds \<le> ar_max_new_tokens a - length (ar_generated a)"
      "list_all2 (\<lambda>a ds. ds \<noteq> [] \<and> length ds \<le> ar_max_new_tokens a - length (ar_generated a)) (filter wants_more as) dss'"
      by (auto simp: list_all2_Cons1)
    from Cons.prems(1) have "req_ok next a" by simp
    from commit_one_ok [OF this Cons.hyps(1) True d(2,3)] obtain c where
      c: "commit_one ds (replies next (sess_context (ar_session a)) (map token ds)) b = Ok c" "advanced next a c" by blast
    from Cons.IH [OF _ d(4)] Cons.prems(1) obtain cs where
      cs: "commit_all dss' (map2 (\<lambda>a ds. replies next (sess_context (ar_session a)) (map token ds)) (filter wants_more as) dss') bs = Ok cs"
        "list_all2 (advanced next) as cs" by auto
    show ?thesis using c cs True wb by (intro exI [of _ "c # cs"]) (simp add: d(1))
  next
    case False
    with Cons.hyps(1) have "b = a" by (simp add: booked_def)
    moreover have "advanced next a a" using False Cons.prems(1) by (simp add: advanced_def same_req_refl)
    ultimately show ?thesis using False Cons.IH [of dss] Cons.prems by auto
  qed
qed

lemma return_matchers_all:
  "list_all2 (\<lambda>a b. b = a \<or> wants_more a \<and> (\<exists>m. b = a\<lparr>ar_matcher := m\<rparr>)) as (return_matchers ms as)"
  by (induction ms as rule: return_matchers.induct) (auto simp: list_all2_same)

lemma booked_all:
  "list_all2 booked as (record_calls record_target_call (return_matchers ms (record_calls record_draft_call as)))"
proof -
  let ?as1 = "record_calls record_draft_call as"
  let ?as2 = "return_matchers ms ?as1"
  have l: "length ?as2 = length as"
    using list_all2_lengthD [OF return_matchers_all, of ?as1 ms] by (simp add: record_calls_def)
  have "booked (as ! i) (record_calls record_target_call ?as2 ! i)" if i: "i < length as" for i
  proof -
    have 1: "?as1 ! i = (if wants_more (as ! i) then (as ! i)\<lparr>ar_session := record_draft_call (ar_session (as ! i))\<rparr> else as ! i)"
      using i by (simp add: record_calls_def)
    have "?as2 ! i = ?as1 ! i \<or> wants_more (?as1 ! i) \<and> (\<exists>m. ?as2 ! i = (?as1 ! i)\<lparr>ar_matcher := m\<rparr>)"
      using list_all2_nthD [OF return_matchers_all, of i ?as1 ms] i by (simp add: record_calls_def)
    then obtain m where 2: "?as2 ! i = (if wants_more (?as1 ! i) then (?as1 ! i)\<lparr>ar_matcher := m\<rparr> else ?as1 ! i)"
    proof
      assume "?as2 ! i = ?as1 ! i"
      then show thesis by (intro that [of "ar_matcher (?as1 ! i)"]) simp
    next
      assume "wants_more (?as1 ! i) \<and> (\<exists>m. ?as2 ! i = (?as1 ! i)\<lparr>ar_matcher := m\<rparr>)"
      then show thesis using that by auto
    qed
    show ?thesis
      using i l 1 2 by (cases "wants_more (as ! i)")
        (auto simp: record_calls_def [of record_target_call] booked_def wants_more_def intro!: exI [of _ m])
  qed
  then show ?thesis using l by (simp add: list_all2_conv_all_nth record_calls_def)
qed

text \<open>
  Models that keep their promises as long as they are asked within their means: \<open>inv\<close> holds of the two models,
  \<open>plain\<close> of the matchers that are lent to them, and \<open>fits\<close> of a context and the number of tokens asked for.
\<close>

locale batch_models =
  fixes plain :: "'m option \<Rightarrow> bool" and inv :: "'d \<Rightarrow> 't \<Rightarrow> bool" and fits :: "token_id list \<Rightarrow> usize \<Rightarrow> bool"
    and nxt :: "token_id list \<Rightarrow> token_id" and dm :: "('d, 'm) draft_model" and tm :: "('t, 'm) target_model"
  assumes drafts: "inv d t \<Longrightarrow> length ms = length rs \<Longrightarrow> \<forall>m \<in> set ms. plain m \<Longrightarrow> \<forall>(ctx, n) \<in> set rs. 0 < n \<and> fits ctx n \<Longrightarrow>
      \<exists>dss ms' d'. d_draft_batch dm rs (ms, d) = (Ok dss, (ms', d')) \<and> inv d' t \<and>
        list_all2 (\<lambda>(ctx, n) ds. ds \<noteq> [] \<and> length ds \<le> n) rs dss"
    and answers: "inv d t \<Longrightarrow> length ms = length vs \<Longrightarrow> \<forall>m \<in> set ms. plain m \<Longrightarrow> \<forall>(ctx, ds) \<in> set vs. fits ctx (length ds) \<Longrightarrow>
      \<exists>ms' t'. t_verify_batch tm vs (ms, t) = (Ok (map (\<lambda>(ctx, ds). replies nxt ctx ds) vs), (ms', t')) \<and> inv d t' \<and>
        (\<forall>m \<in> set ms'. plain m)"
    and bound: "inv d t \<Longrightarrow> d_bind_slot dm s d = (Ok (), d1) \<Longrightarrow> inv d1 t" "inv d t \<Longrightarrow> t_bind_slot tm s t = (Ok (), t1) \<Longrightarrow> inv d t1"
      "inv d t \<Longrightarrow> d_bind_prefix dm p d = (Ok (), d1) \<Longrightarrow> inv d1 t" "inv d t \<Longrightarrow> t_bind_prefix tm p t = (Ok (), t1) \<Longrightarrow> inv d t1"
    and less: "fits ctx n \<Longrightarrow> k \<le> n \<Longrightarrow> fits ctx k"

text \<open>A request within the means of the models, at every point of its generation.\<close>

definition means :: "(token_id list \<Rightarrow> usize \<Rightarrow> bool) \<Rightarrow> (token_id list \<Rightarrow> token_id) \<Rightarrow> token_id list \<Rightarrow> usize \<Rightarrow> bool" where
  "means fits nxt p mx \<longleftrightarrow> (\<forall>k < mx. fits (p @ greedy nxt p k) (mx - k))"

definition sustained ::
  "('m option \<Rightarrow> bool) \<Rightarrow> (token_id list \<Rightarrow> usize \<Rightarrow> bool) \<Rightarrow> (token_id list \<Rightarrow> token_id) \<Rightarrow> 'm active_request \<Rightarrow> bool" where
  "sustained plain fits nxt a \<longleftrightarrow> plain (ar_matcher a) \<and> means fits nxt (prompt (ar_session a)) (ar_max_new_tokens a)"

lemma sustained_fits:
  assumes "req_ok nxt a" "sustained plain fits nxt a" "wants_more a"
  shows "fits (sess_context (ar_session a)) (ar_max_new_tokens a - length (ar_generated a))"
proof -
  let ?p = "prompt (ar_session a)" and ?g = "ar_generated a"
  have "sess_context (ar_session a) = ?p @ greedy nxt ?p (length ?g)"
    using assms(1) by (simp add: req_ok_def progress_def)
  then show ?thesis using assms(2,3) by (simp add: sustained_def means_def wants_more_def)
qed

lemma return_matchers_plain:
  assumes "\<forall>m \<in> set ms. plain m" "\<forall>a \<in> set as. plain (ar_matcher a)"
  shows "\<forall>a \<in> set (return_matchers ms as). plain (ar_matcher a)"
  using assms by (induction ms as rule: return_matchers.induct) auto

lemma commit_one_matcher: "commit_one ds vs a = Ok b \<Longrightarrow> ar_matcher b = ar_matcher a"
  by (auto simp: commit_one_def Let_def split: prod.splits outcome.splits)

lemma commit_all_matchers: "commit_all dss vss as = Ok bs \<Longrightarrow> map ar_matcher bs = map ar_matcher as"
proof (induction dss vss as arbitrary: bs rule: commit_all.induct)
  case (2 dss vss a as)
  then show ?case
    by (auto simp: commit_one_matcher split: if_splits list.splits)
qed simp

context batch_models begin

lemma batch_round_ok:
  assumes st: "inv d t" and w: "0 < w" and ok: "\<forall>a \<in> set as. req_ok nxt a \<and> sustained plain fits nxt a"
  shows "\<exists>cs d' t'. batch_round dm tm w (as, d, t) = (Ok (), (cs, d', t')) \<and> list_all2 (advanced nxt) as cs \<and> inv d' t' \<and>
    (\<forall>c \<in> set cs. plain (ar_matcher c))"
proof -
  let ?want = "filter wants_more as"
  let ?reqs = "map (\<lambda>a. (sess_context (ar_session a), min (ar_max_new_tokens a - length (ar_generated a)) w)) ?want"
  have plain: "\<forall>m \<in> set (map ar_matcher ?want). plain m" using ok by (auto simp: sustained_def)
  have room: "fits (sess_context (ar_session a)) (ar_max_new_tokens a - length (ar_generated a))" if "a \<in> set ?want" for a
    using that ok by (auto intro: sustained_fits)
  have "\<forall>(ctx, n) \<in> set ?reqs. 0 < n \<and> fits ctx n" using w room less by (fastforce simp: wants_more_def)
  from drafts [OF st _ plain this] obtain dss ms1 d1 where d: "d_draft_batch dm ?reqs (map ar_matcher ?want, d) = (Ok dss, (ms1, d1))"
    "inv d1 t" "list_all2 (\<lambda>(ctx, n) ds. ds \<noteq> [] \<and> length ds \<le> n) ?reqs dss" by auto
  have len: "length dss = length ?want" using list_all2_lengthD [OF d(3)] by simp
  have l2: "list_all2 (\<lambda>a ds. ds \<noteq> [] \<and> length ds \<le> ar_max_new_tokens a - length (ar_generated a)) ?want dss"
    using d(3) unfolding list_all2_map1 by (rule list_all2_mono) auto
  let ?vreqs = "map (\<lambda>(a, ds). (sess_context (ar_session a), map token ds)) (zip ?want dss)"
  have "fits (sess_context (ar_session a)) (length ds)" if "(a, ds) \<in> set (zip ?want dss)" for a ds
  proof -
    have "length ds \<le> ar_max_new_tokens a - length (ar_generated a)" using l2 that by (auto simp: list_all2_iff)
    with room [of a] less that show ?thesis by (meson set_zip_leftD)
  qed
  then have "\<forall>(ctx, ds) \<in> set ?vreqs. fits ctx (length ds)" by auto
  from answers [OF d(2) _ plain this] obtain ms t1 where
    v: "t_verify_batch tm ?vreqs (map ar_matcher ?want, t) = (Ok (map (\<lambda>(ctx, ds). replies nxt ctx ds) ?vreqs), (ms, t1))"
    "inv d1 t1" "\<forall>m \<in> set ms. plain m" using len by auto
  have vss: "map (\<lambda>(ctx, ds). replies nxt ctx ds) ?vreqs =
      map2 (\<lambda>a ds. replies nxt (sess_context (ar_session a)) (map token ds)) ?want dss" by auto
  let ?booked = "record_calls record_target_call (return_matchers ms (record_calls record_draft_call as))"
  from commit_all_ok [OF booked_all _ l2, of "nxt" ms] ok obtain cs where
    c: "commit_all dss (map2 (\<lambda>a ds. replies nxt (sess_context (ar_session a)) (map token ds)) ?want dss) ?booked = Ok cs"
    "list_all2 (advanced nxt) as cs" by blast
  have "\<forall>a \<in> set (record_calls record_draft_call as). plain (ar_matcher a)" using ok by (auto simp: record_calls_def sustained_def)
  from return_matchers_plain [OF v(3) this] have "\<forall>m \<in> set (map ar_matcher ?booked). plain m" by (auto simp: record_calls_def)
  then have "\<forall>c \<in> set cs. plain (ar_matcher c)" unfolding commit_all_matchers [OF c(1), symmetric] by simp
  with d(1) v [unfolded vss] len c show ?thesis by (simp add: batch_round_def Let_def)
qed

end

section \<open>The loop\<close>

definition remaining :: "'m active_request list \<Rightarrow> nat" where
  "remaining as = sum_list (map (\<lambda>a. ar_max_new_tokens a - length (ar_generated a)) as)"

definition finished :: "(token_id list \<Rightarrow> token_id) \<Rightarrow> 'm active_request \<Rightarrow> 'm active_request \<Rightarrow> bool" where
  "finished next a b \<longleftrightarrow>
     same_req a b \<and> ar_generated b = greedy next (prompt (ar_session a)) (ar_max_new_tokens a)"

lemma advanced_remaining:
  assumes "list_all2 (advanced next) as bs" "list_ex wants_more as"
  shows "remaining bs < remaining as"
proof -
  have "remaining bs \<le> remaining as \<and> (list_ex wants_more as \<longrightarrow> remaining bs < remaining as)"
    using assms(1)
    by (induction rule: list_all2_induct)
      (auto simp: remaining_def advanced_def same_req_def req_ok_def wants_more_def split: if_splits)
  with assms(2) show ?thesis by blast
qed

lemma advanced_sustained:
  assumes "list_all2 (advanced nxt) as cs" "\<forall>a \<in> set as. sustained plain fits nxt a" "\<forall>c \<in> set cs. plain (ar_matcher c)"
  shows "\<forall>c \<in> set cs. req_ok nxt c \<and> sustained plain fits nxt c"
proof
  fix c assume "c \<in> set cs"
  then obtain i where "i < length cs" "c = cs ! i" by (auto simp: in_set_conv_nth)
  with assms(1) obtain a where "a \<in> set as" "advanced nxt a c" by (metis list_all2_conv_all_nth nth_mem)
  with assms(2,3) \<open>c \<in> set cs\<close> show "req_ok nxt c \<and> sustained plain fits nxt c"
    by (auto simp: advanced_def sustained_def same_req_def)
qed

context batch_models begin

lemma batch_loop_ok:
  assumes w: "0 < w" and "inv d t" "\<forall>a \<in> set as. req_ok nxt a \<and> sustained plain fits nxt a" "remaining as < fuel"
  shows "\<exists>bs d' t'. batch_loop fuel dm tm w (as, d, t) = (Ok (), (bs, d', t')) \<and> list_all2 (finished nxt) as bs"
  using assms(2-)
proof (induction fuel arbitrary: as d t)
  case 0
  then show ?case by simp
next
  case (Suc fuel)
  show ?case
  proof (cases "list_ex wants_more as")
    case False
    have "finished nxt a a" if "a \<in> set as" for a
    proof -
      have "\<not> wants_more a" using False that by (auto simp: list_ex_iff)
      with Suc.prems(2) that show ?thesis
        by (auto simp: finished_def same_req_refl req_ok_def progress_def wants_more_def)
    qed
    then have "list_all2 (finished nxt) as as" by (simp add: list_all2_same)
    with False show ?thesis by simp
  next
    case True
    from batch_round_ok [OF Suc.prems(1) w Suc.prems(2)] obtain cs d1 t1 where
      r: "batch_round dm tm w (as, d, t) = (Ok (), (cs, d1, t1))" "list_all2 (advanced nxt) as cs" "inv d1 t1"
        "\<forall>c \<in> set cs. plain (ar_matcher c)" by blast
    have ok: "\<forall>a \<in> set cs. req_ok nxt a \<and> sustained plain fits nxt a"
      using advanced_sustained [OF r(2) _ r(4)] Suc.prems(2) by blast
    from advanced_remaining [OF r(2) True] Suc.prems(3) have "remaining cs < fuel" by simp
    from Suc.IH [OF r(3) ok this] obtain bs d2 t2 where
      b: "batch_loop fuel dm tm w (cs, d1, t1) = (Ok (), (bs, d2, t2))" "list_all2 (finished nxt) cs bs" by blast
    have "list_all2 (finished nxt) as bs"
      using r(2) b(2)
      by (rule list_all2_trans [rotated]) (auto simp: finished_def advanced_def same_req_def)
    with True r(1) b(1) show ?thesis by (simp add: and_then_def)
  qed
qed

end

text \<open>Models that answer whatever they are asked are a special case.\<close>

lemma batch_models_total:
  assumes "batch_answers_with (tm :: ('t, 'm) target_model) nxt" "batch_drafts_some (dm :: ('d, 'm) draft_model)"
  shows "batch_models (\<lambda>_. True) (\<lambda>_ _. True) (\<lambda>_ _. True) nxt dm tm"
proof
  fix d :: 'd and ms :: "'m option list" and rs :: "(token_id list \<times> nat) list"
  assume "length ms = length rs" "\<forall>(ctx, n) \<in> set rs. 0 < n \<and> True"
  with assms(2) show "\<exists>dss ms' d'. d_draft_batch dm rs (ms, d) = (Ok dss, (ms', d')) \<and> True \<and>
      list_all2 (\<lambda>(ctx, n) ds. ds \<noteq> [] \<and> length ds \<le> n) rs dss"
    unfolding batch_drafts_some_def by (metis (no_types, lifting) case_prodD case_prodI2 surj_pair)
next
  fix t :: 't and ms :: "'m option list" and vs
  show "\<exists>ms' t'. t_verify_batch tm vs (ms, t) = (Ok (map (\<lambda>(ctx, ds). replies nxt ctx ds) vs), (ms', t')) \<and> True \<and> (\<forall>m \<in> set ms'. True)"
    using assms(1) unfolding batch_answers_with_def by (metis (no_types, lifting) surj_pair)
qed simp_all

lemma sustained_total: "sustained (\<lambda>_. True) (\<lambda>_ _. True) nxt a"
  by (simp add: sustained_def means_def)

end
