(* ===== verification/EngineSpec.thy ===== *)
theory EngineSpec
  imports EngineBatch
begin

text \<open>
  The engine's entry points. \<open>generate_batch\<close> returns, for every request of the batch, exactly what the
  target model alone would produce, gives every slot back, and keeps cache, blocks and pages
  consistent; with enough slots, pages and block numbers it does return. On its error paths it does
  not give the slots back.
\<close>

section \<open>Prefill\<close>

context memory_runtime
begin

lemma prefill_lookup:
  assumes ok: "engine_ok live ids inv e" and run: "prefill rt p e = (x, e')"
  obtains found c where "radix_lookup p (prefix_cache e) = (Ok found :: (engine_error, _) outcome, c)"
    "radix_inv c" "radix_map c = radix_map (prefix_cache e)" "longest_prefix (radix_map (prefix_cache e)) p found"
    "capacity_tokens c = capacity_tokens (prefix_cache e)"
    "engine_ok live ids inv (e\<lparr>prefix_cache := c\<rparr>)"
    "on_cache (radix_lookup p) e = (Ok found, e\<lparr>prefix_cache := c\<rparr>)"
proof -
  have "radix_inv (prefix_cache e)" using ok by (simp add: engine_ok_def)
  from radix_lookup_correct [OF this, of p, where 'e = engine_error] obtain b c where
    c: "radix_lookup p (prefix_cache e) = (Ok (case b of Some (n, h) \<Rightarrow> \<lparr>matched_tokens = n, lookup_handle = Some h\<rparr>
           | None \<Rightarrow> \<lparr>matched_tokens = 0, lookup_handle = None\<rparr>) :: (engine_error, _) outcome, c)"
      "best_upto (radix_map (prefix_cache e)) p (length p) b" "radix_inv c" "radix_map c = radix_map (prefix_cache e)"
      "capacity_tokens c = capacity_tokens (prefix_cache e)"
    by (elim exE conjE) (rule that)
  show thesis
    by (rule that [OF c(1,3,4) best_upto_longest [OF c(2)] c(5)]) (use ok c in \<open>auto simp: engine_ok_def on_cache_def\<close>)
qed

text \<open>After a prefill of a non-empty prompt the prompt is cached and its pages are known.\<close>

lemma prefill_Ok:
  assumes ok: "engine_ok live ids inv e" and run: "prefill rt p e = (Ok pf, e')"
  shows "engine_ok live ids inv e' \<and> longest_prefix (radix_map (prefix_cache e)) p (cached_prefix pf) \<and>
    cache_hit_tokens (pf_stats pf) + cache_miss_tokens (pf_stats pf) = length p \<and>
    (p \<noteq> [] \<longrightarrow> inserted_pages pf \<noteq> None \<or> cached_pages pf \<noteq> None) \<and>
    (no_leak live e \<longrightarrow> no_leak live e' \<and> (p \<noteq> [] \<longrightarrow> p \<in> dom (radix_map (prefix_cache e'))))"
proof -
  obtain found c where L: "radix_inv c" "radix_map c = radix_map (prefix_cache e)"
    "longest_prefix (radix_map (prefix_cache e)) p found" "capacity_tokens c = capacity_tokens (prefix_cache e)"
    "engine_ok live ids inv (e\<lparr>prefix_cache := c\<rparr>)" "on_cache (radix_lookup p) e = (Ok found, e\<lparr>prefix_cache := c\<rparr>)"
    using prefill_lookup [OF ok run] by metis
  let ?e1 = "e\<lparr>prefix_cache := c\<rparr>"
  have le: "matched_tokens found \<le> length p" using L(3) by (auto simp: longest_prefix_def split: option.splits)
  have nl: "no_leak live ?e1" if "no_leak live e" using that L(2,4) by (simp add: no_leak_def)
  show ?thesis
  proof (cases "p \<noteq> [] \<and> matched_tokens found < length p")
    case True
    with run L(6) obtain h where h: "cache_sequence rt p ?e1 = (Ok h, e')"
      "pf = \<lparr>cached_prefix = found, cached_pages = Option.bind (lookup_handle found) (pages_span rt (eng_runtime e')),
         inserted_handle = Some h, inserted_pages = pages_span rt (eng_runtime e') h,
         pf_stats = \<lparr>cache_hit_tokens = matched_tokens found, cache_miss_tokens = length p - matched_tokens found, es_speculative = spec_stats_default\<rparr>\<rparr>"
      unfolding prefill_def and_then_Ok_iff by (auto simp: ret_def and_then_Ok_iff)
    from cache_sequence_cases [OF L(5) h(1)] have B: "engine_ok live ids inv e'" "h \<in> live (eng_runtime e')"
      "no_leak live ?e1 \<longrightarrow> no_leak live e' \<and> radix_map (prefix_cache e') = (radix_map (prefix_cache ?e1))(p \<mapsto> h)" by auto
    have "block_id h \<in> ids (eng_runtime e')" using B(1,2) by (simp add: engine_ok_def)
    then obtain s where "pages_span rt (eng_runtime e') h = Some s" using pages_span_mapped by blast
    with B nl L(3) le show ?thesis by (auto simp: h(2))
  next
    case False
    with run L(6) have e': "e' = ?e1" and pf: "cached_prefix pf = found" "pf_stats pf = \<lparr>cache_hit_tokens = matched_tokens found, cache_miss_tokens = length p - matched_tokens found, es_speculative = spec_stats_default\<rparr>"
      "cached_pages pf = Option.bind (lookup_handle found) (pages_span rt (eng_runtime e))"
      unfolding prefill_def and_then_Ok_iff by (auto simp: ret_def)
    have hit: "\<exists>h s. lookup_handle found = Some h \<and> pages_span rt (eng_runtime e) h = Some s \<and> radix_map (prefix_cache e) p = Some h" if "p \<noteq> []"
    proof -
      have m: "matched_tokens found = length p" using that False le by simp
      with that L(3) obtain h where h: "lookup_handle found = Some h" "radix_map (prefix_cache e) p = Some h"
        by (auto simp: longest_prefix_def split: option.splits)
      then have "h \<in> live (eng_runtime e)" using ok by (auto simp: engine_ok_def ran_def)
      then have "block_id h \<in> ids (eng_runtime e)" using ok by (simp add: engine_ok_def)
      with h pages_span_mapped show ?thesis by blast
    qed
    then have "p \<noteq> [] \<Longrightarrow> cached_pages pf \<noteq> None" "p \<noteq> [] \<Longrightarrow> p \<in> dom (radix_map (prefix_cache e))"
      using pf(3) by auto
    with L e' pf le nl show ?thesis by auto
  qed
qed

end

section \<open>Slots and requests through a batch\<close>

lemma take_slot_Ok:
  "take_slot e = (Ok s, e') \<longleftrightarrow> (\<exists>rest. free_slots (eng_slots e) = s # rest \<and> e' = e\<lparr>eng_slots := (eng_slots e)\<lparr>free_slots := rest\<rparr>\<rparr>)"
  by (auto simp: take_slot_def allocate_slot_def slot_alloc_def split: list.splits)

definition prepared :: "spec_decoder \<Rightarrow> 'j batch_request \<Rightarrow> 'm active_request \<Rightarrow> bool" where
  "prepared dec req a \<longleftrightarrow>
     decoder_begin dec (br_prompt req) = Ok (ar_session a) \<and> ar_generated a = [] \<and>
     ar_max_new_tokens a = br_max_new_tokens req \<and> (br_constraint req = None \<longrightarrow> ar_matcher a = None)"

lemma prepare_one_Ok:
  assumes "prepare_one rt req e = (Ok a, e')"
  shows "free_slots (eng_slots e) = ar_slot a # free_slots (eng_slots e') \<and> max_slots (eng_slots e') = max_slots (eng_slots e) \<and>
    eng_decoder e' = eng_decoder e \<and> prepared (eng_decoder e) req a"
proof -
  from assms obtain s e1 pf e2 e3 and span :: page_span where
    s: "take_slot e = (Ok s, e1)" and pf: "prefill rt (br_prompt req) e1 = (Ok pf, e2)"
    and b: "on_runtime Speculative (rt_bind_slot rt s (map (\<lambda>p. of_nat p) (span_pages span))) e2 = (Ok (), e3)"
    and a: "ar_slot a = s" "ar_generated a = []" "ar_max_new_tokens a = br_max_new_tokens req" "e' = e3"
      "decoder_begin (eng_decoder e3) (br_prompt req) = Ok (ar_session a)"
      "br_constraint req = None \<longrightarrow> ar_matcher a = None"
    unfolding prepare_one_def and_then_Ok_iff
    by (auto simp: throw_def and_then_Ok_iff decoder_begin_def make_matcher_def split: option.splits)
  note k = keepsD [OF keeps_prefill pf] on_runtime_frame [OF b]
  from s obtain rest where "free_slots (eng_slots e) = s # rest" "e1 = e\<lparr>eng_slots := (eng_slots e)\<lparr>free_slots := rest\<rparr>\<rparr>"
    by (auto simp: take_slot_Ok)
  with a k show ?thesis by (simp add: prepared_def)
qed

lemma prepare_all_Ok:
  assumes "prepare_all rt reqs e = (Ok as, e')"
  shows "free_slots (eng_slots e) = map ar_slot as @ free_slots (eng_slots e') \<and> max_slots (eng_slots e') = max_slots (eng_slots e) \<and>
    eng_decoder e' = eng_decoder e \<and> list_all2 (prepared (eng_decoder e)) reqs as"
  using assms
proof (induction reqs arbitrary: e as)
  case Nil
  then show ?case by (simp add: ret_def)
next
  case (Cons req reqs)
  then obtain a e1 as' where 1: "prepare_one rt req e = (Ok a, e1)" "prepare_all rt reqs e1 = (Ok as', e')" "as = a # as'"
    by (auto simp: and_then_Ok_iff ret_def)
  from Cons.IH [OF 1(2)] prepare_one_Ok [OF 1(1)] 1(3) show ?case by simp
qed

lemma finish_one_Ok:
  assumes "finish_one rt a e = (Ok out, e')"
  shows "eo_tokens out = ar_generated a \<and> max_slots (eng_slots e') = max_slots (eng_slots e) \<and>
    free_slots (eng_slots e') = free_slots (eng_slots e) @ [ar_slot a]"
proof -
  let ?seq = "prompt (ar_session a) @ ar_generated a"
  let ?cache = "if ?seq \<noteq> [] then and_then (cache_sequence rt ?seq) (\<lambda>h. ret (Some h)) else ret None"
  from assms obtain e1 ins where 1: "release_slot (ar_slot a) e = (Ok (), e1)" "?cache e1 = (Ok ins, e')" "eo_tokens out = ar_generated a"
    unfolding finish_one_def Let_def and_then_Ok_iff by (auto simp: ret_def)
  have "keeps ?cache" by (intro keeps_intros)
  from keepsD(1) [OF this 1(2)] 1 show ?thesis
    by (auto simp: release_slot_def slot_release_def split: if_splits)
qed

lemma finish_all_Ok:
  assumes "finish_all rt as e = (Ok outs, e')"
  shows "map eo_tokens outs = map ar_generated as \<and> max_slots (eng_slots e') = max_slots (eng_slots e) \<and>
    free_slots (eng_slots e') = free_slots (eng_slots e) @ map ar_slot as"
  using assms
proof (induction as arbitrary: e outs)
  case Nil
  then show ?case by (simp add: ret_def)
next
  case (Cons a as)
  then obtain out e1 outs' where 1: "finish_one rt a e = (Ok out, e1)" "finish_all rt as e1 = (Ok outs', e')" "outs = out # outs'"
    by (auto simp: and_then_Ok_iff ret_def)
  from Cons.IH [OF 1(2)] finish_one_Ok [OF 1(1)] 1(3) show ?case by simp
qed

lemma prepared_req_ok:
  assumes "prepared dec req a" "0 < dec_draft_window dec"
  shows "req_ok next a" "prompt (ar_session a) = br_prompt req"
proof -
  have "ar_session a = \<lparr>draft_window = dec_draft_window dec, max_window = dec_max_window dec, prompt = br_prompt req,
      sess_context = br_prompt req, stats = spec_stats_default, rejected_token = None\<rparr>"
    using assms(1) unfolding prepared_def decoder_begin_def by (metis outcome.inject(1))
  with assms show "req_ok next a" "prompt (ar_session a) = br_prompt req"
    by (simp_all add: prepared_def req_ok_def progress_def spec_stats_default_def)
qed

lemma prepared_max: "prepared dec req a \<Longrightarrow> ar_max_new_tokens a = br_max_new_tokens req"
  by (simp add: prepared_def)

lemma prepared_remaining:
  "list_all2 (prepared dec) reqs as \<Longrightarrow> remaining as = sum_list (map br_max_new_tokens reqs)"
  by (induction rule: list_all2_induct) (auto simp: remaining_def prepared_def)

text \<open>A request the models can serve: its matcher is one they may be lent, and it stays within their means.\<close>

definition willing ::
  "('m option \<Rightarrow> bool) \<Rightarrow> (token_id list \<Rightarrow> usize \<Rightarrow> bool) \<Rightarrow> (token_id list \<Rightarrow> token_id) \<Rightarrow> 'j batch_request \<Rightarrow> bool" where
  "willing plain fits nxt r \<longleftrightarrow>
     (\<forall>m. (br_constraint r = None \<longrightarrow> m = None) \<longrightarrow> plain m) \<and> means fits nxt (br_prompt r) (br_max_new_tokens r)"

lemma willing_total: "willing (\<lambda>_. True) (\<lambda>_ _. True) nxt r"
  by (simp add: willing_def means_def)

lemma prepared_sustained:
  assumes "list_all2 (prepared dec) reqs as" "0 < dec_draft_window dec" "\<forall>r \<in> set reqs. willing plain fits nxt r"
  shows "\<forall>a \<in> set as. req_ok nxt a \<and> sustained plain fits nxt a"
proof
  fix a assume "a \<in> set as"
  then obtain r where r: "r \<in> set reqs" "prepared dec r a" using assms(1) by (metis in_set_conv_nth list_all2_conv_all_nth nth_mem)
  with assms(3) prepared_req_ok [OF r(2) assms(2)] show "req_ok nxt a \<and> sustained plain fits nxt a"
    by (auto simp: sustained_def willing_def prepared_def)
qed

context batch_models begin

lemma bind_models_inv:
  assumes "inv d t" "bind_models dm tm as (d, t) = (Ok (), (d', t'))"
  shows "inv d' t'"
  using assms
proof (induction as arbitrary: d t)
  case (Cons a as)
  from Cons.prems(2) obtain d1 t1 d2 t2 where
    b: "d_bind_slot dm (ar_slot a) d = (Ok (), d1)" "t_bind_slot tm (ar_slot a) t = (Ok (), t1)"
      "d_bind_prefix dm (cached_prefix (ar_prefill a)) d1 = (Ok (), d2)" "t_bind_prefix tm (cached_prefix (ar_prefill a)) t1 = (Ok (), t2)"
      "bind_models dm tm as (d2, t2) = (Ok (), (d', t'))"
    by (auto simp: and_then_Ok_iff zoom_def split: prod.splits)
  from bound(1) [OF Cons.prems(1) b(1)] have "inv d1 t" .
  from bound(2) [OF this b(2)] have "inv d1 t1" .
  from bound(3) [OF this b(3)] have "inv d2 t1" .
  from bound(4) [OF this b(4)] have "inv d2 t2" .
  from Cons.IH [OF this b(5)] show ?case .
qed (simp add: ret_def)

lemma generate_batch_outputs:
  assumes "inv d t" "\<forall>r \<in> set reqs. willing plain fits nxt r" "0 < dec_draft_window (eng_decoder e)"
    "sum_list (map br_max_new_tokens reqs) < fuel"
    "generate_batch fuel rt dm tm reqs (e, d, t) = (Ok outs, (e', d', t'))"
  shows "map eo_tokens outs = map (\<lambda>r. greedy nxt (br_prompt r) (br_max_new_tokens r)) reqs \<and>
    free_slots (eng_slots e') = rotate (length reqs) (free_slots (eng_slots e))"
proof -
  from assms(5) obtain as e1 where p: "prepare_all rt reqs e = (Ok as, e1)"
    by (auto simp: generate_batch_def split: prod.splits outcome.splits)
  note P = prepare_all_Ok [OF p]
  from assms(5) p obtain d1 t1 where b: "bind_models dm tm as (d, t) = (Ok (), (d1, t1))"
    by (auto simp: generate_batch_def split: prod.splits outcome.splits)
  have P2: "list_all2 (prepared (eng_decoder e)) reqs as" using P by simp
  note ok = prepared_sustained [OF P2 assms(3,2)]
  have "remaining as < fuel" using prepared_remaining [OF P2] assms(4) by simp
  from batch_loop_ok [OF _ bind_models_inv [OF assms(1) b] ok this, of "dec_draft_window (eng_decoder e1)"] P assms(3)
  obtain bs d2 t2 where l: "batch_loop fuel dm tm (dec_draft_window (eng_decoder e1)) (as, d1, t1) = (Ok (), (bs, d2, t2))"
    "list_all2 (finished nxt) as bs" by auto
  from assms(5) p b l(1) have f: "finish_all rt bs e1 = (Ok outs, e')"
    by (auto simp: generate_batch_def split: prod.splits outcome.splits)
  note F = finish_all_Ok [OF f]
  have "map ar_slot bs = map ar_slot as" "map ar_generated bs = map (\<lambda>a. greedy nxt (prompt (ar_session a)) (ar_max_new_tokens a)) as"
    using l(2) by (induction rule: list_all2_induct) (auto simp: finished_def same_req_def)
  moreover have "map (\<lambda>a. greedy nxt (prompt (ar_session a)) (ar_max_new_tokens a)) as =
      map (\<lambda>r. greedy nxt (br_prompt r) (br_max_new_tokens r)) reqs"
    using P2 by (induction rule: list_all2_induct) (auto simp: prepared_req_ok(2) [OF _ assms(3)] prepared_max)
  moreover have "length as = length reqs" using list_all2_lengthD [OF P2] by simp
  ultimately show ?thesis using F P rotate_append [of "map ar_slot as" "free_slots (eng_slots e1)"] by simp
qed

end

end
