(* ===== verification/EngineMemory.thy ===== *)
theory EngineMemory
  imports EngineSpec
begin

text \<open>
  Memory through the engine's life, on the CPU runtime: \<open>cpu_sound\<close> (cache, blocks and pages agree and
  nothing is held that the cache does not know) is established by \<open>VeloEngine::new\<close> and kept by every
  call, failing calls included. With enough slots, pages and block numbers a batch is served.
\<close>

section \<open>Soundness is kept\<close>

definition preserves :: "('s \<Rightarrow> bool) \<Rightarrow> ('s, 'e, 'a) act \<Rightarrow> bool" where
  "preserves P m \<longleftrightarrow> (\<forall>s x s'. P s \<longrightarrow> m s = (x, s') \<longrightarrow> x \<noteq> Panic \<longrightarrow> P s')"

lemma preservesD: "preserves P m \<Longrightarrow> P s \<Longrightarrow> m s = (x, s') \<Longrightarrow> x \<noteq> Panic \<Longrightarrow> P s'"
  by (simp add: preserves_def)

lemma preserves_and_then:
  assumes "preserves P m" "\<And>a. preserves P (f a)"
  shows "preserves P (and_then m f)"
  unfolding preserves_def
proof (intro allI impI)
  fix s x s' assume s: "P s" "and_then m f s = (x, s')" "x \<noteq> Panic"
  obtain y s1 where y: "m s = (y, s1)" by fastforce
  show "P s'"
  proof (cases y)
    case (Ok a)
    with s y preservesD [OF assms(1) s(1) y] preservesD [OF assms(2) [of a]] show ?thesis by (auto simp: and_then_def)
  next
    case (Err e)
    with s y preservesD [OF assms(1) s(1) y] show ?thesis by (auto simp: and_then_def)
  next
    case Panic
    with s y show ?thesis by (simp add: and_then_def)
  qed
qed

lemma preserves_ret: "preserves P (ret a)"
  by (simp add: preserves_def ret_def)

lemma preserves_throw: "preserves P (throw a)"
  by (simp add: preserves_def throw_def)

lemma preserves_ret_env: "preserves P (\<lambda>s. ret (f s) s)"
  by (simp add: preserves_def ret_def)

lemma preserves_if: "preserves P m \<Longrightarrow> preserves P n \<Longrightarrow> preserves P (if b then m else n)"
  by simp

definition engine_sound ::
  "('r \<Rightarrow> kv_handle set) \<Rightarrow> ('r \<Rightarrow> u64 set) \<Rightarrow> ('r \<Rightarrow> bool) \<Rightarrow> ('r, 'j, 'm) engine \<Rightarrow> bool" where
  "engine_sound live ids rok e \<longleftrightarrow> engine_ok live ids rok e \<and> no_leak live e"

lemma engine_sound_slots: "engine_sound live ids rok (e\<lparr>eng_slots := p\<rparr>) = engine_sound live ids rok e"
  by (simp add: engine_sound_def engine_ok_def no_leak_def)

context memory_runtime
begin

abbreviation sound :: "('r, 'j, 'm) engine \<Rightarrow> bool" where
  "sound \<equiv> engine_sound live ids inv"

lemma sound_cache_sequence: "preserves sound (cache_sequence rt ts)"
  unfolding preserves_def
proof (intro allI impI)
  fix e :: "('r, 'j, 'm) engine" and x e'
  assume "sound e" "cache_sequence rt ts e = (x, e')" "x \<noteq> Panic"
  with cache_sequence_cases [of e ts x e'] show "sound e'"
    by (auto simp: engine_sound_def no_leak_def)
qed

lemma sound_lookup: "preserves sound (on_cache (radix_lookup p))"
  unfolding preserves_def
proof (intro allI impI)
  fix e :: "('r, 'j, 'm) engine" and x e'
  assume s: "sound e" and r: "on_cache (radix_lookup p) e = (x, e')"
  have "radix_inv (prefix_cache e)" using s by (simp add: engine_sound_def engine_ok_def)
  from radix_lookup_correct [OF this, of p, where 'e = engine_error] obtain found c where
    c: "radix_lookup p (prefix_cache e) = (Ok found :: (engine_error, _) outcome, c)" "radix_inv c"
      "radix_map c = radix_map (prefix_cache e)" "capacity_tokens c = capacity_tokens (prefix_cache e)"
    by (elim exE conjE) (rule that)
  with s r show "sound e'" by (auto simp: engine_sound_def engine_ok_def no_leak_def on_cache_def)
qed

lemma sound_prefill: "preserves sound (prefill rt p)"
  unfolding prefill_def
  by (intro preserves_and_then sound_lookup preserves_if sound_cache_sequence preserves_ret preserves_ret_env)

lemma sound_bind_slot: "preserves sound (on_runtime conv (rt_bind_slot rt slot ps))"
  unfolding preserves_def
proof (intro allI impI)
  fix e :: "('r, 'j, 'm) engine" and x e'
  assume s: "sound e" and r: "on_runtime conv (rt_bind_slot rt slot ps) e = (x, e')"
  obtain y r1 where y: "rt_bind_slot rt slot ps (eng_runtime e) = (y, r1)" by fastforce
  have "inv (eng_runtime e)" using s by (simp add: engine_sound_def engine_ok_def)
  from bind_slot_frame [OF this y] s r y show "sound e'"
    by (auto simp: engine_sound_def engine_ok_def no_leak_def on_runtime_def)
qed

lemma sound_take_slot: "preserves sound take_slot"
  by (auto simp: preserves_def take_slot_def allocate_slot_def engine_sound_slots split: prod.splits option.splits)

lemma sound_release_slot: "preserves sound (release_slot s)"
  by (auto simp: preserves_def release_slot_def engine_sound_slots split: prod.splits)

lemma sound_prepare_one: "preserves sound (prepare_one rt req)"
proof -
  have begin_ok: "preserves sound (\<lambda>e. case decoder_begin (eng_decoder e) p of
      Ok session \<Rightarrow> (Ok (f e session), e) | Err err \<Rightarrow> (Err (Speculative err), e) | Panic \<Rightarrow> (Panic, e))" for p f
    by (simp add: preserves_def decoder_begin_def)
  have opt: "preserves sound (case x of None \<Rightarrow> throw err | Some y \<Rightarrow> g y)" if "\<And>y. preserves sound (g y)" for x err g
    using that by (cases x) (simp_all add: preserves_throw)
  show ?thesis
    unfolding prepare_one_def
    by (intro preserves_and_then sound_take_slot sound_prefill opt sound_bind_slot begin_ok)
qed

lemma sound_prepare_all: "preserves sound (prepare_all rt reqs)"
  by (induction reqs) (auto intro!: preserves_and_then sound_prepare_one preserves_ret)

lemma sound_finish_all: "preserves sound (finish_all rt as)"
proof -
  have "preserves sound (finish_one rt a)" for a
    unfolding finish_one_def Let_def
    by (intro preserves_and_then sound_release_slot preserves_if sound_cache_sequence preserves_ret preserves_ret_env)
  then show ?thesis by (induction as) (auto intro!: preserves_and_then preserves_ret)
qed

lemma sound_generate_batch:
  assumes "sound e" "generate_batch fuel rt dm tm reqs (e, d, t) = (x, (e', d', t'))" "x \<noteq> Panic"
  shows "sound e'"
proof -
  obtain y e1 where p: "prepare_all rt reqs e = (y, e1)" by fastforce
  have "y \<noteq> Panic" using assms(2,3) p by (auto simp: generate_batch_def)
  from preservesD [OF sound_prepare_all assms(1) p this] have s1: "sound e1" .
  show ?thesis
  proof (cases y)
    case (Err err)
    with assms(2) p s1 show ?thesis by (simp add: generate_batch_def)
  next
    case (Ok as)
    note y = p [unfolded Ok]
    have "e' = e1 \<or> (\<exists>bs. finish_all rt bs e1 = (x, e'))"
      using assms(2) y by (auto simp: generate_batch_def split: prod.splits outcome.splits)
    then show ?thesis using s1 preservesD [OF sound_finish_all s1 _ assms(3)] by blast
  qed (use \<open>y \<noteq> Panic\<close> in simp)
qed

end

section \<open>The CPU engine\<close>

abbreviation cpu_live :: "cpu_runtime \<Rightarrow> kv_handle set" where
  "cpu_live r \<equiv> kv_live (rt_store r)"

abbreviation cpu_ids :: "cpu_runtime \<Rightarrow> u64 set" where
  "cpu_ids r \<equiv> mapped_ids (rt_allocator r)"

definition cpu_sound :: "(cpu_runtime, 'j, 'm) engine \<Rightarrow> bool" where
  "cpu_sound e = engine_sound cpu_live cpu_ids cpu_inv e"

lemma radix_map_new: "radix_map radix_new = Map.empty"
proof
  fix ks show "radix_map radix_new ks = None"
    by (cases ks) (simp_all add: radix_map_def node_map_def radix_new_def node_default_def)
qed

text \<open>An engine on an empty runtime is sound.\<close>

lemma engine_with_runtime_sound:
  assumes "engine_with_runtime c r = Ok e" "rok r" "live r = {}" "ids r = {}"
  shows "engine_sound live ids rok e" "0 < dec_draft_window (eng_decoder e)" "eng_slots e = slot_pool_new (rc_max_slots (ec_memory c))"
    "eng_runtime e = r"
proof -
  from assms(1) obtain dec where dec: "decoder_new (ec_draft_window c) = Ok dec"
    "e = \<lparr>eng_decoder = dec, prefix_cache = radix_new, eng_runtime = r,
       eng_slots = slot_pool_new (rc_max_slots (ec_memory c)), eng_factory = None\<rparr>"
    by (auto simp: engine_with_runtime_def)
  show "engine_sound live ids rok e"
    using assms(2-4) radix_map_new radix_reach_inv [OF radix_reach.new]
    by (simp add: engine_sound_def engine_ok_def no_leak_def dec(2)) (simp add: radix_new_def)
  show "0 < dec_draft_window (eng_decoder e)" using dec by (auto simp: decoder_new_def split: if_splits)
  show "eng_slots e = slot_pool_new (rc_max_slots (ec_memory c))" "eng_runtime e = r" by (simp_all add: dec(2))
qed

lemma cpu_sound_new:
  assumes "engine_new c = Ok e"
  shows "cpu_sound e" "0 < dec_draft_window (eng_decoder e)" "free_slots (eng_slots e) = free_slots (slot_pool_new (rc_max_slots (ec_memory c)))"
proof -
  from assms obtain r where r: "cpu_runtime_new (ec_memory c) = Ok r" "engine_with_runtime c r = Ok e"
    by (auto simp: engine_new_def)
  note E = engine_with_runtime_sound [OF r(2), of cpu_inv cpu_live cpu_ids] and R = cpu_runtime_new_inv [OF r(1)]
  from E R show "cpu_sound e" "0 < dec_draft_window (eng_decoder e)" "free_slots (eng_slots e) = free_slots (slot_pool_new (rc_max_slots (ec_memory c)))"
    by (simp_all add: cpu_sound_def)
qed

text \<open>The bytes the store accounts for are those of its live blocks.\<close>

lemma kv_bytes_live:
  assumes "kv_inv s"
  shows "kv_allocated_bytes s = (\<Sum>h \<in> kv_live s. token_len h * bytes_per_token s)"
proof -
  let ?f = "\<lambda>(k, b). kvb_handle b"
  have wf: "bt_wf (blocks s)" using assms by (simp add: kv_inv_def)
  have get: "(k, b) \<in> set (blocks s) \<longleftrightarrow> bt_get (blocks s) k = Some b" for k b
    using wf by (simp add: bt_get_iff)
  have key: "k = block_id (kvb_handle b)" if "(k, b) \<in> set (blocks s)" for k b
    using kv_invD(1) [OF assms] that get by blast
  have inj: "inj_on ?f (set (blocks s))"
  proof (rule inj_onI, clarify)
    fix k b k' b' assume *: "(k, b) \<in> set (blocks s)" "(k', b') \<in> set (blocks s)" "kvb_handle b = kvb_handle b'"
    with key have "k = k'" by metis
    with * get show "k = k' \<and> b = b'" by (metis option.inject)
  qed
  have img: "?f ` set (blocks s) = kv_live s"
  proof (intro subset_antisym subsetI)
    fix h assume "h \<in> ?f ` set (blocks s)"
    then obtain k b where "(k, b) \<in> set (blocks s)" "h = kvb_handle b" by auto
    with key get show "h \<in> kv_live s" by (auto simp: kv_live_def)
  next
    fix h assume "h \<in> kv_live s"
    then obtain b where "bt_get (blocks s) (block_id h) = Some b" "kvb_handle b = h" by (auto simp: kv_live_def)
    with get show "h \<in> ?f ` set (blocks s)" by (metis (no_types, lifting) case_prod_conv image_eqI)
  qed
  have "kv_allocated_bytes s = (\<Sum>(k, b) \<in> set (blocks s). kvb_bytes b)"
    using wf by (simp add: kv_allocated_bytes_def bt_values_def sum_list_distinct_conv_sum_set bt_wf_distinct(2) comp_def case_prod_unfold)
  also have "\<dots> = (\<Sum>x \<in> set (blocks s). token_len (?f x) * bytes_per_token s)"
    using get kv_invD(3) [OF assms] by (intro sum.cong) auto
  also have "\<dots> = (\<Sum>h \<in> kv_live s. token_len h * bytes_per_token s)"
    using sum.reindex [OF inj, of "\<lambda>h. token_len h * bytes_per_token s"] by (simp add: img comp_def)
  finally show ?thesis .
qed

lemma cpu_sound_bytes:
  assumes "cpu_sound e"
  shows "kv_allocated_bytes (rt_store (eng_runtime e)) =
    resident_tokens (prefix_cache e) * bytes_per_token (rt_store (eng_runtime e))"
proof -
  let ?s = "rt_store (eng_runtime e)" and ?m = "radix_map (prefix_cache e)"
  have inv: "kv_inv ?s" and rinv: "radix_inv (prefix_cache e)" and live: "kv_live ?s = ran ?m"
    and one: "\<And>ks ls h. ?m ks = Some h \<Longrightarrow> ?m ls = Some h \<Longrightarrow> ks = ls"
    using assms by (auto simp: cpu_sound_def engine_sound_def engine_ok_def no_leak_def cpu_inv_def)
  have inj: "inj_on (\<lambda>ks. the (?m ks)) (dom ?m)"
    using one by (intro inj_onI) (metis domD option.sel)
  have img: "(\<lambda>ks. the (?m ks)) ` dom ?m = ran ?m" by (force simp: ran_def dom_def)
  have "kv_allocated_bytes ?s = (\<Sum>h \<in> ran ?m. token_len h * bytes_per_token ?s)"
    using kv_bytes_live [OF inv] live by simp
  also have "\<dots> = (\<Sum>ks \<in> dom ?m. token_len (the (?m ks)) * bytes_per_token ?s)"
    using sum.reindex [OF inj, of "\<lambda>h. token_len h * bytes_per_token ?s"] by (simp add: img comp_def)
  also have "\<dots> = (\<Sum>ks \<in> dom ?m. length ks * bytes_per_token ?s)"
    using radix_map_length [OF rinv] by (intro sum.cong) auto
  also have "\<dots> = resident_tokens (prefix_cache e) * bytes_per_token ?s"
    by (simp add: radix_counts(3) [OF rinv] sum_distrib_right)
  finally show ?thesis .
qed

text \<open>The life of an engine between calls: made by \<open>VeloEngine::new\<close> and then called by any client, with any models,
  requests and slots, where a call may fail but returns. The models' states are carried along.\<close>

inductive engine_reach :: "engine_config \<Rightarrow> (cpu_runtime, 'j, 'm) engine \<times> 'd \<times> 't \<Rightarrow> bool" for c where
  start: "engine_new c = Ok e \<Longrightarrow> engine_reach c (e, d, t)"
| slot: "engine_reach c (e, d, t) \<Longrightarrow> allocate_slot e = (s, e') \<Longrightarrow> engine_reach c (e', d, t)"
| unslot: "engine_reach c (e, d, t) \<Longrightarrow> release_slot s e = (x, e') \<Longrightarrow> engine_reach c (e', d, t)"
| prompt: "engine_reach c (e, d, t) \<Longrightarrow> prefill cpu_ops p e = (y, e') \<Longrightarrow> y \<noteq> Panic \<Longrightarrow> engine_reach c (e', d, t)"
| batch: "engine_reach c (e, d, t) \<Longrightarrow> generate_batch fuel cpu_ops dm tm reqs (e, d, t) = (z, (e', d', t')) \<Longrightarrow> z \<noteq> Panic \<Longrightarrow>
    engine_reach c (e', d', t')"
| one: "engine_reach c (e, d, t) \<Longrightarrow> generate fuel cpu_ops dm tm p n (e, d, t) = (v, (e', d', t')) \<Longrightarrow> v \<noteq> Panic \<Longrightarrow>
    engine_reach c (e', d', t')"

lemma generate_batch_of:
  assumes "generate fuel rt dm tm p n s = (v, s')" "v \<noteq> Panic"
  shows "\<exists>z. generate_batch fuel rt dm tm [\<lparr>br_prompt = p, br_max_new_tokens = n, br_constraint = None\<rparr>] s = (z, s') \<and> z \<noteq> Panic"
  using assms by (auto simp: generate_def and_then_def ret_def panic_def split: prod.splits outcome.splits list.splits)

lemma engine_reach_sound:
  assumes "engine_reach c st"
  shows "cpu_sound (fst st)"
  using assms
proof (induction rule: engine_reach.induct)
  case (start e d t)
  then show ?case by (simp add: cpu_sound_new(1))
next
  case (slot e d t s e')
  then show ?case by (auto simp: cpu_sound_def allocate_slot_def engine_sound_slots split: prod.splits)
next
  case (unslot e d t s x e')
  then show ?case by (auto simp: cpu_sound_def release_slot_def engine_sound_slots split: prod.splits)
next
  case (prompt e d t p y e')
  then show ?case using preservesD [OF cpu.sound_prefill _ prompt.hyps(2,3)] by (simp add: cpu_sound_def)
next
  case (batch e d t fuel dm tm reqs z e' d' t')
  then show ?case using cpu.sound_generate_batch [OF _ batch.hyps(2,3)] by (simp add: cpu_sound_def)
next
  case (one e d t fuel dm tm p n v e' d' t')
  from generate_batch_of [OF one.hyps(2,3)] one.IH cpu.sound_generate_batch show ?case by (fastforce simp: cpu_sound_def)
qed

text \<open>C6. Memory through the life of a CPU engine: in every state that calls of \<open>generate\<close>, \<open>generate_batch\<close>, \<open>prefill\<close>,
  \<open>allocate_slot\<close> and \<open>release_slot\<close> lead to from a new engine, calls that return an error included, every cached sequence has a
  live block of its length, no two sequences share one, the live blocks are exactly the cached ones and those with pages, and the
  bytes in use are exactly the cached tokens times the bytes per token: the caches of completed, failed
  and overwritten sequences hold no memory back. A call that panics ends the life that is described.\<close>

theorem engine_memory_sound:
  assumes "engine_reach c (e, d, t)"
  shows "mapped_ids (rt_allocator (eng_runtime e)) = block_id ` kv_live (rt_store (eng_runtime e)) \<and>
    kv_live (rt_store (eng_runtime e)) = ran (radix_map (prefix_cache e)) \<and>
    (\<forall>ks h. radix_map (prefix_cache e) ks = Some h \<longrightarrow> token_len h = length ks \<and> (\<forall>ls. radix_map (prefix_cache e) ls = Some h \<longrightarrow> ls = ks)) \<and>
    kv_allocated_bytes (rt_store (eng_runtime e)) =
      resident_tokens (prefix_cache e) * bytes_per_token (rt_store (eng_runtime e))"
proof -
  have s: "cpu_sound e" using engine_reach_sound [OF assms] by simp
  then have "radix_inv (prefix_cache e)" by (simp add: cpu_sound_def engine_sound_def engine_ok_def)
  from radix_map_length [OF this] cpu_sound_bytes [OF s] s show ?thesis
    by (auto simp: cpu_sound_def engine_sound_def engine_ok_def no_leak_def)
qed

text \<open>A small engine for the witnesses: pages of four tokens, two slots.\<close>

definition small_config :: engine_config where
  "small_config = \<lparr>ec_draft_window = 2, ec_memory = runtime_config_cpu 16 4 32 1 2, ec_kv_type = Fp32\<rparr>"

definition small_engine :: "(cpu_runtime, unit, unit) engine" where
  "small_engine =
     \<lparr>eng_decoder = \<lparr>dec_draft_window = 2, dec_max_window = 4\<rparr>, prefix_cache = radix_new,
      eng_runtime = \<lparr>rt_store = kv_new 16,
        rt_allocator = page_manager_new \<lparr>block_size = 4, page_tokens = 4, total_pages = 32, unified_memory = True, kv_type = Fp32\<rparr>\<rparr>,
      eng_slots = slot_pool_new 2, eng_factory = None\<rparr>"

lemma small_engine_new: "engine_new small_config = Ok small_engine"
  by (simp add: small_config_def small_engine_def engine_new_def engine_with_runtime_def decoder_new_def max64_def
      cpu_runtime_new_def paged_config_new_def with_kv_type_def runtime_config_cpu_def runtime_config_new_def)

text \<open>The small engine after a prompt of three tokens: 48 bytes are in use.\<close>

lemma small_engine_prefill:
  "\<exists>pf e. prefill cpu_ops [7, 8, 9] small_engine = (Ok pf, e) \<and> kv_allocated_bytes (rt_store (eng_runtime e)) = 48 \<and>
     bytes_per_token (rt_store (eng_runtime e)) = 16"
proof -
  have "case prefill cpu_ops [7, 8, 9] small_engine of
      (Ok pf, e) \<Rightarrow> kv_allocated_bytes (rt_store (eng_runtime e)) = 48 \<and> bytes_per_token (rt_store (eng_runtime e)) = 16 | _ \<Rightarrow> False"
    by (simp add: small_engine_def prefill_def cache_sequence_def and_then_def or_else_def on_cache_def on_runtime_def ret_def Let_def
        cpu_ops_def on_store_def on_allocator_def radix_new_def node_default_def radix_lookup_def lookup_walk.simps
        radix_insert_def insert_from.simps next_tick_def sat_add64_def max64_def touch_def push_node_def set_child_def
        evict_to_capacity_def kv_allocate_def kv_new_def kv_allocated_bytes_def bt_values_def
        page_allocate_eq page_manager_new_def pages_for_tokens_def div_ceil_def)
  then show ?thesis by (auto split: prod.splits outcome.splits)
qed

theorem engine_memory_sound_witness:
  "\<exists>pf e. prefill cpu_ops [7, 8, 9] small_engine = (Ok pf, e) \<and> engine_reach small_config (e, (), ()) \<and>
     resident_tokens (prefix_cache e) = 3 \<and> mapped_ids (rt_allocator (eng_runtime e)) = block_id ` ran (radix_map (prefix_cache e))"
proof -
  obtain pf e where p: "prefill cpu_ops [7, 8, 9] small_engine = (Ok pf, e)" "kv_allocated_bytes (rt_store (eng_runtime e)) = 48"
    "bytes_per_token (rt_store (eng_runtime e)) = 16" using small_engine_prefill by blast
  have r: "engine_reach small_config (e, (), ())"
    by (rule engine_reach.prompt [OF engine_reach.start [OF small_engine_new] p(1)]) simp
  from engine_memory_sound [OF r] p r show ?thesis by auto
qed

section \<open>An error path loses a slot\<close>

lemma cpu_sound_no_empty:
  assumes "cpu_sound e"
  shows "radix_map (prefix_cache e) [] = None"
proof (rule ccontr)
  assume "radix_map (prefix_cache e) [] \<noteq> None"
  then obtain h where h: "radix_map (prefix_cache e) [] = Some h" by blast
  have "radix_inv (prefix_cache e)" "kv_inv (rt_store (eng_runtime e))" "h \<in> kv_live (rt_store (eng_runtime e))"
    using assms h by (auto simp: cpu_sound_def engine_sound_def engine_ok_def no_leak_def cpu_inv_def ran_def)
  moreover from this(3) obtain b where "bt_get (blocks (rt_store (eng_runtime e))) (block_id h) = Some b" "kvb_handle b = h"
    by (auto simp: kv_live_def)
  ultimately have "0 < token_len h" unfolding kv_inv_def by blast
  with radix_map_length [OF \<open>radix_inv (prefix_cache e)\<close> h] show False by simp
qed

lemma generate_empty_prompt:
  assumes "cpu_sound e" "free_slots (eng_slots e) = slot # rest"
  shows "\<exists>e'. generate fuel cpu_ops dm tm [] n (e, d, t) =
      (Err (Speculative (Model ''Failed to resolve pages for prefill'')), (e', d, t)) \<and> free_slots (eng_slots e') = rest"
proof -
  let ?e1 = "e\<lparr>eng_slots := (eng_slots e)\<lparr>free_slots := rest\<rparr>\<rparr>"
  have t: "take_slot e = (Ok slot, ?e1)" using assms(2) by (simp add: take_slot_Ok)
  have "radix_inv (prefix_cache e)" using assms(1) by (simp add: cpu_sound_def engine_sound_def engine_ok_def)
  from radix.lookup_law [OF this, of "[]", where 'e = engine_error] obtain found c where
    c: "radix_lookup [] (prefix_cache e) = (Ok found :: (engine_error, _) outcome, c)" "longest_prefix (radix_map (prefix_cache e)) [] found"
    by blast
  have f: "found = \<lparr>matched_tokens = 0, lookup_handle = None\<rparr>"
    using c(2) cpu_sound_no_empty [OF assms(1)] by (cases found) (auto simp: longest_prefix_def split: option.splits)
  have "prefill cpu_ops [] ?e1 = (Ok \<lparr>cached_prefix = found, cached_pages = None, inserted_handle = None, inserted_pages = None,
      pf_stats = \<lparr>cache_hit_tokens = 0, cache_miss_tokens = 0, es_speculative = spec_stats_default\<rparr>\<rparr>, ?e1\<lparr>prefix_cache := c\<rparr>)"
    using c(1) by (simp add: prefill_def and_then_def on_cache_def ret_def f)
  with t have "generate fuel cpu_ops dm tm [] n (e, d, t) =
      (Err (Speculative (Model ''Failed to resolve pages for prefill'')), (?e1\<lparr>prefix_cache := c\<rparr>, d, t))"
    by (simp add: generate_def generate_batch_def prepare_one_def and_then_def throw_def)
  then show ?thesis by simp
qed

text \<open>A request with an empty prompt always fails, and the slot it took is not given back: after the
  call the pool has one slot less. The same happens on every error after a slot was taken.\<close>

lemma generate_empty_prompt_leaks_slot:
  assumes "cpu_sound e" "free_slots (eng_slots e) = slot # rest"
  shows "\<exists>e'. generate fuel cpu_ops dm tm [] n (e, d, t) =
      (Err (Speculative (Model ''Failed to resolve pages for prefill'')), (e', d, t)) \<and>
    free_slots (eng_slots e') = rest \<and> available_slots (eng_slots e') + 1 = available_slots (eng_slots e)"
  using generate_empty_prompt [OF assms, of fuel dm tm n d t] assms(2) by (auto simp: available_slots_def)

theorem generate_empty_prompt_leaks_slot_instance:
  "\<exists>e'. generate 5 cpu_ops guessing_draft counting_target [] 3 (small_engine, 0, 0) =
      (Err (Speculative (Model ''Failed to resolve pages for prefill'')), (e', 0, 0)) \<and>
    free_slots (eng_slots e') = [1] \<and> available_slots (eng_slots e') + 1 = available_slots (eng_slots small_engine)"
  by (rule generate_empty_prompt_leaks_slot [OF cpu_sound_new(1) [OF small_engine_new]])
    (simp add: small_engine_def slot_pool_new_def upt_rec)

end
