(* ===== verification/EngineLive.thy ===== *)
theory EngineLive
  imports EngineMemory
begin

text \<open>
  A batch is served when there is room for it. \<open>cpu_room\<close> counts what a call may still take from the CPU
  runtime: free pages and block numbers. Caching a sequence takes at most its own pages and one number.
\<close>

section \<open>Room\<close>

definition cpu_room :: "nat \<Rightarrow> nat \<Rightarrow> cpu_runtime \<Rightarrow> bool" where
  "cpu_room pgs blks r \<longleftrightarrow>
     pgs \<le> free_page_count (rt_allocator r) \<and> unat (next_block_id (rt_store r)) + blks < 2 ^ 64"

definition same_shape_rt :: "cpu_runtime \<Rightarrow> cpu_runtime \<Rightarrow> bool" where
  "same_shape_rt r r' \<longleftrightarrow>
     block_size (pm_config (rt_allocator r')) = block_size (pm_config (rt_allocator r)) \<and>
     bytes_per_token (rt_store r') = bytes_per_token (rt_store r)"

lemma same_shape_rt_refl: "same_shape_rt r r"
  by (simp add: same_shape_rt_def)

lemma same_shape_rt_trans: "same_shape_rt r r1 \<Longrightarrow> same_shape_rt r1 r2 \<Longrightarrow> same_shape_rt r r2"
  by (simp add: same_shape_rt_def)

lemma kv_allocate_room:
  assumes "0 < n" "n * bytes_per_token s \<le> max64" "unat (next_block_id s) + Suc b < 2 ^ 64"
  shows "\<exists>h s'. kv_allocate n s = (Ok h, s') \<and> unat (next_block_id s') + b < 2 ^ 64 \<and> bytes_per_token s' = bytes_per_token s"
proof -
  have ne: "next_block_id s \<noteq> - 1"
  proof
    assume "next_block_id s = - 1"
    then have "unat (next_block_id s) = 2 ^ 64 - 1" by (simp add: unsigned_minus_1_eq_mask mask_eq_exp_minus_1)
    with assms(3) show False by simp
  qed
  have "unat (next_block_id s + 1) = unat (next_block_id s) + 1"
    using word_less_succ_self [OF ne] by (simp add: unat_word_ariths word_less_nat_alt) 
  with assms ne show ?thesis by (simp add: kv_allocate_def Let_def)
qed

lemma page_allocate_room:
  assumes "page_inv m" "div_ceil n (block_size (pm_config m)) + k \<le> free_page_count m"
  shows "\<exists>b m'. page_allocate h n m = (Ok b, m') \<and> k \<le> free_page_count m' \<and> pm_config m' = pm_config m"
  using assms by (auto simp: page_inv_def page_allocate_eq pages_for_tokens_def free_page_count_def Let_def)

lemma release_room:
  assumes "store_release cpu_ops old r = (x, r1)" "pages_release cpu_ops old r1 = (y, r2)"
  shows "(cpu_room p b r \<longrightarrow> cpu_room p b r2) \<and> same_shape_rt r r2"
  using assms
  by (auto simp: cpu_ops_simps kv_release_def page_release_def cpu_room_def same_shape_rt_def free_page_count_def Let_def
      split: option.splits if_splits)

lemma cache_sequence_room:
  assumes ok: "engine_ok cpu_live cpu_ids cpu_inv e" and ts: "ts \<noteq> []"
    and bytes: "length ts * bytes_per_token (rt_store (eng_runtime e)) \<le> max64"
    and room: "cpu_room (div_ceil (length ts) (block_size (pm_config (rt_allocator (eng_runtime e)))) + p) (Suc b) (eng_runtime e)"
  shows "\<exists>h e'. cache_sequence cpu_ops ts e = (Ok h, e') \<and> cpu_room p b (eng_runtime e') \<and>
    same_shape_rt (eng_runtime e) (eng_runtime e')"
proof -
  let ?r = "eng_runtime e" and ?n = "length ts"
  have inv: "cpu_inv ?r" and rinv: "radix_inv (prefix_cache e)"
    and idl: "cpu_ids ?r = block_id ` cpu_live ?r" and sub: "ran (radix_map (prefix_cache e)) \<subseteq> cpu_live ?r"
    and inj: "\<forall>ks ls h. radix_map (prefix_cache e) ks = Some h \<longrightarrow> radix_map (prefix_cache e) ls = Some h \<longrightarrow> ks = ls"
    using ok unfolding engine_ok_def by blast+
  obtain h s' where s': "kv_allocate ?n (rt_store ?r) = (Ok h, s')" "unat (next_block_id s') + b < 2 ^ 64"
    "bytes_per_token s' = bytes_per_token (rt_store ?r)"
    using kv_allocate_room [of ?n "rt_store ?r" b] ts bytes room by (auto simp: cpu_room_def)
  let ?r1 = "?r\<lparr>rt_store := s'\<rparr>"
  have a1: "store_allocate cpu_ops ?n ?r = (Ok h, ?r1)" using s'(1) by (simp add: cpu_ops_def on_store_eq)
  note A = cpu.store_allocate_Ok [OF inv a1]
  obtain bm m' where m': "page_allocate h ?n (rt_allocator ?r) = (Ok bm, m')" "p \<le> free_page_count m'" "pm_config m' = pm_config (rt_allocator ?r)"
    using page_allocate_room [of "rt_allocator ?r" ?n p h] inv room by (auto simp: cpu_inv_def cpu_room_def)
  let ?r2 = "?r1\<lparr>rt_allocator := m'\<rparr>"
  have a2: "pages_allocate cpu_ops h ?n ?r1 = (Ok bm, ?r2)" using m'(1) by (simp add: cpu_ops_def on_allocator_eq)
  have fresh: "h \<notin> cpu_live ?r" "block_id h \<notin> cpu_ids ?r1" using A idl by auto
  have i1: "cpu_inv ?r1" using A by blast
  note B = cpu.pages_allocate_Ok [OF i1 fresh(2) a2]
  have pre: "cpu_inv ?r2" "cpu_ids ?r2 = block_id ` cpu_live ?r2" "ran (radix_map (prefix_cache e)) \<subseteq> cpu_live ?r2 - {h}"
    "h \<in> cpu_live ?r2" "token_len h = ?n"
    using A B idl sub fresh(1) by auto
  let ?e2 = "e\<lparr>eng_runtime := ?r2\<rparr>"
  let ?rest = "and_then (on_cache (radix_insert ts h)) (\<lambda>ins. case replaced ins of
         None \<Rightarrow> ret h
       | Some old \<Rightarrow> and_then (on_runtime KvStore (store_release cpu_ops old)) (\<lambda>_.
             and_then (on_runtime PagedAttention (pages_release cpu_ops old)) (\<lambda>_. ret h)))"
  have eq: "cache_sequence cpu_ops ts e = ?rest ?e2"
    using a1 a2 by (simp add: cache_sequence_def and_then_def [of "on_runtime _ _"] and_then_def [of "or_else _ _"] or_else_def
        on_runtime_def [of _ "store_allocate _ _"] on_runtime_def [of _ "pages_allocate _ _ _"])
  obtain x e' where x: "?rest ?e2 = (x, e')" by fastforce
  from cpu.enter_block [OF pre(1,2) _ _ rinv pre(3) inj pre(4,5) x] have xo: "x = Ok h" by simp
  have room2: "cpu_room p b ?r2" "same_shape_rt ?r ?r2"
    using s' m' by (simp_all add: cpu_room_def same_shape_rt_def)
  have "cpu_room p b (eng_runtime e') \<and> same_shape_rt ?r (eng_runtime e')"
  proof -
    obtain ins c where "on_cache (radix_insert ts h) ?e2 = (Ok ins, ?e2\<lparr>prefix_cache := c\<rparr>)"
      and t: "(case replaced ins of None \<Rightarrow> ret h
        | Some old \<Rightarrow> and_then (on_runtime KvStore (store_release cpu_ops old)) (\<lambda>_.
             and_then (on_runtime PagedAttention (pages_release cpu_ops old)) (\<lambda>_. ret h))) (?e2\<lparr>prefix_cache := c\<rparr>) = (Ok h, e')"
      using x xo by (auto simp: and_then_Ok_iff on_cache_def split: prod.splits)
    show ?thesis
    proof (cases "replaced ins")
      case None
      with t room2 show ?thesis by (auto simp: ret_def)
    next
      case (Some old)
      with t obtain r3 r4 where "store_release cpu_ops old ?r2 = (Ok (), r3)" "pages_release cpu_ops old r3 = (Ok (), r4)" "eng_runtime e' = r4"
        by (auto simp: and_then_Ok_iff on_runtime_def ret_def split: prod.splits)
      with release_room room2 same_shape_rt_trans show ?thesis by blast
    qed
  qed
  with eq x xo show ?thesis by auto
qed

lemma cpu_room_mono: "cpu_room p b r \<Longrightarrow> p' \<le> p \<Longrightarrow> b' \<le> b \<Longrightarrow> cpu_room p' b' r"
  by (simp add: cpu_room_def)

section \<open>Preparing and finishing\<close>

text \<open>What a call works on: a consistent engine of a given page size and token size.\<close>

definition ready :: "nat \<Rightarrow> nat \<Rightarrow> (cpu_runtime, 'j, 'm) engine \<Rightarrow> bool" where
  "ready bs bpt e \<longleftrightarrow>
     engine_ok cpu_live cpu_ids cpu_inv e \<and>
     block_size (pm_config (rt_allocator (eng_runtime e))) = bs \<and> bytes_per_token (rt_store (eng_runtime e)) = bpt"

lemma ready_cache_sequence:
  assumes "ready bs bpt e" "ts \<noteq> []" "length ts * bpt \<le> max64" "cpu_room (div_ceil (length ts) bs + p) (Suc b) (eng_runtime e)"
  shows "\<exists>h e'. cache_sequence cpu_ops ts e = (Ok h, e') \<and> cpu_room p b (eng_runtime e') \<and> ready bs bpt e'"
proof -
  from cache_sequence_room [of e ts p b] assms obtain h e' where
    h: "cache_sequence cpu_ops ts e = (Ok h, e')" "cpu_room p b (eng_runtime e')" "same_shape_rt (eng_runtime e) (eng_runtime e')"
    by (auto simp: ready_def)
  have "engine_ok cpu_live cpu_ids cpu_inv e'"
    using cpu.cache_sequence_cases [OF _ h(1)] assms(1) by (auto simp: ready_def)
  with h assms(1) show ?thesis by (auto simp: ready_def same_shape_rt_def)
qed

lemma ready_prefill:
  assumes "ready bs bpt e" "p \<noteq> []" "length p * bpt \<le> max64" "cpu_room (div_ceil (length p) bs + k) (Suc b) (eng_runtime e)"
  shows "\<exists>pf e'. prefill cpu_ops p e = (Ok pf, e') \<and> cpu_room k b (eng_runtime e') \<and> ready bs bpt e'"
proof -
  have ok: "engine_ok cpu_live cpu_ids cpu_inv e" using assms(1) by (simp add: ready_def)
  obtain x e' where run: "prefill cpu_ops p e = (x, e')" by fastforce
  obtain found c where L: "engine_ok cpu_live cpu_ids cpu_inv (e\<lparr>prefix_cache := c\<rparr>)"
    "on_cache (radix_lookup p) e = (Ok found, e\<lparr>prefix_cache := c\<rparr>)"
    using cpu.prefill_lookup [OF ok run] by metis
  let ?e1 = "e\<lparr>prefix_cache := c\<rparr>"
  have r1: "ready bs bpt ?e1" using L(1) assms(1) by (simp add: ready_def)
  show ?thesis
  proof (cases "matched_tokens found < length p")
    case True
    from ready_cache_sequence [OF r1 assms(2,3), of k b] assms(4) obtain h e2 where
      "cache_sequence cpu_ops p ?e1 = (Ok h, e2)" "cpu_room k b (eng_runtime e2)" "ready bs bpt e2" by auto
    with True assms(2) L(2) show ?thesis by (simp add: prefill_def and_then_def ret_def)
  next
    case False
    with L(2) assms(2) r1 cpu_room_mono [OF assms(4), of k b] show ?thesis by (simp add: prefill_def and_then_def ret_def)
  qed
qed

lemma ready_prepare_one:
  assumes "ready bs bpt e" "br_prompt req \<noteq> []" "length (br_prompt req) * bpt \<le> max64"
    "cpu_room (div_ceil (length (br_prompt req)) bs + k) (Suc b) (eng_runtime e)" "free_slots (eng_slots e) \<noteq> []"
  shows "\<exists>a e'. prepare_one cpu_ops req e = (Ok a, e') \<and> cpu_room k b (eng_runtime e') \<and> ready bs bpt e'"
proof -
  obtain slot rest where sl: "free_slots (eng_slots e) = slot # rest" using assms(5) by (cases "free_slots (eng_slots e)") auto
  let ?e1 = "e\<lparr>eng_slots := (eng_slots e)\<lparr>free_slots := rest\<rparr>\<rparr>"
  have t: "take_slot e = (Ok slot, ?e1)" using sl by (simp add: take_slot_Ok)
  have r1: "ready bs bpt ?e1" using assms(1) by (simp add: ready_def engine_ok_def)
  from ready_prefill [OF r1 assms(2,3), of k b] assms(4) obtain pf e2 where
    p: "prefill cpu_ops (br_prompt req) ?e1 = (Ok pf, e2)" "cpu_room k b (eng_runtime e2)" "ready bs bpt e2" by auto
  have "engine_ok cpu_live cpu_ids cpu_inv ?e1" using r1 by (simp add: ready_def)
  from cpu.prefill_Ok [OF this p(1)] assms(2) have "inserted_pages pf \<noteq> None \<or> cached_pages pf \<noteq> None" by simp
  then obtain span where "(case inserted_pages pf of Some s \<Rightarrow> Some s | None \<Rightarrow> cached_pages pf) = Some span"
    by (cases "inserted_pages pf") auto
  with t p show ?thesis
    by (simp add: prepare_one_def and_then_def on_runtime_def cpu_ops_def ret_def decoder_begin_def)
qed

definition prompt_pages :: "nat \<Rightarrow> 'j batch_request list \<Rightarrow> nat" where
  "prompt_pages bs reqs = sum_list (map (\<lambda>r. div_ceil (length (br_prompt r)) bs) reqs)"

definition output_pages :: "nat \<Rightarrow> 'j batch_request list \<Rightarrow> nat" where
  "output_pages bs reqs = sum_list (map (\<lambda>r. div_ceil (length (br_prompt r) + br_max_new_tokens r) bs) reqs)"

lemma ready_prepare_all:
  assumes "ready bs bpt e" "\<forall>r \<in> set reqs. br_prompt r \<noteq> [] \<and> length (br_prompt r) * bpt \<le> max64"
    "cpu_room (prompt_pages bs reqs + k) (length reqs + b) (eng_runtime e)" "length reqs \<le> length (free_slots (eng_slots e))"
  shows "\<exists>as e'. prepare_all cpu_ops reqs e = (Ok as, e') \<and> cpu_room k b (eng_runtime e') \<and> ready bs bpt e'"
  using assms
proof (induction reqs arbitrary: e)
  case Nil
  then show ?case by (simp add: ret_def prompt_pages_def)
next
  case (Cons req reqs)
  from ready_prepare_one [OF Cons.prems(1), of req "prompt_pages bs reqs + k" "length reqs + b"] Cons.prems obtain a e1 where
    a: "prepare_one cpu_ops req e = (Ok a, e1)" "cpu_room (prompt_pages bs reqs + k) (length reqs + b) (eng_runtime e1)" "ready bs bpt e1"
    by (fastforce simp: prompt_pages_def add.assoc)
  have "length reqs \<le> length (free_slots (eng_slots e1))" using prepare_one_Ok [OF a(1)] Cons.prems(4) by simp
  from Cons.IH [OF a(3) _ a(2) this] Cons.prems(2) a(1) show ?case by (auto simp: and_then_def ret_def)
qed

lemma ready_finish_all:
  assumes "ready bs bpt e"
    "\<forall>a \<in> set as. prompt (ar_session a) \<noteq> [] \<and> length (prompt (ar_session a) @ ar_generated a) * bpt \<le> max64 \<and>
       unat (ar_slot a) < max_slots (eng_slots e)"
    "cpu_room (sum_list (map (\<lambda>a. div_ceil (length (prompt (ar_session a) @ ar_generated a)) bs) as)) (length as) (eng_runtime e)"
  shows "\<exists>outs e'. finish_all cpu_ops as e = (Ok outs, e')"
  using assms
proof (induction as arbitrary: e)
  case Nil
  then show ?case by (simp add: ret_def)
next
  case (Cons a as)
  let ?seq = "prompt (ar_session a) @ ar_generated a"
  let ?e1 = "e\<lparr>eng_slots := slot_give (ar_slot a) (eng_slots e)\<rparr>"
  have r: "release_slot (ar_slot a) e = (Ok (), ?e1)"
    using Cons.prems(2) by (simp add: release_slot_def slot_release_def slot_give_def)
  have r1: "ready bs bpt ?e1" using Cons.prems(1) by (simp add: ready_def engine_ok_def)
  from ready_cache_sequence [OF r1, of ?seq "sum_list (map (\<lambda>a. div_ceil (length (prompt (ar_session a) @ ar_generated a)) bs) as)" "length as"] Cons.prems(2,3)
  obtain h e2 where c: "cache_sequence cpu_ops ?seq ?e1 = (Ok h, e2)"
    "cpu_room (sum_list (map (\<lambda>a. div_ceil (length (prompt (ar_session a) @ ar_generated a)) bs) as)) (length as) (eng_runtime e2)" "ready bs bpt e2"
    by auto
  from r c(1) Cons.prems(2) obtain out where f: "finish_one cpu_ops a e = (Ok out, e2)"
    by (simp add: finish_one_def and_then_def ret_def Let_def)
  have "max_slots (eng_slots e2) = max_slots (eng_slots e)" using finish_one_Ok [OF f] by simp
  with Cons.IH [OF c(3) _ c(2)] Cons.prems(2) f show ?case by (auto simp: and_then_def ret_def)
qed

section \<open>A batch that fits is served\<close>

definition binds_ok :: "('d, 'm) draft_model \<Rightarrow> ('t, 'm) target_model \<Rightarrow> bool" where
  "binds_ok dm tm \<longleftrightarrow>
     (\<forall>s d. fst (d_bind_slot dm s d) = Ok ()) \<and> (\<forall>s t. fst (t_bind_slot tm s t) = Ok ()) \<and>
     (\<forall>p d. fst (d_bind_prefix dm p d) = Ok ()) \<and> (\<forall>p t. fst (t_bind_prefix tm p t) = Ok ())"

lemma bind_models_ok:
  assumes "binds_ok dm tm"
  shows "\<exists>d' t'. bind_models dm tm as (d, t) = (Ok (), (d', t'))"
proof (induction as arbitrary: d t)
  case (Cons a as)
  obtain d1 where 1: "d_bind_slot dm (ar_slot a) d = (Ok (), d1)" using assms unfolding binds_ok_def by (metis prod.collapse)
  obtain t1 where 2: "t_bind_slot tm (ar_slot a) t = (Ok (), t1)" using assms unfolding binds_ok_def by (metis prod.collapse)
  obtain d2 where 3: "d_bind_prefix dm (cached_prefix (ar_prefill a)) d1 = (Ok (), d2)" using assms unfolding binds_ok_def by (metis prod.collapse)
  obtain t2 where 4: "t_bind_prefix tm (cached_prefix (ar_prefill a)) t1 = (Ok (), t2)" using assms unfolding binds_ok_def by (metis prod.collapse)
  from Cons.IH [of d2 t2] 1 2 3 4 show ?case by (simp add: and_then_def zoom_def)
qed (simp add: ret_def)

definition batch_fits :: "(cpu_runtime, 'j, 'm) engine \<Rightarrow> 'j batch_request list \<Rightarrow> bool" where
  "batch_fits e reqs \<longleftrightarrow>
     (let bs = block_size (pm_config (rt_allocator (eng_runtime e))); bpt = bytes_per_token (rt_store (eng_runtime e)) in
      length reqs \<le> available_slots (eng_slots e) \<and>
      (\<forall>s \<in> set (free_slots (eng_slots e)). unat s < max_slots (eng_slots e)) \<and>
      (\<forall>r \<in> set reqs. br_prompt r \<noteq> [] \<and> (length (br_prompt r) + br_max_new_tokens r) * bpt \<le> max64) \<and>
      prompt_pages bs reqs + output_pages bs reqs \<le> free_page_count (rt_allocator (eng_runtime e)) \<and>
      unat (next_block_id (rt_store (eng_runtime e))) + 2 * length reqs < 2 ^ 64)"

context batch_models begin

lemma generate_batch_fits:
  assumes sound: "cpu_sound e" and st: "inv d t" and binds: "binds_ok dm tm" and will: "\<forall>r \<in> set reqs. willing plain fits nxt r"
    and w: "0 < dec_draft_window (eng_decoder e)" and fuel: "sum_list (map br_max_new_tokens reqs) < fuel"
    and room: "batch_fits e reqs"
  shows "\<exists>outs e' d' t'. generate_batch fuel cpu_ops dm tm reqs (e, d, t) = (Ok outs, (e', d', t'))"
proof -
  let ?bs = "block_size (pm_config (rt_allocator (eng_runtime e)))" and ?bpt = "bytes_per_token (rt_store (eng_runtime e))"
  note F = room [unfolded batch_fits_def Let_def available_slots_def]
  have r: "ready ?bs ?bpt e" using sound by (simp add: ready_def cpu_sound_def engine_sound_def)
  have "length (br_prompt q) * ?bpt \<le> max64" if "q \<in> set reqs" for q
  proof -
    have "length (br_prompt q) * ?bpt \<le> (length (br_prompt q) + br_max_new_tokens q) * ?bpt" by simp
    with F that show ?thesis by (meson order_trans)
  qed
  moreover have "cpu_room (prompt_pages ?bs reqs + output_pages ?bs reqs) (length reqs + length reqs) (eng_runtime e)"
    using F by (simp add: cpu_room_def mult_2)
  ultimately obtain as e1 where p: "prepare_all cpu_ops reqs e = (Ok as, e1)"
    "cpu_room (output_pages ?bs reqs) (length reqs) (eng_runtime e1)" "ready ?bs ?bpt e1"
    using ready_prepare_all [OF r, of reqs "output_pages ?bs reqs" "length reqs"] F by auto
  note P = prepare_all_Ok [OF p(1)]
  have P2: "list_all2 (prepared (eng_decoder e)) reqs as" using P by simp
  note ok = prepared_sustained [OF P2 w will]
  have "remaining as < fuel" using prepared_remaining [OF P2] fuel by simp
  obtain d1 t1 where b: "bind_models dm tm as (d, t) = (Ok (), (d1, t1))" using bind_models_ok [OF binds] by blast
  from batch_loop_ok [OF _ bind_models_inv [OF st b] ok \<open>remaining as < fuel\<close>, of "dec_draft_window (eng_decoder e1)"] P w
  obtain bs d2 t2 where l: "batch_loop fuel dm tm (dec_draft_window (eng_decoder e1)) (as, d1, t1) = (Ok (), (bs, d2, t2))"
    "list_all2 (finished nxt) as bs" by auto
  have rel: "list_all2 (\<lambda>q b. prompt (ar_session b) = br_prompt q \<and> length (ar_generated b) = br_max_new_tokens q) reqs bs"
    using P2 l(2) by (rule list_all2_trans [rotated])
      (auto simp: finished_def same_req_def prepared_def prepared_req_ok(2) [OF _ w])
  have slots: "map ar_slot bs = map ar_slot as"
    using l(2) by (induction rule: list_all2_induct) (auto simp: finished_def same_req_def)
  have "prompt (ar_session b) \<noteq> [] \<and> length (prompt (ar_session b) @ ar_generated b) * ?bpt \<le> max64 \<and>
      unat (ar_slot b) < max_slots (eng_slots e1)" if "b \<in> set bs" for b
  proof -
    from that obtain i where i: "i < length bs" "b = bs ! i" by (auto simp: in_set_conv_nth)
    have l: "length reqs = length bs" by (rule list_all2_lengthD [OF rel])
    have "reqs ! i \<in> set reqs" using i l by simp
    moreover have "prompt (ar_session b) = br_prompt (reqs ! i)" "length (ar_generated b) = br_max_new_tokens (reqs ! i)"
      using list_all2_nthD2 [OF rel i(1)] i(2) by simp_all
    moreover have "ar_slot b \<in> set (free_slots (eng_slots e))" using that slots P by (metis UnCI image_eqI image_set set_append)
    ultimately show ?thesis using F P by auto
  qed
  moreover have "sum_list (map (\<lambda>a. div_ceil (length (prompt (ar_session a) @ ar_generated a)) ?bs) bs) = output_pages ?bs reqs"
    using rel by (induction rule: list_all2_induct) (auto simp: output_pages_def)
  moreover have "length bs = length reqs" using list_all2_lengthD [OF rel] by simp
  ultimately obtain outs e2 where "finish_all cpu_ops bs e1 = (Ok outs, e2)"
    using ready_finish_all [OF p(3), of bs] p(2) by auto
  with p(1) b l(1) show ?thesis by (simp add: generate_batch_def)
qed

text \<open>A batch that fits is served, and served right.\<close>

lemma generate_batch_served:
  assumes "cpu_sound e" "inv d t" "binds_ok dm tm" "\<forall>r \<in> set reqs. willing plain fits nxt r"
    "0 < dec_draft_window (eng_decoder e)" "sum_list (map br_max_new_tokens reqs) < fuel" "batch_fits e reqs"
  shows "\<exists>outs e' d' t'. generate_batch fuel cpu_ops dm tm reqs (e, d, t) = (Ok outs, (e', d', t')) \<and>
    map eo_tokens outs = map (\<lambda>r. greedy nxt (br_prompt r) (br_max_new_tokens r)) reqs \<and>
    available_slots (eng_slots e') = available_slots (eng_slots e) \<and> cpu_sound e'"
proof -
  obtain outs e' d' t' where g: "generate_batch fuel cpu_ops dm tm reqs (e, d, t) = (Ok outs, (e', d', t'))"
    using generate_batch_fits [OF assms] by blast
  from generate_batch_outputs [OF assms(2,4,5,6) g] cpu.sound_generate_batch [OF _ g] assms(1) g show ?thesis
    by (auto simp: available_slots_def cpu_sound_def)
qed

end

text \<open>C2. A batch that fits is served: on a sound CPU engine with a free slot for every request, free pages for
  every prompt and every full output, and block numbers left, \<open>generate_batch\<close> returns normally, one
  output per request, each exactly what the target model alone would produce.\<close>

theorem generate_batch_serves:
  assumes "cpu_sound e" "batch_answers_with tm next" "batch_drafts_some dm" "binds_ok dm tm"
    "0 < dec_draft_window (eng_decoder e)" "sum_list (map br_max_new_tokens reqs) < fuel" "batch_fits e reqs"
  shows "\<exists>outs e' d' t'. generate_batch fuel cpu_ops dm tm reqs (e, d, t) = (Ok outs, (e', d', t')) \<and>
    map eo_tokens outs = map (\<lambda>r. greedy next (br_prompt r) (br_max_new_tokens r)) reqs \<and>
    available_slots (eng_slots e') = available_slots (eng_slots e) \<and> cpu_sound e'"
  using batch_models.generate_batch_served [OF batch_models_total [OF assms(2,3)] assms(1) _ assms(4) _ assms(5-7)] willing_total by blast

lemma small_engine_fits:
  "batch_fits small_engine [\<lparr>br_prompt = [7], br_max_new_tokens = 3, br_constraint = None\<rparr>]"
  by (simp add: batch_fits_def small_engine_def available_slots_def slot_pool_new_def kv_new_def page_manager_new_def
      prompt_pages_def output_pages_def free_page_count_def div_ceil_def max64_def upt_rec)

lemma small_models:
  "batch_answers_with counting_target (\<lambda>c. of_nat (length c))" "batch_drafts_some guessing_draft"
  "binds_ok guessing_draft counting_target"
  by (auto simp: batch_answers_with_def batch_drafts_some_def binds_ok_def counting_target_def guessing_draft_def ret_def
      list_all2_map2 list_all2_same split: prod.splits)

theorem generate_batch_serves_witness:
  "\<exists>outs e' d' t'. generate_batch 4 cpu_ops guessing_draft counting_target
      [\<lparr>br_prompt = [7], br_max_new_tokens = 3, br_constraint = None\<rparr>] (small_engine, 0, 0) = (Ok outs, (e', d', t')) \<and>
    map eo_tokens outs = [[1, 2, 3]]"
  using generate_batch_serves [OF cpu_sound_new(1) [OF small_engine_new] small_models cpu_sound_new(2) [OF small_engine_new] _ small_engine_fits, of 4 0 0]
  by (auto simp: numeral_3_eq_3)

text \<open>C3. Whenever \<open>generate_batch\<close> succeeds (with enough turns of its loop, and models that keep their
  promises), the output of every request of the batch is exactly what the target model alone would
  produce for that request's prompt and length, in the order of the requests, and every slot is back
  in the pool: the pool is the old one, rotated by the number of requests.\<close>

theorem generate_batch_greedy:
  assumes "batch_answers_with tm next" "batch_drafts_some dm" "0 < dec_draft_window (eng_decoder e)"
    "sum_list (map br_max_new_tokens reqs) < fuel"
    "generate_batch fuel rt dm tm reqs (e, d, t) = (Ok outs, (e', d', t'))"
  shows "map eo_tokens outs = map (\<lambda>r. greedy next (br_prompt r) (br_max_new_tokens r)) reqs \<and>
    free_slots (eng_slots e') = rotate (length reqs) (free_slots (eng_slots e))"
  using batch_models.generate_batch_outputs [OF batch_models_total [OF assms(1,2)] _ _ assms(3-5)] willing_total by blast

theorem generate_batch_greedy_witness:
  "\<exists>outs e' d' t'. generate_batch 4 cpu_ops guessing_draft counting_target
      [\<lparr>br_prompt = [7], br_max_new_tokens = 3, br_constraint = None\<rparr>] (small_engine, 0, 0) = (Ok outs, (e', d', t')) \<and>
    map eo_tokens outs = [[1, 2, 3]] \<and> free_slots (eng_slots e') = [1, 0]"
proof -
  let ?reqs = "[\<lparr>br_prompt = [7], br_max_new_tokens = 3, br_constraint = None\<rparr>] :: unit batch_request list"
  have fuel: "sum_list (map br_max_new_tokens ?reqs) < 4" by simp
  obtain outs e' d' t' where g: "generate_batch 4 cpu_ops guessing_draft counting_target ?reqs (small_engine, 0, 0) = (Ok outs, (e', d', t'))"
    using batch_models.generate_batch_fits [OF batch_models_total [OF small_models(1,2)] cpu_sound_new(1) [OF small_engine_new] _ small_models(3) _
        cpu_sound_new(2) [OF small_engine_new] fuel small_engine_fits, of 0 0] willing_total by blast
  have "free_slots (eng_slots small_engine) = [0, 1]" by (simp add: small_engine_def slot_pool_new_def upt_rec)
  with generate_batch_greedy [OF small_models(1,2) cpu_sound_new(2) [OF small_engine_new] fuel g] g show ?thesis
    by (auto simp: numeral_3_eq_3)
qed

end
