(* ===== verification/Scheduler.thy ===== *)
theory Scheduler
  imports Engine
begin

text \<open>
  The scheduler (\<open>src/src/scheduler.rs\<close>): a worker that admits waiting requests to free slots, runs one
  round of speculative decoding for all admitted requests at a time, streams their tokens and
  retires the requests that are done or whose client has gone.

  The channels to the clients are tokio's and the time is the machine's: both are the argument \<open>io\<close>,
  a record of operations on a world of its own. What a turn of the worker's loop receives (commands,
  requests, and the request it waits for when it has nothing to do) is its input; the model pool and
  the switching of models are the argument \<open>ctl\<close>. The counters of the metrics are the 64-bit words
  of the atomics, which wrap around. A panic ends the worker.
\<close>

section \<open>State\<close>

type_synonym channel = nat

record sched_request =
  sr_prompt :: "token_id list"
  sr_max_new_tokens :: usize
  sr_token_tx :: channel
  sr_done_tx :: channel
  sr_model :: "string option"

datatype sched_command =
    Prefetch (pf_name: string) (pf_path: string)
  | SwitchModels (sw_target: string) (sw_draft: "string option")

record sched_metrics =
  total_tokens_generated :: u64
  total_requests_completed :: u64
  active_slots :: usize
  total_ttft_ms :: u64
  requests_with_ttft :: u64

definition sched_metrics_default :: sched_metrics where
  "sched_metrics_default =
     \<lparr>total_tokens_generated = 0, total_requests_completed = 0, active_slots = 0, total_ttft_ms = 0,
      requests_with_ttft = 0\<rparr>"

record active_internal =
  ai_session :: spec_session
  ai_slot :: slot_id
  ai_max_new_tokens :: usize
  ai_token_tx :: channel
  ai_done_tx :: channel
  generated_count :: usize
  ai_finished :: bool
  start_time :: nat
  first_token_sent :: bool
  cancelled :: bool

text \<open>The senders of a request: sending a token (which fails when the receiver is gone), asking whether
  the receiver is gone, sending the final notice, and dropping both; the clock in milliseconds.\<close>

record 'w sched_io =
  tx_send :: "channel \<Rightarrow> token_id \<Rightarrow> 'w \<Rightarrow> bool \<times> 'w"
  tx_is_closed :: "channel \<Rightarrow> 'w \<Rightarrow> bool"
  done_send :: "channel \<Rightarrow> 'w \<Rightarrow> 'w"
  tx_drop :: "channel \<Rightarrow> channel \<Rightarrow> 'w \<Rightarrow> 'w"
  now_ms :: "'w \<Rightarrow> nat"

record ('p, 'd, 't) model_control =
  pool_prefetch :: "string \<Rightarrow> string \<Rightarrow> 'p \<Rightarrow> 'p"
  d_switch_model :: "string \<Rightarrow> 'p \<Rightarrow> 'd \<Rightarrow> 'd"
  t_switch_model :: "string \<Rightarrow> 'p \<Rightarrow> 't \<Rightarrow> 't"

record ('r, 'j, 'm, 'p, 'd, 't, 'w) worker =
  wk_engine :: "('r, 'j, 'm) engine"
  wk_draft :: 'd
  wk_target :: 't
  wk_pool :: 'p
  wk_active :: "active_internal list"
  wk_pending :: "sched_request list"
  wk_metrics :: sched_metrics
  wk_world :: 'w

record turn_input =
  ti_commands :: "sched_command list"
  ti_requests :: "sched_request list"
  ti_awaited :: "sched_request option"

section \<open>Construction and submission\<close>

definition scheduler_start :: "('r, 'j, 'm) engine \<Rightarrow> 'd \<Rightarrow> 't \<Rightarrow> 'p \<Rightarrow> 'w \<Rightarrow> ('r, 'j, 'm, 'p, 'd, 't, 'w) worker" where
  "scheduler_start e d t pool w =
     \<lparr>wk_engine = e, wk_draft = d, wk_target = t, wk_pool = pool, wk_active = [], wk_pending = [],
      wk_metrics = sched_metrics_default, wk_world = w\<rparr>"

text \<open>\<open>submit\<close> puts a request with fresh channels on the worker's queue.\<close>

definition submit :: "token_id list \<Rightarrow> usize \<Rightarrow> channel \<Rightarrow> channel \<Rightarrow> sched_request" where
  "submit p n token_tx done_tx =
     \<lparr>sr_prompt = p, sr_max_new_tokens = n, sr_token_tx = token_tx, sr_done_tx = done_tx, sr_model = None\<rparr>"

section \<open>Commands\<close>

fun run_command ::
  "('p, 'd, 't) model_control \<Rightarrow> sched_command
   \<Rightarrow> ('r, 'j, 'm, 'p, 'd, 't, 'w) worker \<Rightarrow> ('r, 'j, 'm, 'p, 'd, 't, 'w) worker" where
  "run_command ctl (Prefetch name path) k = k\<lparr>wk_pool := pool_prefetch ctl name path (wk_pool k)\<rparr>"
| "run_command ctl (SwitchModels target draft) k =
     (let k1 = k\<lparr>wk_target := t_switch_model ctl target (wk_pool k) (wk_target k)\<rparr> in
      case draft of
        None \<Rightarrow> k1
      | Some draft_name \<Rightarrow> k1\<lparr>wk_draft := d_switch_model ctl draft_name (wk_pool k1) (wk_draft k1)\<rparr>)"

section \<open>Admission\<close>

definition admit_request ::
  "'w sched_io \<Rightarrow> 'r runtime_ops \<Rightarrow> ('d, 'm) draft_model \<Rightarrow> ('t, 'm) target_model \<Rightarrow> 'w \<Rightarrow> sched_request
   \<Rightarrow> (('r, 'j, 'm) engine \<times> 'd \<times> 't, engine_error, active_internal) act" where
  "admit_request io rt dm tm w req = (\<lambda>(e, d, t).
     case allocate_slot e of
       (None, e1) \<Rightarrow> (Err (Speculative (Model ''No free slots'')), (e1, d, t))
     | (Some slot, e1) \<Rightarrow>
         case prefill rt (sr_prompt req) e1 of
           (Err err, e2) \<Rightarrow> (Err err, (e2, d, t))
         | (Panic, e2) \<Rightarrow> (Panic, (e2, d, t))
         | (Ok pf, e2) \<Rightarrow>
             let (x, (d1, t1)) =
               and_then (zoom fst (\<lambda>d (_, t). (d, t)) Speculative (d_bind_slot dm slot)) (\<lambda>_.
               and_then (zoom snd (\<lambda>t (d, _). (d, t)) Speculative (t_bind_slot tm slot)) (\<lambda>_.
               and_then (zoom fst (\<lambda>d (_, t). (d, t)) Speculative (d_bind_prefix dm (cached_prefix pf))) (\<lambda>_.
               zoom snd (\<lambda>t (d, _). (d, t)) Speculative (t_bind_prefix tm (cached_prefix pf))))) (d, t)
             in case x of
                  Err err \<Rightarrow> (Err err, (e2, d1, t1))
                | Panic \<Rightarrow> (Panic, (e2, d1, t1))
                | Ok _ \<Rightarrow>
                    case decoder_begin (eng_decoder e2) (sr_prompt req) of
                      Err err \<Rightarrow> (Err (Speculative err), (e2, d1, t1))
                    | Panic \<Rightarrow> (Panic, (e2, d1, t1))
                    | Ok session \<Rightarrow>
                        (Ok \<lparr>ai_session = session, ai_slot = slot, ai_max_new_tokens = sr_max_new_tokens req,
                             ai_token_tx = sr_token_tx req, ai_done_tx = sr_done_tx req, generated_count = 0,
                             ai_finished = False, start_time = now_ms io w, first_token_sent = False,
                             cancelled = False\<rparr>, (e2, d1, t1)))"

text \<open>The admission loop. A request that cannot be admitted is dropped, its channels with it.\<close>

fun admit_all ::
  "'w sched_io \<Rightarrow> 'r runtime_ops \<Rightarrow> ('d, 'm) draft_model \<Rightarrow> ('t, 'm) target_model \<Rightarrow> sched_request list
   \<Rightarrow> (('r, 'j, 'm, 'p, 'd, 't, 'w) worker, engine_error, unit) act" where
  "admit_all io rt dm tm [] k = (Ok (), k\<lparr>wk_pending := []\<rparr>)"
| "admit_all io rt dm tm (req # pending) k =
     (if length (wk_active k) < slot_pool_capacity (wk_engine k)
      then
        case admit_request io rt dm tm (wk_world k) req (wk_engine k, wk_draft k, wk_target k) of
          (Ok a, (e, d, t)) \<Rightarrow>
            admit_all io rt dm tm pending
              (k\<lparr>wk_engine := e, wk_draft := d, wk_target := t, wk_active := wk_active k @ [a],
                 wk_metrics := (wk_metrics k)\<lparr>active_slots := length (wk_active k) + 1\<rparr>\<rparr>)
        | (Err _, (e, d, t)) \<Rightarrow>
            admit_all io rt dm tm pending
              (k\<lparr>wk_engine := e, wk_draft := d, wk_target := t,
                 wk_world := tx_drop io (sr_token_tx req) (sr_done_tx req) (wk_world k)\<rparr>)
        | (Panic, (e, d, t)) \<Rightarrow>
            (Panic, k\<lparr>wk_engine := e, wk_draft := d, wk_target := t, wk_pending := pending\<rparr>)
      else (Ok (), k\<lparr>wk_pending := req # pending\<rparr>))"

section \<open>One round of generation\<close>

text \<open>The time to the first token, taken once per request.\<close>

definition note_first ::
  "'w sched_io \<Rightarrow> active_internal \<times> sched_metrics \<times> 'w \<Rightarrow> active_internal \<times> sched_metrics \<times> 'w" where
  "note_first io = (\<lambda>(a, mt, w).
     if first_token_sent a then (a, mt, w)
     else (a\<lparr>first_token_sent := True\<rparr>,
           mt\<lparr>total_ttft_ms := total_ttft_ms mt + of_nat (now_ms io w - start_time a),
              requests_with_ttft := requests_with_ttft mt + 1\<rparr>, w))"

definition count_token :: "active_internal \<times> sched_metrics \<times> 'w \<Rightarrow> active_internal \<times> sched_metrics \<times> 'w" where
  "count_token = (\<lambda>(a, mt, w).
     (a\<lparr>generated_count := generated_count a + 1\<rparr>,
      mt\<lparr>total_tokens_generated := total_tokens_generated mt + 1\<rparr>, w))"

fun send_accepted ::
  "'w sched_io \<Rightarrow> token_id list \<Rightarrow> active_internal \<times> sched_metrics \<times> 'w \<Rightarrow> active_internal \<times> sched_metrics \<times> 'w" where
  "send_accepted io [] s = s"
| "send_accepted io (tok # toks) s =
     (let (a, mt, w) = note_first io s; (sent, w1) = tx_send io (ai_token_tx a) tok w in
      if sent then send_accepted io toks (count_token (a, mt, w1))
      else (a\<lparr>cancelled := True\<rparr>, mt, w1))"

definition send_rejected ::
  "'w sched_io \<Rightarrow> active_internal \<times> sched_metrics \<times> 'w \<Rightarrow> active_internal \<times> sched_metrics \<times> 'w" where
  "send_rejected io = (\<lambda>(a, mt, w).
     if has_pending_rejection (ai_session a) then
       let (r, s) = take_rejected_token (ai_session a); a0 = a\<lparr>ai_session := s\<rparr> in
       case r of
         None \<Rightarrow> (a0, mt, w)
       | Some tok \<Rightarrow>
           let (a1, mt1, w1) = note_first io (a0, mt, w); (sent, w2) = tx_send io (ai_token_tx a1) tok w1 in
           count_token (if sent then a1 else a1\<lparr>cancelled := True\<rparr>, mt1, w2)
     else (a, mt, w))"

definition commit_request ::
  "'w sched_io \<Rightarrow> prediction list \<Rightarrow> verify_step list \<Rightarrow> (active_internal \<times> sched_metrics \<times> 'w, spec_error, unit) act" where
  "commit_request io ds vs = (\<lambda>(a, mt, w).
     case session_commit ds vs (ai_session a) of
       (Err e, s) \<Rightarrow> (Err e, (a\<lparr>ai_session := s\<rparr>, mt, w))
     | (Panic, s) \<Rightarrow> (Panic, (a\<lparr>ai_session := s\<rparr>, mt, w))
     | (Ok accepted, s) \<Rightarrow>
         let (a1, mt1, w1) = send_accepted io accepted (a\<lparr>ai_session := s\<rparr>, mt, w)
         in (Ok (), if cancelled a1 then (a1, mt1, w1) else send_rejected io (a1, mt1, w1)))"

text \<open>The commits, in the order of the requests; the first error leaves the later requests untouched, and
  indexing past the results panics.\<close>

fun commit_send ::
  "'w sched_io \<Rightarrow> prediction list list \<Rightarrow> verify_step list list \<Rightarrow> active_internal list
   \<Rightarrow> sched_metrics \<times> 'w \<Rightarrow> (spec_error, unit) outcome \<times> active_internal list \<times> sched_metrics \<times> 'w" where
  "commit_send io dss vss [] (mt, w) = (Ok (), [], mt, w)"
| "commit_send io (ds # dss) (vs # vss) (a # as) (mt, w) =
     (case commit_request io ds vs (a, mt, w) of
        (Err e, (b, mt1, w1)) \<Rightarrow> (Err e, b # as, mt1, w1)
      | (Panic, (b, mt1, w1)) \<Rightarrow> (Panic, b # as, mt1, w1)
      | (Ok _, (b, mt1, w1)) \<Rightarrow> let (x, bs, rest) = commit_send io dss vss as (mt1, w1) in (x, b # bs, rest))"
| "commit_send io dss vss (a # as) (mt, w) = (Panic, a # as, mt, w)"

definition sched_step ::
  "'w sched_io \<Rightarrow> ('d, 'm) draft_model \<Rightarrow> ('t, 'm) target_model
   \<Rightarrow> (('r, 'j, 'm, 'p, 'd, 't, 'w) worker, engine_error, unit) act" where
  "sched_step io dm tm k =
     (let active = wk_active k; window = dec_draft_window (eng_decoder (wk_engine k)) in
      if list_ex (\<lambda>a. generated_count a > ai_max_new_tokens a) active then (Panic, k)
      else
        case d_draft_batch dm
            (map (\<lambda>a. (sess_context (ai_session a), min window (ai_max_new_tokens a - generated_count a))) active)
            (map (\<lambda>_. None) active, wk_draft k) of
          (Err e, (_, d)) \<Rightarrow> (Err (Speculative e), k\<lparr>wk_draft := d\<rparr>)
        | (Panic, (_, d)) \<Rightarrow> (Panic, k\<lparr>wk_draft := d\<rparr>)
        | (Ok dss, (_, d)) \<Rightarrow>
            if length dss < length active then (Panic, k\<lparr>wk_draft := d\<rparr>)
            else
              case t_verify_batch tm
                  (map (\<lambda>(a, ds). (sess_context (ai_session a), map token ds)) (zip active dss))
                  (map (\<lambda>_. None) active, wk_target k) of
                (Err e, (_, t)) \<Rightarrow> (Err (Speculative e), k\<lparr>wk_draft := d, wk_target := t\<rparr>)
              | (Panic, (_, t)) \<Rightarrow> (Panic, k\<lparr>wk_draft := d, wk_target := t\<rparr>)
              | (Ok vss, (_, t)) \<Rightarrow>
                  let (x, active1, mt, w) = commit_send io dss vss active (wk_metrics k, wk_world k)
                  in (map_err Speculative x,
                      k\<lparr>wk_draft := d, wk_target := t, wk_active := active1, wk_metrics := mt, wk_world := w\<rparr>))"

section \<open>Cleanup\<close>

definition ai_is_done :: "active_internal \<Rightarrow> bool" where
  "ai_is_done a \<longleftrightarrow> generated_count a \<ge> ai_max_new_tokens a \<or> ai_finished a"

definition ai_is_cancelled :: "'w sched_io \<Rightarrow> 'w \<Rightarrow> active_internal \<Rightarrow> bool" where
  "ai_is_cancelled io w a \<longleftrightarrow> cancelled a \<or> tx_is_closed io (ai_token_tx a) w"

text \<open>A request leaves: its slot goes back, a client that is still there is told that it is done, and the
  channels are dropped. \<open>others\<close> is the number of requests that stay.\<close>

definition retire ::
  "'w sched_io \<Rightarrow> usize \<Rightarrow> active_internal \<Rightarrow> (('r, 'j, 'm, 'p, 'd, 't, 'w) worker, engine_error, unit) act" where
  "retire io others a k =
     (case release_slot (ai_slot a) (wk_engine k) of
        (Ok _, e) \<Rightarrow>
          let mt = (wk_metrics k)\<lparr>active_slots := others\<rparr>;
              (mt1, w1) =
                (if ai_is_done a \<and> \<not> ai_is_cancelled io (wk_world k) a
                 then (mt\<lparr>total_requests_completed := total_requests_completed mt + 1\<rparr>,
                       done_send io (ai_done_tx a) (wk_world k))
                 else (mt, wk_world k))
          in (Ok (), k\<lparr>wk_engine := e, wk_metrics := mt1, wk_world := tx_drop io (ai_token_tx a) (ai_done_tx a) w1\<rparr>)
      | (Err err, e) \<Rightarrow> (Err err, k\<lparr>wk_engine := e\<rparr>)
      | (Panic, e) \<Rightarrow> (Panic, k\<lparr>wk_engine := e\<rparr>))"

fun cleanup ::
  "'w sched_io \<Rightarrow> active_internal list \<Rightarrow> active_internal list
   \<Rightarrow> (('r, 'j, 'm, 'p, 'd, 't, 'w) worker, engine_error, unit) act" where
  "cleanup io kept [] k = (Ok (), k\<lparr>wk_active := kept\<rparr>)"
| "cleanup io kept (a # rest) k =
     (if ai_is_done a \<or> ai_is_cancelled io (wk_world k) a
      then and_then (retire io (length kept + length rest) a) (\<lambda>_. cleanup io kept rest) k
      else cleanup io (kept @ [a]) rest k)"

section \<open>The loop\<close>

text \<open>One turn of the loop. The result says whether the loop goes on.\<close>

definition worker_turn ::
  "'w sched_io \<Rightarrow> ('p, 'd, 't) model_control \<Rightarrow> 'r runtime_ops \<Rightarrow> ('d, 'm) draft_model \<Rightarrow> ('t, 'm) target_model
   \<Rightarrow> turn_input \<Rightarrow> (('r, 'j, 'm, 'p, 'd, 't, 'w) worker, engine_error, bool) act" where
  "worker_turn io ctl rt dm tm inp k =
     (let k1 = fold (run_command ctl) (ti_commands inp) k in
      case admit_all io rt dm tm (wk_pending k1 @ ti_requests inp) k1 of
        (Err e, k2) \<Rightarrow> (Err e, k2)
      | (Panic, k2) \<Rightarrow> (Panic, k2)
      | (Ok _, k2) \<Rightarrow>
          if wk_active k2 = [] \<and> wk_pending k2 = []
          then case ti_awaited inp of
                 Some req \<Rightarrow> (Ok True, k2\<lparr>wk_pending := wk_pending k2 @ [req]\<rparr>)
               | None \<Rightarrow> (Ok False, k2)
          else
            let (x, k3) = (if wk_active k2 \<noteq> [] then sched_step io dm tm k2 else (Ok (), k2)) in
            if x = Panic then (Panic, k3)
            else
              case cleanup io [] (wk_active k3) k3 of
                (Ok _, k4) \<Rightarrow> (Ok True, k4)
              | (Err e, k4) \<Rightarrow> (Err e, k4)
              | (Panic, k4) \<Rightarrow> (Panic, k4))"

end
