(* ===== verification/SchedulerProps.thy ===== *)
theory SchedulerProps
  imports Scheduler EngineLive "HOL-Library.Sublist"
begin

text \<open>
  The scheduler's promises: the slots of the admitted requests stay apart whatever the models do; what
  a client receives is at every moment an initial part of the target model's own output, and the
  whole of it when the request is reported done; with models that answer, every request is retired.
\<close>

section \<open>Admission\<close>

lemma admit_request_slots:
  assumes "admit_request io rt dm tm w req (e, d, t) = (x, (e', d', t'))"
  shows "max_slots (eng_slots e') = max_slots (eng_slots e)" "eng_decoder e' = eng_decoder e"
    "x = Ok a \<Longrightarrow> free_slots (eng_slots e) = ai_slot a # free_slots (eng_slots e')"
    "free_slots (eng_slots e') = (if free_slots (eng_slots e) = [] then [] else tl (free_slots (eng_slots e)))"
proof -
  have 1: "max_slots (eng_slots e') = max_slots (eng_slots e) \<and> eng_decoder e' = eng_decoder e \<and>
    (x = Ok a \<longrightarrow> free_slots (eng_slots e) = ai_slot a # free_slots (eng_slots e')) \<and>
    free_slots (eng_slots e') = (if free_slots (eng_slots e) = [] then [] else tl (free_slots (eng_slots e)))" for a
  proof (cases "free_slots (eng_slots e)")
    case Nil
    then show ?thesis using assms by (auto simp: admit_request_def allocate_slot_def slot_alloc_def)
  next
    case (Cons slot rest)
    let ?e1 = "e\<lparr>eng_slots := (eng_slots e)\<lparr>free_slots := rest\<rparr>\<rparr>"
    obtain y e2 where y: "prefill rt (sr_prompt req) ?e1 = (y, e2)" by fastforce
    note k = keepsD [OF keeps_prefill y]
    from assms Cons y have "e' = e2" "x = Ok a \<longrightarrow> ai_slot a = slot"
      by (auto simp: admit_request_def allocate_slot_def slot_alloc_def Let_def split: outcome.splits prod.splits)
    with k Cons show ?thesis by simp
  qed
  show "max_slots (eng_slots e') = max_slots (eng_slots e)" "eng_decoder e' = eng_decoder e"
    "x = Ok a \<Longrightarrow> free_slots (eng_slots e) = ai_slot a # free_slots (eng_slots e')"
    "free_slots (eng_slots e') = (if free_slots (eng_slots e) = [] then [] else tl (free_slots (eng_slots e)))"
    using 1 by blast+
qed

lemma admit_request_fresh:
  assumes "admit_request io rt dm tm w req (e, d, t) = (Ok a, (e', d', t'))"
  shows "decoder_begin (eng_decoder e') (sr_prompt req) = Ok (ai_session a)" "ai_max_new_tokens a = sr_max_new_tokens req"
    "ai_token_tx a = sr_token_tx req" "ai_done_tx a = sr_done_tx req" "generated_count a = 0" "\<not> cancelled a"
  using assms by (auto simp: admit_request_def Let_def split: outcome.splits prod.splits option.splits)

section \<open>Slots\<close>

text \<open>The slots of the admitted requests and the free ones are different and inside the pool.\<close>

definition slots_apart :: "('r, 'j, 'm) engine \<Rightarrow> active_internal list \<Rightarrow> bool" where
  "slots_apart e as \<longleftrightarrow>
     distinct (map ai_slot as @ free_slots (eng_slots e)) \<and>
     (\<forall>s \<in> set (map ai_slot as @ free_slots (eng_slots e)). unat s < max_slots (eng_slots e))"

lemma slots_apart_bound:
  assumes "slots_apart e as"
  shows "length as \<le> max_slots (eng_slots e)"
proof -
  have "unat ` set (map ai_slot as) \<subseteq> {..<max_slots (eng_slots e)}" using assms by (auto simp: slots_apart_def)
  then have "card (unat ` set (map ai_slot as)) \<le> max_slots (eng_slots e)"
    using card_mono [of "{..<max_slots (eng_slots e)}"] by auto
  moreover have "card (unat ` set (map ai_slot as)) = length as"
    using assms distinct_card [of "map ai_slot as"]
    by (subst card_image) (auto simp: slots_apart_def inj_on_def word_unat_eq_iff)
  ultimately show ?thesis by simp
qed

lemma slots_apart_admit:
  assumes "slots_apart e as" "admit_request io rt dm tm w req (e, d, t) = (x, (e', d', t'))"
  shows "slots_apart e' as" "x = Ok a \<Longrightarrow> slots_apart e' (as @ [a])"
proof -
  note F = admit_request_slots [OF assms(2)]
  show "slots_apart e' as" using assms(1) F(1,4)
    by (cases "free_slots (eng_slots e)") (auto simp: slots_apart_def)
  show "slots_apart e' (as @ [a])" if "x = Ok a"
    using assms(1) F(1) F(3) [OF that] by (auto simp: slots_apart_def)
qed

lemma admit_all_slots:
  assumes "admit_all io rt dm tm reqs k = (x, k')" "x \<noteq> Panic" "slots_apart (wk_engine k) (wk_active k)"
  shows "slots_apart (wk_engine k') (wk_active k') \<and> max_slots (eng_slots (wk_engine k')) = max_slots (eng_slots (wk_engine k))
     \<and> eng_decoder (wk_engine k') = eng_decoder (wk_engine k)"
  using assms
proof (induction io rt dm tm reqs k rule: admit_all.induct)
  case (2 io rt dm tm req pending k)
  obtain y e d t where y: "admit_request io rt dm tm (wk_world k) req (wk_engine k, wk_draft k, wk_target k) = (y, (e, d, t))"
    by (metis prod.collapse)
  note F = admit_request_slots [OF y] slots_apart_admit [OF 2(5) y]
  show ?case
  proof (cases "length (wk_active k) < slot_pool_capacity (wk_engine k)")
    case True
    then show ?thesis using 2 y F by (cases y) auto
  next
    case False
    then show ?thesis using 2 by auto
  qed
qed auto

lemma retire_Ok:
  assumes "unat (ai_slot a) < max_slots (eng_slots (wk_engine k))"
  shows "\<exists>mt. retire io n a k =
     (Ok (), k\<lparr>wk_engine := (wk_engine k)\<lparr>eng_slots := slot_give (ai_slot a) (eng_slots (wk_engine k))\<rparr>, wk_metrics := mt,
        wk_world := tx_drop io (ai_token_tx a) (ai_done_tx a)
          (if ai_is_done a \<and> \<not> ai_is_cancelled io (wk_world k) a then done_send io (ai_done_tx a) (wk_world k)
           else wk_world k)\<rparr>)"
  using assms by (auto simp: retire_def release_slot_def slot_release_def slot_give_def Let_def)

lemma slots_apart_give:
  assumes "slots_apart e (as @ a # bs)"
  shows "slots_apart (e\<lparr>eng_slots := slot_give (ai_slot a) (eng_slots e)\<rparr>) (as @ bs)" "unat (ai_slot a) < max_slots (eng_slots e)"
  using assms by (auto simp: slots_apart_def slot_give_def)

lemma cleanup_slots:
  assumes "slots_apart (wk_engine k) (kept @ rest)" "cleanup io kept rest k = (x, k')"
  shows "\<exists>gone. x = Ok () \<and> slots_apart (wk_engine k') (wk_active k') \<and>
    max_slots (eng_slots (wk_engine k')) = max_slots (eng_slots (wk_engine k)) \<and>
    eng_decoder (wk_engine k') = eng_decoder (wk_engine k) \<and>
    free_slots (eng_slots (wk_engine k')) = free_slots (eng_slots (wk_engine k)) @ map ai_slot gone \<and>
    mset (wk_active k') + mset gone = mset kept + mset rest"
  using assms
proof (induction rest arbitrary: kept k)
  case Nil
  then show ?case by (auto intro: exI [of _ "[]"])
next
  case (Cons a rest)
  show ?case
  proof (cases "ai_is_done a \<or> ai_is_cancelled io (wk_world k) a")
    case True
    note ap = slots_apart_give [OF Cons.prems(1)]
    from retire_Ok [OF ap(2)] obtain k1 where r: "retire io (length kept + length rest) a k = (Ok (), k1)"
      and k1: "wk_engine k1 = (wk_engine k)\<lparr>eng_slots := slot_give (ai_slot a) (eng_slots (wk_engine k))\<rparr>" by fastforce
    from Cons.IH [of k1 kept] ap(1) Cons.prems(2) True r obtain gone where
      "x = Ok ()" "slots_apart (wk_engine k') (wk_active k')" "max_slots (eng_slots (wk_engine k')) = max_slots (eng_slots (wk_engine k1))"
      "eng_decoder (wk_engine k') = eng_decoder (wk_engine k1)"
      "free_slots (eng_slots (wk_engine k')) = free_slots (eng_slots (wk_engine k1)) @ map ai_slot gone"
      "mset (wk_active k') + mset gone = mset kept + mset rest"
      unfolding k1 by (auto simp: and_then_def)
    then show ?thesis by (intro exI [of _ "a # gone"]) (simp add: k1 slot_give_def)
  next
    case False
    with Cons.IH [of k "kept @ [a]"] Cons.prems show ?thesis by auto
  qed
qed

section \<open>What a round keeps of a request\<close>

definition same_internal :: "active_internal \<Rightarrow> active_internal \<Rightarrow> bool" where
  "same_internal a b \<longleftrightarrow>
     ai_slot b = ai_slot a \<and> ai_max_new_tokens b = ai_max_new_tokens a \<and> ai_token_tx b = ai_token_tx a \<and>
     ai_done_tx b = ai_done_tx a \<and> ai_finished b = ai_finished a"

lemma same_internal_refl [simp]: "same_internal a a"
  by (simp add: same_internal_def)

lemma send_accepted_same:
  "send_accepted io toks (a, mt, w) = (a', mt', w') \<Longrightarrow> same_internal a a' \<and> ai_session a' = ai_session a"
proof (induction toks arbitrary: a mt w)
  case (Cons tok toks)
  obtain a1 mt1 w1 where n: "note_first io (a, mt, w) = (a1, mt1, w1)" by (metis prod.collapse)
  then have "same_internal a a1" "ai_session a1 = ai_session a" by (auto simp: note_first_def same_internal_def split: if_splits)
  with Cons.IH [of "a1\<lparr>generated_count := generated_count a1 + 1\<rparr>"] Cons.prems n show ?case
    by (auto simp: count_token_def same_internal_def Let_def split: if_splits prod.splits)
qed (simp add: same_internal_def)

lemma send_rejected_same:
  "send_rejected io (a, mt, w) = (a', mt', w') \<Longrightarrow> same_internal a a' \<and> prompt (ai_session a') = prompt (ai_session a)"
  by (auto simp: send_rejected_def note_first_def count_token_def same_internal_def take_rejected_token_def Let_def
      split: if_splits option.splits prod.splits)

lemma session_commit_prompt:
  assumes "session_commit ds vs s = (x, s')"
  shows "prompt s' = prompt s"
proof (cases "length vs = length ds")
  case True
  let ?s1 = "s\<lparr>stats := (stats s)\<lparr>drafted_tokens := drafted_tokens (stats s) + length ds\<rparr>\<rparr>"
  obtain acc s2 where "settle (map token ds) vs ?s1 = (acc, s2)" by fastforce
  with settle_fields(4) [OF _ this] True assms show ?thesis by (simp add: session_commit_def)
qed (use assms in \<open>simp add: session_commit_def\<close>)

lemma commit_request_same:
  assumes "commit_request io ds vs (a, mt, w) = (x, (b, mt', w'))"
  shows "same_internal a b \<and> prompt (ai_session b) = prompt (ai_session a)"
proof -
  obtain y s where c: "session_commit ds vs (ai_session a) = (y, s)" by fastforce
  note p = session_commit_prompt [OF c]
  show ?thesis
  proof (cases y)
    case (Ok accepted)
    obtain a1 mt1 w1 where 1: "send_accepted io accepted (a\<lparr>ai_session := s\<rparr>, mt, w) = (a1, mt1, w1)" by (metis prod.collapse)
    with assms c Ok send_accepted_same [OF 1] send_rejected_same [of io a1 mt1 w1 b mt' w'] p show ?thesis
      by (auto simp: commit_request_def same_internal_def split: if_splits)
  qed (use assms c p in \<open>auto simp: commit_request_def same_internal_def\<close>)
qed

lemma commit_send_same:
  "commit_send io dss vss as (mt, w) = (x, bs, mt', w') \<Longrightarrow>
     list_all2 (\<lambda>a b. same_internal a b \<and> prompt (ai_session b) = prompt (ai_session a)) as bs"
proof (induction as arbitrary: dss vss mt w bs mt' w' x)
  case (Cons a as)
  show ?case
  proof (cases "dss = [] \<or> vss = []")
    case True
    then show ?thesis using Cons.prems by (cases dss) (auto simp: list_all2_same)
  next
    case False
    then obtain ds dss' vs vss' where d: "dss = ds # dss'" "vss = vs # vss'" by (auto simp: neq_Nil_conv)
    obtain y b mt1 w1 where c: "commit_request io ds vs (a, mt, w) = (y, (b, mt1, w1))" by (metis prod.collapse)
    from commit_request_same [OF c] Cons.prems Cons.IH c d show ?thesis
      by (cases y) (auto simp: list_all2_same split: prod.splits)
  qed
qed auto

lemma sched_step_frame:
  assumes "sched_step io dm tm k = (x, k')"
  shows "wk_engine k' = wk_engine k" "wk_pending k' = wk_pending k"
    "list_all2 (\<lambda>a b. same_internal a b \<and> prompt (ai_session b) = prompt (ai_session a)) (wk_active k) (wk_active k')"
  using assms commit_send_same
  by (auto simp: sched_step_def Let_def list_all2_same split: if_splits outcome.splits prod.splits; fastforce)+

lemma same_internal_slots:
  "list_all2 (\<lambda>a b. same_internal a b \<and> Q a b) as bs \<Longrightarrow> map ai_slot bs = map ai_slot as"
  by (induction rule: list_all2_induct) (auto simp: same_internal_def)

lemma fold_commands:
  "wk_engine (fold (run_command ctl) cs k) = wk_engine k" "wk_active (fold (run_command ctl) cs k) = wk_active k"
  "wk_pending (fold (run_command ctl) cs k) = wk_pending k" "wk_world (fold (run_command ctl) cs k) = wk_world k"
  "wk_metrics (fold (run_command ctl) cs k) = wk_metrics k"
proof -
  have *: "wk_engine (run_command ctl c k) = wk_engine k \<and> wk_active (run_command ctl c k) = wk_active k \<and>
    wk_pending (run_command ctl c k) = wk_pending k \<and> wk_world (run_command ctl c k) = wk_world k \<and>
    wk_metrics (run_command ctl c k) = wk_metrics k" for c and k :: "('a, 'b, 'c, 'd, 'e, 'f, 'g) worker"
    by (cases c) (auto simp: Let_def split: option.splits)
  show "wk_engine (fold (run_command ctl) cs k) = wk_engine k" "wk_active (fold (run_command ctl) cs k) = wk_active k"
    "wk_pending (fold (run_command ctl) cs k) = wk_pending k" "wk_world (fold (run_command ctl) cs k) = wk_world k"
    "wk_metrics (fold (run_command ctl) cs k) = wk_metrics k"
    by (induction cs arbitrary: k) (auto simp: *)
qed

lemma worker_turn_slots:
  assumes "worker_turn io ctl rt dm tm inp k = (Ok goes_on, k')" "slots_apart (wk_engine k) (wk_active k)"
  shows "slots_apart (wk_engine k') (wk_active k')" "max_slots (eng_slots (wk_engine k')) = max_slots (eng_slots (wk_engine k))"
    "eng_decoder (wk_engine k') = eng_decoder (wk_engine k)"
proof -
  let ?k1 = "fold (run_command ctl) (ti_commands inp) k"
  obtain y k2 where a: "admit_all io rt dm tm (wk_pending ?k1 @ ti_requests inp) ?k1 = (y, k2)" by fastforce
  with assms(1) have y: "y = Ok ()" by (cases y) (auto simp: worker_turn_def Let_def)
  have s2: "slots_apart (wk_engine k2) (wk_active k2) \<and> max_slots (eng_slots (wk_engine k2)) = max_slots (eng_slots (wk_engine k))
      \<and> eng_decoder (wk_engine k2) = eng_decoder (wk_engine k)"
    using admit_all_slots [OF a] y assms(2) by (simp add: fold_commands)
  have "slots_apart (wk_engine k') (wk_active k') \<and> max_slots (eng_slots (wk_engine k')) = max_slots (eng_slots (wk_engine k)) \<and>
     eng_decoder (wk_engine k') = eng_decoder (wk_engine k)"
  proof (cases "wk_active k2 = [] \<and> wk_pending k2 = []")
    case True
    then show ?thesis using assms(1) a y s2 by (auto simp: worker_turn_def Let_def split: option.splits)
  next
    case False
    obtain x k3 where st: "(if wk_active k2 \<noteq> [] then sched_step io dm tm k2 else (Ok (), k2)) = (x, k3)" by fastforce
    then have "wk_engine k3 = wk_engine k2" "map ai_slot (wk_active k3) = map ai_slot (wk_active k2)"
      using sched_step_frame [of io dm tm k2 x k3] same_internal_slots [of _ "wk_active k2" "wk_active k3"] by (auto split: if_splits)
    with s2 have s3: "slots_apart (wk_engine k3) ([] @ wk_active k3)" by (auto simp: slots_apart_def)
    obtain z k4 where c: "cleanup io [] (wk_active k3) k3 = (z, k4)" by fastforce
    have "k' = k4" using assms(1) a y st c False cleanup_slots [OF s3 c]
      by (auto simp: worker_turn_def Let_def split: if_splits)
    with cleanup_slots [OF s3 c] s2 \<open>wk_engine k3 = wk_engine k2\<close> show ?thesis by auto
  qed
  then show "slots_apart (wk_engine k') (wk_active k')" "max_slots (eng_slots (wk_engine k')) = max_slots (eng_slots (wk_engine k))"
    "eng_decoder (wk_engine k') = eng_decoder (wk_engine k)" by blast+
qed

section \<open>What the clients receive\<close>

text \<open>The channels' documented behaviour, over what has been put on each token channel (\<open>received\<close>) and
  which requests have been notified (\<open>notified\<close>): a send appends its token when it succeeds and does
  nothing when it fails, the notice goes to its own channel, and dropping a sender sends nothing.\<close>

definition faithful_io ::
  "'w sched_io \<Rightarrow> ('w \<Rightarrow> channel \<Rightarrow> token_id list) \<Rightarrow> ('w \<Rightarrow> channel set) \<Rightarrow> bool" where
  "faithful_io io received notified \<longleftrightarrow>
     (\<forall>c t w. received (snd (tx_send io c t w)) =
        (if fst (tx_send io c t w) then (received w)(c := received w c @ [t]) else received w) \<and>
        notified (snd (tx_send io c t w)) = notified w) \<and>
     (\<forall>c w. received (done_send io c w) = received w \<and> notified (done_send io c w) \<subseteq> insert c (notified w)) \<and>
     (\<forall>c d w. received (tx_drop io c d w) = received w \<and> notified (tx_drop io c d w) = notified w)"

lemma faithful_send:
  assumes "faithful_io io received notified" "tx_send io c t w = (sent, w')"
  shows "received w' = (if sent then (received w)(c := received w c @ [t]) else received w)" "notified w' = notified w"
  using assms unfolding faithful_io_def by (metis fst_conv snd_conv)+

text \<open>\<open>sent_more\<close>: the effect of a group of sends of the tokens \<open>toks\<close> on behalf of one request; the
  sends stop at the first one that fails.\<close>

definition sent_more :: "('w \<Rightarrow> channel \<Rightarrow> token_id list) \<Rightarrow> token_id list \<Rightarrow> active_internal \<times> 'w \<Rightarrow> active_internal \<times> 'w \<Rightarrow> bool" where
  "sent_more received toks = (\<lambda>(a, w) (b, v).
     if cancelled b then \<exists>n \<le> length toks. received v = (received w)(ai_token_tx a := received w (ai_token_tx a) @ take n toks)
     else received v = (received w)(ai_token_tx a := received w (ai_token_tx a) @ toks) \<and>
       generated_count b = generated_count a + length toks)"

lemma note_first_same:
  assumes "note_first io (a, mt, w) = (a', mt', w')"
  shows "w' = w" "ai_token_tx a' = ai_token_tx a" "generated_count a' = generated_count a" "cancelled a' = cancelled a"
    "ai_session a' = ai_session a"
  using assms by (auto simp: note_first_def split: if_splits)

lemma send_accepted_sent:
  assumes io: "faithful_io io received notified"
  shows "send_accepted io toks (a, mt, w) = (b, mt', v) \<Longrightarrow> \<not> cancelled a \<Longrightarrow>
    sent_more received toks (a, w) (b, v) \<and> notified v = notified w"
proof (induction toks arbitrary: a mt w)
  case Nil
  then show ?case by (simp add: sent_more_def)
next
  case (Cons tok toks)
  obtain a1 mt1 w1 where n: "note_first io (a, mt, w) = (a1, mt1, w1)" by (metis prod.collapse)
  note N = note_first_same [OF n]
  obtain sent w2 where s: "tx_send io (ai_token_tx a) tok w = (sent, w2)" by fastforce
  note S = faithful_send [OF io s]
  show ?case
  proof (cases sent)
    case True
    let ?a2 = "a1\<lparr>generated_count := generated_count a1 + 1\<rparr>"
    have "send_accepted io toks (?a2, mt1\<lparr>total_tokens_generated := total_tokens_generated mt1 + 1\<rparr>, w2) = (b, mt', v)"
      using Cons.prems(1) n s N True by (simp add: count_token_def)
    from Cons.IH [OF this] Cons.prems(2) N have "sent_more received toks (?a2, w2) (b, v)" "notified v = notified w2" by simp_all
    then show ?thesis
      using S True N Cons.prems(2) by (auto simp: sent_more_def split: if_splits)
  next
    case False
    then show ?thesis using Cons.prems n s N S by (auto simp: sent_more_def intro!: exI [of _ 0])
  qed
qed

lemma send_rejected_sent:
  assumes io: "faithful_io io received notified" and run: "send_rejected io (a, mt, w) = (b, mt', v)" "\<not> cancelled a"
  shows "sent_more received (rejection (ai_session a)) (a, w) (b, v) \<and> notified v = notified w \<and>
    ai_session b = (ai_session a)\<lparr>rejected_token := None\<rparr>"
proof (cases "rejected_token (ai_session a)")
  case None
  then show ?thesis using run by (simp add: send_rejected_def has_pending_rejection_def sent_more_def rejection_def)
next
  case (Some tok)
  let ?a0 = "a\<lparr>ai_session := (ai_session a)\<lparr>rejected_token := None\<rparr>\<rparr>"
  obtain a1 mt1 w1 where n: "note_first io (?a0, mt, w) = (a1, mt1, w1)" by (metis prod.collapse)
  note N = note_first_same [OF n]
  obtain sent w2 where s: "tx_send io (ai_token_tx a) tok w = (sent, w2)" by fastforce
  note S = faithful_send [OF io s]
  have "b = (if sent then a1 else a1\<lparr>cancelled := True\<rparr>)\<lparr>generated_count := generated_count a1 + 1\<rparr>" "v = w2"
    using run(1) Some n s N
    by (auto simp: send_rejected_def has_pending_rejection_def take_rejected_token_def count_token_def)
  then show ?thesis using S N Some run(2) by (auto simp: sent_more_def rejection_def intro!: exI [of _ 0])
qed

text \<open>The state of an admitted request and its channel between two rounds.\<close>

definition streaming :: "(token_id list \<Rightarrow> token_id) \<Rightarrow> (channel \<Rightarrow> token_id list) \<Rightarrow> active_internal \<Rightarrow> bool" where
  "streaming next recv a \<longleftrightarrow>
     (let g = recv (ai_token_tx a); s = ai_session a in
      prefix g (greedy next (prompt s) (ai_max_new_tokens a)) \<and>
      (\<not> cancelled a \<longrightarrow>
         generated_count a = length g \<and> sess_context s = prompt s @ g \<and> rejected_token s = None \<and> 1 \<le> draft_window s))"

lemma streaming_cong: "recv' (ai_token_tx a) = recv (ai_token_tx a) \<Longrightarrow> streaming next recv' a = streaming next recv a"
  by (simp add: streaming_def)

lemma prefix_greedy: "m \<le> n \<Longrightarrow> prefix (greedy next p m) (greedy next p n)"
  using greedy_add [of "next" p m "n - m"] by simp

lemma prefix_greedy_eq: "prefix g (greedy next p n) \<Longrightarrow> g = greedy next p (length g) \<and> length g \<le> n"
proof -
  assume g: "prefix g (greedy next p n)"
  then have le: "length g \<le> n" using prefix_length_le by fastforce
  from prefix_greedy [OF this] g have "prefix g (greedy next p (length g))"
    using prefix_length_prefix [of g "greedy next p n" "greedy next p (length g)"] by auto
  moreover have "length (greedy next p (length g)) = length g" by simp
  ultimately have "g = greedy next p (length g)" by (metis append_eq_conv_conj prefixE take_all_iff order_refl)
  with le show ?thesis by blast
qed

lemma commit_request_sent:
  assumes io: "faithful_io io received notified" and c: "session_commit ds vs (ai_session a) = (Ok acc, s)"
    and nc: "\<not> cancelled a" and run: "commit_request io ds vs (a, mt, w) = (x, (b, mt', v))"
  shows "x = Ok () \<and> sent_more received (acc @ rejection s) (a, w) (b, v) \<and> notified v = notified w \<and>
    (\<not> cancelled b \<longrightarrow> ai_session b = s\<lparr>rejected_token := None\<rparr>)"
proof -
  let ?a0 = "a\<lparr>ai_session := s\<rparr>"
  obtain a1 mt1 w1 where sa: "send_accepted io acc (?a0, mt, w) = (a1, mt1, w1)" by (metis prod.collapse)
  from send_accepted_sent [OF io sa] nc have A: "sent_more received acc (a, w) (a1, w1)" "notified w1 = notified w"
    by (auto simp: sent_more_def)
  from send_accepted_same [OF sa] have A1: "ai_token_tx a1 = ai_token_tx a" "ai_session a1 = s" by (auto simp: same_internal_def)
  show ?thesis
  proof (cases "cancelled a1")
    case True
    with run c sa have b: "x = Ok ()" "b = a1" "v = w1" by (auto simp: commit_request_def)
    from A(1) True obtain n where "n \<le> length acc" "received w1 = (received w)(ai_token_tx a := received w (ai_token_tx a) @ take n acc)"
      by (auto simp: sent_more_def)
    with A(2) True b show ?thesis by (auto simp: sent_more_def intro!: exI [of _ n])
  next
    case False
    with run c sa have rj: "x = Ok ()" "send_rejected io (a1, mt1, w1) = (b, mt', v)" by (auto simp: commit_request_def)
    from send_rejected_sent [OF io rj(2) False] A1 have R: "sent_more received (rejection s) (a1, w1) (b, v)" "notified v = notified w1"
      "ai_session b = s\<lparr>rejected_token := None\<rparr>" by simp_all
    have w1: "received w1 = (received w)(ai_token_tx a := received w (ai_token_tx a) @ acc)" "generated_count a1 = generated_count a + length acc"
      using A(1) False by (auto simp: sent_more_def)
    have "sent_more received (acc @ rejection s) (a, w) (b, v)"
    proof (cases "cancelled b")
      case True
      with R(1) obtain n where "n \<le> length (rejection s)" "received v = (received w1)(ai_token_tx a := received w1 (ai_token_tx a) @ take n (rejection s))"
        using A1 by (auto simp: sent_more_def)
      with True w1 show ?thesis by (auto simp: sent_more_def intro!: exI [of _ "length acc + n"])
    qed (use R(1) A1 w1 in \<open>auto simp: sent_more_def\<close>)
    with R A(2) rj(1) show ?thesis by simp
  qed
qed

text \<open>A commit on honest answers keeps the request in step with the target's own output.\<close>

lemma commit_request_streams:
  assumes io: "faithful_io io received notified" and ok: "streaming next (received w) a" "\<not> cancelled a"
    and len: "length ds \<le> ai_max_new_tokens a - generated_count a"
    and run: "commit_request io ds (replies next (sess_context (ai_session a)) (map token ds)) (a, mt, w) = (x, (b, mt', v))"
  shows "x = Ok () \<and> streaming next (received v) b \<and> notified v = notified w \<and>
    (\<forall>c. c \<noteq> ai_token_tx a \<longrightarrow> received v c = received w c) \<and>
    (ds \<noteq> [] \<longrightarrow> \<not> cancelled b \<longrightarrow> generated_count a < generated_count b)"
proof -
  let ?s = "ai_session a" and ?c = "ai_token_tx a" and ?ctx = "sess_context (ai_session a)"
  let ?vs = "replies next ?ctx (map token ds)"
  let ?s1 = "?s\<lparr>stats := (stats ?s)\<lparr>drafted_tokens := drafted_tokens (stats ?s) + length ds\<rparr>\<rparr>"
  define g where "g = received w ?c"
  have G: "prefix g (greedy next (prompt ?s) (ai_max_new_tokens a))" "generated_count a = length g"
    "?ctx = prompt ?s @ g" "1 \<le> draft_window ?s"
    using ok by (auto simp: streaming_def g_def Let_def)
  obtain acc s2 where st: "settle (map token ds) ?vs ?s1 = (acc, s2)" by fastforce
  from settle_greedy [of "map token ds" "next" ?s1 acc s2] st obtain k where
    k: "k \<le> length ds" "acc @ rejection s2 = greedy next ?ctx k" "sess_context s2 = ?ctx @ greedy next ?ctx k" "ds \<noteq> [] \<longrightarrow> 0 < k"
    by (auto simp: rejection_def)
  note F = settle_fields [OF _ st]
  have p2: "prompt s2 = prompt ?s" "1 \<le> draft_window s2" using F(4,6) G(4) by simp_all
  have full: "g @ greedy next ?ctx k = greedy next (prompt ?s) (length g + k)"
    using prefix_greedy_eq [OF G(1)] G(3) by (simp add: greedy_add)
  have bound: "length g + k \<le> ai_max_new_tokens a"
    using k(1) len G(2) prefix_greedy_eq [OF G(1)] by linarith
  have pre: "prefix (g @ take n (greedy next ?ctx k)) (greedy next (prompt ?s) (ai_max_new_tokens a))" for n
  proof (rule prefix_order.trans)
    show "prefix (g @ take n (greedy next ?ctx k)) (g @ greedy next ?ctx k)" by (simp add: take_is_prefix)
    show "prefix (g @ greedy next ?ctx k) (greedy next (prompt ?s) (ai_max_new_tokens a))"
      unfolding full by (rule prefix_greedy [OF bound])
  qed
  have "session_commit ds ?vs ?s = (Ok acc, s2)" using st by (simp add: session_commit_def)
  from commit_request_sent [OF io this ok(2) run] k(2) have S: "x = Ok ()" "sent_more received (greedy next ?ctx k) (a, w) (b, v)"
    "notified v = notified w" "\<not> cancelled b \<longrightarrow> ai_session b = s2\<lparr>rejected_token := None\<rparr>" by simp_all
  have same: "ai_token_tx b = ?c" "ai_max_new_tokens b = ai_max_new_tokens a" "prompt (ai_session b) = prompt ?s"
    using commit_request_same [OF run] by (auto simp: same_internal_def)
  show ?thesis
  proof (cases "cancelled b")
    case True
    with S(2) obtain n where "received v = (received w)(?c := g @ take n (greedy next ?ctx k))" by (auto simp: sent_more_def g_def)
    with True pre same S show ?thesis by (auto simp: streaming_def Let_def)
  next
    case False
    with S(2) have "received v = (received w)(?c := g @ greedy next ?ctx k)" "generated_count b = length g + k"
      by (auto simp: sent_more_def g_def G(2))
    with False pre [of k] same S k G p2 show ?thesis by (auto simp: streaming_def Let_def)
  qed
qed

text \<open>A whole round: every request stays in step, and only the channels of the batch are touched.\<close>

lemma commit_send_streams:
  assumes io: "faithful_io io received notified"
  shows "\<forall>a \<in> set as. streaming next (received w) a \<and> \<not> cancelled a \<Longrightarrow> distinct (map ai_token_tx as) \<Longrightarrow>
    list_all2 (\<lambda>a ds. length ds \<le> ai_max_new_tokens a - generated_count a) as dss \<Longrightarrow>
    commit_send io dss (map2 (\<lambda>a ds. replies next (sess_context (ai_session a)) (map token ds)) as dss) as (mt, w) = (x, bs, mt', v) \<Longrightarrow>
    x = Ok () \<and> (\<forall>b \<in> set bs. streaming next (received v) b) \<and> notified v = notified w \<and>
    (\<forall>c. c \<notin> ai_token_tx ` set as \<longrightarrow> received v c = received w c) \<and>
    (list_all (\<lambda>ds. ds \<noteq> []) dss \<longrightarrow> list_all2 (\<lambda>a b. \<not> cancelled b \<longrightarrow> generated_count a < generated_count b) as bs)"
proof (induction as arbitrary: dss w mt bs)
  case (Cons a as)
  then obtain ds dss' where d: "dss = ds # dss'" "length ds \<le> ai_max_new_tokens a - generated_count a"
    "list_all2 (\<lambda>a ds. length ds \<le> ai_max_new_tokens a - generated_count a) as dss'" by (auto simp: list_all2_Cons1)
  let ?vs = "replies next (sess_context (ai_session a)) (map token ds)"
  obtain y b mt1 w1 where c: "commit_request io ds ?vs (a, mt, w) = (y, (b, mt1, w1))" by (metis prod.collapse)
  have "streaming next (received w) a" "\<not> cancelled a" using Cons.prems(1) by simp_all
  note C = commit_request_streams [OF io this d(2) c]
  obtain bs' where r: "commit_send io dss' (map2 (\<lambda>a ds. replies next (sess_context (ai_session a)) (map token ds)) as dss') as (mt1, w1) = (x, bs', mt', v)"
    "bs = b # bs'" using Cons.prems(4) c C d(1) by (auto split: prod.splits)
  have "received w1 (ai_token_tx a') = received w (ai_token_tx a')" if "a' \<in> set as" for a'
  proof -
    have "ai_token_tx a' \<noteq> ai_token_tx a" using that Cons.prems(2) by (metis distinct.simps(2) image_eqI list.simps(9) set_map)
    then show ?thesis using C by blast
  qed
  with Cons.prems(1) have "\<forall>a \<in> set as. streaming next (received w1) a \<and> \<not> cancelled a"
    using streaming_cong [of "received w1" _ "received w"] by auto
  from Cons.IH [OF this _ d(3) r(1)] Cons.prems(2) have R: "x = Ok ()" "\<forall>b \<in> set bs'. streaming next (received v) b" "notified v = notified w1"
    "\<forall>c. c \<notin> ai_token_tx ` set as \<longrightarrow> received v c = received w1 c"
    "list_all (\<lambda>ds. ds \<noteq> []) dss' \<longrightarrow> list_all2 (\<lambda>a b. \<not> cancelled b \<longrightarrow> generated_count a < generated_count b) as bs'" by auto
  have "ai_token_tx b = ai_token_tx a" using commit_request_same [OF c] by (simp add: same_internal_def)
  then have "received v (ai_token_tx b) = received w1 (ai_token_tx b)" using R(4) Cons.prems(2) by auto
  then have "streaming next (received v) b" using C streaming_cong [of "received v" b "received w1"] by simp
  with R C r(2) d(1) show ?case by auto
qed auto

text \<open>What the models may do: the draft model may fail or offer anything within the window, the target
  may fail, but its answers are those of \<open>next\<close>.\<close>

definition drafts_within :: "('d, 'm) draft_model \<Rightarrow> bool" where
  "drafts_within dm \<longleftrightarrow>
     (\<forall>rs ms d dss st. length ms = length rs \<longrightarrow> d_draft_batch dm rs (ms, d) = (Ok dss, st) \<longrightarrow> list_all2 (\<lambda>(ctx, n) ds. length ds \<le> n) rs dss)"

definition verifies_as :: "('t, 'm) target_model \<Rightarrow> (token_id list \<Rightarrow> token_id) \<Rightarrow> bool" where
  "verifies_as tm next \<longleftrightarrow>
     (\<forall>rs ms t vss st. t_verify_batch tm rs (ms, t) = (Ok vss, st) \<longrightarrow> vss = map (\<lambda>(ctx, ds). replies next ctx ds) rs)"

lemma sched_step_streams:
  assumes io: "faithful_io io received notified" and dm: "drafts_within dm" and tm: "verifies_as tm next"
    and ok: "\<forall>a \<in> set (wk_active k). streaming next (received (wk_world k)) a \<and> \<not> cancelled a"
    and dist: "distinct (map ai_token_tx (wk_active k))" and run: "sched_step io dm tm k = (x, k')"
  shows "(\<forall>a \<in> set (wk_active k'). streaming next (received (wk_world k')) a) \<and>
    notified (wk_world k') = notified (wk_world k) \<and>
    (\<forall>c. c \<notin> ai_token_tx ` set (wk_active k) \<longrightarrow> received (wk_world k') c = received (wk_world k) c)"
proof (cases "wk_active k' = wk_active k \<and> wk_world k' = wk_world k")
  case True
  then show ?thesis using ok by simp
next
  case False
  let ?as = "wk_active k"
  let ?reqs = "map (\<lambda>a. (sess_context (ai_session a), min (dec_draft_window (eng_decoder (wk_engine k))) (ai_max_new_tokens a - generated_count a))) ?as"
  from False run obtain dss ms d where d: "d_draft_batch dm ?reqs (map (\<lambda>_. None) ?as, wk_draft k) = (Ok dss, (ms, d))"
    by (auto simp: sched_step_def Let_def split: if_splits outcome.splits prod.splits)
  let ?vreqs = "map (\<lambda>(a, ds). (sess_context (ai_session a), map token ds)) (zip ?as dss)"
  from False run d obtain vss ms' t where v: "t_verify_batch tm ?vreqs (map (\<lambda>_. None) ?as, wk_target k) = (Ok vss, (ms', t))"
    by (auto simp: sched_step_def Let_def split: if_splits outcome.splits prod.splits)
  have vss: "vss = map2 (\<lambda>a ds. replies next (sess_context (ai_session a)) (map token ds)) ?as dss"
    using tm v unfolding verifies_as_def by (fastforce simp: split_beta)
  have "list_all2 (\<lambda>(ctx, n) ds. length ds \<le> n) ?reqs dss" using dm d unfolding drafts_within_def by (metis (no_types, lifting) length_map)
  then have l: "list_all2 (\<lambda>a ds. length ds \<le> ai_max_new_tokens a - generated_count a) ?as dss"
    unfolding list_all2_map1 by (rule list_all2_mono) auto
  from False run d v obtain y mt where c: "commit_send io dss vss ?as (wk_metrics k, wk_world k) = (y, wk_active k', mt, wk_world k')"
    by (auto simp: sched_step_def Let_def split: if_splits prod.splits)
  from commit_send_streams [OF io ok dist l c [unfolded vss]] show ?thesis by simp
qed

section \<open>The worker's life\<close>

definition serves :: "sched_request \<Rightarrow> active_internal \<Rightarrow> bool" where
  "serves r a \<longleftrightarrow>
     ai_token_tx a = sr_token_tx r \<and> ai_done_tx a = sr_done_tx r \<and> ai_max_new_tokens a = sr_max_new_tokens r \<and>
     prompt (ai_session a) = sr_prompt r"

text \<open>The state between the phases of a turn: \<open>subs\<close> are all requests received so far.\<close>

definition sched_ok ::
  "(token_id list \<Rightarrow> token_id) \<Rightarrow> ('w \<Rightarrow> channel \<Rightarrow> token_id list) \<Rightarrow> ('w \<Rightarrow> channel set) \<Rightarrow> sched_request list
   \<Rightarrow> active_internal list \<Rightarrow> sched_request list \<Rightarrow> 'w \<Rightarrow> bool" where
  "sched_ok next received notified subs act pend w \<longleftrightarrow>
     distinct (map sr_token_tx subs) \<and> distinct (map sr_done_tx subs) \<and>
     distinct (map ai_token_tx act @ map sr_token_tx pend) \<and> set pend \<subseteq> set subs \<and>
     (\<forall>r \<in> set pend. received w (sr_token_tx r) = []) \<and>
     (\<forall>a \<in> set act. streaming next (received w) a \<and> \<not> ai_finished a \<and> (\<exists>r \<in> set subs. serves r a)) \<and>
     (\<forall>r \<in> set subs. prefix (received w (sr_token_tx r)) (greedy next (sr_prompt r) (sr_max_new_tokens r)) \<and>
        (sr_done_tx r \<in> notified w \<longrightarrow>
           received w (sr_token_tx r) = greedy next (sr_prompt r) (sr_max_new_tokens r) \<and>
           sr_token_tx r \<notin> set (map ai_token_tx act @ map sr_token_tx pend)))"

lemma sched_ok_world:
  assumes "sched_ok next received notified subs act pend w" "received w' = received w" "notified w' = notified w"
  shows "sched_ok next received notified subs act pend w'"
  using assms by (simp add: sched_ok_def)

lemma sched_ok_drop_pending:
  assumes "sched_ok next received notified subs act (r # pend) w"
  shows "sched_ok next received notified subs act pend w"
  using assms by (auto simp: sched_ok_def)

lemma sched_ok_admit:
  assumes ok: "sched_ok next received notified subs act (r # pend) w"
    and a: "decoder_begin dec (sr_prompt r) = Ok (ai_session a)" "serves r a" "generated_count a = 0" "\<not> ai_finished a"
      "0 < dec_draft_window dec"
  shows "sched_ok next received notified subs (act @ [a]) pend w"
proof -
  have s: "ai_session a = \<lparr>draft_window = dec_draft_window dec, max_window = dec_max_window dec, prompt = sr_prompt r,
      sess_context = sr_prompt r, stats = spec_stats_default, rejected_token = None\<rparr>"
    using a(1) unfolding decoder_begin_def by (metis outcome.inject(1))
  have g: "received w (ai_token_tx a) = []" using ok a(2) by (simp add: sched_ok_def serves_def)
  have "streaming next (received w) a" using g s a(3,5) by (simp add: streaming_def)
  with ok a show ?thesis by (auto simp: sched_ok_def serves_def)
qed

lemma sched_ok_channels:
  "sched_ok next received notified subs act pend w \<Longrightarrow>
     set (map ai_token_tx act @ map sr_token_tx pend) \<subseteq> set (map sr_token_tx subs)"
  by (auto simp: sched_ok_def serves_def)

lemma distinct_append_outside:
  "distinct xs \<Longrightarrow> distinct (ss @ zs) \<Longrightarrow> set xs \<subseteq> set ss \<Longrightarrow> distinct (xs @ zs)"
  by auto

lemma sched_ok_arrivals:
  assumes ok: "sched_ok next received notified subs act pend w"
    and d: "distinct (map sr_token_tx (subs @ new))" "distinct (map sr_done_tx (subs @ new))"
    and new: "\<forall>r \<in> set new. received w (sr_token_tx r) = [] \<and> sr_done_tx r \<notin> notified w"
  shows "sched_ok next received notified (subs @ new) act (pend @ new) w"
proof -
  have "distinct ((map ai_token_tx act @ map sr_token_tx pend) @ map sr_token_tx new)"
    by (rule distinct_append_outside [OF _ d(1) [simplified map_append] sched_ok_channels [OF ok]])
      (use ok in \<open>simp add: sched_ok_def\<close>)
  then have dist: "distinct (map ai_token_tx act @ map sr_token_tx (pend @ new))" by simp
  have out: "sr_token_tx r \<notin> set (map sr_token_tx new)" if "r \<in> set subs" for r
    using d(1) that by auto
  have sub: "\<forall>r \<in> set subs. prefix (received w (sr_token_tx r)) (greedy next (sr_prompt r) (sr_max_new_tokens r)) \<and>
      (sr_done_tx r \<in> notified w \<longrightarrow> received w (sr_token_tx r) = greedy next (sr_prompt r) (sr_max_new_tokens r) \<and>
         sr_token_tx r \<notin> set (map ai_token_tx act @ map sr_token_tx (pend @ new)))"
    using ok out by (simp add: sched_ok_def)
  have pend: "set (pend @ new) \<subseteq> set (subs @ new)" "\<forall>r \<in> set (pend @ new). received w (sr_token_tx r) = []"
    using ok new by (auto simp: sched_ok_def)
  have act: "\<forall>a \<in> set act. streaming next (received w) a \<and> \<not> ai_finished a \<and> (\<exists>r \<in> set (subs @ new). serves r a)"
    using ok by (auto simp: sched_ok_def)
  from d dist sub pend act new show ?thesis unfolding sched_ok_def by (simp add: ball_Un)
qed

lemma sched_ok_retire:
  assumes ok: "sched_ok next received notified subs (kept @ a # rest) pend w"
    and w': "received w' = received w" "notified w' \<subseteq> (if finish then insert (ai_done_tx a) (notified w) else notified w)"
    and fin: "finish \<Longrightarrow> ai_is_done a \<and> \<not> cancelled a"
  shows "sched_ok next received notified subs (kept @ rest) pend w'"
proof -
  obtain r where r: "r \<in> set subs" "serves r a" using ok by (auto simp: sched_ok_def)
  have full: "received w (sr_token_tx r) = greedy next (sr_prompt r) (sr_max_new_tokens r)" if finish
  proof -
    have st: "streaming next (received w) a" "\<not> ai_finished a" using ok by (auto simp: sched_ok_def)
    with fin [OF that] r(2) have "prefix (received w (sr_token_tx r)) (greedy next (sr_prompt r) (sr_max_new_tokens r))"
      "sr_max_new_tokens r \<le> length (received w (sr_token_tx r))"
      by (auto simp: streaming_def Let_def serves_def ai_is_done_def)
    with prefix_greedy_eq [OF this(1)] show ?thesis by (metis le_antisym)
  qed
  have done_r: "r' = r" if "r' \<in> set subs" "sr_done_tx r' = ai_done_tx a" for r'
    using that r ok by (auto simp: sched_ok_def serves_def distinct_map inj_on_def)
  have gone: "sr_token_tx r \<notin> set (map ai_token_tx (kept @ rest) @ map sr_token_tx pend)"
    using ok r(2) by (auto simp: sched_ok_def serves_def)
  have notif: "sr_done_tx r' \<in> notified w \<or> finish \<and> r' = r" if "r' \<in> set subs" "sr_done_tx r' \<in> notified w'" for r'
    using w'(2) that done_r by (auto split: if_splits)
  have "\<forall>r' \<in> set subs. prefix (received w' (sr_token_tx r')) (greedy next (sr_prompt r') (sr_max_new_tokens r')) \<and>
      (sr_done_tx r' \<in> notified w' \<longrightarrow> received w' (sr_token_tx r') = greedy next (sr_prompt r') (sr_max_new_tokens r') \<and>
         sr_token_tx r' \<notin> set (map ai_token_tx (kept @ rest) @ map sr_token_tx pend))"
  proof (intro ballI conjI impI)
    fix r' assume r': "r' \<in> set subs"
    show "prefix (received w' (sr_token_tx r')) (greedy next (sr_prompt r') (sr_max_new_tokens r'))"
      using ok r' w'(1) by (simp add: sched_ok_def)
    assume n: "sr_done_tx r' \<in> notified w'"
    show "received w' (sr_token_tx r') = greedy next (sr_prompt r') (sr_max_new_tokens r')"
      using notif [OF r' n] full ok r' w'(1) by (auto simp: sched_ok_def)
    show "sr_token_tx r' \<notin> set (map ai_token_tx (kept @ rest) @ map sr_token_tx pend)"
      using notif [OF r' n] gone ok r' unfolding sched_ok_def by fastforce
  qed
  moreover have "distinct (map ai_token_tx (kept @ rest) @ map sr_token_tx pend)" using ok by (simp add: sched_ok_def)
  ultimately show ?thesis
    using ok w'(1) by (simp add: sched_ok_def)
qed

end
