(* ===== verification/SchedulerLife.thy ===== *)
theory SchedulerLife
  imports SchedulerProps
begin

text \<open>
  The scheduler's worker from start to end: reachable states, and the properties that hold in all of
  them.
\<close>

section \<open>The phases of a turn\<close>

lemma admit_request_serves:
  assumes "admit_request io rt dm tm w r (e, d, t) = (Ok a, (e', d', t'))"
  shows "decoder_begin (eng_decoder e) (sr_prompt r) = Ok (ai_session a)" "serves r a" "generated_count a = 0" "\<not> ai_finished a" "\<not> cancelled a"
proof -
  note F = admit_request_fresh [OF assms] admit_request_slots(2) [OF assms]
  show "decoder_begin (eng_decoder e) (sr_prompt r) = Ok (ai_session a)" using F(1,7) by simp
  have "prompt (ai_session a) = sr_prompt r"
    using F(1) unfolding decoder_begin_def by (metis outcome.inject(1) spec_session.select_convs(3))
  with F show "serves r a" "generated_count a = 0" "\<not> cancelled a" by (simp_all add: serves_def)
  show "\<not> ai_finished a"
    using assms by (auto simp: admit_request_def Let_def split: outcome.splits prod.splits option.splits)
qed

lemma admit_all_streams:
  assumes io: "faithful_io io received notified"
  shows "admit_all io rt dm tm reqs k = (x, k') \<Longrightarrow> x \<noteq> Panic \<Longrightarrow>
    sched_ok next received notified subs (wk_active k) reqs (wk_world k) \<Longrightarrow>
    0 < dec_draft_window (eng_decoder (wk_engine k)) \<Longrightarrow> \<forall>a \<in> set (wk_active k). \<not> cancelled a \<Longrightarrow>
    x = Ok () \<and> sched_ok next received notified subs (wk_active k') (wk_pending k') (wk_world k') \<and>
    (\<forall>a \<in> set (wk_active k'). \<not> cancelled a) \<and>
    received (wk_world k') = received (wk_world k) \<and> notified (wk_world k') = notified (wk_world k)"
proof (induction reqs arbitrary: k)
  case (Cons r pend)
  obtain y e d t where y: "admit_request io rt dm tm (wk_world k) r (wk_engine k, wk_draft k, wk_target k) = (y, (e, d, t))"
    by (metis prod.collapse)
  show ?case
  proof (cases "length (wk_active k) < slot_pool_capacity (wk_engine k)")
    case True
    show ?thesis
    proof (cases y)
      case (Ok a)
      let ?k1 = "k\<lparr>wk_engine := e, wk_draft := d, wk_target := t, wk_active := wk_active k @ [a],
                 wk_metrics := (wk_metrics k)\<lparr>active_slots := length (wk_active k) + 1\<rparr>\<rparr>"
      note A = admit_request_serves [OF y [unfolded Ok]]
      have "sched_ok next received notified subs (wk_active ?k1) pend (wk_world ?k1)"
        using sched_ok_admit [OF Cons.prems(3) A(1-4) Cons.prems(4)] by simp
      moreover have "admit_all io rt dm tm pend ?k1 = (x, k')" using Cons.prems(1) True y Ok by simp
      ultimately show ?thesis
        using Cons.IH [of ?k1] Cons.prems admit_request_slots(2) [OF y] A(5) by simp
    next
      case (Err err)
      let ?k1 = "k\<lparr>wk_engine := e, wk_draft := d, wk_target := t,
                 wk_world := tx_drop io (sr_token_tx r) (sr_done_tx r) (wk_world k)\<rparr>"
      have "sched_ok next received notified subs (wk_active k) pend (wk_world ?k1)"
        using sched_ok_world [OF sched_ok_drop_pending [OF Cons.prems(3)]] io by (simp add: faithful_io_def)
      moreover have "admit_all io rt dm tm pend ?k1 = (x, k')" using Cons.prems(1) True y Err by simp
      ultimately show ?thesis
        using Cons.IH [of ?k1] Cons.prems admit_request_slots(2) [OF y] io by (simp add: faithful_io_def)
    next
      case Panic
      then show ?thesis using Cons.prems True y by auto
    qed
  next
    case False
    then show ?thesis using Cons.prems by auto
  qed
qed auto

lemma cleanup_streams:
  assumes io: "faithful_io io received notified"
  shows "sched_ok next received notified subs (kept @ rest) pend (wk_world k) \<Longrightarrow> slots_apart (wk_engine k) (kept @ rest) \<Longrightarrow>
    \<forall>a \<in> set kept. \<not> ai_is_done a \<and> \<not> cancelled a \<Longrightarrow> cleanup io kept rest k = (x, k') \<Longrightarrow>
    sched_ok next received notified subs (wk_active k') pend (wk_world k') \<and> wk_pending k' = wk_pending k \<and>
    (\<forall>a \<in> set (wk_active k'). \<not> ai_is_done a \<and> \<not> cancelled a)"
proof (induction rest arbitrary: kept k)
  case (Cons a rest)
  show ?case
  proof (cases "ai_is_done a \<or> ai_is_cancelled io (wk_world k) a")
    case True
    let ?fin = "ai_is_done a \<and> \<not> ai_is_cancelled io (wk_world k) a"
    note ap = slots_apart_give [OF Cons.prems(2)]
    from retire_Ok [OF ap(2), of io "length kept + length rest"] obtain k1 where r: "retire io (length kept + length rest) a k = (Ok (), k1)"
      and k1: "wk_engine k1 = (wk_engine k)\<lparr>eng_slots := slot_give (ai_slot a) (eng_slots (wk_engine k))\<rparr>" "wk_pending k1 = wk_pending k"
        "wk_world k1 = tx_drop io (ai_token_tx a) (ai_done_tx a) (if ?fin then done_send io (ai_done_tx a) (wk_world k) else wk_world k)"
      by fastforce
    have "received (wk_world k1) = received (wk_world k)"
      "notified (wk_world k1) \<subseteq> (if ?fin then insert (ai_done_tx a) (notified (wk_world k)) else notified (wk_world k))"
      using io by (simp_all add: faithful_io_def k1(3))
    from sched_ok_retire [OF Cons.prems(1) this] have "sched_ok next received notified subs (kept @ rest) pend (wk_world k1)"
      by (simp add: ai_is_cancelled_def)
    moreover have "slots_apart (wk_engine k1) (kept @ rest)" using ap(1) k1(1) by simp
    moreover have "cleanup io kept rest k1 = (x, k')" using Cons.prems(4) True r by (simp add: and_then_def)
    ultimately show ?thesis using Cons.IH [OF _ _ Cons.prems(3)] k1(2) by metis
  next
    case False
    then have "\<forall>b \<in> set (kept @ [a]). \<not> ai_is_done b \<and> \<not> cancelled b" using Cons.prems(3) by (auto simp: ai_is_cancelled_def)
    from Cons.IH [OF _ _ this, of k] Cons.prems(1,2,4) False show ?thesis by simp
  qed
qed auto

lemma sched_ok_step:
  assumes ok: "sched_ok next received notified subs act pend w"
    and l: "list_all2 (\<lambda>a b. same_internal a b \<and> prompt (ai_session b) = prompt (ai_session a)) act bs"
    and st: "\<forall>b \<in> set bs. streaming next (received w') b" "notified w' = notified w"
      "\<forall>c. c \<notin> ai_token_tx ` set act \<longrightarrow> received w' c = received w c"
  shows "sched_ok next received notified subs bs pend w'"
proof -
  have tx: "map ai_token_tx bs = map ai_token_tx act"
    using l by (induction rule: list_all2_induct) (auto simp: same_internal_def)
  have bs: "\<not> ai_finished b \<and> (\<exists>r \<in> set subs. serves r b)" if "b \<in> set bs" for b
  proof -
    from list_all2_in2 [OF l that] obtain a where "a \<in> set act" "same_internal a b" "prompt (ai_session b) = prompt (ai_session a)"
      by blast
    with ok show ?thesis by (fastforce simp: sched_ok_def same_internal_def serves_def)
  qed
  have pend: "\<forall>r \<in> set pend. received w' (sr_token_tx r) = []"
  proof
    fix r assume "r \<in> set pend"
    then have "sr_token_tx r \<notin> ai_token_tx ` set act" "received w (sr_token_tx r) = []"
      using ok by (auto simp: sched_ok_def)
    then show "received w' (sr_token_tx r) = []" using st(3) by simp
  qed
  have subs: "prefix (received w' (sr_token_tx r)) (greedy next (sr_prompt r) (sr_max_new_tokens r)) \<and>
      (sr_done_tx r \<in> notified w' \<longrightarrow> received w' (sr_token_tx r) = greedy next (sr_prompt r) (sr_max_new_tokens r) \<and>
         sr_token_tx r \<notin> set (map ai_token_tx bs @ map sr_token_tx pend))" if r: "r \<in> set subs" for r
  proof (cases "sr_token_tx r \<in> ai_token_tx ` set act")
    case True
    then have "sr_token_tx r \<in> ai_token_tx ` set bs" using tx by (metis set_map)
    then obtain b where b: "b \<in> set bs" "ai_token_tx b = sr_token_tx r" by auto
    then obtain r' where r': "r' \<in> set subs" "serves r' b" using bs by blast
    then have "r' = r" using b r ok by (auto simp: sched_ok_def serves_def distinct_map inj_on_def)
    with st(1) b r' have "prefix (received w' (sr_token_tx r)) (greedy next (sr_prompt r) (sr_max_new_tokens r))"
      by (auto simp: streaming_def serves_def Let_def)
    moreover have "sr_done_tx r \<notin> notified w" using ok r True by (auto simp: sched_ok_def)
    ultimately show ?thesis using st(2) by simp
  next
    case False
    then show ?thesis using ok r st(2,3) tx by (simp add: sched_ok_def)
  qed
  from ok tx bs pend subs st(1) show ?thesis unfolding sched_ok_def by simp
qed

lemma sched_step_phase:
  assumes io: "faithful_io io received notified" and models: "drafts_within dm" "verifies_as tm next"
    and ok: "sched_ok next received notified subs (wk_active k) (wk_pending k) (wk_world k)" "\<forall>a \<in> set (wk_active k). \<not> cancelled a"
    and sl: "slots_apart (wk_engine k) (wk_active k)" and run: "sched_step io dm tm k = (x, k')"
  shows "sched_ok next received notified subs (wk_active k') (wk_pending k) (wk_world k') \<and> wk_pending k' = wk_pending k \<and>
    slots_apart (wk_engine k') (wk_active k')"
proof -
  note F = sched_step_frame [OF run]
  have "\<forall>a \<in> set (wk_active k). streaming next (received (wk_world k)) a \<and> \<not> cancelled a" "distinct (map ai_token_tx (wk_active k))"
    using ok by (auto simp: sched_ok_def)
  from sched_step_streams [OF io models this run] sched_ok_step [OF ok(1) F(3)]
  have "sched_ok next received notified subs (wk_active k') (wk_pending k) (wk_world k')" by blast
  moreover have "slots_apart (wk_engine k') (wk_active k')"
    using sl F(1) same_internal_slots [OF F(3)] by (simp add: slots_apart_def flip: set_map)
  ultimately show ?thesis using F(2) by blast
qed

lemma sched_ok_fewer_pending:
  "sched_ok next received notified subs act (pend @ new) w \<Longrightarrow> sched_ok next received notified subs act pend w"
  by (auto simp: sched_ok_def)

text \<open>The requests that come with a turn, from the queue or after waiting.\<close>

definition arrivals :: "turn_input \<Rightarrow> sched_request list" where
  "arrivals inp = ti_requests inp @ (case ti_awaited inp of None \<Rightarrow> [] | Some r \<Rightarrow> [r])"

lemma worker_turn_streams:
  assumes io: "faithful_io io received notified" and models: "drafts_within dm" "verifies_as tm next"
    and ok: "sched_ok next received notified subs (wk_active k) (wk_pending k) (wk_world k)"
    and sl: "slots_apart (wk_engine k) (wk_active k)" "0 < dec_draft_window (eng_decoder (wk_engine k))"
    and nc: "\<forall>a \<in> set (wk_active k). \<not> cancelled a"
    and run: "worker_turn io ctl rt dm tm inp k = (Ok goes_on, k')"
    and d: "distinct (map sr_token_tx (subs @ arrivals inp))" "distinct (map sr_done_tx (subs @ arrivals inp))"
    and new: "\<forall>r \<in> set (arrivals inp). received (wk_world k) (sr_token_tx r) = [] \<and> sr_done_tx r \<notin> notified (wk_world k)"
  shows "sched_ok next received notified (subs @ arrivals inp) (wk_active k') (wk_pending k') (wk_world k') \<and>
    (\<forall>a \<in> set (wk_active k'). \<not> ai_is_done a \<and> \<not> cancelled a)"
proof -
  let ?k1 = "fold (run_command ctl) (ti_commands inp) k" and ?subs = "subs @ arrivals inp"
  have "sched_ok next received notified ?subs (wk_active k) (wk_pending k @ ti_requests inp) (wk_world k)"
    using sched_ok_arrivals [OF ok d new] sched_ok_fewer_pending [of "next" received notified ?subs "wk_active k" "wk_pending k @ ti_requests inp"]
    by (simp add: arrivals_def)
  then have ok1: "sched_ok next received notified ?subs (wk_active ?k1) (wk_pending ?k1 @ ti_requests inp) (wk_world ?k1)"
    by (simp add: fold_commands)
  obtain y k2 where a: "admit_all io rt dm tm (wk_pending ?k1 @ ti_requests inp) ?k1 = (y, k2)" by fastforce
  with run have y: "y = Ok ()" by (cases y) (auto simp: worker_turn_def Let_def)
  have A: "sched_ok next received notified ?subs (wk_active k2) (wk_pending k2) (wk_world k2)" "\<forall>a \<in> set (wk_active k2). \<not> cancelled a"
    "received (wk_world k2) = received (wk_world k)" "notified (wk_world k2) = notified (wk_world k)"
    using admit_all_streams [OF io a _ ok1] y sl(2) nc by (simp_all add: fold_commands)
  have s2: "slots_apart (wk_engine k2) (wk_active k2)" using admit_all_slots [OF a] y sl(1) by (simp add: fold_commands)
  show ?thesis
  proof (cases "wk_active k2 = [] \<and> wk_pending k2 = []")
    case True
    then show ?thesis
    proof (cases "ti_awaited inp")
      case None
      then have "k' = k2" using run a y True by (auto simp: worker_turn_def Let_def)
      with A True show ?thesis by simp
    next
      case (Some r)
      then have k': "wk_active k' = []" "wk_pending k' = [r]" "wk_world k' = wk_world k2"
        using run a y True by (auto simp: worker_turn_def Let_def)
      have "r \<in> set (arrivals inp)" using Some by (simp add: arrivals_def)
      moreover have "r' = r" if "r' \<in> set ?subs" "sr_token_tx r' = sr_token_tx r" for r'
        using that d(1) \<open>r \<in> set (arrivals inp)\<close> by (metis Un_iff distinct_map inj_onD set_append)
      ultimately show ?thesis using A(1,3,4) new k' True unfolding sched_ok_def by (auto simp del: map_append)
    qed
  next
    case False
    obtain x k3 where st: "(if wk_active k2 \<noteq> [] then sched_step io dm tm k2 else (Ok (), k2)) = (x, k3)" by fastforce
    have P: "sched_ok next received notified ?subs (wk_active k3) (wk_pending k2) (wk_world k3) \<and> wk_pending k3 = wk_pending k2 \<and>
      slots_apart (wk_engine k3) (wk_active k3)"
      using st A s2 sched_step_phase [OF io models, of ?subs k2 x k3] by (auto split: if_splits)
    obtain z k4 where c: "cleanup io [] (wk_active k3) k3 = (z, k4)" by fastforce
    have "z = Ok ()" using cleanup_slots [OF _ c] P by simp
    then have "k' = k4" using run a y st c False by (auto simp: worker_turn_def Let_def split: if_splits)
    with cleanup_streams [OF io _ _ _ c, of "next" ?subs "wk_pending k2"] P show ?thesis by auto
  qed
qed

section \<open>Reachable states\<close>

text \<open>The worker's history: turns with any commands and with requests on channels that are new, and in
  between anything the clients do (reading, going away), which sends nothing. \<open>subs\<close> are the requests
  received.\<close>

inductive sched_reach ::
  "'w sched_io \<Rightarrow> ('p, 'd, 't) model_control \<Rightarrow> 'r runtime_ops \<Rightarrow> ('d, 'm) draft_model \<Rightarrow> ('t, 'm) target_model
   \<Rightarrow> ('w \<Rightarrow> channel \<Rightarrow> token_id list) \<Rightarrow> ('w \<Rightarrow> channel set) \<Rightarrow> ('r, 'j, 'm, 'p, 'd, 't, 'w) worker
   \<Rightarrow> sched_request list \<Rightarrow> ('r, 'j, 'm, 'p, 'd, 't, 'w) worker \<Rightarrow> bool"
  for io ctl rt dm tm received notified k0 where
  start: "sched_reach io ctl rt dm tm received notified k0 [] k0"
| turn: "sched_reach io ctl rt dm tm received notified k0 subs k \<Longrightarrow>
    worker_turn io ctl rt dm tm inp k = (Ok goes_on, k') \<Longrightarrow>
    distinct (map sr_token_tx (subs @ arrivals inp)) \<Longrightarrow> distinct (map sr_done_tx (subs @ arrivals inp)) \<Longrightarrow>
    \<forall>r \<in> set (arrivals inp). received (wk_world k) (sr_token_tx r) = [] \<and> sr_done_tx r \<notin> notified (wk_world k) \<Longrightarrow>
    sched_reach io ctl rt dm tm received notified k0 (subs @ arrivals inp) k'"
| clients: "sched_reach io ctl rt dm tm received notified k0 subs k \<Longrightarrow>
    received w = received (wk_world k) \<Longrightarrow> notified w = notified (wk_world k) \<Longrightarrow>
    sched_reach io ctl rt dm tm received notified k0 subs (k\<lparr>wk_world := w\<rparr>)"

text \<open>C11. Slots through the scheduler: whatever the clients send and whatever the models answer or fail to
  answer, the requests being served hold different slots inside the pool, none of them free, so at
  most as many requests are active as there are slots.\<close>

theorem scheduler_slots_apart:
  assumes "sched_reach io ctl rt dm tm received notified (scheduler_start e d t pool w) subs k"
    and "eng_slots e = slot_pool_new n" and "n \<le> 2 ^ 32"
  shows "distinct (map ai_slot (wk_active k) @ free_slots (eng_slots (wk_engine k))) \<and>
    (\<forall>a \<in> set (wk_active k). unat (ai_slot a) < n) \<and> length (wk_active k) \<le> n"
proof -
  have "slots_apart (wk_engine k) (wk_active k) \<and> max_slots (eng_slots (wk_engine k)) = n" using assms(1)
  proof (induction rule: sched_reach.induct)
    case start
    then show ?case
      using slot_pool_new_distinct [OF assms(3)] slot_pool_new_range [OF assms(3)] assms(2)
      by (simp add: slots_apart_def scheduler_start_def slot_pool_new_def)
  next
    case (turn subs k inp goes_on k')
    then show ?case using worker_turn_slots [OF turn.hyps(2)] by simp
  qed simp
  then show ?thesis using slots_apart_bound [of "wk_engine k" "wk_active k"] by (auto simp: slots_apart_def)
qed

lemma sched_reach_ok:
  assumes reach: "sched_reach io ctl rt dm tm received notified (scheduler_start e d t pool w) subs k"
    and io: "faithful_io io received notified" and models: "drafts_within dm" "verifies_as tm next"
    and e: "eng_slots e = slot_pool_new n" "n \<le> 2 ^ 32" "0 < dec_draft_window (eng_decoder e)"
  shows "sched_ok next received notified subs (wk_active k) (wk_pending k) (wk_world k) \<and>
    slots_apart (wk_engine k) (wk_active k) \<and> eng_decoder (wk_engine k) = eng_decoder e \<and>
    (\<forall>a \<in> set (wk_active k). \<not> ai_is_done a \<and> \<not> cancelled a)"
  using reach
proof (induction rule: sched_reach.induct)
  case start
  then show ?case
    using slot_pool_new_distinct [OF e(2)] slot_pool_new_range [OF e(2)] e(1)
    by (simp add: slots_apart_def scheduler_start_def slot_pool_new_def sched_ok_def)
next
  case (turn subs k inp goes_on k')
  have w: "0 < dec_draft_window (eng_decoder (wk_engine k))" using turn.IH e(3) by simp
  from turn.IH worker_turn_streams [OF io models _ _ w _ turn.hyps(2-5)] worker_turn_slots [OF turn.hyps(2)]
  show ?case by simp
next
  case (clients subs k w)
  then show ?case using sched_ok_world by fastforce
qed

text \<open>C4. What a client sees is the target model's own output: at every moment of the worker's life the tokens on a
  request's channel are an initial part of greedy decoding by the target alone, whatever the draft
  model offers and whenever models fail or clients leave; and a request is reported done only when
  its channel holds all the tokens asked for.\<close>

theorem scheduler_streams_greedy:
  assumes "sched_reach io ctl rt dm tm received notified (scheduler_start e d t pool w) subs k"
    and "faithful_io io received notified" "drafts_within dm" "verifies_as tm next"
    and "eng_slots e = slot_pool_new n" "n \<le> 2 ^ 32" "0 < dec_draft_window (eng_decoder e)"
    and "r \<in> set subs"
  shows "prefix (received (wk_world k) (sr_token_tx r)) (greedy next (sr_prompt r) (sr_max_new_tokens r)) \<and>
    (sr_done_tx r \<in> notified (wk_world k) \<longrightarrow>
       received (wk_world k) (sr_token_tx r) = greedy next (sr_prompt r) (sr_max_new_tokens r))"
  using sched_reach_ok [OF assms(1-7)] assms(8) by (simp add: sched_ok_def)

section \<open>The worker serves what it has\<close>

text \<open>Clients that stay: no send fails, no receiver is dropped, and the final notice arrives.\<close>

definition patient_io :: "'w sched_io \<Rightarrow> ('w \<Rightarrow> channel set) \<Rightarrow> bool" where
  "patient_io io notified \<longleftrightarrow>
     (\<forall>c t w. fst (tx_send io c t w)) \<and> (\<forall>c w. \<not> tx_is_closed io c w) \<and>
     (\<forall>c w. c \<in> notified (done_send io c w) \<and> notified w \<subseteq> notified (done_send io c w))"

text \<open>Models that answer: between one token and the number asked for, for every request that wants tokens.\<close>

definition drafts_all :: "('d, 'm) draft_model \<Rightarrow> bool" where
  "drafts_all dm \<longleftrightarrow>
     (\<forall>rs ms d. length ms = length rs \<longrightarrow>
        (\<exists>dss st. d_draft_batch dm rs (ms, d) = (Ok dss, st) \<and>
           list_all2 (\<lambda>(ctx, n) ds. length ds \<le> n \<and> (0 < n \<longrightarrow> ds \<noteq> [])) rs dss))"

text \<open>The worker's loop once every sender is gone.\<close>

definition no_input :: turn_input where
  "no_input = \<lparr>ti_commands = [], ti_requests = [], ti_awaited = None\<rparr>"

fun worker_loop ::
  "nat \<Rightarrow> 'w sched_io \<Rightarrow> ('p, 'd, 't) model_control \<Rightarrow> 'r runtime_ops \<Rightarrow> ('d, 'm) draft_model \<Rightarrow> ('t, 'm) target_model
   \<Rightarrow> (('r, 'j, 'm, 'p, 'd, 't, 'w) worker, engine_error, unit) act" where
  "worker_loop 0 io ctl rt dm tm k = (Panic, k)"
| "worker_loop (Suc fuel) io ctl rt dm tm k =
     and_then (worker_turn io ctl rt dm tm no_input)
       (\<lambda>goes_on. if goes_on then worker_loop fuel io ctl rt dm tm else ret ()) k"

lemma send_accepted_patient:
  "patient_io io notified \<Longrightarrow> send_accepted io toks (a, mt, w) = (b, mt', v) \<Longrightarrow> cancelled b = cancelled a"
proof (induction toks arbitrary: a mt w)
  case (Cons tok toks)
  obtain a1 mt1 w1 where n: "note_first io (a, mt, w) = (a1, mt1, w1)" by (metis prod.collapse)
  obtain w2 where "tx_send io (ai_token_tx a1) tok w1 = (True, w2)"
    using Cons.prems(1) unfolding patient_io_def by (metis prod.collapse)
  with Cons note_first_same [OF n] n show ?case by (auto simp: count_token_def)
qed simp

lemma send_rejected_patient:
  assumes "patient_io io notified" "send_rejected io (a, mt, w) = (b, mt', v)"
  shows "cancelled b = cancelled a"
proof -
  have "fst (tx_send io c t w)" for c t w
    using assms(1) by (simp add: patient_io_def)
  with assms(2) show ?thesis
    by (auto simp: send_rejected_def note_first_def count_token_def Let_def split_beta split: if_splits option.splits)
qed

lemma commit_send_patient:
  assumes "patient_io io notified"
  shows "commit_send io dss vss as (mt, w) = (x, bs, mt', v) \<Longrightarrow> \<forall>a \<in> set as. \<not> cancelled a \<Longrightarrow> \<forall>b \<in> set bs. \<not> cancelled b"
proof (induction as arbitrary: dss vss mt w bs)
  case (Cons a as)
  show ?case
  proof (cases "dss = [] \<or> vss = []")
    case True
    then show ?thesis using Cons.prems by (cases dss) auto
  next
    case False
    then obtain ds dss' vs vss' where d: "dss = ds # dss'" "vss = vs # vss'" by (auto simp: neq_Nil_conv)
    obtain y b mt1 w1 where c: "commit_request io ds vs (a, mt, w) = (y, (b, mt1, w1))" by (metis prod.collapse)
    then have "\<not> cancelled b"
      using Cons.prems(2) send_accepted_patient [OF assms] send_rejected_patient [OF assms]
      by (fastforce simp: commit_request_def split: outcome.splits prod.splits if_splits)
    with Cons c d show ?thesis by (cases y) (auto split: prod.splits)
  qed
qed auto

lemma cleanup_patient:
  assumes pat: "patient_io io notified" and io: "faithful_io io received notified"
  shows "slots_apart (wk_engine k) (kept @ rest) \<Longrightarrow> \<forall>a \<in> set rest. \<not> cancelled a \<Longrightarrow>
    cleanup io kept rest k = (x, k') \<Longrightarrow>
    wk_active k' = kept @ filter (\<lambda>a. \<not> ai_is_done a) rest \<and> wk_pending k' = wk_pending k \<and> received (wk_world k') = received (wk_world k) \<and>
    notified (wk_world k) \<union> ai_done_tx ` set (filter ai_is_done rest) \<subseteq> notified (wk_world k')"
proof (induction rest arbitrary: kept k)
  case (Cons a rest)
  have canc: "ai_is_cancelled io (wk_world k) a = False" using Cons.prems(2) pat by (simp add: ai_is_cancelled_def patient_io_def)
  show ?case
  proof (cases "ai_is_done a")
    case True
    note ap = slots_apart_give [OF Cons.prems(1)]
    from retire_Ok [OF ap(2), of io "length kept + length rest"] True canc obtain k1 where r: "retire io (length kept + length rest) a k = (Ok (), k1)"
      and k1: "wk_engine k1 = (wk_engine k)\<lparr>eng_slots := slot_give (ai_slot a) (eng_slots (wk_engine k))\<rparr>"
        "wk_world k1 = tx_drop io (ai_token_tx a) (ai_done_tx a) (done_send io (ai_done_tx a) (wk_world k))" "wk_pending k1 = wk_pending k"
      by fastforce
    have "received (wk_world k1) = received (wk_world k)" "insert (ai_done_tx a) (notified (wk_world k)) \<subseteq> notified (wk_world k1)"
      using io pat by (simp_all add: faithful_io_def patient_io_def k1(2))
    moreover have "cleanup io kept rest k1 = (x, k')" using Cons.prems(3) True r by (simp add: and_then_def)
    ultimately show ?thesis using Cons.IH [of k1 kept] Cons.prems(2) ap(1) k1(1,3) True by auto
  next
    case False
    with Cons.IH [of k "kept @ [a]"] Cons.prems canc show ?thesis by auto
  qed
qed auto

text \<open>The round of a turn, when the models answer.\<close>

lemma sched_step_advances:
  assumes io: "faithful_io io received notified" and pat: "patient_io io notified"
    and dm: "drafts_all dm" and tm: "batch_answers_with tm next"
    and ok: "\<forall>a \<in> set (wk_active k). streaming next (received (wk_world k)) a \<and> \<not> cancelled a \<and> \<not> ai_is_done a"
    and dist: "distinct (map ai_token_tx (wk_active k))" and win: "0 < dec_draft_window (eng_decoder (wk_engine k))"
  shows "\<exists>k'. sched_step io dm tm k = (Ok (), k') \<and>
    list_all2 (\<lambda>a b. generated_count a < generated_count b \<and> \<not> cancelled b) (wk_active k) (wk_active k') \<and>
    (\<forall>b \<in> set (wk_active k'). streaming next (received (wk_world k')) b) \<and> notified (wk_world k') = notified (wk_world k) \<and>
    (\<forall>c. c \<notin> ai_token_tx ` set (wk_active k) \<longrightarrow> received (wk_world k') c = received (wk_world k) c)"
proof -
  let ?as = "wk_active k"
  let ?reqs = "map (\<lambda>a. (sess_context (ai_session a), min (dec_draft_window (eng_decoder (wk_engine k))) (ai_max_new_tokens a - generated_count a))) ?as"
  have lt: "generated_count a < ai_max_new_tokens a" if "a \<in> set ?as" for a using ok that by (auto simp: ai_is_done_def)
  obtain dss ms d where d: "d_draft_batch dm ?reqs (map (\<lambda>_. None) ?as, wk_draft k) = (Ok dss, (ms, d))"
    and l0: "list_all2 (\<lambda>(ctx, n) ds. length ds \<le> n \<and> (0 < n \<longrightarrow> ds \<noteq> [])) ?reqs dss"
    using dm unfolding drafts_all_def by (metis (no_types, lifting) length_map surj_pair)
  have l: "list_all2 (\<lambda>a ds. length ds \<le> ai_max_new_tokens a - generated_count a) ?as dss"
    using l0 unfolding list_all2_map1 by (rule list_all2_mono) auto
  have "\<forall>i < length dss. dss ! i \<noteq> []"
    using l0 lt win unfolding list_all2_conv_all_nth by (auto simp: min_def split: if_splits)
  then have ne: "list_all (\<lambda>ds. ds \<noteq> []) dss" by (simp add: list_all_length)
  let ?vreqs = "map (\<lambda>(a, ds). (sess_context (ai_session a), map token ds)) (zip ?as dss)"
  let ?vss = "map2 (\<lambda>a ds. replies next (sess_context (ai_session a)) (map token ds)) ?as dss"
  have "map (\<lambda>(ctx, ds). replies next ctx ds) ?vreqs = ?vss" by auto
  then obtain ms' t where v: "t_verify_batch tm ?vreqs (map (\<lambda>_. None) ?as, wk_target k) = (Ok ?vss, (ms', t))"
    using tm unfolding batch_answers_with_def by (metis (no_types, lifting) surj_pair)
  obtain x bs mt w' where c: "commit_send io dss ?vss ?as (wk_metrics k, wk_world k) = (x, bs, mt, w')" by (metis prod.collapse)
  have ok': "\<forall>a \<in> set ?as. streaming next (received (wk_world k)) a \<and> \<not> cancelled a" using ok by blast
  note C = commit_send_streams [OF io ok' dist l c] commit_send_patient [OF pat c] commit_send_same [OF c]
  let ?k' = "k\<lparr>wk_draft := d, wk_target := t, wk_active := bs, wk_metrics := mt, wk_world := w'\<rparr>"
  have "length dss = length ?as" using list_all2_lengthD [OF l] by simp
  moreover have "\<not> list_ex (\<lambda>a. generated_count a > ai_max_new_tokens a) ?as" using lt by (fastforce simp: list_ex_iff)
  ultimately have "sched_step io dm tm k = (Ok (), ?k')" using d v c C by (simp add: sched_step_def Let_def)
  moreover have "list_all2 (\<lambda>a b. generated_count a < generated_count b \<and> \<not> cancelled b) ?as bs"
    using C ne ok by (auto simp: list_all2_conv_all_nth)
  ultimately show ?thesis using C by auto
qed

definition serving ::
  "(token_id list \<Rightarrow> token_id) \<Rightarrow> ('w \<Rightarrow> channel \<Rightarrow> token_id list) \<Rightarrow> ('r, 'j, 'm, 'p, 'd, 't, 'w) worker \<Rightarrow> bool" where
  "serving next received k \<longleftrightarrow>
     wk_pending k = [] \<and> slots_apart (wk_engine k) (wk_active k) \<and> 0 < dec_draft_window (eng_decoder (wk_engine k)) \<and>
     distinct (map ai_token_tx (wk_active k)) \<and>
     (\<forall>a \<in> set (wk_active k). streaming next (received (wk_world k)) a \<and> \<not> cancelled a \<and> \<not> ai_is_done a)"

definition answered ::
  "(token_id list \<Rightarrow> token_id) \<Rightarrow> ('w \<Rightarrow> channel \<Rightarrow> token_id list) \<Rightarrow> ('w \<Rightarrow> channel set) \<Rightarrow> 'w \<Rightarrow> active_internal \<Rightarrow> bool" where
  "answered next received notified w a \<longleftrightarrow>
     received w (ai_token_tx a) = greedy next (prompt (ai_session a)) (ai_max_new_tokens a) \<and> ai_done_tx a \<in> notified w"

lemma streaming_done:
  assumes "streaming next recv b" "\<not> cancelled b" "ai_is_done b" "\<not> ai_finished b"
  shows "recv (ai_token_tx b) = greedy next (prompt (ai_session b)) (ai_max_new_tokens b)"
proof -
  have p: "prefix (recv (ai_token_tx b)) (greedy next (prompt (ai_session b)) (ai_max_new_tokens b))"
    "ai_max_new_tokens b \<le> length (recv (ai_token_tx b))"
    using assms by (auto simp: streaming_def Let_def ai_is_done_def)
  with prefix_greedy_eq [OF p(1)] show ?thesis by (metis le_antisym)
qed

lemma worker_turn_advances:
  assumes io: "faithful_io io received notified" "patient_io io notified"
    and models: "drafts_all dm" "batch_answers_with tm next"
    and k: "serving next received k" "wk_active k \<noteq> []"
  shows "\<exists>k'. worker_turn io ctl rt dm tm no_input k = (Ok True, k') \<and> serving next received k' \<and>
    (\<forall>a \<in> set (wk_active k). (\<exists>b \<in> set (wk_active k'). same_internal a b \<and> prompt (ai_session b) = prompt (ai_session a) \<and>
        generated_count a < generated_count b) \<or>
        answered next received notified (wk_world k') a \<and> ai_token_tx a \<notin> ai_token_tx ` set (wk_active k')) \<and>
    (\<forall>b \<in> set (wk_active k'). \<exists>a \<in> set (wk_active k). same_internal a b \<and> generated_count a < generated_count b) \<and>
    (\<forall>c. c \<notin> ai_token_tx ` set (wk_active k) \<longrightarrow> received (wk_world k') c = received (wk_world k) c) \<and>
    notified (wk_world k) \<subseteq> notified (wk_world k')"
proof -
  have k0: "wk_pending k = []" using k(1) by (simp add: serving_def)
  then have adm: "admit_all io rt dm tm [] k = (Ok (), k)" by simp
  have S: "slots_apart (wk_engine k) (wk_active k)" "0 < dec_draft_window (eng_decoder (wk_engine k))" "distinct (map ai_token_tx (wk_active k))"
    "\<forall>a \<in> set (wk_active k). streaming next (received (wk_world k)) a \<and> \<not> cancelled a \<and> \<not> ai_is_done a"
    using k(1) by (simp_all add: serving_def)
  from sched_step_advances [OF io models S(4,3,2)] obtain k3 where st: "sched_step io dm tm k = (Ok (), k3)"
    and adv: "list_all2 (\<lambda>a b. generated_count a < generated_count b \<and> \<not> cancelled b) (wk_active k) (wk_active k3)"
    and str: "\<forall>b \<in> set (wk_active k3). streaming next (received (wk_world k3)) b" and n3: "notified (wk_world k3) = notified (wk_world k)"
    and r3: "\<forall>c. c \<notin> ai_token_tx ` set (wk_active k) \<longrightarrow> received (wk_world k3) c = received (wk_world k) c" by blast
  note F = sched_step_frame [OF st]
  have tx: "map ai_token_tx (wk_active k3) = map ai_token_tx (wk_active k)"
    using F(3) by (induction rule: list_all2_induct) (auto simp: same_internal_def)
  have s3: "slots_apart (wk_engine k3) ([] @ wk_active k3)"
    using S(1) F(1) same_internal_slots [OF F(3)] by (simp add: slots_apart_def flip: set_map)
  obtain z k4 where c: "cleanup io [] (wk_active k3) k3 = (z, k4)" by fastforce
  have R: "list_all2 (\<lambda>a b. same_internal a b \<and> prompt (ai_session b) = prompt (ai_session a) \<and>
      generated_count a < generated_count b \<and> \<not> cancelled b) (wk_active k) (wk_active k3)"
    using adv F(3) by (auto simp: list_all2_conv_all_nth)
  have nc: "\<forall>b \<in> set (wk_active k3). \<not> cancelled b" using list_all2_in2 [OF R] by blast
  note P = cleanup_patient [OF io(2,1) s3 nc c] and Q = cleanup_slots [OF s3 c]
  have act: "wk_active k4 = filter (\<lambda>a. \<not> ai_is_done a) (wk_active k3)" and rec: "received (wk_world k4) = received (wk_world k3)"
    using P by simp_all
  have pend: "wk_pending k4 = []" using P F(2) k(1) by (simp add: serving_def)
  have "worker_turn io ctl rt dm tm no_input k = (Ok True, k4)"
    using st c Q k(2) adm k0 by (auto simp: worker_turn_def no_input_def simp del: admit_all.simps)
  moreover have "serving next received k4"
    using Q F(1) S(2,3) str nc act rec pend tx [symmetric] by (auto simp: serving_def distinct_map_filter)
  moreover have "(\<exists>b \<in> set (wk_active k4). same_internal a b \<and> prompt (ai_session b) = prompt (ai_session a) \<and>
        generated_count a < generated_count b) \<or>
        answered next received notified (wk_world k4) a \<and> ai_token_tx a \<notin> ai_token_tx ` set (wk_active k4)" if "a \<in> set (wk_active k)" for a
  proof -
    from list_all2_in1 [OF R that] obtain b where b: "b \<in> set (wk_active k3)" "same_internal a b"
      "prompt (ai_session b) = prompt (ai_session a)" "generated_count a < generated_count b" by blast
    have "\<not> ai_finished b" using S(4) that b(2) by (auto simp: same_internal_def ai_is_done_def)
    moreover have "ai_token_tx b \<notin> ai_token_tx ` set (wk_active k4)" if "ai_is_done b"
      using that b(1) S(3) unfolding tx [symmetric] act by (auto simp: distinct_map inj_on_def)
    ultimately show ?thesis using b nc str streaming_done [of "next" "received (wk_world k3)" b] rec P
      by (cases "ai_is_done b") (auto simp: answered_def same_internal_def act)
  qed
  moreover have "\<exists>a \<in> set (wk_active k). same_internal a b \<and> generated_count a < generated_count b" if "b \<in> set (wk_active k4)" for b
    using list_all2_in2 [OF R, of b] that act by auto
  ultimately show ?thesis using r3 n3 rec P by (intro exI [of _ k4]) auto
qed

lemma worker_loop_serves:
  assumes io: "faithful_io io received notified" "patient_io io notified"
    and models: "drafts_all dm" "batch_answers_with tm next"
  shows "serving next received k \<Longrightarrow> \<forall>a \<in> set (wk_active k). ai_max_new_tokens a - generated_count a \<le> n \<Longrightarrow>
    \<exists>k'. worker_loop (Suc n) io ctl rt dm tm k = (Ok (), k') \<and> wk_active k' = [] \<and>
      (\<forall>a \<in> set (wk_active k). answered next received notified (wk_world k') a) \<and>
      (\<forall>c. c \<notin> ai_token_tx ` set (wk_active k) \<longrightarrow> received (wk_world k') c = received (wk_world k) c) \<and>
      notified (wk_world k) \<subseteq> notified (wk_world k')"
proof (induction n arbitrary: k)
  case 0
  then have "wk_active k = []" by (fastforce simp: serving_def ai_is_done_def neq_Nil_conv)
  with 0 show ?case
    by (auto simp: serving_def and_then_def worker_turn_def no_input_def ret_def)
next
  case (Suc n)
  show ?case
  proof (cases "wk_active k = []")
    case True
    with Suc.prems show ?thesis
      by (auto simp: serving_def and_then_def worker_turn_def no_input_def ret_def)
  next
    case False
    from worker_turn_advances [OF io models Suc.prems(1) False, of ctl rt] obtain k1 where
      t: "worker_turn io ctl rt dm tm no_input k = (Ok True, k1)" "serving next received k1"
      and keep: "\<forall>a \<in> set (wk_active k). (\<exists>b \<in> set (wk_active k1). same_internal a b \<and> prompt (ai_session b) = prompt (ai_session a) \<and>
        generated_count a < generated_count b) \<or>
        answered next received notified (wk_world k1) a \<and> ai_token_tx a \<notin> ai_token_tx ` set (wk_active k1)"
      and from_k: "\<forall>b \<in> set (wk_active k1). \<exists>a \<in> set (wk_active k). same_internal a b \<and> generated_count a < generated_count b"
      and rest: "\<forall>c. c \<notin> ai_token_tx ` set (wk_active k) \<longrightarrow> received (wk_world k1) c = received (wk_world k) c"
        "notified (wk_world k) \<subseteq> notified (wk_world k1)" by blast
    have "ai_max_new_tokens b - generated_count b \<le> n" if "b \<in> set (wk_active k1)" for b
    proof -
      from that from_k obtain a where a: "a \<in> set (wk_active k)" "ai_max_new_tokens b = ai_max_new_tokens a" "generated_count a < generated_count b"
        by (auto simp: same_internal_def)
      with Suc.prems(2) have "ai_max_new_tokens a - generated_count a \<le> Suc n" by blast
      with a show ?thesis by linarith
    qed
    with Suc.IH [OF t(2)] obtain k' where l: "worker_loop (Suc n) io ctl rt dm tm k1 = (Ok (), k')" "wk_active k' = []"
      and ans: "\<forall>a \<in> set (wk_active k1). answered next received notified (wk_world k') a"
      and rest': "\<forall>c. c \<notin> ai_token_tx ` set (wk_active k1) \<longrightarrow> received (wk_world k') c = received (wk_world k1) c"
        "notified (wk_world k1) \<subseteq> notified (wk_world k')" by blast
    have "worker_loop (Suc (Suc n)) io ctl rt dm tm k = (Ok (), k')" using t(1) l(1)
      unfolding worker_loop.simps(2) [of "Suc n"] by (simp add: and_then_def)
    moreover have "answered next received notified (wk_world k') a" if "a \<in> set (wk_active k)" for a
    proof (cases "\<exists>b \<in> set (wk_active k1). same_internal a b \<and> prompt (ai_session b) = prompt (ai_session a)")
      case True
      then show ?thesis using ans by (auto simp: answered_def same_internal_def)
    next
      case False
      then show ?thesis using keep that rest' by (auto simp: answered_def)
    qed
    moreover have "received (wk_world k') c = received (wk_world k) c" if "c \<notin> ai_token_tx ` set (wk_active k)" for c
    proof -
      have "ai_token_tx ` set (wk_active k1) \<subseteq> ai_token_tx ` set (wk_active k)"
        using from_k by (fastforce simp: same_internal_def)
      then have "c \<notin> ai_token_tx ` set (wk_active k1)" using that by blast
      with that rest(1) rest'(1) show ?thesis by simp
    qed
    ultimately show ?thesis using l(2) rest(2) rest'(2) by (intro exI [of _ k']) blast
  qed
qed

lemma drafts_all_within: "drafts_all dm \<Longrightarrow> drafts_within dm"
  unfolding drafts_within_def
proof (intro allI impI)
  fix rs ms d dss st assume "drafts_all dm" "length ms = length rs" "d_draft_batch dm rs (ms, d) = (Ok dss, st)"
  then have "list_all2 (\<lambda>(ctx, n) ds. length ds \<le> n \<and> (0 < n \<longrightarrow> ds \<noteq> [])) rs dss"
    unfolding drafts_all_def by (metis (no_types, lifting) fst_conv outcome.inject(1))
  then show "list_all2 (\<lambda>(ctx, n) ds. length ds \<le> n) rs dss" by (rule list_all2_mono) auto
qed

lemma answers_verifies: "batch_answers_with tm next \<Longrightarrow> verifies_as tm next"
  unfolding batch_answers_with_def verifies_as_def by (metis (no_types, lifting) fst_conv outcome.inject(1))

text \<open>C5. Every admitted request is served to its end: from any reachable state with nothing waiting, with models that answer,
  clients that stay and no more input, the worker's loop ends after at most one turn more than the
  largest number of tokens outstanding, and then every request that was being served in that state has received exactly the
  target's own output and its notice. Requests whose admission failed are no longer there (\<open>scheduler_admission_leaks\<close>).\<close>

theorem scheduler_finishes:
  assumes "sched_reach io ctl rt dm tm received notified (scheduler_start e d t pool w) subs k"
    and "faithful_io io received notified" "patient_io io notified" "drafts_all dm" "batch_answers_with tm next"
    and "eng_slots e = slot_pool_new m" "m \<le> 2 ^ 32" "0 < dec_draft_window (eng_decoder e)"
    and "wk_pending k = []" and "\<forall>a \<in> set (wk_active k). ai_max_new_tokens a - generated_count a \<le> n"
  shows "\<exists>k'. worker_loop (Suc n) io ctl rt dm tm k = (Ok (), k') \<and> wk_active k' = [] \<and>
    (\<forall>a \<in> set (wk_active k).
       received (wk_world k') (ai_token_tx a) = greedy next (prompt (ai_session a)) (ai_max_new_tokens a) \<and>
       ai_done_tx a \<in> notified (wk_world k'))"
proof -
  note R = sched_reach_ok [OF assms(1,2) drafts_all_within [OF assms(4)] answers_verifies [OF assms(5)] assms(6-8)]
  have "serving next received k" using R assms(8,9) by (auto simp: serving_def sched_ok_def)
  from worker_loop_serves [OF assms(2-5) this assms(10), of ctl rt] show ?thesis unfolding answered_def by blast
qed

section \<open>Failed admissions\<close>

text \<open>A failed admission loses its slot: when a model refuses to bind a slot or the prompt does not fit,
  the slot taken is neither given back nor held by a request. The request is dropped with nothing
  sent to its client.\<close>

lemma scheduler_admission_leaks:
  assumes "faithful_io io received notified"
    and "admit_request io rt dm tm (wk_world k) req (wk_engine k, wk_draft k, wk_target k) = (Err err, (e', d', t'))"
    and "length (wk_active k) < slot_pool_capacity (wk_engine k)"
  shows "\<exists>k'. admit_all io rt dm tm [req] k = (Ok (), k') \<and> wk_active k' = wk_active k \<and>
    free_slots (eng_slots (wk_engine k')) = tl (free_slots (eng_slots (wk_engine k))) \<and>
    received (wk_world k') = received (wk_world k) \<and> notified (wk_world k') = notified (wk_world k)"
  using assms(1,3) admit_request_slots(4) [OF assms(2)] by (simp add: assms(2) faithful_io_def)

text \<open>A worker without free slots and active requests drops every request.\<close>

lemma admit_all_starved:
  assumes io: "faithful_io io received notified"
  shows "wk_active k = [] \<Longrightarrow> free_slots (eng_slots (wk_engine k)) = [] \<Longrightarrow> 0 < slot_pool_capacity (wk_engine k) \<Longrightarrow>
    \<exists>k'. admit_all io rt dm tm reqs k = (Ok (), k') \<and> wk_active k' = [] \<and> wk_pending k' = [] \<and> wk_engine k' = wk_engine k \<and>
      received (wk_world k') = received (wk_world k) \<and> notified (wk_world k') = notified (wk_world k)"
proof (induction reqs arbitrary: k)
  case (Cons r reqs)
  let ?k1 = "k\<lparr>wk_world := tx_drop io (sr_token_tx r) (sr_done_tx r) (wk_world k)\<rparr>"
  have "allocate_slot (wk_engine k) = (None, wk_engine k)" using Cons.prems by (simp add: allocate_slot_def slot_alloc_def)
  then have "admit_request io rt dm tm (wk_world k) r (wk_engine k, wk_draft k, wk_target k) =
      (Err (Speculative (Model ''No free slots'')), (wk_engine k, wk_draft k, wk_target k))" by (simp add: admit_request_def)
  then have "admit_all io rt dm tm (r # reqs) k = admit_all io rt dm tm reqs ?k1" using Cons.prems by simp
  moreover from Cons.IH [of ?k1] Cons.prems io obtain k' where "admit_all io rt dm tm reqs ?k1 = (Ok (), k')" "wk_active k' = []"
    "wk_pending k' = []" "wk_engine k' = wk_engine k" "received (wk_world k') = received (wk_world k)" "notified (wk_world k') = notified (wk_world k)"
    by (auto simp: faithful_io_def)
  ultimately show ?case by auto
qed auto

text \<open>Lost slots are lost for good: once every slot has been lost, the worker takes every request it is
  given, drops it with nothing sent, and stays in that state.\<close>

theorem scheduler_starves:
  assumes "faithful_io io received notified" and "wk_active k = []" "free_slots (eng_slots (wk_engine k)) = []"
    and "0 < slot_pool_capacity (wk_engine k)"
  shows "\<exists>goes_on k'. worker_turn io ctl rt dm tm inp k = (Ok goes_on, k') \<and> wk_active k' = [] \<and> wk_engine k' = wk_engine k \<and>
    received (wk_world k') = received (wk_world k) \<and> notified (wk_world k') = notified (wk_world k)"
proof -
  let ?k1 = "fold (run_command ctl) (ti_commands inp) k"
  from admit_all_starved [OF assms(1), of ?k1 rt dm tm "wk_pending ?k1 @ ti_requests inp"] assms(2-4) obtain k2 where
    "admit_all io rt dm tm (wk_pending ?k1 @ ti_requests inp) ?k1 = (Ok (), k2)" "wk_active k2 = []" "wk_pending k2 = []"
    "wk_engine k2 = wk_engine k" "received (wk_world k2) = received (wk_world k)" "notified (wk_world k2) = notified (wk_world k)"
    by (auto simp: fold_commands)
  then show ?thesis by (cases "ti_awaited inp") (auto simp: worker_turn_def Let_def)
qed

section \<open>A small worker for the witnesses\<close>

type_synonym log_world = "(channel \<times> token_id) list \<times> channel list"

definition log_io :: "log_world sched_io" where
  "log_io = \<lparr>tx_send = (\<lambda>c t (ts, ds). (True, (ts @ [(c, t)], ds))), tx_is_closed = (\<lambda>c w. False),
     done_send = (\<lambda>c (ts, ds). (ts, c # ds)), tx_drop = (\<lambda>c d w. w), now_ms = (\<lambda>w. 0)\<rparr>"

definition log_received :: "log_world \<Rightarrow> channel \<Rightarrow> token_id list" where
  "log_received w c = map snd (filter (\<lambda>(c', _). c' = c) (fst w))"

definition log_notified :: "log_world \<Rightarrow> channel set" where
  "log_notified w = set (snd w)"

lemma log_io_faithful: "faithful_io log_io log_received log_notified"
  by (auto simp: faithful_io_def log_io_def log_received_def log_notified_def split_beta fun_eq_iff)

lemma log_io_patient: "patient_io log_io log_notified"
  by (auto simp: patient_io_def log_io_def log_notified_def split_beta)

definition keep_models :: "(unit, 'd, 't) model_control" where
  "keep_models = \<lparr>pool_prefetch = (\<lambda>_ _ p. p), d_switch_model = (\<lambda>_ _ d. d), t_switch_model = (\<lambda>_ _ t. t)\<rparr>"

type_synonym small_worker_state = "(cpu_runtime, unit, unit, unit, nat, nat, log_world) worker"

definition small_worker :: small_worker_state where
  "small_worker = scheduler_start small_engine 0 0 () ([], [])"

definition one_request :: turn_input where
  "one_request = \<lparr>ti_commands = [], ti_requests = [submit [] 3 5 6], ti_awaited = None\<rparr>"


lemma small_lookup: "\<exists>c. radix_lookup [] (prefix_cache small_engine) = (Ok \<lparr>matched_tokens = 0, lookup_handle = None\<rparr> :: (engine_error, _) outcome, c)"
  by (simp add: small_engine_def radix_lookup_def radix_new_def node_default_def Let_def lookup_walk.simps)

definition small_active :: "active_internal" where
  "small_active = \<lparr>ai_session = \<lparr>draft_window = 2, max_window = 4, prompt = [], sess_context = [], stats = spec_stats_default, rejected_token = None\<rparr>,
     ai_slot = 0, ai_max_new_tokens = 3, ai_token_tx = 5, ai_done_tx = 6, generated_count = 0, ai_finished = False, start_time = 0,
     first_token_sent = False, cancelled = False\<rparr>"

lemma small_prefill:
  "\<exists>e. allocate_slot small_engine = (Some 0, small_engine\<lparr>eng_slots := \<lparr>free_slots = [1], max_slots = 2\<rparr>\<rparr>) \<and>
     prefill cpu_ops [] (small_engine\<lparr>eng_slots := \<lparr>free_slots = [1], max_slots = 2\<rparr>\<rparr>) =
       (Ok \<lparr>cached_prefix = \<lparr>matched_tokens = 0, lookup_handle = None\<rparr>, cached_pages = None, inserted_handle = None, inserted_pages = None,
          pf_stats = \<lparr>cache_hit_tokens = 0, cache_miss_tokens = 0, es_speculative = spec_stats_default\<rparr>\<rparr>, e) \<and>
     eng_decoder e = \<lparr>dec_draft_window = 2, dec_max_window = 4\<rparr>"
proof -
  obtain c where c: "radix_lookup [] (prefix_cache small_engine) = (Ok \<lparr>matched_tokens = 0, lookup_handle = None\<rparr> :: (engine_error, _) outcome, c)"
    using small_lookup by blast
  let ?e1 = "small_engine\<lparr>eng_slots := \<lparr>free_slots = [1], max_slots = 2\<rparr>\<rparr>"
  have "allocate_slot small_engine = (Some 0, ?e1)"
    by (simp add: allocate_slot_def slot_alloc_def small_engine_def slot_pool_new_def upt_rec)
  moreover have "prefix_cache ?e1 = prefix_cache small_engine" by simp
  with c have "prefill cpu_ops [] ?e1 = (Ok \<lparr>cached_prefix = \<lparr>matched_tokens = 0, lookup_handle = None\<rparr>, cached_pages = None, inserted_handle = None, inserted_pages = None,
      pf_stats = \<lparr>cache_hit_tokens = 0, cache_miss_tokens = 0, es_speculative = spec_stats_default\<rparr>\<rparr>, ?e1\<lparr>prefix_cache := c\<rparr>)"
    by (simp add: prefill_def and_then_def on_cache_def ret_def)
  ultimately show ?thesis by (simp add: small_engine_def)
qed

lemma small_admit:
  "\<exists>e. admit_request log_io cpu_ops guessing_draft counting_target ([], []) (submit [] 3 5 6) (small_engine, 0, 0) = (Ok small_active, (e, 0, 0))"
  using small_prefill
  by (auto simp: admit_request_def submit_def small_active_def guessing_draft_def counting_target_def zoom_def and_then_def ret_def
      decoder_begin_def log_io_def)

text \<open>After one turn: one request is active and has received one of its three tokens.\<close>

definition small_state :: "small_worker_state \<Rightarrow> bool" where
  "small_state k \<longleftrightarrow>
     wk_world k = ([(5, 0)], []) \<and> wk_pending k = [] \<and>
     (\<exists>a. wk_active k = [a] \<and> generated_count a = 1 \<and> ai_max_new_tokens a = 3 \<and> ai_token_tx a = 5 \<and> ai_done_tx a = 6 \<and>
        prompt (ai_session a) = [])"

lemma small_turn:
  "\<exists>k. worker_turn log_io keep_models cpu_ops guessing_draft counting_target one_request small_worker = (Ok True, k) \<and>
     small_state k"
proof -
  obtain e where a: "admit_request log_io cpu_ops guessing_draft counting_target ([], []) (submit [] 3 5 6) (small_engine, 0, 0) = (Ok small_active, (e, 0, 0))"
    using small_admit by blast
  have d: "eng_decoder e = \<lparr>dec_draft_window = 2, dec_max_window = 4\<rparr>"
    using admit_request_slots(2) [OF a] by (simp add: small_engine_def)
  have c: "slot_pool_capacity small_engine = 2" by (simp add: slot_pool_capacity_def slot_capacity_def small_engine_def slot_pool_new_def)
  let ?k1 = "\<lparr>wk_engine = e, wk_draft = 0, wk_target = 0, wk_pool = (), wk_active = [small_active], wk_pending = [],
      wk_metrics = sched_metrics_default\<lparr>active_slots := 1\<rparr>, wk_world = ([], [])\<rparr>"
  have ad: "admit_all log_io cpu_ops guessing_draft counting_target [submit [] 3 5 6] small_worker = (Ok (), ?k1)"
    using a c by (simp add: small_worker_def scheduler_start_def)
  have st: "\<exists>k2. sched_step log_io guessing_draft counting_target ?k1 = (Ok (), k2) \<and> wk_world k2 = ([(5, 0)], []) \<and> wk_pending k2 = []
    \<and> (\<exists>s. wk_active k2 = [small_active\<lparr>ai_session := s, first_token_sent := True, generated_count := 1\<rparr>] \<and> prompt s = [])"
    using d by (simp add: sched_step_def small_active_def guessing_draft_def counting_target_def replies_def commit_request_def
      session_commit_def settle_def adjust_window_def note_first_def count_token_def log_io_def send_rejected_def has_pending_rejection_def Let_def)
  then obtain k2 s where k2: "sched_step log_io guessing_draft counting_target ?k1 = (Ok (), k2)" "wk_world k2 = ([(5, 0)], [])" "wk_pending k2 = []"
    "wk_active k2 = [small_active\<lparr>ai_session := s, first_token_sent := True, generated_count := 1\<rparr>]" "prompt s = []" by blast
  have p: "wk_pending small_worker = []" by (simp add: small_worker_def scheduler_start_def)
  show ?thesis
    using ad k2 p by (simp add: small_state_def worker_turn_def one_request_def ai_is_done_def ai_is_cancelled_def small_active_def log_io_def del: admit_all.simps)
qed

lemma small_reach:
  "\<exists>k. sched_reach log_io keep_models cpu_ops guessing_draft counting_target log_received log_notified
        (scheduler_start small_engine 0 0 () ([], [])) [submit [] 3 5 6] k \<and> small_state k"
proof -
  obtain k where k: "worker_turn log_io keep_models cpu_ops guessing_draft counting_target one_request small_worker = (Ok True, k)"
    "small_state k" using small_turn by blast
  have "arrivals one_request = [submit [] 3 5 6]" by (simp add: arrivals_def one_request_def)
  with sched_reach.turn [OF sched_reach.start k(1) [unfolded small_worker_def], of log_received log_notified] k(2) show ?thesis
    by (auto simp: scheduler_start_def log_received_def log_notified_def)
qed

lemma small_models_scheduled:
  "drafts_all guessing_draft" "batch_answers_with counting_target (\<lambda>c. of_nat (length c))"
  "eng_slots small_engine = slot_pool_new 2" "0 < dec_draft_window (eng_decoder small_engine)"
  by (auto simp: drafts_all_def batch_answers_with_def guessing_draft_def counting_target_def small_engine_def
      list_all2_conv_all_nth take_Cons split: nat.splits prod.splits)

theorem scheduler_slots_apart_witness:
  "\<exists>k :: small_worker_state. length (wk_active k) = 1 \<and>
     distinct (map ai_slot (wk_active k) @ free_slots (eng_slots (wk_engine k)))"
proof -
  obtain k where k: "sched_reach log_io keep_models cpu_ops guessing_draft counting_target log_received log_notified
        (scheduler_start small_engine 0 0 () ([], [])) [submit [] 3 5 6] k" "small_state k"
    using small_reach by blast
  from scheduler_slots_apart [OF k(1) small_models_scheduled(3)] k(2) show ?thesis
    by (intro exI [of _ k]) (auto simp: small_state_def)
qed

theorem scheduler_streams_greedy_witness:
  "\<exists>k :: small_worker_state. log_received (wk_world k) 5 = [0] \<and>
     prefix (log_received (wk_world k) 5) (greedy (\<lambda>c. of_nat (length c)) [] 3)"
proof -
  obtain k where k: "sched_reach log_io keep_models cpu_ops guessing_draft counting_target log_received log_notified
        (scheduler_start small_engine 0 0 () ([], [])) [submit [] 3 5 6] k" "small_state k"
    using small_reach by blast
  from scheduler_streams_greedy [OF k(1) log_io_faithful drafts_all_within [OF small_models_scheduled(1)]
      answers_verifies [OF small_models_scheduled(2)] small_models_scheduled(3) _ small_models_scheduled(4), of "submit [] 3 5 6"]
  have "prefix (log_received (wk_world k) 5) (greedy (\<lambda>c. of_nat (length c)) [] 3)" by (simp add: submit_def)
  moreover have "log_received (wk_world k) 5 = [0]" using k(2) by (simp add: small_state_def log_received_def)
  ultimately show ?thesis by blast
qed

theorem scheduler_finishes_witness:
  "\<exists>(k :: small_worker_state) k'. small_state k \<and>
     worker_loop 3 log_io keep_models cpu_ops guessing_draft counting_target k = (Ok (), k') \<and>
     log_received (wk_world k') 5 = greedy (\<lambda>c. of_nat (length c)) [] 3 \<and> 6 \<in> log_notified (wk_world k')"
proof -
  obtain k where k: "sched_reach log_io keep_models cpu_ops guessing_draft counting_target log_received log_notified
        (scheduler_start small_engine 0 0 () ([], [])) [submit [] 3 5 6] k" "small_state k"
    using small_reach by blast
  then obtain a where a: "wk_active k = [a]" "wk_pending k = []" "ai_token_tx a = 5" "generated_count a = 1" "ai_max_new_tokens a = 3"
    "ai_done_tx a = 6" "prompt (ai_session a) = []" unfolding small_state_def by blast
  from scheduler_finishes [OF k(1) log_io_faithful log_io_patient small_models_scheduled(1-3) _ small_models_scheduled(4) a(2), of 2]
  obtain k' where "worker_loop (Suc 2) log_io keep_models cpu_ops guessing_draft counting_target k = (Ok (), k')"
    "log_received (wk_world k') 5 = greedy (\<lambda>c. of_nat (length c)) [] 3 \<and> 6 \<in> log_notified (wk_world k')"
    using a by (auto simp del: worker_loop.simps greedy.simps)
  then show ?thesis using k(2) unfolding Suc_numeral by (simp only: arith_simps) blast
qed

text \<open>A draft model that refuses its slot.\<close>

definition refusing_draft :: "(nat, unit) draft_model" where
  "refusing_draft = guessing_draft\<lparr>d_bind_slot := (\<lambda>_. throw (Model ''refused''))\<rparr>"

lemma refused_admission:
  "\<exists>e. admit_request log_io cpu_ops refusing_draft counting_target ([], []) (submit [] 3 5 6) (small_engine, 0, 0) =
     (Err (Speculative (Model ''refused'')), (e, 0, 0))"
  using small_prefill
  by (auto simp: admit_request_def submit_def refusing_draft_def throw_def zoom_def and_then_def)

lemma scheduler_admission_leaks_instance:
  "\<exists>k'. admit_all log_io cpu_ops refusing_draft counting_target [submit [] 3 5 6] small_worker = (Ok (), k') \<and>
     wk_active k' = [] \<and> free_slots (eng_slots (wk_engine k')) = [1]"
proof -
  obtain e where "admit_request log_io cpu_ops refusing_draft counting_target ([], []) (submit [] 3 5 6) (small_engine, 0, 0) =
     (Err (Speculative (Model ''refused'')), (e, 0, 0))" using refused_admission by blast
  then have "admit_request log_io cpu_ops refusing_draft counting_target (wk_world small_worker) (submit [] 3 5 6)
      (wk_engine small_worker, wk_draft small_worker, wk_target small_worker) = (Err (Speculative (Model ''refused'')), (e, 0, 0))"
    by (simp add: small_worker_def scheduler_start_def)
  from scheduler_admission_leaks [OF log_io_faithful this] show ?thesis
    by (auto simp: small_worker_def scheduler_start_def small_engine_def slot_pool_new_def upt_rec slot_pool_capacity_def slot_capacity_def)
qed

definition lost_worker :: small_worker_state where
  "lost_worker = small_worker\<lparr>wk_engine := small_engine\<lparr>eng_slots := \<lparr>free_slots = [], max_slots = 2\<rparr>\<rparr>\<rparr>"

theorem scheduler_starves_witness:
  "\<exists>goes_on k'. worker_turn log_io keep_models cpu_ops guessing_draft counting_target one_request lost_worker = (Ok goes_on, k') \<and>
     wk_active k' = [] \<and> log_received (wk_world k') 5 = []"
proof -
  have "log_received (([], []) :: log_world) 5 = []" by (simp add: log_received_def)
  with scheduler_starves [OF log_io_faithful, of lost_worker keep_models cpu_ops guessing_draft counting_target one_request]
  show ?thesis
    by (auto simp: lost_worker_def small_worker_def scheduler_start_def slot_pool_capacity_def slot_capacity_def)
qed

end
