(* ===== verification/Nixl.thy ===== *)
theory Nixl
  imports CacheTypes Numbers
begin

text \<open>
  The transfer of KV blocks between nodes (\<open>src/src/nixl.rs\<close>): the wire format, the pool of DMA regions,
  the registry of peers and the agent that hands evicted blocks to the least-loaded peer.

  The registry and the inboxes are shared by all agents (an \<open>Arc\<close> of a \<open>Mutex\<close>): they are one record
  \<open>fabric\<close> that every operation takes and returns. A \<open>HashMap\<close> is a finite table whose iteration order is an
  argument \<open>iter\<close> of the operations that iterate over it; \<open>clock i\<close> is the time read in turn \<open>i\<close> of the
  handoff loop. Counters are natural numbers.
\<close>

section \<open>Wire format\<close>

type_synonym byte_list = "u8 list"

definition wire_header_len :: usize where
  "wire_header_len = 16"

definition serialize_block :: "kv_handle \<Rightarrow> byte_list \<Rightarrow> byte_list" where
  "serialize_block handle payload =
     le_bytes 8 (unat (block_id handle))
     @ le_bytes 4 (token_len handle mod 2 ^ 32)
     @ le_bytes 4 (length payload mod 2 ^ 32)
     @ payload"

definition deserialize_block :: "byte_list \<Rightarrow> (kv_handle \<times> byte_list) option" where
  "deserialize_block buf =
     (if length buf < wire_header_len then None
      else
        let bid = of_nat (le_value (take 8 buf));
            tokens = le_value (take 4 (drop 8 buf));
            byte_len = le_value (take 4 (drop 12 buf))
        in if length buf < wire_header_len + byte_len then None
           else Some (\<lparr>block_id = bid, token_len = tokens\<rparr>, take byte_len (drop wire_header_len buf)))"

section \<open>DMA regions\<close>

record dma_stats =
  regions_allocated :: usize
  blocks_serialized :: usize
  blocks_deserialized :: usize
  bytes_transferred :: nat

record dma_manager =
  block_bytes :: usize
  free_pool :: "usize list"
  regions :: "byte_list list"
  dma_counters :: dma_stats

definition dma_new :: "usize \<Rightarrow> usize \<Rightarrow> dma_manager" where
  "dma_new bytes pool_size =
     \<lparr>block_bytes = bytes, free_pool = [0..<pool_size],
      regions = replicate pool_size (replicate bytes 0),
      dma_counters = \<lparr>regions_allocated = pool_size, blocks_serialized = 0, blocks_deserialized = 0,
                      bytes_transferred = 0\<rparr>\<rparr>"

definition dma_acquire :: "dma_manager \<Rightarrow> usize \<times> dma_manager" where
  "dma_acquire d =
     (if free_pool d = [] then
        (length (regions d),
         d\<lparr>regions := regions d @ [replicate (block_bytes d) 0],
           dma_counters := (dma_counters d)\<lparr>regions_allocated := regions_allocated (dma_counters d) + 1\<rparr>\<rparr>)
      else (last (free_pool d), d\<lparr>free_pool := butlast (free_pool d)\<rparr>))"

text \<open>The range check is a \<open>debug_assert!\<close>.\<close>

definition dma_release :: "usize \<Rightarrow> (dma_manager, 'e, unit) act" where
  "dma_release idx d =
     (if idx \<ge> length (regions d) then (Panic, d)
      else (Ok (), d\<lparr>free_pool := free_pool d @ [idx]\<rparr>))"

text \<open>\<open>region[..n].copy_from_slice(&payload[..n])\<close>, and \<open>region[n..].fill(0)\<close> after it.\<close>

definition copy_into :: "byte_list \<Rightarrow> byte_list \<Rightarrow> byte_list" where
  "copy_into region bytes = bytes @ drop (length bytes) region"

definition fill_from :: "nat \<Rightarrow> byte_list \<Rightarrow> byte_list" where
  "fill_from n region = take n region @ replicate (length region - n) 0"

definition write_and_serialize :: "usize \<Rightarrow> kv_handle \<Rightarrow> byte_list \<Rightarrow> (dma_manager, 'e, byte_list) act" where
  "write_and_serialize idx handle payload d =
     (if idx \<ge> length (regions d) then (Panic, d)
      else
        let copy_len = min (length payload) (block_bytes d) in
        if copy_len > length (regions d ! idx) then (Panic, d)
        else
          let region = copy_into (regions d ! idx) (take copy_len payload);
              region = (if copy_len < block_bytes d then fill_from copy_len region else region);
              d = d\<lparr>regions := (regions d)[idx := region],
                    dma_counters := (dma_counters d)
                      \<lparr>blocks_serialized := blocks_serialized (dma_counters d) + 1,
                       bytes_transferred := bytes_transferred (dma_counters d) + length payload\<rparr>\<rparr>
          in (Ok (serialize_block handle (take copy_len region)), d))"

definition receive_into :: "usize \<Rightarrow> byte_list \<Rightarrow> (dma_manager, 'e, (kv_handle \<times> usize) option) act" where
  "receive_into idx wire d =
     (case deserialize_block wire of
        None \<Rightarrow> (Ok None, d)
      | Some (handle, payload) \<Rightarrow>
          if idx \<ge> length (regions d) then (Panic, d)
          else
            let copy_len = min (length payload) (block_bytes d) in
            if copy_len > length (regions d ! idx) then (Panic, d)
            else
              let d = d\<lparr>regions := (regions d)[idx := copy_into (regions d ! idx) (take copy_len payload)],
                        dma_counters := (dma_counters d)
                          \<lparr>blocks_deserialized := blocks_deserialized (dma_counters d) + 1,
                           bytes_transferred := bytes_transferred (dma_counters d) + copy_len\<rparr>\<rparr>
              in (Ok (Some (handle, copy_len)), d))"

definition dma_region :: "dma_manager \<Rightarrow> usize \<Rightarrow> ('e, byte_list) outcome" where
  "dma_region d idx = (if idx < length (regions d) then Ok (regions d ! idx) else Panic)"

definition dma_pool_size :: "dma_manager \<Rightarrow> usize" where
  "dma_pool_size d = length (regions d)"

definition dma_free_regions :: "dma_manager \<Rightarrow> usize" where
  "dma_free_regions d = length (free_pool d)"

section \<open>Node registry\<close>

type_synonym node_id = u32

text \<open>The round-trip time in microseconds.\<close>

record peer_status =
  peer_node :: node_id
  utilisation :: f32
  free_tokens :: usize
  rtt :: nat

record node_registry =
  next_id :: u32
  peers :: "(node_id, peer_status) btree_map"

definition registry_new :: node_registry where
  "registry_new = \<lparr>next_id = 0, peers = []\<rparr>"

definition register :: "usize \<Rightarrow> (node_registry, 'e, node_id) act" where
  "register capacity_tokens r =
     (let nid = next_id r in
      if nid = - 1 then (Panic, r)
      else
        let status = \<lparr>peer_node = nid, utilisation = 0, free_tokens = capacity_tokens, rtt = 50 + unat nid * 10\<rparr>
        in (Ok nid, r\<lparr>next_id := nid + 1, peers := bt_insert nid status (peers r)\<rparr>))"

definition heartbeat :: "node_id \<Rightarrow> f32 \<Rightarrow> usize \<Rightarrow> node_registry \<Rightarrow> node_registry" where
  "heartbeat nid util free r =
     (case bt_get (peers r) nid of
        None \<Rightarrow> r
      | Some p \<Rightarrow> r\<lparr>peers := bt_insert nid (p\<lparr>utilisation := util, free_tokens := free\<rparr>) (peers r)\<rparr>)"

type_synonym peer_order = "peer_status list \<Rightarrow> peer_status list"

definition peers_except :: "peer_order \<Rightarrow> node_id \<Rightarrow> node_registry \<Rightarrow> peer_status list" where
  "peers_except iter exclude r = filter (\<lambda>p. peer_node p \<noteq> exclude) (iter (bt_values (peers r)))"

definition eligible :: "node_id \<Rightarrow> usize \<Rightarrow> node_id list option \<Rightarrow> peer_status \<Rightarrow> bool" where
  "eligible exclude needed targets p \<longleftrightarrow>
     peer_node p \<noteq> exclude \<and> needed \<le> free_tokens p
     \<and> (case targets of None \<Rightarrow> True | Some ts \<Rightarrow> peer_node p \<in> set ts)"

definition best_peer ::
  "peer_order \<Rightarrow> node_id \<Rightarrow> usize \<Rightarrow> node_id list option \<Rightarrow> node_registry \<Rightarrow> ('e, peer_status option) outcome" where
  "best_peer iter exclude needed targets r =
     min_by_partial utilisation
       (filter (\<lambda>p. case targets of None \<Rightarrow> True | Some ts \<Rightarrow> peer_node p \<in> set ts)
         (filter (\<lambda>p. needed \<le> free_tokens p) (peers_except iter exclude r)))"

definition node_count :: "node_registry \<Rightarrow> usize" where
  "node_count r = length (peers r)"

section \<open>Transfer agent\<close>

record remote_block =
  rb_handle :: kv_handle
  rb_origin :: node_id
  received_at :: nat
  rb_payload :: byte_list

datatype transfer_outcome =
    Sent (sent_peer: node_id) (sent_bytes: usize)
  | DroppedLocally
  | PeerFull (full_peer: node_id)

record transfer_stats =
  blocks_sent :: nat
  blocks_dropped :: nat
  bytes_sent :: nat
  transfers_failed :: nat

record transfer_agent =
  agent_node :: node_id
  dma :: dma_manager
  tstats :: transfer_stats

type_synonym inboxes = "(node_id, remote_block list) btree_map"

record fabric =
  registry :: node_registry
  inboxes :: inboxes

definition fabric_new :: fabric where
  "fabric_new = \<lparr>registry = registry_new, inboxes = []\<rparr>"

definition inbox_of :: "inboxes \<Rightarrow> node_id \<Rightarrow> remote_block list" where
  "inbox_of ib n = (case bt_get ib n of None \<Rightarrow> [] | Some bs \<Rightarrow> bs)"

definition transfer_agent_new :: "usize \<Rightarrow> usize \<Rightarrow> usize \<Rightarrow> (fabric, 'e, transfer_agent) act" where
  "transfer_agent_new bytes pool_size capacity_tokens f =
     (case register capacity_tokens (registry f) of
        (Ok nid, r) \<Rightarrow>
          (Ok \<lparr>agent_node = nid, dma = dma_new bytes pool_size,
               tstats = \<lparr>blocks_sent = 0, blocks_dropped = 0, bytes_sent = 0, transfers_failed = 0\<rparr>\<rparr>,
           f\<lparr>registry := r, inboxes := bt_insert nid (inbox_of (inboxes f) nid) (inboxes f)\<rparr>)
      | (Err e, r) \<Rightarrow> (Err e, f\<lparr>registry := r\<rparr>)
      | (Panic, r) \<Rightarrow> (Panic, f\<lparr>registry := r\<rparr>))"

text \<open>The two halves of a shipment on the agent's own DMA manager: a region is acquired, written and
  released, then one is acquired to receive the wire buffer.\<close>

definition ship :: "kv_handle \<Rightarrow> byte_list \<Rightarrow> (dma_manager, 'e, byte_list) act" where
  "ship handle payload d =
     (let (region_idx, d) = dma_acquire d in
      and_then (write_and_serialize region_idx handle payload) (\<lambda>wire.
        and_then (dma_release region_idx) (\<lambda>_. ret wire)) d)"

definition accept :: "byte_list \<Rightarrow> (dma_manager, 'e, (kv_handle \<times> usize) option) act" where
  "accept wire d =
     (let (recv_region, d) = dma_acquire d in
      and_then (receive_into recv_region wire) (\<lambda>result.
        and_then (dma_release recv_region) (\<lambda>_. ret result)) d)"

definition deliver :: "node_id \<Rightarrow> remote_block \<Rightarrow> inboxes \<Rightarrow> inboxes" where
  "deliver n b ib = bt_insert n (inbox_of ib n @ [b]) ib"

definition handoff_one ::
  "peer_order \<Rightarrow> nat \<Rightarrow> kv_handle \<Rightarrow> byte_list \<Rightarrow> node_id list option
   \<Rightarrow> (transfer_agent \<times> fabric, 'e, transfer_outcome) act" where
  "handoff_one iter now handle payload targets af =
     (let (a, f) = af in
      case best_peer iter (agent_node a) (token_len handle) targets (registry f) of
        Err e \<Rightarrow> (Err e, (a, f))
      | Panic \<Rightarrow> (Panic, (a, f))
      | Ok None \<Rightarrow>
          (Ok DroppedLocally,
           (a\<lparr>tstats := (tstats a)\<lparr>blocks_dropped := blocks_dropped (tstats a) + 1\<rparr>\<rparr>, f))
      | Ok (Some peer) \<Rightarrow>
          (case and_then (ship handle payload)
                  (\<lambda>wire. and_then (accept wire) (\<lambda>result. ret (wire, result))) (dma a) of
             (Err e, d) \<Rightarrow> (Err e, (a\<lparr>dma := d\<rparr>, f))
           | (Panic, d) \<Rightarrow> (Panic, (a\<lparr>dma := d\<rparr>, f))
           | (Ok (wire, None), d) \<Rightarrow>
               (Ok (PeerFull (peer_node peer)),
                (a\<lparr>dma := d, tstats := (tstats a)\<lparr>transfers_failed := transfers_failed (tstats a) + 1\<rparr>\<rparr>, f))
           | (Ok (wire, Some _), d) \<Rightarrow>
               let remote = \<lparr>rb_handle = handle, rb_origin = agent_node a, received_at = now,
                             rb_payload = drop wire_header_len wire\<rparr>
               in (Ok (Sent (peer_node peer) (length wire)),
                   (a\<lparr>dma := d,
                      tstats := (tstats a)\<lparr>blocks_sent := blocks_sent (tstats a) + 1,
                                           bytes_sent := bytes_sent (tstats a) + length wire\<rparr>\<rparr>,
                    f\<lparr>inboxes := deliver (peer_node peer) remote (inboxes f)\<rparr>))))"

fun handoff_from ::
  "peer_order \<Rightarrow> (nat \<Rightarrow> nat) \<Rightarrow> nat \<Rightarrow> kv_handle list \<Rightarrow> byte_list list \<Rightarrow> node_id list option
   \<Rightarrow> (transfer_agent \<times> fabric, 'e, transfer_outcome list) act" where
  "handoff_from iter clock i [] payloads targets af = ret [] af"
| "handoff_from iter clock i (h # hs) payloads targets af =
     and_then (handoff_one iter (clock i) h (if i < length payloads then payloads ! i else []) targets)
       (\<lambda>out. and_then (handoff_from iter clock (i + 1) hs payloads targets) (\<lambda>outs. ret (out # outs))) af"

definition handoff ::
  "peer_order \<Rightarrow> (nat \<Rightarrow> nat) \<Rightarrow> kv_handle list \<Rightarrow> byte_list list \<Rightarrow> node_id list option
   \<Rightarrow> (transfer_agent \<times> fabric, 'e, transfer_outcome list) act" where
  "handoff iter clock handles payloads targets = handoff_from iter clock 0 handles payloads targets"

definition drain_inbox :: "transfer_agent \<Rightarrow> fabric \<Rightarrow> remote_block list \<times> fabric" where
  "drain_inbox a f =
     (case bt_get (inboxes f) (agent_node a) of
        None \<Rightarrow> ([], f)
      | Some bs \<Rightarrow> (bs, f\<lparr>inboxes := bt_insert (agent_node a) [] (inboxes f)\<rparr>))"

fun build_agents :: "usize \<Rightarrow> usize \<Rightarrow> usize \<Rightarrow> usize \<Rightarrow> (fabric, 'e, transfer_agent list) act" where
  "build_agents 0 bytes pool_size capacity f = ret [] f"
| "build_agents (Suc n) bytes pool_size capacity f =
     and_then (transfer_agent_new bytes pool_size capacity) (\<lambda>a.
       and_then (build_agents n bytes pool_size capacity) (\<lambda>as. ret (a # as))) f"

definition build_fabric :: "usize \<Rightarrow> usize \<Rightarrow> usize \<Rightarrow> usize \<Rightarrow> ('e, transfer_agent list) outcome \<times> fabric" where
  "build_fabric n bytes pool_size capacity = build_agents n bytes pool_size capacity fabric_new"

end
