(* ===== verification/NixlProps.thy ===== *)
theory NixlProps
  imports Nixl
begin

text \<open>
  Correctness of the block transfer: the wire format decodes exactly what was encoded, the DMA pool
  keeps its regions and gives them back, and a handoff delivers every block to a least-loaded peer
  with room for it, in order and without touching another inbox.
\<close>

section \<open>Wire format\<close>

lemma block_id_le_bytes: "of_nat (unat (w :: u64) mod 256 ^ 8) = w"
proof -
  have "unat w < 2 ^ LENGTH(64)" by (rule unsigned_less)
  then have "unat w mod 256 ^ 8 = unat w" by simp
  then show ?thesis by (metis ucast_id unsigned_of_nat of_nat_unat)
qed

lemma length_serialize [simp]: "length (serialize_block h p) = 16 + length p"
  by (simp add: serialize_block_def)

lemma drop_serialize [simp]: "drop wire_header_len (serialize_block h p) = p"
  by (simp add: serialize_block_def wire_header_len_def)

lemma deserialize_serialize_gen:
  "deserialize_block (serialize_block h p @ rest) =
     Some (h\<lparr>token_len := token_len h mod 2 ^ 32\<rparr>, take (length p mod 2 ^ 32) p)"
proof -
  have le: "length p mod 2 ^ 32 \<le> length p" by simp
  show ?thesis
    using le by (simp add: deserialize_block_def serialize_block_def wire_header_len_def Let_def
        block_id_le_bytes [simplified] take_append)
qed

lemma deserialize_Some_imp:
  assumes "deserialize_block buf = Some (h, p)"
  shows "token_len h < 2 ^ 32 \<and> length p < 2 ^ 32 \<and> (\<exists>rest. buf = serialize_block h p @ rest)"
proof -
  let ?n = "le_value (take 4 (drop 12 buf))"
  from assms have len: "16 \<le> length buf" "16 + ?n \<le> length buf"
    and h: "h = \<lparr>block_id = of_nat (le_value (take 8 buf)), token_len = le_value (take 4 (drop 8 buf))\<rparr>"
    and p: "p = take ?n (drop 16 buf)"
    by (auto simp: deserialize_block_def wire_header_len_def Let_def split: if_splits)
  have lens: "length (take 8 buf) = 8" "length (take 4 (drop 8 buf)) = 4" "length (take 4 (drop 12 buf)) = 4"
    using len by simp_all
  have small: "le_value (take 8 buf) < 2 ^ 64" "le_value (take 4 (drop 8 buf)) < 2 ^ 32" "?n < 2 ^ 32"
    using le_value_less [of "take 8 buf"] le_value_less [of "take 4 (drop 8 buf)"]
      le_value_less [of "take 4 (drop 12 buf)"] lens by simp_all
  have lp: "length p = ?n" using len p by simp
  have id: "unat (of_nat (le_value (take 8 buf)) :: u64) = le_value (take 8 buf)"
    using small(1) by (intro unat_of_nat_small) simp
  have "serialize_block h p = take 8 buf @ take 4 (drop 8 buf) @ take 4 (drop 12 buf) @ p"
    unfolding serialize_block_def lp
    using small by (simp add: h id le_bytes_value_eq [OF lens(1)] le_bytes_value_eq [OF lens(2)]
        le_bytes_value_eq [OF lens(3)])
  also have "\<dots> = take (16 + ?n) buf"
    unfolding p
    using take_add [of 8 4 buf] take_add [of 12 4 buf] take_add [of 16 ?n buf] by simp
  finally have "buf = serialize_block h p @ drop (16 + ?n) buf" by simp
  with small lp h show ?thesis by auto
qed


section \<open>DMA regions\<close>

text \<open>Every region has the block size, and the free list holds distinct indices of regions.\<close>

definition dma_ok :: "dma_manager \<Rightarrow> bool" where
  "dma_ok d \<longleftrightarrow>
     (\<forall>r \<in> set (regions d). length r = block_bytes d)
     \<and> distinct (free_pool d) \<and> (\<forall>i \<in> set (free_pool d). i < length (regions d))"

lemma dma_ok_new [simp]: "dma_ok (dma_new bytes n)"
  by (simp add: dma_ok_def dma_new_def)

lemma dma_acquire_spec:
  assumes "dma_ok d" and "dma_acquire d = (i, d')"
  shows "dma_ok d'" and "block_bytes d' = block_bytes d" and "i < length (regions d')"
    and "i \<notin> set (free_pool d')" and "length (regions d ) \<le> length (regions d')"
    and "free_pool d' @ [i] = (if free_pool d = [] then [length (regions d)] else free_pool d)"
proof -
  have split: "free_pool d = [] \<or> (\<exists>fs k. free_pool d = fs @ [k])"
    by (cases "free_pool d" rule: rev_cases) auto
  show "dma_ok d'" and "block_bytes d' = block_bytes d" and "i < length (regions d')"
    and "i \<notin> set (free_pool d')" and "length (regions d ) \<le> length (regions d')"
    and "free_pool d' @ [i] = (if free_pool d = [] then [length (regions d)] else free_pool d)"
    using assms split by (auto simp: dma_acquire_def dma_ok_def split: if_splits)
qed

lemma copy_into_length: "length bytes \<le> length r \<Longrightarrow> length (copy_into r bytes) = length r"
  by (simp add: copy_into_def)

lemma take_copy_into [simp]: "take (length bytes) (copy_into r bytes) = bytes"
  by (simp add: copy_into_def)

lemma fill_from_length [simp]: "n \<le> length r \<Longrightarrow> length (fill_from n r) = length r"
  by (simp add: fill_from_def)

lemma take_fill_from [simp]: "n \<le> length r \<Longrightarrow> take n (fill_from n r) = take n r"
  by (simp add: fill_from_def)

text \<open>The DMA manager as a transfer leaves it.\<close>

definition dma_after :: "dma_manager \<Rightarrow> dma_manager \<Rightarrow> bool" where
  "dma_after d d' \<longleftrightarrow>
     dma_ok d' \<and> block_bytes d' = block_bytes d \<and> length (regions d) \<le> length (regions d')
     \<and> free_pool d' = (if free_pool d = [] then [length (regions d)] else free_pool d)"

lemma dma_after_trans: "dma_after d d' \<Longrightarrow> dma_after d' d'' \<Longrightarrow> dma_after d d''"
  by (auto simp: dma_after_def split: if_splits)

lemma dma_ok_set_region:
  "dma_ok d \<Longrightarrow> length r = block_bytes d \<Longrightarrow> dma_ok (d\<lparr>regions := (regions d)[i := r], dma_counters := c\<rparr>)"
  by (auto simp: dma_ok_def dest!: set_update_subset_insert [THEN subsetD])

lemma write_and_serialize_spec:
  assumes "dma_ok d" and "i < length (regions d)"
  obtains d' :: dma_manager where
    "(write_and_serialize i h p d :: ('e, _) outcome \<times> _) = (Ok (serialize_block h (take (block_bytes d) p)), d')"
    and "dma_ok d'" and "block_bytes d' = block_bytes d" and "free_pool d' = free_pool d"
    and "length (regions d') = length (regions d)"
proof -
  let ?n = "min (length p) (block_bytes d)"
  let ?copied = "copy_into (regions d ! i) (take ?n p)"
  let ?r = "if ?n < block_bytes d then fill_from ?n ?copied else ?copied"
  let ?c = "(dma_counters d)\<lparr>blocks_serialized := blocks_serialized (dma_counters d) + 1,
                       bytes_transferred := bytes_transferred (dma_counters d) + length p\<rparr>"
  let ?d = "d\<lparr>regions := (regions d)[i := ?r], dma_counters := ?c\<rparr>"
  have len: "length (regions d ! i) = block_bytes d"
    using assms by (simp add: dma_ok_def)
  have r0: "length ?copied = block_bytes d" using len by (simp add: copy_into_length)
  have r: "length ?r = block_bytes d"
    using fill_from_length [of ?n ?copied] r0 by (simp only: min.cobounded2 simp_thms split: if_split)
  have "take ?n ?copied = take ?n p"
    using take_copy_into [of "take ?n p" "regions d ! i"] by (simp add: min.absorb1)
  moreover have "take ?n ?r = take ?n ?copied"
    using take_fill_from [of ?n ?copied] r0 by (simp only: min.cobounded2 simp_thms split: if_split)
  moreover have "take ?n p = take (block_bytes d) p"
    by (simp add: min_def)
  ultimately have "take ?n ?r = take (block_bytes d) p"
    by metis
  then have "write_and_serialize i h p d = (Ok (serialize_block h (take (block_bytes d) p)), ?d)"
    using assms(2) len unfolding write_and_serialize_def Let_def by simp
  from that [OF this] show thesis
    using dma_ok_set_region [OF assms(1) r] by simp
qed

lemma receive_into_spec:
  assumes "dma_ok d" and "i < length (regions d)" and "deserialize_block w = Some (h, p)"
  obtains d' n where
    "(receive_into i w d :: ('e, _) outcome \<times> _) = (Ok (Some (h, n)), d')"
    and "dma_ok d'" and "block_bytes d' = block_bytes d" and "free_pool d' = free_pool d"
    and "length (regions d') = length (regions d)"
proof -
  let ?n = "min (length p) (block_bytes d)"
  let ?r = "copy_into (regions d ! i) (take ?n p)"
  let ?c = "(dma_counters d)\<lparr>blocks_deserialized := blocks_deserialized (dma_counters d) + 1,
                       bytes_transferred := bytes_transferred (dma_counters d) + ?n\<rparr>"
  let ?d = "d\<lparr>regions := (regions d)[i := ?r], dma_counters := ?c\<rparr>"
  have len: "length (regions d ! i) = block_bytes d"
    using assms by (simp add: dma_ok_def)
  have r: "length ?r = block_bytes d" using len by (simp add: copy_into_length)
  have "receive_into i w d = (Ok (Some (h, ?n)), ?d)"
    using assms(2,3) len unfolding receive_into_def Let_def by simp
  from that [OF this] show thesis
    using dma_ok_set_region [OF assms(1) r] by simp
qed

lemma dma_release_spec:
  assumes "dma_ok d" and "i < length (regions d)" and "i \<notin> set (free_pool d)"
  shows "(dma_release i d :: ('e, _) outcome \<times> _) = (Ok (), d\<lparr>free_pool := free_pool d @ [i]\<rparr>)"
    and "dma_ok (d\<lparr>free_pool := free_pool d @ [i]\<rparr>)"
  using assms by (auto simp: dma_release_def dma_ok_def)

lemma ship_spec:
  assumes "dma_ok d"
  obtains d' where "(ship h p d :: ('e, _) outcome \<times> _) = (Ok (serialize_block h (take (block_bytes d) p)), d')"
    and "dma_after d d'"
proof -
  obtain i d1 where a: "dma_acquire d = (i, d1)" by fastforce
  note A = dma_acquire_spec [OF assms a]
  obtain d2 where w: "(write_and_serialize i h p d1 :: ('e, _) outcome \<times> _) = (Ok (serialize_block h (take (block_bytes d1) p)), d2)"
    and D: "dma_ok d2" "block_bytes d2 = block_bytes d1" "free_pool d2 = free_pool d1"
       "length (regions d2) = length (regions d1)"
    by (rule write_and_serialize_spec [OF A(1) A(3)])
  have i2: "i < length (regions d2)" "i \<notin> set (free_pool d2)" using A D by simp_all
  note R = dma_release_spec [OF D(1) i2]
  show thesis
  proof (rule that)
    show "(ship h p d :: ('e, _) outcome \<times> _) = (Ok (serialize_block h (take (block_bytes d) p)), d2\<lparr>free_pool := free_pool d2 @ [i]\<rparr>)"
      using a w A(2) by (simp add: ship_def and_then_def ret_def R(1))
    show "dma_after d (d2\<lparr>free_pool := free_pool d2 @ [i]\<rparr>)"
      using R(2) A D by (simp add: dma_after_def)
  qed
qed

lemma accept_spec:
  assumes "dma_ok d" and "deserialize_block w = Some (h, p)"
  obtains d' n where "(accept w d :: ('e, _) outcome \<times> _) = (Ok (Some (h, n)), d')"
    and "dma_after d d'"
proof -
  obtain i d1 where a: "dma_acquire d = (i, d1)" by fastforce
  note A = dma_acquire_spec [OF assms(1) a]
  obtain d2 n where w: "(receive_into i w d1 :: ('e, _) outcome \<times> _) = (Ok (Some (h, n)), d2)"
    and D: "dma_ok d2" "block_bytes d2 = block_bytes d1" "free_pool d2 = free_pool d1"
       "length (regions d2) = length (regions d1)"
    by (rule receive_into_spec [OF A(1) A(3) assms(2)])
  have i2: "i < length (regions d2)" "i \<notin> set (free_pool d2)" using A D by simp_all
  note R = dma_release_spec [OF D(1) i2]
  show thesis
  proof (rule that)
    show "(accept w d :: ('e, _) outcome \<times> _) = (Ok (Some (h, n)), d2\<lparr>free_pool := free_pool d2 @ [i]\<rparr>)"
      using a w by (simp add: accept_def and_then_def ret_def R(1))
    show "dma_after d (d2\<lparr>free_pool := free_pool d2 @ [i]\<rparr>)"
      using R(2) A D by (simp add: dma_after_def)
  qed
qed


section \<open>Peers\<close>

text \<open>A registry as its operations build it, every peer filed under its own id and ids below the
  next one, in which moreover no recorded utilisation is a NaN. That is up to the nodes: \<open>heartbeat\<close> records what it is
  given, and with a NaN the choice of a peer panics (\<open>heartbeat_nan_panics\<close> below).\<close>

definition registry_ok :: "node_registry \<Rightarrow> bool" where
  "registry_ok r \<longleftrightarrow>
     bt_wf (peers r)
     \<and> (\<forall>n p. bt_get (peers r) n = Some p \<longrightarrow> peer_node p = n \<and> n < next_id r \<and> \<not> f32_is_nan (utilisation p))"

text \<open>What is relied on of the iteration of a \<open>HashMap\<close>: every entry is visited.\<close>

definition visits_all :: "peer_order \<Rightarrow> bool" where
  "visits_all iter \<longleftrightarrow> (\<forall>ps. set (iter ps) = set ps)"

lemma peers_values: "bt_wf (peers r) \<Longrightarrow> set (bt_values (peers r)) = {p. \<exists>n. bt_get (peers r) n = Some p}"
  by (force simp: bt_values_def bt_get_iff)

lemma best_peer_filter:
  "best_peer iter me needed targets r =
     min_by_partial utilisation (filter (eligible me needed targets) (iter (bt_values (peers r))))"
proof -
  have "filter (\<lambda>p. case targets of None \<Rightarrow> True | Some ts \<Rightarrow> peer_node p \<in> set ts)
          (filter (\<lambda>p. needed \<le> free_tokens p) (peers_except iter me r))
        = filter (eligible me needed targets) (iter (bt_values (peers r)))"
    unfolding peers_except_def filter_filter by (rule filter_cong) (auto simp: eligible_def)
  then show ?thesis by (simp add: best_peer_def)
qed

text \<open>A peer that \<open>best_peer\<close> may choose.\<close>

definition best_for :: "node_registry \<Rightarrow> node_id \<Rightarrow> usize \<Rightarrow> node_id list option \<Rightarrow> peer_status \<Rightarrow> bool" where
  "best_for r me needed targets p \<longleftrightarrow>
     bt_get (peers r) (peer_node p) = Some p \<and> eligible me needed targets p
     \<and> (\<forall>n q. bt_get (peers r) n = Some q \<longrightarrow> eligible me needed targets q
          \<longrightarrow> f32_key (utilisation p) \<le> f32_key (utilisation q))"

definition no_peer_for :: "node_registry \<Rightarrow> node_id \<Rightarrow> usize \<Rightarrow> node_id list option \<Rightarrow> bool" where
  "no_peer_for r me needed targets \<longleftrightarrow> (\<forall>n q. bt_get (peers r) n = Some q \<longrightarrow> \<not> eligible me needed targets q)"

lemma best_peer_cases:
  assumes "registry_ok r" and "visits_all iter"
  obtains (None) "(best_peer iter me needed targets r :: ('e, _) outcome) = Ok None" and "no_peer_for r me needed targets"
  | (Some) p where "(best_peer iter me needed targets r :: ('e, _) outcome) = Ok (Some p)" and "best_for r me needed targets p"
proof -
  let ?ps = "filter (eligible me needed targets) (iter (bt_values (peers r)))"
  have set: "set ?ps = {p. (\<exists>n. bt_get (peers r) n = Some p) \<and> eligible me needed targets p}"
    using assms peers_values [of r] by (auto simp: registry_ok_def visits_all_def)
  show thesis
  proof (cases "?ps = []")
    case True
    then have "no_peer_for r me needed targets" using set by (auto simp: no_peer_for_def)
    moreover have "(best_peer iter me needed targets r :: ('e, _) outcome) = Ok None" unfolding best_peer_filter True by simp
    ultimately show thesis using None by blast
  next
    case False
    have nan: "\<forall>p \<in> set ?ps. \<not> f32_is_nan (utilisation p)"
      using assms(1) unfolding set registry_ok_def by blast
    obtain p where m: "(min_by_partial utilisation ?ps :: ('e, _) outcome) = Ok (Some p)" and p: "p \<in> set ?ps"
      and least: "\<forall>q \<in> set ?ps. f32_key (utilisation p) \<le> f32_key (utilisation q)"
      by (rule min_by_partial_ok [OF nan False])
    have "bt_get (peers r) (peer_node p) = Some p"
      using p assms(1) unfolding set registry_ok_def by blast
    then have "best_for r me needed targets p"
      using p least unfolding set best_for_def by blast
    with m Some show thesis unfolding best_peer_filter by blast
  qed
qed

lemma registry_ok_new [simp]: "registry_ok registry_new"
  by (simp add: registry_ok_def registry_new_def)

lemma register_Ok:
  assumes "registry_ok r" and "register c r = (Ok n, r')"
  shows "registry_ok r'" and "n = next_id r" and "bt_get (peers r) n = None"
    and "next_id r' = next_id r + 1" and "next_id r \<noteq> - 1"
    and "bt_get (peers r') = (bt_get (peers r))(n \<mapsto> \<lparr>peer_node = n, utilisation = 0, free_tokens = c, rtt = 50 + unat n * 10\<rparr>)"
proof -
  from assms(2) have n: "n = next_id r" "next_id r \<noteq> - 1"
    and r': "r' = r\<lparr>next_id := n + 1, peers := bt_insert n \<lparr>peer_node = n, utilisation = 0, free_tokens = c, rtt = 50 + unat n * 10\<rparr> (peers r)\<rparr>"
    by (auto simp: register_def Let_def split: if_splits)
  show "n = next_id r" "next_id r \<noteq> - 1" by (fact n)+
  show "bt_get (peers r) n = None"
    using assms(1) n by (cases "bt_get (peers r) n") (auto simp: registry_ok_def)
  show "next_id r' = next_id r + 1" using n r' by simp
  show "bt_get (peers r') = (bt_get (peers r))(n \<mapsto> \<lparr>peer_node = n, utilisation = 0, free_tokens = c, rtt = 50 + unat n * 10\<rparr>)"
    using r' by simp
  show "registry_ok r'"
    using assms(1) n r' word_less_succ_self [of n]
    by (auto simp: registry_ok_def split: if_splits) (meson less_trans word_less_succ less_imp_le)+
qed

lemma registry_ok_heartbeat:
  assumes "registry_ok r" and "\<not> f32_is_nan u"
  shows "registry_ok (heartbeat n u free r)"
  using assms by (auto simp: registry_ok_def heartbeat_def split: option.splits if_splits)


section \<open>Handoff\<close>

definition payload_at :: "byte_list list \<Rightarrow> nat \<Rightarrow> byte_list" where
  "payload_at payloads i = (if i < length payloads then payloads ! i else [])"

text \<open>The block that a node receives: the payload cut to the size of a DMA region.\<close>

definition remote_for :: "transfer_agent \<Rightarrow> nat \<Rightarrow> byte_list \<Rightarrow> kv_handle \<Rightarrow> remote_block" where
  "remote_for a now payload h =
     \<lparr>rb_handle = h, rb_origin = agent_node a, received_at = now, rb_payload = take (block_bytes (dma a)) payload\<rparr>"

fun outcome_ok ::
  "node_registry \<Rightarrow> node_id \<Rightarrow> node_id list option \<Rightarrow> usize \<Rightarrow> byte_list \<Rightarrow> kv_handle \<Rightarrow> transfer_outcome \<Rightarrow> bool" where
  "outcome_ok r me targets bytes payload h (Sent n b) \<longleftrightarrow>
     (\<exists>p. best_for r me (token_len h) targets p \<and> n = peer_node p) \<and> b = 16 + min (length payload) bytes"
| "outcome_ok r me targets bytes payload h DroppedLocally \<longleftrightarrow> no_peer_for r me (token_len h) targets"
| "outcome_ok r me targets bytes payload h (PeerFull n) \<longleftrightarrow> False"

fun delivered ::
  "transfer_agent \<Rightarrow> (nat \<Rightarrow> nat) \<Rightarrow> byte_list list \<Rightarrow> node_id \<Rightarrow> nat \<Rightarrow> kv_handle list \<Rightarrow> transfer_outcome list
   \<Rightarrow> remote_block list" where
  "delivered a clock payloads n i (h # hs) (out # outs) =
     (case out of Sent m b \<Rightarrow> if m = n then [remote_for a (clock i) (payload_at payloads i) h] else [] | _ \<Rightarrow> [])
     @ delivered a clock payloads n (i + 1) hs outs"
| "delivered a clock payloads n i hs outs = []"

definition count_sent :: "transfer_outcome list \<Rightarrow> nat" where
  "count_sent outs = length (filter is_Sent outs)"

lemma inbox_deliver: "inbox_of (deliver m b ib) n = inbox_of ib n @ (if m = n then [b] else [])"
  by (simp add: inbox_of_def deliver_def)

lemma handoff_one_cases:
  assumes "registry_ok (registry f)" and "visits_all iter" and "dma_ok (dma a)"
  obtains (Drop) a' where
      "(handoff_one iter now h p targets (a, f) :: ('e, _) outcome \<times> _) = (Ok DroppedLocally, (a', f))"
      and "no_peer_for (registry f) (agent_node a) (token_len h) targets"
      and "a' = a\<lparr>tstats := (tstats a)\<lparr>blocks_dropped := blocks_dropped (tstats a) + 1\<rparr>\<rparr>"
  | (Sent) q d' a' where
      "(handoff_one iter now h p targets (a, f) :: ('e, _) outcome \<times> _) =
         (Ok (Sent (peer_node q) (16 + min (length p) (block_bytes (dma a)))),
          (a', f\<lparr>inboxes := deliver (peer_node q) (remote_for a now p h) (inboxes f)\<rparr>))"
      and "best_for (registry f) (agent_node a) (token_len h) targets q"
      and "dma_after (dma a) d'"
      and "a' = a\<lparr>dma := d', tstats := (tstats a)\<lparr>blocks_sent := blocks_sent (tstats a) + 1,
                  bytes_sent := bytes_sent (tstats a) + (16 + min (length p) (block_bytes (dma a)))\<rparr>\<rparr>"
  using assms(1,2)
proof (cases rule: best_peer_cases [where me = "agent_node a" and needed = "token_len h" and targets = targets and 'e = 'e])
  case None
  show thesis
    by (rule Drop [OF _ None(2) refl]) (simp add: handoff_one_def None(1))
next
  case (Some q)
  obtain d1 where sh: "(ship h p (dma a) :: ('e, _) outcome \<times> _) = (Ok (serialize_block h (take (block_bytes (dma a)) p)), d1)"
    and d1: "dma_after (dma a) d1"
    by (rule ship_spec [OF assms(3)])
  have ok1: "dma_ok d1" using d1 by (simp add: dma_after_def)
  obtain d2 m where ac: "(accept (serialize_block h (take (block_bytes (dma a)) p)) d1 :: ('e, _) outcome \<times> _) =
      (Ok (Some (h\<lparr>token_len := token_len h mod 2 ^ 32\<rparr>, m)), d2)"
    and d2: "dma_after d1 d2"
    by (rule accept_spec [OF ok1 deserialize_serialize_gen [where rest = "[]", unfolded append_Nil2]])
  show thesis
    by (rule Sent [OF _ Some(2) dma_after_trans [OF d1 d2] refl])
      (simp add: handoff_one_def Some(1) and_then_def sh ac ret_def remote_for_def)
qed

lemma handoff_from_spec:
  assumes "registry_ok (registry f)" and "visits_all iter" and "dma_ok (dma a)"
  shows "\<exists>outs a' f'. (handoff_from iter clock i hs payloads targets (a, f) :: ('e, _) outcome \<times> _) = (Ok outs, (a', f'))
     \<and> length outs = length hs
     \<and> (\<forall>j < length hs. outcome_ok (registry f) (agent_node a) targets (block_bytes (dma a))
           (payload_at payloads (i + j)) (hs ! j) (outs ! j))
     \<and> (\<forall>n. inbox_of (inboxes f') n = inbox_of (inboxes f) n @ delivered a clock payloads n i hs outs)
     \<and> registry f' = registry f \<and> dma_ok (dma a')
     \<and> blocks_sent (tstats a') = blocks_sent (tstats a) + count_sent outs
     \<and> blocks_dropped (tstats a') + count_sent outs = blocks_dropped (tstats a) + length hs"
  using assms
proof (induction hs arbitrary: i a f)
  case Nil
  then show ?case by (simp add: ret_def count_sent_def)
next
  case (Cons h hs)
  let ?p = "payload_at payloads i"
  have p: "(if i < length payloads then payloads ! i else []) = ?p" by (simp add: payload_at_def)
  obtain out a1 f1 where one: "(handoff_one iter (clock i) h ?p targets (a, f) :: ('e, _) outcome \<times> _) = (Ok out, (a1, f1))"
    and out: "outcome_ok (registry f) (agent_node a) targets (block_bytes (dma a)) ?p h out"
    and inb: "\<forall>n. inbox_of (inboxes f1) n = inbox_of (inboxes f) n @
        (case out of Sent m b \<Rightarrow> if m = n then [remote_for a (clock i) ?p h] else [] | _ \<Rightarrow> [])"
    and st: "registry f1 = registry f" "dma_ok (dma a1)" "agent_node a1 = agent_node a"
      "block_bytes (dma a1) = block_bytes (dma a)"
    and cnt: "blocks_sent (tstats a1) = blocks_sent (tstats a) + count_sent [out]"
      "blocks_dropped (tstats a1) + count_sent [out] = blocks_dropped (tstats a) + 1"
    using Cons.prems
  proof (cases rule: handoff_one_cases [where now = "clock i" and h = h and p = ?p and targets = targets and 'e = 'e])
    case (Drop a')
    show thesis
      by (rule that [OF Drop(1)]) (use Drop(2,3) Cons.prems in \<open>simp_all add: count_sent_def\<close>)
  next
    case (Sent q d' a')
    have "block_bytes d' = block_bytes (dma a)" "dma_ok d'"
      using Sent(3) by (simp_all add: dma_after_def)
    then show thesis
      by (intro that [OF Sent(1)]) (use Sent(2,4) Cons.prems in \<open>auto simp: count_sent_def inbox_deliver\<close>)
  qed
  have same: "delivered a1 clock payloads = delivered a clock payloads"
  proof -
    have "delivered a1 clock payloads n i hs outs = delivered a clock payloads n i hs outs" for n i hs outs
      by (induction hs outs arbitrary: i rule: list_induct2')
        (simp_all add: remote_for_def st split: transfer_outcome.splits)
    then show ?thesis by (simp add: fun_eq_iff)
  qed
  have ok1: "registry_ok (registry f1)" using Cons.prems st by simp
  from Cons.IH [OF ok1 Cons.prems(2) st(2), of "i + 1"] obtain outs a' f' where
    rest: "(handoff_from iter clock (i + 1) hs payloads targets (a1, f1) :: ('e, _) outcome \<times> _) = (Ok outs, (a', f'))"
      "length outs = length hs"
    and outs: "\<forall>j < length hs. outcome_ok (registry f) (agent_node a) targets (block_bytes (dma a))
           (payload_at payloads (i + 1 + j)) (hs ! j) (outs ! j)"
    and fin: "\<forall>n. inbox_of (inboxes f') n = inbox_of (inboxes f1) n @ delivered a clock payloads n (i + 1) hs outs"
      "registry f' = registry f" "dma_ok (dma a')"
      "blocks_sent (tstats a') = blocks_sent (tstats a1) + count_sent outs"
      "blocks_dropped (tstats a') + count_sent outs = blocks_dropped (tstats a1) + length hs"
    unfolding st same by (elim exE conjE) (rule that)
  have "(handoff_from iter clock i (h # hs) payloads targets (a, f) :: ('e, _) outcome \<times> _) = (Ok (out # outs), (a', f'))"
    using one rest by (simp add: p and_then_def ret_def)
  moreover have "\<forall>j < length (h # hs). outcome_ok (registry f) (agent_node a) targets (block_bytes (dma a))
           (payload_at payloads (i + j)) ((h # hs) ! j) ((out # outs) ! j)"
    using out outs by (auto simp: less_Suc_eq_0_disj)
  moreover have "count_sent (out # outs) = count_sent [out] + count_sent outs"
    by (simp add: count_sent_def)
  ultimately show ?case
    using rest(2) inb fin cnt by (intro exI [of _ "out # outs"] exI [of _ a'] exI [of _ f']) auto
qed


section \<open>Properties\<close>

text \<open>C33. The wire format is exact: a buffer decodes to a handle and a payload if and only if it starts with
  their encoding and both lengths fit in 32 bits, and what follows the block is ignored.\<close>

theorem wire_exact:
  "deserialize_block buf = Some (h, p) \<longleftrightarrow>
     token_len h < 2 ^ 32 \<and> length p < 2 ^ 32 \<and> (\<exists>rest. buf = serialize_block h p @ rest)"
proof
  assume "deserialize_block buf = Some (h, p)"
  then show "token_len h < 2 ^ 32 \<and> length p < 2 ^ 32 \<and> (\<exists>rest. buf = serialize_block h p @ rest)"
    by (rule deserialize_Some_imp)
next
  assume "token_len h < 2 ^ 32 \<and> length p < 2 ^ 32 \<and> (\<exists>rest. buf = serialize_block h p @ rest)"
  then show "deserialize_block buf = Some (h, p)"
    by (auto simp: deserialize_serialize_gen)
qed

text \<open>C34. As long as no node has reported a NaN as its utilisation, a handoff never panics and answers every block: it is sent to
  a registered peer other than the sender, among the targets, with room for the block's tokens and of least utilisation among such
  peers, or it is dropped when there is none. The sent blocks arrive in their peer's inbox in
  order, with the payload cut to the region size (a block without a payload arrives with an empty one, on a wire of 16 bytes), no other
  inbox changes, and the counters agree.\<close>

theorem handoff_delivers:
  assumes "registry_ok (registry f)" and "visits_all iter" and "dma_ok (dma a)"
  shows "\<exists>outs a' f'. (handoff iter clock hs payloads targets (a, f) :: ('e, _) outcome \<times> _) = (Ok outs, (a', f'))
     \<and> length outs = length hs
     \<and> (\<forall>j < length hs. outcome_ok (registry f) (agent_node a) targets (block_bytes (dma a))
           (payload_at payloads j) (hs ! j) (outs ! j))
     \<and> (\<forall>n. inbox_of (inboxes f') n = inbox_of (inboxes f) n @ delivered a clock payloads n 0 hs outs)
     \<and> registry f' = registry f \<and> dma_ok (dma a')
     \<and> blocks_sent (tstats a') = blocks_sent (tstats a) + count_sent outs
     \<and> blocks_dropped (tstats a') + count_sent outs = blocks_dropped (tstats a) + length hs"
  unfolding handoff_def by (rule handoff_from_spec [OF assms, where i = 0, unfolded add_0])

text \<open>A fabric of two nodes with room for 100 tokens each and regions of two bytes.\<close>

definition pair_registry :: node_registry where
  "pair_registry =
     \<lparr>next_id = 2,
      peers = [(0, \<lparr>peer_node = 0, utilisation = 0, free_tokens = 100, rtt = 50\<rparr>),
               (1, \<lparr>peer_node = 1, utilisation = 0, free_tokens = 100, rtt = 60\<rparr>)]\<rparr>"

definition pair_agent :: transfer_agent where
  "pair_agent =
     \<lparr>agent_node = 0, dma = dma_new 2 1,
      tstats = \<lparr>blocks_sent = 0, blocks_dropped = 0, bytes_sent = 0, transfers_failed = 0\<rparr>\<rparr>"

definition pair_fabric :: fabric where
  "pair_fabric = \<lparr>registry = pair_registry, inboxes = [(0, []), (1, [])]\<rparr>"

lemma pair_registry_ok: "registry_ok pair_registry"
  by (simp add: registry_ok_def pair_registry_def bt_wf_def)

lemma visits_all_id: "visits_all (\<lambda>ps. ps)"
  by (simp add: visits_all_def)

theorem handoff_delivers_witness:
  "registry_ok (registry pair_fabric) \<and> dma_ok (dma pair_agent)
   \<and> (\<exists>outs a' f'. (handoff (\<lambda>ps. ps) (\<lambda>i. i) [\<lparr>block_id = 7, token_len = 3\<rparr>] [[1, 2, 3]] None
          (pair_agent, pair_fabric) :: (unit, _) outcome \<times> _) = (Ok outs, (a', f'))
        \<and> length outs = 1 \<and> dma_ok (dma a'))"
proof -
  have ok: "registry_ok (registry pair_fabric)" "dma_ok (dma pair_agent)"
    by (simp_all add: pair_registry_ok pair_fabric_def pair_agent_def)
  from handoff_delivers [OF ok(1) visits_all_id ok(2), where clock = "\<lambda>i. i"
      and hs = "[\<lparr>block_id = 7, token_len = 3\<rparr>]" and payloads = "[[1, 2, 3]]" and targets = None and 'e = unit] ok
  show ?thesis by fastforce
qed

lemmas nixl_eval =
  best_peer_def peers_except_def bt_values_def min_by_partial_def f32_partial_cmp_def cmp_key_def
  and_then_def ret_def ship_def accept_def dma_new_def dma_acquire_def dma_release_def
  write_and_serialize_def receive_into_def deserialize_serialize_gen [where rest = "[]", simplified]
  copy_into_def fill_from_def deliver_def inbox_of_def

text \<open>A handoff does not take the room it uses: of two blocks of 60 tokens, handed over in one call to a
  fabric whose only other node has room for 100, both are sent to that node.\<close>

theorem handoff_overcommits:
  "case (handoff (\<lambda>ps. ps) (\<lambda>i. i) [\<lparr>block_id = 1, token_len = 60\<rparr>, \<lparr>block_id = 2, token_len = 60\<rparr>] [] None
       (pair_agent, pair_fabric) :: (unit, _) outcome \<times> _) of
     (Ok outs, (a, f)) \<Rightarrow>
       outs = [Sent 1 16, Sent 1 16]
       \<and> map (token_len \<circ> rb_handle) (inbox_of (inboxes f) 1) = [60, 60]
       \<and> map_option free_tokens (bt_get (peers (registry f)) 1) = Some 100
   | _ \<Rightarrow> False"
  by (simp add: handoff_def handoff_one_def pair_agent_def pair_fabric_def pair_registry_def nixl_eval)

text \<open>A NaN that a node reports makes every handoff panic that has another peer to compare it with.\<close>

lemma heartbeat_nan_panics:
  "fst (handoff (\<lambda>ps. ps) (\<lambda>i. i) [\<lparr>block_id = 1, token_len = 60\<rparr>] [] None
     (pair_agent, pair_fabric\<lparr>registry := heartbeat 2 0x7fc00000 100 (snd (register 100 pair_registry :: (unit, node_id) outcome \<times> node_registry))\<rparr>)
     :: (unit, transfer_outcome list) outcome \<times> _) = Panic"
  by (simp add: handoff_def handoff_one_def pair_agent_def pair_fabric_def pair_registry_def nixl_eval register_def heartbeat_def
      f32_is_nan_def f32_magnitude_def)

end
