(* ===== verification/Disagg.thy ===== *)
theory Disagg
  imports NixlProps
begin

text \<open>
  Disaggregated prefill and decode (\<open>src/src/disagg.rs\<close>): a pool of prefill agents that ship the KV block
  of a prompt over the fabric to one of the decode agents, and the round-robin dispatch of decode
  tasks. The agents share one fabric; \<open>iter\<close> is the iteration order of the peer table and \<open>now\<close> the
  time of the transfer, as in the theory of the fabric. The cursors are 64-bit and wrap.
\<close>

section \<open>State and operations\<close>

datatype node_role = Prefill | Decode

fun role_name :: "node_role \<Rightarrow> string" where
  "role_name Prefill = ''prefill''"
| "role_name Decode = ''decode''"

record prefill_task =
  request_id :: u64
  task_tokens :: "token_id list"
  kv_payload :: "byte_list option"

record decode_task =
  dt_request_id :: u64
  dt_handle :: kv_handle
  remote :: remote_block
  prefill_origin :: node_id

record disagg_stats =
  prefill_tasks_routed :: nat
  decode_tasks_dispatched :: nat
  kv_blocks_migrated :: nat
  kv_bytes_migrated :: nat
  migration_failures :: nat

record disagg_pool =
  prefill_agents :: "transfer_agent list"
  decode_agents :: "transfer_agent list"
  pool_fabric :: fabric
  prefill_cursor :: nat
  decode_cursor :: nat
  pool_stats :: disagg_stats

definition prefill_node_ids :: "disagg_pool \<Rightarrow> node_id list" where
  "prefill_node_ids pool = map agent_node (prefill_agents pool)"

definition decode_node_ids :: "disagg_pool \<Rightarrow> node_id list" where
  "decode_node_ids pool = map agent_node (decode_agents pool)"

fun count_outcome :: "transfer_outcome \<Rightarrow> disagg_stats \<Rightarrow> disagg_stats" where
  "count_outcome (Sent n b) s =
     s\<lparr>kv_blocks_migrated := kv_blocks_migrated s + 1, kv_bytes_migrated := kv_bytes_migrated s + b\<rparr>"
| "count_outcome _ s = s\<lparr>migration_failures := migration_failures s + 1\<rparr>"

fun drain_all :: "u64 \<Rightarrow> node_id \<Rightarrow> transfer_agent list \<Rightarrow> fabric \<Rightarrow> decode_task list \<times> fabric" where
  "drain_all rid origin [] f = ([], f)"
| "drain_all rid origin (a # agents) f =
     (let (blocks, f) = drain_inbox a f;
          mine = map (\<lambda>b. \<lparr>dt_request_id = rid, dt_handle = rb_handle b, remote = b, prefill_origin = origin\<rparr>)
                   (filter (\<lambda>b. block_id (rb_handle b) = rid) blocks);
          (tasks, f) = drain_all rid origin agents f
      in (mine @ tasks, f))"

definition wrapping_succ :: "nat \<Rightarrow> nat" where
  "wrapping_succ n = (n + 1) mod 2 ^ 64"

definition run_prefill :: "peer_order \<Rightarrow> nat \<Rightarrow> prefill_task \<Rightarrow> (disagg_pool, 'e, decode_task list) act" where
  "run_prefill iter now task pool =
     (let st = (pool_stats pool)\<lparr>prefill_tasks_routed := prefill_tasks_routed (pool_stats pool) + 1\<rparr>;
          pool = pool\<lparr>pool_stats := st\<rparr>
      in
      if prefill_agents pool = [] then (Panic, pool)
      else
        let prefill_idx = prefill_cursor pool mod length (prefill_agents pool);
            pool = pool\<lparr>prefill_cursor := wrapping_succ (prefill_cursor pool)\<rparr>;
            agent = prefill_agents pool ! prefill_idx;
            handle = \<lparr>block_id = request_id task, token_len = length (task_tokens task)\<rparr>;
            payload = (case kv_payload task of None \<Rightarrow> [] | Some p \<Rightarrow> p)
        in
        case handoff iter (\<lambda>_. now) [handle] [payload] (Some (decode_node_ids pool)) (agent, pool_fabric pool) of
          (Ok outcomes, (agent', f)) \<Rightarrow>
            let pool = pool\<lparr>prefill_agents := (prefill_agents pool)[prefill_idx := agent'],
                            pool_stats := fold count_outcome outcomes (pool_stats pool)\<rparr>;
                (tasks, f) = drain_all (request_id task) (agent_node agent') (decode_agents pool) f
            in (Ok tasks, pool\<lparr>pool_fabric := f\<rparr>)
        | (Err e, (agent', f)) \<Rightarrow>
            (Err e, pool\<lparr>prefill_agents := (prefill_agents pool)[prefill_idx := agent'], pool_fabric := f\<rparr>)
        | (Panic, (agent', f)) \<Rightarrow>
            (Panic, pool\<lparr>prefill_agents := (prefill_agents pool)[prefill_idx := agent'], pool_fabric := f\<rparr>))"

definition dispatch_decode :: "decode_task \<Rightarrow> (disagg_pool, 'e, node_id) act" where
  "dispatch_decode task pool =
     (let st = (pool_stats pool)\<lparr>decode_tasks_dispatched := decode_tasks_dispatched (pool_stats pool) + 1\<rparr>;
          pool = pool\<lparr>pool_stats := st\<rparr>
      in
      if decode_agents pool = [] then (Panic, pool)
      else
        let idx = decode_cursor pool mod length (decode_agents pool)
        in (Ok (agent_node (decode_agents pool ! idx)), pool\<lparr>decode_cursor := wrapping_succ (decode_cursor pool)\<rparr>))"

fun dispatch_all :: "decode_task list \<Rightarrow> (disagg_pool, 'e, (decode_task \<times> node_id) list) act" where
  "dispatch_all [] pool = ret [] pool"
| "dispatch_all (dt # dts) pool =
     and_then (dispatch_decode dt) (\<lambda>node. and_then (dispatch_all dts) (\<lambda>rest. ret ((dt, node) # rest))) pool"

definition run_pipeline ::
  "peer_order \<Rightarrow> nat \<Rightarrow> prefill_task \<Rightarrow> (disagg_pool, 'e, (decode_task \<times> node_id) list) act" where
  "run_pipeline iter now task = and_then (run_prefill iter now task) dispatch_all"

definition disagg_stats_default :: disagg_stats where
  "disagg_stats_default =
     \<lparr>prefill_tasks_routed = 0, decode_tasks_dispatched = 0, kv_blocks_migrated = 0, kv_bytes_migrated = 0,
      migration_failures = 0\<rparr>"

text \<open>The two assertions come first.\<close>

definition build_disagg_pool :: "usize \<Rightarrow> usize \<Rightarrow> usize \<Rightarrow> usize \<Rightarrow> usize \<Rightarrow> ('e, disagg_pool) outcome" where
  "build_disagg_pool prefill_count decode_count bytes dma_pool capacity =
     (if prefill_count = 0 \<or> decode_count = 0 then Panic
      else
        let (r, f) = build_fabric (prefill_count + decode_count) bytes dma_pool capacity in
        bind_outcome r (\<lambda>agents.
          Ok \<lparr>prefill_agents = take prefill_count agents, decode_agents = drop prefill_count agents,
              pool_fabric = f, prefill_cursor = 0, decode_cursor = 0, pool_stats = disagg_stats_default\<rparr>))"

section \<open>Pools\<close>

text \<open>A pool as it is built and as its operations leave it: both groups have an agent, every agent is
  registered under its own id, no two agents share one, and the decode inboxes have been drained.\<close>

definition pool_ok :: "disagg_pool \<Rightarrow> bool" where
  "pool_ok pool \<longleftrightarrow>
     prefill_agents pool \<noteq> [] \<and> decode_agents pool \<noteq> []
     \<and> registry_ok (registry (pool_fabric pool))
     \<and> (\<forall>a \<in> set (prefill_agents pool). dma_ok (dma a))
     \<and> distinct (prefill_node_ids pool @ decode_node_ids pool)
     \<and> (\<forall>n \<in> set (prefill_node_ids pool @ decode_node_ids pool). bt_get (peers (registry (pool_fabric pool))) n \<noteq> None)
     \<and> (\<forall>n \<in> set (decode_node_ids pool). inbox_of (inboxes (pool_fabric pool)) n = [])"

lemma drain_inbox_spec:
  assumes "drain_inbox a f = (bs, f')"
  shows "bs = inbox_of (inboxes f) (agent_node a)" and "registry f' = registry f"
    and "inbox_of (inboxes f') n = (if n = agent_node a then [] else inbox_of (inboxes f) n)"
  using assms by (auto simp: drain_inbox_def inbox_of_def split: option.splits)

definition tasks_of :: "u64 \<Rightarrow> node_id \<Rightarrow> remote_block list \<Rightarrow> decode_task list" where
  "tasks_of rid origin bs =
     map (\<lambda>b. \<lparr>dt_request_id = rid, dt_handle = rb_handle b, remote = b, prefill_origin = origin\<rparr>)
       (filter (\<lambda>b. block_id (rb_handle b) = rid) bs)"

lemma drain_all_spec:
  assumes "drain_all rid origin agents f = (tasks, f')" and "distinct (map agent_node agents)"
  shows "tasks = concat (map (\<lambda>a. tasks_of rid origin (inbox_of (inboxes f) (agent_node a))) agents)
     \<and> registry f' = registry f
     \<and> (\<forall>n. inbox_of (inboxes f') n = (if n \<in> agent_node ` set agents then [] else inbox_of (inboxes f) n))"
  using assms
proof (induction agents arbitrary: f tasks f')
  case (Cons a agents)
  obtain bs f1 where d: "drain_inbox a f = (bs, f1)" by fastforce
  obtain ts f2 where r: "drain_all rid origin agents f1 = (ts, f2)" by fastforce
  note D = drain_inbox_spec [OF d]
  have IH: "ts = concat (map (\<lambda>a. tasks_of rid origin (inbox_of (inboxes f1) (agent_node a))) agents)"
    "registry f2 = registry f1"
    "\<forall>n. inbox_of (inboxes f2) n = (if n \<in> agent_node ` set agents then [] else inbox_of (inboxes f1) n)"
    using Cons.IH [OF r] Cons.prems(2) by simp_all
  have same: "map (\<lambda>a. tasks_of rid origin (inbox_of (inboxes f1) (agent_node a))) agents
      = map (\<lambda>a. tasks_of rid origin (inbox_of (inboxes f) (agent_node a))) agents"
    using Cons.prems(2) D(3) by (auto simp: image_iff)
  have eq: "tasks = tasks_of rid origin bs @ ts" "f' = f2"
    using Cons.prems(1) d r by (simp_all add: tasks_of_def)
  show ?case
    unfolding eq IH(1) same using IH(2,3) D by simp
qed simp


definition task_handle :: "prefill_task \<Rightarrow> kv_handle" where
  "task_handle task = \<lparr>block_id = request_id task, token_len = length (task_tokens task)\<rparr>"

definition task_payload :: "prefill_task \<Rightarrow> byte_list" where
  "task_payload task = (case kv_payload task of None \<Rightarrow> [] | Some p \<Rightarrow> p)"

definition next_prefill :: "disagg_pool \<Rightarrow> transfer_agent" where
  "next_prefill pool = prefill_agents pool ! (prefill_cursor pool mod length (prefill_agents pool))"

text \<open>The task that a decode node is given for a prompt.\<close>

definition migrated_task :: "transfer_agent \<Rightarrow> nat \<Rightarrow> prefill_task \<Rightarrow> decode_task" where
  "migrated_task a now task =
     \<lparr>dt_request_id = request_id task, dt_handle = task_handle task,
      remote = remote_for a now (task_payload task) (task_handle task), prefill_origin = agent_node a\<rparr>"

lemma concat_map_single:
  assumes "distinct xs" and "y \<in> set xs" and "\<forall>x \<in> set xs. x \<noteq> y \<longrightarrow> f x = []"
  shows "concat (map f xs) = f y"
  using assms
proof (induction xs)
  case (Cons x xs)
  show ?case
  proof (cases "x = y")
    case True
    have "concat (map f xs) = []"
      using Cons.prems True by (auto simp: concat_eq_Nil_conv)
    then show ?thesis using True by simp
  next
    case False
    then show ?thesis using Cons by simp
  qed
qed simp

text \<open>The single handoff of a prefill: what it leaves in the inboxes of the decode nodes.\<close>

lemma handoff_single:
  assumes "registry_ok (registry f)" and "visits_all iter" and "dma_ok (dma a)"
  obtains out a' f' where
    "(handoff iter (\<lambda>_. now) [h] [p] targets (a, f) :: ('e, _) outcome \<times> _) = (Ok [out], (a', f'))"
    and "outcome_ok (registry f) (agent_node a) targets (block_bytes (dma a)) p h out"
    and "\<forall>n. inbox_of (inboxes f') n = inbox_of (inboxes f) n
           @ (case out of Sent m b \<Rightarrow> if m = n then [remote_for a now p h] else [] | _ \<Rightarrow> [])"
    and "registry f' = registry f" and "dma_ok (dma a')" and "agent_node a' = agent_node a"
  using assms
proof (cases rule: handoff_one_cases [where now = now and h = h and p = p and targets = targets and 'e = 'e])
  case (Drop a')
  show thesis
    by (rule that [of DroppedLocally a' f])
      (use Drop assms in \<open>simp_all add: handoff_def and_then_def ret_def\<close>)
next
  case (Sent q d' a')
  have "dma_ok d'" using Sent(3) by (simp add: dma_after_def)
  then show thesis
    by (intro that [of "Sent (peer_node q) (16 + min (length p) (block_bytes (dma a)))" a'
          "f\<lparr>inboxes := deliver (peer_node q) (remote_for a now p h) (inboxes f)\<rparr>"])
      (use Sent(1,2,4) in \<open>auto simp: handoff_def and_then_def ret_def inbox_deliver\<close>)
qed

lemma next_prefill_in: "pool_ok pool \<Longrightarrow> next_prefill pool \<in> set (prefill_agents pool)"
  by (simp add: next_prefill_def pool_ok_def)

lemma drained_tasks:
  assumes ok: "pool_ok pool" and drain: "drain_all rid origin (decode_agents pool) f = (tasks, f')"
    and inb: "\<forall>n. inbox_of (inboxes f) n = inbox_of (inboxes (pool_fabric pool)) n @ (if n = m then [b] else [])"
    and m: "m \<in> set (decode_node_ids pool)" and b: "block_id (rb_handle b) = rid"
  shows "tasks = [\<lparr>dt_request_id = rid, dt_handle = rb_handle b, remote = b, prefill_origin = origin\<rparr>]"
proof -
  have d: "distinct (decode_node_ids pool)" using ok by (simp add: pool_ok_def)
  let ?t = "\<lambda>n. tasks_of rid origin (inbox_of (inboxes f) n)"
  have "tasks = concat (map ?t (decode_node_ids pool))"
    using drain_all_spec [OF drain] d by (simp add: decode_node_ids_def comp_def)
  also have "\<dots> = ?t m"
    by (rule concat_map_single [OF d m]) (use ok inb in \<open>simp add: pool_ok_def tasks_of_def\<close>)
  also have "?t m = tasks_of rid origin [b]"
    using ok inb m by (simp add: pool_ok_def)
  finally show ?thesis using b by (simp add: tasks_of_def)
qed

lemma drained_none:
  assumes ok: "pool_ok pool" and drain: "drain_all rid origin (decode_agents pool) f = (tasks, f')"
    and inb: "\<forall>n. inbox_of (inboxes f) n = inbox_of (inboxes (pool_fabric pool)) n"
  shows "tasks = []"
proof -
  have d: "distinct (decode_node_ids pool)" using ok by (simp add: pool_ok_def)
  have "\<forall>a \<in> set (decode_agents pool). inbox_of (inboxes f) (agent_node a) = []"
    using ok inb by (simp add: pool_ok_def decode_node_ids_def)
  then show ?thesis
    using drain_all_spec [OF drain] d by (simp add: decode_node_ids_def tasks_of_def)
qed

lemma pool_ok_after:
  assumes ok: "pool_ok pool" and a': "agent_node a' = agent_node (next_prefill pool)" "dma_ok (dma a')"
    and f: "registry f = registry (pool_fabric pool)"
    and drain: "drain_all rid origin (decode_agents pool) f = (tasks, f')"
    and i: "i = prefill_cursor pool mod length (prefill_agents pool)"
    and pool': "prefill_agents pool' = (prefill_agents pool)[i := a']" "decode_agents pool' = decode_agents pool"
      "pool_fabric pool' = f'"
  shows "pool_ok pool'"
proof -
  have ids: "prefill_node_ids pool' = prefill_node_ids pool" "decode_node_ids pool' = decode_node_ids pool"
    using a' pool' i by (simp_all add: prefill_node_ids_def decode_node_ids_def map_update next_prefill_def list_update_same_conv)
      (metis list_update_id map_update)+
  have "distinct (map agent_node (decode_agents pool))"
    using ok by (simp add: pool_ok_def decode_node_ids_def)
  note D = drain_all_spec [OF drain this]
  have "\<forall>a \<in> set ((prefill_agents pool)[i := a']). dma_ok (dma a)"
    using ok a'(2) by (auto simp: pool_ok_def dest!: set_update_subset_insert [THEN subsetD])
  moreover have "\<forall>n \<in> set (decode_node_ids pool). inbox_of (inboxes f') n = []"
    using D by (simp add: decode_node_ids_def)
  ultimately show ?thesis
    using ok D f unfolding pool_ok_def ids pool' by simp
qed


lemma run_prefill_spec:
  assumes ok: "pool_ok pool" and iter: "visits_all iter"
  defines "a \<equiv> next_prefill pool" and "r \<equiv> registry (pool_fabric pool)"
  shows "\<exists>tasks pool'. (run_prefill iter now task pool :: ('e, _) outcome \<times> _) = (Ok tasks, pool') \<and> pool_ok pool'
     \<and> registry (pool_fabric pool') = r \<and> decode_node_ids pool' = decode_node_ids pool
     \<and> decode_agents pool' = decode_agents pool \<and> decode_cursor pool' = decode_cursor pool
     \<and> (if no_peer_for r (agent_node a) (length (task_tokens task)) (Some (decode_node_ids pool))
        then tasks = [] \<and> migration_failures (pool_stats pool') = migration_failures (pool_stats pool) + 1
        else tasks = [migrated_task a now task]
          \<and> kv_blocks_migrated (pool_stats pool') = kv_blocks_migrated (pool_stats pool) + 1)"
proof -
  let ?ids = "Some (decode_node_ids pool)"
  let ?i = "prefill_cursor pool mod length (prefill_agents pool)"
  have reg: "registry_ok (registry (pool_fabric pool))" and a: "dma_ok (dma a)"
    and ne: "prefill_agents pool \<noteq> []"
    using ok next_prefill_in [OF ok] by (simp_all add: pool_ok_def a_def)
  obtain out a' f where
    h: "(handoff iter (\<lambda>_. now) [task_handle task] [task_payload task] ?ids (a, pool_fabric pool) :: ('e, _) outcome \<times> _)
          = (Ok [out], (a', f))"
    and out: "outcome_ok r (agent_node a) ?ids (block_bytes (dma a)) (task_payload task) (task_handle task) out"
    and inb: "\<forall>n. inbox_of (inboxes f) n = inbox_of (inboxes (pool_fabric pool)) n
        @ (case out of Sent m b \<Rightarrow> if m = n then [remote_for a now (task_payload task) (task_handle task)] else [] | _ \<Rightarrow> [])"
    and f: "registry f = r" and a': "dma_ok (dma a')" "agent_node a' = agent_node a"
    unfolding r_def by (rule handoff_single [OF reg iter a])
  obtain tasks f' where d: "drain_all (request_id task) (agent_node a') (decode_agents pool) f = (tasks, f')"
    by fastforce
  let ?st = "(pool_stats pool)\<lparr>prefill_tasks_routed := prefill_tasks_routed (pool_stats pool) + 1\<rparr>"
  let ?pool = "pool\<lparr>prefill_agents := (prefill_agents pool)[?i := a'], pool_fabric := f',
      prefill_cursor := wrapping_succ (prefill_cursor pool), pool_stats := count_outcome out ?st\<rparr>"
  have sel: "prefill_agents pool ! ?i = a" by (simp add: a_def next_prefill_def)
  have ids: "decode_node_ids (pool\<lparr>pool_stats := s, prefill_cursor := c\<rparr>) = decode_node_ids pool" for s c
    by (simp add: decode_node_ids_def)
  have run: "(run_prefill iter now task pool :: ('e, _) outcome \<times> _) = (Ok tasks, ?pool)"
    using ne h d unfolding run_prefill_def Let_def
    by (simp add: sel ids flip: task_handle_def task_payload_def)
  have okp: "pool_ok ?pool"
    by (rule pool_ok_after [OF ok _ a'(1) _ d refl]) (use a'(2) f in \<open>simp_all add: a_def r_def\<close>)
  have regs: "registry f' = r"
    using drain_all_spec [OF d] ok f by (simp add: pool_ok_def decode_node_ids_def)
  have needed: "token_len (task_handle task) = length (task_tokens task)"
    and rid: "block_id (task_handle task) = request_id task"
    by (simp_all add: task_handle_def)
  have "if no_peer_for r (agent_node a) (length (task_tokens task)) ?ids
        then tasks = [] \<and> migration_failures (pool_stats ?pool) = migration_failures (pool_stats pool) + 1
        else tasks = [migrated_task a now task] \<and> kv_blocks_migrated (pool_stats ?pool) = kv_blocks_migrated (pool_stats pool) + 1"
  proof (cases out)
    case (Sent m b)
    then obtain p where p: "best_for r (agent_node a) (length (task_tokens task)) ?ids p" "m = peer_node p"
      using out needed by auto
    then have m: "m \<in> set (decode_node_ids pool)"
      and some: "\<not> no_peer_for r (agent_node a) (length (task_tokens task)) ?ids"
      by (auto simp: best_for_def eligible_def no_peer_for_def)
    have "tasks = [migrated_task a now task]"
      unfolding migrated_task_def a'(2) [symmetric]
      using drained_tasks [OF ok d _ m, of "remote_for a now (task_payload task) (task_handle task)"] inb Sent rid
      by (simp add: remote_for_def eq_commute [of m])
    with some Sent show ?thesis by simp
  next
    case DroppedLocally
    then have "tasks = []" using drained_none [OF ok d] inb by simp
    then show ?thesis using DroppedLocally out needed by simp
  next
    case (PeerFull m)
    then show ?thesis using out by simp
  qed
  moreover have "decode_node_ids ?pool = decode_node_ids pool" by (simp add: decode_node_ids_def)
  ultimately show ?thesis
    using run okp regs by (intro exI [of _ tasks] exI [of _ ?pool]) (simp only: simp_thms, simp)
qed


section \<open>Building a pool\<close>

lemma transfer_agent_new_spec:
  assumes ok: "registry_ok (registry f)" and room: "next_id (registry f) \<noteq> - 1"
  obtains a f' where
    "(transfer_agent_new bytes n c f :: ('e, _) outcome \<times> _) = (Ok a, f')"
    and "registry_ok (registry f')" and "next_id (registry f') = next_id (registry f) + 1"
    and "bt_get (peers (registry f)) (agent_node a) = None" and "dma_ok (dma a)"
    and "bt_get (peers (registry f')) = (bt_get (peers (registry f)))(agent_node a \<mapsto>
          \<lparr>peer_node = agent_node a, utilisation = 0, free_tokens = c, rtt = 50 + unat (agent_node a) * 10\<rparr>)"
    and "\<forall>m. inbox_of (inboxes f') m = inbox_of (inboxes f) m"
proof -
  obtain m r' where reg: "(register c (registry f) :: ('e, _) outcome \<times> _) = (Ok m, r')"
    using room by (auto simp: register_def Let_def)
  note R = register_Ok [OF ok reg]
  let ?a = "\<lparr>agent_node = m, dma = dma_new bytes n,
               tstats = \<lparr>blocks_sent = 0, blocks_dropped = 0, bytes_sent = 0, transfers_failed = 0\<rparr>\<rparr>"
  let ?f = "f\<lparr>registry := r', inboxes := bt_insert m (inbox_of (inboxes f) m) (inboxes f)\<rparr>"
  show thesis
    by (rule that [of ?a ?f]) (use R in \<open>simp_all add: transfer_agent_new_def reg inbox_of_def\<close>)
qed

text \<open>The agents that a fabric is extended by.\<close>

definition new_agents :: "usize \<Rightarrow> fabric \<Rightarrow> transfer_agent list \<Rightarrow> fabric \<Rightarrow> bool" where
  "new_agents c f agents f' \<longleftrightarrow>
     registry_ok (registry f') \<and> distinct (map agent_node agents)
     \<and> (\<forall>a \<in> set agents. dma_ok (dma a) \<and> bt_get (peers (registry f)) (agent_node a) = None
          \<and> (\<exists>p. bt_get (peers (registry f')) (agent_node a) = Some p \<and> free_tokens p = c))
     \<and> (\<forall>n p. bt_get (peers (registry f)) n = Some p \<longrightarrow> bt_get (peers (registry f')) n = Some p)
     \<and> (\<forall>m. inbox_of (inboxes f') m = inbox_of (inboxes f) m)"

lemma word_succ_unat: "unat (w :: u32) + k < 2 ^ 32 \<Longrightarrow> 0 < k \<Longrightarrow> w \<noteq> - 1 \<and> unat (w + 1) = unat w + 1"
proof -
  assume k: "unat w + k < 2 ^ 32" "0 < k"
  have "w \<noteq> - 1"
  proof
    assume "w = - 1"
    then have "w + 1 = 0" by simp
    moreover have "unat (w + 1) = unat w + 1"
      using k by (subst unat_word_ariths) simp
    ultimately have "unat w + 1 = 0" by simp
    then show False by simp
  qed
  moreover have "unat (w + 1) = unat w + 1"
    using k by (subst unat_word_ariths) simp
  ultimately show ?thesis by simp
qed

lemma build_agents_spec:
  assumes "registry_ok (registry f)" and "unat (next_id (registry f)) + k < 2 ^ 32"
  shows "\<exists>agents f'. (build_agents k bytes n c f :: ('e, _) outcome \<times> _) = (Ok agents, f')
           \<and> length agents = k \<and> new_agents c f agents f'"
  using assms
proof (induction k arbitrary: f)
  case 0
  then show ?case by (simp add: ret_def new_agents_def)
next
  case (Suc k)
  have w: "next_id (registry f) \<noteq> - 1" "unat (next_id (registry f) + 1) = unat (next_id (registry f)) + 1"
    using word_succ_unat [OF Suc.prems(2)] by simp_all
  obtain a f1 where a: "(transfer_agent_new bytes n c f :: ('e, _) outcome \<times> _) = (Ok a, f1)"
    and ok1: "registry_ok (registry f1)" and nx: "next_id (registry f1) = next_id (registry f) + 1"
    and fresh: "bt_get (peers (registry f)) (agent_node a) = None" and dma: "dma_ok (dma a)"
    and upd: "bt_get (peers (registry f1)) = (bt_get (peers (registry f)))(agent_node a \<mapsto>
          \<lparr>peer_node = agent_node a, utilisation = 0, free_tokens = c, rtt = 50 + unat (agent_node a) * 10\<rparr>)"
    and inb: "\<forall>m. inbox_of (inboxes f1) m = inbox_of (inboxes f) m"
    by (rule transfer_agent_new_spec [OF Suc.prems(1) w(1)])
  have "unat (next_id (registry f1)) + k < 2 ^ 32"
    using Suc.prems(2) nx w by simp
  from Suc.IH [OF ok1 this] obtain agents f' where
    rest: "(build_agents k bytes n c f1 :: ('e, _) outcome \<times> _) = (Ok agents, f')" "length agents = k"
    and N: "new_agents c f1 agents f'"
    by blast
  have "new_agents c f (a # agents) f'"
    using N upd inb fresh dma unfolding new_agents_def by (auto split: if_splits) (metis option.distinct(1))
  with rest a show ?case by (simp add: and_then_def ret_def)
qed

lemma inbox_of_new [simp]: "inbox_of [] n = []"
  by (simp add: inbox_of_def)

lemma build_disagg_pool_spec:
  assumes "0 < m" and "0 < k" and "m + k < 2 ^ 32"
  shows "\<exists>pool. (build_disagg_pool m k bytes n c :: ('e, _) outcome) = Ok pool \<and> pool_ok pool
     \<and> length (prefill_agents pool) = m \<and> length (decode_agents pool) = k
     \<and> (\<forall>d \<in> set (decode_node_ids pool). \<exists>p. bt_get (peers (registry (pool_fabric pool))) d = Some p \<and> free_tokens p = c)"
proof -
  have "registry_ok (registry fabric_new)" "unat (next_id (registry fabric_new)) + (m + k) < 2 ^ 32"
    using assms by (simp_all add: fabric_new_def) (simp add: registry_new_def)
  from build_agents_spec [OF this] obtain agents f where
    b: "(build_agents (m + k) bytes n c fabric_new :: ('e, _) outcome \<times> _) = (Ok agents, f)"
    and len: "length agents = m + k" and N: "new_agents c fabric_new agents f"
    by blast
  let ?pool = "\<lparr>prefill_agents = take m agents, decode_agents = drop m agents,
              pool_fabric = f, prefill_cursor = 0, decode_cursor = 0, pool_stats = disagg_stats_default\<rparr>"
  have sub: "set (take m agents) \<subseteq> set agents" "set (drop m agents) \<subseteq> set agents"
    by (simp_all add: set_take_subset set_drop_subset)
  have ids: "prefill_node_ids ?pool @ decode_node_ids ?pool = map agent_node agents"
    by (simp add: prefill_node_ids_def decode_node_ids_def flip: map_append)
  have "pool_ok ?pool"
    unfolding pool_ok_def ids using N sub len assms
    by (auto simp: new_agents_def fabric_new_def) 
  moreover have "\<forall>d \<in> set (decode_node_ids ?pool). \<exists>p. bt_get (peers (registry f)) d = Some p \<and> free_tokens p = c"
    using N sub(2) by (auto simp: new_agents_def decode_node_ids_def)
  ultimately show ?thesis
    using b len assms by (simp add: build_disagg_pool_def build_fabric_def)
qed


section \<open>Properties\<close>

lemma no_peer_iff:
  assumes "pool_ok pool" and "a \<in> set (prefill_agents pool)"
  shows "no_peer_for (registry (pool_fabric pool)) (agent_node a) k (Some (decode_node_ids pool)) \<longleftrightarrow>
     (\<forall>d \<in> set (decode_node_ids pool). \<forall>p. bt_get (peers (registry (pool_fabric pool))) d = Some p \<longrightarrow> free_tokens p < k)"
proof -
  have ne: "agent_node a \<notin> set (decode_node_ids pool)"
    using assms by (auto simp: pool_ok_def prefill_node_ids_def)
  have own: "peer_node p = n" if "bt_get (peers (registry (pool_fabric pool))) n = Some p" for n p
    using assms(1) that by (simp add: pool_ok_def registry_ok_def)
  show ?thesis
    unfolding no_peer_for_def eligible_def using ne own by (auto simp: not_le)
qed

text \<open>C35. On a pool whose inboxes are drained, a prefill never fails: when some decode node has room for the
  prompt it returns exactly one task, whose handle is the request's and whose block carries the
  payload cut to the region size; when none has, it returns no task and counts a failure. The pool
  is left in the same condition.\<close>

theorem run_prefill_migrates:
  assumes "pool_ok pool" and "visits_all iter"
  shows "\<exists>tasks pool'. (run_prefill iter now task pool :: ('e, _) outcome \<times> _) = (Ok tasks, pool') \<and> pool_ok pool'
     \<and> (if \<exists>d \<in> set (decode_node_ids pool). \<exists>p. bt_get (peers (registry (pool_fabric pool))) d = Some p
              \<and> length (task_tokens task) \<le> free_tokens p
        then tasks = [migrated_task (next_prefill pool) now task]
          \<and> kv_blocks_migrated (pool_stats pool') = kv_blocks_migrated (pool_stats pool) + 1
        else tasks = [] \<and> migration_failures (pool_stats pool') = migration_failures (pool_stats pool) + 1)"
proof -
  have "(\<exists>d \<in> set (decode_node_ids pool). \<exists>p. bt_get (peers (registry (pool_fabric pool))) d = Some p
              \<and> length (task_tokens task) \<le> free_tokens p)
     \<longleftrightarrow> \<not> no_peer_for (registry (pool_fabric pool)) (agent_node (next_prefill pool)) (length (task_tokens task))
            (Some (decode_node_ids pool))"
    unfolding no_peer_iff [OF assms(1) next_prefill_in [OF assms(1)]] by (auto simp: not_less)
  then show ?thesis
    using run_prefill_spec [OF assms, of now task, where 'e = 'e] by (auto split: if_splits)
qed

text \<open>A freshly built pool takes any prompt that fits its capacity through the whole pipeline: one task
  comes out, assigned to the first decode node.\<close>

lemma fresh_pool_serves:
  assumes "0 < m" and "0 < k" and "m + k < 2 ^ 32" and "visits_all iter" and "length (task_tokens task) \<le> c"
  shows "\<exists>pool pool'. (build_disagg_pool m k bytes n c :: ('e, _) outcome) = Ok pool
     \<and> (run_pipeline iter now task pool :: ('e, _) outcome \<times> _) =
         (Ok [(migrated_task (next_prefill pool) now task, hd (decode_node_ids pool))], pool')
     \<and> pool_ok pool'"
proof -
  obtain pool where b: "(build_disagg_pool m k bytes n c :: ('e, _) outcome) = Ok pool" and ok: "pool_ok pool"
    and len: "length (prefill_agents pool) = m" "length (decode_agents pool) = k"
    and cap: "\<forall>d \<in> set (decode_node_ids pool). \<exists>p. bt_get (peers (registry (pool_fabric pool))) d = Some p \<and> free_tokens p = c"
    using build_disagg_pool_spec [OF assms(1-3), where 'e = 'e] by blast
  have cur: "decode_cursor pool = 0"
    using b assms(1,2) by (auto simp: build_disagg_pool_def split: prod.splits if_splits)
  have hd: "hd (decode_node_ids pool) = agent_node (decode_agents pool ! 0)" "decode_agents pool \<noteq> []"
    using ok by (simp_all add: pool_ok_def decode_node_ids_def hd_map hd_conv_nth)
  have "hd (decode_node_ids pool) \<in> set (decode_node_ids pool)"
    using hd(2) by (intro hd_in_set) (simp add: decode_node_ids_def)
  then have "\<not> no_peer_for (registry (pool_fabric pool)) (agent_node (next_prefill pool)) (length (task_tokens task))
            (Some (decode_node_ids pool))"
    unfolding no_peer_iff [OF ok next_prefill_in [OF ok]] using cap assms(5) by fastforce
  then obtain pool1 where run: "(run_prefill iter now task pool :: ('e, _) outcome \<times> _) =
      (Ok [migrated_task (next_prefill pool) now task], pool1)"
    and p1: "pool_ok pool1" "decode_agents pool1 = decode_agents pool" "decode_cursor pool1 = decode_cursor pool"
    using run_prefill_spec [OF ok assms(4), of now task, where 'e = 'e] by auto
  let ?pool = "pool1\<lparr>pool_stats := (pool_stats pool1)\<lparr>decode_tasks_dispatched := decode_tasks_dispatched (pool_stats pool1) + 1\<rparr>,
      decode_cursor := wrapping_succ 0\<rparr>"
  have "pool_ok ?pool"
    using p1(1) by (simp add: pool_ok_def prefill_node_ids_def decode_node_ids_def)
  moreover have "(run_pipeline iter now task pool :: ('e, _) outcome \<times> _) =
      (Ok [(migrated_task (next_prefill pool) now task, hd (decode_node_ids pool))], ?pool)"
    using run p1 hd cur by (simp add: run_pipeline_def and_then_def dispatch_decode_def ret_def Let_def)
  ultimately show ?thesis using b by blast
qed

definition sample_task :: "u64 \<Rightarrow> prefill_task" where
  "sample_task rid = \<lparr>request_id = rid, task_tokens = [1, 2, 3], kv_payload = None\<rparr>"

definition two_decoders :: disagg_pool where
  "two_decoders =
     (case (build_disagg_pool 1 2 2 1 100 :: (unit, _) outcome) of Ok pool \<Rightarrow> pool)"

theorem fresh_pool_serves_instance:
  "\<exists>pool pool'. (build_disagg_pool 1 2 2 1 100 :: (unit, _) outcome) = Ok pool
     \<and> (run_pipeline (\<lambda>ps. ps) 0 (sample_task 1) pool :: (unit, _) outcome \<times> _) =
         (Ok [(migrated_task (next_prefill pool) 0 (sample_task 1), hd (decode_node_ids pool))], pool')
     \<and> pool_ok pool'"
  by (rule fresh_pool_serves) (simp_all add: visits_all_id sample_task_def)

lemma two_decoders_ok: "pool_ok two_decoders"
  using build_disagg_pool_spec [of 1 2 2 1 100, where 'e = unit] by (auto simp: two_decoders_def)

theorem run_prefill_migrates_witness:
  "pool_ok two_decoders
   \<and> (\<exists>tasks pool'. (run_prefill (\<lambda>ps. ps) 0 (sample_task 1) two_decoders :: (unit, _) outcome \<times> _) = (Ok tasks, pool')
        \<and> pool_ok pool')"
  using two_decoders_ok run_prefill_migrates [OF two_decoders_ok visits_all_id, of 0 "sample_task 1", where 'e = unit]
  by blast

lemma build_agents_3:
  "build_agents 3 bytes n c = (build_agents (Suc (Suc (Suc 0))) bytes n c :: (fabric, 'e, _) act)"
  by (simp add: numeral_3_eq_3)

lemmas disagg_eval =
  nixl_eval run_pipeline_def run_prefill_def dispatch_decode_def wrapping_succ_def decode_node_ids_def
  drain_inbox_def sample_task_def handoff_def handoff_one_def

text \<open>The node that a task is assigned to need not be the one its block was migrated to: of two prompts
  sent through a pool with two decode nodes, both blocks go to the node with id 1, but the second
  task is assigned to the node with id 2.\<close>

theorem pipeline_misassigns:
  "case (run_pipeline (\<lambda>ps. ps) 0 (sample_task 1) two_decoders :: (unit, _) outcome \<times> _) of
     (Ok first, pool) \<Rightarrow>
       (case (run_pipeline (\<lambda>ps. ps) 0 (sample_task 2) pool :: (unit, _) outcome \<times> _) of
          (Ok second, pool') \<Rightarrow>
            map snd first = [1] \<and> map snd second = [2]
            \<and> (case (best_peer (\<lambda>ps. ps) 0 3 (Some [1, 2]) (registry (pool_fabric pool)) :: (unit, _) outcome) of
                 Ok (Some p) \<Rightarrow> peer_node p = 1
               | _ \<Rightarrow> False)
        | _ \<Rightarrow> False)
   | _ \<Rightarrow> False"
  by (simp add: two_decoders_def build_disagg_pool_def build_fabric_def build_agents_3 fabric_new_def registry_new_def
      transfer_agent_new_def register_def disagg_stats_default_def disagg_eval)

end
