(* ===== verification/Float32.thy ===== *)
theory Float32
  imports Numbers
begin

text \<open>
  Arithmetic on \<open>f32\<close> as IEEE 754 defines it, on bit patterns. A finite value is an integer multiple of
  \<open>2 ^ (-149)\<close>; \<open>f32_scaled\<close> is that integer. An operation computes the exact quotient of two integers and
  \<open>f32_round\<close> rounds it to the nearest pattern, ties to the even one, with overflow to infinity.
  Every NaN that an operation produces is the canonical one: Rust does not specify its bits, and the
  program never looks at them. \<open>exp\<close> is not here: its last bits depend on the platform, so it is an
  argument where the program calls it.
\<close>

section \<open>Values\<close>

definition f32_inf :: f32 where "f32_inf = 0x7f800000"
definition f32_neg_inf :: f32 where "f32_neg_inf = 0xff800000"
definition f32_nan :: f32 where "f32_nan = 0x7fc00000"
definition f32_one :: f32 where "f32_one = 0x3f800000"

definition f32_is_inf :: "f32 \<Rightarrow> bool" where
  "f32_is_inf x = (f32_magnitude x = 0x7f800000)"

text \<open>The magnitude of a finite pattern in units of \<open>2 ^ (-149)\<close>.\<close>

definition mag_units :: "nat \<Rightarrow> nat" where
  "mag_units m =
     (let e = m div 2 ^ 23; f = m mod 2 ^ 23
      in if e = 0 then f else (f + 2 ^ 23) * 2 ^ (e - 1))"

definition f32_scaled :: "f32 \<Rightarrow> int" where
  "f32_scaled x = (if f32_sign x then - int (mag_units (f32_magnitude x)) else int (mag_units (f32_magnitude x)))"

definition f32_pack :: "bool \<Rightarrow> nat \<Rightarrow> f32" where
  "f32_pack s m = of_nat (if s then 2 ^ 31 + m else m)"

section \<open>Rounding\<close>

fun bit_len :: "nat \<Rightarrow> nat" where
  "bit_len n = (if n = 0 then 0 else Suc (bit_len (n div 2)))"

declare bit_len.simps [simp del]

definition div_half_even :: "nat \<Rightarrow> nat \<Rightarrow> nat" where
  "div_half_even n d =
     (let q = n div d; r = n mod d
      in if 2 * r < d \<or> (2 * r = d \<and> even q) then q else q + 1)"

text \<open>The pattern nearest to \<open>n / d\<close> units. The quotient is cut to 24 significant bits; carrying into the next
  power of two is the pattern's own carry.\<close>

definition round_mag :: "nat \<Rightarrow> nat \<Rightarrow> nat" where
  "round_mag n d =
     (let l = bit_len (n div d) - 24
      in min (l * 2 ^ 23 + div_half_even n (d * 2 ^ l)) 0x7f800000)"

definition f32_round :: "bool \<Rightarrow> nat \<Rightarrow> nat \<Rightarrow> f32" where
  "f32_round s n d = f32_pack s (round_mag n d)"

section \<open>Operations\<close>

definition f32_neg :: "f32 \<Rightarrow> f32" where
  "f32_neg x = f32_pack (\<not> f32_sign x) (f32_magnitude x)"

definition f32_add :: "f32 \<Rightarrow> f32 \<Rightarrow> f32" where
  "f32_add x y =
     (if f32_is_nan x \<or> f32_is_nan y then f32_nan
      else if f32_is_inf x then (if f32_is_inf y \<and> f32_sign x \<noteq> f32_sign y then f32_nan else x)
      else if f32_is_inf y then y
      else
        let v = f32_scaled x + f32_scaled y
        in if v = 0 then f32_pack (f32_sign x \<and> f32_sign y) 0
           else f32_round (v < 0) (nat \<bar>v\<bar>) 1)"

definition f32_sub :: "f32 \<Rightarrow> f32 \<Rightarrow> f32" where
  "f32_sub x y = f32_add x (f32_neg y)"

definition f32_mul :: "f32 \<Rightarrow> f32 \<Rightarrow> f32" where
  "f32_mul x y =
     (let s = (f32_sign x \<noteq> f32_sign y) in
      if f32_is_nan x \<or> f32_is_nan y then f32_nan
      else if f32_is_inf x \<or> f32_is_inf y
      then (if f32_magnitude x = 0 \<or> f32_magnitude y = 0 then f32_nan else f32_pack s 0x7f800000)
      else f32_round s (mag_units (f32_magnitude x) * mag_units (f32_magnitude y)) (2 ^ 149))"

definition f32_div :: "f32 \<Rightarrow> f32 \<Rightarrow> f32" where
  "f32_div x y =
     (let s = (f32_sign x \<noteq> f32_sign y) in
      if f32_is_nan x \<or> f32_is_nan y then f32_nan
      else if f32_is_inf x then (if f32_is_inf y then f32_nan else f32_pack s 0x7f800000)
      else if f32_is_inf y then f32_pack s 0
      else if f32_magnitude y = 0 then (if f32_magnitude x = 0 then f32_nan else f32_pack s 0x7f800000)
      else f32_round s (mag_units (f32_magnitude x) * 2 ^ 149) (mag_units (f32_magnitude y)))"

text \<open>\<open>f32::max\<close> (a NaN is ignored) and the comparison operators (false on a NaN).\<close>

definition f32_max :: "f32 \<Rightarrow> f32 \<Rightarrow> f32" where
  "f32_max x y =
     (if f32_is_nan x then y else if f32_is_nan y then x else if f32_key x < f32_key y then y else x)"

definition f32_le :: "f32 \<Rightarrow> f32 \<Rightarrow> bool" where
  "f32_le x y = (\<not> f32_is_nan x \<and> \<not> f32_is_nan y \<and> f32_key x \<le> f32_key y)"

definition f32_less :: "f32 \<Rightarrow> f32 \<Rightarrow> bool" where
  "f32_less x y = (\<not> f32_is_nan x \<and> \<not> f32_is_nan y \<and> f32_key x < f32_key y)"

definition f32_sum :: "f32 list \<Rightarrow> f32" where
  "f32_sum xs = foldl f32_add 0 xs"

text \<open>\<open>sqrt\<close> is correctly rounded. In units of \<open>2 ^ (-149)\<close> the root of \<open>m\<close> is the real root of \<open>m * 2 ^ 149\<close>; the
  neighbouring patterns of a root and their midpoints are whole numbers of units, so the integer root
  and a bit that says whether it is exact decide the rounding.\<close>

fun isqrt :: "nat \<Rightarrow> nat" where
  "isqrt n =
     (if n = 0 then 0
      else let r = 2 * isqrt (n div 4) in if (r + 1) * (r + 1) \<le> n then r + 1 else r)"

declare isqrt.simps [simp del]

definition f32_sqrt :: "f32 \<Rightarrow> f32" where
  "f32_sqrt x =
     (if f32_is_nan x then f32_nan
      else if f32_magnitude x = 0 then x
      else if f32_sign x then f32_nan
      else if f32_is_inf x then x
      else
        let n = mag_units (f32_magnitude x) * 2 ^ 149; r = isqrt n
        in f32_round False (2 * r + (if r * r = n then 0 else 1)) 2)"

lemma isqrt_bounds: "isqrt n * isqrt n \<le> n \<and> n < (isqrt n + 1) * (isqrt n + 1)"
proof (induction n rule: isqrt.induct)
  case (1 n)
  show ?case
  proof (cases "n = 0")
    case True then show ?thesis by (simp add: isqrt.simps)
  next
    case False
    let ?r = "isqrt (n div 4)"
    have IH: "?r * ?r \<le> n div 4" "n div 4 < (?r + 1) * (?r + 1)" using 1 False by auto
    have "4 * (n div 4) \<le> n" "n < 4 * (n div 4) + 4" by linarith+
    moreover have "2 * ?r * (2 * ?r) = 4 * (?r * ?r)" "(2 * ?r + 2) * (2 * ?r + 2) = 4 * ((?r + 1) * (?r + 1))" by algebra+
    ultimately have "2 * ?r * (2 * ?r) \<le> n" "n < (2 * ?r + 2) * (2 * ?r + 2)" using IH by linarith+
    then show ?thesis using False by (subst (1 2 3 4) isqrt.simps) (simp add: Let_def)
  qed
qed

section \<open>Rounding is exact on representable values\<close>

lemma bit_len_bounds: "0 < n \<Longrightarrow> 2 ^ (bit_len n - 1) \<le> n \<and> n < 2 ^ bit_len n \<and> 0 < bit_len n"
proof (induction n rule: less_induct)
  case (less n)
  have step: "bit_len n = Suc (bit_len (n div 2))"
    using less.prems by (subst bit_len.simps) simp
  show ?case
  proof (cases "n div 2 = 0")
    case True
    then have "n = 1" using less.prems by linarith
    then show ?thesis using step True by (simp add: bit_len.simps [of 0])
  next
    case False
    then have IH: "2 ^ (bit_len (n div 2) - 1) \<le> n div 2" "n div 2 < 2 ^ bit_len (n div 2)" "0 < bit_len (n div 2)"
      using less.IH [of "n div 2"] less.prems by auto
    then obtain k where k: "bit_len (n div 2) = Suc k" by (cases "bit_len (n div 2)") auto
    have "2 ^ Suc k \<le> n" "n < 2 ^ Suc (Suc k)"
      using IH unfolding k by simp_all
    then show ?thesis by (simp add: step k)
  qed
qed

lemma bit_len_unique:
  assumes "2 ^ k \<le> n" and "n < 2 ^ Suc k"
  shows "bit_len n = Suc k"
proof -
  have n: "0 < n" using assms(1) by (metis gr0I not_one_le_zero power_not_zero zero_le zero_neq_numeral le_zero_eq)
  note B = bit_len_bounds [OF n]
  from B obtain j where j: "bit_len n = Suc j" by (cases "bit_len n") auto
  have "2 ^ j < (2::nat) ^ Suc k" "2 ^ k < (2::nat) ^ Suc j"
    using B assms j by auto
  then have "j < Suc k" "k < Suc j"
    by (simp_all only: power_strict_increasing_iff one_less_numeral_iff semiring_norm)
  then show ?thesis using j by simp
qed

lemma div_half_even_exact: "0 < d \<Longrightarrow> div_half_even (q * d) d = q"
  by (simp add: div_half_even_def)

lemma round_mag_exact:
  assumes "m < 0x7f800000"
  shows "round_mag (mag_units m) 1 = m"
proof -
  let ?e = "m div 2 ^ 23" and ?f = "m mod 2 ^ 23"
  have f: "?f < 2 ^ 23" by simp
  have m: "m = ?e * 2 ^ 23 + ?f" by simp
  show ?thesis
  proof (cases "?e = 0")
    case True
    have u: "mag_units m = ?f" using True by (simp add: mag_units_def)
    have "bit_len ?f \<le> 24"
    proof (cases "?f = 0")
      case False
      then have "2 ^ (bit_len ?f - 1) < (2::nat) ^ 23" using bit_len_bounds [of ?f] f by linarith
      then have "bit_len ?f - 1 < 23" by (simp only: power_strict_increasing_iff one_less_numeral_iff semiring_norm)
      then show ?thesis by simp
    qed (simp add: bit_len.simps)
    then have "round_mag (mag_units m) 1 = min ?f 0x7f800000"
      unfolding round_mag_def u by (simp add: Let_def div_half_even_def)
    with m True assms show ?thesis by simp
  next
    case False
    let ?l = "?e - 1"
    have u: "mag_units m = (?f + 2 ^ 23) * 2 ^ ?l" using False by (simp add: mag_units_def)
    have lo: "2 ^ (?l + 23) \<le> mag_units m"
      unfolding u power_add by simp
    have "(?f + 2 ^ 23) * 2 ^ ?l < 2 ^ 24 * 2 ^ ?l"
      using f by simp
    then have hi: "mag_units m < 2 ^ Suc (?l + 23)"
      unfolding u by (simp add: power_add)
    have b: "bit_len (mag_units m) = ?l + 24"
      using bit_len_unique [OF lo hi] by simp
    have "div_half_even (mag_units m) (2 ^ ?l) = ?f + 2 ^ 23"
      unfolding u by (rule div_half_even_exact) simp
    then have "round_mag (mag_units m) 1 = min (?l * 2 ^ 23 + (?f + 2 ^ 23)) 0x7f800000"
      unfolding round_mag_def by (simp only: Let_def div_by_1 b diff_add_inverse2 mult_1)
    also have "?l * 2 ^ 23 + (?f + 2 ^ 23) = m"
    proof -
      have "?e * 2 ^ 23 = ?l * 2 ^ 23 + 2 ^ 23"
        using False diff_mult_distrib [of ?e 1 "2 ^ 23"] mult_le_mono1 [of 1 ?e "2 ^ 23"] by linarith
      with m show ?thesis by linarith
    qed
    finally show ?thesis using assms by simp
  qed
qed


lemma div_half_even_mult: "0 < k \<Longrightarrow> div_half_even (n * k) (d * k) = div_half_even n d"
proof -
  assume k: "0 < k"
  have r: "n * k mod (d * k) = n mod d * k" by (simp add: mult_mod_left)
  have "2 * (n mod d * k) < d * k \<longleftrightarrow> 2 * (n mod d) < d"
    using k by (metis mult.assoc mult_less_cancel2)
  moreover have "2 * (n mod d * k) = d * k \<longleftrightarrow> 2 * (n mod d) = d"
    using k by (metis mult.assoc mult_cancel2 less_irrefl)
  ultimately show ?thesis
    using k by (simp add: div_half_even_def Let_def r)
qed

lemma round_mag_mult: "0 < k \<Longrightarrow> round_mag (n * k) (d * k) = round_mag n d"
proof -
  assume k: "0 < k"
  have "div_half_even (n * k) (d * k * 2 ^ l) = div_half_even n (d * 2 ^ l)" for l
    using div_half_even_mult [OF k, of n "d * 2 ^ l"] by (simp add: ac_simps)
  then show ?thesis using k by (simp add: round_mag_def Let_def)
qed

lemma f32_pack_self [simp]: "f32_pack (f32_sign x) (f32_magnitude x) = x"
proof -
  have lt: "unat x < 2 ^ LENGTH(32)" by (rule unsigned_less)
  have "(if 2 ^ 31 \<le> unat x then 2 ^ 31 + unat x mod 2 ^ 31 else unat x mod 2 ^ 31) = unat x"
  proof (cases "2 ^ 31 \<le> unat x")
    case True
    then have "unat x mod 2 ^ 31 = unat x - 2 ^ 31"
      using lt by (simp add: le_mod_geq)
    then show ?thesis using True by simp
  qed simp
  then show ?thesis
    unfolding f32_pack_def f32_sign_def f32_magnitude_def by (simp only: of_nat_unat ucast_id)
qed

definition f32_finite :: "f32 \<Rightarrow> bool" where
  "f32_finite x = (f32_magnitude x < 0x7f800000)"

lemma f32_finiteD: "f32_finite x \<Longrightarrow> \<not> f32_is_nan x \<and> \<not> f32_is_inf x"
  by (auto simp: f32_finite_def f32_is_nan_def f32_is_inf_def)

lemma f32_one_facts [simp]:
  "\<not> f32_is_nan f32_one" "\<not> f32_is_inf f32_one" "\<not> f32_sign f32_one" "mag_units (f32_magnitude f32_one) = 2 ^ 149" "f32_magnitude f32_one \<noteq> 0"
  by (simp_all add: f32_one_def f32_is_nan_def f32_is_inf_def f32_sign_def f32_magnitude_def mag_units_def Let_def)

text \<open>One is neutral for division and multiplication.\<close>

lemma f32_div_one: "f32_finite x \<Longrightarrow> f32_div x f32_one = x"
  using round_mag_mult [of "2 ^ 149" "mag_units (f32_magnitude x)" 1] round_mag_exact [of "f32_magnitude x"]
    f32_finiteD [of x]
  by (simp add: f32_div_def f32_round_def Let_def f32_finite_def del: power_numeral)

lemma f32_mul_one: "f32_finite x \<Longrightarrow> f32_mul x f32_one = x"
  using round_mag_mult [of "2 ^ 149" "mag_units (f32_magnitude x)" 1] round_mag_exact [of "f32_magnitude x"]
    f32_finiteD [of x]
  by (simp add: f32_mul_def f32_round_def Let_def f32_finite_def del: power_numeral)

end
