(* ===== verification/Sampling.thy ===== *)
theory Sampling
  imports Speculative Float32
begin

text \<open>
  Token sampling (\<open>src/src/sampling.rs\<close>): the greedy, top-k, top-p and min-p samplers over a list of logits
  and an optional mask of allowed tokens.

  A mask (a bit vector of the crate \<open>vob\<close>) is a list of booleans. The random number that top-p and min-p
  draw is an argument, and so is \<open>exp\<close>. \<open>sort_by\<close> is a stable sort as long as the comparison is a total
  order; when a NaN makes \<open>TokenLogit\<close>'s comparison inconsistent, Rust leaves the order open and may
  panic, so the result on such a list is an argument (\<open>unordered\<close>). The comparison of top-p and min-p
  unwraps, so there a NaN panics as soon as anything is compared with it.
\<close>

section \<open>Samplers\<close>

type_synonym logit_mask = "bool list"

record token_logit =
  tl_token :: token_id
  tl_logit :: f32

definition allowed :: "logit_mask option \<Rightarrow> nat \<Rightarrow> bool" where
  "allowed msk i = (case msk of None \<Rightarrow> True | Some m \<Rightarrow> i < length m \<and> m ! i)"

definition token_logit_cmp :: "token_logit \<Rightarrow> token_logit \<Rightarrow> ordering" where
  "token_logit_cmp a b =
     (case f32_partial_cmp (tl_logit a) (tl_logit b) of None \<Rightarrow> Equal | Some c \<Rightarrow> c)"

fun greedy_from :: "logit_mask option \<Rightarrow> nat \<Rightarrow> f32 list \<Rightarrow> token_id \<Rightarrow> f32 \<Rightarrow> prediction" where
  "greedy_from msk i [] max_token max_logit = \<lparr>token = max_token, confidence = max_logit\<rparr>"
| "greedy_from msk i (l # ls) max_token max_logit =
     (if \<not> allowed msk i then greedy_from msk (i + 1) ls max_token max_logit
      else if f32_le max_logit l then greedy_from msk (i + 1) ls (of_nat i) l
      else greedy_from msk (i + 1) ls max_token max_logit)"

definition greedy_sample :: "f32 list \<Rightarrow> logit_mask option \<Rightarrow> prediction" where
  "greedy_sample logits msk = greedy_from msk 0 logits 0 f32_neg_inf"

text \<open>The allowed tokens, with their logits passed through \<open>scale\<close>.\<close>

definition candidates :: "(f32 \<Rightarrow> f32) \<Rightarrow> f32 list \<Rightarrow> logit_mask option \<Rightarrow> token_logit list" where
  "candidates scale logits msk =
     map (\<lambda>(i, l). \<lparr>tl_token = of_nat i, tl_logit = scale l\<rparr>)
       (filter (\<lambda>(i, _). allowed msk i) (zip [0..<length logits] logits))"

definition has_nan :: "token_logit list \<Rightarrow> bool" where
  "has_nan ts = (\<exists>t \<in> set ts. f32_is_nan (tl_logit t))"

definition sort_desc :: "token_logit list \<Rightarrow> token_logit list" where
  "sort_desc ts = sort_key (\<lambda>t. - f32_key (tl_logit t)) ts"

type_synonym 'e nan_order = "token_logit list \<Rightarrow> ('e, token_logit list) outcome"

definition sort_by_cmp :: "'e nan_order \<Rightarrow> token_logit list \<Rightarrow> ('e, token_logit list) outcome" where
  "sort_by_cmp unordered ts = (if has_nan ts then unordered ts else Ok (sort_desc ts))"

definition sort_by_unwrap :: "token_logit list \<Rightarrow> ('e, token_logit list) outcome" where
  "sort_by_unwrap ts = (if has_nan ts \<and> 2 \<le> length ts then Panic else Ok (sort_desc ts))"

definition as_prediction :: "token_logit \<Rightarrow> prediction" where
  "as_prediction t = \<lparr>token = tl_token t, confidence = tl_logit t\<rparr>"

definition top_k_sample :: "'e nan_order \<Rightarrow> f32 list \<Rightarrow> logit_mask option \<Rightarrow> ('e, prediction) outcome" where
  "top_k_sample unordered logits msk =
     bind_outcome (sort_by_cmp unordered (candidates (\<lambda>l. l) logits msk)) (\<lambda>ts.
       Ok (as_prediction (case ts of [] \<Rightarrow> \<lparr>tl_token = 0, tl_logit = f32_neg_inf\<rparr> | t # _ \<Rightarrow> t)))"

definition sample_top_k ::
  "'e nan_order \<Rightarrow> usize \<Rightarrow> f32 list \<Rightarrow> logit_mask option \<Rightarrow> ('e, prediction list) outcome" where
  "sample_top_k unordered k logits msk =
     bind_outcome (sort_by_cmp unordered (candidates (\<lambda>l. l) logits msk)) (\<lambda>ts.
       Ok (map as_prediction (take k ts)))"

text \<open>The temperature is at least \<open>1e-6\<close>.\<close>

definition min_temperature :: f32 where
  "min_temperature = 0x358637bd"

fun cutoff_from :: "f32 \<Rightarrow> f32 \<Rightarrow> f32 \<Rightarrow> nat \<Rightarrow> f32 list \<Rightarrow> nat option" where
  "cutoff_from p sum_exp cumulative i [] = None"
| "cutoff_from p sum_exp cumulative i (e # es) =
     (let cumulative = f32_add cumulative (f32_div e sum_exp)
      in if f32_le p cumulative then Some (i + 1) else cutoff_from p sum_exp cumulative (i + 1) es)"

text \<open>The roulette wheel of both random samplers: the first position at which the running share reaches \<open>r\<close>.\<close>

fun pick_from :: "f32 \<Rightarrow> f32 \<Rightarrow> f32 \<Rightarrow> f32 list \<Rightarrow> token_logit list \<Rightarrow> token_logit option" where
  "pick_from r denom cur (e # es) (t # ts) =
     (let cur = f32_add cur (f32_div e denom)
      in if f32_le r cur then Some t else pick_from r denom cur es ts)"
| "pick_from r denom cur es ts = None"

definition top_p_sample ::
  "(f32 \<Rightarrow> f32) \<Rightarrow> f32 \<Rightarrow> f32 \<Rightarrow> f32 \<Rightarrow> f32 list \<Rightarrow> logit_mask option \<Rightarrow> ('e, prediction) outcome" where
  "top_p_sample exp_fn r p temperature logits msk =
     (let temp = f32_max temperature min_temperature in
      if f32_le f32_one p \<and> f32_le temperature 0 then Ok (greedy_sample logits msk)
      else
        let cands = candidates (\<lambda>l. f32_div l temp) logits msk in
        if cands = [] then Ok (greedy_sample logits None)
        else
          bind_outcome (sort_by_unwrap cands) (\<lambda>ts.
            let max_logit = tl_logit (hd ts);
                exps = map (\<lambda>t. exp_fn (f32_sub (tl_logit t) max_logit)) ts;
                sum_exp = f32_sum exps;
                cutoff_idx = (case cutoff_from p sum_exp 0 0 exps of None \<Rightarrow> length ts | Some c \<Rightarrow> c);
                sub_sum = f32_sum (take cutoff_idx exps)
            in Ok (as_prediction
                 (case pick_from r sub_sum 0 (take cutoff_idx exps) (take cutoff_idx ts) of
                    None \<Rightarrow> hd ts | Some t \<Rightarrow> t))))"

fun min_p_filter ::
  "(f32 \<Rightarrow> f32) \<Rightarrow> f32 \<Rightarrow> f32 \<Rightarrow> token_logit list \<Rightarrow> f32 list \<Rightarrow> token_logit list \<Rightarrow> f32
   \<Rightarrow> f32 list \<times> token_logit list \<times> f32" where
  "min_p_filter exp_fn max_logit cutoff [] exps kept sum_exp = (exps, kept, sum_exp)"
| "min_p_filter exp_fn max_logit cutoff (t # ts) exps kept sum_exp =
     (let p_rel = exp_fn (f32_sub (tl_logit t) max_logit)
      in if f32_less p_rel cutoff \<and> exps \<noteq> [] then (exps, kept, sum_exp)
         else min_p_filter exp_fn max_logit cutoff ts (exps @ [p_rel]) (kept @ [t]) (f32_add sum_exp p_rel))"

definition min_p_sample ::
  "(f32 \<Rightarrow> f32) \<Rightarrow> f32 \<Rightarrow> f32 \<Rightarrow> f32 \<Rightarrow> f32 list \<Rightarrow> logit_mask option \<Rightarrow> ('e, prediction) outcome" where
  "min_p_sample exp_fn r min_p temperature logits msk =
     (let temp = f32_max temperature min_temperature;
          cands = candidates (\<lambda>l. f32_div l temp) logits msk
      in
      if cands = [] then Ok (greedy_sample logits None)
      else
        bind_outcome (sort_by_unwrap cands) (\<lambda>ts.
          let (exps, kept, sum_exp) = min_p_filter exp_fn (tl_logit (hd ts)) min_p ts [] [] 0
          in Ok (as_prediction (case pick_from r sum_exp 0 exps kept of None \<Rightarrow> hd kept | Some t \<Rightarrow> t))))"

section \<open>Greedy sampling\<close>

text \<open>The position the greedy sampler picks: the last one of the largest allowed logit. A NaN is never
  picked, and nothing is when no position qualifies.\<close>

definition wins :: "f32 list \<Rightarrow> logit_mask option \<Rightarrow> nat \<Rightarrow> bool" where
  "wins logits msk i \<longleftrightarrow>
     i < length logits \<and> allowed msk i \<and> \<not> f32_is_nan (logits ! i)
     \<and> (\<forall>j < length logits. allowed msk j \<and> \<not> f32_is_nan (logits ! j) \<longrightarrow>
          f32_key (logits ! j) \<le> f32_key (logits ! i) \<and> (f32_key (logits ! j) = f32_key (logits ! i) \<longrightarrow> j \<le> i))"

definition pickable :: "f32 list \<Rightarrow> logit_mask option \<Rightarrow> bool" where
  "pickable logits msk \<longleftrightarrow> (\<exists>i < length logits. allowed msk i \<and> \<not> f32_is_nan (logits ! i))"

lemma neg_inf_not_nan [simp]: "\<not> f32_is_nan f32_neg_inf"
  by (simp add: f32_is_nan_def f32_magnitude_def f32_neg_inf_def)

lemma neg_inf_least: "\<not> f32_is_nan x \<Longrightarrow> f32_key f32_neg_inf \<le> f32_key x"
  using order_trans [of "- 2139095040" 0 "uint x"]
  by (auto simp: f32_key_def f32_is_nan_def f32_magnitude_def f32_sign_def f32_neg_inf_def)

lemma greedy_from_spec:
  assumes "\<not> f32_is_nan lmax"
  shows "(\<exists>i < length ls. allowed msk (n + i) \<and> \<not> f32_is_nan (ls ! i) \<and> f32_key lmax \<le> f32_key (ls ! i)
            \<and> greedy_from msk n ls t lmax = \<lparr>token = of_nat (n + i), confidence = ls ! i\<rparr>
            \<and> (\<forall>j < length ls. allowed msk (n + j) \<and> \<not> f32_is_nan (ls ! j) \<longrightarrow>
                 f32_key (ls ! j) \<le> f32_key (ls ! i) \<and> (f32_key (ls ! j) = f32_key (ls ! i) \<longrightarrow> j \<le> i)))
       \<or> greedy_from msk n ls t lmax = \<lparr>token = t, confidence = lmax\<rparr>
         \<and> (\<forall>j < length ls. allowed msk (n + j) \<and> \<not> f32_is_nan (ls ! j) \<longrightarrow> f32_key (ls ! j) < f32_key lmax)"
    (is "?win ls n t lmax \<or> ?keep ls n t lmax")
  using assms
proof (induction ls arbitrary: n t lmax)
  case Nil
  then show ?case by simp
next
  case (Cons l ls)
  let ?take = "allowed msk n \<and> f32_le lmax l"
  have shift: "allowed msk (n + Suc j) = allowed msk (Suc n + j)" for j by simp
  show ?case
  proof (cases ?take)
    case True
    then have l: "\<not> f32_is_nan l" "f32_key lmax \<le> f32_key l" by (simp_all add: f32_le_def)
    have eq: "greedy_from msk n (l # ls) t lmax = greedy_from msk (Suc n) ls (of_nat n) l"
      using True by simp
    from Cons.IH [OF l(1), of "Suc n" "of_nat n"] show ?thesis
    proof
      assume "?win ls (Suc n) (of_nat n) l"
      then obtain i where i: "i < length ls" "allowed msk (Suc n + i)" "\<not> f32_is_nan (ls ! i)" "f32_key l \<le> f32_key (ls ! i)"
        "greedy_from msk (Suc n) ls (of_nat n) l = \<lparr>token = of_nat (Suc n + i), confidence = ls ! i\<rparr>"
        "\<forall>j < length ls. allowed msk (Suc n + j) \<and> \<not> f32_is_nan (ls ! j) \<longrightarrow>
                 f32_key (ls ! j) \<le> f32_key (ls ! i) \<and> (f32_key (ls ! j) = f32_key (ls ! i) \<longrightarrow> j \<le> i)"
        by blast
      have "?win (l # ls) n t lmax"
        by (rule exI [of _ "Suc i"]) (use i l eq in \<open>auto simp: less_Suc_eq_0_disj shift\<close>)
      then show ?thesis by blast
    next
      assume k: "?keep ls (Suc n) (of_nat n) l"
      have "?win (l # ls) n t lmax"
        by (rule exI [of _ 0]) (use k l eq True in \<open>auto simp: less_Suc_eq_0_disj shift\<close>)
      then show ?thesis by blast
    qed
  next
    case False
    have eq: "greedy_from msk n (l # ls) t lmax = greedy_from msk (Suc n) ls t lmax"
      using False by auto
    have less: "allowed msk n \<and> \<not> f32_is_nan l \<longrightarrow> f32_key l < f32_key lmax"
      using False Cons.prems by (auto simp: f32_le_def)
    from Cons.IH [OF Cons.prems, of "Suc n" t] show ?thesis
    proof
      assume "?win ls (Suc n) t lmax"
      then obtain i where i: "i < length ls" "allowed msk (Suc n + i)" "\<not> f32_is_nan (ls ! i)" "f32_key lmax \<le> f32_key (ls ! i)"
        "greedy_from msk (Suc n) ls t lmax = \<lparr>token = of_nat (Suc n + i), confidence = ls ! i\<rparr>"
        "\<forall>j < length ls. allowed msk (Suc n + j) \<and> \<not> f32_is_nan (ls ! j) \<longrightarrow>
                 f32_key (ls ! j) \<le> f32_key (ls ! i) \<and> (f32_key (ls ! j) = f32_key (ls ! i) \<longrightarrow> j \<le> i)"
        by blast
      have "?win (l # ls) n t lmax"
        by (rule exI [of _ "Suc i"]) (use i less eq in \<open>auto simp: less_Suc_eq_0_disj shift\<close>)
      then show ?thesis by blast
    next
      assume k: "?keep ls (Suc n) t lmax"
      have "?keep (l # ls) n t lmax"
        using k less eq by (auto simp: less_Suc_eq_0_disj shift)
      then show ?thesis by blast
    qed
  qed
qed

lemma greedy_sample_spec:
  "if pickable logits msk
   then \<exists>i. wins logits msk i \<and> greedy_sample logits msk = \<lparr>token = of_nat i, confidence = logits ! i\<rparr>
   else greedy_sample logits msk = \<lparr>token = 0, confidence = f32_neg_inf\<rparr>"
  using greedy_from_spec [OF neg_inf_not_nan, of logits msk 0 0] neg_inf_least
  by (auto simp: greedy_sample_def wins_def pickable_def not_less [symmetric])


section \<open>Sorting samplers\<close>

lemma set_sort_desc [simp]: "set (sort_desc ts) = set ts"
  by (simp add: sort_desc_def)

lemma sort_desc_Nil_iff [simp]: "sort_desc ts = [] \<longleftrightarrow> ts = []"
  by (metis set_sort_desc set_empty)

lemma sort_desc_sorted: "sorted_wrt (\<lambda>a b. f32_key (tl_logit b) \<le> f32_key (tl_logit a)) (sort_desc ts)"
proof -
  have "sorted (map (\<lambda>t. - f32_key (tl_logit t)) (sort_desc ts))"
    by (simp add: sort_desc_def)
  then show ?thesis by (simp add: sorted_wrt_map)
qed

text \<open>A candidate is an allowed position with its scaled logit.\<close>

lemma candidate_iff:
  "t \<in> set (candidates scale logits msk) \<longleftrightarrow>
     (\<exists>i < length logits. allowed msk i \<and> t = \<lparr>tl_token = of_nat i, tl_logit = scale (logits ! i)\<rparr>)"
  by (force simp: candidates_def set_zip)

lemma candidates_Nil_iff: "candidates scale logits msk = [] \<longleftrightarrow> (\<forall>i < length logits. \<not> allowed msk i)"
  using candidate_iff [of _ scale logits msk] by (metis list.set_intros(1) neq_Nil_conv empty_iff list.set(1))

lemma pick_from_in: "pick_from r d c es ts = Some t \<Longrightarrow> t \<in> set ts"
  by (induction r d c es ts rule: pick_from.induct) (auto simp: Let_def split: if_splits)

lemma min_p_filter_kept:
  assumes "min_p_filter ef m c ts es kept s = (es', kept', s')" and "length es = length kept"
  shows "set kept' \<subseteq> set kept \<union> set ts \<and> (kept \<noteq> [] \<or> ts \<noteq> [] \<longrightarrow> kept' \<noteq> [])"
  using assms
proof (induction ef m c ts es kept s rule: min_p_filter.induct)
  case (2 ef m c t ts es kept s)
  let ?p = "ef (f32_sub (tl_logit t) m)"
  show ?case
  proof (cases "f32_less ?p c \<and> es \<noteq> []")
    case True
    then show ?thesis using 2 by auto
  next
    case False
    then have "min_p_filter ef m c ts (es @ [?p]) (kept @ [t]) (f32_add s ?p) = (es', kept', s')"
      using 2 by (simp add: Let_def split: if_splits)
    from 2(1) [OF refl False this] 2(3) show ?thesis by auto
  qed
qed auto

text \<open>What a sampler may return: an allowed position.\<close>

definition allowed_token :: "f32 list \<Rightarrow> logit_mask option \<Rightarrow> token_id \<Rightarrow> bool" where
  "allowed_token logits msk t \<longleftrightarrow> (\<exists>i < length logits. allowed msk i \<and> t = of_nat i)"

lemma candidate_allowed: "t \<in> set (candidates scale logits msk) \<Longrightarrow> allowed_token logits msk (tl_token t)"
  by (auto simp: candidate_iff allowed_token_def)

lemma prediction_allowed:
  "t \<in> set (candidates scale logits msk) \<Longrightarrow> allowed_token logits msk (token (as_prediction t))"
  by (simp add: as_prediction_def candidate_allowed)

lemma sort_by_unwrap_ok: "\<not> has_nan ts \<Longrightarrow> sort_by_unwrap ts = Ok (sort_desc ts)"
  by (simp add: sort_by_unwrap_def)

lemma top_k_candidate:
  assumes "candidates (\<lambda>l. l) logits msk = cs" "cs \<noteq> []" "\<not> has_nan cs"
  shows "\<exists>t \<in> set cs. (top_k_sample unordered logits msk :: ('e, _) outcome) = Ok (as_prediction t)"
proof -
  obtain t ts where s: "sort_desc cs = t # ts"
    using assms(2) by (cases "sort_desc cs") auto
  then have "t \<in> set cs" by (metis list.set_intros(1) set_sort_desc)
  moreover have "(top_k_sample unordered logits msk :: ('e, _) outcome) = Ok (as_prediction t)"
    using assms s by (simp add: top_k_sample_def sort_by_cmp_def)
  ultimately show ?thesis by blast
qed

lemma top_p_candidate:
  assumes "\<not> (f32_le f32_one p \<and> f32_le temperature 0)"
    and "candidates (\<lambda>l. f32_div l (f32_max temperature min_temperature)) logits msk = cs" "cs \<noteq> []" "\<not> has_nan cs"
  shows "\<exists>t \<in> set cs. (top_p_sample ef r p temperature logits msk :: ('e, _) outcome) = Ok (as_prediction t)"
proof -
  let ?ts = "sort_desc cs"
  have hd: "hd ?ts \<in> set cs" using assms(3) by (metis hd_in_set set_sort_desc sort_desc_Nil_iff)
  have pick: "(case pick_from r d c es (take n ?ts) of None \<Rightarrow> hd ?ts | Some t \<Rightarrow> t) \<in> set cs" for d c es n
    using hd pick_from_in [of r d c es "take n ?ts"] set_take_subset [of n ?ts] by (auto split: option.split)
  show ?thesis
    unfolding top_p_sample_def Let_def using assms pick
    by (auto simp: sort_by_unwrap_ok)
qed

lemma min_p_candidate:
  assumes "candidates (\<lambda>l. f32_div l (f32_max temperature min_temperature)) logits msk = cs" "cs \<noteq> []" "\<not> has_nan cs"
  shows "\<exists>t \<in> set cs. (min_p_sample ef r m temperature logits msk :: ('e, _) outcome) = Ok (as_prediction t)"
proof -
  let ?ts = "sort_desc cs"
  obtain es kept s where f: "min_p_filter ef (tl_logit (hd ?ts)) m ?ts [] [] 0 = (es, kept, s)"
    by (metis surj_pair)
  from min_p_filter_kept [OF f] assms(2) have kept: "set kept \<subseteq> set cs" "kept \<noteq> []"
    by auto
  have "(case pick_from r s 0 es kept of None \<Rightarrow> hd kept | Some t \<Rightarrow> t) \<in> set cs"
    using kept pick_from_in [of r s 0 es kept] by (auto split: option.split)
  then show ?thesis
    unfolding min_p_sample_def Let_def using assms f by (auto simp: sort_by_unwrap_ok)
qed

section \<open>Properties\<close>

text \<open>The greedy sampler returns the last position of the largest allowed logit, whatever NaNs the logits
  hold; when no allowed logit is a number it returns token 0 with confidence minus infinity.\<close>

lemma greedy_argmax:
  "if pickable logits msk
   then \<exists>i. wins logits msk i \<and> greedy_sample logits msk = \<lparr>token = of_nat i, confidence = logits ! i\<rparr>
   else greedy_sample logits msk = \<lparr>token = 0, confidence = f32_neg_inf\<rparr>"
  by (rule greedy_sample_spec)

text \<open>C37. A mask is respected: when the mask allows some position and the scaled logits are numbers, every
  sampler returns an allowed token and none panics.\<close>

theorem samplers_respect_mask:
  assumes "i < length logits" "allowed msk i"
    and "\<forall>l \<in> set logits. \<not> f32_is_nan l"
    and "\<forall>l \<in> set logits. \<not> f32_is_nan (f32_div l (f32_max temperature min_temperature))"
  shows "allowed_token logits msk (token (greedy_sample logits msk))
     \<and> (\<exists>q. (top_k_sample unordered logits msk :: ('e, _) outcome) = Ok q \<and> allowed_token logits msk (token q))
     \<and> (\<exists>q. (top_p_sample ef r p temperature logits msk :: ('e, _) outcome) = Ok q \<and> allowed_token logits msk (token q))
     \<and> (\<exists>q. (min_p_sample ef r m temperature logits msk :: ('e, _) outcome) = Ok q \<and> allowed_token logits msk (token q))"
proof -
  let ?scale = "\<lambda>l. f32_div l (f32_max temperature min_temperature)"
  have ne: "candidates scale logits msk \<noteq> []" for scale
    using assms(1,2) by (auto simp: candidates_Nil_iff)
  have plain: "\<not> has_nan (candidates (\<lambda>l. l) logits msk)"
    using assms(3) by (auto simp: has_nan_def candidate_iff)
  have scaled: "\<not> has_nan (candidates ?scale logits msk)"
    using assms(4) by (auto simp: has_nan_def candidate_iff)
  have greedy: "allowed_token logits msk (token (greedy_sample logits msk))"
  proof -
    have "pickable logits msk" using assms(1-3) by (auto simp: pickable_def)
    with greedy_sample_spec [of logits msk] show ?thesis
      by (auto simp: wins_def allowed_token_def)
  qed
  have "\<exists>t \<in> set (candidates (\<lambda>l. l) logits msk).
      (top_k_sample unordered logits msk :: ('e, _) outcome) = Ok (as_prediction t)"
    by (rule top_k_candidate [OF refl ne plain])
  moreover have "\<exists>q. (top_p_sample ef r p temperature logits msk :: ('e, _) outcome) = Ok q \<and> allowed_token logits msk (token q)"
  proof (cases "f32_le f32_one p \<and> f32_le temperature 0")
    case True
    then show ?thesis using greedy by (simp add: top_p_sample_def)
  next
    case False
    from top_p_candidate [OF False refl ne scaled, of ef r, where 'e = 'e] show ?thesis
      using prediction_allowed by blast
  qed
  moreover have "\<exists>t \<in> set (candidates ?scale logits msk).
      (min_p_sample ef r m temperature logits msk :: ('e, _) outcome) = Ok (as_prediction t)"
    by (rule min_p_candidate [OF refl ne scaled])
  ultimately show ?thesis
    using greedy prediction_allowed by blast
qed


definition sample_logits :: "f32 list" where
  "sample_logits = [f32_one, 0, f32_one]"

lemma sample_logits_scaled: "\<forall>l \<in> set sample_logits. \<not> f32_is_nan (f32_div l (f32_max f32_one min_temperature))"
proof -
  have max: "f32_max f32_one min_temperature = f32_one"
    by (simp add: f32_max_def f32_one_def min_temperature_def f32_is_nan_def f32_magnitude_def f32_key_def f32_sign_def)
  have fin: "\<forall>l \<in> set sample_logits. f32_finite l"
    by (simp add: sample_logits_def f32_finite_def f32_one_def f32_magnitude_def)
  show ?thesis unfolding max using fin f32_div_one f32_finiteD by auto
qed

theorem samplers_respect_mask_witness:
  "allowed (Some [True, False]) 0 \<and> allowed_token sample_logits (Some [True, False]) (token (greedy_sample sample_logits (Some [True, False])))
   \<and> (\<exists>q. (top_p_sample (\<lambda>x. f32_one) 0 f32_one f32_one sample_logits (Some [True, False]) :: (unit, _) outcome) = Ok q
        \<and> allowed_token sample_logits (Some [True, False]) (token q))"
  using samplers_respect_mask [where 'e = unit, of 0 sample_logits "Some [True, False]" f32_one Ok "\<lambda>x. f32_one" 0 f32_one 0,
      OF _ _ _ sample_logits_scaled]
  by (auto simp: allowed_def sample_logits_def)

text \<open>Top-k returns the best candidates: when no allowed logit is a NaN, it returns as many as it can up to
  k, in descending order, and no candidate left out has a larger logit than one returned.\<close>

theorem sample_top_k_best:
  assumes "\<not> has_nan (candidates (\<lambda>l. l) logits msk)"
  shows "\<exists>best rest. (sample_top_k unordered k logits msk :: ('e, _) outcome) = Ok (map as_prediction best)
     \<and> mset (best @ rest) = mset (candidates (\<lambda>l. l) logits msk)
     \<and> length best = min k (length (candidates (\<lambda>l. l) logits msk))
     \<and> sorted_wrt (\<lambda>a b. f32_key (tl_logit b) \<le> f32_key (tl_logit a)) best
     \<and> (\<forall>a \<in> set best. \<forall>b \<in> set rest. f32_key (tl_logit b) \<le> f32_key (tl_logit a))"
proof -
  let ?cs = "candidates (\<lambda>l. l) logits msk"
  let ?best = "take k (sort_desc ?cs)" and ?rest = "drop k (sort_desc ?cs)"
  have srt: "sorted_wrt (\<lambda>a b. f32_key (tl_logit b) \<le> f32_key (tl_logit a)) (?best @ ?rest)"
    unfolding append_take_drop_id by (rule sort_desc_sorted)
  have "mset (?best @ ?rest) = mset ?cs"
    unfolding append_take_drop_id by (simp add: sort_desc_def)
  moreover have "length ?best = min k (length ?cs)"
    by (simp add: sort_desc_def min.commute)
  moreover have "(sample_top_k unordered k logits msk :: ('e, _) outcome) = Ok (map as_prediction ?best)"
    using assms by (simp add: sample_top_k_def sort_by_cmp_def)
  ultimately show ?thesis
    using srt unfolding sorted_wrt_append by blast
qed

theorem sample_top_k_best_witness:
  "\<not> has_nan (candidates (\<lambda>l. l) sample_logits None)
   \<and> (\<exists>best rest. (sample_top_k Ok 2 sample_logits None :: (unit, _) outcome) = Ok (map as_prediction best)
        \<and> length best = min 2 (length (candidates (\<lambda>l. l) sample_logits None)))"
proof -
  have ok: "\<not> has_nan (candidates (\<lambda>l. l) sample_logits None)"
    by (auto simp: has_nan_def candidates_def sample_logits_def f32_is_nan_def f32_magnitude_def f32_one_def allowed_def)
  from sample_top_k_best [where 'e = unit, OF ok, of Ok 2] ok show ?thesis by blast
qed

text \<open>The samplers break ties differently: on two equal logits the greedy sampler takes the last position
  and top-k the first, so a draft tree and a greedy target disagree on the same logits.\<close>

theorem tie_breaks_differ:
  "token (greedy_sample [f32_one, f32_one] None) = 1
   \<and> (top_k_sample unordered [f32_one, f32_one] None :: ('e, _) outcome) = Ok \<lparr>token = 0, confidence = f32_one\<rparr>"
  by (simp add: greedy_sample_def allowed_def f32_le_def top_k_sample_def sort_by_cmp_def candidates_def
      has_nan_def sort_desc_def insort_key_def as_prediction_def f32_neg_inf_def f32_is_nan_def f32_magnitude_def f32_one_def
      f32_key_def f32_sign_def)

end
