(* ===== verification/Backend.thy ===== *)
theory Backend
  imports Sampling SpeculativeProps
begin

text \<open>
  Language-model backends and the draft and target models built on them (\<open>src/src/backend.rs\<close>).

  The trait \<open>CausalLmBackend\<close> is a record of operations over the backend's own state; the trait's default
  bodies are definitions of their own. The grammar matcher of a request (the trait \<open>CfgMatcher\<close> of
  \<open>src/src/constraints.rs\<close>) is a record of two operations over its state: computing a mask may change it, and
  advancing consumes a token. A model borrows the matchers for a call and leaves them as it used them.
\<close>

section \<open>Interfaces\<close>

definition token_logits_new :: "f32 list \<Rightarrow> (spec_error, f32 list) outcome" where
  "token_logits_new values =
     (if values = [] then Err (Model ''logits must contain at least one token'') else Ok values)"

record 'b backend =
  b_bind_prefix :: "cache_lookup \<Rightarrow> ('b, spec_error, unit) act"
  b_bind_slot :: "slot_id \<Rightarrow> ('b, spec_error, unit) act"
  b_next_logits :: "token_id list \<Rightarrow> ('b, spec_error, f32 list) act"
  b_next_logits_batch :: "token_id list list \<Rightarrow> ('b, spec_error, f32 list list) act"
  b_verify_logits :: "token_id list \<Rightarrow> token_id list \<Rightarrow> ('b, spec_error, f32 list list) act"
  b_verify_logits_batch :: "(token_id list \<times> token_id list) list \<Rightarrow> ('b, spec_error, f32 list list list) act"

record 'm cfg_matcher =
  cm_next_mask :: "'m \<Rightarrow> logit_mask \<times> 'm"
  cm_advance :: "token_id \<Rightarrow> 'm \<Rightarrow> 'm"

text \<open>\<open>iter().map(f).collect::<Result<Vec<_>>>()\<close>: the first error ends the iteration.\<close>

fun collect_map :: "('a \<Rightarrow> ('s, 'e, 'c) act) \<Rightarrow> 'a list \<Rightarrow> ('s, 'e, 'c list) act" where
  "collect_map f [] = ret []"
| "collect_map f (x # xs) = and_then (f x) (\<lambda>y. and_then (collect_map f xs) (\<lambda>ys. ret (y # ys)))"

definition bind_prefix_default :: "cache_lookup \<Rightarrow> ('b, spec_error, unit) act" where
  "bind_prefix_default p = ret ()"

definition bind_slot_default :: "slot_id \<Rightarrow> ('b, spec_error, unit) act" where
  "bind_slot_default s = ret ()"

definition sample_next_default ::
  "'b backend \<Rightarrow> token_id list \<Rightarrow> (f32 list \<Rightarrow> logit_mask option \<Rightarrow> (spec_error, prediction) outcome)
   \<Rightarrow> ('b, spec_error, prediction) act" where
  "sample_next_default ops ctx sampler =
     and_then (b_next_logits ops ctx) (\<lambda>logits b. (sampler logits None, b))"

definition next_logits_batch_default ::
  "(token_id list \<Rightarrow> ('b, spec_error, f32 list) act) \<Rightarrow> token_id list list \<Rightarrow> ('b, spec_error, f32 list list) act" where
  "next_logits_batch_default next_logits ctxs = collect_map next_logits ctxs"

definition verify_logits_batch_default ::
  "(token_id list \<Rightarrow> token_id list \<Rightarrow> ('b, spec_error, f32 list list) act)
   \<Rightarrow> (token_id list \<times> token_id list) list \<Rightarrow> ('b, spec_error, f32 list list list) act" where
  "verify_logits_batch_default verify_logits rs = collect_map (\<lambda>(ctx, ds). verify_logits ctx ds) rs"

text \<open>\<open>matcher.as_mut().map(|m| m.next_mask())\<close> and \<open>if let Some(m) = matcher { m.advance(token) }\<close>.\<close>

fun take_mask :: "'m cfg_matcher \<Rightarrow> 'm option \<Rightarrow> logit_mask option \<times> 'm option" where
  "take_mask mo None = (None, None)"
| "take_mask mo (Some m) = (let (msk, m') = cm_next_mask mo m in (Some msk, Some m'))"

definition consume :: "'m cfg_matcher \<Rightarrow> token_id \<Rightarrow> 'm option \<Rightarrow> 'm option" where
  "consume mo t m = map_option (cm_advance mo t) m"

section \<open>The greedy draft model\<close>

fun greedy_draft ::
  "'m cfg_matcher \<Rightarrow> 'b backend \<Rightarrow> token_id list \<Rightarrow> usize \<Rightarrow> ('m option \<times> 'b, spec_error, prediction list) act" where
  "greedy_draft mo ops ctx 0 mb = (Ok [], mb)"
| "greedy_draft mo ops ctx (Suc n) mb =
     (let (m, b) = mb; (msk, m) = take_mask mo m in
      case b_next_logits ops ctx b of
        (Err e, b) \<Rightarrow> (Err e, (m, b))
      | (Panic, b) \<Rightarrow> (Panic, (m, b))
      | (Ok logits, b) \<Rightarrow>
          let p = greedy_sample logits msk
          in and_then (greedy_draft mo ops (ctx @ [token p]) n) (\<lambda>ps. ret (p # ps)) (consume mo (token p) m, b))"

record 'm batch_state =
  bs_results :: "prediction list list"
  bs_contexts :: "token_id list list"
  bs_matchers :: "'m option list"

text \<open>One step of the batch: each active request takes the logits at its place in the batch.\<close>

fun batch_apply ::
  "'m cfg_matcher \<Rightarrow> usize list \<Rightarrow> f32 list list \<Rightarrow> ('m batch_state, spec_error, unit) act" where
  "batch_apply mo [] logits st = (Ok (), st)"
| "batch_apply mo (i # is) logits st =
     (let (msk, m) = take_mask mo (bs_matchers st ! i);
          st = st\<lparr>bs_matchers := (bs_matchers st)[i := m]\<rparr>
      in
      case logits of
        [] \<Rightarrow> (Panic, st)
      | l # ls \<Rightarrow>
          let p = greedy_sample l msk
          in batch_apply mo is ls
               (st\<lparr>bs_contexts := (bs_contexts st)[i := bs_contexts st ! i @ [token p]],
                   bs_results := (bs_results st)[i := bs_results st ! i @ [p]],
                   bs_matchers := (bs_matchers st)[i := consume mo (token p) m]\<rparr>))"

definition active_indices :: "usize list \<Rightarrow> prediction list list \<Rightarrow> usize list" where
  "active_indices maxes results = filter (\<lambda>i. length (results ! i) < maxes ! i) [0..<length maxes]"

fun draft_steps ::
  "'m cfg_matcher \<Rightarrow> 'b backend \<Rightarrow> usize list \<Rightarrow> nat \<Rightarrow> ('m batch_state \<times> 'b, spec_error, unit) act" where
  "draft_steps mo ops maxes 0 sb = (Ok (), sb)"
| "draft_steps mo ops maxes (Suc n) sb =
     (let (st, b) = sb; act = active_indices maxes (bs_results st) in
      if act = [] then (Ok (), (st, b))
      else
        case b_next_logits_batch ops (map (\<lambda>i. bs_contexts st ! i) act) b of
          (Err e, b) \<Rightarrow> (Err e, (st, b))
        | (Panic, b) \<Rightarrow> (Panic, (st, b))
        | (Ok logits, b) \<Rightarrow>
            (case batch_apply mo act logits st of
               (Ok _, st) \<Rightarrow> draft_steps mo ops maxes n (st, b)
             | (Err e, st) \<Rightarrow> (Err e, (st, b))
             | (Panic, st) \<Rightarrow> (Panic, (st, b))))"

text \<open>Every request carries one matcher slot, so the list of matchers is as long as the batch.\<close>

definition greedy_draft_batch ::
  "'m cfg_matcher \<Rightarrow> 'b backend \<Rightarrow> (token_id list \<times> usize) list
   \<Rightarrow> ('m option list \<times> 'b, spec_error, prediction list list) act" where
  "greedy_draft_batch mo ops rs mb =
     (let (ms, b) = mb in
      if length ms \<noteq> length rs then (Panic, (ms, b))
      else
        let st = \<lparr>bs_results = map (\<lambda>_. []) rs, bs_contexts = map fst rs, bs_matchers = ms\<rparr>;
            max_steps = foldr max (map snd rs) 0;
            (r, (st, b)) = draft_steps mo ops (map snd rs) max_steps (st, b)
        in (bind_outcome r (\<lambda>_. Ok (bs_results st)), (bs_matchers st, b)))"

definition greedy_draft_model :: "'m cfg_matcher \<Rightarrow> 'b backend \<Rightarrow> ('b, 'm) draft_model" where
  "greedy_draft_model mo ops =
     \<lparr>d_bind_prefix = b_bind_prefix ops, d_bind_slot = b_bind_slot ops,
      d_draft = greedy_draft mo ops, d_draft_batch = greedy_draft_batch mo ops\<rparr>"

section \<open>The tree draft model\<close>

fun expand_primary ::
  "'b backend \<Rightarrow> spec_error nan_order \<Rightarrow> token_id list \<Rightarrow> nat \<Rightarrow> usize \<Rightarrow> spec_tree \<Rightarrow> ('b, spec_error, spec_tree) act" where
  "expand_primary ops unordered ctx 0 cur tree = ret tree"
| "expand_primary ops unordered ctx (Suc n) cur tree =
     (\<lambda>b. case get_path tree cur of
        Err e \<Rightarrow> (Err e, b)
      | Panic \<Rightarrow> (Panic, b)
      | Ok path \<Rightarrow>
          and_then (b_next_logits ops (ctx @ path)) (\<lambda>logits.
            and_then (\<lambda>b. (top_k_sample unordered logits None, b)) (\<lambda>p.
              let (cur', tree') = add_child cur (token p) tree
              in expand_primary ops unordered ctx n cur' tree')) b)"

definition tree_draft_tree ::
  "'m cfg_matcher \<Rightarrow> 'b backend \<Rightarrow> spec_error nan_order \<Rightarrow> token_id list \<Rightarrow> usize \<Rightarrow> usize
   \<Rightarrow> ('m option \<times> 'b, spec_error, spec_tree) act" where
  "tree_draft_tree mo ops unordered ctx max_tokens width mb =
     (let (m, b) = mb; (msk, m) = take_mask mo m;
          (r, b) = and_then (b_next_logits ops ctx) (\<lambda>logits.
            and_then (\<lambda>b. (sample_top_k unordered width logits msk, b)) (\<lambda>top_k.
              case top_k of
                [] \<Rightarrow> throw (Model ''Draft model returned no tokens'')
              | p # ps \<Rightarrow>
                  expand_primary ops unordered ctx (max_tokens - 1) 0
                    (foldl (\<lambda>t q. snd (add_child 0 (token q) t)) (tree_new (token p)) ps))) b
      in (r, (m, b)))"

definition tree_draft_model :: "'m cfg_matcher \<Rightarrow> 'b backend \<Rightarrow> ('b, 'm) draft_model" where
  "tree_draft_model mo ops =
     \<lparr>d_bind_prefix = b_bind_prefix ops, d_bind_slot = b_bind_slot ops,
      d_draft = greedy_draft mo ops, d_draft_batch = draft_batch_default (greedy_draft mo ops)\<rparr>"

section \<open>The greedy target model\<close>

fun judge_logits :: "'m cfg_matcher \<Rightarrow> f32 list list \<Rightarrow> 'm option \<Rightarrow> verify_step list \<times> 'm option" where
  "judge_logits mo [] m = ([], m)"
| "judge_logits mo (l # ls) m =
     (let (msk, m) = take_mask mo m;
          p = greedy_sample l msk;
          (steps, m) = judge_logits mo ls (consume mo (token p) m)
      in (\<lparr>expected = token p\<rparr> # steps, m))"

definition greedy_verify ::
  "'m cfg_matcher \<Rightarrow> 'b backend \<Rightarrow> token_id list \<Rightarrow> token_id list \<Rightarrow> ('m option \<times> 'b, spec_error, verify_step list) act" where
  "greedy_verify mo ops ctx ds mb =
     (let (m, b) = mb in
      case b_verify_logits ops ctx ds b of
        (Err e, b) \<Rightarrow> (Err e, (m, b))
      | (Panic, b) \<Rightarrow> (Panic, (m, b))
      | (Ok logits, b) \<Rightarrow> let (steps, m) = judge_logits mo logits m in (Ok steps, (m, b)))"

text \<open>More answers than requests index past the requests, unless they are empty.\<close>

fun judge_batch :: "'m cfg_matcher \<Rightarrow> f32 list list list \<Rightarrow> ('m option list, spec_error, verify_step list list) act" where
  "judge_batch mo [] ms = (Ok [], ms)"
| "judge_batch mo (ls # lss) [] =
     (if ls \<noteq> [] then (Panic, [])
      else let (r, ms) = judge_batch mo lss [] in (bind_outcome r (\<lambda>steps. Ok ([] # steps)), ms))"
| "judge_batch mo (ls # lss) (m # ms) =
     (let (steps, m) = judge_logits mo ls m;
          (r, ms) = judge_batch mo lss ms
      in (bind_outcome r (\<lambda>stepss. Ok (steps # stepss)), m # ms))"

definition greedy_verify_batch ::
  "'m cfg_matcher \<Rightarrow> 'b backend \<Rightarrow> (token_id list \<times> token_id list) list
   \<Rightarrow> ('m option list \<times> 'b, spec_error, verify_step list list) act" where
  "greedy_verify_batch mo ops rs mb =
     (let (ms, b) = mb in
      case b_verify_logits_batch ops rs b of
        (Err e, b) \<Rightarrow> (Err e, (ms, b))
      | (Panic, b) \<Rightarrow> (Panic, (ms, b))
      | (Ok logits, b) \<Rightarrow> let (r, ms) = judge_batch mo logits ms in (r, (ms, b)))"

definition greedy_target_model :: "'m cfg_matcher \<Rightarrow> 'b backend \<Rightarrow> ('b, 'm) target_model" where
  "greedy_target_model mo ops =
     \<lparr>t_bind_prefix = b_bind_prefix ops, t_bind_slot = b_bind_slot ops,
      t_verify = greedy_verify mo ops, t_verify_batch = greedy_verify_batch mo ops\<rparr>"

end
