(* ===== verification/BackendProps.thy ===== *)
theory BackendProps
  imports Backend
begin

text \<open>
  Correctness of the models built on a backend. A backend is \<open>steady\<close> when its answers depend on the
  tokens alone (what the weights of a model determine). On a steady backend the batched draft and
  verification are the sequential ones request by request, and the greedy models keep the promises
  under which speculative decoding is lossless.
\<close>

section \<open>Steady backends\<close>

definition steady :: "'b backend \<Rightarrow> (token_id list \<Rightarrow> f32 list) \<Rightarrow> bool" where
  "steady ops nl \<longleftrightarrow>
     (\<forall>ctx b. b_next_logits ops ctx b = (Ok (nl ctx), b))
     \<and> (\<forall>ctxs b. b_next_logits_batch ops ctxs b = (Ok (map nl ctxs), b))
     \<and> (\<forall>ctx ds b. b_verify_logits ops ctx ds b = (Ok (map (\<lambda>k. nl (ctx @ take k ds)) [0..<length ds]), b))
     \<and> (\<forall>rs b. b_verify_logits_batch ops rs b =
          (Ok (map (\<lambda>(ctx, ds). map (\<lambda>k. nl (ctx @ take k ds)) [0..<length ds]) rs), b))"

text \<open>The default batch operations follow from the single ones.\<close>

lemma collect_map_steady:
  "(\<forall>x. \<forall>b. f x b = (Ok (g x), b)) \<Longrightarrow> collect_map f xs b = (Ok (map g xs), b)"
  by (induction xs) (simp_all add: ret_def and_then_def)

lemma steady_default:
  assumes "\<forall>ctx b. b_next_logits ops ctx b = (Ok (nl ctx), b)"
    and "\<forall>ctx ds b. b_verify_logits ops ctx ds b = (Ok (map (\<lambda>k. nl (ctx @ take k ds)) [0..<length ds]), b)"
    and "b_next_logits_batch ops = next_logits_batch_default (b_next_logits ops)"
    and "b_verify_logits_batch ops = verify_logits_batch_default (b_verify_logits ops)"
  shows "steady ops nl"
  using assms collect_map_steady [of "b_next_logits ops" nl]
    collect_map_steady [of "\<lambda>(ctx, ds). b_verify_logits ops ctx ds" "\<lambda>(ctx, ds). map (\<lambda>k. nl (ctx @ take k ds)) [0..<length ds]"]
  by (auto simp: steady_def next_logits_batch_default_def verify_logits_batch_default_def)

text \<open>The draft of one request on a steady backend, grown at its end.\<close>

fun draft_of ::
  "'m cfg_matcher \<Rightarrow> (token_id list \<Rightarrow> f32 list) \<Rightarrow> token_id list \<Rightarrow> 'm option \<Rightarrow> nat \<Rightarrow> prediction list \<times> 'm option" where
  "draft_of mo nl ctx m 0 = ([], m)"
| "draft_of mo nl ctx m (Suc n) =
     (let (ps, m) = draft_of mo nl ctx m n;
          (msk, m) = take_mask mo m;
          p = greedy_sample (nl (ctx @ map token ps)) msk
      in (ps @ [p], consume mo (token p) m))"

lemma draft_of_length [simp]: "length (fst (draft_of mo nl ctx m n)) = n"
  by (induction n) (auto simp: Let_def split: prod.splits)

lemma draft_of_front:
  assumes "take_mask mo m = (msk, m1)" and "p = greedy_sample (nl ctx) msk"
  shows "draft_of mo nl ctx m (Suc n) =
     (let (ps, m2) = draft_of mo nl (ctx @ [token p]) (consume mo (token p) m1) n in (p # ps, m2))"
proof (induction n)
  case 0
  then show ?case using assms by (simp add: Let_def)
next
  case (Suc n)
  then show ?case
    by (subst draft_of.simps(2)) (simp add: Let_def split: prod.splits)
qed

lemma greedy_draft_steady:
  assumes "steady ops nl"
  shows "greedy_draft mo ops ctx n (m, b) =
     (let (ps, m') = draft_of mo nl ctx m n in (Ok ps, (m', b)))"
proof (induction n arbitrary: ctx m)
  case (Suc n)
  obtain msk m1 where t: "take_mask mo m = (msk, m1)" by fastforce
  let ?p = "greedy_sample (nl ctx) msk"
  have "b_next_logits ops ctx b = (Ok (nl ctx), b)" using assms by (simp add: steady_def)
  then show ?case
    using Suc [of "ctx @ [token ?p]" "consume mo (token ?p) m1"] t
    by (simp only: draft_of_front [OF t refl])
      (simp add: Let_def and_then_def ret_def split: prod.splits)
qed simp

section \<open>Batches\<close>

text \<open>The state of a batch after \<open>k\<close> steps.\<close>

definition batch_at ::
  "'m cfg_matcher \<Rightarrow> (token_id list \<Rightarrow> f32 list) \<Rightarrow> (token_id list \<times> usize) list \<Rightarrow> 'm option list \<Rightarrow> nat \<Rightarrow> 'm batch_state" where
  "batch_at mo nl rs ms k =
     (let outs = map (\<lambda>((ctx, n), m). draft_of mo nl ctx m (min k n)) (zip rs ms)
      in \<lparr>bs_results = map fst outs,
          bs_contexts = map (\<lambda>((ctx, _), ps). ctx @ map token ps) (zip rs (map fst outs)),
          bs_matchers = map snd outs\<rparr>)"

text \<open>One request moves one step on.\<close>

definition step_at :: "'m cfg_matcher \<Rightarrow> (token_id list \<Rightarrow> f32 list) \<Rightarrow> nat \<Rightarrow> 'm batch_state \<Rightarrow> 'm batch_state" where
  "step_at mo nl i st =
     (let (msk, m) = take_mask mo (bs_matchers st ! i);
          p = greedy_sample (nl (bs_contexts st ! i)) msk
      in st\<lparr>bs_contexts := (bs_contexts st)[i := bs_contexts st ! i @ [token p]],
            bs_results := (bs_results st)[i := bs_results st ! i @ [p]],
            bs_matchers := (bs_matchers st)[i := consume mo (token p) m]\<rparr>)"

lemma batch_apply_steps:
  assumes "distinct js" and "\<forall>i \<in> set js. bs_contexts st ! i = ctxs i"
  shows "batch_apply mo js (map (\<lambda>i. nl (ctxs i)) js) st = (Ok (), fold (step_at mo nl) js st)"
  using assms
proof (induction js arbitrary: st)
  case (Cons i js)
  have keep: "\<forall>j \<in> set js. bs_contexts (step_at mo nl i st) ! j = ctxs j"
  proof
    fix j assume "j \<in> set js"
    then have "j \<noteq> i" "bs_contexts st ! j = ctxs j" using Cons.prems by auto
    then show "bs_contexts (step_at mo nl i st) ! j = ctxs j"
      by (simp add: step_at_def Let_def split: prod.splits)
  qed
  have "batch_apply mo (i # js) (map (\<lambda>i. nl (ctxs i)) (i # js)) st =
      batch_apply mo js (map (\<lambda>i. nl (ctxs i)) js) (step_at mo nl i st)"
    using Cons.prems by (simp add: step_at_def Let_def split: prod.splits)
  with Cons.IH [OF _ keep] Cons.prems show ?case by simp
qed simp

text \<open>What a list of steps does to one position.\<close>

definition at :: "nat \<Rightarrow> 'm batch_state \<Rightarrow> prediction list \<times> token_id list \<times> 'm option" where
  "at i st = (bs_results st ! i, bs_contexts st ! i, bs_matchers st ! i)"

definition sized :: "nat \<Rightarrow> 'm batch_state \<Rightarrow> bool" where
  "sized n st \<longleftrightarrow> length (bs_results st) = n \<and> length (bs_contexts st) = n \<and> length (bs_matchers st) = n"

lemma step_at_sized [simp]: "sized n (step_at mo nl i st) = sized n st"
  by (simp add: sized_def step_at_def Let_def split: prod.splits)

lemma step_at_other: "i \<noteq> j \<Longrightarrow> at j (step_at mo nl i st) = at j st"
  by (simp add: at_def step_at_def Let_def split: prod.splits)

lemma step_at_same:
  assumes "at i st = at i st'" and "sized n st" and "sized n st'" and "i < n"
  shows "at i (step_at mo nl i st) = at i (step_at mo nl i st')"
  using assms by (simp add: at_def step_at_def sized_def Let_def split: prod.splits)

lemma fold_steps_sized [simp]: "sized n (fold (step_at mo nl) js st) = sized n st"
  by (induction js arbitrary: st) simp_all

lemma fold_steps_at:
  assumes "distinct js" and "sized n st" and "\<forall>i \<in> set js. i < n"
  shows "at j (fold (step_at mo nl) js st) = (if j \<in> set js then at j (step_at mo nl j st) else at j st)"
  using assms
proof (induction js arbitrary: st)
  case (Cons i js)
  have IH: "at j (fold (step_at mo nl) js (step_at mo nl i st)) =
      (if j \<in> set js then at j (step_at mo nl j (step_at mo nl i st)) else at j (step_at mo nl i st))"
    using Cons by simp
  show ?case
  proof (cases "j = i")
    case True
    then show ?thesis using IH Cons.prems by simp
  next
    case False
    have eq: "at j (step_at mo nl i st) = at j st" using False by (simp add: step_at_other)
    have "at j (step_at mo nl j (step_at mo nl i st)) = at j (step_at mo nl j st)" if "j \<in> set js"
      by (rule step_at_same [OF eq, of n]) (use Cons.prems that in auto)
    then show ?thesis using IH False eq by simp
  qed
qed simp

lemma batch_state_eq:
  assumes "sized n st" and "sized n st'" and "\<forall>i < n. at i st = at i st'"
  shows "st = (st' :: 'm batch_state)"
  using assms by (intro batch_state.equality) (auto simp: sized_def at_def intro: nth_equalityI)


lemma batch_at_sized: "length ms = length rs \<Longrightarrow> sized (length rs) (batch_at mo nl rs ms k)"
  by (simp add: sized_def batch_at_def Let_def)

lemma at_batch_at:
  assumes "i < length rs" and "length ms = length rs" and "rs ! i = (ctx, n)"
    and "draft_of mo nl ctx (ms ! i) (min k n) = (ps, m)"
  shows "at i (batch_at mo nl rs ms k) = (ps, ctx @ map token ps, m)"
  using assms by (simp add: at_def batch_at_def Let_def)

lemma active_iff:
  assumes "length ms = length rs"
  shows "i \<in> set (active_indices (map snd rs) (bs_results (batch_at mo nl rs ms k))) \<longleftrightarrow> i < length rs \<and> k < snd (rs ! i)"
  using assms by (auto simp: active_indices_def batch_at_def Let_def split_beta)

lemma batch_at_step:
  assumes len: "length ms = length rs"
  shows "fold (step_at mo nl) (active_indices (map snd rs) (bs_results (batch_at mo nl rs ms k))) (batch_at mo nl rs ms k)
     = batch_at mo nl rs ms (Suc k)"
proof -
  let ?st = "batch_at mo nl rs ms k"
  let ?js = "active_indices (map snd rs) (bs_results ?st)"
  have size: "sized (length rs) ?st" by (rule batch_at_sized [OF len])
  note act = active_iff [OF len, of _ mo nl k]
  have dist: "distinct ?js" by (simp add: active_indices_def)
  have "at i (fold (step_at mo nl) ?js ?st) = at i (batch_at mo nl rs ms (Suc k))" if i: "i < length rs" for i
  proof -
    obtain ctx n where r: "rs ! i = (ctx, n)" by fastforce
    obtain ps m where d: "draft_of mo nl ctx (ms ! i) (min k n) = (ps, m)" by fastforce
    note A = at_batch_at [OF i len r d]
    have F: "at i (fold (step_at mo nl) ?js ?st) = (if i \<in> set ?js then at i (step_at mo nl i ?st) else at i ?st)"
      by (rule fold_steps_at [OF dist size]) (simp add: act)
    show ?thesis
    proof (cases "k < n")
      case True
      obtain msk m1 where t: "take_mask mo m = (msk, m1)" by fastforce
      let ?p = "greedy_sample (nl (ctx @ map token ps)) msk"
      have "draft_of mo nl ctx (ms ! i) (min (Suc k) n) = (ps @ [?p], consume mo (token ?p) m1)"
        using True d t by (simp add: Let_def)
      from at_batch_at [OF i len r this] have
        "at i (batch_at mo nl rs ms (Suc k)) = (ps @ [?p], ctx @ map token ps @ [token ?p], consume mo (token ?p) m1)"
        by simp
      moreover have "at i (step_at mo nl i ?st) = (ps @ [?p], ctx @ map token ps @ [token ?p], consume mo (token ?p) m1)"
        using A i t size by (simp add: at_def step_at_def sized_def Let_def)
      moreover have "i \<in> set ?js" using act i r True by simp
      ultimately show ?thesis using F by simp
    next
      case False
      then have "min (Suc k) n = min k n" by simp
      with at_batch_at [OF i len r, of mo nl "Suc k" ps m] d
      have "at i (batch_at mo nl rs ms (Suc k)) = at i ?st" using A by simp
      moreover have "i \<notin> set ?js" using act r False by simp
      ultimately show ?thesis using F by simp
    qed
  qed
  then show ?thesis
    by (intro batch_state_eq [of "length rs"]) (simp_all add: batch_at_sized [OF len])
qed

lemma batch_at_done:
  assumes "\<forall>r \<in> set rs. snd r \<le> k" and "k \<le> l"
  shows "batch_at mo nl rs ms l = batch_at mo nl rs ms k"
proof -
  have "map (\<lambda>((ctx, n), m). draft_of mo nl ctx m (min l n)) (zip rs ms)
      = map (\<lambda>((ctx, n), m). draft_of mo nl ctx m (min k n)) (zip rs ms)"
    using assms by (intro map_cong refl) (force dest: set_zip_leftD simp: min_absorb2)
  then show ?thesis unfolding batch_at_def by (simp only:)
qed

text \<open>A backend that answers as \<open>nl\<close> says on the contexts \<open>ok\<close> allows, and stays as it is.\<close>

definition steady_on :: "'b backend \<Rightarrow> (token_id list \<Rightarrow> f32 list) \<Rightarrow> (token_id list \<Rightarrow> bool) \<Rightarrow> 'b \<Rightarrow> bool" where
  "steady_on ops nl ok b \<longleftrightarrow>
     (\<forall>ctxs. (\<forall>ctx \<in> set ctxs. ok ctx) \<longrightarrow> b_next_logits_batch ops ctxs b = (Ok (map nl ctxs), b)) \<and>
     (\<forall>rs. (\<forall>(ctx, ds) \<in> set rs. \<forall>k < length ds. ok (ctx @ take k ds)) \<longrightarrow>
        b_verify_logits_batch ops rs b = (Ok (map (\<lambda>(ctx, ds). map (\<lambda>k. nl (ctx @ take k ds)) [0..<length ds]) rs), b))"

lemma steady_steady_on: "steady ops nl \<Longrightarrow> steady_on ops nl (\<lambda>_. True) b"
  by (simp add: steady_def steady_on_def)

definition drafts_within ::
  "'m cfg_matcher \<Rightarrow> (token_id list \<Rightarrow> f32 list) \<Rightarrow> (token_id list \<Rightarrow> bool) \<Rightarrow> (token_id list \<times> usize) list \<Rightarrow> 'm option list \<Rightarrow> bool" where
  "drafts_within mo nl ok rs ms \<longleftrightarrow>
     (\<forall>i < length rs. \<forall>k < snd (rs ! i). ok (fst (rs ! i) @ map token (fst (draft_of mo nl (fst (rs ! i)) (ms ! i) k))))"

lemma draft_steps_on:
  assumes st: "steady_on ops nl ok b" and len: "length ms = length rs" and within: "drafts_within mo nl ok rs ms"
  shows "draft_steps mo ops (map snd rs) n (batch_at mo nl rs ms k, b) = (Ok (), (batch_at mo nl rs ms (k + n), b))"
proof (induction n arbitrary: k)
  case (Suc n)
  let ?st = "batch_at mo nl rs ms k"
  let ?js = "active_indices (map snd rs) (bs_results ?st)"
  show ?case
  proof (cases "?js = []")
    case True
    have "\<forall>r \<in> set rs. snd r \<le> k"
    proof
      fix r assume "r \<in> set rs"
      then obtain i where i: "i < length rs" "rs ! i = r" by (metis in_set_conv_nth)
      then show "snd r \<le> k" using True active_iff [OF len, of i mo nl k] by auto
    qed
    from batch_at_done [OF this, of "k + Suc n" mo nl ms] True show ?thesis by simp
  next
    case False
    have "batch_apply mo ?js (map (\<lambda>i. nl (bs_contexts ?st ! i)) ?js) ?st = (Ok (), batch_at mo nl rs ms (Suc k))"
      unfolding batch_at_step [OF len, symmetric]
      by (rule batch_apply_steps) (simp_all add: active_indices_def)
    moreover have "ok (bs_contexts ?st ! i)" if "i \<in> set ?js" for i
    proof -
      have i: "i < length rs" "k < snd (rs ! i)" using that active_iff [OF len] by auto
      obtain ctx n' where r: "rs ! i = (ctx, n')" by fastforce
      obtain ps m where d: "draft_of mo nl ctx (ms ! i) (min k n') = (ps, m)" by fastforce
      have "min k n' = k" using i r by simp
      with at_batch_at [OF i(1) len r d] within i r d show ?thesis
        unfolding drafts_within_def at_def by (metis fst_conv prod.inject)
    qed
    then have "b_next_logits_batch ops (map (\<lambda>i. bs_contexts ?st ! i) ?js) b
        = (Ok (map (\<lambda>i. nl (bs_contexts ?st ! i)) ?js), b)"
      using st by (simp add: steady_on_def)
    ultimately show ?thesis using False Suc [of "Suc k"] by simp
  qed
qed simp

lemma greedy_draft_batch_on:
  assumes "steady_on ops nl ok b" "length ms = length rs" "drafts_within mo nl ok rs ms"
  shows "greedy_draft_batch mo ops rs (ms, b) =
     (Ok (map (\<lambda>((ctx, n), m). fst (draft_of mo nl ctx m n)) (zip rs ms)),
      (map (\<lambda>((ctx, n), m). snd (draft_of mo nl ctx m n)) (zip rs ms), b))"
proof -
  let ?k = "foldr max (map snd rs) 0"
  have init: "\<lparr>bs_results = map (\<lambda>_. []) rs, bs_contexts = map fst rs, bs_matchers = ms\<rparr> = batch_at mo nl rs ms 0"
    using assms(2) by (auto simp: batch_at_def Let_def split_beta zip_map2 intro!: nth_equalityI)
  have le: "snd r \<le> foldr max (map snd rs) 0" if "r \<in> set rs" for r :: "token_id list \<times> nat" and rs
    using that by (induction rs) (auto simp: le_max_iff_disj)
  have "map (\<lambda>((ctx, n), m). draft_of mo nl ctx m (min ?k n)) (zip rs ms)
      = map (\<lambda>((ctx, n), m). draft_of mo nl ctx m n) (zip rs ms)"
    using le [of _ rs] by (intro map_cong refl) (force dest: set_zip_leftD simp: min_absorb2)
  then have "bs_results (batch_at mo nl rs ms ?k) = map (\<lambda>((ctx, n), m). fst (draft_of mo nl ctx m n)) (zip rs ms)"
    and "bs_matchers (batch_at mo nl rs ms ?k) = map (\<lambda>((ctx, n), m). snd (draft_of mo nl ctx m n)) (zip rs ms)"
    by (simp_all add: batch_at_def Let_def comp_def split_beta flip: map_map [of fst] map_map [of snd])
  then show ?thesis
    using draft_steps_on [OF assms, of ?k 0] assms(2)
    by (simp add: greedy_draft_batch_def init Let_def)
qed

text \<open>A single draft, where the backend answers on the contexts the draft goes through.\<close>

lemma greedy_draft_on:
  assumes "\<forall>c. length ctx \<le> length c \<longrightarrow> length c < length ctx + n \<longrightarrow> b_next_logits ops c b = (Ok (nl c), b)"
  shows "greedy_draft mo ops ctx n (m, b) = (let (ps, m') = draft_of mo nl ctx m n in (Ok ps, (m', b)))"
  using assms
proof (induction n arbitrary: ctx m)
  case (Suc n)
  obtain msk m1 where t: "take_mask mo m = (msk, m1)" by fastforce
  let ?p = "greedy_sample (nl ctx) msk"
  have "b_next_logits ops ctx b = (Ok (nl ctx), b)" using Suc.prems by simp
  moreover have "greedy_draft mo ops (ctx @ [token ?p]) n (consume mo (token ?p) m1, b) =
      (let (ps, m') = draft_of mo nl (ctx @ [token ?p]) (consume mo (token ?p) m1) n in (Ok ps, (m', b)))"
    using Suc.prems by (intro Suc.IH) simp
  ultimately show ?case
    using t by (simp only: draft_of_front [OF t refl]) (simp add: Let_def and_then_def ret_def split: prod.splits)
qed simp

text \<open>So where a backend answers without changing, the batch gives each request what drafting it alone gives.\<close>

lemma draft_batch_alone:
  assumes "steady_on ops nl ok b" "length ms = length rs"
    and means: "\<forall>(ctx, n) \<in> set rs. \<forall>c. length ctx \<le> length c \<longrightarrow> length c < length ctx + n \<longrightarrow> ok c \<and> b_next_logits ops c b = (Ok (nl c), b)"
  shows "\<exists>pss ms'. greedy_draft_batch mo ops rs (ms, b) = (Ok pss, (ms', b)) \<and> length pss = length rs \<and> length ms' = length rs \<and>
    (\<forall>i < length rs. greedy_draft mo ops (fst (rs ! i)) (snd (rs ! i)) (ms ! i, b) = (Ok (pss ! i), (ms' ! i, b)) \<and>
       length (pss ! i) = snd (rs ! i))"
proof -
  have at: "\<forall>c. length (fst (rs ! i)) \<le> length c \<longrightarrow> length c < length (fst (rs ! i)) + snd (rs ! i) \<longrightarrow>
      ok c \<and> b_next_logits ops c b = (Ok (nl c), b)" if "i < length rs" for i
    using bspec [OF means nth_mem [OF that]] by (simp add: split_beta)
  have "drafts_within mo nl ok rs ms" using at by (auto simp: drafts_within_def)
  note batch = greedy_draft_batch_on [OF assms(1,2) this]
  have "greedy_draft mo ops (fst (rs ! i)) (snd (rs ! i)) (ms ! i, b) =
      (let (ps, m') = draft_of mo nl (fst (rs ! i)) (ms ! i) (snd (rs ! i)) in (Ok ps, (m', b)))" if "i < length rs" for i
    using at [OF that] by (intro greedy_draft_on) blast
  with assms(2) show ?thesis
    unfolding batch
    by (intro exI [of _ "map (\<lambda>((ctx, n), m). fst (draft_of mo nl ctx m n)) (zip rs ms)"]
        exI [of _ "map (\<lambda>((ctx, n), m). snd (draft_of mo nl ctx m n)) (zip rs ms)"] conjI) (auto simp: split_beta)
qed

text \<open>A steady backend that prefers the token whose number is the length of the context.\<close>

definition one_hot_at :: "nat \<Rightarrow> f32 list" where
  "one_hot_at n = replicate n 0 @ [f32_one]"

definition length_backend :: "unit backend" where
  "length_backend =
     \<lparr>b_bind_prefix = bind_prefix_default, b_bind_slot = bind_slot_default,
      b_next_logits = (\<lambda>ctx. ret (one_hot_at (length ctx))),
      b_next_logits_batch = next_logits_batch_default (\<lambda>ctx. ret (one_hot_at (length ctx))),
      b_verify_logits = (\<lambda>ctx ds. ret (map (\<lambda>k. one_hot_at (length (ctx @ take k ds))) [0..<length ds])),
      b_verify_logits_batch = verify_logits_batch_default
        (\<lambda>ctx ds. ret (map (\<lambda>k. one_hot_at (length (ctx @ take k ds))) [0..<length ds]))\<rparr>"

lemma length_backend_steady: "steady length_backend (\<lambda>ctx. one_hot_at (length ctx))"
  by (rule steady_default) (simp_all add: length_backend_def ret_def)

text \<open>A matcher that allows everything and remembers the tokens it was given.\<close>

definition log_matcher :: "token_id list cfg_matcher" where
  "log_matcher = \<lparr>cm_next_mask = (\<lambda>log. (replicate 100 True, log)), cm_advance = (\<lambda>t log. log @ [t])\<rparr>"

section \<open>Speculative decoding on a backend\<close>

text \<open>The token the greedy sampler picks after a context.\<close>

definition next_token :: "(token_id list \<Rightarrow> f32 list) \<Rightarrow> token_id list \<Rightarrow> token_id" where
  "next_token nl ctx = token (greedy_sample (nl ctx) None)"

lemma judge_logits_None:
  "judge_logits mo ls None = (map (\<lambda>l. \<lparr>expected = token (greedy_sample l None)\<rparr>) ls, None)"
  by (induction ls) (simp_all add: consume_def Let_def)

lemma greedy_target_answers:
  assumes "steady ops nl"
  shows "answers_with (greedy_target_model mo ops) (next_token nl)"
  using assms
  by (auto simp: answers_with_def greedy_target_model_def greedy_verify_def steady_def judge_logits_None replies_def
      next_token_def)

lemma greedy_draft_some:
  assumes "steady ops nl"
  shows "drafts_some (greedy_draft_model mo ops)"
  unfolding drafts_some_def
proof (intro allI impI)
  fix ctx and n :: nat and d assume "0 < n"
  obtain ps m where d: "draft_of mo nl ctx None n = (ps, m)" by fastforce
  then have "length ps = n" by (metis draft_of_length fst_conv)
  with d \<open>0 < n\<close> show "\<exists>ps md. d_draft (greedy_draft_model mo ops) ctx n (None, d) = (Ok ps, md) \<and> ps \<noteq> [] \<and> length ps \<le> n"
    by (auto simp: greedy_draft_model_def greedy_draft_steady [OF assms])
qed

text \<open>The program's own models are lossless: with a greedy target on one steady backend and a greedy draft
  on another, the decoder returns exactly the tokens that sampling the target's backend greedily,
  one token at a time, would give.\<close>

lemma greedy_models_lossless:
  assumes "steady target_ops nl" and "steady draft_ops nl'" and "0 < dec_draft_window dec"
  shows "\<exists>out d' t'. decoder_generate dec (greedy_draft_model mo draft_ops) (greedy_target_model mo target_ops) p mx (d, t)
       = (Ok out, (d', t'))
     \<and> out_tokens out = greedy (next_token nl) p mx"
  using decoder_generate_greedy [OF greedy_target_answers [OF assms(1)] greedy_draft_some [OF assms(2)] assms(3), of mo mo p mx d t]
  by blast


theorem greedy_models_lossless_instance:
  "\<exists>out d' t'. decoder_generate \<lparr>dec_draft_window = 2, dec_max_window = 4\<rparr> (greedy_draft_model log_matcher length_backend)
       (greedy_target_model log_matcher length_backend) [7] 3 ((), ()) = (Ok out, (d', t'))
     \<and> out_tokens out = greedy (next_token (\<lambda>ctx. one_hot_at (length ctx))) [7] 3"
  by (rule greedy_models_lossless [OF length_backend_steady length_backend_steady]) simp

section \<open>Grammar matchers\<close>

text \<open>A matcher whose mask does not change its state consumes one token for every position judged.\<close>

definition mask_pure :: "'m cfg_matcher \<Rightarrow> bool" where
  "mask_pure mo \<longleftrightarrow> (\<forall>m. snd (cm_next_mask mo m) = m)"

lemma take_mask_pure: "mask_pure mo \<Longrightarrow> take_mask mo (Some m) = (Some (fst (cm_next_mask mo m)), Some m)"
  by (simp add: mask_pure_def split_beta)

lemma judge_logits_matcher:
  assumes "mask_pure mo"
  shows "snd (judge_logits mo ls (Some m)) = Some (fold (cm_advance mo) (map expected (fst (judge_logits mo ls (Some m)))) m)"
proof (induction ls arbitrary: m)
  case (Cons l ls)
  let ?t = "token (greedy_sample l (Some (fst (cm_next_mask mo m))))"
  from Cons [of "cm_advance mo ?t m"] take_mask_pure [OF assms, of m] show ?case
    by (simp add: Let_def consume_def split_beta)
qed simp

lemma judge_logits_length: "length (fst (judge_logits mo ls m)) = length ls"
  by (induction mo ls m rule: judge_logits.induct) (auto simp: Let_def split: prod.splits)

lemma judge_committed:
  assumes "length vs = length ds" and "judge 0 ds vs = (n, Some (i, t))"
  shows "map expected vs = (take n ds @ [t]) @ map expected (drop (n + 1) vs) \<and> n < length ds"
proof -
  from assms have n: "n = agree_len ds (map expected vs)" and lt: "n \<noteq> length ds" and t: "t = expected (vs ! n)"
    by (auto simp: judge_agree Let_def split: if_splits)
  have less: "n < length ds" using lt n agree_len_le(1) [of ds "map expected vs"] by simp
  have "take n ds = map expected (take n vs)"
    using agree_len_take [of ds "map expected vs"] n by (simp add: take_map)
  moreover have "vs = take n vs @ vs ! n # drop (n + 1) vs"
    using less assms(1) id_take_nth_drop [of n vs] by simp
  ultimately show ?thesis using t less by (metis append.assoc append_Cons append_Nil list.simps(9) map_append)
qed

text \<open>A rejected draft leaves the grammar matcher ahead of the output: verification moves the matcher over
  one token for every drafted position, so when the draft is cut at its first wrong token, the
  matcher has consumed the committed tokens and after them one more for every position behind the
  cut.\<close>

theorem matcher_runs_ahead:
  assumes "steady ops nl" and "mask_pure mo"
    and "greedy_verify mo ops ctx ds (Some m, t) = (Ok vs, (m', t'))"
    and "judge 0 ds vs = (n, Some (i, wrong))"
  shows "\<exists>surplus. m' = Some (fold (cm_advance mo) ((take n ds @ [wrong]) @ surplus) m)
     \<and> length surplus = length ds - (n + 1)"
proof -
  let ?ls = "map (\<lambda>k. nl (ctx @ take k ds)) [0..<length ds]"
  have j: "judge_logits mo ?ls (Some m) = (vs, m')"
    using assms(1,3) by (auto simp: greedy_verify_def steady_def split: prod.splits)
  have len: "length vs = length ds" using judge_logits_length [of mo ?ls "Some m"] j by simp
  have "m' = Some (fold (cm_advance mo) (map expected vs) m)"
    using judge_logits_matcher [OF assms(2), of ?ls m] j by simp
  with judge_committed [OF len assms(4)] len show ?thesis
    by (intro exI [of _ "map expected (drop (n + 1) vs)"]) simp
qed

lemma log_matcher_pure: "mask_pure log_matcher"
  by (simp add: mask_pure_def log_matcher_def)

lemma one_hot_at_1: "one_hot_at (Suc 0) = [0, f32_one]"
  by (simp add: one_hot_at_def)

lemma one_hot_at_2: "one_hot_at (Suc (Suc 0)) = [0, 0, f32_one]"
  by (simp add: one_hot_at_def)

lemma greedy_one_hot_at:
  "greedy_sample [0, f32_one] (Some (replicate 100 True)) = \<lparr>token = 1, confidence = f32_one\<rparr>"
  "greedy_sample [0, 0, f32_one] (Some (replicate 100 True)) = \<lparr>token = 2, confidence = f32_one\<rparr>"
  by (simp_all add: greedy_sample_def allowed_def f32_le_def f32_neg_inf_def f32_is_nan_def f32_magnitude_def f32_one_def
      f32_key_def f32_sign_def)

lemma length_backend_verify:
  "greedy_verify log_matcher length_backend [7] [9, 9] (Some [], ()) =
     (Ok [\<lparr>expected = 1\<rparr>, \<lparr>expected = 2\<rparr>], (Some [1, 2], ()))"
  by (simp add: greedy_verify_def length_backend_def ret_def upt_rec log_matcher_def consume_def one_hot_at_1 one_hot_at_2
      greedy_one_hot_at Let_def)

theorem matcher_runs_ahead_witness:
  "\<exists>surplus. Some [1, 2] = Some (fold (cm_advance log_matcher) ((take 0 [9, 9] @ [1]) @ surplus) []) \<and> length surplus = 1"
  using matcher_runs_ahead [OF length_backend_steady log_matcher_pure length_backend_verify, of 0 0 1] by simp

end
