(* ===== verification/MockBackend.thy ===== *)
theory MockBackend
  imports BackendProps BTreeMap
begin

text \<open>
  The scripted backend (\<open>src/src/mock_backend.rs\<close>): the token at each position comes from a table of overrides
  or from the script, and its logits are one-hot.
\<close>

section \<open>State and operations\<close>

record mock_backend =
  script :: "token_id list"
  overrides :: "(usize, token_id) btree_map"
  bound_prefixes :: "cache_lookup list"
  bound_slots :: "slot_id list"

definition mock_new :: "token_id list \<Rightarrow> mock_backend" where
  "mock_new s = \<lparr>script = s, overrides = [], bound_prefixes = [], bound_slots = []\<rparr>"

definition with_override :: "usize \<Rightarrow> token_id \<Rightarrow> mock_backend \<Rightarrow> mock_backend" where
  "with_override pos t b = b\<lparr>overrides := bt_insert pos t (overrides b)\<rparr>"

definition token_at :: "usize \<Rightarrow> mock_backend \<Rightarrow> (spec_error, token_id) outcome" where
  "token_at pos b =
     (case bt_get (overrides b) pos of
        Some t \<Rightarrow> Ok t
      | None \<Rightarrow>
          if pos < length (script b) then Ok (script b ! pos)
          else Err (Model (''mock backend has no token at position '' @ decimal pos)))"

definition one_hot :: "token_id \<Rightarrow> (spec_error, f32 list) outcome" where
  "one_hot t = token_logits_new ((replicate (unat t + 1) 0)[unat t := f32_one])"

definition mock_next_logits :: "token_id list \<Rightarrow> (mock_backend, spec_error, f32 list) act" where
  "mock_next_logits ctx b = (bind_outcome (token_at (length ctx) b) one_hot, b)"

definition mock_verify_logits :: "token_id list \<Rightarrow> token_id list \<Rightarrow> (mock_backend, spec_error, f32 list list) act" where
  "mock_verify_logits ctx ds =
     collect_map (\<lambda>offset b. (bind_outcome (token_at (length ctx + offset) b) one_hot, b)) [0..<length ds]"

definition mock_ops :: "mock_backend backend" where
  "mock_ops =
     \<lparr>b_bind_prefix = (\<lambda>p b. (Ok (), b\<lparr>bound_prefixes := bound_prefixes b @ [p]\<rparr>)),
      b_bind_slot = (\<lambda>s b. (Ok (), b\<lparr>bound_slots := bound_slots b @ [s]\<rparr>)),
      b_next_logits = mock_next_logits,
      b_next_logits_batch = next_logits_batch_default mock_next_logits,
      b_verify_logits = mock_verify_logits,
      b_verify_logits_batch = verify_logits_batch_default mock_verify_logits\<rparr>"

section \<open>Properties\<close>

lemma one_hot_Ok: "one_hot t = Ok (replicate (unat t) 0 @ [f32_one])"
  by (simp add: one_hot_def token_logits_new_def list_update_append flip: replicate_append_same)

lemma greedy_one_hot: "greedy_sample (replicate (unat t) 0 @ [f32_one]) None = \<lparr>token = t, confidence = f32_one\<rparr>"
proof -
  let ?ls = "replicate (unat t) (0 :: f32) @ [f32_one]"
  have keys: "f32_key (0 :: f32) = 0" "0 < f32_key f32_one"
    by (simp_all add: f32_key_def f32_sign_def f32_magnitude_def f32_one_def)
  have "pickable ?ls None"
    by (auto simp: pickable_def allowed_def nth_append intro!: exI [of _ "unat t"])
  with greedy_sample_spec [of ?ls None] obtain i where i: "wins ?ls None i"
    and s: "greedy_sample ?ls None = \<lparr>token = of_nat i, confidence = ?ls ! i\<rparr>" by auto
  have "i = unat t"
  proof (rule ccontr)
    assume "i \<noteq> unat t"
    then have "i < unat t" using i by (auto simp: wins_def)
    then have "?ls ! i = 0" by (simp add: nth_append)
    moreover have last: "?ls ! unat t = f32_one" by (simp add: nth_append)
    moreover have "\<not> f32_is_nan (?ls ! unat t) \<longrightarrow> f32_key (?ls ! unat t) \<le> f32_key (?ls ! i)"
      using i unfolding wins_def allowed_def by simp
    ultimately show False using keys by simp
  qed
  with s show ?thesis by (simp add: nth_append)
qed

text \<open>A backend that only reads its script.\<close>

definition scripted :: "token_id list \<Rightarrow> mock_backend \<Rightarrow> bool" where
  "scripted sc b \<longleftrightarrow> script b = sc \<and> overrides b = []"

lemma scripted_token: "scripted sc b \<Longrightarrow> n < length sc \<Longrightarrow> token_at n b = Ok (sc ! n)"
  by (simp add: scripted_def token_at_def bt_get_def)

lemma scripted_new: "scripted sc (mock_new sc)" "scripted sc (b\<lparr>bound_prefixes := ps\<rparr>) = scripted sc b"
  by (simp_all add: scripted_def mock_new_def)

lemma collect_map_same: "\<forall>x \<in> set xs. f x b = (Ok (g x), b) \<Longrightarrow> collect_map f xs b = (Ok (map g xs), b)"
  by (induction xs) (simp_all add: ret_def and_then_def)

text \<open>Drafting on the scripted backend reads the script: the drafted tokens are the ones at the positions
  after the context, and a draft that runs past the script fails with the first missing position.\<close>

theorem mock_draft_script:
  "fst (greedy_draft mo mock_ops ctx n (None, b)) =
     (case find (\<lambda>i. \<not> is_Ok (token_at (length ctx + i) b)) [0..<n] of
        Some i \<Rightarrow> Err (Model (''mock backend has no token at position '' @ decimal (length ctx + i)))
      | None \<Rightarrow> Ok (map (\<lambda>i. \<lparr>token = (case token_at (length ctx + i) b of Ok t \<Rightarrow> t), confidence = f32_one\<rparr>) [0..<n]))"
proof (induction n arbitrary: ctx)
  case (Suc n)
  let ?k = "length ctx"
  have upt: "[0..<Suc n] = 0 # map Suc [0..<n]" by (simp add: upt_conv_Cons map_Suc_upt del: upt_Suc)
  have find_map: "find P (map f xs) = map_option f (find (P \<circ> f) xs)" for P f and xs :: "nat list"
    by (induction xs) auto
  show ?case
  proof (cases "token_at ?k b")
    case (Ok t)
    have "fst (greedy_draft mo mock_ops ctx (Suc n) (None, b)) =
        bind_outcome (fst (greedy_draft mo mock_ops (ctx @ [t]) n (None, b))) (\<lambda>ps. Ok (\<lparr>token = t, confidence = f32_one\<rparr> # ps))"
      using Ok by (simp add: mock_ops_def mock_next_logits_def one_hot_Ok greedy_one_hot consume_def Let_def and_then_def ret_def
          split: prod.splits outcome.splits)
    with Suc [of "ctx @ [t]"] Ok show ?thesis
      unfolding upt by (simp add: find_map comp_def is_Ok_iff split: option.splits)
  next
    case (Err e)
    then have "e = Model (''mock backend has no token at position '' @ decimal ?k)"
      by (auto simp: token_at_def split: option.splits if_splits)
    with Err show ?thesis
      unfolding upt by (simp add: mock_ops_def mock_next_logits_def)
  next
    case Panic
    then show ?thesis by (auto simp: token_at_def split: option.splits if_splits)
  qed
qed simp

section \<open>Drafting in batches\<close>

definition mock_logits :: "mock_backend \<Rightarrow> token_id list \<Rightarrow> f32 list" where
  "mock_logits b ctx = (case mock_next_logits ctx b of (Ok l, _) \<Rightarrow> l | _ \<Rightarrow> [])"

lemma mock_next: "is_Ok (token_at (length ctx) b) \<Longrightarrow> mock_next_logits ctx b = (Ok (mock_logits b ctx), b)"
  by (auto simp: mock_logits_def mock_next_logits_def is_Ok_iff one_hot_Ok)

lemma mock_verify:
  assumes "\<forall>k < length ds. is_Ok (token_at (length (ctx @ take k ds)) b)"
  shows "mock_verify_logits ctx ds b = (Ok (map (\<lambda>k. mock_logits b (ctx @ take k ds)) [0..<length ds]), b)"
  unfolding mock_verify_logits_def
proof (rule collect_map_same, intro ballI)
  fix k assume "k \<in> set [0..<length ds]"
  with assms have "is_Ok (token_at (length (ctx @ take k ds)) b)" "length (ctx @ take k ds) = length ctx + k" by auto
  with mock_next [of "ctx @ take k ds" b]
  show "(bind_outcome (token_at (length ctx + k) b) one_hot, b) = (Ok (mock_logits b (ctx @ take k ds)), b)"
    by (simp add: mock_next_logits_def)
qed

lemma mock_steady: "steady_on mock_ops (mock_logits b) (\<lambda>ctx. is_Ok (token_at (length ctx) b)) b"
  unfolding steady_on_def
proof (intro conjI allI impI)
  fix ctxs :: "token_id list list" assume "\<forall>ctx \<in> set ctxs. is_Ok (token_at (length ctx) b)"
  then show "b_next_logits_batch mock_ops ctxs b = (Ok (map (mock_logits b) ctxs), b)"
    by (simp add: mock_ops_def next_logits_batch_default_def collect_map_same mock_next)
next
  fix rs :: "(token_id list \<times> token_id list) list"
  assume "\<forall>(ctx, ds) \<in> set rs. \<forall>k < length ds. is_Ok (token_at (length (ctx @ take k ds)) b)"
  then have "\<forall>r \<in> set rs. (case r of (ctx, ds) \<Rightarrow> mock_verify_logits ctx ds) b =
      (Ok ((\<lambda>(ctx, ds). map (\<lambda>k. mock_logits b (ctx @ take k ds)) [0..<length ds]) r), b)"
    by (auto intro!: mock_verify)
  then have "collect_map (\<lambda>(ctx, ds). mock_verify_logits ctx ds) rs b =
      (Ok (map (\<lambda>(ctx, ds). map (\<lambda>k. mock_logits b (ctx @ take k ds)) [0..<length ds]) rs), b)"
    by (intro collect_map_same) simp
  then show "b_verify_logits_batch mock_ops rs b =
      (Ok (map (\<lambda>(ctx, ds). map (\<lambda>k. mock_logits b (ctx @ take k ds)) [0..<length ds]) rs), b)"
    by (simp add: mock_ops_def verify_logits_batch_default_def)
qed

text \<open>C28. Batched drafting is sequential drafting, for the greedy draft model on the scripted backend: when the script or an
  override has a token for every position that some request's draft reaches, the batch gives every request
  as many predictions as it asked for, the same ones, and the same state of its grammar matcher, as drafting that request alone
  from the same backend, and the backend is left as it was. Requests of different lengths, that are finished at different steps, are not mixed up.\<close>

theorem draft_batch_sequential:
  assumes "length ms = length rs" "\<forall>(ctx, n) \<in> set rs. \<forall>k < n. is_Ok (token_at (length ctx + k) b)"
  shows "\<exists>pss ms'. greedy_draft_batch mo mock_ops rs (ms, b) = (Ok pss, (ms', b)) \<and> length pss = length rs \<and> length ms' = length rs \<and>
    (\<forall>i < length rs. greedy_draft mo mock_ops (fst (rs ! i)) (snd (rs ! i)) (ms ! i, b) = (Ok (pss ! i), (ms' ! i, b)) \<and>
       length (pss ! i) = snd (rs ! i))"
proof (rule draft_batch_alone [OF mock_steady assms(1)], clarify)
  fix ctx n and c :: "token_id list" assume "(ctx, n) \<in> set rs" "length ctx \<le> length c" "length c < length ctx + n"
  moreover from this obtain k where "length c = length ctx + k" "k < n" by (metis le_iff_add nat_add_left_cancel_less)
  ultimately have "is_Ok (token_at (length c) b)" using assms(2) by fastforce
  then show "is_Ok (token_at (length c) b) \<and> b_next_logits mock_ops c b = (Ok (mock_logits b c), b)"
    by (simp add: mock_ops_def mock_next)
qed

theorem draft_batch_sequential_witness:
  "\<exists>pss ms'. greedy_draft_batch log_matcher mock_ops [([7], 2), ([7, 8, 9], 1)] ([None, Some []], with_override 2 5 (mock_new [1, 2, 3, 4])) =
      (Ok pss, (ms', with_override 2 5 (mock_new [1, 2, 3, 4]))) \<and>
    greedy_draft log_matcher mock_ops [7] 2 (None, with_override 2 5 (mock_new [1, 2, 3, 4])) =
      (Ok (pss ! 0), (ms' ! 0, with_override 2 5 (mock_new [1, 2, 3, 4])))"
proof -
  let ?b = "with_override 2 5 (mock_new [1, 2, 3, 4])" and ?rs = "[([7], 2), ([7, 8, 9], 1)] :: (token_id list \<times> nat) list"
  have "\<forall>(ctx, n) \<in> set ?rs. \<forall>k < n. is_Ok (token_at (length ctx + k) ?b)"
    by (auto simp: token_at_def with_override_def mock_new_def bt_get_def less_2_cases_iff)
  from draft_batch_sequential [OF _ this, of "[None, Some []]" log_matcher] show ?thesis by fastforce
qed

end
