(* ===== verification/Gguf.thy ===== *)
theory Gguf
  imports Numbers
begin

text \<open>
  The reader of GGUF model files (\<open>src/src/gguf.rs\<close>): the table of quantisation types, metadata values, the
  tensor directory and the extraction of tensor data.

  The seekable stream that the reader is given is its whole contents and a position; a read past the
  end is the I/O error of \<open>read_exact\<close>. Every multi-byte number is little-endian. A Rust \<open>String\<close> is its bytes,
  which are valid UTF-8. The text of a \<open>Malformed\<close> error is the case and the data it is made from. A
  \<open>HashMap\<close> is a list of its entries. The sum, product and alignment computations on \<open>u64\<close> panic when they
  overflow. Allocations are assumed to succeed.
\<close>

section \<open>Types of tensor elements\<close>

datatype ggml_type =
    T_F32 | T_F16 | T_Q4_0 | T_Q4_1 | T_Q5_0 | T_Q5_1 | T_Q8_0 | T_Q8_1
  | T_Q2K | T_Q3K | T_Q4K | T_Q5K | T_Q6K | T_Q8K
  | T_I8 | T_I16 | T_I32 | T_I64 | T_F64 | T_BF16

definition ggml_table :: "(nat \<times> ggml_type) list" where
  "ggml_table =
     [(0, T_F32), (1, T_F16), (2, T_Q4_0), (3, T_Q4_1), (6, T_Q5_0), (7, T_Q5_1), (8, T_Q8_0), (9, T_Q8_1),
      (10, T_Q2K), (11, T_Q3K), (12, T_Q4K), (13, T_Q5K), (14, T_Q6K), (15, T_Q8K),
      (24, T_I8), (25, T_I16), (26, T_I32), (27, T_I64), (28, T_F64), (30, T_BF16)]"

definition ggml_from_u32 :: "u32 \<Rightarrow> ggml_type option" where
  "ggml_from_u32 v = map_of ggml_table (unat v)"

text \<open>Bytes and elements of a block.\<close>

fun block_params :: "ggml_type \<Rightarrow> nat \<times> nat" where
  "block_params T_F32 = (4, 1)" | "block_params T_I32 = (4, 1)"
| "block_params T_F16 = (2, 1)" | "block_params T_I16 = (2, 1)" | "block_params T_BF16 = (2, 1)"
| "block_params T_Q4_0 = (18, 32)" | "block_params T_Q4_1 = (20, 32)"
| "block_params T_Q5_0 = (22, 32)" | "block_params T_Q5_1 = (24, 32)"
| "block_params T_Q8_0 = (34, 32)" | "block_params T_Q8_1 = (36, 32)"
| "block_params T_Q2K = (84, 256)" | "block_params T_Q3K = (110, 256)" | "block_params T_Q4K = (144, 256)"
| "block_params T_Q5K = (176, 256)" | "block_params T_Q6K = (210, 256)" | "block_params T_Q8K = (292, 256)"
| "block_params T_I8 = (1, 1)" | "block_params T_I64 = (8, 1)" | "block_params T_F64 = (8, 1)"

text \<open>A result of \<open>u64\<close> arithmetic under overflow checks.\<close>

definition checked64 :: "nat \<Rightarrow> ('e, nat) outcome" where
  "checked64 n = (if n \<le> max64 then Ok n else Panic)"

definition ggml_nbytes :: "ggml_type \<Rightarrow> nat \<Rightarrow> ('e, nat) outcome" where
  "ggml_nbytes t n_elements =
     (let (block_bytes, block_elems) = block_params t
      in checked64 (div_ceil n_elements block_elems * block_bytes))"

section \<open>Values, tensors and files\<close>

type_synonym rust_string = "u8 list"

datatype gguf_value =
    V_U8 u8 | V_I8 u8 | V_U16 u16 | V_I16 u16 | V_U32 u32 | V_I32 u32 | V_F32 f32 | V_Bool bool
  | V_String rust_string | V_Array "gguf_value list" | V_U64 u64 | V_I64 u64 | V_F64 u64

fun as_u32 :: "gguf_value \<Rightarrow> u32 option" where
  "as_u32 (V_U32 v) = Some v" | "as_u32 _ = None"

fun as_u64 :: "gguf_value \<Rightarrow> u64 option" where
  "as_u64 (V_U64 v) = Some v" | "as_u64 (V_U32 v) = Some (ucast v)" | "as_u64 _ = None"

fun as_f32 :: "gguf_value \<Rightarrow> f32 option" where
  "as_f32 (V_F32 v) = Some v" | "as_f32 _ = None"

fun as_str :: "gguf_value \<Rightarrow> rust_string option" where
  "as_str (V_String s) = Some s" | "as_str _ = None"

fun as_array :: "gguf_value \<Rightarrow> gguf_value list option" where
  "as_array (V_Array vs) = Some vs" | "as_array _ = None"

fun as_i8 :: "gguf_value \<Rightarrow> u8 option" where
  "as_i8 (V_I8 v) = Some v" | "as_i8 _ = None"

fun as_u16 :: "gguf_value \<Rightarrow> u16 option" where
  "as_u16 (V_U16 v) = Some v" | "as_u16 _ = None"

fun as_i16 :: "gguf_value \<Rightarrow> u16 option" where
  "as_i16 (V_I16 v) = Some v" | "as_i16 _ = None"

fun as_i32 :: "gguf_value \<Rightarrow> u32 option" where
  "as_i32 (V_I32 v) = Some v" | "as_i32 _ = None"

fun as_i64 :: "gguf_value \<Rightarrow> u64 option" where
  "as_i64 (V_I64 v) = Some v" | "as_i64 _ = None"

fun as_f64 :: "gguf_value \<Rightarrow> u64 option" where
  "as_f64 (V_F64 v) = Some v" | "as_f64 _ = None"

fun as_bool :: "gguf_value \<Rightarrow> bool option" where
  "as_bool (V_Bool v) = Some v" | "as_bool _ = None"

record tensor_info =
  ti_name :: rust_string
  ti_shape :: "u64 list"
  ti_dtype :: ggml_type
  ti_offset :: u64
  ti_nbytes :: nat

fun checked_product :: "u64 list \<Rightarrow> nat \<Rightarrow> ('e, nat) outcome" where
  "checked_product [] acc = Ok acc"
| "checked_product (d # ds) acc = bind_outcome (checked64 (acc * unat d)) (checked_product ds)"

definition n_elements :: "tensor_info \<Rightarrow> ('e, nat) outcome" where
  "n_elements t = checked_product (ti_shape t) 1"

type_synonym ('k, 'v) hash_map = "('k \<times> 'v) list"

definition hm_insert :: "'k \<Rightarrow> 'v \<Rightarrow> ('k, 'v) hash_map \<Rightarrow> ('k, 'v) hash_map" where
  "hm_insert k v m = (k, v) # filter (\<lambda>(k', _). k' \<noteq> k) m"

record gguf_file =
  version :: u32
  metadata :: "(rust_string, gguf_value) hash_map"
  tensors :: "(rust_string, tensor_info) hash_map"
  data_offset :: nat

datatype malformed = TooManyDims rust_string u32 | InvalidUtf8 rust_string | TensorNotFound rust_string

datatype gguf_error = Io | BadMagic u32 | UnsupportedVersion u32 | UnknownType u32 | Malformed malformed

section \<open>Readers\<close>

record reader =
  rd_data :: "u8 list"
  rd_pos :: nat

definition read_exact :: "nat \<Rightarrow> (reader, gguf_error, u8 list) act" where
  "read_exact n r =
     (if n = 0 \<or> rd_pos r + n \<le> length (rd_data r)
      then (Ok (take n (drop (rd_pos r) (rd_data r))), r\<lparr>rd_pos := rd_pos r + n\<rparr>)
      else (Err Io, r\<lparr>rd_pos := max (rd_pos r) (length (rd_data r))\<rparr>))"

definition read_word :: "nat \<Rightarrow> (reader, gguf_error, 'a::len word) act" where
  "read_word n = and_then (read_exact n) (\<lambda>bs. ret (of_nat (le_value bs)))"

definition read_u8 :: "(reader, gguf_error, u8) act" where "read_u8 = read_word 1"
definition read_u16 :: "(reader, gguf_error, u16) act" where "read_u16 = read_word 2"
definition read_u32 :: "(reader, gguf_error, u32) act" where "read_u32 = read_word 4"
definition read_u64 :: "(reader, gguf_error, u64) act" where "read_u64 = read_word 8"

text \<open>\<open>std::str::from_utf8\<close>: the well-formed byte sequences of the Unicode standard.\<close>

definition in_range :: "nat \<Rightarrow> nat \<Rightarrow> u8 \<Rightarrow> bool" where
  "in_range lo hi b = (lo \<le> unat b \<and> unat b \<le> hi)"

abbreviation (input) cont :: "u8 \<Rightarrow> bool" where
  "cont \<equiv> in_range 0x80 0xBF"

fun utf8_step :: "u8 list \<Rightarrow> u8 list option" where
  "utf8_step [] = None"
| "utf8_step (b # bs) =
     (if in_range 0 0x7F b then Some bs
      else if in_range 0xC2 0xDF b then (case bs of c # r \<Rightarrow> if cont c then Some r else None | _ \<Rightarrow> None)
      else if in_range 0xE0 0xEF b then
        (case bs of c # d # r \<Rightarrow>
           if in_range (if b = 0xE0 then 0xA0 else 0x80) (if b = 0xED then 0x9F else 0xBF) c \<and> cont d then Some r else None
         | _ \<Rightarrow> None)
      else if in_range 0xF0 0xF4 b then
        (case bs of c # d # e # r \<Rightarrow>
           if in_range (if b = 0xF0 then 0x90 else 0x80) (if b = 0xF4 then 0x8F else 0xBF) c \<and> cont d \<and> cont e
           then Some r else None
         | _ \<Rightarrow> None)
      else None)"

lemma utf8_step_shorter [termination_simp]: "utf8_step bs = Some r \<Longrightarrow> length r < length bs"
  by (cases bs) (auto split: if_splits list.splits)

function utf8_valid :: "u8 list \<Rightarrow> bool" where
  "utf8_valid bs = (if bs = [] then True else case utf8_step bs of None \<Rightarrow> False | Some r \<Rightarrow> utf8_valid r)"
  by pat_completeness auto
termination
  by (relation "measure length") (simp_all add: utf8_step_shorter)

declare utf8_valid.simps [simp del]

definition read_string :: "(reader, gguf_error, rust_string) act" where
  "read_string =
     and_then read_u64 (\<lambda>len.
       and_then (read_exact (unat len)) (\<lambda>buf.
         if utf8_valid buf then ret buf else throw (Malformed (InvalidUtf8 buf))))"

text \<open>The values without nested ones: elements of arrays, and the same cases of \<open>read_value\<close>.\<close>

definition read_array_elem :: "u32 \<Rightarrow> (reader, gguf_error, gguf_value) act" where
  "read_array_elem type_id =
     (if type_id = 0 then and_then read_u8 (\<lambda>v. ret (V_U8 v))
      else if type_id = 1 then and_then read_u8 (\<lambda>v. ret (V_I8 v))
      else if type_id = 2 then and_then read_u16 (\<lambda>v. ret (V_U16 v))
      else if type_id = 3 then and_then read_u16 (\<lambda>v. ret (V_I16 v))
      else if type_id = 4 then and_then read_u32 (\<lambda>v. ret (V_U32 v))
      else if type_id = 5 then and_then read_u32 (\<lambda>v. ret (V_I32 v))
      else if type_id = 6 then and_then read_u32 (\<lambda>v. ret (V_F32 v))
      else if type_id = 7 then and_then read_u8 (\<lambda>v. ret (V_Bool (v \<noteq> 0)))
      else if type_id = 8 then and_then read_string (\<lambda>v. ret (V_String v))
      else if type_id = 10 then and_then read_u64 (\<lambda>v. ret (V_U64 v))
      else if type_id = 11 then and_then read_u64 (\<lambda>v. ret (V_I64 v))
      else if type_id = 12 then and_then read_u64 (\<lambda>v. ret (V_F64 v))
      else throw (UnknownType type_id))"

text \<open>A counted loop that pushes what each turn reads.\<close>

fun read_many :: "nat \<Rightarrow> (reader, gguf_error, 'a) act \<Rightarrow> (reader, gguf_error, 'a list) act" where
  "read_many 0 m = ret []"
| "read_many (Suc n) m = and_then m (\<lambda>x. and_then (read_many n m) (\<lambda>xs. ret (x # xs)))"

definition read_value :: "(reader, gguf_error, gguf_value) act" where
  "read_value =
     and_then read_u32 (\<lambda>type_id.
       if type_id = 9
       then and_then read_u32 (\<lambda>elem_type.
              and_then read_u64 (\<lambda>n.
                and_then (read_many (unat n) (read_array_elem elem_type)) (\<lambda>vs. ret (V_Array vs))))
       else read_array_elem type_id)"

section \<open>Files\<close>

text \<open>\<open>GGUF_MAGIC\<close> and \<open>DEFAULT_ALIGNMENT\<close>.\<close>

definition gguf_magic :: u32 where "gguf_magic = 0x46474755"
definition default_alignment :: nat where "default_alignment = 32"

text \<open>An ASCII literal as bytes.\<close>

definition ascii :: "string \<Rightarrow> rust_string" where
  "ascii s = map of_char s"

definition read_entry :: "(reader, gguf_error, rust_string \<times> gguf_value) act" where
  "read_entry = and_then read_string (\<lambda>key. and_then read_value (\<lambda>v. ret (key, v)))"

definition lift_outcome :: "('e, 'a) outcome \<Rightarrow> ('s, 'e, 'a) act" where
  "lift_outcome r s = (r, s)"

definition read_tensor_info :: "(reader, gguf_error, tensor_info) act" where
  "read_tensor_info =
     and_then read_string (\<lambda>nm.
       and_then read_u32 (\<lambda>n_dims.
         if 4 < n_dims then throw (Malformed (TooManyDims nm n_dims))
         else
           and_then (read_many (unat n_dims) read_u64) (\<lambda>shape.
             and_then read_u32 (\<lambda>type_id.
               case ggml_from_u32 type_id of
                 None \<Rightarrow> throw (UnknownType type_id)
               | Some dtype \<Rightarrow>
                   and_then read_u64 (\<lambda>offset.
                     and_then (lift_outcome (checked_product shape 1)) (\<lambda>n.
                       and_then (lift_outcome (ggml_nbytes dtype n)) (\<lambda>nbytes.
                         ret \<lparr>ti_name = nm, ti_shape = shape, ti_dtype = dtype, ti_offset = offset,
                              ti_nbytes = nbytes\<rparr>)))))))"

definition alignment_of :: "(rust_string, gguf_value) hash_map \<Rightarrow> nat" where
  "alignment_of meta =
     (case map_of meta (ascii ''general.alignment'') of
        None \<Rightarrow> default_alignment
      | Some v \<Rightarrow> (case as_u64 v of None \<Rightarrow> default_alignment | Some a \<Rightarrow> unat a))"

definition align_up :: "nat \<Rightarrow> nat \<Rightarrow> ('e, nat) outcome" where
  "align_up pos a = (if a = 0 then Panic else checked64 (div_ceil pos a * a))"

definition gguf_read :: "(reader, gguf_error, gguf_file) act" where
  "gguf_read =
     and_then read_u32 (\<lambda>magic.
       if magic \<noteq> gguf_magic then throw (BadMagic magic)
       else
         and_then read_u32 (\<lambda>ver.
           if ver = 0 \<or> 3 < ver then throw (UnsupportedVersion ver)
           else
             and_then read_u64 (\<lambda>tensor_count.
               and_then read_u64 (\<lambda>kv_count.
                 and_then (read_many (unat kv_count) read_entry) (\<lambda>entries.
                   and_then (read_many (unat tensor_count) read_tensor_info) (\<lambda>infos.
                     let meta = foldl (\<lambda>m (k, v). hm_insert k v m) [] entries;
                         tens = foldl (\<lambda>m t. hm_insert (ti_name t) t m) [] infos
                     in and_then (\<lambda>r. (align_up (rd_pos r) (alignment_of meta), r)) (\<lambda>offset.
                          ret \<lparr>version = ver, metadata = meta, tensors = tens, data_offset = offset\<rparr>)))))))"

definition seek :: "nat \<Rightarrow> (reader, gguf_error, unit) act" where
  "seek p r = (Ok (), r\<lparr>rd_pos := p\<rparr>)"

definition read_tensor :: "gguf_file \<Rightarrow> rust_string \<Rightarrow> (reader, gguf_error, u8 list) act" where
  "read_tensor f nm =
     (case map_of (tensors f) nm of
        None \<Rightarrow> throw (Malformed (TensorNotFound nm))
      | Some info \<Rightarrow>
          and_then (lift_outcome (checked64 (data_offset f + unat (ti_offset info)))) (\<lambda>p.
            and_then (seek p) (\<lambda>_. read_exact (ti_nbytes info))))"

fun tensor_ends :: "tensor_info list \<Rightarrow> (gguf_error, nat list) outcome" where
  "tensor_ends [] = Ok []"
| "tensor_ends (t # ts) =
     bind_outcome (checked64 (unat (ti_offset t) + ti_nbytes t)) (\<lambda>e.
       bind_outcome (tensor_ends ts) (\<lambda>es. Ok (e # es)))"

definition read_all_tensors :: "gguf_file \<Rightarrow> (reader, gguf_error, u8 list) act" where
  "read_all_tensors f =
     and_then (lift_outcome (tensor_ends (map snd (tensors f)))) (\<lambda>ends.
       and_then (seek (data_offset f)) (\<lambda>_. read_exact (foldr max ends 0)))"

end
