(* ===== verification/GgufProps.thy ===== *)
theory GgufProps
  imports Gguf
begin

text \<open>
  Correctness of the GGUF reader. \<open>parses m bs v\<close> says that reader \<open>m\<close>, standing before the bytes \<open>bs\<close> in any
  file, consumes exactly them and returns \<open>v\<close>; the rules of the collection \<open>parse_rules\<close> compose such
  facts the way the readers are composed. The specification is an encoder for files.
\<close>

named_theorems parse_rules

definition parses :: "(reader, gguf_error, 'a) act \<Rightarrow> u8 list \<Rightarrow> 'a \<Rightarrow> bool" where
  "parses m bs v \<longleftrightarrow>
     (\<forall>pre post. m \<lparr>rd_data = pre @ bs @ post, rd_pos = length pre\<rparr> =
        (Ok v, \<lparr>rd_data = pre @ bs @ post, rd_pos = length pre + length bs\<rparr>))"

lemma parses_ret [parse_rules]: "parses (ret v) [] v"
  by (simp add: parses_def ret_def)

lemma parses_and_then [parse_rules]:
  assumes "parses m bs a" and "parses (f a) cs v"
  shows "parses (and_then m f) (bs @ cs) v"
  unfolding parses_def
proof (intro allI)
  fix pre post
  have "m \<lparr>rd_data = pre @ bs @ (cs @ post), rd_pos = length pre\<rparr> =
      (Ok a, \<lparr>rd_data = pre @ bs @ (cs @ post), rd_pos = length pre + length bs\<rparr>)"
    using assms(1) unfolding parses_def by blast
  moreover have "f a \<lparr>rd_data = (pre @ bs) @ cs @ post, rd_pos = length (pre @ bs)\<rparr> =
      (Ok v, \<lparr>rd_data = (pre @ bs) @ cs @ post, rd_pos = length (pre @ bs) + length cs\<rparr>)"
    using assms(2) unfolding parses_def by blast
  ultimately show "and_then m f \<lparr>rd_data = pre @ (bs @ cs) @ post, rd_pos = length pre\<rparr> =
      (Ok v, \<lparr>rd_data = pre @ (bs @ cs) @ post, rd_pos = length pre + length (bs @ cs)\<rparr>)"
    by (simp add: and_then_def add.assoc)
qed

lemma parses_map:
  "parses m bs a \<Longrightarrow> v = g a \<Longrightarrow> parses (and_then m (\<lambda>x. ret (g x))) bs v"
  using parses_and_then [of m bs a "\<lambda>x. ret (g x)" "[]" v] by (simp add: parses_ret)

lemma parses_exact: "length bs = n \<Longrightarrow> parses (read_exact n) bs bs"
  by (auto simp: parses_def read_exact_def)

lemma parses_lift: "r = Ok v \<Longrightarrow> parses (lift_outcome r) [] v"
  by (simp add: parses_def lift_outcome_def)

lemma parses_if_True: "b \<Longrightarrow> parses m bs v \<Longrightarrow> parses (if b then m else m') bs v"
  by simp

lemma parses_if_False: "\<not> b \<Longrightarrow> parses m' bs v \<Longrightarrow> parses (if b then m else m') bs v"
  by simp

section \<open>Numbers and strings\<close>

definition enc :: "nat \<Rightarrow> 'a::len word \<Rightarrow> u8 list" where
  "enc n w = le_bytes n (unat w)"

lemma enc_length [simp]: "length (enc n w) = n"
  by (simp add: enc_def)

lemma parses_word:
  assumes "LENGTH('a) = 8 * n"
  shows "parses (read_word n) (enc n (w :: 'a::len word)) w"
proof -
  have "unat w < 2 ^ LENGTH('a)" by (rule unsigned_less)
  moreover have "(256::nat) ^ n = 2 ^ LENGTH('a)"
    unfolding assms by (simp add: power_mult)
  ultimately have "of_nat (le_value (enc n w)) = w"
    by (simp add: enc_def)
  then show ?thesis
    unfolding read_word_def by (intro parses_map [OF parses_exact]) simp_all
qed

lemma parses_words [parse_rules]:
  "parses read_u8 (enc 1 w8) w8" "parses read_u16 (enc 2 w16) w16"
  "parses read_u32 (enc 4 w32) w32" "parses read_u64 (enc 8 w64) w64"
  by (simp_all add: read_u8_def read_u16_def read_u32_def read_u64_def parses_word)

text \<open>A number followed by the rest of a reader.\<close>

lemma parses_then [parse_rules]:
  "parses (f8 w8) cs v \<Longrightarrow> parses (and_then read_u8 f8) (enc 1 w8 @ cs) v"
  "parses (f16 w16) cs v \<Longrightarrow> parses (and_then read_u16 f16) (enc 2 w16 @ cs) v"
  "parses (f32 w32) cs v \<Longrightarrow> parses (and_then read_u32 f32) (enc 4 w32 @ cs) v"
  "parses (f64 w64) cs v \<Longrightarrow> parses (and_then read_u64 f64) (enc 8 w64 @ cs) v"
  by (rule parses_and_then [OF parses_words(1)] parses_and_then [OF parses_words(2)]
      parses_and_then [OF parses_words(3)] parses_and_then [OF parses_words(4)], assumption)+

definition enc_len :: "nat \<Rightarrow> u8 list" where
  "enc_len n = enc 8 (of_nat n :: u64)"

definition enc_string :: "rust_string \<Rightarrow> u8 list" where
  "enc_string s = enc_len (length s) @ s"

definition string_ok :: "rust_string \<Rightarrow> bool" where
  "string_ok s \<longleftrightarrow> utf8_valid s \<and> length s < 2 ^ 64"

lemma unat_len: "n < 2 ^ 64 \<Longrightarrow> unat (of_nat n :: u64) = n"
  by (rule unat_of_nat_small) simp

lemma parses_string:
  assumes "string_ok s"
  shows "parses read_string (enc_string s) s"
proof -
  have "parses (and_then (read_exact (unat (of_nat (length s) :: u64)))
      (\<lambda>buf. if utf8_valid buf then ret buf else throw (Malformed (InvalidUtf8 buf)))) (s @ []) s"
    by (rule parses_and_then [OF parses_exact parses_if_True [OF _ parses_ret]])
      (use assms in \<open>simp_all add: string_ok_def unat_len\<close>)
  then show ?thesis
    unfolding read_string_def enc_string_def enc_len_def
    using parses_and_then [OF parses_words(4)] by force
qed

lemma parses_many:
  assumes "\<forall>x \<in> set xs. parses m (e x) (g x)"
  shows "parses (read_many (length xs) m) (concat (map e xs)) (map g xs)"
  using assms
proof (induction xs)
  case Nil
  then show ?case by (simp add: parses_ret)
next
  case (Cons x xs)
  then have "parses (and_then (read_many (length xs) m) (\<lambda>xs. ret (g x # xs))) (concat (map e xs)) (g x # map g xs)"
    by (intro parses_map) auto
  with Cons.prems show ?case
    using parses_and_then [of m "e x" "g x" "\<lambda>y. and_then (read_many (length xs) m) (\<lambda>ys. ret (y # ys))"] by simp
qed

section \<open>Values\<close>

text \<open>The tag of a value that an array may hold, and its bytes without the tag.\<close>

fun tag_of :: "gguf_value \<Rightarrow> nat" where
  "tag_of (V_U8 _) = 0" | "tag_of (V_I8 _) = 1" | "tag_of (V_U16 _) = 2" | "tag_of (V_I16 _) = 3"
| "tag_of (V_U32 _) = 4" | "tag_of (V_I32 _) = 5" | "tag_of (V_F32 _) = 6" | "tag_of (V_Bool _) = 7"
| "tag_of (V_String _) = 8" | "tag_of (V_Array _) = 9" | "tag_of (V_U64 _) = 10" | "tag_of (V_I64 _) = 11"
| "tag_of (V_F64 _) = 12"

fun enc_elem :: "gguf_value \<Rightarrow> u8 list" where
  "enc_elem (V_U8 v) = enc 1 v" | "enc_elem (V_I8 v) = enc 1 v"
| "enc_elem (V_U16 v) = enc 2 v" | "enc_elem (V_I16 v) = enc 2 v"
| "enc_elem (V_U32 v) = enc 4 v" | "enc_elem (V_I32 v) = enc 4 v" | "enc_elem (V_F32 v) = enc 4 v"
| "enc_elem (V_Bool v) = enc 1 (if v then 1 else 0 :: u8)"
| "enc_elem (V_String s) = enc_string s"
| "enc_elem (V_U64 v) = enc 8 v" | "enc_elem (V_I64 v) = enc 8 v" | "enc_elem (V_F64 v) = enc 8 v"
| "enc_elem (V_Array vs) = []"

fun elem_ok :: "gguf_value \<Rightarrow> bool" where
  "elem_ok (V_String s) = string_ok s" | "elem_ok (V_Array vs) = False" | "elem_ok _ = True"

text \<open>An array has elements of one type and is not nested; an empty one is written with the tag of bytes.\<close>

fun value_ok :: "gguf_value \<Rightarrow> bool" where
  "value_ok (V_Array vs) \<longleftrightarrow>
     length vs < 2 ^ 64 \<and> (\<forall>v \<in> set vs. elem_ok v \<and> tag_of v = tag_of (hd vs))"
| "value_ok v = elem_ok v"

fun enc_value :: "gguf_value \<Rightarrow> u8 list" where
  "enc_value (V_Array vs) =
     enc 4 (9 :: u32) @ enc 4 (of_nat (case vs of [] \<Rightarrow> 0 | v # _ \<Rightarrow> tag_of v) :: u32) @ enc_len (length vs)
     @ concat (map enc_elem vs)"
| "enc_value v = enc 4 (of_nat (tag_of v) :: u32) @ enc_elem v"

lemma parses_elem:
  assumes "elem_ok v"
  shows "parses (read_array_elem (of_nat (tag_of v))) (enc_elem v) v"
  using assms
  by (cases v)
    (auto simp: read_array_elem_def simp del: One_nat_def intro!: parses_map [OF parses_words(1)] parses_map [OF parses_words(2)]
      parses_map [OF parses_words(3)] parses_map [OF parses_words(4)] parses_map [OF parses_string])

lemma tag_not_array: "elem_ok v \<Longrightarrow> (of_nat (tag_of v) :: u32) \<noteq> 9"
  by (cases v) simp_all

lemma parses_value:
  assumes "value_ok v"
  shows "parses read_value (enc_value v) v"
proof (cases "\<exists>vs. v = V_Array vs")
  case True
  then obtain vs where v: "v = V_Array vs" by blast
  let ?t = "of_nat (case vs of [] \<Rightarrow> 0 | v # _ \<Rightarrow> tag_of v) :: u32"
  have elems: "\<forall>x \<in> set vs. parses (read_array_elem ?t) (enc_elem x) x"
  proof
    fix x assume x: "x \<in> set vs"
    then have "elem_ok x" "tag_of x = tag_of (hd vs)" using assms v by auto
    moreover have "(case vs of [] \<Rightarrow> 0 | v # _ \<Rightarrow> tag_of v) = tag_of (hd vs)" using x by (cases vs) auto
    ultimately show "parses (read_array_elem ?t) (enc_elem x) x" using parses_elem [of x] by simp
  qed
  have "parses (read_many (unat (of_nat (length vs) :: u64)) (read_array_elem ?t)) (concat (map enc_elem vs)) vs"
    using parses_many [of vs "read_array_elem ?t" enc_elem "\<lambda>x. x"] elems assms v by (simp add: unat_len)
  then have "parses (and_then (read_many (unat (of_nat (length vs) :: u64)) (read_array_elem ?t)) (\<lambda>vs. ret (V_Array vs)))
      (concat (map enc_elem vs)) v"
    by (rule parses_map) (simp add: v)
  then show ?thesis
    unfolding read_value_def v enc_value.simps enc_len_def
    by (intro parses_then parses_if_True refl)
next
  case False
  then have ok: "elem_ok v" and e: "enc_value v = enc 4 (of_nat (tag_of v) :: u32) @ enc_elem v"
    using assms by (cases v; simp)+
  show ?thesis
    unfolding read_value_def e
    by (intro parses_then parses_if_False parses_elem [OF ok] tag_not_array [OF ok])
qed


section \<open>Tensor directory\<close>

definition type_id :: "ggml_type \<Rightarrow> nat" where
  "type_id t = (case filter (\<lambda>(_, t'). t' = t) ggml_table of (i, _) # _ \<Rightarrow> i)"

definition enc_tensor :: "tensor_info \<Rightarrow> u8 list" where
  "enc_tensor t =
     enc_string (ti_name t) @ enc 4 (of_nat (length (ti_shape t)) :: u32) @ concat (map (enc 8) (ti_shape t))
     @ enc 4 (of_nat (type_id (ti_dtype t)) :: u32) @ enc 8 (ti_offset t)"

text \<open>A tensor description that fits the format: at most four dimensions, and the recorded size is the one
  its shape and type determine.\<close>

definition tensor_ok :: "tensor_info \<Rightarrow> bool" where
  "tensor_ok t \<longleftrightarrow>
     string_ok (ti_name t) \<and> length (ti_shape t) \<le> 4
     \<and> (\<exists>n. (checked_product (ti_shape t) 1 :: (gguf_error, _) outcome) = Ok n
           \<and> (ggml_nbytes (ti_dtype t) n :: (gguf_error, _) outcome) = Ok (ti_nbytes t))"

lemma ggml_type_id: "ggml_from_u32 (of_nat (type_id t)) = Some t"
  by (cases t) (simp_all add: type_id_def ggml_table_def ggml_from_u32_def)

lemma parses_tensor:
  assumes "tensor_ok t"
  shows "parses read_tensor_info (enc_tensor t) t"
proof -
  obtain n where n: "checked_product (ti_shape t) 1 = (Ok n :: (gguf_error, _) outcome)"
    "ggml_nbytes (ti_dtype t) n = (Ok (ti_nbytes t) :: (gguf_error, _) outcome)"
    and nm: "string_ok (ti_name t)" and dims: "length (ti_shape t) \<le> 4"
    using assms by (auto simp: tensor_ok_def)
  have len: "unat (of_nat (length (ti_shape t)) :: u32) = length (ti_shape t)"
    using dims by (intro unat_of_nat_small) simp
  have le: "\<not> (4 :: u32) < of_nat (length (ti_shape t))"
    using dims len by (simp add: word_less_nat_alt)
  have shape: "parses (read_many (unat (of_nat (length (ti_shape t)) :: u32)) read_u64)
      (concat (map (enc 8) (ti_shape t))) (ti_shape t)"
    using parses_many [of "ti_shape t" read_u64 "enc 8" "\<lambda>x. x"] parses_words(4) by (simp add: len)
  let ?rest = "\<lambda>offset. and_then (lift_outcome (checked_product (ti_shape t) 1)) (\<lambda>n.
      and_then (lift_outcome (ggml_nbytes (ti_dtype t) n)) (\<lambda>nbytes.
        ret \<lparr>ti_name = ti_name t, ti_shape = ti_shape t, ti_dtype = ti_dtype t, ti_offset = offset, ti_nbytes = nbytes\<rparr>))"
  have "parses (?rest (ti_offset t)) [] t"
    by (simp add: parses_def and_then_def lift_outcome_def n ret_def del: One_nat_def)
  then have "parses (and_then read_u64 ?rest) (enc 8 (ti_offset t)) t"
    using parses_then(4) [of ?rest "ti_offset t" "[]"] by simp
  then have tail: "parses (and_then read_u32 (\<lambda>i. case ggml_from_u32 i of None \<Rightarrow> throw (UnknownType i)
      | Some dtype \<Rightarrow> and_then read_u64 (\<lambda>offset. and_then (lift_outcome (checked_product (ti_shape t) 1)) (\<lambda>n.
          and_then (lift_outcome (ggml_nbytes dtype n)) (\<lambda>nbytes.
            ret \<lparr>ti_name = ti_name t, ti_shape = ti_shape t, ti_dtype = dtype, ti_offset = offset, ti_nbytes = nbytes\<rparr>)))))
      (enc 4 (of_nat (type_id (ti_dtype t)) :: u32) @ enc 8 (ti_offset t)) t"
    by (intro parses_then) (simp add: ggml_type_id)
  show ?thesis
    unfolding read_tensor_info_def enc_tensor_def
    by (intro parses_and_then [OF parses_string [OF nm]] parses_then(3) parses_if_False [OF le]
        parses_and_then [OF shape] tail)
qed

section \<open>Whole files\<close>

record gguf_image =
  im_version :: u32
  im_entries :: "(rust_string \<times> gguf_value) list"
  im_tensors :: "tensor_info list"

definition enc_image :: "gguf_image \<Rightarrow> u8 list" where
  "enc_image f =
     enc 4 gguf_magic @ enc 4 (im_version f) @ enc_len (length (im_tensors f)) @ enc_len (length (im_entries f))
     @ concat (map (\<lambda>(k, v). enc_string k @ enc_value v) (im_entries f))
     @ concat (map enc_tensor (im_tensors f))"

definition image_ok :: "gguf_image \<Rightarrow> bool" where
  "image_ok f \<longleftrightarrow>
     im_version f \<in> {1, 2, 3} \<and> length (im_entries f) < 2 ^ 64 \<and> length (im_tensors f) < 2 ^ 64
     \<and> (\<forall>(k, v) \<in> set (im_entries f). string_ok k \<and> value_ok v)
     \<and> (\<forall>t \<in> set (im_tensors f). tensor_ok t)"

definition meta_of :: "gguf_image \<Rightarrow> (rust_string, gguf_value) hash_map" where
  "meta_of f = foldl (\<lambda>m (k, v). hm_insert k v m) [] (im_entries f)"

definition tensors_of :: "gguf_image \<Rightarrow> (rust_string, tensor_info) hash_map" where
  "tensors_of f = foldl (\<lambda>m t. hm_insert (ti_name t) t m) [] (im_tensors f)"

lemma parses_entries:
  assumes "\<forall>(k, v) \<in> set es. string_ok k \<and> value_ok v"
  shows "parses (read_many (length es) read_entry) (concat (map (\<lambda>(k, v). enc_string k @ enc_value v) es)) es"
proof -
  have "parses read_entry (enc_string k @ enc_value v) (k, v)" if "string_ok k" "value_ok v" for k v
    unfolding read_entry_def
    by (intro parses_and_then [OF parses_string [OF that(1)]] parses_map [OF parses_value [OF that(2)]]) simp
  then have "\<forall>x \<in> set es. parses read_entry ((\<lambda>(k, v). enc_string k @ enc_value v) x) x"
    using assms by auto
  from parses_many [where g = "\<lambda>x. x", OF this] show ?thesis by simp
qed

lemma hm_get_insert [simp]: "map_of (hm_insert k v m) k' = (if k' = k then Some v else map_of m k')"
  by (induction m) (auto simp: hm_insert_def)

text \<open>The last of several entries with one key is the one that stays.\<close>

lemma hm_foldl_lookup:
  "map_of (foldl (\<lambda>m t. hm_insert (key t) (val t) m) m0 ts) k =
     (case find (\<lambda>t. key t = k) (rev ts) of Some t \<Rightarrow> Some (val t) | None \<Rightarrow> map_of m0 k)"
proof (induction ts arbitrary: m0 rule: rev_induct)
  case (snoc t ts)
  then show ?case by auto
qed simp

lemma meta_of_lookup: "map_of (meta_of f) k = map_option snd (find (\<lambda>e. fst e = k) (rev (im_entries f)))"
  unfolding meta_of_def using hm_foldl_lookup [of fst snd "[]" "im_entries f" k]
  by (simp add: split_beta' split: option.splits)

lemma tensors_of_lookup: "map_of (tensors_of f) nm = find (\<lambda>t. ti_name t = nm) (rev (im_tensors f))"
  unfolding tensors_of_def using hm_foldl_lookup [of ti_name "\<lambda>t. t" "[]" "im_tensors f" nm]
  by (simp split: option.splits)

text \<open>A reader whose result also depends on the position it ends at.\<close>

definition parses_from :: "(reader, gguf_error, 'a) act \<Rightarrow> u8 list \<Rightarrow> (nat \<Rightarrow> (gguf_error, 'a) outcome) \<Rightarrow> bool" where
  "parses_from m bs g \<longleftrightarrow>
     (\<forall>pre post. m \<lparr>rd_data = pre @ bs @ post, rd_pos = length pre\<rparr> =
        (g (length pre + length bs), \<lparr>rd_data = pre @ bs @ post, rd_pos = length pre + length bs\<rparr>))"

lemma parses_from_and_then:
  assumes "parses m bs a" and "parses_from (f a) cs g"
  shows "parses_from (and_then m f) (bs @ cs) g"
  unfolding parses_from_def
proof (intro allI)
  fix pre post
  have "m \<lparr>rd_data = pre @ bs @ (cs @ post), rd_pos = length pre\<rparr> =
      (Ok a, \<lparr>rd_data = pre @ bs @ (cs @ post), rd_pos = length pre + length bs\<rparr>)"
    using assms(1) unfolding parses_def by blast
  moreover have "f a \<lparr>rd_data = (pre @ bs) @ cs @ post, rd_pos = length (pre @ bs)\<rparr> =
      (g (length (pre @ bs) + length cs), \<lparr>rd_data = (pre @ bs) @ cs @ post, rd_pos = length (pre @ bs) + length cs\<rparr>)"
    using assms(2) unfolding parses_from_def by blast
  ultimately show "and_then m f \<lparr>rd_data = pre @ (bs @ cs) @ post, rd_pos = length pre\<rparr> =
      (g (length pre + length (bs @ cs)), \<lparr>rd_data = pre @ (bs @ cs) @ post, rd_pos = length pre + length (bs @ cs)\<rparr>)"
    by (simp add: and_then_def add.assoc)
qed

lemma parses_from_if_False: "\<not> b \<Longrightarrow> parses_from m' bs g \<Longrightarrow> parses_from (if b then m else m') bs g"
  by simp

lemma gguf_read_image:
  assumes ok: "image_ok f"
  shows "parses_from gguf_read (enc_image f)
    (\<lambda>pos. bind_outcome (align_up pos (alignment_of (meta_of f))) (\<lambda>offset.
       Ok \<lparr>version = im_version f, metadata = meta_of f, tensors = tensors_of f, data_offset = offset\<rparr>))"
proof -
  have ver: "\<not> (im_version f = 0 \<or> 3 < im_version f)"
    using ok by (auto simp: image_ok_def)
  have entries: "parses (read_many (unat (of_nat (length (im_entries f)) :: u64)) read_entry)
      (concat (map (\<lambda>(k, v). enc_string k @ enc_value v) (im_entries f))) (im_entries f)"
    using parses_entries [of "im_entries f"] ok by (simp add: image_ok_def unat_len)
  have tens: "parses (read_many (unat (of_nat (length (im_tensors f)) :: u64)) read_tensor_info)
      (concat (map enc_tensor (im_tensors f))) (im_tensors f)"
    using parses_many [of "im_tensors f" read_tensor_info enc_tensor "\<lambda>x. x"] ok parses_tensor
    by (simp add: image_ok_def unat_len)
  have fin: "parses_from (and_then (\<lambda>r. (align_up (rd_pos r) (alignment_of (meta_of f)), r)) (\<lambda>offset.
      ret \<lparr>version = im_version f, metadata = meta_of f, tensors = tensors_of f, data_offset = offset\<rparr>)) []
    (\<lambda>pos. bind_outcome (align_up pos (alignment_of (meta_of f))) (\<lambda>offset.
       Ok \<lparr>version = im_version f, metadata = meta_of f, tensors = tensors_of f, data_offset = offset\<rparr>))"
    by (simp add: parses_from_def and_then_def ret_def split: outcome.splits)
  show ?thesis
    unfolding gguf_read_def enc_image_def enc_len_def Let_def meta_of_def [symmetric] tensors_of_def [symmetric]
    by (intro parses_from_and_then [OF parses_words(3)] parses_from_if_False ver
        parses_from_and_then [OF parses_words(4)] parses_from_and_then [OF entries]
        parses_from_and_then [OF tens, where cs = "[]", unfolded append_Nil2])
      (simp_all add: fin [unfolded meta_of_def tensors_of_def] meta_of_def tensors_of_def)
qed

lemma align_up_spec:
  assumes "0 < a" and "pos + a \<le> max64"
  obtains off where "(align_up pos a :: ('e, _) outcome) = Ok off" and "a dvd off" and "pos \<le> off" and "off < pos + a"
proof -
  let ?off = "div_ceil pos a * a"
  have "pos \<le> ?off" "?off < pos + a" using div_ceil_bounds [OF assms(1)] by auto
  with assms show thesis
    by (intro that [of ?off]) (auto simp: align_up_def checked64_def)
qed

section \<open>Properties\<close>

text \<open>C30. Reading undoes writing: a file that starts with the encoding of a well-formed image is read to that
  image, whatever data follow: its version, for every key the last value written under it, for every
  name the last tensor, and a data offset that is the first multiple of the file's alignment after
  the directory.\<close>

theorem gguf_read_encoded:
  assumes "image_ok f" and "0 < alignment_of (meta_of f)" and "length (enc_image f) + alignment_of (meta_of f) \<le> max64"
  shows "\<exists>g. gguf_read \<lparr>rd_data = enc_image f @ rest, rd_pos = 0\<rparr> =
      (Ok g, \<lparr>rd_data = enc_image f @ rest, rd_pos = length (enc_image f)\<rparr>)
     \<and> version g = im_version f
     \<and> (\<forall>k. map_of (metadata g) k = map_option snd (find (\<lambda>e. fst e = k) (rev (im_entries f))))
     \<and> (\<forall>nm. map_of (tensors g) nm = find (\<lambda>t. ti_name t = nm) (rev (im_tensors f)))
     \<and> alignment_of (meta_of f) dvd data_offset g
     \<and> length (enc_image f) \<le> data_offset g \<and> data_offset g < length (enc_image f) + alignment_of (meta_of f)"
proof -
  obtain off where off: "(align_up (length (enc_image f)) (alignment_of (meta_of f)) :: (gguf_error, _) outcome) = Ok off"
    "alignment_of (meta_of f) dvd off" "length (enc_image f) \<le> off" "off < length (enc_image f) + alignment_of (meta_of f)"
    by (rule align_up_spec [OF assms(2,3)])
  note run = gguf_read_image [OF assms(1), unfolded parses_from_def, rule_format, of "[]" rest]
  from run off show ?thesis by (simp add: meta_of_lookup tensors_of_lookup)
qed

lemma utf8_ascii: "\<forall>b \<in> set bs. unat b < 128 \<Longrightarrow> utf8_valid bs"
proof (induction bs)
  case Nil
  show ?case by (subst utf8_valid.simps) simp
next
  case (Cons b bs)
  have "in_range 0 0x7F b" using Cons.prems by (auto simp: in_range_def)
  with Cons show ?case by (subst utf8_valid.simps) simp
qed

definition sample_image :: gguf_image where
  "sample_image =
     \<lparr>im_version = 3, im_entries = [([97], V_U32 7), ([97], V_Array [V_U8 1, V_U8 2])],
      im_tensors = [\<lparr>ti_name = [116], ti_shape = [2, 3], ti_dtype = T_F32, ti_offset = 0, ti_nbytes = 24\<rparr>]\<rparr>"

lemma sample_image_facts:
  "image_ok sample_image" "alignment_of (meta_of sample_image) = 32"
  "length (enc_image sample_image) + 32 \<le> max64"
proof -
  have s: "string_ok [97]" "string_ok [116]"
    by (simp_all add: string_ok_def utf8_ascii)
  have t: "tensor_ok \<lparr>ti_name = [116], ti_shape = [2, 3], ti_dtype = T_F32, ti_offset = 0, ti_nbytes = 24\<rparr>"
    by (simp add: tensor_ok_def s checked64_def ggml_nbytes_def div_ceil_def max64_def)
  show "image_ok sample_image" by (simp add: image_ok_def sample_image_def s t)
  show "alignment_of (meta_of sample_image) = 32"
    by (simp add: alignment_of_def meta_of_lookup sample_image_def ascii_def default_alignment_def)
  show "length (enc_image sample_image) + 32 \<le> max64"
    by (simp add: enc_image_def sample_image_def enc_tensor_def enc_string_def enc_len_def max64_def)
qed

theorem gguf_read_encoded_witness:
  "\<exists>g. gguf_read \<lparr>rd_data = enc_image sample_image @ [0, 0], rd_pos = 0\<rparr> =
      (Ok g, \<lparr>rd_data = enc_image sample_image @ [0, 0], rd_pos = length (enc_image sample_image)\<rparr>)
     \<and> version g = 3 \<and> map_of (metadata g) [97] = Some (V_Array [V_U8 1, V_U8 2])"
  using gguf_read_encoded [of sample_image "[0, 0]"] sample_image_facts
  by (auto simp: sample_image_def)

text \<open>The reader does not accept GGUF files: a file that begins with the four bytes of the word GGUF is
  rejected for its magic number, whatever follows.\<close>

theorem gguf_rejects_real_magic:
  "fst (gguf_read \<lparr>rd_data = ascii ''GGUF'' @ rest, rd_pos = 0\<rparr>) = Err (BadMagic 0x46554747)"
  by (simp add: gguf_read_def read_u32_def read_word_def read_exact_def ascii_def and_then_def ret_def throw_def gguf_magic_def)

lemma read_exact_Ok_iff:
  "read_exact n r = (Ok bs, r') \<longleftrightarrow>
     (n = 0 \<or> rd_pos r + n \<le> length (rd_data r)) \<and> bs = take n (drop (rd_pos r) (rd_data r)) \<and> r' = r\<lparr>rd_pos := rd_pos r + n\<rparr>"
  by (auto simp: read_exact_def)

lemma tensor_ends_mem:
  assumes "tensor_ends ts = Ok es" and "t \<in> set ts"
  shows "unat (ti_offset t) + ti_nbytes t \<in> set es"
  using assms by (induction ts arbitrary: es) (auto simp: checked64_def split: if_splits)

lemma foldr_max_ge: "x \<in> set es \<Longrightarrow> x \<le> foldr max es (0::nat)"
  by (induction es) (auto simp: le_max_iff_disj)

text \<open>Tensor data are consistent: once the block of all tensors can be read, every tensor of the directory
  can be read on its own from the same stream, and its bytes are the slice of the block at its
  offset, as many as its recorded size.\<close>

theorem read_tensor_slice:
  assumes "read_all_tensors f r = (Ok all, r1)" and "map_of (tensors f) nm = Some t"
    and "data_offset f + unat (ti_offset t) \<le> max64"
  shows "\<exists>r2. read_tensor f nm r = (Ok (take (ti_nbytes t) (drop (unat (ti_offset t)) all)), r2)
     \<and> length (take (ti_nbytes t) (drop (unat (ti_offset t)) all)) = ti_nbytes t"
proof -
  let ?o = "unat (ti_offset t)" and ?n = "ti_nbytes t"
  obtain es where es: "tensor_ends (map snd (tensors f)) = Ok es"
    and ex: "read_exact (foldr max es 0) (r\<lparr>rd_pos := data_offset f\<rparr>) = (Ok all, r1)"
    using assms(1) by (auto simp: read_all_tensors_def and_then_Ok_iff lift_outcome_def seek_def)
  let ?m = "foldr max es 0"
  have "t \<in> set (map snd (tensors f))" using assms(2) by (force dest: map_of_SomeD)
  then have m: "?o + ?n \<le> ?m" using tensor_ends_mem [OF es] foldr_max_ge by blast
  have all: "all = take ?m (drop (data_offset f) (rd_data r))"
    and room: "?m = 0 \<or> data_offset f + ?m \<le> length (rd_data r)"
    using ex by (simp_all add: read_exact_Ok_iff)
  have "take ?n (drop ?o all) = take ?n (drop (data_offset f + ?o) (rd_data r))"
    using m unfolding all by (simp add: drop_take min_absorb1 add.commute)
  moreover have "?n = 0 \<or> data_offset f + ?o + ?n \<le> length (rd_data r)"
    using room m by auto
  ultimately have "read_tensor f nm r =
      (Ok (take ?n (drop ?o all)), r\<lparr>rd_pos := data_offset f + ?o + ?n\<rparr>)"
    using assms(2,3) by (simp add: read_tensor_def and_then_def lift_outcome_def checked64_def seek_def read_exact_def)
  moreover have "length (take ?n (drop ?o all)) = ?n"
    using room m unfolding all by auto
  ultimately show ?thesis by blast
qed

definition sample_file :: gguf_file where
  "sample_file =
     \<lparr>version = 3, metadata = [],
      tensors = [([116], \<lparr>ti_name = [116], ti_shape = [1], ti_dtype = T_F16, ti_offset = 1, ti_nbytes = 2\<rparr>)],
      data_offset = 2\<rparr>"

theorem read_tensor_slice_witness:
  "\<exists>r2. read_tensor sample_file [116] \<lparr>rd_data = [9, 9, 1, 2, 3, 4], rd_pos = 0\<rparr> = (Ok [2, 3], r2)"
  using read_tensor_slice [of sample_file "\<lparr>rd_data = [9, 9, 1, 2, 3, 4], rd_pos = 0\<rparr>" "[1, 2, 3]"
      "\<lparr>rd_data = [9, 9, 1, 2, 3, 4], rd_pos = 5\<rparr>" "[116]"]
  by (simp add: sample_file_def read_all_tensors_def checked64_def max64_def and_then_def lift_outcome_def seek_def
      read_exact_def)

text \<open>A file may crash the reader: an alignment of zero in the metadata divides by zero.\<close>

theorem gguf_zero_alignment_panics:
  assumes "image_ok f" and "alignment_of (meta_of f) = 0"
  shows "fst (gguf_read \<lparr>rd_data = enc_image f @ rest, rd_pos = 0\<rparr>) = Panic"
  using gguf_read_image [OF assms(1), unfolded parses_from_def, rule_format, of "[]" rest] assms(2)
  by (simp add: align_up_def)

definition crashing_image :: gguf_image where
  "crashing_image = \<lparr>im_version = 3, im_entries = [(ascii ''general.alignment'', V_U32 0)], im_tensors = []\<rparr>"

theorem gguf_zero_alignment_panics_witness:
  "image_ok crashing_image \<and> alignment_of (meta_of crashing_image) = 0
   \<and> fst (gguf_read \<lparr>rd_data = enc_image crashing_image, rd_pos = 0\<rparr>) = Panic"
proof -
  have ok: "image_ok crashing_image"
    by (simp add: image_ok_def crashing_image_def string_ok_def ascii_def utf8_ascii)
  have al: "alignment_of (meta_of crashing_image) = 0"
    by (simp add: alignment_of_def meta_of_lookup crashing_image_def)
  from gguf_zero_alignment_panics [OF ok al, of "[]"] ok al show ?thesis by simp
qed

end
