(* ===== verification/Tokenizer.thy ===== *)
theory Tokenizer
  imports GgufProps
begin

text \<open>
  The tokenizer (\<open>src/src/tokenizer.rs\<close>): a vocabulary read from a model file, greedy longest-match encoding
  and decoding. A text is its UTF-8 bytes; slicing it anywhere but at a character boundary panics.
  Encoding consumes at least one byte in every turn, so its recursion ends.
\<close>

section \<open>State and operations\<close>

record tokenizer =
  tokens :: "rust_string list"
  token_to_id :: "(rust_string, u32) hash_map"
  chat_template :: "rust_string option"

fun vocab_from :: "nat \<Rightarrow> gguf_value list \<Rightarrow> rust_string list \<times> (rust_string, u32) hash_map
    \<Rightarrow> rust_string list \<times> (rust_string, u32) hash_map" where
  "vocab_from i [] (ts, ids) = (ts, ids)"
| "vocab_from i (v # vs) (ts, ids) =
     (case as_str v of
        Some s \<Rightarrow> vocab_from (i + 1) vs (ts @ [s], hm_insert s (of_nat i) ids)
      | None \<Rightarrow> vocab_from (i + 1) vs (ts, ids))"

definition from_gguf :: "gguf_file \<Rightarrow> tokenizer" where
  "from_gguf file =
     (let (ts, ids) =
            (case Option.bind (map_of (metadata file) (ascii ''tokenizer.ggml.tokens'')) as_array of
               Some arr \<Rightarrow> vocab_from 0 arr ([], [])
             | None \<Rightarrow> ([], []))
      in \<lparr>tokens = ts, token_to_id = ids,
          chat_template = Option.bind (map_of (metadata file) (ascii ''tokenizer.chat_template'')) as_str\<rparr>)"

definition vocab_size :: "tokenizer \<Rightarrow> usize" where
  "vocab_size t = length (tokens t)"

definition id_to_token :: "tokenizer \<Rightarrow> u32 \<Rightarrow> rust_string" where
  "id_to_token t i = (if unat i < length (tokens t) then tokens t ! unat i else ascii ''<unk>'')"

text \<open>\<open>str::is_char_boundary\<close>.\<close>

definition char_boundary :: "rust_string \<Rightarrow> nat \<Rightarrow> bool" where
  "char_boundary s i \<longleftrightarrow> i = 0 \<or> i = length s \<or> i < length s \<and> \<not> in_range 0x80 0xBF (s ! i)"

text \<open>The search for the longest token that the text starts with, from \<open>i\<close> bytes down to one.\<close>

fun longest_match :: "tokenizer \<Rightarrow> rust_string \<Rightarrow> nat \<Rightarrow> ('e, (nat \<times> u32) option) outcome" where
  "longest_match t s 0 = Ok None"
| "longest_match t s (Suc i) =
     (if \<not> char_boundary s (Suc i) then Panic
      else case map_of (token_to_id t) (take (Suc i) s) of
             Some tok \<Rightarrow> Ok (Some (Suc i, tok))
           | None \<Rightarrow> longest_match t s i)"

lemma longest_match_Some:
  "(longest_match t s n :: ('e, _) outcome) = Ok (Some (i, tok)) \<Longrightarrow>
     1 \<le> i \<and> i \<le> n \<and> map_of (token_to_id t) (take i s) = Some tok"
  by (induction t s n rule: longest_match.induct) (auto split: if_splits option.splits)

function encode :: "tokenizer \<Rightarrow> rust_string \<Rightarrow> ('e, u32 list) outcome" where
  "encode t s =
     (if s = [] then Ok []
      else case (longest_match t s (length s) :: ('e, _) outcome) of
             Ok (Some (i, tok)) \<Rightarrow> bind_outcome (encode t (drop i s)) (\<lambda>ids. Ok (tok # ids))
           | Ok None \<Rightarrow> if \<not> char_boundary s 1 then Panic else encode t (drop 1 s)
           | Err e \<Rightarrow> Err e
           | Panic \<Rightarrow> Panic)"
  by pat_completeness auto
termination
proof (relation "measure (\<lambda>(t, s). length s)")
  fix t s a b i tok
  assume "s \<noteq> []" "longest_match t s (length s) = (Ok a :: ('e, _) outcome)" "a = Some b" "(i, tok) = b"
  then show "((t, drop i s), t, s) \<in> measure (\<lambda>(t, s). length s)"
    using longest_match_Some [of t s "length s" i tok, where 'e = 'e] by auto
qed auto

declare encode.simps [simp del]

text \<open>The final \<open>replace\<close> exchanges a space for a space.\<close>

definition decode :: "tokenizer \<Rightarrow> u32 list \<Rightarrow> rust_string" where
  "decode t ids =
     concat (map (\<lambda>i. if unat i < length (tokens t) then tokens t ! unat i else []) ids)"

section \<open>Vocabularies\<close>

text \<open>The two tables agree: an id names the string that is looked up under it.\<close>

definition consistent :: "tokenizer \<Rightarrow> bool" where
  "consistent t \<longleftrightarrow>
     (\<forall>s i. map_of (token_to_id t) s = Some i \<longrightarrow> unat i < length (tokens t) \<and> tokens t ! unat i = s)"

lemma vocab_from_strings:
  "vocab_from (length ts) (map V_String ss) (ts, ids) =
     (ts @ ss, foldl (\<lambda>m (i, s). hm_insert s (of_nat i) m) ids (enumerate (length ts) ss))"
proof (induction ss arbitrary: ts ids)
  case (Cons s ss)
  show ?case
    using Cons [of "ts @ [s]" "hm_insert s (of_nat (length ts)) ids"] by simp
qed simp

lemma hm_zip_lookup:
  assumes "map_of (foldl (\<lambda>m (i, s). hm_insert s (of_nat i) m) ids (enumerate n ss)) s = Some v"
  shows "(\<exists>i < length ss. v = of_nat (n + i) \<and> ss ! i = s) \<or> map_of ids s = Some v"
  using assms
proof (induction ss arbitrary: n ids)
  case (Cons a ss)
  have "map_of (foldl (\<lambda>m (i, s). hm_insert s (of_nat i) m) (hm_insert a (of_nat n) ids) (enumerate (Suc n) ss)) s = Some v"
    using Cons.prems by simp
  from Cons.IH [OF this] show ?case
  proof
    assume "\<exists>i < length ss. v = of_nat (Suc n + i) \<and> ss ! i = s"
    then obtain i where "i < length ss" "v = of_nat (Suc n + i)" "ss ! i = s" by blast
    then show ?thesis by (intro disjI1 exI [of _ "Suc i"]) simp
  next
    assume "map_of (hm_insert a (of_nat n) ids) s = Some v"
    then show ?thesis by (cases "s = a") (auto intro: exI [of _ 0])
  qed
qed simp

lemma from_gguf_consistent:
  assumes "map_of (metadata file) (ascii ''tokenizer.ggml.tokens'') = Some (V_Array (map V_String ss))" and "length ss < 2 ^ 32"
  shows "consistent (from_gguf file) \<and> tokens (from_gguf file) = ss"
proof -
  let ?ids = "foldl (\<lambda>m (i, s). hm_insert s (of_nat i) m) [] (enumerate 0 ss) :: (rust_string, u32) hash_map"
  have v: "vocab_from 0 (map V_String ss) ([], []) = (ss, ?ids)"
    using vocab_from_strings [of "[]" ss "[]"] by simp
  have "unat i < length ss \<and> ss ! unat i = s" if "map_of ?ids s = Some i" for s i
  proof -
    from hm_zip_lookup [OF that] obtain k where "k < length ss" "i = of_nat k" "ss ! k = s" by auto
    moreover have "unat (of_nat k :: u32) = k" using \<open>k < length ss\<close> assms(2) by (intro unat_of_nat_small) simp
    ultimately show ?thesis by simp
  qed
  then show ?thesis using assms(1) v by (simp add: from_gguf_def consistent_def)
qed

section \<open>Encoding\<close>

definition ascii_text :: "rust_string \<Rightarrow> bool" where
  "ascii_text s \<longleftrightarrow> (\<forall>b \<in> set s. unat b < 128)"

lemma ascii_boundary: "ascii_text s \<Longrightarrow> i \<le> length s \<Longrightarrow> char_boundary s i"
proof -
  assume s: "ascii_text s" "i \<le> length s"
  have "unat (s ! i) < 128" if "i < length s" using s(1) that by (simp add: ascii_text_def)
  with s(2) show ?thesis by (cases "i < length s") (auto simp: char_boundary_def in_range_def)
qed

lemma longest_match_ascii:
  assumes "ascii_text s" and "n \<le> length s"
  shows "(\<exists>i tok. (longest_match t s n :: ('e, _) outcome) = Ok (Some (i, tok)) \<and> 1 \<le> i \<and> i \<le> n
            \<and> map_of (token_to_id t) (take i s) = Some tok
            \<and> (\<forall>j. i < j \<and> j \<le> n \<longrightarrow> map_of (token_to_id t) (take j s) = None))
       \<or> (longest_match t s n :: ('e, _) outcome) = Ok None
         \<and> (\<forall>j. 1 \<le> j \<and> j \<le> n \<longrightarrow> map_of (token_to_id t) (take j s) = None)"
  using assms
proof (induction n)
  case (Suc n)
  have b: "char_boundary s (Suc n)" using ascii_boundary Suc.prems by blast
  show ?case
  proof (cases "map_of (token_to_id t) (take (Suc n) s)")
    case None
    have step: "(longest_match t s (Suc n) :: ('e, _) outcome) = longest_match t s n" using b None by simp
    from Suc.IH Suc.prems None show ?thesis unfolding step
      by (auto simp: le_Suc_eq)
  next
    case (Some tok)
    then show ?thesis using b by (intro disjI1 exI [of _ "Suc n"] exI [of _ tok]) auto
  qed
qed simp


lemma ascii_drop: "ascii_text s \<Longrightarrow> ascii_text (drop i s)"
  by (auto simp: ascii_text_def dest: in_set_dropD)

section \<open>Properties\<close>

lemma encode_decode:
  assumes "consistent t" and "ascii_text s" and "\<forall>b \<in> set s. map_of (token_to_id t) [b] \<noteq> None"
  shows "\<exists>ids. (encode t s :: ('e, _) outcome) = Ok ids \<and> decode t ids = s"
  using assms(2,3)
proof (induction s rule: length_induct)
  case (1 s)
  show ?case
  proof (cases s)
    case Nil
    then show ?thesis by (subst encode.simps) (simp add: decode_def)
  next
    case (Cons b s')
    have first: "map_of (token_to_id t) (take 1 s) \<noteq> None" using Cons 1(3) by simp
    from longest_match_ascii [OF 1(2) le_refl, of t, where 'e = 'e] first Cons
    obtain i tok where i: "(longest_match t s (length s) :: ('e, _) outcome) = Ok (Some (i, tok))" "1 \<le> i" "i \<le> length s"
      "map_of (token_to_id t) (take i s) = Some tok"
      by (auto simp: Suc_le_eq)
    have "length (drop i s) < length s" using i Cons by simp
    moreover have "\<forall>b \<in> set (drop i s). map_of (token_to_id t) [b] \<noteq> None"
      using 1(3) by (auto dest: in_set_dropD)
    ultimately obtain ids where ids: "(encode t (drop i s) :: ('e, _) outcome) = Ok ids" "decode t ids = drop i s"
      using 1(1) ascii_drop [OF 1(2)] by blast
    have "(encode t s :: ('e, _) outcome) = Ok (tok # ids)"
      using i ids Cons by (subst encode.simps) simp
    moreover have "unat tok < length (tokens t)" "tokens t ! unat tok = take i s"
      using assms(1) i(4) by (auto simp: consistent_def)
    ultimately show ?thesis using ids by (auto simp: decode_def)
  qed
qed

text \<open>C39. Encoding is undone by decoding: with a vocabulary whose two tables agree and that has a token for
  every single character of an ASCII text, the text is encoded without a panic and decoding the
  result gives the text back.\<close>

theorem tokenizer_roundtrip:
  assumes "map_of (metadata file) (ascii ''tokenizer.ggml.tokens'') = Some (V_Array (map V_String ss))" and "length ss < 2 ^ 32"
    and "ascii_text s" and "\<forall>b \<in> set s. map_of (token_to_id (from_gguf file)) [b] \<noteq> None"
  shows "\<exists>ids. (encode (from_gguf file) s :: ('e, _) outcome) = Ok ids \<and> decode (from_gguf file) ids = s"
  using encode_decode [OF _ assms(3,4)] from_gguf_consistent [OF assms(1,2)] by blast


definition letters_file :: gguf_file where
  "letters_file =
     \<lparr>version = 3,
      metadata = [(ascii ''tokenizer.ggml.tokens'', V_Array (map V_String [ascii ''a'', ascii ''b'', ascii ''ab'']))],
      tensors = [], data_offset = 0\<rparr>"

lemma letters_vocab:
  "from_gguf letters_file =
     \<lparr>tokens = [[97], [98], [97, 98]], token_to_id = [([97, 98], 2), ([98], 1), ([97], 0)], chat_template = None\<rparr>"
  by (simp add: from_gguf_def letters_file_def ascii_def hm_insert_def)

theorem tokenizer_roundtrip_witness:
  "\<exists>ids. (encode (from_gguf letters_file) [97, 98, 97] :: (unit, _) outcome) = Ok ids
     \<and> decode (from_gguf letters_file) ids = [97, 98, 97]"
  by (rule tokenizer_roundtrip [where ss = "[ascii ''a'', ascii ''b'', ascii ''ab'']"])
    (simp_all add: letters_vocab ascii_text_def, simp add: letters_file_def)

text \<open>Encoding is greedy: on ASCII text the first id belongs to the longest prefix of the text that is a
  token, and the rest is encoded the same way; a byte that starts no token is skipped.\<close>

theorem encode_longest:
  assumes "ascii_text s" and "s \<noteq> []"
  shows "(\<exists>i tok. 1 \<le> i \<and> i \<le> length s \<and> map_of (token_to_id t) (take i s) = Some tok
            \<and> (\<forall>j. i < j \<and> j \<le> length s \<longrightarrow> map_of (token_to_id t) (take j s) = None)
            \<and> (encode t s :: ('e, _) outcome) = bind_outcome (encode t (drop i s)) (\<lambda>ids. Ok (tok # ids)))
       \<or> (\<forall>j. 1 \<le> j \<and> j \<le> length s \<longrightarrow> map_of (token_to_id t) (take j s) = None)
         \<and> (encode t s :: ('e, _) outcome) = encode t (tl s)"
proof -
  have b: "char_boundary s 1" using ascii_boundary [OF assms(1), of 1] assms(2) by (cases s) auto
  from longest_match_ascii [OF assms(1) le_refl, of t, where 'e = 'e] show ?thesis
  proof (elim disjE exE conjE)
    fix i tok
    assume m: "(longest_match t s (length s) :: ('e, _) outcome) = Ok (Some (i, tok))" "1 \<le> i" "i \<le> length s"
      "map_of (token_to_id t) (take i s) = Some tok" "\<forall>j. i < j \<and> j \<le> length s \<longrightarrow> map_of (token_to_id t) (take j s) = None"
    then have "(encode t s :: ('e, _) outcome) = bind_outcome (encode t (drop i s)) (\<lambda>ids. Ok (tok # ids))"
      using assms(2) by (subst encode.simps) simp
    with m show ?thesis by blast
  next
    assume m: "(longest_match t s (length s) :: ('e, _) outcome) = Ok None"
      "\<forall>j. 1 \<le> j \<and> j \<le> length s \<longrightarrow> map_of (token_to_id t) (take j s) = None"
    then have "(encode t s :: ('e, _) outcome) = encode t (tl s)"
      using assms(2) b by (subst encode.simps) (simp add: drop_Suc)
    with m show ?thesis by blast
  qed
qed

theorem encode_longest_witness:
  "(\<exists>i tok. 1 \<le> i \<and> i \<le> 2 \<and> map_of (token_to_id (from_gguf letters_file)) (take i [97, 98]) = Some tok)"
  using encode_longest [of "[97, 98]" "from_gguf letters_file", where 'e = unit]
  by (auto simp: letters_vocab ascii_text_def)

definition mixed_file :: gguf_file where
  "mixed_file =
     \<lparr>version = 3, metadata = [(ascii ''tokenizer.ggml.tokens'', V_Array [V_U8 0, V_String [97]])],
      tensors = [], data_offset = 0\<rparr>"

text \<open>Ids and tokens drift apart when the vocabulary of a file holds something that is not a string: the
  ids count every element, the token list only the strings, so decoding the encoding of a token
  loses it.\<close>

theorem vocabulary_misaligned:
  "(encode (from_gguf mixed_file) [97] :: ('e, _) outcome) = Ok [1] \<and> decode (from_gguf mixed_file) [1] = []"
  by (subst encode.simps, simp, subst encode.simps)
    (simp add: from_gguf_def mixed_file_def ascii_def hm_insert_def char_boundary_def decode_def)

text \<open>Encoding panics on text outside ASCII that no token covers: two bytes that form one character are
  sliced in the middle.\<close>

theorem encode_multibyte_panics:
  "utf8_valid [0xC3, 0xA9] \<and> (encode (from_gguf letters_file) [0xC3, 0xA9] :: ('e, _) outcome) = Panic"
proof -
  have "utf8_valid [0xC3, 0xA9]"
    by (subst utf8_valid.simps, simp add: in_range_def, subst utf8_valid.simps) simp
  then show ?thesis
    by (subst encode.simps) (simp add: letters_vocab char_boundary_def in_range_def)
qed

end
