(* ===== verification/Quant.thy ===== *)
theory Quant
  imports Gguf Float32
begin

text \<open>
  Dequantisation of weights (\<open>src/src/quant.rs\<close>): half and brain floats, the block formats Q4_0 and Q4_K, rows
  and matrices. Bit operations are on words; the output slice is a list that an operation returns
  updated. Slicing past the end of the data or of the output panics, as do the two \<open>debug_assert!\<close> of a
  block.
\<close>

unbundle bit_operations_syntax

section \<open>Half-precision floats\<close>

text \<open>\<open>n as f32\<close> for an integer: rounded to nearest.\<close>

definition f32_of_int :: "int \<Rightarrow> f32" where
  "f32_of_int i = f32_round (i < 0) (nat \<bar>i\<bar> * 2 ^ 149) 1"

definition f16_to_f32 :: "u16 \<Rightarrow> f32" where
  "f16_to_f32 bits =
     (let sign = push_bit 31 (ucast (drop_bit 15 bits) :: u32);
          e = drop_bit 10 bits AND 0x1F;
          mant = ucast (bits AND 0x3FF) :: u32
      in if e = 0 then
           (let v = f32_mul (f32_of_int (uint mant)) (f32_div f32_one (f32_of_int (2 ^ 24)))
            in if sign \<noteq> 0 then f32_neg v else v)
         else if e = 31 then sign OR 0x7F800000 OR push_bit 13 mant
         else sign OR push_bit 23 (ucast e + 112) OR push_bit 13 mant)"

definition bf16_to_f32 :: "u16 \<Rightarrow> f32" where
  "bf16_to_f32 bits = push_bit 16 (ucast bits)"

definition le_u16 :: "u8 \<Rightarrow> u8 \<Rightarrow> u16" where
  "le_u16 a b = of_nat (le_value [a, b])"

section \<open>Blocks\<close>

definition slice :: "'a list \<Rightarrow> nat \<Rightarrow> nat \<Rightarrow> ('e, 'a list) outcome" where
  "slice xs lo hi = (if lo \<le> hi \<and> hi \<le> length xs then Ok (take (hi - lo) (drop lo xs)) else Panic)"

definition q4_0_block :: nat where "q4_0_block = 18"
definition q4_0_elems :: nat where "q4_0_elems = 32"
definition q4k_block :: nat where "q4k_block = 144"
definition q4k_elems :: nat where "q4k_elems = 256"

definition low_nibble :: "u8 \<Rightarrow> u8" where "low_nibble b = b AND 0x0F"
definition high_nibble :: "u8 \<Rightarrow> u8" where "high_nibble b = drop_bit 4 b AND 0x0F"

definition dequant_q4_0_block :: "u8 list \<Rightarrow> f32 list \<Rightarrow> ('e, f32 list) outcome" where
  "dequant_q4_0_block block out =
     (if length block < q4_0_block \<or> length out < q4_0_elems then Panic
      else
        let delta = f16_to_f32 (le_u16 (block ! 0) (block ! 1));
            value = (\<lambda>n. f32_mul delta (f32_of_int (uint (n :: u8) - 8)))
        in Ok (concat (map (\<lambda>b. [value (low_nibble b), value (high_nibble b)]) (take 16 (drop 2 block)))
               @ drop q4_0_elems out))"

text \<open>The loop over the blocks of a row: block \<open>b\<close> of the data goes to the tail of the output that starts at
  its first element.\<close>

fun dequant_blocks ::
  "(u8 list \<Rightarrow> f32 list \<Rightarrow> ('e, f32 list) outcome) \<Rightarrow> nat \<Rightarrow> nat \<Rightarrow> u8 list \<Rightarrow> nat list \<Rightarrow> f32 list \<Rightarrow> ('e, f32 list) outcome" where
  "dequant_blocks f bytes elems data [] out = Ok out"
| "dequant_blocks f bytes elems data (b # bs) out =
     bind_outcome (slice data (b * bytes) ((b + 1) * bytes)) (\<lambda>block.
       bind_outcome (f block (drop (b * elems) out)) (\<lambda>tail.
         dequant_blocks f bytes elems data bs (take (b * elems) out @ tail)))"

definition dequant_q4_0_row :: "u8 list \<Rightarrow> f32 list \<Rightarrow> ('e, f32 list) outcome" where
  "dequant_q4_0_row data out =
     dequant_blocks dequant_q4_0_block q4_0_block q4_0_elems data [0..<length out div q4_0_elems] out"

definition unpack_q4k_scales :: "u8 list \<Rightarrow> (u8 \<times> u8) list" where
  "unpack_q4k_scales bs =
     map (\<lambda>i.
        let sc = (if i < 4 then bs ! i AND 0x3F else bs ! (i + 4) AND 0x3F);
            mn = (if i < 4 then bs ! (i + 4) AND 0x3F
                  else drop_bit 4 (bs ! (i + 4)) OR push_bit 4 (drop_bit 4 (bs ! i)));
            sc = (if i < 4 then sc OR push_bit 4 (bs ! (i + 8) AND 0x0F) else sc);
            mn = (if i < 4 then mn OR push_bit 4 (drop_bit 4 (bs ! (i + 8))) else mn)
        in (sc AND 0x3F, mn AND 0x3F)) [0..<8]"

definition dequant_q4k_block :: "u8 list \<Rightarrow> f32 list \<Rightarrow> ('e, f32 list) outcome" where
  "dequant_q4k_block block out =
     (if length block < q4k_block \<or> length out < q4k_elems then Panic
      else
        let d = f16_to_f32 (le_u16 (block ! 0) (block ! 1));
            dmin = f16_to_f32 (le_u16 (block ! 2) (block ! 3));
            scales = unpack_q4k_scales (take 12 (drop 4 block));
            qs = take 128 (drop 16 block)
        in Ok (concat (map (\<lambda>sub.
                 let (sc, mn_sc) = scales ! sub;
                     scale = f32_mul d (f32_of_int (uint sc));
                     mn = f32_mul dmin (f32_of_int (uint mn_sc));
                     value = (\<lambda>n. f32_sub (f32_mul scale (f32_of_int (uint (n :: u8)))) mn)
                 in concat (map (\<lambda>b. [value (low_nibble b), value (high_nibble b)])
                      (take 16 (drop (sub * 16) qs)))) [0..<8])
               @ drop q4k_elems out))"

definition dequant_q4k_row :: "u8 list \<Rightarrow> f32 list \<Rightarrow> ('e, f32 list) outcome" where
  "dequant_q4k_row data out =
     dequant_blocks dequant_q4k_block q4k_block q4k_elems data [0..<length out div q4k_elems] out"

section \<open>Rows and matrices\<close>

text \<open>\<open>chunks_exact(n)\<close>: the tail that does not fill a chunk is left out.\<close>

definition chunks_exact :: "nat \<Rightarrow> 'a list \<Rightarrow> 'a list list" where
  "chunks_exact n xs = map (\<lambda>i. take n (drop (i * n) xs)) [0..<length xs div n]"

text \<open>Writing the first values into the output.\<close>

definition overwrite :: "'a list \<Rightarrow> 'a list \<Rightarrow> 'a list" where
  "overwrite vs out = take (length out) vs @ drop (length vs) out"

definition dequant_f16_row :: "u8 list \<Rightarrow> f32 list \<Rightarrow> f32 list" where
  "dequant_f16_row data out =
     overwrite (map (\<lambda>c. f16_to_f32 (le_u16 (c ! 0) (c ! 1))) (chunks_exact 2 data)) out"

definition dequant_bf16_row :: "u8 list \<Rightarrow> f32 list \<Rightarrow> f32 list" where
  "dequant_bf16_row data out =
     overwrite (map (\<lambda>c. bf16_to_f32 (le_u16 (c ! 0) (c ! 1))) (chunks_exact 2 data)) out"

definition copy_f32_row :: "u8 list \<Rightarrow> f32 list \<Rightarrow> f32 list" where
  "copy_f32_row data out = overwrite (map (\<lambda>c. of_nat (le_value c)) (chunks_exact 4 data)) out"

fun dequant_row :: "ggml_type \<Rightarrow> u8 list \<Rightarrow> f32 list \<Rightarrow> ('e, f32 list) outcome" where
  "dequant_row T_F32 data out = Ok (copy_f32_row data out)"
| "dequant_row T_F16 data out = Ok (dequant_f16_row data out)"
| "dequant_row T_BF16 data out = Ok (dequant_bf16_row data out)"
| "dequant_row T_Q4_0 data out = dequant_q4_0_row data out"
| "dequant_row T_Q4_1 data out = dequant_q4_0_row data out"
| "dequant_row T_Q4K data out = dequant_q4k_row data out"
| "dequant_row _ data out = Ok (replicate (length out) 0)"

fun dequant_rows :: "ggml_type \<Rightarrow> u8 list \<Rightarrow> nat \<Rightarrow> nat \<Rightarrow> nat list \<Rightarrow> ('e, f32 list) outcome" where
  "dequant_rows t data row_bytes cols [] = Ok []"
| "dequant_rows t data row_bytes cols (r # rs) =
     bind_outcome (slice data (r * row_bytes) ((r + 1) * row_bytes)) (\<lambda>src.
       bind_outcome (dequant_row t src (replicate cols 0)) (\<lambda>row.
         bind_outcome (dequant_rows t data row_bytes cols rs) (\<lambda>rest. Ok (row @ rest))))"

definition dequant_matrix :: "ggml_type \<Rightarrow> u8 list \<Rightarrow> nat \<Rightarrow> nat \<Rightarrow> ('e, f32 list) outcome" where
  "dequant_matrix t data rows cols =
     bind_outcome (ggml_nbytes t cols) (\<lambda>row_bytes. dequant_rows t data row_bytes cols [0..<rows])"

end
