(* ===== verification/QuantProps.thy ===== *)
theory QuantProps
  imports Quant
begin

text \<open>
  Correctness of dequantisation: the conversion of half floats is exact, products of small integers and
  scales are exact when they fit, and the shapes of rows and matrices are kept.
\<close>

unbundle bit_operations_syntax

section \<open>Words and sums of bit fields\<close>

lemma nat_or_add: "m < 2 ^ k \<Longrightarrow> (n * 2 ^ k) OR m = n * 2 ^ k + (m::nat)"
proof -
  assume m: "m < 2 ^ k"
  then have t: "take_bit k m = m" by (simp add: take_bit_nat_eq_self)
  have "push_bit k n + take_bit k m = push_bit k n OR take_bit k m"
    by (rule disjunctive_add) (auto simp: bit_push_bit_iff bit_take_bit_iff)
  then show ?thesis using t by (simp add: push_bit_eq_mult)
qed

lemma unat_and_mask: "unat (w AND mask k) = unat (w::'a::len word) mod 2 ^ k"
  by (simp add: unsigned_take_bit_eq flip: take_bit_eq_mask take_bit_eq_mod)

lemma unat_shift: "unat (drop_bit k (w::'a::len word)) = unat w div 2 ^ k"
proof -
  have "take_bit LENGTH('a) (unat w) = unat w" by (simp add: take_bit_nat_eq_self)
  then show ?thesis by (simp only: unsigned_drop_bit_eq) (simp only: drop_bit_eq_div)
qed

lemma f16_sign: "unat (push_bit 31 (ucast (drop_bit 15 (h::u16)) :: u32)) = unat h div 2 ^ 15 * 2 ^ 31"
proof -
  have "unat h < 2 ^ LENGTH(16)" by (rule unsigned_less)
  then have "unat h div 2 ^ 15 < 2" by auto
  moreover have "unat (ucast (drop_bit 15 h) :: u32) = unat h div 2 ^ 15"
    using calculation by (simp only: unsigned_ucast_eq unat_shift) (simp add: take_bit_nat_eq_self)
  ultimately show ?thesis
    by (simp only: unsigned_push_bit_eq) (simp add: push_bit_eq_mult take_bit_nat_eq_self)
qed

lemma f16_exp: "unat (drop_bit 10 (h::u16) AND 0x1F) = unat h div 2 ^ 10 mod 2 ^ 5"
  using unat_and_mask [of "drop_bit 10 h" 5] unat_shift [of 10 h] by (simp only: mask_eq_exp_minus_1) simp

lemma f16_mant: "unat (ucast ((h::u16) AND 0x3FF) :: u32) = unat h mod 2 ^ 10"
proof -
  have "unat (h AND 0x3FF) = unat h mod 2 ^ 10"
    using unat_and_mask [of h 10] by (simp add: mask_eq_exp_minus_1)
  then show ?thesis by (simp only: unsigned_ucast_eq) (simp add: take_bit_nat_eq_self)
qed

text \<open>The fields of a half float.\<close>

definition f16_s :: "u16 \<Rightarrow> bool" where "f16_s h = (2 ^ 15 \<le> unat h)"

definition f16_e :: "u16 \<Rightarrow> nat" where "f16_e h = unat h div 2 ^ 10 mod 2 ^ 5"

definition f16_m :: "u16 \<Rightarrow> nat" where "f16_m h = unat h mod 2 ^ 10"

lemma f16_sign_cases: "unat h div 2 ^ 15 = (if f16_s h then 1 else 0)"
proof -
  have "unat h < 2 ^ LENGTH(16)" by (rule unsigned_less)
  then show ?thesis by (auto simp: f16_s_def)
qed

lemma f32_pack_unat: "m < 2 ^ 31 \<Longrightarrow> unat (f32_pack s m) = (if s then 2 ^ 31 + m else m)"
  unfolding f32_pack_def by (subst unat_of_nat_small) simp_all

lemma pack_or:
  fixes a b :: u32
  assumes "unat a = (if s then 1 else 0) * 2 ^ 31" "unat b = x * 2 ^ 23" "unat c = y * 2 ^ 13" "x < 2 ^ 8" "y < 2 ^ 10"
  shows "a OR b OR c = f32_pack s (x * 2 ^ 23 + y * 2 ^ 13)"
proof (rule iffD2 [OF word_unat_eq_iff])
  have lt: "y * 2 ^ 13 < 2 ^ 23" "x * 2 ^ 23 + y * 2 ^ 13 < 2 ^ 31"
    using assms(4,5) by simp_all
  have "unat (a OR b OR c) = (if s then 1 else 0) * 2 ^ 31 OR (x * 2 ^ 23 OR y * 2 ^ 13)"
    by (simp only: unsigned_or_eq assms)
  also have "\<dots> = (if s then 1 else 0) * 2 ^ 31 + (x * 2 ^ 23 + y * 2 ^ 13)"
    by (simp only: nat_or_add [OF lt(1)] nat_or_add [OF lt(2)])
  also have "\<dots> = unat (f32_pack s (x * 2 ^ 23 + y * 2 ^ 13))"
    by (simp only: f32_pack_unat [OF lt(2)]) simp
  finally show "unat (a OR b OR c) = unat (f32_pack s (x * 2 ^ 23 + y * 2 ^ 13))" .
qed

lemma unat_push: "unat (w::u32) * 2 ^ k < 2 ^ 32 \<Longrightarrow> unat (push_bit k w) = unat w * 2 ^ k"
  by (simp only: unsigned_push_bit_eq) (simp add: push_bit_eq_mult take_bit_nat_eq_self)

lemma f16_normal:
  assumes "0 < f16_e h" "f16_e h < 31"
  shows "f16_to_f32 h = f32_pack (f16_s h) ((f16_e h + 112) * 2 ^ 23 + f16_m h * 2 ^ 13)"
proof -
  let ?e = "drop_bit 10 h AND 0x1F"
  have e: "unat ?e = f16_e h" using f16_exp by (simp add: f16_e_def)
  have m: "unat (ucast (h AND 0x3FF) :: u32) = f16_m h" by (simp only: f16_mant f16_m_def)
  have ml: "f16_m h < 2 ^ 10" by (simp add: f16_m_def)
  have ue: "unat (ucast ?e + 112 :: u32) = f16_e h + 112"
  proof -
    have "unat (ucast ?e :: u32) = f16_e h"
      using e assms by (simp only: unsigned_ucast_eq) (simp add: take_bit_nat_eq_self)
    then show ?thesis using assms by (subst unat_word_ariths) simp
  qed
  have ne: "?e \<noteq> 0" "?e \<noteq> 31" using e assms by auto
  have p23: "unat (push_bit 23 (ucast ?e + 112 :: u32)) = (f16_e h + 112) * 2 ^ 23"
    using ue assms by (subst unat_push) simp_all
  have p13: "unat (push_bit 13 (ucast (h AND 0x3FF) :: u32)) = f16_m h * 2 ^ 13"
    using m ml by (subst unat_push) simp_all
  have sg: "unat (push_bit 31 (ucast (drop_bit 15 h) :: u32)) = (if f16_s h then 1 else 0) * 2 ^ 31"
    by (simp only: f16_sign f16_sign_cases)
  show ?thesis
    unfolding f16_to_f32_def Let_def using ne pack_or [OF sg p23 p13 _ ml] assms by simp
qed
section \<open>Exact products\<close>

lemma round_mag_repr:
  assumes k: "k < 2 ^ 24" and j: "j \<le> 253"
  shows "round_mag (k * 2 ^ j) 1 < 0x7f800000 \<and> mag_units (round_mag (k * 2 ^ j) 1) = k * 2 ^ j"
proof (cases "k = 0")
  case True
  then show ?thesis by (simp add: round_mag_def Let_def bit_len.simps div_half_even_def mag_units_def)
next
  case False
  define n where "n = k * 2 ^ j"
  define l where "l = bit_len n - 24"
  have n0: "0 < n" using False by (simp add: n_def)
  note B = bit_len_bounds [OF n0]
  have "n < 2 ^ (24 + j)" using k by (simp add: n_def power_add)
  with B have "2 ^ (bit_len n - 1) < (2::nat) ^ (24 + j)" by linarith
  then have "bit_len n - 1 < 24 + j" by (simp only: power_strict_increasing_iff one_less_numeral_iff semiring_norm)
  then have lj: "l \<le> j" by (simp add: l_def)
  define q where "q = k * 2 ^ (j - l)"
  have nq: "n = q * 2 ^ l" using lj by (simp add: n_def q_def flip: power_add)
  have q24: "q < 2 ^ 24"
  proof -
    have "(2::nat) ^ bit_len n \<le> 2 ^ (l + 24)" by (rule power_increasing) (simp_all add: l_def)
    with B have "n < 2 ^ (l + 24)" by linarith
    then have "q * 2 ^ l < 2 ^ 24 * 2 ^ l" using nq by (simp add: power_add mult.commute)
    then show ?thesis by simp
  qed
  have q23: "2 ^ 23 \<le> q" if "0 < l"
  proof -
    have "bit_len n - 1 = 23 + l" using that by (simp add: l_def)
    then have "2 ^ 23 * 2 ^ l \<le> q * 2 ^ l" using B nq by (simp add: power_add)
    then show ?thesis by simp
  qed
  have small: "l * 2 ^ 23 + q < 0x7f800000" using q24 lj j by simp
  have "round_mag n 1 = min (l * 2 ^ 23 + div_half_even n (2 ^ l)) 0x7f800000"
    by (simp add: round_mag_def Let_def l_def)
  moreover have "div_half_even n (2 ^ l) = q"
    unfolding nq by (rule div_half_even_exact) simp
  ultimately have r: "round_mag n 1 = l * 2 ^ 23 + q"
    using small by simp
  have u: "mag_units (l * 2 ^ 23 + q) = q * 2 ^ l"
  proof (cases "l = 0")
    case True
    show ?thesis
    proof (cases "q < 2 ^ 23")
      case False
      then have "q div 2 ^ 23 = 1" "q mod 2 ^ 23 = q - 2 ^ 23" using q24 by (auto simp: div_nat_eqI le_mod_geq)
      then show ?thesis using True False by (simp add: mag_units_def Let_def)
    qed (use True in \<open>simp add: mag_units_def Let_def\<close>)
  next
    case False
    then have lo: "2 ^ 23 \<le> q" using q23 by simp
    define f where "f = q - 2 ^ 23"
    have f: "f < 2 ^ 23" "q = 2 ^ 23 + f" using lo q24 by (simp_all add: f_def)
    have eq: "l * 2 ^ 23 + q = (l + 1) * 2 ^ 23 + f" using f by (simp add: algebra_simps)
    have "((l + 1) * 2 ^ 23 + f) div 2 ^ 23 = l + 1" "((l + 1) * 2 ^ 23 + f) mod 2 ^ 23 = f"
      using f(1) by (simp_all only: div_mult_self3 mod_mult_self3) (simp_all add: div_less)
    then show ?thesis unfolding eq mag_units_def Let_def using f(2) by (simp add: add.commute)
  qed
  show ?thesis using r u small nq by (simp only: n_def [symmetric])
qed

lemma magnitude_pack: "m < 2 ^ 31 \<Longrightarrow> f32_magnitude (f32_pack s m) = m \<and> f32_sign (f32_pack s m) = s"
  by (auto simp: f32_magnitude_def f32_sign_def f32_pack_unat mod_add_self1)

lemma scaled_pack: "m < 2 ^ 31 \<Longrightarrow> f32_scaled (f32_pack s m) = (if s then - int (mag_units m) else int (mag_units m))"
  by (simp add: f32_scaled_def magnitude_pack)

text \<open>A finite float with the given sign and magnitude in units.\<close>

definition f32_is :: "f32 \<Rightarrow> bool \<Rightarrow> nat \<Rightarrow> bool" where
  "f32_is x s n \<longleftrightarrow> f32_magnitude x < 0x7f800000 \<and> f32_sign x = s \<and> mag_units (f32_magnitude x) = n"

lemma f32_is_round: "k < 2 ^ 24 \<Longrightarrow> j \<le> 253 \<Longrightarrow> f32_is (f32_round s (k * 2 ^ j) 1) s (k * 2 ^ j)"
  using round_mag_repr [of k j] by (simp add: f32_is_def f32_round_def magnitude_pack)

lemma f32_is_special: "f32_is x s n \<Longrightarrow> \<not> f32_is_nan x \<and> \<not> f32_is_inf x"
  by (auto simp: f32_is_def f32_is_nan_def f32_is_inf_def)

lemma f32_of_int_is: "0 \<le> i \<Longrightarrow> i < 2 ^ 24 \<Longrightarrow> f32_is (f32_of_int i) False (nat i * 2 ^ 149)"
  using f32_is_round [of "nat i" 149 False] by (simp add: f32_of_int_def not_less)

lemma f32_mul_is:
  assumes "f32_is x s m" "f32_is y t n" "m * n = k * 2 ^ j * 2 ^ 149" "k < 2 ^ 24" "j \<le> 253"
  shows "f32_is (f32_mul x y) (s \<noteq> t) (k * 2 ^ j)"
proof -
  have "round_mag (m * n) (2 ^ 149) = round_mag (k * 2 ^ j) 1"
    unfolding assms(3) using round_mag_mult [of "2 ^ 149" "k * 2 ^ j" 1] by simp
  then have "f32_mul x y = f32_round (s \<noteq> t) (k * 2 ^ j) 1"
    using assms(1,2) f32_is_special [OF assms(1)] f32_is_special [OF assms(2)]
    by (simp add: f32_mul_def f32_is_def Let_def f32_round_def)
  then show ?thesis using f32_is_round [OF assms(4,5)] by simp
qed

lemma mag_units_0 [simp]: "mag_units 0 = 0"
  by (simp add: mag_units_def)

lemma two_pow_24: "f32_is (f32_of_int (2 ^ 24)) False (2 ^ 173)"
  using f32_is_round [of 1 173 False] by (simp add: f32_of_int_def)

lemma inv_two_pow_24: "f32_is (f32_div f32_one (f32_of_int (2 ^ 24))) False (2 ^ 125)"
proof -
  let ?y = "f32_of_int (2 ^ 24)"
  have y: "\<not> f32_is_nan ?y" "\<not> f32_is_inf ?y" "\<not> f32_sign ?y" "mag_units (f32_magnitude ?y) = 2 ^ 173"
    using two_pow_24 f32_is_special [OF two_pow_24] by (auto simp: f32_is_def)
  have nz: "f32_magnitude ?y \<noteq> 0"
    using y(4) mag_units_0 by (metis power_eq_0_iff zero_neq_numeral)
  have "round_mag (2 ^ 149 * 2 ^ 149) (2 ^ 173) = round_mag (2 ^ 125) 1"
    using round_mag_mult [of "2 ^ 173" "2 ^ 125" 1] by (simp flip: power_add)
  then have "f32_div f32_one ?y = f32_round False (2 ^ 125) 1"
    using y nz by (simp add: f32_div_def Let_def f32_round_def del: power_numeral)
  then show ?thesis using f32_is_round [of 1 125 False] by simp
qed


section \<open>Half floats\<close>

lemma f16_special:
  assumes "f16_e h = 31"
  shows "f16_to_f32 h = f32_pack (f16_s h) (255 * 2 ^ 23 + f16_m h * 2 ^ 13)"
proof -
  let ?e = "drop_bit 10 h AND 0x1F"
  have e: "unat ?e = 31" using f16_exp assms by (simp add: f16_e_def)
  then have "?e = 31" by (intro iffD2 [OF word_unat_eq_iff]) simp
  moreover have ml: "f16_m h < 2 ^ 10" by (simp add: f16_m_def)
  moreover have p13: "unat (push_bit 13 (ucast (h AND 0x3FF) :: u32)) = f16_m h * 2 ^ 13"
    using f16_mant [of h] ml by (subst unat_push) (simp_all add: f16_m_def)
  moreover have sg: "unat (push_bit 31 (ucast (drop_bit 15 h) :: u32)) = (if f16_s h then 1 else 0) * 2 ^ 31"
    by (simp only: f16_sign f16_sign_cases)
  ultimately show ?thesis
    unfolding f16_to_f32_def Let_def using pack_or [OF sg _ p13 _ ml, of "0x7F800000" 255] by simp
qed

lemma f16_subnormal:
  assumes "f16_e h = 0"
  shows "f32_is (f16_to_f32 h) (f16_s h) (f16_m h * 2 ^ 125)"
proof -
  let ?e = "drop_bit 10 h AND 0x1F"
  have "unat ?e = 0" using f16_exp assms by (simp add: f16_e_def)
  then have e: "?e = 0" by (simp add: unat_eq_0)
  have m: "unat (ucast (h AND 0x3FF) :: u32) = f16_m h" by (simp only: f16_mant f16_m_def)
  have ml: "f16_m h < 2 ^ 10" by (simp add: f16_m_def)
  let ?v = "f32_mul (f32_of_int (uint (ucast (h AND 0x3FF) :: u32))) (f32_div f32_one (f32_of_int (2 ^ 24)))"
  have i: "uint (ucast (h AND 0x3FF) :: u32) = int (f16_m h)" using m by (simp flip: m)
  have "f32_is (f32_of_int (int (f16_m h))) False (f16_m h * 2 ^ 149)"
    using f32_of_int_is [of "int (f16_m h)"] ml by simp
  from f32_mul_is [OF this inv_two_pow_24, of "f16_m h" 125] ml
  have v: "f32_is ?v False (f16_m h * 2 ^ 125)" unfolding i by (simp add: ac_simps)
  have sg: "unat (push_bit 31 (ucast (drop_bit 15 h) :: u32)) = (if f16_s h then 1 else 0) * 2 ^ 31"
    by (simp only: f16_sign f16_sign_cases)
  then have "(push_bit 31 (ucast (drop_bit 15 h) :: u32) \<noteq> 0) = f16_s h"
    by (auto simp flip: unat_eq_0 split: if_splits)
  moreover have "f32_is (f32_neg ?v) True (f16_m h * 2 ^ 125)"
    using v by (simp add: f32_is_def f32_neg_def magnitude_pack)
  ultimately show ?thesis
    unfolding f16_to_f32_def Let_def using e v by (simp only: if_True) auto
qed

text \<open>The magnitude of a half float in units of \<open>2 ^ (-24)\<close>.\<close>

definition f16_units :: "u16 \<Rightarrow> nat" where
  "f16_units h = (if f16_e h = 0 then f16_m h else (f16_m h + 2 ^ 10) * 2 ^ (f16_e h - 1))"

lemma f16_normal_is:
  assumes "0 < f16_e h" "f16_e h < 31"
  shows "f32_is (f16_to_f32 h) (f16_s h) (f16_units h * 2 ^ 125)"
proof -
  have ml: "f16_m h < 2 ^ 10" by (simp add: f16_m_def)
  let ?p = "(f16_e h + 112) * 2 ^ 23 + f16_m h * 2 ^ 13"
  have f: "f16_m h * 2 ^ 13 < 2 ^ 23" and p: "?p < 0x7f800000" using ml assms by simp_all
  have "?p div 2 ^ 23 = f16_e h + 112" "?p mod 2 ^ 23 = f16_m h * 2 ^ 13"
    using f by (simp_all only: div_mult_self3 mod_mult_self3) (simp_all add: div_less)
  then have "mag_units ?p = (f16_m h * 2 ^ 13 + 2 ^ 23) * 2 ^ (f16_e h + 111)"
    by (simp add: mag_units_def Let_def)
  also have "\<dots> = (f16_m h + 2 ^ 10) * 2 ^ 13 * (2 ^ (f16_e h - 1) * 2 ^ 112)"
  proof -
    obtain k where "f16_e h = Suc k" using assms(1) by (cases "f16_e h") auto
    then show ?thesis by (simp add: power_add algebra_simps)
  qed
  also have "\<dots> = f16_units h * 2 ^ 125"
    using assms(1) by (simp add: f16_units_def)
  finally have "mag_units ?p = f16_units h * 2 ^ 125" .
  with p show ?thesis
    unfolding f16_normal [OF assms] by (simp add: f32_is_def magnitude_pack)
qed

section \<open>Properties\<close>

text \<open>C38. The conversion from half floats is exact: a finite half float becomes the single float of the same
  value and sign (subnormals and both zeros included), an infinity the same infinity, a NaN a NaN.\<close>

theorem f16_exact:
  "if f16_e h < 31
   then f32_scaled (f16_to_f32 h) = (if f16_s h then - 1 else 1) * int (f16_units h) * 2 ^ 125 \<and> f32_sign (f16_to_f32 h) = f16_s h
   else if f16_m h = 0 then f16_to_f32 h = (if f16_s h then f32_neg_inf else f32_inf)
   else f32_is_nan (f16_to_f32 h)"
proof (cases "f16_e h < 31")
  case True
  then have "f32_is (f16_to_f32 h) (f16_s h) (f16_units h * 2 ^ 125)"
    using f16_subnormal [of h] f16_normal_is [of h] by (cases "f16_e h = 0") (simp_all add: f16_units_def)
  with True show ?thesis by (simp add: f32_is_def f32_scaled_def)
next
  case False
  moreover have "f16_e h < 32" by (simp add: f16_e_def)
  ultimately have e: "f16_e h = 31" by simp
  have "f16_m h < 2 ^ 10" by (simp add: f16_m_def)
  then have "f32_magnitude (f16_to_f32 h) = 255 * 2 ^ 23 + f16_m h * 2 ^ 13"
    unfolding f16_special [OF e] by (simp add: magnitude_pack)
  with e show ?thesis
    by (auto simp: f16_special f32_is_nan_def f32_pack_def f32_neg_inf_def f32_inf_def)
qed


lemma slice_Ok: "lo \<le> hi \<Longrightarrow> hi \<le> length xs \<Longrightarrow> slice xs lo hi = Ok (take (hi - lo) (drop lo xs))"
  by (simp add: slice_def)

lemma length_nibbles: "length (concat (map (\<lambda>b. [f b, g b]) bs)) = 2 * length bs"
  by (induction bs) auto

lemma length_concat_const: "\<forall>x \<in> set xs. length (f x) = n \<Longrightarrow> length (concat (map f xs)) = length xs * n"
  by (induction xs) auto

text \<open>A block operation that succeeds on whole blocks and keeps the length of its output.\<close>

definition block_op :: "nat \<Rightarrow> nat \<Rightarrow> (u8 list \<Rightarrow> f32 list \<Rightarrow> ('e, f32 list) outcome) \<Rightarrow> bool" where
  "block_op bytes elems f \<longleftrightarrow>
     (\<forall>block out. length block = bytes \<longrightarrow> elems \<le> length out \<longrightarrow> (\<exists>out'. f block out = Ok out' \<and> length out' = length out))"

lemma block_op_q4_0: "block_op q4_0_block q4_0_elems dequant_q4_0_block"
  by (auto simp: block_op_def dequant_q4_0_block_def Let_def length_nibbles q4_0_block_def q4_0_elems_def)

lemma block_op_q4k: "block_op q4k_block q4k_elems dequant_q4k_block"
  by (auto simp: block_op_def dequant_q4k_block_def Let_def q4k_block_def q4k_elems_def length_nibbles split_beta
      length_concat_const [where n = 32])

lemma dequant_blocks_length:
  assumes "block_op bytes elems f" and "\<forall>b \<in> set bs. (b + 1) * bytes \<le> length data \<and> (b + 1) * elems \<le> length out"
  shows "\<exists>out'. dequant_blocks f bytes elems data bs out = Ok out' \<and> length out' = length out"
  using assms(2)
proof (induction bs arbitrary: out)
  case (Cons b bs)
  let ?block = "take bytes (drop (b * bytes) data)"
  have "slice data (b * bytes) ((b + 1) * bytes) = Ok ?block"
    using slice_Ok [of "b * bytes" "(b + 1) * bytes" data] Cons.prems by simp
  moreover have "length ?block = bytes" "elems \<le> length (drop (b * elems) out)" using Cons.prems by auto
  then obtain tail where "f ?block (drop (b * elems) out) = Ok tail" "length tail = length (drop (b * elems) out)"
    using assms(1) unfolding block_op_def by blast
  moreover have "length (take (b * elems) out @ tail) = length out"
    using calculation Cons.prems by auto
  ultimately show ?case
    using Cons.IH [of "take (b * elems) out @ tail"] Cons.prems by auto
qed simp

lemma div_ceil_ge: "0 < b \<Longrightarrow> a div b \<le> div_ceil a b"
  by (simp add: div_ceil_def)

lemma block_room:
  assumes "b < a div c" and "0 < c" and "div_ceil a c * k \<le> n" and "m \<le> k"
  shows "(b + 1) * m \<le> n \<and> (b + 1) * c \<le> a"
proof
  have "b + 1 \<le> a div c" using assms(1) by simp
  then have "b + 1 \<le> div_ceil a c" using div_ceil_ge [OF assms(2), of a] by linarith
  then have "(b + 1) * m \<le> div_ceil a c * k" using assms(4) by (intro mult_le_mono)
  with assms(3) show "(b + 1) * m \<le> n" by linarith
  have "(b + 1) * c \<le> a div c * c" using \<open>b + 1 \<le> a div c\<close> by (intro mult_le_mono1)
  then show "(b + 1) * c \<le> a" using div_times_less_eq_dividend [of a c] by linarith
qed

lemma nbytes_Ok: "(ggml_nbytes t n :: ('e, _) outcome) = Ok k \<Longrightarrow> k = div_ceil n (snd (block_params t)) * fst (block_params t)"
  by (auto simp: ggml_nbytes_def checked64_def split_beta Let_def split: if_splits)

lemma dequant_row_length:
  assumes "(ggml_nbytes t (length out) :: ('e, _) outcome) = Ok k" and "length data = k"
  shows "\<exists>row. (dequant_row t data out :: ('e, _) outcome) = Ok row \<and> length row = length out"
proof -
  have k: "div_ceil (length out) (snd (block_params t)) * fst (block_params t) \<le> length data"
    using nbytes_Ok [OF assms(1)] assms(2) by simp
  have q4: "\<exists>row. (dequant_q4_0_row data out :: ('e, _) outcome) = Ok row \<and> length row = length out"
    if "block_params t = (n, 32)" "18 \<le> n" for n
    unfolding dequant_q4_0_row_def
    by (rule dequant_blocks_length [OF block_op_q4_0])
      (use block_room [of _ "length out" 32 n "length data" 18] that k in \<open>auto simp: q4_0_block_def q4_0_elems_def\<close>)
  have q4k: "\<exists>row. (dequant_q4k_row data out :: ('e, _) outcome) = Ok row \<and> length row = length out"
    if "block_params t = (144, 256)"
    unfolding dequant_q4k_row_def
    by (rule dequant_blocks_length [OF block_op_q4k])
      (use block_room [of _ "length out" 256 144 "length data" 144] that k in \<open>auto simp: q4k_block_def q4k_elems_def\<close>)
  have ow: "length (overwrite vs out) = length out" for vs by (simp add: overwrite_def)
  show ?thesis
    using q4 q4k by (cases t) (simp_all add: dequant_f16_row_def dequant_bf16_row_def copy_f32_row_def ow)
qed

lemma dequant_rows_spec:
  assumes nb: "(ggml_nbytes t cols :: ('e, _) outcome) = Ok rb" and room: "\<forall>r \<in> set rs. (r + 1) * rb \<le> length data"
  shows "\<exists>rows. (dequant_rows t data rb cols rs :: ('e, _) outcome) = Ok (concat rows) \<and> length rows = length rs
     \<and> (\<forall>i < length rs. length (rows ! i) = cols
          \<and> (dequant_row t (take rb (drop (rs ! i * rb) data)) (replicate cols 0) :: ('e, _) outcome) = Ok (rows ! i))"
  using room
proof (induction rs)
  case (Cons r rs)
  let ?src = "take rb (drop (r * rb) data)"
  have sl: "slice data (r * rb) ((r + 1) * rb) = Ok ?src"
    using slice_Ok [of "r * rb" "(r + 1) * rb" data] Cons.prems by simp
  have "length ?src = rb" using Cons.prems by auto
  then obtain row where row: "(dequant_row t ?src (replicate cols 0) :: ('e, _) outcome) = Ok row" "length row = cols"
    using dequant_row_length [of t "replicate cols 0" rb ?src, where 'e = 'e] nb by auto
  from Cons obtain rows where rows: "(dequant_rows t data rb cols rs :: ('e, _) outcome) = Ok (concat rows)" "length rows = length rs"
    "\<forall>i < length rs. length (rows ! i) = cols
          \<and> (dequant_row t (take rb (drop (rs ! i * rb) data)) (replicate cols 0) :: ('e, _) outcome) = Ok (rows ! i)"
    by auto
  show ?case
    by (rule exI [of _ "row # rows"]) (use sl row rows in \<open>auto simp: less_Suc_eq_0_disj\<close>)
qed simp

text \<open>A matrix is dequantised row by row: when the data hold as many bytes as the rows need, the result has
  one value per element and every row of it is the dequantisation of that row's bytes, for every
  element type.\<close>

theorem dequant_matrix_rows:
  assumes "(ggml_nbytes t cols :: ('e, _) outcome) = Ok rb" and "rows * rb \<le> length data"
  shows "\<exists>out. (dequant_matrix t data rows cols :: ('e, _) outcome) = Ok (concat out) \<and> length out = rows
     \<and> length (concat out) = rows * cols
     \<and> (\<forall>i < rows. (dequant_row t (take rb (drop (i * rb) data)) (replicate cols 0) :: ('e, _) outcome) = Ok (out ! i))"
proof -
  have "\<forall>r \<in> set [0..<rows]. (r + 1) * rb \<le> length data"
  proof
    fix r assume "r \<in> set [0..<rows]"
    then have "(r + 1) * rb \<le> rows * rb" by (intro mult_le_mono1) simp
    with assms(2) show "(r + 1) * rb \<le> length data" by linarith
  qed
  from dequant_rows_spec [OF assms(1) this] obtain out where
    out: "(dequant_rows t data rb cols [0..<rows] :: ('e, _) outcome) = Ok (concat out)" "length out = rows"
    "\<forall>i < rows. length (out ! i) = cols
          \<and> (dequant_row t (take rb (drop (i * rb) data)) (replicate cols 0) :: ('e, _) outcome) = Ok (out ! i)"
    by auto
  have "length (concat out) = rows * cols"
  proof -
    have "\<forall>x \<in> set out. length x = cols" using out(2,3) by (metis in_set_conv_nth)
    then show ?thesis using length_concat_const [of out "\<lambda>x. x" cols] out(2) by simp
  qed
  with out assms(1) show ?thesis by (auto simp: dequant_matrix_def)
qed

theorem dequant_matrix_rows_witness:
  "\<exists>out. (dequant_matrix T_F16 [0, 60, 0, 64] 2 1 :: (unit, _) outcome) = Ok (concat out) \<and> length out = 2
     \<and> length (concat out) = 2"
  using dequant_matrix_rows [of T_F16 1 2 2 "[0, 60, 0, 64]", where 'e = unit]
  by (auto simp: ggml_nbytes_def checked64_def max64_def div_ceil_def)

text \<open>The eight scales of a Q4_K block are not independent: the low two bits of scale 4 reappear as the top
  two bits of scale 0, so no block has scale 0 equal to zero and scale 4 equal to one.\<close>

theorem q4k_scales_entangled:
  "\<not> (fst (unpack_q4k_scales bs ! 0) = 0 \<and> fst (unpack_q4k_scales bs ! 4) = 1)"
proof
  let ?b = "bs ! 8"
  assume a: "fst (unpack_q4k_scales bs ! 0) = 0 \<and> fst (unpack_q4k_scales bs ! 4) = 1"
  then have z: "(bs ! 0 AND 0x3F OR push_bit 4 (?b AND 0x0F)) AND 0x3F = 0"
    by (simp add: unpack_q4k_scales_def Let_def)
  have "\<not> bit ?b n" if "n < 2" for n
  proof -
    have "\<not> bit ((bs ! 0 AND 0x3F OR push_bit 4 (?b AND 0x0F)) AND 0x3F) (n + 4)" unfolding z by simp
    moreover have "bit (0x3F :: u8) (n + 4)" "bit (0x0F :: u8) n" "bit (240 :: u8) (n + 4)" using that by (auto simp: less_2_cases_iff)
    ultimately show ?thesis using that by (auto simp: bit_and_iff bit_or_iff bit_push_bit_iff)
  qed
  then have "\<not> bit ?b 0" by simp
  moreover have "?b AND 0x3F = 1" using a by (simp add: unpack_q4k_scales_def Let_def)
  then have "bit (?b AND 0x3F) 0" by simp
  ultimately show False by (simp add: bit_and_iff)
qed

end
