(* ===== verification/Sharding.thy ===== *)
theory Sharding
  imports Quant Speculative
begin

text \<open>
  Tensor parallelism (\<open>src/src/metal/sharding.rs\<close>) and the numerical formats it splits by
  (\<open>src/src/metal/types.rs\<close>): which way a weight is split and the bytes each device gets. Sizes are
  natural numbers; a product that leaves 64 bits also leaves the data it indexes, where slicing
  panics. Tensor names and error texts are strings.
\<close>

section \<open>Formats\<close>

datatype quantization = Quant_Q4_0 | Quant_Q4K | Quant_F32 | Quant_F16 | Quant_Q8K

text \<open>\<open>to_uppercase\<close> on the letters that occur in the names.\<close>

definition upper :: "char \<Rightarrow> char" where
  "upper c = (if 97 \<le> (of_char c :: nat) \<and> (of_char c :: nat) \<le> 122 then char_of ((of_char c :: nat) - 32) else c)"

definition quant_from_str :: "string \<Rightarrow> (string, quantization) outcome" where
  "quant_from_str s =
     (let u = map upper s in
      if u = ''Q4_0'' then Ok Quant_Q4_0
      else if u = ''Q4K'' \<or> u = ''Q4_K'' then Ok Quant_Q4K
      else if u = ''F32'' then Ok Quant_F32
      else if u = ''F16'' then Ok Quant_F16
      else if u = ''Q8K'' \<or> u = ''Q8_K'' then Ok Quant_Q8K
      else Err (''unknown quantization: '' @ s))"

fun quant_block_size :: "quantization \<Rightarrow> usize" where
  "quant_block_size Quant_F32 = 1" | "quant_block_size Quant_F16 = 1"
| "quant_block_size Quant_Q4_0 = 32" | "quant_block_size Quant_Q4K = 32" | "quant_block_size Quant_Q8K = 32"

fun quant_type_name :: "quantization \<Rightarrow> string" where
  "quant_type_name Quant_Q4_0 = ''Q4_0''" | "quant_type_name Quant_Q4K = ''Q4_K''"
| "quant_type_name Quant_F32 = ''F32''" | "quant_type_name Quant_F16 = ''F16''"
| "quant_type_name Quant_Q8K = ''Q8_K''"

fun quant_from_ggml :: "ggml_type \<Rightarrow> quantization option" where
  "quant_from_ggml T_F32 = Some Quant_F32" | "quant_from_ggml T_F16 = Some Quant_F16"
| "quant_from_ggml T_Q4_0 = Some Quant_Q4_0" | "quant_from_ggml T_Q4K = Some Quant_Q4K"
| "quant_from_ggml T_Q8K = Some Quant_Q8K" | "quant_from_ggml _ = None"

section \<open>Sharding\<close>

datatype shard_strategy = Replicated | Column | Row

record sharded_weight =
  sw_data :: "u8 list"
  sw_shape :: "u64 list"

definition shard_columns :: "string \<Rightarrow> u8 list \<Rightarrow> u64 list \<Rightarrow> usize \<Rightarrow> usize \<Rightarrow> (spec_error, sharded_weight) outcome" where
  "shard_columns name bytes shape tp_degree tp_rank =
     (if shape = [] then Panic
      else
        let rows = unat (last shape) in
        if rows mod tp_degree \<noteq> 0
        then Err (Model (''Tensor '' @ name @ '' rows ('' @ decimal rows @ '') not divisible by TP degree '' @ decimal tp_degree))
        else if rows = 0 then Panic
        else
          let shard_rows = rows div tp_degree; bytes_per_row = length bytes div rows in
          bind_outcome (slice bytes (tp_rank * shard_rows * bytes_per_row) ((tp_rank + 1) * shard_rows * bytes_per_row)) (\<lambda>part.
            Ok \<lparr>sw_data = part, sw_shape = shape[length shape - 1 := of_nat shard_rows]\<rparr>))"

text \<open>The loop over the rows: \<open>start\<close> is where the device's part of a row begins, \<open>len\<close> its length.\<close>

fun gather_rows :: "u8 list \<Rightarrow> nat \<Rightarrow> nat \<Rightarrow> nat \<Rightarrow> nat list \<Rightarrow> (spec_error, u8 list) outcome" where
  "gather_rows bytes bytes_per_row start len [] = Ok []"
| "gather_rows bytes bytes_per_row start len (r # rs) =
     bind_outcome (slice bytes (r * bytes_per_row + start) (r * bytes_per_row + start + len)) (\<lambda>part.
       bind_outcome (gather_rows bytes bytes_per_row start len rs) (\<lambda>rest. Ok (part @ rest)))"

definition shard_rows ::
  "string \<Rightarrow> u8 list \<Rightarrow> u64 list \<Rightarrow> quantization \<Rightarrow> usize \<Rightarrow> usize \<Rightarrow> (spec_error, sharded_weight) outcome" where
  "shard_rows name bytes shape quant tp_degree tp_rank =
     (if shape = [] then Panic
      else
        let cols = unat (shape ! 0) in
        if cols mod tp_degree \<noteq> 0
        then Err (Model (''Tensor '' @ name @ '' cols ('' @ decimal cols @ '') not divisible by TP degree '' @ decimal tp_degree))
        else
          let shard_cols = cols div tp_degree; bs = quant_block_size quant in
          if shard_cols mod bs \<noteq> 0
          then Err (Model (''Tensor '' @ name @ '' shard cols ('' @ decimal shard_cols @ '') must be multiple of block size '' @ decimal bs))
          else
            let rows = (if length shape > 1 then unat (shape ! 1) else 1) in
            if rows = 0 \<or> cols = 0 then Panic
            else
              let bytes_per_row = length bytes div rows; bytes_per_shard_col_row = bytes_per_row div tp_degree in
              bind_outcome (gather_rows bytes bytes_per_row (tp_rank * bytes_per_shard_col_row) bytes_per_shard_col_row [0..<rows]) (\<lambda>part.
                Ok \<lparr>sw_data = part, sw_shape = shape[0 := of_nat shard_cols]\<rparr>))"

definition shard_weight ::
  "string \<Rightarrow> u8 list \<Rightarrow> u64 list \<Rightarrow> quantization \<Rightarrow> shard_strategy \<Rightarrow> usize \<Rightarrow> usize \<Rightarrow> (spec_error, sharded_weight) outcome" where
  "shard_weight name bytes shape quant strategy tp_degree tp_rank =
     (if tp_degree \<le> 1 \<or> strategy = Replicated then Ok \<lparr>sw_data = bytes, sw_shape = shape\<rparr>
      else case strategy of
             Column \<Rightarrow> shard_columns name bytes shape tp_degree tp_rank
           | Row \<Rightarrow> shard_rows name bytes shape quant tp_degree tp_rank
           | Replicated \<Rightarrow> Panic)"

fun str_contains :: "string \<Rightarrow> string \<Rightarrow> bool" where
  "str_contains [] pat = (pat = [])"
| "str_contains (c # cs) pat = (take (length pat) (c # cs) = pat \<or> str_contains cs pat)"

definition get_shard_strategy :: "string \<Rightarrow> shard_strategy" where
  "get_shard_strategy name =
     (if str_contains name ''attention.wq'' \<or> str_contains name ''attention.wk'' \<or> str_contains name ''attention.wv'' then Column
      else if str_contains name ''attention.wo'' then Row
      else if str_contains name ''feed_forward.w1'' \<or> str_contains name ''feed_forward.w3'' then Column
      else if str_contains name ''feed_forward.w2'' then Row
      else if name = ''output.weight'' then Column
      else Replicated)"

section \<open>Formats and their names\<close>

lemma quant_from_type_name: "quant_from_str (quant_type_name q) = Ok q"
  by (cases q) (simp_all add: quant_from_str_def upper_def)

section \<open>The shards of a weight are the weight\<close>

lemma slices_concat:
  assumes "length xs = n * k"
  shows "concat (map (\<lambda>i. take k (drop (i * k) xs)) [0..<n]) = xs"
  using assms
proof (induction n arbitrary: xs)
  case (Suc n)
  have "[0..<Suc n] = 0 # map Suc [0..<n]" by (simp add: upt_conv_Cons map_Suc_upt del: upt_Suc)
  moreover from Suc.IH [of "drop k xs"] Suc.prems
  have "concat (map (\<lambda>i. take k (drop (i * k) (drop k xs))) [0..<n]) = drop k xs" by simp
  ultimately show ?case by (simp add: comp_def add.commute)
qed simp

lemma slice_ok: "a \<le> b \<Longrightarrow> b \<le> length xs \<Longrightarrow> slice xs a b = Ok (take (b - a) (drop a xs))"
  by (simp add: slice_def)

lemma part_end: "r < n \<Longrightarrow> (r + 1) * k \<le> n * (k :: nat)"
  using mult_le_mono1 [of "r + 1" n k] by simp

text \<open>Column-parallel sharding loses and duplicates nothing: for a tensor whose rows are divided evenly, every
  device gets its shard, the shards in the order of the ranks are the tensor's bytes, and each shard
  has the tensor's shape with its share of the rows.\<close>

lemma column_shards_concat:
  assumes "1 < tp" "shape \<noteq> []" "tp dvd unat (last shape)" "0 < unat (last shape)" "unat (last shape) dvd length bytes"
  shows "\<exists>shards. map (shard_weight name bytes shape quant Column tp) [0..<tp] = map Ok shards \<and>
    concat (map sw_data shards) = bytes \<and>
    (\<forall>s \<in> set shards. sw_shape s = shape[length shape - 1 := of_nat (unat (last shape) div tp)])"
proof -
  obtain q where q: "unat (last shape) = tp * q" using assms(3) by (auto simp: dvd_def)
  obtain b where b: "length bytes = tp * q * b" using assms(5) q by (auto simp: dvd_def)
  have pos: "0 < q" using assms(4) q by auto
  let ?shard = "\<lambda>r. \<lparr>sw_data = take (q * b) (drop (r * (q * b)) bytes), sw_shape = shape[length shape - 1 := of_nat q]\<rparr>"
  have "shard_weight name bytes shape quant Column tp r = Ok (?shard r)" if r: "r < tp" for r
  proof -
    have "(r + 1) * (q * b) \<le> tp * (q * b)" by (rule part_end [OF r])
    then have "slice bytes (r * q * b) ((r + 1) * q * b) = Ok (take (q * b) (drop (r * (q * b)) bytes))"
      by (subst slice_ok) (simp_all add: b algebra_simps)
    with assms(1,2,4) q b pos show ?thesis by (simp add: shard_weight_def shard_columns_def)
  qed
  moreover have "concat (map (\<lambda>r. take (q * b) (drop (r * (q * b)) bytes)) [0..<tp]) = bytes"
    by (rule slices_concat) (simp add: b)
  ultimately show ?thesis
    using q assms(1) by (intro exI [of _ "map ?shard [0..<tp]"]) (simp add: comp_def)
qed

theorem column_shards_concat_instance:
  "\<exists>shards. map (shard_weight ''w'' [1, 2, 3, 4, 5, 6, 7, 8] [2, 4] Quant_F32 Column 2) [0..<2] = map Ok shards \<and>
    concat (map sw_data shards) = [1, 2, 3, 4, 5, 6, 7, 8] \<and>
    (\<forall>s \<in> set shards. sw_shape s = [2, 4][length [2, 4 :: u64] - 1 := of_nat (unat (last [2, 4 :: u64]) div 2)])"
  by (rule column_shards_concat) (simp_all, presburger)

text \<open>The rows of a shard, when the rows of the tensor are there.\<close>

lemma gather_rows_ok:
  assumes "\<forall>r \<in> set rs. r * b + start + len \<le> length bytes"
  shows "gather_rows bytes b start len rs = Ok (concat (map (\<lambda>r. take len (drop (r * b + start) bytes)) rs))"
  using assms by (induction rs) (simp_all add: slice_def)

lemma take_drop_concat:
  assumes "\<forall>x \<in> set xs. length x = k" "r < length xs"
  shows "take k (drop (r * k) (concat xs)) = xs ! r"
  using assms
proof (induction xs arbitrary: r)
  case (Cons x xs)
  then show ?case by (cases r) (auto simp: add.commute)
qed simp

text \<open>\<open>n\<close> rows of \<open>tp\<close> parts of \<open>k\<close> bytes: part \<open>i\<close> of every row, and how the parts of a row come together.\<close>

definition row_parts :: "u8 list \<Rightarrow> nat \<Rightarrow> nat \<Rightarrow> nat \<Rightarrow> nat \<Rightarrow> u8 list list" where
  "row_parts bytes n tp k i = map (\<lambda>r. take k (drop (r * (tp * k) + i * k) bytes)) [0..<n]"

lemma part_inside:
  assumes "length bytes = n * (tp * k)" "r < n" "i < tp"
  shows "r * (tp * k) + i * k + k \<le> length bytes"
proof -
  have "r * (tp * k) + (i + 1) * k \<le> r * (tp * k) + tp * k" using part_end [OF assms(3), of k] by simp
  also have "\<dots> \<le> n * (tp * k)" using part_end [OF assms(2), of "tp * k"] by (simp add: algebra_simps)
  finally show ?thesis by (simp add: assms(1) algebra_simps)
qed

lemma row_parts_row:
  assumes "length bytes = n * (tp * k)" "r < n"
  shows "concat (map (\<lambda>i. take k (drop (r * k) (concat (row_parts bytes n tp k i)))) [0..<tp]) = take (tp * k) (drop (r * (tp * k)) bytes)"
proof -
  let ?row = "take (tp * k) (drop (r * (tp * k)) bytes)"
  have "take k (drop (r * k) (concat (row_parts bytes n tp k i))) = take k (drop (i * k) ?row)" if i: "i < tp" for i
  proof -
    have "length (take k (drop (x * (tp * k) + i * k) bytes)) = k" if "x < n" for x
      using part_inside [OF assms(1) that i] by simp
    then have "take k (drop (r * k) (concat (row_parts bytes n tp k i))) = row_parts bytes n tp k i ! r"
      by (intro take_drop_concat) (use assms(2) in \<open>auto simp: row_parts_def\<close>)
    moreover have "i * k + k \<le> tp * k" using part_end [OF i, of k] by simp
    ultimately show ?thesis using assms(2) by (simp add: row_parts_def drop_take min_def add.commute)
  qed
  then have "concat (map (\<lambda>i. take k (drop (r * k) (concat (row_parts bytes n tp k i)))) [0..<tp]) =
      concat (map (\<lambda>i. take k (drop (i * k) ?row)) [0..<tp])"
    by (intro arg_cong [of _ _ concat] map_cong) auto
  also have "\<dots> = ?row"
  proof (rule slices_concat)
    have "r * (tp * k) + tp * k \<le> length bytes" using part_end [OF assms(2), of "tp * k"] by (simp add: assms(1) algebra_simps)
    then show "length ?row = tp * k" by simp
  qed
  finally show ?thesis .
qed

text \<open>Row-parallel sharding splits every row: when the bytes of a row divide evenly among the devices, every
  device gets its shard, and the devices' parts of row \<open>r\<close>, in the order of the ranks, are row \<open>r\<close> of
  the tensor.\<close>

lemma row_shards_concat:
  assumes "1 < tp" "shape = [cols, rows]" "0 < unat cols" "0 < unat rows" "tp dvd unat cols"
    and "quant_block_size quant dvd unat cols div tp" and "length bytes = unat rows * (tp * k)"
  shows "\<exists>shards. map (shard_weight name bytes shape quant Row tp) [0..<tp] = map Ok shards \<and>
    (\<forall>r < unat rows. concat (map (\<lambda>s. take k (drop (r * k) (sw_data s))) shards) = take (tp * k) (drop (r * (tp * k)) bytes)) \<and>
    (\<forall>s \<in> set shards. sw_shape s = [of_nat (unat cols div tp), rows])"
proof -
  let ?shard = "\<lambda>i. \<lparr>sw_data = concat (row_parts bytes (unat rows) tp k i), sw_shape = [of_nat (unat cols div tp), rows]\<rparr>"
  have "shard_weight name bytes shape quant Row tp i = Ok (?shard i)" if i: "i < tp" for i
  proof -
    have "gather_rows bytes (tp * k) (i * k) k [0..<unat rows] = Ok (concat (row_parts bytes (unat rows) tp k i))"
      unfolding row_parts_def by (rule gather_rows_ok) (use part_inside [OF assms(7) _ i] in auto)
    moreover have "length bytes div unat rows = tp * k" "tp * k div tp = k" using assms(1,4,7) by simp_all
    moreover have "unat cols mod tp = 0" "unat cols div tp mod quant_block_size quant = 0" using assms(5,6) by auto
    ultimately show ?thesis using assms(1-4) by (simp add: shard_weight_def shard_rows_def)
  qed
  with row_parts_row [OF assms(7)] show ?thesis by (intro exI [of _ "map ?shard [0..<tp]"]) (simp add: comp_def)
qed

lemma row_shards_concat_instance:
  "\<exists>shards. map (shard_weight ''w'' [1, 2, 3, 4, 5, 6, 7, 8] [4, 2] Quant_F32 Row 2) [0..<2] = map Ok shards \<and>
    (\<forall>r < unat (2 :: u64). concat (map (\<lambda>s. take 2 (drop (r * 2) (sw_data s))) shards) =
       take (2 * 2) (drop (r * (2 * 2)) [1, 2, 3, 4, 5, 6, 7, 8])) \<and>
    (\<forall>s \<in> set shards. sw_shape s = [of_nat (unat (4 :: u64) div 2), 2])"
  by (rule row_shards_concat) simp_all

text \<open>The block size of the Q4_K format is too small for its files: a row of 512 elements is two blocks of 256
  elements and 144 bytes; split for four devices it passes the check of the block size and gives
  every device 72 bytes, which is half a block and not a whole number of blocks.\<close>

theorem q4k_row_shard_splits_block:
  "map (shard_weight ''layers.0.attention.wo.weight'' (replicate 288 0) [512, 1] Quant_Q4K Row 4) [0..<4] =
     replicate 4 (Ok \<lparr>sw_data = replicate 72 0, sw_shape = [128, 1]\<rparr>) \<and>
   ggml_nbytes T_Q4K 512 = (Ok 288 :: (unit, nat) outcome) \<and> ggml_nbytes T_Q4K 128 = (Ok 144 :: (unit, nat) outcome)"
proof (intro conjI nth_equalityI)
  fix i assume "i < length (map (shard_weight ''layers.0.attention.wo.weight'' (replicate 288 0) [512, 1] Quant_Q4K Row 4) [0..<4])"
  then have i: "i < 4" by simp
  then have "slice (replicate 288 (0 :: u8)) (i * 72) (i * 72 + 72) = (Ok (replicate 72 0) :: (spec_error, _) outcome)"
    by (simp add: slice_def)
  with i show "map (shard_weight ''layers.0.attention.wo.weight'' (replicate 288 0) [512, 1] Quant_Q4K Row 4) [0..<4] ! i =
     replicate 4 (Ok \<lparr>sw_data = replicate 72 0, sw_shape = [128, 1]\<rparr>) ! i"
    by (simp add: shard_weight_def shard_rows_def)
qed (simp_all add: ggml_nbytes_def checked64_def div_ceil_def max64_def)

end
