(* ===== verification/MetalRuntime.thy ===== *)
theory MetalRuntime
  imports EngineMemory Sharding
begin

text \<open>
  The Metal memory runtime (\<open>src/src/metal/kv_store.rs\<close>, \<open>src/src/metal/runtime.rs\<close>,
  \<open>src/src/metal/config.rs\<close>): the block store with a pool of page-sized places, the runtime's
  construction, and the table that maps slots to pages.

  The Metal framework is the argument \<open>dev\<close>: how many devices there are, whether a command queue and a
  shader library can be had, which buffer sizes can be allocated. A buffer is its contents; its
  device handles are left out. \<open>bind_slot\<close> writes through a raw pointer: a write outside the table is
  undefined behaviour and has \<open>Panic\<close> in the model. Names are ASCII.
\<close>

section \<open>The block store\<close>

record metal_block =
  mb_handle :: kv_handle
  mb_bytes :: usize
  mb_offset :: usize

record metal_store =
  ms_next_block_id :: u64
  ms_bytes_per_token :: usize
  ms_pool_size :: usize
  ms_blocks :: "(u64, metal_block) btree_map"
  ms_free_offsets :: "usize list"

record metal_device =
  md_count :: usize
  md_command_queue :: bool
  md_library :: "(string, unit) outcome"
  md_new_buffer :: "usize \<Rightarrow> bool"

definition metal_store_new ::
  "metal_device \<Rightarrow> usize \<Rightarrow> usize \<Rightarrow> usize \<Rightarrow> usize \<Rightarrow> ('e, metal_store) outcome" where
  "metal_store_new dev kv_bytes_per_token pool_pages pg_tokens n_layer =
     (let page_bytes = pg_tokens * kv_bytes_per_token;
          layer_bytes = pool_pages * page_bytes;
          pool_size = n_layer * layer_bytes
      in if page_bytes > max64 \<or> layer_bytes > max64 \<or> pool_size > max64 then Panic
         else if \<not> md_new_buffer dev pool_size then Panic
         else Ok \<lparr>ms_next_block_id = 1, ms_bytes_per_token = kv_bytes_per_token, ms_pool_size = pool_size, ms_blocks = [],
                  ms_free_offsets = rev (map (\<lambda>i. i * page_bytes) [0..<pool_pages])\<rparr>)"

definition metal_allocated_bytes :: "metal_store \<Rightarrow> usize" where
  "metal_allocated_bytes s = sum_list (map mb_bytes (bt_values (ms_blocks s)))"

definition metal_allocate :: "usize \<Rightarrow> (metal_store, kv_store_error, kv_handle) act" where
  "metal_allocate n s =
     (if ms_free_offsets s = [] then (Err EmptyBlock, s)
      else
        let offset = last (ms_free_offsets s);
            s1 = s\<lparr>ms_free_offsets := butlast (ms_free_offsets s)\<rparr>;
            handle = \<lparr>block_id = ms_next_block_id s, token_len = n\<rparr>
        in
        if ms_next_block_id s = - 1 then (Panic, s1)
        else
          let s2 = s1\<lparr>ms_next_block_id := ms_next_block_id s + 1\<rparr> in
          if n * ms_bytes_per_token s > max64 then (Panic, s2)
          else
            let block = \<lparr>mb_handle = handle, mb_bytes = n * ms_bytes_per_token s, mb_offset = offset\<rparr>
            in (Ok handle, s2\<lparr>ms_blocks := bt_insert (block_id handle) block (ms_blocks s2)\<rparr>))"

definition metal_get_block :: "metal_store \<Rightarrow> kv_handle \<Rightarrow> metal_block option" where
  "metal_get_block s h =
     (case bt_get (ms_blocks s) (block_id h) of
        None \<Rightarrow> None
      | Some b \<Rightarrow> if mb_handle b = h then Some b else None)"

definition metal_release_block :: "kv_handle \<Rightarrow> (metal_store, kv_store_error, unit) act" where
  "metal_release_block h s =
     (case bt_get (ms_blocks s) (block_id h) of
        None \<Rightarrow> (Err (UnknownBlock h), s)
      | Some b \<Rightarrow>
          (Ok (), s\<lparr>ms_blocks := bt_remove (block_id h) (ms_blocks s), ms_free_offsets := ms_free_offsets s @ [mb_offset b]\<rparr>))"

section \<open>The runtime\<close>

record metal_backend_config =
  mbc_model_name :: string
  mbc_max_context_tokens :: usize
  mbc_kv_bytes_per_token :: usize
  mbc_paged_block_size :: usize
  mbc_quantization :: quantization
  mbc_kv_type :: kv_cache_type
  mbc_tensor_parallel_degree :: usize

definition metal_backend_config_default :: metal_backend_config where
  "metal_backend_config_default =
     \<lparr>mbc_model_name = ''llama-metal'', mbc_max_context_tokens = 4096, mbc_kv_bytes_per_token = 4, mbc_paged_block_size = 16,
      mbc_quantization = Quant_Q4_0, mbc_kv_type = Fp32, mbc_tensor_parallel_degree = 1\<rparr>"

record metal_runtime_config =
  mrc_model_name :: string
  mrc_memory :: runtime_config
  mrc_quantization :: quantization
  mrc_tensor_parallel_degree :: usize

record metal_runtime =
  mr_config :: metal_runtime_config
  mr_store :: metal_store
  mr_allocator :: page_manager
  mr_bound_prefix :: "cache_lookup option"
  mr_slot_mapping :: "u32 list"

definition is_space :: "char \<Rightarrow> bool" where
  "is_space c \<longleftrightarrow> (of_char c :: nat) \<in> {9, 10, 11, 12, 13, 32}"

definition page_error_text :: "page_manager_error \<Rightarrow> string" where
  "page_error_text e =
     (case e of
        InvalidBlockSize \<Rightarrow> ''block size must be greater than zero''
      | OutOfPages req avail \<Rightarrow>
          ''requested '' @ decimal req @ '' pages but only '' @ decimal avail @ '' are available''
      | UnknownHandle h \<Rightarrow>
          ''unknown KV handle '' @ decimal (unat (block_id h)) @ '' with '' @ decimal (token_len h) @ '' tokens'')"

definition metal_runtime_new :: "metal_device \<Rightarrow> metal_runtime_config \<Rightarrow> (spec_error, metal_runtime) outcome" where
  "metal_runtime_new dev c =
     (let m = mrc_memory c; tp = mrc_tensor_parallel_degree c;
          slot_mapping_len = rc_max_slots m * rc_paged_total_pages m
      in
      if list_all is_space (mrc_model_name c) then Err (Model ''model_name must not be empty'')
      else if rc_bytes_per_token m = 0 then Err (Model ''memory.bytes_per_token must be greater than zero'')
      else if rc_paged_block_size m = 0 then Err (Model ''memory.paged_block_size must be greater than zero'')
      else if rc_paged_total_pages m = 0 then Err (Model ''memory.paged_total_pages must be greater than zero'')
      else if md_count dev < tp
      then Err (Model (''Requested TP degree '' @ decimal tp @ '' but only '' @ decimal (md_count dev) @ '' Metal devices found''))
      else if md_count dev = 0 then Panic
      else if \<not> md_command_queue dev then Err (Model ''Failed to create Metal command queue'')
      else
        bind_outcome (map_err (\<lambda>e. Model (''Failed to load Metal kernels: '' @ e)) (md_library dev)) (\<lambda>_.
        bind_outcome (metal_store_new dev (rc_bytes_per_token m) (rc_paged_total_pages m) (rc_paged_block_size m) (rc_n_layer m)) (\<lambda>store.
        bind_outcome (map_err (\<lambda>e. Model (page_error_text e)) (paged_config_new (rc_paged_block_size m) (rc_paged_total_pages m))) (\<lambda>pc.
          if slot_mapping_len > max64 \<or> slot_mapping_len * 4 > max64 then Panic
          else if \<not> md_new_buffer dev (slot_mapping_len * 4) then Err (Model ''Failed to allocate slot mapping buffer'')
          else Ok \<lparr>mr_config = c, mr_store = store, mr_allocator = page_manager_new pc, mr_bound_prefix = None,
                   mr_slot_mapping = replicate slot_mapping_len 0\<rparr>))))"

definition metal_bind_prefix_cache :: "cache_lookup \<Rightarrow> metal_runtime \<Rightarrow> metal_runtime" where
  "metal_bind_prefix_cache p r = r\<lparr>mr_bound_prefix := Some p\<rparr>"

text \<open>\<open>copy_nonoverlapping\<close> of the pages and zeros behind them, at the slot's place in the table.\<close>

definition metal_bind_slot :: "slot_id \<Rightarrow> u32 list \<Rightarrow> (metal_runtime, spec_error, unit) act" where
  "metal_bind_slot slot ps r =
     (let max_pages = rc_paged_total_pages (mrc_memory (mr_config r)); start = unat slot * max_pages in
      if length ps > max_pages
      then (Err (Model (''Request pages ('' @ decimal (length ps) @ '') exceed max pages per slot ('' @ decimal max_pages @ '')'')), r)
      else if start + max_pages > length (mr_slot_mapping r) then (Panic, r)
      else (Ok (), r\<lparr>mr_slot_mapping :=
              take start (mr_slot_mapping r) @ ps @ replicate (max_pages - length ps) 0 @ drop (start + max_pages) (mr_slot_mapping r)\<rparr>))"

definition on_metal_store :: "(metal_store, 'e, 'a) act \<Rightarrow> (metal_runtime, 'e, 'a) act" where
  "on_metal_store m r = (let (x, s) = m (mr_store r) in (x, r\<lparr>mr_store := s\<rparr>))"

definition on_metal_allocator :: "(page_manager, 'e, 'a) act \<Rightarrow> (metal_runtime, 'e, 'a) act" where
  "on_metal_allocator m r = (let (x, a) = m (mr_allocator r) in (x, r\<lparr>mr_allocator := a\<rparr>))"

definition metal_ops :: "metal_runtime runtime_ops" where
  "metal_ops =
     \<lparr>store_allocate = (\<lambda>n. on_metal_store (metal_allocate n)),
      store_release = (\<lambda>h. on_metal_store (metal_release_block h)),
      store_allocated_bytes = (\<lambda>r. metal_allocated_bytes (mr_store r)),
      pages_allocate = (\<lambda>h n. on_metal_allocator (page_allocate h n)),
      pages_release = (\<lambda>h. on_metal_allocator (page_release h)),
      pages_span = (\<lambda>r. materialize_span (mr_allocator r)),
      rt_bind_slot = metal_bind_slot\<rparr>"

section \<open>The store meets the contract of a block store\<close>

definition metal_inv :: "metal_store \<Rightarrow> bool" where
  "metal_inv s \<longleftrightarrow>
     bt_wf (ms_blocks s) \<and>
     (\<forall>k b. bt_get (ms_blocks s) k = Some b \<longrightarrow>
        block_id (mb_handle b) = k \<and> k < ms_next_block_id s \<and>
        mb_bytes b = token_len (mb_handle b) * ms_bytes_per_token s)"

definition metal_live :: "metal_store \<Rightarrow> kv_handle set" where
  "metal_live s = {h. map_option mb_handle (bt_get (ms_blocks s) (block_id h)) = Some h}"

text \<open>The places taken and the free ones.\<close>

definition metal_places :: "metal_store \<Rightarrow> nat multiset" where
  "metal_places s = mset (ms_free_offsets s) + mset (map mb_offset (bt_values (ms_blocks s)))"

lemma metal_invD:
  assumes "metal_inv s" "bt_get (ms_blocks s) k = Some b"
  shows "block_id (mb_handle b) = k" "k < ms_next_block_id s"
  using assms by (auto simp: metal_inv_def)

lemma metal_allocate_Ok:
  assumes "metal_inv s" "metal_allocate n s = (Ok h, s')"
  shows "metal_inv s'" "h = \<lparr>block_id = ms_next_block_id s, token_len = n\<rparr>"
    "bt_get (ms_blocks s) (ms_next_block_id s) = None"
    "ms_blocks s' = bt_insert (ms_next_block_id s)
       \<lparr>mb_handle = h, mb_bytes = n * ms_bytes_per_token s, mb_offset = last (ms_free_offsets s)\<rparr> (ms_blocks s)"
    "ms_free_offsets s \<noteq> []" "ms_free_offsets s' = butlast (ms_free_offsets s)" "ms_bytes_per_token s' = ms_bytes_per_token s"
proof -
  from assms(2) have m: "ms_next_block_id s \<noteq> - 1" and ne: "ms_free_offsets s \<noteq> []"
    and h: "h = \<lparr>block_id = ms_next_block_id s, token_len = n\<rparr>"
    and s': "s' = s\<lparr>ms_next_block_id := ms_next_block_id s + 1, ms_free_offsets := butlast (ms_free_offsets s),
        ms_blocks := bt_insert (ms_next_block_id s)
          \<lparr>mb_handle = h, mb_bytes = n * ms_bytes_per_token s, mb_offset = last (ms_free_offsets s)\<rparr> (ms_blocks s)\<rparr>"
    by (auto simp: metal_allocate_def Let_def split: if_splits)
  show "h = \<lparr>block_id = ms_next_block_id s, token_len = n\<rparr>" by (rule h)
  show "ms_blocks s' = bt_insert (ms_next_block_id s)
       \<lparr>mb_handle = h, mb_bytes = n * ms_bytes_per_token s, mb_offset = last (ms_free_offsets s)\<rparr> (ms_blocks s)"
    "ms_free_offsets s \<noteq> []" "ms_free_offsets s' = butlast (ms_free_offsets s)" "ms_bytes_per_token s' = ms_bytes_per_token s"
    using ne by (simp_all add: s')
  have lt: "ms_next_block_id s < ms_next_block_id s + 1" using m by (rule word_less_succ_self)
  show "bt_get (ms_blocks s) (ms_next_block_id s) = None"
    using metal_invD(2) [OF assms(1), of "ms_next_block_id s"] by (cases "bt_get (ms_blocks s) (ms_next_block_id s)") auto
  show "metal_inv s'"
    using assms(1) lt unfolding metal_inv_def s' h by (auto simp: less_imp_le intro: less_trans)
qed

lemma metal_live_insert:
  assumes "metal_inv s" "metal_allocate n s = (Ok h, s')"
  shows "metal_live s' = insert h (metal_live s)" "block_id h \<notin> block_id ` metal_live s"
proof -
  note k = metal_allocate_Ok [OF assms]
  have id: "block_id h = ms_next_block_id s" by (simp add: k(2))
  have "g \<in> metal_live s' \<longleftrightarrow> g \<in> insert h (metal_live s)" for g
  proof (cases "block_id g = ms_next_block_id s")
    case True
    then show ?thesis using k(3) by (simp add: metal_live_def k(4) eq_commute)
  next
    case False
    with id have "g \<noteq> h" by metis
    with False show ?thesis by (simp add: metal_live_def k(4))
  qed
  then show "metal_live s' = insert h (metal_live s)" by blast
  show "block_id h \<notin> block_id ` metal_live s" using k(3) id by (auto simp: metal_live_def)
qed

lemma metal_release_live:
  assumes "metal_inv s" "h \<in> metal_live s"
  shows "\<exists>s'. metal_release_block h s = (Ok (), s') \<and> metal_inv s' \<and> metal_live s' = metal_live s - {h}"
proof -
  from assms(2) obtain b where b: "bt_get (ms_blocks s) (block_id h) = Some b" "mb_handle b = h"
    by (auto simp: metal_live_def)
  let ?s = "s\<lparr>ms_blocks := bt_remove (block_id h) (ms_blocks s), ms_free_offsets := ms_free_offsets s @ [mb_offset b]\<rparr>"
  have "g \<in> metal_live s \<Longrightarrow> block_id g = block_id h \<Longrightarrow> g = h" for g
    using b by (simp add: metal_live_def)
  then have "metal_live ?s = metal_live s - {h}" by (force simp: metal_live_def)
  moreover have "metal_inv ?s" using assms(1) by (simp add: metal_inv_def)
  ultimately show ?thesis using b by (simp add: metal_release_block_def)
qed

lemma metal_live_inj: "inj_on block_id (metal_live s)"
proof (rule inj_onI)
  fix g h assume gh: "g \<in> metal_live s" "h \<in> metal_live s" "block_id g = block_id h"
  from gh(1,3) have "map_option mb_handle (bt_get (ms_blocks s) (block_id h)) = Some g" by (simp add: metal_live_def)
  moreover from gh(2) have "map_option mb_handle (bt_get (ms_blocks s) (block_id h)) = Some h" by (simp add: metal_live_def)
  ultimately show "g = h" by (metis option.inject)
qed

interpretation metal_kv: kv_block_store metal_allocate metal_release_block metal_live metal_inv
proof
  fix s n h s' e
  assume inv: "metal_inv s"
  show "metal_allocate n s = (Ok h, s') \<Longrightarrow>
      metal_inv s' \<and> token_len h = n \<and> block_id h \<notin> block_id ` metal_live s \<and> metal_live s' = insert h (metal_live s)"
    using metal_allocate_Ok [OF inv, of n h s'] metal_live_insert [OF inv, of n h s'] by simp
  show "metal_allocate n s = (Err e, s') \<Longrightarrow> metal_inv s' \<and> metal_live s' = metal_live s"
    using inv by (auto simp: metal_allocate_def Let_def split: if_splits)
  show "h \<in> metal_live s \<Longrightarrow> \<exists>s'. metal_release_block h s = (Ok (), s') \<and> metal_inv s' \<and> metal_live s' = metal_live s - {h}"
    by (rule metal_release_live [OF inv])
  show "inj_on block_id (metal_live s)" by (rule metal_live_inj)
  have "metal_live s \<subseteq> mb_handle ` set (bt_values (ms_blocks s))"
    by (auto simp: metal_live_def dest: bt_get_values)
  then show "finite (metal_live s)" by (rule finite_subset) simp
qed

section \<open>The runtime meets the contract of the engine\<close>

definition metal_runtime_inv :: "metal_runtime \<Rightarrow> bool" where
  "metal_runtime_inv r \<longleftrightarrow> metal_inv (mr_store r) \<and> page_inv (mr_allocator r)"

lemma on_metal_store_eq: "on_metal_store m r = (x, r') \<longleftrightarrow> (\<exists>s. m (mr_store r) = (x, s) \<and> r' = r\<lparr>mr_store := s\<rparr>)"
  by (auto simp: on_metal_store_def split: prod.splits)

lemma on_metal_allocator_eq:
  "on_metal_allocator m r = (x, r') \<longleftrightarrow> (\<exists>s. m (mr_allocator r) = (x, s) \<and> r' = r\<lparr>mr_allocator := s\<rparr>)"
  by (auto simp: on_metal_allocator_def split: prod.splits)

lemmas metal_ops_simps = metal_ops_def on_metal_store_eq on_metal_allocator_eq metal_runtime_inv_def

interpretation metal: memory_runtime metal_ops "\<lambda>r. metal_live (mr_store r)" "\<lambda>r. mapped_ids (mr_allocator r)" metal_runtime_inv
proof
  fix r r' :: metal_runtime and n :: usize and h :: kv_handle and d e b slot ps x
  show "metal_runtime_inv r \<Longrightarrow> store_allocate metal_ops n r = (Ok h, r') \<Longrightarrow>
      metal_runtime_inv r' \<and> token_len h = n \<and> block_id h \<notin> block_id ` metal_live (mr_store r) \<and>
      metal_live (mr_store r') = insert h (metal_live (mr_store r)) \<and>
      mapped_ids (mr_allocator r') = mapped_ids (mr_allocator r) \<and> pages_span metal_ops r' = pages_span metal_ops r"
    using metal_kv.allocate_Ok [of "mr_store r" n h] by (auto simp: metal_ops_simps)
  show "metal_runtime_inv r \<Longrightarrow> store_allocate metal_ops n r = (Err e, r') \<Longrightarrow>
      metal_runtime_inv r' \<and> metal_live (mr_store r') = metal_live (mr_store r) \<and>
      mapped_ids (mr_allocator r') = mapped_ids (mr_allocator r) \<and> pages_span metal_ops r' = pages_span metal_ops r"
    using metal_kv.allocate_Err [of "mr_store r" n e] by (auto simp: metal_ops_simps)
  show "\<exists>r'. store_release metal_ops h r = (Ok (), r') \<and> metal_runtime_inv r' \<and>
      metal_live (mr_store r') = metal_live (mr_store r) - {h} \<and>
      mapped_ids (mr_allocator r') = mapped_ids (mr_allocator r) \<and> pages_span metal_ops r' = pages_span metal_ops r"
    if "metal_runtime_inv r" "h \<in> metal_live (mr_store r)"
    using metal_kv.release_live [of "mr_store r" h] that by (fastforce simp: metal_ops_simps)
  show "metal_runtime_inv r \<Longrightarrow> block_id h \<notin> mapped_ids (mr_allocator r) \<Longrightarrow> pages_allocate metal_ops h n r = (Ok b, r') \<Longrightarrow>
      metal_runtime_inv r' \<and> metal_live (mr_store r') = metal_live (mr_store r) \<and>
      mapped_ids (mr_allocator r') = insert (block_id h) (mapped_ids (mr_allocator r)) \<and>
      pages_span metal_ops r' h = Some \<lparr>span_pages = bm_pages b\<rparr> \<and>
      (\<forall>g. block_id g \<noteq> block_id h \<longrightarrow> pages_span metal_ops r' g = pages_span metal_ops r g)"
    using pages.allocate_Ok [of "mr_allocator r" h n b] by (auto simp: metal_ops_simps)
  show "pages_allocate metal_ops h n r = (Err d, r') \<Longrightarrow> r' = r"
    using pages.allocate_Err [of h n "mr_allocator r" d] by (auto simp: metal_ops_simps)
  show "metal_runtime_inv r \<Longrightarrow> fst (pages_allocate metal_ops h n r) \<noteq> Panic"
    using pages.allocate_not_panic [of "mr_allocator r" h n]
    by (auto simp: metal_ops_def metal_runtime_inv_def on_metal_allocator_def split: prod.splits)
  show "\<exists>r'. pages_release metal_ops h r = (Ok (), r') \<and> metal_runtime_inv r' \<and> metal_live (mr_store r') = metal_live (mr_store r) \<and>
      mapped_ids (mr_allocator r') = mapped_ids (mr_allocator r) - {block_id h} \<and>
      (\<forall>g. block_id g \<noteq> block_id h \<longrightarrow> pages_span metal_ops r' g = pages_span metal_ops r g)"
    if "metal_runtime_inv r" "block_id h \<in> mapped_ids (mr_allocator r)"
    using pages.release_mapped [of "mr_allocator r" h] that by (fastforce simp: metal_ops_simps)
  show "(\<exists>p. pages_span metal_ops r h = Some p) \<longleftrightarrow> block_id h \<in> mapped_ids (mr_allocator r)"
    using pages.materialize_mapped by (simp add: metal_ops_def)
  show "metal_runtime_inv r \<Longrightarrow> rt_bind_slot metal_ops slot ps r = (x, r') \<Longrightarrow>
      metal_runtime_inv r' \<and> metal_live (mr_store r') = metal_live (mr_store r) \<and>
      mapped_ids (mr_allocator r') = mapped_ids (mr_allocator r) \<and> pages_span metal_ops r' = pages_span metal_ops r"
    by (auto simp: metal_ops_def metal_bind_slot_def metal_runtime_inv_def Let_def split: if_splits)
  show "metal_runtime_inv r \<Longrightarrow> inj_on block_id (metal_live (mr_store r))"
    by (simp add: metal_live_inj)
qed

text \<open>A new runtime is in order and empty; its table of slots has one row of pages for every slot.\<close>

lemma metal_store_new_Ok:
  assumes "metal_store_new dev bpt n_pages pt nl = Ok s"
  shows "metal_inv s" "metal_live s = {}" "ms_bytes_per_token s = bpt"
    "metal_places s = mset (map (\<lambda>i. i * (pt * bpt)) [0..<n_pages])"
  using assms by (auto simp: metal_store_new_def metal_inv_def metal_live_def metal_places_def bt_values_def Let_def split: if_splits)

lemma metal_runtime_new_Ok:
  assumes "metal_runtime_new dev c = Ok r"
  shows "metal_runtime_inv r" "metal_live (mr_store r) = {}" "mapped_ids (mr_allocator r) = {}"
    "mr_config r = c" "length (mr_slot_mapping r) = rc_max_slots (mrc_memory c) * rc_paged_total_pages (mrc_memory c)"
proof -
  let ?pc = "\<lparr>block_size = rc_paged_block_size (mrc_memory c), page_tokens = rc_paged_block_size (mrc_memory c),
      total_pages = rc_paged_total_pages (mrc_memory c), unified_memory = True, kv_type = Fp32\<rparr>"
  from assms obtain s where s: "metal_store_new dev (rc_bytes_per_token (mrc_memory c)) (rc_paged_total_pages (mrc_memory c))
      (rc_paged_block_size (mrc_memory c)) (rc_n_layer (mrc_memory c)) = (Ok s :: (spec_error, _) outcome)"
    and pc: "0 < block_size ?pc"
    and r: "r = \<lparr>mr_config = c, mr_store = s, mr_allocator = page_manager_new ?pc, mr_bound_prefix = None,
       mr_slot_mapping = replicate (rc_max_slots (mrc_memory c) * rc_paged_total_pages (mrc_memory c)) 0\<rparr>"
    by (auto simp: metal_runtime_new_def paged_config_new_def Let_def split: if_splits)
  show "metal_runtime_inv r" using page_inv_new [OF pc] metal_store_new_Ok(1) [OF s] by (simp add: metal_runtime_inv_def r)
  show "metal_live (mr_store r) = {}" "mapped_ids (mr_allocator r) = {}"
    using metal_store_new_Ok(2) [OF s] by (simp_all add: r mapped_ids_def page_manager_new_def)
  show "mr_config r = c" "length (mr_slot_mapping r) = rc_max_slots (mrc_memory c) * rc_paged_total_pages (mrc_memory c)"
    by (simp_all add: r)
qed

section \<open>Properties\<close>

definition metal_sound :: "(metal_runtime, 'j, 'm) engine \<Rightarrow> bool" where
  "metal_sound e = engine_sound (\<lambda>r. metal_live (mr_store r)) (\<lambda>r. mapped_ids (mr_allocator r)) metal_runtime_inv e"

text \<open>C15. Memory through the life of an engine on Metal: an engine on a new Metal runtime is sound, and
  \<open>generate_batch\<close> keeps it sound on success and on every error. In a sound engine the cached
  sequences, the live blocks and the mapped pages belong together, one to one.\<close>

theorem metal_memory_sound:
  "(metal_runtime_new dev mc = Ok r \<longrightarrow> engine_with_runtime c r = Ok e0 \<longrightarrow> metal_sound e0) \<and>
   (metal_sound e \<longrightarrow> generate_batch fuel metal_ops dm tm reqs (e, d, t) = (x, (e', d', t')) \<longrightarrow> x \<noteq> Panic \<longrightarrow> metal_sound e') \<and>
   (metal_sound e \<longrightarrow>
      mapped_ids (mr_allocator (eng_runtime e)) = block_id ` metal_live (mr_store (eng_runtime e)) \<and>
      metal_live (mr_store (eng_runtime e)) = ran (radix_map (prefix_cache e)))"
  using engine_with_runtime_sound(1) [of c r e0 metal_runtime_inv "\<lambda>r. metal_live (mr_store r)" "\<lambda>r. mapped_ids (mr_allocator r)"]
    metal_runtime_new_Ok(1-3) [of dev mc r] metal.sound_generate_batch [of e fuel dm tm reqs d t x e' d' t']
  unfolding metal_sound_def by (auto simp: engine_sound_def engine_ok_def no_leak_def)

text \<open>A machine with one device, and a small runtime on it.\<close>

definition one_device :: metal_device where
  "one_device = \<lparr>md_count = 1, md_command_queue = True, md_library = Ok (), md_new_buffer = (\<lambda>n. True)\<rparr>"

definition small_metal_config :: metal_runtime_config where
  "small_metal_config =
     \<lparr>mrc_model_name = ''llama-metal'', mrc_memory = runtime_config_new 16 4 8 1 2, mrc_quantization = Quant_Q4_0,
      mrc_tensor_parallel_degree = 1\<rparr>"

lemma small_metal_new: "\<exists>r. metal_runtime_new one_device small_metal_config = Ok r"
  by (simp add: metal_runtime_new_def one_device_def small_metal_config_def runtime_config_new_def is_space_def metal_store_new_def
      paged_config_new_def max64_def)

theorem metal_memory_sound_witness:
  "\<exists>r (e :: (metal_runtime, unit, unit) engine). metal_runtime_new one_device small_metal_config = Ok r \<and>
     engine_with_runtime small_config r = Ok e \<and> metal_sound e"
proof -
  obtain r where r: "metal_runtime_new one_device small_metal_config = Ok r" using small_metal_new by blast
  have "\<exists>e :: (metal_runtime, unit, unit) engine. engine_with_runtime small_config r = Ok e"
    by (simp add: engine_with_runtime_def small_config_def decoder_new_def max64_def)
  then obtain e :: "(metal_runtime, unit, unit) engine" where e: "engine_with_runtime small_config r = Ok e" ..
  have "metal_sound e"
    using metal_memory_sound [THEN conjunct1, of one_device small_metal_config r small_config e] r e by blast
  with r e show ?thesis by (intro exI conjI)
qed

lemma rows_update:
  assumes "length xs = n * k" "j < n" "length row = k"
  defines "ys \<equiv> take (j * k) xs @ row @ drop (j * k + k) xs"
  shows "length ys = n * k" "i < n \<Longrightarrow> take k (drop (i * k) ys) = (if i = j then row else take k (drop (i * k) xs))"
proof -
  have fits: "j * k + k \<le> length xs" using part_end [OF assms(2), of k] assms(1) by simp
  then show "length ys = n * k" using assms(1,3) by (simp add: ys_def)
  have before: "take k (drop m (take a xs @ zs)) = take k (drop m xs)" if "m + k \<le> a" "a \<le> length xs" for m a and zs :: "'a list"
  proof -
    have 1: "take k (drop m (us @ zs)) = take k (drop m us)" if "m + k \<le> length us" for us :: "'a list" using that by simp
    have "length (take a xs) = a" using that(2) by simp
    with that(1) have "take k (drop m (take a xs @ zs)) = take k (drop m (take a xs))" by (intro 1) simp
    also have "\<dots> = take (min k (a - m)) (drop m xs)" by (simp add: drop_take)
    also have "min k (a - m) = k" using that(1) by simp
    finally show ?thesis .
  qed
  show "take k (drop (i * k) ys) = (if i = j then row else take k (drop (i * k) xs))" if "i < n"
  proof (cases i j rule: linorder_cases)
    case less
    then have "i * k + k \<le> j * k" using part_end [of i j k] by simp
    from before [OF this, of "row @ drop (j * k + k) xs"] fits less show ?thesis by (simp add: ys_def)
  next
    case equal
    with fits assms(3) show ?thesis by (simp add: ys_def)
  next
    case greater
    then have "j * k + k \<le> i * k" using part_end [of j i k] by simp
    then obtain d where d: "i * k = j * k + k + d" by (auto simp: le_iff_add)
    have "drop (i * k) ys = drop d (drop (j * k + k) xs)" using fits assms(3) by (simp add: ys_def d)
    with greater d show ?thesis by (simp add: add.commute)
  qed
qed

text \<open>Binding a slot writes the slot's row and nothing else: for every slot of the pool and every list of
  pages that fits, the row becomes the pages followed by zeros, all other rows stay, and the write
  is inside the table; a list that is too long is refused.\<close>

theorem metal_bind_slot_row:
  assumes "max_pages = rc_paged_total_pages (mrc_memory (mr_config r))"
    and "length (mr_slot_mapping r) = n * max_pages" "unat slot < n"
  shows "if length ps \<le> max_pages
    then \<exists>r'. metal_bind_slot slot ps r = (Ok (), r') \<and> length (mr_slot_mapping r') = n * max_pages \<and>
      (\<forall>i < n. take max_pages (drop (i * max_pages) (mr_slot_mapping r')) =
         (if i = unat slot then ps @ replicate (max_pages - length ps) 0
          else take max_pages (drop (i * max_pages) (mr_slot_mapping r))))
    else \<exists>err. metal_bind_slot slot ps r = (Err err, r)"
proof (cases "length ps \<le> max_pages")
  case True
  then have "length (ps @ replicate (max_pages - length ps) (0 :: u32)) = max_pages" by simp
  note R = rows_update [OF assms(2,3) this]
  have "unat slot * max_pages + max_pages \<le> length (mr_slot_mapping r)" using part_end [OF assms(3), of max_pages] assms(2) by simp
  with True R assms(1) show ?thesis by (simp add: metal_bind_slot_def Let_def)
qed (use assms(1) in \<open>simp add: metal_bind_slot_def\<close>)

theorem metal_bind_slot_row_witness:
  "\<exists>r r'. metal_runtime_new one_device small_metal_config = Ok r \<and> metal_bind_slot 1 [5, 6] r = (Ok (), r') \<and>
     take 8 (drop 8 (mr_slot_mapping r')) = [5, 6, 0, 0, 0, 0, 0, 0] \<and>
     take 8 (mr_slot_mapping r') = take 8 (mr_slot_mapping r)"
proof -
  obtain r where r: "metal_runtime_new one_device small_metal_config = Ok r" using small_metal_new by blast
  note N = metal_runtime_new_Ok [OF r]
  have m: "8 = rc_paged_total_pages (mrc_memory (mr_config r))" and l: "length (mr_slot_mapping r) = 2 * 8"
    using N by (simp_all add: small_metal_config_def runtime_config_new_def)
  from metal_bind_slot_row [OF m l, of 1 "[5, 6]"] obtain r' where
    r': "metal_bind_slot 1 [5, 6] r = (Ok (), r')"
    and rows: "\<forall>i < 2. take 8 (drop (i * 8) (mr_slot_mapping r')) =
       (if i = unat (1 :: u32) then [5, 6] @ replicate (8 - length [5, 6 :: u32]) 0 else take 8 (drop (i * 8) (mr_slot_mapping r)))"
    by auto
  from rows [rule_format, of 0] rows [rule_format, of 1] r r' show ?thesis
    by (intro exI [of _ r] exI [of _ r']) (simp add: eval_nat_numeral)
qed

section \<open>Places in the pool\<close>

inductive metal_reach :: "metal_device \<Rightarrow> usize \<Rightarrow> usize \<Rightarrow> usize \<Rightarrow> usize \<Rightarrow> metal_store \<Rightarrow> bool"
  for dev bpt n_pages pt nl where
  start: "metal_store_new dev bpt n_pages pt nl = (Ok s :: (unit, _) outcome) \<Longrightarrow> metal_reach dev bpt n_pages pt nl s"
| alloc: "metal_reach dev bpt n_pages pt nl s \<Longrightarrow> metal_allocate n s = (Ok h, s') \<Longrightarrow> metal_reach dev bpt n_pages pt nl s'"
| free: "metal_reach dev bpt n_pages pt nl s \<Longrightarrow> metal_release_block h s = (Ok (), s') \<Longrightarrow> metal_reach dev bpt n_pages pt nl s'"

lemma metal_reach_places:
  "metal_reach dev bpt n_pages pt nl s \<Longrightarrow>
     metal_inv s \<and> ms_bytes_per_token s = bpt \<and> metal_places s = mset (map (\<lambda>i. i * (pt * bpt)) [0..<n_pages])"
proof (induction rule: metal_reach.induct)
  case (start s)
  then show ?case using metal_store_new_Ok [OF start] by simp
next
  case (alloc s n h s')
  then have inv: "metal_inv s" by simp
  note k = metal_allocate_Ok [OF inv alloc.hyps(2)]
  have "mset (ms_free_offsets s) = add_mset (last (ms_free_offsets s)) (mset (butlast (ms_free_offsets s)))"
    using k(5) by (metis append_butlast_last_id mset.simps(2) mset_append union_mset_add_mset_right add.right_neutral mset.simps(1))
  with alloc.IH k show ?case
    by (simp add: metal_places_def mset_values_insert_fresh [OF k(3)])
next
  case (free s h s')
  then obtain b where b: "bt_get (ms_blocks s) (block_id h) = Some b"
    "s' = s\<lparr>ms_blocks := bt_remove (block_id h) (ms_blocks s), ms_free_offsets := ms_free_offsets s @ [mb_offset b]\<rparr>"
    by (auto simp: metal_release_block_def split: option.splits)
  have wf: "bt_wf (ms_blocks s)" using free.IH by (simp add: metal_inv_def)
  have "metal_inv s'" using free.IH by (auto simp: metal_inv_def b(2))
  with free.IH show ?case using mset_values_remove [OF wf b(1)] by (simp add: metal_places_def b(2))
qed

text \<open>Places are not shared: in every store that comes about by allocating and releasing, each page-sized place
  of the pool is free or belongs to exactly one block, and no place is lost.\<close>

lemma metal_places_exclusive:
  assumes "metal_reach dev bpt n_pages pt nl s" "0 < pt" "0 < bpt"
  shows "distinct (ms_free_offsets s @ map mb_offset (bt_values (ms_blocks s))) \<and>
    set (ms_free_offsets s @ map mb_offset (bt_values (ms_blocks s))) = {i * (pt * bpt) | i. i < n_pages}"
proof -
  have m: "mset (ms_free_offsets s @ map mb_offset (bt_values (ms_blocks s))) = mset (map (\<lambda>i. i * (pt * bpt)) [0..<n_pages])"
    using metal_reach_places [OF assms(1)] by (simp add: metal_places_def)
  have "distinct (map (\<lambda>i. i * (pt * bpt)) [0..<n_pages])" using assms(2,3) by (simp add: distinct_map inj_on_def)
  then have "distinct (ms_free_offsets s @ map mb_offset (bt_values (ms_blocks s)))"
    using m by (metis mset_eq_imp_distinct_iff)
  moreover have "set (ms_free_offsets s @ map mb_offset (bt_values (ms_blocks s))) = set (map (\<lambda>i. i * (pt * bpt)) [0..<n_pages])"
    using m by (metis set_mset_mset)
  ultimately show ?thesis by auto
qed

lemma metal_places_exclusive_instance:
  "\<exists>s. metal_reach one_device 16 8 4 1 s \<and> distinct (ms_free_offsets s @ map mb_offset (bt_values (ms_blocks s)))"
proof -
  let ?s = "\<lparr>ms_next_block_id = 1, ms_bytes_per_token = 16, ms_pool_size = 512, ms_blocks = [],
     ms_free_offsets = [448, 384, 320, 256, 192, 128, 64, 0]\<rparr>"
  have "metal_store_new one_device 16 8 4 1 = (Ok ?s :: (unit, _) outcome)"
    by (simp add: metal_store_new_def one_device_def max64_def upt_rec)
  then have r: "metal_reach one_device 16 8 4 1 ?s" by (rule metal_reach.start)
  from metal_places_exclusive [OF r] r show ?thesis by (intro exI [of _ ?s]) simp
qed

text \<open>A block may need more bytes than its place has: after a block of more tokens than a page holds, the next
  block's place lies inside the bytes of the first.\<close>

theorem metal_blocks_overlap:
  assumes "metal_store_new dev bpt n_pages pt nl = (Ok s :: (unit, _) outcome)" "2 \<le> n_pages" "0 < pt" "0 < bpt" "pt < n"
    and "metal_allocate n s = (Ok g, s1)" "metal_allocate m s1 = (Ok h, s2)"
  shows "\<exists>b c. metal_get_block s2 g = Some b \<and> metal_get_block s2 h = Some c \<and>
    mb_offset b < mb_offset c \<and> mb_offset c < mb_offset b + mb_bytes b"
proof -
  note N = metal_store_new_Ok [OF assms(1)]
  note A = metal_allocate_Ok [OF N(1) assms(6)]
  note B = metal_allocate_Ok [OF A(1) assms(7)]
  obtain k where "n_pages = 2 + k" using assms(2) by (auto simp: le_iff_add)
  then have k: "n_pages = Suc (Suc k)" by simp
  have "ms_free_offsets s = rev (map (\<lambda>i. i * (pt * bpt)) [0..<n_pages])"
    using assms(1) by (auto simp: metal_store_new_def Let_def split: if_splits)
  moreover have "[0..<n_pages] = 0 # 1 # map (Suc \<circ> Suc) [0..<k]"
    by (simp add: k upt_conv_Cons del: upt_Suc) (simp add: map_Suc_upt flip: map_map)
  ultimately have off: "last (ms_free_offsets s) = 0" "last (ms_free_offsets s1) = pt * bpt"
    by (simp_all add: A(6) butlast_append)
  have id: "block_id g \<noteq> block_id h" using A(2) B(3) A(4) B(2) by auto
  have "metal_get_block s2 g = Some \<lparr>mb_handle = g, mb_bytes = n * bpt, mb_offset = 0\<rparr>"
    "metal_get_block s2 h = Some \<lparr>mb_handle = h, mb_bytes = m * bpt, mb_offset = pt * bpt\<rparr>"
    using A B off id N(3) by (auto simp: metal_get_block_def)
  then show ?thesis using assms(3-5) by simp
qed

theorem metal_blocks_overlap_witness:
  "\<exists>s s1 s2 b c. metal_store_new one_device 16 8 4 1 = (Ok s :: (unit, _) outcome) \<and>
     metal_allocate 5 s = (Ok \<lparr>block_id = 1, token_len = 5\<rparr>, s1) \<and> metal_allocate 1 s1 = (Ok \<lparr>block_id = 2, token_len = 1\<rparr>, s2) \<and>
     metal_get_block s2 \<lparr>block_id = 1, token_len = 5\<rparr> = Some b \<and> metal_get_block s2 \<lparr>block_id = 2, token_len = 1\<rparr> = Some c \<and>
     mb_offset b < mb_offset c \<and> mb_offset c < mb_offset b + mb_bytes b"
proof -
  let ?s = "\<lparr>ms_next_block_id = 1, ms_bytes_per_token = 16, ms_pool_size = 512, ms_blocks = [],
     ms_free_offsets = [448, 384, 320, 256, 192, 128, 64, 0]\<rparr>"
  let ?b = "\<lparr>mb_handle = \<lparr>block_id = 1, token_len = 5\<rparr>, mb_bytes = 80, mb_offset = 0\<rparr>"
  let ?c = "\<lparr>mb_handle = \<lparr>block_id = 2, token_len = 1\<rparr>, mb_bytes = 16, mb_offset = 64\<rparr>"
  let ?s1 = "?s\<lparr>ms_next_block_id := 2, ms_blocks := [(1, ?b)], ms_free_offsets := [448, 384, 320, 256, 192, 128, 64]\<rparr>"
  let ?s2 = "?s1\<lparr>ms_next_block_id := 3, ms_blocks := [(1, ?b), (2, ?c)], ms_free_offsets := [448, 384, 320, 256, 192, 128]\<rparr>"
  have s: "metal_store_new one_device 16 8 4 1 = (Ok ?s :: (unit, _) outcome)"
    by (simp add: metal_store_new_def one_device_def max64_def upt_rec)
  have s1: "metal_allocate 5 ?s = (Ok \<lparr>block_id = 1, token_len = 5\<rparr>, ?s1)"
    by (simp add: metal_allocate_def Let_def max64_def)
  have s2: "metal_allocate 1 ?s1 = (Ok \<lparr>block_id = 2, token_len = 1\<rparr>, ?s2)"
    by (simp add: metal_allocate_def Let_def max64_def)
  have "(2 :: nat) \<le> 8" "(0 :: nat) < 4" "(0 :: nat) < 16" "(4 :: nat) < 5" by simp_all
  from metal_blocks_overlap [OF s this s1 s2] s s1 s2 show ?thesis by (elim exE) (intro exI conjI; (assumption | elim conjE))
qed

end
