(* ===== verification/MetalBackend.thy ===== *)
theory MetalBackend
  imports MetalRuntime BackendProps
begin

text \<open>
  The Metal backend (\<open>src/src/metal/backend.rs\<close>) and the pool of models it is switched between
  (\<open>src/src/model_pool.rs\<close>).

  The model on the device is the argument \<open>gpu\<close>: its forward pass, with and without sampling, over a
  state of its own that includes the key and value pools. The allocator, the store and the slot
  table are shared with the runtime: the operations read the runtime's current state \<open>r\<close>, and the
  backend only knows whether it has been wired to them. Loading a model file and uploading its
  weights is the argument \<open>load\<close>; a background load is its own operation at the time it completes.
\<close>

section \<open>The pool of models\<close>

record 'g model_pool =
  mp_models :: "(string, 'g) hash_map"
  mp_device :: bool
  mp_queue :: bool
  mp_library :: bool

definition pool_new :: "bool \<Rightarrow> bool \<Rightarrow> bool \<Rightarrow> 'g model_pool" where
  "pool_new dev queue library = \<lparr>mp_models = [], mp_device = dev, mp_queue = queue, mp_library = library\<rparr>"

definition pool_get :: "'g model_pool \<Rightarrow> string \<Rightarrow> 'g option" where
  "pool_get p name = map_of (mp_models p) name"

definition pool_add :: "string \<Rightarrow> 'g \<Rightarrow> 'g model_pool \<Rightarrow> 'g model_pool" where
  "pool_add name model p = p\<lparr>mp_models := hm_insert name model (mp_models p)\<rparr>"

definition pool_remove :: "string \<Rightarrow> 'g model_pool \<Rightarrow> 'g model_pool" where
  "pool_remove name p = p\<lparr>mp_models := filter (\<lambda>(n, _). n \<noteq> name) (mp_models p)\<rparr>"

text \<open>\<open>load_sync\<close>, and the closure that \<open>prefetch\<close> runs on its own thread.\<close>

definition pool_load_sync ::
  "(string \<Rightarrow> (spec_error, 'g) outcome) \<Rightarrow> string \<Rightarrow> string \<Rightarrow> ('g model_pool, spec_error, unit) act" where
  "pool_load_sync load name path p =
     (if \<not> mp_device p then (Err (Model ''No device''), p)
      else if \<not> mp_queue p then (Err (Model ''No queue''), p)
      else if \<not> mp_library p then (Err (Model ''No library''), p)
      else case load path of
             Err e \<Rightarrow> (Err e, p)
           | Panic \<Rightarrow> (Panic, p)
           | Ok model \<Rightarrow> (Ok (), pool_add name model p))"

section \<open>The backend\<close>

record 'g gpu_model =
  gpu_run :: "token_id \<Rightarrow> usize \<Rightarrow> slot_id \<Rightarrow> u32 list \<Rightarrow> usize \<Rightarrow> usize \<Rightarrow> kv_cache_type \<Rightarrow> ('g, spec_error, f32 list) act"
  gpu_run_with_sampling :: "token_id \<Rightarrow> usize \<Rightarrow> slot_id \<Rightarrow> u32 list \<Rightarrow> usize \<Rightarrow> usize \<Rightarrow> kv_cache_type \<Rightarrow> ('g, spec_error, u32) act"

record 'g metal_backend =
  mbk_config :: metal_backend_config
  mbk_bound_prefix :: "cache_lookup option"
  mbk_model :: "'g option"
  mbk_allocator :: bool
  mbk_store :: bool
  mbk_slot_id :: "slot_id option"
  mbk_slot_mapping :: bool

definition metal_backend_new :: "metal_backend_config \<Rightarrow> (spec_error, 'g metal_backend) outcome" where
  "metal_backend_new c =
     (if mbc_max_context_tokens c = 0 then Err (Model ''max_context_tokens must be greater than zero'')
      else if mbc_kv_bytes_per_token c = 0 then Err (Model ''kv_bytes_per_token must be greater than zero'')
      else Ok \<lparr>mbk_config = c, mbk_bound_prefix = None, mbk_model = None, mbk_allocator = False, mbk_store = False,
               mbk_slot_id = None, mbk_slot_mapping = False\<rparr>)"

definition with_model :: "'g \<Rightarrow> 'g metal_backend \<Rightarrow> 'g metal_backend" where
  "with_model g b = b\<lparr>mbk_model := Some g\<rparr>"

text \<open>\<open>upload\<close> is the new model with the store's weights.\<close>

definition wire :: "bool \<Rightarrow> bool \<Rightarrow> bool \<Rightarrow> (spec_error, 'g) outcome \<Rightarrow> ('g metal_backend, spec_error, unit) act" where
  "wire dev queue library upload b =
     (if \<not> dev then (Err (Model ''Runtime missing device''), b)
      else if \<not> queue then (Err (Model ''Runtime missing queue''), b)
      else if \<not> library then (Err (Model ''Runtime missing library''), b)
      else case upload of
             Err e \<Rightarrow> (Err e, b)
           | Panic \<Rightarrow> (Panic, b)
           | Ok g \<Rightarrow> (Ok (), b\<lparr>mbk_model := Some g, mbk_allocator := True, mbk_store := True, mbk_slot_mapping := True\<rparr>))"

definition metal_switch_model :: "'g model_pool \<Rightarrow> string \<Rightarrow> ('g metal_backend, spec_error, unit) act" where
  "metal_switch_model p name b =
     (case pool_get p name of
        None \<Rightarrow> (Err (Model (''Model '' @ name @ '' not found in pool'')), b)
      | Some g \<Rightarrow> (Ok (), b\<lparr>mbk_model := Some g\<rparr>))"

definition metal_bind_prefix :: "cache_lookup \<Rightarrow> ('g metal_backend, spec_error, unit) act" where
  "metal_bind_prefix p b = (Ok (), b\<lparr>mbk_bound_prefix := Some p\<rparr>)"

definition metal_backend_bind_slot :: "slot_id \<Rightarrow> ('g metal_backend, spec_error, unit) act" where
  "metal_backend_bind_slot s b = (Ok (), b\<lparr>mbk_slot_id := Some s\<rparr>)"

definition handle_text :: "kv_handle \<Rightarrow> string" where
  "handle_text h =
     ''KvCacheHandle { block_id: '' @ decimal (unat (block_id h)) @ '', token_len: '' @ decimal (token_len h) @ '' }''"

text \<open>The guards that the operations share, up to the pages of the bound prefix.\<close>

definition prefix_span :: "metal_runtime \<Rightarrow> 'g metal_backend \<Rightarrow> (spec_error, page_span) outcome" where
  "prefix_span r b =
     (case mbk_bound_prefix b of
        None \<Rightarrow> Err (Model ''No prefix bound'')
      | Some p \<Rightarrow>
          case lookup_handle p of
            None \<Rightarrow> Err (Model ''Prefix has no KV handle'')
          | Some h \<Rightarrow>
              case materialize_span (mr_allocator r) h of
                None \<Rightarrow> Err (Model (''Could not materialize span for prefix '' @ handle_text h))
              | Some s \<Rightarrow> Ok s)"

definition wired_guard :: "'g metal_backend \<Rightarrow> (spec_error, 'g) outcome" where
  "wired_guard b =
     (case mbk_model b of
        None \<Rightarrow> Err (Model ''Metal backend skeleton is not wired to model weights or kernels yet'')
      | Some g \<Rightarrow>
          if \<not> mbk_allocator b then Err (Model ''Allocator not wired'')
          else if \<not> mbk_store b then Err (Model ''Store not wired'')
          else Ok g)"

text \<open>The loop over the pages of the prefix; dividing by a page of zero bytes panics.\<close>

fun block_indices :: "metal_store \<Rightarrow> usize \<Rightarrow> page_id list \<Rightarrow> (spec_error, u32 list) outcome" where
  "block_indices s page_bytes [] = Ok []"
| "block_indices s page_bytes (p # ps) =
     (case metal_get_block s \<lparr>block_id = of_nat p, token_len = 0\<rparr> of
        None \<Rightarrow> Err (Model (''Block PageId('' @ decimal p @ '') not found in store''))
      | Some blk \<Rightarrow>
          if page_bytes = 0 then Panic
          else bind_outcome (block_indices s page_bytes ps) (\<lambda>is. Ok (of_nat (mb_offset blk div page_bytes) # is)))"

definition slot_guard :: "'g metal_backend \<Rightarrow> (spec_error, slot_id) outcome" where
  "slot_guard b =
     (case mbk_slot_id b of
        None \<Rightarrow> Err (Model ''Slot not bound'')
      | Some s \<Rightarrow> if mbk_slot_mapping b then Ok s else Err (Model ''Slot mapping not wired''))"

definition on_model :: "('g, spec_error, 'a) act \<Rightarrow> 'g \<Rightarrow> ('g metal_backend, spec_error, 'a) act" where
  "on_model m g b = (let (x, g1) = m g in (x, b\<lparr>mbk_model := Some g1\<rparr>))"

definition metal_forward :: "'g gpu_model \<Rightarrow> metal_runtime \<Rightarrow> slot_id \<Rightarrow> token_id \<Rightarrow> usize \<Rightarrow> ('g metal_backend, spec_error, f32 list) act" where
  "metal_forward gpu r slot tok pos b =
     (case mbk_model b of
        None \<Rightarrow> (Panic, b)
      | Some g \<Rightarrow>
          on_model (gpu_run gpu tok pos slot (mr_slot_mapping r) (total_pages (pm_config (mr_allocator r)))
            (mbc_paged_block_size (mbk_config b)) (mbc_kv_type (mbk_config b))) g b)"

definition metal_next_logits :: "'g gpu_model \<Rightarrow> metal_runtime \<Rightarrow> token_id list \<Rightarrow> ('g metal_backend, spec_error, f32 list) act" where
  "metal_next_logits gpu r ctx b =
     (let guards =
        bind_outcome (wired_guard b) (\<lambda>_.
        if ctx = [] then Err (Model ''next_logits called with empty context'')
        else
          bind_outcome (prefix_span r b) (\<lambda>span.
          bind_outcome (block_indices (mr_store r) (mbc_paged_block_size (mbk_config b) * mbc_kv_bytes_per_token (mbk_config b)) (span_pages span)) (\<lambda>_.
          slot_guard b)))
      in case guards of
           Err e \<Rightarrow> (Err e, b)
         | Panic \<Rightarrow> (Panic, b)
         | Ok slot \<Rightarrow> and_then (metal_forward gpu r slot (last ctx) (length ctx - 1)) (\<lambda>logits b. (token_logits_new logits, b)) b)"

text \<open>\<open>sampler\<close>: whether it is the greedy one, and its \<open>sample\<close>.\<close>

definition metal_sample_next ::
  "'g gpu_model \<Rightarrow> metal_runtime \<Rightarrow> token_id list \<Rightarrow> bool \<Rightarrow> (f32 list \<Rightarrow> logit_mask option \<Rightarrow> (spec_error, prediction) outcome)
   \<Rightarrow> ('g metal_backend, spec_error, prediction) act" where
  "metal_sample_next gpu r ctx is_greedy sampler b =
     (let guards =
        bind_outcome (wired_guard b) (\<lambda>g.
        bind_outcome (prefix_span r b) (\<lambda>_.
        if ctx = [] then Err (Model ''Empty context'')
        else bind_outcome (slot_guard b) (\<lambda>slot. Ok (g, slot))))
      in case guards of
           Err e \<Rightarrow> (Err e, b)
         | Panic \<Rightarrow> (Panic, b)
         | Ok (g, slot) \<Rightarrow>
             if is_greedy
             then and_then (on_model (gpu_run_with_sampling gpu (last ctx) (length ctx - 1) slot (mr_slot_mapping r)
                    (total_pages (pm_config (mr_allocator r))) (mbc_paged_block_size (mbk_config b)) (mbc_kv_type (mbk_config b))) g)
                  (\<lambda>tok. ret \<lparr>token = tok, confidence = f32_one\<rparr>) b
             else and_then (metal_forward gpu r slot (last ctx) (length ctx - 1)) (\<lambda>logits b. (sampler logits None, b)) b)"

fun verify_run :: "'g gpu_model \<Rightarrow> metal_runtime \<Rightarrow> slot_id \<Rightarrow> usize \<Rightarrow> token_id list \<Rightarrow> ('g metal_backend, spec_error, f32 list list) act" where
  "verify_run gpu r slot pos [] b = (Ok [], b)"
| "verify_run gpu r slot pos (tok # toks) b =
     and_then (metal_forward gpu r slot tok pos) (\<lambda>logits b.
       case token_logits_new logits of
         Err e \<Rightarrow> (Err e, b)
       | Panic \<Rightarrow> (Panic, b)
       | Ok l \<Rightarrow> and_then (verify_run gpu r slot (pos + 1) toks) (\<lambda>ls. ret (l # ls)) b) b"

definition metal_verify_logits ::
  "'g gpu_model \<Rightarrow> metal_runtime \<Rightarrow> token_id list \<Rightarrow> token_id list \<Rightarrow> ('g metal_backend, spec_error, f32 list list) act" where
  "metal_verify_logits gpu r ctx ds b =
     (let guards =
        bind_outcome (wired_guard b) (\<lambda>_.
        bind_outcome (prefix_span r b) (\<lambda>span.
        bind_outcome (block_indices (mr_store r) (mbc_paged_block_size (mbk_config b) * mbc_kv_bytes_per_token (mbk_config b)) (span_pages span)) (\<lambda>_.
        slot_guard b)))
      in case guards of
           Err e \<Rightarrow> (Err e, b)
         | Panic \<Rightarrow> (Panic, b)
         | Ok slot \<Rightarrow> verify_run gpu r slot (length ctx) ds b)"

definition metal_backend_ops :: "'g gpu_model \<Rightarrow> metal_runtime \<Rightarrow> 'g metal_backend backend" where
  "metal_backend_ops gpu r =
     \<lparr>b_bind_prefix = metal_bind_prefix, b_bind_slot = metal_backend_bind_slot,
      b_next_logits = metal_next_logits gpu r,
      b_next_logits_batch = next_logits_batch_default (metal_next_logits gpu r),
      b_verify_logits = metal_verify_logits gpu r,
      b_verify_logits_batch = verify_logits_batch_default (metal_verify_logits gpu r)\<rparr>"

section \<open>Properties\<close>

lemma block_not_found:
  assumes "\<forall>h \<in> metal_live s. 0 < token_len h"
  shows "metal_get_block s \<lparr>block_id = k, token_len = 0\<rparr> = None"
proof (rule ccontr)
  assume "metal_get_block s \<lparr>block_id = k, token_len = 0\<rparr> \<noteq> None"
  then have "\<lparr>block_id = k, token_len = 0\<rparr> \<in> metal_live s"
    by (auto simp: metal_get_block_def metal_live_def split: option.splits if_splits)
  with assms have "0 < token_len \<lparr>block_id = k, token_len = 0\<rparr>" by blast
  then show False by simp
qed

text \<open>On Metal a cached prefix makes generation impossible: the backend looks up the pages of the prefix as
  blocks of length zero, and the store holds no such block, because the engine only caches sequences
  that have tokens. So with a prefix that has pages, reading the next logits and verifying a draft
  both fail on the first page, without calling the model.\<close>

lemma metal_prefix_blocks_missing:
  assumes "\<forall>h \<in> metal_live (mr_store r). 0 < token_len h"
    and "wired_guard b = Ok g" "prefix_span r b = Ok span" "span_pages span = p # ps" "ctx \<noteq> []"
  shows "metal_next_logits gpu r ctx b = (Err (Model (''Block PageId('' @ decimal p @ '') not found in store'')), b) \<and>
    metal_verify_logits gpu r ctx ds b = (Err (Model (''Block PageId('' @ decimal p @ '') not found in store'')), b)"
  using assms(2-5) block_not_found [OF assms(1)] by (simp add: metal_next_logits_def metal_verify_logits_def)

lemma metal_sound_tokens:
  assumes "metal_sound e" "radix_map (prefix_cache e) [] = None"
  shows "\<forall>h \<in> metal_live (mr_store (eng_runtime e)). 0 < token_len h"
proof
  fix h assume h: "h \<in> metal_live (mr_store (eng_runtime e))"
  have r: "radix_inv (prefix_cache e)" "metal_live (mr_store (eng_runtime e)) = ran (radix_map (prefix_cache e))"
    using assms(1) by (auto simp: metal_sound_def engine_sound_def engine_ok_def no_leak_def)
  with h obtain ks where ks: "radix_map (prefix_cache e) ks = Some h" by (auto simp: ran_def)
  with assms(2) have "ks \<noteq> []" by auto
  with radix_map_length [OF r(1) ks] show "0 < token_len h" by (cases ks) auto
qed

text \<open>A runtime that caches one sequence of three tokens on page 0, and a backend wired to it.\<close>

definition cached_runtime :: metal_runtime where
  "cached_runtime =
     \<lparr>mr_config = small_metal_config,
      mr_store = \<lparr>ms_next_block_id = 2, ms_bytes_per_token = 16, ms_pool_size = 128,
        ms_blocks = [(1, \<lparr>mb_handle = \<lparr>block_id = 1, token_len = 3\<rparr>, mb_bytes = 48, mb_offset = 0\<rparr>)], ms_free_offsets = [64]\<rparr>,
      mr_allocator = \<lparr>pm_config = \<lparr>block_size = 4, page_tokens = 4, total_pages = 2, unified_memory = True, kv_type = Fp32\<rparr>,
        free_pages = [1], mappings = [(1, \<lparr>bm_handle = \<lparr>block_id = 1, token_len = 3\<rparr>, bm_pages = [0], bm_token_len = 3\<rparr>)]\<rparr>,
      mr_bound_prefix = None, mr_slot_mapping = [0, 0]\<rparr>"

definition wired_backend :: "kv_handle \<Rightarrow> unit metal_backend" where
  "wired_backend h =
     \<lparr>mbk_config = metal_backend_config_default, mbk_bound_prefix = Some \<lparr>matched_tokens = token_len h, lookup_handle = Some h\<rparr>,
      mbk_model = Some (), mbk_allocator = True, mbk_store = True, mbk_slot_id = Some 0, mbk_slot_mapping = True\<rparr>"

definition echo_gpu :: "unit gpu_model" where
  "echo_gpu =
     \<lparr>gpu_run = (\<lambda>tok pos s m n bs k. ret [of_nat pos, tok]), gpu_run_with_sampling = (\<lambda>tok pos s m n bs k. ret tok)\<rparr>"

lemma cached_runtime_tokens: "\<forall>h \<in> metal_live (mr_store cached_runtime). 0 < token_len h"
  by (auto simp: cached_runtime_def metal_live_def split: if_splits)

lemma metal_prefix_blocks_missing_instance:
  "metal_next_logits echo_gpu cached_runtime [7, 8, 9] (wired_backend \<lparr>block_id = 1, token_len = 3\<rparr>) =
     (Err (Model (''Block PageId('' @ decimal 0 @ '') not found in store'')), wired_backend \<lparr>block_id = 1, token_len = 3\<rparr>)"
proof -
  let ?b = "wired_backend \<lparr>block_id = 1, token_len = 3\<rparr>"
  have g: "wired_guard ?b = Ok ()" by (simp add: wired_guard_def wired_backend_def)
  have p: "prefix_span cached_runtime ?b = Ok \<lparr>span_pages = [0]\<rparr>"
    by (simp add: prefix_span_def wired_backend_def cached_runtime_def materialize_span_def)
  show ?thesis by (rule metal_prefix_blocks_missing [THEN conjunct1, OF cached_runtime_tokens g p]) simp_all
qed

lemma metal_forward_pure:
  assumes "\<And>tok pos s m n bs k g. gpu_run gpu tok pos s m n bs k g = (Ok (lg tok pos), g)" "mbk_model b = Some g"
  shows "metal_forward gpu r slot tok pos b = (Ok (lg tok pos), b)"
  using assms(2) by (simp add: metal_forward_def on_model_def assms(1))

lemma verify_run_pure:
  assumes "\<And>tok pos s m n bs k g. gpu_run gpu tok pos s m n bs k g = (Ok (lg tok pos), g)" "\<And>tok pos. lg tok pos \<noteq> []" "mbk_model b = Some g"
  shows "verify_run gpu r slot pos ds b = (Ok (map (\<lambda>i. lg (ds ! i) (pos + i)) [0..<length ds]), b)"
proof (induction ds arbitrary: pos)
  case (Cons d ds)
  have "[0..<length (d # ds)] = 0 # map Suc [0..<length ds]" by (simp add: upt_conv_Cons map_Suc_upt del: upt_Suc)
  then show ?case
    using Cons [of "pos + 1"] metal_forward_pure [of gpu lg, OF assms(1,3)] assms(2)
    by (simp add: and_then_def ret_def token_logits_new_def comp_def)
qed simp

text \<open>On Metal a draft is verified one position late: with a forward pass that depends on the token and its
  position, the logits returned for drafted token \<open>i\<close> are the ones that \<open>next_logits\<close> returns for the
  context followed by the drafted tokens up to and including token \<open>i\<close>. The models compare them with
  token \<open>i\<close> itself, which they come after.\<close>

theorem metal_verify_reads_ahead:
  assumes "\<And>tok pos s m n bs k g. gpu_run gpu tok pos s m n bs k g = (Ok (lg tok pos), g)" "\<And>tok pos. lg tok pos \<noteq> []"
    and "wired_guard b = Ok g" "prefix_span r b = Ok span" "span_pages span = []" "slot_guard b = Ok slot"
  shows "\<exists>ls. metal_verify_logits gpu r ctx ds b = (Ok ls, b) \<and> length ls = length ds \<and>
    (\<forall>i < length ds. metal_next_logits gpu r (ctx @ take (Suc i) ds) b = (Ok (ls ! i), b))"
proof -
  have m: "mbk_model b = Some g" using assms(3) by (auto simp: wired_guard_def split: option.splits if_splits)
  let ?ls = "map (\<lambda>i. lg (ds ! i) (length ctx + i)) [0..<length ds]"
  have "metal_verify_logits gpu r ctx ds b = (Ok ?ls, b)"
    using assms(3-6) verify_run_pure [of gpu lg, OF assms(1,2) m] by (simp add: metal_verify_logits_def)
  moreover have "metal_next_logits gpu r (ctx @ take (Suc i) ds) b = (Ok (?ls ! i), b)" if "i < length ds" for i
  proof -
    have t: "ctx @ take (Suc i) ds = (ctx @ take i ds) @ [ds ! i]" using that by (simp add: take_Suc_conv_app_nth)
    show ?thesis
      using that assms(2-6) metal_forward_pure [of gpu lg, OF assms(1) m]
      unfolding t by (simp add: metal_next_logits_def and_then_def token_logits_new_def)
  qed
  ultimately show ?thesis by (intro exI [of _ ?ls]) simp
qed

theorem metal_verify_reads_ahead_witness:
  "\<exists>ls. metal_verify_logits echo_gpu (cached_runtime\<lparr>mr_allocator := (mr_allocator cached_runtime)\<lparr>mappings :=
        [(1, \<lparr>bm_handle = \<lparr>block_id = 1, token_len = 0\<rparr>, bm_pages = [], bm_token_len = 0\<rparr>)]\<rparr>\<rparr>) [7] [8, 9]
      (wired_backend \<lparr>block_id = 1, token_len = 0\<rparr>) = (Ok ls, wired_backend \<lparr>block_id = 1, token_len = 0\<rparr>) \<and> length ls = 2"
proof -
  let ?b = "wired_backend \<lparr>block_id = 1, token_len = 0\<rparr>"
  let ?r = "cached_runtime\<lparr>mr_allocator := (mr_allocator cached_runtime)\<lparr>mappings :=
        [(1, \<lparr>bm_handle = \<lparr>block_id = 1, token_len = 0\<rparr>, bm_pages = [], bm_token_len = 0\<rparr>)]\<rparr>\<rparr>"
  have run: "gpu_run echo_gpu tok pos s m n bs k g = (Ok [of_nat pos, tok], g)" for tok pos s m n bs k g
    by (simp add: echo_gpu_def ret_def)
  have g: "wired_guard ?b = Ok ()" "slot_guard ?b = Ok 0" by (simp_all add: wired_guard_def slot_guard_def wired_backend_def)
  have p: "prefix_span ?r ?b = Ok \<lparr>span_pages = []\<rparr>"
    by (simp add: prefix_span_def wired_backend_def cached_runtime_def materialize_span_def)
  from metal_verify_reads_ahead [of echo_gpu "\<lambda>tok pos. [of_nat pos, tok]", OF run _ g(1) p _ g(2), of "[7]" "[8, 9]"]
  show ?thesis by auto
qed

end
