(* ===== verification/ModelLoader.thy ===== *)
theory ModelLoader
  imports GgufProps Sharding PagedAttention
begin

text \<open>
  The model loader (\<open>src/src/model_loader.rs\<close>): the dimensions of a model from the metadata of its file, the
  store of its weights, the check that every tensor of the architecture is there, and the dummy model
  of the tests and benchmarks. The file system is the contents of the file, or nothing when it cannot
  be opened; the text of an I/O error is left out, and the shapes of an \<open>InvalidShape\<close> error are lists.
\<close>

section \<open>Dimensions\<close>

record model_meta =
  mm_arch :: rust_string
  mm_n_vocab :: usize
  mm_n_embd :: usize
  mm_n_layer :: usize
  mm_n_head :: usize
  mm_n_head_kv :: usize
  mm_n_ctx :: usize
  mm_n_ff :: usize
  mm_head_dim :: usize
  mm_rope_freq_base :: f32
  mm_norm_eps :: f32
  mm_quantization :: quantization

datatype load_error =
    LoadIo
  | LoadGguf gguf_error
  | MissingMeta rust_string
  | MissingTensor rust_string
  | InvalidShape rust_string "u64 list" "u64 list"

definition infer_quantization :: "gguf_file \<Rightarrow> quantization" where
  "infer_quantization f =
     (case (case map_of (tensors f) (ascii ''blk.0.attn_q.weight'') of
              None \<Rightarrow> map_of (tensors f) (ascii ''token_embd.weight'')
            | Some t \<Rightarrow> Some t) of
        None \<Rightarrow> Quant_Q4_0
      | Some t \<Rightarrow> if ti_dtype t = T_Q4K then Quant_Q4K else Quant_Q4_0)"

definition meta_u32 :: "gguf_file \<Rightarrow> rust_string \<Rightarrow> usize option" where
  "meta_u32 f key = map_option unat (Option.bind (map_of (metadata f) key) as_u32)"

definition require_u32 :: "gguf_file \<Rightarrow> rust_string \<Rightarrow> (load_error, usize) outcome" where
  "require_u32 f key = (case meta_u32 f key of None \<Rightarrow> Err (MissingMeta key) | Some v \<Rightarrow> Ok v)"

definition opt_f32 :: "gguf_file \<Rightarrow> rust_string \<Rightarrow> f32 \<Rightarrow> f32" where
  "opt_f32 f key dflt = (case Option.bind (map_of (metadata f) key) as_f32 of None \<Rightarrow> dflt | Some v \<Rightarrow> v)"

text \<open>The two defaults are the bit patterns of \<open>10000.0\<close> and \<open>1e-5\<close>.\<close>

definition meta_from_gguf :: "gguf_file \<Rightarrow> (load_error, model_meta) outcome" where
  "meta_from_gguf f =
     (let arch = (case Option.bind (map_of (metadata f) (ascii ''general.architecture'')) as_str of None \<Rightarrow> ascii ''llama'' | Some s \<Rightarrow> s);
          key = (\<lambda>s. arch @ ascii s)
      in
      bind_outcome
        (case Option.bind (map_of (metadata f) (ascii ''tokenizer.ggml.tokens'')) as_array of
           Some vs \<Rightarrow> Ok (length vs)
         | None \<Rightarrow> (case meta_u32 f (key ''.vocab_size'') of None \<Rightarrow> Err (MissingMeta (ascii ''vocab_size'')) | Some v \<Rightarrow> Ok v)) (\<lambda>n_vocab.
      bind_outcome (require_u32 f (key ''.embedding_length'')) (\<lambda>n_embd.
      bind_outcome (require_u32 f (key ''.block_count'')) (\<lambda>n_layer.
      bind_outcome (require_u32 f (key ''.attention.head_count'')) (\<lambda>n_head.
        let n_head_kv = (case meta_u32 f (key ''.attention.head_count_kv'') of None \<Rightarrow> n_head | Some v \<Rightarrow> v);
            n_ctx = (case meta_u32 f (key ''.context_length'') of None \<Rightarrow> 4096 | Some v \<Rightarrow> v)
        in
        bind_outcome (require_u32 f (key ''.feed_forward_length'')) (\<lambda>n_ff.
          if n_head = 0 then Panic
          else
            Ok \<lparr>mm_arch = arch, mm_n_vocab = n_vocab, mm_n_embd = n_embd, mm_n_layer = n_layer, mm_n_head = n_head,
                mm_n_head_kv = n_head_kv, mm_n_ctx = n_ctx, mm_n_ff = n_ff, mm_head_dim = n_embd div n_head,
                mm_rope_freq_base = opt_f32 f (key ''.rope.freq_base'') 0x461C4000,
                mm_norm_eps = opt_f32 f (key ''.attention.layer_norm_rms_epsilon'') 0x3727C5AC,
                mm_quantization = infer_quantization f\<rparr>))))))"

fun kv_bytes_per_token_per_head :: "model_meta \<Rightarrow> kv_cache_type \<Rightarrow> usize" where
  "kv_bytes_per_token_per_head m Fp32 = mm_head_dim m * 4"
| "kv_bytes_per_token_per_head m Int8 = mm_head_dim m + 4"
| "kv_bytes_per_token_per_head m Fp8 = mm_head_dim m + 4"

definition kv_bytes_per_token :: "model_meta \<Rightarrow> kv_cache_type \<Rightarrow> usize" where
  "kv_bytes_per_token m t = mm_n_head_kv m * kv_bytes_per_token_per_head m t"

section \<open>The store of weights\<close>

record weight_store =
  ws_meta :: model_meta
  ws_index :: "(rust_string, tensor_info) hash_map"
  ws_data :: "u8 list"

definition weight_get :: "weight_store \<Rightarrow> rust_string \<Rightarrow> (load_error, u8 list option) outcome" where
  "weight_get s nm =
     (case map_of (ws_index s) nm of
        None \<Rightarrow> Ok None
      | Some info \<Rightarrow>
          let start = unat (ti_offset info); finish = start + ti_nbytes info in
          if finish > max64 then Panic
          else if finish \<le> length (ws_data s) then Ok (Some (take (ti_nbytes info) (drop start (ws_data s))))
          else Ok None)"

definition weight_require :: "weight_store \<Rightarrow> rust_string \<Rightarrow> (load_error, u8 list) outcome" where
  "weight_require s nm =
     bind_outcome (weight_get s nm) (\<lambda>x. case x of None \<Rightarrow> Err (MissingTensor nm) | Some bs \<Rightarrow> Ok bs)"

definition weight_dtype :: "weight_store \<Rightarrow> rust_string \<Rightarrow> ggml_type option" where
  "weight_dtype s nm = map_option ti_dtype (map_of (ws_index s) nm)"

definition weight_shape :: "weight_store \<Rightarrow> rust_string \<Rightarrow> u64 list option" where
  "weight_shape s nm = map_option ti_shape (map_of (ws_index s) nm)"

definition layer_name :: "nat \<Rightarrow> string \<Rightarrow> rust_string" where
  "layer_name l suffix = ascii (''layers.'' @ decimal l @ ''.'' @ suffix)"

text \<open>The checks of \<open>validate\<close> in their order: what is expected of each tensor.\<close>

definition layer_tensors :: "model_meta \<Rightarrow> nat \<Rightarrow> (rust_string \<times> u64 list) list" where
  "layer_tensors m l =
     (let n_embd = of_nat (mm_n_embd m); n_ff = of_nat (mm_n_ff m); n_kv = of_nat (mm_n_head_kv m) * of_nat (mm_head_dim m) in
      [(layer_name l ''attention_norm.weight'', [n_embd]),
       (layer_name l ''attention.wq.weight'', [n_embd, n_embd]),
       (layer_name l ''attention.wk.weight'', [n_embd, n_kv]),
       (layer_name l ''attention.wv.weight'', [n_embd, n_kv]),
       (layer_name l ''attention.wo.weight'', [n_embd, n_embd]),
       (layer_name l ''ffn_norm.weight'', [n_embd]),
       (layer_name l ''feed_forward.w1.weight'', [n_embd, n_ff]),
       (layer_name l ''feed_forward.w2.weight'', [n_ff, n_embd]),
       (layer_name l ''feed_forward.w3.weight'', [n_embd, n_ff])])"

definition expected_tensors :: "model_meta \<Rightarrow> (rust_string \<times> u64 list) list" where
  "expected_tensors m =
     (let n_embd = of_nat (mm_n_embd m); n_vocab = of_nat (mm_n_vocab m) in
      (ascii ''token_embd.weight'', [n_embd, n_vocab]) #
      concat (map (layer_tensors m) [0..<mm_n_layer m]) @
      [(ascii ''output_norm.weight'', [n_embd]), (ascii ''output.weight'', [n_embd, n_vocab])])"

definition check_tensor :: "weight_store \<Rightarrow> rust_string \<times> u64 list \<Rightarrow> (load_error, unit) outcome" where
  "check_tensor s = (\<lambda>(nm, shape).
     case map_of (ws_index s) nm of
       None \<Rightarrow> Err (MissingTensor nm)
     | Some info \<Rightarrow> if ti_shape info \<noteq> shape then Err (InvalidShape nm (ti_shape info) shape) else Ok ())"

fun check_all :: "weight_store \<Rightarrow> (rust_string \<times> u64 list) list \<Rightarrow> (load_error, unit) outcome" where
  "check_all s [] = Ok ()"
| "check_all s (x # xs) = bind_outcome (check_tensor s x) (\<lambda>_. check_all s xs)"

definition validate :: "weight_store \<Rightarrow> (load_error, unit) outcome" where
  "validate s = check_all s (expected_tensors (ws_meta s))"

section \<open>The dummy model\<close>

definition dummy_meta :: "usize \<Rightarrow> usize \<Rightarrow> usize \<Rightarrow> model_meta" where
  "dummy_meta n_vocab n_embd n_layer =
     \<lparr>mm_arch = ascii ''llama'', mm_n_vocab = n_vocab, mm_n_embd = n_embd, mm_n_layer = n_layer, mm_n_head = 1, mm_n_head_kv = 1,
      mm_n_ctx = 1024, mm_n_ff = n_embd * 4, mm_head_dim = n_embd, mm_rope_freq_base = 0x461C4000, mm_norm_eps = 0x3727C5AC,
      mm_quantization = Quant_F32\<rparr>"

definition add_tensor :: "rust_string \<times> u64 list \<Rightarrow> weight_store \<Rightarrow> (load_error, weight_store) outcome" where
  "add_tensor = (\<lambda>(nm, shape) s.
     bind_outcome (checked_product shape 1) (\<lambda>n_elems.
     bind_outcome (checked64 (n_elems * 4)) (\<lambda>nbytes.
       Ok (s\<lparr>ws_data := ws_data s @ replicate nbytes 0,
             ws_index := hm_insert nm \<lparr>ti_name = nm, ti_shape = shape, ti_dtype = T_F32, ti_offset = of_nat (length (ws_data s)),
               ti_nbytes = nbytes\<rparr> (ws_index s)\<rparr>))))"

fun add_tensors :: "(rust_string \<times> u64 list) list \<Rightarrow> weight_store \<Rightarrow> (load_error, weight_store) outcome" where
  "add_tensors [] s = Ok s"
| "add_tensors (x # xs) s = bind_outcome (add_tensor x s) (add_tensors xs)"

definition dummy_layer :: "usize \<Rightarrow> nat \<Rightarrow> (rust_string \<times> u64 list) list" where
  "dummy_layer n l =
     (let n_embd = of_nat n; n_ff = of_nat (n * 4) in
      [(layer_name l ''attention_norm.weight'', [n_embd]),
       (layer_name l ''attention.wq.weight'', [n_embd, n_embd]),
       (layer_name l ''attention.wk.weight'', [n_embd, n_embd]),
       (layer_name l ''attention.wv.weight'', [n_embd, n_embd]),
       (layer_name l ''attention.wo.weight'', [n_embd, n_embd]),
       (layer_name l ''ffn_norm.weight'', [n_embd]),
       (layer_name l ''feed_forward.w1.weight'', [n_embd, n_ff]),
       (layer_name l ''feed_forward.w2.weight'', [n_ff, n_embd]),
       (layer_name l ''feed_forward.w3.weight'', [n_embd, n_ff])])"

definition dummy_llama :: "usize \<Rightarrow> usize \<Rightarrow> usize \<Rightarrow> (load_error, weight_store) outcome" where
  "dummy_llama n_vocab n_embd n_layer =
     (if n_embd * 4 > max64 then Panic
      else
        add_tensors
          ((ascii ''token_embd.weight'', [of_nat n_embd, of_nat n_vocab]) #
           concat (map (dummy_layer n_embd) [0..<n_layer]) @
           [(ascii ''output_norm.weight'', [of_nat n_embd]), (ascii ''output.weight'', [of_nat n_embd, of_nat n_vocab])])
          \<lparr>ws_meta = dummy_meta n_vocab n_embd n_layer, ws_index = [], ws_data = []\<rparr>)"

section \<open>Loading a file\<close>

definition load_gguf :: "u8 list option \<Rightarrow> (load_error, weight_store) outcome" where
  "load_gguf file =
     (case file of
        None \<Rightarrow> Err LoadIo
      | Some bs \<Rightarrow>
          case gguf_read \<lparr>rd_data = bs, rd_pos = 0\<rparr> of
            (Err e, _) \<Rightarrow> Err (LoadGguf e)
          | (Panic, _) \<Rightarrow> Panic
          | (Ok gguf, r) \<Rightarrow>
              bind_outcome (meta_from_gguf gguf) (\<lambda>meta.
              bind_outcome (map_err LoadGguf (fst (read_all_tensors gguf r))) (\<lambda>bytes.
                let store = \<lparr>ws_meta = meta, ws_index = tensors gguf, ws_data = bytes\<rparr>
                in bind_outcome (validate store) (\<lambda>_. Ok store))))"

section \<open>Properties\<close>

lemma check_all_Ok: "check_all s xs = Ok () \<longleftrightarrow> (\<forall>(nm, shape) \<in> set xs. weight_shape s nm = Some shape)"
  by (induction xs) (auto simp: check_tensor_def weight_shape_def split: option.splits if_splits)

lemma tensor_ends_Ok:
  "tensor_ends ts = Ok es \<Longrightarrow> t \<in> set ts \<Longrightarrow> unat (ti_offset t) + ti_nbytes t \<in> set es \<and> unat (ti_offset t) + ti_nbytes t \<le> max64"
  by (induction ts arbitrary: es) (auto simp: checked64_def split: if_splits)

lemma load_gguf_Ok:
  assumes "load_gguf file = Ok store"
  obtains bs gguf r where "gguf_read \<lparr>rd_data = bs, rd_pos = 0\<rparr> = (Ok gguf, r)" "meta_from_gguf gguf = Ok (ws_meta store)"
    "ws_index store = tensors gguf" "validate store = Ok ()"
    "\<And>nm info. map_of (ws_index store) nm = Some info \<Longrightarrow> \<exists>bytes. weight_require store nm = Ok bytes \<and> length bytes = ti_nbytes info"
proof -
  from assms obtain bs gguf r data meta where g: "gguf_read \<lparr>rd_data = bs, rd_pos = 0\<rparr> = (Ok gguf, r)" "meta_from_gguf gguf = Ok meta"
    "fst (read_all_tensors gguf r) = Ok data" "store = \<lparr>ws_meta = meta, ws_index = tensors gguf, ws_data = data\<rparr>"
    "validate store = Ok ()"
    by (auto simp: load_gguf_def Let_def split: option.splits prod.splits outcome.splits)
  obtain r' where "read_all_tensors gguf r = (Ok data, r')" using g(3) by (metis prod.collapse)
  then obtain es where es: "tensor_ends (map snd (tensors gguf)) = Ok es" "length data = foldr max es 0"
    by (auto simp: read_all_tensors_def and_then_Ok_iff lift_outcome_def seek_def read_exact_def split: if_splits)
  have "\<exists>bytes. weight_require store nm = Ok bytes \<and> length bytes = ti_nbytes info"
    if i: "map_of (ws_index store) nm = Some info" for nm info
  proof -
    have "info \<in> set (map snd (tensors gguf))" using i g(4) by (force dest: map_of_SomeD)
    from tensor_ends_Ok [OF es(1) this] foldr_max_ge es(2)
    have "unat (ti_offset info) + ti_nbytes info \<le> length data" "unat (ti_offset info) + ti_nbytes info \<le> max64" by auto
    with i g(4) show ?thesis by (auto simp: weight_require_def weight_get_def Let_def)
  qed
  with g show thesis by (intro that [of bs gguf r]) simp_all
qed

lemma validate_shapes: "validate s = Ok () \<Longrightarrow> (nm, shape) \<in> set (expected_tensors (ws_meta s)) \<Longrightarrow> weight_shape s nm = Some shape"
  by (auto simp: validate_def check_all_Ok)

text \<open>C32. A model that loads is complete: every tensor of the architecture is in the store with the shape the
  metadata calls for, and its bytes can be read, in full.\<close>

theorem load_gguf_complete:
  assumes "load_gguf file = Ok store" "(nm, shape) \<in> set (expected_tensors (ws_meta store))"
  shows "\<exists>info bytes. map_of (ws_index store) nm = Some info \<and> ti_shape info = shape \<and>
    weight_require store nm = Ok bytes \<and> length bytes = ti_nbytes info"
  using assms(1)
proof (rule load_gguf_Ok)
  assume "validate store = Ok ()"
    and bytes: "\<And>nm info. map_of (ws_index store) nm = Some info \<Longrightarrow> \<exists>bytes. weight_require store nm = Ok bytes \<and> length bytes = ti_nbytes info"
  from validate_shapes [OF this(1) assms(2)] obtain info where "map_of (ws_index store) nm = Some info" "ti_shape info = shape"
    by (auto simp: weight_shape_def)
  with bytes [OF this(1)] show ?thesis by blast
qed

text \<open>The file that the reader makes of an image whose data start at a given offset.\<close>

definition read_image :: "gguf_image \<Rightarrow> nat \<Rightarrow> gguf_file" where
  "read_image f off = \<lparr>version = im_version f, metadata = meta_of f, tensors = tensors_of f, data_offset = off\<rparr>"

lemma tensor_ends_le:
  "\<forall>t \<in> set ts. unat (ti_offset t) + ti_nbytes t \<le> n \<Longrightarrow> n \<le> max64 \<Longrightarrow>
     \<exists>es. tensor_ends ts = Ok es \<and> foldr max es 0 \<le> n"
  by (induction ts) (auto simp: checked64_def)

lemma tensors_of_stored: "t \<in> set (map snd (tensors_of f)) \<Longrightarrow> t \<in> set (im_tensors f)"
proof -
  have "snd ` set (foldl (\<lambda>m t. hm_insert (ti_name t) t m) m ts) \<subseteq> snd ` set m \<union> set ts" for m ts
    by (induction ts arbitrary: m) (fastforce simp: hm_insert_def)+
  from this [of "[]" "im_tensors f"] show "t \<in> set (map snd (tensors_of f)) \<Longrightarrow> t \<in> set (im_tensors f)"
    by (auto simp: tensors_of_def)
qed

text \<open>The conditions on a file: an image, padding up to the data, and the data.\<close>

definition loadable :: "gguf_image \<Rightarrow> u8 list \<Rightarrow> u8 list \<Rightarrow> model_meta \<Rightarrow> bool" where
  "loadable f pad block meta \<longleftrightarrow>
     image_ok f
     \<and> align_up (length (enc_image f)) (alignment_of (meta_of f)) = (Ok (length (enc_image f @ pad)) :: (gguf_error, nat) outcome)
     \<and> meta_from_gguf (read_image f (length (enc_image f @ pad))) = Ok meta
     \<and> length block \<le> max64
     \<and> (\<forall>t \<in> set (im_tensors f). unat (ti_offset t) + ti_nbytes t \<le> length block)
     \<and> (\<forall>(nm, shape) \<in> set (expected_tensors meta). map_option ti_shape (find (\<lambda>t. ti_name t = nm) (rev (im_tensors f))) = Some shape)"

lemma load_gguf_image:
  assumes ok: "loadable f pad block meta"
  obtains es where "load_gguf (Some (enc_image f @ pad @ block)) =
      Ok \<lparr>ws_meta = meta, ws_index = tensors_of f, ws_data = take (foldr max es 0) block\<rparr>"
    and "tensor_ends (map snd (tensors_of f)) = Ok es" and "foldr max es 0 \<le> length block"
proof -
  let ?off = "length (enc_image f @ pad)"
  let ?data = "enc_image f @ pad @ block"
  let ?r = "\<lparr>rd_data = ?data, rd_pos = length (enc_image f)\<rparr>"
  have im: "image_ok f" and al: "align_up (length (enc_image f)) (alignment_of (meta_of f)) = (Ok ?off :: (gguf_error, nat) outcome)"
    and m: "meta_from_gguf (read_image f ?off) = Ok meta" and lb: "length block \<le> max64"
    and complete: "\<forall>(nm, shape) \<in> set (expected_tensors meta). map_option ti_shape (find (\<lambda>t. ti_name t = nm) (rev (im_tensors f))) = Some shape"
    using ok by (simp_all add: loadable_def)
  have "\<forall>t \<in> set (map snd (tensors_of f)). unat (ti_offset t) + ti_nbytes t \<le> length block"
    using ok tensors_of_stored by (auto simp: loadable_def)
  from tensor_ends_le [OF this lb] obtain es
    where es: "tensor_ends (map snd (tensors_of f)) = Ok es" "foldr max es 0 \<le> length block" by blast
  let ?store = "\<lparr>ws_meta = meta, ws_index = tensors_of f, ws_data = take (foldr max es 0) block\<rparr>"
  note run = gguf_read_image [OF im, unfolded parses_from_def, rule_format, of "[]" "pad @ block"]
  have read: "gguf_read \<lparr>rd_data = ?data, rd_pos = 0\<rparr> = (Ok (read_image f ?off), ?r)"
    using run al by (simp add: read_image_def)
  have "fst (read_all_tensors (read_image f ?off) ?r) = Ok (take (foldr max es 0) block)"
    using es by (auto simp: read_all_tensors_def read_image_def and_then_def lift_outcome_def seek_def read_exact_def)
  moreover have "validate ?store = Ok ()"
    using complete by (auto simp: validate_def check_all_Ok weight_shape_def tensors_of_lookup)
  moreover have "tensors (read_image f ?off) = tensors_of f" by (simp add: read_image_def)
  ultimately have "load_gguf (Some ?data) = Ok ?store"
    using m by (simp add: load_gguf_def read Let_def)
  with es show thesis by (intro that [of es])
qed

text \<open>C31. A complete file loads: the encoding of a well-formed image, padded to its alignment and followed by the
  data of its tensors, gives a store with the dimensions of its metadata, and every tensor of the file
  is read back as the bytes at its offset in the data.\<close>

theorem load_gguf_accepts:
  assumes "loadable f pad block meta"
  shows "\<exists>store. load_gguf (Some (enc_image f @ pad @ block)) = Ok store \<and> ws_meta store = meta
    \<and> (\<forall>nm. weight_require store nm =
         (case find (\<lambda>t. ti_name t = nm) (rev (im_tensors f)) of
            None \<Rightarrow> Err (MissingTensor nm)
          | Some t \<Rightarrow> Ok (take (ti_nbytes t) (drop (unat (ti_offset t)) block))))"
proof -
  obtain es where load: "load_gguf (Some (enc_image f @ pad @ block)) =
      Ok \<lparr>ws_meta = meta, ws_index = tensors_of f, ws_data = take (foldr max es 0) block\<rparr>"
    and es: "tensor_ends (map snd (tensors_of f)) = Ok es" "foldr max es 0 \<le> length block"
    by (rule load_gguf_image [OF assms])
  let ?store = "\<lparr>ws_meta = meta, ws_index = tensors_of f, ws_data = take (foldr max es 0) block\<rparr>"
  have "weight_require ?store nm = Ok (take (ti_nbytes t) (drop (unat (ti_offset t)) block))"
    if t: "find (\<lambda>t. ti_name t = nm) (rev (im_tensors f)) = Some t" for nm t
  proof -
    have "map_of (tensors_of f) nm = Some t" using t by (simp add: tensors_of_lookup)
    then have mem: "t \<in> set (map snd (tensors_of f))" by (force dest: map_of_SomeD)
    have "unat (ti_offset t) + ti_nbytes t \<le> foldr max es 0" "unat (ti_offset t) + ti_nbytes t \<le> max64"
      using tensor_ends_Ok [OF es(1) mem] foldr_max_ge by auto
    with t es(2) show ?thesis
      by (auto simp: weight_require_def weight_get_def Let_def tensors_of_lookup drop_take min_def)
  qed
  then have "\<forall>nm. weight_require ?store nm =
      (case find (\<lambda>t. ti_name t = nm) (rev (im_tensors f)) of None \<Rightarrow> Err (MissingTensor nm)
       | Some t \<Rightarrow> Ok (take (ti_nbytes t) (drop (unat (ti_offset t)) block)))"
    by (auto simp: weight_require_def weight_get_def tensors_of_lookup split: option.splits)
  with load show ?thesis by fastforce
qed

text \<open>A model without layers: one token of one dimension.\<close>

definition tiny_image :: gguf_image where
  "tiny_image =
     \<lparr>im_version = 3,
      im_entries = [(ascii ''tokenizer.ggml.tokens'', V_Array [V_String [97]]), (ascii ''llama.embedding_length'', V_U32 1),
        (ascii ''llama.block_count'', V_U32 0), (ascii ''llama.attention.head_count'', V_U32 1),
        (ascii ''llama.feed_forward_length'', V_U32 4)],
      im_tensors = [\<lparr>ti_name = ascii ''token_embd.weight'', ti_shape = [1, 1], ti_dtype = T_F32, ti_offset = 0, ti_nbytes = 4\<rparr>,
        \<lparr>ti_name = ascii ''output_norm.weight'', ti_shape = [1], ti_dtype = T_F32, ti_offset = 32, ti_nbytes = 4\<rparr>,
        \<lparr>ti_name = ascii ''output.weight'', ti_shape = [1, 1], ti_dtype = T_F32, ti_offset = 64, ti_nbytes = 4\<rparr>]\<rparr>"

definition tiny_meta :: model_meta where
  "tiny_meta =
     \<lparr>mm_arch = ascii ''llama'', mm_n_vocab = 1, mm_n_embd = 1, mm_n_layer = 0, mm_n_head = 1, mm_n_head_kv = 1, mm_n_ctx = 4096,
      mm_n_ff = 4, mm_head_dim = 1, mm_rope_freq_base = 0x461C4000, mm_norm_eps = 0x3727C5AC, mm_quantization = Quant_Q4_0\<rparr>"

lemma string_ok_ascii: "\<forall>b \<in> set (ascii s). unat b < 128 \<Longrightarrow> length s < 2 ^ 64 \<Longrightarrow> string_ok (ascii s)"
  using utf8_ascii [of "ascii s"] by (simp add: string_ok_def) (simp add: ascii_def)

lemma tiny_image_facts:
  "image_ok tiny_image" "alignment_of (meta_of tiny_image) = 32"
  "length (enc_image tiny_image) = 392" "meta_from_gguf (read_image tiny_image off) = Ok tiny_meta"
proof -
  have t: "tensor_ok \<lparr>ti_name = ascii nm, ti_shape = shape, ti_dtype = T_F32, ti_offset = off, ti_nbytes = 4\<rparr>"
    if "shape \<in> {[1], [1, 1]}" "\<forall>b \<in> set (ascii nm). unat b < 128" "length nm < 2 ^ 64" for nm shape off
    using that by (auto simp: tensor_ok_def string_ok_ascii checked64_def ggml_nbytes_def div_ceil_def max64_def)
  have a: "string_ok (ascii ''tokenizer.ggml.tokens'')" "string_ok (ascii ''llama.embedding_length'')"
    "string_ok (ascii ''llama.block_count'')" "string_ok (ascii ''llama.attention.head_count'')"
    "string_ok (ascii ''llama.feed_forward_length'')" "string_ok [97]"
    by (rule string_ok_ascii; simp add: ascii_def)+ (simp add: string_ok_def utf8_ascii)
  have b: "tensor_ok \<lparr>ti_name = ascii ''token_embd.weight'', ti_shape = [1, 1], ti_dtype = T_F32, ti_offset = 0, ti_nbytes = 4\<rparr>"
    "tensor_ok \<lparr>ti_name = ascii ''output_norm.weight'', ti_shape = [1], ti_dtype = T_F32, ti_offset = 32, ti_nbytes = 4\<rparr>"
    "tensor_ok \<lparr>ti_name = ascii ''output.weight'', ti_shape = [1, 1], ti_dtype = T_F32, ti_offset = 64, ti_nbytes = 4\<rparr>"
    by (rule t; simp add: ascii_def)+
  show "image_ok tiny_image"
    by (simp add: image_ok_def tiny_image_def a b)
  show "alignment_of (meta_of tiny_image) = 32"
    by (simp add: alignment_of_def meta_of_lookup tiny_image_def ascii_def default_alignment_def)
  show "length (enc_image tiny_image) = 392"
    by (simp add: enc_image_def tiny_image_def enc_tensor_def enc_string_def enc_len_def ascii_def)
  show "meta_from_gguf (read_image tiny_image off) = Ok tiny_meta"
    by (simp add: meta_from_gguf_def read_image_def meta_of_lookup tiny_image_def tiny_meta_def ascii_def meta_u32_def
        require_u32_def opt_f32_def infer_quantization_def tensors_of_lookup Let_def)
qed

definition tiny_data :: "u8 list" where
  "tiny_data = [1, 2, 3, 4] @ replicate 28 0 @ [5, 6, 7, 8] @ replicate 28 0 @ [9, 10, 11, 12]"

lemma tiny_loadable: "loadable tiny_image (replicate 24 0) tiny_data tiny_meta"
  using tiny_image_facts(1-3) tiny_image_facts(4) [of 416]
  by (simp add: loadable_def align_up_def checked64_def div_ceil_def max64_def tiny_data_def expected_tensors_def Let_def)
    (simp add: tiny_image_def tiny_meta_def ascii_def)

theorem load_gguf_accepts_witness:
  "\<exists>store. load_gguf (Some (enc_image tiny_image @ replicate 24 0 @ tiny_data)) = Ok store
    \<and> weight_require store (ascii ''output.weight'') = Ok [9, 10, 11, 12]"
  using load_gguf_accepts [OF tiny_loadable]
  by (auto simp: tiny_image_def ascii_def tiny_data_def) 

theorem load_gguf_complete_witness:
  "\<exists>store info bytes. load_gguf (Some (enc_image tiny_image @ replicate 24 0 @ tiny_data)) = Ok store
    \<and> map_of (ws_index store) (ascii ''output.weight'') = Some info
    \<and> weight_require store (ascii ''output.weight'') = Ok bytes \<and> length bytes = ti_nbytes info"
proof -
  obtain es where "load_gguf (Some (enc_image tiny_image @ replicate 24 0 @ tiny_data)) =
      Ok \<lparr>ws_meta = tiny_meta, ws_index = tensors_of tiny_image, ws_data = take (foldr max es 0) tiny_data\<rparr>"
    by (rule load_gguf_image [OF tiny_loadable])
  from load_gguf_complete [OF this, of "ascii ''output.weight''" "[1, 1]"] this show ?thesis
    by (auto simp: expected_tensors_def tiny_meta_def Let_def)
qed

end
