(* ===== verification/LlamaCpu.thy ===== *)
theory LlamaCpu
  imports ModelLoader QuantProps Backend
begin

text \<open>
  The transformer on the CPU (\<open>src/src/llama_cpu.rs\<close>): the key and value cache, the numerical primitives, the
  forward pass and the backend made of it.

  Arithmetic is IEEE single precision in the order the code performs it. \<open>exp\<close>, \<open>powf\<close> and \<open>sin_cos\<close> have no
  specified last bits, so they are the argument \<open>lm\<close>. A vector that the code updates in place is a list
  that the operation returns. Indexing and slicing out of range panic; sizes are natural numbers,
  since a product that leaves 64 bits also leaves the data it indexes. The state of an action is the
  cache: a pass that fails has already written the layers before the failing one.
\<close>

section \<open>Primitives\<close>

record libm =
  lm_exp :: "f32 \<Rightarrow> f32"
  lm_powf :: "f32 \<Rightarrow> f32 \<Rightarrow> f32"
  lm_sin_cos :: "f32 \<Rightarrow> f32 \<times> f32"

text \<open>\<open>iter().zip().map(a * b).sum()\<close>.\<close>

definition dot :: "f32 list \<Rightarrow> f32 list \<Rightarrow> f32" where
  "dot xs ys = f32_sum (map2 f32_mul xs ys)"

definition f32_of_usize :: "usize \<Rightarrow> f32" where
  "f32_of_usize n = f32_of_int (int n)"

definition rms_norm :: "f32 list \<Rightarrow> f32 list \<Rightarrow> f32 \<Rightarrow> f32 list" where
  "rms_norm x w eps =
     (let rms = f32_sqrt (f32_add (f32_div (f32_sum (map (\<lambda>v. f32_mul v v) x)) (f32_of_usize (length x))) eps)
      in map2 (\<lambda>xi wi. f32_mul (f32_div xi rms) wi) x w @ drop (length w) x)"

text \<open>\<open>out[r] += v\<close>.\<close>

definition add_at :: "nat \<Rightarrow> f32 \<Rightarrow> f32 list \<Rightarrow> ('e, f32 list) outcome" where
  "add_at r v out = (if r < length out then Ok (out[r := f32_add (out ! r) v]) else Panic)"

fun matvec_rows :: "f32 list \<Rightarrow> f32 list \<Rightarrow> usize \<Rightarrow> nat list \<Rightarrow> f32 list \<Rightarrow> ('e, f32 list) outcome" where
  "matvec_rows w x cols [] out = Ok out"
| "matvec_rows w x cols (r # rs) out =
     bind_outcome (slice w (r * cols) ((r + 1) * cols)) (\<lambda>row.
     bind_outcome (add_at r (dot row x) out) (matvec_rows w x cols rs))"

definition matvec :: "f32 list \<Rightarrow> f32 list \<Rightarrow> f32 list \<Rightarrow> usize \<Rightarrow> usize \<Rightarrow> ('e, f32 list) outcome" where
  "matvec out w x rows cols = matvec_rows w x cols [0..<rows] out"

text \<open>The buffer of the row is allocated once and overwritten for each row.\<close>

fun matvec_quant_rows ::
  "u8 list \<Rightarrow> ggml_type \<Rightarrow> f32 list \<Rightarrow> usize \<Rightarrow> nat list \<Rightarrow> f32 list \<Rightarrow> f32 list \<Rightarrow> ('e, f32 list) outcome" where
  "matvec_quant_rows data t x row_bytes [] buf out = Ok out"
| "matvec_quant_rows data t x row_bytes (r # rs) buf out =
     bind_outcome (slice data (r * row_bytes) ((r + 1) * row_bytes)) (\<lambda>src.
     bind_outcome (dequant_row t src buf) (\<lambda>row.
     bind_outcome (add_at r (dot row x) out) (matvec_quant_rows data t x row_bytes rs row)))"

definition matvec_quant :: "f32 list \<Rightarrow> u8 list \<Rightarrow> ggml_type \<Rightarrow> f32 list \<Rightarrow> usize \<Rightarrow> usize \<Rightarrow> ('e, f32 list) outcome" where
  "matvec_quant out data t x rows cols =
     bind_outcome (ggml_nbytes t cols) (\<lambda>row_bytes. matvec_quant_rows data t x row_bytes [0..<rows] (replicate cols 0) out)"

definition silu :: "libm \<Rightarrow> f32 \<Rightarrow> f32" where
  "silu lm x = f32_mul x (f32_div f32_one (f32_add f32_one (lm_exp lm (f32_neg x))))"

definition rope_pair :: "libm \<Rightarrow> usize \<Rightarrow> usize \<Rightarrow> usize \<Rightarrow> f32 \<Rightarrow> nat \<times> nat \<Rightarrow> f32 list \<Rightarrow> ('e, f32 list) outcome" where
  "rope_pair lm pos head_dim half freq_base = (\<lambda>(h, i) x.
     let j = h * head_dim + i in
     if length x \<le> j + half then Panic
     else
       let theta = f32_div (f32_of_usize pos)
             (lm_powf lm freq_base (f32_div (f32_mul (f32_of_usize 2) (f32_of_usize i)) (f32_of_usize head_dim)));
           (sin_t, cos_t) = lm_sin_cos lm theta;
           x0 = x ! j; x1 = x ! (j + half)
       in Ok (x[j := f32_sub (f32_mul x0 cos_t) (f32_mul x1 sin_t),
                j + half := f32_add (f32_mul x0 sin_t) (f32_mul x1 cos_t)]))"

fun rope_pairs :: "libm \<Rightarrow> usize \<Rightarrow> usize \<Rightarrow> usize \<Rightarrow> f32 \<Rightarrow> (nat \<times> nat) list \<Rightarrow> f32 list \<Rightarrow> ('e, f32 list) outcome" where
  "rope_pairs lm pos head_dim half freq_base [] x = Ok x"
| "rope_pairs lm pos head_dim half freq_base (p # ps) x =
     bind_outcome (rope_pair lm pos head_dim half freq_base p x) (rope_pairs lm pos head_dim half freq_base ps)"

definition apply_rope :: "libm \<Rightarrow> f32 list \<Rightarrow> usize \<Rightarrow> usize \<Rightarrow> usize \<Rightarrow> usize \<Rightarrow> f32 \<Rightarrow> ('e, f32 list) outcome" where
  "apply_rope lm x pos n_heads head_dim half freq_base =
     rope_pairs lm pos head_dim half freq_base (List.product [0..<n_heads] [0..<half]) x"

definition rope ::
  "libm \<Rightarrow> f32 list \<Rightarrow> f32 list \<Rightarrow> usize \<Rightarrow> usize \<Rightarrow> usize \<Rightarrow> usize \<Rightarrow> f32 \<Rightarrow> ('e, f32 list \<times> f32 list) outcome" where
  "rope lm q k pos n_heads n_kv_heads head_dim freq_base =
     bind_outcome (apply_rope lm q pos n_heads head_dim (head_dim div 2) freq_base) (\<lambda>q1.
     bind_outcome (apply_rope lm k pos n_kv_heads head_dim (head_dim div 2) freq_base) (\<lambda>k1. Ok (q1, k1)))"

definition softmax :: "libm \<Rightarrow> f32 list \<Rightarrow> f32 list" where
  "softmax lm x =
     (let mx = foldl f32_max f32_neg_inf x;
          es = map (\<lambda>v. lm_exp lm (f32_sub v mx)) x;
          scale = f32_div f32_one (f32_sum es)
      in map (\<lambda>v. f32_mul v scale) es)"

section \<open>The cache\<close>

record cpu_kv_cache =
  kvc_n_head_kv :: usize
  kvc_head_dim :: usize
  kvc_k :: "f32 list list"
  kvc_v :: "f32 list list"
  kvc_pos :: usize

definition kv_cache_new :: "usize \<Rightarrow> usize \<Rightarrow> usize \<Rightarrow> usize \<Rightarrow> ('e, cpu_kv_cache) outcome" where
  "kv_cache_new n_layer n_head_kv head_dim n_ctx =
     bind_outcome (checked64 (n_ctx * n_head_kv)) (\<lambda>a.
     bind_outcome (checked64 (a * head_dim)) (\<lambda>per_layer.
       Ok \<lparr>kvc_n_head_kv = n_head_kv, kvc_head_dim = head_dim, kvc_k = replicate n_layer (replicate per_layer 0),
           kvc_v = replicate n_layer (replicate per_layer 0), kvc_pos = 0\<rparr>))"

text \<open>\<open>rows[layer][start..start + stride].copy_from_slice(vec)\<close>.\<close>

definition copy_row :: "f32 list list \<Rightarrow> nat \<Rightarrow> nat \<Rightarrow> nat \<Rightarrow> f32 list \<Rightarrow> ('e, f32 list list) outcome" where
  "copy_row rows layer start stride vec =
     (if length rows \<le> layer \<or> length (rows ! layer) < start + stride \<or> length vec \<noteq> stride then Panic
      else Ok (rows[layer := take start (rows ! layer) @ vec @ drop (start + stride) (rows ! layer)]))"

definition store_kv :: "nat \<Rightarrow> usize \<Rightarrow> f32 list \<Rightarrow> f32 list \<Rightarrow> (cpu_kv_cache, 'e, unit) act" where
  "store_kv layer pos k v c =
     (let stride = kvc_n_head_kv c * kvc_head_dim c in
      case copy_row (kvc_k c) layer (pos * stride) stride k of
        Ok ks \<Rightarrow>
          (case copy_row (kvc_v c) layer (pos * stride) stride v of
             Ok vs \<Rightarrow> (Ok (), c\<lparr>kvc_k := ks, kvc_v := vs\<rparr>)
           | Err e \<Rightarrow> (Err e, c\<lparr>kvc_k := ks\<rparr>)
           | Panic \<Rightarrow> (Panic, c\<lparr>kvc_k := ks\<rparr>))
      | Err e \<Rightarrow> (Err e, c)
      | Panic \<Rightarrow> (Panic, c))"

section \<open>Weights\<close>

definition weights_ref :: "weight_store \<Rightarrow> rust_string \<Rightarrow> (load_error, u8 list \<times> ggml_type) outcome" where
  "weights_ref ws nm =
     bind_outcome (weight_require ws nm) (\<lambda>data.
       case weight_dtype ws nm of None \<Rightarrow> Panic | Some t \<Rightarrow> Ok (data, t))"

definition load_vec :: "weight_store \<Rightarrow> rust_string \<Rightarrow> f32 list \<Rightarrow> (load_error, f32 list) outcome" where
  "load_vec ws nm out = bind_outcome (weights_ref ws nm) (\<lambda>(data, t). dequant_row t data out)"

text \<open>\<open>matvec_quant\<close> with a named weight into zeros.\<close>

definition project :: "weight_store \<Rightarrow> rust_string \<Rightarrow> f32 list \<Rightarrow> usize \<Rightarrow> usize \<Rightarrow> (load_error, f32 list) outcome" where
  "project ws nm x rows cols =
     bind_outcome (weights_ref ws nm) (\<lambda>(data, t). matvec_quant (replicate rows 0) data t x rows cols)"

section \<open>The forward pass\<close>

text \<open>The part of a row of the cache that belongs to one head.\<close>

definition head_row :: "f32 list \<Rightarrow> nat \<Rightarrow> nat \<Rightarrow> nat \<Rightarrow> nat \<Rightarrow> ('e, f32 list) outcome" where
  "head_row rows kv_stride kv_head head_dim t =
     slice rows (t * kv_stride + kv_head * head_dim) (t * kv_stride + kv_head * head_dim + head_dim)"

fun attn_scores :: "f32 list \<Rightarrow> f32 list \<Rightarrow> nat \<Rightarrow> nat \<Rightarrow> nat \<Rightarrow> nat list \<Rightarrow> ('e, f32 list) outcome" where
  "attn_scores q_h ks kv_stride kv_head head_dim [] = Ok []"
| "attn_scores q_h ks kv_stride kv_head head_dim (t # ts) =
     bind_outcome (head_row ks kv_stride kv_head head_dim t) (\<lambda>k_t.
     bind_outcome (attn_scores q_h ks kv_stride kv_head head_dim ts) (\<lambda>scores.
       Ok (f32_div (dot q_h k_t) (f32_sqrt (f32_of_usize head_dim)) # scores)))"

fun attn_values :: "f32 list \<Rightarrow> nat \<Rightarrow> nat \<Rightarrow> nat \<Rightarrow> (nat \<times> f32) list \<Rightarrow> f32 list \<Rightarrow> ('e, f32 list) outcome" where
  "attn_values vs kv_stride kv_head head_dim [] out_h = Ok out_h"
| "attn_values vs kv_stride kv_head head_dim ((t, s) # ts) out_h =
     bind_outcome (head_row vs kv_stride kv_head head_dim t) (\<lambda>v_t.
       attn_values vs kv_stride kv_head head_dim ts (map2 (\<lambda>out v. f32_add out (f32_mul s v)) out_h v_t))"

definition attn_head ::
  "libm \<Rightarrow> f32 list \<Rightarrow> f32 list \<Rightarrow> f32 list \<Rightarrow> usize \<Rightarrow> usize \<Rightarrow> usize \<Rightarrow> usize \<Rightarrow> nat \<Rightarrow> ('e, f32 list) outcome" where
  "attn_head lm q ks vs n_head n_head_kv head_dim pos h =
     (let kv_head = h * n_head_kv div n_head; kv_stride = n_head_kv * head_dim in
      bind_outcome (slice q (h * head_dim) ((h + 1) * head_dim)) (\<lambda>q_h.
      bind_outcome (attn_scores q_h ks kv_stride kv_head head_dim [0..<pos + 1]) (\<lambda>scores.
        attn_values vs kv_stride kv_head head_dim (enumerate 0 (softmax lm scores)) (replicate head_dim 0))))"

text \<open>The heads write consecutive parts of \<open>x_attn\<close>.\<close>

fun attn_heads ::
  "libm \<Rightarrow> f32 list \<Rightarrow> f32 list \<Rightarrow> f32 list \<Rightarrow> usize \<Rightarrow> usize \<Rightarrow> usize \<Rightarrow> usize \<Rightarrow> nat list \<Rightarrow> ('e, f32 list) outcome" where
  "attn_heads lm q ks vs n_head n_head_kv head_dim pos [] = Ok []"
| "attn_heads lm q ks vs n_head n_head_kv head_dim pos (h # hs) =
     bind_outcome (attn_head lm q ks vs n_head n_head_kv head_dim pos h) (\<lambda>out_h.
     bind_outcome (attn_heads lm q ks vs n_head n_head_kv head_dim pos hs) (\<lambda>rest. Ok (out_h @ rest)))"

text \<open>The three projections and the rotation, before anything is stored.\<close>

definition layer_qkv ::
  "libm \<Rightarrow> model_meta \<Rightarrow> weight_store \<Rightarrow> usize \<Rightarrow> nat \<Rightarrow> f32 list \<Rightarrow> (load_error, f32 list \<times> f32 list \<times> f32 list) outcome" where
  "layer_qkv lm m ws pos l x =
     (let n_embd = mm_n_embd m; q_rows = mm_n_head m * mm_head_dim m; kv_rows = mm_n_head_kv m * mm_head_dim m in
      bind_outcome (load_vec ws (layer_name l ''attention_norm.weight'') (replicate n_embd 0)) (\<lambda>norm_w.
      let xb = rms_norm x norm_w (mm_norm_eps m) in
      bind_outcome (project ws (layer_name l ''attention.wq.weight'') xb q_rows n_embd) (\<lambda>q.
      bind_outcome (project ws (layer_name l ''attention.wk.weight'') xb kv_rows n_embd) (\<lambda>k.
      bind_outcome (project ws (layer_name l ''attention.wv.weight'') xb kv_rows n_embd) (\<lambda>v.
      bind_outcome (rope lm q k pos (mm_n_head m) (mm_n_head_kv m) (mm_head_dim m) (mm_rope_freq_base m)) (\<lambda>(q1, k1).
        Ok (q1, k1, v)))))))"

text \<open>The rest of a layer: attention over the cache, the output projection and the feed-forward network, each
  added to the residual.\<close>

definition layer_out ::
  "libm \<Rightarrow> model_meta \<Rightarrow> weight_store \<Rightarrow> usize \<Rightarrow> nat \<Rightarrow> f32 list \<Rightarrow> f32 list \<Rightarrow> cpu_kv_cache \<Rightarrow> (load_error, f32 list) outcome" where
  "layer_out lm m ws pos l x q c =
     (let n_embd = mm_n_embd m; n_head = mm_n_head m; head_dim = mm_head_dim m; n_ff = mm_n_ff m in
      bind_outcome (attn_heads lm q (kvc_k c ! l) (kvc_v c ! l) n_head (mm_n_head_kv m) head_dim pos [0..<n_head]) (\<lambda>x_attn.
      bind_outcome (project ws (layer_name l ''attention.wo.weight'') x_attn n_embd (n_head * head_dim)) (\<lambda>x_out.
      let x1 = map2 f32_add x x_out in
      bind_outcome (load_vec ws (layer_name l ''ffn_norm.weight'') (replicate n_embd 0)) (\<lambda>ffn_norm_w.
      let xb2 = rms_norm x1 ffn_norm_w (mm_norm_eps m) in
      bind_outcome (project ws (layer_name l ''feed_forward.w1.weight'') xb2 n_ff n_embd) (\<lambda>gate.
      bind_outcome (project ws (layer_name l ''feed_forward.w3.weight'') xb2 n_ff n_embd) (\<lambda>up.
      bind_outcome (project ws (layer_name l ''feed_forward.w2.weight'') (map2 (\<lambda>g u. f32_mul (silu lm g) u) gate up) n_embd n_ff) (\<lambda>ffn_out.
        Ok (map2 f32_add x1 ffn_out))))))))"

definition lift_act :: "('e, 'a) outcome \<Rightarrow> ('s, 'e, 'a) act" where
  "lift_act r s = (r, s)"

definition layer_step ::
  "libm \<Rightarrow> model_meta \<Rightarrow> weight_store \<Rightarrow> usize \<Rightarrow> nat \<Rightarrow> f32 list \<Rightarrow> (cpu_kv_cache, load_error, f32 list) act" where
  "layer_step lm m ws pos l x =
     and_then (lift_act (layer_qkv lm m ws pos l x)) (\<lambda>(q, k, v).
     and_then (store_kv l pos k v) (\<lambda>_ c. (layer_out lm m ws pos l x q c, c)))"

fun layers_run ::
  "libm \<Rightarrow> model_meta \<Rightarrow> weight_store \<Rightarrow> usize \<Rightarrow> nat list \<Rightarrow> f32 list \<Rightarrow> (cpu_kv_cache, load_error, f32 list) act" where
  "layers_run lm m ws pos [] x = ret x"
| "layers_run lm m ws pos (l # ls) x = and_then (layer_step lm m ws pos l x) (layers_run lm m ws pos ls)"

definition embed :: "model_meta \<Rightarrow> weight_store \<Rightarrow> token_id \<Rightarrow> (load_error, f32 list) outcome" where
  "embed m ws tok =
     bind_outcome (weights_ref ws (ascii ''token_embd.weight'')) (\<lambda>(data, t).
     bind_outcome (ggml_nbytes t (mm_n_embd m)) (\<lambda>row_bytes.
     bind_outcome (slice data (unat tok * row_bytes) (unat tok * row_bytes + row_bytes)) (\<lambda>src.
       dequant_row t src (replicate (mm_n_embd m) 0))))"

definition output_head :: "model_meta \<Rightarrow> weight_store \<Rightarrow> f32 list \<Rightarrow> (load_error, f32 list) outcome" where
  "output_head m ws x =
     bind_outcome (load_vec ws (ascii ''output_norm.weight'') (replicate (mm_n_embd m) 0)) (\<lambda>out_norm_w.
     let lm_head = (if map_of (ws_index ws) (ascii ''output.weight'') \<noteq> None then ascii ''output.weight'' else ascii ''token_embd.weight'')
     in project ws lm_head (rms_norm x out_norm_w (mm_norm_eps m)) (mm_n_vocab m) (mm_n_embd m))"

definition forward_one ::
  "libm \<Rightarrow> model_meta \<Rightarrow> weight_store \<Rightarrow> token_id \<Rightarrow> usize \<Rightarrow> (cpu_kv_cache, load_error, f32 list) act" where
  "forward_one lm m ws tok pos =
     and_then (lift_act (embed m ws tok)) (\<lambda>x.
     and_then (layers_run lm m ws pos [0..<mm_n_layer m] x) (\<lambda>x1. lift_act (output_head m ws x1)))"

fun forward_tokens ::
  "libm \<Rightarrow> model_meta \<Rightarrow> weight_store \<Rightarrow> usize \<Rightarrow> token_id list \<Rightarrow> f32 list \<Rightarrow> (cpu_kv_cache, load_error, f32 list) act" where
  "forward_tokens lm m ws pos [] last_logits = ret last_logits"
| "forward_tokens lm m ws pos (tok # toks) last_logits =
     and_then (forward_one lm m ws tok pos) (forward_tokens lm m ws (pos + 1) toks)"

section \<open>The model and its backend\<close>

record llama_cpu =
  lc_meta :: model_meta
  lc_weights :: weight_store
  lc_kv :: cpu_kv_cache
  lc_bound_prefix :: "cache_lookup option"

definition llama_cpu_new :: "weight_store \<Rightarrow> ('e, llama_cpu) outcome" where
  "llama_cpu_new ws =
     (let m = ws_meta ws in
      bind_outcome (kv_cache_new (mm_n_layer m) (mm_n_head_kv m) (mm_head_dim m) (mm_n_ctx m)) (\<lambda>kv.
        Ok \<lparr>lc_meta = m, lc_weights = ws, lc_kv = kv, lc_bound_prefix = None\<rparr>))"

definition on_kv :: "(cpu_kv_cache, 'e, 'a) act \<Rightarrow> (llama_cpu, 'e, 'a) act" where
  "on_kv f s = (let (r, c) = f (lc_kv s) in (r, s\<lparr>lc_kv := c\<rparr>))"

definition advance :: "usize \<Rightarrow> (cpu_kv_cache, 'e, unit) act" where
  "advance n = modify (\<lambda>c. c\<lparr>kvc_pos := kvc_pos c + n\<rparr>)"

definition forward_sequence :: "libm \<Rightarrow> token_id list \<Rightarrow> (llama_cpu, load_error, f32 list) act" where
  "forward_sequence lm toks s =
     on_kv (and_then (forward_tokens lm (lc_meta s) (lc_weights s) (kvc_pos (lc_kv s)) toks []) (\<lambda>logits.
       and_then (advance (length toks)) (\<lambda>_. ret logits))) s"

definition cpu_bind_prefix :: "cache_lookup \<Rightarrow> (llama_cpu, spec_error, unit) act" where
  "cpu_bind_prefix p s = (Ok (), s\<lparr>lc_bound_prefix := Some p\<rparr>)"

text \<open>\<open>err\<close> is the text of a load error.\<close>

definition cpu_next_logits :: "libm \<Rightarrow> (load_error \<Rightarrow> string) \<Rightarrow> token_id list \<Rightarrow> (llama_cpu, spec_error, f32 list) act" where
  "cpu_next_logits lm err ctx s =
     (if ctx = [] then (Err (Model ''next_logits called with empty context''), s)
      else
        on_kv (and_then (\<lambda>c. let (r, c1) = forward_one lm (lc_meta s) (lc_weights s) (last ctx) (kvc_pos c) c
                             in (map_err (\<lambda>e. Model (err e)) r, c1)) (\<lambda>logits.
          and_then (advance 1) (\<lambda>_. lift_act (token_logits_new logits)))) s)"

fun cpu_verify_run ::
  "libm \<Rightarrow> (load_error \<Rightarrow> string) \<Rightarrow> model_meta \<Rightarrow> weight_store \<Rightarrow> usize \<Rightarrow> token_id list \<Rightarrow> (cpu_kv_cache, spec_error, f32 list list) act" where
  "cpu_verify_run lm err m ws pos [] = ret []"
| "cpu_verify_run lm err m ws pos (tok # toks) =
     and_then (\<lambda>c. let (r, c1) = forward_one lm m ws tok pos c in (map_err (\<lambda>e. Model (err e)) r, c1)) (\<lambda>logits.
     and_then (lift_act (token_logits_new logits)) (\<lambda>l.
     and_then (cpu_verify_run lm err m ws (pos + 1) toks) (\<lambda>ls. ret (l # ls))))"

definition cpu_verify_logits ::
  "libm \<Rightarrow> (load_error \<Rightarrow> string) \<Rightarrow> token_id list \<Rightarrow> token_id list \<Rightarrow> (llama_cpu, spec_error, f32 list list) act" where
  "cpu_verify_logits lm err ctx ds s =
     on_kv (and_then (cpu_verify_run lm err (lc_meta s) (lc_weights s) (kvc_pos (lc_kv s)) ds) (\<lambda>ls.
       and_then (advance (length ds)) (\<lambda>_. ret ls))) s"

definition cpu_backend_ops :: "libm \<Rightarrow> (load_error \<Rightarrow> string) \<Rightarrow> llama_cpu backend" where
  "cpu_backend_ops lm err =
     \<lparr>b_bind_prefix = cpu_bind_prefix, b_bind_slot = bind_slot_default, b_next_logits = cpu_next_logits lm err,
      b_next_logits_batch = next_logits_batch_default (cpu_next_logits lm err),
      b_verify_logits = cpu_verify_logits lm err,
      b_verify_logits_batch = verify_logits_batch_default (cpu_verify_logits lm err)\<rparr>"

end
