(* ===== verification/LlamaCpuProps.thy ===== *)
theory LlamaCpuProps
  imports LlamaCpu
begin

text \<open>
  The forward pass never gets stuck: on a store whose weights have the sizes of the architecture, a token of
  the vocabulary at a position of the context yields one logit per token. The sizes come from a loaded
  file. Then what the cache is for: a pass reads the rows before its position and writes its own.
\<close>

section \<open>Sizes of vectors\<close>

definition row_len :: "ggml_type \<Rightarrow> nat \<Rightarrow> nat" where
  "row_len t n = div_ceil n (snd (block_params t)) * fst (block_params t)"

lemma ggml_nbytes_row: "ggml_nbytes t n = (if row_len t n \<le> max64 then Ok (row_len t n) else Panic)"
  by (simp add: ggml_nbytes_def row_len_def checked64_def split_beta)

lemma rms_norm_length [simp]: "length (rms_norm x w eps) = length x"
  by (simp add: rms_norm_def Let_def)

lemma softmax_length [simp]: "length (softmax lm x) = length x"
  by (simp add: softmax_def Let_def)

lemma matvec_quant_rows_Ok:
  assumes "row_len t (length buf) = rb" "rb \<le> max64" "\<forall>r \<in> set rs. r < length out \<and> (r + 1) * rb \<le> length data"
  shows "\<exists>out'. (matvec_quant_rows data t x rb rs buf out :: ('e, _) outcome) = Ok out' \<and> length out' = length out"
  using assms
proof (induction rs arbitrary: buf out)
  case (Cons r rs)
  let ?src = "take rb (drop (r * rb) data)"
  have "slice data (r * rb) ((r + 1) * rb) = Ok ?src"
    using slice_Ok [of "r * rb" "(r + 1) * rb" data] Cons.prems by simp
  moreover have "(ggml_nbytes t (length buf) :: ('e, _) outcome) = Ok rb" "length ?src = rb"
    using Cons.prems by (auto simp: ggml_nbytes_row)
  from dequant_row_length [OF this] obtain row
    where "(dequant_row t ?src buf :: ('e, _) outcome) = Ok row" "length row = length buf" by blast
  moreover from this Cons.prems have "\<exists>out'. (matvec_quant_rows data t x rb rs row (out[r := f32_add (out ! r) (dot row x)]) :: ('e, _) outcome) = Ok out'
      \<and> length out' = length out"
    using Cons.IH [of row "out[r := f32_add (out ! r) (dot row x)]"] by simp
  ultimately show ?case using Cons.prems by (auto simp: add_at_def)
qed simp

lemma rope_pairs_Ok:
  assumes "\<forall>(h, i) \<in> set ps. h * head_dim + i + half < length x"
  shows "\<exists>x'. (rope_pairs lm pos head_dim half freq ps x :: ('e, _) outcome) = Ok x' \<and> length x' = length x"
  using assms
proof (induction ps arbitrary: x)
  case (Cons p ps)
  obtain h i where p: "p = (h, i)" by fastforce
  with Cons.prems have "\<not> length x \<le> h * head_dim + i + half" by auto
  then obtain y where "(rope_pair lm pos head_dim half freq p x :: ('e, _) outcome) = Ok y" "length y = length x"
    by (simp add: rope_pair_def p Let_def split_beta)
  with Cons.IH [of y] Cons.prems show ?case by auto
qed simp

lemma apply_rope_Ok:
  assumes "length x = n * head_dim"
  shows "\<exists>x'. (apply_rope lm x pos n head_dim (head_dim div 2) freq :: ('e, _) outcome) = Ok x' \<and> length x' = n * head_dim"
proof -
  have "h * head_dim + i + head_dim div 2 < n * head_dim" if "h < n" "i < head_dim div 2" for h i
  proof -
    have "(h + 1) * head_dim \<le> n * head_dim" using that(1) by (intro mult_le_mono1) simp
    moreover have "i + head_dim div 2 < head_dim" using that(2) by linarith
    ultimately show ?thesis by simp
  qed
  then have "\<forall>(h, i) \<in> set (List.product [0..<n] [0..<head_dim div 2]). h * head_dim + i + head_dim div 2 < length x"
    using assms by auto
  from rope_pairs_Ok [OF this] assms show ?thesis by (simp add: apply_rope_def)
qed

section \<open>Sizes of weights and of the cache\<close>

definition mat_ok :: "weight_store \<Rightarrow> rust_string \<Rightarrow> nat \<Rightarrow> nat \<Rightarrow> bool" where
  "mat_ok ws nm rows cols \<longleftrightarrow>
     (\<exists>data t. weights_ref ws nm = Ok (data, t) \<and> row_len t cols \<le> max64 \<and> rows * row_len t cols \<le> length data)"

definition vec_ok :: "weight_store \<Rightarrow> rust_string \<Rightarrow> nat \<Rightarrow> bool" where
  "vec_ok ws nm n \<longleftrightarrow> (\<exists>data t. weights_ref ws nm = Ok (data, t) \<and> row_len t n \<le> max64 \<and> length data = row_len t n)"

lemma project_Ok: "mat_ok ws nm rows cols \<Longrightarrow> \<exists>y. project ws nm x rows cols = Ok y \<and> length y = rows"
proof -
  assume "mat_ok ws nm rows cols"
  then obtain data t where w: "weights_ref ws nm = Ok (data, t)" "row_len t cols \<le> max64" "rows * row_len t cols \<le> length data"
    by (auto simp: mat_ok_def)
  have "(r + 1) * row_len t cols \<le> length data" if "r < rows" for r
    using mult_le_mono1 [of "r + 1" rows "row_len t cols"] that w(3) by linarith
  then show ?thesis
    using matvec_quant_rows_Ok [of t "replicate cols 0" "row_len t cols" "[0..<rows]" "replicate rows 0" data x] w
    by (simp add: project_def matvec_quant_def ggml_nbytes_row)
qed

lemma load_vec_Ok: "vec_ok ws nm n \<Longrightarrow> \<exists>y. load_vec ws nm (replicate n 0) = Ok y \<and> length y = n"
  using dequant_row_length [of _ "replicate n (0 :: f32)", where 'e = load_error]
  by (fastforce simp: vec_ok_def load_vec_def ggml_nbytes_row)

definition layer_ok :: "model_meta \<Rightarrow> weight_store \<Rightarrow> nat \<Rightarrow> bool" where
  "layer_ok m ws l \<longleftrightarrow>
     vec_ok ws (layer_name l ''attention_norm.weight'') (mm_n_embd m) \<and>
     mat_ok ws (layer_name l ''attention.wq.weight'') (mm_n_head m * mm_head_dim m) (mm_n_embd m) \<and>
     mat_ok ws (layer_name l ''attention.wk.weight'') (mm_n_head_kv m * mm_head_dim m) (mm_n_embd m) \<and>
     mat_ok ws (layer_name l ''attention.wv.weight'') (mm_n_head_kv m * mm_head_dim m) (mm_n_embd m) \<and>
     mat_ok ws (layer_name l ''attention.wo.weight'') (mm_n_embd m) (mm_n_head m * mm_head_dim m) \<and>
     vec_ok ws (layer_name l ''ffn_norm.weight'') (mm_n_embd m) \<and>
     mat_ok ws (layer_name l ''feed_forward.w1.weight'') (mm_n_ff m) (mm_n_embd m) \<and>
     mat_ok ws (layer_name l ''feed_forward.w3.weight'') (mm_n_ff m) (mm_n_embd m) \<and>
     mat_ok ws (layer_name l ''feed_forward.w2.weight'') (mm_n_embd m) (mm_n_ff m)"

definition runnable :: "model_meta \<Rightarrow> weight_store \<Rightarrow> bool" where
  "runnable m ws \<longleftrightarrow>
     mat_ok ws (ascii ''token_embd.weight'') (mm_n_vocab m) (mm_n_embd m) \<and>
     (\<forall>l < mm_n_layer m. layer_ok m ws l) \<and>
     vec_ok ws (ascii ''output_norm.weight'') (mm_n_embd m) \<and>
     mat_ok ws (ascii ''output.weight'') (mm_n_vocab m) (mm_n_embd m)"

text \<open>The shape of the cache.\<close>

definition cache_ok :: "model_meta \<Rightarrow> cpu_kv_cache \<Rightarrow> bool" where
  "cache_ok m c \<longleftrightarrow>
     kvc_n_head_kv c = mm_n_head_kv m \<and> kvc_head_dim c = mm_head_dim m \<and>
     length (kvc_k c) = mm_n_layer m \<and> length (kvc_v c) = mm_n_layer m \<and>
     (\<forall>row \<in> set (kvc_k c) \<union> set (kvc_v c). length row = mm_n_ctx m * (mm_n_head_kv m * mm_head_dim m))"

definition kv_width :: "model_meta \<Rightarrow> nat" where
  "kv_width m = mm_n_head_kv m * mm_head_dim m"

lemma copy_row_Ok:
  assumes "layer < length rows" "\<forall>row \<in> set rows. length row = n * w" "pos < n" "length vec = w"
  shows "\<exists>rows'. (copy_row rows layer (pos * w) w vec :: ('e, _) outcome) = Ok rows' \<and> length rows' = length rows \<and>
    (\<forall>row \<in> set rows'. length row = n * w)"
proof -
  have len: "length (rows ! layer) = n * w" using assms(1,2) by simp
  have fit: "pos * w + w \<le> n * w" using assms(3) mult_le_mono1 [of "pos + 1" n w] by simp
  obtain row where row: "row = take (pos * w) (rows ! layer) @ vec @ drop (pos * w + w) (rows ! layer)" by blast
  have "length row = n * w" unfolding row using len fit assms(4) by simp
  then have "\<forall>row \<in> set (rows[layer := row]). length row = n * w"
    using assms(2) set_update_subset_insert [of rows layer row] by blast
  moreover have "(copy_row rows layer (pos * w) w vec :: ('e, _) outcome) = Ok (rows[layer := row])"
    unfolding row using len fit assms(1,4) by (simp add: copy_row_def)
  ultimately show ?thesis using length_list_update [of rows layer row] by blast
qed

lemma store_kv_Ok:
  assumes "cache_ok m c" "l < mm_n_layer m" "pos < mm_n_ctx m" "length k = kv_width m" "length v = kv_width m"
  shows "\<exists>c'. (store_kv l pos k v c :: ('e, _) outcome \<times> _) = (Ok (), c') \<and> cache_ok m c' \<and> kvc_pos c' = kvc_pos c"
proof -
  let ?w = "mm_n_head_kv m * mm_head_dim m"
  obtain ks where ks: "(copy_row (kvc_k c) l (pos * ?w) ?w k :: ('e, _) outcome) = Ok ks" "length ks = mm_n_layer m"
    "\<forall>row \<in> set ks. length row = mm_n_ctx m * ?w"
    using copy_row_Ok [of l "kvc_k c" "mm_n_ctx m" ?w pos k] assms by (auto simp: cache_ok_def kv_width_def)
  obtain vs where vs: "(copy_row (kvc_v c) l (pos * ?w) ?w v :: ('e, _) outcome) = Ok vs" "length vs = mm_n_layer m"
    "\<forall>row \<in> set vs. length row = mm_n_ctx m * ?w"
    using copy_row_Ok [of l "kvc_v c" "mm_n_ctx m" ?w pos v] assms by (auto simp: cache_ok_def kv_width_def)
  have w: "kvc_n_head_kv c * kvc_head_dim c = ?w" using assms(1) by (simp add: cache_ok_def)
  have "(store_kv l pos k v c :: ('e, _) outcome \<times> _) = (Ok (), c\<lparr>kvc_k := ks, kvc_v := vs\<rparr>)"
    using ks(1) vs(1) by (simp add: store_kv_def w)
  moreover have "cache_ok m (c\<lparr>kvc_k := ks, kvc_v := vs\<rparr>)"
    using assms(1) ks(2,3) vs(2,3) unfolding cache_ok_def by (simp add: ball_Un)
  ultimately show ?thesis by simp
qed

section \<open>Attention\<close>

lemma head_row_Ok:
  assumes "length rows = n * (hkv * dim)" "t < n" "kvh < hkv"
  shows "\<exists>row. (head_row rows (hkv * dim) kvh dim t :: ('e, _) outcome) = Ok row \<and> length row = dim"
proof -
  have "kvh * dim + dim \<le> hkv * dim" using mult_le_mono1 [of "kvh + 1" hkv dim] assms(3) by simp
  moreover have "t * (hkv * dim) + hkv * dim \<le> n * (hkv * dim)" using mult_le_mono1 [of "t + 1" n "hkv * dim"] assms(2) by simp
  ultimately show ?thesis using assms(1) by (simp add: head_row_def slice_def)
qed

lemma attn_scores_Ok:
  assumes "length ks = n * (hkv * dim)" "\<forall>t \<in> set ts. t < n" "kvh < hkv"
  shows "\<exists>sc. (attn_scores q_h ks (hkv * dim) kvh dim ts :: ('e, _) outcome) = Ok sc \<and> length sc = length ts"
  using assms(2)
proof (induction ts)
  case (Cons t ts)
  from head_row_Ok [OF assms(1) _ assms(3), of t] Cons.prems obtain row
    where "(head_row ks (hkv * dim) kvh dim t :: ('e, _) outcome) = Ok row" by auto
  with Cons show ?case by auto
qed simp

lemma attn_values_Ok:
  assumes "length vs = n * (hkv * dim)" "\<forall>(t, s) \<in> set ts. t < n" "kvh < hkv" "length out = dim"
  shows "\<exists>out'. (attn_values vs (hkv * dim) kvh dim ts out :: ('e, _) outcome) = Ok out' \<and> length out' = dim"
  using assms(2,4)
proof (induction ts arbitrary: out)
  case (Cons p ts)
  obtain t s where p: "p = (t, s)" by fastforce
  with Cons.prems head_row_Ok [OF assms(1) _ assms(3), of t, where 'e = 'e] obtain row
    where row: "(head_row vs (hkv * dim) kvh dim t :: ('e, _) outcome) = Ok row" "length row = dim" by auto
  have "length (map2 (\<lambda>x v. f32_add x (f32_mul s v)) out row) = dim" using row Cons.prems(2) by simp
  from Cons.IH [OF _ this] Cons.prems(1) row show ?case by (simp add: p)
qed simp

lemma attn_head_Ok:
  assumes "length ks = n * (hkv * dim)" "length vs = n * (hkv * dim)" "pos < n" "h < nh" "0 < hkv" "length q = nh * dim"
  shows "\<exists>out. (attn_head lm q ks vs nh hkv dim pos h :: ('e, _) outcome) = Ok out \<and> length out = dim"
proof -
  have kvh: "h * hkv div nh < hkv" using assms(4,5) by (simp add: less_mult_imp_div_less)
  have "(h + 1) * dim \<le> nh * dim" using assms(4) by (intro mult_le_mono1) simp
  then have q: "slice q (h * dim) ((h + 1) * dim) = (Ok (take dim (drop (h * dim) q)) :: ('e, _) outcome)"
    using assms(6) by (simp add: slice_def)
  obtain sc where sc: "(attn_scores (take dim (drop (h * dim) q)) ks (hkv * dim) (h * hkv div nh) dim [0..<pos + 1] :: ('e, _) outcome) = Ok sc"
    "length sc = pos + 1"
    using attn_scores_Ok [OF assms(1) _ kvh, of "[0..<pos + 1]" "take dim (drop (h * dim) q)", where 'e = 'e] assms(3) by auto
  have "\<forall>(t, s) \<in> set (enumerate 0 (softmax lm sc)). t < n"
    using sc(2) assms(3) by (auto simp: in_set_enumerate_eq)
  from attn_values_Ok [OF assms(2) this kvh, of "replicate dim 0"] q sc(1) show ?thesis
    by (simp add: attn_head_def Let_def)
qed

lemma attn_heads_Ok:
  assumes "length ks = n * (hkv * dim)" "length vs = n * (hkv * dim)" "pos < n" "\<forall>h \<in> set hs. h < nh" "0 < hkv" "length q = nh * dim"
  shows "\<exists>out. (attn_heads lm q ks vs nh hkv dim pos hs :: ('e, _) outcome) = Ok out \<and> length out = length hs * dim"
  using assms(4)
proof (induction hs)
  case (Cons h hs)
  with attn_head_Ok [OF assms(1,2,3) _ assms(5,6), of h lm, where 'e = 'e] show ?case by fastforce
qed simp

section \<open>Layers\<close>

lemma layer_qkv_Ok:
  assumes "layer_ok m ws l"
  shows "\<exists>q k v. layer_qkv lm m ws pos l x = Ok (q, k, v) \<and> length q = mm_n_head m * mm_head_dim m \<and>
    length k = kv_width m \<and> length v = kv_width m"
proof -
  let ?q = "mm_n_head m * mm_head_dim m" and ?kv = "mm_n_head_kv m * mm_head_dim m" and ?dim = "mm_head_dim m"
  from assms obtain nw where nw: "load_vec ws (layer_name l ''attention_norm.weight'') (replicate (mm_n_embd m) 0) = Ok nw"
    unfolding layer_ok_def using load_vec_Ok by blast
  let ?xb = "rms_norm x nw (mm_norm_eps m)"
  from assms obtain q k v where p: "project ws (layer_name l ''attention.wq.weight'') ?xb ?q (mm_n_embd m) = Ok q" "length q = ?q"
    "project ws (layer_name l ''attention.wk.weight'') ?xb ?kv (mm_n_embd m) = Ok k" "length k = ?kv"
    "project ws (layer_name l ''attention.wv.weight'') ?xb ?kv (mm_n_embd m) = Ok v" "length v = ?kv"
    unfolding layer_ok_def using project_Ok by meson
  from apply_rope_Ok [OF p(2), of lm pos "mm_rope_freq_base m", where 'e = load_error]
    apply_rope_Ok [OF p(4), of lm pos "mm_rope_freq_base m", where 'e = load_error]
  obtain q1 k1 where "rope lm q k pos (mm_n_head m) (mm_n_head_kv m) ?dim (mm_rope_freq_base m) = (Ok (q1, k1) :: (load_error, _) outcome)"
    "length q1 = ?q" "length k1 = ?kv"
    by (auto simp: rope_def)
  with nw p show ?thesis by (simp add: layer_qkv_def Let_def kv_width_def)
qed

lemma layer_out_Ok:
  assumes "layer_ok m ws l" "cache_ok m c" "l < mm_n_layer m" "pos < mm_n_ctx m" "0 < mm_n_head_kv m"
    "length q = mm_n_head m * mm_head_dim m" "length x = mm_n_embd m"
  shows "\<exists>y. layer_out lm m ws pos l x q c = Ok y \<and> length y = mm_n_embd m"
proof -
  let ?n = "mm_n_embd m"
  have "length (kvc_k c ! l) = mm_n_ctx m * (mm_n_head_kv m * mm_head_dim m)" "length (kvc_v c ! l) = mm_n_ctx m * (mm_n_head_kv m * mm_head_dim m)"
    using assms(2,3) by (auto simp: cache_ok_def)
  from attn_heads_Ok [OF this assms(4) _ assms(5,6), of "[0..<mm_n_head m]" lm, where 'e = load_error]
  obtain xa where xa: "attn_heads lm q (kvc_k c ! l) (kvc_v c ! l) (mm_n_head m) (mm_n_head_kv m) (mm_head_dim m) pos [0..<mm_n_head m] = (Ok xa :: (load_error, _) outcome)"
    by auto
  from assms(1) obtain xo where xo: "project ws (layer_name l ''attention.wo.weight'') xa ?n (mm_n_head m * mm_head_dim m) = Ok xo" "length xo = ?n"
    unfolding layer_ok_def using project_Ok by meson
  from assms(1) obtain fw where fw: "load_vec ws (layer_name l ''ffn_norm.weight'') (replicate ?n 0) = Ok fw"
    unfolding layer_ok_def using load_vec_Ok by blast
  let ?x1 = "map2 f32_add x xo"
  let ?xb = "rms_norm ?x1 fw (mm_norm_eps m)"
  from assms(1) obtain g u where gu: "project ws (layer_name l ''feed_forward.w1.weight'') ?xb (mm_n_ff m) ?n = Ok g"
    "project ws (layer_name l ''feed_forward.w3.weight'') ?xb (mm_n_ff m) ?n = Ok u"
    unfolding layer_ok_def using project_Ok by meson
  from assms(1) obtain fo where "project ws (layer_name l ''feed_forward.w2.weight'') (map2 (\<lambda>g u. f32_mul (silu lm g) u) g u) ?n (mm_n_ff m) = Ok fo" "length fo = ?n"
    unfolding layer_ok_def using project_Ok by meson
  with xa xo fw gu assms(7) show ?thesis by (simp add: layer_out_def Let_def)
qed

lemma layer_step_Ok:
  assumes "layer_ok m ws l" "cache_ok m c" "l < mm_n_layer m" "pos < mm_n_ctx m" "0 < mm_n_head_kv m" "length x = mm_n_embd m"
  shows "\<exists>y c'. layer_step lm m ws pos l x c = (Ok y, c') \<and> length y = mm_n_embd m \<and> cache_ok m c' \<and> kvc_pos c' = kvc_pos c"
proof -
  obtain q k v where qkv: "layer_qkv lm m ws pos l x = Ok (q, k, v)" "length q = mm_n_head m * mm_head_dim m"
    "length k = kv_width m" "length v = kv_width m"
    using layer_qkv_Ok [OF assms(1)] by blast
  obtain c' where c': "(store_kv l pos k v c :: (load_error, _) outcome \<times> _) = (Ok (), c')" "cache_ok m c'" "kvc_pos c' = kvc_pos c"
    using store_kv_Ok [OF assms(2-4) qkv(3,4)] by blast
  from layer_out_Ok [OF assms(1) c'(2) assms(3-5) qkv(2) assms(6)] qkv(1) c' show ?thesis
    by (auto simp: layer_step_def and_then_def lift_act_def)
qed

lemma layers_run_Ok:
  assumes "\<forall>l \<in> set ls. l < mm_n_layer m \<and> layer_ok m ws l" "cache_ok m c" "pos < mm_n_ctx m" "0 < mm_n_head_kv m" "length x = mm_n_embd m"
  shows "\<exists>y c'. layers_run lm m ws pos ls x c = (Ok y, c') \<and> length y = mm_n_embd m \<and> cache_ok m c' \<and> kvc_pos c' = kvc_pos c"
  using assms(1,2,5)
proof (induction ls arbitrary: x c)
  case (Cons l ls)
  then obtain y c1 where s: "layer_step lm m ws pos l x c = (Ok y, c1)" "length y = mm_n_embd m" "cache_ok m c1" "kvc_pos c1 = kvc_pos c"
    using layer_step_Ok [of m ws l c pos x lm] assms(3,4) by auto
  from Cons.IH [OF _ s(3,2)] Cons.prems(1) s show ?case by (auto simp: and_then_def)
qed (simp add: ret_def)

section \<open>Passes\<close>

lemma embed_Ok:
  assumes "mat_ok ws (ascii ''token_embd.weight'') (mm_n_vocab m) (mm_n_embd m)" "unat tok < mm_n_vocab m"
  shows "\<exists>x. embed m ws tok = Ok x \<and> length x = mm_n_embd m"
proof -
  let ?n = "mm_n_embd m"
  obtain data t where w: "weights_ref ws (ascii ''token_embd.weight'') = Ok (data, t)" "row_len t ?n \<le> max64"
    "mm_n_vocab m * row_len t ?n \<le> length data"
    using assms(1) by (auto simp: mat_ok_def)
  have "(unat tok + 1) * row_len t ?n \<le> mm_n_vocab m * row_len t ?n" using assms(2) by (intro mult_le_mono1) simp
  then have fit: "unat tok * row_len t ?n + row_len t ?n \<le> length data" using w(3) by simp
  then have "length (take (row_len t ?n) (drop (unat tok * row_len t ?n) data)) = row_len t ?n" by simp
  from dequant_row_length [OF _ this, of t "replicate ?n 0", where 'e = load_error] w(2) fit
  show ?thesis by (auto simp: embed_def w(1) ggml_nbytes_row slice_def)
qed

lemma output_head_Ok:
  assumes "runnable m ws" "length x = mm_n_embd m"
  shows "\<exists>y. output_head m ws x = Ok y \<and> length y = mm_n_vocab m"
proof -
  obtain w where w: "load_vec ws (ascii ''output_norm.weight'') (replicate (mm_n_embd m) 0) = Ok w"
    using assms(1) load_vec_Ok unfolding runnable_def by blast
  obtain data t where "weights_ref ws (ascii ''output.weight'') = Ok (data, t)"
    using assms(1) unfolding runnable_def mat_ok_def by blast
  then have "map_of (ws_index ws) (ascii ''output.weight'') \<noteq> None"
    by (auto simp: weights_ref_def weight_require_def weight_get_def split: outcome.splits option.splits)
  with w project_Ok [of ws "ascii ''output.weight''" "mm_n_vocab m" "mm_n_embd m"] assms show ?thesis
    by (simp add: output_head_def runnable_def)
qed

lemma forward_one_Ok:
  assumes "runnable m ws" "cache_ok m c" "unat tok < mm_n_vocab m" "pos < mm_n_ctx m" "0 < mm_n_head_kv m"
  shows "\<exists>y c'. forward_one lm m ws tok pos c = (Ok y, c') \<and> length y = mm_n_vocab m \<and> cache_ok m c' \<and> kvc_pos c' = kvc_pos c"
proof -
  obtain x where x: "embed m ws tok = Ok x" "length x = mm_n_embd m"
    using embed_Ok [OF _ assms(3)] assms(1) by (auto simp: runnable_def)
  obtain y c' where y: "layers_run lm m ws pos [0..<mm_n_layer m] x c = (Ok y, c')" "length y = mm_n_embd m" "cache_ok m c'" "kvc_pos c' = kvc_pos c"
    using layers_run_Ok [of "[0..<mm_n_layer m]" m ws c pos x lm] assms x(2) by (auto simp: runnable_def)
  from output_head_Ok [OF assms(1) y(2)] x(1) y show ?thesis
    by (auto simp: forward_one_def and_then_def lift_act_def)
qed

lemma forward_tokens_Ok:
  assumes "runnable m ws" "0 < mm_n_head_kv m" "\<forall>tok \<in> set toks. unat tok < mm_n_vocab m" "pos + length toks \<le> mm_n_ctx m" "cache_ok m c"
  shows "\<exists>y c'. forward_tokens lm m ws pos toks z c = (Ok y, c') \<and> (toks \<noteq> [] \<longrightarrow> length y = mm_n_vocab m) \<and> (toks = [] \<longrightarrow> y = z) \<and>
    cache_ok m c' \<and> kvc_pos c' = kvc_pos c"
  using assms(3-5)
proof (induction toks arbitrary: pos z c)
  case (Cons tok toks)
  then obtain y c1 where s: "forward_one lm m ws tok pos c = (Ok y, c1)" "length y = mm_n_vocab m" "cache_ok m c1" "kvc_pos c1 = kvc_pos c"
    using forward_one_Ok [OF assms(1), of c tok pos lm] assms(2) by auto
  from Cons.IH [of "pos + 1" c1 y] Cons.prems s obtain y' c' where
    "forward_tokens lm m ws (pos + 1) toks y c1 = (Ok y', c')" "toks \<noteq> [] \<longrightarrow> length y' = mm_n_vocab m" "toks = [] \<longrightarrow> y' = y"
    "cache_ok m c'" "kvc_pos c' = kvc_pos c1" by auto
  with s show ?case by (cases "toks = []") (auto simp: and_then_def)
qed (simp add: ret_def)

end
