(* ===== verification/GgufTypes.thy ===== *)
theory GgufTypes
  imports GgufProps
begin

text \<open>
  What the GGUF reader guarantees of every file it accepts, whoever wrote it: the strings are UTF-8, no array
  holds an array, and each tensor has at most four dimensions and the size that its shape and type
  determine. Such facts are composed along the readers: \<open>yields P m\<close> says that \<open>m\<close> only returns values
  with \<open>P\<close>.
\<close>

definition yields :: "('a \<Rightarrow> bool) \<Rightarrow> (reader, gguf_error, 'a) act \<Rightarrow> bool" where
  "yields P m \<longleftrightarrow> (\<forall>r v r'. m r = (Ok v, r') \<longrightarrow> P v)"

named_theorems yield_rules

lemma yieldsD: "yields P m \<Longrightarrow> m r = (Ok v, r') \<Longrightarrow> P v"
  by (auto simp: yields_def)

lemma yields_True [yield_rules]: "yields (\<lambda>_. True) m"
  by (simp add: yields_def)

lemma yields_ret [yield_rules]: "P v \<Longrightarrow> yields P (ret v)"
  by (auto simp: yields_def ret_def)

lemma yields_throw [yield_rules]: "yields P (throw e)"
  by (simp add: yields_def throw_def)

lemma yields_if [yield_rules]: "(b \<Longrightarrow> yields P m) \<Longrightarrow> (\<not> b \<Longrightarrow> yields P m') \<Longrightarrow> yields P (if b then m else m')"
  by simp

lemma yields_and_then: "yields Q m \<Longrightarrow> (\<And>a. Q a \<Longrightarrow> yields P (f a)) \<Longrightarrow> yields P (and_then m f)"
  unfolding yields_def and_then_Ok_iff by blast

lemma yields_bind: "(\<And>a. yields P (f a)) \<Longrightarrow> yields P (and_then m f)"
  by (rule yields_and_then [OF yields_True]) simp

lemma yields_lift: "(\<And>v. r = Ok v \<Longrightarrow> P v) \<Longrightarrow> yields P (lift_outcome r)"
  by (simp add: yields_def lift_outcome_def)

lemma yields_many: "yields P m \<Longrightarrow> yields (\<lambda>xs. length xs = n \<and> list_all P xs) (read_many n m)"
proof (induction n)
  case (Suc n)
  show ?case
    unfolding read_many.simps
    by (rule yields_and_then [OF Suc.prems], rule yields_and_then [OF Suc.IH [OF Suc.prems]], rule yields_ret) simp
qed (simp add: yields_ret)

section \<open>Values and tensors\<close>

fun elem_wf :: "gguf_value \<Rightarrow> bool" where
  "elem_wf (V_String s) = utf8_valid s"
| "elem_wf (V_Array vs) = False"
| "elem_wf _ = True"

fun value_wf :: "gguf_value \<Rightarrow> bool" where
  "value_wf (V_Array vs) = (list_all elem_wf vs \<and> length vs < 2 ^ 64)"
| "value_wf v = elem_wf v"

lemma yields_string: "yields utf8_valid read_string"
  unfolding read_string_def by (intro yields_bind yields_if yields_ret yields_throw)

lemma elem_value_wf: "elem_wf v \<Longrightarrow> value_wf v"
  by (cases v) auto

lemma yields_elem: "yields elem_wf (read_array_elem i)"
  unfolding read_array_elem_def
  by (intro yields_if yields_throw; (rule yields_and_then [OF yields_string] yields_bind); rule yields_ret; simp)

lemma yields_value: "yields value_wf read_value"
proof -
  have elem: "yields value_wf (read_array_elem i)" for i
    using yields_elem [of i] by (auto simp: yields_def elem_value_wf)
  have arr: "yields value_wf (and_then (read_many (unat n) (read_array_elem i)) (\<lambda>vs. ret (V_Array vs)))" for n :: u64 and i
    using unsigned_less [of n] by (intro yields_and_then [OF yields_many [OF yields_elem]] yields_ret) simp
  show ?thesis
    unfolding read_value_def by (intro yields_bind yields_if elem arr)
qed

text \<open>The recorded size of a tensor is the one of its shape and type.\<close>

definition sized :: "tensor_info \<Rightarrow> bool" where
  "sized t \<longleftrightarrow>
     (\<exists>n. (checked_product (ti_shape t) 1 :: (gguf_error, _) outcome) = Ok n \<and>
          (ggml_nbytes (ti_dtype t) n :: (gguf_error, _) outcome) = Ok (ti_nbytes t))"

definition tensor_wf :: "tensor_info \<Rightarrow> bool" where
  "tensor_wf t \<longleftrightarrow> utf8_valid (ti_name t) \<and> length (ti_shape t) \<le> 4 \<and> sized t"

lemma lift_outcome_Ok [simp]: "lift_outcome r s = (Ok v, s') \<longleftrightarrow> r = Ok v \<and> s' = s"
  by (auto simp: lift_outcome_def)

lemma ret_Ok [simp]: "ret v s = (Ok w, s') \<longleftrightarrow> w = v \<and> s' = s"
  by (auto simp: ret_def)

lemma throw_Ok [simp]: "throw e s \<noteq> (Ok w, s')"
  by (simp add: throw_def)

lemma yields_tensor: "yields tensor_wf read_tensor_info"
  unfolding yields_def
proof (intro allI impI)
  fix r t r' assume "read_tensor_info r = (Ok t, r')"
  then show "tensor_wf t"
    by (auto simp: read_tensor_info_def and_then_Ok_iff tensor_wf_def sized_def word_less_nat_alt not_less
        split: if_splits option.splits dest!: yieldsD [OF yields_string] yieldsD [OF yields_many [OF yields_True]])
qed

section \<open>Files\<close>

definition file_wf :: "gguf_file \<Rightarrow> bool" where
  "file_wf f \<longleftrightarrow>
     version f \<in> {1, 2, 3} \<and>
     (\<forall>(k, v) \<in> set (metadata f). utf8_valid k \<and> value_wf v) \<and> distinct (map fst (metadata f)) \<and>
     (\<forall>(nm, t) \<in> set (tensors f). nm = ti_name t \<and> tensor_wf t) \<and> distinct (map fst (tensors f)) \<and>
     0 < alignment_of (metadata f) \<and> alignment_of (metadata f) dvd data_offset f"

lemma hm_insert_all: "\<forall>(k, v) \<in> set m. P k v \<Longrightarrow> P k v \<Longrightarrow> \<forall>(k, v) \<in> set (hm_insert k v m). P k v"
  by (auto simp: hm_insert_def)

lemma hm_insert_distinct: "distinct (map fst m) \<Longrightarrow> distinct (map fst (hm_insert k v m))"
proof -
  have "distinct (map fst (filter P m))" if "distinct (map fst m)" for P using that by (rule distinct_map_filter)
  then show "distinct (map fst m) \<Longrightarrow> distinct (map fst (hm_insert k v m))"
    by (auto simp: hm_insert_def)
qed

lemma foldl_hm_insert:
  assumes "\<forall>e \<in> set es. P (key e) (val e)" "\<forall>(k, v) \<in> set m. P k v" "distinct (map fst m)"
  shows "(\<forall>(k, v) \<in> set (foldl (\<lambda>m e. hm_insert (key e) (val e) m) m es). P k v) \<and>
    distinct (map fst (foldl (\<lambda>m e. hm_insert (key e) (val e) m) m es))"
  using assms
proof (induction es arbitrary: m)
  case (Cons e es)
  have "\<forall>(k, v) \<in> set (hm_insert (key e) (val e) m). P k v"
    using Cons.prems by (intro hm_insert_all) simp_all
  with Cons.IH [of "hm_insert (key e) (val e) m"] Cons.prems hm_insert_distinct [of m] show ?case by simp
qed simp

lemma yields_entry: "yields (\<lambda>(k, v). utf8_valid k \<and> value_wf v) read_entry"
  unfolding read_entry_def
  by (rule yields_and_then [OF yields_string], rule yields_and_then [OF yields_value], rule yields_ret) simp

lemma gguf_file_wf:
  assumes "gguf_read r = (Ok f, r')"
  shows "file_wf f"
proof -
  from assms obtain ver kc tc es ts r1 r2 r3 where ver: "\<not> (ver = 0 \<or> 3 < ver)"
    and es: "read_many (unat (kc :: u64)) read_entry r1 = (Ok es, r2)"
    and ts: "read_many (unat (tc :: u64)) read_tensor_info r2 = (Ok ts, r3)"
    and f: "version f = ver" "metadata f = foldl (\<lambda>m (k, v). hm_insert k v m) [] es"
      "tensors f = foldl (\<lambda>m t. hm_insert (ti_name t) t m) [] ts"
    and off: "(align_up (rd_pos r3) (alignment_of (metadata f)) :: (gguf_error, _) outcome) = Ok (data_offset f)"
    by (auto simp: gguf_read_def and_then_Ok_iff Let_def split: if_splits)
  have "0 < unat ver" "unat ver \<le> 3" using ver by (auto simp: word_less_nat_alt unat_gt_0 not_less)
  then have "unat ver \<in> {1, 2, 3}" by auto
  then have v: "ver \<in> {1, 2, 3}" by (auto simp: word_unat_eq_iff)
  have "\<forall>e \<in> set es. utf8_valid (fst e) \<and> value_wf (snd e)"
    using yieldsD [OF yields_many [OF yields_entry] es] by (simp add: list_all_iff case_prod_unfold)
  from foldl_hm_insert [of es "\<lambda>k v. utf8_valid k \<and> value_wf v" fst snd, OF this, of "[]"]
  have m: "(\<forall>(k, v) \<in> set (metadata f). utf8_valid k \<and> value_wf v) \<and> distinct (map fst (metadata f))"
    unfolding f(2) by (simp add: case_prod_unfold)
  have "\<forall>t \<in> set ts. ti_name t = ti_name t \<and> tensor_wf t"
    using yieldsD [OF yields_many [OF yields_tensor] ts] by (simp add: list_all_iff)
  from foldl_hm_insert [of ts "\<lambda>nm t. nm = ti_name t \<and> tensor_wf t" ti_name "\<lambda>t. t", OF this, of "[]"]
  have t: "(\<forall>(nm, t) \<in> set (tensors f). nm = ti_name t \<and> tensor_wf t) \<and> distinct (map fst (tensors f))"
    unfolding f(3) by simp
  have a: "0 < alignment_of (metadata f) \<and> alignment_of (metadata f) dvd data_offset f"
    using off by (auto simp: align_up_def checked64_def dest: sym split: if_splits)
  show ?thesis
    unfolding file_wf_def f(1)
    by (intro conjI v m [THEN conjunct1] m [THEN conjunct2] t [THEN conjunct1] t [THEN conjunct2] a [THEN conjunct1] a [THEN conjunct2])
qed

text \<open>C27. Every file the reader accepts is well formed, whatever bytes it was given: its version is 1, 2 or 3, its
  keys and strings are valid UTF-8, no key or tensor name occurs twice, arrays hold no arrays, every
  tensor has at most four dimensions and the size that its shape and type determine, and the data
  start at a multiple of a positive alignment.\<close>

theorem gguf_read_wf:
  assumes "gguf_read r = (Ok f, r')"
  shows "file_wf f"
  using assms by (rule gguf_file_wf)

theorem gguf_read_wf_witness:
  "\<exists>f r'. gguf_read \<lparr>rd_data = enc_image sample_image, rd_pos = 0\<rparr> = (Ok f, r') \<and> file_wf f"
proof -
  have "\<exists>off. (align_up (length (enc_image sample_image)) 32 :: (gguf_error, _) outcome) = Ok off"
    using align_up_spec [of 32 "length (enc_image sample_image)"] sample_image_facts(3) by (metis zero_less_numeral)
  then obtain f r' where "gguf_read \<lparr>rd_data = enc_image sample_image, rd_pos = 0\<rparr> = (Ok f, r')"
    using gguf_read_image [OF sample_image_facts(1), unfolded parses_from_def, rule_format, of "[]" "[]"] sample_image_facts(2) by auto
  with gguf_read_wf [OF this] show ?thesis by blast
qed

end
