(* ===== verification/LlamaCpuRun.thy ===== *)
theory LlamaCpuRun
  imports LlamaCpuProps GgufTypes
begin

text \<open>
  From the file to the logits: a model that the loader accepts has weights of the sizes the forward pass needs,
  so it runs on every sequence of tokens that fits its context.
\<close>

section \<open>The metadata\<close>

lemma meta_from_gguf_bounds:
  assumes "meta_from_gguf f = Ok m" "file_wf f"
  shows "mm_n_embd m < 2 ^ 32" "mm_n_ff m < 2 ^ 32" "mm_n_head_kv m < 2 ^ 32" "0 < mm_n_head m" "mm_n_vocab m < 2 ^ 64"
    "mm_head_dim m = mm_n_embd m div mm_n_head m"
proof -
  have u: "v < 2 ^ 32" if "meta_u32 f key = Some v" for key v
  proof -
    from that obtain w :: u32 where "v = unat w" by (auto simp: meta_u32_def)
    then show ?thesis using unsigned_less [of w] by simp
  qed
  have arr: "length vs < 2 ^ 64" if "Option.bind (map_of (metadata f) k) as_array = Some vs" for k vs
  proof -
    from that obtain v where v: "(k, v) \<in> set (metadata f)" "as_array v = Some vs"
      by (auto simp: bind_eq_Some_conv dest: map_of_SomeD)
    then have "value_wf v" using assms(2) by (auto simp: file_wf_def)
    with v(2) show ?thesis by (cases v) auto
  qed
  have req: "v < 2 ^ 32" if "require_u32 f key = Ok v" for key v
    using that u by (auto simp: require_u32_def split: option.splits)
  from assms(1) show "mm_n_embd m < 2 ^ 32" "mm_n_ff m < 2 ^ 32" "0 < mm_n_head m" "mm_head_dim m = mm_n_embd m div mm_n_head m"
    by (auto simp: meta_from_gguf_def Let_def split: if_splits dest: req)
  from assms(1) show "mm_n_head_kv m < 2 ^ 32"
    by (auto simp: meta_from_gguf_def Let_def split: if_splits option.splits dest: req u)
  from assms(1) show "mm_n_vocab m < 2 ^ 64"
    by (auto simp: meta_from_gguf_def Let_def split: if_splits option.splits dest!: u arr)
qed

section \<open>Weights of the right size\<close>

lemma block_params_pos: "0 < snd (block_params t)" "0 < fst (block_params t)" "fst (block_params t) \<le> 292"
  by (cases t; simp)+

lemma row_len_max: "n < 2 ^ 32 \<Longrightarrow> row_len t n \<le> max64"
proof -
  assume n: "n < 2 ^ 32"
  have "div_ceil n b \<le> n" if b: "0 < b" for b
  proof (rule ccontr)
    assume "\<not> div_ceil n b \<le> n"
    then have "(n + 1) * b \<le> div_ceil n b * b" by (intro mult_le_mono1) simp
    then have "n * b + b < n + b" using div_ceil_bounds(2) [OF b, of n] by (simp only: add_mult_distrib mult_1)
    then have "n * b < n" by linarith
    moreover have "n * 1 \<le> n * b" using b by (intro mult_le_mono2) simp
    ultimately show False by simp
  qed
  then have "div_ceil n (snd (block_params t)) \<le> n" using block_params_pos(1) by blast
  then have "row_len t n \<le> n * 292" unfolding row_len_def using block_params_pos(3) by (intro mult_le_mono)
  also have "\<dots> \<le> max64" using n by (simp add: max64_def)
  finally show ?thesis .
qed

lemma row_len_mult: "snd (block_params t) dvd a \<Longrightarrow> row_len t (a * b) = b * row_len t a"
proof -
  assume "snd (block_params t) dvd a"
  then obtain k where "a = snd (block_params t) * k" by auto
  then show ?thesis using block_params_pos(1) [of t] by (simp add: row_len_def div_ceil_def mult.assoc mult.left_commute)
qed

lemma sized_row: "sized t \<Longrightarrow> (checked_product (ti_shape t) 1 :: (gguf_error, _) outcome) = Ok n \<Longrightarrow> ti_nbytes t = row_len (ti_dtype t) n"
  by (auto simp: sized_def ggml_nbytes_row split: if_splits)

lemma vec_ok_stored:
  assumes "map_of (ws_index ws) nm = Some info" "ti_shape info = [of_nat n]" "sized info" "n < 2 ^ 32"
    and "weight_require ws nm = Ok bytes" "length bytes = ti_nbytes info"
  shows "vec_ok ws nm n"
proof -
  have n: "unat (of_nat n :: u64) = n" using assms(4) by (intro unat_of_nat_small) simp
  have "(checked_product (ti_shape info) 1 :: (gguf_error, _) outcome) = Ok n"
    using assms(3) by (auto simp: assms(2) sized_def n checked64_def split: if_splits)
  from sized_row [OF assms(3) this] assms row_len_max [OF assms(4)] show ?thesis
    by (auto simp: vec_ok_def weights_ref_def weight_dtype_def)
qed

lemma mat_ok_stored:
  assumes "map_of (ws_index ws) nm = Some info" "ti_shape info = [of_nat a, of_nat b]" "sized info" "a < 2 ^ 32" "b < 2 ^ 64"
    and "snd (block_params (ti_dtype info)) dvd a"
    and "weight_require ws nm = Ok bytes" "length bytes = ti_nbytes info"
  shows "mat_ok ws nm b a"
proof -
  have n: "unat (of_nat a :: u64) = a" "unat (of_nat b :: u64) = b" using assms(4,5) by (auto intro!: unat_of_nat_small)
  have "(checked_product (ti_shape info) 1 :: (gguf_error, _) outcome) = Ok (a * b)"
    using assms(3) by (auto simp: assms(2) sized_def n checked64_def split: if_splits)
  from sized_row [OF assms(3) this] row_len_mult [OF assms(6), of b] assms row_len_max [OF assms(4)] show ?thesis
    by (auto simp: mat_ok_def weights_ref_def weight_dtype_def)
qed

text \<open>What has to hold of a model beyond what the loader checks: the heads divide the embedding, there are heads
  of keys, and rows are whole blocks.\<close>

definition regular :: "weight_store \<Rightarrow> bool" where
  "regular ws \<longleftrightarrow>
     mm_n_head (ws_meta ws) dvd mm_n_embd (ws_meta ws) \<and> 0 < mm_n_head_kv (ws_meta ws) \<and>
     (\<forall>(nm, info) \<in> set (ws_index ws).
        snd (block_params (ti_dtype info)) dvd mm_n_embd (ws_meta ws) \<and> snd (block_params (ti_dtype info)) dvd mm_n_ff (ws_meta ws))"

lemma loaded_runnable:
  assumes load: "load_gguf file = Ok ws" and reg: "regular ws"
  shows "runnable (ws_meta ws) ws"
  using load
proof (rule load_gguf_Ok)
  fix bs f r
  let ?m = "ws_meta ws"
  assume read: "gguf_read \<lparr>rd_data = bs, rd_pos = 0\<rparr> = (Ok f, r)" and meta: "meta_from_gguf f = Ok ?m"
    and index: "ws_index ws = tensors f" and valid: "validate ws = Ok ()"
    and bytes: "\<And>nm info. map_of (ws_index ws) nm = Some info \<Longrightarrow> \<exists>bytes. weight_require ws nm = Ok bytes \<and> length bytes = ti_nbytes info"
  have wf: "file_wf f" by (rule gguf_file_wf [OF read])
  note B = meta_from_gguf_bounds [OF meta wf]
  have heads: "mm_n_head ?m * mm_head_dim ?m = mm_n_embd ?m" using reg B(6) by (simp add: regular_def)
  have dim: "mm_head_dim ?m < 2 ^ 32" using B(1,6) div_le_dividend [of "mm_n_embd ?m" "mm_n_head ?m"] by linarith
  have kv: "mm_n_head_kv ?m * mm_head_dim ?m < 2 ^ 64"
  proof -
    have "mm_n_head_kv ?m * mm_head_dim ?m \<le> (2 ^ 32 - 1) * (2 ^ 32 - 1)" using B(3) dim by (intro mult_le_mono) simp_all
    then show ?thesis by simp
  qed
  have small: "n < 2 ^ 64" if "n < 2 ^ 32" for n :: nat using that by simp
  have stored: "\<exists>info bytes. map_of (ws_index ws) nm = Some info \<and> ti_shape info = shape \<and> sized info \<and>
      snd (block_params (ti_dtype info)) dvd mm_n_embd ?m \<and> snd (block_params (ti_dtype info)) dvd mm_n_ff ?m \<and>
      weight_require ws nm = Ok bytes \<and> length bytes = ti_nbytes info"
    if "(nm, shape) \<in> set (expected_tensors ?m)" for nm shape
  proof -
    from validate_shapes [OF valid that] obtain info where i: "map_of (ws_index ws) nm = Some info" "ti_shape info = shape"
      by (auto simp: weight_shape_def)
    have mem: "(nm, info) \<in> set (tensors f)" using i(1) index by (auto dest: map_of_SomeD)
    then have "sized info" using wf by (auto simp: file_wf_def tensor_wf_def)
    with i bytes [OF i(1)] mem index reg show ?thesis by (auto simp: regular_def)
  qed
  have vec: "vec_ok ws nm n" if "(nm, [of_nat n]) \<in> set (expected_tensors ?m)" "n < 2 ^ 32" for nm n
    using stored [OF that(1)] vec_ok_stored [OF _ _ _ that(2)] by blast
  have mat_e: "mat_ok ws nm b (mm_n_embd ?m)" if "(nm, [of_nat (mm_n_embd ?m), of_nat b]) \<in> set (expected_tensors ?m)" "b < 2 ^ 64" for nm b
    using stored [OF that(1)] mat_ok_stored [OF _ _ _ B(1) that(2)] by blast
  have mat_f: "mat_ok ws nm b (mm_n_ff ?m)" if "(nm, [of_nat (mm_n_ff ?m), of_nat b]) \<in> set (expected_tensors ?m)" "b < 2 ^ 64" for nm b
    using stored [OF that(1)] mat_ok_stored [OF _ _ _ B(2) that(2)] by blast
  have layer: "layer_ok ?m ws l" if l: "l < mm_n_layer ?m" for l
  proof -
    have mem: "x \<in> set (expected_tensors ?m)" if "x \<in> set (layer_tensors ?m l)" for x
      using that l by (auto simp: expected_tensors_def Let_def)
    note L = layer_tensors_def Let_def
    show ?thesis
      unfolding layer_ok_def heads
      by (intro conjI vec mat_e mat_f mem B(1) kv small) (use B(1,2) in \<open>simp_all add: L\<close>)
  qed
  show "runnable ?m ws"
    unfolding runnable_def
    by (intro conjI allI impI layer vec mat_e B(1,5)) (simp_all add: expected_tensors_def Let_def)
qed

section \<open>A loaded model runs\<close>

lemma llama_cpu_new_Ok:
  assumes "llama_cpu_new ws = (Ok s :: ('e, _) outcome)"
  shows "lc_meta s = ws_meta ws" "lc_weights s = ws" "cache_ok (ws_meta ws) (lc_kv s)" "kvc_pos (lc_kv s) = 0"
  using assms by (auto simp: llama_cpu_new_def kv_cache_new_def cache_ok_def checked64_def mult.assoc Let_def split: if_splits)

lemma forward_sequence_Ok:
  assumes "runnable (lc_meta s) (lc_weights s)" "cache_ok (lc_meta s) (lc_kv s)" "0 < mm_n_head_kv (lc_meta s)"
    and "\<forall>tok \<in> set toks. unat tok < mm_n_vocab (lc_meta s)" "kvc_pos (lc_kv s) + length toks \<le> mm_n_ctx (lc_meta s)"
  shows "\<exists>logits s'. forward_sequence lm toks s = (Ok logits, s') \<and> (toks \<noteq> [] \<longrightarrow> length logits = mm_n_vocab (lc_meta s)) \<and>
    lc_meta s' = lc_meta s \<and> lc_weights s' = lc_weights s \<and> cache_ok (lc_meta s) (lc_kv s') \<and>
    kvc_pos (lc_kv s') = kvc_pos (lc_kv s) + length toks"
proof -
  have adv: "cache_ok m (c\<lparr>kvc_pos := p\<rparr>) = cache_ok m c" for m c p by (simp add: cache_ok_def)
  from forward_tokens_Ok [OF assms(1,3,4,5,2), of lm "[]"] obtain y c'
    where "forward_tokens lm (lc_meta s) (lc_weights s) (kvc_pos (lc_kv s)) toks [] (lc_kv s) = (Ok y, c')"
      "toks \<noteq> [] \<longrightarrow> length y = mm_n_vocab (lc_meta s)" "cache_ok (lc_meta s) c'" "kvc_pos c' = kvc_pos (lc_kv s)" by blast
  then show ?thesis
    by (simp add: forward_sequence_def on_kv_def and_then_def advance_def modify_def ret_def adv)
qed

text \<open>C25. A loaded model runs: whatever file the loader accepts, if it has key heads, the heads divide its embedding and its rows are
  whole blocks, and its cache could be allocated, every sequence of tokens of the vocabulary that fits the context is evaluated without a
  panic or an error, gives one logit per token of the vocabulary, and advances the cache by its length.\<close>

theorem loaded_model_runs:
  assumes "load_gguf file = Ok ws" "regular ws" "llama_cpu_new ws = (Ok s :: (load_error, _) outcome)"
    and "toks \<noteq> []" "\<forall>tok \<in> set toks. unat tok < mm_n_vocab (ws_meta ws)" "length toks \<le> mm_n_ctx (ws_meta ws)"
  shows "\<exists>logits s'. forward_sequence lm toks s = (Ok logits, s') \<and> length logits = mm_n_vocab (ws_meta ws) \<and>
    kvc_pos (lc_kv s') = length toks"
  using forward_sequence_Ok [of s toks lm] llama_cpu_new_Ok [OF assms(3)] loaded_runnable [OF assms(1,2)] assms
  by (auto simp: regular_def)

text \<open>A library of functions for evaluation: the exponential of everything is one, and nothing is rotated.\<close>

definition flat_libm :: libm where
  "flat_libm = \<lparr>lm_exp = (\<lambda>_. f32_one), lm_powf = (\<lambda>_ _. f32_one), lm_sin_cos = (\<lambda>_. (0, f32_one))\<rparr>"

text \<open>The model of the example file.\<close>

lemma tiny_regular:
  obtains ws s where "load_gguf (Some (enc_image tiny_image @ replicate 24 0 @ tiny_data)) = Ok ws" "ws_meta ws = tiny_meta" "regular ws"
    "llama_cpu_new ws = (Ok s :: ('e, _) outcome)"
proof -
  obtain es where l: "load_gguf (Some (enc_image tiny_image @ replicate 24 0 @ tiny_data)) =
      Ok \<lparr>ws_meta = tiny_meta, ws_index = tensors_of tiny_image, ws_data = take (foldr max es 0) tiny_data\<rparr>" (is "_ = Ok ?ws")
    by (rule load_gguf_image [OF tiny_loadable])
  have "\<forall>(nm, info) \<in> set (ws_index ?ws). snd (block_params (ti_dtype info)) = 1"
  proof -
    have "\<forall>info \<in> set (im_tensors tiny_image). snd (block_params (ti_dtype info)) = 1" by (simp add: tiny_image_def)
    then show ?thesis using tensors_of_stored [of _ tiny_image] by force
  qed
  then have "regular ?ws" by (auto simp: regular_def tiny_meta_def)
  moreover obtain s where "llama_cpu_new ?ws = (Ok s :: ('e, _) outcome)"
    by (simp add: llama_cpu_new_def kv_cache_new_def checked64_def max64_def tiny_meta_def Let_def)
  ultimately show thesis using l by (intro that [of ?ws s]) simp_all
qed

theorem loaded_model_runs_witness:
  "\<exists>ws s logits s'. load_gguf (Some (enc_image tiny_image @ replicate 24 0 @ tiny_data)) = Ok ws \<and>
     llama_cpu_new ws = (Ok s :: (load_error, _) outcome) \<and> forward_sequence flat_libm [0, 0] s = (Ok logits, s') \<and> length logits = 1"
proof -
  obtain ws s where l: "load_gguf (Some (enc_image tiny_image @ replicate 24 0 @ tiny_data)) = Ok ws" "ws_meta ws = tiny_meta" "regular ws"
    and n: "llama_cpu_new ws = (Ok s :: (load_error, _) outcome)"
    using tiny_regular by blast
  from loaded_model_runs [OF l(1,3) n, of "[0, 0]" flat_libm] l(2) obtain logits s' where
    "forward_sequence flat_libm [0, 0] s = (Ok logits, s')" "length logits = 1"
    by (auto simp: tiny_meta_def)
  with l n show ?thesis by blast
qed

end
