(* ===== verification/LlamaCpuCache.thy ===== *)
theory LlamaCpuCache
  imports LlamaCpuRun
begin

text \<open>
  What the key and value cache is for. A pass at position \<open>pos\<close> reads the rows before \<open>pos\<close> and its own, and
  writes its own row only. Two caches agree before \<open>pos\<close> when their rows below \<open>pos\<close> are equal; in the middle of
  a pass the layers in \<open>D\<close>, already done, also agree on row \<open>pos\<close>.
\<close>

definition row_agree :: "nat \<Rightarrow> f32 list \<Rightarrow> f32 list \<Rightarrow> bool" where
  "row_agree n r r' \<longleftrightarrow> length r = length r' \<and> take n r = take n r'"

definition cache_width :: "cpu_kv_cache \<Rightarrow> nat" where
  "cache_width c = kvc_n_head_kv c * kvc_head_dim c"

definition rows_agree :: "nat set \<Rightarrow> nat \<Rightarrow> nat \<Rightarrow> f32 list list \<Rightarrow> f32 list list \<Rightarrow> bool" where
  "rows_agree D pos w ks ks' \<longleftrightarrow>
     length ks = length ks' \<and> (\<forall>l < length ks. row_agree ((if l \<in> D then pos + 1 else pos) * w) (ks ! l) (ks' ! l))"

definition kv_agree :: "nat set \<Rightarrow> nat \<Rightarrow> cpu_kv_cache \<Rightarrow> cpu_kv_cache \<Rightarrow> bool" where
  "kv_agree D pos c c' \<longleftrightarrow>
     kvc_n_head_kv c = kvc_n_head_kv c' \<and> kvc_head_dim c = kvc_head_dim c' \<and>
     rows_agree D pos (cache_width c) (kvc_k c) (kvc_k c') \<and> rows_agree D pos (cache_width c) (kvc_v c) (kvc_v c')"

lemma row_agree_refl [simp]: "row_agree n r r"
  by (simp add: row_agree_def)

lemma row_agree_trans: "row_agree n r s \<Longrightarrow> row_agree n s t \<Longrightarrow> row_agree n r t"
  by (simp add: row_agree_def)

lemma row_agree_mono: "row_agree n r r' \<Longrightarrow> m \<le> n \<Longrightarrow> row_agree m r r'"
  unfolding row_agree_def by (metis min.absorb1 take_take)

lemma kv_agree_refl [simp]: "kv_agree D pos c c"
  by (simp add: kv_agree_def rows_agree_def)

lemma rows_agree_trans: "rows_agree D pos w ks ls \<Longrightarrow> rows_agree D pos w ls ms \<Longrightarrow> rows_agree D pos w ks ms"
  unfolding rows_agree_def using row_agree_trans by fastforce

lemma kv_agree_trans: "kv_agree D pos a b \<Longrightarrow> kv_agree D pos b c \<Longrightarrow> kv_agree D pos a c"
  unfolding kv_agree_def cache_width_def using rows_agree_trans by auto

lemma rows_agree_mono:
  assumes "rows_agree D pos w ks ks'" "pos' \<le> pos"
  shows "rows_agree {} pos' w ks ks'"
  unfolding rows_agree_def
proof (intro conjI allI impI)
  fix l assume "l < length ks"
  with assms(1) have "row_agree ((if l \<in> D then pos + 1 else pos) * w) (ks ! l) (ks' ! l)" by (simp add: rows_agree_def)
  then show "row_agree ((if l \<in> {} then pos' + 1 else pos') * w) (ks ! l) (ks' ! l)"
    by (rule row_agree_mono) (use assms(2) in \<open>auto intro!: mult_le_mono1\<close>)
qed (use assms(1) in \<open>simp add: rows_agree_def\<close>)

lemma kv_agree_mono: "kv_agree D pos c c' \<Longrightarrow> pos' \<le> pos \<Longrightarrow> kv_agree {} pos' c c'"
  unfolding kv_agree_def using rows_agree_mono by blast

lemma kv_agree_pos [simp]:
  "kv_agree D pos (c\<lparr>kvc_pos := p\<rparr>) c' = kv_agree D pos c c'" "kv_agree D pos c (c'\<lparr>kvc_pos := p\<rparr>) = kv_agree D pos c c'"
  by (simp_all add: kv_agree_def cache_width_def)

section \<open>Reading\<close>

lemma slice_agree: "row_agree n r r' \<Longrightarrow> b \<le> n \<Longrightarrow> slice r a b = slice r' a b"
proof -
  assume h: "row_agree n r r'" "b \<le> n"
  have "take b r = take b r'" using row_agree_mono [OF h] by (simp add: row_agree_def)
  then have "take (b - a) (drop a r) = take (b - a) (drop a r')"
    by (cases "a \<le> b") (simp_all flip: drop_take)
  with h(1) show ?thesis by (simp add: slice_def row_agree_def)
qed

lemma head_row_agree:
  assumes "row_agree ((pos + 1) * (hkv * dim)) r r'" "t \<le> pos" "kvh < hkv"
  shows "head_row r (hkv * dim) kvh dim t = head_row r' (hkv * dim) kvh dim t"
proof -
  have "kvh * dim + dim \<le> hkv * dim" using mult_le_mono1 [of "kvh + 1" hkv dim] assms(3) by simp
  moreover have "t * (hkv * dim) + hkv * dim \<le> (pos + 1) * (hkv * dim)" using mult_le_mono1 [of "t + 1" "pos + 1" "hkv * dim"] assms(2) by simp
  ultimately show ?thesis unfolding head_row_def by (intro slice_agree [OF assms(1)]) linarith
qed

lemma attn_scores_agree:
  assumes "row_agree ((pos + 1) * (hkv * dim)) ks ks'" "kvh < hkv" "\<forall>t \<in> set ts. t \<le> pos"
  shows "attn_scores q ks (hkv * dim) kvh dim ts = attn_scores q ks' (hkv * dim) kvh dim ts"
  using assms(3) by (induction ts) (simp_all add: head_row_agree [OF assms(1) _ assms(2)])

lemma attn_values_agree:
  assumes "row_agree ((pos + 1) * (hkv * dim)) vs vs'" "kvh < hkv" "\<forall>(t, s) \<in> set ts. t \<le> pos"
  shows "(attn_values vs (hkv * dim) kvh dim ts out :: ('e, _) outcome) = attn_values vs' (hkv * dim) kvh dim ts out"
  using assms(3)
proof (induction ts arbitrary: out)
  case (Cons p ts)
  obtain t s where p: "p = (t, s)" by fastforce
  with Cons.prems have "(head_row vs (hkv * dim) kvh dim t :: ('e, _) outcome) = head_row vs' (hkv * dim) kvh dim t"
    by (intro head_row_agree [OF assms(1) _ assms(2)]) auto
  with Cons p show ?case by simp
qed simp

lemma attn_scores_length:
  "(attn_scores q ks w kvh dim ts :: ('e, _) outcome) = Ok sc \<Longrightarrow> length sc = length ts"
  by (induction ts arbitrary: sc) auto

lemma attn_head_agree:
  assumes "row_agree ((pos + 1) * (hkv * dim)) ks ks'" "row_agree ((pos + 1) * (hkv * dim)) vs vs'" "h < nh" "0 < hkv"
  shows "(attn_head lm q ks vs nh hkv dim pos h :: ('e, _) outcome) = attn_head lm q ks' vs' nh hkv dim pos h"
proof -
  have kvh: "h * hkv div nh < hkv" using assms(3,4) by (simp add: less_mult_imp_div_less)
  have sc: "(attn_scores q_h ks (hkv * dim) (h * hkv div nh) dim [0..<pos + 1] :: ('e, _) outcome) = attn_scores q_h ks' (hkv * dim) (h * hkv div nh) dim [0..<pos + 1]" for q_h
    by (intro attn_scores_agree [OF assms(1) kvh]) auto
  have v: "(attn_values vs (hkv * dim) (h * hkv div nh) dim (enumerate 0 (softmax lm sc)) out :: ('e, _) outcome) =
      attn_values vs' (hkv * dim) (h * hkv div nh) dim (enumerate 0 (softmax lm sc)) out"
    if "length sc = pos + 1" for sc out
    by (intro attn_values_agree [OF assms(2) kvh]) (use that in \<open>auto simp: in_set_enumerate_eq\<close>)
  have "bind_outcome (attn_scores q_h ks' (hkv * dim) (h * hkv div nh) dim [0..<pos + 1] :: ('e, _) outcome) (\<lambda>scores.
        attn_values vs (hkv * dim) (h * hkv div nh) dim (enumerate 0 (softmax lm scores)) (replicate dim 0)) =
      bind_outcome (attn_scores q_h ks' (hkv * dim) (h * hkv div nh) dim [0..<pos + 1]) (\<lambda>scores.
        attn_values vs' (hkv * dim) (h * hkv div nh) dim (enumerate 0 (softmax lm scores)) (replicate dim 0))" for q_h
  proof (cases "attn_scores q_h ks' (hkv * dim) (h * hkv div nh) dim [0..<pos + 1] :: ('e, _) outcome")
    case (Ok sc)
    from attn_scores_length [OF Ok] have "length sc = pos + 1" by simp
    from v [OF this] show ?thesis by (simp only: Ok bind_outcome.simps)
  qed simp_all
  then show ?thesis unfolding attn_head_def Let_def sc by simp
qed

lemma attn_heads_agree:
  assumes "row_agree ((pos + 1) * (hkv * dim)) ks ks'" "row_agree ((pos + 1) * (hkv * dim)) vs vs'" "0 < hkv" "\<forall>h \<in> set hs. h < nh"
  shows "(attn_heads lm q ks vs nh hkv dim pos hs :: ('e, _) outcome) = attn_heads lm q ks' vs' nh hkv dim pos hs"
  using assms(4) by (induction hs) (simp_all add: attn_head_agree [OF assms(1,2) _ assms(3)])

section \<open>Writing\<close>

lemma copy_row_agree:
  assumes "rows_agree D pos w ks ks'"
  obtains "(copy_row ks l (pos * w) w v :: ('e, _) outcome) = Panic" "(copy_row ks' l (pos * w) w v :: ('e, _) outcome) = Panic"
  | js js' where "(copy_row ks l (pos * w) w v :: ('e, _) outcome) = Ok js" "(copy_row ks' l (pos * w) w v :: ('e, _) outcome) = Ok js'"
      "rows_agree (insert l D) pos w js js'" "l < length js"
proof (cases "l < length ks \<and> pos * w + w \<le> length (ks ! l) \<and> length v = w")
  case True
  let ?r = "\<lambda>ks. take (pos * w) (ks ! l) @ v @ drop (pos * w + w) (ks ! l)"
  have l: "l < length ks'" "length (ks ! l) = length (ks' ! l)" "take (pos * w) (ks ! l) = take (pos * w) (ks' ! l)"
    using assms True row_agree_mono [of _ "ks ! l" "ks' ! l" "pos * w"]
    by (auto simp: rows_agree_def row_agree_def split: if_splits)
  then have "row_agree ((pos + 1) * w) (?r ks) (?r ks')" using True by (simp add: row_agree_def)
  with assms l True have "rows_agree (insert l D) pos w (ks[l := ?r ks]) (ks'[l := ?r ks'])"
    by (auto simp: rows_agree_def nth_list_update)
  with True l show thesis by (intro that(2) [of "ks[l := ?r ks]" "ks'[l := ?r ks']"]) (auto simp: copy_row_def)
next
  case False
  with assms have "(copy_row ks l (pos * w) w v :: ('e, _) outcome) = Panic" "(copy_row ks' l (pos * w) w v :: ('e, _) outcome) = Panic"
    by (auto simp: copy_row_def rows_agree_def row_agree_def)
  then show thesis by (rule that(1))
qed

lemma store_kv_agree:
  assumes "kv_agree D pos c c'"
  obtains d d' where "(store_kv l pos k v c :: ('e, unit) outcome \<times> _) = (Panic, d)" "(store_kv l pos k v c' :: ('e, unit) outcome \<times> _) = (Panic, d')"
  | d d' where "(store_kv l pos k v c :: ('e, _) outcome \<times> _) = (Ok (), d)" "(store_kv l pos k v c' :: ('e, _) outcome \<times> _) = (Ok (), d')"
      "kv_agree (insert l D) pos d d'" "l < length (kvc_k d)" "l < length (kvc_v d)" "cache_width d = cache_width c"
proof -
  let ?w = "cache_width c"
  have w: "kvc_n_head_kv c * kvc_head_dim c = ?w" "kvc_n_head_kv c' * kvc_head_dim c' = ?w"
    using assms by (simp_all add: kv_agree_def cache_width_def)
  have k: "rows_agree D pos ?w (kvc_k c) (kvc_k c')" and v: "rows_agree D pos ?w (kvc_v c) (kvc_v c')"
    using assms by (simp_all add: kv_agree_def)
  show thesis
  proof (cases rule: copy_row_agree [OF k, of l k, where 'e = 'e])
    case 1
    then show thesis by (intro that(1)) (simp_all add: store_kv_def w)
  next
    case (2 ks ks')
    show thesis
    proof (cases rule: copy_row_agree [OF v, of l v, where 'e = 'e])
      case 1
      with 2 show thesis by (intro that(1)) (simp_all add: store_kv_def w)
    next
      case (2 vs vs')
      with \<open>copy_row (kvc_k c) l (pos * ?w) ?w k = Ok ks\<close> \<open>copy_row (kvc_k c') l (pos * ?w) ?w k = Ok ks'\<close>
        \<open>rows_agree (insert l D) pos ?w ks ks'\<close> \<open>l < length ks\<close> assms
      show thesis
        by (intro that(2) [of "c\<lparr>kvc_k := ks, kvc_v := vs\<rparr>" "c'\<lparr>kvc_k := ks', kvc_v := vs'\<rparr>"])
          (simp_all add: store_kv_def w, simp_all add: kv_agree_def cache_width_def)
    qed
  qed
qed

text \<open>Only row \<open>pos\<close> changes.\<close>

lemma copy_row_frame: "(copy_row ks l (pos * w) w v :: ('e, _) outcome) = Ok js \<Longrightarrow> rows_agree {} pos w ks js"
  by (auto simp: copy_row_def rows_agree_def row_agree_def nth_list_update split: if_splits)

lemma store_kv_frame: "kv_agree {} pos c (snd (store_kv l pos k v c :: ('e, unit) outcome \<times> _))"
proof -
  have refl: "rows_agree {} pos w ks ks" for w ks by (simp add: rows_agree_def)
  show ?thesis
    by (auto simp: store_kv_def kv_agree_def cache_width_def refl Let_def
        split: outcome.splits dest!: copy_row_frame [where 'e = 'e])
qed

section \<open>Passes\<close>

lemma layer_out_agree:
  assumes "kv_agree D pos c c'" "l \<in> D" "l < length (kvc_k c)" "l < length (kvc_v c)"
    and "cache_width c = mm_n_head_kv m * mm_head_dim m" "0 < mm_n_head_kv m"
  shows "layer_out lm m ws pos l x q c = layer_out lm m ws pos l x q c'"
proof -
  have "row_agree ((pos + 1) * (mm_n_head_kv m * mm_head_dim m)) (kvc_k c ! l) (kvc_k c' ! l)"
    "row_agree ((pos + 1) * (mm_n_head_kv m * mm_head_dim m)) (kvc_v c ! l) (kvc_v c' ! l)"
    using assms(1-4) by (auto simp: kv_agree_def rows_agree_def assms(5))
  from attn_heads_agree [OF this assms(6), of "[0..<mm_n_head m]" "mm_n_head m" lm q, where 'e = load_error]
  have "(attn_heads lm q (kvc_k c ! l) (kvc_v c ! l) (mm_n_head m) (mm_n_head_kv m) (mm_head_dim m) pos [0..<mm_n_head m] :: (load_error, _) outcome) =
      attn_heads lm q (kvc_k c' ! l) (kvc_v c' ! l) (mm_n_head m) (mm_n_head_kv m) (mm_head_dim m) pos [0..<mm_n_head m]" by simp
  then show ?thesis by (simp only: layer_out_def Let_def)
qed

lemma layer_step_agree:
  assumes "kv_agree D pos c c'" "cache_width c = kv_width m" "0 < mm_n_head_kv m"
    and "layer_step lm m ws pos l x c = (r, d)" "layer_step lm m ws pos l x c' = (r', d')"
  shows "r = r' \<and> (\<forall>y. r = Ok y \<longrightarrow> kv_agree (insert l D) pos d d' \<and> cache_width d = kv_width m \<and> l < length (kvc_k d))"
proof (cases "layer_qkv lm m ws pos l x")
  case (Ok qkv)
  obtain q k v where qkv: "qkv = (q, k, v)" by (cases qkv)
  show ?thesis
  proof (cases rule: store_kv_agree [OF assms(1), of l k v, where 'e = load_error])
    case (1 b b')
    with Ok assms(4,5) show ?thesis by (simp add: qkv layer_step_def and_then_def lift_act_def)
  next
    case (2 b b')
    have "layer_out lm m ws pos l x q b = layer_out lm m ws pos l x q b'"
      by (rule layer_out_agree [OF 2(3) _ 2(4,5) _ assms(3)]) (use 2(6) assms(2) in \<open>simp_all add: kv_width_def\<close>)
    with Ok 2 assms show ?thesis by (auto simp: qkv layer_step_def and_then_def lift_act_def)
  qed
qed (use assms(4,5) in \<open>auto simp: layer_step_def and_then_def lift_act_def\<close>)

lemma layers_run_agree:
  assumes "kv_agree D pos c c'" "cache_width c = kv_width m" "0 < mm_n_head_kv m"
    and "layers_run lm m ws pos ls x c = (r, d)" "layers_run lm m ws pos ls x c' = (r', d')"
  shows "r = r' \<and> (\<forall>y. r = Ok y \<longrightarrow> kv_agree (D \<union> set ls) pos d d' \<and> cache_width d = kv_width m)"
  using assms(1,2,4,5)
proof (induction ls arbitrary: D x c c')
  case (Cons l ls)
  obtain r1 d1 r1' d1' where s: "layer_step lm m ws pos l x c = (r1, d1)" "layer_step lm m ws pos l x c' = (r1', d1')"
    by (metis prod.exhaust)
  from layer_step_agree [OF Cons.prems(1,2) assms(3) s]
  have a: "r1 = r1'" "\<And>y. r1 = Ok y \<Longrightarrow> kv_agree (insert l D) pos d1 d1' \<and> cache_width d1 = kv_width m" by auto
  show ?case
  proof (cases r1)
    case (Ok y)
    then have "r1' = Ok y" using a(1) by simp
    with Ok Cons.prems(3,4) s have "layers_run lm m ws pos ls y d1 = (r, d)" "layers_run lm m ws pos ls y d1' = (r', d')"
      by (simp_all add: and_then_def)
    from Cons.IH [of "insert l D", OF _ _ this] a(2) [OF Ok] show ?thesis by simp
  qed (use a Cons.prems(3,4) s in \<open>auto simp: and_then_def\<close>)
qed (simp add: ret_def)

lemma layer_step_frame: "layer_step lm m ws pos l x c = (r, d) \<Longrightarrow> kv_agree {} pos c d"
proof (cases "layer_qkv lm m ws pos l x")
  case (Ok qkv)
  assume r: "layer_step lm m ws pos l x c = (r, d)"
  obtain q k v where qkv: "qkv = (q, k, v)" by (cases qkv)
  have "d = snd (store_kv l pos k v c :: (load_error, unit) outcome \<times> _)"
    using r Ok by (auto simp: qkv layer_step_def and_then_def lift_act_def split: outcome.splits prod.splits)
  then show ?thesis using store_kv_frame by simp
qed (auto simp: layer_step_def and_then_def lift_act_def)

lemma layers_run_frame: "layers_run lm m ws pos ls x c = (r, d) \<Longrightarrow> kv_agree {} pos c d"
proof (induction ls arbitrary: x c)
  case (Cons l ls)
  obtain r1 d1 where s: "layer_step lm m ws pos l x c = (r1, d1)" by fastforce
  with Cons kv_agree_trans [OF layer_step_frame [OF s]] layer_step_frame [OF s] show ?case
    by (cases r1) (auto simp: and_then_def)
qed (simp add: ret_def)

lemma forward_one_frame: "forward_one lm m ws tok pos c = (r, d) \<Longrightarrow> kv_agree {} pos c d"
  by (auto simp: forward_one_def and_then_def lift_act_def split: outcome.splits prod.splits dest: layers_run_frame)

lemma forward_one_agree:
  assumes "kv_agree {} pos c c'" "cache_width c = kv_width m" "length (kvc_k c) = mm_n_layer m" "length (kvc_v c) = mm_n_layer m" "0 < mm_n_head_kv m"
    and "forward_one lm m ws tok pos c = (r, d)" "forward_one lm m ws tok pos c' = (r', d')"
  shows "r = r' \<and> (\<forall>y. r = Ok y \<longrightarrow> kv_agree {} (pos + 1) d d')"
proof (cases "embed m ws tok")
  case (Ok x)
  obtain r1 d1 r1' d1' where s: "layers_run lm m ws pos [0..<mm_n_layer m] x c = (r1, d1)" "layers_run lm m ws pos [0..<mm_n_layer m] x c' = (r1', d1')"
    by (metis prod.exhaust)
  from layers_run_agree [OF assms(1,2,5) s] have a: "r1 = r1'" "\<And>y. r1 = Ok y \<Longrightarrow> kv_agree {..<mm_n_layer m} pos d1 d1'"
    by (auto simp: atLeast0LessThan)
  have len: "length (kvc_k d1) = mm_n_layer m" "length (kvc_v d1) = mm_n_layer m" using layers_run_frame [OF s(1)] assms(3,4) by (simp_all add: kv_agree_def rows_agree_def)
  have "kv_agree {} (pos + 1) d1 d1'" if "kv_agree {..<mm_n_layer m} pos d1 d1'"
    using that len by (auto simp: kv_agree_def rows_agree_def)
  with a Ok s assms(6,7) show ?thesis
    by (cases r1) (auto simp: forward_one_def and_then_def lift_act_def)
next
  case (Err e)
  show ?thesis using assms(6,7) unfolding forward_one_def and_then_def lift_act_def Err by auto
next
  case Panic
  show ?thesis using assms(6,7) unfolding forward_one_def and_then_def lift_act_def Panic by auto
qed

lemma cache_ok_width:
  assumes "cache_ok m c"
  shows "cache_width c = kv_width m" "length (kvc_k c) = mm_n_layer m" "length (kvc_v c) = mm_n_layer m"
  using assms by (simp_all add: cache_ok_def cache_width_def kv_width_def)

lemma kv_agree_lengths:
  assumes "kv_agree D pos c d" "cache_width c = kv_width m" "length (kvc_k c) = mm_n_layer m" "length (kvc_v c) = mm_n_layer m"
  shows "cache_width d = kv_width m" "length (kvc_k d) = mm_n_layer m" "length (kvc_v d) = mm_n_layer m"
  using assms by (simp_all add: kv_agree_def cache_width_def rows_agree_def)

text \<open>A pass depends on the past alone: at position \<open>pos\<close> the logits, or the error, are the same on any two
  caches whose rows before \<open>pos\<close> are equal, the two caches then agree up to and including \<open>pos\<close>, and no
  pass changes a row before its position. So the rows that a rejected draft has left behind are never read.\<close>

lemma forward_reads_past:
  assumes "cache_ok m c" "0 < mm_n_head_kv m" "kv_agree {} pos c c'"
    and "forward_one lm m ws tok pos c = (r, d)" "forward_one lm m ws tok pos c' = (r', d')"
  shows "r = r' \<and> (\<forall>y. r = Ok y \<longrightarrow> kv_agree {} (pos + 1) d d') \<and> kv_agree {} pos c d"
  using forward_one_agree [OF assms(3) cache_ok_width [OF assms(1)] assms(2,4,5)] forward_one_frame [OF assms(4)] by blast

lemma forward_tokens_agree:
  assumes "0 < mm_n_head_kv m" "kv_agree {} pos c c'" "cache_width c = kv_width m" "length (kvc_k c) = mm_n_layer m" "length (kvc_v c) = mm_n_layer m"
    and "forward_tokens lm m ws pos toks z c = (r, d)" "forward_tokens lm m ws pos toks z c' = (r', d')"
  shows "r = r'"
  using assms(2-)
proof (induction toks arbitrary: pos z c c')
  case (Cons tok toks)
  obtain r1 d1 r1' d1' where s: "forward_one lm m ws tok pos c = (r1, d1)" "forward_one lm m ws tok pos c' = (r1', d1')"
    by (metis prod.exhaust)
  from forward_one_agree [OF Cons.prems(1-4) assms(1) s] have a: "r1 = r1'" "\<And>y. r1 = Ok y \<Longrightarrow> kv_agree {} (pos + 1) d1 d1'" by auto
  note len = kv_agree_lengths [OF forward_one_frame [OF s(1)] Cons.prems(2-4)]
  show ?case
  proof (cases r1)
    case (Ok y)
    then have "r1' = Ok y" using a(1) by simp
    with Ok Cons.prems(5,6) s have "forward_tokens lm m ws (pos + 1) toks y d1 = (r, d)" "forward_tokens lm m ws (pos + 1) toks y d1' = (r', d')"
      by (simp_all add: and_then_def)
    from Cons.IH [OF a(2) [OF Ok] len this] show ?thesis .
  qed (use a Cons.prems(5,6) s in \<open>auto simp: and_then_def\<close>)
qed (simp add: ret_def)

lemma forward_tokens_frame: "forward_tokens lm m ws pos toks z c = (r, d) \<Longrightarrow> kv_agree {} pos c d"
proof (induction toks arbitrary: pos z c)
  case (Cons tok toks)
  obtain r1 d1 where s: "forward_one lm m ws tok pos c = (r1, d1)" by fastforce
  note F = forward_one_frame [OF s]
  show ?case
  proof (cases r1)
    case (Ok y)
    then have "forward_tokens lm m ws (pos + 1) toks y d1 = (r, d)" using Cons.prems s by (simp add: and_then_def)
    from kv_agree_mono [OF Cons.IH [OF this], of pos] kv_agree_trans [OF F] show ?thesis by simp
  qed (use F Cons.prems s in \<open>auto simp: and_then_def\<close>)
qed (simp add: ret_def)

text \<open>C26. A draft can be taken back: whatever tokens have been run on a model, successfully or not, setting the
  position back makes the model evaluate every later sequence as if they had never been run. The
  backend never does so: \<open>verify_logits\<close> leaves the position after the whole draft.\<close>

theorem draft_can_be_undone:
  assumes "cache_ok (lc_meta s) (lc_kv s)" "0 < mm_n_head_kv (lc_meta s)"
    and "forward_sequence lm ds s = (x, s1)"
    and "s2 = s1\<lparr>lc_kv := (lc_kv s1)\<lparr>kvc_pos := kvc_pos (lc_kv s)\<rparr>\<rparr>"
  shows "fst (forward_sequence lm toks s2) = fst (forward_sequence lm toks s)"
proof -
  let ?run = "\<lambda>toks. forward_tokens lm (lc_meta s) (lc_weights s) (kvc_pos (lc_kv s)) toks []"
  obtain r d where run: "?run ds (lc_kv s) = (r, d)" by fastforce
  have "kv_agree {} (kvc_pos (lc_kv s)) (lc_kv s) (lc_kv s1) \<and> lc_meta s1 = lc_meta s \<and> lc_weights s1 = lc_weights s"
    using assms(3) forward_tokens_frame [OF run]
    by (cases r) (auto simp: forward_sequence_def on_kv_def and_then_def run advance_def modify_def ret_def)
  then have a: "kv_agree {} (kvc_pos (lc_kv s)) (lc_kv s) (lc_kv s2)" "lc_meta s2 = lc_meta s" "lc_weights s2 = lc_weights s"
    "kvc_pos (lc_kv s2) = kvc_pos (lc_kv s)" by (simp_all add: assms(4))
  obtain r1 d1 r2 d2 where t: "?run toks (lc_kv s) = (r1, d1)" "?run toks (lc_kv s2) = (r2, d2)" by (metis prod.exhaust)
  from forward_tokens_agree [OF assms(2) a(1) cache_ok_width [OF assms(1)] t] have "r1 = r2" .
  then show ?thesis
    by (cases r2) (simp_all add: forward_sequence_def on_kv_def and_then_def a t advance_def modify_def ret_def split_beta)
qed

lemma forward_reads_past_instance:
  "\<exists>s :: llama_cpu. fst (forward_one flat_libm tiny_meta (lc_weights s) 0 0 (lc_kv s)) =
     fst (forward_one flat_libm tiny_meta (lc_weights s) 0 0 ((lc_kv s)\<lparr>kvc_pos := 7\<rparr>))"
proof -
  obtain ws s where m: "ws_meta ws = tiny_meta" and n: "llama_cpu_new ws = (Ok s :: (load_error, _) outcome)"
    using tiny_regular by blast
  obtain r d r' d' where run: "forward_one flat_libm tiny_meta (lc_weights s) 0 0 (lc_kv s) = (r, d)"
    "forward_one flat_libm tiny_meta (lc_weights s) 0 0 ((lc_kv s)\<lparr>kvc_pos := 7\<rparr>) = (r', d')" by (metis prod.exhaust)
  have "cache_ok tiny_meta (lc_kv s)" "0 < mm_n_head_kv tiny_meta" using llama_cpu_new_Ok(3) [OF n] m by (simp_all add: tiny_meta_def)
  from forward_reads_past [OF this _ run] have "r = r'" by simp
  with run show ?thesis by (intro exI [of _ s]) simp
qed

theorem draft_can_be_undone_witness:
  "\<exists>s s1 x. forward_sequence flat_libm [0, 0] s = (x, s1) \<and> lc_meta s = tiny_meta \<and>
     fst (forward_sequence flat_libm [0] (s1\<lparr>lc_kv := (lc_kv s1)\<lparr>kvc_pos := kvc_pos (lc_kv s)\<rparr>\<rparr>)) = fst (forward_sequence flat_libm [0] s)"
proof -
  obtain ws s where m: "ws_meta ws = tiny_meta" and n: "llama_cpu_new ws = (Ok s :: (load_error, _) outcome)"
    using tiny_regular by blast
  obtain x s1 where run: "forward_sequence flat_libm [0, 0] s = (x, s1)" by fastforce
  have "cache_ok (lc_meta s) (lc_kv s)" "0 < mm_n_head_kv (lc_meta s)" "lc_meta s = tiny_meta"
    using llama_cpu_new_Ok(1,3) [OF n] m by (simp_all add: tiny_meta_def)
  with draft_can_be_undone [OF this(1,2) run refl, of "[0]"] run show ?thesis by blast
qed

section \<open>What the backend does with the context\<close>

text \<open>Only the last token of the context is run, at the next free row: on a new model the tokens of a prompt
  before its last one have no influence on the logits, although every caller passes the whole context.\<close>

lemma cpu_context_ignored:
  "ctx \<noteq> [] \<Longrightarrow> ctx' \<noteq> [] \<Longrightarrow> last ctx = last ctx' \<Longrightarrow> cpu_next_logits lm err ctx s = cpu_next_logits lm err ctx' s"
  by (simp add: cpu_next_logits_def)

text \<open>The position after a verification counts every drafted token, whatever the caller accepts of the draft.\<close>

lemma cpu_verify_keeps_draft:
  assumes "cpu_verify_logits lm err ctx ds s = (Ok ls, s')"
  shows "\<exists>c. cpu_verify_run lm err (lc_meta s) (lc_weights s) (kvc_pos (lc_kv s)) ds (lc_kv s) = (Ok ls, c) \<and>
    kvc_pos (lc_kv s') = kvc_pos c + length ds"
  using assms by (auto simp: cpu_verify_logits_def on_kv_def and_then_def advance_def modify_def ret_def split: prod.splits outcome.splits)

end
