(* ===== verification/TextParse.thy ===== *)
theory TextParse
  imports Numbers
begin

text \<open>
  What the command line tools and the reader of benchmark tables use of Rust's text: \<open>str::parse\<close> of
  unsigned integers with its errors, \<open>trim\<close>, \<open>split\<close> on a character and \<open>lines\<close>. Texts are lists of ASCII
  characters.
\<close>

section \<open>Integers\<close>

datatype int_error = EmptyInt | InvalidDigit | PosOverflow

fun int_error_text :: "int_error \<Rightarrow> string" where
  "int_error_text EmptyInt = ''cannot parse integer from empty string''"
| "int_error_text InvalidDigit = ''invalid digit found in string''"
| "int_error_text PosOverflow = ''number too large to fit in target type''"

definition digit_value :: "char \<Rightarrow> nat option" where
  "digit_value c = (let n = of_char c :: nat in if 48 \<le> n \<and> n \<le> 57 then Some (n - 48) else None)"

fun parse_digits :: "nat \<Rightarrow> nat \<Rightarrow> string \<Rightarrow> (int_error, nat) outcome" where
  "parse_digits mx acc [] = Ok acc"
| "parse_digits mx acc (c # cs) =
     (case digit_value c of
        None \<Rightarrow> Err InvalidDigit
      | Some d \<Rightarrow> if acc * 10 + d > mx then Err PosOverflow else parse_digits mx (acc * 10 + d) cs)"

definition parse_uint :: "nat \<Rightarrow> string \<Rightarrow> (int_error, nat) outcome" where
  "parse_uint mx s =
     (case s of
        [] \<Rightarrow> Err EmptyInt
      | c # cs \<Rightarrow> if c = CHR ''+'' then (if cs = [] then Err InvalidDigit else parse_digits mx 0 cs) else parse_digits mx 0 s)"

section \<open>Splitting\<close>

definition is_space :: "char \<Rightarrow> bool" where
  "is_space c = (let n = of_char c :: nat in n = 32 \<or> 9 \<le> n \<and> n \<le> 13)"

definition trim :: "string \<Rightarrow> string" where
  "trim s = rev (dropWhile is_space (rev (dropWhile is_space s)))"

fun split_on :: "char \<Rightarrow> string \<Rightarrow> string list" where
  "split_on d [] = [[]]"
| "split_on d (c # cs) =
     (if c = d then [] # split_on d cs
      else case split_on d cs of f # fs \<Rightarrow> (c # f) # fs | [] \<Rightarrow> [[c]])"

text \<open>\<open>lines\<close>: a line ends with a newline, which takes a carriage return before it along.\<close>

definition chomp_cr :: "string \<Rightarrow> string" where
  "chomp_cr s = (if s \<noteq> [] \<and> last s = CHR 0x0D then butlast s else s)"

fun lines_from :: "string \<Rightarrow> string \<Rightarrow> string list" where
  "lines_from cur [] = (if cur = [] then [] else [cur])"
| "lines_from cur (c # cs) =
     (if c = CHR 0x0A then chomp_cr cur # lines_from [] cs else lines_from (cur @ [c]) cs)"

definition text_lines :: "string \<Rightarrow> string list" where
  "text_lines s = lines_from [] s"

section \<open>Printing and reading back\<close>

fun join_with :: "char \<Rightarrow> string list \<Rightarrow> string" where
  "join_with d [] = []"
| "join_with d [s] = s"
| "join_with d (s # t # ss) = s @ d # join_with d (t # ss)"

lemma join_with_Cons: "ss \<noteq> [] \<Longrightarrow> join_with d (s # ss) = s @ d # join_with d ss"
  by (cases ss) simp_all

lemma split_on_ne [simp]: "split_on d s \<noteq> []"
  by (induction s) (auto split: list.splits)

lemma split_on_single: "d \<notin> set s \<Longrightarrow> split_on d s = [s]"
  by (induction s) auto

lemma split_on_field: "d \<notin> set s \<Longrightarrow> split_on d (s @ d # t) = s # split_on d t"
  by (induction s) auto

lemma split_join:
  assumes "ss \<noteq> []" "\<forall>s \<in> set ss. d \<notin> set s"
  shows "split_on d (join_with d ss) = ss"
  using assms
proof (induction ss)
  case (Cons s ss)
  then show ?case
    by (cases "ss = []") (simp_all add: join_with_Cons split_on_field split_on_single)
qed simp

definition is_digit :: "char \<Rightarrow> bool" where
  "is_digit c \<longleftrightarrow> 48 \<le> (of_char c :: nat) \<and> (of_char c :: nat) \<le> 57"

lemma digit_char: "d < 10 \<Longrightarrow> digit_value (char_of (48 + d)) = Some d \<and> is_digit (char_of (48 + d))"
  by (simp add: digit_value_def is_digit_def Let_def take_bit_eq_mod)

lemma decimal_rec: "10 \<le> n \<Longrightarrow> decimal n = decimal (n div 10) @ [char_of (48 + n mod 10)]"
  by (subst decimal.simps) simp

lemma decimal_small: "n < 10 \<Longrightarrow> decimal n = [char_of (48 + n)]"
  by (subst decimal.simps) simp

lemma decimal_digits: "c \<in> set (decimal n) \<Longrightarrow> is_digit c"
proof (induction n rule: decimal.induct)
  case (1 n)
  show ?case
  proof (cases "n < 10")
    case True
    with 1 digit_char [of n] show ?thesis by (simp add: decimal_small)
  next
    case False
    with 1 digit_char [of "n mod 10"] show ?thesis by (auto simp: decimal_rec)
  qed
qed

lemma decimal_ne [simp]: "decimal n \<noteq> []"
  by (cases "n < 10") (simp_all add: decimal_small decimal_rec)

lemma parse_digits_append:
  "parse_digits mx acc (s @ t) = bind_outcome (parse_digits mx acc s) (\<lambda>v. parse_digits mx v t)"
  by (induction mx acc s rule: parse_digits.induct) (auto split: option.split)

lemma parse_digits_decimal: "n \<le> mx \<Longrightarrow> parse_digits mx 0 (decimal n) = Ok n"
proof (induction n rule: decimal.induct)
  case (1 n)
  show ?case
  proof (cases "n < 10")
    case True
    with 1 digit_char [of n] show ?thesis by (simp add: decimal_small)
  next
    case False
    have "n div 10 \<le> mx" using 1(2) div_le_dividend [of n 10] by linarith
    with 1 False digit_char [of "n mod 10"] show ?thesis
      by (simp add: decimal_rec parse_digits_append)
  qed
qed

text \<open>Reading back what \<open>format!\<close> prints.\<close>

lemma parse_decimal: "n \<le> mx \<Longrightarrow> parse_uint mx (decimal n) = Ok n"
proof -
  assume n: "n \<le> mx"
  obtain c cs where c: "decimal n = c # cs" by (cases "decimal n") simp_all
  have "is_digit c" using decimal_digits [of c n] c by simp
  then have "c \<noteq> CHR ''+''" by (auto simp: is_digit_def)
  with c parse_digits_decimal [OF n] show ?thesis by (simp add: parse_uint_def)
qed

lemma dropWhile_none: "\<forall>c \<in> set s. \<not> P c \<Longrightarrow> dropWhile P s = s"
  by (cases s) simp_all

lemma trim_id: "\<forall>c \<in> set s. \<not> is_space c \<Longrightarrow> trim s = s"
  by (simp add: trim_def dropWhile_none)

lemma digit_not_special: "is_digit c \<Longrightarrow> \<not> is_space c" "is_digit c \<Longrightarrow> c \<noteq> CHR '',''" "is_digit c \<Longrightarrow> c \<noteq> CHR 0x22"
  by (auto simp: is_digit_def is_space_def Let_def)

lemma trim_decimal [simp]: "trim (decimal n) = decimal n"
  by (intro trim_id ballI digit_not_special(1) decimal_digits)

lemma decimal_inject: "decimal m = decimal n \<Longrightarrow> m = n"
proof -
  assume eq: "decimal m = decimal n"
  have "Ok m = parse_uint (max m n) (decimal m)" by (rule parse_decimal [symmetric]) (rule max.cobounded1)
  also have "\<dots> = parse_uint (max m n) (decimal n)" by (simp only: eq)
  also have "\<dots> = Ok n" by (rule parse_decimal) (rule max.cobounded2)
  finally show "m = n" by (rule outcome.inject(1) [THEN iffD1])
qed

end
