(* ===== verification/VeloRun.thy ===== *)
theory VeloRun
  imports TextParse LlamaCpuCache
begin

text \<open>
  The tool \<open>velo-run\<close> (\<open>src/src/bin/velo-run.rs\<close>): its command line and its run, from the bytes of the model
  file to the tokens it prints. Files are a function from paths to their bytes; the texts of load errors
  are an argument. Timings and progress messages are left out. The main fact is that evaluating one
  token at a time on the cached keys and values prints what evaluating the whole text anew for every token would.
\<close>

section \<open>The command line\<close>

record run_config =
  rc_model :: string
  rc_token_ids :: "token_id list"
  rc_max_tokens :: usize

definition parse_token_id :: "string \<Rightarrow> (string, token_id) outcome" where
  "parse_token_id s =
     (case parse_uint (2 ^ 32 - 1) (trim s) of Ok n \<Rightarrow> Ok (of_nat n) | Err e \<Rightarrow> Err (''invalid token id: '' @ s) | Panic \<Rightarrow> Panic)"

fun collect_outcomes :: "('e, 'a) outcome list \<Rightarrow> ('e, 'a list) outcome" where
  "collect_outcomes [] = Ok []"
| "collect_outcomes (x # xs) = bind_outcome x (\<lambda>a. bind_outcome (collect_outcomes xs) (\<lambda>as. Ok (a # as)))"

definition parse_token_ids :: "string \<Rightarrow> (string, token_id list) outcome" where
  "parse_token_ids raw = collect_outcomes (map parse_token_id (split_on CHR '','' raw))"

text \<open>The loop over the arguments, with the three values it collects.\<close>

fun parse_run_args ::
  "string list \<Rightarrow> string option \<times> token_id list \<times> usize \<Rightarrow> (string, string option \<times> token_id list \<times> usize) outcome" where
  "parse_run_args [] acc = Ok acc"
| "parse_run_args (a # rest) (model, ids, mx) =
     (if a = ''--model'' then
        (case rest of [] \<Rightarrow> Err ''--model requires a path'' | p # rest \<Rightarrow> parse_run_args rest (Some p, ids, mx))
      else if a = ''--token-ids'' then
        (case rest of
           [] \<Rightarrow> Err ''--token-ids requires a value''
         | raw # rest \<Rightarrow> bind_outcome (parse_token_ids raw) (\<lambda>ids. parse_run_args rest (model, ids, mx)))
      else if a = ''--prompt'' then
        (case rest of
           [] \<Rightarrow> Err ''--prompt requires a value''
         | t # rest \<Rightarrow> parse_run_args rest (model, map (\<lambda>c. of_nat (of_char c)) t, mx))
      else if a = ''--max-tokens'' then
        (case rest of
           [] \<Rightarrow> Err ''--max-tokens requires a value''
         | v # rest \<Rightarrow>
             bind_outcome (map_err (\<lambda>_. ''--max-tokens must be a positive integer'') (parse_uint max64 v))
               (\<lambda>mx. parse_run_args rest (model, ids, mx)))
      else Err (''unknown argument: '' @ a))"

definition parse_args :: "string list \<Rightarrow> (string, run_config) outcome" where
  "parse_args args =
     bind_outcome (parse_run_args (drop 1 args) (None, [], 16)) (\<lambda>(model, ids, mx).
       case model of
         None \<Rightarrow> Err ''--model is required''
       | Some p \<Rightarrow>
           if ids = [] then Err ''at least one of --token-ids or --prompt is required''
           else Ok \<lparr>rc_model = p, rc_token_ids = ids, rc_max_tokens = mx\<rparr>)"

section \<open>The run\<close>

text \<open>The texts of \<open>SpeculativeError\<close>.\<close>

fun spec_error_text :: "spec_error \<Rightarrow> string" where
  "spec_error_text EmptyDraftWindow = ''draft window must be greater than zero''"
| "spec_error_text (DraftReturnedTooMany req got) =
     ''draft model returned '' @ decimal got @ '' tokens after '' @ decimal req @ '' were requested''"
| "spec_error_text (TargetReturnedWrongLength dr got) =
     ''target model returned '' @ decimal got @ '' verification steps for '' @ decimal dr @ '' drafted tokens''"
| "spec_error_text (Model msg) = msg"

text \<open>The generation loop: each turn runs the last token and samples the next one.\<close>

fun run_loop ::
  "libm \<Rightarrow> (load_error \<Rightarrow> string) \<Rightarrow> nat \<Rightarrow> token_id list \<Rightarrow> (llama_cpu, string, token_id list) act" where
  "run_loop lm err 0 generated s = (Ok generated, s)"
| "run_loop lm err (Suc n) generated s =
     (case cpu_next_logits lm err [last generated] s of
        (Ok logits, s) \<Rightarrow> run_loop lm err n (generated @ [token (greedy_sample logits None)]) s
      | (Err e, s) \<Rightarrow> (Err (''Generation failed: '' @ spec_error_text e), s)
      | (Panic, s) \<Rightarrow> (Panic, s))"

definition velo_run ::
  "libm \<Rightarrow> (load_error \<Rightarrow> string) \<Rightarrow> (string \<Rightarrow> u8 list option) \<Rightarrow> string list \<Rightarrow> (string, token_id list) outcome" where
  "velo_run lm err files args =
     bind_outcome (parse_args args) (\<lambda>cfg.
     bind_outcome (map_err (\<lambda>e. ''Failed to load model: '' @ err e) (load_gguf (files (rc_model cfg)))) (\<lambda>ws.
     bind_outcome (llama_cpu_new ws) (\<lambda>s.
       if rc_token_ids cfg = [] then Err ''No token ids provided; use --token-ids or --prompt''
       else
         case forward_sequence lm (rc_token_ids cfg) s of
           (Ok logits, s) \<Rightarrow> fst (run_loop lm err (rc_max_tokens cfg - 1) [token (greedy_sample logits None)] s)
         | (Err e, s) \<Rightarrow> Err (''Forward pass failed: '' @ err e)
         | (Panic, s) \<Rightarrow> Panic)))"

section \<open>Reading the command line back\<close>

lemma unat_u32_max: "unat (t :: u32) \<le> 2 ^ 32 - 1"
proof -
  have "unat t < 2 ^ LENGTH(32)" by (rule unsigned_less)
  then show ?thesis by simp
qed

lemma parse_token_id_decimal: "parse_token_id (decimal (unat t)) = Ok t"
  using parse_decimal [OF unat_u32_max, of t] by (simp add: parse_token_id_def)

lemma parse_token_ids_decimal:
  assumes "ts \<noteq> []"
  shows "parse_token_ids (join_with CHR '','' (map (\<lambda>t. decimal (unat t)) ts)) = Ok ts"
proof -
  have "split_on CHR '','' (join_with CHR '','' (map (\<lambda>t. decimal (unat t)) ts)) = map (\<lambda>t. decimal (unat t)) ts"
    using assms decimal_digits digit_not_special(2) by (intro split_join) fastforce+
  moreover have "collect_outcomes (map parse_token_id (map (\<lambda>t. decimal (unat t)) ts)) = Ok ts"
    by (induction ts) (simp_all add: parse_token_id_decimal)
  ultimately show ?thesis by (simp add: parse_token_ids_def)
qed

text \<open>A command line with a model, the identifiers of a prompt and a number of tokens.\<close>

definition command :: "string \<Rightarrow> string \<Rightarrow> token_id list \<Rightarrow> nat \<Rightarrow> string list" where
  "command prog path ts n =
     [prog, ''--model'', path, ''--token-ids'', join_with CHR '','' (map (\<lambda>t. decimal (unat t)) ts), ''--max-tokens'', decimal n]"

lemma parse_command:
  assumes "ts \<noteq> []" "n \<le> max64"
  shows "parse_args (command prog path ts n) = Ok \<lparr>rc_model = path, rc_token_ids = ts, rc_max_tokens = n\<rparr>"
  using parse_token_ids_decimal [OF assms(1)] parse_decimal [OF assms(2)] assms(1)
  by (simp add: parse_args_def command_def)

section \<open>One token at a time\<close>

lemma forward_tokens_append:
  "forward_tokens lm m ws pos (xs @ ys) z c =
     and_then (forward_tokens lm m ws pos xs z) (forward_tokens lm m ws (pos + length xs) ys) c"
proof (induction xs arbitrary: pos z c)
  case (Cons x xs)
  then show ?case by (auto simp: and_then_def split: prod.splits outcome.splits)
qed (simp add: and_then_def ret_def)

lemma sampled_in_vocab: "ls \<noteq> [] \<Longrightarrow> unat (token (greedy_sample ls None)) < length ls"
proof -
  assume ne: "ls \<noteq> []"
  show ?thesis
  proof (cases "pickable ls None")
    case True
    then obtain i where i: "wins ls None i" "greedy_sample ls None = \<lparr>token = of_nat i, confidence = ls ! i\<rparr>"
      using greedy_sample_spec [of ls None] by auto
    have "unat (of_nat i :: u32) \<le> i" by (simp add: unsigned_of_nat take_bit_eq_mod)
    with i show ?thesis by (simp add: wins_def)
  qed (use ne greedy_sample_spec [of ls None] in simp)
qed

text \<open>The token the model picks after a text: evaluate the whole text on a new model, sample the last logits.\<close>

definition full_next :: "libm \<Rightarrow> llama_cpu \<Rightarrow> token_id list \<Rightarrow> token_id" where
  "full_next lm s0 ctx = token (greedy_sample (case fst (forward_sequence lm ctx s0) of Ok l \<Rightarrow> l | _ \<Rightarrow> []) None)"

lemma full_next_tokens:
  assumes "forward_tokens lm (lc_meta s0) (lc_weights s0) (kvc_pos (lc_kv s0)) ctx [] (lc_kv s0) = (Ok y, c)"
  shows "full_next lm s0 ctx = token (greedy_sample y None)"
  using assms by (simp add: full_next_def forward_sequence_def on_kv_def and_then_def advance_def modify_def ret_def)

lemma run_loop_greedy:
  assumes model: "runnable m ws" "0 < mm_n_head_kv m" "lc_meta s0 = m" "lc_weights s0 = ws" "kvc_pos (lc_kv s0) = 0" "0 < mm_n_vocab m"
    and g: "g \<noteq> []" "\<forall>tok \<in> set g. unat tok < mm_n_vocab m" "length (p @ g) + n \<le> mm_n_ctx m + 1"
    and s: "lc_meta s = m" "lc_weights s = ws" "cache_ok m (lc_kv s)" "kvc_pos (lc_kv s) = length (p @ butlast g)"
    and c: "forward_tokens lm m ws 0 (p @ butlast g) [] (lc_kv s0) = (Ok y, c)" "kv_agree {} (length (p @ butlast g)) (lc_kv s) c" "cache_ok m c"
  shows "fst (run_loop lm err n g s) = Ok (g @ greedy (full_next lm s0) (p @ g) n)"
  using g s c
proof (induction n arbitrary: g s y c)
  case (Suc n)
  let ?pos = "length (p @ butlast g)" and ?t = "last g"
  have t: "unat ?t < mm_n_vocab m" using Suc.prems(1,2) by simp
  have "1 \<le> length g" using Suc.prems(1) by (cases g) simp_all
  with Suc.prems(3) have pos: "?pos < mm_n_ctx m" unfolding length_append length_butlast by linarith
  obtain y1 d where d: "forward_one lm m ws ?t ?pos (lc_kv s) = (Ok y1, d)" "length y1 = mm_n_vocab m" "cache_ok m d" "kvc_pos d = ?pos"
    using forward_one_Ok [OF model(1) Suc.prems(6) t pos model(2), of lm] Suc.prems(7) by auto
  obtain y2 c1 where c1: "forward_one lm m ws ?t ?pos c = (Ok y2, c1)" "cache_ok m c1"
    using forward_one_Ok [OF model(1) Suc.prems(10) t pos model(2), of lm] by auto
  from forward_one_agree [OF Suc.prems(9) cache_ok_width [OF Suc.prems(6)] model(2) d(1) c1(1)]
  have same: "y2 = y1" "kv_agree {} (?pos + 1) d c1" by auto
  have g_split: "p @ g = (p @ butlast g) @ [?t]" using Suc.prems(1) by simp
  have run: "forward_tokens lm m ws 0 (p @ g) [] (lc_kv s0) = (Ok y1, c1)"
    unfolding g_split forward_tokens_append [of lm m ws 0 "p @ butlast g"] using Suc.prems(8) c1(1) same(1) by (simp add: and_then_def ret_def)
  let ?new = "token (greedy_sample y1 None)"
  have ne: "y1 \<noteq> []" using d(2) model(6) by auto
  have new: "full_next lm s0 (p @ g) = ?new" "y1 \<noteq> []" "unat ?new < mm_n_vocab m"
    using full_next_tokens [of lm s0] run model(3-5) sampled_in_vocab [OF ne] ne d(2) by auto
  let ?s1 = "s\<lparr>lc_kv := d\<lparr>kvc_pos := ?pos + 1\<rparr>\<rparr>"
  have turn: "cpu_next_logits lm err [?t] s = (Ok y1, ?s1)"
    using d new(2) Suc.prems(4,5,7)
    by (simp add: cpu_next_logits_def on_kv_def and_then_def advance_def modify_def lift_act_def token_logits_new_def)
  have adv: "cache_ok m (d\<lparr>kvc_pos := k\<rparr>)" for k using d(3) by (simp add: cache_ok_def)
  have len: "length (p @ g) = ?pos + 1" unfolding g_split by simp
  have "fst (run_loop lm err n (g @ [?new]) ?s1) = Ok ((g @ [?new]) @ greedy (full_next lm s0) (p @ g @ [?new]) n)"
  proof (rule Suc.IH [where y = y1 and c = c1])
    show "\<forall>tok \<in> set (g @ [?new]). unat tok < mm_n_vocab m" using Suc.prems(2) new(3) by simp
    show "length (p @ g @ [?new]) + n \<le> mm_n_ctx m + 1" using Suc.prems(3) by simp
    show "lc_meta ?s1 = m" "lc_weights ?s1 = ws" "cache_ok m (lc_kv ?s1)" using Suc.prems(4,5) adv by simp_all
    show "kvc_pos (lc_kv ?s1) = length (p @ butlast (g @ [?new]))" using len by simp
    show "forward_tokens lm m ws 0 (p @ butlast (g @ [?new])) [] (lc_kv s0) = (Ok y1, c1)" using run by simp
    have "kv_agree {} (length (p @ g)) d c1" unfolding len by (rule same(2))
    then show "kv_agree {} (length (p @ butlast (g @ [?new]))) (lc_kv ?s1) c1" by simp
  qed (use c1(2) in simp_all)
  with turn new(1) show ?case by simp
qed simp

section \<open>From the command line to the tokens\<close>

text \<open>C16. \<open>velo-run\<close> prints the model's greedy continuation: with a file the loader accepts, whose heads divide
  the embedding and whose rows are whole blocks, a prompt of tokens of the vocabulary and room in the context,
  the tool reads its command line back, never fails, and prints exactly the tokens that evaluating
  the whole text anew for every token and taking the best one gives. It prints \<open>n\<close> tokens, but one when \<open>n\<close> is 0.\<close>

theorem velo_run_greedy:
  assumes load: "load_gguf (files path) = Ok ws" and reg: "regular ws" and new: "llama_cpu_new ws = (Ok s0 :: (string, _) outcome)"
    and ts: "ts \<noteq> []" "\<forall>tok \<in> set ts. unat tok < mm_n_vocab (ws_meta ws)"
    and n: "n \<le> max64" "length ts + (n - 1) \<le> mm_n_ctx (ws_meta ws)"
  shows "velo_run lm err files (command prog path ts n) = Ok (greedy (full_next lm s0) ts (max n 1))"
proof -
  let ?m = "ws_meta ws"
  note N = llama_cpu_new_Ok [OF new]
  have run: "runnable ?m ws" "0 < mm_n_head_kv ?m" using loaded_runnable [OF load reg] reg by (simp_all add: regular_def)
  have vocab: "0 < mm_n_vocab ?m" using ts by (cases ts) auto
  have fit: "0 + length ts \<le> mm_n_ctx ?m" using n(2) by simp
  obtain y c where y: "forward_tokens lm ?m ws 0 ts [] (lc_kv s0) = (Ok y, c)" "length y = mm_n_vocab ?m" "cache_ok ?m c" "kvc_pos c = 0"
    using forward_tokens_Ok [OF run ts(2) fit N(3), of lm "[]"] ts(1) N(4) by auto
  let ?s1 = "s0\<lparr>lc_kv := c\<lparr>kvc_pos := length ts\<rparr>\<rparr>" and ?t = "token (greedy_sample y None)"
  have fwd: "forward_sequence lm ts s0 = (Ok y, ?s1)"
    using y N by (simp add: forward_sequence_def on_kv_def and_then_def advance_def modify_def ret_def)
  have first: "full_next lm s0 ts = ?t" using full_next_tokens [of lm s0 ts y c] y(1) N by simp
  have "y \<noteq> []" using y(2) vocab by auto
  then have t: "unat ?t < mm_n_vocab ?m" using sampled_in_vocab y(2) by metis
  have "fst (run_loop lm err (n - 1) [?t] ?s1) = Ok ([?t] @ greedy (full_next lm s0) (ts @ [?t]) (n - 1))"
    by (rule run_loop_greedy [OF run N(1,2,4) vocab, where y = y and c = c])
      (use t n(2) N y in \<open>simp_all add: cache_ok_def\<close>)
  moreover have "max n 1 = Suc (n - 1)" by simp
  ultimately have "fst (run_loop lm err (n - 1) [?t] ?s1) = Ok (greedy (full_next lm s0) ts (max n 1))"
    by (simp add: first)
  with load new ts(1) fwd show ?thesis
    by (simp add: velo_run_def parse_command [OF ts(1) n(1)])
qed

theorem velo_run_greedy_witness:
  "\<exists>files s0. velo_run flat_libm (\<lambda>_. ''error'') files (command ''velo-run'' ''tiny.gguf'' [0] 2) = Ok (greedy (full_next flat_libm s0) [0] 2)"
proof -
  obtain ws s where m: "load_gguf (Some (enc_image tiny_image @ replicate 24 0 @ tiny_data)) = Ok ws" "ws_meta ws = tiny_meta" "regular ws"
    and n: "llama_cpu_new ws = (Ok s :: (string, _) outcome)"
    using tiny_regular by blast
  let ?files = "(\<lambda>_. None)(''tiny.gguf'' := Some (enc_image tiny_image @ replicate 24 0 @ tiny_data))"
  have "velo_run flat_libm (\<lambda>_. ''error'') ?files (command ''velo-run'' ''tiny.gguf'' [0] 2) = Ok (greedy (full_next flat_libm s) [0] (max 2 1))"
    by (rule velo_run_greedy [OF _ m(3) n]) (use m(1,2) in \<open>simp_all add: tiny_meta_def max64_def\<close>)
  moreover have "max 2 1 = (2 :: nat)" by simp
  ultimately show ?thesis by metis
qed

end
