(* ===== verification/Benchmark.thy ===== *)
theory Benchmark
  imports TextParse MockBackend EngineLive Sharding
begin

text \<open>
  The benchmark harness (\<open>src/src/benchmark.rs\<close>): the case a benchmark runs on a fresh engine with scripted
  models, and what a sample counts. The clock is read at most once for the time to the first token; its
  reading is an argument. Other timings, energy, and the floating point statistics over the samples are left out.
\<close>

section \<open>Settings\<close>

datatype benchmark_mode = PromptProcessing | Generation | PromptPlusGeneration

record bench_config =
  bc_mode :: benchmark_mode
  bc_prompt_len :: usize
  bc_gen_len :: usize
  bc_cached_depth :: usize
  bc_repetitions :: usize
  bc_warmups :: usize
  bc_draft_window :: usize
  bc_bytes_per_token :: usize
  bc_page_tokens :: usize
  bc_total_pages :: usize
  bc_quantization :: quantization
  bc_model_name :: string
  bc_backend_name :: string
  bc_measure_power :: bool
  bc_roofline :: bool

record bench_sample =
  ttft_ns :: "nat option"
  bs_tokens :: usize
  bs_cache_hit_tokens :: usize
  bs_cache_miss_tokens :: usize
  bs_speculative :: spec_stats

text \<open>\<open>(0..n as TokenId).collect()\<close>: the cast keeps 32 bits.\<close>

definition token_range :: "nat \<Rightarrow> token_id list" where
  "token_range n = map of_nat [0..<n mod 2 ^ 32]"

definition prompt_tokens :: "bench_config \<Rightarrow> token_id list" where
  "prompt_tokens c = token_range (bc_prompt_len c)"

definition script_tokens :: "bench_config \<Rightarrow> token_id list" where
  "script_tokens c = token_range (bc_prompt_len c + bc_gen_len c + 16)"

definition tokens_processed :: "benchmark_mode \<Rightarrow> usize \<Rightarrow> usize \<Rightarrow> usize" where
  "tokens_processed mode p g =
     (case mode of PromptProcessing \<Rightarrow> p | Generation \<Rightarrow> g | PromptPlusGeneration \<Rightarrow> p + g)"

section \<open>Generation with the time to the first token\<close>

fun bench_loop ::
  "nat \<Rightarrow> ('d, 'm) draft_model \<Rightarrow> ('t, 'm) target_model \<Rightarrow> usize \<Rightarrow> nat \<Rightarrow> token_id list \<Rightarrow> nat option
   \<Rightarrow> (spec_session \<times> 'd \<times> 't, spec_error, token_id list \<times> nat option) act" where
  "bench_loop 0 dm tm mx elapsed generated ttft st = (Panic, st)"
| "bench_loop (Suc fuel) dm tm mx elapsed generated ttft st =
     (if length generated \<ge> mx then (Ok (generated, ttft), st)
      else
        case session_draft dm tm (mx - length generated) st of
          (Err e, st1) \<Rightarrow> (Err e, st1)
        | (Panic, st1) \<Rightarrow> (Panic, st1)
        | (Ok ds, (s1, d1, t1)) \<Rightarrow>
            if ds = [] \<and> \<not> has_pending_rejection s1 then (Ok (generated, ttft), (s1, d1, t1))
            else
              let ttft1 = (if ttft = None \<and> ds \<noteq> [] then Some elapsed else ttft);
                  generated1 = generated @ ds
              in
              if \<not> has_pending_rejection s1 then bench_loop fuel dm tm mx elapsed generated1 ttft1 (s1, d1, t1)
              else
                (case take_rejected_token s1 of
                   (Some t, s2) \<Rightarrow>
                     bench_loop fuel dm tm mx elapsed (generated1 @ [t]) (if ttft1 = None then Some elapsed else ttft1) (s2, d1, t1)
                 | (None, s2) \<Rightarrow> bench_loop fuel dm tm mx elapsed generated1 ttft1 (s2, d1, t1)))"

definition run_generation_with_ttft ::
  "nat \<Rightarrow> 'r runtime_ops \<Rightarrow> ('d, 'm) draft_model \<Rightarrow> ('t, 'm) target_model \<Rightarrow> token_id list \<Rightarrow> usize
   \<Rightarrow> (('r, 'j, 'm) engine \<times> 'd \<times> 't, engine_error, nat option \<times> engine_output) act" where
  "run_generation_with_ttft elapsed rt dm tm p mx = (\<lambda>(e, d, t).
     case prefill rt p e of
       (Err err, e1) \<Rightarrow> (Err err, (e1, d, t))
     | (Panic, e1) \<Rightarrow> (Panic, (e1, d, t))
     | (Ok pf, e1) \<Rightarrow>
       case d_bind_prefix dm (cached_prefix pf) d of
         (Err err, d1) \<Rightarrow> (Err (Speculative err), (e1, d1, t))
       | (Panic, d1) \<Rightarrow> (Panic, (e1, d1, t))
       | (Ok _, d1) \<Rightarrow>
         case t_bind_prefix tm (cached_prefix pf) t of
           (Err err, t1) \<Rightarrow> (Err (Speculative err), (e1, d1, t1))
         | (Panic, t1) \<Rightarrow> (Panic, (e1, d1, t1))
         | (Ok _, t1) \<Rightarrow>
           case decoder_begin (eng_decoder e1) p of
             Err err \<Rightarrow> (Err (Speculative err), (e1, d1, t1))
           | Panic \<Rightarrow> (Panic, (e1, d1, t1))
           | Ok s \<Rightarrow>
             case bench_loop (Suc mx) dm tm mx elapsed [] None (s, d1, t1) of
               (Err err, (_, d2, t2)) \<Rightarrow> (Err (Speculative err), (e1, d2, t2))
             | (Panic, (_, d2, t2)) \<Rightarrow> (Panic, (e1, d2, t2))
             | (Ok (generated, ttft), (s1, d2, t2)) \<Rightarrow>
                 (Ok (ttft,
                    \<lparr>eo_tokens = generated, eo_cached_prefix = cached_prefix pf, eo_cached_pages = cached_pages pf,
                     eo_inserted_handle = None, eo_inserted_pages = None,
                     eo_stats = \<lparr>cache_hit_tokens = cache_hit_tokens (pf_stats pf),
                       cache_miss_tokens = cache_miss_tokens (pf_stats pf), es_speculative = stats s1\<rparr>\<rparr>), (e1, d2, t2)))"

section \<open>A benchmark\<close>

definition run_single_case ::
  "nat \<Rightarrow> 'm cfg_matcher \<Rightarrow> engine_config \<Rightarrow> bench_config \<Rightarrow> (engine_error, bench_sample) outcome" where
  "run_single_case elapsed mo ec c =
     bind_outcome (engine_new ec) (\<lambda>e :: (cpu_runtime, unit, 'm) engine.
       let p = prompt_tokens c;
           script = script_tokens c;
           prompt_slice = (if bc_cached_depth c > 0 then take (min (bc_cached_depth c) (length p)) p else []);
           (warm, e) = (if prompt_slice \<noteq> [] then and_then (prefill cpu_ops prompt_slice) (\<lambda>_. ret ()) e else (Ok (), e))
       in bind_outcome warm (\<lambda>_.
         case bc_mode c of
           PromptProcessing \<Rightarrow>
             bind_outcome (fst (prefill cpu_ops p e)) (\<lambda>pf.
               Ok \<lparr>ttft_ns = None, bs_tokens = bc_prompt_len c,
                   bs_cache_hit_tokens = cache_hit_tokens (pf_stats pf), bs_cache_miss_tokens = cache_miss_tokens (pf_stats pf),
                   bs_speculative = es_speculative (pf_stats pf)\<rparr>)
         | mode \<Rightarrow>
             bind_outcome
               (fst (run_generation_with_ttft elapsed cpu_ops (greedy_draft_model mo mock_ops) (greedy_target_model mo mock_ops)
                  p (bc_gen_len c) (e, (mock_new script, mock_new script))))
               (\<lambda>(ttft, out).
                  Ok \<lparr>ttft_ns = ttft,
                      bs_tokens = (if mode = Generation then bc_gen_len c else bc_prompt_len c + bc_gen_len c),
                      bs_cache_hit_tokens = cache_hit_tokens (eo_stats out), bs_cache_miss_tokens = cache_miss_tokens (eo_stats out),
                      bs_speculative = es_speculative (eo_stats out)\<rparr>)))"

text \<open>The warm-ups and the repetitions: the samples \<open>summarize\<close> gets. Each run has its own reading of the clock.\<close>

fun collect_runs :: "(nat \<Rightarrow> ('e, 'a) outcome) \<Rightarrow> nat list \<Rightarrow> ('e, 'a list) outcome" where
  "collect_runs f [] = Ok []"
| "collect_runs f (i # js) = bind_outcome (f i) (\<lambda>a. bind_outcome (collect_runs f js) (\<lambda>as. Ok (a # as)))"

definition benchmark_samples ::
  "(nat \<Rightarrow> nat) \<Rightarrow> 'm cfg_matcher \<Rightarrow> engine_config \<Rightarrow> bench_config \<Rightarrow> (engine_error, bench_sample list) outcome" where
  "benchmark_samples readings mo ec c =
     bind_outcome (collect_runs (\<lambda>i. run_single_case (readings i) mo ec c) [0..<bc_warmups c]) (\<lambda>_.
       collect_runs (\<lambda>i. run_single_case (readings i) mo ec c) [bc_warmups c..<bc_warmups c + bc_repetitions c])"

declare generate_loop.simps(2) [simp del]

section \<open>The timed loop is the decoder's loop\<close>

lemma generate_loop_grows: "generate_loop fuel dm tm mx g st = (Ok out, st') \<Longrightarrow> length g \<le> length out"
proof (induction fuel arbitrary: g st)
  case (Suc fuel)
  obtain q s1 d1 t1 where q: "session_draft dm tm (mx - length g) st = (q, (s1, d1, t1))" by (metis surj_pair)
  show ?case
  proof (cases "length g < mx")
    case lt: True
    show ?thesis
    proof (cases q)
      case (Ok ds)
      from generate_loop_step [OF q [unfolded Ok] lt, of fuel] Suc.prems Suc.IH [of "g @ ds @ rejection s1" "(s1\<lparr>rejected_token := None\<rparr>, d1, t1)"]
      show ?thesis by (auto split: if_splits)
    qed (use q lt Suc.prems in \<open>simp_all add: generate_loop.simps(2)\<close>)
  qed (use Suc.prems in \<open>simp add: generate_loop.simps(2)\<close>)
qed simp

text \<open>The first token is timed exactly when the loop produced one.\<close>

lemma bench_loop_generate:
  "bench_loop fuel dm tm mx elapsed g ttft st =
     (case generate_loop fuel dm tm mx g st of
        (Ok out, st') \<Rightarrow> (Ok (out, if ttft = None \<and> length g < length out then Some elapsed else ttft), st')
      | (Err e, st') \<Rightarrow> (Err e, st')
      | (Panic, st') \<Rightarrow> (Panic, st'))"
proof (induction fuel arbitrary: g ttft st)
  case (Suc fuel)
  obtain q s1 d1 t1 where q: "session_draft dm tm (mx - length g) st = (q, (s1, d1, t1))" by (metis surj_pair)
  show ?case
  proof (cases "length g < mx")
    case lt: True
    show ?thesis
    proof (cases q)
      case (Ok ds)
      note step = generate_loop_step [OF q [unfolded Ok] lt, of fuel]
      let ?g = "g @ ds @ rejection s1" and ?st = "(s1\<lparr>rejected_token := None\<rparr>, d1, t1)"
      show ?thesis
      proof (cases "ds = [] \<and> rejected_token s1 = None")
        case True
        with q Ok lt step show ?thesis by (simp add: has_pending_rejection_def)
      next
        case F: False
        have grow: "length g < length ?g" using F by (auto simp: rejection_def split: option.splits)
        have same: "rejected_token s1 = None \<Longrightarrow> s1\<lparr>rejected_token := None\<rparr> = s1" by simp
        have turn: "bench_loop (Suc fuel) dm tm mx elapsed g ttft st =
            bench_loop fuel dm tm mx elapsed ?g (if ttft = None then Some elapsed else ttft) ?st"
          using q Ok lt F
          by (cases "rejected_token s1"; cases ttft) (simp_all add: has_pending_rejection_def take_rejected_token_def rejection_def Let_def same)
        obtain r st' where r: "generate_loop fuel dm tm mx ?g ?st = (r, st')" by (rule prod.exhaust)
        have "length g < length out" if "r = Ok out" for out
          using generate_loop_grows [OF r [unfolded that]] grow by linarith
        then show ?thesis
          unfolding turn step if_not_P [OF F] Suc.IH r by (cases r; cases ttft) simp_all
      qed
    qed (use q lt in \<open>simp_all add: generate_loop.simps(2)\<close>)
  qed (simp add: generate_loop.simps(2))
qed simp

section \<open>Scripted models\<close>

text \<open>The tokens of the script after a text of \<open>n\<close> tokens.\<close>

definition upcoming :: "token_id list \<Rightarrow> nat \<Rightarrow> nat \<Rightarrow> token_id list" where
  "upcoming sc n k = take k (drop n sc)"

lemma upcoming_length: "n + k \<le> length sc \<Longrightarrow> length (upcoming sc n k) = k"
  by (simp add: upcoming_def)

lemma upcoming_append: "upcoming sc n k @ upcoming sc (n + k) j = upcoming sc n (k + j)"
  unfolding upcoming_def take_add drop_drop by (simp only: add.commute [of n k])

lemma upcoming_nth: "n + k \<le> length sc \<Longrightarrow> i < k \<Longrightarrow> upcoming sc n k ! i = sc ! (n + i)"
  by (simp add: upcoming_def)

lemma upcoming_Suc: "n < length sc \<Longrightarrow> upcoming sc n (Suc k) = sc ! n # upcoming sc (Suc n) k"
  by (simp add: upcoming_def Cons_nth_drop_Suc [symmetric])

lemma scripted_draft:
  assumes "scripted sc b" "length ctx + k \<le> length sc"
  shows "greedy_draft mo mock_ops ctx k (None, b) =
    (Ok (map (\<lambda>t. \<lparr>token = t, confidence = f32_one\<rparr>) (upcoming sc (length ctx) k)), (None, b))"
  using assms(2)
proof (induction k arbitrary: ctx)
  case 0
  then show ?case by (simp add: upcoming_def)
next
  case (Suc k)
  let ?t = "sc ! length ctx"
  have "token_at (length ctx) b = Ok ?t" using scripted_token [OF assms(1)] Suc.prems by simp
  moreover have "greedy_draft mo mock_ops (ctx @ [?t]) k (None, b) =
      (Ok (map (\<lambda>t. \<lparr>token = t, confidence = f32_one\<rparr>) (upcoming sc (Suc (length ctx)) k)), (None, b))"
    using Suc.IH [of "ctx @ [?t]"] Suc.prems by simp
  ultimately show ?case
    using Suc.prems
    by (simp add: mock_ops_def mock_next_logits_def one_hot_Ok greedy_one_hot consume_def Let_def and_then_def ret_def upcoming_Suc)
qed

lemma scripted_verify:
  assumes "scripted sc b" "length ctx + length ds \<le> length sc"
  shows "greedy_verify mo mock_ops ctx ds (None, b) =
    (Ok (map (\<lambda>t. \<lparr>expected = t\<rparr>) (upcoming sc (length ctx) (length ds))), (None, b))"
proof -
  let ?g = "\<lambda>i. replicate (unat (sc ! (length ctx + i))) (0 :: f32) @ [f32_one]"
  have "mock_verify_logits ctx ds b = (Ok (map ?g [0..<length ds]), b)"
    unfolding mock_verify_logits_def
    using assms scripted_token [OF assms(1)] by (intro collect_map_same) (auto simp: one_hot_Ok)
  then have "greedy_verify mo mock_ops ctx ds (None, b) =
      (Ok (map (\<lambda>i. \<lparr>expected = sc ! (length ctx + i)\<rparr>) [0..<length ds]), (None, b))"
    by (simp add: greedy_verify_def mock_ops_def judge_logits_None greedy_one_hot)
  moreover have "map (\<lambda>i. \<lparr>expected = sc ! (length ctx + i)\<rparr>) [0..<length ds] =
      map (\<lambda>t. \<lparr>expected = t\<rparr>) (upcoming sc (length ctx) (length ds))"
    using assms(2) by (intro nth_equalityI) (simp_all add: upcoming_length upcoming_nth)
  ultimately show ?thesis by simp
qed

lemma agree_len_self: "agree_len xs xs = length xs"
  by (induction xs) simp_all

text \<open>A round accepts the whole draft.\<close>

lemma scripted_round:
  assumes b: "scripted sc b" "scripted sc b'" and k: "k = min mx (draft_window s)" "0 < k"
    and fit: "length (sess_context s) + k \<le> length sc" and r: "rejected_token s = None"
  shows "\<exists>s'. session_draft (greedy_draft_model mo mock_ops) (greedy_target_model mo mock_ops) mx (s, b, b') =
      (Ok (upcoming sc (length (sess_context s)) k), (s', b, b')) \<and>
    sess_context s' = sess_context s @ upcoming sc (length (sess_context s)) k \<and> rejected_token s' = None \<and>
    1 \<le> draft_window s' \<and> accepted_tokens (stats s') = accepted_tokens (stats s) + k \<and>
    drafted_tokens (stats s') = drafted_tokens (stats s) + k \<and> rejected_tokens (stats s') = rejected_tokens (stats s)"
proof -
  let ?ds = "upcoming sc (length (sess_context s)) k"
  have len: "length ?ds = k" by (rule upcoming_length [OF fit])
  let ?s2 = "(record_draft_call s)\<lparr>stats := (stats (record_draft_call s))\<lparr>drafted_tokens := drafted_tokens (stats (record_draft_call s)) + k\<rparr>\<rparr>"
  let ?s3 = "record_target_call ?s2"
  obtain acc s4 where st: "settle ?ds (map (\<lambda>t. \<lparr>expected = t\<rparr>) ?ds) ?s3 = (acc, s4)" by fastforce
  have vs: "length (map (\<lambda>t. \<lparr>expected = t\<rparr>) ?ds) = length ?ds" by simp
  have exp: "map expected (map (\<lambda>t. \<lparr>expected = t\<rparr>) ?ds) = ?ds" by (simp add: comp_def)
  note F = settle_fields [OF vs st, unfolded exp agree_len_self]
  have "session_draft (greedy_draft_model mo mock_ops) (greedy_target_model mo mock_ops) mx (s, b, b') = (Ok ?ds, (s4, b, b'))"
    using scripted_draft [OF b(1) fit, of mo] scripted_verify [OF b(2), of "sess_context s" ?ds mo] fit len k st F(1)
    by (auto simp: session_draft_def greedy_draft_model_def greedy_target_model_def Let_def comp_def)
  then show ?thesis
    using F len k by (auto simp: record_draft_call_def record_target_call_def)
qed

lemma scripted_loop:
  assumes b: "scripted sc b" "scripted sc b'" and fit: "length p + mx \<le> length sc"
    and s: "sess_context s = p @ g" "rejected_token s = None" "1 \<le> draft_window s"
    and g: "g = upcoming sc (length p) (length g)" "length g \<le> mx" "mx - length g < fuel"
  shows "\<exists>s'. generate_loop fuel (greedy_draft_model mo mock_ops) (greedy_target_model mo mock_ops) mx g (s, b, b') =
      (Ok (upcoming sc (length p) mx), (s', b, b')) \<and>
    accepted_tokens (stats s') + length g = accepted_tokens (stats s) + mx \<and>
    drafted_tokens (stats s') + length g = drafted_tokens (stats s) + mx \<and>
    rejected_tokens (stats s') = rejected_tokens (stats s)"
  using s g
proof (induction fuel arbitrary: g s)
  case (Suc fuel)
  show ?case
  proof (cases "length g = mx")
    case True
    with Suc.prems(4) show ?thesis by (simp add: generate_loop.simps(2))
  next
    case False
    then have lt: "length g < mx" using Suc.prems(5) by simp
    let ?k = "min (mx - length g) (draft_window s)" and ?n = "length p + length g"
    have k: "0 < ?k" "?k \<le> mx - length g" using lt Suc.prems(3) by auto
    have n: "length (sess_context s) = ?n" using Suc.prems(1) by simp
    have "length (sess_context s) + ?k \<le> length sc" using n k(2) fit lt by linarith
    from scripted_round [OF b refl k(1) this Suc.prems(2), of mo] n obtain s1 where
      r: "session_draft (greedy_draft_model mo mock_ops) (greedy_target_model mo mock_ops) (mx - length g) (s, b, b') =
        (Ok (upcoming sc ?n ?k), (s1, b, b'))"
      and s1: "sess_context s1 = sess_context s @ upcoming sc ?n ?k" "rejected_token s1 = None" "1 \<le> draft_window s1"
        "accepted_tokens (stats s1) = accepted_tokens (stats s) + ?k" "drafted_tokens (stats s1) = drafted_tokens (stats s) + ?k"
        "rejected_tokens (stats s1) = rejected_tokens (stats s)" by (metis (no_types, lifting))
    let ?g = "g @ upcoming sc ?n ?k"
    have len: "length (upcoming sc ?n ?k) = ?k" by (rule upcoming_length) (use fit k(2) lt in linarith)
    then have some: "upcoming sc ?n ?k \<noteq> []" using k(1) by (metis length_0_conv less_irrefl)
    have same: "s1\<lparr>rejected_token := None\<rparr> = s1" using s1(2) by simp
    have step: "generate_loop (Suc fuel) (greedy_draft_model mo mock_ops) (greedy_target_model mo mock_ops) mx g (s, b, b') =
        generate_loop fuel (greedy_draft_model mo mock_ops) (greedy_target_model mo mock_ops) mx ?g (s1, b, b')"
      using generate_loop_step [OF r lt, of fuel, unfolded same rejection_def s1(2)] some by simp
    have "?g = upcoming sc (length p) (length g) @ upcoming sc ?n ?k" using Suc.prems(4) by (metis append_eq_append_conv)
    also have "\<dots> = upcoming sc (length p) (length g + ?k)" by (rule upcoming_append)
    also have "length g + ?k = length ?g" using len by simp
    finally have G: "?g = upcoming sc (length p) (length ?g)" .
    have G': "length ?g \<le> mx" "mx - length ?g < fuel" using len k lt Suc.prems(6) by auto
    have "sess_context s1 = p @ ?g" using s1(1) Suc.prems(1) by simp
    from Suc.IH [OF this s1(2,3) G G'] have "\<exists>s'. generate_loop fuel (greedy_draft_model mo mock_ops) (greedy_target_model mo mock_ops) mx ?g (s1, b, b') =
      (Ok (upcoming sc (length p) mx), (s', b, b')) \<and>
      accepted_tokens (stats s') + length ?g = accepted_tokens (stats s1) + mx \<and>
      drafted_tokens (stats s') + length ?g = drafted_tokens (stats s1) + mx \<and>
      rejected_tokens (stats s') = rejected_tokens (stats s1)" .
    then show ?thesis unfolding step using s1 len by fastforce
  qed
qed simp

section \<open>The engine of a benchmark\<close>

lemma prefill_entries:
  assumes ok: "engine_ok cpu_live cpu_ids cpu_inv e" and nl: "no_leak cpu_live e" and run: "prefill cpu_ops p e = (Ok pf, e')" and p: "p \<noteq> []"
  shows "dom (radix_map (prefix_cache e')) = insert p (dom (radix_map (prefix_cache e)))"
proof -
  obtain found c where L: "radix_map c = radix_map (prefix_cache e)" "capacity_tokens c = capacity_tokens (prefix_cache e)"
    "engine_ok cpu_live cpu_ids cpu_inv (e\<lparr>prefix_cache := c\<rparr>)" "on_cache (radix_lookup p) e = (Ok found, e\<lparr>prefix_cache := c\<rparr>)"
    using cpu.prefill_lookup [OF ok run] by metis
  let ?e1 = "e\<lparr>prefix_cache := c\<rparr>"
  have nl1: "no_leak cpu_live ?e1" using nl L by (simp add: no_leak_def)
  show ?thesis
  proof (cases "matched_tokens found < length p")
    case True
    with run L p obtain h where "cache_sequence cpu_ops p ?e1 = (Ok h, e')"
      unfolding prefill_def and_then_Ok_iff by (auto simp: ret_def and_then_Ok_iff)
    with cpu.cache_sequence_cases [OF L(3)] nl1 L(1) show ?thesis by fastforce
  next
    case False
    with run L p have "e' = ?e1" unfolding prefill_def and_then_Ok_iff by (auto simp: ret_def)
    moreover have "p \<in> dom (radix_map (prefix_cache e'))" using cpu.prefill_Ok [OF ok run] nl p by simp
    ultimately show ?thesis using L(1) by auto
  qed
qed

lemma engine_new_ready:
  assumes "engine_new ec = Ok (e :: (cpu_runtime, 'j, 'm) engine)"
  shows "ready (rc_paged_block_size (ec_memory ec)) (rc_bytes_per_token (ec_memory ec)) e"
    "cpu_room (rc_paged_total_pages (ec_memory ec)) 2 (eng_runtime e)" "no_leak cpu_live e" "dom (radix_map (prefix_cache e)) = {}"
    "0 < dec_draft_window (eng_decoder e)"
proof -
  have snd: "cpu_sound e" and "0 < dec_draft_window (eng_decoder e)" using cpu_sound_new [OF assms] by simp_all
  then show "no_leak cpu_live e" "0 < dec_draft_window (eng_decoder e)" by (simp_all add: cpu_sound_def engine_sound_def)
  let ?m = "ec_memory ec"
  from assms have rt: "eng_runtime e = \<lparr>rt_store = kv_new (rc_bytes_per_token ?m),
      rt_allocator = page_manager_new \<lparr>block_size = rc_paged_block_size ?m, page_tokens = rc_paged_block_size ?m,
        total_pages = rc_paged_total_pages ?m, unified_memory = True, kv_type = rc_kv_type ?m\<rparr>\<rparr>" "prefix_cache e = radix_new"
    by (auto simp: engine_new_def engine_with_runtime_def cpu_runtime_new_def paged_config_new_def with_kv_type_def split: if_splits)
  show "dom (radix_map (prefix_cache e)) = {}" by (simp add: rt(2) radix_map_new)
  show "ready (rc_paged_block_size ?m) (rc_bytes_per_token ?m) e"
    using snd by (simp add: cpu_sound_def engine_sound_def ready_def rt(1) kv_new_def page_manager_new_def)
  show "cpu_room (rc_paged_total_pages ?m) 2 (eng_runtime e)"
    by (simp add: cpu_room_def rt(1) kv_new_def page_manager_new_def free_page_count_def)
qed

text \<open>A prefill that has room succeeds, also on the empty prompt.\<close>

lemma ready_prefill_any:
  assumes "ready bs bpt e" "length p * bpt \<le> max64" "cpu_room (div_ceil (length p) bs + k) (Suc b) (eng_runtime e)"
  shows "\<exists>pf e'. prefill cpu_ops p e = (Ok pf, e') \<and> cpu_room k b (eng_runtime e') \<and> ready bs bpt e'"
proof (cases "p = []")
  case True
  have ok: "engine_ok cpu_live cpu_ids cpu_inv e" using assms(1) by (simp add: ready_def)
  obtain x e' where run: "prefill cpu_ops p e = (x, e')" by fastforce
  obtain found c where L: "engine_ok cpu_live cpu_ids cpu_inv (e\<lparr>prefix_cache := c\<rparr>)"
    "on_cache (radix_lookup p) e = (Ok found, e\<lparr>prefix_cache := c\<rparr>)"
    using cpu.prefill_lookup [OF ok run] by metis
  with assms(1) cpu_room_mono [OF assms(3), of k b] True show ?thesis
    by (auto simp: prefill_def and_then_def ret_def ready_def)
qed (use ready_prefill [OF assms(1) _ assms(2,3)] in simp)

lemma longest_only_entry:
  assumes "longest_prefix m p r" "dom m = {q}" "q = take n p"
  shows "matched_tokens r = length q"
proof -
  obtain h where h: "m q = Some h" using assms(2) by auto
  have le: "length q \<le> length p" and tk: "take (length q) p = q" using assms(3) by (simp_all add: min_def)
  show ?thesis
  proof (cases "lookup_handle r")
    case None
    with assms(1) le h tk show ?thesis by (auto simp: longest_prefix_def)
  next
    case (Some g)
    with assms(1) have "matched_tokens r \<le> length p" "take (matched_tokens r) p \<in> dom m" by (auto simp: longest_prefix_def)
    with assms(2) show ?thesis by (metis length_take min.absorb2 singletonD)
  qed
qed

lemma longest_no_entry: "longest_prefix m p r \<Longrightarrow> dom m = {} \<Longrightarrow> matched_tokens r = 0"
  by (auto simp: longest_prefix_def split: option.splits)

lemma prefill_reports:
  assumes ok: "engine_ok cpu_live cpu_ids cpu_inv e" and run: "prefill cpu_ops p e = (Ok pf, e')"
  shows "cache_hit_tokens (pf_stats pf) = matched_tokens (cached_prefix pf)" "es_speculative (pf_stats pf) = spec_stats_default"
    "eng_decoder e' = eng_decoder e"
proof -
  show "cache_hit_tokens (pf_stats pf) = matched_tokens (cached_prefix pf)" "es_speculative (pf_stats pf) = spec_stats_default"
    using run unfolding prefill_def and_then_Ok_iff by (auto simp: ret_def and_then_Ok_iff split: if_splits)
  show "eng_decoder e' = eng_decoder e" using keepsD [OF keeps_prefill run] by simp
qed

text \<open>The warm-up of the cache: the first \<open>k\<close> tokens of the prompt are entered, then the whole prompt is looked up.\<close>

lemma warm_prefill:
  assumes new: "engine_new ec = Ok (e :: (cpu_runtime, 'j, 'm) engine)"
    and bytes: "length p * rc_bytes_per_token (ec_memory ec) \<le> max64" and k: "k \<le> length p"
    and pages: "div_ceil k (rc_paged_block_size (ec_memory ec)) + div_ceil (length p) (rc_paged_block_size (ec_memory ec))
      \<le> rc_paged_total_pages (ec_memory ec)"
  shows "\<exists>e1 pf e2. (if take k p \<noteq> [] then and_then (prefill cpu_ops (take k p)) (\<lambda>_. ret ()) e else (Ok (), e)) = (Ok (), e1) \<and>
    prefill cpu_ops p e1 = (Ok pf, e2) \<and> cache_hit_tokens (pf_stats pf) = k \<and> cache_miss_tokens (pf_stats pf) = length p - k \<and>
    es_speculative (pf_stats pf) = spec_stats_default \<and> 0 < dec_draft_window (eng_decoder e2)"
proof -
  let ?bs = "rc_paged_block_size (ec_memory ec)" and ?bpt = "rc_bytes_per_token (ec_memory ec)"
  note E = engine_new_ready [OF new]
  have lk: "length (take k p) = k" using k by simp
  have room: "cpu_room (div_ceil k ?bs + div_ceil (length p) ?bs) 2 (eng_runtime e)" using cpu_room_mono [OF E(2) pages order_refl] .
  have kb: "k * ?bpt \<le> max64" using bytes k mult_le_mono1 order_trans by blast
  have "\<exists>e1. (if take k p \<noteq> [] then and_then (prefill cpu_ops (take k p)) (\<lambda>_. ret ()) e else (Ok (), e)) = (Ok (), e1) \<and>
    ready ?bs ?bpt e1 \<and> cpu_room (div_ceil (length p) ?bs) 1 (eng_runtime e1) \<and> eng_decoder e1 = eng_decoder e \<and>
    dom (radix_map (prefix_cache e1)) = (if take k p = [] then {} else {take k p})"
  proof (cases "take k p = []")
    case True
    with E(1,4) cpu_room_mono [OF room, of "div_ceil (length p) ?bs" 1] show ?thesis by simp
  next
    case False
    have ok: "engine_ok cpu_live cpu_ids cpu_inv e" using E(1) by (simp add: ready_def)
    from ready_prefill [OF E(1) False, of "div_ceil (length p) ?bs" 1] kb room lk obtain pf e1 where
      p1: "prefill cpu_ops (take k p) e = (Ok pf, e1)" "cpu_room (div_ceil (length p) ?bs) 1 (eng_runtime e1)" "ready ?bs ?bpt e1"
      by (auto simp: numeral_2_eq_2)
    with False prefill_entries [OF ok E(3) p1(1) False] prefill_reports(3) [OF ok p1(1)] E(4) show ?thesis
      by (intro exI [of _ e1]) (simp add: and_then_def ret_def)
  qed
  then obtain e1 where e1: "(if take k p \<noteq> [] then and_then (prefill cpu_ops (take k p)) (\<lambda>_. ret ()) e else (Ok (), e)) = (Ok (), e1)"
    "ready ?bs ?bpt e1" "cpu_room (div_ceil (length p) ?bs + 0) (Suc 0) (eng_runtime e1)" "eng_decoder e1 = eng_decoder e"
    "dom (radix_map (prefix_cache e1)) = (if take k p = [] then {} else {take k p})" by auto
  have ok: "engine_ok cpu_live cpu_ids cpu_inv e1" using e1(2) by (simp add: ready_def)
  obtain pf e2 where pf: "prefill cpu_ops p e1 = (Ok pf, e2)" using ready_prefill_any [OF e1(2) bytes e1(3)] by blast
  note P = cpu.prefill_Ok [OF ok pf] and R = prefill_reports [OF ok pf]
  have lp: "longest_prefix (radix_map (prefix_cache e1)) p (cached_prefix pf)" using P by blast
  have m: "matched_tokens (cached_prefix pf) = k"
  proof (cases "take k p = []")
    case True
    with longest_no_entry [OF lp] e1(5) lk show ?thesis by simp
  next
    case False
    with longest_only_entry [OF lp _ refl, of k] e1(5) lk show ?thesis by simp
  qed
  have "cache_hit_tokens (pf_stats pf) + cache_miss_tokens (pf_stats pf) = length p" using P by blast
  then have "cache_hit_tokens (pf_stats pf) = k" "cache_miss_tokens (pf_stats pf) = length p - k" using R(1) m by simp_all
  moreover have "0 < dec_draft_window (eng_decoder e2)" using R(3) e1(4) E(5) by simp
  ultimately show ?thesis using e1(1) pf R(2) by blast
qed

section \<open>What a benchmark measures\<close>

lemma token_range_length: "n < 2 ^ 32 \<Longrightarrow> length (token_range n) = n"
  by (simp add: token_range_def)

lemma bench_loop_scripted:
  assumes "length p + mx \<le> length sc" "0 < dec_draft_window dec" "decoder_begin dec p = (Ok s :: (spec_error, _) outcome)"
    and sc: "scripted sc b" "scripted sc b'"
  shows "\<exists>s'. bench_loop (Suc mx) (greedy_draft_model mo mock_ops) (greedy_target_model mo mock_ops) mx elapsed [] None (s, b, b') =
      (Ok (upcoming sc (length p) mx, if mx = 0 then None else Some elapsed), (s', b, b')) \<and>
    accepted_tokens (stats s') = mx \<and> drafted_tokens (stats s') = mx \<and> rejected_tokens (stats s') = 0"
proof -
  have s: "sess_context s = p @ []" "rejected_token s = None" "1 \<le> draft_window s" "stats s = spec_stats_default"
    using assms(2,3) by (auto simp: decoder_begin_def)
  have g: "[] = upcoming sc (length p) (length ([] :: token_id list))" by (simp add: upcoming_def)
  from scripted_loop [OF sc assms(1) s(1-3) g, of "Suc mx" mo] obtain s' where
    l: "generate_loop (Suc mx) (greedy_draft_model mo mock_ops) (greedy_target_model mo mock_ops) mx [] (s, b, b') =
      (Ok (upcoming sc (length p) mx), (s', b, b'))"
    "accepted_tokens (stats s') = mx" "drafted_tokens (stats s') = mx" "rejected_tokens (stats s') = 0"
    using s(4) by (auto simp: spec_stats_default_def)
  with upcoming_length [OF assms(1)] show ?thesis
    unfolding bench_loop_generate by simp
qed

lemma mock_binds: "b_bind_prefix mock_ops p b = (Ok (), b\<lparr>bound_prefixes := bound_prefixes b @ [p]\<rparr>)"
  by (simp add: mock_ops_def)

text \<open>The generation of a benchmark returns the part of the script that follows the prompt.\<close>

lemma run_generation_scripted:
  assumes pf: "prefill cpu_ops p e = (Ok pf, e1)" and w: "0 < dec_draft_window (eng_decoder e1)" and fit: "length p + mx \<le> length sc"
  shows "\<exists>out st. run_generation_with_ttft elapsed cpu_ops (greedy_draft_model mo mock_ops) (greedy_target_model mo mock_ops) p mx
      (e, (mock_new sc, mock_new sc)) = (Ok (if mx = 0 then None else Some elapsed, out), st) \<and>
    eo_tokens out = upcoming sc (length p) mx \<and> cache_hit_tokens (eo_stats out) = cache_hit_tokens (pf_stats pf) \<and>
    cache_miss_tokens (eo_stats out) = cache_miss_tokens (pf_stats pf) \<and>
    accepted_tokens (es_speculative (eo_stats out)) = mx \<and> drafted_tokens (es_speculative (eo_stats out)) = mx \<and>
    rejected_tokens (es_speculative (eo_stats out)) = 0"
proof -
  let ?b = "(mock_new sc)\<lparr>bound_prefixes := [cached_prefix pf]\<rparr>"
  obtain s where s: "decoder_begin (eng_decoder e1) p = (Ok s :: (spec_error, _) outcome)" by (simp add: decoder_begin_def)
  have "scripted sc ?b" using scripted_new by simp
  from bench_loop_scripted [OF fit w s this this, of mo elapsed] obtain s' where
    l: "bench_loop (Suc mx) (greedy_draft_model mo mock_ops) (greedy_target_model mo mock_ops) mx elapsed [] None (s, ?b, ?b) =
      (Ok (upcoming sc (length p) mx, if mx = 0 then None else Some elapsed), (s', ?b, ?b))"
    "accepted_tokens (stats s') = mx" "drafted_tokens (stats s') = mx" "rejected_tokens (stats s') = 0" by blast
  have "d_bind_prefix (greedy_draft_model mo mock_ops) (cached_prefix pf) (mock_new sc) = (Ok (), ?b)"
    "t_bind_prefix (greedy_target_model mo mock_ops) (cached_prefix pf) (mock_new sc) = (Ok (), ?b)"
    by (simp_all add: greedy_draft_model_def greedy_target_model_def mock_binds) (simp_all add: mock_new_def)
  with pf s l show ?thesis by (simp add: run_generation_with_ttft_def del: bench_loop.simps)
qed

text \<open>On a configuration with room for the prompt every mode succeeds and counts what it should.\<close>

lemma benchmark_case_counts:
  assumes new: "engine_new ec = Ok (e :: (cpu_runtime, unit, 'm) engine)"
    and small: "bc_prompt_len c + bc_gen_len c + 16 < 2 ^ 32"
    and bytes: "bc_prompt_len c * rc_bytes_per_token (ec_memory ec) \<le> max64"
    and pages: "div_ceil (min (bc_cached_depth c) (bc_prompt_len c)) (rc_paged_block_size (ec_memory ec)) +
      div_ceil (bc_prompt_len c) (rc_paged_block_size (ec_memory ec)) \<le> rc_paged_total_pages (ec_memory ec)"
    and generated: "generated = (if bc_mode c = PromptProcessing then 0 else bc_gen_len c)"
  shows "\<exists>s. run_single_case elapsed (mo :: 'm cfg_matcher) ec c = Ok s \<and>
    bs_tokens s = tokens_processed (bc_mode c) (bc_prompt_len c) (bc_gen_len c) \<and>
    bs_cache_hit_tokens s = min (bc_cached_depth c) (bc_prompt_len c) \<and>
    bs_cache_miss_tokens s = bc_prompt_len c - min (bc_cached_depth c) (bc_prompt_len c) \<and>
    accepted_tokens (bs_speculative s) = generated \<and> drafted_tokens (bs_speculative s) = generated \<and>
    rejected_tokens (bs_speculative s) = 0 \<and> ttft_ns s = (if generated = 0 then None else Some elapsed)"
proof -
  let ?p = "prompt_tokens c" and ?k = "min (bc_cached_depth c) (bc_prompt_len c)"
  have len: "length ?p = bc_prompt_len c" "length (script_tokens c) = bc_prompt_len c + bc_gen_len c + 16"
    using small token_range_length by (simp_all add: prompt_tokens_def script_tokens_def)
  have slice: "(if bc_cached_depth c > 0 then take (min (bc_cached_depth c) (length ?p)) ?p else []) = take ?k ?p"
    by (simp add: len)
  from warm_prefill [OF new, of ?p ?k] bytes pages len obtain e1 pf e2 where
    w: "(if take ?k ?p \<noteq> [] then and_then (prefill cpu_ops (take ?k ?p)) (\<lambda>_. ret ()) e else (Ok (), e)) = (Ok (), e1)"
    and pf: "prefill cpu_ops ?p e1 = (Ok pf, e2)" "cache_hit_tokens (pf_stats pf) = ?k" "cache_miss_tokens (pf_stats pf) = bc_prompt_len c - ?k"
      "es_speculative (pf_stats pf) = spec_stats_default" "0 < dec_draft_window (eng_decoder e2)" by auto
  have "length ?p + bc_gen_len c \<le> length (script_tokens c)" using len by simp
  from run_generation_scripted [OF pf(1,5) this, of elapsed mo] obtain out st where
    g: "run_generation_with_ttft elapsed cpu_ops (greedy_draft_model mo mock_ops) (greedy_target_model mo mock_ops) ?p (bc_gen_len c)
      (e1, (mock_new (script_tokens c), mock_new (script_tokens c))) = (Ok (if bc_gen_len c = 0 then None else Some elapsed, out), st)"
    "cache_hit_tokens (eo_stats out) = ?k" "cache_miss_tokens (eo_stats out) = bc_prompt_len c - ?k"
    "accepted_tokens (es_speculative (eo_stats out)) = bc_gen_len c" "drafted_tokens (es_speculative (eo_stats out)) = bc_gen_len c"
    "rejected_tokens (es_speculative (eo_stats out)) = 0" using pf(2,3) by auto
  note run = run_single_case_def new bind_outcome.simps(1) Let_def slice w prod.case
  show ?thesis
  proof (cases "bc_mode c")
    case PromptProcessing
    then show ?thesis
      unfolding run using pf by (simp add: generated tokens_processed_def spec_stats_default_def)
  next
    case Generation
    then show ?thesis
      unfolding run using g by (simp add: generated tokens_processed_def)
  next
    case PromptPlusGeneration
    then show ?thesis
      unfolding run using g by (simp add: generated tokens_processed_def)
  qed
qed

end
