(* ===== verification/BenchTables.thy ===== *)
theory BenchTables
  imports Benchmark
begin

text \<open>
  The tables of a benchmark (\<open>src/src/benchmark.rs\<close>): the labels of the tests, the reader of llama.cpp's tables and
  the comparison with them. Double precision numbers are the type \<open>'f\<close>: their \<open>parse\<close>, the test for being positive and the division are the record \<open>'f f64_ops\<close>.
\<close>

section \<open>Labels\<close>

definition depth_label :: "nat \<Rightarrow> string" where
  "depth_label d = (if d > 0 then '' @ d'' @ decimal d else [])"

definition format_mode :: "benchmark_mode \<Rightarrow> usize \<Rightarrow> usize \<Rightarrow> usize \<Rightarrow> string" where
  "format_mode mode p g d =
     (case mode of
        PromptProcessing \<Rightarrow> ''pp'' @ decimal p
      | Generation \<Rightarrow> ''tg'' @ decimal g
      | PromptPlusGeneration \<Rightarrow> ''pp'' @ decimal p @ ''+tg'' @ decimal g) @ depth_label d"

definition format_llama_test :: "usize \<Rightarrow> usize \<Rightarrow> usize \<Rightarrow> string" where
  "format_llama_test p g d =
     (if p > 0 \<and> g = 0 then ''pp'' @ decimal p
      else if g > 0 \<and> p = 0 then ''tg'' @ decimal g
      else ''pp'' @ decimal p @ ''+tg'' @ decimal g) @ depth_label d"

section \<open>Tables of llama.cpp\<close>

record 'f f64_ops =
  fo_parse :: "string \<Rightarrow> (string, 'f) outcome"
  fo_positive :: "'f \<Rightarrow> bool"
  fo_div :: "'f \<Rightarrow> 'f \<Rightarrow> 'f"

record 'f llama_row =
  model_filename :: string
  llama_backend :: string
  llama_test :: string
  n_prompt :: usize
  n_gen :: usize
  n_depth :: usize
  llama_avg_ns :: nat
  llama_stddev_ns :: nat
  llama_avg_ts :: 'f
  llama_stddev_ts :: 'f

text \<open>The scan over the characters of a line: inside quotes a doubled quote is a quote.\<close>

fun csv_scan :: "bool \<Rightarrow> string \<Rightarrow> string \<Rightarrow> string list" where
  "csv_scan in_quotes current [] = [current]"
| "csv_scan in_quotes current (ch # chars) =
     (if ch = CHR 0x22 then
        (case chars of
           c # rest \<Rightarrow>
             if in_quotes \<and> c = CHR 0x22 then csv_scan in_quotes (current @ [CHR 0x22]) rest
             else csv_scan (\<not> in_quotes) current chars
         | [] \<Rightarrow> csv_scan (\<not> in_quotes) current chars)
      else if ch = CHR '','' \<and> \<not> in_quotes then current # csv_scan in_quotes [] chars
      else csv_scan in_quotes (current @ [ch]) chars)"

definition parse_csv_line :: "string \<Rightarrow> string list" where
  "parse_csv_line line = csv_scan False [] line"

definition column :: "(string \<rightharpoonup> string) \<Rightarrow> string \<Rightarrow> (string, string) outcome" where
  "column cells nm = (case cells nm of Some v \<Rightarrow> Ok v | None \<Rightarrow> Err (''missing '' @ nm))"

definition parse_column :: "nat \<Rightarrow> (string \<rightharpoonup> string) \<Rightarrow> string \<Rightarrow> (string, nat) outcome" where
  "parse_column mx cells nm =
     bind_outcome (column cells nm) (\<lambda>v. map_err (\<lambda>e. ''failed to parse '' @ nm @ '': '' @ int_error_text e) (parse_uint mx v))"

definition parse_f64_column :: "'f f64_ops \<Rightarrow> (string \<rightharpoonup> string) \<Rightarrow> string \<Rightarrow> (string, 'f) outcome" where
  "parse_f64_column fo cells nm =
     bind_outcome (column cells nm) (\<lambda>v. map_err (\<lambda>e. ''failed to parse '' @ nm @ '': '' @ e) (fo_parse fo v))"

text \<open>\<open>BTreeMap::insert\<close> over the zip of the header with the fields: a later column of the same name wins.\<close>

definition row_fields :: "string list \<Rightarrow> string list \<Rightarrow> (string \<rightharpoonup> string)" where
  "row_fields hs vs = foldl (\<lambda>m (h, v). m(h \<mapsto> v)) Map.empty (zip hs vs)"

definition parse_llama_row :: "'f f64_ops \<Rightarrow> string list \<Rightarrow> string \<Rightarrow> (string, 'f llama_row) outcome" where
  "parse_llama_row fo headers line =
     (let cells = row_fields headers (parse_csv_line line);
          text = (\<lambda>nm. case cells nm of Some v \<Rightarrow> v | None \<Rightarrow> []) in
      bind_outcome (parse_column max64 cells ''n_prompt'') (\<lambda>p.
      bind_outcome (parse_column max64 cells ''n_gen'') (\<lambda>g.
      bind_outcome (parse_column max64 cells ''n_depth'') (\<lambda>d.
      bind_outcome (parse_column (2 ^ 128 - 1) cells ''avg_ns'') (\<lambda>avg_ns.
      bind_outcome (parse_column (2 ^ 128 - 1) cells ''stddev_ns'') (\<lambda>stddev_ns.
      bind_outcome (parse_f64_column fo cells ''avg_ts'') (\<lambda>avg_ts.
      bind_outcome (parse_f64_column fo cells ''stddev_ts'') (\<lambda>stddev_ts.
        Ok \<lparr>model_filename = text ''model_filename'', llama_backend = text ''backends'', llama_test = format_llama_test p g d,
            n_prompt = p, n_gen = g, n_depth = d, llama_avg_ns = avg_ns, llama_stddev_ns = stddev_ns,
            llama_avg_ts = avg_ts, llama_stddev_ts = stddev_ts\<rparr>))))))))"

fun parse_llama_rows :: "'f f64_ops \<Rightarrow> string list \<Rightarrow> string list \<Rightarrow> (string, 'f llama_row list) outcome" where
  "parse_llama_rows fo headers [] = Ok []"
| "parse_llama_rows fo headers (line # lines) =
     bind_outcome (parse_llama_row fo headers line) (\<lambda>r. bind_outcome (parse_llama_rows fo headers lines) (\<lambda>rs. Ok (r # rs)))"

definition parse_llama_csv :: "'f f64_ops \<Rightarrow> string \<Rightarrow> (string, 'f llama_row list) outcome" where
  "parse_llama_csv fo input =
     (case filter (\<lambda>line. trim line \<noteq> []) (text_lines input) of
        [] \<Rightarrow> Ok []
      | header # lines \<Rightarrow> parse_llama_rows fo (parse_csv_line header) lines)"

section \<open>The comparison\<close>

text \<open>The fields of a row that the comparison reads and writes.\<close>

record 'f bench_row =
  row_test :: string
  row_avg_ts :: 'f
  row_baseline_ts :: "'f option"
  row_speedup :: "'f option"

definition compare_row :: "'f f64_ops \<Rightarrow> 'f llama_row list \<Rightarrow> 'f bench_row \<Rightarrow> 'f bench_row" where
  "compare_row fo baseline row =
     (case foldl (\<lambda>m b. m(llama_test b \<mapsto> b)) Map.empty baseline (row_test row) of
        None \<Rightarrow> row
      | Some b \<Rightarrow>
          row\<lparr>row_baseline_ts := Some (llama_avg_ts b),
              row_speedup := (if fo_positive fo (llama_avg_ts b) then Some (fo_div fo (row_avg_ts row) (llama_avg_ts b)) else None)\<rparr>)"

definition compare_with_llama_csv ::
  "'f f64_ops \<Rightarrow> string \<Rightarrow> ('f bench_row list, string, 'f llama_row list) act" where
  "compare_with_llama_csv fo csv rows =
     (case parse_llama_csv fo csv of
        Ok baseline \<Rightarrow> (Ok baseline, map (compare_row fo baseline) rows)
      | Err e \<Rightarrow> (Err e, rows)
      | Panic \<Rightarrow> (Panic, rows))"

section \<open>Labels name the shape of a test\<close>

definition stops :: "string \<Rightarrow> bool" where
  "stops r \<longleftrightarrow> (case r of [] \<Rightarrow> True | c # _ \<Rightarrow> \<not> is_digit c)"

lemma decimal_split:
  assumes eq: "decimal m @ r = decimal n @ q" and "stops r" "stops q"
  shows "m = n \<and> r = q"
proof -
  have tw: "takeWhile is_digit (decimal k @ t) = decimal k" if "stops t" for k t
    using that decimal_digits by (cases t) (auto simp: stops_def takeWhile_append2 takeWhile_append)
  have "decimal m = decimal n" using tw [OF assms(2), of m] tw [OF assms(3), of n] eq by metis
  with eq decimal_inject show ?thesis by auto
qed

lemma depth_label_inject: "depth_label d = depth_label d' \<Longrightarrow> d = d'"
  using decimal_inject by (auto simp: depth_label_def split: if_splits)

lemma stops_labels: "stops (depth_label d)" "stops (''+tg'' @ s)" "depth_label d \<noteq> ''+tg'' @ s"
  by (simp_all add: depth_label_def stops_def is_digit_def)

lemma llama_test_cases:
  obtains "0 < p" "g = 0" "format_llama_test p g d = CHR ''p'' # CHR ''p'' # decimal p @ depth_label d"
  | "p = 0" "0 < g" "format_llama_test p g d = CHR ''t'' # CHR ''g'' # decimal g @ depth_label d"
  | "format_llama_test p g d = CHR ''p'' # CHR ''p'' # decimal p @ ''+tg'' @ decimal g @ depth_label d"
  by (cases "p = 0"; cases "g = 0") (simp_all add: format_llama_test_def)

lemma llama_test_inject:
  assumes eq: "format_llama_test p g d = format_llama_test p' g' d'"
  shows "p = p' \<and> g = g' \<and> d = d'"
proof -
  have one: "m = n \<and> k = l" if "decimal m @ depth_label k = decimal n @ depth_label l" for m n k l
    using decimal_split [OF that] stops_labels(1) depth_label_inject by blast
  have two: "m = n \<and> i = j \<and> k = l"
    if e: "decimal m @ CHR ''+'' # CHR ''t'' # CHR ''g'' # decimal i @ depth_label k =
      decimal n @ CHR ''+'' # CHR ''t'' # CHR ''g'' # decimal j @ depth_label l" for m n i j k l
  proof -
    have "m = n \<and> ''+tg'' @ decimal i @ depth_label k = ''+tg'' @ decimal j @ depth_label l"
      by (rule decimal_split) (use e in \<open>simp_all add: stops_def is_digit_def\<close>)
    with one [of i k j l] show ?thesis by simp
  qed
  have mixed: False if "decimal m @ depth_label k = decimal n @ CHR ''+'' # s" for m n k s
    using decimal_split [OF that stops_labels(1)] by (auto simp: stops_def is_digit_def depth_label_def split: if_splits)
  have mixed': False if "decimal n @ CHR ''+'' # s = decimal m @ depth_label k" for m n k s
    using mixed [OF that [symmetric]] .
  show ?thesis
    by (rule llama_test_cases [of p g d]; rule llama_test_cases [of p' g' d'])
      (use eq in \<open>auto dest: one two mixed mixed'\<close>)
qed

section \<open>The comparison goes by shape\<close>

lemma foldl_updates_last:
  "foldl (\<lambda>m b. m(f b \<mapsto> b)) Map.empty bs k =
     (case filter (\<lambda>b. f b = k) bs of [] \<Rightarrow> None | _ \<Rightarrow> Some (last (filter (\<lambda>b. f b = k) bs)))"
  by (induction bs rule: rev_induct) (auto split: list.splits)

lemma parse_llama_rows_tests:
  "parse_llama_rows fo hs lines = Ok rs \<Longrightarrow> \<forall>r \<in> set rs. llama_test r = format_llama_test (n_prompt r) (n_gen r) (n_depth r)"
  by (induction lines arbitrary: rs) (auto simp: parse_llama_row_def Let_def)

lemma parse_llama_csv_tests:
  "parse_llama_csv fo csv = Ok rs \<Longrightarrow> \<forall>r \<in> set rs. llama_test r = format_llama_test (n_prompt r) (n_gen r) (n_depth r)"
  using parse_llama_rows_tests by (fastforce simp: parse_llama_csv_def split: list.splits)

definition shape_of_mode :: "benchmark_mode \<Rightarrow> usize \<Rightarrow> usize \<Rightarrow> bool" where
  "shape_of_mode mode p g \<longleftrightarrow>
     (case mode of PromptProcessing \<Rightarrow> 0 < p \<and> g = 0 | Generation \<Rightarrow> p = 0 \<and> 0 < g | PromptPlusGeneration \<Rightarrow> 0 < p \<and> 0 < g)"

lemma format_mode_llama: "shape_of_mode mode p g \<Longrightarrow> format_mode mode p g d = format_llama_test p g d"
  by (auto simp: shape_of_mode_def format_mode_def format_llama_test_def split: benchmark_mode.splits)

text \<open>The comparison goes by shape: a row whose label the harness made for a mode and its lengths gets the
  speed of the last row of the table with the same prompt, generation and depth, and keeps its other
  fields; without such a row it is left alone. Labels of different shapes are never confused.\<close>

lemma comparison_by_shape:
  assumes "compare_with_llama_csv fo csv rows = (Ok base, rows')" "i < length rows"
    and "row_test (rows ! i) = format_mode mode p g d" "shape_of_mode mode p g"
  shows "length rows' = length rows \<and>
    rows' ! i = (case filter (\<lambda>b. n_prompt b = p \<and> n_gen b = g \<and> n_depth b = d) base of
      [] \<Rightarrow> rows ! i
    | b # bs \<Rightarrow> (rows ! i)\<lparr>row_baseline_ts := Some (llama_avg_ts (last (b # bs))),
        row_speedup := (if fo_positive fo (llama_avg_ts (last (b # bs)))
          then Some (fo_div fo (row_avg_ts (rows ! i)) (llama_avg_ts (last (b # bs)))) else None)\<rparr>)"
proof -
  have base: "parse_llama_csv fo csv = Ok base" and rows': "rows' = map (compare_row fo base) rows"
    using assms(1) by (auto simp: compare_with_llama_csv_def split: outcome.splits)
  have "filter (\<lambda>b. llama_test b = row_test (rows ! i)) base = filter (\<lambda>b. n_prompt b = p \<and> n_gen b = g \<and> n_depth b = d) base"
    using parse_llama_csv_tests [OF base] llama_test_inject
    by (intro filter_cong) (auto simp: assms(3) format_mode_llama [OF assms(4)])
  then show ?thesis
    using assms(2) by (auto simp: rows' compare_row_def foldl_updates_last split: list.splits)
qed

section \<open>Reading a printed table\<close>

definition csv_escape :: "string \<Rightarrow> string" where
  "csv_escape s = concat (map (\<lambda>c. if c = CHR 0x22 then [CHR 0x22, CHR 0x22] else [c]) s)"

definition csv_field :: "string \<Rightarrow> string" where
  "csv_field s = (if CHR 0x22 \<in> set s \<or> CHR '','' \<in> set s then CHR 0x22 # csv_escape s @ [CHR 0x22] else s)"

definition csv_line :: "string list \<Rightarrow> string" where
  "csv_line ss = join_with CHR '','' (map csv_field ss)"

lemma scan_plain: "CHR 0x22 \<notin> set s \<Longrightarrow> CHR '','' \<notin> set s \<Longrightarrow> csv_scan False cur (s @ r) = csv_scan False (cur @ s) r"
  by (induction s arbitrary: cur) auto

lemma scan_quoted:
  assumes "\<And>q. r \<noteq> CHR 0x22 # q"
  shows "csv_scan True cur (csv_escape s @ CHR 0x22 # r) = csv_scan False (cur @ s) r"
proof (induction s arbitrary: cur)
  case Nil
  then show ?case using assms by (cases r) (auto simp: csv_escape_def)
next
  case (Cons c s)
  then show ?case by (auto simp: csv_escape_def)
qed

lemma scan_field:
  assumes "r = [] \<or> (\<exists>q. r = CHR '','' # q)"
  shows "csv_scan False [] (csv_field s @ r) = csv_scan False s r"
proof (cases "CHR 0x22 \<in> set s \<or> CHR '','' \<in> set s")
  case True
  have "csv_escape s @ CHR 0x22 # r \<noteq> []" by simp
  then obtain c q where q: "csv_escape s @ CHR 0x22 # r = c # q" by (cases "csv_escape s @ CHR 0x22 # r") blast+
  have "csv_scan True [] (csv_escape s @ CHR 0x22 # r) = csv_scan False s r"
    using scan_quoted [of r "[]" s] assms by auto
  with True q show ?thesis by (simp add: csv_field_def)
next
  case False
  with scan_plain [of s "[]" r] show ?thesis by (simp add: csv_field_def)
qed

lemma parse_csv_line_fields: "ss \<noteq> [] \<Longrightarrow> parse_csv_line (csv_line ss) = ss"
proof (induction ss)
  case (Cons s ss)
  show ?case
  proof (cases "ss = []")
    case True
    then show ?thesis using scan_field [of "[]" s] by (simp add: parse_csv_line_def csv_line_def)
  next
    case False
    then have "csv_line (s # ss) = csv_field s @ CHR '','' # csv_line ss" by (simp add: csv_line_def join_with_Cons)
    moreover have "csv_scan False [] (csv_field s @ CHR '','' # csv_line ss) = csv_scan False s (CHR '','' # csv_line ss)"
      by (rule scan_field) simp
    ultimately show ?thesis using Cons.IH [OF False] by (simp add: parse_csv_line_def)
  qed
qed simp

definition llama_headers :: "string list" where
  "llama_headers =
     [''model_filename'', ''backends'', ''n_prompt'', ''n_gen'', ''n_depth'', ''avg_ns'', ''stddev_ns'', ''avg_ts'', ''stddev_ts'']"

definition llama_values :: "('f \<Rightarrow> string) \<Rightarrow> 'f llama_row \<Rightarrow> string list" where
  "llama_values shw r =
     [model_filename r, llama_backend r, decimal (n_prompt r), decimal (n_gen r), decimal (n_depth r), decimal (llama_avg_ns r),
      decimal (llama_stddev_ns r), shw (llama_avg_ts r), shw (llama_stddev_ts r)]"

definition print_llama_csv :: "('f \<Rightarrow> string) \<Rightarrow> 'f llama_row list \<Rightarrow> string" where
  "print_llama_csv shw rows = concat (map (\<lambda>vs. csv_line vs @ [CHR 0x0A]) (llama_headers # map (llama_values shw) rows))"

definition one_line :: "string \<Rightarrow> bool" where
  "one_line s \<longleftrightarrow> CHR 0x0A \<notin> set s \<and> CHR 0x0D \<notin> set s"

definition printable_row :: "'f f64_ops \<Rightarrow> ('f \<Rightarrow> string) \<Rightarrow> 'f llama_row \<Rightarrow> bool" where
  "printable_row fo shw r \<longleftrightarrow>
     llama_test r = format_llama_test (n_prompt r) (n_gen r) (n_depth r) \<and>
     one_line (model_filename r) \<and> one_line (llama_backend r) \<and>
     n_prompt r \<le> max64 \<and> n_gen r \<le> max64 \<and> n_depth r \<le> max64 \<and> llama_avg_ns r < 2 ^ 128 \<and> llama_stddev_ns r < 2 ^ 128 \<and>
     (\<forall>x \<in> {llama_avg_ts r, llama_stddev_ts r}. one_line (shw x) \<and> fo_parse fo (shw x) = Ok x)"

lemma one_line_decimal: "one_line (decimal n)"
  using decimal_digits [of "CHR 0x0A" n] decimal_digits [of "CHR 0x0D" n] by (auto simp: one_line_def is_digit_def)

lemma csv_field_chars: "c \<in> set (csv_field s) \<Longrightarrow> c \<in> set s \<or> c = CHR 0x22"
  by (auto simp: csv_field_def csv_escape_def split: if_splits)

lemma join_with_chars: "c \<in> set (join_with d ss) \<Longrightarrow> c = d \<or> (\<exists>s \<in> set ss. c \<in> set s)"
  by (induction d ss rule: join_with.induct) auto

lemma one_line_csv: "\<forall>s \<in> set ss. one_line s \<Longrightarrow> one_line (csv_line ss)"
  unfolding one_line_def csv_line_def using join_with_chars csv_field_chars by (fastforce dest!: join_with_chars csv_field_chars)

lemma lines_from_line: "CHR 0x0A \<notin> set l \<Longrightarrow> lines_from cur (l @ CHR 0x0A # r) = chomp_cr (cur @ l) # lines_from [] r"
  by (induction l arbitrary: cur) auto

lemma chomp_one_line: "one_line l \<Longrightarrow> chomp_cr l = l"
  by (auto simp: chomp_cr_def one_line_def dest: last_in_set)

lemma text_lines_printed:
  "\<forall>l \<in> set ls. one_line l \<Longrightarrow> text_lines (concat (map (\<lambda>l. l @ [CHR 0x0A]) ls)) = ls"
  unfolding text_lines_def
  by (induction ls) (auto simp: lines_from_line chomp_one_line one_line_def)

lemma trim_ne:
  assumes "c \<in> set s" "\<not> is_space c"
  shows "trim s \<noteq> []"
proof -
  have "dropWhile is_space s \<noteq> []" "c \<in> set (dropWhile is_space s)"
    using assms by (induction s) auto
  then show ?thesis using assms(2) by (auto simp: trim_def)
qed

lemma csv_line_trim: "2 \<le> length ss \<Longrightarrow> trim (csv_line ss) \<noteq> []"
  by (rule trim_ne [of "CHR '',''"]) (cases ss; cases "tl ss"; auto simp: csv_line_def is_space_def)+

lemma parse_llama_row_printed:
  assumes "printable_row fo shw r"
  shows "parse_llama_row fo llama_headers (csv_line (llama_values shw r)) = Ok r"
proof -
  have "parse_csv_line (csv_line (llama_values shw r)) = llama_values shw r"
    by (rule parse_csv_line_fields) (simp add: llama_values_def)
  moreover have "parse_uint (2 ^ 128 - 1) (decimal (llama_avg_ns r)) = Ok (llama_avg_ns r)"
    "parse_uint (2 ^ 128 - 1) (decimal (llama_stddev_ns r)) = Ok (llama_stddev_ns r)"
    using assms by (auto intro!: parse_decimal simp: printable_row_def)
  ultimately show ?thesis
    using assms
    by (simp add: parse_llama_row_def printable_row_def row_fields_def llama_headers_def llama_values_def
        parse_column_def parse_f64_column_def column_def parse_decimal Let_def)
qed

lemma llama_csv_read:
  assumes "\<forall>r \<in> set rows. printable_row fo shw r"
  shows "parse_llama_csv fo (print_llama_csv shw rows) = Ok rows"
proof -
  let ?ls = "csv_line llama_headers # map (\<lambda>r. csv_line (llama_values shw r)) rows"
  have header: "one_line (csv_line llama_headers)" by (rule one_line_csv) (simp add: llama_headers_def one_line_def)
  have rows: "one_line (csv_line (llama_values shw r))" if "r \<in> set rows" for r
    by (rule one_line_csv) (use assms that in \<open>auto simp: llama_values_def printable_row_def one_line_decimal\<close>)
  have "print_llama_csv shw rows = concat (map (\<lambda>l. l @ [CHR 0x0A]) ?ls)" by (simp add: print_llama_csv_def comp_def)
  moreover have "text_lines (concat (map (\<lambda>l. l @ [CHR 0x0A]) ?ls)) = ?ls" by (rule text_lines_printed) (use header rows in auto)
  moreover have "filter (\<lambda>line. trim line \<noteq> []) ?ls = ?ls"
    by (rule filter_True) (auto intro!: csv_line_trim simp: llama_headers_def llama_values_def)
  moreover have "parse_csv_line (csv_line llama_headers) = llama_headers" by (rule parse_csv_line_fields) (simp add: llama_headers_def)
  moreover have "parse_llama_rows fo llama_headers (map (\<lambda>r. csv_line (llama_values shw r)) rows) = Ok rows"
    using assms by (induction rows) (simp_all add: parse_llama_row_printed)
  ultimately show ?thesis by (simp only: parse_llama_csv_def list.case)
qed

text \<open>A printed table is read back: quoting the names that contain a comma or a quote, a table of llama.cpp
  with its header gives back exactly its rows, in order, each with the label of its shape.\<close>

lemma llama_csv_roundtrip:
  assumes "\<forall>r \<in> set rows. printable_row fo shw r"
  shows "parse_llama_csv fo (print_llama_csv shw rows) = Ok rows"
  by (rule llama_csv_read [OF assms])

text \<open>Whole numbers in the place of double precision ones, and a row whose names need quotes.\<close>

definition whole_ops :: "nat f64_ops" where
  "whole_ops = \<lparr>fo_parse = (\<lambda>s. map_err int_error_text (parse_uint max64 s)), fo_positive = (\<lambda>x. 0 < x), fo_div = (\<lambda>x y. x div y)\<rparr>"

definition sample_row :: "nat llama_row" where
  "sample_row =
     \<lparr>model_filename = ''a,b'', llama_backend = CHR 0x22 # ''gpu'', llama_test = format_llama_test 512 0 7, n_prompt = 512, n_gen = 0,
      n_depth = 7, llama_avg_ns = 10, llama_stddev_ns = 1, llama_avg_ts = 50, llama_stddev_ts = 2\<rparr>"

lemma sample_row_printable: "printable_row whole_ops decimal sample_row"
proof -
  have "parse_uint max64 (decimal 50) = Ok 50" "parse_uint max64 (decimal 2) = Ok 2" by (rule parse_decimal, simp add: max64_def)+
  then show ?thesis by (simp add: printable_row_def sample_row_def whole_ops_def one_line_decimal max64_def) (simp add: one_line_def)
qed

theorem llama_csv_roundtrip_instance:
  "parse_llama_csv whole_ops (print_llama_csv decimal [sample_row]) = Ok [sample_row]"
  by (rule llama_csv_roundtrip) (simp add: sample_row_printable)

lemma comparison_by_shape_instance:
  "\<exists>rows'. compare_with_llama_csv whole_ops (print_llama_csv decimal [sample_row])
       [\<lparr>row_test = format_mode PromptProcessing 512 0 7, row_avg_ts = 100, row_baseline_ts = None, row_speedup = None\<rparr>] =
       (Ok [sample_row], rows') \<and> row_speedup (rows' ! 0) = Some 2"
proof -
  let ?row = "\<lparr>row_test = format_mode PromptProcessing 512 0 7, row_avg_ts = 100, row_baseline_ts = None, row_speedup = None\<rparr> :: nat bench_row"
  have read: "parse_llama_csv whole_ops (print_llama_csv decimal [sample_row]) = Ok [sample_row]"
    by (rule llama_csv_read) (simp add: sample_row_printable)
  then obtain rows' where r: "compare_with_llama_csv whole_ops (print_llama_csv decimal [sample_row]) [?row] = (Ok [sample_row], rows')"
    by (simp add: compare_with_llama_csv_def)
  from comparison_by_shape [OF r, of 0 PromptProcessing 512 0 7]
  have "row_speedup (rows' ! 0) = Some 2" by (simp add: shape_of_mode_def sample_row_def whole_ops_def)
  with r show ?thesis by blast
qed

end
