(* ===== verification/VeloBench.thy ===== *)
theory VeloBench
  imports BenchTables
begin

text \<open>
  The tool \<open>velo-bench\<close> (\<open>src/src/bin/velo-bench.rs\<close>): its command line, the modes it runs, and the settings it
  makes for the harness and the engine.
\<close>

section \<open>The command line\<close>

datatype bench_format = Markdown | Csv | Json

record 'f cli_args =
  ca_mode :: string
  ca_prompt_len :: usize
  ca_gen_len :: usize
  ca_cached_depth :: usize
  ca_repetitions :: usize
  ca_warmups :: usize
  ca_draft_window :: usize
  ca_bytes_per_token :: usize
  ca_page_tokens :: usize
  ca_total_pages :: usize
  ca_model_name :: string
  ca_backend_name :: string
  ca_quantization :: quantization
  ca_format :: bench_format
  ca_llama_csv :: "string option"
  ca_kv_type :: kv_cache_type
  ca_power :: bool
  ca_model_params :: 'f
  ca_roofline :: bool

text \<open>The defaults; \<open>eight\<close> is the number \<open>8.0\<close>.\<close>

definition cli_defaults :: "'f \<Rightarrow> 'f cli_args" where
  "cli_defaults eight =
     \<lparr>ca_mode = ''prompt-plus-generation'', ca_prompt_len = 128, ca_gen_len = 128, ca_cached_depth = 0, ca_repetitions = 5,
      ca_warmups = 1, ca_draft_window = 8, ca_bytes_per_token = 128, ca_page_tokens = 16, ca_total_pages = 4096,
      ca_model_name = ''velo-core/mock'', ca_backend_name = ''cpu/mock'', ca_quantization = Quant_Q4_0, ca_format = Markdown,
      ca_llama_csv = None, ca_kv_type = Fp32, ca_power = False, ca_model_params = eight, ca_roofline = False\<rparr>"

definition parse_count :: "string \<Rightarrow> string \<Rightarrow> (string, usize) outcome" where
  "parse_count flag v = map_err (\<lambda>e. ''invalid value for '' @ flag @ '': '' @ int_error_text e) (parse_uint max64 v)"

definition count_setters :: "(string \<times> (usize \<Rightarrow> 'f cli_args \<Rightarrow> 'f cli_args)) list" where
  "count_setters =
     [(''--prompt-len'', \<lambda>n a. a\<lparr>ca_prompt_len := n\<rparr>), (''--gen-len'', \<lambda>n a. a\<lparr>ca_gen_len := n\<rparr>),
      (''--cached-depth'', \<lambda>n a. a\<lparr>ca_cached_depth := n\<rparr>), (''--repetitions'', \<lambda>n a. a\<lparr>ca_repetitions := n\<rparr>),
      (''--warmups'', \<lambda>n a. a\<lparr>ca_warmups := n\<rparr>), (''--draft-window'', \<lambda>n a. a\<lparr>ca_draft_window := n\<rparr>),
      (''--bytes-per-token'', \<lambda>n a. a\<lparr>ca_bytes_per_token := n\<rparr>), (''--page-tokens'', \<lambda>n a. a\<lparr>ca_page_tokens := n\<rparr>),
      (''--total-pages'', \<lambda>n a. a\<lparr>ca_total_pages := n\<rparr>)]"

text \<open>What an option with a value does with it; no result when the option is not one of these.\<close>

definition set_option_value :: "'f f64_ops \<Rightarrow> string \<Rightarrow> string \<Rightarrow> 'f cli_args \<Rightarrow> (string, 'f cli_args) outcome" where
  "set_option_value fo flag v a =
     (case map_of count_setters flag of
        Some f \<Rightarrow> bind_outcome (parse_count flag v) (\<lambda>n. Ok (f n a))
      | None \<Rightarrow>
          if flag = ''--mode'' then Ok (a\<lparr>ca_mode := v\<rparr>)
          else if flag = ''--model-name'' then Ok (a\<lparr>ca_model_name := v\<rparr>)
          else if flag = ''--backend-name'' then Ok (a\<lparr>ca_backend_name := v\<rparr>)
          else if flag = ''--format'' then
            (if v = ''md'' \<or> v = ''markdown'' then Ok (a\<lparr>ca_format := Markdown\<rparr>)
             else if v = ''csv'' then Ok (a\<lparr>ca_format := Csv\<rparr>)
             else if v = ''json'' then Ok (a\<lparr>ca_format := Json\<rparr>)
             else Err (''unknown format: '' @ v))
          else if flag = ''--llama-csv'' then Ok (a\<lparr>ca_llama_csv := Some v\<rparr>)
          else if flag = ''--kv-type'' then
            (if v = ''fp32'' then Ok (a\<lparr>ca_kv_type := Fp32\<rparr>)
             else if v = ''int8'' then Ok (a\<lparr>ca_kv_type := Int8\<rparr>)
             else if v = ''fp8'' then Ok (a\<lparr>ca_kv_type := Fp8\<rparr>)
             else Err (''unknown kv-type: '' @ v))
          else if flag = ''--quantization'' then
            (if v = ''q4_0'' \<or> v = ''q4'' then Ok (a\<lparr>ca_quantization := Quant_Q4_0\<rparr>)
             else if v = ''q4k'' \<or> v = ''q4_k'' \<or> v = ''q4-k'' then Ok (a\<lparr>ca_quantization := Quant_Q4K\<rparr>)
             else Err (''unknown quantization: '' @ v))
          else bind_outcome (map_err (\<lambda>e. ''invalid model-params: '' @ e) (fo_parse fo v)) (\<lambda>x. Ok (a\<lparr>ca_model_params := x\<rparr>)))"

definition valued_flags :: "string list" where
  "valued_flags =
     [''--prompt-len'', ''--gen-len'', ''--cached-depth'', ''--repetitions'', ''--warmups'', ''--draft-window'',
      ''--bytes-per-token'', ''--page-tokens'', ''--total-pages'', ''--mode'', ''--model-name'', ''--backend-name'', ''--format'',
      ''--llama-csv'', ''--kv-type'', ''--quantization'', ''--model-params'']"

fun cli_parse :: "'f f64_ops \<Rightarrow> string \<Rightarrow> string list \<Rightarrow> 'f cli_args \<Rightarrow> (string, 'f cli_args) outcome" where
  "cli_parse fo help [] a = Ok a"
| "cli_parse fo help (arg # rest) a =
     (if arg = ''--power'' then cli_parse fo help rest (a\<lparr>ca_power := True\<rparr>)
      else if arg = ''--roofline'' then cli_parse fo help rest (a\<lparr>ca_roofline := True\<rparr>)
      else if arg = ''--help'' \<or> arg = ''-h'' then Err help
      else if arg \<in> set valued_flags then
        (case rest of
           [] \<Rightarrow> Err (arg @ '' requires a value'')
         | v # rest \<Rightarrow> bind_outcome (set_option_value fo arg v a) (\<lambda>a. cli_parse fo help rest a))
      else Err (''unrecognized argument: '' @ arg))"

section \<open>The settings\<close>

definition cli_modes :: "'f cli_args \<Rightarrow> benchmark_mode list" where
  "cli_modes a =
     (if ca_mode a = ''all'' then [PromptProcessing, Generation, PromptPlusGeneration]
      else if ca_mode a = ''prompt-processing'' \<or> ca_mode a = ''pp'' then [PromptProcessing]
      else if ca_mode a = ''generation'' \<or> ca_mode a = ''tg'' then [Generation]
      else [PromptPlusGeneration])"

definition cli_bench_config :: "benchmark_mode \<Rightarrow> 'f cli_args \<Rightarrow> bench_config" where
  "cli_bench_config mode a =
     (let (p, g) = (case mode of PromptProcessing \<Rightarrow> (ca_prompt_len a, 0) | Generation \<Rightarrow> (0, ca_gen_len a)
                    | PromptPlusGeneration \<Rightarrow> (ca_prompt_len a, ca_gen_len a)) in
      \<lparr>bc_mode = mode, bc_prompt_len = p, bc_gen_len = g, bc_cached_depth = min (ca_cached_depth a) p,
       bc_repetitions = ca_repetitions a, bc_warmups = ca_warmups a, bc_draft_window = ca_draft_window a,
       bc_bytes_per_token = ca_bytes_per_token a, bc_page_tokens = ca_page_tokens a, bc_total_pages = ca_total_pages a,
       bc_quantization = ca_quantization a, bc_model_name = ca_model_name a, bc_backend_name = ca_backend_name a,
       bc_measure_power = ca_power a, bc_roofline = ca_roofline a\<rparr>)"

definition cli_engine_config :: "'f cli_args \<Rightarrow> engine_config" where
  "cli_engine_config a =
     \<lparr>ec_draft_window = ca_draft_window a,
      ec_memory = runtime_config_cpu (ca_bytes_per_token a) (ca_page_tokens a) (ca_total_pages a) 32 32, ec_kv_type = ca_kv_type a\<rparr>"

text \<open>The loop of \<open>main\<close> over the modes: for each mode its settings and its samples.\<close>

fun cli_run ::
  "(benchmark_mode \<Rightarrow> nat \<Rightarrow> nat) \<Rightarrow> 'm cfg_matcher \<Rightarrow> 'f cli_args \<Rightarrow> benchmark_mode list
   \<Rightarrow> (engine_error, (bench_config \<times> bench_sample list) list) outcome" where
  "cli_run readings mo a [] = Ok []"
| "cli_run readings mo a (mode # modes) =
     bind_outcome (benchmark_samples (readings mode) mo (cli_engine_config a) (cli_bench_config mode a)) (\<lambda>samples.
       bind_outcome (cli_run readings mo a modes) (\<lambda>rs. Ok ((cli_bench_config mode a, samples) # rs)))"

section \<open>Properties\<close>

text \<open>The depth of the cache has no effect on the generation test: it is cut to its prompt, which is empty.\<close>

lemma generation_ignores_depth: "bc_cached_depth (cli_bench_config Generation a) = 0"
  by (simp add: cli_bench_config_def)

text \<open>The settings the tool makes have the shape of their mode, so their labels are those of the other tables.\<close>

lemma cli_label:
  assumes "0 < ca_prompt_len a" "0 < ca_gen_len a" "c = cli_bench_config mode a"
  shows "format_mode (bc_mode c) (bc_prompt_len c) (bc_gen_len c) (bc_cached_depth c) =
    format_llama_test (bc_prompt_len c) (bc_gen_len c) (bc_cached_depth c)"
  by (rule format_mode_llama) (use assms in \<open>simp add: shape_of_mode_def cli_bench_config_def split: benchmark_mode.splits\<close>)

lemma engine_new_cpu:
  assumes "0 < w" "w * 2 \<le> max64" "0 < bs"
  shows "\<exists>e. engine_new \<lparr>ec_draft_window = w, ec_memory = runtime_config_cpu bpt bs tp nl ms, ec_kv_type = kt\<rparr> =
    Ok (e :: (cpu_runtime, unit, 'm) engine)"
  using assms
  by (simp add: engine_new_def engine_with_runtime_def decoder_new_def cpu_runtime_new_def paged_config_new_def
      runtime_config_cpu_def runtime_config_new_def)

lemma collect_runs_Ok:
  assumes "\<forall>i \<in> set is. \<exists>a. f i = Ok a \<and> P a"
  shows "\<exists>as. collect_runs f is = Ok as \<and> length as = length is \<and> (\<forall>a \<in> set as. P a)"
  using assms by (induction "is") auto

text \<open>What a sample of a benchmark should say.\<close>

definition measured :: "bench_config \<Rightarrow> bench_sample \<Rightarrow> bool" where
  "measured c s \<longleftrightarrow>
     (let warm = min (bc_cached_depth c) (bc_prompt_len c);
          generated = (if bc_mode c = PromptProcessing then 0 else bc_gen_len c) in
      bs_tokens s = tokens_processed (bc_mode c) (bc_prompt_len c) (bc_gen_len c) \<and>
      bs_cache_hit_tokens s = warm \<and> bs_cache_miss_tokens s = bc_prompt_len c - warm \<and>
      accepted_tokens (bs_speculative s) = generated \<and> drafted_tokens (bs_speculative s) = generated \<and>
      rejected_tokens (bs_speculative s) = 0 \<and> (ttft_ns s = None \<longleftrightarrow> generated = 0))"

definition args_fit :: "'f cli_args \<Rightarrow> bool" where
  "args_fit a \<longleftrightarrow>
     0 < ca_draft_window a \<and> ca_draft_window a * 2 \<le> max64 \<and> 0 < ca_page_tokens a \<and> ca_prompt_len a + ca_gen_len a + 16 < 2 ^ 32 \<and>
     ca_prompt_len a * ca_bytes_per_token a \<le> max64 \<and>
     div_ceil (min (ca_cached_depth a) (ca_prompt_len a)) (ca_page_tokens a) + div_ceil (ca_prompt_len a) (ca_page_tokens a) \<le> ca_total_pages a"

lemma cli_case:
  assumes "args_fit a"
  shows "\<exists>s. run_single_case elapsed (mo :: 'm cfg_matcher) (cli_engine_config a) (cli_bench_config mode a) = Ok s \<and>
    measured (cli_bench_config mode a) s"
proof -
  let ?c = "cli_bench_config mode a" and ?ec = "cli_engine_config a"
  note F = assms [unfolded args_fit_def]
  obtain e where e: "engine_new ?ec = Ok (e :: (cpu_runtime, unit, 'm) engine)"
    using engine_new_cpu F unfolding cli_engine_config_def by metis
  have ec: "rc_bytes_per_token (ec_memory ?ec) = ca_bytes_per_token a" "rc_paged_block_size (ec_memory ?ec) = ca_page_tokens a"
    "rc_paged_total_pages (ec_memory ?ec) = ca_total_pages a"
    by (simp_all add: cli_engine_config_def runtime_config_cpu_def runtime_config_new_def)
  have lens: "bc_prompt_len ?c = 0 \<or> bc_prompt_len ?c = ca_prompt_len a" "bc_gen_len ?c = 0 \<or> bc_gen_len ?c = ca_gen_len a"
    "bc_cached_depth ?c = min (ca_cached_depth a) (bc_prompt_len ?c)"
    by (simp_all add: cli_bench_config_def split: benchmark_mode.splits)
  have small: "bc_prompt_len ?c + bc_gen_len ?c + 16 < 2 ^ 32" using F lens by linarith
  have bytes: "bc_prompt_len ?c * rc_bytes_per_token (ec_memory ?ec) \<le> max64" using F lens ec by auto
  have pages: "div_ceil (min (bc_cached_depth ?c) (bc_prompt_len ?c)) (rc_paged_block_size (ec_memory ?ec)) +
      div_ceil (bc_prompt_len ?c) (rc_paged_block_size (ec_memory ?ec)) \<le> rc_paged_total_pages (ec_memory ?ec)"
    using F lens unfolding ec by auto
  from benchmark_case_counts [OF e small bytes pages refl, of elapsed mo] show ?thesis
    by (auto simp: measured_def Let_def)
qed

lemma cli_run_Ok:
  assumes "args_fit a"
  shows "\<exists>results. cli_run readings (mo :: 'm cfg_matcher) a modes = Ok results \<and> map fst results = map (\<lambda>mode. cli_bench_config mode a) modes \<and>
    (\<forall>(c, samples) \<in> set results. length samples = ca_repetitions a \<and> (\<forall>s \<in> set samples. measured c s))"
proof (induction modes)
  case (Cons mode modes)
  let ?c = "cli_bench_config mode a" and ?ec = "cli_engine_config a" and ?r = "readings mode"
  have all: "\<forall>i \<in> set is. \<exists>s. run_single_case (?r i) mo ?ec ?c = Ok s \<and> measured ?c s" for "is"
    using cli_case [OF assms] by blast
  have c: "bc_warmups ?c = ca_warmups a" "bc_repetitions ?c = ca_repetitions a"
    by (simp_all add: cli_bench_config_def split: benchmark_mode.splits)
  from collect_runs_Ok [OF all, of "[0..<bc_warmups ?c]"] collect_runs_Ok [OF all, of "[bc_warmups ?c..<bc_warmups ?c + bc_repetitions ?c]"]
  obtain samples where "benchmark_samples ?r mo ?ec ?c = Ok samples" "length samples = ca_repetitions a" "\<forall>s \<in> set samples. measured ?c s"
    by (auto simp: benchmark_samples_def c)
  with Cons.IH show ?case by auto
qed simp

text \<open>C40. \<open>velo-bench\<close> measures what it says: with settings for which the prompt fits the memory, every mode the
  command line asks for runs without an error, in order, with the wanted number of samples, and every
  sample reports as cache hits exactly the warmed-up part of the prompt and as misses the rest, counts the tokens of its
  mode, accepts every drafted token of the generation, and times the first token when one was generated.\<close>

theorem velo_bench_measures:
  assumes "args_fit a"
  shows "\<exists>results. cli_run readings mo a (cli_modes a) = Ok results \<and>
    map fst results = map (\<lambda>mode. cli_bench_config mode a) (cli_modes a) \<and>
    (\<forall>(c, samples) \<in> set results. length samples = ca_repetitions a \<and> (\<forall>s \<in> set samples. measured c s))"
  by (rule cli_run_Ok [OF assms])

definition idle_matcher :: "unit cfg_matcher" where
  "idle_matcher = \<lparr>cm_next_mask = (\<lambda>m. ([], m)), cm_advance = (\<lambda>_ m. m)\<rparr>"

theorem velo_bench_measures_witness:
  "\<exists>samples. cli_run (\<lambda>_ _. 5) idle_matcher (cli_defaults (8 :: nat)) [PromptPlusGeneration] =
     Ok [(cli_bench_config PromptPlusGeneration (cli_defaults (8 :: nat)), samples)] \<and> length samples = 5 \<and>
     (\<forall>s \<in> set samples. bs_tokens s = 256 \<and> bs_cache_miss_tokens s = 128)"
proof -
  have fit: "args_fit (cli_defaults (8 :: nat))"
    by (simp add: args_fit_def cli_defaults_def max64_def div_ceil_def)
  have modes: "cli_modes (cli_defaults (8 :: nat)) = [PromptPlusGeneration]" by (simp add: cli_modes_def cli_defaults_def)
  have reps: "ca_repetitions (cli_defaults (8 :: nat)) = 5" by (simp add: cli_defaults_def)
  have m: "bs_tokens s = 256 \<and> bs_cache_miss_tokens s = 128"
    if "measured (cli_bench_config PromptPlusGeneration (cli_defaults (8 :: nat))) s" for s
    using that by (simp add: measured_def Let_def cli_bench_config_def cli_defaults_def tokens_processed_def)
  from velo_bench_measures [OF fit, of "\<lambda>_ _. 5" idle_matcher] obtain results where
    r: "cli_run (\<lambda>_ _. 5) idle_matcher (cli_defaults (8 :: nat)) [PromptPlusGeneration] = Ok results"
    "map fst results = [cli_bench_config PromptPlusGeneration (cli_defaults (8 :: nat))]"
    "\<forall>(c, samples) \<in> set results. length samples = 5 \<and> (\<forall>s \<in> set samples. measured c s)"
    unfolding modes reps by auto
  from r(2) obtain samples where "results = [(cli_bench_config PromptPlusGeneration (cli_defaults (8 :: nat)), samples)]"
    by (cases results) auto
  with r m show ?thesis by auto
qed

end
