(* ===== verification/GreedyBatch.thy ===== *)
theory GreedyBatch
  imports MockBackend EngineLive
begin

text \<open>
  The program's own models in the engine: the greedy draft and target models of \<open>backend.rs\<close>, each on a backend
  that answers steadily within its means, keep the promises the engine's batch relies on. The
  scripted backend of \<open>mock_backend.rs\<close> is such a backend as long as its script lasts.
\<close>

section \<open>Greedy models on steady backends\<close>

locale steady_backends =
  fixes mo :: "'m cfg_matcher" and dops :: "'d backend" and tops :: "'t backend"
    and nld nlt :: "token_id list \<Rightarrow> f32 list" and means_d means_t :: nat and inv_d :: "'d \<Rightarrow> bool" and inv_t :: "'t \<Rightarrow> bool"
  assumes steady_d: "inv_d d \<Longrightarrow> steady_on dops nld (\<lambda>ctx. length ctx < means_d) d"
    and steady_t: "inv_t t \<Longrightarrow> steady_on tops nlt (\<lambda>ctx. length ctx < means_t) t"
    and binds_d: "fst (b_bind_slot dops s d) = Ok ()" "fst (b_bind_prefix dops p d) = Ok ()"
      "inv_d d \<Longrightarrow> inv_d (snd (b_bind_slot dops s d))" "inv_d d \<Longrightarrow> inv_d (snd (b_bind_prefix dops p d))"
    and binds_t: "fst (b_bind_slot tops s t) = Ok ()" "fst (b_bind_prefix tops p t) = Ok ()"
      "inv_t t \<Longrightarrow> inv_t (snd (b_bind_slot tops s t))" "inv_t t \<Longrightarrow> inv_t (snd (b_bind_prefix tops p t))"

lemma judge_batch_None:
  assumes "length ms = length lss" "\<forall>m \<in> set ms. m = None"
  shows "judge_batch mo lss ms = (Ok (map (map (\<lambda>l. \<lparr>expected = token (greedy_sample l None)\<rparr>)) lss), ms)"
  using assms
proof (induction lss arbitrary: ms)
  case (Cons ls lss)
  then show ?case by (cases ms) (simp_all add: judge_logits_None)
qed simp

sublocale steady_backends \<subseteq> models: batch_models "\<lambda>m. m = None" "\<lambda>d t. inv_d d \<and> inv_t t"
  "\<lambda>ctx n. length ctx + n \<le> min means_d means_t" "next_token nlt" "greedy_draft_model mo dops" "greedy_target_model mo tops"
proof
  fix d t and ms :: "'m option list" and rs :: "(token_id list \<times> usize) list"
  assume inv: "inv_d d \<and> inv_t t" and len: "length ms = length rs" and none: "\<forall>m \<in> set ms. m = None"
    and fit: "\<forall>(ctx, n) \<in> set rs. 0 < n \<and> length ctx + n \<le> min means_d means_t"
  have "drafts_within mo nld (\<lambda>ctx. length ctx < means_d) rs ms"
    using fit by (fastforce simp: drafts_within_def dest: nth_mem)
  from greedy_draft_batch_on [OF _ len this, of dops d] steady_d inv
  have run: "d_draft_batch (greedy_draft_model mo dops) rs (ms, d) =
      (Ok (map (\<lambda>((ctx, n), m). fst (draft_of mo nld ctx m n)) (zip rs ms)),
       (map (\<lambda>((ctx, n), m). snd (draft_of mo nld ctx m n)) (zip rs ms), d))"
    by (simp add: greedy_draft_model_def)
  have "list_all2 (\<lambda>(ctx, n) ds. ds \<noteq> [] \<and> length ds \<le> n) rs (map (\<lambda>((ctx, n), m). fst (draft_of mo nld ctx m n)) (zip rs ms))"
  proof (rule list_all2_all_nthI)
    fix i assume i: "i < length rs"
    obtain ctx n where r: "rs ! i = (ctx, n)" by fastforce
    then have "0 < n" using fit i by (metis (no_types, lifting) case_prodD nth_mem)
    then have "fst (draft_of mo nld ctx (ms ! i) n) \<noteq> []" by (metis draft_of_length length_greater_0_conv)
    from r i len \<open>fst (draft_of mo nld ctx (ms ! i) n) \<noteq> []\<close>
    show "(case rs ! i of (ctx, n) \<Rightarrow> \<lambda>ds. ds \<noteq> [] \<and> length ds \<le> n)
        (map (\<lambda>((ctx, n), m). fst (draft_of mo nld ctx m n)) (zip rs ms) ! i)" by simp
  qed (simp add: len)
  with run inv show "\<exists>dss ms' d'. d_draft_batch (greedy_draft_model mo dops) rs (ms, d) = (Ok dss, (ms', d')) \<and> (inv_d d' \<and> inv_t t) \<and>
      list_all2 (\<lambda>(ctx, n) ds. ds \<noteq> [] \<and> length ds \<le> n) rs dss" by blast
next
  fix d t and ms :: "'m option list" and vs :: "(token_id list \<times> token_id list) list"
  assume inv: "inv_d d \<and> inv_t t" and len: "length ms = length vs" and none: "\<forall>m \<in> set ms. m = None"
    and fit: "\<forall>(ctx, ds) \<in> set vs. length ctx + length ds \<le> min means_d means_t"
  let ?logits = "map (\<lambda>(ctx, ds). map (\<lambda>k. nlt (ctx @ take k ds)) [0..<length ds]) vs"
  have "\<forall>(ctx, ds) \<in> set vs. \<forall>k < length ds. length (ctx @ take k ds) < means_t" using fit by fastforce
  then have "b_verify_logits_batch tops vs t = (Ok ?logits, t)" using steady_t inv by (simp add: steady_on_def)
  moreover have "map (map (\<lambda>l. \<lparr>expected = token (greedy_sample l None)\<rparr>)) ?logits = map (\<lambda>(ctx, ds). replies (next_token nlt) ctx ds) vs"
    by (auto simp: replies_def next_token_def)
  ultimately have "t_verify_batch (greedy_target_model mo tops) vs (ms, t) =
      (Ok (map (\<lambda>(ctx, ds). replies (next_token nlt) ctx ds) vs), (ms, t))"
    using judge_batch_None [of ms ?logits mo] len none
    by (simp add: greedy_target_model_def greedy_verify_batch_def Let_def)
  with inv none show "\<exists>ms' t'. t_verify_batch (greedy_target_model mo tops) vs (ms, t) =
      (Ok (map (\<lambda>(ctx, ds). replies (next_token nlt) ctx ds) vs), (ms', t')) \<and> (inv_d d \<and> inv_t t') \<and> (\<forall>m \<in> set ms'. m = None)" by blast
next
  fix d t x d1
  assume "inv_d d \<and> inv_t t" "d_bind_slot (greedy_draft_model mo dops) x d = (Ok (), d1)"
  then show "inv_d d1 \<and> inv_t t" using binds_d(3) [of d x] by (simp add: greedy_draft_model_def)
next
  fix d t x t1
  assume "inv_d d \<and> inv_t t" "t_bind_slot (greedy_target_model mo tops) x t = (Ok (), t1)"
  then show "inv_d d \<and> inv_t t1" using binds_t(3) [of t x] by (simp add: greedy_target_model_def)
next
  fix d t x d1
  assume "inv_d d \<and> inv_t t" "d_bind_prefix (greedy_draft_model mo dops) x d = (Ok (), d1)"
  then show "inv_d d1 \<and> inv_t t" using binds_d(4) [of d x] by (simp add: greedy_draft_model_def)
next
  fix d t x t1
  assume "inv_d d \<and> inv_t t" "t_bind_prefix (greedy_target_model mo tops) x t = (Ok (), t1)"
  then show "inv_d d \<and> inv_t t1" using binds_t(4) [of t x] by (simp add: greedy_target_model_def)
qed simp

context steady_backends begin

lemma binds: "binds_ok (greedy_draft_model mo dops) (greedy_target_model mo tops)"
  using binds_d(1,2) binds_t(1,2) by (simp add: binds_ok_def greedy_draft_model_def greedy_target_model_def)

lemma willing_short:
  assumes "br_constraint r = None" "length (br_prompt r) + br_max_new_tokens r \<le> min means_d means_t"
  shows "willing (\<lambda>m. m = None) (\<lambda>ctx n. length ctx + n \<le> min means_d means_t) (next_token nlt) r"
  using assms by (auto simp: willing_def means_def)

end

section \<open>The scripted backend\<close>

definition script_logits :: "token_id list \<Rightarrow> token_id list \<Rightarrow> f32 list" where
  "script_logits sc ctx = replicate (unat (sc ! length ctx)) 0 @ [f32_one]"

lemma next_token_script: "next_token (script_logits sc) ctx = sc ! length ctx"
  by (simp add: next_token_def script_logits_def greedy_one_hot)

lemma greedy_script:
  assumes "length p + n \<le> length sc"
  shows "greedy (next_token (script_logits sc)) p n = take n (drop (length p) sc)"
  using assms
proof (induction n arbitrary: p)
  case (Suc n)
  from Suc.IH [of "p @ [sc ! length p]"] Suc.prems show ?case
    by (simp add: next_token_script Cons_nth_drop_Suc [symmetric])
qed simp

lemma scripted_next: "scripted sc b \<Longrightarrow> length ctx < length sc \<Longrightarrow> mock_next_logits ctx b = (Ok (script_logits sc ctx), b)"
  by (simp add: mock_next_logits_def scripted_token one_hot_Ok script_logits_def)

lemma scripted_verify_logits:
  assumes "scripted sc b" "length ctx + length ds \<le> length sc"
  shows "mock_verify_logits ctx ds b = (Ok (map (\<lambda>k. script_logits sc (ctx @ take k ds)) [0..<length ds]), b)"
  unfolding mock_verify_logits_def
  using assms scripted_token [OF assms(1)] by (intro collect_map_same) (auto simp: one_hot_Ok script_logits_def)

lemma scripted_steady:
  assumes "scripted sc b"
  shows "steady_on mock_ops (script_logits sc) (\<lambda>ctx. length ctx < length sc) b"
  unfolding steady_on_def
proof (intro conjI allI impI)
  fix ctxs :: "token_id list list" assume "\<forall>ctx \<in> set ctxs. length ctx < length sc"
  then show "b_next_logits_batch mock_ops ctxs b = (Ok (map (script_logits sc) ctxs), b)"
    using scripted_next [OF assms] by (simp add: mock_ops_def next_logits_batch_default_def collect_map_same)
next
  fix rs :: "(token_id list \<times> token_id list) list"
  assume short: "\<forall>(ctx, ds) \<in> set rs. \<forall>k < length ds. length (ctx @ take k ds) < length sc"
  have "(case r of (ctx, ds) \<Rightarrow> mock_verify_logits ctx ds) b =
      (Ok (case r of (ctx, ds) \<Rightarrow> map (\<lambda>k. script_logits sc (ctx @ take k ds)) [0..<length ds]), b)" if r: "r \<in> set rs" for r
  proof (cases r)
    case (Pair ctx ds)
    show ?thesis
    proof (cases "ds = []")
      case True
      then show ?thesis by (simp add: Pair mock_verify_logits_def ret_def)
    next
      case False
      then have "length (ctx @ take (length ds - 1) ds) < length sc" using short r Pair by auto
      then have "length ctx + length ds \<le> length sc" using False by (cases ds) auto
      from scripted_verify_logits [OF assms this] show ?thesis by (simp add: Pair)
    qed
  qed
  then show "b_verify_logits_batch mock_ops rs b =
      (Ok (map (\<lambda>(ctx, ds). map (\<lambda>k. script_logits sc (ctx @ take k ds)) [0..<length ds]) rs), b)"
    by (simp add: mock_ops_def verify_logits_batch_default_def collect_map_same)
qed

interpretation mock: steady_backends mo mock_ops mock_ops "script_logits sc" "script_logits sc'" "length sc" "length sc'" "scripted sc" "scripted sc'"
  for mo :: "'m cfg_matcher" and sc sc' :: "token_id list"
  by unfold_locales (simp_all add: scripted_steady, simp_all add: mock_ops_def scripted_def)

end
