(* ===== verification/VeloSpec.thy ===== *)
theory VeloSpec
  imports TextParse GreedyBatch
begin

text \<open>
  The tool \<open>velo-spec\<close> (\<open>src/src/bin/velo-spec.rs\<close>): its command line and its run on scripted models (\<open>--mock\<close>), where
  the engine, the greedy models and the scripted backend meet. The run on the graphics unit is left out.
\<close>

section \<open>The command line\<close>

record spec_config =
  sc_target :: "string option"
  sc_draft :: "string option"
  sc_token_ids :: "token_id list"
  sc_max_new_tokens :: usize
  sc_draft_window :: usize
  sc_max_context :: usize
  sc_mock :: bool

definition spec_defaults :: spec_config where
  "spec_defaults =
     \<lparr>sc_target = None, sc_draft = None, sc_token_ids = [], sc_max_new_tokens = 32, sc_draft_window = 4, sc_max_context = 4096,
      sc_mock = False\<rparr>"

fun parse_spec_args :: "string list \<Rightarrow> spec_config \<Rightarrow> (string, spec_config) outcome" where
  "parse_spec_args [] c = Ok c"
| "parse_spec_args (a # rest) c =
     (if a = ''--target'' then
        (case rest of [] \<Rightarrow> Err ''--target requires a path'' | v # rest \<Rightarrow> parse_spec_args rest (c\<lparr>sc_target := Some v\<rparr>))
      else if a = ''--draft'' then
        (case rest of [] \<Rightarrow> Err ''--draft requires a path'' | v # rest \<Rightarrow> parse_spec_args rest (c\<lparr>sc_draft := Some v\<rparr>))
      else if a = ''--prompt'' then
        (case rest of
           [] \<Rightarrow> Err ''--prompt requires a value''
         | v # rest \<Rightarrow> parse_spec_args rest (c\<lparr>sc_token_ids := map (\<lambda>ch. of_nat (of_char ch)) v\<rparr>))
      else if a = ''--max-new'' then
        (case rest of
           [] \<Rightarrow> Err ''--max-new requires a value''
         | v # rest \<Rightarrow>
             bind_outcome (map_err (\<lambda>e. ''invalid max-new: '' @ int_error_text e) (parse_uint max64 v))
               (\<lambda>n. parse_spec_args rest (c\<lparr>sc_max_new_tokens := n\<rparr>)))
      else if a = ''--window'' then
        (case rest of
           [] \<Rightarrow> Err ''--window requires a value''
         | v # rest \<Rightarrow>
             bind_outcome (map_err (\<lambda>e. ''invalid window: '' @ int_error_text e) (parse_uint max64 v))
               (\<lambda>n. parse_spec_args rest (c\<lparr>sc_draft_window := n\<rparr>)))
      else if a = ''--mock'' then parse_spec_args rest (c\<lparr>sc_mock := True\<rparr>)
      else Err (''unknown arg: '' @ a))"

definition parse_spec :: "string list \<Rightarrow> (string, spec_config) outcome" where
  "parse_spec args = parse_spec_args (drop 1 args) spec_defaults"

section \<open>The run on scripted models\<close>

definition mock_script :: "token_id list" where
  "mock_script = map of_nat [0..<2048]"

definition mock_engine_config :: "spec_config \<Rightarrow> engine_config" where
  "mock_engine_config c =
     \<lparr>ec_draft_window = sc_draft_window c, ec_memory = runtime_config_with_kv_type Fp32 (runtime_config_cpu 4096 16 4096 32 32),
      ec_kv_type = Fp32\<rparr>"

text \<open>\<open>run_mock\<close>: the tokens it prints. Errors of the engine are unwrapped, so they panic. The batch loop has one turn
  more than there are tokens to generate.\<close>

definition run_mock :: "'m cfg_matcher \<Rightarrow> spec_config \<Rightarrow> (string, token_id list) outcome" where
  "run_mock mo c =
     (case engine_new (mock_engine_config c) :: (engine_error, (cpu_runtime, unit, 'm) engine) outcome of
        Ok e \<Rightarrow>
          (case fst (generate (Suc (sc_max_new_tokens c)) cpu_ops (greedy_draft_model mo mock_ops) (greedy_target_model mo mock_ops)
             (sc_token_ids c) (sc_max_new_tokens c) (e, mock_new mock_script, mock_new mock_script)) of
             Ok out \<Rightarrow> Ok (eo_tokens out)
           | _ \<Rightarrow> Panic)
      | _ \<Rightarrow> Panic)"

text \<open>\<open>on_gpu\<close> is the run with the models of the two files.\<close>

definition velo_spec ::
  "'m cfg_matcher \<Rightarrow> (spec_config \<Rightarrow> string \<Rightarrow> string \<Rightarrow> (string, token_id list) outcome) \<Rightarrow> string list \<Rightarrow> (string, token_id list) outcome" where
  "velo_spec mo on_gpu args =
     bind_outcome (parse_spec args) (\<lambda>c.
       if sc_mock c then run_mock mo c
       else
         case sc_target c of
           None \<Rightarrow> Err ''--target missing and --mock not specified''
         | Some target \<Rightarrow>
             (case sc_draft c of
                None \<Rightarrow> Err ''--draft missing and --mock not specified''
              | Some draft \<Rightarrow> on_gpu c target draft))"

section \<open>What the tool prints\<close>

definition mock_command :: "string \<Rightarrow> string \<Rightarrow> nat \<Rightarrow> nat \<Rightarrow> string list" where
  "mock_command prog p n w = [prog, ''--mock'', ''--prompt'', p, ''--max-new'', decimal n, ''--window'', decimal w]"

lemma parse_mock_command:
  assumes "n \<le> max64" "w \<le> max64"
  shows "parse_spec (mock_command prog p n w) =
    Ok \<lparr>sc_target = None, sc_draft = None, sc_token_ids = map (\<lambda>ch. of_nat (of_char ch)) p, sc_max_new_tokens = n,
        sc_draft_window = w, sc_max_context = 4096, sc_mock = True\<rparr>"
  using parse_decimal [OF assms(1)] parse_decimal [OF assms(2)]
  by (simp add: parse_spec_def mock_command_def spec_defaults_def)

lemma mock_engine:
  assumes "0 < sc_draft_window c" "sc_draft_window c * 2 \<le> max64"
  obtains e :: "(cpu_runtime, unit, 'm) engine" where "engine_new (mock_engine_config c) = Ok e"
    "eng_runtime e = \<lparr>rt_store = kv_new 4096,
      rt_allocator = page_manager_new \<lparr>block_size = 16, page_tokens = 16, total_pages = 4096, unified_memory = True, kv_type = Fp32\<rparr>\<rparr>"
    "eng_slots e = slot_pool_new 32"
  using assms
  by (simp add: mock_engine_config_def engine_new_def engine_with_runtime_def decoder_new_def cpu_runtime_new_def paged_config_new_def
      runtime_config_with_kv_type_def runtime_config_cpu_def runtime_config_new_def with_kv_type_def)

lemma run_mock_counts:
  fixes mo :: "'m cfg_matcher"
  assumes p: "sc_token_ids c \<noteq> []" and fit: "length (sc_token_ids c) + sc_max_new_tokens c \<le> 2048"
    and w: "0 < sc_draft_window c" "sc_draft_window c * 2 \<le> max64"
  shows "run_mock mo c = Ok (map of_nat [length (sc_token_ids c)..<length (sc_token_ids c) + sc_max_new_tokens c])"
proof -
  let ?p = "sc_token_ids c" and ?n = "sc_max_new_tokens c" and ?b = "mock_new mock_script"
  let ?r = "\<lparr>br_prompt = ?p, br_max_new_tokens = ?n, br_constraint = None\<rparr> :: unit batch_request"
  obtain e :: "(cpu_runtime, unit, 'm) engine" where e: "engine_new (mock_engine_config c) = Ok e"
    "eng_runtime e = \<lparr>rt_store = kv_new 4096,
      rt_allocator = page_manager_new \<lparr>block_size = 16, page_tokens = 16, total_pages = 4096, unified_memory = True, kv_type = Fp32\<rparr>\<rparr>"
    "eng_slots e = slot_pool_new 32" by (rule mock_engine [OF w])
  have sc: "length mock_script = 2048" by (simp add: mock_script_def)
  have "div_ceil k 16 \<le> 129" if "k \<le> 2048" for k using div_le_mono [OF that, of 16] by (simp add: div_ceil_def)
  then have pages: "div_ceil (length ?p) 16 \<le> 129" "div_ceil (length ?p + ?n) 16 \<le> 129" using fit by simp_all
  have slots: "unat (of_nat s :: slot_id) < 32" if "s < 32" for s using that by (simp add: unsigned_of_nat take_bit_eq_mod)
  have fits: "batch_fits e [?r]"
    using p fit pages slots
    by (auto simp: batch_fits_def e(2,3) available_slots_def slot_pool_new_def kv_new_def page_manager_new_def prompt_pages_def
        output_pages_def free_page_count_def max64_def)
  have will: "\<forall>r \<in> set [?r]. willing (\<lambda>m. m = None) (\<lambda>ctx n. length ctx + n \<le> min (length mock_script) (length mock_script))
      (next_token (script_logits mock_script)) r"
    using mock.willing_short [of ?r mock_script mock_script] fit sc by simp
  have inv: "scripted mock_script ?b \<and> scripted mock_script ?b" by (simp add: scripted_new)
  have fuel: "sum_list (map br_max_new_tokens [?r]) < Suc ?n" by simp
  from mock.models.generate_batch_served [OF cpu_sound_new(1) [OF e(1)] inv mock.binds will cpu_sound_new(2) [OF e(1)] fuel fits, of mo]
  obtain outs st where g: "generate_batch (Suc ?n) cpu_ops (greedy_draft_model mo mock_ops) (greedy_target_model mo mock_ops) [?r] (e, ?b, ?b) = (Ok outs, st)"
    "map eo_tokens outs = [greedy (next_token (script_logits mock_script)) ?p ?n]" by auto
  then obtain out where out: "outs = [out]" by (cases outs) auto
  have "take ?n (drop (length ?p) mock_script) = map of_nat [length ?p..<length ?p + ?n]"
    using fit by (simp add: mock_script_def drop_map take_map)
  with g out greedy_script [of ?p ?n mock_script] fit sc e(1) show ?thesis
    by (simp add: run_mock_def generate_def and_then_def ret_def)
qed

text \<open>C17. \<open>velo-spec --mock\<close> counts: with a prompt of at least one byte, a window of at least one token, and room in
  the script, the tool prints exactly the numbers after the length of the prompt, as many as were asked
  for. This runs the command line, a new engine, its caches and pages, the batch loop, and the greedy
  models on scripted backends together.\<close>

theorem velo_spec_mock:
  assumes "p \<noteq> []" "length p + n \<le> 2048" "0 < w" "w * 2 \<le> max64"
  shows "velo_spec mo on_gpu (mock_command prog p n w) = Ok (map of_nat [length p..<length p + n])"
proof -
  have "n \<le> max64" "w \<le> max64" using assms by (simp_all add: max64_def)
  from parse_mock_command [OF this] show ?thesis
    using run_mock_counts [where mo = mo] assms by (simp add: velo_spec_def)
qed

theorem velo_spec_mock_witness:
  "\<forall>(mo :: unit cfg_matcher) on_gpu. velo_spec mo on_gpu (mock_command ''velo-spec'' ''hi'' 3 4) = Ok [2, 3, 4]"
proof (intro allI)
  fix mo :: "unit cfg_matcher" and on_gpu
  have "velo_spec mo on_gpu (mock_command ''velo-spec'' ''hi'' 3 4) = Ok (map of_nat [length ''hi''..<length ''hi'' + 3])"
    by (rule velo_spec_mock) (simp_all add: max64_def)
  then show "velo_spec mo on_gpu (mock_command ''velo-spec'' ''hi'' 3 4) = Ok [2, 3, 4]" by (simp add: upt_rec)
qed

text \<open>Without a prompt, or with a window of zero, the error of the engine is unwrapped.\<close>

lemma run_mock_panics:
  assumes "sc_token_ids c = [] \<or> sc_draft_window c = 0"
  shows "run_mock (mo :: 'm cfg_matcher) c = Panic"
proof (cases "0 < sc_draft_window c \<and> sc_draft_window c * 2 \<le> max64")
  case True
  then obtain e :: "(cpu_runtime, unit, 'm) engine" where e: "engine_new (mock_engine_config c) = Ok e" "eng_slots e = slot_pool_new 32"
    using mock_engine by metis
  have "sc_token_ids c = []" using assms True by simp
  moreover obtain slot rest where "free_slots (eng_slots e) = slot # rest"
    by (simp add: e(2) slot_pool_new_def upt_rec [of 0])
  ultimately show ?thesis
    using generate_empty_prompt [OF cpu_sound_new(1) [OF e(1)], of slot rest "Suc (sc_max_new_tokens c)" "greedy_draft_model mo mock_ops"
        "greedy_target_model mo mock_ops" "sc_max_new_tokens c" "mock_new mock_script" "mock_new mock_script"] e(1)
    by (auto simp: run_mock_def)
next
  case False
  then have no: "decoder_new (sc_draft_window c) \<noteq> Ok dec" for dec by (auto simp: decoder_new_def)
  have "engine_new (mock_engine_config c) \<noteq> Ok (e :: (cpu_runtime, unit, 'm) engine)" for e
    by (auto simp: no engine_new_def engine_with_runtime_def mock_engine_config_def split: outcome.splits)
  then show ?thesis by (auto simp: run_mock_def split: outcome.splits)
qed

end
