(* ===== verification/MetalEngine.thy ===== *)
theory MetalEngine
  imports MetalBackend
begin

text \<open>
  The engine on the Metal backend (\<open>src/src/engine.rs\<close> with \<open>src/src/metal/backend.rs\<close>). The backend shares the
  runtime with the engine, so it may see it in any state; what is shown holds in all of them.
\<close>

section \<open>Reading logits\<close>

text \<open>What every state of the runtime has: live blocks have tokens, and mapped blocks have pages.\<close>

definition tokens_everywhere :: "metal_runtime \<Rightarrow> bool" where
  "tokens_everywhere r \<longleftrightarrow>
     (\<forall>h \<in> metal_live (mr_store r). 0 < token_len h) \<and>
     (\<forall>h span. materialize_span (mr_allocator r) h = Some span \<longrightarrow> span_pages span \<noteq> [])"

lemma metal_next_fails:
  assumes "tokens_everywhere r"
  shows "\<not> is_Ok (fst (metal_next_logits gpu r ctx b))"
proof
  assume "is_Ok (fst (metal_next_logits gpu r ctx b))"
  then obtain span is' where g: "prefix_span r b = Ok span"
    "block_indices (mr_store r) (mbc_paged_block_size (mbk_config b) * mbc_kv_bytes_per_token (mbk_config b)) (span_pages span) = Ok is'"
    by (auto simp: metal_next_logits_def Let_def split: outcome.splits if_splits)
  then have "span_pages span \<noteq> []"
    using assms by (auto simp: prefix_span_def tokens_everywhere_def split: option.splits)
  then obtain p ps where "span_pages span = p # ps" by (cases "span_pages span") auto
  with g(2) block_not_found [of "mr_store r"] assms show False by (simp add: tokens_everywhere_def)
qed

lemma metal_batch_fails:
  assumes "tokens_everywhere r" "ctxs \<noteq> []"
  shows "\<not> is_Ok (fst (b_next_logits_batch (metal_backend_ops gpu r) ctxs b))"
proof (cases ctxs)
  case (Cons ctx rest)
  then show ?thesis
    using metal_next_fails [OF assms(1), of gpu ctx b]
    by (auto simp: metal_backend_ops_def next_logits_batch_default_def and_then_def ret_def split: prod.splits outcome.splits)
qed (use assms in simp)

lemma metal_verify_fails:
  assumes "tokens_everywhere r"
  shows "\<not> is_Ok (fst (metal_verify_logits gpu r ctx ds b))"
proof
  assume "is_Ok (fst (metal_verify_logits gpu r ctx ds b))"
  then obtain span is' where g: "prefix_span r b = Ok span"
    "block_indices (mr_store r) (mbc_paged_block_size (mbk_config b) * mbc_kv_bytes_per_token (mbk_config b)) (span_pages span) = Ok is'"
    by (auto simp: metal_verify_logits_def Let_def split: outcome.splits if_splits)
  then have "span_pages span \<noteq> []"
    using assms by (auto simp: prefix_span_def tokens_everywhere_def split: option.splits)
  then obtain p ps where "span_pages span = p # ps" by (cases "span_pages span") auto
  with g(2) block_not_found [of "mr_store r"] assms show False by (simp add: tokens_everywhere_def)
qed

text \<open>The greedy target model verifies no batch that has a request in it.\<close>

lemma metal_verify_batch_fails:
  assumes "tokens_everywhere r" "rs \<noteq> []"
  shows "\<not> is_Ok (fst (greedy_verify_batch mo (metal_backend_ops gpu r) rs (ms, b)))"
proof (cases rs)
  case (Cons q rest)
  then show ?thesis
    using metal_verify_fails [OF assms(1), of gpu "fst q" "snd q" b]
    by (auto simp: greedy_verify_batch_def metal_backend_ops_def verify_logits_batch_default_def and_then_def split: prod.splits outcome.splits)
qed (use assms in simp)

section \<open>Drafting\<close>

lemma metal_draft_batch_fails:
  assumes "tokens_everywhere r" "(ctx, n) \<in> set rs" "0 < n"
  shows "\<not> is_Ok (fst (greedy_draft_batch mo (metal_backend_ops gpu r) rs (ms, b)))"
proof -
  let ?st = "\<lparr>bs_results = map (\<lambda>_. []) rs, bs_contexts = map fst rs, bs_matchers = ms\<rparr>"
  let ?act = "active_indices (map snd rs) (bs_results ?st)"
  obtain i where i: "i < length rs" "rs ! i = (ctx, n)" using assms(2) by (auto simp: in_set_conv_nth)
  with assms(3) have "i \<in> set ?act" by (simp add: active_indices_def)
  then have act: "?act \<noteq> []" by auto
  have "n \<le> foldr max (map snd rs) 0" using assms(2) by (induction rs) (auto simp: le_max_iff_disj)
  with assms(3) obtain m where m: "foldr max (map snd rs) 0 = Suc m" by (metis gr0_implies_Suc order_less_le_trans)
  obtain x b1 where x: "b_next_logits_batch (metal_backend_ops gpu r) (map (\<lambda>i. bs_contexts ?st ! i) ?act) b = (x, b1)" by fastforce
  moreover have "\<not> is_Ok x" using metal_batch_fails [OF assms(1), of _ gpu b] act x by (metis fst_conv map_is_Nil_conv)
  ultimately have "\<not> is_Ok (fst (draft_steps mo (metal_backend_ops gpu r) (map snd rs) (Suc m) (?st, b)))"
    using act by (cases x) (simp_all add: Let_def)
  then show ?thesis unfolding greedy_draft_batch_def m by (auto simp: Let_def is_Ok_iff split: prod.splits simp del: draft_steps.simps)
qed

section \<open>Generation\<close>

lemma draft_fails_batch_fails:
  assumes d: "\<And>rs ms d. \<exists>(ctx, n) \<in> set rs. 0 < n \<Longrightarrow> \<not> is_Ok (fst (d_draft_batch dm rs (ms, d)))"
    and w: "0 < dec_draft_window (eng_decoder e)" and q: "req \<in> set reqs" "0 < br_max_new_tokens req"
  shows "fst (generate_batch fuel rt dm tm reqs (e, d, t)) \<noteq> Ok outs"
proof
  assume ok: "fst (generate_batch fuel rt dm tm reqs (e, d, t)) = Ok outs"
  then obtain as e1 d1 t1 st where p: "prepare_all rt reqs e = (Ok as, e1)"
    and l: "batch_loop fuel dm tm (dec_draft_window (eng_decoder e1)) (as, d1, t1) = (Ok (), st)"
    by (auto simp: generate_batch_def split: prod.splits outcome.splits)
  note P = prepare_all_Ok [OF p]
  have "list_all2 (prepared (eng_decoder e)) reqs as" using P by simp
  then obtain a where a: "a \<in> set as" "prepared (eng_decoder e) req a"
    using q(1) by (metis in_set_conv_nth list_all2_conv_all_nth)
  then have want: "wants_more a" using q(2) by (simp add: wants_more_def prepared_def)
  then have ex: "list_ex wants_more as" using a(1) by (auto simp: list_ex_iff)
  let ?want = "filter wants_more as" and ?w = "dec_draft_window (eng_decoder e1)"
  let ?reqs = "map (\<lambda>a. (sess_context (ar_session a), min (ar_max_new_tokens a - length (ar_generated a)) ?w)) ?want"
  have "\<exists>(ctx, n) \<in> set ?reqs. 0 < n" using a(1) want w P by (force simp: wants_more_def)
  from d [OF this, of "map ar_matcher ?want" d1] have "\<not> is_Ok (fst (batch_round dm tm ?w (as, d1, t1)))"
    by (auto simp: batch_round_def Let_def split: prod.splits outcome.splits)
  with l ex show False by (cases fuel) (auto simp: and_then_def split: prod.splits outcome.splits)
qed

text \<open>On Metal no request is ever answered: with the program's greedy draft model on a Metal backend, in
  whatever state the runtime they share is, \<open>generate_batch\<close> never returns outputs when a request
  asks for a token. The backend insists on the pages of the bound prefix: the engine binds the
  prefix it found before it cached the prompt, so a fresh prompt has none, and the pages of a prefix that was
  found are looked up as blocks of length zero, which the store never holds.\<close>

lemma metal_never_generates:
  assumes "tokens_everywhere r" "0 < dec_draft_window (eng_decoder e)" "req \<in> set reqs" "0 < br_max_new_tokens req"
  shows "fst (generate_batch fuel rt (greedy_draft_model mo (metal_backend_ops gpu r)) tm reqs (e, d, t)) \<noteq> Ok outs"
proof (rule draft_fails_batch_fails [OF _ assms(2-4)])
  fix rs :: "(token_id list \<times> usize) list" and ms b
  assume "\<exists>(ctx, n) \<in> set rs. 0 < n"
  then obtain ctx n where "(ctx, n) \<in> set rs" "0 < n" by auto
  from metal_draft_batch_fails [OF assms(1) this]
  show "\<not> is_Ok (fst (d_draft_batch (greedy_draft_model mo (metal_backend_ops gpu r)) rs (ms, b)))"
    by (simp add: greedy_draft_model_def)
qed

lemma cached_runtime_everywhere: "tokens_everywhere cached_runtime"
  using cached_runtime_tokens
  by (auto simp: tokens_everywhere_def cached_runtime_def materialize_span_def bt_get_def split: if_splits option.splits)

theorem metal_never_generates_instance:
  "\<exists>e :: (metal_runtime, unit, unit) engine. engine_with_runtime small_config cached_runtime = Ok e \<and>
     (\<forall>idle outs. fst (generate_batch 9 metal_ops (greedy_draft_model idle (metal_backend_ops echo_gpu cached_runtime))
        (greedy_target_model idle (metal_backend_ops echo_gpu cached_runtime))
        [\<lparr>br_prompt = [7], br_max_new_tokens = 3, br_constraint = None\<rparr>]
        (e, wired_backend \<lparr>block_id = 1, token_len = 3\<rparr>, wired_backend \<lparr>block_id = 1, token_len = 3\<rparr>)) \<noteq> Ok outs)"
proof -
  obtain e :: "(metal_runtime, unit, unit) engine" where e: "engine_with_runtime small_config cached_runtime = Ok e"
    "0 < dec_draft_window (eng_decoder e)"
    by (simp add: engine_with_runtime_def small_config_def decoder_new_def max64_def)
  show ?thesis
    by (intro exI [of _ e] conjI e(1) allI, rule metal_never_generates [OF cached_runtime_everywhere e(2) list.set_intros(1)]) simp
qed

section \<open>The runtime of an engine that only prefills\<close>

text \<open>Every block has tokens and every mapping pages, whatever the keys they are filed under.\<close>

definition fed :: "metal_runtime \<Rightarrow> bool" where
  "fed r \<longleftrightarrow>
     (\<forall>k b. bt_get (ms_blocks (mr_store r)) k = Some b \<longrightarrow> 0 < token_len (mb_handle b)) \<and>
     (\<forall>k b. bt_get (mappings (mr_allocator r)) k = Some b \<longrightarrow> bm_pages b \<noteq> [])"

lemma fed_everywhere: "fed r \<Longrightarrow> tokens_everywhere r"
  by (auto simp: fed_def tokens_everywhere_def metal_live_def materialize_span_def)

lemma fed_new: "metal_runtime_new dev c = Ok r \<Longrightarrow> fed r"
  by (auto simp: metal_runtime_new_def fed_def metal_store_new_def page_manager_new_def Let_def split: if_splits)

lemma fed_allocate: "fed r \<Longrightarrow> 0 < n \<Longrightarrow> fed (snd (store_allocate metal_ops n r))"
  by (auto simp: metal_ops_def on_metal_store_def metal_allocate_def fed_def Let_def)

lemma fed_release: "fed r \<Longrightarrow> fed (snd (store_release metal_ops h r))"
  by (auto simp: metal_ops_def on_metal_store_def metal_release_block_def fed_def split: option.splits if_splits)

lemma fed_map:
  assumes "fed r" "0 < n"
  shows "fed (snd (pages_allocate metal_ops h n r))"
proof -
  let ?a = "mr_allocator r"
  have new: "bm_pages b \<noteq> []" if "page_allocate h n ?a = (x, a')" "bt_get (mappings a') k = Some b" for x a' k b
  proof (cases "0 < block_size (pm_config ?a) \<and> pages_for_tokens ?a n \<le> length (free_pages ?a)")
    case True
    have "n \<le> pages_for_tokens ?a n * block_size (pm_config ?a)" using div_ceil_bounds(1) True by (simp add: pages_for_tokens_def)
    then have "0 < pages_for_tokens ?a n" using assms(2) by (cases "pages_for_tokens ?a n") simp_all
    with that True assms(1) show ?thesis by (auto simp: page_allocate_eq Let_def fed_def split: if_splits)
  next
    case False
    then have "a' = ?a" using that(1) by (auto simp: page_allocate_def Let_def split: if_splits outcome.splits prod.splits)
    with that assms(1) show ?thesis by (auto simp: fed_def)
  qed
  obtain x a' where a: "page_allocate h n ?a = (x, a')" by fastforce
  with new [OF a] assms(1) show ?thesis by (auto simp: metal_ops_def on_metal_allocator_def fed_def)
qed

lemma fed_unmap: "fed r \<Longrightarrow> fed (snd (pages_release metal_ops h r))"
  by (auto simp: metal_ops_def on_metal_allocator_def page_release_def fed_def split: option.splits if_splits)

definition keeps_fed :: "((metal_runtime, 'j, 'm) engine, 'e, 'a) act \<Rightarrow> bool" where
  "keeps_fed m \<longleftrightarrow> (\<forall>e. fed (eng_runtime e) \<longrightarrow> fed (eng_runtime (snd (m e))))"

lemma keeps_fed_then: "keeps_fed m \<Longrightarrow> (\<And>a. keeps_fed (f a)) \<Longrightarrow> keeps_fed (and_then m f)"
  by (fastforce simp: keeps_fed_def and_then_def split: prod.splits outcome.splits)

lemma keeps_fed_else: "keeps_fed m \<Longrightarrow> (\<And>a. keeps_fed (f a)) \<Longrightarrow> keeps_fed (or_else m f)"
  by (fastforce simp: keeps_fed_def or_else_def split: prod.splits outcome.splits)

lemma keeps_fed_runtime: "(\<And>r. fed r \<Longrightarrow> fed (snd (m r))) \<Longrightarrow> keeps_fed (on_runtime conv m)"
  by (auto simp: keeps_fed_def on_runtime_def split: prod.splits) (metis snd_conv)

lemma keeps_fed_simple:
  "keeps_fed (on_cache m)" "keeps_fed (ret a)" "keeps_fed (throw err)" "keeps_fed (\<lambda>e. ret (g e) e)"
  by (auto simp: keeps_fed_def on_cache_def ret_def throw_def split: prod.splits)

lemma keeps_fed_option: "keeps_fed f \<Longrightarrow> (\<And>a. keeps_fed (g a)) \<Longrightarrow> keeps_fed (case x of None \<Rightarrow> f | Some a \<Rightarrow> g a)"
  by (cases x) simp_all

lemma keeps_fed_cache_sequence: "ts \<noteq> [] \<Longrightarrow> keeps_fed (cache_sequence metal_ops ts)"
  unfolding cache_sequence_def
  by (intro keeps_fed_then keeps_fed_else keeps_fed_runtime keeps_fed_option keeps_fed_simple)
    (auto intro: fed_allocate fed_release fed_map fed_unmap)

lemma keeps_fed_prefill: "keeps_fed (prefill metal_ops p)"
proof -
  have "keeps_fed (if p \<noteq> [] \<and> b then and_then (cache_sequence metal_ops p) (\<lambda>h. ret (Some h)) else ret None)" for b
    by (auto intro!: keeps_fed_then keeps_fed_cache_sequence keeps_fed_simple)
  then show ?thesis unfolding prefill_def by (intro keeps_fed_then keeps_fed_simple)
qed

end
