(* ===== verification/Hybrid.thy ===== *)
theory Hybrid
  imports PagedAttention QuantProps
begin

text \<open>
  Power and the matrix unit (\<open>src/src/power.rs\<close>, \<open>src/src/amx.rs\<close>): the governor picks precisions and a batch
  factor from the power draw and its budget, and the scheduler sends a product to the matrix unit of the processor
  or to the graphics unit. The draw is simulated in the source; a governor is modelled by the telemetry it
  reads. The products are the plain loops of the source in single precision.
\<close>

section \<open>Telemetry and governor\<close>

record smc_telemetry =
  budget_mw :: u32
  simulated_draw :: u32

definition smc_new :: "u32 \<Rightarrow> smc_telemetry" where
  "smc_new b = \<lparr>budget_mw = b, simulated_draw = 0\<rparr>"

definition set_simulated_draw :: "u32 \<Rightarrow> smc_telemetry \<Rightarrow> smc_telemetry" where
  "set_simulated_draw mw t = t\<lparr>simulated_draw := mw\<rparr>"

definition current_power_mw :: "smc_telemetry \<Rightarrow> u32" where
  "current_power_mw t = simulated_draw t"

definition power_budget_mw :: "smc_telemetry \<Rightarrow> u32" where
  "power_budget_mw t = budget_mw t"

datatype power_state = Performance | Balanced | Efficiency

datatype amx_precision = AmxFp32 | AmxBf16 | AmxFp16

text \<open>The literals \<open>0.90\<close>, \<open>0.70\<close>, \<open>0.8\<close>, \<open>0.1\<close> and \<open>0.5\<close> in single precision.\<close>

definition f32_0_9 :: f32 where "f32_0_9 = 0x3F666666"
definition f32_0_7 :: f32 where "f32_0_7 = 0x3F333333"
definition f32_0_8 :: f32 where "f32_0_8 = 0x3F4CCCCD"
definition f32_0_1 :: f32 where "f32_0_1 = 0x3DCCCCCD"
definition f32_0_5 :: f32 where "f32_0_5 = 0x3F000000"

definition utilization :: "smc_telemetry \<Rightarrow> f32" where
  "utilization t = f32_div (f32_of_int (uint (current_power_mw t))) (f32_of_int (uint (power_budget_mw t)))"

definition evaluate_state :: "smc_telemetry \<Rightarrow> power_state" where
  "evaluate_state t =
     (if f32_le f32_0_9 (utilization t) then Efficiency
      else if f32_le f32_0_7 (utilization t) then Balanced
      else Performance)"

definition adapt_kv_precision :: "smc_telemetry \<Rightarrow> kv_cache_type \<Rightarrow> kv_cache_type" where
  "adapt_kv_precision t current_type =
     (case evaluate_state t of Performance \<Rightarrow> Fp32 | Balanced \<Rightarrow> Fp8 | Efficiency \<Rightarrow> Int8)"

definition adapt_amx_precision :: "smc_telemetry \<Rightarrow> amx_precision" where
  "adapt_amx_precision t = (case evaluate_state t of Performance \<Rightarrow> AmxFp32 | Balanced \<Rightarrow> AmxBf16 | Efficiency \<Rightarrow> AmxFp16)"

definition batch_size_multiplier :: "smc_telemetry \<Rightarrow> f32" where
  "batch_size_multiplier t =
     (if f32_less f32_one (utilization t) then f32_0_1
      else if f32_less f32_0_8 (utilization t) then f32_0_5
      else f32_one)"

section \<open>The matrix unit\<close>

text \<open>\<open>AmxContext\<close> is whether the unit is there (on the processors it is written for).\<close>

fun inner_sum :: "f32 list \<Rightarrow> f32 list \<Rightarrow> nat \<Rightarrow> nat \<Rightarrow> nat \<Rightarrow> nat list \<Rightarrow> f32 \<Rightarrow> (string, f32) outcome" where
  "inner_sum a b row stride col [] acc = Ok acc"
| "inner_sum a b row stride col (q # qs) acc =
     (if length a \<le> row + q \<or> length b \<le> q * stride + col then Panic
      else inner_sum a b row stride col qs (f32_add acc (f32_mul (a ! (row + q)) (b ! (q * stride + col)))))"

fun amx_matvec_rows :: "f32 list \<Rightarrow> f32 list \<Rightarrow> usize \<Rightarrow> nat list \<Rightarrow> f32 list \<Rightarrow> (string, f32 list) outcome" where
  "amx_matvec_rows a x k [] y = Ok y"
| "amx_matvec_rows a x k (i # is') y =
     bind_outcome (inner_sum a x (i * k) 1 0 [0..<k] 0) (\<lambda>s.
       if length y \<le> i then Panic else amx_matvec_rows a x k is' (y[i := s]))"

definition amx_matvec :: "bool \<Rightarrow> f32 list \<Rightarrow> f32 list \<Rightarrow> f32 list \<Rightarrow> usize \<Rightarrow> usize \<Rightarrow> (string, f32 list) outcome" where
  "amx_matvec enabled a x y m k =
     (if \<not> enabled then Err ''AMX is not enabled on this architecture''
      else if max64 < m * k then Panic
      else if length a < m * k \<or> length x < k \<or> length y < m then Err ''Buffer sizes do not match dimensions''
      else amx_matvec_rows a x k [0..<m] y)"

fun amx_matmul_cells :: "f32 list \<Rightarrow> f32 list \<Rightarrow> usize \<Rightarrow> usize \<Rightarrow> (nat \<times> nat) list \<Rightarrow> f32 list \<Rightarrow> (string, f32 list) outcome" where
  "amx_matmul_cells a b k n [] c = Ok c"
| "amx_matmul_cells a b k n ((i, j) # ijs) c =
     bind_outcome (inner_sum a b (i * k) n j [0..<k] 0) (\<lambda>s.
       if length c \<le> i * n + j then Panic else amx_matmul_cells a b k n ijs (c[i * n + j := s]))"

definition amx_matmul :: "bool \<Rightarrow> f32 list \<Rightarrow> f32 list \<Rightarrow> f32 list \<Rightarrow> usize \<Rightarrow> usize \<Rightarrow> usize \<Rightarrow> (string, f32 list) outcome" where
  "amx_matmul enabled a b c m k n =
     (if \<not> enabled then Err ''AMX is not enabled on this architecture''
      else amx_matmul_cells a b k n (List.product [0..<m] [0..<n]) c)"

fun align_from :: "f32 list \<Rightarrow> nat \<Rightarrow> f32 list \<Rightarrow> ('e, f32 list) outcome" where
  "align_from [] i out = Ok out"
| "align_from (x # xs) i out = (if length out \<le> i then Panic else align_from xs (i + 1) (out[i := x AND 0xFFFF0000]))"

definition align_precision_bf16 :: "f32 list \<Rightarrow> f32 list \<Rightarrow> ('e, f32 list) outcome" where
  "align_precision_bf16 inp out = align_from inp 0 out"

section \<open>Routing\<close>

datatype dispatch_target = Amx | Metal

record hybrid_scheduler =
  hs_amx_enabled :: bool
  hs_threshold :: usize
  hs_precision :: amx_precision
  hs_governor :: "smc_telemetry option"

definition hybrid_new :: "bool \<Rightarrow> usize \<Rightarrow> amx_precision \<Rightarrow> hybrid_scheduler" where
  "hybrid_new enabled threshold precision =
     \<lparr>hs_amx_enabled = enabled, hs_threshold = threshold, hs_precision = precision, hs_governor = None\<rparr>"

definition with_governor :: "smc_telemetry \<Rightarrow> hybrid_scheduler \<Rightarrow> hybrid_scheduler" where
  "with_governor g h = h\<lparr>hs_governor := Some g\<rparr>"

text \<open>\<open>x as usize\<close>: towards zero, saturating, zero for a NaN.\<close>

definition f32_to_usize :: "f32 \<Rightarrow> usize" where
  "f32_to_usize x =
     (if f32_is_nan x \<or> f32_sign x then 0
      else if f32_is_inf x then max64
      else min (mag_units (f32_magnitude x) div 2 ^ 149) max64)"

definition route :: "usize \<Rightarrow> hybrid_scheduler \<Rightarrow> dispatch_target" where
  "route batch_size h =
     (let (batch, threshold) =
        (case hs_governor h of
           None \<Rightarrow> (batch_size, hs_threshold h)
         | Some g \<Rightarrow>
             (f32_to_usize (f32_mul (f32_of_int (int batch_size)) (batch_size_multiplier g)),
              if evaluate_state g = Efficiency then hs_threshold h div 2 else hs_threshold h))
      in if hs_amx_enabled h \<and> threshold \<le> batch then Amx else Metal)"

section \<open>Rounding is monotone\<close>

lemma bit_len_mono: "m \<le> n \<Longrightarrow> bit_len m \<le> bit_len n"
proof (cases "m = 0")
  case True
  then show ?thesis by (simp add: bit_len.simps [of 0])
next
  case False
  assume "m \<le> n"
  have m: "2 ^ (bit_len m - 1) \<le> m" "0 < bit_len m" using bit_len_bounds [of m] False by simp_all
  have n: "n < 2 ^ bit_len n" using bit_len_bounds [of n] False \<open>m \<le> n\<close> by simp
  have b: "2 ^ (bit_len m - 1) < (2 :: nat) ^ bit_len n" "0 < bit_len m" using m n \<open>m \<le> n\<close> by linarith+
  from b(1) have "bit_len m - 1 < bit_len n" by (rule power_less_imp_less_exp [rotated]) simp
  with b(2) show ?thesis by linarith
qed

lemma div_half_even_bounds: "n div d \<le> div_half_even n d" "div_half_even n d \<le> n div d + 1"
  by (simp_all add: div_half_even_def Let_def)

lemma div_half_even_mono:
  assumes "0 < d" "m \<le> n"
  shows "div_half_even m d \<le> div_half_even n d"
proof (cases "m div d = n div d")
  case True
  have "m mod d \<le> n mod d"
    using assms(2) True div_mult_mod_eq [of m d] div_mult_mod_eq [of n d] by (metis add_le_cancel_left)
  with True show ?thesis by (auto simp: div_half_even_def Let_def)
next
  case False
  then have "m div d + 1 \<le> n div d" using div_le_mono [OF assms(2), of d] by linarith
  with div_half_even_bounds [of m d] div_half_even_bounds [of n d] show ?thesis by linarith
qed

lemma round_mag_mono:
  assumes d: "0 < d" and le: "m \<le> n"
  shows "round_mag m d \<le> round_mag n d"
proof -
  define k where "k = bit_len (m div d) - 24"
  define l where "l = bit_len (n div d) - 24"
  have kl: "k \<le> l" using bit_len_mono [OF div_le_mono [OF le, of d]] by (simp add: k_def l_def)
  have "k * 2 ^ 23 + div_half_even m (d * 2 ^ k) \<le> l * 2 ^ 23 + div_half_even n (d * 2 ^ l)"
  proof (cases "k = l")
    case True
    with div_half_even_mono [of "d * 2 ^ l" m n] d le show ?thesis by simp
  next
    case False
    with kl have lt: "k + 1 \<le> l" by simp
    have "bit_len (m div d) \<le> k + 24" by (simp add: k_def)
    then have "m div d < 2 ^ (k + 24)"
    proof (cases "m div d = 0")
      case False
      then have "m div d < 2 ^ bit_len (m div d)" using bit_len_bounds by simp
      also have "\<dots> \<le> 2 ^ (k + 24)" using \<open>bit_len (m div d) \<le> k + 24\<close> by (rule power_increasing) simp
      finally show ?thesis .
    qed simp
    then have "m div d div 2 ^ k < 2 ^ 24" by (simp add: power_add less_mult_imp_div_less mult.commute)
    then have up: "div_half_even m (d * 2 ^ k) \<le> 2 ^ 24"
      using div_half_even_bounds(2) [of m "d * 2 ^ k"] by (simp add: div_mult2_eq)
    have pos: "0 < n div d" and big: "bit_len (n div d) - 1 = l + 23"
      using lt by (auto simp: l_def bit_len.simps [of 0] intro!: gr0I)
    have "2 ^ (l + 23) \<le> n div d" using bit_len_bounds [OF pos] big by simp
    then have "2 ^ 23 \<le> n div d div 2 ^ l" by (simp add: power_add less_eq_div_iff_mult_less_eq mult.commute)
    then have "2 ^ 23 \<le> div_half_even n (d * 2 ^ l)"
      using div_half_even_bounds(1) [of n "d * 2 ^ l"] by (simp add: div_mult2_eq)
    moreover have "k * 2 ^ 23 + 2 ^ 23 \<le> l * (2 ^ 23 :: nat)" using mult_le_mono1 [OF lt, of "2 ^ 23"] by simp
    ultimately show ?thesis using up by simp
  qed
  then show ?thesis unfolding round_mag_def Let_def k_def [symmetric] l_def [symmetric] by (rule min.mono) simp
qed

lemma mag_units_Suc: "mag_units m \<le> mag_units (Suc m)"
proof -
  let ?e = "m div 2 ^ 23" and ?f = "m mod 2 ^ 23"
  show ?thesis
  proof (cases "?f + 1 = 2 ^ 23")
    case True
    then have "Suc m div 2 ^ 23 = ?e + 1" "Suc m mod 2 ^ 23 = 0"
      using div_Suc [of m "2 ^ 23"] mod_Suc [of m "2 ^ 23"] by auto
    moreover have "?f \<le> 2 ^ 23" using True by linarith
    ultimately show ?thesis by (cases "?e") (auto simp: mag_units_def Let_def)
  next
    case False
    then have "Suc m div 2 ^ 23 = ?e" "Suc m mod 2 ^ 23 = ?f + 1"
      using div_Suc [of m "2 ^ 23"] mod_Suc [of m "2 ^ 23"] by (auto split: if_splits)
    then show ?thesis by (simp add: mag_units_def Let_def)
  qed
qed

lemma mag_units_mono: "m \<le> n \<Longrightarrow> mag_units m \<le> mag_units n"
  by (rule lift_Suc_mono_le [of mag_units]) (rule mag_units_Suc)

section \<open>More draw never means less throttling\<close>

definition count_mag :: "nat \<Rightarrow> nat" where
  "count_mag n = round_mag (n * 2 ^ 149) 1"

lemma count_mag_bounds: "n < 2 ^ 32 \<Longrightarrow> count_mag n \<le> 0x4F800000"
proof -
  assume n: "n < 2 ^ 32"
  have "count_mag n \<le> round_mag (2 ^ 181) 1"
    unfolding count_mag_def by (rule round_mag_mono) (use n in simp_all)
  also have "round_mag (2 ^ 181) 1 = 0x4F800000"
    by (simp add: round_mag_def div_half_even_def bit_len_unique [of 181] Let_def)
  finally show ?thesis .
qed

lemma count_mag_pos: "0 < n \<Longrightarrow> 0 < count_mag n"
proof -
  assume n: "0 < n"
  have "round_mag (2 ^ 149) 1 \<le> count_mag n"
    unfolding count_mag_def by (rule round_mag_mono) (use n in simp_all)
  moreover have "round_mag (2 ^ 149) 1 = 0x3F800000"
    by (simp add: round_mag_def div_half_even_def bit_len_unique [of 149] Let_def)
  ultimately show ?thesis by simp
qed

lemma f32_of_count: "n < 2 ^ 32 \<Longrightarrow> f32_of_int (int n) = f32_pack False (count_mag n)"
  by (simp add: f32_of_int_def f32_round_def count_mag_def)

definition util_mag :: "nat \<Rightarrow> nat \<Rightarrow> nat" where
  "util_mag d b = round_mag (mag_units (count_mag d) * 2 ^ 149) (mag_units (count_mag b))"

lemma utilization_eq:
  assumes "budget_mw t \<noteq> 0"
  shows "utilization t = f32_pack False (util_mag (unat (simulated_draw t)) (unat (budget_mw t)))"
proof -
  have lt: "unat w < 2 ^ 32" for w :: u32
  proof -
    have "unat w < 2 ^ LENGTH(32)" by (rule unsigned_less)
    then show ?thesis by simp
  qed
  have b: "0 < unat (budget_mw t)" using assms by (simp add: unat_gt_0)
  note m = magnitude_pack [of "count_mag (unat w)" False for w :: u32]
  have small: "count_mag (unat w) < 2 ^ 31" "count_mag (unat w) < 0x7f800000" for w :: u32
    using count_mag_bounds [OF lt [of w]] by simp_all
  have fin: "\<not> 0x7f800000 < count_mag (unat w)" "count_mag (unat w) \<noteq> 0x7f800000" for w :: u32
    using small(2) [of w] by simp_all
  have f: "f32_of_int (uint w) = f32_pack False (count_mag (unat w))" for w :: u32
    using f32_of_count [OF lt [of w]] by simp
  show ?thesis
    using m [OF small(1)] count_mag_pos [OF b]
    by (simp add: fin utilization_def current_power_mw_def power_budget_mw_def f f32_div_def f32_is_nan_def f32_is_inf_def f32_round_def
        util_mag_def)
qed

lemma mag_units_pos: "0 < m \<Longrightarrow> 0 < mag_units m"
proof -
  assume "0 < m"
  then have "mag_units 1 \<le> mag_units m" by (intro mag_units_mono) simp
  then show ?thesis by (simp add: mag_units_def)
qed

lemma util_mag_mono: "d \<le> d' \<Longrightarrow> 0 < b \<Longrightarrow> util_mag d b \<le> util_mag d' b"
  unfolding util_mag_def
  by (intro round_mag_mono mag_units_pos count_mag_pos mult_le_mono1 mag_units_mono) (simp_all add: count_mag_def round_mag_mono)

lemma round_mag_le: "round_mag n d \<le> 0x7f800000"
  by (simp add: round_mag_def Let_def)

lemma compare_packed:
  assumes "m \<le> 0x7f800000" "k < 0x7f800000" "c = f32_pack False k"
  shows "f32_le c (f32_pack False m) \<longleftrightarrow> k \<le> m" "f32_less c (f32_pack False m) \<longleftrightarrow> k < m"
  using magnitude_pack [of m False] magnitude_pack [of k False] assms
  by (simp_all add: f32_le_def f32_less_def f32_is_nan_def f32_key_def)

definition severity :: "power_state \<Rightarrow> nat" where
  "severity s = (case s of Performance \<Rightarrow> 0 | Balanced \<Rightarrow> 1 | Efficiency \<Rightarrow> 2)"

text \<open>The thresholds on the magnitude of the quotient.\<close>

lemma governor_thresholds:
  assumes "budget_mw t \<noteq> 0"
  defines "u \<equiv> util_mag (unat (simulated_draw t)) (unat (budget_mw t))"
  shows "severity (evaluate_state t) = (if 0x3F666666 \<le> u then 2 else if 0x3F333333 \<le> u then 1 else 0)"
    "batch_size_multiplier t = (if 0x3F800000 < u then f32_0_1 else if 0x3F4CCCCD < u then f32_0_5 else f32_one)"
proof -
  have u: "u \<le> 0x7f800000" unfolding u_def util_mag_def by (rule round_mag_le)
  note eq = utilization_eq [OF assms(1), folded u_def]
  have c: "f32_0_9 = f32_pack False 0x3F666666" "f32_0_7 = f32_pack False 0x3F333333" "f32_0_8 = f32_pack False 0x3F4CCCCD"
    "f32_one = f32_pack False 0x3F800000"
    by (simp_all add: f32_0_9_def f32_0_7_def f32_0_8_def f32_one_def f32_pack_def)
  show "severity (evaluate_state t) = (if 0x3F666666 \<le> u then 2 else if 0x3F333333 \<le> u then 1 else 0)"
    unfolding evaluate_state_def eq compare_packed(1) [OF u _ c(1), simplified] compare_packed(1) [OF u _ c(2), simplified]
    by (simp add: severity_def)
  show "batch_size_multiplier t = (if 0x3F800000 < u then f32_0_1 else if 0x3F4CCCCD < u then f32_0_5 else f32_one)"
    unfolding batch_size_multiplier_def eq compare_packed(2) [OF u _ c(3), simplified] compare_packed(2) [OF u _ c(4), simplified] ..
qed

text \<open>With the same budget, more draw never means a less severe state or a larger batch.\<close>

lemma throttling_monotone:
  assumes "budget_mw t' = budget_mw t" "budget_mw t \<noteq> 0" "simulated_draw t \<le> simulated_draw t'"
  shows "severity (evaluate_state t) \<le> severity (evaluate_state t')"
    "f32_le (batch_size_multiplier t') (batch_size_multiplier t)"
proof -
  have "util_mag (unat (simulated_draw t)) (unat (budget_mw t)) \<le> util_mag (unat (simulated_draw t')) (unat (budget_mw t'))"
    unfolding assms(1) by (rule util_mag_mono) (use assms in \<open>simp_all add: word_le_nat_alt unat_gt_0\<close>)
  note u = this
  have b': "budget_mw t' \<noteq> 0" using assms(1,2) by simp
  show "severity (evaluate_state t) \<le> severity (evaluate_state t')"
    using u unfolding governor_thresholds(1) [OF assms(2)] governor_thresholds(1) [OF b'] by simp
  show "f32_le (batch_size_multiplier t') (batch_size_multiplier t)"
    using u unfolding governor_thresholds(2) [OF assms(2)] governor_thresholds(2) [OF b']
    by (simp add: f32_le_def f32_is_nan_def f32_key_def f32_sign_def f32_magnitude_def f32_0_1_def f32_0_5_def f32_one_def)
qed

text \<open>Nothing over nothing is not a number: a governor with a budget of zero and no draw reports full performance.\<close>

lemma no_budget_no_draw: "evaluate_state (smc_new 0) = Performance \<and> batch_size_multiplier (smc_new 0) = f32_one"
  by (simp add: evaluate_state_def batch_size_multiplier_def utilization_def smc_new_def current_power_mw_def power_budget_mw_def
      f32_of_int_def f32_round_def round_mag_def div_half_even_def bit_len.simps [of 0] f32_pack_def f32_div_def f32_le_def f32_less_def
      f32_is_nan_def f32_is_inf_def f32_magnitude_def f32_sign_def f32_nan_def Let_def)

section \<open>Products\<close>

text \<open>The entry of the product, summed in the order of the loop.\<close>

definition entry :: "f32 list \<Rightarrow> f32 list \<Rightarrow> nat \<Rightarrow> nat \<Rightarrow> nat \<Rightarrow> nat \<Rightarrow> f32" where
  "entry a b k n i j = foldl (\<lambda>s q. f32_add s (f32_mul (a ! (i * k + q)) (b ! (q * n + j)))) 0 [0..<k]"

lemma inner_sum_Ok:
  assumes "\<forall>q \<in> set qs. row + q < length a \<and> q * stride + col < length b"
  shows "inner_sum a b row stride col qs acc = Ok (foldl (\<lambda>s q. f32_add s (f32_mul (a ! (row + q)) (b ! (q * stride + col)))) acc qs)"
  using assms by (induction qs arbitrary: acc) auto

lemma cell_bound: "i < m \<Longrightarrow> j < n \<Longrightarrow> i * n + j < m * (n :: nat)"
proof -
  assume "i < m" "j < n"
  then have "i * n + j < (i + 1) * n" "(i + 1) * n \<le> m * n" by (simp, intro mult_le_mono1) simp
  then show ?thesis by linarith
qed

lemma matmul_cells_Ok:
  assumes "\<forall>(i, j) \<in> set ijs. i < m \<and> j < n" "m * k \<le> length a" "k * n \<le> length b" "m * n \<le> length c"
  shows "amx_matmul_cells a b k n ijs c = Ok (foldl (\<lambda>c (i, j). c[i * n + j := entry a b k n i j]) c ijs)"
  using assms(1,4)
proof (induction ijs arbitrary: c)
  case (Cons ij ijs)
  obtain i j where ij: "ij = (i, j)" "i < m" "j < n" using Cons.prems(1) by (cases ij) auto
  have "inner_sum a b (i * k) n j [0..<k] 0 = Ok (entry a b k n i j)"
    unfolding entry_def
  proof (rule inner_sum_Ok, intro ballI conjI)
    fix q assume "q \<in> set [0..<k]"
    then show "i * k + q < length a" "q * n + j < length b"
      using cell_bound [OF ij(2), of q k] cell_bound [of q k j n] ij(3) assms(2,3) by auto
  qed
  with Cons ij cell_bound [OF ij(2,3)] show ?case by simp
qed simp

lemma foldl_update_nth:
  assumes "inj_on f (set xs)" "\<forall>x \<in> set xs. f x < length c"
  shows "(\<forall>x \<in> set xs. foldl (\<lambda>c x. c[f x := g x]) c xs ! f x = g x) \<and>
    (\<forall>k. k \<notin> f ` set xs \<longrightarrow> foldl (\<lambda>c x. c[f x := g x]) c xs ! k = c ! k) \<and> length (foldl (\<lambda>c x. c[f x := g x]) c xs) = length c"
  using assms
proof (induction xs rule: rev_induct)
  case (snoc x xs)
  then have IH: "\<forall>y \<in> set xs. foldl (\<lambda>c x. c[f x := g x]) c xs ! f y = g y"
    "\<forall>k. k \<notin> f ` set xs \<longrightarrow> foldl (\<lambda>c x. c[f x := g x]) c xs ! k = c ! k"
    "length (foldl (\<lambda>c x. c[f x := g x]) c xs) = length c" by (auto simp: inj_on_def)
  have "f y = f x \<Longrightarrow> g y = g x" if "y \<in> set xs" for y
    using snoc.prems(1) that by (auto simp: inj_on_def)
  with IH snoc.prems(2) show ?case by (auto simp: nth_list_update)
qed simp

text \<open>\<open>AmxContext::matmul\<close> writes the product into the first \<open>m * n\<close> places and leaves the rest.\<close>

lemma amx_matmul_correct:
  assumes "m * k \<le> length a" "k * n \<le> length b" "m * n \<le> length c"
  shows "\<exists>c'. amx_matmul True a b c m k n = Ok c' \<and> length c' = length c \<and>
    (\<forall>i < m. \<forall>j < n. c' ! (i * n + j) = entry a b k n i j) \<and> (\<forall>x. m * n \<le> x \<longrightarrow> c' ! x = c ! x)"
proof -
  let ?f = "\<lambda>(i, j). i * n + j" and ?g = "\<lambda>(i, j). entry a b k n i j" and ?ps = "List.product [0..<m] [0..<n]"
  have inj: "inj_on ?f (set ?ps)"
  proof (rule inj_onI, clarify)
    fix i j i' j' assume "(i, j) \<in> set ?ps" "(i', j') \<in> set ?ps" and eq: "i * n + j = i' * n + j'"
    then have lt: "j < n" "j' < n" by auto
    then have "i = i'" using eq by (metis div_mult_self3 div_less add.right_neutral gr_implies_not0)
    with eq show "i = i' \<and> j = j'" by simp
  qed
  have bound: "\<forall>x \<in> set ?ps. ?f x < length c" using cell_bound assms(3) by fastforce
  have run: "amx_matmul True a b c m k n = Ok (foldl (\<lambda>c x. c[?f x := ?g x]) c ?ps)"
    using matmul_cells_Ok [of ?ps m n k a b c] assms by (simp add: amx_matmul_def case_prod_unfold)
  have out: "x \<notin> ?f ` set ?ps" if "m * n \<le> x" for x using cell_bound that by fastforce
  show ?thesis
    using run foldl_update_nth [OF inj bound, of ?g] out by auto
qed

text \<open>The matrix-vector product is the product with a matrix of one column.\<close>

lemma amx_matvec_matmul:
  assumes "m * k \<le> max64" "m * k \<le> length a" "k \<le> length x" "m \<le> length y"
  shows "amx_matvec True a x y m k = amx_matmul True a x y m k 1"
proof -
  have "amx_matvec_rows a x k rows y = amx_matmul_cells a x k 1 (map (\<lambda>i. (i, 0)) rows) y" for rows y
  proof (induction rows arbitrary: y)
    case (Cons i rows)
    then show ?case by (cases "inner_sum a x (i * k) 1 0 [0..<k] 0") simp_all
  qed simp
  moreover have "List.product [0..<m] [0..<1] = map (\<lambda>i. (i, 0)) [0..<m]" by (induction m) (simp_all add: product_concat_map)
  ultimately show ?thesis using assms by (simp add: amx_matvec_def amx_matmul_def)
qed

section \<open>Alignment\<close>

lemma align_from_Ok:
  "i + length xs \<le> length out \<Longrightarrow>
   align_from xs i out = (Ok (take i out @ map (\<lambda>x. x AND 0xFFFF0000) xs @ drop (i + length xs) out) :: ('e, _) outcome)"
proof (induction xs arbitrary: i out)
  case (Cons x xs)
  have "take (i + 1) (out[i := x AND 0xFFFF0000]) = take i out @ [x AND 0xFFFF0000]"
    using Cons.prems by (simp add: take_Suc_conv_app_nth)
  with Cons.IH [of "i + 1" "out[i := x AND 0xFFFF0000]"] Cons.prems show ?case by simp
qed simp

text \<open>Aligning again changes nothing.\<close>

lemma align_idempotent:
  assumes "align_precision_bf16 xs out = (Ok ys :: ('e, _) outcome)" "length out = length xs"
  shows "align_precision_bf16 ys ys = (Ok ys :: ('e, _) outcome)"
proof -
  have "ys = map (\<lambda>x. x AND 0xFFFF0000) xs"
    using assms align_from_Ok [of 0 xs out, where 'e = 'e] by (simp add: align_precision_bf16_def)
  then show ?thesis
    using align_from_Ok [of 0 ys ys, where 'e = 'e] by (simp add: align_precision_bf16_def comp_def and.assoc)
qed

end
