(* ===== verification/GpuKernels.thy ===== *)
theory GpuKernels
  imports LlamaCpu
begin

text \<open>
  The kernels that run on the device (\<open>src/src/kernels.metal\<close>) and the memory they run on.

  The memory is the list of the Metal buffers, each a list of bytes; a buffer's place in the list names it. A
  call of a kernel carries what the host binds to its \<open>buffer(n)\<close> attributes, in their order. A \<open>uint\<close> of the
  kernels is a 32-bit word and wraps; an offset added to a pointer does not. What Metal leaves undefined,
  an access outside a buffer, a division by zero or more than 128 elements in the local accumulator of
  the attention kernels, is \<open>Panic\<close>: on a device such a kernel may well end, with contents that nothing defines, and the host
  reports no error. The threads of a grid run one after another; except in
  \<open>argmax\<close>, which synchronises its threads, no thread reads what another one writes as long as the output
  buffer is not an input. Arithmetic is IEEE single precision in the order it is written, with subnormals: that the
  compiler, run with Metal's default options, may fuse or reorder operations and flush subnormals to zero is not modelled, and \<open>exp\<close>, \<open>pow\<close>, \<open>sin\<close> and \<open>cos\<close> are the
  argument \<open>lm\<close>. The kernels \<open>softmax\<close> and \<open>matvec_lora_batched\<close> are never launched and left out.
\<close>

section \<open>Memory\<close>

type_synonym buf_id = nat
type_synonym gpu_mem = "u8 list list"

text \<open>The device's allocator clears a new buffer.\<close>

definition new_buffer :: "usize \<Rightarrow> gpu_mem \<Rightarrow> buf_id \<times> gpu_mem" where
  "new_buffer n m = (length m, m @ [replicate n 0])"

definition load8 :: "gpu_mem \<Rightarrow> buf_id \<Rightarrow> nat \<Rightarrow> ('e, u8) outcome" where
  "load8 m b i = (if b < length m \<and> i < length (m ! b) then Ok (m ! b ! i) else Panic)"

definition store8 :: "buf_id \<Rightarrow> nat \<Rightarrow> u8 \<Rightarrow> gpu_mem \<Rightarrow> ('e, gpu_mem) outcome" where
  "store8 b i v m = (if b < length m \<and> i < length (m ! b) then Ok (m[b := (m ! b)[i := v]]) else Panic)"

text \<open>A \<open>float\<close> or \<open>uint\<close> at a byte address.\<close>

definition load32_at :: "gpu_mem \<Rightarrow> buf_id \<Rightarrow> nat \<Rightarrow> ('e, u32) outcome" where
  "load32_at m b a =
     (if b < length m \<and> a + 4 \<le> length (m ! b) then Ok (of_nat (le_value (take 4 (drop a (m ! b))))) else Panic)"

definition store32_at :: "buf_id \<Rightarrow> nat \<Rightarrow> u32 \<Rightarrow> gpu_mem \<Rightarrow> ('e, gpu_mem) outcome" where
  "store32_at b a v m =
     (if b < length m \<and> a + 4 \<le> length (m ! b)
      then Ok (m[b := take a (m ! b) @ le_bytes 4 (unat v) @ drop (a + 4) (m ! b)]) else Panic)"

text \<open>Element \<open>i\<close> of a buffer of such values.\<close>

definition load32 :: "gpu_mem \<Rightarrow> buf_id \<Rightarrow> nat \<Rightarrow> ('e, u32) outcome" where
  "load32 m b i = load32_at m b (4 * i)"

definition store32 :: "buf_id \<Rightarrow> nat \<Rightarrow> u32 \<Rightarrow> gpu_mem \<Rightarrow> ('e, gpu_mem) outcome" where
  "store32 b i v m = store32_at b (4 * i) v m"

fun load_list :: "gpu_mem \<Rightarrow> buf_id \<Rightarrow> nat list \<Rightarrow> ('e, u32 list) outcome" where
  "load_list m b [] = Ok []"
| "load_list m b (i # is) =
     bind_outcome (load32 m b i) (\<lambda>v. bind_outcome (load_list m b is) (\<lambda>vs. Ok (v # vs)))"

text \<open>The bytes of an array of such values.\<close>

definition u32_bytes :: "u32 list \<Rightarrow> u8 list" where
  "u32_bytes vs = concat (map (\<lambda>v. le_bytes 4 (unat v)) vs)"

text \<open>A loop whose body may fail.\<close>

fun loop :: "('i \<Rightarrow> 's \<Rightarrow> ('e, 's) outcome) \<Rightarrow> 'i list \<Rightarrow> 's \<Rightarrow> ('e, 's) outcome" where
  "loop f [] s = Ok s"
| "loop f (i # is) s = bind_outcome (f i s) (loop f is)"

definition udiv :: "u32 \<Rightarrow> u32 \<Rightarrow> ('e, u32) outcome" where
  "udiv a b = (if b = 0 then Panic else Ok (a div b))"

definition f32_of_u32 :: "u32 \<Rightarrow> f32" where
  "f32_of_u32 n = f32_of_int (uint n)"

section \<open>Element-wise kernels, norms and rotations\<close>

definition embed_lookup_kernel :: "buf_id \<Rightarrow> buf_id \<Rightarrow> u32 \<Rightarrow> u32 \<Rightarrow> u32 \<Rightarrow> gpu_mem \<Rightarrow> ('e, gpu_mem) outcome" where
  "embed_lookup_kernel out w tok dim tpig m =
     (if dim \<le> tpig then Ok m
      else bind_outcome (load32 m w (unat (tok * dim + tpig))) (\<lambda>v. store32 out (unat tpig) v m))"

definition rms_norm_kernel :: "buf_id \<Rightarrow> buf_id \<Rightarrow> buf_id \<Rightarrow> f32 \<Rightarrow> u32 \<Rightarrow> u32 \<Rightarrow> gpu_mem \<Rightarrow> ('e, gpu_mem) outcome" where
  "rms_norm_kernel x_out x_in w eps dim tpig m =
     (if 1 \<le> tpig then Ok m
      else
        bind_outcome (load_list m x_in [0..<unat dim]) (\<lambda>xs.
        let ss = f32_sum (map (\<lambda>v. f32_mul v v) xs);
            scale = f32_div f32_one (f32_sqrt (f32_add (f32_div ss (f32_of_u32 dim)) eps))
        in loop (\<lambda>i m. bind_outcome (load32 m x_in i) (\<lambda>v. bind_outcome (load32 m w i) (\<lambda>g.
             store32 x_out i (f32_mul (f32_mul v scale) g) m))) [0..<unat dim] m))"

definition rotate_pair :: "buf_id \<Rightarrow> u32 \<Rightarrow> f32 \<Rightarrow> f32 \<Rightarrow> gpu_mem \<Rightarrow> ('e, gpu_mem) outcome" where
  "rotate_pair b i c s m =
     bind_outcome (load32 m b (unat i)) (\<lambda>x0.
     bind_outcome (load32 m b (unat (i + 1))) (\<lambda>x1.
     bind_outcome (store32 b (unat i) (f32_sub (f32_mul x0 c) (f32_mul x1 s)) m)
       (store32 b (unat (i + 1)) (f32_add (f32_mul x0 s) (f32_mul x1 c)))))"

definition rope_kernel :: "libm \<Rightarrow> buf_id \<Rightarrow> buf_id \<Rightarrow> u32 \<Rightarrow> u32 \<Rightarrow> f32 \<Rightarrow> u32 \<Rightarrow> gpu_mem \<Rightarrow> ('e, gpu_mem) outcome" where
  "rope_kernel lm q k pos head_dim freq_base tpig m =
     (if head_dim = 0 then Panic
      else
        let i = tpig * 2; h_dim_idx = i mod head_dim;
            theta = lm_powf lm freq_base (f32_div (f32_neg (f32_of_u32 h_dim_idx)) (f32_of_u32 head_dim));
            (sin_mt, cos_mt) = lm_sin_cos lm (f32_mul (f32_of_u32 pos) theta)
        in bind_outcome (rotate_pair q i cos_mt sin_mt m) (rotate_pair k i cos_mt sin_mt))"

definition silu_kernel :: "libm \<Rightarrow> buf_id \<Rightarrow> u32 \<Rightarrow> gpu_mem \<Rightarrow> ('e, gpu_mem) outcome" where
  "silu_kernel lm x tpig m =
     bind_outcome (load32 m x (unat tpig)) (\<lambda>v.
       store32 x (unat tpig) (f32_div v (f32_add f32_one (lm_exp lm (f32_neg v)))) m)"

definition vec_mul_kernel :: "buf_id \<Rightarrow> buf_id \<Rightarrow> u32 \<Rightarrow> gpu_mem \<Rightarrow> ('e, gpu_mem) outcome" where
  "vec_mul_kernel x y tpig m =
     bind_outcome (load32 m x (unat tpig)) (\<lambda>a. bind_outcome (load32 m y (unat tpig)) (\<lambda>b.
       store32 x (unat tpig) (f32_mul a b) m))"

definition vec_add_kernel :: "buf_id \<Rightarrow> buf_id \<Rightarrow> u32 \<Rightarrow> gpu_mem \<Rightarrow> ('e, gpu_mem) outcome" where
  "vec_add_kernel x y tpig m =
     bind_outcome (load32 m x (unat tpig)) (\<lambda>a. bind_outcome (load32 m y (unat tpig)) (\<lambda>b.
       store32 x (unat tpig) (f32_add a b) m))"

section \<open>Matrix by vector\<close>

text \<open>The sum of a row starts at zero and adds the products from left to right: \<open>dot\<close>.\<close>

definition matvec_f32_kernel :: "buf_id \<Rightarrow> buf_id \<Rightarrow> buf_id \<Rightarrow> u32 \<Rightarrow> u32 \<Rightarrow> u32 \<Rightarrow> gpu_mem \<Rightarrow> ('e, gpu_mem) outcome" where
  "matvec_f32_kernel out w x rows cols tpig m =
     (if rows \<le> tpig then Ok m
      else
        bind_outcome (load_list m w (map (\<lambda>c. unat (tpig * cols + of_nat c)) [0..<unat cols])) (\<lambda>ws.
        bind_outcome (load_list m x [0..<unat cols]) (\<lambda>xs.
          store32 out (unat tpig) (dot ws xs) m)))"

definition matvec_batched_f32_kernel ::
  "buf_id \<Rightarrow> buf_id \<Rightarrow> buf_id \<Rightarrow> u32 \<Rightarrow> u32 \<Rightarrow> u32 \<Rightarrow> u32 \<Rightarrow> gpu_mem \<Rightarrow> ('e, gpu_mem) outcome" where
  "matvec_batched_f32_kernel out w x rows cols row batch_idx m =
     (if rows \<le> row then Ok m
      else
        bind_outcome (load_list m w (map (\<lambda>c. unat (row * cols + of_nat c)) [0..<unat cols])) (\<lambda>ws.
        bind_outcome (load_list m x (map (\<lambda>c. unat (batch_idx * cols + of_nat c)) [0..<unat cols])) (\<lambda>xs.
          store32 out (unat (batch_idx * rows + row)) (dot ws xs) m)))"

text \<open>The weights of a row of 4-bit blocks: \<open>(float)delta * lo\<close> and \<open>(float)delta * hi\<close> of its bytes.\<close>

fun q4_0_bytes :: "gpu_mem \<Rightarrow> buf_id \<Rightarrow> f32 \<Rightarrow> nat list \<Rightarrow> ('e, f32 list) outcome" where
  "q4_0_bytes m w delta [] = Ok []"
| "q4_0_bytes m w delta (a # as) =
     bind_outcome (load8 m w a) (\<lambda>b. bind_outcome (q4_0_bytes m w delta as) (\<lambda>vs.
       Ok (f32_mul delta (f32_of_int (uint (low_nibble b) - 8)) # f32_mul delta (f32_of_int (uint (drop_bit 4 b) - 8)) # vs)))"

fun q4_0_blocks :: "gpu_mem \<Rightarrow> buf_id \<Rightarrow> u32 \<Rightarrow> nat list \<Rightarrow> ('e, f32 list) outcome" where
  "q4_0_blocks m w row_offset [] = Ok []"
| "q4_0_blocks m w row_offset (b # bs) =
     (let block_start = unat (row_offset + of_nat b * 18) in
      bind_outcome (load8 m w block_start) (\<lambda>d0. bind_outcome (load8 m w (block_start + 1)) (\<lambda>d1.
      bind_outcome (q4_0_bytes m w (f16_to_f32 (le_u16 d0 d1)) (map (\<lambda>i. block_start + 2 + i) [0..<16])) (\<lambda>vs.
      bind_outcome (q4_0_blocks m w row_offset bs) (\<lambda>rest. Ok (vs @ rest))))))"

definition matvec_q4_0_kernel :: "buf_id \<Rightarrow> buf_id \<Rightarrow> buf_id \<Rightarrow> u32 \<Rightarrow> u32 \<Rightarrow> u32 \<Rightarrow> gpu_mem \<Rightarrow> ('e, gpu_mem) outcome" where
  "matvec_q4_0_kernel out w x rows cols tpig m =
     (if rows \<le> tpig then Ok m
      else
        let n_blocks = cols div 32 in
        bind_outcome (q4_0_blocks m w (tpig * n_blocks * 18) [0..<unat n_blocks]) (\<lambda>ws.
        bind_outcome (load_list m x [0..<32 * unat n_blocks]) (\<lambda>xs.
          store32 out (unat tpig) (dot ws xs) m)))"

definition matvec_batched_q4_0_kernel ::
  "buf_id \<Rightarrow> buf_id \<Rightarrow> buf_id \<Rightarrow> u32 \<Rightarrow> u32 \<Rightarrow> u32 \<Rightarrow> u32 \<Rightarrow> gpu_mem \<Rightarrow> ('e, gpu_mem) outcome" where
  "matvec_batched_q4_0_kernel out w x rows cols row batch_idx m =
     (if rows \<le> row then Ok m
      else
        let n_blocks = cols div 32 in
        bind_outcome (q4_0_blocks m w (row * n_blocks * 18) [0..<unat n_blocks]) (\<lambda>ws.
        bind_outcome (load_list m x (map (\<lambda>c. unat (batch_idx * cols + of_nat c)) [0..<32 * unat n_blocks])) (\<lambda>xs.
          store32 out (unat (batch_idx * rows + row)) (dot ws xs) m)))"

section \<open>The paged cache\<close>

record kv_args =
  kva_k_cache :: buf_id
  kva_v_cache :: buf_id
  kva_k_in :: buf_id
  kva_v_in :: buf_id
  kva_slot :: u32
  kva_map :: buf_id
  kva_max_pages :: u32
  kva_block_size :: u32
  kva_n_head :: u32
  kva_head_dim :: u32
  kva_pos :: u32

text \<open>\<open>slot_mapping[slot_id * max_pages + t / block_size]\<close> and \<open>t % block_size\<close>.\<close>

definition page_of :: "gpu_mem \<Rightarrow> buf_id \<Rightarrow> u32 \<Rightarrow> u32 \<Rightarrow> u32 \<Rightarrow> u32 \<Rightarrow> ('e, u32 \<times> u32) outcome" where
  "page_of m mapping slot max_pages page_size t =
     bind_outcome (udiv t page_size) (\<lambda>page.
     bind_outcome (load32 m mapping (unat (slot * max_pages + page))) (\<lambda>block_idx. Ok (block_idx, t mod page_size)))"

definition kv_update_kernel :: "kv_args \<Rightarrow> u32 \<Rightarrow> gpu_mem \<Rightarrow> ('e, gpu_mem) outcome" where
  "kv_update_kernel a tpig m =
     bind_outcome (udiv tpig (kva_head_dim a)) (\<lambda>head_idx.
     let dim_idx = tpig mod kva_head_dim a in
     if kva_n_head a \<le> head_idx then Ok m
     else
       bind_outcome (page_of m (kva_map a) (kva_slot a) (kva_max_pages a) (kva_block_size a) (kva_pos a)) (\<lambda>(block_idx, token_in_block).
       let cache_offset = block_idx * kva_block_size a * kva_n_head a * kva_head_dim a + token_in_block * kva_n_head a * kva_head_dim a
             + head_idx * kva_head_dim a + dim_idx;
           in_offset = head_idx * kva_head_dim a + dim_idx
       in bind_outcome (load32 m (kva_k_in a) (unat in_offset)) (\<lambda>k.
          bind_outcome (store32 (kva_k_cache a) (unat cache_offset) k m) (\<lambda>m.
          bind_outcome (load32 m (kva_v_in a) (unat in_offset)) (\<lambda>v.
            store32 (kva_v_cache a) (unat cache_offset) v m)))))"

text \<open>\<open>(char)x\<close>: toward zero; outside the range of \<open>char\<close> it is undefined.\<close>

definition f32_to_i8 :: "f32 \<Rightarrow> ('e, u8) outcome" where
  "f32_to_i8 x =
     (let n = int (mag_units (f32_magnitude x) div 2 ^ 149); i = (if f32_sign x then - n else n) in
      if f32_is_nan x \<or> f32_is_inf x \<or> i < -128 \<or> 127 < i then Panic else Ok (of_int i))"

definition f32_abs :: "f32 \<Rightarrow> f32" where
  "f32_abs x = f32_pack False (f32_magnitude x)"

text \<open>Quantising one head into the cache: its values and then its scale. The source stores keys and values in
  the same loop, a byte of each in turn.\<close>

definition inv_scale :: "f32 \<Rightarrow> f32" where
  "inv_scale mx = (if f32_less 0 mx then f32_div (f32_of_int 127) mx else 0)"

definition store_quantised :: "kv_args \<Rightarrow> nat \<Rightarrow> f32 list \<Rightarrow> f32 list \<Rightarrow> f32 \<Rightarrow> f32 \<Rightarrow> nat \<Rightarrow> gpu_mem \<Rightarrow> ('e, gpu_mem) outcome" where
  "store_quantised a cache_offset ks vs k_max v_max n =
     loop (\<lambda>d m.
       bind_outcome (f32_to_i8 (f32_mul (ks ! d) (inv_scale k_max))) (\<lambda>kb.
       bind_outcome (store8 (kva_k_cache a) (cache_offset + d) kb m) (\<lambda>m.
       bind_outcome (f32_to_i8 (f32_mul (vs ! d) (inv_scale v_max))) (\<lambda>vb.
         store8 (kva_v_cache a) (cache_offset + d) vb m)))) [0..<n]"

definition kv_update_int8_kernel :: "kv_args \<Rightarrow> u32 \<Rightarrow> gpu_mem \<Rightarrow> ('e, gpu_mem) outcome" where
  "kv_update_int8_kernel a tpig m =
     (if kva_n_head a \<le> tpig then Ok m
      else
        bind_outcome (page_of m (kva_map a) (kva_slot a) (kva_max_pages a) (kva_block_size a) (kva_pos a)) (\<lambda>(block_idx, token_in_block).
        let head_bytes = kva_head_dim a + 4;
            cache_offset = unat (block_idx * kva_block_size a * kva_n_head a * head_bytes + token_in_block * kva_n_head a * head_bytes
              + tpig * head_bytes);
            in_offset = unat (tpig * kva_head_dim a);
            n = unat (kva_head_dim a)
        in bind_outcome (load_list m (kva_k_in a) (map ((+) in_offset) [0..<n])) (\<lambda>ks.
           bind_outcome (load_list m (kva_v_in a) (map ((+) in_offset) [0..<n])) (\<lambda>vs.
           let k_max = foldl (\<lambda>mx v. f32_max mx (f32_abs v)) 0 ks;
               v_max = foldl (\<lambda>mx v. f32_max mx (f32_abs v)) 0 vs
           in bind_outcome (store_quantised a cache_offset ks vs k_max v_max n m) (\<lambda>m.
              bind_outcome (store32_at (kva_k_cache a) (cache_offset + n) (f32_div k_max (f32_of_int 127)) m)
                (store32_at (kva_v_cache a) (cache_offset + n) (f32_div v_max (f32_of_int 127))))))))"

section \<open>Attention\<close>

record attn_args =
  aa_out :: buf_id
  aa_q :: buf_id
  aa_k_cache :: buf_id
  aa_v_cache :: buf_id
  aa_head_dim :: u32
  aa_n_ctx :: u32
  aa_pos :: u32
  aa_slot :: u32
  aa_map :: buf_id
  aa_max_pages :: u32
  aa_block_size :: u32
  aa_n_head_kv :: u32
  aa_n_head :: u32

text \<open>One turn of the online softmax: the running maximum, the denominator and the accumulator.\<close>

definition online_step :: "libm \<Rightarrow> f32 \<Rightarrow> f32 list \<Rightarrow> f32 list \<Rightarrow> f32 list \<Rightarrow> f32 \<times> f32 \<times> f32 list \<Rightarrow> f32 \<times> f32 \<times> f32 list" where
  "online_step lm inv_sqrt qs ks vs = (\<lambda>(mx, l, acc).
     let score = f32_mul (dot qs ks) inv_sqrt;
         mx1 = f32_max mx score;
         exp_score = lm_exp lm (f32_sub score mx1);
         exp_m_diff = lm_exp lm (f32_sub mx mx1)
     in (mx1, f32_add (f32_mul l exp_m_diff) exp_score,
         map2 (\<lambda>a v. f32_add (f32_mul a exp_m_diff) (f32_mul exp_score v)) acc vs))"

text \<open>The key or value row of a head at a position, from a cache of floats and from a cache of bytes with a scale.\<close>

definition cached_row :: "gpu_mem \<Rightarrow> buf_id \<Rightarrow> attn_args \<Rightarrow> u32 \<Rightarrow> u32 \<Rightarrow> u32 \<Rightarrow> ('e, f32 list) outcome" where
  "cached_row m cache a kv_head block_idx token_in_block =
     (let base = unat (block_idx * aa_block_size a * aa_n_head_kv a * aa_head_dim a)
            + unat (token_in_block * aa_n_head_kv a * aa_head_dim a) + unat (kv_head * aa_head_dim a)
      in load_list m cache (map ((+) base) [0..<unat (aa_head_dim a)]))"

fun load_i8 :: "gpu_mem \<Rightarrow> buf_id \<Rightarrow> f32 \<Rightarrow> nat list \<Rightarrow> ('e, f32 list) outcome" where
  "load_i8 m b scale [] = Ok []"
| "load_i8 m b scale (i # is) =
     bind_outcome (load8 m b i) (\<lambda>c. bind_outcome (load_i8 m b scale is) (\<lambda>vs.
       Ok (f32_mul (f32_of_int (sint c)) scale # vs)))"

definition cached_row_int8 :: "gpu_mem \<Rightarrow> buf_id \<Rightarrow> attn_args \<Rightarrow> u32 \<Rightarrow> u32 \<Rightarrow> u32 \<Rightarrow> ('e, f32 list) outcome" where
  "cached_row_int8 m cache a kv_head block_idx token_in_block =
     (let head_bytes = aa_head_dim a + 4; n = unat (aa_head_dim a);
          base = unat (block_idx * aa_block_size a * aa_n_head_kv a * head_bytes)
            + unat (token_in_block * aa_n_head_kv a * head_bytes) + unat (kv_head * head_bytes)
      in bind_outcome (load32_at m cache (base + n)) (\<lambda>scale. load_i8 m cache scale (map ((+) base) [0..<n])))"

definition attend_to ::
  "libm \<Rightarrow> (gpu_mem \<Rightarrow> buf_id \<Rightarrow> attn_args \<Rightarrow> u32 \<Rightarrow> u32 \<Rightarrow> u32 \<Rightarrow> ('e, f32 list) outcome) \<Rightarrow> gpu_mem \<Rightarrow> attn_args \<Rightarrow> u32 \<Rightarrow> f32 \<Rightarrow> nat
   \<Rightarrow> u32 \<Rightarrow> f32 \<times> f32 \<times> f32 list \<Rightarrow> ('e, f32 \<times> f32 \<times> f32 list) outcome" where
  "attend_to lm row m a kv_head inv_sqrt q_base t st =
     bind_outcome (page_of m (aa_map a) (aa_slot a) (aa_max_pages a) (aa_block_size a) t) (\<lambda>(block_idx, token_in_block).
     bind_outcome (load_list m (aa_q a) (map ((+) q_base) [0..<unat (aa_head_dim a)])) (\<lambda>qs.
     bind_outcome (row m (aa_k_cache a) a kv_head block_idx token_in_block) (\<lambda>ks.
     bind_outcome (row m (aa_v_cache a) a kv_head block_idx token_in_block) (\<lambda>vs.
       Ok (online_step lm inv_sqrt qs ks vs st)))))"

text \<open>\<open>acc[d] / l\<close> into the output.\<close>

definition finish_head :: "buf_id \<Rightarrow> nat \<Rightarrow> f32 \<times> f32 \<times> f32 list \<Rightarrow> gpu_mem \<Rightarrow> ('e, gpu_mem) outcome" where
  "finish_head out base = (\<lambda>(mx, l, acc). loop (\<lambda>d. store32 out (base + d) (f32_div (acc ! d) l)) [0..<length acc])"

text \<open>The key head of a query head; the accumulator has room for 128 elements.\<close>

definition kv_head_of :: "attn_args \<Rightarrow> u32 \<Rightarrow> ('e, u32) outcome" where
  "kv_head_of a head_idx =
     bind_outcome (udiv (aa_n_head a) (aa_n_head_kv a)) (\<lambda>group.
     bind_outcome (udiv head_idx group) (\<lambda>kv_head. if 128 < aa_head_dim a then Panic else Ok kv_head))"

definition no_attention :: "attn_args \<Rightarrow> f32 \<times> f32 \<times> f32 list" where
  "no_attention a = (f32_neg_inf, 0, replicate (unat (aa_head_dim a)) 0)"

definition inv_sqrt_dim :: "attn_args \<Rightarrow> f32" where
  "inv_sqrt_dim a = f32_div f32_one (f32_sqrt (f32_of_u32 (aa_head_dim a)))"

definition paged_attention_kernel ::
  "(gpu_mem \<Rightarrow> buf_id \<Rightarrow> attn_args \<Rightarrow> u32 \<Rightarrow> u32 \<Rightarrow> u32 \<Rightarrow> ('e, f32 list) outcome) \<Rightarrow> libm \<Rightarrow> attn_args \<Rightarrow> u32 \<Rightarrow> gpu_mem \<Rightarrow> ('e, gpu_mem) outcome" where
  "paged_attention_kernel row lm a head_idx m =
     (let base = unat (head_idx * aa_head_dim a) in
      bind_outcome (kv_head_of a head_idx) (\<lambda>kv_head.
      bind_outcome (loop (\<lambda>t. attend_to lm row m a kv_head (inv_sqrt_dim a) base (of_nat t)) [0..<unat (aa_pos a + 1)] (no_attention a)) (\<lambda>st.
        finish_head (aa_out a) base st m)))"

definition paged_attention_flash_kernel :: "libm \<Rightarrow> attn_args \<Rightarrow> u32 \<Rightarrow> gpu_mem \<Rightarrow> ('e, gpu_mem) outcome" where
  "paged_attention_flash_kernel = paged_attention_kernel cached_row"

definition paged_attention_flash_int8_kernel :: "libm \<Rightarrow> attn_args \<Rightarrow> u32 \<Rightarrow> gpu_mem \<Rightarrow> ('e, gpu_mem) outcome" where
  "paged_attention_flash_int8_kernel = paged_attention_kernel cached_row_int8"

text \<open>The tree kernel: the arguments of the attention with the size of the tree as \<open>aa_pos\<close>, the map of ancestors
  and its depth. The walk over the ancestors stops at the first \<open>-1\<close>.\<close>

fun attend_ancestors ::
  "libm \<Rightarrow> gpu_mem \<Rightarrow> attn_args \<Rightarrow> buf_id \<Rightarrow> u32 \<Rightarrow> u32 \<Rightarrow> u32 \<Rightarrow> nat \<Rightarrow> nat list \<Rightarrow> f32 \<times> f32 \<times> f32 list
   \<Rightarrow> ('e, f32 \<times> f32 \<times> f32 list) outcome" where
  "attend_ancestors lm m a anc max_depth node kv_head base [] st = Ok st"
| "attend_ancestors lm m a anc max_depth node kv_head base (d # ds) st =
     bind_outcome (load32 m anc (unat (node * max_depth + of_nat d))) (\<lambda>i.
       if i = -1 then Ok st
       else if i = node then attend_ancestors lm m a anc max_depth node kv_head base ds st
       else bind_outcome (attend_to lm cached_row m a kv_head (inv_sqrt_dim a) base (aa_n_ctx a + of_nat d) st)
              (attend_ancestors lm m a anc max_depth node kv_head base ds))"

definition paged_attention_tree_kernel ::
  "libm \<Rightarrow> attn_args \<Rightarrow> buf_id \<Rightarrow> u32 \<Rightarrow> u32 \<Rightarrow> u32 \<Rightarrow> gpu_mem \<Rightarrow> ('e, gpu_mem) outcome" where
  "paged_attention_tree_kernel lm a anc max_depth node head_idx m =
     (if aa_pos a \<le> node \<or> aa_n_head a \<le> head_idx then Ok m
      else
        let base = unat (node * aa_n_head a * aa_head_dim a) + unat (head_idx * aa_head_dim a) in
        bind_outcome (kv_head_of a head_idx) (\<lambda>kv_head.
        bind_outcome (loop (\<lambda>t. attend_to lm cached_row m a kv_head (inv_sqrt_dim a) base (of_nat t)) [0..<unat (aa_n_ctx a)] (no_attention a)) (\<lambda>st.
        bind_outcome (attend_ancestors lm m a anc max_depth node kv_head base [0..<unat max_depth] st) (\<lambda>st.
          finish_head (aa_out a) base st m))))"

section \<open>The largest logit\<close>

text \<open>One threadgroup of \<open>width\<close> threads. Every thread scans its positions, 1024 apart, from its own number on, in
  32 bits: the index wraps, and \<open>None\<close> is a scan that never leaves its loop. The kernel then has no
  result, like one that leaves its buffers. Then the 32 lanes of a
  simdgroup exchange their pairs. A lane without a neighbour at the offset keeps its own; what a lane that
  is not there would give is undefined and is the argument \<open>junk\<close>.\<close>

partial_function (option) scan_positions :: "u32 \<Rightarrow> u32 \<Rightarrow> u32 list option" where
  "scan_positions n i = (if i < n then Option.bind (scan_positions n (i + 1024)) (\<lambda>is. Some (i # is)) else Some [])"

definition better :: "f32 \<times> u32 \<Rightarrow> f32 \<times> u32 \<Rightarrow> f32 \<times> u32" where
  "better mine other = (if f32_less (fst mine) (fst other) then other else mine)"

definition scan_thread :: "gpu_mem \<Rightarrow> buf_id \<Rightarrow> u32 \<Rightarrow> nat \<Rightarrow> ('e, f32 \<times> u32) outcome" where
  "scan_thread m logits n tpig =
     (case scan_positions n (of_nat tpig) of
        None \<Rightarrow> Panic
      | Some is \<Rightarrow>
          loop (\<lambda>i best. bind_outcome (load32 m logits (unat i)) (\<lambda>v. Ok (better best (v, i)))) is (f32_neg_inf, 0))"

fun scan_threads :: "gpu_mem \<Rightarrow> buf_id \<Rightarrow> u32 \<Rightarrow> nat list \<Rightarrow> ('e, (f32 \<times> u32) list) outcome" where
  "scan_threads m logits n [] = Ok []"
| "scan_threads m logits n (t # ts) =
     bind_outcome (scan_thread m logits n t) (\<lambda>p. bind_outcome (scan_threads m logits n ts) (\<lambda>ps. Ok (p # ps)))"

definition shuffle_round :: "nat \<Rightarrow> (f32 \<times> u32) list \<Rightarrow> (f32 \<times> u32) list" where
  "shuffle_round d lanes = map (\<lambda>i. if i + d < 32 then better (lanes ! i) (lanes ! (i + d)) else better (lanes ! i) (lanes ! i)) [0..<32]"

definition simd_best :: "(nat \<Rightarrow> f32 \<times> u32) \<Rightarrow> (f32 \<times> u32) list \<Rightarrow> f32 \<times> u32" where
  "simd_best junk lanes = foldl (\<lambda>ls d. shuffle_round d ls) (lanes @ map junk [length lanes..<32]) [16, 8, 4, 2, 1] ! 0"

fun simd_groups :: "(f32 \<times> u32) list \<Rightarrow> (f32 \<times> u32) list list" where
  "simd_groups [] = []"
| "simd_groups (p # ps) = take 32 (p # ps) # simd_groups (drop 31 ps)"

definition argmax_kernel :: "(nat \<Rightarrow> f32 \<times> u32) \<Rightarrow> buf_id \<Rightarrow> buf_id \<Rightarrow> u32 \<Rightarrow> nat \<Rightarrow> gpu_mem \<Rightarrow> ('e, gpu_mem) outcome" where
  "argmax_kernel junk out logits n width m =
     bind_outcome (scan_threads m logits n [0..<width]) (\<lambda>ps.
       if width = 0 then Ok m
       else store32 out 0 (snd (foldl better (f32_neg_inf, 0) (map (simd_best junk) (simd_groups ps)))) m)"

section \<open>Running calls\<close>

text \<open>A kernel with the arguments bound to it, in the order of their indices.\<close>

datatype kernel_call =
    Embed_lookup buf_id buf_id u32 u32
  | Rms_norm buf_id buf_id buf_id f32 u32
  | Rope buf_id buf_id u32 u32 f32
  | Matvec_f32 buf_id buf_id buf_id u32 u32
  | Matvec_q4_0 buf_id buf_id buf_id u32 u32
  | Matvec_batched_f32 buf_id buf_id buf_id u32 u32
  | Matvec_batched_q4_0 buf_id buf_id buf_id u32 u32
  | Silu buf_id
  | Vec_mul buf_id buf_id
  | Vec_add buf_id buf_id
  | Kv_update kv_args
  | Kv_update_int8 kv_args
  | Paged_attention_flash attn_args
  | Paged_attention_flash_int8 attn_args
  | Paged_attention_tree attn_args buf_id u32
  | Argmax buf_id buf_id u32

fun call_name :: "kernel_call \<Rightarrow> string" where
  "call_name (Embed_lookup _ _ _ _) = ''embed_lookup''"
| "call_name (Rms_norm _ _ _ _ _) = ''rms_norm''"
| "call_name (Rope _ _ _ _ _) = ''rope''"
| "call_name (Matvec_f32 _ _ _ _ _) = ''matvec_f32''"
| "call_name (Matvec_q4_0 _ _ _ _ _) = ''matvec_q4_0''"
| "call_name (Matvec_batched_f32 _ _ _ _ _) = ''matvec_batched_f32''"
| "call_name (Matvec_batched_q4_0 _ _ _ _ _) = ''matvec_batched_q4_0''"
| "call_name (Silu _) = ''silu''"
| "call_name (Vec_mul _ _) = ''vec_mul''"
| "call_name (Vec_add _ _) = ''vec_add''"
| "call_name (Kv_update _) = ''kv_update''"
| "call_name (Kv_update_int8 _) = ''kv_update_int8''"
| "call_name (Paged_attention_flash _) = ''paged_attention_flash''"
| "call_name (Paged_attention_flash_int8 _) = ''paged_attention_flash_int8''"
| "call_name (Paged_attention_tree _ _ _) = ''paged_attention_tree''"
| "call_name (Argmax _ _ _) = ''argmax''"

text \<open>The thread at \<open>(x, y)\<close> of the grid.\<close>

fun run_thread :: "libm \<Rightarrow> kernel_call \<Rightarrow> u32 \<Rightarrow> u32 \<Rightarrow> gpu_mem \<Rightarrow> ('e, gpu_mem) outcome" where
  "run_thread lm (Embed_lookup out w tok dim) x y = embed_lookup_kernel out w tok dim x"
| "run_thread lm (Rms_norm out inp w eps dim) x y = rms_norm_kernel out inp w eps dim x"
| "run_thread lm (Rope q k pos dim base) x y = rope_kernel lm q k pos dim base x"
| "run_thread lm (Matvec_f32 out w v rows cols) x y = matvec_f32_kernel out w v rows cols x"
| "run_thread lm (Matvec_q4_0 out w v rows cols) x y = matvec_q4_0_kernel out w v rows cols x"
| "run_thread lm (Matvec_batched_f32 out w v rows cols) x y = matvec_batched_f32_kernel out w v rows cols x y"
| "run_thread lm (Matvec_batched_q4_0 out w v rows cols) x y = matvec_batched_q4_0_kernel out w v rows cols x y"
| "run_thread lm (Silu b) x y = silu_kernel lm b x"
| "run_thread lm (Vec_mul a b) x y = vec_mul_kernel a b x"
| "run_thread lm (Vec_add a b) x y = vec_add_kernel a b x"
| "run_thread lm (Kv_update a) x y = kv_update_kernel a x"
| "run_thread lm (Kv_update_int8 a) x y = kv_update_int8_kernel a x"
| "run_thread lm (Paged_attention_flash a) x y = paged_attention_flash_kernel lm a x"
| "run_thread lm (Paged_attention_flash_int8 a) x y = paged_attention_flash_int8_kernel lm a x"
| "run_thread lm (Paged_attention_tree a anc depth) x y = paged_attention_tree_kernel lm a anc depth x y"
| "run_thread lm (Argmax out logits n) x y = Ok"

text \<open>A dispatch: the call and the width and height of its grid. \<open>argmax\<close> is run by its one threadgroup as a whole.\<close>

record dispatch =
  dp_call :: kernel_call
  dp_width :: usize
  dp_height :: usize

definition run_threads :: "libm \<Rightarrow> kernel_call \<Rightarrow> usize \<Rightarrow> usize \<Rightarrow> gpu_mem \<Rightarrow> ('e, gpu_mem) outcome" where
  "run_threads lm call w h = loop (\<lambda>(y, x). run_thread lm call (of_nat x) (of_nat y)) (List.product [0..<h] [0..<w])"

definition run_dispatch :: "libm \<Rightarrow> (nat \<Rightarrow> f32 \<times> u32) \<Rightarrow> dispatch \<Rightarrow> gpu_mem \<Rightarrow> ('e, gpu_mem) outcome" where
  "run_dispatch lm junk d =
     (case dp_call d of
        Argmax out logits n \<Rightarrow> argmax_kernel junk out logits n (dp_width d)
      | call \<Rightarrow> run_threads lm call (dp_width d) (dp_height d))"

type_synonym command_buffer = "dispatch list"

text \<open>Committing a command buffer and waiting for it.\<close>

definition commit :: "libm \<Rightarrow> (nat \<Rightarrow> f32 \<times> u32) \<Rightarrow> command_buffer \<Rightarrow> gpu_mem \<Rightarrow> ('e, gpu_mem) outcome" where
  "commit lm junk = loop (run_dispatch lm junk)"

end
