(* ===== verification/Lora.thy ===== *)
theory Lora
  imports Numbers
begin

text \<open>
  The registry of low-rank adapters (\<open>src/src/lora.rs\<close>). The weights of an adapter are buffers of the Metal API and
  a type of the model; \<open>prefetch\<close> only reports the adapters that are not there.
\<close>

type_synonym adapter_id = u32

record lora_config =
  lora_r :: usize
  lora_alpha :: f32
  target_modules :: "string list"

record 'w lora_registry =
  adapters :: "adapter_id \<rightharpoonup> 'w"
  configs :: "adapter_id \<rightharpoonup> lora_config"

definition lora_new :: "'w lora_registry" where
  "lora_new = \<lparr>adapters = Map.empty, configs = Map.empty\<rparr>"

definition add_adapter :: "adapter_id \<Rightarrow> 'w \<Rightarrow> lora_config \<Rightarrow> 'w lora_registry \<Rightarrow> 'w lora_registry" where
  "add_adapter i w c r = r\<lparr>adapters := (adapters r)(i \<mapsto> w), configs := (configs r)(i \<mapsto> c)\<rparr>"

definition get_weights :: "adapter_id \<Rightarrow> 'w lora_registry \<Rightarrow> 'w option" where
  "get_weights i r = adapters r i"

definition get_config :: "adapter_id \<Rightarrow> 'w lora_registry \<Rightarrow> lora_config option" where
  "get_config i r = configs r i"

text \<open>The identifiers the call prints.\<close>

definition lora_prefetch :: "adapter_id list \<Rightarrow> 'w lora_registry \<Rightarrow> adapter_id list" where
  "lora_prefetch ids r = filter (\<lambda>i. adapters r i = None) ids"

definition evict_unused :: "adapter_id list \<Rightarrow> 'w lora_registry \<Rightarrow> 'w lora_registry" where
  "evict_unused active r =
     r\<lparr>adapters := (\<lambda>i. if i \<in> set active then adapters r i else None),
       configs := (\<lambda>i. if i \<in> set active then configs r i else None)\<rparr>"

text \<open>Weights and configurations are there for the same adapters, in every registry the operations can make.\<close>

inductive registry_reach :: "'w lora_registry \<Rightarrow> bool" where
  new: "registry_reach lora_new"
| add: "registry_reach r \<Longrightarrow> registry_reach (add_adapter i w c r)"
| evict: "registry_reach r \<Longrightarrow> registry_reach (evict_unused ids r)"

lemma dom_guarded: "dom (\<lambda>i. if i \<in> A then m i else None) = A \<inter> dom m"
  by (auto simp: dom_def)

lemma registry_paired:
  assumes "registry_reach r"
  shows "adapters r i = None \<longleftrightarrow> configs r i = None"
  using assms
  by (induction arbitrary: i rule: registry_reach.induct)
    (simp_all add: lora_new_def add_adapter_def evict_unused_def)

lemma evict_unused_get:
  "get_weights i (evict_unused ids r) = (if i \<in> set ids then get_weights i r else None)"
  "dom (adapters (evict_unused ids r)) \<subseteq> set ids"
  by (simp_all add: get_weights_def evict_unused_def dom_guarded)

end
