(* ===== verification/MetalModel.thy ===== *)
theory MetalModel
  imports GpuKernels Lora
begin

text \<open>
  The Llama model on Metal (\<open>src/src/metal/model.rs\<close>). The model keeps the compiled kernels by name, the weights and
  the scratch buffers by name; buffers are places in the memory of \<open>GpuKernels\<close>, which the model shares with
  its caller. A forward pass writes the embedding into memory at once and encodes everything else
  into a command buffer; committing it runs the kernels.

  What the device grants is the argument \<open>dev\<close>: which allocations succeed, and whether command buffers and
  encoders can be made. A missing kernel or encoder behind an \<open>unwrap\<close> panics, as does a copy from or to
  memory outside a buffer. An adapter's weights are buffers by name;
  \<open>dispatch_lora_batched\<close> is dead code that dispatches nothing and is left out.
\<close>

section \<open>The model\<close>

record gpu_device =
  gd_alloc :: "usize \<Rightarrow> bool"
  gd_command_buffers :: bool
  gd_encoders :: bool

text \<open>A device that grants everything.\<close>

definition open_device :: gpu_device where
  "open_device = \<lparr>gd_alloc = \<lambda>_. True, gd_command_buffers = True, gd_encoders = True\<rparr>"

record metal_model =
  gm_meta :: model_meta
  gm_pipelines :: "string list"
  gm_weights :: "(rust_string, buf_id) hash_map"
  gm_scratch :: "(string, buf_id) hash_map"
  gm_lora :: "(string, buf_id) hash_map lora_registry"

definition kernel_names :: "string list" where
  "kernel_names =
     [''matvec_f32'', ''matvec_q4_0'', ''rms_norm'', ''rope'', ''silu'', ''vec_mul'', ''softmax'', ''vec_add'', ''kv_update'',
      ''paged_attention_flash'', ''kv_update_int8'', ''paged_attention_flash_int8'', ''argmax'', ''matvec_batched_f32'',
      ''matvec_batched_q4_0'', ''paged_attention_tree'', ''matvec_lora_batched'', ''embed_lookup'']"

text \<open>\<open>compiles\<close>: whether the library has the function and the device makes a pipeline of it.\<close>

definition metal_model_new :: "model_meta \<Rightarrow> (string \<Rightarrow> bool) \<Rightarrow> metal_model" where
  "metal_model_new meta compiles =
     \<lparr>gm_meta = meta, gm_pipelines = filter compiles kernel_names, gm_weights = [], gm_scratch = [], gm_lora = lora_new\<rparr>"

type_synonym model_state = "metal_model \<times> gpu_mem"

definition get_scratch :: "gpu_device \<Rightarrow> string \<Rightarrow> usize \<Rightarrow> (model_state, spec_error, buf_id) act" where
  "get_scratch dev name n = (\<lambda>(g, m).
     let fresh = (if gd_alloc dev n
                  then (let (b, m1) = new_buffer n m in (Ok b, (g\<lparr>gm_scratch := hm_insert name b (gm_scratch g)\<rparr>, m1)))
                  else (Panic, (g, m)))
     in case map_of (gm_scratch g) name of
          Some b \<Rightarrow> if n \<le> length (m ! b) then (Ok b, (g, m)) else fresh
        | None \<Rightarrow> fresh)"

definition text_of :: "rust_string \<Rightarrow> string" where
  "text_of = map (\<lambda>b. char_of (unat b))"

fun upload_all :: "gpu_device \<Rightarrow> weight_store \<Rightarrow> rust_string list \<Rightarrow> (model_state, spec_error, unit) act" where
  "upload_all dev ws [] s = (Ok (), s)"
| "upload_all dev ws (name # names) s =
     (case weight_get ws name of
        Ok (Some bytes) \<Rightarrow>
          if gd_alloc dev (length bytes)
          then (let (g, m) = s; (b, m1) = new_buffer (length bytes) m in
                upload_all dev ws names (g\<lparr>gm_weights := hm_insert name b (gm_weights g)\<rparr>, m1[b := bytes]))
          else (Err (Model (''Failed to allocate GPU buffer for '' @ text_of name)), s)
      | Ok None \<Rightarrow> (Err (Model (''Missing weight data for '' @ text_of name)), s)
      | Err e \<Rightarrow> (Panic, s)
      | Panic \<Rightarrow> (Panic, s))"

definition upload_weights :: "gpu_device \<Rightarrow> weight_store \<Rightarrow> (model_state, spec_error, unit) act" where
  "upload_weights dev ws = upload_all dev ws (map fst (ws_index ws))"

section \<open>Encoding\<close>

text \<open>While a command buffer is encoded: the model, the memory, and what has been encoded.\<close>

type_synonym encoding = "metal_model \<times> gpu_mem \<times> command_buffer"

definition scratch :: "gpu_device \<Rightarrow> string \<Rightarrow> usize \<Rightarrow> (encoding, spec_error, buf_id) act" where
  "scratch dev name n = (\<lambda>(g, m, cb). let (r, g1, m1) = get_scratch dev name n (g, m) in (r, g1, m1, cb))"

definition with_meta :: "(model_meta \<Rightarrow> (encoding, 'e, 'a) act) \<Rightarrow> (encoding, 'e, 'a) act" where
  "with_meta f = (\<lambda>(g, m, cb). f (gm_meta g) (g, m, cb))"

definition if_weight :: "rust_string \<Rightarrow> (buf_id \<Rightarrow> (encoding, spec_error, unit) act) \<Rightarrow> (encoding, spec_error, unit) act" where
  "if_weight name f = (\<lambda>(g, m, cb). case map_of (gm_weights g) name of None \<Rightarrow> (Ok (), g, m, cb) | Some w \<Rightarrow> f w (g, m, cb))"

definition weight_or :: "('e, buf_id) outcome \<Rightarrow> rust_string \<Rightarrow> (encoding, 'e, buf_id) act" where
  "weight_or missing name = (\<lambda>(g, m, cb). (case map_of (gm_weights g) name of None \<Rightarrow> missing | Some w \<Rightarrow> Ok w, g, m, cb))"

text \<open>An encoder and a pipeline that are unwrapped.\<close>

definition emit :: "gpu_device \<Rightarrow> kernel_call \<Rightarrow> usize \<Rightarrow> usize \<Rightarrow> (encoding, spec_error, unit) act" where
  "emit dev call w h = (\<lambda>(g, m, cb).
     if \<not> gd_encoders dev \<or> call_name call \<notin> set (gm_pipelines g) then (Panic, g, m, cb)
     else (Ok (), g, m, cb @ [\<lparr>dp_call = call, dp_width = w, dp_height = h\<rparr>]))"

text \<open>A pipeline and an encoder whose absence is an error.\<close>

definition emit_or_err :: "gpu_device \<Rightarrow> string \<Rightarrow> kernel_call \<Rightarrow> usize \<Rightarrow> usize \<Rightarrow> (encoding, spec_error, unit) act" where
  "emit_or_err dev missing call w h = (\<lambda>(g, m, cb).
     if call_name call \<notin> set (gm_pipelines g) then (Err (Model missing), g, m, cb)
     else if \<not> gd_encoders dev then (Err (Model ''Failed to create command encoder''), g, m, cb)
     else (Ok (), g, m, cb @ [\<lparr>dp_call = call, dp_width = w, dp_height = h\<rparr>]))"

definition dispatch_rms_norm :: "gpu_device \<Rightarrow> buf_id \<Rightarrow> buf_id \<Rightarrow> buf_id \<Rightarrow> usize \<Rightarrow> (encoding, spec_error, unit) act" where
  "dispatch_rms_norm dev out inp w n = with_meta (\<lambda>meta. emit dev (Rms_norm out inp w (mm_norm_eps meta) (of_nat n)) n 1)"

definition dispatch_silu_mul :: "gpu_device \<Rightarrow> buf_id \<Rightarrow> buf_id \<Rightarrow> usize \<Rightarrow> (encoding, spec_error, unit) act" where
  "dispatch_silu_mul dev gate up n = and_then (emit dev (Silu gate) n 1) (\<lambda>_. emit dev (Vec_mul gate up) n 1)"

definition dispatch_matvec :: "gpu_device \<Rightarrow> buf_id \<Rightarrow> buf_id \<Rightarrow> buf_id \<Rightarrow> usize \<Rightarrow> usize \<Rightarrow> (encoding, spec_error, unit) act" where
  "dispatch_matvec dev out w x rows cols = with_meta (\<lambda>meta.
     let call = (if mm_quantization meta = Quant_Q4_0 then Matvec_q4_0 else Matvec_f32) out w x (of_nat rows) (of_nat cols)
     in emit_or_err dev (''Pipeline '' @ call_name call @ '' not found'') call rows 1)"

definition dispatch_matvec_batched ::
  "gpu_device \<Rightarrow> buf_id \<Rightarrow> buf_id \<Rightarrow> buf_id \<Rightarrow> usize \<Rightarrow> usize \<Rightarrow> usize \<Rightarrow> (encoding, spec_error, unit) act" where
  "dispatch_matvec_batched dev out w x rows cols batch_size = with_meta (\<lambda>meta.
     let call = (if mm_quantization meta = Quant_Q4_0 then Matvec_batched_q4_0 else Matvec_batched_f32) out w x (of_nat rows) (of_nat cols)
     in emit_or_err dev (''Pipeline '' @ call_name call @ '' not found'') call rows batch_size)"

text \<open>Where a pass finds the cache.\<close>

record kv_place =
  kp_slot :: slot_id
  kp_mapping :: buf_id
  kp_k_pool :: buf_id
  kp_v_pool :: buf_id
  kp_max_pages :: usize
  kp_block_size :: usize
  kp_type :: kv_cache_type

definition attn_args_of :: "model_meta \<Rightarrow> kv_place \<Rightarrow> buf_id \<Rightarrow> buf_id \<Rightarrow> usize \<Rightarrow> usize \<Rightarrow> attn_args" where
  "attn_args_of meta kp out q n_ctx pos =
     \<lparr>aa_out = out, aa_q = q, aa_k_cache = kp_k_pool kp, aa_v_cache = kp_v_pool kp, aa_head_dim = of_nat (mm_head_dim meta),
      aa_n_ctx = of_nat n_ctx, aa_pos = of_nat pos, aa_slot = kp_slot kp, aa_map = kp_mapping kp,
      aa_max_pages = of_nat (kp_max_pages kp), aa_block_size = of_nat (kp_block_size kp),
      aa_n_head_kv = of_nat (mm_n_head_kv meta), aa_n_head = of_nat (mm_n_head meta)\<rparr>"

definition dispatch_paged_attention :: "gpu_device \<Rightarrow> buf_id \<Rightarrow> buf_id \<Rightarrow> kv_place \<Rightarrow> usize \<Rightarrow> (encoding, spec_error, unit) act" where
  "dispatch_paged_attention dev out q kp pos = with_meta (\<lambda>meta.
     let args = attn_args_of meta kp out q (pos + 1) pos
     in emit dev ((if kp_type kp = Fp32 then Paged_attention_flash else Paged_attention_flash_int8) args) (mm_n_head meta) 1)"

definition kv_args_of :: "model_meta \<Rightarrow> kv_place \<Rightarrow> buf_id \<Rightarrow> buf_id \<Rightarrow> usize \<Rightarrow> kv_args" where
  "kv_args_of meta kp k v pos =
     \<lparr>kva_k_cache = kp_k_pool kp, kva_v_cache = kp_v_pool kp, kva_k_in = k, kva_v_in = v, kva_slot = kp_slot kp, kva_map = kp_mapping kp,
      kva_max_pages = of_nat (kp_max_pages kp), kva_block_size = of_nat (kp_block_size kp),
      kva_n_head = of_nat (mm_n_head_kv meta), kva_head_dim = of_nat (mm_head_dim meta), kva_pos = of_nat pos\<rparr>"

definition dispatch_kv_update :: "gpu_device \<Rightarrow> buf_id \<Rightarrow> buf_id \<Rightarrow> kv_place \<Rightarrow> usize \<Rightarrow> (encoding, spec_error, unit) act" where
  "dispatch_kv_update dev k v kp pos = with_meta (\<lambda>meta.
     let args = kv_args_of meta kp k v pos
     in if kp_type kp = Fp32
        then emit dev (Kv_update args) (mm_n_head_kv meta * mm_head_dim meta) 1
        else emit dev (Kv_update_int8 args) (mm_n_head_kv meta) 1)"

section \<open>The forward pass\<close>

text \<open>The projections of a layer into the buffers of queries, keys and values.\<close>

fun project_all :: "gpu_device \<Rightarrow> (buf_id \<Rightarrow> buf_id \<Rightarrow> buf_id \<Rightarrow> usize \<Rightarrow> usize \<Rightarrow> (encoding, spec_error, unit) act) \<Rightarrow> usize
   \<Rightarrow> buf_id \<Rightarrow> usize \<Rightarrow> (rust_string \<times> buf_id \<times> usize) list \<Rightarrow> (encoding, spec_error, unit) act" where
  "project_all dev mv l x cols [] = ret ()"
| "project_all dev mv l x cols ((name, buf, rows) # ps) =
     and_then (if_weight name (\<lambda>w. mv buf w x rows cols)) (\<lambda>_. project_all dev mv l x cols ps)"

definition pass_qkv :: "gpu_device \<Rightarrow> buf_id \<Rightarrow> usize \<Rightarrow> (encoding, spec_error, buf_id \<times> buf_id \<times> buf_id) act" where
  "pass_qkv dev hidden l = with_meta (\<lambda>meta.
     (let n_embd = mm_n_embd meta; kv_rows = mm_n_head_kv meta * mm_head_dim meta in
      and_then (if_weight (layer_name l ''attention_norm.weight'') (\<lambda>w. dispatch_rms_norm dev hidden hidden w n_embd)) (\<lambda>_.
      and_then (scratch dev ''q'' (n_embd * 4)) (\<lambda>q.
      and_then (scratch dev ''k'' (n_embd * 4)) (\<lambda>k.
      and_then (scratch dev ''v'' (n_embd * 4)) (\<lambda>v.
      and_then (project_all dev (dispatch_matvec dev) l hidden n_embd
          [(layer_name l ''attention.wq.weight'', q, n_embd), (layer_name l ''attention.wk.weight'', k, kv_rows),
           (layer_name l ''attention.wv.weight'', v, kv_rows)]) (\<lambda>_. ret (q, k, v))))))))"

definition dispatch_rope :: "gpu_device \<Rightarrow> buf_id \<Rightarrow> buf_id \<Rightarrow> usize \<Rightarrow> (encoding, spec_error, unit) act" where
  "dispatch_rope dev q k pos = with_meta (\<lambda>meta.
     emit dev (Rope q k (of_nat pos) (of_nat (mm_head_dim meta)) (mm_rope_freq_base meta))
       ((mm_n_head meta + mm_n_head_kv meta) * mm_head_dim meta div 2) 1)"

definition pass_attn_out :: "gpu_device \<Rightarrow> kv_place \<Rightarrow> usize \<Rightarrow> buf_id \<Rightarrow> usize \<Rightarrow> buf_id \<Rightarrow> (encoding, spec_error, unit) act" where
  "pass_attn_out dev kp pos hidden l q = with_meta (\<lambda>meta.
     (let n_embd = mm_n_embd meta in
      and_then (scratch dev ''attn_out'' (mm_n_head meta * mm_head_dim meta * 4)) (\<lambda>attn_out.
      and_then (dispatch_paged_attention dev attn_out q kp pos) (\<lambda>_.
      and_then (scratch dev ''attn_out_proj'' (n_embd * 4)) (\<lambda>attn_out_proj.
        if_weight (layer_name l ''attention.wo.weight'') (\<lambda>w.
          and_then (dispatch_matvec dev attn_out_proj w attn_out n_embd n_embd) (\<lambda>_.
            emit dev (Vec_add hidden attn_out_proj) n_embd 1)))))))"

definition pass_attention :: "gpu_device \<Rightarrow> kv_place \<Rightarrow> usize \<Rightarrow> buf_id \<Rightarrow> usize \<Rightarrow> (encoding, spec_error, unit) act" where
  "pass_attention dev kp pos hidden l =
     and_then (pass_qkv dev hidden l) (\<lambda>(q, k, v).
     and_then (dispatch_rope dev q k pos) (\<lambda>_.
     and_then (dispatch_kv_update dev k v kp pos) (\<lambda>_.
       pass_attn_out dev kp pos hidden l q)))"

definition pass_mlp :: "gpu_device \<Rightarrow> buf_id \<Rightarrow> usize \<Rightarrow> (encoding, spec_error, unit) act" where
  "pass_mlp dev hidden l = with_meta (\<lambda>meta.
     (let n_embd = mm_n_embd meta; n_ff = mm_n_ff meta in
      and_then (scratch dev ''mlp_in'' (n_embd * 4)) (\<lambda>mlp_in.
        if_weight (layer_name l ''ffn_norm.weight'') (\<lambda>w.
          and_then (dispatch_rms_norm dev mlp_in hidden w n_embd) (\<lambda>_.
          and_then (scratch dev ''mlp_gate'' (n_ff * 4)) (\<lambda>gate.
          and_then (scratch dev ''mlp_up'' (n_ff * 4)) (\<lambda>up.
          and_then (project_all dev (dispatch_matvec dev) l mlp_in n_embd
              [(layer_name l ''feed_forward.w1.weight'', gate, n_ff), (layer_name l ''feed_forward.w3.weight'', up, n_ff)]) (\<lambda>_.
          and_then (dispatch_silu_mul dev gate up n_ff) (\<lambda>_.
          and_then (scratch dev ''mlp_out'' (n_embd * 4)) (\<lambda>mlp_out.
            if_weight (layer_name l ''feed_forward.w2.weight'') (\<lambda>w2.
              and_then (dispatch_matvec dev mlp_out w2 gate n_embd n_ff) (\<lambda>_.
                emit dev (Vec_add hidden mlp_out) n_embd 1))))))))))))"

fun pass_layers :: "gpu_device \<Rightarrow> kv_place \<Rightarrow> usize \<Rightarrow> buf_id \<Rightarrow> usize list \<Rightarrow> (encoding, spec_error, unit) act" where
  "pass_layers dev kp pos hidden [] = ret ()"
| "pass_layers dev kp pos hidden (l # ls) =
     and_then (pass_attention dev kp pos hidden l) (\<lambda>_.
     and_then (pass_mlp dev hidden l) (\<lambda>_. pass_layers dev kp pos hidden ls))"

text \<open>\<open>copy_nonoverlapping\<close> of \<open>n\<close> floats between two buffers, from and to the given elements.\<close>

definition copy_floats :: "buf_id \<Rightarrow> nat \<Rightarrow> buf_id \<Rightarrow> nat \<Rightarrow> nat \<Rightarrow> gpu_mem \<Rightarrow> ('e, gpu_mem) outcome" where
  "copy_floats src i dst j n m =
     (if src < length m \<and> dst < length m \<and> 4 * (i + n) \<le> length (m ! src) \<and> 4 * (j + n) \<le> length (m ! dst)
      then Ok (m[dst := take (4 * j) (m ! dst) @ take (4 * n) (drop (4 * i) (m ! src)) @ drop (4 * (j + n)) (m ! dst)])
      else Panic)"

definition write_embeddings :: "buf_id \<Rightarrow> token_id list \<Rightarrow> (encoding, spec_error, unit) act" where
  "write_embeddings hidden toks = (\<lambda>(g, m, cb).
     case map_of (gm_weights g) (ascii ''token_embd.weight'') of
       None \<Rightarrow> (Ok (), g, m, cb)
     | Some w \<Rightarrow>
         (let n = mm_n_embd (gm_meta g) in
          case loop (\<lambda>(i, t). copy_floats w (unat t * n) hidden (i * n) n) (enumerate 0 toks) m of
            Ok m1 \<Rightarrow> (Ok (), g, m1, cb)
          | Err e \<Rightarrow> (Err e, g, m, cb)
          | Panic \<Rightarrow> (Panic, g, m, cb)))"

definition pass_head :: "gpu_device \<Rightarrow> buf_id \<Rightarrow> (encoding, spec_error, buf_id) act" where
  "pass_head dev hidden = with_meta (\<lambda>meta.
     (let n_embd = mm_n_embd meta; n_vocab = mm_n_vocab meta in
      and_then (if_weight (ascii ''output_norm.weight'') (\<lambda>w. dispatch_rms_norm dev hidden hidden w n_embd)) (\<lambda>_.
      and_then (scratch dev ''logits'' (n_vocab * 4)) (\<lambda>logits.
      and_then (if_weight (ascii ''output.weight'') (\<lambda>w. dispatch_matvec dev logits w hidden n_vocab n_embd)) (\<lambda>_.
        ret logits)))))"

text \<open>The encoded pass and the buffer its logits will be in.\<close>

definition encoded :: "gpu_device \<Rightarrow> (encoding, spec_error, buf_id) act \<Rightarrow> (model_state, spec_error, command_buffer \<times> buf_id) act" where
  "encoded dev f = (\<lambda>(g, m).
     if \<not> gd_command_buffers dev then (Err (Model ''Failed to create command buffer''), (g, m))
     else case f (g, m, []) of
            (Ok b, g1, m1, cb) \<Rightarrow> (Ok (cb, b), (g1, m1))
          | (Err e, g1, m1, cb) \<Rightarrow> (Err e, (g1, m1))
          | (Panic, g1, m1, cb) \<Rightarrow> (Panic, (g1, m1)))"

definition forward :: "gpu_device \<Rightarrow> token_id \<Rightarrow> usize \<Rightarrow> kv_place \<Rightarrow> (model_state, spec_error, command_buffer \<times> buf_id) act" where
  "forward dev tok pos kp = (\<lambda>(g, m).
     encoded dev
       (and_then (scratch dev ''hidden_state'' (mm_n_embd (gm_meta g) * 4)) (\<lambda>hidden.
        and_then (write_embeddings hidden [tok]) (\<lambda>_.
        and_then (pass_layers dev kp pos hidden [0..<mm_n_layer (gm_meta g)]) (\<lambda>_. pass_head dev hidden)))) (g, m))"

definition run :: "libm \<Rightarrow> (nat \<Rightarrow> f32 \<times> u32) \<Rightarrow> gpu_device \<Rightarrow> token_id \<Rightarrow> usize \<Rightarrow> kv_place \<Rightarrow> (model_state, spec_error, f32 list) act" where
  "run lm junk dev tok pos kp =
     and_then (forward dev tok pos kp) (\<lambda>(cb, logits) (g, m).
       case commit lm junk cb m of
         Ok m1 \<Rightarrow> (load_list m1 logits [0..<mm_n_vocab (gm_meta g)], (g, m1))
       | Err e \<Rightarrow> (Err e, (g, m))
       | Panic \<Rightarrow> (Panic, (g, m)))"

section \<open>Sampling on the device\<close>

definition sample_argmax :: "libm \<Rightarrow> (nat \<Rightarrow> f32 \<times> u32) \<Rightarrow> gpu_device \<Rightarrow> command_buffer \<Rightarrow> buf_id \<Rightarrow> (model_state, spec_error, u32) act" where
  "sample_argmax lm junk dev cb logits =
     and_then (get_scratch dev ''argmax_out'' 4) (\<lambda>out (g, m).
       let n_vocab = mm_n_vocab (gm_meta g); threads = min n_vocab 1024 in
       case emit_or_err dev ''Argmax pipeline not found'' (Argmax out logits (of_nat n_vocab)) threads 1 (g, m, cb) of
         (Ok _, g, m, cb1) \<Rightarrow>
           (case commit lm junk cb1 m of
              Ok m1 \<Rightarrow> (load32 m1 out 0, (g, m1))
            | Err e \<Rightarrow> (Err e, (g, m))
            | Panic \<Rightarrow> (Panic, (g, m)))
       | (Err e, g, m, cb1) \<Rightarrow> (Err e, (g, m))
       | (Panic, g, m, cb1) \<Rightarrow> (Panic, (g, m)))"

definition run_with_sampling :: "libm \<Rightarrow> (nat \<Rightarrow> f32 \<times> u32) \<Rightarrow> gpu_device \<Rightarrow> token_id \<Rightarrow> usize \<Rightarrow> kv_place \<Rightarrow> (model_state, spec_error, u32) act" where
  "run_with_sampling lm junk dev tok pos kp =
     and_then (forward dev tok pos kp) (\<lambda>(cb, logits). sample_argmax lm junk dev cb logits)"

section \<open>One layer of a tensor-parallel pass\<close>

definition missing :: "string \<Rightarrow> usize \<Rightarrow> (spec_error, buf_id) outcome" where
  "missing name l = Err (Model (''Missing '' @ name @ '' for layer '' @ decimal l))"

definition lscratch :: "usize \<Rightarrow> string \<Rightarrow> string" where
  "lscratch l name = ''l'' @ decimal l @ ''.'' @ name"

fun project_or_err :: "gpu_device \<Rightarrow> usize \<Rightarrow> buf_id \<Rightarrow> usize \<Rightarrow> (string \<times> buf_id \<times> usize) list \<Rightarrow> (encoding, spec_error, unit) act" where
  "project_or_err dev l x cols [] = ret ()"
| "project_or_err dev l x cols ((name, buf, rows) # ps) =
     and_then (weight_or (Err (Model (''Missing '' @ name @ ''.weight''))) (layer_name l (''attention.'' @ name @ ''.weight''))) (\<lambda>w.
     and_then (dispatch_matvec dev buf w x rows cols) (\<lambda>_. project_or_err dev l x cols ps))"

definition forward_layer :: "gpu_device \<Rightarrow> usize \<Rightarrow> buf_id \<Rightarrow> usize \<Rightarrow> kv_place \<Rightarrow> (encoding, spec_error, buf_id \<times> buf_id) act" where
  "forward_layer dev l hidden pos kp = with_meta (\<lambda>meta.
     (let n_embd = mm_n_embd meta; n_head = mm_n_head meta; n_head_kv = mm_n_head_kv meta; head_dim = mm_head_dim meta;
          n_ff = mm_n_ff meta in
      and_then (scratch dev (lscratch l ''attn_norm'') (n_embd * 4)) (\<lambda>attn_in.
      and_then (weight_or (missing ''attention_norm.weight'' l) (layer_name l ''attention_norm.weight'')) (\<lambda>norm_w.
      and_then (dispatch_rms_norm dev attn_in hidden norm_w n_embd) (\<lambda>_.
      and_then (scratch dev (lscratch l ''q'') (n_head * head_dim * 4)) (\<lambda>q.
      and_then (scratch dev (lscratch l ''k'') (n_head_kv * head_dim * 4)) (\<lambda>k.
      and_then (scratch dev (lscratch l ''v'') (n_head_kv * head_dim * 4)) (\<lambda>v.
      and_then (project_or_err dev l attn_in n_embd
          [(''wq'', q, n_head * head_dim), (''wk'', k, n_head_kv * head_dim), (''wv'', v, n_head_kv * head_dim)]) (\<lambda>_.
      and_then (scratch dev (lscratch l ''attn_out'') (n_head * head_dim * 4)) (\<lambda>attn_out.
      and_then (dispatch_paged_attention dev attn_out q kp pos) (\<lambda>_.
      and_then (scratch dev (lscratch l ''attn_out_proj'') (n_embd * 4)) (\<lambda>attn_out_proj.
      and_then (weight_or (missing ''wo.weight'' l) (layer_name l ''attention.wo.weight'')) (\<lambda>wo.
      and_then (dispatch_matvec dev attn_out_proj wo attn_out n_embd (n_head * head_dim)) (\<lambda>_.
      and_then (scratch dev (lscratch l ''ffn_norm'') (n_embd * 4)) (\<lambda>mlp_in.
      and_then (weight_or (missing ''ffn_norm.weight'' l) (layer_name l ''ffn_norm.weight'')) (\<lambda>ffn_norm_w.
      and_then (dispatch_rms_norm dev mlp_in hidden ffn_norm_w n_embd) (\<lambda>_.
      and_then (scratch dev (lscratch l ''gate'') (n_ff * 4)) (\<lambda>gate.
      and_then (scratch dev (lscratch l ''up'') (n_ff * 4)) (\<lambda>up.
      and_then (weight_or Panic (layer_name l ''feed_forward.w1.weight'')) (\<lambda>w1.
      and_then (weight_or Panic (layer_name l ''feed_forward.w3.weight'')) (\<lambda>w3.
      and_then (dispatch_matvec dev gate w1 mlp_in n_ff n_embd) (\<lambda>_.
      and_then (dispatch_matvec dev up w3 mlp_in n_ff n_embd) (\<lambda>_.
      and_then (dispatch_silu_mul dev gate up n_ff) (\<lambda>_.
      and_then (scratch dev (lscratch l ''mlp_out'') (n_embd * 4)) (\<lambda>mlp_out.
      and_then (weight_or Panic (layer_name l ''feed_forward.w2.weight'')) (\<lambda>w2.
      and_then (dispatch_matvec dev mlp_out w2 gate n_embd n_ff) (\<lambda>_.
        ret (attn_out_proj, mlp_out))))))))))))))))))))))))))))"

section \<open>The pass over a tree of drafts\<close>

text \<open>The way from a node up to the root; one that visits more nodes than there are would never end.\<close>

fun climb :: "nat \<Rightarrow> spec_tree \<Rightarrow> nat \<Rightarrow> ('e, nat list) outcome" where
  "climb 0 tree i = Panic"
| "climb (Suc fuel) tree i =
     (if length tree \<le> i then Panic
      else case node_parent (tree ! i) of
             None \<Rightarrow> Ok [i]
           | Some p \<Rightarrow> bind_outcome (climb fuel tree p) (\<lambda>path. Ok (i # path)))"

definition max_tree_depth :: nat where "max_tree_depth = 16"

text \<open>A row of the ancestors' map: the path from the root to the node, cut to the depth and filled with \<open>-1\<close>.\<close>

definition ancestors_row :: "nat list \<Rightarrow> u32 list" where
  "ancestors_row path = overwrite (map of_nat (take max_tree_depth path)) (replicate max_tree_depth (-1))"

fun ancestors_rows :: "spec_tree \<Rightarrow> nat list \<Rightarrow> ('e, u32 list) outcome" where
  "ancestors_rows tree [] = Ok []"
| "ancestors_rows tree (i # is) =
     bind_outcome (climb (length tree) tree i) (\<lambda>path. bind_outcome (ancestors_rows tree is) (\<lambda>rest. Ok (ancestors_row (rev path) @ rest)))"

definition ancestors_data :: "spec_tree \<Rightarrow> ('e, u32 list) outcome" where
  "ancestors_data tree = ancestors_rows tree [0..<length tree]"

definition upload_ancestors :: "gpu_device \<Rightarrow> spec_tree \<Rightarrow> (encoding, spec_error, buf_id) act" where
  "upload_ancestors dev tree = (\<lambda>(g, m, cb).
     case ancestors_data tree of
       Ok vs \<Rightarrow> if gd_alloc dev (length vs * 4) then (Ok (length m), g, m @ [u32_bytes vs], cb) else (Panic, g, m, cb)
     | Err e \<Rightarrow> (Err e, g, m, cb)
     | Panic \<Rightarrow> (Panic, g, m, cb))"

definition tree_layer :: "gpu_device \<Rightarrow> usize \<Rightarrow> usize \<Rightarrow> kv_place \<Rightarrow> buf_id \<Rightarrow> buf_id \<Rightarrow> usize \<Rightarrow> (encoding, spec_error, unit) act" where
  "tree_layer dev tree_size pos_base kp hidden anc l = with_meta (\<lambda>meta.
     (let n_embd = mm_n_embd meta; n_head = mm_n_head meta; n_head_kv = mm_n_head_kv meta; head_dim = mm_head_dim meta in
      and_then (scratch dev ''mlp_in_tree'' (tree_size * n_embd * 4)) (\<lambda>mlp_in.
      and_then (if_weight (layer_name l ''attention_norm.weight'') (\<lambda>w.
          emit dev (Rms_norm hidden mlp_in w (mm_norm_eps meta) (of_nat n_embd)) n_embd tree_size)) (\<lambda>_.
      and_then (scratch dev ''q_tree'' (tree_size * n_embd * 4)) (\<lambda>q.
      and_then (scratch dev ''k_tree'' (tree_size * n_head_kv * head_dim * 4)) (\<lambda>k.
      and_then (scratch dev ''v_tree'' (tree_size * n_head_kv * head_dim * 4)) (\<lambda>v.
      and_then (project_all dev (\<lambda>out w x rows cols. dispatch_matvec_batched dev out w x rows cols tree_size) l mlp_in n_embd
          [(layer_name l ''attention.wq.weight'', q, n_embd), (layer_name l ''attention.wk.weight'', k, n_head_kv * head_dim),
           (layer_name l ''attention.wv.weight'', v, n_head_kv * head_dim)]) (\<lambda>_.
      and_then (scratch dev ''attn_out_tree'' (tree_size * n_head * head_dim * 4)) (\<lambda>attn_out.
        emit dev (Paged_attention_tree (attn_args_of meta kp attn_out q pos_base tree_size) anc (of_nat max_tree_depth)) tree_size n_head)))))))))"

fun tree_layers :: "gpu_device \<Rightarrow> usize \<Rightarrow> usize \<Rightarrow> kv_place \<Rightarrow> buf_id \<Rightarrow> buf_id \<Rightarrow> usize list \<Rightarrow> (encoding, spec_error, unit) act" where
  "tree_layers dev tree_size pos_base kp hidden anc [] = ret ()"
| "tree_layers dev tree_size pos_base kp hidden anc (l # ls) =
     and_then (tree_layer dev tree_size pos_base kp hidden anc l) (\<lambda>_. tree_layers dev tree_size pos_base kp hidden anc ls)"

definition forward_tree :: "gpu_device \<Rightarrow> spec_tree \<Rightarrow> usize \<Rightarrow> kv_place \<Rightarrow> (model_state, spec_error, command_buffer \<times> buf_id) act" where
  "forward_tree dev tree pos_base kp = (\<lambda>(g, m).
     let n = length tree; n_embd = mm_n_embd (gm_meta g); n_vocab = mm_n_vocab (gm_meta g) in
     encoded dev
       (and_then (scratch dev ''hidden_state_tree'' (n * n_embd * 4)) (\<lambda>hidden.
        and_then (write_embeddings hidden (map node_token tree)) (\<lambda>_.
        and_then (upload_ancestors dev tree) (\<lambda>anc.
        and_then (tree_layers dev n pos_base kp hidden anc [0..<mm_n_layer (gm_meta g)]) (\<lambda>_.
        and_then (scratch dev ''logits_tree'' (n * n_vocab * 4)) (\<lambda>logits.
        and_then (if_weight (ascii ''output.weight'') (\<lambda>w. dispatch_matvec_batched dev logits w hidden n_vocab n_embd n)) (\<lambda>_.
          ret logits))))))) (g, m))"

end
