(* ===== verification/GpuKernelProps.thy ===== *)
theory GpuKernelProps
  imports GpuKernels LlamaCpuProps
begin

text \<open>
  What the proofs about the device's kernels share: kernels keep the sizes of the buffers (\<open>shape\<close>), loads
  read what stores wrote, and threads that each write their own element of an output buffer fill it
  with their values and leave the rest of the memory alone.
\<close>

section \<open>Kernels keep the sizes of the buffers\<close>

definition shape :: "gpu_mem \<Rightarrow> nat list" where
  "shape m = map length m"

named_theorems shapes

lemma shape_length: "shape m' = shape m \<Longrightarrow> length m' = length m"
  by (metis length_map shape_def)

lemma shape_nth: "shape m' = shape m \<Longrightarrow> b < length m \<Longrightarrow> length (m' ! b) = length (m ! b)"
  by (metis length_map nth_map shape_def)

lemma store8_shape [shapes]: "store8 b i v m = Ok m' \<Longrightarrow> shape m' = shape m"
  by (auto simp: store8_def shape_def map_update list_update_same_conv split: if_splits)

lemma store32_at_shape [shapes]: "store32_at b a v m = Ok m' \<Longrightarrow> shape m' = shape m"
  by (auto simp: store32_at_def shape_def map_update list_update_same_conv split: if_splits)

lemma store32_shape [shapes]: "store32 b i v m = Ok m' \<Longrightarrow> shape m' = shape m"
  by (auto simp: store32_def dest: store32_at_shape)

lemma loop_invariant:
  assumes "loop f is s = Ok s'" "\<And>i s s'. i \<in> set is \<Longrightarrow> f i s = Ok s' \<Longrightarrow> P s \<Longrightarrow> P s'" "P s"
  shows "P s'"
  using assms
proof (induction "is" arbitrary: s)
  case (Cons i "is")
  then obtain s1 where s1: "f i s = Ok s1" "loop f is s1 = Ok s'" by auto
  with Cons.prems(2,3) have "P s1" by (meson list.set_intros(1))
  with Cons.IH [OF s1(2)] Cons.prems(2) show ?case by (meson list.set_intros(2))
qed simp

lemma loop_shape:
  assumes "loop f is m = Ok m'" "\<And>i m m'. f i m = Ok m' \<Longrightarrow> shape m' = shape m"
  shows "shape m' = shape m"
  by (rule loop_invariant [OF assms(1), where P = "\<lambda>x. shape x = shape m"]) (auto dest: assms(2))

lemma loop_Ok_member:
  assumes "loop f is s = Ok s'" "i \<in> set is" "P s" "\<And>i s s'. f i s = Ok s' \<Longrightarrow> P s \<Longrightarrow> P s'"
  shows "\<exists>s1 s2. f i s1 = Ok s2 \<and> P s1"
  using assms(1-3)
proof (induction "is" arbitrary: s)
  case (Cons j "is")
  then obtain s1 where s1: "f j s = Ok s1" "loop f is s1 = Ok s'" by auto
  show ?case
  proof (cases "i = j")
    case True
    with s1 Cons.prems show ?thesis by blast
  next
    case False
    with Cons.prems(2) have "i \<in> set is" by simp
    from Cons.IH [OF s1(2) this assms(4) [OF s1(1) Cons.prems(3)]] show ?thesis .
  qed
qed simp

lemma rotate_pair_shape [shapes]: "rotate_pair b i c s m = Ok m' \<Longrightarrow> shape m' = shape m"
  by (auto simp: rotate_pair_def dest!: store32_shape)

lemma rms_norm_shape [shapes]: "rms_norm_kernel out x w eps n t m = Ok m' \<Longrightarrow> shape m' = shape m"
  by (auto simp: rms_norm_kernel_def Let_def split: if_splits elim!: loop_shape dest: store32_shape)

lemma kv_update_shape [shapes]: "kv_update_kernel a t m = Ok m' \<Longrightarrow> shape m' = shape m"
  by (auto simp: kv_update_kernel_def Let_def split: if_splits dest!: store32_shape)

lemma store_quantised_shape [shapes]: "store_quantised a off ks vs kx vx n m = Ok m' \<Longrightarrow> shape m' = shape m"
  by (auto simp: store_quantised_def elim!: loop_shape dest!: store8_shape)

lemma kv_update_int8_shape [shapes]: "kv_update_int8_kernel a t m = Ok m' \<Longrightarrow> shape m' = shape m"
  by (auto simp: kv_update_int8_kernel_def Let_def split: if_splits dest!: store_quantised_shape store32_at_shape)

lemma finish_head_shape [shapes]: "finish_head out base st m = Ok m' \<Longrightarrow> shape m' = shape m"
  by (cases st) (auto simp: finish_head_def elim!: loop_shape dest: store32_shape)

lemma paged_attention_shape [shapes]: "paged_attention_kernel row lm a t m = Ok m' \<Longrightarrow> shape m' = shape m"
  by (auto simp: paged_attention_kernel_def Let_def dest!: finish_head_shape)

lemma paged_attention_tree_shape [shapes]: "paged_attention_tree_kernel lm a anc d x y m = Ok m' \<Longrightarrow> shape m' = shape m"
  by (auto simp: paged_attention_tree_kernel_def Let_def split: if_splits dest!: finish_head_shape)

lemma argmax_shape [shapes]: "argmax_kernel junk out logits n w m = Ok m' \<Longrightarrow> shape m' = shape m"
  by (auto simp: argmax_kernel_def split: if_splits dest!: store32_shape)

lemma run_thread_shape: "run_thread lm c x y m = Ok m' \<Longrightarrow> shape m' = shape m"
  by (cases c)
    (auto simp: embed_lookup_kernel_def rope_kernel_def matvec_f32_kernel_def matvec_q4_0_kernel_def matvec_batched_f32_kernel_def
      matvec_batched_q4_0_kernel_def silu_kernel_def vec_mul_kernel_def vec_add_kernel_def paged_attention_flash_kernel_def
      paged_attention_flash_int8_kernel_def Let_def split: if_splits prod.splits dest!: shapes)

lemma run_threads_shape: "run_threads lm c w h m = Ok m' \<Longrightarrow> shape m' = shape m"
  unfolding run_threads_def by (rule loop_shape) (auto dest: run_thread_shape)

lemma run_dispatch_shape: "run_dispatch lm junk d m = Ok m' \<Longrightarrow> shape m' = shape m"
  by (cases "dp_call d") (auto simp: run_dispatch_def dest: run_threads_shape argmax_shape)

lemma commit_shape: "commit lm junk cb m = Ok m' \<Longrightarrow> shape m' = shape m"
  unfolding commit_def by (rule loop_shape) (auto dest: run_dispatch_shape)

lemma loop_append: "loop f (xs @ ys) s = bind_outcome (loop f xs s) (loop f ys)"
proof (induction xs arbitrary: s)
  case (Cons x xs)
  show ?case by (cases "f x s") (simp_all add: Cons)
qed simp

section \<open>Loads and stores\<close>

lemma load32_bound: "load32 m b i = Ok v \<Longrightarrow> b < length m \<and> 4 * i + 4 \<le> length (m ! b)"
  by (simp add: load32_def load32_at_def split: if_splits)

lemma load32_any: "load32 m b i = (Ok v :: ('d, u32) outcome) \<Longrightarrow> load32 m b i = (Ok v :: ('e, u32) outcome)"
  by (simp add: load32_def load32_at_def split: if_splits)

lemma load_list_nth:
  assumes "load_list m b is = (Ok vs :: ('d, u32 list) outcome)"
  shows "length vs = length is \<and> (\<forall>i < length is. load32 m b (is ! i) = (Ok (vs ! i) :: ('e, u32) outcome))"
  using assms
proof (induction "is" arbitrary: vs)
  case (Cons j "is")
  then obtain v ws where v: "load32 m b j = (Ok v :: ('d, u32) outcome)" "load_list m b is = (Ok ws :: ('d, u32 list) outcome)" "vs = v # ws"
    by (auto simp only: load_list.simps bind_outcome_Ok_iff outcome.inject)
  from Cons.IH [OF v(2)] load32_any [OF v(1)] v(3) show ?case by (auto simp: nth_Cons split: nat.splits)
qed simp

lemma load_store32:
  assumes "store32 b i v m = Ok m'"
  shows "load32 m' b i = Ok v"
proof -
  let ?x = "m ! b"
  have b: "b < length m" "4 * i + 4 \<le> length ?x" "m' = m[b := take (4 * i) ?x @ le_bytes 4 (unat v) @ drop (4 * i + 4) ?x]"
    using assms by (auto simp: store32_def store32_at_def split: if_splits)
  have "unat v < 2 ^ LENGTH(32)" by (rule unsigned_less)
  then have "unat v mod 256 ^ 4 = unat v" by simp
  then have "(of_nat (le_value (le_bytes 4 (unat v))) :: u32) = v" unfolding le_value_bytes by simp
  with b show ?thesis by (simp add: load32_def load32_at_def del: le_value_bytes)
qed

lemma load_store32_other: "store32 b i v m = Ok m' \<Longrightarrow> j \<noteq> i \<Longrightarrow> load32 m' b j = (load32 m b j :: ('e, u32) outcome)"
proof -
  assume s: "store32 b i v m = Ok m'" and j: "j \<noteq> i"
  let ?x = "m ! b" and ?y = "m' ! b"
  have b: "b < length m" "4 * i + 4 \<le> length ?x" "m' = m[b := take (4 * i) ?x @ le_bytes 4 (unat v) @ drop (4 * i + 4) ?x]"
    using s by (auto simp: store32_def store32_at_def split: if_splits)
  have y: "?y = take (4 * i) ?x @ le_bytes 4 (unat v) @ drop (4 * i + 4) ?x" using b by simp
  have "take 4 (drop (4 * j) ?y) = take 4 (drop (4 * j) ?x)"
  proof (cases "j < i")
    case True
    then have "take 4 (drop (4 * j) ?y) = take 4 (drop (4 * j) (take (4 * i) ?x))" unfolding y using b(2) by (simp add: min_def)
    also have "\<dots> = take 4 (drop (4 * j) ?x)" using True by (simp add: drop_take min_def)
    finally show ?thesis .
  next
    case False
    with j obtain k where k: "j = i + 1 + k" by (metis Suc_eq_plus1 add_Suc_right add_Suc_shift less_natE linorder_neqE_nat)
    then have "drop (4 * j) ?y = drop (4 * k) (drop (4 * i + 4) ?x)" unfolding y using b(2) by (simp add: algebra_simps)
    then show ?thesis using k by (simp add: algebra_simps)
  qed
  moreover have "length ?y = length ?x" using b(2) y by simp
  ultimately show ?thesis using b(1) b(3) by (simp add: load32_def load32_at_def)
qed

lemma store32_elsewhere: "store32 b i v m = Ok m' \<Longrightarrow> c \<noteq> b \<Longrightarrow> m' ! c = m ! c"
  by (auto simp: store32_def store32_at_def split: if_splits)

lemma load32_cong: "m' ! b = m ! b \<Longrightarrow> length m' = length m \<Longrightarrow> load32 m' b i = load32 m b i"
  by (simp add: load32_def load32_at_def)

lemma load_list_cong:
  assumes "m' ! b = m ! b" "length m' = length m"
  shows "load_list m' b is = load_list m b is"
proof (induction "is")
  case (Cons i "is")
  show ?case unfolding load_list.simps load32_cong [OF assms] Cons ..
qed simp

lemma load_list_map:
  assumes "\<forall>i \<in> set is. load32 m b i = (Ok (f i) :: ('e, u32) outcome)"
  shows "load_list m b is = (Ok (map f is) :: ('e, u32 list) outcome)"
  using assms by (induction "is") simp_all

lemma load_list_map_of:
  assumes "\<forall>i \<in> set is. load32 m b (g i) = (Ok (f i) :: ('e, u32) outcome)"
  shows "load_list m b (map g is) = (Ok (map f is) :: ('e, u32 list) outcome)"
  using assms by (induction "is") simp_all

lemma store32_Ok: "b < length m \<Longrightarrow> 4 * i + 4 \<le> length (m ! b) \<Longrightarrow> \<exists>m'. store32 b i v m = Ok m'"
  by (simp add: store32_def store32_at_def)

text \<open>An array is read back from its bytes.\<close>

lemma length_u32_bytes [simp]: "length (u32_bytes vs) = 4 * length vs"
  by (induction vs) (simp_all add: u32_bytes_def)

lemma load32_encoded:
  assumes "b < length m" "m ! b = u32_bytes vs @ rest" "i < length vs"
  shows "load32 m b i = Ok (vs ! i)"
proof -
  have "take 4 (drop (4 * i) (u32_bytes vs @ rest)) = le_bytes 4 (unat (vs ! i))"
    using assms(3)
  proof (induction vs arbitrary: i)
    case (Cons v vs)
    then show ?case by (cases i) (simp_all add: u32_bytes_def)
  qed simp
  moreover have "unat (vs ! i) < 2 ^ LENGTH(32)" by (rule unsigned_less)
  then have "unat (vs ! i) mod 256 ^ 4 = unat (vs ! i)" by simp
  ultimately show ?thesis using assms by (simp add: load32_def load32_at_def)
qed

lemma load_encoded:
  assumes "b < length m" "m ! b = u32_bytes vs @ rest"
  shows "load_list m b [0..<length vs] = Ok vs"
proof -
  have "load_list m b [0..<length vs] = Ok (map ((!) vs) [0..<length vs])"
    by (rule load_list_map) (use assms in \<open>auto intro: load32_encoded\<close>)
  then show ?thesis by (simp add: map_nth)
qed

section \<open>Threads that write their own element\<close>

text \<open>Memories that differ in one buffer at most.\<close>

definition same_except :: "buf_id \<Rightarrow> gpu_mem \<Rightarrow> gpu_mem \<Rightarrow> bool" where
  "same_except out m m' \<longleftrightarrow> shape m' = shape m \<and> (\<forall>b. b \<noteq> out \<longrightarrow> m' ! b = m ! b)"

lemma same_except_refl [simp]: "same_except out m m"
  by (simp add: same_except_def)

lemma same_except_store: "same_except out m m1 \<Longrightarrow> store32 out i v m1 = Ok m2 \<Longrightarrow> same_except out m m2"
  by (auto simp: same_except_def store32_elsewhere dest: store32_shape)

lemma same_except_length: "same_except out m m' \<Longrightarrow> length m' = length m"
  by (auto simp: same_except_def dest: shape_length)

lemma same_except_load: "same_except out m m' \<Longrightarrow> b \<noteq> out \<Longrightarrow> load_list m' b is = load_list m b is"
  by (rule load_list_cong) (auto simp: same_except_def dest: shape_length)

lemma threads_write:
  assumes f: "\<And>i m'. i \<in> set is \<Longrightarrow> same_except out m0 m' \<Longrightarrow> f i m' = (store32 out (at i) (val i) m' :: ('e, gpu_mem) outcome)"
    and "distinct (map at is)" "out < length m0" "\<forall>i \<in> set is. 4 * at i + 4 \<le> length (m0 ! out)" "same_except out m0 m"
  shows "\<exists>m'. loop f is m = (Ok m' :: ('e, gpu_mem) outcome) \<and> same_except out m0 m' \<and>
    (\<forall>i \<in> set is. load32 m' out (at i) = (Ok (val i) :: ('d, u32) outcome)) \<and>
    (\<forall>j. j \<notin> at ` set is \<longrightarrow> load32 m' out j = (load32 m out j :: ('d, u32) outcome))"
  using assms
proof (induction "is" arbitrary: m)
  case (Cons i "is")
  have len: "out < length m" "length (m ! out) = length (m0 ! out)"
    using Cons.prems(3,5) same_except_length shape_nth [of m m0 out] by (auto simp: same_except_def dest: shape_length)
  then obtain m1 where m1: "store32 out (at i) (val i) m = (Ok m1 :: ('e, gpu_mem) outcome)"
    using store32_Ok [of out m "at i" "val i"] Cons.prems(4) by auto
  have s1: "same_except out m0 m1" by (rule same_except_store [OF Cons.prems(5) m1])
  from Cons.IH [OF Cons.prems(1) _ Cons.prems(3) _ s1] Cons.prems(2,4) obtain m' where
    m': "loop f is m1 = (Ok m' :: ('e, gpu_mem) outcome)" "same_except out m0 m'"
    "\<forall>i \<in> set is. load32 m' out (at i) = (Ok (val i) :: ('d, u32) outcome)"
    "\<forall>j. j \<notin> at ` set is \<longrightarrow> load32 m' out j = (load32 m1 out j :: ('d, u32) outcome)"
    by auto
  have "at i \<notin> at ` set is" using Cons.prems(2) by auto
  then have "load32 m' out (at i) = (Ok (val i) :: ('d, u32) outcome)" using m'(4) load_store32 [OF m1] by simp
  moreover have "\<forall>j. j \<notin> at ` set (i # is) \<longrightarrow> load32 m' out j = (load32 m out j :: ('d, u32) outcome)"
    using m'(4) load_store32_other [OF m1] by auto
  ultimately show ?case using m' m1 Cons.prems(1) [of i m] Cons.prems(5) by (intro exI [of _ m']) auto
qed auto

text \<open>The threads of a grid of one row.\<close>

lemma run_threads_row: "run_threads lm c w 1 m = (loop (\<lambda>x. run_thread lm c (of_nat x) 0) [0..<w] m :: ('e, gpu_mem) outcome)"
proof -
  have "loop (\<lambda>(y, x). run_thread lm c (of_nat x) (of_nat y)) (map (Pair 0) xs) s =
      (loop (\<lambda>x. run_thread lm c (of_nat x) 0) xs s :: ('e, gpu_mem) outcome)" for xs s
  proof (induction xs arbitrary: s)
    case (Cons x xs)
    show ?case by (cases "run_thread lm c (of_nat x) 0 s :: ('e, gpu_mem) outcome") (simp_all add: Cons)
  qed simp
  then show ?thesis by (simp add: run_threads_def)
qed

lemma unat_small: "n < 2 ^ 32 \<Longrightarrow> unat (of_nat n :: u32) = n"
  by (rule unat_of_nat_small) simp

end
