(* ===== verification/MetalModelProps.thy ===== *)
theory MetalModelProps
  imports MetalModel GpuKernelProps
begin

text \<open>
  Properties of the Metal model's forward pass. Encoding only extends: the model's weights stay, the memory
  keeps the buffers it has and their sizes, the command buffer grows (\<open>extends\<close>). The scratch buffers of a
  pass have the size that their name is always asked for (\<open>scratch_ok\<close>), so every layer gets the same ones.
 
\<close>

section \<open>Encoding only extends\<close>

text \<open>The size in bytes that a pass asks for under each name.\<close>

definition pass_size :: "model_meta \<Rightarrow> string \<Rightarrow> usize option" where
  "pass_size meta = map_of
     [(''hidden_state'', mm_n_embd meta * 4), (''q'', mm_n_embd meta * 4), (''k'', mm_n_embd meta * 4), (''v'', mm_n_embd meta * 4),
      (''attn_out'', mm_n_head meta * mm_head_dim meta * 4), (''attn_out_proj'', mm_n_embd meta * 4), (''mlp_in'', mm_n_embd meta * 4),
      (''mlp_gate'', mm_n_ff meta * 4), (''mlp_up'', mm_n_ff meta * 4), (''mlp_out'', mm_n_embd meta * 4),
      (''logits'', mm_n_vocab meta * 4), (''argmax_out'', 4)]"

definition scratch_ok :: "metal_model \<Rightarrow> gpu_mem \<Rightarrow> bool" where
  "scratch_ok g m \<longleftrightarrow> (\<forall>name b. map_of (gm_scratch g) name = Some b \<longrightarrow>
     b < length m \<and> (\<forall>n. pass_size (gm_meta g) name = Some n \<longrightarrow> length (m ! b) = n))"

definition later :: "encoding \<Rightarrow> encoding \<Rightarrow> bool" where
  "later = (\<lambda>(g, m, cb) (g', m', cb').
     scratch_ok g' m' \<and> gm_meta g' = gm_meta g \<and> gm_weights g' = gm_weights g \<and> gm_pipelines g' = gm_pipelines g \<and>
     length m \<le> length m' \<and> (\<forall>b < length m. length (m' ! b) = length (m ! b)) \<and> (\<exists>ds. cb' = cb @ ds) \<and>
     (\<forall>name b. pass_size (gm_meta g) name \<noteq> None \<longrightarrow> map_of (gm_scratch g) name = Some b \<longrightarrow> map_of (gm_scratch g') name = Some b))"

lemma later_refl: "scratch_ok g m \<Longrightarrow> later (g, m, cb) (g, m, cb)"
  by (simp add: later_def)

lemma later_trans: "later s s1 \<Longrightarrow> later s1 s2 \<Longrightarrow> later s s2"
  by (cases s; cases s1; cases s2) (auto simp: later_def)

definition extends :: "model_meta \<Rightarrow> (encoding, 'e, 'a) act \<Rightarrow> bool" where
  "extends meta f \<longleftrightarrow> (\<forall>g m cb. gm_meta g = meta \<longrightarrow> scratch_ok g m \<longrightarrow> later (g, m, cb) (snd (f (g, m, cb))))"

named_theorems extends_intros

lemma extendsD: "extends meta f \<Longrightarrow> gm_meta g = meta \<Longrightarrow> scratch_ok g m \<Longrightarrow> f (g, m, cb) = (r, s) \<Longrightarrow> later (g, m, cb) s"
  unfolding extends_def by (metis snd_conv)

lemma extends_and_then [extends_intros]:
  assumes "extends meta f" "\<And>a. extends meta (h a)"
  shows "extends meta (and_then f h)"
  unfolding extends_def
proof (intro allI impI)
  fix g m cb assume g: "gm_meta g = meta" "scratch_ok g m"
  obtain r g1 m1 cb1 where f: "f (g, m, cb) = (r, g1, m1, cb1)" by (metis surj_pair)
  from extendsD [OF assms(1) g f] have l: "later (g, m, cb) (g1, m1, cb1)" .
  then have "gm_meta g1 = meta" "scratch_ok g1 m1" using g by (auto simp: later_def)
  with assms(2) have "later (g1, m1, cb1) (snd (h a (g1, m1, cb1)))" for a by (auto simp: extends_def)
  with l f show "later (g, m, cb) (snd (and_then f h (g, m, cb)))"
    by (cases r) (auto simp: and_then_def intro: later_trans)
qed

lemma extends_ret [extends_intros]: "extends meta (ret x)"
  by (simp add: extends_def ret_def later_refl)

lemma extends_with_meta [extends_intros]: "extends meta (f meta) \<Longrightarrow> extends meta (with_meta f)"
  by (simp add: extends_def with_meta_def)

lemma extends_if_weight [extends_intros]: "(\<And>w. extends meta (f w)) \<Longrightarrow> extends meta (if_weight name f)"
  by (auto simp: extends_def if_weight_def later_refl split: option.splits)

lemma extends_weight_or [extends_intros]: "extends meta (weight_or missing_weight name)"
  by (auto simp: extends_def weight_or_def later_refl split: option.splits)

lemma extends_emit [extends_intros]: "extends meta (emit dev c w h)"
  by (auto simp: extends_def emit_def later_def)

lemma extends_emit_or_err [extends_intros]: "extends meta (emit_or_err dev t c w h)"
  by (auto simp: extends_def emit_or_err_def later_def)

lemma map_of_hm_insert: "map_of (hm_insert k v m) = (map_of m)(k \<mapsto> v)"
proof
  fix x
  have "map_of (filter (\<lambda>(k', _). k' \<noteq> k) m) x = (if x = k then None else map_of m x)" by (induction m) auto
  then show "map_of (hm_insert k v m) x = ((map_of m)(k \<mapsto> v)) x" by (simp add: hm_insert_def)
qed

lemma extends_scratch [extends_intros]:
  assumes "pass_size meta name = None \<or> pass_size meta name = Some n"
  shows "extends meta (scratch dev name n)"
  unfolding extends_def
proof (intro allI impI)
  fix g m cb assume g: "gm_meta g = meta" "scratch_ok g m"
  show "later (g, m, cb) (snd (scratch dev name n (g, m, cb)))"
  proof (cases "\<exists>b. map_of (gm_scratch g) name = Some b \<and> n \<le> length (m ! b)")
    case True
    with g show ?thesis by (auto simp: scratch_def get_scratch_def later_refl)
  next
    case False
    then have "pass_size meta name = Some n \<Longrightarrow> map_of (gm_scratch g) name = None"
      using g by (auto simp: scratch_ok_def)
    moreover have "scratch dev name n (g, m, cb) =
      (if gd_alloc dev n then (Ok (length m), g\<lparr>gm_scratch := hm_insert name (length m) (gm_scratch g)\<rparr>, m @ [replicate n 0], cb) else (Panic, g, m, cb))"
      using False by (cases "map_of (gm_scratch g) name") (auto simp: scratch_def get_scratch_def new_buffer_def Let_def)
    ultimately show ?thesis
      using g assms by (auto simp: later_def scratch_ok_def map_of_hm_insert nth_append intro: less_SucI split: if_splits)
  qed
qed

lemma pass_size_names [simp]:
  "pass_size meta ''hidden_state'' = Some (mm_n_embd meta * 4)" "pass_size meta ''q'' = Some (mm_n_embd meta * 4)"
  "pass_size meta ''k'' = Some (mm_n_embd meta * 4)" "pass_size meta ''v'' = Some (mm_n_embd meta * 4)"
  "pass_size meta ''attn_out'' = Some (mm_n_head meta * mm_head_dim meta * 4)"
  "pass_size meta ''attn_out_proj'' = Some (mm_n_embd meta * 4)" "pass_size meta ''mlp_in'' = Some (mm_n_embd meta * 4)"
  "pass_size meta ''mlp_gate'' = Some (mm_n_ff meta * 4)" "pass_size meta ''mlp_up'' = Some (mm_n_ff meta * 4)"
  "pass_size meta ''mlp_out'' = Some (mm_n_embd meta * 4)" "pass_size meta ''logits'' = Some (mm_n_vocab meta * 4)"
  "pass_size meta ''argmax_out'' = Some 4"
  by (simp_all add: pass_size_def)

lemma extends_rms_norm [extends_intros]: "extends meta (dispatch_rms_norm dev out inp w n)"
  unfolding dispatch_rms_norm_def by (intro extends_intros)

lemma extends_matvec [extends_intros]: "extends meta (dispatch_matvec dev out w x rows cols)"
  unfolding dispatch_matvec_def Let_def by (intro extends_intros)

lemma extends_matvec_batched [extends_intros]: "extends meta (dispatch_matvec_batched dev out w x rows cols n)"
  unfolding dispatch_matvec_batched_def Let_def by (intro extends_intros)

lemma extends_silu_mul [extends_intros]: "extends meta (dispatch_silu_mul dev gate up n)"
  unfolding dispatch_silu_mul_def by (intro extends_intros)

lemma extends_paged_attention [extends_intros]: "extends meta (dispatch_paged_attention dev out q kp pos)"
  unfolding dispatch_paged_attention_def Let_def by (intro extends_intros)

lemma extends_kv_update [extends_intros]: "extends meta (dispatch_kv_update dev k v kp pos)"
  unfolding dispatch_kv_update_def Let_def by (intro extends_with_meta) (simp add: extends_emit)

lemma extends_project_all [extends_intros]:
  assumes "\<And>out w x rows cols. extends meta (mv out w x rows cols)"
  shows "extends meta (project_all dev mv l x cols ps)"
  by (induction ps) (auto intro!: extends_intros assms)

lemma extends_pass_qkv [extends_intros]: "extends meta (pass_qkv dev hidden l)"
  unfolding pass_qkv_def Let_def by (intro extends_intros; simp)

lemma extends_rope [extends_intros]: "extends meta (dispatch_rope dev q k pos)"
  unfolding dispatch_rope_def by (intro extends_intros)

lemma extends_pass_attn_out [extends_intros]: "extends meta (pass_attn_out dev kp pos hidden l q)"
  unfolding pass_attn_out_def Let_def by (intro extends_intros; simp)

lemma extends_pass_attention [extends_intros]: "extends meta (pass_attention dev kp pos hidden l)"
  unfolding pass_attention_def by (intro extends_intros) (auto intro!: extends_intros)

lemma extends_pass_mlp [extends_intros]: "extends meta (pass_mlp dev hidden l)"
  unfolding pass_mlp_def Let_def by (intro extends_intros; simp)

lemma extends_pass_layers [extends_intros]: "extends meta (pass_layers dev kp pos hidden ls)"
  by (induction ls) (auto intro!: extends_intros)

lemma copy_floats_shape: "copy_floats src i dst j n m = Ok m' \<Longrightarrow> shape m' = shape m"
  by (auto simp: copy_floats_def shape_def map_update list_update_same_conv split: if_splits)

lemma extends_pass_head [extends_intros]: "extends meta (pass_head dev hidden)"
  unfolding pass_head_def Let_def by (intro extends_intros; simp)

lemma later_same_shape:
  assumes "scratch_ok g m" "shape m1 = shape m"
  shows "later (g, m, cb) (g, m1, cb)"
proof -
  note l = shape_length [OF assms(2)] and n = shape_nth [OF assms(2)]
  have "scratch_ok g m1" using assms(1) by (simp add: scratch_ok_def l n)
  then show ?thesis by (simp add: later_def l n)
qed

lemma extends_write_embeddings [extends_intros]: "extends meta (write_embeddings hidden toks)"
  unfolding extends_def
proof (intro allI impI)
  fix g m cb assume g: "gm_meta g = meta" "scratch_ok g m"
  show "later (g, m, cb) (snd (write_embeddings hidden toks (g, m, cb)))"
  proof (cases "map_of (gm_weights g) (ascii ''token_embd.weight'')")
    case (Some w)
    let ?l = "loop (\<lambda>(i, t). copy_floats w (unat t * mm_n_embd meta) hidden (i * mm_n_embd meta) (mm_n_embd meta)) (enumerate 0 toks) m
      :: (spec_error, gpu_mem) outcome"
    have "shape m1 = shape m" if "?l = Ok m1" for m1
      by (rule loop_shape [OF that]) (auto dest: copy_floats_shape)
    then show ?thesis
      using Some g by (cases ?l) (simp_all add: write_embeddings_def Let_def later_same_shape later_refl)
  qed (simp add: write_embeddings_def later_refl g)
qed

definition encode_forward :: "gpu_device \<Rightarrow> token_id \<Rightarrow> usize \<Rightarrow> kv_place \<Rightarrow> model_meta \<Rightarrow> (encoding, spec_error, buf_id) act" where
  "encode_forward dev tok pos kp meta =
     and_then (scratch dev ''hidden_state'' (mm_n_embd meta * 4)) (\<lambda>hidden.
     and_then (write_embeddings hidden [tok]) (\<lambda>_.
     and_then (pass_layers dev kp pos hidden [0..<mm_n_layer meta]) (\<lambda>_. pass_head dev hidden)))"

lemma extends_forward: "extends meta (encode_forward dev tok pos kp meta)"
  unfolding encode_forward_def by (intro extends_intros; simp)

lemma forward_Ok:
  assumes "forward dev tok pos kp (g, m) = (Ok (cb, logits), g', m')" "scratch_ok g m"
  shows "encode_forward dev tok pos kp (gm_meta g) (g, m, []) = (Ok logits, g', m', cb)" "later (g, m, []) (g', m', cb)"
proof -
  show e: "encode_forward dev tok pos kp (gm_meta g) (g, m, []) = (Ok logits, g', m', cb)"
    using assms(1) by (auto simp: forward_def encoded_def encode_forward_def split: if_splits prod.splits outcome.splits)
  from extendsD [OF extends_forward refl assms(2) e] show "later (g, m, []) (g', m', cb)" .
qed

text \<open>A step of the encoding, its state and what comes later.\<close>

lemma and_then_later:
  assumes "and_then f h (g, m, cb) = (Ok r, s)" "gm_meta g = meta" "scratch_ok g m" "extends meta f" "\<And>a. extends meta (h a)"
  obtains a g1 m1 cb1 where "f (g, m, cb) = (Ok a, g1, m1, cb1)" "h a (g1, m1, cb1) = (Ok r, s)" "gm_meta g1 = meta" "scratch_ok g1 m1"
    "later (g, m, cb) (g1, m1, cb1)" "later (g1, m1, cb1) s"
proof -
  from assms(1) obtain a g1 m1 cb1 where f: "f (g, m, cb) = (Ok a, g1, m1, cb1)" and h: "h a (g1, m1, cb1) = (Ok r, s)"
    by (auto simp: and_then_Ok_iff)
  from extendsD [OF assms(4,2,3) f] have l: "later (g, m, cb) (g1, m1, cb1)" .
  then have g1: "gm_meta g1 = meta" "scratch_ok g1 m1" using assms(2) by (auto simp: later_def)
  from extendsD [OF assms(5) g1 h] that f h l g1 show thesis by blast
qed

lemma scratch_Ok:
  assumes "scratch dev name n (g, m, cb) = (Ok b, g1, m1, cb1)" "gm_meta g = meta" "scratch_ok g m" "pass_size meta name = Some n"
  shows "map_of (gm_scratch g1) name = Some b" "b < length m1" "length (m1 ! b) = n"
proof -
  have "pass_size meta name = None \<or> pass_size meta name = Some n" using assms(4) by simp
  from extendsD [OF extends_scratch [OF this] assms(2,3,1)] have l: "later (g, m, cb) (g1, m1, cb1)" .
  from assms show *: "map_of (gm_scratch g1) name = Some b"
    by (auto simp: scratch_def get_scratch_def new_buffer_def Let_def map_of_hm_insert split: option.splits if_splits)
  from l assms(2,4) * show "b < length m1" "length (m1 ! b) = n" by (auto simp: later_def scratch_ok_def)
qed

section \<open>The rotation leaves its buffers\<close>

lemma rope_kernel_loads:
  assumes "rope_kernel lm q k pos hdim base t m = (Ok m' :: ('e, gpu_mem) outcome)"
  shows "\<exists>v. load32 m q (unat (t * 2 + 1)) = (Ok v :: ('e, f32) outcome)"
proof -
  obtain c s m1 where "rotate_pair q (t * 2) c s m = (Ok m1 :: ('e, gpu_mem) outcome)"
    using assms unfolding rope_kernel_def Let_def by (simp split: if_splits prod.splits) blast
  then show ?thesis unfolding rotate_pair_def by (simp only: bind_outcome_Ok_iff) blast
qed

lemma unat_double_succ: "2 * x + 1 < 2 ^ 32 \<Longrightarrow> unat (of_nat x * 2 + 1 :: u32) = 2 * x + 1"
proof -
  assume x: "2 * x + 1 < (2 :: nat) ^ 32"
  have "(of_nat x * 2 + 1 :: u32) = of_nat (2 * x + 1)" by (simp add: mult.commute add.commute)
  then show ?thesis using x by (simp only: unat_of_nat_small len_num1 len_bit0 mult_1_right) (rule unat_of_nat_small, simp)
qed

lemma rope_overruns:
  assumes "length (m ! q) = 4 * n" "n < 2 * w" "2 * w \<le> 2 ^ 32"
  shows "run_dispatch lm junk \<lparr>dp_call = Rope q k pos hdim base, dp_width = w, dp_height = 1\<rparr> m \<noteq> (Ok m' :: ('e, gpu_mem) outcome)"
proof
  assume r: "run_dispatch lm junk \<lparr>dp_call = Rope q k pos hdim base, dp_width = w, dp_height = 1\<rparr> m = (Ok m' :: ('e, gpu_mem) outcome)"
  let ?x = "w - 1"
  note t = r [unfolded run_dispatch_def dispatch.simps kernel_call.simps run_threads_def]
  have mem: "(0, ?x) \<in> set (List.product [0..<1] [0..<w])" using assms(2) by auto
  have "\<exists>m1 m2. (\<lambda>(y, x). run_thread lm (Rope q k pos hdim base) (of_nat x) (of_nat y)) (0, ?x) m1 = (Ok m2 :: ('e, gpu_mem) outcome) \<and> shape m1 = shape m"
    by (rule loop_Ok_member [OF t mem refl]) (auto simp del: run_thread.simps dest: run_thread_shape)
  then obtain m1 m2 where th: "rope_kernel lm q k pos hdim base (of_nat ?x) m1 = (Ok m2 :: ('e, gpu_mem) outcome)" and s: "shape m1 = shape m"
    by auto
  have "2 * ?x + 1 < 2 ^ 32" using assms(2,3) by linarith
  note i = unat_double_succ [OF this]
  from rope_kernel_loads [OF th] have b: "q < length m1" "4 * (2 * ?x + 1) + 4 \<le> length (m1 ! q)"
    unfolding i by (blast dest: load32_bound)+
  then have "q < length m" using shape_length [OF s] by simp
  with b(2) have "4 * (2 * ?x + 1) + 4 \<le> 4 * n" using shape_nth [OF s, of q] assms(1) by simp
  with assms(2) show False by (cases w) simp_all
qed

text \<open>Rotating a pair that ends past its buffer reads and writes there.\<close>

lemma rotation_outside:
  assumes "length (m ! b) = 4 * n" "n \<le> unat (i + 1)"
  shows "rotate_pair b i c s m = (Panic :: ('e, gpu_mem) outcome)" "store32 b (unat (i + 1)) v m = (Panic :: ('e, gpu_mem) outcome)"
  using assms by (auto simp: rotate_pair_def load32_def load32_at_def store32_def store32_at_def)

section \<open>What every layer encodes\<close>

text \<open>The dispatches to follow: rotations and updates of the cache.\<close>

fun marked_call :: "kernel_call \<Rightarrow> bool" where
  "marked_call (Rope _ _ _ _ _) = True"
| "marked_call (Kv_update _) = True"
| "marked_call (Kv_update_int8 _) = True"
| "marked_call _ = False"

definition marked :: "dispatch list \<Rightarrow> dispatch list" where
  "marked cb = filter (\<lambda>d. marked_call (dp_call d)) cb"

definition quiet :: "(encoding, 'e, 'a) act \<Rightarrow> bool" where
  "quiet f \<longleftrightarrow> (\<forall>g m cb r g' m' cb'. f (g, m, cb) = (r, g', m', cb') \<longrightarrow> marked cb' = marked cb)"

named_theorems quiets

lemma quiet_and_then [quiets]: "quiet f \<Longrightarrow> (\<And>a. quiet (h a)) \<Longrightarrow> quiet (and_then f h)"
  unfolding quiet_def by (auto simp: and_then_def split: prod.splits outcome.splits)

lemma quiet_ret [quiets]: "quiet (ret x)"
  by (simp add: quiet_def ret_def)

lemma quiet_with_meta [quiets]: "(\<And>meta. quiet (f meta)) \<Longrightarrow> quiet (with_meta f)"
  by (simp add: quiet_def with_meta_def)

lemma quiet_if_weight [quiets]: "(\<And>w. quiet (f w)) \<Longrightarrow> quiet (if_weight name f)"
  by (auto simp: quiet_def if_weight_def split: option.splits)

lemma quiet_emit [quiets]: "\<not> marked_call c \<Longrightarrow> quiet (emit dev c w h)"
  by (auto simp: quiet_def emit_def marked_def)

lemma quiet_emit_or_err [quiets]: "\<not> marked_call c \<Longrightarrow> quiet (emit_or_err dev t c w h)"
  by (auto simp: quiet_def emit_or_err_def marked_def)

lemma quiet_scratch [quiets]: "quiet (scratch dev name n)"
  by (auto simp: quiet_def scratch_def split: prod.splits)

lemma quiet_write_embeddings [quiets]: "quiet (write_embeddings hidden toks)"
  by (auto simp: quiet_def write_embeddings_def Let_def split: option.splits outcome.splits)

lemma quiet_matvec [quiets]: "quiet (dispatch_matvec dev out w x rows cols)"
  unfolding dispatch_matvec_def Let_def by (intro quiets) simp

lemma quiet_rms_norm [quiets]: "quiet (dispatch_rms_norm dev out inp w n)"
  unfolding dispatch_rms_norm_def by (intro quiets) simp

lemma quiet_silu_mul [quiets]: "quiet (dispatch_silu_mul dev gate up n)"
  unfolding dispatch_silu_mul_def by (intro quiets) simp_all

lemma quiet_paged_attention [quiets]: "quiet (dispatch_paged_attention dev out q kp pos)"
  unfolding dispatch_paged_attention_def Let_def by (intro quiets) simp

lemma quiet_project_all [quiets]: "(\<And>out w x rows cols. quiet (mv out w x rows cols)) \<Longrightarrow> quiet (project_all dev mv l x cols ps)"
  by (induction ps) (auto intro!: quiets)

lemma quiet_pass_attn_out [quiets]: "quiet (pass_attn_out dev kp pos hidden l q)"
  unfolding pass_attn_out_def Let_def by (intro quiets) simp

lemma quiet_pass_mlp [quiets]: "quiet (pass_mlp dev hidden l)"
  unfolding pass_mlp_def Let_def by (intro quiets) simp

lemma quiet_pass_head [quiets]: "quiet (pass_head dev hidden)"
  unfolding pass_head_def Let_def by (intro quiets)

text \<open>A state of the encoding: scratch buffers that are known, and the marked dispatches so far.\<close>

definition enc_at :: "model_meta \<Rightarrow> (string \<times> buf_id) list \<Rightarrow> dispatch list \<Rightarrow> encoding \<Rightarrow> bool" where
  "enc_at meta known ms = (\<lambda>(g, m, cb).
     gm_meta g = meta \<and> scratch_ok g m \<and> marked cb = ms \<and>
     (\<forall>(name, b) \<in> set known. map_of (gm_scratch g) name = Some b \<and> pass_size meta name \<noteq> None))"

definition triple :: "(encoding \<Rightarrow> bool) \<Rightarrow> (encoding, 'e, 'a) act \<Rightarrow> ('a \<Rightarrow> encoding \<Rightarrow> bool) \<Rightarrow> bool" where
  "triple P f Q \<longleftrightarrow> (\<forall>s a s'. P s \<longrightarrow> f s = (Ok a, s') \<longrightarrow> Q a s')"

lemma triple_and_then: "triple P f R \<Longrightarrow> (\<And>a. triple (R a) (h a) Q) \<Longrightarrow> triple P (and_then f h) Q"
  unfolding triple_def by (auto simp: and_then_Ok_iff) blast

lemma triple_ret: "(\<And>s. P s \<Longrightarrow> Q x s) \<Longrightarrow> triple P (ret x) Q"
  by (simp add: triple_def ret_def)

lemma triple_weaken: "triple P f R \<Longrightarrow> (\<And>a s. R a s \<Longrightarrow> Q a s) \<Longrightarrow> triple P f Q"
  unfolding triple_def by blast

lemma triple_with_meta: "triple (enc_at meta known ms) (f meta) Q \<Longrightarrow> triple (enc_at meta known ms) (with_meta f) Q"
  by (auto simp: triple_def enc_at_def with_meta_def)

lemma enc_at_later:
  assumes "enc_at meta known ms (g, m, cb)" "later (g, m, cb) (g', m', cb')" "marked cb' = ms'"
  shows "enc_at meta known ms' (g', m', cb')"
  using assms by (auto simp: enc_at_def later_def)

lemma triple_quiet:
  assumes "extends meta f" "quiet f"
  shows "triple (enc_at meta known ms) f (\<lambda>_. enc_at meta known ms)"
  unfolding triple_def
proof (intro allI impI)
  fix s a s' assume s: "enc_at meta known ms s" "f s = (Ok a, s')"
  obtain g m cb where g: "s = (g, m, cb)" by (metis surj_pair)
  obtain g' m' cb' where g': "s' = (g', m', cb')" by (metis surj_pair)
  have "later (g, m, cb) s'" using s g by (intro extendsD [OF assms(1)]) (auto simp: enc_at_def)
  moreover have "marked cb' = ms" using assms(2) s g g' by (auto simp: quiet_def enc_at_def)
  ultimately show "enc_at meta known ms s'" using s(1) g g' enc_at_later by blast
qed

lemma triple_scratch:
  assumes "pass_size meta name = Some n"
  shows "triple (enc_at meta known ms) (scratch dev name n) (\<lambda>b. enc_at meta ((name, b) # known) ms)"
  unfolding triple_def
proof (intro allI impI)
  fix s b s' assume s: "enc_at meta known ms s" "scratch dev name n s = (Ok b, s')"
  have "extends meta (scratch dev name n :: (encoding, spec_error, buf_id) act)" using assms by (intro extends_scratch) simp
  from triple_quiet [OF this quiet_scratch] s have e: "enc_at meta known ms s'" unfolding triple_def by blast
  obtain g m cb where g: "s = (g, m, cb)" by (metis surj_pair)
  obtain g' m' cb' where g': "s' = (g', m', cb')" by (metis surj_pair)
  have "map_of (gm_scratch g') name = Some b"
    by (rule scratch_Ok [OF s(2) [unfolded g g'] _ _ assms]) (use s g in \<open>auto simp: enc_at_def\<close>)
  with e g' assms show "enc_at meta ((name, b) # known) ms s'" by (simp add: enc_at_def)
qed

lemma then_quiet:
  assumes "extends meta f" "quiet f" "\<And>a. triple (enc_at meta known ms) (h a) Q"
  shows "triple (enc_at meta known ms) (and_then f h) Q"
  by (rule triple_and_then [OF triple_quiet [OF assms(1,2)] assms(3)])

lemma then_scratch:
  assumes "pass_size meta name = Some n" "\<And>b. triple (enc_at meta ((name, b) # known) ms) (h b) Q"
  shows "triple (enc_at meta known ms) (and_then (scratch dev name n) h) Q"
  by (rule triple_and_then [OF triple_scratch [OF assms(1)] assms(2)])

lemma triple_marked:
  assumes "marked_call c"
  shows "triple (enc_at meta known ms) (emit dev c w h) (\<lambda>_. enc_at meta known (ms @ [\<lparr>dp_call = c, dp_width = w, dp_height = h\<rparr>]))"
  using assms by (auto simp: triple_def enc_at_def emit_def marked_def split: if_splits)

text \<open>The rotation and the update of the cache that a layer encodes with its buffers.\<close>

definition rope_dispatch :: "model_meta \<Rightarrow> usize \<Rightarrow> buf_id \<Rightarrow> buf_id \<Rightarrow> dispatch" where
  "rope_dispatch meta pos q k =
     \<lparr>dp_call = Rope q k (of_nat pos) (of_nat (mm_head_dim meta)) (mm_rope_freq_base meta),
      dp_width = (mm_n_head meta + mm_n_head_kv meta) * mm_head_dim meta div 2, dp_height = 1\<rparr>"

definition kv_dispatch :: "model_meta \<Rightarrow> kv_place \<Rightarrow> usize \<Rightarrow> buf_id \<Rightarrow> buf_id \<Rightarrow> dispatch" where
  "kv_dispatch meta kp pos k v =
     (if kp_type kp = Fp32
      then \<lparr>dp_call = Kv_update (kv_args_of meta kp k v pos), dp_width = mm_n_head_kv meta * mm_head_dim meta, dp_height = 1\<rparr>
      else \<lparr>dp_call = Kv_update_int8 (kv_args_of meta kp k v pos), dp_width = mm_n_head_kv meta, dp_height = 1\<rparr>)"

definition layer_marks :: "model_meta \<Rightarrow> kv_place \<Rightarrow> usize \<Rightarrow> buf_id \<Rightarrow> buf_id \<Rightarrow> buf_id \<Rightarrow> dispatch list" where
  "layer_marks meta kp pos q k v = [rope_dispatch meta pos q k, kv_dispatch meta kp pos k v]"

definition known_qkv :: "buf_id \<Rightarrow> buf_id \<Rightarrow> buf_id \<Rightarrow> (string \<times> buf_id) list" where
  "known_qkv q k v = [(''v'', v), (''k'', k), (''q'', q)]"

lemma triple_qkv:
  "triple (enc_at meta known ms) (pass_qkv dev hidden l) (\<lambda>(q, k, v). enc_at meta (known_qkv q k v @ known) ms)"
  unfolding pass_qkv_def Let_def known_qkv_def
  apply (rule triple_with_meta)
  apply (rule then_quiet, intro extends_intros, intro quiets)
  apply (rule then_scratch, simp)+
  apply (rule then_quiet, intro extends_intros, intro quiets)
  apply (rule triple_ret, simp)
  done

lemma triple_ex: "(\<And>x. triple (P x) f Q) \<Longrightarrow> triple (\<lambda>s. \<exists>x. P x s) f Q"
  unfolding triple_def by blast

lemma triple_attention:
  "triple (enc_at meta known ms) (pass_attention dev kp pos hidden l)
     (\<lambda>_ s. \<exists>q k v. enc_at meta (known_qkv q k v @ known) (ms @ layer_marks meta kp pos q k v) s)"
proof -
  have rope: "triple (enc_at meta kn ms) (dispatch_rope dev q k pos) (\<lambda>_. enc_at meta kn (ms @ [rope_dispatch meta pos q k]))" for kn q k
    unfolding dispatch_rope_def rope_dispatch_def by (intro triple_with_meta triple_marked) simp
  have kv: "triple (enc_at meta kn ms') (dispatch_kv_update dev k v kp pos) (\<lambda>_. enc_at meta kn (ms' @ [kv_dispatch meta kp pos k v]))" for kn ms' k v
    unfolding dispatch_kv_update_def kv_dispatch_def Let_def
    by (cases "kp_type kp = Fp32") (simp_all, (intro triple_with_meta triple_marked, simp)+)
  have out: "triple (enc_at meta kn ms') (pass_attn_out dev kp pos hidden l q) (\<lambda>_. enc_at meta kn ms')" for kn ms' q
    by (rule triple_quiet; intro extends_intros quiets)
  have "triple (enc_at meta (known_qkv q k v @ known) ms) (and_then (dispatch_rope dev q k pos) (\<lambda>_. and_then (dispatch_kv_update dev k v kp pos)
      (\<lambda>_. pass_attn_out dev kp pos hidden l q))) (\<lambda>_. enc_at meta (known_qkv q k v @ known) (ms @ layer_marks meta kp pos q k v))" for q k v
    by (rule triple_and_then [OF rope], rule triple_and_then [OF kv]) (simp add: layer_marks_def out)
  note rest = this
  show ?thesis
    unfolding pass_attention_def
  proof (rule triple_and_then [OF triple_qkv])
    fix p :: "buf_id \<times> buf_id \<times> buf_id"
    obtain q k v where p: "p = (q, k, v)" by (metis surj_pair)
    show "triple ((\<lambda>(q, k, v). enc_at meta (known_qkv q k v @ known) ms) p)
        (case p of (q, k, v) \<Rightarrow> and_then (dispatch_rope dev q k pos) (\<lambda>_. and_then (dispatch_kv_update dev k v kp pos)
           (\<lambda>_. pass_attn_out dev kp pos hidden l q)))
        (\<lambda>_ s. \<exists>q k v. enc_at meta (known_qkv q k v @ known) (ms @ layer_marks meta kp pos q k v) s)"
      unfolding p prod.case by (rule triple_weaken [OF rest]) blast
  qed
qed

lemma enc_at_same:
  assumes "enc_at meta (known_qkv q' k' v' @ known_qkv q k v @ known) ms s"
  shows "q' = q" "k' = k" "v' = v"
  using assms by (auto simp: enc_at_def known_qkv_def split: prod.splits)

lemma enc_at_subset: "enc_at meta known ms s \<Longrightarrow> set known' \<subseteq> set known \<Longrightarrow> enc_at meta known' ms s"
  unfolding enc_at_def by (cases s) auto

text \<open>The layers use the same buffers, so what they encode for the rotation and the cache is the same over and over.\<close>

lemma triple_layers:
  "triple (enc_at meta (known_qkv q k v) ms) (pass_layers dev kp pos hidden ls)
     (\<lambda>_. enc_at meta (known_qkv q k v) (ms @ concat (replicate (length ls) (layer_marks meta kp pos q k v))))"
proof (induction ls arbitrary: ms)
  case Nil
  show ?case by (simp add: triple_ret)
next
  case (Cons l ls)
  let ?lm = "layer_marks meta kp pos q k v"
  have at: "triple (enc_at meta (known_qkv q k v) ms) (pass_attention dev kp pos hidden l) (\<lambda>_. enc_at meta (known_qkv q k v) (ms @ ?lm))"
    by (rule triple_weaken [OF triple_attention]) (metis append.right_neutral enc_at_same enc_at_subset set_append sup_ge2)
  have mlp: "triple (enc_at meta (known_qkv q k v) (ms @ ?lm)) (pass_mlp dev hidden l) (\<lambda>_. enc_at meta (known_qkv q k v) (ms @ ?lm))"
    by (rule triple_quiet; intro extends_intros quiets)
  show ?case
    using triple_and_then [OF at triple_and_then [OF mlp Cons.IH]] by simp
qed

lemma triple_all_layers:
  "triple (enc_at meta known ms) (pass_layers dev kp pos hidden (l # ls))
     (\<lambda>_ s. \<exists>q k v. enc_at meta (known_qkv q k v) (ms @ concat (replicate (Suc (length ls)) (layer_marks meta kp pos q k v))) s)"
proof -
  have mlp: "triple (enc_at meta (known_qkv q k v) ms') (pass_mlp dev hidden l) (\<lambda>_. enc_at meta (known_qkv q k v) ms')" for q k v ms'
    by (rule triple_quiet; intro extends_intros quiets)
  have "triple (\<lambda>s. \<exists>q k v. enc_at meta (known_qkv q k v) (ms @ layer_marks meta kp pos q k v) s)
      (and_then (pass_mlp dev hidden l) (\<lambda>_. pass_layers dev kp pos hidden ls))
      (\<lambda>_ s. \<exists>q k v. enc_at meta (known_qkv q k v) (ms @ concat (replicate (Suc (length ls)) (layer_marks meta kp pos q k v))) s)"
    by (intro triple_ex, rule triple_weaken [OF triple_and_then [OF mlp triple_layers]]) auto
  note rest = this
  have at: "triple (enc_at meta known ms) (pass_attention dev kp pos hidden l)
      (\<lambda>_ s. \<exists>q k v. enc_at meta (known_qkv q k v) (ms @ layer_marks meta kp pos q k v) s)"
    by (rule triple_weaken [OF triple_attention], elim exE, intro exI, erule enc_at_subset) simp
  show ?thesis unfolding pass_layers.simps by (rule triple_and_then [OF at rest])
qed

lemma forward_marks:
  assumes "forward dev tok pos kp (g, m) = (Ok (cb, logits), g', m')" "scratch_ok g m" "0 < mm_n_layer (gm_meta g)"
  shows "\<exists>q k v. marked cb = concat (replicate (mm_n_layer (gm_meta g)) (layer_marks (gm_meta g) kp pos q k v)) \<and>
    q < length m' \<and> length (m' ! q) = mm_n_embd (gm_meta g) * 4 \<and> k < length m' \<and> length (m' ! k) = mm_n_embd (gm_meta g) * 4"
proof -
  let ?meta = "gm_meta g"
  obtain n where n: "[0..<mm_n_layer ?meta] = 0 # [Suc 0..<mm_n_layer ?meta]" using assms(3) by (simp add: upt_conv_Cons)
  have emb: "triple (enc_at ?meta kn []) (write_embeddings hidden [tok]) (\<lambda>_. enc_at ?meta kn [])" for kn hidden
    by (rule triple_quiet; intro extends_intros quiets)
  have head: "triple (enc_at ?meta kn ms) (pass_head dev hidden) (\<lambda>_. enc_at ?meta kn ms)" for kn ms hidden
    by (rule triple_quiet; intro extends_intros quiets)
  let ?Q = "\<lambda>s. \<exists>q k v. enc_at ?meta (known_qkv q k v) (concat (replicate (mm_n_layer ?meta) (layer_marks ?meta kp pos q k v))) s"
  have "triple (enc_at ?meta [] []) (encode_forward dev tok pos kp ?meta) (\<lambda>_. ?Q)"
    unfolding encode_forward_def n
    apply (rule then_scratch, simp)
    apply (rule triple_and_then [OF emb])
    apply (rule triple_and_then [OF triple_all_layers])
    apply (intro triple_ex)
    apply (rule triple_weaken [OF head])
    using assms(3) by auto
  moreover have "enc_at ?meta [] [] (g, m, [])" using assms(2) by (simp add: enc_at_def marked_def)
  ultimately have "?Q (g', m', cb)" using forward_Ok(1) [OF assms(1,2)] unfolding triple_def by blast
  then obtain q k v where e: "enc_at ?meta (known_qkv q k v) (concat (replicate (mm_n_layer ?meta) (layer_marks ?meta kp pos q k v))) (g', m', cb)"
    by blast
  then have "map_of (gm_scratch g') ''q'' = Some q" "map_of (gm_scratch g') ''k'' = Some k" "scratch_ok g' m'" "gm_meta g' = ?meta"
    by (auto simp: enc_at_def known_qkv_def)
  then have "q < length m' \<and> length (m' ! q) = mm_n_embd ?meta * 4 \<and> k < length m' \<and> length (m' ! k) = mm_n_embd ?meta * 4"
    by (auto simp: scratch_ok_def)
  with e show ?thesis by (auto simp: enc_at_def)
qed

section \<open>The models that a program can have\<close>

lemma extends_upload_ancestors [extends_intros]: "extends meta (upload_ancestors dev tree)"
  by (auto simp: extends_def upload_ancestors_def later_def scratch_ok_def nth_append intro: less_SucI split: outcome.splits)

lemma extends_tree_layers [extends_intros]: "extends meta (tree_layers dev n pos kp hidden anc ls)"
proof (induction ls)
  case (Cons l ls)
  have "extends meta (tree_layer dev n pos kp hidden anc l)"
    unfolding tree_layer_def Let_def by (intro extends_intros; simp add: pass_size_def)
  with Cons show ?case by (auto intro!: extends_intros)
qed (simp add: extends_ret)

lemma encoded_later:
  assumes "extends (gm_meta g) f" "scratch_ok g m" "encoded dev f (g, m) = (r, g', m')"
  shows "scratch_ok g' m'"
proof (cases "gd_command_buffers dev")
  case True
  obtain x g1 m1 cb1 where x: "f (g, m, []) = (x, g1, m1, cb1)" by (metis surj_pair)
  from extendsD [OF assms(1) refl assms(2) x] have "scratch_ok g1 m1" by (simp add: later_def)
  with x True assms(3) show ?thesis by (cases x) (auto simp: encoded_def)
next
  case False
  with assms(2,3) show ?thesis by (simp add: encoded_def)
qed

lemma forward_scratch_ok: "forward dev tok pos kp (g, m) = (r, g', m') \<Longrightarrow> scratch_ok g m \<Longrightarrow> scratch_ok g' m'"
  using encoded_later [OF extends_forward] by (simp add: forward_def encode_forward_def)

lemma forward_tree_scratch_ok:
  assumes "forward_tree dev tree pos kp (g, m) = (r, g', m')" "scratch_ok g m"
  shows "scratch_ok g' m'"
proof -
  let ?n = "length tree" and ?meta = "gm_meta g"
  have "extends ?meta (and_then (scratch dev ''hidden_state_tree'' (?n * mm_n_embd ?meta * 4)) (\<lambda>hidden.
      and_then (write_embeddings hidden (map node_token tree)) (\<lambda>_. and_then (upload_ancestors dev tree) (\<lambda>anc.
      and_then (tree_layers dev ?n pos kp hidden anc [0..<mm_n_layer ?meta]) (\<lambda>_.
      and_then (scratch dev ''logits_tree'' (?n * mm_n_vocab ?meta * 4)) (\<lambda>logits.
      and_then (if_weight (ascii ''output.weight'') (\<lambda>w. dispatch_matvec_batched dev logits w hidden (mm_n_vocab ?meta) (mm_n_embd ?meta) ?n)) (\<lambda>_.
        ret logits)))))))"
    by (intro extends_intros; simp add: pass_size_def)
  from encoded_later [OF this assms(2)] assms(1) show ?thesis by (simp add: forward_tree_def Let_def)
qed

lemma commit_scratch_ok: "commit lm junk cb m = Ok m' \<Longrightarrow> scratch_ok g m \<Longrightarrow> scratch_ok g m'"
  using commit_shape later_same_shape by (fastforce simp: later_def)

lemma run_scratch_ok:
  assumes "run lm junk dev tok pos kp (g, m) = (r, g', m')" "scratch_ok g m"
  shows "scratch_ok g' m'"
proof -
  obtain x g1 m1 where f: "forward dev tok pos kp (g, m) = (x, g1, m1)" by (metis surj_pair)
  from forward_scratch_ok [OF f assms(2)] have ok: "scratch_ok g1 m1" .
  with assms(1) f show ?thesis
    by (cases x) (auto simp: run_def and_then_def split: outcome.splits dest: commit_scratch_ok)
qed

lemma get_scratch_ok:
  assumes "get_scratch dev name n (g, m) = (r, g', m')" "scratch_ok g m" "pass_size (gm_meta g) name = Some n"
  shows "scratch_ok g' m' \<and> gm_meta g' = gm_meta g \<and> length m \<le> length m' \<and> (\<forall>b < length m. length (m' ! b) = length (m ! b))"
proof -
  have "extends (gm_meta g) (scratch dev name n :: (encoding, spec_error, buf_id) act)" using assms(3) by (intro extends_scratch) simp
  moreover have "scratch dev name n (g, m, []) = (r, g', m', [])" by (simp add: scratch_def assms(1))
  ultimately show ?thesis using extendsD [OF _ refl assms(2)] by (fastforce simp: later_def)
qed

lemma sample_scratch_ok:
  assumes "sample_argmax lm junk dev cb logits (g, m) = (r, g', m')" "scratch_ok g m"
  shows "scratch_ok g' m'"
proof -
  obtain x g1 m1 where f: "get_scratch dev ''argmax_out'' 4 (g, m) = (x, g1, m1)" by (metis surj_pair)
  from get_scratch_ok [OF f assms(2)] have ok: "scratch_ok g1 m1" by simp
  with assms(1) f show ?thesis
    by (cases x) (auto simp: sample_argmax_def and_then_def emit_or_err_def Let_def split: outcome.splits if_splits dest: commit_scratch_ok)
qed

lemma run_with_sampling_scratch_ok:
  assumes "run_with_sampling lm junk dev tok pos kp (g, m) = (r, g', m')" "scratch_ok g m"
  shows "scratch_ok g' m'"
proof -
  obtain x g1 m1 where f: "forward dev tok pos kp (g, m) = (x, g1, m1)" by (metis surj_pair)
  from forward_scratch_ok [OF f assms(2)] have ok: "scratch_ok g1 m1" .
  with assms(1) f show ?thesis
    by (cases x) (auto simp: run_with_sampling_def and_then_def dest: sample_scratch_ok)
qed

lemma upload_all_scratch_ok:
  "upload_all dev ws names (g, m) = (r, g', m') \<Longrightarrow> scratch_ok g m \<Longrightarrow> scratch_ok g' m'"
proof (induction names arbitrary: g m)
  case (Cons name names)
  have ok: "scratch_ok (g\<lparr>gm_weights := ws\<rparr>) (m @ [bytes])" for ws bytes
    using Cons.prems(2) by (auto simp: scratch_ok_def nth_append intro: less_SucI)
  show ?case
    using Cons.prems Cons.IH [OF _ ok]
    by (auto simp: new_buffer_def Let_def split: outcome.splits option.splits if_splits)
qed simp

text \<open>A model is made, given weights and run; meanwhile others allocate buffers and write to them.\<close>

inductive model_reach :: "metal_model \<Rightarrow> gpu_mem \<Rightarrow> bool" where
  new: "model_reach (metal_model_new meta compiles) m"
| upload: "model_reach g m \<Longrightarrow> upload_weights dev ws (g, m) = (r, g', m') \<Longrightarrow> model_reach g' m'"
| run: "model_reach g m \<Longrightarrow> run lm junk dev tok pos kp (g, m) = (r, g', m') \<Longrightarrow> model_reach g' m'"
| sampling: "model_reach g m \<Longrightarrow> run_with_sampling lm junk dev tok pos kp (g, m) = (r, g', m') \<Longrightarrow> model_reach g' m'"
| tree: "model_reach g m \<Longrightarrow> forward_tree dev tree pos kp (g, m) = (r, g', m') \<Longrightarrow> model_reach g' m'"
| others: "model_reach g m \<Longrightarrow> length m \<le> length m' \<Longrightarrow> \<forall>b < length m. length (m' ! b) = length (m ! b) \<Longrightarrow> model_reach g m'"

lemma model_reach_ok: "model_reach g m \<Longrightarrow> scratch_ok g m"
proof (induction rule: model_reach.induct)
  case (new meta compiles m)
  show ?case by (simp add: scratch_ok_def metal_model_new_def)
next
  case (others g m m')
  then show ?case by (fastforce simp: scratch_ok_def)
qed (auto simp: upload_weights_def dest: upload_all_scratch_ok run_scratch_ok run_with_sampling_scratch_ok forward_tree_scratch_ok)

lemma pass_overruns:
  assumes "forward dev tok pos kp (g, m) = (Ok (cb, logits), g1, m1)" "scratch_ok g m" "0 < mm_n_layer (gm_meta g)"
    and "mm_n_embd (gm_meta g) < 2 * ((mm_n_head (gm_meta g) + mm_n_head_kv (gm_meta g)) * mm_head_dim (gm_meta g) div 2)"
    and "2 * ((mm_n_head (gm_meta g) + mm_n_head_kv (gm_meta g)) * mm_head_dim (gm_meta g) div 2) \<le> 2 ^ 32"
    and "length m1 \<le> length m2" "\<forall>b < length m1. length (m2 ! b) = length (m1 ! b)"
  shows "commit lm junk (cb @ ds) m2 \<noteq> (Ok m3 :: ('e, gpu_mem) outcome)"
proof
  assume c: "commit lm junk (cb @ ds) m2 = (Ok m3 :: ('e, gpu_mem) outcome)"
  from forward_marks [OF assms(1-3)] obtain q k v where
    mk: "marked cb = concat (replicate (mm_n_layer (gm_meta g)) (layer_marks (gm_meta g) kp pos q k v))"
    and q: "q < length m1" "length (m1 ! q) = mm_n_embd (gm_meta g) * 4" by blast
  have "rope_dispatch (gm_meta g) pos q k \<in> set (marked cb)"
    unfolding mk using assms(3) by (cases "mm_n_layer (gm_meta g)") (auto simp: layer_marks_def)
  then have mem: "rope_dispatch (gm_meta g) pos q k \<in> set (cb @ ds)" by (auto simp: marked_def)
  have "\<exists>m4 m5. run_dispatch lm junk (rope_dispatch (gm_meta g) pos q k) m4 = (Ok m5 :: ('e, gpu_mem) outcome) \<and> shape m4 = shape m2"
    by (rule loop_Ok_member [OF c [unfolded commit_def] mem refl]) (auto dest: run_dispatch_shape)
  then obtain m4 m5 where r: "run_dispatch lm junk (rope_dispatch (gm_meta g) pos q k) m4 = (Ok m5 :: ('e, gpu_mem) outcome)" "shape m4 = shape m2"
    by blast
  have "length (m4 ! q) = 4 * mm_n_embd (gm_meta g)" using shape_nth [OF r(2), of q] q assms(6,7) by simp
  from rope_overruns [OF this assms(4,5)] r(1) show False unfolding rope_dispatch_def by blast
qed

text \<open>C23. The forward pass on Metal writes outside its buffers: a query has \<open>n_head * head_dim\<close> elements and a key
  \<open>n_head_kv * head_dim\<close>, but the rotation is launched with a thread for every pair of both together, and each thread rotates a
  pair of the queries and one of the keys. Both buffers hold \<open>n_embd\<close> floats. So when that is less (as it is when
  the heads fill the embedding and there is a key head), in whatever state a model with a layer and its memory are, every
  pass that is encoded has that launch, and it has a thread whose pair reads and writes past the end of the queries and past the
  end of the keys; the commands have no defined result, and neither \<open>run\<close> nor
  \<open>run_with_sampling\<close> returns one.\<close>

theorem metal_forward_overruns:
  assumes "model_reach g m" "0 < mm_n_layer (gm_meta g)"
    and "mm_n_embd (gm_meta g) < 2 * ((mm_n_head (gm_meta g) + mm_n_head_kv (gm_meta g)) * mm_head_dim (gm_meta g) div 2)"
    and "2 * ((mm_n_head (gm_meta g) + mm_n_head_kv (gm_meta g)) * mm_head_dim (gm_meta g) div 2) \<le> 2 ^ 32"
    and "forward dev tok pos kp (g, m) = (Ok (cb, logits), g', m')"
  shows "(\<exists>q k. rope_dispatch (gm_meta g) pos q k \<in> set cb \<and>
      (\<forall>b \<in> {q, k}. b < length m' \<and> length (m' ! b) = 4 * mm_n_embd (gm_meta g)) \<and>
      (\<exists>t < (mm_n_head (gm_meta g) + mm_n_head_kv (gm_meta g)) * mm_head_dim (gm_meta g) div 2.
         \<forall>mem. shape mem = shape m' \<longrightarrow> (\<forall>b \<in> {q, k}. \<forall>c s v.
           rotate_pair b (of_nat t * 2) c s mem = (Panic :: (spec_error, gpu_mem) outcome) \<and>
           store32 b (unat (of_nat t * 2 + 1 :: u32)) v mem = (Panic :: (spec_error, gpu_mem) outcome)))) \<and>
    commit lm junk cb m' \<noteq> (Ok m3 :: (spec_error, gpu_mem) outcome) \<and>
    fst (run lm junk dev tok pos kp (g, m)) \<noteq> Ok ls \<and> fst (run_with_sampling lm junk dev tok pos kp (g, m)) \<noteq> Ok u"
proof -
  let ?meta = "gm_meta g"
  let ?W = "(mm_n_head ?meta + mm_n_head_kv ?meta) * mm_head_dim ?meta div 2"
  note ok = model_reach_ok [OF assms(1)] and F = assms(5)
  from forward_marks [OF F ok assms(2)] obtain q k v where
    mk: "marked cb = concat (replicate (mm_n_layer ?meta) (layer_marks ?meta kp pos q k v))"
    and qk: "\<forall>b \<in> {q, k}. b < length m' \<and> length (m' ! b) = 4 * mm_n_embd ?meta" by (auto simp: mult.commute)
  have "rope_dispatch ?meta pos q k \<in> set (marked cb)"
    unfolding mk using assms(2) by (cases "mm_n_layer ?meta") (auto simp: layer_marks_def)
  then have launched: "rope_dispatch ?meta pos q k \<in> set cb" by (auto simp: marked_def)
  have W: "?W - 1 < ?W" "2 * (?W - 1) + 1 < 2 ^ 32" "mm_n_embd ?meta \<le> 2 * (?W - 1) + 1" using assms(3,4) by linarith+
  have out: "rotate_pair b (of_nat (?W - 1) * 2) c s mem = (Panic :: (spec_error, gpu_mem) outcome) \<and>
      store32 b (unat (of_nat (?W - 1) * 2 + 1 :: u32)) v mem = (Panic :: (spec_error, gpu_mem) outcome)"
    if "shape mem = shape m'" "b \<in> {q, k}" for mem b c s v
    using qk that(2) shape_nth [OF that(1), of b] rotation_outside [of mem b "mm_n_embd ?meta" "of_nat (?W - 1) * 2"]
    unfolding unat_double_succ [OF W(2)] by (auto simp: W(3) simp del: One_nat_def)
  have overrun: "\<exists>q k. rope_dispatch (gm_meta g) pos q k \<in> set cb \<and>
      (\<forall>b \<in> {q, k}. b < length m' \<and> length (m' ! b) = 4 * mm_n_embd (gm_meta g)) \<and>
      (\<exists>t < (mm_n_head (gm_meta g) + mm_n_head_kv (gm_meta g)) * mm_head_dim (gm_meta g) div 2.
         \<forall>mem. shape mem = shape m' \<longrightarrow> (\<forall>b \<in> {q, k}. \<forall>c s v.
           rotate_pair b (of_nat t * 2) c s mem = (Panic :: (spec_error, gpu_mem) outcome) \<and>
           store32 b (unat (of_nat t * 2 + 1 :: u32)) v mem = (Panic :: (spec_error, gpu_mem) outcome)))"
    by (rule exI [of _ q], rule exI [of _ k], intro conjI launched qk, rule exI [of _ "?W - 1"], intro conjI W(1)) (use out in blast)
  have c: "commit lm junk cb m' \<noteq> (Ok m3 :: (spec_error, gpu_mem) outcome)" for m3
    using pass_overruns [OF F ok assms(2-4), of m' lm junk "[]"] by simp
  then have run: "fst (run lm junk dev tok pos kp (g, m)) \<noteq> Ok ls" by (auto simp: run_def and_then_def F split: outcome.splits)
  have ok1: "scratch_ok g' m'" by (rule forward_scratch_ok [OF F ok])
  have "fst (sample_argmax lm junk dev cb logits (g', m')) \<noteq> Ok u"
  proof -
    obtain y g2 m2 where s: "get_scratch dev ''argmax_out'' 4 (g', m') = (y, g2, m2)" by (metis surj_pair)
    from get_scratch_ok [OF s ok1] have "length m' \<le> length m2" "\<forall>b < length m'. length (m2 ! b) = length (m' ! b)" by simp_all
    from pass_overruns [OF F ok assms(2-4) this, of lm junk] have "commit lm junk (cb @ ds) m2 \<noteq> (Ok m3 :: (spec_error, gpu_mem) outcome)" for ds m3 .
    then show ?thesis
      by (cases y) (auto simp: sample_argmax_def and_then_def s emit_or_err_def Let_def split: outcome.splits if_splits)
  qed
  then have "fst (run_with_sampling lm junk dev tok pos kp (g, m)) \<noteq> Ok u" by (simp add: run_with_sampling_def and_then_def F)
  with overrun c run show ?thesis by (intro conjI)
qed

definition narrow_meta :: model_meta where
  "narrow_meta = tiny_meta\<lparr>mm_n_layer := 1, mm_n_embd := 2, mm_head_dim := 2\<rparr>"

definition any_place :: kv_place where
  "any_place = \<lparr>kp_slot = 0, kp_mapping = 0, kp_k_pool = 0, kp_v_pool = 0, kp_max_pages = 1, kp_block_size = 1, kp_type = Fp32\<rparr>"

lemma narrow_forward:
  "\<exists>cb logits g' m'. forward open_device 0 0 any_place (metal_model_new narrow_meta (\<lambda>_. True), []) = (Ok (cb, logits), g', m')"
proof -
  have "is_Ok (fst (forward open_device 0 0 any_place (metal_model_new narrow_meta (\<lambda>_. True), [])))"
    by (simp add: forward_def encoded_def and_then_def ret_def with_meta_def if_weight_def scratch_def get_scratch_def new_buffer_def emit_def
      write_embeddings_def pass_attention_def pass_qkv_def dispatch_rope_def dispatch_kv_update_def pass_attn_out_def dispatch_paged_attention_def
      pass_mlp_def pass_head_def metal_model_new_def narrow_meta_def tiny_meta_def open_device_def any_place_def kernel_names_def Let_def
      upt_conv_Cons)
  then show ?thesis by (metis is_Ok_iff prod.collapse)
qed

text \<open>One query head and one key head of two elements: the second pair is outside.\<close>

lemma metal_forward_overruns_witness:
  "\<exists>cb logits g' m' q k. forward open_device 0 0 any_place (metal_model_new narrow_meta (\<lambda>_. True), []) = (Ok (cb, logits), g', m') \<and>
     rope_dispatch narrow_meta 0 q k \<in> set cb \<and> length (m' ! q) = 8 \<and> length (m' ! k) = 8 \<and>
     (\<exists>t < 2. \<forall>c s. rotate_pair q (of_nat t * 2) c s m' = (Panic :: (spec_error, gpu_mem) outcome) \<and>
        rotate_pair k (of_nat t * 2) c s m' = (Panic :: (spec_error, gpu_mem) outcome))"
proof -
  let ?g = "metal_model_new narrow_meta (\<lambda>_. True)"
  obtain cb logits g' m' where f: "forward open_device 0 0 any_place (?g, []) = (Ok (cb, logits), g', m')" using narrow_forward by blast
  have r: "model_reach ?g []" by (rule model_reach.new)
  have meta: "gm_meta ?g = narrow_meta" by (simp add: metal_model_new_def)
  have n: "0 < mm_n_layer narrow_meta" "mm_n_embd narrow_meta = 2" "(mm_n_head narrow_meta + mm_n_head_kv narrow_meta) * mm_head_dim narrow_meta div 2 = 2"
    by (simp_all add: narrow_meta_def tiny_meta_def)
  from metal_forward_overruns [OF r, of open_device 0 0 any_place, unfolded meta n, OF n(1) _ _ f, THEN conjunct1]
  obtain q k t where q: "rope_dispatch narrow_meta 0 q k \<in> set cb" "\<forall>b \<in> {q, k}. b < length m' \<and> length (m' ! b) = 4 * 2" "t < 2"
    and p: "\<forall>mem. shape mem = shape m' \<longrightarrow> (\<forall>b \<in> {q, k}. \<forall>c s v.
         rotate_pair b (of_nat t * 2) c s mem = (Panic :: (spec_error, gpu_mem) outcome) \<and>
         store32 b (unat (of_nat t * 2 + 1 :: u32)) v mem = (Panic :: (spec_error, gpu_mem) outcome))" by auto
  have "\<forall>c s. rotate_pair q (of_nat t * 2) c s m' = (Panic :: (spec_error, gpu_mem) outcome) \<and>
      rotate_pair k (of_nat t * 2) c s m' = (Panic :: (spec_error, gpu_mem) outcome)"
    using p [rule_format, OF refl] by simp
  with q(3) have "\<exists>t < 2. \<forall>c s. rotate_pair q (of_nat t * 2) c s m' = (Panic :: (spec_error, gpu_mem) outcome) \<and>
      rotate_pair k (of_nat t * 2) c s m' = (Panic :: (spec_error, gpu_mem) outcome)" by (rule_tac exI [of _ t]) (rule conjI)
  moreover have "length (m' ! q) = 8" "length (m' ! k) = 8" using q(2) by simp_all
  ultimately show ?thesis
    using f q(1) by (rule_tac exI [of _ cb], rule_tac exI [of _ logits], rule_tac exI [of _ g'], rule_tac exI [of _ m'], rule_tac exI [of _ q],
      rule_tac exI [of _ k], intro conjI)
qed

fun updates_cache :: "kernel_call \<Rightarrow> bool" where
  "updates_cache (Kv_update a) = True"
| "updates_cache (Kv_update_int8 a) = True"
| "updates_cache _ = False"

lemma cache_updates_marked: "filter (\<lambda>d. updates_cache (dp_call d)) cb = filter (\<lambda>d. updates_cache (dp_call d)) (marked cb)"
proof -
  have "updates_cache c \<Longrightarrow> marked_call c" for c by (cases c) simp_all
  then show ?thesis unfolding marked_def by (induction cb) auto
qed

text \<open>The layers of the model on Metal share one cache: what a forward pass encodes as updates of the cache is one and the same
  update for every layer, of the same elements of the same two buffers, so that each layer overwrites
  what the layers before it stored for the position and all layers attend to what the last one stored
  for the positions before.\<close>

lemma metal_layers_share_cache:
  assumes "model_reach g m" "forward dev tok pos kp (g, m) = (Ok (cb, logits), g', m')" "0 < mm_n_layer (gm_meta g)"
  shows "\<exists>k v. filter (\<lambda>d. updates_cache (dp_call d)) cb = replicate (mm_n_layer (gm_meta g)) (kv_dispatch (gm_meta g) kp pos k v)"
proof -
  from forward_marks [OF assms(2) model_reach_ok [OF assms(1)] assms(3)] obtain q k v where
    mk: "marked cb = concat (replicate (mm_n_layer (gm_meta g)) (layer_marks (gm_meta g) kp pos q k v))" by blast
  have "filter (\<lambda>d. updates_cache (dp_call d)) (concat (replicate n (layer_marks (gm_meta g) kp pos q k v))) = replicate n (kv_dispatch (gm_meta g) kp pos k v)" for n
    by (induction n) (simp_all add: layer_marks_def rope_dispatch_def kv_dispatch_def)
  then show ?thesis unfolding cache_updates_marked [of cb] mk by blast
qed

lemma metal_layers_share_cache_instance:
  "\<exists>cb logits g' m' k v. forward open_device 0 0 any_place (metal_model_new narrow_meta (\<lambda>_. True), []) = (Ok (cb, logits), g', m') \<and>
     filter (\<lambda>d. updates_cache (dp_call d)) cb = replicate 1 (kv_dispatch narrow_meta any_place 0 k v)"
proof -
  have r: "model_reach (metal_model_new narrow_meta (\<lambda>_. True)) []" by (rule model_reach.new)
  obtain cb logits g' m' where f: "forward open_device 0 0 any_place (metal_model_new narrow_meta (\<lambda>_. True), []) =
      (Ok (cb, logits), g', m')" using narrow_forward by blast
  from metal_layers_share_cache [OF r f] f show ?thesis by (auto simp: metal_model_new_def narrow_meta_def)
qed

end
