(* ===== verification/GpuSampling.thy ===== *)
theory GpuSampling
  imports MetalModelProps Sampling
begin

text \<open>
  Greedy sampling on the device (\<open>argmax\<close> in \<open>src/src/kernels.metal\<close>, \<open>sample_argmax\<close> in \<open>src/src/metal/model.rs\<close>):
  the scan of every thread, the exchange within a simdgroup and the last loop together find the largest
  logit.
\<close>

section \<open>The better of two pairs\<close>

definition not_nan :: "f32 \<times> u32 \<Rightarrow> bool" where
  "not_nan p \<longleftrightarrow> \<not> f32_is_nan (fst p)"

definition dominates :: "f32 \<times> u32 \<Rightarrow> f32 \<times> u32 \<Rightarrow> bool" where
  "dominates r p \<longleftrightarrow> \<not> f32_less (fst r) (fst p)"

lemma dominates_refl [simp]: "dominates p p"
  by (simp add: dominates_def f32_less_def)

lemma dominates_trans: "dominates r q \<Longrightarrow> dominates q p \<Longrightarrow> not_nan q \<Longrightarrow> not_nan r \<Longrightarrow> dominates r p"
  by (auto simp: dominates_def not_nan_def f32_less_def)

lemma better_cases:
  assumes "not_nan p"
  shows "not_nan (better p q)" "better p q = p \<or> better p q = q" "dominates (better p q) p" "dominates (better p q) q"
  using assms by (auto simp: better_def not_nan_def dominates_def f32_less_def)

lemma foldl_better:
  assumes "not_nan acc"
  shows "not_nan (foldl better acc ps) \<and> foldl better acc ps \<in> insert acc (set ps) \<and>
    (\<forall>p \<in> insert acc (set ps). dominates (foldl better acc ps) p)"
  using assms
proof (induction ps arbitrary: acc)
  case (Cons q ps)
  let ?b = "better acc q" and ?r = "foldl better acc (q # ps)"
  note B = better_cases [OF Cons.prems, of q]
  from Cons.IH [OF B(1)] have r: "not_nan ?r" "?r \<in> insert ?b (set ps)" "\<forall>p \<in> insert ?b (set ps). dominates ?r p" by simp_all
  have "dominates ?r p" if "dominates ?b p" for p
    using r B(1) that by (blast intro: dominates_trans)
  with r B show ?case by auto
qed simp

section \<open>A simdgroup\<close>

lemma shuffle_round_nth:
  assumes "i < 32"
  shows "shuffle_round d lanes ! i = (if i + d < 32 then better (lanes ! i) (lanes ! (i + d)) else lanes ! i)"
  using assms by (simp add: shuffle_round_def better_def)

lemma shuffle_round_length [simp]: "length (shuffle_round d lanes) = 32"
  by (simp add: shuffle_round_def)

text \<open>After the rounds down to distance \<open>d\<close> a lane dominates the lanes that are a multiple of \<open>d\<close> after it.\<close>

definition reduced :: "(f32 \<times> u32) list \<Rightarrow> nat \<Rightarrow> (f32 \<times> u32) list \<Rightarrow> bool" where
  "reduced lanes d ls \<longleftrightarrow> length ls = 32 \<and>
     (\<forall>k < 32. not_nan (ls ! k) \<and> ls ! k \<in> set lanes \<and> (\<forall>j < 32. k \<le> j \<longrightarrow> (j - k) mod d = 0 \<longrightarrow> dominates (ls ! k) (lanes ! j)))"

lemma reduced_start:
  assumes "length lanes = 32" "\<forall>p \<in> set lanes. not_nan p"
  shows "reduced lanes 32 lanes"
  using assms by (auto simp: reduced_def)

lemma reduced_round:
  assumes "reduced lanes (2 * d) ls" "0 < d"
  shows "reduced lanes d (shuffle_round d ls)"
  unfolding reduced_def
proof (intro conjI allI impI)
  fix k :: nat assume k: "k < 32"
  let ?n = "shuffle_round d ls ! k"
  have lk: "not_nan (ls ! k)" "ls ! k \<in> set lanes" using assms(1) k by (auto simp: reduced_def)
  note n = shuffle_round_nth [OF k, of d ls] and B = better_cases [OF lk(1), of "ls ! (k + d)"]
  have in_lanes: "ls ! (k + d) \<in> set lanes" "not_nan (ls ! (k + d))" if "k + d < 32" using assms(1) that by (auto simp: reduced_def)
  show nn: "not_nan ?n" using n B(1) lk by (simp split: if_splits)
  show "?n \<in> set lanes" using n B(2) lk in_lanes by (auto split: if_splits)
  fix j assume j: "j < 32" "k \<le> j" "(j - k) mod d = 0"
  show "dominates ?n (lanes ! j)"
  proof (cases "(j - k) mod (2 * d) = 0")
    case True
    then have "dominates (ls ! k) (lanes ! j)" using assms(1) k j by (simp add: reduced_def)
    moreover have "dominates ?n (ls ! k)" using n B(3) by (simp split: if_splits)
    ultimately show ?thesis using lk nn by (blast intro: dominates_trans)
  next
    case False
    from j(3) obtain c where c: "j - k = d * c" by auto
    with False have "odd c" by (auto elim!: evenE simp: algebra_simps)
    then obtain e where e: "c = 2 * e + 1" by (auto elim: oddE)
    have jj: "j = k + d + 2 * d * e" using c e j(2) by (simp add: algebra_simps)
    then have d: "k + d < 32" "k + d \<le> j" "(j - (k + d)) mod (2 * d) = 0" using j(1) by auto
    then have "dominates (ls ! (k + d)) (lanes ! j)" using assms(1) j(1) by (simp add: reduced_def)
    moreover have "dominates ?n (ls ! (k + d))" using n d(1) B(4) by simp
    ultimately show ?thesis using in_lanes(2) [OF d(1)] nn by (blast intro: dominates_trans)
  qed
qed simp

lemma simd_best_dominates:
  assumes "length lanes = 32" "\<forall>p \<in> set lanes. not_nan p"
  shows "not_nan (simd_best junk lanes) \<and> simd_best junk lanes \<in> set lanes \<and> (\<forall>p \<in> set lanes. dominates (simd_best junk lanes) p)"
proof -
  define r where "r = foldl (\<lambda>ls d. shuffle_round d ls) lanes [16, 8, 4, 2, 1]"
  have "reduced lanes 16 (shuffle_round 16 lanes)" using reduced_round [of lanes 16] reduced_start [OF assms] by simp
  then have "reduced lanes 8 (shuffle_round 8 (shuffle_round 16 lanes))" using reduced_round [of lanes 8] by simp
  then have "reduced lanes 4 (shuffle_round 4 (shuffle_round 8 (shuffle_round 16 lanes)))" using reduced_round [of lanes 4] by simp
  then have "reduced lanes 2 (shuffle_round 2 (shuffle_round 4 (shuffle_round 8 (shuffle_round 16 lanes))))" using reduced_round [of lanes 2] by simp
  then have "reduced lanes 1 r" unfolding r_def using reduced_round [of lanes 1] by simp
  then have r0: "not_nan (r ! 0)" "r ! 0 \<in> set lanes" "\<forall>j < 32. dominates (r ! 0) (lanes ! j)" by (simp_all add: reduced_def)
  have "simd_best junk lanes = r ! 0" unfolding simd_best_def r_def using assms(1) by simp
  moreover have "\<forall>p \<in> set lanes. dominates (r ! 0) p" using r0(3) assms(1) by (metis in_set_conv_nth)
  ultimately show ?thesis using r0(1,2) by simp
qed

lemma simd_groups_full:
  assumes "length ps = 32 * k"
  shows "(\<forall>g \<in> set (simd_groups ps). length g = 32) \<and> (\<Union>g \<in> set (simd_groups ps). set g) = set ps"
  using assms
proof (induction k arbitrary: ps)
  case (Suc k)
  then obtain p qs where p: "ps = p # qs" by (cases ps) auto
  have l: "length (drop 31 qs) = 32 * k" using Suc.prems p by simp
  have "set (take 32 ps) \<union> set (drop 32 ps) = set ps" by (metis append_take_drop_id set_append)
  then have "set (take 32 (p # qs)) \<union> set (drop 31 qs) = set ps" using p by simp
  with Suc.IH [OF l] Suc.prems p show ?case by simp
qed simp

lemma groups_best:
  fixes junk :: "nat \<Rightarrow> f32 \<times> u32"
  assumes "32 dvd length ps" "\<forall>p \<in> set ps. not_nan p"
    and r: "r = foldl better (f32_neg_inf, 0) (map (simd_best junk) (simd_groups ps))"
  shows "not_nan r \<and> r \<in> insert (f32_neg_inf, 0) (set ps) \<and> (\<forall>p \<in> set ps. dominates r p)"
proof -
  from assms(1) obtain k where "length ps = 32 * k" by (auto simp: dvd_def)
  from simd_groups_full [OF this] have G: "\<forall>g \<in> set (simd_groups ps). length g = 32" "(\<Union>g \<in> set (simd_groups ps). set g) = set ps" by auto
  have best: "not_nan (simd_best junk g) \<and> simd_best junk g \<in> set g \<and> (\<forall>p \<in> set g. dominates (simd_best junk g) p)"
    if "g \<in> set (simd_groups ps)" for g
    using G assms(2) that by (intro simd_best_dominates) auto
  have "not_nan (f32_neg_inf, 0)" by (simp add: not_nan_def f32_neg_inf_def f32_is_nan_def f32_magnitude_def)
  from foldl_better [OF this, of "map (simd_best junk) (simd_groups ps)"]
  have rr: "not_nan r" "r \<in> insert (f32_neg_inf, 0) (simd_best junk ` set (simd_groups ps))"
    "\<forall>g \<in> set (simd_groups ps). dominates r (simd_best junk g)" by (simp_all add: r)
  have "dominates r p" if "p \<in> set ps" for p
  proof -
    from that G(2) obtain g where "g \<in> set (simd_groups ps)" "p \<in> set g" by auto
    with best [of g] rr(1,3) show ?thesis by (blast intro: dominates_trans)
  qed
  moreover have "r \<in> insert (f32_neg_inf, 0) (set ps)" using rr(2) best G(2) by blast
  ultimately show ?thesis using rr(1) by blast
qed

section \<open>The scan\<close>

definition cand :: "f32 list \<Rightarrow> nat \<Rightarrow> f32 \<times> u32" where
  "cand ls i = (ls ! i, of_nat i)"

text \<open>The positions of a scan as numbers.\<close>

definition positions :: "nat \<Rightarrow> nat \<Rightarrow> nat list" where
  "positions n t = map (\<lambda>k. t + k * 1024) [0..<(n - t + 1023) div 1024]"

lemma positions_iff: "i \<in> set (positions n t) \<longleftrightarrow> (\<exists>k. i = t + k * 1024 \<and> i < n)"
proof -
  have *: "k < (a + 1023) div 1024 \<longleftrightarrow> k * 1024 < a" for k a :: nat
    using less_eq_div_iff_mult_less_eq [of 1024 "Suc k" "a + 1023"] by (simp add: Suc_le_eq)
  have "k < (n - t + 1023) div 1024 \<longleftrightarrow> t + k * 1024 < n" for k
    unfolding * by arith
  then show ?thesis unfolding positions_def by (auto simp only: set_map set_upt image_iff atLeastLessThan_iff)
qed

lemma positions_step: "positions n t = (if t < n then t # positions n (t + 1024) else [])"
proof (cases "t < n")
  case True
  have c: "(n - t + 1023) div 1024 = Suc ((n - (t + 1024) + 1023) div 1024)"
  proof (cases "t + 1024 \<le> n")
    case True
    then obtain d where "n = t + 1024 + d" by (auto simp: le_iff_add)
    then show ?thesis by (simp add: add.commute)
  next
    case False
    then have "(n - t + 1023) div 1024 = 1" using \<open>t < n\<close> by (intro div_nat_eqI) auto
    with False show ?thesis by simp
  qed
  have upt: "[0..<Suc q] = 0 # map Suc [0..<q]" for q by (simp add: upt_conv_Cons map_Suc_upt del: upt_Suc)
  have "positions n t = map (\<lambda>k. t + k * 1024) (0 # map Suc [0..<(n - (t + 1024) + 1023) div 1024])"
    unfolding positions_def c upt by (rule refl)
  also have "\<dots> = t # positions n (t + 1024)" by (auto simp: positions_def)
  finally show ?thesis using True by simp
qed (simp add: positions_def)

text \<open>Up to \<open>2 ^ 32 - 1024\<close> positions the index does not wrap; beyond, the scan of the first thread never ends.\<close>

lemma scan_ends:
  assumes "unat n \<le> 2 ^ 32 - 1024" "t < 2 ^ 32"
  shows "scan_positions n (of_nat t) = Some (map of_nat (positions (unat n) t))"
  using assms(2)
proof (induction "unat n - t" arbitrary: t rule: less_induct)
  case less
  have t: "unat (of_nat t :: u32) = t" using less.prems by (intro unat_of_nat_small) simp
  show ?case
  proof (cases "t < unat n")
    case True
    then have "t + 1024 < 2 ^ 32" using assms(1) by simp
    with True less.hyps [of "t + 1024"] have "scan_positions n (of_nat (t + 1024)) = Some (map of_nat (positions (unat n) (t + 1024)))" by simp
    with True t show ?thesis
      by (subst scan_positions.simps) (simp add: word_less_nat_alt positions_step [of "unat n" t] add.commute)
  next
    case False
    with t show ?thesis by (subst scan_positions.simps) (simp add: word_less_nat_alt positions_def)
  qed
qed

lemma scan_never_ends:
  assumes "2 ^ 32 - 1024 < unat n"
  shows "scan_positions n 0 = None"
proof (rule ccontr)
  assume "scan_positions n 0 \<noteq> None"
  then obtain ps where "scan_positions n (of_nat (0 * 1024)) = Some ps" by auto
  moreover have "scan_positions n (of_nat (k * 1024)) \<noteq> Some ps" if "k < 2 ^ 22" for k ps
    using that
  proof (induction "length ps" arbitrary: k ps rule: less_induct)
    case less
    have "k * 1024 \<le> 2 ^ 32 - 1024" using less.prems by simp
    then have i: "unat (of_nat (k * 1024) :: u32) = k * 1024" by (intro unat_of_nat_small) simp
    have in_range: "(of_nat (k * 1024) :: u32) < n" using assms \<open>k * 1024 \<le> 2 ^ 32 - 1024\<close> unfolding word_less_nat_alt i by simp
    show ?case
    proof
      assume "scan_positions n (of_nat (k * 1024)) = Some ps"
      then obtain qs where qs: "scan_positions n (of_nat (k * 1024) + 1024) = Some qs" "ps = of_nat (k * 1024) # qs"
        by (subst (asm) scan_positions.simps) (use in_range in \<open>auto simp: bind_eq_Some_conv\<close>)
      obtain l where l: "l < 2 ^ 22" "(of_nat (k * 1024) + 1024 :: u32) = of_nat (l * 1024)"
      proof (cases "Suc k < 2 ^ 22")
        case True
        then show ?thesis by (rule that) (simp add: algebra_simps)
      next
        case False
        with less.prems have "k = 2 ^ 22 - 1" by simp
        then show ?thesis by (intro that [of 0]) simp_all
      qed
      with less.hyps [of qs l] qs show False by simp
    qed
  qed
  ultimately show False by (metis zero_less_numeral zero_less_power)
qed

lemma scan_thread_eq:
  assumes "load_list m logits [0..<unat n] = (Ok ls :: ('d, u32 list) outcome)" "unat n \<le> 2 ^ 32 - 1024" "t < 2 ^ 32"
  shows "scan_thread m logits n t = Ok (foldl better (f32_neg_inf, 0) (map (cand ls) (positions (unat n) t)))"
proof -
  have ld: "load32 m logits i = (Ok (ls ! i) :: ('e, u32) outcome)" if "i < unat n" for i
    using load_list_nth [OF assms(1)] that by auto
  have small: "unat (of_nat i :: u32) = i" if "i < unat n" for i
    by (rule unat_of_nat_small, rule less_trans [OF that]) (use unsigned_less [of n, where 'a = nat] in simp)
  have "loop (\<lambda>i best. bind_outcome (load32 m logits (unat i)) (\<lambda>v. Ok (better best (v, i)))) (map of_nat is) b =
      (Ok (foldl better b (map (cand ls) is)) :: ('e, _) outcome)" if "\<forall>i \<in> set is. i < unat n" for "is" b
    using that by (induction "is" arbitrary: b) (simp_all add: ld small cand_def)
  moreover have "\<forall>i \<in> set (positions (unat n) t). i < unat n" by (auto simp: positions_iff)
  ultimately show ?thesis by (simp add: scan_thread_def scan_ends [OF assms(2,3)])
qed

lemma scan_threads_eq:
  assumes "load_list m logits [0..<unat n] = (Ok ls :: ('d, u32 list) outcome)" "unat n \<le> 2 ^ 32 - 1024" "\<forall>t \<in> set ts. t < 2 ^ 32"
  shows "scan_threads m logits n ts = Ok (map (\<lambda>t. foldl better (f32_neg_inf, 0) (map (cand ls) (positions (unat n) t))) ts)"
  using assms(3) by (induction ts) (simp_all add: scan_thread_eq [OF assms(1,2)])

lemma scanned_once: "i < n \<Longrightarrow> i \<in> set (positions n (i mod 1024))"
  unfolding positions_iff by (intro exI [of _ "i div 1024"]) simp

lemma argmax_kernel_finds:
  assumes l: "load_list m logits [0..<unat n] = (Ok ls :: ('d, u32 list) outcome)" and out: "out < length m" "4 \<le> length (m ! out)"
    and size: "unat n \<le> 2 ^ 32 - 1024" and w: "32 dvd min (unat n) 1024" and big: "\<exists>i < unat n. f32_less f32_neg_inf (ls ! i)"
  shows "\<exists>m' i. argmax_kernel junk out logits n (min (unat n) 1024) m = (Ok m' :: ('e, gpu_mem) outcome) \<and>
    load32 m' out 0 = (Ok (of_nat i) :: ('f, u32) outcome) \<and> i < unat n \<and> \<not> f32_is_nan (ls ! i) \<and> (\<forall>j < unat n. \<not> f32_less (ls ! i) (ls ! j))"
proof -
  let ?w = "min (unat n) 1024"
  let ?pos = "\<lambda>t. map (cand ls) (positions (unat n) t)"
  let ?best = "\<lambda>t. foldl better (f32_neg_inf, 0) (?pos t)"
  let ?ps = "map ?best [0..<?w]"
  define r where r: "r = foldl better (f32_neg_inf, 0) (map (simd_best junk) (simd_groups ?ps))"
  have nn: "not_nan (f32_neg_inf, 0)" by (simp add: not_nan_def f32_neg_inf_def f32_is_nan_def f32_magnitude_def)
  note F = foldl_better [OF nn]
  have B: "not_nan (?best t)" "?best t \<in> insert (f32_neg_inf, 0) (set (?pos t))" "\<forall>p \<in> set (?pos t). dominates (?best t) p" for t
    using F [of "?pos t"] by blast+
  have "32 dvd length ?ps" "\<forall>p \<in> set ?ps. not_nan p" using w B(1) by auto
  from groups_best [OF this r] have R: "not_nan r" "r \<in> insert (f32_neg_inf, 0) (set ?ps)" "\<forall>p \<in> set ?ps. dominates r p" by blast+
  have dom: "dominates r (cand ls i)" if "i < unat n" for i
  proof -
    let ?t = "i mod 1024"
    have "?t \<le> i" by simp
    with that have t: "?t < ?w" by simp
    have "dominates (?best ?t) (cand ls i)" using B(3) scanned_once [OF that] by simp
    moreover have "dominates r (?best ?t)" using R(3) t by simp
    ultimately show ?thesis using B(1) R(1) by (blast intro: dominates_trans)
  qed
  from big obtain i0 where i0: "i0 < unat n" "f32_less f32_neg_inf (ls ! i0)" by blast
  have "r \<noteq> (f32_neg_inf, 0)" using dom [OF i0(1)] i0(2) by (auto simp: dominates_def cand_def)
  then obtain t where "t < ?w" "r \<in> set (?pos t)" using R(2) B(2) by fastforce
  then obtain i where i: "i \<in> set (positions (unat n) t)" "r = cand ls i" by auto
  have "i < unat n" using i(1) by (auto simp: positions_iff)
  moreover have "?w \<noteq> 0" using i0 by simp
  moreover obtain m' where m': "store32 out 0 (snd r) m = (Ok m' :: ('e, gpu_mem) outcome)" using out by (simp add: store32_def store32_at_def)
  moreover have "argmax_kernel junk out logits n ?w m = (Ok m' :: ('e, gpu_mem) outcome)"
    using m' i0 by (auto simp: argmax_kernel_def scan_threads_eq [OF l size] r)
  moreover have "load32 m' out 0 = (Ok (of_nat i) :: ('f, u32) outcome)"
    using load_store32 [OF m'] i(2) by (simp add: cand_def)
  ultimately show ?thesis
    using R(1) dom i(2) by (intro exI [of _ m'] exI [of _ i]) (auto simp: not_nan_def dominates_def cand_def)
qed

section \<open>Sampling\<close>

lemma greedy_key:
  assumes "i < length ls" "\<not> f32_is_nan (ls ! i)" "\<forall>j < length ls. \<not> f32_less (ls ! i) (ls ! j)"
  shows "f32_key (confidence (greedy_sample ls None)) = f32_key (ls ! i)"
    and "(\<forall>j < length ls. \<not> f32_is_nan (ls ! j) \<longrightarrow> f32_key (ls ! j) = f32_key (ls ! i) \<longrightarrow> j = i) \<Longrightarrow> token (greedy_sample ls None) = of_nat i"
proof -
  have "pickable ls None" using assms(1,2) by (auto simp: pickable_def allowed_def)
  with greedy_argmax [of ls None] obtain j where j: "wins ls None j" "greedy_sample ls None = \<lparr>token = of_nat j, confidence = ls ! j\<rparr>" by auto
  then have "j < length ls" "\<not> f32_is_nan (ls ! j)" "f32_key (ls ! i) \<le> f32_key (ls ! j)" using assms(1,2) by (auto simp: wins_def allowed_def)
  moreover from this assms(2,3) have "f32_key (ls ! j) \<le> f32_key (ls ! i)" by (auto simp: f32_less_def)
  ultimately show "f32_key (confidence (greedy_sample ls None)) = f32_key (ls ! i)"
    "(\<forall>j < length ls. \<not> f32_is_nan (ls ! j) \<longrightarrow> f32_key (ls ! j) = f32_key (ls ! i) \<longrightarrow> j = i) \<Longrightarrow> token (greedy_sample ls None) = of_nat i"
    using j(2) by auto
qed

text \<open>C21. Sampling on the device agrees with greedy sampling on the CPU: when the vocabulary leaves the simdgroups of the one
  threadgroup full (its size, if below 1024, is a multiple of 32), has at most \<open>2 ^ 32 - 1024\<close> tokens, so that the threads' 32-bit indices do
  not wrap, and some logit is above minus infinity, then the token that comes back after the threads' scans and the
  exchanges is in the vocabulary, its logit is a number that no logit exceeds, it is the logit that
  the CPU's greedy sampler picks, and the token is the same when only one token has that logit. All
  logits are looked at, also beyond the first 1024.\<close>

theorem argmax_samples_maximum:
  assumes "model_reach g m" "get_scratch dev ''argmax_out'' 4 (g, m) = (Ok out, g1, m1)"
    and "commit lm junk cb m1 = (Ok m2 :: (spec_error, gpu_mem) outcome)" "load_list m2 logits [0..<mm_n_vocab (gm_meta g)] = (Ok ls :: (spec_error, f32 list) outcome)"
    and "''argmax'' \<in> set (gm_pipelines g)" "gd_encoders dev"
    and "mm_n_vocab (gm_meta g) \<le> 2 ^ 32 - 1024" "32 dvd min (mm_n_vocab (gm_meta g)) 1024" "\<exists>l \<in> set ls. f32_less f32_neg_inf l"
  shows "\<exists>t m3. sample_argmax lm junk dev cb logits (g, m) = (Ok t, g1, m3) \<and> unat t < mm_n_vocab (gm_meta g) \<and>
    \<not> f32_is_nan (ls ! unat t) \<and> (\<forall>l \<in> set ls. \<not> f32_less (ls ! unat t) l) \<and>
    f32_key (ls ! unat t) = f32_key (confidence (greedy_sample ls None)) \<and>
    ((\<forall>j < length ls. \<not> f32_is_nan (ls ! j) \<longrightarrow> f32_key (ls ! j) = f32_key (ls ! unat t) \<longrightarrow> j = unat t) \<longrightarrow> t = token (greedy_sample ls None))"
proof -
  let ?n = "mm_n_vocab (gm_meta g)"
  note ok = model_reach_ok [OF assms(1)]
  have n: "unat (of_nat ?n :: u32) = ?n" using assms(7) by (intro unat_of_nat_small) simp
  then have size: "unat (of_nat ?n :: u32) \<le> 2 ^ 32 - 1024" using assms(7) by simp
  have g1: "gm_meta g1 = gm_meta g" "gm_pipelines g1 = gm_pipelines g" and o1: "out < length m1" "length (m1 ! out) = 4"
  proof -
    have s: "scratch dev ''argmax_out'' 4 (g, m, []) = (Ok out, g1, m1, [])" by (simp add: scratch_def assms(2))
    have "extends (gm_meta g) (scratch dev ''argmax_out'' 4 :: (encoding, spec_error, buf_id) act)" by (intro extends_scratch) simp
    from extendsD [OF this refl ok s] show "gm_meta g1 = gm_meta g" "gm_pipelines g1 = gm_pipelines g" by (simp_all add: later_def)
    from scratch_Ok(2,3) [OF s refl ok] show "out < length m1" "length (m1 ! out) = 4" by simp_all
  qed
  note sh = commit_shape [OF assms(3)]
  have o2: "out < length m2" "4 \<le> length (m2 ! out)" using o1 shape_length [OF sh] shape_nth [OF sh, of out] by simp_all
  have len: "length ls = ?n" using load_list_nth [OF assms(4), THEN conjunct1] by simp
  have l: "load_list m2 logits [0..<unat (of_nat ?n :: u32)] = (Ok ls :: (spec_error, f32 list) outcome)" using assms(4) n by simp
  have w: "32 dvd min (unat (of_nat ?n :: u32)) 1024" using assms(8) n by simp
  have big: "\<exists>i < unat (of_nat ?n :: u32). f32_less f32_neg_inf (ls ! i)" using assms(9) n len by (auto simp: in_set_conv_nth)
  from argmax_kernel_finds [OF l o2 size w big, of junk] n obtain m3 i where
    k: "argmax_kernel junk out logits (of_nat ?n) (min ?n 1024) m2 = (Ok m3 :: (spec_error, gpu_mem) outcome)"
      "load32 m3 out 0 = (Ok (of_nat i) :: (spec_error, u32) outcome)" "i < ?n" "\<not> f32_is_nan (ls ! i)" "\<forall>j < ?n. \<not> f32_less (ls ! i) (ls ! j)"
    by auto
  have i: "unat (of_nat i :: u32) = i" using k(3) assms(7) by (intro unat_of_nat_small) simp
  have "sample_argmax lm junk dev cb logits (g, m) = (Ok (of_nat i), g1, m3)"
    using k(1,2) assms(2,3,5,6) g1
    by (simp add: sample_argmax_def and_then_def emit_or_err_def Let_def commit_def loop_append run_dispatch_def)
  moreover have "\<forall>l \<in> set ls. \<not> f32_less (ls ! i) l" using k(5) len by (auto simp: in_set_conv_nth)
  ultimately show ?thesis
    using greedy_key [of i ls] k(3,4,5) len by (intro exI [of _ "of_nat i"] exI [of _ m3]) (simp add: i)
qed

definition wide_meta :: model_meta where
  "wide_meta = tiny_meta\<lparr>mm_n_vocab := 32\<rparr>"

definition peak_logits :: "f32 list" where
  "peak_logits = replicate 20 0 @ 0x3f800000 # replicate 11 0"

lemma argmax_samples_maximum_witness:
  "\<forall>lm junk. \<exists>t. fst (sample_argmax lm junk open_device [] 0 (metal_model_new wide_meta (\<lambda>_. True), [u32_bytes peak_logits])) = Ok t \<and>
     (\<forall>l \<in> set peak_logits. \<not> f32_less (peak_logits ! unat t) l)"
proof (intro allI)
  fix lm junk
  let ?g = "metal_model_new wide_meta (\<lambda>_. True)" and ?m = "[u32_bytes peak_logits]"
  let ?m1 = "[u32_bytes peak_logits, replicate 4 0]"
  have r: "model_reach ?g ?m" by (rule model_reach.new)
  have s: "get_scratch open_device ''argmax_out'' 4 (?g, ?m) = (Ok 1, ?g\<lparr>gm_scratch := hm_insert ''argmax_out'' 1 []\<rparr>, ?m1)"
    by (simp add: get_scratch_def open_device_def metal_model_new_def new_buffer_def)
  have c: "commit lm junk [] ?m1 = (Ok ?m1 :: (spec_error, gpu_mem) outcome)" by (simp add: commit_def)
  have v: "mm_n_vocab (gm_meta ?g) = 32" by (simp add: metal_model_new_def wide_meta_def tiny_meta_def)
  have n: "length peak_logits = 32" by (simp add: peak_logits_def)
  have l: "load_list ?m1 0 [0..<mm_n_vocab (gm_meta ?g)] = (Ok peak_logits :: (spec_error, f32 list) outcome)"
    unfolding v using load_encoded [of 0 ?m1 peak_logits "[]", where 'a = spec_error] n by simp
  have big: "\<exists>l \<in> set peak_logits. f32_less f32_neg_inf l"
    by (rule bexI [of _ "0x3f800000"])
      (simp_all add: f32_less_def f32_key_def f32_neg_inf_def f32_is_nan_def f32_magnitude_def f32_sign_def peak_logits_def)
  have k: "''argmax'' \<in> set (gm_pipelines ?g)" "gd_encoders open_device" by (simp_all add: metal_model_new_def kernel_names_def open_device_def)
  have w: "mm_n_vocab (gm_meta ?g) \<le> 2 ^ 32 - 1024" "32 dvd min (mm_n_vocab (gm_meta ?g)) 1024" unfolding v by simp_all
  from argmax_samples_maximum [OF r s c l k w big] obtain t m3 where
    t: "sample_argmax lm junk open_device [] 0 (?g, ?m) = (Ok t, ?g\<lparr>gm_scratch := hm_insert ''argmax_out'' 1 []\<rparr>, m3)"
      "\<forall>l \<in> set peak_logits. \<not> f32_less (peak_logits ! unat t) l" by blast
  show "\<exists>t. fst (sample_argmax lm junk open_device [] 0 (?g, ?m)) = Ok t \<and> (\<forall>l \<in> set peak_logits. \<not> f32_less (peak_logits ! unat t) l)"
    using t by (intro exI [of _ t]) (simp only: fst_conv)
qed

end
