(* ===== verification/TpModel.thy ===== *)
theory TpModel
  imports MetalModel Sharding
begin

text \<open>
  The tensor-parallel model (\<open>src/src/metal/tp_model.rs\<close>): one Metal model for each device with its shards of the
  weights. The devices share the memory of \<open>GpuKernels\<close>, as the code assumes of unified memory, and \<open>dev\<close> gives what
  the device of a rank grants. Command buffers run when they are committed, those of one commit after
  another in the order of the ranks; devices write to buffers of their own.
\<close>

section \<open>Devices and shards\<close>

text \<open>A device with its queue, the error of compiling the library if there is one, and the functions it compiles.\<close>

record tp_device =
  td_gpu :: gpu_device
  td_queue :: bool
  td_library_error :: "string option"
  td_compiles :: "string \<Rightarrow> bool"

record tp_model =
  tm_meta :: model_meta
  tm_shards :: "metal_model list"
  tm_degree :: usize

definition shard_meta :: "model_meta \<Rightarrow> usize \<Rightarrow> model_meta" where
  "shard_meta meta tp = meta\<lparr>mm_n_head := mm_n_head meta div tp, mm_n_head_kv := mm_n_head_kv meta div tp, mm_n_ff := mm_n_ff meta div tp\<rparr>"

fun upload_shards :: "gpu_device \<Rightarrow> weight_store \<Rightarrow> quantization \<Rightarrow> usize \<Rightarrow> usize \<Rightarrow> rust_string list \<Rightarrow> (model_state, spec_error, unit) act" where
  "upload_shards dev ws quant tp rank [] s = (Ok (), s)"
| "upload_shards dev ws quant tp rank (name # names) s =
     (case weight_get ws name of
        Ok (Some bytes) \<Rightarrow>
          (case weight_shape ws name of
             None \<Rightarrow> (Err (Model (''Missing shape '' @ text_of name)), s)
           | Some shape \<Rightarrow>
               (case shard_weight (text_of name) bytes shape quant (get_shard_strategy (text_of name)) tp rank of
                  Ok part \<Rightarrow>
                    if gd_alloc dev (length (sw_data part))
                    then (let (g, m) = s; (b, m1) = new_buffer (length (sw_data part)) m in
                          upload_shards dev ws quant tp rank names
                            (g\<lparr>gm_weights := hm_insert name b (gm_weights g)\<rparr>, m1[b := sw_data part]))
                    else (Err (Model (''Failed to allocate shard buffer for '' @ text_of name)), s)
                | Err e \<Rightarrow> (Err e, s)
                | Panic \<Rightarrow> (Panic, s)))
      | Ok None \<Rightarrow> (Err (Model (''Missing weight '' @ text_of name)), s)
      | Err e \<Rightarrow> (Panic, s)
      | Panic \<Rightarrow> (Panic, s))"

text \<open>The model of one rank.\<close>

definition make_shard :: "model_meta \<Rightarrow> weight_store \<Rightarrow> usize \<Rightarrow> usize \<Rightarrow> tp_device \<Rightarrow> (gpu_mem, spec_error, metal_model) act" where
  "make_shard meta ws tp rank d m =
     (if \<not> td_queue d then (Err (Model (''Failed to create queue for device '' @ decimal rank)), m)
      else case td_library_error d of
             Some e \<Rightarrow> (Err (Model (''Failed to compile library for device '' @ decimal rank @ '': '' @ e)), m)
           | None \<Rightarrow>
               (let (r, g, m1) = upload_shards (td_gpu d) ws (mm_quantization meta) tp rank (map fst (ws_index ws))
                      (metal_model_new (shard_meta meta tp) (td_compiles d), m)
                in (bind_outcome r (\<lambda>_. Ok g), m1)))"

fun make_shards :: "model_meta \<Rightarrow> weight_store \<Rightarrow> usize \<Rightarrow> usize \<Rightarrow> tp_device list \<Rightarrow> (gpu_mem, spec_error, metal_model list) act" where
  "make_shards meta ws tp rank [] = ret []"
| "make_shards meta ws tp rank (d # ds) =
     and_then (make_shard meta ws tp rank d) (\<lambda>g. and_then (make_shards meta ws tp (rank + 1) ds) (\<lambda>gs. ret (g # gs)))"

definition tp_new :: "model_meta \<Rightarrow> weight_store \<Rightarrow> tp_device list \<Rightarrow> (gpu_mem, spec_error, tp_model) act" where
  "tp_new meta ws devices =
     (if devices = [] then (\<lambda>m. (Err (Model ''No Metal devices found''), m))
      else and_then (make_shards meta ws (length devices) 0 devices) (\<lambda>gs.
        ret \<lparr>tm_meta = meta, tm_shards = gs, tm_degree = length devices\<rparr>))"

section \<open>Encoding on all ranks\<close>

text \<open>The shards, the memory and the command buffer of every rank; what encodes on one rank works on its own.\<close>

type_synonym tp_encoding = "metal_model list \<times> gpu_mem \<times> command_buffer list"

definition on_rank :: "usize \<Rightarrow> (encoding, 'e, 'a) act \<Rightarrow> (tp_encoding, 'e, 'a) act" where
  "on_rank r f = (\<lambda>(gs, m, cbs).
     if length gs \<le> r \<or> length cbs \<le> r then (Panic, gs, m, cbs)
     else (let (x, g, m1, cb) = f (gs ! r, m, cbs ! r) in (x, gs[r := g], m1, cbs[r := cb])))"

text \<open>\<open>commandBuffer().unwrap()\<close>, in place of the rank's old one.\<close>

definition fresh_buffer :: "gpu_device \<Rightarrow> (encoding, 'e, unit) act" where
  "fresh_buffer dev = (\<lambda>(g, m, cb). if gd_command_buffers dev then (Ok (), g, m, []) else (Panic, g, m, cb))"

definition commit_rank :: "libm \<Rightarrow> (nat \<Rightarrow> f32 \<times> u32) \<Rightarrow> (encoding, 'e, unit) act" where
  "commit_rank lm junk = (\<lambda>(g, m, cb).
     case commit lm junk cb m of Ok m1 \<Rightarrow> (Ok (), g, m1, cb) | Err e \<Rightarrow> (Err e, g, m, cb) | Panic \<Rightarrow> (Panic, g, m, cb))"

fun for_ranks :: "(usize \<Rightarrow> ('s, 'e, 'a) act) \<Rightarrow> usize list \<Rightarrow> ('s, 'e, 'a list) act" where
  "for_ranks f [] = ret []"
| "for_ranks f (r # rs) = and_then (f r) (\<lambda>x. and_then (for_ranks f rs) (\<lambda>xs. ret (x # xs)))"

definition read_floats :: "buf_id \<Rightarrow> usize \<Rightarrow> (encoding, 'e, f32 list) act" where
  "read_floats b n = (\<lambda>(g, m, cb). (load_list m b [0..<n], g, m, cb))"

definition write_floats :: "buf_id \<Rightarrow> f32 list \<Rightarrow> (encoding, 'e, unit) act" where
  "write_floats b vs = (\<lambda>(g, m, cb).
     if b < length m \<and> 4 * length vs \<le> length (m ! b) then (Ok (), g, m[b := overwrite (u32_bytes vs) (m ! b)], cb)
     else (Panic, g, m, cb))"

section \<open>A pass\<close>

definition tp_embed :: "gpu_device \<Rightarrow> model_meta \<Rightarrow> token_id \<Rightarrow> (encoding, spec_error, unit) act" where
  "tp_embed dev meta tok =
     and_then (fresh_buffer dev) (\<lambda>_.
     and_then (scratch dev ''hidden_state'' (mm_n_embd meta * 4)) (\<lambda>hidden.
     and_then (weight_or Panic (ascii ''token_embd.weight'')) (\<lambda>w.
       emit dev (Embed_lookup hidden w tok (of_nat (mm_n_embd meta))) 1 1)))"

definition add_to_hidden :: "gpu_device \<Rightarrow> usize \<Rightarrow> buf_id \<Rightarrow> (encoding, spec_error, unit) act" where
  "add_to_hidden dev n_embd b =
     and_then (scratch dev ''hidden_state'' (n_embd * 4)) (\<lambda>hidden. emit dev (Vec_add hidden b) n_embd 1)"

text \<open>The partial results of the ranks summed from zero, in their order.\<close>

definition sum_partials :: "usize \<Rightarrow> f32 list list \<Rightarrow> f32 list" where
  "sum_partials n = foldl (map2 f32_add) (replicate n 0)"

definition add_sum :: "gpu_device \<Rightarrow> usize \<Rightarrow> f32 list \<Rightarrow> (encoding, spec_error, unit) act" where
  "add_sum dev n_embd vs =
     and_then (fresh_buffer dev) (\<lambda>_.
     and_then (scratch dev ''hidden_state'' (n_embd * 4)) (\<lambda>hidden.
     and_then (scratch dev ''all_reduce_tmp'' (n_embd * 4)) (\<lambda>tmp.
     and_then (write_floats tmp vs) (\<lambda>_. emit dev (Vec_add hidden tmp) n_embd 1))))"

definition all_reduce_sum_and_add ::
  "libm \<Rightarrow> (nat \<Rightarrow> f32 \<times> u32) \<Rightarrow> (usize \<Rightarrow> gpu_device) \<Rightarrow> usize \<Rightarrow> usize \<Rightarrow> buf_id list \<Rightarrow> (tp_encoding, spec_error, unit) act" where
  "all_reduce_sum_and_add lm junk dev tp n_embd partials =
     (if tp \<le> 1
      then and_then (for_ranks (\<lambda>r. on_rank r (add_to_hidden (dev r) n_embd (partials ! r))) [0..<tp]) (\<lambda>_. ret ())
      else
        and_then (for_ranks (\<lambda>r. on_rank r (commit_rank lm junk)) [0..<tp]) (\<lambda>_.
        and_then (for_ranks (\<lambda>r. on_rank r (read_floats (partials ! r) n_embd)) [0..<tp]) (\<lambda>parts.
        and_then (for_ranks (\<lambda>r. on_rank r (add_sum (dev r) n_embd (sum_partials n_embd parts))) [0..<tp]) (\<lambda>_. ret ()))))"

text \<open>The caches are one pair of buffers for each rank.\<close>

definition rank_place :: "kv_place \<Rightarrow> buf_id list \<Rightarrow> buf_id list \<Rightarrow> usize \<Rightarrow> kv_place" where
  "rank_place kp k_pools v_pools r = kp\<lparr>kp_k_pool := k_pools ! r, kp_v_pool := v_pools ! r\<rparr>"

definition tp_layer ::
  "libm \<Rightarrow> (nat \<Rightarrow> f32 \<times> u32) \<Rightarrow> (usize \<Rightarrow> gpu_device) \<Rightarrow> usize \<Rightarrow> model_meta \<Rightarrow> usize \<Rightarrow> kv_place \<Rightarrow> buf_id list \<Rightarrow> buf_id list \<Rightarrow> usize
   \<Rightarrow> (tp_encoding, spec_error, unit) act" where
  "tp_layer lm junk dev tp meta pos kp k_pools v_pools l =
     and_then (for_ranks (\<lambda>r.
         if length k_pools \<le> r \<or> length v_pools \<le> r then (\<lambda>s. (Panic, s))
         else on_rank r (and_then (scratch (dev r) ''hidden_state'' (mm_n_embd meta * 4)) (\<lambda>hidden.
                forward_layer (dev r) l hidden pos (rank_place kp k_pools v_pools r)))) [0..<tp]) (\<lambda>results.
     and_then (all_reduce_sum_and_add lm junk dev tp (mm_n_embd meta) (map fst results)) (\<lambda>_.
       all_reduce_sum_and_add lm junk dev tp (mm_n_embd meta) (map snd results)))"

fun tp_layers ::
  "libm \<Rightarrow> (nat \<Rightarrow> f32 \<times> u32) \<Rightarrow> (usize \<Rightarrow> gpu_device) \<Rightarrow> usize \<Rightarrow> model_meta \<Rightarrow> usize \<Rightarrow> kv_place \<Rightarrow> buf_id list \<Rightarrow> buf_id list \<Rightarrow> usize list
   \<Rightarrow> (tp_encoding, spec_error, unit) act" where
  "tp_layers lm junk dev tp meta pos kp k_pools v_pools [] = ret ()"
| "tp_layers lm junk dev tp meta pos kp k_pools v_pools (l # ls) =
     and_then (tp_layer lm junk dev tp meta pos kp k_pools v_pools l) (\<lambda>_. tp_layers lm junk dev tp meta pos kp k_pools v_pools ls)"

definition tp_head :: "libm \<Rightarrow> (nat \<Rightarrow> f32 \<times> u32) \<Rightarrow> gpu_device \<Rightarrow> usize \<Rightarrow> model_meta \<Rightarrow> (encoding, spec_error, buf_id) act" where
  "tp_head lm junk dev tp meta =
     (let n_embd = mm_n_embd meta; shard_vocab = mm_n_vocab meta div tp in
      and_then (scratch dev ''hidden_state'' (n_embd * 4)) (\<lambda>hidden.
      and_then (weight_or Panic (ascii ''output_norm.weight'')) (\<lambda>norm_w.
      and_then (dispatch_rms_norm dev hidden hidden norm_w n_embd) (\<lambda>_.
      and_then (scratch dev ''logits'' (shard_vocab * 4)) (\<lambda>logits.
      and_then (weight_or Panic (ascii ''output.weight'')) (\<lambda>out_w.
      and_then (dispatch_matvec dev logits out_w hidden shard_vocab n_embd) (\<lambda>_.
      and_then (commit_rank lm junk) (\<lambda>_. ret logits))))))))"

text \<open>The logits of the ranks, one after the other, in a vector of zeros.\<close>

definition gather_logits :: "usize \<Rightarrow> f32 list list \<Rightarrow> f32 list" where
  "gather_logits n_vocab parts = overwrite (concat parts) (replicate n_vocab 0)"

definition tp_run ::
  "libm \<Rightarrow> (nat \<Rightarrow> f32 \<times> u32) \<Rightarrow> (usize \<Rightarrow> gpu_device) \<Rightarrow> token_id \<Rightarrow> usize \<Rightarrow> kv_place \<Rightarrow> buf_id list \<Rightarrow> buf_id list
   \<Rightarrow> (tp_model \<times> gpu_mem, spec_error, f32 list) act" where
  "tp_run lm junk dev tok pos kp k_pools v_pools = (\<lambda>(t, m).
     let meta = tm_meta t; tp = tm_degree t; ranks = [0..<tp];
         (r, gs, m1, cbs) =
           (if tp = 0 then (Panic, tm_shards t, m, [])
            else
              and_then (for_ranks (\<lambda>r. on_rank r (tp_embed (dev r) meta tok)) ranks) (\<lambda>_.
              and_then (tp_layers lm junk dev tp meta pos kp k_pools v_pools [0..<mm_n_layer meta]) (\<lambda>_.
              and_then (for_ranks (\<lambda>r. on_rank r (tp_head lm junk (dev r) tp meta)) ranks) (\<lambda>bufs.
              and_then (for_ranks (\<lambda>r. on_rank r (read_floats (bufs ! r) (mm_n_vocab meta div tp))) ranks) (\<lambda>parts.
                ret (gather_logits (mm_n_vocab meta) parts)))))
              (tm_shards t, m, replicate tp []))
     in (r, t\<lparr>tm_shards := gs\<rparr>, m1))"

end
