(* ===== verification/GpuMatvec.thy ===== *)
theory GpuMatvec
  imports MetalModel GpuKernelProps
begin

text \<open>
  The matrix kernels of the device compute what \<open>matvec_quant\<close> computes on the CPU
  (\<open>src/src/kernels.metal\<close> and \<open>src/src/llama_cpu.rs\<close>): the same values of the weights, the same products, added in
  the same order. The one difference, that the CPU adds the sum of a row to a zero, does not show.
\<close>

section \<open>Adding to zero\<close>

definition neg_zero :: f32 where "neg_zero = 0x80000000"

lemma f32_zero_facts [simp]: "f32_magnitude 0 = 0" "\<not> f32_sign 0" "f32_scaled 0 = 0" "\<not> f32_is_inf 0"
  by (simp_all add: f32_magnitude_def f32_sign_def f32_scaled_def mag_units_def f32_is_inf_def)

lemma nan_is_nan [simp]: "f32_is_nan f32_nan"
  by (simp add: f32_nan_def f32_is_nan_def f32_magnitude_def)

lemma mag_units_zero: "mag_units m = 0 \<longleftrightarrow> m = 0"
  by (auto simp: mag_units_def Let_def)

lemma zero_magnitude: "f32_magnitude x = 0 \<Longrightarrow> x = 0 \<or> x = neg_zero"
proof -
  assume "f32_magnitude x = 0"
  then have "x = f32_pack (f32_sign x) 0" using f32_pack_self [of x] by simp
  then show ?thesis by (cases "f32_sign x") (simp_all add: f32_pack_def neg_zero_def)
qed

lemma f32_add_zero:
  assumes "\<not> f32_is_nan x" "x \<noteq> neg_zero"
  shows "f32_add 0 x = x"
proof (cases "f32_is_inf x")
  case True
  with assms show ?thesis by (simp add: f32_add_def)
next
  case False
  show ?thesis
  proof (cases "f32_magnitude x = 0")
    case True
    with zero_magnitude assms(2) have "x = 0" by blast
    then show ?thesis by (simp add: f32_add_def f32_pack_def)
  next
    case False': False
    have m: "f32_magnitude x < 0x7f800000" using False assms(1) by (simp add: f32_is_inf_def f32_is_nan_def)
    have "mag_units (f32_magnitude x) \<noteq> 0" using False' by (simp add: mag_units_zero)
    then have "f32_scaled x \<noteq> 0" "(f32_scaled x < 0) = f32_sign x" "nat \<bar>f32_scaled x\<bar> = mag_units (f32_magnitude x)"
      by (auto simp: f32_scaled_def)
    with False assms(1) show ?thesis using round_mag_exact [OF m] f32_pack_self [of x] by (simp add: f32_add_def f32_round_def)
  qed
qed

lemma round_mag_pos:
  assumes "0 < n"
  shows "0 < round_mag n 1"
proof -
  let ?l = "bit_len n - 24"
  have "0 < div_half_even n (2 ^ ?l)"
  proof (cases "?l = 0")
    case False
    have "2 ^ (bit_len n - 1) \<le> n" using bit_len_bounds [OF assms] by simp
    moreover have "2 ^ ?l \<le> (2 :: nat) ^ (bit_len n - 1)" by (rule power_increasing) simp_all
    ultimately have "2 ^ ?l \<le> n" by (rule order_trans [rotated])
    then have "0 < n div 2 ^ ?l" by (simp add: div_greater_zero_iff)
    then show ?thesis by (simp add: div_half_even_def Let_def)
  qed (use assms in \<open>simp add: div_half_even_def Let_def\<close>)
  then show ?thesis by (simp add: round_mag_def Let_def)
qed

definition sum_like :: "f32 \<Rightarrow> bool" where
  "sum_like x \<longleftrightarrow> x = f32_nan \<or> (\<not> f32_is_nan x \<and> x \<noteq> neg_zero)"

lemma pack_nonzero:
  assumes "0 < m" "m \<le> 0x7f800000"
  shows "sum_like (f32_pack s m)"
proof -
  have "f32_magnitude (f32_pack s m) = m" using assms(2) magnitude_pack [of m s] by simp
  moreover have "f32_magnitude neg_zero = 0" by (simp add: neg_zero_def f32_magnitude_def)
  ultimately show ?thesis using assms by (auto simp: sum_like_def f32_is_nan_def)
qed

lemma sum_like_add:
  assumes "sum_like a"
  shows "sum_like (f32_add a b)"
proof -
  have inf: "f32_is_inf x \<Longrightarrow> \<not> f32_is_nan x \<Longrightarrow> sum_like x" for x
    by (auto simp: sum_like_def f32_is_inf_def neg_zero_def f32_magnitude_def)
  have nan: "sum_like f32_nan" by (simp add: sum_like_def)
  show ?thesis
  proof (cases "f32_is_nan a \<or> f32_is_nan b \<or> f32_is_inf a \<or> f32_is_inf b")
    case True
    then show ?thesis using inf nan by (auto simp: f32_add_def)
  next
    case False
    let ?v = "f32_scaled a + f32_scaled b"
    show ?thesis
    proof (cases "?v = 0")
      case True
      have "\<not> (f32_sign a \<and> f32_sign b)"
      proof
        assume s: "f32_sign a \<and> f32_sign b"
        with True have "mag_units (f32_magnitude a) = 0" by (simp add: f32_scaled_def)
        then have "f32_magnitude a = 0" by (simp add: mag_units_zero)
        with zero_magnitude [of a] s have "a = neg_zero" by auto
        with assms False show False by (auto simp: sum_like_def)
      qed
      with True False have "f32_add a b = 0" by (auto simp: f32_add_def f32_pack_def)
      then show ?thesis by (simp add: sum_like_def neg_zero_def)
    next
      case v: False
      then have "0 < round_mag (nat \<bar>?v\<bar>) 1" by (intro round_mag_pos) simp
      moreover have "round_mag (nat \<bar>?v\<bar>) 1 \<le> 0x7f800000" by (simp add: round_mag_def Let_def)
      ultimately show ?thesis using False v pack_nonzero by (simp add: f32_add_def Let_def f32_round_def)
    qed
  qed
qed

lemma f32_add_zero_sum: "f32_add 0 (f32_sum xs) = f32_sum xs"
proof -
  have "sum_like (foldl f32_add a xs)" if "sum_like a" for a
    using that by (induction xs arbitrary: a) (simp_all add: sum_like_add)
  moreover have "sum_like 0" by (simp add: sum_like_def neg_zero_def)
  ultimately have "sum_like (f32_sum xs)" by (simp add: f32_sum_def)
  moreover have "f32_add 0 f32_nan = f32_nan" by (simp add: f32_add_def)
  ultimately show ?thesis using f32_add_zero by (auto simp: sum_like_def)
qed

section \<open>Rows on the CPU\<close>

lemma f32_add_zero_dot: "f32_add 0 (dot xs ys) = dot xs ys"
  by (simp add: dot_def f32_add_zero_sum)

lemma matvec_quant_rows_value:
  assumes "\<forall>r \<in> set rs. r < length out \<and> (r + 1) * rb \<le> length data \<and> length (row r) = cols \<and>
      (\<forall>buf. length buf = cols \<longrightarrow> dequant_row t (take rb (drop (r * rb) data)) buf = (Ok (row r) :: ('e, f32 list) outcome))"
    and "distinct rs" "length buf = cols"
  shows "matvec_quant_rows data t x rb rs buf out =
    (Ok (map (\<lambda>r. if r \<in> set rs then f32_add (out ! r) (dot (row r) x) else out ! r) [0..<length out]) :: ('e, f32 list) outcome)"
  using assms
proof (induction rs arbitrary: out buf)
  case Nil
  show ?case by (simp add: map_nth)
next
  case (Cons r rs)
  let ?out = "out[r := f32_add (out ! r) (dot (row r) x)]"
  have "slice data (r * rb) ((r + 1) * rb) = (Ok (take rb (drop (r * rb) data)) :: ('e, u8 list) outcome)"
    using slice_Ok [of "r * rb" "(r + 1) * rb" data] Cons.prems(1) by simp
  moreover have "add_at r (dot (row r) x) out = (Ok ?out :: ('e, f32 list) outcome)" using Cons.prems(1) by (simp add: add_at_def)
  moreover have "dequant_row t (take rb (drop (r * rb) data)) buf = (Ok (row r) :: ('e, f32 list) outcome)" using Cons.prems(1,3) by simp
  moreover have "matvec_quant_rows data t x rb rs (row r) ?out =
      (Ok (map (\<lambda>q. if q \<in> set rs then f32_add (?out ! q) (dot (row q) x) else ?out ! q) [0..<length ?out]) :: ('e, f32 list) outcome)"
    by (rule Cons.IH) (use Cons.prems in auto)
  moreover have "map (\<lambda>q. if q \<in> set rs then f32_add (?out ! q) (dot (row q) x) else ?out ! q) [0..<length ?out] =
      map (\<lambda>q. if q \<in> set (r # rs) then f32_add (out ! q) (dot (row q) x) else out ! q) [0..<length out]"
    using Cons.prems(1,2) by (auto simp: nth_list_update)
  ultimately show ?case by simp
qed

text \<open>The values of a row, which do not depend on the buffer they are written to.\<close>

definition row_values :: "ggml_type \<Rightarrow> u8 list \<Rightarrow> nat \<Rightarrow> nat \<Rightarrow> nat \<Rightarrow> f32 list \<Rightarrow> bool" where
  "row_values t data rb cols r vs \<longleftrightarrow> length vs = cols \<and>
     (\<forall>buf. length buf = cols \<longrightarrow> dequant_row t (take rb (drop (r * rb) data)) buf = (Ok vs :: (load_error, f32 list) outcome))"

lemma cpu_matvec:
  assumes "\<And>r. r < rows \<Longrightarrow> row_values t data rb cols r (row r)" "rows * rb \<le> length data" "ggml_nbytes t cols = (Ok rb :: (load_error, nat) outcome)"
  shows "matvec_quant (replicate rows 0) data t x rows cols = (Ok (map (\<lambda>r. dot (row r) x) [0..<rows]) :: (load_error, f32 list) outcome)"
proof -
  have len: "(r + 1) * rb \<le> length data" if "r < rows" for r
    using mult_le_mono1 [of "r + 1" rows rb] that assms(2) by simp
  have "matvec_quant_rows data t x rb [0..<rows] (replicate cols 0) (replicate rows 0) =
      (Ok (map (\<lambda>r. if r \<in> set [0..<rows] then f32_add (replicate rows 0 ! r) (dot (row r) x) else replicate rows 0 ! r)
        [0..<length (replicate rows (0 :: f32))]) :: (load_error, f32 list) outcome)"
    by (rule matvec_quant_rows_value [where cols = cols]) (use assms(1) len in \<open>auto simp: row_values_def\<close>)
  also have "map (\<lambda>r. if r \<in> set [0..<rows] then f32_add (replicate rows 0 ! r) (dot (row r) x) else replicate rows 0 ! r)
        [0..<length (replicate rows (0 :: f32))] = map (\<lambda>r. dot (row r) x) [0..<rows]"
    by (auto simp: f32_add_zero_dot)
  finally show ?thesis using assms(3) by (simp add: matvec_quant_def)
qed

section \<open>Rows on the device\<close>

text \<open>A call of a matrix kernel has one thread for each row.\<close>

lemma matvec_threads:
  assumes "\<And>r m'. r < rows \<Longrightarrow> same_except out m m' \<Longrightarrow> run_thread lm c (of_nat r) 0 m' = (store32 out r (val r) m' :: ('e, gpu_mem) outcome)"
    and "out < length m" "4 * rows \<le> length (m ! out)"
  shows "\<exists>m'. run_threads lm c rows 1 m = (Ok m' :: ('e, gpu_mem) outcome) \<and> same_except out m m' \<and>
    load_list m' out [0..<rows] = (Ok (map val [0..<rows]) :: ('d, f32 list) outcome)"
proof -
  from threads_write [of "[0..<rows]" out m "\<lambda>x. run_thread lm c (of_nat x) 0" "\<lambda>i. i" val m, where 'd = 'd] assms
  obtain m' where m': "loop (\<lambda>x. run_thread lm c (of_nat x) 0) [0..<rows] m = (Ok m' :: ('e, gpu_mem) outcome)" "same_except out m m'"
    "\<forall>i \<in> set [0..<rows]. load32 m' out i = (Ok (val i) :: ('d, u32) outcome)"
    by auto
  then show ?thesis unfolding run_threads_row using load_list_map [OF m'(3)] by blast
qed

text \<open>Words that stand for small numbers.\<close>

lemma unat_row:
  assumes "r < rows" "c < cols" "rows * cols < 2 ^ 32"
  shows "unat (of_nat r * of_nat cols + of_nat c :: u32) = r * cols + c"
proof -
  have "r * cols + c < (r + 1) * cols" using assms(2) by simp
  also have "\<dots> \<le> rows * cols" using assms(1) by (intro mult_le_mono1) simp
  finally have "r * cols + c < 2 ^ LENGTH(32)" using assms(3) by simp
  moreover have "(of_nat r * of_nat cols + of_nat c :: u32) = of_nat (r * cols + c)" by simp
  ultimately show ?thesis by (simp only: unat_of_nat_small)
qed

section \<open>Rows of floats\<close>

definition float_at :: "u8 list \<Rightarrow> nat \<Rightarrow> f32" where
  "float_at data i = of_nat (le_value (take 4 (drop (4 * i) data)))"

lemma load32_float: "b < length m \<Longrightarrow> 4 * i + 4 \<le> length (m ! b) \<Longrightarrow> load32 m b i = Ok (float_at (m ! b) i)"
  by (simp add: load32_def load32_at_def float_at_def)

lemma row_values_f32:
  assumes "r < rows" "4 * (rows * cols) \<le> length data"
  shows "row_values T_F32 data (4 * cols) cols r (map (\<lambda>c. float_at data (r * cols + c)) [0..<cols])"
proof -
  have "(r + 1) * cols \<le> rows * cols" using assms(1) by (intro mult_le_mono1) simp
  then have "r * (4 * cols) + 4 * cols \<le> length data" using assms(2) by simp
  then have len: "length (take (4 * cols) (drop (r * (4 * cols)) data)) = 4 * cols" by simp
  have "map (\<lambda>c. of_nat (le_value c)) (chunks_exact 4 (take (4 * cols) (drop (r * (4 * cols)) data))) =
      map (\<lambda>c. float_at data (r * cols + c)) [0..<cols]"
  proof (rule nth_equalityI)
    fix c assume "c < length (map (\<lambda>c. of_nat (le_value c) :: f32) (chunks_exact 4 (take (4 * cols) (drop (r * (4 * cols)) data))))"
    then have c: "c < cols" using len by (simp add: chunks_exact_def)
    then have "4 * c + 4 \<le> 4 * cols" by simp
    then have "take 4 (drop (c * 4) (take (4 * cols) (drop (r * (4 * cols)) data))) = take 4 (drop (4 * (r * cols + c)) data)"
      by (simp add: drop_take min_def algebra_simps)
    with c len show "map (\<lambda>c. of_nat (le_value c)) (chunks_exact 4 (take (4 * cols) (drop (r * (4 * cols)) data))) ! c =
        map (\<lambda>c. float_at data (r * cols + c)) [0..<cols] ! c"
      by (simp add: chunks_exact_def float_at_def)
  qed (use len in \<open>simp add: chunks_exact_def\<close>)
  then show ?thesis by (simp add: row_values_def copy_f32_row_def overwrite_def)
qed

lemma matvec_f32_thread:
  assumes "r < rows" "rows * cols < 2 ^ 32" "rows < 2 ^ 32" "cols < 2 ^ 32" "w < length m" "4 * (rows * cols) \<le> length (m ! w)"
    and "load_list m x [0..<cols] = (Ok xs :: ('e, f32 list) outcome)"
  shows "run_thread lm (Matvec_f32 out w x (of_nat rows) (of_nat cols)) (of_nat r) y m =
    (store32 out r (dot (map (\<lambda>c. float_at (m ! w) (r * cols + c)) [0..<cols]) xs) m :: ('e, gpu_mem) outcome)"
proof -
  have r: "unat (of_nat r :: u32) = r" "unat (of_nat rows :: u32) = rows" "unat (of_nat cols :: u32) = cols"
    using assms(1,3,4) by (simp_all add: unat_small)
  then have "\<not> (of_nat rows :: u32) \<le> of_nat r" using assms(1) by (simp add: word_le_nat_alt)
  moreover have "load_list m w (map (\<lambda>c. unat (of_nat r * of_nat cols + of_nat c :: u32)) [0..<cols]) =
      (Ok (map (\<lambda>c. float_at (m ! w) (r * cols + c)) [0..<cols]) :: ('e, f32 list) outcome)"
  proof -
    have eq: "map (\<lambda>c. unat (of_nat r * of_nat cols + of_nat c :: u32)) [0..<cols] = map (\<lambda>c. r * cols + c) [0..<cols]"
      using unat_row [OF assms(1) _ assms(2)] by simp
    have "4 * (r * cols + c) + 4 \<le> length (m ! w)" if "c < cols" for c
    proof -
      have "(r + 1) * cols \<le> rows * cols" using assms(1) by (intro mult_le_mono1) simp
      with that assms(6) show ?thesis by simp
    qed
    then have "\<forall>c \<in> set [0..<cols]. load32 m w (r * cols + c) = (Ok (float_at (m ! w) (r * cols + c)) :: ('e, u32) outcome)"
      by (auto intro!: load32_float [OF assms(5)])
    from load_list_map_of [OF this] show ?thesis unfolding eq .
  qed
  ultimately show ?thesis using assms(7) r by (simp add: matvec_f32_kernel_def comp_def)
qed

section \<open>Rows of blocks\<close>

text \<open>The weights of a block as the kernel computes them, and the blocks of a row.\<close>

definition q4_0_values :: "u8 list \<Rightarrow> f32 list" where
  "q4_0_values block = concat (map (\<lambda>b.
     [f32_mul (f16_to_f32 (le_u16 (block ! 0) (block ! 1))) (f32_of_int (uint (low_nibble b) - 8)),
      f32_mul (f16_to_f32 (le_u16 (block ! 0) (block ! 1))) (f32_of_int (uint (drop_bit 4 b) - 8))]) (take 16 (drop 2 block)))"

definition q4_0_row :: "u8 list \<Rightarrow> nat \<Rightarrow> nat \<Rightarrow> f32 list" where
  "q4_0_row data start nb = concat (map (\<lambda>b. q4_0_values (take 18 (drop (start + b * 18) data))) [0..<nb])"

lemma high_nibble_drop: "high_nibble b = drop_bit 4 b"
proof -
  have "high_nibble b = take_bit 4 (drop_bit 4 b)" by (simp add: high_nibble_def take_bit_eq_mask mask_numeral)
  also have "\<dots> = drop_bit 4 (take_bit 8 b)" by (simp add: take_bit_drop_bit)
  also have "take_bit 8 b = b" using take_bit_length_eq [of b] by simp
  finally show ?thesis .
qed

lemma length_q4_0_values: "length block = 18 \<Longrightarrow> length (q4_0_values block) = 32"
  unfolding q4_0_values_def by (subst length_nibbles) simp

lemma dequant_q4_0_block_eq:
  assumes "length block = 18" "32 \<le> length out"
  shows "dequant_q4_0_block block out = Ok (q4_0_values block @ drop 32 out)"
  using assms by (simp add: dequant_q4_0_block_def q4_0_values_def q4_0_block_def q4_0_elems_def Let_def high_nibble_drop)

lemma bind_assoc: "bind_outcome (bind_outcome r f) g = bind_outcome r (\<lambda>x. bind_outcome (f x) g)"
  by (cases r) simp_all

lemma dequant_blocks_append:
  "dequant_blocks f bytes elems data (bs @ cs) out = bind_outcome (dequant_blocks f bytes elems data bs out) (dequant_blocks f bytes elems data cs)"
  by (induction bs arbitrary: out) (simp_all add: bind_assoc)

lemma dequant_q4_0_row_eq:
  assumes "length data = 18 * nb" "length out = 32 * nb"
  shows "dequant_q4_0_row data out = (Ok (q4_0_row data 0 nb) :: ('e, f32 list) outcome) \<and> length (q4_0_row data 0 nb) = 32 * nb"
proof -
  have "dequant_blocks dequant_q4_0_block q4_0_block q4_0_elems data [0..<n] out = (Ok (q4_0_row data 0 n @ drop (32 * n) out) :: ('e, f32 list) outcome)
      \<and> length (q4_0_row data 0 n) = 32 * n"
    if "n \<le> nb" for n
    using that
  proof (induction n)
    case (Suc n)
    let ?block = "take 18 (drop (n * 18) data)"
    have b: "length ?block = 18" using Suc.prems assms(1) by simp
    have s: "slice data (n * 18) ((n + 1) * 18) = (Ok ?block :: ('e, u8 list) outcome)"
      using slice_Ok [of "n * 18" "(n + 1) * 18" data] Suc.prems assms(1) by simp
    have d: "dequant_q4_0_block ?block (drop (n * 32) out) = (Ok (q4_0_values ?block @ drop 32 (drop (n * 32) out)) :: ('e, f32 list) outcome)"
      by (rule dequant_q4_0_block_eq [OF b]) (use Suc.prems assms(2) in simp)
    from Suc have IH: "dequant_blocks dequant_q4_0_block 18 32 data [0..<n] out = (Ok (q4_0_row data 0 n @ drop (32 * n) out) :: ('e, f32 list) outcome)"
      "length (q4_0_row data 0 n) = 32 * n" by (simp_all add: q4_0_block_def q4_0_elems_def)
    have row: "q4_0_row data 0 (Suc n) = q4_0_row data 0 n @ q4_0_values ?block" by (simp add: q4_0_row_def)
    have "dequant_blocks dequant_q4_0_block 18 32 data [n] (q4_0_row data 0 n @ drop (32 * n) out) =
        (Ok (q4_0_row data 0 n @ (q4_0_values ?block @ drop 32 (drop (n * 32) out))) :: ('e, f32 list) outcome)"
      using s d IH(2) by (simp add: mult.commute)
    with IH row length_q4_0_values [OF b] show ?case
      by (simp add: dequant_blocks_append q4_0_block_def q4_0_elems_def mult.commute [of n 32])
  qed (simp add: q4_0_row_def)
  from this [of nb] assms(2) show ?thesis by (simp add: dequant_q4_0_row_def q4_0_elems_def)
qed

lemma q4_0_row_take:
  assumes "start + 18 * nb \<le> length data"
  shows "q4_0_row (take (18 * nb) (drop start data)) 0 nb = q4_0_row data start nb"
proof -
  have "take 18 (drop (b * 18) (take (18 * nb) (drop start data))) = take 18 (drop (start + b * 18) data)" if "b < nb" for b
  proof -
    have "b * 18 + 18 \<le> 18 * nb" using that by simp
    then show ?thesis by (simp add: drop_take min_def add.commute)
  qed
  then have "map (\<lambda>b. q4_0_values (take 18 (drop (0 + b * 18) (take (18 * nb) (drop start data))))) [0..<nb] =
      map (\<lambda>b. q4_0_values (take 18 (drop (start + b * 18) data))) [0..<nb]" by (intro map_cong) auto
  then show ?thesis unfolding q4_0_row_def by (rule arg_cong)
qed

lemma row_values_q4_0:
  assumes "r < rows" "rows * (18 * nb) \<le> length data"
  shows "row_values T_Q4_0 data (18 * nb) (32 * nb) r (q4_0_row data (r * nb * 18) nb)"
proof -
  have "(r + 1) * (18 * nb) \<le> rows * (18 * nb)" using assms(1) by (intro mult_le_mono1) simp
  then have le: "r * (18 * nb) + 18 * nb \<le> length data" using assms(2) by simp
  then have len: "length (take (18 * nb) (drop (r * (18 * nb)) data)) = 18 * nb" by simp
  have "q4_0_row (take (18 * nb) (drop (r * (18 * nb)) data)) 0 nb = q4_0_row data (r * nb * 18) nb"
    using q4_0_row_take [OF le] by (simp add: ac_simps)
  with dequant_q4_0_row_eq [OF len, where 'e = load_error] show ?thesis
    by (auto simp: row_values_def) (metis length_replicate)
qed

lemma q4_0_bytes_eq:
  assumes "\<forall>a \<in> set as. a < length (m ! w)" "w < length m"
  shows "q4_0_bytes m w delta as = Ok (concat (map (\<lambda>b. [f32_mul delta (f32_of_int (uint (low_nibble b) - 8)),
    f32_mul delta (f32_of_int (uint (drop_bit 4 b) - 8))]) (map ((!) (m ! w)) as)))"
  using assms by (induction as) (simp_all add: load8_def)

lemma q4_0_blocks_eq:
  assumes "w < length m" "\<forall>b \<in> set bs. unat (off + of_nat b * 18) = start + b * 18 \<and> start + b * 18 + 18 \<le> length (m ! w)"
  shows "q4_0_blocks m w off bs = (Ok (concat (map (\<lambda>b. q4_0_values (take 18 (drop (start + b * 18) (m ! w)))) bs)) :: ('e, f32 list) outcome)"
  using assms(2)
proof (induction bs)
  case (Cons b bs)
  let ?s = "start + b * 18"
  have s: "unat (off + of_nat b * 18) = ?s" "?s + 18 \<le> length (m ! w)" using Cons.prems by simp_all
  have "map ((!) (m ! w)) (map (\<lambda>i. ?s + 2 + i) [0..<16]) = take 16 (drop 2 (take 18 (drop ?s (m ! w))))"
  proof (rule nth_equalityI)
    show "length (map ((!) (m ! w)) (map (\<lambda>i. ?s + 2 + i) [0..<16])) = length (take 16 (drop 2 (take 18 (drop ?s (m ! w)))))"
      using s(2) by simp
    fix i assume "i < length (map ((!) (m ! w)) (map (\<lambda>i. ?s + 2 + i) [0..<16]))"
    then have i: "i < 16" by simp
    with s(2) show "map ((!) (m ! w)) (map (\<lambda>i. ?s + 2 + i) [0..<16]) ! i = take 16 (drop 2 (take 18 (drop ?s (m ! w)))) ! i"
      by (simp add: add.assoc)
  qed
  note bytes = this
  have "\<forall>a \<in> set (map (\<lambda>i. ?s + 2 + i) [0..<16]). a < length (m ! w)" using s(2) by auto
  from q4_0_bytes_eq [OF this assms(1), of "f16_to_f32 (le_u16 (m ! w ! ?s) (m ! w ! (?s + 1)))"]
  have "q4_0_bytes m w (f16_to_f32 (le_u16 (m ! w ! ?s) (m ! w ! (?s + 1)))) (map (\<lambda>i. ?s + 2 + i) [0..<16]) =
      (Ok (q4_0_values (take 18 (drop ?s (m ! w)))) :: ('e, f32 list) outcome)"
    unfolding bytes using s(2) by (simp add: q4_0_values_def)
  moreover have "load8 m w ?s = (Ok (m ! w ! ?s) :: ('e, u8) outcome)" "load8 m w (?s + 1) = (Ok (m ! w ! (?s + 1)) :: ('e, u8) outcome)"
    using s(2) assms(1) by (simp_all add: load8_def)
  moreover have "q4_0_blocks m w off bs = (Ok (concat (map (\<lambda>b. q4_0_values (take 18 (drop (start + b * 18) (m ! w)))) bs)) :: ('e, f32 list) outcome)"
    by (rule Cons.IH) (use Cons.prems in simp)
  ultimately show ?case by (simp only: q4_0_blocks.simps Let_def s(1) bind_outcome.simps list.map concat.simps)
qed simp

lemma matvec_q4_0_thread:
  assumes "r < rows" "rows * (32 * nb) < 2 ^ 32" "rows < 2 ^ 32" "32 * nb < 2 ^ 32" "w < length m" "rows * (18 * nb) \<le> length (m ! w)"
    and "load_list m x [0..<32 * nb] = (Ok xs :: ('e, f32 list) outcome)"
  shows "run_thread lm (Matvec_q4_0 out w x (of_nat rows) (of_nat (32 * nb))) (of_nat r) y m =
    (store32 out r (dot (q4_0_row (m ! w) (r * nb * 18) nb) xs) m :: ('e, gpu_mem) outcome)"
proof -
  have r: "unat (of_nat r :: u32) = r" "unat (of_nat rows :: u32) = rows" "unat (of_nat (32 * nb) :: u32) = 32 * nb"
    using assms(1,3,4) by (simp_all only: unat_small)
  then have nr: "\<not> (of_nat rows :: u32) \<le> of_nat r" using assms(1) by (simp add: word_le_nat_alt)
  have "(of_nat (32 * nb) :: u32) div 32 = of_nat nb"
    using r(3) assms(4) by (simp add: word_unat_eq_iff unat_div unat_small)
  moreover have n: "unat (of_nat nb :: u32) = nb" using assms(4) by (intro unat_small) simp
  moreover have "q4_0_blocks m w (of_nat r * of_nat nb * 18) [0..<nb] = (Ok (q4_0_row (m ! w) (r * nb * 18) nb) :: ('e, f32 list) outcome)"
    unfolding q4_0_row_def
  proof (rule q4_0_blocks_eq [OF assms(5)], intro ballI conjI)
    fix b assume "b \<in> set [0..<nb]"
    then have b: "b + 1 \<le> nb" by simp
    have le: "r * nb * 18 + b * 18 + 18 \<le> rows * (18 * nb)"
    proof -
      have "r * nb + (b + 1) \<le> (r + 1) * nb" using b by simp
      also have "\<dots> \<le> rows * nb" using assms(1) by (intro mult_le_mono1) simp
      finally show ?thesis by simp
    qed
    with assms(6) show "r * nb * 18 + b * 18 + 18 \<le> length (m ! w)" by simp
    have "r * nb * 18 + b * 18 < 2 ^ 32" using le assms(2) by (simp add: ac_simps)
    moreover have "(of_nat r * of_nat nb * 18 + of_nat b * 18 :: u32) = of_nat (r * nb * 18 + b * 18)" by simp
    ultimately show "unat (of_nat r * of_nat nb * 18 + of_nat b * 18 :: u32) = r * nb * 18 + b * 18" by (simp only: unat_small)
  qed
  ultimately show ?thesis using assms(7) r(1) nr by (simp add: matvec_q4_0_kernel_def Let_def)
qed

section \<open>A matrix product on the device\<close>

definition device_format :: "metal_model \<Rightarrow> ggml_type" where
  "device_format g = (if mm_quantization (gm_meta g) = Quant_Q4_0 then T_Q4_0 else T_F32)"

lemma row_bytes:
  "cols < 2 ^ 32 \<Longrightarrow> ggml_nbytes T_F32 cols = (Ok (4 * cols) :: ('e, nat) outcome)"
  "32 * nb < 2 ^ 32 \<Longrightarrow> ggml_nbytes T_Q4_0 (32 * nb) = (Ok (18 * nb) :: ('e, nat) outcome)"
  by (simp_all add: ggml_nbytes_def checked64_def div_ceil_def max64_def)

lemma run_threads_matvec:
  assumes "\<And>r m'. r < rows \<Longrightarrow> same_except out m m' \<Longrightarrow>
      run_thread lm c (of_nat r) 0 m' = (store32 out r (dot (row r) xs) m' :: ('e, gpu_mem) outcome)"
    and "out < length m" "4 * rows \<le> length (m ! out)"
    and "\<And>r. r < rows \<Longrightarrow> row_values t data rb cols r (row r)" "rows * rb \<le> length data" "ggml_nbytes t cols = (Ok rb :: (load_error, nat) outcome)"
  shows "\<exists>m'. run_threads lm c rows 1 m = (Ok m' :: ('e, gpu_mem) outcome) \<and> same_except out m m' \<and>
    load_list m' out [0..<rows] = (matvec_quant (replicate rows 0) data t xs rows cols :: (load_error, f32 list) outcome)"
  using matvec_threads [of rows out m lm c "\<lambda>r. dot (row r) xs", OF assms(1-3), where 'd = load_error]
    cpu_matvec [OF assms(4-6), of xs] by simp

lemma device_matvec_f32:
  assumes "w < length m" "out < length m" "out \<noteq> w" "out \<noteq> x" "load_list m x [0..<cols] = (Ok xs :: ('e, f32 list) outcome)"
    and "rows < 2 ^ 32" "cols < 2 ^ 32" "rows * cols < 2 ^ 32" "4 * (rows * cols) \<le> length (m ! w)" "4 * rows \<le> length (m ! out)"
  shows "\<exists>m'. run_threads lm (Matvec_f32 out w x (of_nat rows) (of_nat cols)) rows 1 m = (Ok m' :: ('e, gpu_mem) outcome) \<and> same_except out m m' \<and>
    load_list m' out [0..<rows] = (matvec_quant (replicate rows 0) (m ! w) T_F32 xs rows cols :: (load_error, f32 list) outcome)"
proof (rule run_threads_matvec [where row = "\<lambda>r. map (\<lambda>c. float_at (m ! w) (r * cols + c)) [0..<cols]" and rb = "4 * cols"])
  fix r m' assume r: "r < rows" and m': "same_except out m m'"
  have eq: "m' ! w = m ! w" "length m' = length m" using m' assms(3) same_except_length [OF m'] by (auto simp: same_except_def)
  have "load_list m' x [0..<cols] = (Ok xs :: ('e, f32 list) outcome)" using same_except_load [OF m'] assms(4,5) by metis
  from matvec_f32_thread [OF r assms(8) assms(6,7) _ _ this, of w lm out 0] eq assms(1,9)
  show "run_thread lm (Matvec_f32 out w x (of_nat rows) (of_nat cols)) (of_nat r) 0 m' =
      (store32 out r (dot (map (\<lambda>c. float_at (m ! w) (r * cols + c)) [0..<cols]) xs) m' :: ('e, gpu_mem) outcome)" by simp
next
  show "ggml_nbytes T_F32 cols = (Ok (4 * cols) :: (load_error, nat) outcome)"
    by (rule row_bytes) (rule assms(7))
qed (use assms(2,9,10) row_values_f32 in \<open>auto simp: ac_simps\<close>)

lemma device_matvec_q4_0:
  assumes "w < length m" "out < length m" "out \<noteq> w" "out \<noteq> x" "load_list m x [0..<32 * nb] = (Ok xs :: ('e, f32 list) outcome)"
    and "rows < 2 ^ 32" "32 * nb < 2 ^ 32" "rows * (32 * nb) < 2 ^ 32" "rows * (18 * nb) \<le> length (m ! w)" "4 * rows \<le> length (m ! out)"
  shows "\<exists>m'. run_threads lm (Matvec_q4_0 out w x (of_nat rows) (of_nat (32 * nb))) rows 1 m = (Ok m' :: ('e, gpu_mem) outcome) \<and> same_except out m m' \<and>
    load_list m' out [0..<rows] = (matvec_quant (replicate rows 0) (m ! w) T_Q4_0 xs rows (32 * nb) :: (load_error, f32 list) outcome)"
proof (rule run_threads_matvec [where row = "\<lambda>r. q4_0_row (m ! w) (r * nb * 18) nb" and rb = "18 * nb"])
  fix r m' assume r: "r < rows" and m': "same_except out m m'"
  have eq: "m' ! w = m ! w" "length m' = length m" using m' assms(3) same_except_length [OF m'] by (auto simp: same_except_def)
  have "load_list m' x [0..<32 * nb] = (Ok xs :: ('e, f32 list) outcome)" using same_except_load [OF m'] assms(4,5) by metis
  from matvec_q4_0_thread [OF r assms(8,6,7) _ _ this, of w lm out 0] eq assms(1,9)
  show "run_thread lm (Matvec_q4_0 out w x (of_nat rows) (of_nat (32 * nb))) (of_nat r) 0 m' =
      (store32 out r (dot (q4_0_row (m ! w) (r * nb * 18) nb) xs) m' :: ('e, gpu_mem) outcome)" by simp
next
  show "ggml_nbytes T_Q4_0 (32 * nb) = (Ok (18 * nb) :: (load_error, nat) outcome)"
    by (rule row_bytes) (rule assms(7))
qed (use assms(2,9,10) row_values_q4_0 in \<open>auto simp: ac_simps\<close>)

lemma dispatched_matvec:
  assumes "dispatch_matvec dev out w x rows cols (g, m, []) = (Ok (), g1, m1, cb)"
    and "w < length m" "out < length m" "out \<noteq> w" "out \<noteq> x" "load_list m x [0..<cols] = (Ok xs :: (spec_error, f32 list) outcome)"
    and "rows < 2 ^ 32" "cols < 2 ^ 32" "rows * cols < 2 ^ 32" "4 * rows \<le> length (m ! out)"
    and "ggml_nbytes (device_format g) cols = (Ok rb :: (load_error, nat) outcome)" "rows * rb \<le> length (m ! w)"
    and "device_format g = T_Q4_0 \<longrightarrow> 32 dvd cols"
  shows "\<exists>m2. commit lm junk cb m1 = (Ok m2 :: (spec_error, gpu_mem) outcome) \<and> same_except out m m2 \<and>
    load_list m2 out [0..<rows] = (matvec_quant (replicate rows 0) (m ! w) (device_format g) xs rows cols :: (load_error, f32 list) outcome)"
proof (cases "mm_quantization (gm_meta g) = Quant_Q4_0")
  case True
  with assms(13) obtain nb where nb: "cols = 32 * nb" by (auto simp: device_format_def elim: dvdE)
  have "rb = 18 * nb" using row_bytes(2) [OF assms(8) [unfolded nb], where 'e = load_error] assms(11) True nb by (simp add: device_format_def)
  with assms(12) have len: "rows * (18 * nb) \<le> length (m ! w)" by simp
  from assms(1) True have "m1 = m" "cb = [\<lparr>dp_call = Matvec_q4_0 out w x (of_nat rows) (of_nat cols), dp_width = rows, dp_height = 1\<rparr>]"
    by (auto simp: dispatch_matvec_def with_meta_def emit_or_err_def Let_def split: if_splits)
  then show ?thesis
    using device_matvec_q4_0 [OF assms(2-5) assms(6) [unfolded nb] assms(7) assms(8,9) [unfolded nb] len assms(10), of lm] True
    by (simp add: commit_def run_dispatch_def device_format_def nb del: mult_cancel1)
next
  case False
  have "rb = 4 * cols" using row_bytes(1) [OF assms(8), where 'e = load_error] assms(11) False by (simp add: device_format_def)
  with assms(12) have len: "4 * (rows * cols) \<le> length (m ! w)" by (simp add: ac_simps)
  from assms(1) False have "m1 = m" "cb = [\<lparr>dp_call = Matvec_f32 out w x (of_nat rows) (of_nat cols), dp_width = rows, dp_height = 1\<rparr>]"
    by (auto simp: dispatch_matvec_def with_meta_def emit_or_err_def Let_def split: if_splits)
  then show ?thesis
    using device_matvec_f32 [OF assms(2-9) len assms(10), of lm] False
    by (simp add: commit_def run_dispatch_def device_format_def)
qed

text \<open>C19. A matrix product on the device is the CPU's, under the arithmetic of \<open>GpuKernels\<close> (IEEE single precision in the written order, nothing fused
  and no subnormal flushed, which Metal's default options do not promise): what the model encodes for a matrix, run by the device, leaves in the
  output buffer, bit for bit, what \<open>matvec_quant\<close> computes from the same bytes read in the device's
  format, and changes no other buffer. Whole rows of blocks, an output that is not an input, and sizes that
  the kernel's 32-bit indices can address are what it takes.\<close>

theorem metal_matvec_as_cpu:
  assumes "dispatch_matvec dev out w x rows cols (g, m, []) = (Ok (), g1, m1, cb)"
    and "w < length m" "out < length m" "out \<noteq> w" "out \<noteq> x" "load_list m x [0..<cols] = (Ok xs :: (spec_error, f32 list) outcome)"
    and "rows < 2 ^ 32" "cols < 2 ^ 32" "rows * cols < 2 ^ 32" "4 * rows \<le> length (m ! out)"
    and "ggml_nbytes (device_format g) cols = (Ok rb :: (load_error, nat) outcome)" "rows * rb \<le> length (m ! w)"
    and "device_format g = T_Q4_0 \<longrightarrow> 32 dvd cols"
  shows "\<exists>m2. commit lm junk cb m1 = (Ok m2 :: (spec_error, gpu_mem) outcome) \<and> same_except out m m2 \<and>
    load_list m2 out [0..<rows] = (matvec_quant (replicate rows 0) (m ! w) (device_format g) xs rows cols :: (load_error, f32 list) outcome)"
  by (rule dispatched_matvec) fact+

definition block_mem :: gpu_mem where
  "block_mem = [[0, 0x3c] @ replicate 16 0x79, u32_bytes (replicate 32 0x3f800000), u32_bytes [0]]"

lemma metal_matvec_as_cpu_witness:
  "\<forall>lm junk. \<exists>m2. commit lm junk [\<lparr>dp_call = Matvec_q4_0 2 0 1 1 32, dp_width = 1, dp_height = 1\<rparr>] block_mem = (Ok m2 :: (spec_error, gpu_mem) outcome) \<and>
     same_except 2 block_mem m2 \<and> load_list m2 2 [0..<1] =
       (matvec_quant (replicate 1 0) (block_mem ! 0) (device_format (metal_model_new tiny_meta (\<lambda>_. True))) (replicate 32 0x3f800000) 1 32 :: (load_error, f32 list) outcome)"
proof (intro allI)
  fix lm junk
  have d: "dispatch_matvec open_device 2 0 1 1 32 (metal_model_new tiny_meta (\<lambda>_. True), block_mem, []) =
      (Ok (), metal_model_new tiny_meta (\<lambda>_. True), block_mem, [\<lparr>dp_call = Matvec_q4_0 2 0 1 1 32, dp_width = 1, dp_height = 1\<rparr>])"
    by (simp add: dispatch_matvec_def with_meta_def emit_or_err_def Let_def metal_model_new_def tiny_meta_def open_device_def kernel_names_def)
  have l: "load_list block_mem 1 [0..<32] = (Ok (replicate 32 0x3f800000) :: (spec_error, f32 list) outcome)"
    using load_encoded [of 1 block_mem "replicate 32 0x3f800000" "[]"] by (simp add: block_mem_def)
  have b: "ggml_nbytes (device_format (metal_model_new tiny_meta (\<lambda>_. True))) 32 = (Ok 18 :: (load_error, nat) outcome)"
    by (simp add: device_format_def metal_model_new_def tiny_meta_def ggml_nbytes_def div_ceil_def checked64_def max64_def)
  from metal_matvec_as_cpu [OF d _ _ _ _ l _ _ _ _ b]
  show "\<exists>m2. commit lm junk [\<lparr>dp_call = Matvec_q4_0 2 0 1 1 32, dp_width = 1, dp_height = 1\<rparr>] block_mem = (Ok m2 :: (spec_error, gpu_mem) outcome) \<and>
     same_except 2 block_mem m2 \<and> load_list m2 2 [0..<1] =
       (matvec_quant (replicate 1 0) (block_mem ! 0) (device_format (metal_model_new tiny_meta (\<lambda>_. True))) (replicate 32 0x3f800000) 1 32 :: (load_error, f32 list) outcome)"
    by (simp add: block_mem_def)
qed

end
