(* ===== verification/TpProps.thy ===== *)
theory TpProps
  imports TpModel GpuMatvec
begin

text \<open>
  Matrices split by rows over devices: each device multiplies its shard, and what the devices compute, one after
  the other, is what one processor computes with the whole matrix.
\<close>

section \<open>Rows of a shard\<close>

lemma row_values_shard:
  assumes "j < q" "(rank + 1) * q \<le> n" "length data = n * rb"
  shows "row_values t (take (q * rb) (drop (rank * (q * rb)) data)) rb cols j vs \<longleftrightarrow> row_values t data rb cols (rank * q + j) vs"
proof -
  have "(j + 1) * rb \<le> q * rb" using assms(1) by (intro mult_le_mono1) simp
  then have j: "j * rb + rb \<le> q * rb" by simp
  have "take rb (drop (j * rb) (take (q * rb) (drop (rank * (q * rb)) data))) = take rb (drop (j * rb + rank * (q * rb)) data)"
    using j by (simp add: drop_take min_def)
  also have "j * rb + rank * (q * rb) = (rank * q + j) * rb" by (simp add: algebra_simps)
  finally show ?thesis unfolding row_values_def by simp
qed

text \<open>Formats whose rows decode to the same values whatever they are written over.\<close>

definition rows_decode :: "ggml_type \<Rightarrow> u8 list \<Rightarrow> nat \<Rightarrow> nat \<Rightarrow> nat \<Rightarrow> bool" where
  "rows_decode t data rb cols rows \<longleftrightarrow> (\<forall>r < rows. \<exists>vs. row_values t data rb cols r vs)"

lemma rows_decode_f32: "4 * (rows * cols) \<le> length data \<Longrightarrow> rows_decode T_F32 data (4 * cols) cols rows"
  unfolding rows_decode_def using row_values_f32 by blast

lemma rows_decode_q4_0: "rows * (18 * nb) \<le> length data \<Longrightarrow> rows_decode T_Q4_0 data (18 * nb) (32 * nb) rows"
  unfolding rows_decode_def using row_values_q4_0 by blast

lemma upt_split: "[0..<tp * q] = concat (map (\<lambda>r. map (\<lambda>j. r * q + j) [0..<q]) [0..<tp])"
proof (induction tp)
  case (Suc tp)
  have "[0..<Suc tp * q] = [0..<tp * q] @ [tp * q..<tp * q + q]" by (metis add.commute le_add1 mult_Suc upt_add_eq_append zero_le)
  moreover have "[tp * q..<tp * q + q] = map (\<lambda>j. tp * q + j) [0..<q]" by (rule nth_equalityI) simp_all
  ultimately show ?case using Suc by simp
qed simp

lemma shards_multiply:
  assumes "rows_decode t data rb cols (tp * q)" "length data = tp * q * rb" "ggml_nbytes t cols = (Ok rb :: (load_error, nat) outcome)"
  shows "\<exists>ys. length ys = tp \<and>
    (\<forall>r < tp. matvec_quant (replicate q 0) (take (q * rb) (drop (r * (q * rb)) data)) t x q cols = (Ok (ys ! r) :: (load_error, f32 list) outcome)) \<and>
    matvec_quant (replicate (tp * q) 0) data t x (tp * q) cols = (Ok (concat ys) :: (load_error, f32 list) outcome)"
proof -
  from assms(1) obtain row where row: "\<And>r. r < tp * q \<Longrightarrow> row_values t data rb cols r (row r)"
    unfolding rows_decode_def by metis
  let ?ys = "map (\<lambda>r. map (\<lambda>j. dot (row (r * q + j)) x) [0..<q]) [0..<tp]"
  have whole: "matvec_quant (replicate (tp * q) 0) data t x (tp * q) cols = (Ok (map (\<lambda>r. dot (row r) x) [0..<tp * q]) :: (load_error, f32 list) outcome)"
    by (rule cpu_matvec [OF row _ assms(3)]) (simp_all add: assms(2))
  have split: "map (\<lambda>r. dot (row r) x) [0..<tp * q] = concat ?ys"
    unfolding upt_split by (simp add: map_concat comp_def)
  have part: "matvec_quant (replicate q 0) (take (q * rb) (drop (r * (q * rb)) data)) t x q cols =
      (Ok (map (\<lambda>j. dot (row (r * q + j)) x) [0..<q]) :: (load_error, f32 list) outcome)" if r: "r < tp" for r
  proof (rule cpu_matvec [OF _ _ assms(3)])
    have le: "(r + 1) * q \<le> tp * q" using r by (intro mult_le_mono1) simp
    fix j assume j: "j < q"
    with le have "r * q + j < tp * q" by simp
    with row_values_shard [OF j le, of data rb] row assms(2)
    show "row_values t (take (q * rb) (drop (r * (q * rb)) data)) rb cols j (row (r * q + j))" by simp
  next
    have "(r + 1) * (q * rb) \<le> tp * (q * rb)" using r by (intro mult_le_mono1) simp
    then show "q * rb \<le> length (take (q * rb) (drop (r * (q * rb)) data))" using assms(2) by (simp add: algebra_simps)
  qed
  show ?thesis unfolding whole split by (rule exI [of _ ?ys]) (simp add: part)
qed

lemma column_shard:
  assumes "1 < tp" "0 < q" "dims \<noteq> []" "unat (last dims) = tp * q" "length bytes = tp * q * rb" "r < tp"
  shows "shard_weight name bytes dims quant Column tp r =
    Ok \<lparr>sw_data = take (q * rb) (drop (r * (q * rb)) bytes), sw_shape = dims[length dims - 1 := of_nat q]\<rparr>"
proof -
  have "(r + 1) * (q * rb) \<le> tp * (q * rb)" by (rule part_end [OF assms(6)])
  then have "slice bytes (r * q * rb) ((r + 1) * q * rb) = Ok (take (q * rb) (drop (r * (q * rb)) bytes))"
    by (subst slice_ok) (simp_all add: assms(5) algebra_simps)
  with assms(1-5) show ?thesis by (simp add: shard_weight_def shard_columns_def)
qed

lemma matvec_rows_length: "matvec_quant_rows data t x rb rs buf out = Ok ys \<Longrightarrow> length ys = length out"
  by (induction rs arbitrary: buf out) (auto simp: add_at_def split: if_splits)

lemma cpu_matvec_length: "matvec_quant (replicate n 0) data t x rows cols = Ok ys \<Longrightarrow> length ys = n"
  by (auto simp: matvec_quant_def dest: matvec_rows_length)

section \<open>The logits of all devices\<close>

text \<open>A device that is about to multiply its part of a matrix by the activations \<open>xs\<close>.\<close>

record rank_state =
  rk_device :: gpu_device
  rk_model :: metal_model
  rk_mem :: gpu_mem
  rk_out :: buf_id
  rk_weight :: buf_id
  rk_input :: buf_id

definition rank_ready :: "ggml_type \<Rightarrow> usize \<Rightarrow> usize \<Rightarrow> f32 list \<Rightarrow> u8 list \<Rightarrow> rank_state \<Rightarrow> bool" where
  "rank_ready t rows cols xs part k \<longleftrightarrow>
     device_format (rk_model k) = t \<and> gd_encoders (rk_device k) \<and> {''matvec_f32'', ''matvec_q4_0''} \<subseteq> set (gm_pipelines (rk_model k)) \<and>
     rk_weight k < length (rk_mem k) \<and> rk_out k < length (rk_mem k) \<and> rk_out k \<notin> {rk_weight k, rk_input k} \<and>
     rk_mem k ! rk_weight k = part \<and> load_list (rk_mem k) (rk_input k) [0..<cols] = (Ok xs :: (spec_error, f32 list) outcome) \<and>
     4 * rows \<le> length (rk_mem k ! rk_out k)"

lemma rank_multiplies:
  assumes "rank_ready t rows cols xs part k" "rows < 2 ^ 32" "cols < 2 ^ 32" "rows * cols < 2 ^ 32"
    and "ggml_nbytes t cols = (Ok rb :: (load_error, nat) outcome)" "rows * rb \<le> length part" "t = T_Q4_0 \<longrightarrow> 32 dvd cols"
  shows "\<exists>g1 m1 cb m2. dispatch_matvec (rk_device k) (rk_out k) (rk_weight k) (rk_input k) rows cols (rk_model k, rk_mem k, []) = (Ok (), g1, m1, cb) \<and>
    commit lm junk cb m1 = (Ok m2 :: (spec_error, gpu_mem) outcome) \<and>
    load_list m2 (rk_out k) [0..<rows] = (matvec_quant (replicate rows 0) part t xs rows cols :: (load_error, f32 list) outcome)"
proof -
  obtain g1 m1 cb where d: "dispatch_matvec (rk_device k) (rk_out k) (rk_weight k) (rk_input k) rows cols (rk_model k, rk_mem k, []) = (Ok (), g1, m1, cb)"
    using assms(1) by (cases "mm_quantization (gm_meta (rk_model k)) = Quant_Q4_0")
      (auto simp: rank_ready_def dispatch_matvec_def with_meta_def emit_or_err_def Let_def)
  from dispatched_matvec [OF d, of xs rb lm junk] assms show ?thesis
    unfolding rank_ready_def using d by blast
qed

text \<open>C20. Tensor parallelism by rows does not change the product, under the arithmetic of \<open>GpuKernels\<close> (IEEE single precision in the written
  order, nothing fused and no subnormal flushed): when the weight is split over the devices by \<open>shard_weight\<close>, each device
  multiplies its shard by the same activations, and the parts are gathered in the order of the ranks,
  the result is, bit for bit, the CPU's product with the whole weight, for floats and for 4-bit blocks. It
  is how the tensor-parallel model computes its logits.\<close>

theorem tp_matvec_gathered:
  assumes "1 < tp" "0 < q" "dims \<noteq> []" "unat (last dims) = tp * q" "length bytes = tp * q * rb"
    and "ggml_nbytes t cols = (Ok rb :: (load_error, nat) outcome)" "t = T_F32 \<or> t = T_Q4_0 \<and> 32 dvd cols"
    and "q < 2 ^ 32" "cols < 2 ^ 32" "q * cols < 2 ^ 32"
    and "\<forall>r < tp. \<exists>part. shard_weight name bytes dims quant Column tp r = Ok part \<and> rank_ready t q cols xs (sw_data part) (ks r)"
  shows "\<exists>ys. length ys = tp \<and>
    (\<forall>r < tp. \<exists>g1 m1 cb m2. dispatch_matvec (rk_device (ks r)) (rk_out (ks r)) (rk_weight (ks r)) (rk_input (ks r)) q cols
          (rk_model (ks r), rk_mem (ks r), []) = (Ok (), g1, m1, cb) \<and>
        commit lm junk cb m1 = (Ok m2 :: (spec_error, gpu_mem) outcome) \<and>
        load_list m2 (rk_out (ks r)) [0..<q] = (Ok (ys ! r) :: (load_error, f32 list) outcome)) \<and>
    matvec_quant (replicate (tp * q) 0) bytes t xs (tp * q) cols = (Ok (gather_logits (tp * q) ys) :: (load_error, f32 list) outcome)"
proof -
  have dec: "rows_decode t bytes rb cols (tp * q)"
    using assms(7)
  proof
    assume t: "t = T_F32"
    then have "rb = 4 * cols" using row_bytes(1) [OF assms(9), where 'e = load_error] assms(6) by simp
    with t assms(5) show ?thesis using rows_decode_f32 [of "tp * q" cols bytes] by (simp add: ac_simps)
  next
    assume t: "t = T_Q4_0 \<and> 32 dvd cols"
    then obtain nb where nb: "cols = 32 * nb" by (auto elim: dvdE)
    then have "rb = 18 * nb" using row_bytes(2) [OF assms(9) [unfolded nb], where 'e = load_error] assms(6) t by simp
    with t nb assms(5) show ?thesis by (simp add: rows_decode_q4_0)
  qed
  from shards_multiply [OF dec assms(5,6), of xs] obtain ys where
    ys: "length ys = tp" "\<forall>r < tp. matvec_quant (replicate q 0) (take (q * rb) (drop (r * (q * rb)) bytes)) t xs q cols =
        (Ok (ys ! r) :: (load_error, f32 list) outcome)" and
    whole: "matvec_quant (replicate (tp * q) 0) bytes t xs (tp * q) cols = (Ok (concat ys) :: (load_error, f32 list) outcome)" by blast
  have "length (concat ys) = tp * q"
    using whole cpu_matvec_length by blast
  then have g: "gather_logits (tp * q) ys = concat ys" by (simp add: gather_logits_def overwrite_def)
  have "\<exists>g1 m1 cb m2. dispatch_matvec (rk_device (ks r)) (rk_out (ks r)) (rk_weight (ks r)) (rk_input (ks r)) q cols
          (rk_model (ks r), rk_mem (ks r), []) = (Ok (), g1, m1, cb) \<and>
        commit lm junk cb m1 = (Ok m2 :: (spec_error, gpu_mem) outcome) \<and>
        load_list m2 (rk_out (ks r)) [0..<q] = (Ok (ys ! r) :: (load_error, f32 list) outcome)" if r: "r < tp" for r
  proof -
    let ?part = "take (q * rb) (drop (r * (q * rb)) bytes)"
    have ready: "rank_ready t q cols xs ?part (ks r)"
      using assms(11) [rule_format, OF r] column_shard [OF assms(1-5) r, of name quant] by auto
    have "(r + 1) * (q * rb) \<le> tp * (q * rb)" by (rule part_end [OF r])
    then have len: "q * rb \<le> length ?part" using assms(5) by (simp add: algebra_simps)
    have "t = T_Q4_0 \<longrightarrow> 32 dvd cols" using assms(7) by auto
    from rank_multiplies [OF ready assms(8-10,6) len this, of lm junk] ys(2) r show ?thesis by metis
  qed
  with ys(1) whole g show ?thesis by auto
qed

definition pair_rank :: "usize \<Rightarrow> rank_state" where
  "pair_rank r =
     \<lparr>rk_device = open_device, rk_model = metal_model_new (tiny_meta\<lparr>mm_quantization := Quant_F32\<rparr>) (\<lambda>_. True),
      rk_mem = [take 4 (drop (r * 4) (u32_bytes [0x40000000, 0x40400000])), u32_bytes [0x3f800000], u32_bytes [0]],
      rk_out = 2, rk_weight = 0, rk_input = 1\<rparr>"

lemma tp_matvec_gathered_witness:
  "\<forall>lm junk. \<exists>ys. length ys = 2 \<and>
    (\<forall>r < 2. \<exists>g1 m1 cb m2. dispatch_matvec (rk_device (pair_rank r)) (rk_out (pair_rank r)) (rk_weight (pair_rank r)) (rk_input (pair_rank r)) 1 1
          (rk_model (pair_rank r), rk_mem (pair_rank r), []) = (Ok (), g1, m1, cb) \<and>
        commit lm junk cb m1 = (Ok m2 :: (spec_error, gpu_mem) outcome) \<and>
        load_list m2 (rk_out (pair_rank r)) [0..<1] = (Ok (ys ! r) :: (load_error, f32 list) outcome)) \<and>
    matvec_quant (replicate (2 * 1) 0) (u32_bytes [0x40000000, 0x40400000]) T_F32 [0x3f800000] (2 * 1) 1 =
      (Ok (gather_logits (2 * 1) ys) :: (load_error, f32 list) outcome)"
proof (intro allI)
  fix lm junk
  have nb: "ggml_nbytes T_F32 1 = (Ok 4 :: (load_error, nat) outcome)" using row_bytes(1) [of 1, where 'e = load_error] by simp
  have ready: "\<forall>r < 2. \<exists>part. shard_weight ''output.weight'' (u32_bytes [0x40000000, 0x40400000]) [1, 2] Quant_F32 Column 2 r = Ok part \<and>
      rank_ready T_F32 1 1 [0x3f800000] (sw_data part) (pair_rank r)"
  proof (intro allI impI)
    fix r :: nat assume r: "r < 2"
    have c: "shard_weight ''output.weight'' (u32_bytes [0x40000000, 0x40400000]) [1, 2] Quant_F32 Column 2 r =
        Ok \<lparr>sw_data = take (1 * 4) (drop (r * (1 * 4)) (u32_bytes [0x40000000, 0x40400000])), sw_shape = [1, 2][length [1, 2 :: u64] - 1 := of_nat 1]\<rparr>"
      by (rule column_shard [where tp = 2 and q = 1]) (simp_all add: r)
    have "load_list (rk_mem (pair_rank r)) 1 [0..<1] = (Ok [0x3f800000] :: (spec_error, f32 list) outcome)"
      using load_encoded [of 1 "rk_mem (pair_rank r)" "[0x3f800000]" "[]", where 'a = spec_error] by (simp add: pair_rank_def)
    then have "rank_ready T_F32 1 1 [0x3f800000] (take (1 * 4) (drop (r * (1 * 4)) (u32_bytes [0x40000000, 0x40400000]))) (pair_rank r)"
      by (simp add: rank_ready_def pair_rank_def device_format_def metal_model_new_def tiny_meta_def open_device_def kernel_names_def)
    with c show "\<exists>part. shard_weight ''output.weight'' (u32_bytes [0x40000000, 0x40400000]) [1, 2] Quant_F32 Column 2 r = Ok part \<and>
      rank_ready T_F32 1 1 [0x3f800000] (sw_data part) (pair_rank r)" by simp
  qed
  show "\<exists>ys. length ys = 2 \<and>
    (\<forall>r < 2. \<exists>g1 m1 cb m2. dispatch_matvec (rk_device (pair_rank r)) (rk_out (pair_rank r)) (rk_weight (pair_rank r)) (rk_input (pair_rank r)) 1 1
          (rk_model (pair_rank r), rk_mem (pair_rank r), []) = (Ok (), g1, m1, cb) \<and>
        commit lm junk cb m1 = (Ok m2 :: (spec_error, gpu_mem) outcome) \<and>
        load_list m2 (rk_out (pair_rank r)) [0..<1] = (Ok (ys ! r) :: (load_error, f32 list) outcome)) \<and>
    matvec_quant (replicate (2 * 1) 0) (u32_bytes [0x40000000, 0x40400000]) T_F32 [0x3f800000] (2 * 1) 1 =
      (Ok (gather_logits (2 * 1) ys) :: (load_error, f32 list) outcome)"
    by (rule tp_matvec_gathered [OF _ _ _ _ _ nb _ _ _ _ ready]) simp_all
qed

section \<open>The embedding\<close>

text \<open>The lookup of the embedding is launched with a single thread, and a thread copies a single element: after it has run,
  every element of the hidden state but the first is what it was before.\<close>

lemma tp_embed_fills_one:
  assumes "tp_embed dev meta tok (g, m, cb) = (Ok (), g1, m1, cb1)" "commit lm junk cb1 m1 = (Ok m2 :: (spec_error, gpu_mem) outcome)"
    and "0 < i"
  shows "\<exists>hidden. map_of (gm_scratch g1) ''hidden_state'' = Some hidden \<and> load32 m2 hidden i = (load32 m1 hidden i :: ('e, u32) outcome)"
proof -
  let ?n = "of_nat (mm_n_embd meta) :: u32"
  obtain hidden w where h: "map_of (gm_scratch g1) ''hidden_state'' = Some hidden"
    "cb1 = [\<lparr>dp_call = Embed_lookup hidden w tok ?n, dp_width = 1, dp_height = 1\<rparr>]"
    using assms(1) by (auto simp: tp_embed_def and_then_Ok_iff fresh_buffer_def scratch_def get_scratch_def weight_or_def emit_def Let_def
        hm_insert_def new_buffer_def split: if_splits option.splits outcome.splits prod.splits)
  have "embed_lookup_kernel hidden w tok ?n 0 m1 = (Ok m2 :: (spec_error, gpu_mem) outcome)"
    using assms(2) by (simp add: h(2) commit_def run_dispatch_def run_threads_row [unfolded One_nat_def] split: outcome.splits)
  then have "m2 = m1 \<or> (\<exists>v. store32 hidden 0 v m1 = (Ok m2 :: (spec_error, gpu_mem) outcome))"
    by (auto simp: embed_lookup_kernel_def split: if_splits)
  then have "load32 m2 hidden i = (load32 m1 hidden i :: ('e, u32) outcome)"
    using assms(3) load_store32_other [of hidden 0 _ m1 m2 i] by auto
  with h(1) show ?thesis by blast
qed

end
