(* ===== verification/GpuTree.thy ===== *)
theory GpuTree
  imports MetalModelProps SpecTreeProps
begin

text \<open>
  The map of ancestors that a pass over a tree of drafts gives the device (\<open>forward_tree\<close> of
  \<open>src/src/metal/model.rs\<close>): every row is a node's way from the root, the same one that \<open>get_path\<close> of the
  speculative decoder follows.
\<close>

section \<open>Ways from the root\<close>

inductive root_path :: "spec_tree \<Rightarrow> nat list \<Rightarrow> bool" for tree where
  root: "root_path tree [0]"
| step: "root_path tree path \<Longrightarrow> node_parent (tree ! i) = Some (last path) \<Longrightarrow> root_path tree (path @ [i])"

definition tokens_along :: "spec_tree \<Rightarrow> nat list \<Rightarrow> token_id list" where
  "tokens_along tree path = map (\<lambda>j. node_token (tree ! j)) path"

lemma climb_root_path:
  assumes "tree_ok tree"
  shows "i < length tree \<Longrightarrow> i < f \<Longrightarrow> \<exists>path. climb f tree i = (Ok (rev path) :: ('e, nat list) outcome) \<and>
    root_path tree path \<and> last path = i \<and> tokens_along tree path = tree_path tree i"
proof (induction i arbitrary: f rule: less_induct)
  case (less i)
  obtain f' where f: "f = Suc f'" using less.prems by (cases f) auto
  show ?case
  proof (cases "i = 0")
    case True
    with assms less.prems f tree_path_root [OF assms] show ?thesis
      by (intro exI [of _ "[0]"]) (simp add: tree_ok_def root_path.root tokens_along_def)
  next
    case False
    with assms less.prems obtain p where p: "p < i" "node_parent (tree ! i) = Some p" by (auto simp: tree_ok_def)
    with less.IH [of p f'] less.prems f obtain path where
      path: "climb f' tree p = (Ok (rev path) :: ('e, nat list) outcome)" "root_path tree path" "last path = p"
        "tokens_along tree path = tree_path tree p" by auto
    have "root_path tree (path @ [i])" using root_path.step [OF path(2)] path(3) p(2) by blast
    moreover have "tokens_along tree (path @ [i]) = tree_path tree i"
      using tree_path_child [OF assms less.prems(1) p(2)] path(4) by (simp add: tokens_along_def)
    ultimately show ?thesis using path(1) p(2) less.prems(1) f by (intro exI [of _ "path @ [i]"]) simp
  qed
qed

section \<open>The rows of the map\<close>

lemma length_ancestors_row [simp]: "length (ancestors_row path) = 16"
  by (simp add: ancestors_row_def overwrite_def max_tree_depth_def)

lemma ancestors_row_eq: "ancestors_row path = map of_nat (take 16 path) @ replicate (16 - length path) (-1)"
  by (simp add: ancestors_row_def overwrite_def max_tree_depth_def)

lemma ancestors_rows_eq:
  assumes "\<forall>i \<in> set is. climb (length tree) tree i = (Ok (rev (P i)) :: ('e, nat list) outcome)"
  shows "ancestors_rows tree is = (Ok (concat (map (\<lambda>i. ancestors_row (P i)) is)) :: ('e, u32 list) outcome)"
  using assms by (induction "is") simp_all

lemma length_concat_equal: "\<forall>i \<in> set is. length (f i) = k \<Longrightarrow> length (concat (map f is)) = k * length is"
  by (induction "is") simp_all

lemma concat_row:
  assumes "\<forall>j < n. length (f j) = k" "i < n"
  shows "take k (drop (k * i) (concat (map f [0..<n]))) = f i"
proof -
  have "[0..<n] = [0..<i] @ i # [Suc i..<n]"
    using assms(2) by (metis le_add1 less_imp_add_positive upt_add_eq_append upt_conv_Cons upt_rec zero_le)
  moreover have "length (concat (map f [0..<i])) = k * i" using length_concat_equal [of "[0..<i]" f k] assms by simp
  ultimately show ?thesis using assms by simp
qed

lemma load_part:
  assumes "b < length m" "m ! b = u32_bytes vs" "i + n \<le> length vs"
  shows "load_list m b [i..<i + n] = Ok (take n (drop i vs))"
proof -
  have "load_list m b [i..<i + n] = Ok (map ((!) vs) [i..<i + n])"
    by (rule load_list_map) (use assms in \<open>auto intro: load32_encoded [where rest = "[]"]\<close>)
  also have "map ((!) vs) [i..<i + n] = take n (drop i vs)"
    using assms(3) by (intro nth_equalityI) simp_all
  finally show ?thesis .
qed

text \<open>The map of ancestors holds the ways through the tree: for a tree the decoder builds it is always made, and row \<open>i\<close>
  of the new buffer is the way from the root to node \<open>i\<close> along the parents, cut after 16 nodes and
  filled up with \<open>-1\<close>; the tokens along that way are the path that \<open>get_path\<close> gives the decoder.\<close>

lemma ancestors_map_paths:
  assumes "tree_reach tree" "gd_alloc dev (64 * length tree)"
  shows "\<exists>m'. upload_ancestors dev tree (g, m, cb) = (Ok (length m), g, m', cb) \<and>
    (\<forall>i < length tree. \<exists>path. root_path tree path \<and> last path = i \<and> get_path tree i = Ok (tokens_along tree path) \<and>
       load_list m' (length m) [16 * i..<16 * i + 16] =
         (Ok (map of_nat (take 16 path) @ replicate (16 - length path) (-1)) :: ('e, u32 list) outcome))"
proof -
  note ok = tree_reach_ok [OF assms(1)]
  have "\<forall>i. \<exists>path. i < length tree \<longrightarrow> climb (length tree) tree i = (Ok (rev path) :: (spec_error, nat list) outcome) \<and>
      root_path tree path \<and> last path = i \<and> tokens_along tree path = tree_path tree i"
    using climb_root_path [OF ok] by blast
  then obtain P where P: "\<And>i. i < length tree \<Longrightarrow> climb (length tree) tree i = (Ok (rev (P i)) :: (spec_error, nat list) outcome) \<and>
      root_path tree (P i) \<and> last (P i) = i \<and> tokens_along tree (P i) = tree_path tree i"
    by metis
  define vs where "vs = concat (map (\<lambda>i. ancestors_row (P i)) [0..<length tree])"
  have d: "ancestors_data tree = (Ok vs :: (spec_error, u32 list) outcome)"
    unfolding ancestors_data_def vs_def by (rule ancestors_rows_eq) (use P in auto)
  have len: "length vs = 16 * length tree"
    unfolding vs_def using length_concat_equal [of "[0..<length tree]" "\<lambda>i. ancestors_row (P i)" 16] by simp
  have u: "upload_ancestors dev tree (g, m, cb) = (Ok (length m), g, m @ [u32_bytes vs], cb)"
    using d len assms(2) by (simp add: upload_ancestors_def mult.commute)
  have "load_list (m @ [u32_bytes vs]) (length m) [16 * i..<16 * i + 16] =
      (Ok (map of_nat (take 16 (P i)) @ replicate (16 - length (P i)) (-1)) :: ('e, u32 list) outcome)" if "i < length tree" for i
  proof -
    have "16 * i + 16 \<le> length vs" using that len by simp
    from load_part [OF _ _ this, of "length m" "m @ [u32_bytes vs]"]
    have "load_list (m @ [u32_bytes vs]) (length m) [16 * i..<16 * i + 16] = (Ok (take 16 (drop (16 * i) vs)) :: ('e, u32 list) outcome)"
      by simp
    also have "take 16 (drop (16 * i) vs) = ancestors_row (P i)"
      unfolding vs_def by (rule concat_row) (use that in simp_all)
    finally show ?thesis by (simp only: ancestors_row_eq)
  qed
  note loads = this
  show ?thesis
  proof (rule exI [of _ "m @ [u32_bytes vs]"], rule conjI [OF u], intro allI impI)
    fix i assume i: "i < length tree"
    with loads P get_path_tree_path [OF ok i]
    show "\<exists>path. root_path tree path \<and> last path = i \<and> get_path tree i = Ok (tokens_along tree path) \<and>
       load_list (m @ [u32_bytes vs]) (length m) [16 * i..<16 * i + 16] =
         (Ok (map of_nat (take 16 path) @ replicate (16 - length path) (-1)) :: ('e, u32 list) outcome)"
      by (intro exI [of _ "P i"]) simp
  qed
qed

definition fork_tree :: spec_tree where
  "fork_tree = snd (add_child 0 9 (snd (add_child 0 8 (tree_new 7))))"

lemma ancestors_map_paths_instance:
  "\<exists>m' path. upload_ancestors open_device fork_tree (metal_model_new tiny_meta (\<lambda>_. True), [], []) =
       (Ok 0, metal_model_new tiny_meta (\<lambda>_. True), m', []) \<and>
     root_path fork_tree path \<and> last path = 2 \<and> get_path fork_tree 2 = Ok (tokens_along fork_tree path) \<and>
     load_list m' 0 [32..<48] = (Ok (map of_nat (take 16 path) @ replicate (16 - length path) (-1)) :: (unit, u32 list) outcome)"
proof -
  have r: "tree_reach fork_tree"
    unfolding fork_tree_def by (rule tree_reach.child [OF tree_reach.child [OF tree_reach.new]]) (auto simp: add_child_def tree_new_def)
  have n: "2 < length fork_tree" by (simp add: fork_tree_def add_child_def tree_new_def)
  have a: "gd_alloc open_device (64 * length fork_tree)" by (simp add: open_device_def)
  from ancestors_map_paths [OF r a, of "metal_model_new tiny_meta (\<lambda>_. True)" "[]" "[]", where 'e = unit] obtain m' where
    m': "upload_ancestors open_device fork_tree (metal_model_new tiny_meta (\<lambda>_. True), [], []) =
       (Ok 0, metal_model_new tiny_meta (\<lambda>_. True), m', [])" and
    rows: "\<forall>i < length fork_tree. \<exists>path. root_path fork_tree path \<and> last path = i \<and> get_path fork_tree i = Ok (tokens_along fork_tree path) \<and>
       load_list m' 0 [16 * i..<16 * i + 16] =
         (Ok (map of_nat (take 16 path) @ replicate (16 - length path) (-1)) :: (unit, u32 list) outcome)" by auto
  from rows [rule_format, OF n] m' show ?thesis by fastforce
qed

end
