(* ===== verification/GpuCache.thy ===== *)
theory GpuCache
  imports MetalModelProps
begin

text \<open>
  The paged cache on the device: what \<open>kv_update\<close> stores for a position is what the attention kernels find there,
  through the same page table, and the rows of all other positions stay. The two kernels compute
  their addresses differently, one in a single 32-bit sum, the other by advancing a pointer three times.
\<close>

section \<open>Threads that write into both caches\<close>

text \<open>Memory in which elements from \<open>B\<close> on of \<open>kc\<close> and \<open>vc\<close> have become those of \<open>ks\<close> and \<open>vs\<close>.\<close>

definition patched :: "buf_id \<Rightarrow> nat \<Rightarrow> f32 list \<Rightarrow> gpu_mem \<Rightarrow> gpu_mem \<Rightarrow> bool" where
  "patched b B xs m m' \<longleftrightarrow>
     (\<forall>i. load32 m' b i = (if B \<le> i \<and> i < B + length xs then Ok (xs ! (i - B)) else load32 m b i :: (spec_error, u32) outcome))"

definition elsewhere :: "buf_id list \<Rightarrow> gpu_mem \<Rightarrow> gpu_mem \<Rightarrow> bool" where
  "elsewhere bs m m' \<longleftrightarrow> shape m' = shape m \<and> (\<forall>b. b \<notin> set bs \<longrightarrow> m' ! b = m ! b)"

lemma patched_refl: "patched b B [] m m"
  by (auto simp: patched_def)

lemma patched_store:
  assumes "patched b B xs m m1" "store32 b (B + length xs) v m1 = Ok m2"
  shows "patched b B (xs @ [v]) m m2"
  unfolding patched_def
proof
  fix i
  show "load32 m2 b i = (if B \<le> i \<and> i < B + length (xs @ [v]) then Ok ((xs @ [v]) ! (i - B)) else load32 m b i :: (spec_error, u32) outcome)"
  proof (cases "i = B + length xs")
    case True
    with load_store32 [OF assms(2)] show ?thesis by simp
  next
    case False
    from load_store32_other [OF assms(2) this] have "load32 m2 b i = (load32 m1 b i :: (spec_error, u32) outcome)" .
    with assms(1) False show ?thesis by (auto simp: patched_def nth_append)
  qed
qed

lemma patched_elsewhere: "patched b B xs m m1 \<Longrightarrow> m2 ! b = m1 ! b \<Longrightarrow> length m2 = length m1 \<Longrightarrow> patched b B xs m m2"
  unfolding patched_def by (metis load32_cong)

lemma elsewhere_store: "elsewhere bs m m1 \<Longrightarrow> store32 b i v m1 = Ok m2 \<Longrightarrow> b \<in> set bs \<Longrightarrow> elsewhere bs m m2"
  unfolding elsewhere_def by (metis store32_elsewhere store32_shape)

lemma elsewhere_load32: "elsewhere bs m m' \<Longrightarrow> b \<notin> set bs \<Longrightarrow> load32 m' b i = load32 m b i"
  unfolding elsewhere_def by (metis load32_cong shape_length)

lemma two_writers:
  assumes f: "\<And>t m'. t < n \<Longrightarrow> elsewhere [kc, vc] m m' \<Longrightarrow>
      f t m' = (bind_outcome (store32 kc (B + t) (ks ! t) m') (store32 vc (B + t) (vs ! t)) :: (spec_error, gpu_mem) outcome)"
    and "kc \<noteq> vc" "kc < length m" "vc < length m" "4 * (B + n) \<le> length (m ! kc)" "4 * (B + n) \<le> length (m ! vc)"
    and "length ks = n" "length vs = n"
  shows "\<exists>m'. loop f [0..<n] m = (Ok m' :: (spec_error, gpu_mem) outcome) \<and> elsewhere [kc, vc] m m' \<and> patched kc B ks m m' \<and> patched vc B vs m m'"
proof -
  have "\<exists>m'. loop f [0..<k] m = (Ok m' :: (spec_error, gpu_mem) outcome) \<and> elsewhere [kc, vc] m m' \<and>
      patched kc B (take k ks) m m' \<and> patched vc B (take k vs) m m'" if "k \<le> n" for k
    using that
  proof (induction k)
    case 0
    show ?case by (simp add: patched_refl elsewhere_def)
  next
    case (Suc k)
    then obtain m1 where m1: "loop f [0..<k] m = (Ok m1 :: (spec_error, gpu_mem) outcome)" "elsewhere [kc, vc] m m1"
      "patched kc B (take k ks) m m1" "patched vc B (take k vs) m m1" by auto
    have sh: "length m1 = length m" "length (m1 ! kc) = length (m ! kc)" "length (m1 ! vc) = length (m ! vc)"
      using m1(2) assms(3,4) by (auto simp: elsewhere_def dest: shape_length shape_nth)
    obtain m2 where m2: "store32 kc (B + k) (ks ! k) m1 = (Ok m2 :: (spec_error, gpu_mem) outcome)"
      using store32_Ok [of kc m1 "B + k"] sh assms(3,5) Suc.prems by auto
    note sh2 = store32_shape [OF m2]
    have "length m2 = length m" "length (m2 ! vc) = length (m ! vc)"
      using shape_length [OF sh2] shape_nth [OF sh2, of vc] sh assms(4) by simp_all
    then obtain m3 where m3: "store32 vc (B + k) (vs ! k) m2 = (Ok m3 :: (spec_error, gpu_mem) outcome)"
      using store32_Ok [of vc m2 "B + k"] assms(4,6) Suc.prems by auto
    have tk: "take (Suc k) ks = take k ks @ [ks ! k]" "take (Suc k) vs = take k vs @ [vs ! k]"
      using Suc.prems assms(7,8) by (simp_all add: take_Suc_conv_app_nth)
    have l: "length (take k ks) = k" "length (take k vs) = k" using Suc.prems assms(7,8) by simp_all
    have k2: "patched kc B (take (Suc k) ks) m m2" unfolding tk using patched_store [OF m1(3)] m2 l by simp
    have k3: "patched kc B (take (Suc k) ks) m m3"
      by (rule patched_elsewhere [OF k2]) (use store32_elsewhere [OF m3] assms(2) shape_length [OF store32_shape [OF m3]] in auto)
    have v2: "patched vc B (take k vs) m m2"
      by (rule patched_elsewhere [OF m1(4)]) (use store32_elsewhere [OF m2] assms(2) shape_length [OF sh2] in auto)
    have v3: "patched vc B (take (Suc k) vs) m m3" unfolding tk using patched_store [OF v2] m3 l by simp
    have e3: "elsewhere [kc, vc] m m3"
      by (rule elsewhere_store [OF elsewhere_store [OF m1(2) m2] m3]) simp_all
    have "loop f [0..<Suc k] m = (Ok m3 :: (spec_error, gpu_mem) outcome)"
      using m1(1) f [OF _ m1(2), of k] m2 m3 Suc.prems by (simp add: loop_append)
    with k3 v3 e3 show ?case by blast
  qed
  from this [of n] assms(7,8) show ?thesis by simp
qed

section \<open>Addresses\<close>

text \<open>The first element of a position's row, and a cache that has room for it.\<close>

definition row_base :: "model_meta \<Rightarrow> kv_place \<Rightarrow> u32 \<times> u32 \<Rightarrow> nat" where
  "row_base meta kp = (\<lambda>(block, offset).
     (unat block * kp_block_size kp + unat offset) * (mm_n_head_kv meta * mm_head_dim meta))"

definition row_fits :: "model_meta \<Rightarrow> kv_place \<Rightarrow> u32 \<times> u32 \<Rightarrow> gpu_mem \<Rightarrow> buf_id \<Rightarrow> bool" where
  "row_fits meta kp page m b \<longleftrightarrow> b < length m \<and> row_base meta kp page + mm_n_head_kv meta * mm_head_dim meta < 2 ^ 32 \<and>
     4 * (row_base meta kp page + mm_n_head_kv meta * mm_head_dim meta) \<le> length (m ! b)"

lemma unat_divmod:
  assumes "t < 2 ^ 32" "d < 2 ^ 32"
  shows "(of_nat t :: u32) div of_nat d = of_nat (t div d)" "(of_nat t :: u32) mod of_nat d = of_nat (t mod d)"
proof -
  have u: "unat (of_nat t :: u32) = t" "unat (of_nat d :: u32) = d" using assms by (simp_all add: unat_small)
  have "t div d < 2 ^ 32" "t mod d < 2 ^ 32"
    by (rule le_less_trans [OF div_le_dividend assms(1)], rule le_less_trans [OF mod_less_eq_dividend assms(1)])
  then have v: "unat (of_nat (t div d) :: u32) = t div d" "unat (of_nat (t mod d) :: u32) = t mod d"
    by (simp_all add: unat_small)
  show "(of_nat t :: u32) div of_nat d = of_nat (t div d)" "(of_nat t :: u32) mod of_nat d = of_nat (t mod d)"
    using u v by (simp_all only: word_unat_eq_iff unat_div unat_mod)
qed

lemma cached_row_at:
  assumes "row_base meta kp (block, offset) + mm_n_head_kv meta * mm_head_dim meta < 2 ^ 32" "h < mm_n_head_kv meta"
  shows "cached_row m b (attn_args_of meta kp out q n_ctx pos) (of_nat h) block offset =
    load_list m b (map (\<lambda>d. row_base meta kp (block, offset) + h * mm_head_dim meta + d) [0..<mm_head_dim meta])"
proof -
  let ?H = "mm_n_head_kv meta" and ?D = "mm_head_dim meta" and ?P = "kp_block_size kp"
  have B: "row_base meta kp (block, offset) = unat block * ?P * ?H * ?D + unat offset * ?H * ?D"
    by (simp add: row_base_def algebra_simps)
  have "(h + 1) * ?D \<le> ?H * ?D" using assms(2) by (intro mult_le_mono1) simp
  then have hD: "h * ?D < 2 ^ 32" "?D < 2 ^ 32" using assms(1) by simp_all
  have "unat (block * of_nat ?P * of_nat ?H * of_nat ?D) = unat block * ?P * ?H * ?D"
  proof -
    have "block * of_nat ?P * of_nat ?H * of_nat ?D = of_nat (unat block * ?P * ?H * ?D)" by simp
    moreover have "unat block * ?P * ?H * ?D < 2 ^ 32" using assms(1) B by simp
    ultimately show ?thesis by (simp only: unat_small)
  qed
  moreover have "unat (offset * of_nat ?H * of_nat ?D) = unat offset * ?H * ?D"
  proof -
    have "offset * of_nat ?H * of_nat ?D = of_nat (unat offset * ?H * ?D)" by simp
    moreover have "unat offset * ?H * ?D < 2 ^ 32" using assms(1) B by simp
    ultimately show ?thesis by (simp only: unat_small)
  qed
  moreover have "unat ((of_nat h :: u32) * of_nat ?D) = h * ?D"
    using unat_small [OF hD(1)] by simp
  moreover have "unat (of_nat ?D :: u32) = ?D" by (rule unat_small) (rule hD(2))
  ultimately show ?thesis
    by (simp add: cached_row_def attn_args_of_def B Let_def)
qed

lemma kv_update_thread:
  assumes "row_base meta kp (block, offset) + mm_n_head_kv meta * mm_head_dim meta < 2 ^ 32" "t < mm_n_head_kv meta * mm_head_dim meta"
    and "page_of m (kp_mapping kp) (kp_slot kp) (of_nat (kp_max_pages kp)) (of_nat (kp_block_size kp)) (of_nat pos) =
      (Ok (block, offset) :: ('e, u32 \<times> u32) outcome)"
  shows "kv_update_kernel (kv_args_of meta kp k v pos) (of_nat t) m =
    (bind_outcome (load32 m k t) (\<lambda>x. bind_outcome (store32 (kp_k_pool kp) (row_base meta kp (block, offset) + t) x m)
      (\<lambda>m. bind_outcome (load32 m v t) (\<lambda>y. store32 (kp_v_pool kp) (row_base meta kp (block, offset) + t) y m))) :: ('e, gpu_mem) outcome)"
proof -
  let ?H = "mm_n_head_kv meta" and ?D = "mm_head_dim meta" and ?P = "kp_block_size kp"
  have B: "row_base meta kp (block, offset) = unat block * ?P * ?H * ?D + unat offset * ?H * ?D"
    by (simp add: row_base_def algebra_simps)
  have H: "0 < ?H" "0 < ?D" using assms(2) by (cases ?H; cases ?D; simp)+
  then have "?D \<le> ?H * ?D" "?H \<le> ?H * ?D" by simp_all
  then have b: "t < 2 ^ 32" "?D < 2 ^ 32" "?H < 2 ^ 32" using assms(1,2) by linarith+
  note dm = unat_divmod [OF b(1,2)]
  have "t div ?D < ?H" using assms(2) by (simp add: less_mult_imp_div_less)
  then have "unat (of_nat (t div ?D) :: u32) < unat (of_nat ?H :: u32)" using b(3) by (simp add: unat_small)
  then have guard: "\<not> (of_nat ?H :: u32) \<le> of_nat (t div ?D)" by (simp add: word_le_nat_alt)
  have D0: "(of_nat ?D :: u32) \<noteq> 0" using H(2) unat_small [OF b(2)] by (metis less_numeral_extra(3) unat_0)
  have t: "t div ?D * ?D + t mod ?D = t" by simp
  have "(of_nat (t div ?D) * of_nat ?D + of_nat (t mod ?D) :: u32) = of_nat t"
    by (simp only: of_nat_mult [symmetric] of_nat_add [symmetric] t)
  then have inoff: "unat (of_nat (t div ?D) * of_nat ?D + of_nat (t mod ?D) :: u32) = t" using unat_small [OF b(1)] by simp
  have w: "(of_nat (unat block) :: u32) = block" "(of_nat (unat offset) :: u32) = offset" by simp_all
  have "block * of_nat ?P * of_nat ?H * of_nat ?D + offset * of_nat ?H * of_nat ?D + of_nat (t div ?D) * of_nat ?D + of_nat (t mod ?D) =
      of_nat (unat block * ?P * ?H * ?D + unat offset * ?H * ?D + (t div ?D * ?D + t mod ?D))"
    by (simp only: of_nat_mult of_nat_add w ac_simps)
  also have "\<dots> = of_nat (row_base meta kp (block, offset) + t)" by (simp only: t B)
  finally have off: "unat (block * of_nat ?P * of_nat ?H * of_nat ?D + offset * of_nat ?H * of_nat ?D + of_nat (t div ?D) * of_nat ?D + of_nat (t mod ?D)) =
      row_base meta kp (block, offset) + t"
    by (simp only:) (rule unat_small, use assms(1,2) in linarith)
  show ?thesis
    using guard D0 assms(3) inoff off [unfolded One_nat_def] by (simp add: kv_update_kernel_def kv_args_of_def udiv_def dm Let_def)
qed

section \<open>Storing a position and reading it back\<close>

lemma kv_dispatch_writes:
  assumes "kp_type kp = Fp32" "distinct [kp_k_pool kp, kp_v_pool kp]" "{k, v, kp_mapping kp} \<inter> {kp_k_pool kp, kp_v_pool kp} = {}"
    and "row_fits meta kp page m (kp_k_pool kp)" "row_fits meta kp page m (kp_v_pool kp)"
    and "page_of m (kp_mapping kp) (kp_slot kp) (of_nat (kp_max_pages kp)) (of_nat (kp_block_size kp)) (of_nat pos) =
      (Ok page :: (spec_error, u32 \<times> u32) outcome)"
    and "load_list m k [0..<mm_n_head_kv meta * mm_head_dim meta] = (Ok ks :: (spec_error, f32 list) outcome)"
    and "load_list m v [0..<mm_n_head_kv meta * mm_head_dim meta] = (Ok vs :: (spec_error, f32 list) outcome)"
  shows "\<exists>m'. run_dispatch lm junk (kv_dispatch meta kp pos k v) m = (Ok m' :: (spec_error, gpu_mem) outcome) \<and>
    elsewhere [kp_k_pool kp, kp_v_pool kp] m m' \<and>
    patched (kp_k_pool kp) (row_base meta kp page) ks m m' \<and> patched (kp_v_pool kp) (row_base meta kp page) vs m m'"
proof -
  let ?n = "mm_n_head_kv meta * mm_head_dim meta" and ?B = "row_base meta kp page" and ?kc = "kp_k_pool kp" and ?vc = "kp_v_pool kp"
  let ?f = "\<lambda>t. kv_update_kernel (kv_args_of meta kp k v pos) (of_nat t)"
  obtain block offset where page: "page = (block, offset)" by (cases page)
  note lk = load_list_nth [OF assms(7), where 'e = spec_error] and lv = load_list_nth [OF assms(8), where 'e = spec_error]
  have f: "?f t m1 = (bind_outcome (store32 ?kc (?B + t) (ks ! t) m1) (store32 ?vc (?B + t) (vs ! t)) :: (spec_error, gpu_mem) outcome)"
    if t: "t < ?n" and m1: "elsewhere [?kc, ?vc] m m1" for t m1
  proof -
    have ld: "load32 m1 b i = (load32 m b i :: (spec_error, u32) outcome)" if "b \<in> {k, v, kp_mapping kp}" for b i
      by (rule elsewhere_load32 [OF m1]) (use that assms(3) in auto)
    have p: "page_of m1 (kp_mapping kp) (kp_slot kp) (of_nat (kp_max_pages kp)) (of_nat (kp_block_size kp)) (of_nat pos) =
        (Ok (block, offset) :: (spec_error, u32 \<times> u32) outcome)" using assms(6) by (simp add: page_of_def ld page)
    have kt: "load32 m1 k t = (Ok (ks ! t) :: (spec_error, u32) outcome)" using lk t by (simp add: ld)
    have vt: "load32 m2 v t = (Ok (vs ! t) :: (spec_error, u32) outcome)" if "store32 ?kc (?B + t) (ks ! t) m1 = (Ok m2 :: (spec_error, gpu_mem) outcome)" for m2
    proof -
      have "load32 m2 v t = (load32 m b' t :: (spec_error, u32) outcome)" if "b' = v" for b'
        by (simp only: that) (rule elsewhere_load32 [OF elsewhere_store [OF m1 \<open>store32 ?kc (?B + t) (ks ! t) m1 = Ok m2\<close>]], use assms(3) in auto)
      with lv t show ?thesis by simp
    qed
    have "row_base meta kp (block, offset) + ?n < 2 ^ 32" using assms(4) by (simp add: row_fits_def page)
    from kv_update_thread [OF this t p, of k v] kt vt show ?thesis
      by (cases "store32 ?kc (?B + t) (ks ! t) m1 :: (spec_error, gpu_mem) outcome") (simp_all add: page)
  qed
  have "run_dispatch lm junk (kv_dispatch meta kp pos k v) m = (loop ?f [0..<?n] m :: (spec_error, gpu_mem) outcome)"
    using assms(1) by (simp add: kv_dispatch_def run_dispatch_def run_threads_row [unfolded One_nat_def])
  then show ?thesis
    using two_writers [of ?n ?kc ?vc m ?f ?B ks vs, OF f] assms(2,4,5) lk lv by (simp add: row_fits_def)
qed

lemma patched_row:
  assumes "patched b B xs m m'" "length xs = h * d + d + r"
  shows "load_list m' b (map (\<lambda>i. B + h * d + i) [0..<d]) = (Ok (take d (drop (h * d) xs)) :: (spec_error, f32 list) outcome)"
proof -
  have "load_list m' b (map (\<lambda>i. B + h * d + i) [0..<d]) = (Ok (map (\<lambda>i. xs ! (h * d + i)) [0..<d]) :: (spec_error, f32 list) outcome)"
    by (rule load_list_map_of) (use assms in \<open>auto simp: patched_def\<close>)
  also have "map (\<lambda>i. xs ! (h * d + i)) [0..<d] = take d (drop (h * d) xs)"
    using assms(2) by (intro nth_equalityI) simp_all
  finally show ?thesis .
qed

lemma load_list_same:
  "\<forall>i \<in> set is. load32 m' b (g i) = (load32 m b (g i) :: ('e, u32) outcome) \<Longrightarrow>
    load_list m' b (map g is) = (load_list m b (map g is) :: ('e, u32 list) outcome)"
  by (induction "is") simp_all

lemma rows_apart:
  assumes "row_base meta kp p \<noteq> row_base meta kp q" "i < mm_n_head_kv meta * mm_head_dim meta"
  shows "\<not> (row_base meta kp q \<le> row_base meta kp p + i \<and> row_base meta kp p + i < row_base meta kp q + mm_n_head_kv meta * mm_head_dim meta)"
proof -
  let ?n = "mm_n_head_kv meta * mm_head_dim meta"
  have "\<exists>a. row_base meta kp p = a * ?n" for p by (rule exI) (simp only: row_base_def split_beta)
  then obtain a b where ab: "row_base meta kp p = a * ?n" "row_base meta kp q = b * ?n" by blast
  then have "a \<noteq> b" using assms(1) by auto
  then consider "a + 1 \<le> b" | "b + 1 \<le> a" by linarith
  then show ?thesis
  proof cases
    case 1
    from mult_le_mono1 [OF this, of ?n] assms(2) ab show ?thesis by simp
  next
    case 2
    from mult_le_mono1 [OF this, of ?n] assms(2) ab show ?thesis by simp
  qed
qed

lemma head_in_row: "h < n \<Longrightarrow> i < d \<Longrightarrow> h * d + i < n * (d :: nat)"
proof -
  assume "h < n" "i < d"
  then have "h * d + i < (h + 1) * d" by simp
  also have "\<dots> \<le> n * d" using \<open>h < n\<close> by (intro mult_le_mono1) simp
  finally show ?thesis .
qed

text \<open>C22. The device's cache of single-precision floats (the kernel of \<open>KvCacheType::Fp32\<close>; the other types quantise) returns what was
  stored: after the update for a position has run, the page table still sends every position to the page it sent it to
  before, the attention kernels find for every head the keys and values that the position had in the buffers of keys
  and values at that page, every row of another page or another place in the page reads as before, and
  buffers other than the two of the cache are as they were. The caches are two buffers apart from the inputs and the page table,
  rows fit in them and their addresses in 32 bits.\<close>

theorem metal_cache_roundtrip:
  assumes "kp_type kp = Fp32" "distinct [kp_k_pool kp, kp_v_pool kp]" "{k, v, kp_mapping kp} \<inter> {kp_k_pool kp, kp_v_pool kp} = {}"
    and "row_fits meta kp page m (kp_k_pool kp)" "row_fits meta kp page m (kp_v_pool kp)"
    and "page_of m (kp_mapping kp) (kp_slot kp) (of_nat (kp_max_pages kp)) (of_nat (kp_block_size kp)) (of_nat pos) =
      (Ok page :: (spec_error, u32 \<times> u32) outcome)"
    and "load_list m k [0..<mm_n_head_kv meta * mm_head_dim meta] = (Ok ks :: (spec_error, f32 list) outcome)"
    and "load_list m v [0..<mm_n_head_kv meta * mm_head_dim meta] = (Ok vs :: (spec_error, f32 list) outcome)"
  shows "\<exists>m'. run_dispatch lm junk (kv_dispatch meta kp pos k v) m = (Ok m' :: (spec_error, gpu_mem) outcome) \<and>
    (\<forall>b. b \<noteq> kp_k_pool kp \<longrightarrow> b \<noteq> kp_v_pool kp \<longrightarrow> m' ! b = m ! b) \<and>
    (\<forall>t. page_of m' (kp_mapping kp) (kp_slot kp) (of_nat (kp_max_pages kp)) (of_nat (kp_block_size kp)) t =
      (page_of m (kp_mapping kp) (kp_slot kp) (of_nat (kp_max_pages kp)) (of_nat (kp_block_size kp)) t :: (spec_error, u32 \<times> u32) outcome)) \<and>
    (\<forall>h < mm_n_head_kv meta. \<forall>b xs. (b, xs) \<in> {(kp_k_pool kp, ks), (kp_v_pool kp, vs)} \<longrightarrow>
       cached_row m' b (attn_args_of meta kp out q n_ctx pos') (of_nat h) (fst page) (snd page) =
         (Ok (take (mm_head_dim meta) (drop (h * mm_head_dim meta) xs)) :: (spec_error, f32 list) outcome) \<and>
       (\<forall>other. row_base meta kp other \<noteq> row_base meta kp page \<and> row_fits meta kp other m b \<longrightarrow>
         cached_row m' b (attn_args_of meta kp out q n_ctx pos') (of_nat h) (fst other) (snd other) =
           (cached_row m b (attn_args_of meta kp out q n_ctx pos') (of_nat h) (fst other) (snd other) :: (spec_error, f32 list) outcome)))"
proof -
  let ?H = "mm_n_head_kv meta" and ?D = "mm_head_dim meta"
  let ?aa = "attn_args_of meta kp out q n_ctx pos'"
  from kv_dispatch_writes [OF assms, of lm junk] obtain m' where
    m': "run_dispatch lm junk (kv_dispatch meta kp pos k v) m = (Ok m' :: (spec_error, gpu_mem) outcome)" and
    away: "elsewhere [kp_k_pool kp, kp_v_pool kp] m m'" and
    pt: "patched (kp_k_pool kp) (row_base meta kp page) ks m m'" "patched (kp_v_pool kp) (row_base meta kp page) vs m m'" by blast
  have len: "length ks = ?H * ?D" "length vs = ?H * ?D"
    using load_list_nth [OF assms(7), THEN conjunct1] load_list_nth [OF assms(8), THEN conjunct1] by simp_all
  have "cached_row m' b ?aa (of_nat h) (fst page) (snd page) = (Ok (take ?D (drop (h * ?D) xs)) :: (spec_error, f32 list) outcome) \<and>
      (\<forall>other. row_base meta kp other \<noteq> row_base meta kp page \<and> row_fits meta kp other m b \<longrightarrow>
        cached_row m' b ?aa (of_nat h) (fst other) (snd other) = (cached_row m b ?aa (of_nat h) (fst other) (snd other) :: (spec_error, f32 list) outcome))"
    if h: "h < ?H" and b: "(b, xs) \<in> {(kp_k_pool kp, ks), (kp_v_pool kp, vs)}" for h b xs
  proof
    have p: "patched b (row_base meta kp page) xs m m'" and l: "length xs = ?H * ?D" and fits: "row_fits meta kp page m b"
      using b pt len assms(4,5) by auto
    have "(h + 1) * ?D \<le> ?H * ?D" using h by (intro mult_le_mono1) simp
    then obtain r where r: "?H * ?D = h * ?D + ?D + r" using le_Suc_ex by (metis add.commute distrib_right mult_1)
    have "row_base meta kp (fst page, snd page) + ?H * ?D < 2 ^ 32" using fits by (simp add: row_fits_def)
    note at = cached_row_at [OF this h]
    from patched_row [OF p, of h ?D r] l r
    show "cached_row m' b ?aa (of_nat h) (fst page) (snd page) = (Ok (take ?D (drop (h * ?D) xs)) :: (spec_error, f32 list) outcome)"
      unfolding at by simp
    show "\<forall>other. row_base meta kp other \<noteq> row_base meta kp page \<and> row_fits meta kp other m b \<longrightarrow>
        cached_row m' b ?aa (of_nat h) (fst other) (snd other) = (cached_row m b ?aa (of_nat h) (fst other) (snd other) :: (spec_error, f32 list) outcome)"
    proof (intro allI impI)
      fix other assume o: "row_base meta kp other \<noteq> row_base meta kp page \<and> row_fits meta kp other m b"
      then have "row_base meta kp (fst other, snd other) + ?H * ?D < 2 ^ 32" by (simp add: row_fits_def)
      note at = cached_row_at [OF this h]
      have "load32 m' b (row_base meta kp other + h * ?D + i) = (load32 m b (row_base meta kp other + h * ?D + i) :: (spec_error, u32) outcome)" if "i < ?D" for i
        using rows_apart [OF conjunct1 [OF o] head_in_row [OF h that]] p l by (auto simp: patched_def add.assoc)
      then have "load_list m' b (map (\<lambda>i. row_base meta kp other + h * ?D + i) [0..<?D]) =
          (load_list m b (map (\<lambda>i. row_base meta kp other + h * ?D + i) [0..<?D]) :: (spec_error, f32 list) outcome)"
        by (intro load_list_same) auto
      then show "cached_row m' b ?aa (of_nat h) (fst other) (snd other) = (cached_row m b ?aa (of_nat h) (fst other) (snd other) :: (spec_error, f32 list) outcome)"
        unfolding at by simp
    qed
  qed
  moreover have "page_of m' (kp_mapping kp) (kp_slot kp) (of_nat (kp_max_pages kp)) (of_nat (kp_block_size kp)) t =
      (page_of m (kp_mapping kp) (kp_slot kp) (of_nat (kp_max_pages kp)) (of_nat (kp_block_size kp)) t :: (spec_error, u32 \<times> u32) outcome)" for t
  proof -
    have "load32 m' (kp_mapping kp) i = (load32 m (kp_mapping kp) i :: (spec_error, u32) outcome)" for i
      by (rule elsewhere_load32 [OF away]) (use assms(3) in auto)
    then show ?thesis by (simp add: page_of_def)
  qed
  moreover have "\<forall>b. b \<noteq> kp_k_pool kp \<longrightarrow> b \<noteq> kp_v_pool kp \<longrightarrow> m' ! b = m ! b" using away by (simp add: elsewhere_def)
  ultimately show ?thesis using m' by blast
qed

definition small_place :: kv_place where
  "small_place = \<lparr>kp_slot = 0, kp_mapping = 2, kp_k_pool = 0, kp_v_pool = 1, kp_max_pages = 1, kp_block_size = 1, kp_type = Fp32\<rparr>"

definition small_mem :: gpu_mem where
  "small_mem = [u32_bytes [0, 0, 0, 0], u32_bytes [0, 0, 0, 0], u32_bytes [1], u32_bytes [5, 6], u32_bytes [7, 8]]"

lemma metal_cache_roundtrip_witness:
  "\<forall>lm junk. \<exists>m'. run_dispatch lm junk (kv_dispatch (tiny_meta\<lparr>mm_head_dim := 2\<rparr>) small_place 0 3 4) small_mem = (Ok m' :: (spec_error, gpu_mem) outcome) \<and>
     cached_row m' 1 (attn_args_of (tiny_meta\<lparr>mm_head_dim := 2\<rparr>) small_place 9 9 1 0) 0 1 0 = (Ok [7, 8] :: (spec_error, f32 list) outcome)"
proof (intro allI)
  fix lm junk
  let ?meta = "tiny_meta\<lparr>mm_head_dim := 2\<rparr>" and ?kp = small_place and ?aa = "attn_args_of (tiny_meta\<lparr>mm_head_dim := 2\<rparr>) small_place 9 9 1 0"
  note ld = load_encoded [where m = small_mem and rest = "[]" and 'a = spec_error]
  note l1 = load32_encoded [where m = small_mem and rest = "[]" and 'a = spec_error]
  have a: "kp_type ?kp = Fp32" "distinct [kp_k_pool ?kp, kp_v_pool ?kp]" "{3, 4, kp_mapping ?kp} \<inter> {kp_k_pool ?kp, kp_v_pool ?kp} = {}"
    by (simp_all add: small_place_def)
  have fit: "row_fits ?meta ?kp (1, 0) small_mem (kp_k_pool ?kp)" "row_fits ?meta ?kp (1, 0) small_mem (kp_v_pool ?kp)"
    by (simp_all add: row_fits_def row_base_def small_place_def small_mem_def tiny_meta_def)
  have "load32 small_mem 2 0 = (Ok 1 :: (spec_error, u32) outcome)" using l1 [of 2 "[1]" 0] by (simp add: small_mem_def)
  then have pg: "page_of small_mem (kp_mapping ?kp) (kp_slot ?kp) (of_nat (kp_max_pages ?kp)) (of_nat (kp_block_size ?kp)) (of_nat 0) =
      (Ok (1, 0) :: (spec_error, u32 \<times> u32) outcome)"
    by (simp add: page_of_def small_place_def udiv_def)
  have n: "mm_n_head_kv ?meta * mm_head_dim ?meta = 2" "mm_n_head_kv ?meta = 1" "mm_head_dim ?meta = 2" by (simp_all add: tiny_meta_def)
  have ks: "load_list small_mem 3 [0..<mm_n_head_kv ?meta * mm_head_dim ?meta] = (Ok [5, 6] :: (spec_error, f32 list) outcome)"
    "load_list small_mem 4 [0..<mm_n_head_kv ?meta * mm_head_dim ?meta] = (Ok [7, 8] :: (spec_error, f32 list) outcome)"
    unfolding n(1) using ld [of 3 "[5, 6]"] ld [of 4 "[7, 8]"] by (simp_all add: small_mem_def numeral_2_eq_2)
  from metal_cache_roundtrip [OF a fit pg ks, of lm junk 9 9 1 0] obtain m' where
    m': "run_dispatch lm junk (kv_dispatch ?meta ?kp 0 3 4) small_mem = (Ok m' :: (spec_error, gpu_mem) outcome)" and
    rd: "\<forall>h < mm_n_head_kv ?meta. \<forall>b xs. (b, xs) \<in> {(kp_k_pool ?kp, [5, 6]), (kp_v_pool ?kp, [7, 8])} \<longrightarrow>
       cached_row m' b ?aa (of_nat h) (fst (1 :: u32, 0 :: u32)) (snd (1 :: u32, 0 :: u32)) =
         (Ok (take (mm_head_dim ?meta) (drop (h * mm_head_dim ?meta) xs)) :: (spec_error, f32 list) outcome) \<and>
       (\<forall>other. row_base ?meta ?kp other \<noteq> row_base ?meta ?kp (1, 0) \<and> row_fits ?meta ?kp other small_mem b \<longrightarrow>
         cached_row m' b ?aa (of_nat h) (fst other) (snd other) =
           (cached_row small_mem b ?aa (of_nat h) (fst other) (snd other) :: (spec_error, f32 list) outcome))"
    by (elim exE conjE) (rule that)
  have "cached_row m' 1 ?aa 0 1 0 = (Ok [7, 8] :: (spec_error, f32 list) outcome)"
    using rd [rule_format, of 0 1 "[7, 8]", THEN conjunct1] n by (simp add: small_place_def)
  with m' show "\<exists>m'. run_dispatch lm junk (kv_dispatch ?meta ?kp 0 3 4) small_mem = (Ok m' :: (spec_error, gpu_mem) outcome) \<and>
     cached_row m' 1 ?aa 0 1 0 = (Ok [7, 8] :: (spec_error, f32 list) outcome)" by blast
qed

end
