(* ===== verification/CInterface.thy ===== *)
theory CInterface
  imports MetalRuntime MetalModel
begin

text \<open>
  The C interface (\<open>src/src/ffi.rs\<close>). A pointer is an option, \<open>None\<close> the null pointer; a C string is its bytes
  before the terminating zero. A handle is the engine it points to: what a caller does with a pointer that the
  interface did not return, or has freed, is undefined and outside the model. Freeing changes nothing that is modelled.
\<close>

definition ffi_config :: "usize \<Rightarrow> usize \<Rightarrow> engine_config" where
  "ffi_config n_slots n_tokens =
     \<lparr>ec_draft_window = 8, ec_memory = runtime_config_cpu n_tokens 16 32 n_slots n_slots, ec_kv_type = Fp32\<rparr>"

definition ffi_runtime_config :: "rust_string \<Rightarrow> usize \<Rightarrow> usize \<Rightarrow> metal_runtime_config" where
  "ffi_runtime_config model_name n_slots n_tokens =
     \<lparr>mrc_model_name = text_of model_name, mrc_memory = ec_memory (ffi_config n_slots n_tokens),
      mrc_quantization = Quant_Q4_0, mrc_tensor_parallel_degree = 1\<rparr>"

definition velo_core_engine_new ::
  "metal_device \<Rightarrow> rust_string option \<Rightarrow> usize \<Rightarrow> usize \<Rightarrow> ('e, (metal_runtime, 'j, 'm) engine option) outcome" where
  "velo_core_engine_new dev model_name n_slots n_tokens =
     (case model_name of
        None \<Rightarrow> Ok None
      | Some bytes \<Rightarrow>
          if \<not> utf8_valid bytes then Ok None
          else case metal_runtime_new dev (ffi_runtime_config bytes n_slots n_tokens) of
                 Err _ \<Rightarrow> Ok None
               | Panic \<Rightarrow> Panic
               | Ok runtime \<Rightarrow>
                   (case engine_with_runtime (ffi_config n_slots n_tokens) runtime of
                      Err _ \<Rightarrow> Ok None
                    | Panic \<Rightarrow> Panic
                    | Ok e \<Rightarrow> Ok (Some e)))"

text \<open>The tokens, and their number for the caller's variable; \<open>has_len\<close> tells that its pointer is not null.\<close>

definition velo_core_engine_generate :: "('r, 'j, 'm) engine option \<Rightarrow> token_id list option \<Rightarrow> usize \<Rightarrow> bool \<Rightarrow> (token_id list \<times> usize) option" where
  "velo_core_engine_generate engine tokens n_new has_len =
     (case (engine, tokens) of
        (Some e, Some ts) \<Rightarrow> if has_len then Some (ts, length ts) else None
      | _ \<Rightarrow> None)"

text \<open>A handle that is not null stands for a sound engine with as many free slots as were asked for, whose blocks
  take \<open>max_context_tokens\<close> bytes for a token: the number of tokens has become the size of one.\<close>

lemma ffi_engine_sound:
  assumes "velo_core_engine_new dev name slots ctx = (Ok (Some e) :: ('x, (metal_runtime, 'j, 'm) engine option) outcome)"
  shows "metal_sound e \<and> slot_pool_capacity e = slots \<and> ms_bytes_per_token (mr_store (eng_runtime e)) = ctx \<and> ctx \<noteq> 0"
proof -
  obtain bytes r where b: "name = Some bytes" "metal_runtime_new dev (ffi_runtime_config bytes slots ctx) = Ok r"
    "engine_with_runtime (ffi_config slots ctx) r = Ok e"
    using assms by (auto simp: velo_core_engine_new_def split: option.splits if_splits outcome.splits)
  have "metal_sound e"
    unfolding metal_sound_def
    using engine_with_runtime_sound(1) [of "ffi_config slots ctx" r e metal_runtime_inv "\<lambda>r. metal_live (mr_store r)" "\<lambda>r. mapped_ids (mr_allocator r)"]
      metal_runtime_new_Ok(1-3) [OF b(2)] b(3) by simp
  moreover have "slot_pool_capacity e = slots"
    using b(3) by (auto simp: engine_with_runtime_def slot_pool_capacity_def slot_pool_new_def slot_capacity_def ffi_config_def
        runtime_config_cpu_def runtime_config_new_def)
  moreover have "ms_bytes_per_token (mr_store (eng_runtime e)) = ctx \<and> ctx \<noteq> 0"
    using b(2,3) by (auto simp: metal_runtime_new_def engine_with_runtime_def ffi_runtime_config_def ffi_config_def Let_def
        runtime_config_cpu_def runtime_config_new_def metal_store_new_def split: if_splits)
  ultimately show ?thesis by blast
qed

end
