(* ===== verification/VeloServe.thy ===== *)
theory VeloServe
  imports SchedulerLife MetalEngine Tokenizer LlamaCpuRun
begin

text \<open>
  The server (\<open>src/src/bin/velo-serve.rs\<close>): how it starts from a model file, how a chat request becomes a request of the
  scheduler, and the events a client is sent for the messages on its channel. The HTTP framework, JSON, the
  parser of arguments and the metrics page, which prints double precision, are left out; rendering a
  chat template is the argument \<open>render\<close>. The scheduler's worker, the engine and the models are those of
  their theories; uploading the weights to the device is the argument \<open>upload\<close>.
\<close>

section \<open>Start\<close>

datatype serve_error = Serve_load load_error | Serve_gguf gguf_error | Serve_spec spec_error | Serve_engine engine_error

definition serve_memory :: "model_meta \<Rightarrow> usize \<Rightarrow> runtime_config" where
  "serve_memory meta slots =
     \<lparr>rc_bytes_per_token = 4, rc_paged_block_size = 16, rc_paged_total_pages = 1024, rc_n_layer = mm_n_layer meta,
      rc_unified_memory = True, rc_max_slots = slots, rc_kv_type = Fp32\<rparr>"

definition serve_runtime_config :: "model_meta \<Rightarrow> usize \<Rightarrow> metal_runtime_config" where
  "serve_runtime_config meta slots =
     \<lparr>mrc_model_name = ''velo-llama'', mrc_memory = serve_memory meta slots, mrc_quantization = mm_quantization meta,
      mrc_tensor_parallel_degree = 1\<rparr>"

definition serve_backend_config :: "model_meta \<Rightarrow> metal_backend_config" where
  "serve_backend_config meta = metal_backend_config_default
     \<lparr>mbc_max_context_tokens := mm_n_ctx meta, mbc_kv_bytes_per_token := 4, mbc_paged_block_size := 16,
      mbc_quantization := mm_quantization meta, mbc_tensor_parallel_degree := 1\<rparr>"

definition serve_engine_config :: "model_meta \<Rightarrow> usize \<Rightarrow> engine_config" where
  "serve_engine_config meta slots = \<lparr>ec_draft_window = 4, ec_memory = serve_memory meta slots, ec_kv_type = Fp32\<rparr>"

definition wired :: "(spec_error, 'g) outcome \<Rightarrow> 'g metal_backend \<Rightarrow> (spec_error, 'g metal_backend) outcome" where
  "wired upload b = (let (r, b1) = wire True True True upload b in bind_outcome r (\<lambda>_. Ok b1))"

text \<open>The tokenizer comes from a second reading of the file; draft and target are clones of one backend.\<close>

definition serve_start ::
  "metal_device \<Rightarrow> (weight_store \<Rightarrow> (spec_error, 'g) outcome) \<Rightarrow> 'p \<Rightarrow> 'w \<Rightarrow> u8 list option \<Rightarrow> usize
   \<Rightarrow> (serve_error, (metal_runtime, 'j, 'm, 'p, 'g metal_backend, 'g metal_backend, 'w) worker \<times> tokenizer) outcome" where
  "serve_start dev upload pool w file slots =
     (case file of
        None \<Rightarrow> Err (Serve_load LoadIo)
      | Some bytes \<Rightarrow>
          bind_outcome (map_err Serve_load (load_gguf file)) (\<lambda>ws.
          let meta = ws_meta ws in
          bind_outcome (map_err Serve_gguf (fst (gguf_read \<lparr>rd_data = bytes, rd_pos = 0\<rparr>))) (\<lambda>gguf.
          bind_outcome (map_err Serve_spec (metal_backend_new (serve_backend_config meta))) (\<lambda>b0.
          bind_outcome (map_err Serve_spec (metal_runtime_new dev (serve_runtime_config meta slots))) (\<lambda>runtime.
          bind_outcome (map_err Serve_spec (wired (upload ws) b0)) (\<lambda>b.
          bind_outcome (map_err Serve_engine (engine_with_runtime (serve_engine_config meta slots) runtime)) (\<lambda>e.
            Ok (scheduler_start e b b pool w, from_gguf gguf))))))))"

section \<open>Requests\<close>

record chat_message =
  msg_role :: rust_string
  msg_content :: rust_string

definition default_max_tokens :: usize where "default_max_tokens = 128"

definition default_template :: rust_string where
  "default_template = ascii
     (''{% for message in messages %}<|im_start|>{{ message.role }}'' @ [CHR 0x0A] @ ''{{ message.content }}<|im_end|>'' @ [CHR 0x0A] @
      ''{% endfor %}{% if add_generation_prompt %}<|im_start|>assistant'' @ [CHR 0x0A] @ ''{% endif %}'')"

definition apply_chat_template ::
  "(rust_string \<Rightarrow> chat_message list \<Rightarrow> bool \<Rightarrow> (rust_string, rust_string) outcome) \<Rightarrow> tokenizer \<Rightarrow> chat_message list \<Rightarrow> bool
   \<Rightarrow> (rust_string, rust_string) outcome" where
  "apply_chat_template render tok msgs generation =
     render (case chat_template tok of None \<Rightarrow> default_template | Some t \<Rightarrow> t) msgs generation"

text \<open>The scheduler's request and the number of tokens of the prompt.\<close>

definition chat_request ::
  "(rust_string \<Rightarrow> chat_message list \<Rightarrow> bool \<Rightarrow> (rust_string, rust_string) outcome) \<Rightarrow> tokenizer \<Rightarrow> chat_message list \<Rightarrow> usize option
   \<Rightarrow> channel \<Rightarrow> channel \<Rightarrow> (rust_string, sched_request \<times> usize) outcome" where
  "chat_request render tok msgs n token_tx done_tx =
     bind_outcome (apply_chat_template render tok msgs True) (\<lambda>text.
     bind_outcome (encode tok text) (\<lambda>ids.
       Ok (submit ids (case n of None \<Rightarrow> default_max_tokens | Some k \<Rightarrow> k) token_tx done_tx, length ids)))"

section \<open>Streams\<close>

record chat_usage =
  cu_prompt_tokens :: usize
  cu_completion_tokens :: usize
  cu_total_tokens :: usize

datatype chat_event = Delta rust_string | Stop chat_usage

text \<open>The messages on the channel: tokens, or an error, which ends the loop.\<close>

fun chat_deltas :: "tokenizer \<Rightarrow> (token_id + 'e) list \<Rightarrow> usize \<Rightarrow> chat_event list \<times> usize" where
  "chat_deltas tok [] n = ([], n)"
| "chat_deltas tok (Inr e # ms) n = ([], n)"
| "chat_deltas tok (Inl t # ms) n = (let (es, k) = chat_deltas tok ms (n + 1) in (Delta (decode tok [t]) # es, k))"

definition chat_stream :: "tokenizer \<Rightarrow> usize \<Rightarrow> (token_id + 'e) list \<Rightarrow> chat_event list" where
  "chat_stream tok prompt_len ms =
     (let (es, n) = chat_deltas tok ms 0
      in es @ [Stop \<lparr>cu_prompt_tokens = prompt_len, cu_completion_tokens = n, cu_total_tokens = prompt_len + n\<rparr>])"

fun event_text :: "chat_event \<Rightarrow> rust_string" where
  "event_text (Delta s) = s"
| "event_text (Stop u) = []"

text \<open>The text of a stream is the decoded tokens, and the last event counts them.\<close>

lemma chat_deltas_tokens:
  "chat_deltas tok (map Inl ts @ (if failed then [Inr e] else [])) n = (map (\<lambda>t. Delta (decode tok [t])) ts, n + length ts)"
  by (induction ts arbitrary: n) simp_all

lemma chat_stream_text:
  "concat (map event_text (chat_stream tok p (map Inl ts @ (if failed then [Inr e] else [])))) = decode tok ts \<and>
   last (chat_stream tok p (map Inl ts @ (if failed then [Inr e] else []))) =
     Stop \<lparr>cu_prompt_tokens = p, cu_completion_tokens = length ts, cu_total_tokens = p + length ts\<rparr>"
  unfolding chat_stream_def chat_deltas_tokens by (simp add: decode_def comp_def)

section \<open>A worker whose target model fails\<close>

text \<open>A target that verifies no batch with a request in it: a round then changes nothing but the states of the models.\<close>

definition target_fails :: "('t, 'm) target_model \<Rightarrow> bool" where
  "target_fails tm \<longleftrightarrow> (\<forall>rs ms t. rs \<noteq> [] \<longrightarrow> \<not> is_Ok (fst (t_verify_batch tm rs (ms, t))))"

lemma failing_step:
  assumes "target_fails tm" "wk_active k \<noteq> []" "sched_step io dm tm k = (x, k')"
  shows "\<exists>d t. k' = k\<lparr>wk_draft := d, wk_target := t\<rparr>"
proof -
  have verify: "\<not> is_Ok (fst (t_verify_batch tm (map (\<lambda>(a, ds). (sess_context (ai_session a), map token ds)) (zip (wk_active k) dss)) (ms, t)))"
    if "\<not> length dss < length (wk_active k)" for dss ms t
  proof -
    have "zip (wk_active k) dss \<noteq> []" using that assms(2) by (cases "wk_active k"; cases dss) auto
    with assms(1) show ?thesis unfolding target_fails_def by simp
  qed
  have same: "k = k\<lparr>wk_draft := wk_draft k, wk_target := wk_target k\<rparr>" "k\<lparr>wk_draft := d\<rparr> = k\<lparr>wk_draft := d, wk_target := wk_target k\<rparr>" for d
    by simp_all
  obtain y ms d where y: "d_draft_batch dm
      (map (\<lambda>a. (sess_context (ai_session a), min (dec_draft_window (eng_decoder (wk_engine k))) (ai_max_new_tokens a - generated_count a))) (wk_active k))
      (map (\<lambda>_. None) (wk_active k), wk_draft k) = (y, (ms, d))" by (rule prod_cases3)
  show ?thesis
  proof (cases "list_ex (\<lambda>a. generated_count a > ai_max_new_tokens a) (wk_active k)")
    case True
    with assms(3) have "k' = k" by (simp add: sched_step_def Let_def)
    with same(1) show ?thesis by blast
  next
    case ok: False
    show ?thesis
    proof (cases "\<exists>dss. y = Ok dss \<and> \<not> length dss < length (wk_active k)")
      case True
      then obtain dss where dss: "y = Ok dss" "\<not> length dss < length (wk_active k)" by blast
      obtain z ms' t where z: "t_verify_batch tm (map (\<lambda>(a, ds). (sess_context (ai_session a), map token ds)) (zip (wk_active k) dss))
          (map (\<lambda>_. None) (wk_active k), wk_target k) = (z, (ms', t))" by (rule prod_cases3)
      with verify [OF dss(2)] have "\<not> is_Ok z" by (metis fst_conv)
      with assms(3) ok y dss z have "k' = k\<lparr>wk_draft := d, wk_target := t\<rparr>"
        by (cases z) (simp_all add: sched_step_def Let_def)
      then show ?thesis by blast
    next
      case False
      with assms(3) ok y have "k' = k\<lparr>wk_draft := d\<rparr>" by (cases y) (auto simp: sched_step_def Let_def)
      with same(2) show ?thesis by metis
    qed
  qed
qed

text \<open>Admission and cleanup send nothing, and the runtime stays as \<open>fed\<close> says.\<close>

abbreviation worker_fed :: "(metal_runtime, 'j, 'm, 'p, 'd, 't, 'w) worker \<Rightarrow> bool" where
  "worker_fed k \<equiv> fed (eng_runtime (wk_engine k))"

lemma admit_request_fed:
  assumes "admit_request io metal_ops dm tm w req (e, d, t) = (x, (e', d', t'))" "fed (eng_runtime e)"
  shows "fed (eng_runtime e')"
proof -
  obtain s e1 where s: "allocate_slot e = (s, e1)" by fastforce
  then have e1: "fed (eng_runtime e1)" using assms(2) by (auto simp: allocate_slot_def split: prod.splits)
  obtain y e2 where y: "prefill metal_ops (sr_prompt req) e1 = (y, e2)" by fastforce
  with keeps_fed_prefill [of "sr_prompt req"] e1 have "fed (eng_runtime e2)" unfolding keeps_fed_def by (metis snd_conv)
  moreover have "e' = e1 \<or> e' = e2"
    using assms(1) s y by (auto simp: admit_request_def Let_def split: option.splits outcome.splits prod.splits)
  ultimately show ?thesis using e1 by blast
qed

lemma admit_all_silent:
  assumes io: "faithful_io io received notified"
  shows "admit_all io metal_ops dm tm reqs k = (x, k') \<Longrightarrow> worker_fed k \<Longrightarrow> worker_fed k' \<and> received (wk_world k') = received (wk_world k)"
proof (induction reqs arbitrary: k)
  case (Cons r reqs)
  show ?case
  proof (cases "length (wk_active k) < slot_pool_capacity (wk_engine k)")
    case True
    obtain y e d t where y: "admit_request io metal_ops dm tm (wk_world k) r (wk_engine k, wk_draft k, wk_target k) = (y, (e, d, t))"
      by (metis prod.collapse)
    note e = admit_request_fed [OF y Cons.prems(2)]
    have drop: "received (tx_drop io c c' w) = received w" for c c' w using io by (simp add: faithful_io_def)
    show ?thesis
    proof (cases y)
      case (Ok a)
      with Cons.IH [of "k\<lparr>wk_engine := e, wk_draft := d, wk_target := t, wk_active := wk_active k @ [a],
          wk_metrics := (wk_metrics k)\<lparr>active_slots := length (wk_active k) + 1\<rparr>\<rparr>"] Cons.prems y True e
      show ?thesis by simp
    next
      case (Err f)
      with Cons.IH [of "k\<lparr>wk_engine := e, wk_draft := d, wk_target := t, wk_world := tx_drop io (sr_token_tx r) (sr_done_tx r) (wk_world k)\<rparr>"]
        Cons.prems y True e drop
      show ?thesis by simp
    next
      case Panic
      with Cons.prems y True e show ?thesis by auto
    qed
  next
    case False
    with Cons.prems show ?thesis by auto
  qed
qed auto

lemma retire_silent:
  assumes "faithful_io io received notified" "retire io n a k = (x, k')"
  shows "eng_runtime (wk_engine k') = eng_runtime (wk_engine k) \<and> received (wk_world k') = received (wk_world k)"
  using assms by (auto simp: retire_def release_slot_def faithful_io_def Let_def split: outcome.splits prod.splits if_splits)

lemma cleanup_silent:
  assumes io: "faithful_io io received notified"
  shows "cleanup io kept rest k = (x, k') \<Longrightarrow>
    eng_runtime (wk_engine k') = eng_runtime (wk_engine k) \<and> received (wk_world k') = received (wk_world k)"
proof (induction rest arbitrary: kept k)
  case (Cons a rest)
  show ?case
  proof (cases "ai_is_done a \<or> ai_is_cancelled io (wk_world k) a")
    case True
    obtain y k1 where r: "retire io (length kept + length rest) a k = (y, k1)" by fastforce
    from Cons.IH [of kept k1] Cons.prems True r retire_silent [OF io r] show ?thesis
      by (cases y) (auto simp: and_then_def)
  next
    case False
    with Cons.IH [of "kept @ [a]" k] Cons.prems show ?thesis by simp
  qed
qed auto

section \<open>The server on the graphics unit\<close>

text \<open>The models are wired to the engine's own runtime: in a round they see it as the admissions of the turn have left
  it. Admission binds slots and prefixes, which does not look at the runtime, so the turn is that of
  models wired to its state in the round.\<close>

definition serve_turn ::
  "'m cfg_matcher \<Rightarrow> 'g gpu_model \<Rightarrow> 'w sched_io \<Rightarrow> ('p, 'g metal_backend, 'g metal_backend) model_control \<Rightarrow> turn_input
   \<Rightarrow> ((metal_runtime, 'j, 'm, 'p, 'g metal_backend, 'g metal_backend, 'w) worker, engine_error, bool) act" where
  "serve_turn mo gpu io ctl inp k =
     (let drafts = (\<lambda>r. greedy_draft_model mo (metal_backend_ops gpu r));
          targets = (\<lambda>r. greedy_target_model mo (metal_backend_ops gpu r));
          k1 = fold (run_command ctl) (ti_commands inp) k; r1 = eng_runtime (wk_engine k1);
          (_, k2) = admit_all io metal_ops (drafts r1) (targets r1) (wk_pending k1 @ ti_requests inp) k1;
          r2 = eng_runtime (wk_engine k2)
      in worker_turn io ctl metal_ops (drafts r2) (targets r2) inp k)"

lemma admit_request_binds:
  assumes "d_bind_slot dm = d_bind_slot dm'" "d_bind_prefix dm = d_bind_prefix dm'" "t_bind_slot tm = t_bind_slot tm'" "t_bind_prefix tm = t_bind_prefix tm'"
  shows "admit_request io rt dm tm = admit_request io rt dm' tm'"
  unfolding admit_request_def assms by (rule refl)

lemma admit_all_binds:
  assumes "d_bind_slot dm = d_bind_slot dm'" "d_bind_prefix dm = d_bind_prefix dm'" "t_bind_slot tm = t_bind_slot tm'" "t_bind_prefix tm = t_bind_prefix tm'"
  shows "admit_all io rt dm tm reqs k = admit_all io rt dm' tm' reqs k"
  by (induction reqs arbitrary: k) (auto simp: admit_request_binds [OF assms] split: prod.splits outcome.splits)

lemma admit_all_any_runtime:
  "admit_all io rt (greedy_draft_model mo (metal_backend_ops gpu r)) (greedy_target_model mo (metal_backend_ops gpu r)) reqs k =
   admit_all io rt (greedy_draft_model mo (metal_backend_ops gpu r')) (greedy_target_model mo (metal_backend_ops gpu r')) reqs k"
  by (rule admit_all_binds) (simp_all add: greedy_draft_model_def greedy_target_model_def metal_backend_ops_def)

lemma serve_turn_silent:
  assumes io: "faithful_io io received notified" and "worker_fed k" and run: "serve_turn mo gpu io ctl inp k = (x, k')"
  shows "worker_fed k' \<and> received (wk_world k') = received (wk_world k)"
proof -
  let ?dm = "\<lambda>r. greedy_draft_model mo (metal_backend_ops gpu r)" and ?tm = "\<lambda>r. greedy_target_model mo (metal_backend_ops gpu r)"
  let ?k1 = "fold (run_command ctl) (ti_commands inp) k"
  let ?r1 = "eng_runtime (wk_engine ?k1)"
  have k1: "wk_active ?k1 = wk_active k" "wk_pending ?k1 = wk_pending k" "wk_engine ?k1 = wk_engine k" "wk_world ?k1 = wk_world k"
    by (simp_all add: fold_commands)
  obtain y k2 where a1: "admit_all io metal_ops (?dm ?r1) (?tm ?r1) (wk_pending ?k1 @ ti_requests inp) ?k1 = (y, k2)" by fastforce
  let ?r = "eng_runtime (wk_engine k2)"
  have run1: "worker_turn io ctl metal_ops (?dm ?r) (?tm ?r) inp k = (x, k')" using run a1 by (simp add: serve_turn_def Let_def)
  have a: "admit_all io metal_ops (?dm ?r) (?tm ?r) (wk_pending ?k1 @ ti_requests inp) ?k1 = (y, k2)"
    using a1 admit_all_any_runtime [of io metal_ops mo gpu ?r] by metis
  have H2: "worker_fed k2 \<and> received (wk_world k2) = received (wk_world k)"
    using admit_all_silent [OF io a] assms(2) by (simp add: k1)
  have fails: "target_fails (?tm ?r)"
    using metal_verify_batch_fails [OF fed_everywhere [OF conjunct1 [OF H2]], of _ mo gpu]
    by (simp add: target_fails_def greedy_target_model_def)
  obtain z k3 where st: "(if wk_active k2 \<noteq> [] then sched_step io (?dm ?r) (?tm ?r) k2 else (Ok (), k2)) = (z, k3)" by fastforce
  have "\<exists>d t. k3 = k2\<lparr>wk_draft := d, wk_target := t\<rparr>"
  proof (cases "wk_active k2 = []")
    case True
    with st have "k3 = k2\<lparr>wk_draft := wk_draft k2, wk_target := wk_target k2\<rparr>" by simp
    then show ?thesis by blast
  qed (use failing_step [OF fails] st in auto)
  with H2 have H3: "worker_fed k3 \<and> received (wk_world k3) = received (wk_world k)" by auto
  obtain v k4 where c: "cleanup io [] (wk_active k3) k3 = (v, k4)" by fastforce
  have H4: "worker_fed k4 \<and> received (wk_world k4) = received (wk_world k)" using cleanup_silent [OF io c] H3 by simp
  have run': "worker_turn io ctl metal_ops (?dm ?r) (?tm ?r) inp k = (case y of
      Err e \<Rightarrow> (Err e, k2) | Panic \<Rightarrow> (Panic, k2)
    | Ok _ \<Rightarrow> if wk_active k2 = [] \<and> wk_pending k2 = []
        then (case ti_awaited inp of Some req \<Rightarrow> (Ok True, k2\<lparr>wk_pending := wk_pending k2 @ [req]\<rparr>) | None \<Rightarrow> (Ok False, k2))
        else if z = Panic then (Panic, k3)
        else (case v of Ok _ \<Rightarrow> (Ok True, k4) | Err e \<Rightarrow> (Err e, k4) | Panic \<Rightarrow> (Panic, k4)))"
    by (simp only: worker_turn_def Let_def a st c prod.case)
  have "k' \<in> {k2, k3, k4} \<or> (\<exists>reqs. k' = k2\<lparr>wk_pending := reqs\<rparr>)"
    using run1 unfolding run' by (auto split: outcome.splits option.splits if_splits)
  then show ?thesis using H2 H3 H4 by auto
qed

text \<open>The life of the server's worker: turns with any requests and commands, and in between whatever the clients do that does not
  unsend what they were sent.\<close>

inductive serve_reach ::
  "'m cfg_matcher \<Rightarrow> 'g gpu_model \<Rightarrow> 'w sched_io \<Rightarrow> ('p, 'g metal_backend, 'g metal_backend) model_control \<Rightarrow> ('w \<Rightarrow> channel \<Rightarrow> token_id list)
   \<Rightarrow> (metal_runtime, 'j, 'm, 'p, 'g metal_backend, 'g metal_backend, 'w) worker
   \<Rightarrow> (metal_runtime, 'j, 'm, 'p, 'g metal_backend, 'g metal_backend, 'w) worker \<Rightarrow> bool"
  for mo gpu io ctl received k0 where
  start: "serve_reach mo gpu io ctl received k0 k0"
| turn: "serve_reach mo gpu io ctl received k0 k \<Longrightarrow> serve_turn mo gpu io ctl inp k = (x, k') \<Longrightarrow> serve_reach mo gpu io ctl received k0 k'"
| clients: "serve_reach mo gpu io ctl received k0 k \<Longrightarrow> received w = received (wk_world k) \<Longrightarrow>
    serve_reach mo gpu io ctl received k0 (k\<lparr>wk_world := w\<rparr>)"

lemma serve_start_worker:
  assumes "serve_start dev upload pool w file slots = Ok (k0, tok)"
  shows "worker_fed k0 \<and> wk_world k0 = w"
proof -
  obtain e :: "(metal_runtime, 'a, 'b) engine" and b meta runtime where
    "k0 = scheduler_start e b b pool w" "engine_with_runtime (serve_engine_config meta slots) runtime = Ok e"
    "metal_runtime_new dev (serve_runtime_config meta slots) = Ok runtime"
    using assms by (auto simp: serve_start_def Let_def split: option.splits)
  then show ?thesis using fed_new by (auto simp: scheduler_start_def engine_with_runtime_def)
qed

text \<open>C18. The server never answers: velo-serve, started on a file that the loader accepts, with the program's greedy models on a Metal
  backend wired to the engine's own runtime, never sends a token to any client, whatever prompts and numbers of tokens (also none) the clients
  ask for, whatever models they switch to and whatever the device computes, in every state of its worker's life; a client whose channel is closed is
  told of no completion tokens. In every round with a request in it the draft or the target model fails: the backend looks
  the pages of a bound prefix up as blocks without tokens, and no state of the runtime has one.\<close>

theorem velo_serve_never_answers:
  assumes "serve_start dev upload pool w file slots = Ok (k0, tok)" "serve_reach mo gpu io ctl received k0 k"
    and "faithful_io io received notified" "received w c = []"
  shows "received (wk_world k) c = [] \<and>
    chat_stream tok n (map Inl (received (wk_world k) c) :: (token_id + engine_error) list) =
      [Stop \<lparr>cu_prompt_tokens = n, cu_completion_tokens = 0, cu_total_tokens = n\<rparr>]"
proof -
  note start = serve_start_worker [OF assms(1)]
  have "worker_fed k \<and> received (wk_world k) = received w" using assms(2)
  proof (induction rule: serve_reach.induct)
    case start
    show ?case using serve_start_worker [OF assms(1)] by simp
  next
    case (turn k inp x k')
    from serve_turn_silent [OF assms(3) _ turn.hyps(2)] turn.IH show ?case by simp
  qed simp
  with assms(4) show ?thesis by (simp add: chat_stream_def)
qed

definition chat_turn :: turn_input where
  "chat_turn = \<lparr>ti_commands = [], ti_requests = [submit [7] 3 5 6, submit [8] 0 7 8], ti_awaited = None\<rparr>"

lemma serve_tiny:
  "\<exists>k0 tok. (serve_start one_device (\<lambda>_. Ok ()) () ([], []) (Some (enc_image tiny_image @ replicate 24 0 @ tiny_data)) 2
     :: (serve_error, (metal_runtime, unit, unit, unit, unit metal_backend, unit metal_backend, log_world) worker \<times> tokenizer) outcome) = Ok (k0, tok)"
proof -
  let ?data = "enc_image tiny_image @ replicate 24 0 @ tiny_data"
  obtain ws s where l: "load_gguf (Some ?data) = Ok ws" "ws_meta ws = tiny_meta" "regular ws" by (rule tiny_regular)
  then obtain g r where g: "gguf_read \<lparr>rd_data = ?data, rd_pos = 0\<rparr> = (Ok g, r)"
    by (auto simp: load_gguf_def split: prod.splits outcome.splits)
  have b: "\<exists>b. metal_backend_new (serve_backend_config tiny_meta) = (Ok b :: (spec_error, unit metal_backend) outcome)"
    by (simp add: metal_backend_new_def serve_backend_config_def metal_backend_config_default_def tiny_meta_def)
  have m: "\<exists>r. metal_runtime_new one_device (serve_runtime_config tiny_meta 2) = Ok r"
    by (simp add: metal_runtime_new_def one_device_def serve_runtime_config_def serve_memory_def tiny_meta_def is_space_def metal_store_new_def
        paged_config_new_def max64_def)
  from b m l g show ?thesis
    by (auto simp: serve_start_def wired_def wire_def engine_with_runtime_def serve_engine_config_def decoder_new_def max64_def Let_def)
qed

lemma velo_serve_never_answers_witness:
  "\<exists>k0 tok. (serve_start one_device (\<lambda>_. Ok ()) () ([], []) (Some (enc_image tiny_image @ replicate 24 0 @ tiny_data)) 2
     :: (serve_error, (metal_runtime, unit, unit, unit, unit metal_backend, unit metal_backend, log_world) worker \<times> tokenizer) outcome) = Ok (k0, tok) \<and>
   (\<forall>idle. log_received (wk_world (snd (serve_turn idle echo_gpu log_io keep_models chat_turn k0))) 5 = [])"
proof -
  obtain k0 tok where s: "(serve_start one_device (\<lambda>_. Ok ()) () ([], []) (Some (enc_image tiny_image @ replicate 24 0 @ tiny_data)) 2
     :: (serve_error, (metal_runtime, unit, unit, unit, unit metal_backend, unit metal_backend, log_world) worker \<times> tokenizer) outcome) = Ok (k0, tok)"
    using serve_tiny by blast
  have "log_received (wk_world (snd (serve_turn idle echo_gpu log_io keep_models chat_turn k0))) 5 = []" for idle
  proof -
    obtain x k where t: "serve_turn idle echo_gpu log_io keep_models chat_turn k0 = (x, k)" by fastforce
    from velo_serve_never_answers [OF s serve_reach.turn [OF serve_reach.start t] log_io_faithful, of 5] t
    show ?thesis by (simp add: log_received_def)
  qed
  with s show ?thesis by blast
qed

end
