(* ===== verification/Spec2Isabelle.thy ===== *)
theory Spec2Isabelle
  imports SlotManager KvStore PagedAttention PrefixCache SpecTreeProps EngineLive SchedulerLife Disagg MockBackend
    Tokenizer QuantProps MetalBackend LlamaCpuCache VeloRun VeloBench VeloSpec MetalEngine Hybrid Constraints
    GpuSampling TpProps GpuTree GpuCache CInterface VeloServe
begin

text \<open>
  A verification library for velo-core, an inference engine for large language models in Rust (\<open>src/src\<close>).

  \<^bold>\<open>The program.\<close> A request is a prompt and a number of tokens. The engine (\<open>engine.rs\<close>) takes a slot for it from
  the slot pool (\<open>slot_manager.rs\<close>), looks its prompt up in a radix tree of cached prefixes
  (\<open>radix_cache.rs\<close>), and caches it: a block in the key-value store (\<open>kv_store.rs\<close>) and pages of the paged
  attention manager (\<open>paged_attention.rs\<close>), which the memory runtime (\<open>runtime.rs\<close>, on the GPU
  \<open>metal/runtime.rs\<close> and \<open>metal/kv_store.rs\<close>) holds together. Then the speculative decoder
  (\<open>speculative.rs\<close>) alternates between a draft model that proposes tokens and a target model that
  verifies them; both are made of a backend that computes logits (\<open>backend.rs\<close>; \<open>llama_cpu.rs\<close>,
  \<open>mock_backend.rs\<close>, \<open>metal/backend.rs\<close>), a sampler (\<open>sampling.rs\<close>) and a grammar matcher
  (\<open>constraints.rs\<close>). The scheduler (\<open>scheduler.rs\<close>) does the same for many clients in one worker loop that
  streams tokens over channels. Weights come from GGUF files (\<open>gguf.rs\<close>, \<open>model_loader.rs\<close>, \<open>quant.rs\<close>,
  \<open>tokenizer.rs\<close>), are split over devices by \<open>metal/sharding.rs\<close>, and sequences prefilled on one node
  move to others over \<open>nixl.rs\<close> in the disaggregated pool of \<open>disagg.rs\<close>. The tools are \<open>bin/velo-run.rs\<close>, which
  generates on the processor, and \<open>bin/velo-bench.rs\<close> on the harness of \<open>benchmark.rs\<close>; \<open>power.rs\<close>, \<open>amx.rs\<close> and
  \<open>lora.rs\<close> stand beside the engine.

  \<^bold>\<open>Conventions\<close> (\<open>Prelude\<close>). A fallible call has an \<open>outcome\<close>: \<open>Ok\<close>, \<open>Err\<close> or \<open>Panic\<close>; a call on \<open>&mut self\<close> is an
  \<open>act\<close>, a function from the state to the outcome and the state left behind, also on errors. Structs are
  records, enums datatypes, identifiers machine words, counts natural numbers with the width written
  out where the code can leave it. Overflow panics, as in a build with overflow checks. A \<open>BTreeMap\<close> is the
  sorted association list of \<open>BTreeMap\<close>, a \<open>HashMap\<close> an association list without an order that
  anything depends on. Floating point is IEEE 754 single precision on bit patterns (\<open>Numbers\<close>, \<open>Float32\<close>).
  The interfaces of the program are records of operations, and their contracts are locales,
  interpreted on the program's own providers where those are defined.

  \<^bold>\<open>Theories and sources.\<close>
  \<^item> \<open>SlotManager\<close>: \<open>slot_manager.rs\<close>. Slots handed out are different and in range (locale \<open>id_pool\<close>,
    which the queue of \<open>fifo_pool\<close> gives, interpreted on the pool).
  \<^item> \<open>CacheTypes\<close>, \<open>RadixCache\<close>, \<open>RadixTree\<close>, \<open>RadixProps\<close>, \<open>PrefixCache\<close>: \<open>radix_cache.rs\<close>. The arena of nodes refines a finite
    map from token sequences to handles: lookup is the longest cached prefix, insertion updates the
    map, eviction removes whole entries, oldest first. Fuel: a walk consumes at least one token per
    node, so the length of the sequence plus one is enough; the invariant shows that no walk runs out.
  \<^item> \<open>KvStore\<close>, \<open>PagedAttention\<close>, \<open>Runtime\<close>: the store, the page manager and the CPU runtime; the locales of a
    block store and of a memory runtime are interpreted on them.
  \<^item> \<open>Speculative\<close>, \<open>SpeculativeProps\<close>, \<open>SpecTreeProps\<close>: \<open>speculative.rs\<close>. Whatever the draft model offers, the output
    equals greedy decoding by the target; trees of drafts yield a longest confirmed path. The decoder's
    loop has fuel; each turn produces a token, so the number of tokens asked for, plus one, is enough.
  \<^item> \<open>Engine\<close>, \<open>EngineProps\<close>, \<open>EngineMemory\<close>, \<open>EngineBatch\<close>, \<open>EngineSpec\<close>, \<open>EngineLive\<close>: \<open>engine.rs\<close>. The invariant of the
    engine (cached sequences, live blocks and mapped pages correspond) in every state its calls lead to, errors included;
    batches answer with the target's own output; resources that suffice are enough to be served.
  \<^item> \<open>Scheduler\<close>, \<open>SchedulerProps\<close>, \<open>SchedulerLife\<close>: \<open>scheduler.rs\<close>. One turn of the worker, its reachable states, what
    clients receive, termination with patient clients, and the slots lost by failed admissions.
  \<^item> \<open>Sampling\<close>, \<open>Backend\<close>, \<open>BackendProps\<close>, \<open>MockBackend\<close>: samplers, logits, greedy models, batches, the scripted backend.
  \<^item> \<open>Gguf\<close>, \<open>GgufProps\<close>, \<open>GgufTypes\<close>, \<open>ModelLoader\<close>, \<open>Quant\<close>, \<open>QuantProps\<close>, \<open>Tokenizer\<close>: files. Reading undoes an encoder, and what is
    read is well formed whatever the bytes; loading, decoding of formats, round trip of the tokenizer.
  \<^item> \<open>LlamaCpu\<close>, \<open>LlamaCpuProps\<close>, \<open>LlamaCpuRun\<close>, \<open>LlamaCpuCache\<close>: \<open>llama_cpu.rs\<close>. A loaded model runs without a panic, and a
    pass depends only on the cache rows before it.
  \<^item> \<open>Sharding\<close>, \<open>MetalRuntime\<close>, \<open>MetalBackend\<close>: \<open>metal/sharding.rs\<close>, \<open>metal/types.rs\<close>, \<open>metal/config.rs\<close>, \<open>metal/kv_store.rs\<close>,
    \<open>metal/runtime.rs\<close>, \<open>metal/backend.rs\<close>, \<open>model_pool.rs\<close>.
  \<^item> \<open>GreedyBatch\<close>: the greedy models on steady backends meet the contract of the engine's batch (locale \<open>batch_models\<close> of
    \<open>EngineBatch\<close>), and the scripted backend is one as long as its script lasts.
  \<^item> \<open>MetalEngine\<close>: what the engine and the Metal backend do together, which is to refuse every request; what the runtime of an engine
    that only prefills keeps.
  \<^item> \<open>GpuKernels\<close>, \<open>GpuKernelProps\<close>: \<open>kernels.metal\<close>, thread by thread on a memory of byte buffers, and what loads, stores and threads
    keep. \<open>MetalModel\<close>, \<open>MetalModelProps\<close>: \<open>metal/model.rs\<close>, which encodes those kernels; the buffers a pass may use, what every
    layer encodes, and that the pass leaves its buffers. \<open>GpuMatvec\<close>, \<open>GpuSampling\<close>, \<open>GpuCache\<close>, \<open>GpuTree\<close>: the kernels compute what the
    CPU computes (matrix products, the largest logit), the paged cache returns what was stored, the map
    of ancestors follows the tree of drafts. \<open>TpModel\<close>, \<open>TpProps\<close>: \<open>metal/tp_model.rs\<close>; products split over devices are the product. A way up the tree has the size of the tree as fuel, which no way exceeds.
  \<^item> \<open>Nixl\<close>, \<open>NixlProps\<close>, \<open>Disagg\<close>: \<open>nixl.rs\<close>, \<open>disagg.rs\<close>. The wire format, hand-off to the least loaded peer, and the
    life of a task from prefill to dispatch.

  \<^item> \<open>Constraints\<close>: \<open>constraints.rs\<close>. The matcher on the grammar parser; drafts under a matcher obey its masks.
  \<^item> \<open>TextParse\<close>, \<open>VeloRun\<close>: Rust's parsing of text, and \<open>bin/velo-run.rs\<close> from the command line to the printed tokens, which are
    those of full re-evaluation.
  \<^item> \<open>VeloSpec\<close>: \<open>bin/velo-spec.rs\<close> on scripted models, from the command line to the printed tokens. The batch loop has one
    turn more than tokens asked for, and every turn gives every request a token.
  \<^item> \<open>VeloServe\<close>: \<open>bin/velo-serve.rs\<close>, the start and the streams of chats; on Metal no token is ever sent. \<open>CInterface\<close>: \<open>ffi.rs\<close>.
  \<^item> \<open>Benchmark\<close>, \<open>BenchTables\<close>, \<open>VeloBench\<close>: \<open>benchmark.rs\<close> and \<open>bin/velo-bench.rs\<close>. What a sample counts on every run,
    labels, and the reader of llama.cpp's tables. The timed loop has the fuel of the decoder's loop, to which it is equal.
  \<^item> \<open>Hybrid\<close>, \<open>Lora\<close>: \<open>power.rs\<close>, \<open>amx.rs\<close> and \<open>lora.rs\<close>. Thresholds of the governor and their monotony, the products, routing;
    the registry of adapters.

  \<^bold>\<open>Parameters.\<close> Not in the repository and therefore arguments: the grammar parser behind a matcher, double precision
  numbers in the tables of benchmarks, what the GPU grants
  (devices, allocations, encoders) and, for the backend, the forward pass of its model, \<open>exp\<close>, \<open>powf\<close> and \<open>sin_cos\<close>, random numbers, the channels
  and the clock of the scheduler. Hypotheses about them are stated in the theorems and instantiated
  in the witnesses.

  \<^bold>\<open>Not modelled.\<close> Reordering and fusion of floating-point operations and the flush of subnormals by the compiler of the kernels, which is run
  with Metal's default options that allow them, and devices that run at the same time;
  the statistics, energy and roofline figures
  of the benchmarks, which are double precision, and the printing of their reports; HTTP, JSON and the
  metrics page of \<open>bin/velo-serve.rs\<close>, \<open>bin/velo-project.rs\<close>, and the run of \<open>bin/velo-spec.rs\<close> on the graphics unit. Times in reports are left
  out, and allocations are taken to succeed.
\<close>

end
